(* ===== verification/Prelude.thy ===== *)
theory Prelude
  imports Main "HOL-Library.Word"
begin

text \<open>
  Shared vocabulary of the development.

  \<^item> \<open>py_error\<close>: the Python exceptions the modelled code raises.
  \<^item> \<open>('s, 'a) eff\<close>: a Python statement or function body over a mutable state \<open>'s\<close>.  The
    result is either an exception (\<open>Inl\<close>) or a value (\<open>Inr\<close>); the state is returned in both
    cases, because the mutations made before a \<^verbatim>\<open>raise\<close> stay visible to the caller.
  \<^item> \<open>seqE\<close>, \<open>bindE\<close>, \<open>forE\<close>, \<open>zoom\<close>: sequencing, binding, \<^verbatim>\<open>for\<close> loops, and running a
    body on one field of a larger object (an alias such as \<^verbatim>\<open>_buf = code_builder.buf\<close>).
  \<^item> the theorem collections \<open>eff_defs\<close> (unfold an effect to its result) and
    \<open>enum_defs\<close> (the byte tables of the enumerations).
\<close>

named_theorems eff_defs "definitions of the effect combinators"
named_theorems enum_defs "byte values of the enumerations"

section \<open>Exceptions and effects\<close>

datatype py_error =
    AssertionError
  | AttributeError
  | IndexError
  | KeyError
  | NotImplementedError
  | OverflowError
  | RecursionError
  | RuntimeError
  | TileInternalError
  | TileTypeError
  | TileValueError
  | TypeError
  | UnicodeEncodeError
  | ValueError
  | ZeroDivisionError

type_synonym ('s, 'a) eff = "'s \<Rightarrow> (py_error + 'a) \<times> 's"

definition retE :: "'a \<Rightarrow> ('s, 'a) eff" where
  [eff_defs]: "retE x = (\<lambda>s. (Inr x, s))"

definition raiseE :: "py_error \<Rightarrow> ('s, 'a) eff" where
  [eff_defs]: "raiseE e = (\<lambda>s. (Inl e, s))"

definition assertE :: "bool \<Rightarrow> ('s, unit) eff" where
  [eff_defs]: "assertE b = (\<lambda>s. (if b then Inr () else Inl AssertionError, s))"

definition getE :: "('s \<Rightarrow> 'a) \<Rightarrow> ('s, 'a) eff" where
  [eff_defs]: "getE f = (\<lambda>s. (Inr (f s), s))"

definition modifyE :: "('s \<Rightarrow> 's) \<Rightarrow> ('s, unit) eff" where
  [eff_defs]: "modifyE f = (\<lambda>s. (Inr (), f s))"

definition bindE :: "('s, 'a) eff \<Rightarrow> ('a \<Rightarrow> ('s, 'b) eff) \<Rightarrow> ('s, 'b) eff" where
  "bindE m k = (\<lambda>s. case m s of (Inl e, t) \<Rightarrow> (Inl e, t) | (Inr x, t) \<Rightarrow> k x t)"

text \<open>A straight-line body: the statements of the list, then the last one.\<close>

primrec seqE :: "('s, unit) eff list \<Rightarrow> ('s, 'a) eff \<Rightarrow> ('s, 'a) eff" where
  "seqE [] k = k"
| "seqE (m # ms) k = bindE m (\<lambda>_. seqE ms k)"

definition skipE :: "('s, unit) eff" where
  [eff_defs]: "skipE = retE ()"

primrec forE :: "'b list \<Rightarrow> ('b \<Rightarrow> ('s, unit) eff) \<Rightarrow> ('s, unit) eff" where
  "forE [] f = skipE"
| "forE (x # xs) f = bindE (f x) (\<lambda>_. forE xs f)"

text \<open>\<open>zoom g p m\<close>: run \<open>m\<close> on the part of the state read by \<open>g\<close> and written by \<open>p\<close>.\<close>

definition zoom :: "('s \<Rightarrow> 't) \<Rightarrow> ('t \<Rightarrow> 's \<Rightarrow> 's) \<Rightarrow> ('t, 'a) eff \<Rightarrow> ('s, 'a) eff" where
  "zoom g p m = (\<lambda>s. case m (g s) of (r, t) \<Rightarrow> (r, p t s))"

section \<open>Laws of the combinators\<close>

lemma bindE_Inr [simp]: "m s = (Inr x, t) \<Longrightarrow> bindE m k s = k x t"
  by (simp add: bindE_def)

lemma bindE_Inl [simp]: "m s = (Inl e, t) \<Longrightarrow> bindE m k s = (Inl e, t)"
  by (simp add: bindE_def)

lemma bindE_ret [simp]: "bindE (retE x) k = k x"
  by (simp add: bindE_def retE_def)

lemma bindE_skip [simp]: "bindE skipE k = k ()"
  by (simp add: skipE_def)

lemma bindE_get: "bindE (getE f) k s = k (f s) s"
  by (simp add: bindE_def getE_def)

lemma bindE_modify: "bindE (modifyE f) k s = k () (f s)"
  by (simp add: bindE_def modifyE_def)

lemma bindE_ret_right [simp]: "bindE m retE = m"
  by (auto simp: bindE_def retE_def fun_eq_iff split: prod.splits sum.splits)

lemma bindE_assoc: "bindE (bindE m f) g = bindE m (\<lambda>x. bindE (f x) g)"
  by (auto simp: bindE_def fun_eq_iff split: prod.splits sum.splits)

lemma bindE_Inr_iff:
  "bindE m k s = (Inr y, u) \<longleftrightarrow> (\<exists>x t. m s = (Inr x, t) \<and> k x t = (Inr y, u))"
  by (auto simp: bindE_def split: prod.splits sum.splits)

lemma bindE_Inr_E:
  assumes "bindE m k s = (Inr y, u)"
  obtains x t where "m s = (Inr x, t)" and "k x t = (Inr y, u)"
  using assms by (auto simp: bindE_Inr_iff)

text \<open>
  Evaluation takes a statement to its end before it looks at the next one: the continuation is not a
  \<open>case\<close> branch, which would be simplified for an unknown result first.
\<close>

fun continue_with :: "('a \<Rightarrow> ('s, 'b) eff) \<Rightarrow> (py_error + 'a) \<times> 's \<Rightarrow> (py_error + 'b) \<times> 's" where
  "continue_with k (Inl e, s) = (Inl e, s)"
| "continue_with k (Inr x, s) = k x s"

lemma bindE_code [code]: "bindE m k s = continue_with k (m s)"
  by (auto simp: bindE_def split: prod.splits sum.splits)

lemma seqE_append: "seqE (ms @ ns) k = seqE ms (seqE ns k)"
  by (induction ms) simp_all

lemma zoom_Inr_iff:
  "zoom g p m s = (Inr y, u) \<longleftrightarrow> (\<exists>t. m (g s) = (Inr y, t) \<and> u = p t s)"
  by (auto simp: zoom_def split: prod.splits)

lemma zoom_apply: "m (g s) = (r, t) \<Longrightarrow> zoom g p m s = (r, p t s)"
  by (simp add: zoom_def)

lemma assertE_Inr_iff: "assertE b s = (Inr y, t) \<longleftrightarrow> b \<and> t = s"
  by (auto simp: assertE_def)

lemma assertE_True [simp]: "assertE True = retE ()"
  by (simp add: assertE_def retE_def)

section \<open>Pure computations that may raise\<close>

definition bindS :: "py_error + 'a \<Rightarrow> ('a \<Rightarrow> py_error + 'b) \<Rightarrow> py_error + 'b" where
  "bindS m k = (case m of Inl e \<Rightarrow> Inl e | Inr x \<Rightarrow> k x)"

lemma bindS_simps [simp]: "bindS (Inl e) k = Inl e" "bindS (Inr x) k = k x"
  by (simp_all add: bindS_def)

lemma bindS_Inr_iff: "bindS m k = Inr y \<longleftrightarrow> (\<exists>x. m = Inr x \<and> k x = Inr y)"
  by (cases m) simp_all

definition guardS :: "bool \<Rightarrow> py_error \<Rightarrow> py_error + unit" where
  "guardS b e = (if b then Inr () else Inl e)"

lemma guardS_simps [simp]: "guardS True e = Inr ()" "guardS False e = Inl e"
  by (simp_all add: guardS_def)

lemma guardS_Inr_iff: "guardS b e = Inr u \<longleftrightarrow> b"
  by (cases b) simp_all

fun mapS :: "('a \<Rightarrow> py_error + 'b) \<Rightarrow> 'a list \<Rightarrow> py_error + 'b list" where
  "mapS f [] = Inr []"
| "mapS f (x # xs) = bindS (f x) (\<lambda>y. bindS (mapS f xs) (\<lambda>ys. Inr (y # ys)))"

lemma mapS_Inr_iff: "mapS f xs = Inr ys \<longleftrightarrow> list_all2 (\<lambda>x y. f x = Inr y) xs ys"
  by (induction xs arbitrary: ys) (auto simp: bindS_Inr_iff list_all2_Cons1)

lemma mapS_cong [fundef_cong]:
  "xs = ys \<Longrightarrow> (\<And>x. x \<in> set ys \<Longrightarrow> f x = g x) \<Longrightarrow> mapS f xs = mapS g ys"
  by (induction xs arbitrary: ys) auto

lemma mapS_ident: "(\<And>x. x \<in> set xs \<Longrightarrow> f x = Inr x) \<Longrightarrow> mapS f xs = Inr xs"
  by (induction xs) auto

section \<open>Python strings\<close>

text \<open>A Python \<^verbatim>\<open>str\<close> is a sequence of code points; \<open>lit\<close> writes one from an ASCII literal.\<close>

type_synonym pystr = "nat list"

definition lit :: "string \<Rightarrow> pystr" where
  "lit s = List.map of_char s"

section \<open>Python integers: bits and truth values\<close>

definition pybool :: "bool \<Rightarrow> int" where
  "pybool b = (if b then 1 else 0)"

lemma pybool_nonneg [simp]: "0 \<le> pybool b"
  by (simp add: pybool_def)

lemma bit_pybool [simp]: "bit (pybool b) n \<longleftrightarrow> b \<and> n = 0"
  by (simp add: pybool_def bit_1_iff)

text \<open>\<^verbatim>\<open>int.bit_length\<close>: the number of binary digits of the absolute value.\<close>

fun nat_bits :: "nat \<Rightarrow> nat" where
  "nat_bits n = (if n = 0 then 0 else Suc (nat_bits (n div 2)))"

declare nat_bits.simps [simp del]

definition bit_length :: "int \<Rightarrow> nat" where
  "bit_length x = nat_bits (nat \<bar>x\<bar>)"

lemma nat_bits_0 [simp]: "nat_bits 0 = 0"
  by (simp add: nat_bits.simps)

lemma nat_bits_pos: "0 < n \<Longrightarrow> nat_bits n = Suc (nat_bits (n div 2))"
  by (simp add: nat_bits.simps [of n])

lemma nat_bits_le_iff: "nat_bits n \<le> k \<longleftrightarrow> n < 2 ^ k"
proof (induction k arbitrary: n)
  case 0
  show ?case by (cases "n = 0") (simp_all add: nat_bits_pos)
next
  case (Suc k)
  show ?case
  proof (cases "n = 0")
    case False
    then have "nat_bits n \<le> Suc k \<longleftrightarrow> nat_bits (n div 2) \<le> k"
      by (simp add: nat_bits_pos)
    also have "\<dots> \<longleftrightarrow> n div 2 < 2 ^ k" by (rule Suc.IH)
    also have "\<dots> \<longleftrightarrow> n < 2 ^ Suc k" by (auto simp: div_less_iff_less_mult)
    finally show ?thesis .
  qed simp
qed

end
