(* ===== verification/Bytes.thy ===== *)
theory Bytes
  imports Prelude
begin

text \<open>
  Byte buffers and what the modelled code uses of Python's \<^verbatim>\<open>bytearray\<close> and
  \<^verbatim>\<open>int.to_bytes\<close>, with the decoding vocabulary the round-trip theorems are stated in.

  \<^item> \<open>buf_append\<close>, \<open>buf_extend\<close>: \<^verbatim>\<open>bytearray.append\<close> (which rejects a value outside
    0..255) and \<^verbatim>\<open>bytearray.extend\<close>.
  \<^item> \<open>to_bytes_signed\<close>, \<open>to_bytes_unsigned\<close>: \<^verbatim>\<open>int.to_bytes(w, "little", signed=...)\<close>.
  \<^item> \<open>'a dec\<close>: a decoder takes bytes and returns a value and the bytes it left.
  \<^item> locale \<open>wire_format\<close>: an encoding whose decoder inverts it in front of any bytes.  Its
    lemmas (injectivity, no encoding is a proper prefix of another, sequences of encodings)
    are proved once and hold for every interpretation.
\<close>

type_synonym byte = "8 word"
type_synonym bytes = "byte list"

section \<open>Mutating a buffer\<close>

definition buf_append :: "int \<Rightarrow> (bytes, unit) eff" where
  "buf_append x = (\<lambda>b. if 0 \<le> x \<and> x < 256 then (Inr (), b @ [word_of_int x])
                         else (Inl ValueError, b))"

definition buf_extend :: "bytes \<Rightarrow> (bytes, unit) eff" where
  "buf_extend xs = (\<lambda>b. (Inr (), b @ xs))"

section \<open>Fixed-width little-endian integers\<close>

primrec le_bytes :: "nat \<Rightarrow> int \<Rightarrow> bytes" where
  "le_bytes 0 x = []"
| "le_bytes (Suc w) x = word_of_int (x mod 256) # le_bytes w (x div 256)"

definition to_bytes_unsigned :: "nat \<Rightarrow> int \<Rightarrow> py_error + bytes" where
  "to_bytes_unsigned w x = (if 0 \<le> x \<and> x < 256 ^ w then Inr (le_bytes w x) else Inl OverflowError)"

definition to_bytes_signed :: "nat \<Rightarrow> int \<Rightarrow> py_error + bytes" where
  "to_bytes_signed w x =
     (if - (256 ^ w) \<le> 2 * x \<and> 2 * x < 256 ^ w then Inr (le_bytes w x) else Inl OverflowError)"

definition extend_checked :: "py_error + bytes \<Rightarrow> (bytes, unit) eff" where
  "extend_checked r = (case r of Inl e \<Rightarrow> raiseE e | Inr xs \<Rightarrow> buf_extend xs)"

primrec of_le :: "bytes \<Rightarrow> int" where
  "of_le [] = 0"
| "of_le (b # bs) = uint b + 256 * of_le bs"

definition of_le_signed :: "bytes \<Rightarrow> int" where
  "of_le_signed bs = (let x = of_le bs in
     if 2 * x < 256 ^ length bs then x else x - 256 ^ length bs)"

lemma length_le_bytes [simp]: "length (le_bytes w x) = w"
  by (induction w arbitrary: x) simp_all

lemma uint_of_int_byte: "0 \<le> x \<Longrightarrow> x < 256 \<Longrightarrow> uint (word_of_int x :: byte) = x"
  by (simp add: uint_word_of_int)

lemma of_le_le_bytes: "of_le (le_bytes w x) = x mod 256 ^ w"
proof (induction w arbitrary: x)
  case (Suc w)
  have "x mod (256 * 256 ^ w) = x mod 256 + 256 * (x div 256 mod 256 ^ w)"
    by (simp add: zmod_zmult2_eq)
  then show ?case by (simp add: Suc.IH uint_of_int_byte)
qed simp

lemma of_le_unsigned: "to_bytes_unsigned w x = Inr bs \<Longrightarrow> of_le bs = x \<and> length bs = w"
  by (auto simp: to_bytes_unsigned_def of_le_le_bytes split: if_splits)

lemma of_le_signed_bytes: "to_bytes_signed w x = Inr bs \<Longrightarrow> of_le_signed bs = x \<and> length bs = w"
proof -
  assume "to_bytes_signed w x = Inr bs"
  then have b: "bs = le_bytes w x" and lo: "- (256 ^ w) \<le> 2 * x" and hi: "2 * x < 256 ^ w"
    by (auto simp: to_bytes_signed_def split: if_splits)
  show ?thesis
  proof (cases "0 \<le> x")
    case True
    then have "x mod 256 ^ w = x" using hi by simp
    then show ?thesis using hi by (simp add: b of_le_signed_def of_le_le_bytes)
  next
    case False
    have "x mod 256 ^ w = (x + 256 ^ w) mod 256 ^ w" by simp
    also have "\<dots> = x + 256 ^ w" using False lo by (intro mod_pos_pos_trivial) auto
    finally show ?thesis using lo False by (simp add: b of_le_signed_def of_le_le_bytes Let_def)
  qed
qed

section \<open>Decoders\<close>

type_synonym 'a dec = "bytes \<Rightarrow> ('a \<times> bytes) option"

definition dec_ret :: "'a \<Rightarrow> 'a dec" where
  "dec_ret x = (\<lambda>bs. Some (x, bs))"

definition dec_bind :: "'a dec \<Rightarrow> ('a \<Rightarrow> 'b dec) \<Rightarrow> 'b dec" where
  "dec_bind d k = (\<lambda>bs. case d bs of None \<Rightarrow> None | Some (x, rest) \<Rightarrow> k x rest)"

definition dec_map :: "('a \<Rightarrow> 'b) \<Rightarrow> 'a dec \<Rightarrow> 'b dec" where
  "dec_map f d = dec_bind d (\<lambda>x. dec_ret (f x))"

definition dec_byte :: "byte dec" where
  "dec_byte bs = (case bs of [] \<Rightarrow> None | b # rest \<Rightarrow> Some (b, rest))"

definition dec_take :: "nat \<Rightarrow> bytes dec" where
  "dec_take n bs = (if n \<le> length bs then Some (take n bs, drop n bs) else None)"

text \<open>\<open>dec_n d n\<close>: \<open>n\<close> items one after the other.\<close>

primrec dec_n :: "'a dec \<Rightarrow> nat \<Rightarrow> 'a list dec" where
  "dec_n d 0 = dec_ret []"
| "dec_n d (Suc n) = dec_bind d (\<lambda>x. dec_map (Cons x) (dec_n d n))"

lemma dec_ret_apply [simp]: "dec_ret x bs = Some (x, bs)"
  by (simp add: dec_ret_def)

lemma dec_bind_Some [simp]: "d bs = Some (x, rest) \<Longrightarrow> dec_bind d k bs = k x rest"
  by (simp add: dec_bind_def)

lemma dec_bind_None [simp]: "d bs = None \<Longrightarrow> dec_bind d k bs = None"
  by (simp add: dec_bind_def)

lemma dec_map_Some [simp]: "d bs = Some (x, rest) \<Longrightarrow> dec_map f d bs = Some (f x, rest)"
  by (simp add: dec_map_def)

lemma dec_byte_Cons [simp]: "dec_byte (b # rest) = Some (b, rest)"
  by (simp add: dec_byte_def)

lemma dec_take_append [simp]: "length xs = n \<Longrightarrow> dec_take n (xs @ rest) = Some (xs, rest)"
  by (auto simp: dec_take_def)

section \<open>Self-delimiting formats\<close>

locale wire_format =
  fixes valid :: "'a \<Rightarrow> bool"
    and enc :: "'a \<Rightarrow> bytes"
    and dec :: "'a dec"
  assumes dec_enc: "valid x \<Longrightarrow> dec (enc x @ rest) = Some (x, rest)"
begin

lemma dec_enc_exact: "valid x \<Longrightarrow> dec (enc x) = Some (x, [])"
  using dec_enc [of x "[]"] by simp

lemma prefix_free:
  assumes "valid x" and "valid y" and eq: "enc x @ r = enc y @ s"
  shows "x = y \<and> r = s"
proof -
  have "Some (x, r) = dec (enc x @ r)" using dec_enc [OF assms(1)] by (rule sym)
  also have "\<dots> = dec (enc y @ s)" by (rule arg_cong [OF eq])
  also have "\<dots> = Some (y, s)" by (rule dec_enc [OF assms(2)])
  finally show ?thesis by (rule iffD1 [OF prod.inject, OF option.inject [THEN iffD1]])
qed

lemma enc_inj:
  assumes "valid x" and "valid y" and eq: "enc x = enc y"
  shows "x = y"
proof -
  have "enc x @ [] = enc y @ []" by (rule arg_cong [OF eq])
  from prefix_free [OF assms(1,2) this] show ?thesis ..
qed

lemma no_proper_prefix:
  assumes "valid x" and "valid y" and eq: "enc y = enc x @ r"
  shows "r = []"
proof -
  have "enc x @ r = enc y @ []" by (simp only: eq append_Nil2)
  from prefix_free [OF assms(1,2) this] show ?thesis ..
qed

lemma dec_n_enc:
  "list_all valid xs \<Longrightarrow> dec_n dec (length xs) (concat (List.map enc xs) @ rest) = Some (xs, rest)"
proof (induction xs)
  case (Cons x xs)
  then have "dec (enc x @ concat (List.map enc xs) @ rest) = Some (x, concat (List.map enc xs) @ rest)"
    by (simp add: dec_enc)
  with Cons show ?case by simp
qed simp

lemma concat_inj:
  assumes "list_all valid xs" and "list_all valid ys" and "length xs = length ys"
    and "concat (List.map enc xs) = concat (List.map enc ys)"
  shows "xs = ys"
  using dec_n_enc [OF assms(1), of "[]"] dec_n_enc [OF assms(2), of "[]"] assms(3,4) by simp

end

text \<open>Fixed-width integers are a wire format.\<close>

definition fixed_signed_ok :: "nat \<Rightarrow> int \<Rightarrow> bool" where
  "fixed_signed_ok w x \<longleftrightarrow> - (256 ^ w) \<le> 2 * x \<and> 2 * x < 256 ^ w"

definition dec_signed :: "nat \<Rightarrow> int dec" where
  "dec_signed w = dec_map of_le_signed (dec_take w)"

definition dec_unsigned :: "nat \<Rightarrow> int dec" where
  "dec_unsigned w = dec_map of_le (dec_take w)"

lemma to_bytes_signed_ok: "fixed_signed_ok w x \<Longrightarrow> to_bytes_signed w x = Inr (le_bytes w x)"
  by (simp add: to_bytes_signed_def fixed_signed_ok_def)

interpretation signed_le: wire_format "fixed_signed_ok w" "le_bytes w" "dec_signed w" for w
proof
  fix x rest
  assume "fixed_signed_ok w x"
  then have "of_le_signed (le_bytes w x) = x"
    using of_le_signed_bytes to_bytes_signed_ok by blast
  then show "dec_signed w (le_bytes w x @ rest) = Some (x, rest)"
    by (simp add: dec_signed_def)
qed

interpretation unsigned_le: wire_format "\<lambda>x. 0 \<le> x \<and> x < 256 ^ w" "le_bytes w" "dec_unsigned w" for w
  by unfold_locales (simp add: dec_unsigned_def of_le_le_bytes)

end
