(* ===== verification/BcBasic.thy ===== *)
theory BcBasic
  imports Bytes
begin

text \<open>
  \<^verbatim>\<open>src/cuda/tile/_bytecode/basic.py\<close>: variable-length integers, integer lists and the
  interning tables.

  An interning table is a Python \<^verbatim>\<open>dict\<close> whose \<^verbatim>\<open>__missing__\<close> assigns the next id; the model
  keeps the entries in insertion order.  The locale \<open>interning\<close> is the contract the rest of the
  writer relies on: ids are dense, stable and in one-to-one correspondence with keys.
\<close>

section \<open>Variable-length integers\<close>

primrec varint_loop :: "nat \<Rightarrow> int \<Rightarrow> (bytes, unit) eff" where
  "varint_loop 0 x = buf_append x"
| "varint_loop (Suc n) x =
     bindE (buf_append (or (and x 0x7f) 0x80)) (\<lambda>_. varint_loop n (drop_bit 7 x))"

definition encode_varint :: "int \<Rightarrow> (bytes, unit) eff" where
  "encode_varint x =
     bindE (assertE (0 \<le> x)) (\<lambda>_. varint_loop (nat ((int (bit_length x) - 1) div 7)) x)"

definition encode_signed_varint :: "int \<Rightarrow> (bytes, unit) eff" where
  "encode_signed_varint x =
     (let x' = push_bit 1 x; x'' = (if x' < 0 then not x' else x') in encode_varint x'')"

text \<open>The little-endian base-128 encoding it is meant to produce, and its decoder.\<close>

function varint :: "int \<Rightarrow> bytes" where
  "varint x = (if x < 128 then [word_of_int x]
               else word_of_int (x mod 128 + 128) # varint (x div 128))"
  by pat_completeness auto
termination
  by (relation "measure nat") auto

declare varint.simps [simp del]

fun dec_varint :: "int dec" where
  "dec_varint [] = None"
| "dec_varint (b # bs) =
     (if uint b < 128 then Some (uint b, bs)
      else (case dec_varint bs of None \<Rightarrow> None
            | Some (x, rest) \<Rightarrow> Some (uint b - 128 + 128 * x, rest)))"

lemma dec_varint_varint: "0 \<le> x \<Longrightarrow> dec_varint (varint x @ rest) = Some (x, rest)"
proof (induction x rule: varint.induct)
  case (1 x)
  show ?case
  proof (cases "x < 128")
    case True
    then show ?thesis using 1 by (subst varint.simps) (simp add: uint_of_int_byte)
  next
    case False
    then have "dec_varint (varint (x div 128) @ rest) = Some (x div 128, rest)"
      using 1 by simp
    moreover have "uint (word_of_int (x mod 128 + 128) :: byte) = x mod 128 + 128"
      by (rule uint_of_int_byte) auto
    moreover have "\<not> x mod 128 < 0" by (simp add: not_less)
    ultimately show ?thesis using False by (subst varint.simps) simp
  qed
qed

interpretation varint: wire_format "\<lambda>x. 0 \<le> x" varint dec_varint
  by unfold_locales (rule dec_varint_varint)

lemma varint_small: "x < 128 \<Longrightarrow> varint x = [word_of_int x]"
  by (simp add: varint.simps [of x])

lemma varint_large: "\<not> x < 128 \<Longrightarrow> varint x = word_of_int (x mod 128 + 128) # varint (x div 128)"
  by (simp add: varint.simps [of x])

lemma varint_nonempty [simp]: "varint x \<noteq> []"
  by (subst varint.simps) simp

lemma nat_bits_div2: "nat_bits (n div 2) = nat_bits n - 1"
  by (cases "n = 0") (simp_all add: nat_bits_pos)

lemma nat_bits_div_pow: "nat_bits (n div 2 ^ k) = nat_bits n - k"
proof (induction k arbitrary: n)
  case (Suc k)
  have "n div 2 ^ Suc k = (n div 2) div 2 ^ k" by (simp add: div_mult2_eq)
  then show ?case by (simp add: Suc.IH nat_bits_div2)
qed simp

lemma bit_length_div_128:
  assumes "0 \<le> x"
  shows "int (bit_length (x div 128)) = (if x < 128 then 0 else int (bit_length x) - 7)"
proof -
  have d: "nat \<bar>x div 128\<bar> = nat x div 2 ^ 7"
    using assms by (simp add: nat_div_distrib)
  have le: "nat_bits (nat x) \<le> 7 \<longleftrightarrow> x < 128"
    using assms by (simp add: nat_bits_le_iff nat_less_iff)
  show ?thesis
    unfolding bit_length_def d nat_bits_div_pow using assms le by auto
qed

lemma bit_length_iterations:
  assumes "0 \<le> x"
  shows "nat ((int (bit_length x) - 1) div 7) =
    (if x < 128 then 0 else Suc (nat ((int (bit_length (x div 128)) - 1) div 7)))"
proof (cases "x < 128")
  case True
  then have "nat_bits (nat x) \<le> 7"
    using assms by (simp add: nat_bits_le_iff nat_less_iff)
  then show ?thesis using True assms by (simp add: bit_length_def)
next
  case False
  have "\<not> nat_bits (nat x) \<le> 7"
    using False assms by (simp add: nat_bits_le_iff nat_less_iff)
  then have "7 < int (bit_length x)" using assms by (simp add: bit_length_def)
  then have "0 \<le> (int (bit_length x) - 8) div 7" by simp
  moreover have "(int (bit_length x) - 1) div 7 = (int (bit_length x) - 8) div 7 + 1" by simp
  ultimately show ?thesis using False bit_length_div_128 [OF assms] by (simp add: Suc_nat_eq_nat_zadd1)
qed

lemma continuation_byte: "or (and x 0x7f) 0x80 = x mod 128 + (128 :: int)"
proof -
  have "and x 0x7f = x mod 128" using take_bit_eq_mask [of 7 x] by (simp add: mask_eq_exp_minus_1 take_bit_eq_mod)
  moreover have "or (x mod 128) 128 = x mod 128 + 128"
  proof -
    have "and (x mod 128) 128 = 0"
      using and_exp_eq_0_iff_not_bit [of "x mod 128" 7]
      by (simp add: bit_iff_odd div_eq_0_iff)
    then show ?thesis by (simp add: disjunctive_add_eq_or)
  qed
  ultimately show ?thesis by simp
qed

lemma varint_loop_eq:
  "0 \<le> x \<Longrightarrow> varint_loop (nat ((int (bit_length x) - 1) div 7)) x b = (Inr (), b @ varint x)"
proof (induction x arbitrary: b rule: varint.induct)
  case (1 x)
  show ?case
  proof (cases "x < 128")
    case True
    then show ?thesis using 1
      by (simp add: bit_length_iterations buf_append_def varint.simps [of x])
  next
    case False
    have app: "buf_append (x mod 128 + 128) b = (Inr (), b @ [word_of_int (x mod 128 + 128)])"
    proof -
      have "0 \<le> x mod 128 + 128 \<and> x mod 128 + 128 < 256" by auto
      then show ?thesis by (simp add: buf_append_def)
    qed
    have "drop_bit 7 x = x div 128" by (simp add: drop_bit_eq_div)
    moreover have "0 \<le> x div 128" using 1 by simp
    ultimately show ?thesis using 1 False app
      by (simp add: bit_length_iterations [of x] continuation_byte varint.simps [of x])
  qed
qed

lemma encode_varint_eq [simp]:
  "encode_varint x b = (if 0 \<le> x then (Inr (), b @ varint x) else (Inl AssertionError, b))"
  using varint_loop_eq by (auto simp: encode_varint_def assertE_def bindE_def)

text \<open>\<^verbatim>\<open>encode_signed_varint\<close> is the zigzag map followed by \<^verbatim>\<open>encode_varint\<close>; it never fails.\<close>

definition zigzag :: "int \<Rightarrow> int" where
  "zigzag x = (if 0 \<le> x then 2 * x else - 2 * x - 1)"

definition unzigzag :: "int \<Rightarrow> int" where
  "unzigzag y = (if even y then y div 2 else - (y + 1) div 2)"

lemma zigzag_nonneg [simp]: "0 \<le> zigzag x"
  by (simp add: zigzag_def)

lemma unzigzag_zigzag [simp]: "unzigzag (zigzag x) = x"
proof (cases "0 \<le> x")
  case False
  have "odd (- 2 * x - 1)" by simp
  then show ?thesis using False by (simp add: zigzag_def unzigzag_def)
qed (simp add: zigzag_def unzigzag_def)

lemma encode_signed_varint_eq [simp]:
  "encode_signed_varint x b = (Inr (), b @ varint (zigzag x))"
  by (simp add: encode_signed_varint_def zigzag_def Let_def not_int_def push_bit_eq_mult
      mult.commute [of x 2])

definition dec_signed_varint :: "int dec" where
  "dec_signed_varint = dec_map unzigzag dec_varint"

interpretation signed_varint: wire_format "\<lambda>_. True" "\<lambda>x. varint (zigzag x)" dec_signed_varint
  by unfold_locales (simp add: dec_signed_varint_def dec_varint_varint)

section \<open>Integer lists\<close>

definition encode_int_list :: "int list \<Rightarrow> nat \<Rightarrow> (bytes, unit) eff" where
  "encode_int_list lst byte_width =
     seqE [encode_varint (int (length lst))]
       (forE lst (\<lambda>x. extend_checked (to_bytes_signed byte_width x)))"

definition encode_varint_list :: "int list \<Rightarrow> (bytes, unit) eff" where
  "encode_varint_list lst =
     seqE [encode_varint (int (length lst))] (forE lst encode_varint)"

text \<open>Counted sequences: a varint length, then the items.\<close>

definition sized :: "('a \<Rightarrow> bytes) \<Rightarrow> 'a list \<Rightarrow> bytes" where
  "sized enc xs = varint (int (length xs)) @ concat (List.map enc xs)"

definition dec_sized :: "'a dec \<Rightarrow> 'a list dec" where
  "dec_sized d = dec_bind dec_varint (\<lambda>n. dec_n d (nat n))"

context wire_format
begin

lemma dec_sized_enc:
  "list_all valid xs \<Longrightarrow> dec_sized dec (sized enc xs @ rest) = Some (xs, rest)"
  by (simp add: dec_sized_def sized_def dec_varint_varint dec_n_enc)

lemma sized_format: "wire_format (list_all valid) (sized enc) (dec_sized dec)"
  by unfold_locales (rule dec_sized_enc)

end

text \<open>A loop of byte-writing statements writes the concatenation, or stops at the first error.\<close>

lemma forE_writes:
  assumes "\<And>x b. x \<in> set xs \<Longrightarrow> f x b = (Inr (), b @ g x)"
  shows "forE xs f b = (Inr (), b @ concat (List.map g xs))"
  using assms
proof (induction xs arbitrary: b)
  case (Cons x xs)
  then have "f x b = (Inr (), b @ g x)"
    and "forE xs f (b @ g x) = (Inr (), (b @ g x) @ concat (List.map g xs))" by simp_all
  then show ?case by simp
qed (simp add: skipE_def retE_def)

lemma forE_success:
  assumes "forE xs f b = (Inr (), b')"
    and "\<And>x b b'. x \<in> set xs \<Longrightarrow> f x b = (Inr (), b') \<Longrightarrow> P x \<and> b' = b @ g x"
  shows "list_all P xs \<and> b' = b @ concat (List.map g xs)"
  using assms
proof (induction xs arbitrary: b)
  case (Cons x xs)
  then obtain b1 where 1: "f x b = (Inr (), b1)" and 2: "forE xs f b1 = (Inr (), b')"
    by (auto simp: bindE_Inr_iff)
  have "P x \<and> b1 = b @ g x" using Cons.prems(2) [OF _ 1] by simp
  moreover have "list_all P xs \<and> b' = b1 @ concat (List.map g xs)"
    using Cons.IH [OF 2] Cons.prems(2) by simp
  ultimately show ?case by simp
qed (simp add: skipE_def retE_def)

lemma extend_checked_signed [simp]:
  "extend_checked (to_bytes_signed w x) b =
     (if fixed_signed_ok w x then (Inr (), b @ le_bytes w x) else (Inl OverflowError, b))"
  by (simp add: extend_checked_def to_bytes_signed_def fixed_signed_ok_def buf_extend_def raiseE_def)

lemma encode_int_list_success:
  assumes "encode_int_list lst w b = (Inr (), b')"
  shows "list_all (fixed_signed_ok w) lst \<and> b' = b @ sized (le_bytes w) lst"
proof -
  from assms have "forE lst (\<lambda>x. extend_checked (to_bytes_signed w x))
      (b @ varint (int (length lst))) = (Inr (), b')"
    by (simp add: encode_int_list_def)
  then have "list_all (fixed_signed_ok w) lst
      \<and> b' = (b @ varint (int (length lst))) @ concat (List.map (le_bytes w) lst)"
    by (rule forE_success) (auto split: if_splits)
  then show ?thesis by (simp add: sized_def)
qed

lemma encode_int_list_ok:
  "list_all (fixed_signed_ok w) lst \<Longrightarrow> encode_int_list lst w b = (Inr (), b @ sized (le_bytes w) lst)"
  by (simp add: encode_int_list_def sized_def list_all_iff forE_writes [where g = "le_bytes w"])

lemma encode_int_list_Inr_iff [simp]:
  "encode_int_list lst w b = (Inr u, b') \<longleftrightarrow>
     list_all (fixed_signed_ok w) lst \<and> b' = b @ sized (le_bytes w) lst"
  using encode_int_list_success [of lst w b b'] encode_int_list_ok [of w lst b] by auto

lemma encode_varint_Inr_iff:
  "encode_varint x b = (Inr u, b') \<longleftrightarrow> 0 \<le> x \<and> b' = b @ varint x"
  by auto

lemma buf_extend_Inr_iff [simp]: "buf_extend xs b = (Inr u, b') \<longleftrightarrow> b' = b @ xs"
  by (auto simp: buf_extend_def)

lemma buf_append_Inr_iff [simp]:
  "buf_append x b = (Inr u, b') \<longleftrightarrow> 0 \<le> x \<and> x < 256 \<and> b' = b @ [word_of_int x]"
  by (auto simp: buf_append_def)

lemma skipE_Inr_iff [simp]: "skipE b = (Inr u, b') \<longleftrightarrow> b' = b"
  by (auto simp: skipE_def retE_def)

lemma retE_Inr_iff [simp]: "retE x b = (Inr u, b') \<longleftrightarrow> u = x \<and> b' = b"
  by (auto simp: retE_def)

lemma raiseE_Inr_iff [simp]: "raiseE e b = (Inr u, b') \<longleftrightarrow> False"
  by (auto simp: raiseE_def)

lemma encode_int_list_overflow:
  assumes "\<not> list_all (fixed_signed_ok w) lst"
  shows "fst (encode_int_list lst w b) = Inl OverflowError"
proof -
  have "fst (forE lst (\<lambda>x. extend_checked (to_bytes_signed w x)) c) = Inl OverflowError" for c
    using assms by (induction lst arbitrary: c) (auto simp: bindE_def)
  then show ?thesis by (simp add: encode_int_list_def)
qed

lemma encode_varint_list_success:
  assumes "encode_varint_list lst b = (Inr (), b')"
  shows "list_all (\<lambda>x. 0 \<le> x) lst \<and> b' = b @ sized varint lst"
proof -
  from assms have "forE lst encode_varint (b @ varint (int (length lst))) = (Inr (), b')"
    by (simp add: encode_varint_list_def)
  then have "list_all (\<lambda>x. 0 \<le> x) lst
      \<and> b' = (b @ varint (int (length lst))) @ concat (List.map varint lst)"
    by (rule forE_success) (auto split: if_splits)
  then show ?thesis by (simp add: sized_def)
qed

section \<open>Interning tables\<close>

text \<open>
  \<open>('k, 'v) table\<close>: the entries of a \<^verbatim>\<open>Table[K, V]\<close> in insertion order.
  \<open>table_getitem wrap start k\<close> is \<^verbatim>\<open>table[k]\<close> with \<^verbatim>\<open>_wrapper_type = wrap\<close> and
  \<^verbatim>\<open>_starting_id = start\<close>: the stored id, or \<^verbatim>\<open>__missing__\<close>.
\<close>

type_synonym ('k, 'v) table = "('k \<times> 'v) list"

definition table_missing :: "(int \<Rightarrow> 'v) \<Rightarrow> int \<Rightarrow> 'k \<Rightarrow> (('k, 'v) table, 'v) eff" where
  "table_missing wrap start key =
     (\<lambda>t. let r = wrap (int (length t) + start) in (Inr r, t @ [(key, r)]))"

definition table_getitem :: "(int \<Rightarrow> 'v) \<Rightarrow> int \<Rightarrow> 'k \<Rightarrow> (('k, 'v) table, 'v) eff" where
  "table_getitem wrap start key =
     (\<lambda>t. case map_of t key of Some v \<Rightarrow> (Inr v, t) | None \<Rightarrow> table_missing wrap start key t)"

abbreviation table_keys :: "('k, 'v) table \<Rightarrow> 'k list" where
  "table_keys t \<equiv> List.map fst t"

definition table_ok :: "(int \<Rightarrow> 'v) \<Rightarrow> int \<Rightarrow> ('k, 'v) table \<Rightarrow> bool" where
  "table_ok wrap start t \<longleftrightarrow> distinct (table_keys t) \<and>
     List.map snd t = List.map (\<lambda>i. wrap (int i + start)) [0..<length t]"

text \<open>The contract of a table, for the components that intern through it.\<close>

locale interning =
  fixes getitem :: "'k \<Rightarrow> ('t, 'v) eff"
    and unwrap :: "'v \<Rightarrow> int"
    and start :: int
    and keys :: "'t \<Rightarrow> 'k list"
    and inv :: "'t \<Rightarrow> bool"
  assumes getitem_ok: "inv t \<Longrightarrow> \<exists>v t'. getitem k t = (Inr v, t') \<and> inv t'
      \<and> keys t' = (if k \<in> set (keys t) then keys t else keys t @ [k])
      \<and> start \<le> unwrap v \<and> unwrap v < start + int (length (keys t'))
      \<and> keys t' ! nat (unwrap v - start) = k"
    and keys_distinct: "inv t \<Longrightarrow> distinct (keys t)"
begin

lemma getitem_cases:
  assumes "inv t" and "getitem k t = (r, t')"
  obtains v where "r = Inr v" and "inv t'"
    and "keys t' = (if k \<in> set (keys t) then keys t else keys t @ [k])"
    and "start \<le> unwrap v" and "unwrap v < start + int (length (keys t'))"
    and "keys t' ! nat (unwrap v - start) = k"
  using getitem_ok [OF assms(1), of k] assms(2) by auto

lemma keys_grow:
  assumes "inv t" and "getitem k t = (r, t')"
  shows "\<exists>ys. keys t' = keys t @ ys"
proof -
  have "keys t' = (if k \<in> set (keys t) then keys t else keys t @ [k])"
    by (rule getitem_cases [OF assms])
  then show ?thesis by auto
qed

lemma getitem_position:
  assumes "inv t" and "getitem k t = (Inr v, t')"
  shows "inv t' \<and> start \<le> unwrap v \<and> unwrap v < start + int (length (keys t'))
    \<and> keys t' ! nat (unwrap v - start) = k"
  by (rule getitem_cases [OF assms]) (simp only: sum.inject simp_thms)

text \<open>Two requests get the same id exactly if they are for the same key.\<close>

lemma ids_determine_keys:
  assumes "inv t" and "getitem k t = (Inr v, t1)" and "getitem k' t1 = (Inr v', t2)"
  shows "unwrap v = unwrap v' \<longleftrightarrow> k = k'"
proof -
  note p1 = getitem_position [OF assms(1,2)]
  then have i1: "inv t1" ..
  note p2 = getitem_position [OF i1 assms(3)]
  then have i2: "inv t2" ..
  obtain ys where ys: "keys t2 = keys t1 @ ys" using keys_grow [OF i1 assms(3)] by blast
  let ?i = "nat (unwrap v - start)" and ?j = "nat (unwrap v' - start)"
  have len: "?i < length (keys t1)" "?i < length (keys t2)" "?j < length (keys t2)"
    using p1 p2 ys by (auto simp: nat_less_iff)
  then have "keys t2 ! ?i = k" "keys t2 ! ?j = k'"
    using p1 p2 ys by (simp_all add: nth_append)
  then have "k = k' \<longleftrightarrow> ?i = ?j"
    using nth_eq_iff_index_eq [OF keys_distinct [OF i2] len(2,3)] by simp
  also have "\<dots> \<longleftrightarrow> unwrap v = unwrap v'" using p1 p2 by auto
  finally show ?thesis by simp
qed

lemma getitem_idempotent:
  assumes "inv t" and "getitem k t = (Inr v, t1)" and "getitem k t1 = (Inr v', t2)"
  shows "unwrap v' = unwrap v \<and> keys t2 = keys t1"
proof -
  have i1: "inv t1" using getitem_position [OF assms(1,2)] ..
  have "keys t1 = (if k \<in> set (keys t) then keys t else keys t @ [k])"
    by (rule getitem_cases [OF assms(1,2)])
  then have "k \<in> set (keys t1)" by (auto split: if_splits)
  moreover have "keys t2 = (if k \<in> set (keys t1) then keys t1 else keys t1 @ [k])"
    by (rule getitem_cases [OF i1 assms(3)])
  ultimately show ?thesis using ids_determine_keys [OF assms] by simp
qed

end

text \<open>The dictionary-based table satisfies the contract, for any injective wrapper.\<close>

lemma table_ok_map_of:
  assumes "table_ok wrap start t" and "map_of t k = Some v"
  shows "\<exists>i < length t. fst (t ! i) = k \<and> v = wrap (int i + start)"
proof -
  from map_of_SomeD [OF assms(2)] obtain i where i: "i < length t" "t ! i = (k, v)"
    by (auto simp: in_set_conv_nth)
  have "List.map snd t ! i = List.map (\<lambda>i. wrap (int i + start)) [0..<length t] ! i"
    using assms(1) by (simp add: table_ok_def)
  then show ?thesis using i by auto
qed

lemma table_getitem_ok:
  assumes ok: "table_ok wrap start t" and wrap: "\<And>i. unwrap (wrap i) = i"
  shows "\<exists>v t'. table_getitem wrap start k t = (Inr v, t') \<and> table_ok wrap start t'
    \<and> table_keys t' = (if k \<in> set (table_keys t) then table_keys t else table_keys t @ [k])
    \<and> start \<le> unwrap v \<and> unwrap v < start + int (length (table_keys t'))
    \<and> table_keys t' ! nat (unwrap v - start) = k"
proof (cases "map_of t k")
  case None
  then have "k \<notin> set (table_keys t)" by (simp add: map_of_eq_None_iff)
  then show ?thesis using None ok
    by (simp add: table_getitem_def table_missing_def table_ok_def wrap Let_def nth_append)
next
  case (Some v)
  obtain i where "i < length t" "fst (t ! i) = k" "v = wrap (int i + start)"
    using table_ok_map_of [OF ok Some] by blast
  moreover from this have "k \<in> set (table_keys t)" by (auto intro!: imageI)
  ultimately show ?thesis using Some ok
    by (simp add: table_getitem_def wrap)
qed

lemma table_ok_Nil [simp]: "table_ok wrap start []"
  by (simp add: table_ok_def)

datatype string_id = StringId (string_id: int)

type_synonym string_table = "(bytes, string_id) table"

definition string_table_getitem :: "bytes \<Rightarrow> (string_table, string_id) eff" where
  "string_table_getitem key = table_getitem StringId 0 key"

interpretation strings: interning string_table_getitem string_id 0 table_keys "table_ok StringId 0"
proof
  show "\<exists>v t'. string_table_getitem k t = (Inr v, t') \<and> table_ok StringId 0 t'
      \<and> table_keys t' = (if k \<in> set (table_keys t) then table_keys t else table_keys t @ [k])
      \<and> 0 \<le> string_id v \<and> string_id v < 0 + int (length (table_keys t'))
      \<and> table_keys t' ! nat (string_id v - 0) = k" if "table_ok StringId 0 t" for t k
    unfolding string_table_getitem_def by (rule table_getitem_ok [OF that]) simp
qed (simp add: table_ok_def)

section \<open>UTF-8\<close>

text \<open>\<^verbatim>\<open>str.encode()\<close>: UTF-8; a surrogate code point raises \<^verbatim>\<open>UnicodeEncodeError\<close>.\<close>

definition utf8_char :: "nat \<Rightarrow> bytes" where
  "utf8_char c =
     (if c < 0x80 then [of_nat c]
      else if c < 0x800 then [of_nat (0xC0 + c div 64), of_nat (0x80 + c mod 64)]
      else if c < 0x10000 then
        [of_nat (0xE0 + c div 4096), of_nat (0x80 + c div 64 mod 64), of_nat (0x80 + c mod 64)]
      else
        [of_nat (0xF0 + c div 262144), of_nat (0x80 + c div 4096 mod 64),
         of_nat (0x80 + c div 64 mod 64), of_nat (0x80 + c mod 64)])"

definition is_surrogate :: "nat \<Rightarrow> bool" where
  "is_surrogate c \<longleftrightarrow> 0xD800 \<le> c \<and> c < 0xE000"

lemma is_surrogate_code [code]: "is_surrogate c \<longleftrightarrow> 0xD800 \<le> int c \<and> int c < 0xE000"
  by (simp add: is_surrogate_def)

definition str_encode :: "pystr \<Rightarrow> py_error + bytes" where
  "str_encode s = (if list_ex is_surrogate s then Inl UnicodeEncodeError
                   else Inr (concat (List.map utf8_char s)))"

text \<open>\<^verbatim>\<open>string_table[k.encode()].string_id\<close>, the way every client interns a string.\<close>

definition intern_str :: "pystr \<Rightarrow> (string_table, int) eff" where
  "intern_str s = (case str_encode s of Inl e \<Rightarrow> raiseE e
     | Inr k \<Rightarrow> bindE (string_table_getitem k) (\<lambda>i. retE (string_id i)))"

definition utf8 :: "pystr \<Rightarrow> bytes" where
  "utf8 s = concat (List.map utf8_char s)"

text \<open>\<open>resolves keys i k\<close>: under a table with these keys, id \<open>i\<close> stands for \<open>k\<close>.\<close>

definition resolves :: "'k list \<Rightarrow> int \<Rightarrow> 'k \<Rightarrow> bool" where
  "resolves keys i k \<longleftrightarrow> 0 \<le> i \<and> i < int (length keys) \<and> keys ! nat i = k"

lemma resolves_append: "resolves keys i k \<Longrightarrow> resolves (keys @ ys) i k"
  by (auto simp: resolves_def nth_append nat_less_iff)

lemma resolves_unique: "resolves keys i k \<Longrightarrow> resolves keys i k' \<Longrightarrow> k = k'"
  by (simp add: resolves_def)

lemma intern_str_success:
  assumes "table_ok StringId 0 t" and "intern_str s t = (Inr i, t')"
  shows "table_ok StringId 0 t' \<and> (\<exists>ys. table_keys t' = table_keys t @ ys)
    \<and> resolves (table_keys t') i (utf8 s)"
proof -
  obtain k v where k: "str_encode s = Inr k" and v: "string_table_getitem k t = (Inr v, t')"
    and i: "i = string_id v"
    using assms(2) by (auto simp: intern_str_def raiseE_def retE_def bindE_Inr_iff split: sum.splits)
  have "k = utf8 s" using k by (auto simp: str_encode_def utf8_def split: if_splits)
  then show ?thesis
    using strings.getitem_position [OF assms(1) v] strings.keys_grow [OF assms(1) v]
    by (simp add: resolves_def i)
qed

end
