(* ===== verification/BcTypes.thy ===== *)
theory BcTypes
  imports BcBasic
begin

text \<open>
  \<^verbatim>\<open>version.py\<close>, \<^verbatim>\<open>type_base.py\<close>, \<^verbatim>\<open>type.py\<close> and \<^verbatim>\<open>constant.py\<close> of
  \<^verbatim>\<open>src/cuda/tile/_bytecode\<close>: the bytecode versions, the type table with its encoders, the
  constant table, and the decoder of type table entries.
\<close>

section \<open>Bytecode versions\<close>

datatype bytecode_version = V_13_1 | V_13_2 | V_13_3 | V_13_4 | V_13_5

fun version_value :: "bytecode_version \<Rightarrow> int" where
  "version_value V_13_1 = 130100"
| "version_value V_13_2 = 130200"
| "version_value V_13_3 = 130300"
| "version_value V_13_4 = 130400"
| "version_value V_13_5 = 130500"

instantiation bytecode_version :: linorder
begin

definition less_eq_bytecode_version :: "bytecode_version \<Rightarrow> bytecode_version \<Rightarrow> bool" where
  "less_eq_bytecode_version a b \<longleftrightarrow> version_value a \<le> version_value b"

definition less_bytecode_version :: "bytecode_version \<Rightarrow> bytecode_version \<Rightarrow> bool" where
  "less_bytecode_version a b \<longleftrightarrow> version_value a < version_value b"

instance
proof
  fix x y :: bytecode_version
  show "x \<le> y \<Longrightarrow> y \<le> x \<Longrightarrow> x = y"
    by (cases x; cases y) (simp_all add: less_eq_bytecode_version_def)
qed (auto simp: less_eq_bytecode_version_def less_bytecode_version_def)

end

lemmas version_defs = less_eq_bytecode_version_def less_bytecode_version_def

definition version_major :: "bytecode_version \<Rightarrow> int" where
  "version_major v = version_value v div 10000"

definition version_minor :: "bytecode_version \<Rightarrow> int" where
  "version_minor v = version_value v div 100 mod 100"

definition version_tag :: "bytecode_version \<Rightarrow> int" where
  "version_tag v = version_value v mod 100"

lemma version_parts_inj:
  "version_major v = version_major w \<Longrightarrow> version_minor v = version_minor w \<Longrightarrow> v = w"
  by (cases v; cases w) (simp_all add: version_major_def version_minor_def)

section \<open>Type ids and small enumerations\<close>

datatype type_id = TypeId (type_id: int)

datatype padding_value = PadMissing | PadZero | PadNegZero | PadNan | PadPosInf | PadNegInf

fun padding_value_bytes :: "padding_value \<Rightarrow> bytes" where
  "padding_value_bytes PadMissing = []"
| "padding_value_bytes PadZero = [0x00]"
| "padding_value_bytes PadNegZero = [0x01]"
| "padding_value_bytes PadNan = [0x02]"
| "padding_value_bytes PadPosInf = [0x03]"
| "padding_value_bytes PadNegInf = [0x04]"

datatype ptr_attr = PtrMissing | PtrDefault

fun ptr_attr_bytes :: "ptr_attr \<Rightarrow> bytes" where
  "ptr_attr_bytes PtrMissing = []"
| "ptr_attr_bytes PtrDefault = [0x00]"

definition encode_typeid :: "type_id \<Rightarrow> (bytes, unit) eff" where
  "encode_typeid t = encode_varint (type_id t)"

definition encode_sized_typeid_seq :: "type_id list \<Rightarrow> (bytes, unit) eff" where
  "encode_sized_typeid_seq ts =
     seqE [encode_varint (int (length ts))] (forE ts (\<lambda>t. encode_varint (type_id t)))"

section \<open>Simple and composite types\<close>

datatype simple_type =
    I1 | I8 | I16 | I32 | I64 | F16 | BF16 | F32 | TF32 | F64 | F8E4M3FN | F8E5M2
  | Token | F8E8M0FNU | F4E2M1FN | I4 | FNV8E5M3FNU

fun simple_type_bytes :: "simple_type \<Rightarrow> bytes" where
  "simple_type_bytes I1 = [0x00]"
| "simple_type_bytes I8 = [0x01]"
| "simple_type_bytes I16 = [0x02]"
| "simple_type_bytes I32 = [0x03]"
| "simple_type_bytes I64 = [0x04]"
| "simple_type_bytes F16 = [0x05]"
| "simple_type_bytes BF16 = [0x06]"
| "simple_type_bytes F32 = [0x07]"
| "simple_type_bytes TF32 = [0x08]"
| "simple_type_bytes F64 = [0x09]"
| "simple_type_bytes F8E4M3FN = [0x0a]"
| "simple_type_bytes F8E5M2 = [0x0b]"
| "simple_type_bytes Token = [0x11]"
| "simple_type_bytes F8E8M0FNU = [0x12]"
| "simple_type_bytes F4E2M1FN = [0x13]"
| "simple_type_bytes I4 = [0x16]"
| "simple_type_bytes FNV8E5M3FNU = [0x82, 0x01]"

text \<open>\<^verbatim>\<open>float_bit_size\<close>: a dictionary lookup, so an integer type raises \<^verbatim>\<open>KeyError\<close>.\<close>

fun float_bit_size :: "simple_type \<Rightarrow> py_error + int" where
  "float_bit_size F16 = Inr 16"
| "float_bit_size BF16 = Inr 16"
| "float_bit_size F32 = Inr 32"
| "float_bit_size TF32 = Inr 19"
| "float_bit_size F64 = Inr 64"
| "float_bit_size F8E4M3FN = Inr 8"
| "float_bit_size F8E5M2 = Inr 8"
| "float_bit_size F8E8M0FNU = Inr 8"
| "float_bit_size F4E2M1FN = Inr 4"
| "float_bit_size FNV8E5M3FNU = Inr 8"
| "float_bit_size _ = Inl KeyError"

datatype composite_type =
  CPointer | CTile | CTensorView | CPartitionView | CFunction | CGatherScatterView | CStridedView

fun composite_type_bytes :: "composite_type \<Rightarrow> bytes" where
  "composite_type_bytes CPointer = [0x0c]"
| "composite_type_bytes CTile = [0x0d]"
| "composite_type_bytes CTensorView = [0x0e]"
| "composite_type_bytes CPartitionView = [0x0f]"
| "composite_type_bytes CFunction = [0x10]"
| "composite_type_bytes CGatherScatterView = [0x14]"
| "composite_type_bytes CStridedView = [0x15]"

section \<open>The type table\<close>

text \<open>
  The state of \<^verbatim>\<open>TypeTable\<close> is its dictionary; the version is fixed at construction and passed
  to the operations that read it.  Every composite operation builds the tag bytes in a fresh
  buffer and then interns them: \<open>intern_built\<close>.
\<close>

type_synonym type_table = "(bytes, type_id) table"

definition type_table_getitem :: "bytes \<Rightarrow> (type_table, type_id) eff" where
  "type_table_getitem key = table_getitem TypeId 0 key"

definition intern_built :: "(bytes, unit) eff \<Rightarrow> (type_table, type_id) eff" where
  "intern_built build = (case fst (bindE build (\<lambda>_. getE id) []) of
     Inl e \<Rightarrow> raiseE e | Inr key \<Rightarrow> type_table_getitem key)"

definition predefine :: "bytes \<Rightarrow> type_id \<Rightarrow> (type_table, unit) eff" where
  "predefine tag expected_id = bindE (type_table_getitem tag) (\<lambda>i.
     if type_id i \<noteq> type_id expected_id then raiseE RuntimeError else skipE)"

definition I1_TYPE_ID :: type_id where "I1_TYPE_ID = TypeId 0"
definition I32_TYPE_ID :: type_id where "I32_TYPE_ID = TypeId 1"

definition type_table_init :: "(type_table, unit) eff" where
  "type_table_init =
     seqE [predefine (simple_type_bytes I1) I1_TYPE_ID]
       (predefine (simple_type_bytes I32) I32_TYPE_ID)"

definition new_type_table :: type_table where
  "new_type_table = snd (type_table_init [])"

definition simple :: "simple_type \<Rightarrow> (type_table, type_id) eff" where
  "simple t = type_table_getitem (simple_type_bytes t)"

text \<open>\<^verbatim>\<open>optional_flags\<close>, with bit 0 set when the optional attribute is present.\<close>

definition optional_flags :: "bool \<Rightarrow> int" where
  "optional_flags present = (if present then or 0 (push_bit 0 1) else 0)"

definition encode_ptr_flags :: "bytecode_version \<Rightarrow> ptr_attr \<Rightarrow> (bytes, unit) eff" where
  "encode_ptr_flags v ptrAttr =
     (let use_unified_bitfield = v \<ge> V_13_3 in
      if v \<ge> V_13_4 \<and> use_unified_bitfield
      then encode_varint (optional_flags (ptrAttr \<noteq> PtrMissing)) else skipE)"

definition encode_ptr_attr :: "bytecode_version \<Rightarrow> ptr_attr \<Rightarrow> (bytes, unit) eff" where
  "encode_ptr_attr v ptrAttr =
     (if v \<ge> V_13_4 then buf_extend (ptr_attr_bytes ptrAttr)
      else if ptrAttr \<noteq> PtrMissing then raiseE ValueError else skipE)"

definition build_pointer :: "bytecode_version \<Rightarrow> type_id \<Rightarrow> ptr_attr \<Rightarrow> (bytes, unit) eff" where
  "build_pointer v pointeeType ptrAttr =
     seqE [buf_extend (composite_type_bytes CPointer),
           encode_ptr_flags v ptrAttr,
           encode_varint (type_id pointeeType)]
       (encode_ptr_attr v ptrAttr)"

definition pointer :: "bytecode_version \<Rightarrow> type_id \<Rightarrow> ptr_attr \<Rightarrow> (type_table, type_id) eff" where
  "pointer v pointeeType ptrAttr = intern_built (build_pointer v pointeeType ptrAttr)"

definition build_tile :: "type_id \<Rightarrow> int list \<Rightarrow> (bytes, unit) eff" where
  "build_tile elementType concreteShapeCache =
     seqE [buf_extend (composite_type_bytes CTile),
           encode_varint (type_id elementType)]
       (encode_int_list concreteShapeCache 8)"

definition tile :: "type_id \<Rightarrow> int list \<Rightarrow> (type_table, type_id) eff" where
  "tile elementType concreteShapeCache = intern_built (build_tile elementType concreteShapeCache)"

definition build_tensor_view ::
    "bytecode_version \<Rightarrow> type_id \<Rightarrow> int list \<Rightarrow> int list \<Rightarrow> ptr_attr \<Rightarrow> (bytes, unit) eff" where
  "build_tensor_view v elementType shape strides ptrAttr =
     seqE [buf_extend (composite_type_bytes CTensorView),
           encode_ptr_flags v ptrAttr,
           encode_varint (type_id elementType),
           encode_int_list shape 8,
           encode_int_list strides 8]
       (encode_ptr_attr v ptrAttr)"

definition tensor_view ::
    "bytecode_version \<Rightarrow> type_id \<Rightarrow> int list \<Rightarrow> int list \<Rightarrow> ptr_attr \<Rightarrow> (type_table, type_id) eff" where
  "tensor_view v elementType shape strides ptrAttr =
     intern_built (build_tensor_view v elementType shape strides ptrAttr)"

definition build_partition_view ::
    "bytecode_version \<Rightarrow> int list \<Rightarrow> type_id \<Rightarrow> int list \<Rightarrow> padding_value \<Rightarrow> (bytes, unit) eff" where
  "build_partition_view v tile_shape tview dim_map padding =
     seqE [buf_extend (composite_type_bytes CPartitionView),
           (if v \<ge> V_13_3 then encode_varint (optional_flags (padding \<noteq> PadMissing)) else skipE),
           encode_int_list tile_shape 4,
           encode_varint (type_id tview),
           encode_int_list dim_map 4]
       (if v \<ge> V_13_3 then buf_extend (padding_value_bytes padding)
        else seqE [encode_varint (pybool (padding \<noteq> PadMissing))]
               (buf_extend (padding_value_bytes padding)))"

definition partition_view ::
    "bytecode_version \<Rightarrow> int list \<Rightarrow> type_id \<Rightarrow> int list \<Rightarrow> padding_value \<Rightarrow> (type_table, type_id) eff" where
  "partition_view v tile_shape tview dim_map padding =
     intern_built (build_partition_view v tile_shape tview dim_map padding)"

definition build_gather_scatter_view ::
    "int list \<Rightarrow> type_id \<Rightarrow> int \<Rightarrow> padding_value \<Rightarrow> (bytes, unit) eff" where
  "build_gather_scatter_view tile_shape tview sparse_dim padding =
     seqE [buf_extend (composite_type_bytes CGatherScatterView),
           encode_varint (optional_flags (padding \<noteq> PadMissing)),
           encode_int_list tile_shape 4,
           encode_varint (type_id tview),
           encode_varint sparse_dim]
       (buf_extend (padding_value_bytes padding))"

definition gather_scatter_view ::
    "int list \<Rightarrow> type_id \<Rightarrow> int \<Rightarrow> padding_value \<Rightarrow> (type_table, type_id) eff" where
  "gather_scatter_view tile_shape tview sparse_dim padding =
     intern_built (build_gather_scatter_view tile_shape tview sparse_dim padding)"

definition build_strided_view ::
    "int list \<Rightarrow> int list \<Rightarrow> type_id \<Rightarrow> int list \<Rightarrow> padding_value \<Rightarrow> (bytes, unit) eff" where
  "build_strided_view tile_shape traversal_strides tview dim_map padding =
     seqE [buf_extend (composite_type_bytes CStridedView),
           encode_varint (optional_flags (padding \<noteq> PadMissing)),
           encode_int_list tile_shape 4,
           encode_int_list traversal_strides 4,
           encode_varint (type_id tview),
           encode_int_list dim_map 4]
       (buf_extend (padding_value_bytes padding))"

definition strided_view ::
    "int list \<Rightarrow> int list \<Rightarrow> type_id \<Rightarrow> int list \<Rightarrow> padding_value \<Rightarrow> (type_table, type_id) eff" where
  "strided_view tile_shape traversal_strides tview dim_map padding =
     intern_built (build_strided_view tile_shape traversal_strides tview dim_map padding)"

definition build_function :: "type_id list \<Rightarrow> type_id list \<Rightarrow> (bytes, unit) eff" where
  "build_function parameter_types result_types =
     seqE [buf_extend (composite_type_bytes CFunction),
           encode_sized_typeid_seq parameter_types]
       (encode_sized_typeid_seq result_types)"

definition function_type :: "type_id list \<Rightarrow> type_id list \<Rightarrow> (type_table, type_id) eff" where
  "function_type parameter_types result_types =
     intern_built (build_function parameter_types result_types)"

section \<open>Constants\<close>

datatype constant_id = ConstantId (constant_id: int)

type_synonym constant_table = "(bytes, constant_id) table"

definition constant_table_getitem :: "bytes \<Rightarrow> (constant_table, constant_id) eff" where
  "constant_table_getitem key = table_getitem ConstantId 0 key"

definition dense_constant :: "bytes \<Rightarrow> (constant_table, constant_id) eff" where
  "dense_constant data =
     (case fst (bindE (seqE [encode_varint (int (length data))] (buf_extend data)) (\<lambda>_. getE id) []) of
        Inl e \<Rightarrow> raiseE e | Inr buf \<Rightarrow> constant_table_getitem buf)"

text \<open>The stored entry of a constant: its length, then its data.\<close>

definition constant_entry :: "bytes \<Rightarrow> bytes" where
  "constant_entry data = varint (int (length data)) @ data"

definition dec_constant_entry :: "bytes dec" where
  "dec_constant_entry = dec_bind dec_varint (\<lambda>n. dec_take (nat n))"

interpretation constant_entry: wire_format "\<lambda>_. True" constant_entry dec_constant_entry
  by unfold_locales (simp add: constant_entry_def dec_constant_entry_def varint.dec_enc)

lemma dense_constant_eq: "dense_constant data = constant_table_getitem (constant_entry data)"
  by (simp add: dense_constant_def constant_entry_def buf_extend_def bindE_def getE_def)

interpretation constants: interning constant_table_getitem constant_id 0 table_keys "table_ok ConstantId 0"
proof
  show "\<exists>v t'. constant_table_getitem k t = (Inr v, t') \<and> table_ok ConstantId 0 t'
      \<and> table_keys t' = (if k \<in> set (table_keys t) then table_keys t else table_keys t @ [k])
      \<and> 0 \<le> constant_id v \<and> constant_id v < 0 + int (length (table_keys t'))
      \<and> table_keys t' ! nat (constant_id v - 0) = k" if "table_ok ConstantId 0 t" for t k
    unfolding constant_table_getitem_def by (rule table_getitem_ok [OF that]) simp
qed (simp add: table_ok_def)

interpretation types: interning type_table_getitem type_id 0 table_keys "table_ok TypeId 0"
proof
  show "\<exists>v t'. type_table_getitem k t = (Inr v, t') \<and> table_ok TypeId 0 t'
      \<and> table_keys t' = (if k \<in> set (table_keys t) then table_keys t else table_keys t @ [k])
      \<and> 0 \<le> type_id v \<and> type_id v < 0 + int (length (table_keys t'))
      \<and> table_keys t' ! nat (type_id v - 0) = k" if "table_ok TypeId 0 t" for t k
    unfolding type_table_getitem_def by (rule table_getitem_ok [OF that]) simp
qed (simp add: table_ok_def)

lemma new_type_table_eq:
  "type_table_init [] = (Inr (), new_type_table)"
  "new_type_table = [(simple_type_bytes I1, I1_TYPE_ID), (simple_type_bytes I32, I32_TYPE_ID)]"
  by (simp_all add: type_table_init_def new_type_table_def predefine_def type_table_getitem_def
      table_getitem_def table_missing_def I1_TYPE_ID_def I32_TYPE_ID_def bindE_def
      skipE_def retE_def Let_def)

lemma new_type_table_ok: "table_ok TypeId 0 new_type_table"
  by (simp add: new_type_table_eq table_ok_def I1_TYPE_ID_def I32_TYPE_ID_def)

section \<open>What the entries of the type table mean\<close>

text \<open>
  A type as the caller describes it, the code that writes its table entry, and a reader of
  entries.  A tag is read as a varint, because \<^verbatim>\<open>FNV8E5M3FNU\<close> has a two-byte tag.
\<close>

datatype type_desc =
    DSimple simple_type
  | DPointer type_id ptr_attr
  | DTile type_id "int list"
  | DTensorView type_id "int list" "int list" ptr_attr
  | DPartitionView "int list" type_id "int list" padding_value
  | DGatherScatterView "int list" type_id int padding_value
  | DStridedView "int list" "int list" type_id "int list" padding_value
  | DFunction "type_id list" "type_id list"

fun build_type :: "bytecode_version \<Rightarrow> type_desc \<Rightarrow> (bytes, unit) eff" where
  "build_type v (DSimple t) = buf_extend (simple_type_bytes t)"
| "build_type v (DPointer t a) = build_pointer v t a"
| "build_type v (DTile t s) = build_tile t s"
| "build_type v (DTensorView t sh st a) = build_tensor_view v t sh st a"
| "build_type v (DPartitionView s t d p) = build_partition_view v s t d p"
| "build_type v (DGatherScatterView s t d p) = build_gather_scatter_view s t d p"
| "build_type v (DStridedView s ts t d p) = build_strided_view s ts t d p"
| "build_type v (DFunction ps rs) = build_function ps rs"

fun intern_type :: "bytecode_version \<Rightarrow> type_desc \<Rightarrow> (type_table, type_id) eff" where
  "intern_type v (DSimple t) = simple t"
| "intern_type v (DPointer t a) = pointer v t a"
| "intern_type v (DTile t s) = tile t s"
| "intern_type v (DTensorView t sh st a) = tensor_view v t sh st a"
| "intern_type v (DPartitionView s t d p) = partition_view v s t d p"
| "intern_type v (DGatherScatterView s t d p) = gather_scatter_view s t d p"
| "intern_type v (DStridedView s ts t d p) = strided_view s ts t d p"
| "intern_type v (DFunction ps rs) = function_type ps rs"

definition simple_tags :: "(int \<times> simple_type) list" where
  "simple_tags = [(0, I1), (1, I8), (2, I16), (3, I32), (4, I64), (5, F16), (6, BF16), (7, F32),
     (8, TF32), (9, F64), (10, F8E4M3FN), (11, F8E5M2), (17, Token), (18, F8E8M0FNU),
     (19, F4E2M1FN), (22, I4), (130, FNV8E5M3FNU)]"

definition dec_fail :: "'a dec" where
  "dec_fail bs = None"

definition dec_typeid :: "type_id dec" where
  "dec_typeid = dec_map TypeId dec_varint"

definition dec_ptr_flags :: "bytecode_version \<Rightarrow> int dec" where
  "dec_ptr_flags v = (if v \<ge> V_13_4 then dec_varint else dec_ret 0)"

definition dec_ptr_attr :: "int \<Rightarrow> ptr_attr dec" where
  "dec_ptr_attr flags = (if bit flags 0
     then dec_bind dec_byte (\<lambda>b. if b = 0 then dec_ret PtrDefault else dec_fail)
     else dec_ret PtrMissing)"

definition padding_tags :: "(byte \<times> padding_value) list" where
  "padding_tags = [(0, PadZero), (1, PadNegZero), (2, PadNan), (3, PadPosInf), (4, PadNegInf)]"

definition dec_padding :: "int \<Rightarrow> padding_value dec" where
  "dec_padding flags = (if bit flags 0
     then dec_bind dec_byte (\<lambda>b. case map_of padding_tags b of
            None \<Rightarrow> dec_fail | Some p \<Rightarrow> dec_ret p)
     else dec_ret PadMissing)"

abbreviation dec_ints :: "nat \<Rightarrow> int list dec" where
  "dec_ints w \<equiv> dec_sized (dec_signed w)"

definition dec_composite :: "bytecode_version \<Rightarrow> int \<Rightarrow> type_desc dec" where
  "dec_composite v tag =
     (if tag = 0x0c then
        dec_bind (dec_ptr_flags v) (\<lambda>f. dec_bind dec_typeid (\<lambda>t.
          dec_map (DPointer t) (dec_ptr_attr f)))
      else if tag = 0x0d then
        dec_bind dec_typeid (\<lambda>t. dec_map (DTile t) (dec_ints 8))
      else if tag = 0x0e then
        dec_bind (dec_ptr_flags v) (\<lambda>f. dec_bind dec_typeid (\<lambda>t.
          dec_bind (dec_ints 8) (\<lambda>sh. dec_bind (dec_ints 8) (\<lambda>st.
          dec_map (DTensorView t sh st) (dec_ptr_attr f)))))
      else if tag = 0x0f then
        dec_bind (if v \<ge> V_13_3 then dec_varint else dec_ret 0) (\<lambda>f.
          dec_bind (dec_ints 4) (\<lambda>s. dec_bind dec_typeid (\<lambda>t. dec_bind (dec_ints 4) (\<lambda>d.
          dec_bind (if v \<ge> V_13_3 then dec_ret f else dec_varint) (\<lambda>f'.
          dec_map (DPartitionView s t d) (dec_padding f'))))))
      else if tag = 0x10 then
        dec_bind (dec_sized dec_typeid) (\<lambda>ps. dec_map (DFunction ps) (dec_sized dec_typeid))
      else if tag = 0x14 then
        dec_bind dec_varint (\<lambda>f. dec_bind (dec_ints 4) (\<lambda>s. dec_bind dec_typeid (\<lambda>t.
          dec_bind dec_varint (\<lambda>d. dec_map (DGatherScatterView s t d) (dec_padding f)))))
      else if tag = 0x15 then
        dec_bind dec_varint (\<lambda>f. dec_bind (dec_ints 4) (\<lambda>s. dec_bind (dec_ints 4) (\<lambda>ts.
          dec_bind dec_typeid (\<lambda>t. dec_bind (dec_ints 4) (\<lambda>d.
          dec_map (DStridedView s ts t d) (dec_padding f))))))
      else dec_fail)"

definition dec_type :: "bytecode_version \<Rightarrow> type_desc dec" where
  "dec_type v = dec_bind dec_varint (\<lambda>tag. case map_of simple_tags tag of
     Some t \<Rightarrow> dec_ret (DSimple t) | None \<Rightarrow> dec_composite v tag)"

text \<open>Each building block, as a wire format.\<close>

interpretation typeid: wire_format "\<lambda>t. 0 \<le> type_id t" "\<lambda>t. varint (type_id t)" dec_typeid
  by unfold_locales (simp add: dec_typeid_def varint.dec_enc)

lemma encode_typeid_Inr_iff [simp]:
  "encode_typeid t b = (Inr u, b') \<longleftrightarrow> 0 \<le> type_id t \<and> b' = b @ varint (type_id t)"
  by (auto simp: encode_typeid_def)

lemma encode_sized_typeid_seq_Inr_iff [simp]:
  "encode_sized_typeid_seq ts b = (Inr u, b') \<longleftrightarrow>
     list_all (\<lambda>t. 0 \<le> type_id t) ts \<and> b' = b @ sized (\<lambda>t. varint (type_id t)) ts"
proof
  assume "encode_sized_typeid_seq ts b = (Inr u, b')"
  then have "forE ts (\<lambda>t. encode_varint (type_id t)) (b @ varint (int (length ts))) = (Inr (), b')"
    by (simp add: encode_sized_typeid_seq_def)
  then have "list_all (\<lambda>t. 0 \<le> type_id t) ts
      \<and> b' = (b @ varint (int (length ts))) @ concat (List.map (\<lambda>t. varint (type_id t)) ts)"
    by (rule forE_success) (auto split: if_splits)
  then show "list_all (\<lambda>t. 0 \<le> type_id t) ts \<and> b' = b @ sized (\<lambda>t. varint (type_id t)) ts"
    by (simp add: sized_def)
next
  assume a: "list_all (\<lambda>t. 0 \<le> type_id t) ts \<and> b' = b @ sized (\<lambda>t. varint (type_id t)) ts"
  have "forE ts (\<lambda>t. encode_varint (type_id t)) c =
      (Inr (), c @ concat (List.map (\<lambda>t. varint (type_id t)) ts))" for c
    using a by (intro forE_writes) (auto simp: list_all_iff)
  then show "encode_sized_typeid_seq ts b = (Inr u, b')"
    using a by (simp add: encode_sized_typeid_seq_def sized_def)
qed

lemma optional_flags_simps [simp]: "0 \<le> optional_flags p" "bit (optional_flags p) 0 = p"
  by (simp_all add: optional_flags_def bit_simps)

lemma dec_padding_bytes:
  "dec_padding (optional_flags (p \<noteq> PadMissing)) (padding_value_bytes p @ rest) = Some (p, rest)"
  by (cases p) (simp_all add: dec_padding_def padding_tags_def optional_flags_def bit_simps)

lemma dec_padding_pybool:
  "dec_padding (pybool (p \<noteq> PadMissing)) (padding_value_bytes p @ rest) = Some (p, rest)"
  by (cases p) (simp_all add: dec_padding_def padding_tags_def)

fun simple_tag :: "simple_type \<Rightarrow> int" where
  "simple_tag I1 = 0" | "simple_tag I8 = 1" | "simple_tag I16 = 2" | "simple_tag I32 = 3"
| "simple_tag I64 = 4" | "simple_tag F16 = 5" | "simple_tag BF16 = 6" | "simple_tag F32 = 7"
| "simple_tag TF32 = 8" | "simple_tag F64 = 9" | "simple_tag F8E4M3FN = 10"
| "simple_tag F8E5M2 = 11" | "simple_tag Token = 17" | "simple_tag F8E8M0FNU = 18"
| "simple_tag F4E2M1FN = 19" | "simple_tag I4 = 22" | "simple_tag FNV8E5M3FNU = 130"

lemma simple_tag_varint: "simple_type_bytes t = varint (simple_tag t)"
  by (cases t) (simp_all add: varint_small varint_large)

lemma simple_tag_lookup: "0 \<le> simple_tag t \<and> map_of simple_tags (simple_tag t) = Some t"
  by (cases t) (simp_all add: simple_tags_def)

lemma composite_tag_varint:
  "composite_type_bytes c = varint (case c of CPointer \<Rightarrow> 0x0c | CTile \<Rightarrow> 0x0d | CTensorView \<Rightarrow> 0x0e
     | CPartitionView \<Rightarrow> 0x0f | CFunction \<Rightarrow> 0x10 | CGatherScatterView \<Rightarrow> 0x14 | CStridedView \<Rightarrow> 0x15)"
  by (cases c) (simp_all add: varint_small)

lemma dec_type_composite:
  "0 \<le> tag \<Longrightarrow> map_of simple_tags tag = None \<Longrightarrow>
   dec_type v (varint tag @ bs) = dec_composite v tag bs"
  by (simp add: dec_type_def varint.dec_enc)

lemma dec_type_simple: "dec_type v (simple_type_bytes t @ bs) = Some (DSimple t, bs)"
  using simple_tag_lookup [of t] by (simp add: dec_type_def simple_tag_varint varint.dec_enc)

interpretation ints: wire_format "list_all (fixed_signed_ok w)" "sized (le_bytes w)" "dec_ints w" for w
  by (rule signed_le.sized_format)

interpretation typeids: wire_format "list_all (\<lambda>t. 0 \<le> type_id t)" "sized (\<lambda>t. varint (type_id t))"
    "dec_sized dec_typeid"
  by (rule typeid.sized_format)

lemmas type_wire = varint.dec_enc typeid.dec_enc typeids.dec_enc ints.dec_enc dec_padding_bytes
  dec_padding_pybool

lemma dec_ptr_attr_bytes:
  "dec_ptr_attr (optional_flags (a \<noteq> PtrMissing)) (ptr_attr_bytes a @ rest) = Some (a, rest)"
  by (cases a) (simp_all add: dec_ptr_attr_def optional_flags_def bit_simps)

lemma dec_ptr_attr_0: "dec_ptr_attr 0 bs = Some (PtrMissing, bs)"
  by (simp add: dec_ptr_attr_def)

lemma version_mono [simp]: "V_13_4 \<le> v \<Longrightarrow> V_13_3 \<le> v" "V_13_5 \<le> v \<Longrightarrow> V_13_4 \<le> v"
  "V_13_5 \<le> v \<Longrightarrow> V_13_3 \<le> v" "V_13_3 \<le> v \<Longrightarrow> V_13_2 \<le> v"
  by (cases v; simp add: version_defs)+

lemmas build_defs = build_pointer_def build_tile_def build_tensor_view_def build_partition_view_def
  build_gather_scatter_view_def build_strided_view_def build_function_def
  encode_ptr_flags_def encode_ptr_attr_def

text \<open>Whatever the type table stores for a type is read back as that type, in front of any bytes.\<close>

lemma build_type_dec:
  assumes "build_type v d b = (Inr u, b')"
  shows "\<exists>e. b' = b @ e \<and> (\<forall>rest. dec_type v (e @ rest) = Some (d, rest))"
proof (cases d)
  case (DSimple t)
  then show ?thesis using assms dec_type_simple by auto
next
  case (DPointer t a)
  then show ?thesis using assms
    by (auto simp: bindE_Inr_iff build_defs composite_tag_varint dec_type_composite simple_tags_def
        dec_composite_def dec_ptr_flags_def type_wire dec_ptr_attr_bytes dec_ptr_attr_0 Let_def
        split: if_splits)
next
  case (DTile t s)
  then show ?thesis using assms
    by (auto simp: bindE_Inr_iff build_defs composite_tag_varint dec_type_composite simple_tags_def
        dec_composite_def type_wire split: if_splits)
next
  case (DTensorView t sh st a)
  then show ?thesis using assms
    by (auto simp: bindE_Inr_iff build_defs composite_tag_varint dec_type_composite simple_tags_def
        dec_composite_def dec_ptr_flags_def type_wire dec_ptr_attr_bytes dec_ptr_attr_0 Let_def
        split: if_splits)
next
  case (DPartitionView s t d' p)
  then show ?thesis using assms
    by (auto simp: bindE_Inr_iff build_defs composite_tag_varint dec_type_composite simple_tags_def
        dec_composite_def type_wire split: if_splits)
next
  case (DGatherScatterView s t d' p)
  then show ?thesis using assms
    by (auto simp: bindE_Inr_iff build_defs composite_tag_varint dec_type_composite simple_tags_def
        dec_composite_def type_wire split: if_splits)
next
  case (DStridedView s ts t d' p)
  then show ?thesis using assms
    by (auto simp: bindE_Inr_iff build_defs composite_tag_varint dec_type_composite simple_tags_def
        dec_composite_def type_wire split: if_splits)
next
  case (DFunction ps rs)
  then show ?thesis using assms
    by (auto simp: bindE_Inr_iff build_defs composite_tag_varint dec_type_composite simple_tags_def
        dec_composite_def type_wire split: if_splits)
qed

text \<open>Interning: one id per described type, and its entry reads back as the description.\<close>

lemma intern_built_success:
  assumes "intern_built build t = (Inr i, t')"
  shows "\<exists>e. build [] = (Inr (), e) \<and> type_table_getitem e t = (Inr i, t')"
proof -
  obtain r s where r: "build [] = (r, s)" by (cases "build []")
  show ?thesis using assms r
    by (cases r) (auto simp: intern_built_def getE_def)
qed

lemma intern_type_built: "intern_type v d = intern_built (build_type v d)"
  by (cases d) (simp_all add: pointer_def tile_def tensor_view_def partition_view_def
      gather_scatter_view_def strided_view_def function_type_def simple_def intern_built_def
      buf_extend_def bindE_def getE_def)

lemma intern_type_success:
  assumes ok: "table_ok TypeId 0 t" and run: "intern_type v d t = (Inr i, t')"
  obtains e where "type_table_getitem e t = (Inr i, t')" and "build_type v d [] = (Inr (), e)"
    and "dec_type v e = Some (d, [])"
proof -
  obtain e where e: "build_type v d [] = (Inr (), e)" "type_table_getitem e t = (Inr i, t')"
    using intern_built_success [OF run [unfolded intern_type_built]] by blast
  have "dec_type v e = Some (d, [])" using build_type_dec [OF e(1)] by (auto dest: spec [of _ "[]"])
  then show ?thesis using that e by blast
qed

lemma intern_type_entry:
  assumes ok: "table_ok TypeId 0 t" and run: "intern_type v d t = (Inr i, t')"
  shows "table_ok TypeId 0 t' \<and> (\<exists>ys. table_keys t' = table_keys t @ ys)
    \<and> (\<exists>e. resolves (table_keys t') (type_id i) e \<and> dec_type v e = Some (d, []))"
proof -
  obtain e where e: "type_table_getitem e t = (Inr i, t')" "dec_type v e = Some (d, [])"
    by (rule intern_type_success [OF ok run])
  then show ?thesis
    using types.getitem_position [OF ok e(1)] types.keys_grow [OF ok e(1)]
    by (auto simp: resolves_def)
qed

lemma intern_type_ids:
  assumes ok: "table_ok TypeId 0 t" and run1: "intern_type v d t = (Inr i, t1)"
    and run2: "intern_type v d' t1 = (Inr j, t2)"
  shows "type_id i = type_id j \<longleftrightarrow> d = d'"
proof -
  obtain e where e: "type_table_getitem e t = (Inr i, t1)" "build_type v d [] = (Inr (), e)"
      "dec_type v e = Some (d, [])"
    by (rule intern_type_success [OF ok run1])
  have ok1: "table_ok TypeId 0 t1" using types.getitem_position [OF ok e(1)] ..
  obtain e' where e': "type_table_getitem e' t1 = (Inr j, t2)" "build_type v d' [] = (Inr (), e')"
      "dec_type v e' = Some (d', [])"
    by (rule intern_type_success [OF ok1 run2])
  have "e = e' \<longleftrightarrow> d = d'" using e e' by auto
  then show ?thesis using types.ids_determine_keys [OF ok e(1) e'(1)] by simp
qed

text \<open>A pointer attribute cannot be expressed before 13.4: the table is left as it was.\<close>

lemma intern_built_error:
  assumes "build [] = (Inl e, b)"
  shows "intern_built build t = (Inl e, t)"
  using assms by (simp add: intern_built_def raiseE_def)

lemma ptr_attr_needs_13_4:
  assumes "\<not> V_13_4 \<le> v" and "0 \<le> type_id ty"
  shows "pointer v ty PtrDefault t = (Inl ValueError, t)"
proof -
  have "build_pointer v ty PtrDefault [] = (Inl ValueError, composite_type_bytes CPointer @ varint (type_id ty))"
    using assms by (simp add: build_defs Let_def buf_extend_def skipE_def retE_def raiseE_def bindE_def)
  then show ?thesis unfolding pointer_def by (rule intern_built_error)
qed

end
