(* ===== verification/BcAttribute.thy ===== *)
theory BcAttribute
  imports BcTypes
begin

text \<open>
  \<^verbatim>\<open>src/cuda/tile/_bytecode/attribute.py\<close>: tagged attributes, their encoder, and the reader
  that inverts it.  The encoder mutates the string table and the buffer, so its state is the
  pair of both.
\<close>

section \<open>Attributes\<close>

datatype attribute_tag =
    TagInteger | TagFloat | TagBool | TagType | TagString | TagArray | TagDenseElements
  | TagDivBy | TagSameElements | TagDictionary | TagOptimizationHints | TagBounded

fun attribute_tag_bytes :: "attribute_tag \<Rightarrow> bytes" where
  "attribute_tag_bytes TagInteger = [0x01]"
| "attribute_tag_bytes TagFloat = [0x02]"
| "attribute_tag_bytes TagBool = [0x03]"
| "attribute_tag_bytes TagType = [0x04]"
| "attribute_tag_bytes TagString = [0x05]"
| "attribute_tag_bytes TagArray = [0x06]"
| "attribute_tag_bytes TagDenseElements = [0x07]"
| "attribute_tag_bytes TagDivBy = [0x08]"
| "attribute_tag_bytes TagSameElements = [0x09]"
| "attribute_tag_bytes TagDictionary = [0x0a]"
| "attribute_tag_bytes TagOptimizationHints = [0x0b]"
| "attribute_tag_bytes TagBounded = [0x0c]"

text \<open>One constructor per subclass of \<^verbatim>\<open>TaggedAttribute\<close>.\<close>

datatype attr =
    AttributeArray "attr list"
  | Dictionary "(pystr \<times> attr) list"
  | OptimizationHints "(pystr \<times> attr) list"
  | DivBy int "int option" "int option"
  | SameElements "int list"
  | Bounded "int option" "int option"
  | FloatAttr type_id int int  \<comment> \<open>\<^verbatim>\<open>type_id\<close>, \<^verbatim>\<open>value_bits\<close>, \<^verbatim>\<open>bit_size\<close>\<close>
  | IntegerAttr type_id nat int  \<comment> \<open>\<^verbatim>\<open>type_id\<close>, \<^verbatim>\<open>bitwidth\<close>, \<^verbatim>\<open>value\<close>\<close>
  | BoolAttr bool

text \<open>\<^verbatim>\<open>isinstance(val, AssumePredicate)\<close>.\<close>

fun is_assume_predicate :: "attr \<Rightarrow> bool" where
  "is_assume_predicate (DivBy d e a) = True"
| "is_assume_predicate (SameElements vs) = True"
| "is_assume_predicate (Bounded l u) = True"
| "is_assume_predicate _ = False"

text \<open>\<^verbatim>\<open>Float.__init__\<close> and \<^verbatim>\<open>Integer.create_i32\<close>.\<close>

definition make_float :: "int \<Rightarrow> simple_type \<Rightarrow> (type_table, attr) eff" where
  "make_float value_bits ty = bindE (simple ty) (\<lambda>i.
     case float_bit_size ty of Inl e \<Rightarrow> raiseE e | Inr n \<Rightarrow> retE (FloatAttr i value_bits n))"

definition create_i32 :: "int \<Rightarrow> attr" where
  "create_i32 value = IntegerAttr I32_TYPE_ID 32 value"

section \<open>Hints\<close>

record entry_hints =
  num_cta_in_cga :: "int option"
  occupancy :: "int option"
  num_worker_warps_per_cta :: "int option"

definition opt_item :: "pystr \<Rightarrow> int option \<Rightarrow> (pystr \<times> attr) list" where
  "opt_item name v = (case v of None \<Rightarrow> [] | Some x \<Rightarrow> [(name, create_i32 x)])"

definition entry_hints_as_dictionary :: "entry_hints \<Rightarrow> attr" where
  "entry_hints_as_dictionary h = Dictionary
     (opt_item (lit ''num_cta_in_cga'') (num_cta_in_cga h) @
      opt_item (lit ''occupancy'') (occupancy h) @
      opt_item (lit ''num_worker_warps_per_cta'') (num_worker_warps_per_cta h))"

definition make_entry_hints :: "(pystr \<times> entry_hints) list \<Rightarrow> attr" where
  "make_entry_hints hints_by_arch = OptimizationHints
     (List.map (\<lambda>(arch, hints). (arch, entry_hints_as_dictionary hints)) hints_by_arch)"

record load_store_hints =
  latency :: "int option"
  allow_tma :: bool

definition load_store_hints_as_dictionary :: "load_store_hints \<Rightarrow> attr" where
  "load_store_hints_as_dictionary h = Dictionary
     ((if \<not> allow_tma h then [(lit ''allow_tma'', BoolAttr False)] else []) @
      opt_item (lit ''latency'') (latency h))"

definition make_load_store_hints :: "(pystr \<times> load_store_hints) list \<Rightarrow> attr" where
  "make_load_store_hints hints_by_arch = OptimizationHints
     (List.map (\<lambda>(arch, hints). (arch, load_store_hints_as_dictionary hints)) hints_by_arch)"

section \<open>The encoder\<close>

type_synonym sbuf = "string_table \<times> bytes"

definition on_strings :: "(string_table, 'a) eff \<Rightarrow> (sbuf, 'a) eff" where
  "on_strings = zoom fst (\<lambda>t s. (t, snd s))"

definition on_bytes :: "(bytes, 'a) eff \<Rightarrow> (sbuf, 'a) eff" where
  "on_bytes = zoom snd (\<lambda>b s. (fst s, b))"

text \<open>\<^verbatim>\<open>encode_varint(string_table[k.encode()].string_id, buf)\<close>.\<close>

definition encode_str :: "pystr \<Rightarrow> (sbuf, unit) eff" where
  "encode_str k = bindE (on_strings (intern_str k)) (\<lambda>i. on_bytes (encode_varint i))"

definition encode_ap_int :: "int \<Rightarrow> int \<Rightarrow> (bytes, unit) eff" where
  "encode_ap_int val bit_width = bindE (assertE (0 \<le> val)) (\<lambda>_.
     if bit_width \<le> 8 then buf_append val
     else if bit_width \<le> 64 then encode_signed_varint val
     else raiseE NotImplementedError)"

definition encode_opt_signed :: "int option \<Rightarrow> (bytes, unit) eff" where
  "encode_opt_signed v = (case v of None \<Rightarrow> skipE | Some x \<Rightarrow> encode_signed_varint x)"

definition presence2 :: "'a option \<Rightarrow> 'b option \<Rightarrow> int" where
  "presence2 a b = or (pybool (a \<noteq> None)) (push_bit 1 (pybool (b \<noteq> None)))"

fun encode_tagged :: "attr \<Rightarrow> (sbuf, unit) eff"
  and encode_tagged_items :: "attr list \<Rightarrow> (sbuf, unit) eff"
  and encode_dictionary_items :: "(pystr \<times> attr) list \<Rightarrow> (sbuf, unit) eff"
where
  "encode_tagged (AttributeArray items) =
     seqE [on_bytes (buf_extend (attribute_tag_bytes TagArray)),
           on_bytes (encode_varint (int (length items)))]
       (encode_tagged_items items)"
| "encode_tagged (Dictionary items) =
     seqE [on_bytes (buf_extend (attribute_tag_bytes TagDictionary)),
           on_bytes (encode_varint (int (length items)))]
       (encode_dictionary_items items)"
| "encode_tagged (OptimizationHints items) =
     seqE [on_bytes (buf_extend (attribute_tag_bytes TagOptimizationHints)),
           on_bytes (encode_varint (int (length items)))]
       (encode_dictionary_items items)"
| "encode_tagged (DivBy divisor every along) =
     on_bytes (seqE [buf_extend (attribute_tag_bytes TagDivBy),
           encode_varint divisor,
           buf_append (presence2 every along),
           encode_opt_signed every]
       (encode_opt_signed along))"
| "encode_tagged (SameElements values) = raiseE NotImplementedError"
| "encode_tagged (Bounded lb ub) =
     on_bytes (seqE [buf_extend (attribute_tag_bytes TagBounded),
           buf_append (presence2 lb ub),
           encode_opt_signed lb]
       (encode_opt_signed ub))"
| "encode_tagged (FloatAttr ty value_bits bit_size) =
     on_bytes (seqE [buf_extend (attribute_tag_bytes TagFloat), encode_typeid ty]
       (encode_ap_int value_bits bit_size))"
| "encode_tagged (IntegerAttr ty bitwidth value) =
     on_bytes (seqE [buf_extend (attribute_tag_bytes TagInteger), encode_typeid ty]
       (encode_varint (and value (push_bit bitwidth 1 - 1))))"
| "encode_tagged (BoolAttr value) =
     on_bytes (seqE [buf_extend (attribute_tag_bytes TagBool)] (buf_append (pybool value)))"
| "encode_tagged_items [] = skipE"
| "encode_tagged_items (x # xs) = bindE (encode_tagged x) (\<lambda>_. encode_tagged_items xs)"
| "encode_dictionary_items [] = skipE"
| "encode_dictionary_items ((k, v) # xs) =
     bindE (encode_str k) (\<lambda>_. bindE (encode_tagged v) (\<lambda>_. encode_dictionary_items xs))"

definition encode_dictionary_untagged :: "(pystr \<times> attr) list \<Rightarrow> (sbuf, unit) eff" where
  "encode_dictionary_untagged items =
     seqE [on_bytes (encode_varint (int (length items)))] (encode_dictionary_items items)"

section \<open>The reader\<close>

text \<open>What the tables of a bytecode file hold when it is read back.\<close>

record tables =
  tab_strings :: "bytes list"
  tab_constants :: "bytes list"
  tab_types :: "bytes list"

text \<open>
  An attribute as it stands in the file: dictionary keys are UTF-8 strings and an integer is the
  unsigned residue of its bit width.
\<close>

datatype wattr =
    WArray "wattr list"
  | WDictionary "(bytes \<times> wattr) list"
  | WHints "(bytes \<times> wattr) list"
  | WDivBy int "int option" "int option"
  | WSameElements "int list"
  | WBounded "int option" "int option"
  | WFloat type_id int
  | WInteger type_id int
  | WBool bool

fun wire_attr :: "attr \<Rightarrow> wattr"
  and wire_attrs :: "attr list \<Rightarrow> wattr list"
  and wire_items :: "(pystr \<times> attr) list \<Rightarrow> (bytes \<times> wattr) list"
where
  "wire_attr (AttributeArray items) = WArray (wire_attrs items)"
| "wire_attr (Dictionary items) = WDictionary (wire_items items)"
| "wire_attr (OptimizationHints items) = WHints (wire_items items)"
| "wire_attr (DivBy d e a) = WDivBy d e a"
| "wire_attr (SameElements vs) = WSameElements vs"
| "wire_attr (Bounded l u) = WBounded l u"
| "wire_attr (FloatAttr ty bits n) = WFloat ty bits"
| "wire_attr (IntegerAttr ty w x) = WInteger ty (take_bit w x)"
| "wire_attr (BoolAttr b) = WBool b"
| "wire_attrs [] = []"
| "wire_attrs (x # xs) = wire_attr x # wire_attrs xs"
| "wire_items [] = []"
| "wire_items ((k, v) # xs) = (utf8 k, wire_attr v) # wire_items xs"

definition dec_index :: "'k list \<Rightarrow> 'k dec" where
  "dec_index keys = dec_bind dec_varint (\<lambda>i.
     if i < int (length keys) then dec_ret (keys ! nat i) else dec_fail)"

definition dec_str :: "tables \<Rightarrow> bytes dec" where
  "dec_str T = dec_index (tab_strings T)"

definition dec_opt :: "bool \<Rightarrow> 'a dec \<Rightarrow> 'a option dec" where
  "dec_opt p d = (if p then dec_map Some d else dec_ret None)"

definition float_bits_of_entry :: "bytes \<Rightarrow> int option" where
  "float_bits_of_entry e = (case dec_varint e of None \<Rightarrow> None
     | Some (tag, r) \<Rightarrow> (case map_of simple_tags tag of None \<Rightarrow> None
        | Some t \<Rightarrow> (case float_bit_size t of Inl x \<Rightarrow> None | Inr n \<Rightarrow> Some n)))"

definition dec_float :: "tables \<Rightarrow> wattr dec" where
  "dec_float T = dec_bind dec_typeid (\<lambda>t.
     if type_id t < int (length (tab_types T)) then
       (case float_bits_of_entry (tab_types T ! nat (type_id t)) of
          None \<Rightarrow> dec_fail
        | Some n \<Rightarrow> dec_map (WFloat t)
            (if n \<le> 8 then dec_map uint dec_byte else dec_signed_varint))
     else dec_fail)"

definition dec_attr_body :: "wattr dec \<Rightarrow> tables \<Rightarrow> byte \<Rightarrow> wattr dec" where
  "dec_attr_body rec T tag =
    (let entry = dec_bind (dec_str T) (\<lambda>k. dec_map (Pair k) rec) in
     if tag = 0x06 then dec_map WArray (dec_sized rec)
     else if tag = 0x0a then dec_map WDictionary (dec_sized entry)
     else if tag = 0x0b then dec_map WHints (dec_sized entry)
     else if tag = 0x08 then
       dec_bind dec_varint (\<lambda>d. dec_bind dec_byte (\<lambda>f.
       dec_bind (dec_opt (bit f 0) dec_signed_varint) (\<lambda>e.
       dec_map (WDivBy d e) (dec_opt (bit f 1) dec_signed_varint))))
     else if tag = 0x0c then
       dec_bind dec_byte (\<lambda>f.
       dec_bind (dec_opt (bit f 0) dec_signed_varint) (\<lambda>l.
       dec_map (WBounded l) (dec_opt (bit f 1) dec_signed_varint)))
     else if tag = 0x02 then dec_float T
     else if tag = 0x01 then dec_bind dec_typeid (\<lambda>t. dec_map (WInteger t) dec_varint)
     else if tag = 0x03 then dec_map (\<lambda>b. WBool (b \<noteq> 0)) dec_byte
     else dec_fail)"

fun dec_attr :: "nat \<Rightarrow> tables \<Rightarrow> wattr dec" where
  "dec_attr 0 T = dec_fail"
| "dec_attr (Suc n) T = dec_bind dec_byte (dec_attr_body (dec_attr n T) T)"

text \<open>The nesting depth bounds the fuel the reader needs; a float must carry the width of its type.\<close>

fun attr_depth :: "attr \<Rightarrow> nat"
  and attrs_depth :: "attr list \<Rightarrow> nat"
  and items_depth :: "(pystr \<times> attr) list \<Rightarrow> nat"
where
  "attr_depth (AttributeArray items) = Suc (attrs_depth items)"
| "attr_depth (Dictionary items) = Suc (items_depth items)"
| "attr_depth (OptimizationHints items) = Suc (items_depth items)"
| "attr_depth _ = 1"
| "attrs_depth [] = 0"
| "attrs_depth (x # xs) = max (attr_depth x) (attrs_depth xs)"
| "items_depth [] = 0"
| "items_depth ((k, v) # xs) = max (attr_depth v) (items_depth xs)"

fun attr_typed :: "bytes list \<Rightarrow> attr \<Rightarrow> bool"
  and attrs_typed :: "bytes list \<Rightarrow> attr list \<Rightarrow> bool"
  and items_typed :: "bytes list \<Rightarrow> (pystr \<times> attr) list \<Rightarrow> bool"
where
  "attr_typed tys (AttributeArray items) = attrs_typed tys items"
| "attr_typed tys (Dictionary items) = items_typed tys items"
| "attr_typed tys (OptimizationHints items) = items_typed tys items"
| "attr_typed tys (FloatAttr ty bits n) \<longleftrightarrow>
     (\<exists>e. resolves tys (type_id ty) e \<and> float_bits_of_entry e = Some n)"
| "attr_typed tys _ = True"
| "attrs_typed tys [] = True"
| "attrs_typed tys (x # xs) = (attr_typed tys x \<and> attrs_typed tys xs)"
| "items_typed tys [] = True"
| "items_typed tys ((k, v) # xs) = (attr_typed tys v \<and> items_typed tys xs)"

text \<open>\<open>grows t t'\<close>: string table \<open>t'\<close> extends \<open>t\<close>, so every id of \<open>t\<close> keeps its meaning.\<close>

definition grows :: "('k, 'v) table \<Rightarrow> ('k, 'v) table \<Rightarrow> bool" where
  "grows t t' \<longleftrightarrow> (\<exists>ys. table_keys t' = table_keys t @ ys)"

definition covers :: "'k list \<Rightarrow> ('k, 'v) table \<Rightarrow> bool" where
  "covers keys t \<longleftrightarrow> (\<exists>ys. keys = table_keys t @ ys)"

lemma grows_refl [simp]: "grows t t"
  by (simp add: grows_def)

lemma grows_trans: "grows t u \<Longrightarrow> grows u w \<Longrightarrow> grows t w"
  by (auto simp: grows_def)

lemma covers_grows: "covers keys u \<Longrightarrow> grows t u \<Longrightarrow> covers keys t"
  by (auto simp: covers_def grows_def)

lemma covers_resolves: "covers keys t \<Longrightarrow> resolves (table_keys t) i k \<Longrightarrow> resolves keys i k"
  by (auto simp: covers_def resolves_append)

lemma dec_index_resolves:
  "resolves keys i k \<Longrightarrow> dec_index keys (varint i @ rest) = Some (k, rest)"
  by (simp add: dec_index_def resolves_def varint.dec_enc)

lemma on_strings_Inr_iff:
  "on_strings m s = (Inr x, s') \<longleftrightarrow> m (fst s) = (Inr x, fst s') \<and> snd s' = snd s"
  by (cases s') (auto simp: on_strings_def zoom_Inr_iff)

lemma on_bytes_Inr_iff:
  "on_bytes m s = (Inr x, s') \<longleftrightarrow> m (snd s) = (Inr x, snd s') \<and> fst s' = fst s"
  by (cases s') (auto simp: on_bytes_def zoom_Inr_iff)

section \<open>Round trip\<close>

text \<open>
  \<open>wires m n P d x\<close>: whenever the body \<open>m\<close> succeeds it keeps the string table well formed and
  only extends it, and it appends at least \<open>n\<close> bytes that the reader \<open>d\<close> turns into \<open>x\<close>, under
  any later tables whose type entries satisfy \<open>P\<close>.
\<close>

definition wires ::
    "(sbuf, unit) eff \<Rightarrow> nat \<Rightarrow> (bytes list \<Rightarrow> bool) \<Rightarrow> (tables \<Rightarrow> 'x dec) \<Rightarrow> 'x \<Rightarrow> bool" where
  "wires m n P d x \<longleftrightarrow> (\<forall>s s'. table_ok StringId 0 (fst s) \<longrightarrow> m s = (Inr (), s') \<longrightarrow>
     table_ok StringId 0 (fst s') \<and> grows (fst s) (fst s') \<and>
     (\<exists>e. snd s' = snd s @ e \<and> n \<le> length e \<and>
        (\<forall>T rest. covers (tab_strings T) (fst s') \<longrightarrow> P (tab_types T) \<longrightarrow>
           d T (e @ rest) = Some (x, rest))))"

lemma wires_I:
  assumes "\<And>s s'. table_ok StringId 0 (fst s) \<Longrightarrow> m s = (Inr (), s') \<Longrightarrow>
     table_ok StringId 0 (fst s') \<and> grows (fst s) (fst s') \<and>
     (\<exists>e. snd s' = snd s @ e \<and> n \<le> length e \<and>
        (\<forall>T rest. covers (tab_strings T) (fst s') \<longrightarrow> P (tab_types T) \<longrightarrow>
           d T (e @ rest) = Some (x, rest)))"
  shows "wires m n P d x"
  using assms unfolding wires_def by blast

lemma wires_D:
  assumes "wires m n P d x" and "table_ok StringId 0 (fst s)" and "m s = (Inr (), s')"
  obtains e where "table_ok StringId 0 (fst s')" and "grows (fst s) (fst s')"
    and "snd s' = snd s @ e" and "n \<le> length e"
    and "\<And>T rest. covers (tab_strings T) (fst s') \<Longrightarrow> P (tab_types T) \<Longrightarrow>
           d T (e @ rest) = Some (x, rest)"
  using assms unfolding wires_def by blast

lemma wires_bytes:
  assumes "\<And>b b'. m b = (Inr (), b') \<Longrightarrow>
     \<exists>e. b' = b @ e \<and> n \<le> length e \<and> (\<forall>T rest. P (tab_types T) \<longrightarrow> d T (e @ rest) = Some (x, rest))"
  shows "wires (on_bytes m) n P d x"
proof (rule wires_I)
  fix s s'
  assume ok: "table_ok StringId 0 (fst s)" and "on_bytes m s = (Inr (), s')"
  then have run: "m (snd s) = (Inr (), snd s')" and same: "fst s' = fst s"
    by (auto simp: on_bytes_Inr_iff)
  show "table_ok StringId 0 (fst s') \<and> grows (fst s) (fst s') \<and>
     (\<exists>e. snd s' = snd s @ e \<and> n \<le> length e \<and>
        (\<forall>T rest. covers (tab_strings T) (fst s') \<longrightarrow> P (tab_types T) \<longrightarrow>
           d T (e @ rest) = Some (x, rest)))"
    using assms [OF run] ok same by auto
qed

lemma wires_bind:
  assumes m: "wires m n P d x" and k: "wires k n' P' (d' x) y"
  shows "wires (bindE m (\<lambda>_. k)) (n + n') (\<lambda>tys. P tys \<and> P' tys)
    (\<lambda>T. dec_bind (d T) (\<lambda>x. d' x T)) y"
proof (rule wires_I)
  fix s s'
  assume ok: "table_ok StringId 0 (fst s)" and "bindE m (\<lambda>_. k) s = (Inr (), s')"
  then obtain s1 where r1: "m s = (Inr (), s1)" and r2: "k s1 = (Inr (), s')"
    by (auto simp: bindE_Inr_iff)
  obtain e1 where 1: "table_ok StringId 0 (fst s1)" "grows (fst s) (fst s1)" "snd s1 = snd s @ e1"
      "n \<le> length e1"
      "\<And>T rest. covers (tab_strings T) (fst s1) \<Longrightarrow> P (tab_types T) \<Longrightarrow> d T (e1 @ rest) = Some (x, rest)"
    using wires_D [OF m ok r1] by blast
  obtain e2 where 2: "table_ok StringId 0 (fst s')" "grows (fst s1) (fst s')" "snd s' = snd s1 @ e2"
      "n' \<le> length e2"
      "\<And>T rest. covers (tab_strings T) (fst s') \<Longrightarrow> P' (tab_types T) \<Longrightarrow> d' x T (e2 @ rest) = Some (y, rest)"
    using wires_D [OF k 1(1) r2] by blast
  have "dec_bind (d T) (\<lambda>x. d' x T) ((e1 @ e2) @ rest) = Some (y, rest)"
    if "covers (tab_strings T) (fst s')" "P (tab_types T) \<and> P' (tab_types T)" for T rest
    using 1(5) [OF covers_grows [OF that(1) 2(2)], of "e2 @ rest"] 2(5) [OF that(1)] that(2) by simp
  then show "table_ok StringId 0 (fst s') \<and> grows (fst s) (fst s') \<and>
     (\<exists>e. snd s' = snd s @ e \<and> n + n' \<le> length e \<and>
        (\<forall>T rest. covers (tab_strings T) (fst s') \<longrightarrow> P (tab_types T) \<and> P' (tab_types T) \<longrightarrow>
           dec_bind (d T) (\<lambda>x. d' x T) (e @ rest) = Some (y, rest)))"
    using 1(2,3,4) 2(1,2,3,4) grows_trans by (intro conjI exI [of _ "e1 @ e2"]) auto
qed

lemma wires_map: "wires m n P d x \<Longrightarrow> wires m n P (\<lambda>T. dec_map f (d T)) (f x)"
  unfolding wires_def by fastforce

lemma wires_weaken:
  "wires m n P d x \<Longrightarrow> n' \<le> n \<Longrightarrow> (\<And>tys. P' tys \<Longrightarrow> P tys) \<Longrightarrow> wires m n' P' d x"
  unfolding wires_def by (meson le_trans)

lemma wires_skip: "wires skipE 0 P (\<lambda>T. dec_ret x) x"
  by (rule wires_I) auto

lemma wires_raise: "wires (raiseE e) n P d x"
  by (rule wires_I) simp

lemma wires_str: "wires (encode_str k) 1 P dec_str (utf8 k)"
proof (rule wires_I)
  fix s s'
  assume ok: "table_ok StringId 0 (fst s)" and "encode_str k s = (Inr (), s')"
  then obtain i where i: "intern_str k (fst s) = (Inr i, fst s')" and "snd s' = snd s @ varint i"
    by (auto simp: encode_str_def bindE_Inr_iff on_strings_Inr_iff on_bytes_Inr_iff split: if_splits)
  moreover have "1 \<le> length (varint i)" by (simp add: Suc_le_eq)
  ultimately show "table_ok StringId 0 (fst s') \<and> grows (fst s) (fst s') \<and>
     (\<exists>e. snd s' = snd s @ e \<and> 1 \<le> length e \<and>
        (\<forall>T rest. covers (tab_strings T) (fst s') \<longrightarrow> P (tab_types T) \<longrightarrow>
           dec_str T (e @ rest) = Some (utf8 k, rest)))"
    using intern_str_success [OF ok i]
    by (auto simp: grows_def dec_str_def dec_index_resolves covers_resolves)
qed

lemma presence2_bits [simp]:
  "bit (presence2 a b) 0 \<longleftrightarrow> a \<noteq> None" "bit (presence2 a b) 1 \<longleftrightarrow> b \<noteq> None"
  "bit (presence2 a b) (Suc 0) \<longleftrightarrow> b \<noteq> None"
  "0 \<le> presence2 a b" "presence2 a b < 256"
  by (auto simp: presence2_def pybool_def bit_simps)

lemma presence2_byte_bits [simp]:
  "bit (word_of_int (presence2 a b) :: byte) 0 \<longleftrightarrow> a \<noteq> None"
  "bit (word_of_int (presence2 a b) :: byte) (Suc 0) \<longleftrightarrow> b \<noteq> None"
  by (simp_all add: bit_word_of_int_iff)

lemma encode_opt_signed_Inr_iff [simp]:
  "encode_opt_signed v b = (Inr u, b') \<longleftrightarrow>
     b' = b @ (case v of None \<Rightarrow> [] | Some x \<Rightarrow> varint (zigzag x))"
  by (cases v) (auto simp: encode_opt_signed_def)

lemma dec_opt_signed [simp]:
  "dec_opt (v \<noteq> None) dec_signed_varint ((case v of None \<Rightarrow> [] | Some x \<Rightarrow> varint (zigzag x)) @ rest)
     = Some (v, rest)"
  "dec_opt (\<exists>y. v = Some y) dec_signed_varint ((case v of None \<Rightarrow> [] | Some x \<Rightarrow> varint (zigzag x)) @ rest)
     = Some (v, rest)"
  by (cases v; simp add: dec_opt_def signed_varint.dec_enc)+

lemma dec_attr_Suc: "dec_attr (Suc n) = (\<lambda>T. dec_bind dec_byte (dec_attr_body (dec_attr n T) T))"
  by (simp add: fun_eq_iff)

lemma wires_tagged:
  assumes "attribute_tag_bytes t = [tag]" and "wires m n P (\<lambda>T. dec_attr_body (dec_attr f T) T tag) x"
  shows "wires (bindE (on_bytes (buf_extend (attribute_tag_bytes t))) (\<lambda>_. m)) (Suc n) P
    (dec_attr (Suc f)) x"
proof -
  have "wires (on_bytes (buf_extend (attribute_tag_bytes t))) 1 (\<lambda>_. True) (\<lambda>T. dec_byte) tag"
    by (rule wires_bytes) (simp add: assms(1))
  from wires_bind [where d' = "\<lambda>tag T. dec_attr_body (dec_attr f T) T tag", OF this assms(2)]
  show ?thesis by (simp add: dec_attr_Suc)
qed

lemma wires_scalar:
  assumes "\<And>b b'. m b = (Inr (), b') \<Longrightarrow> \<exists>e. b' = b @ attribute_tag_bytes t @ e \<and>
     (\<forall>T rest. P (tab_types T) \<longrightarrow> dec_attr_body (dec_attr f T) T tag (e @ rest) = Some (x, rest))"
    and "attribute_tag_bytes t = [tag]"
  shows "wires (on_bytes m) 1 P (dec_attr (Suc f)) x"
proof (rule wires_bytes)
  fix b b'
  assume "m b = (Inr (), b')"
  from assms(1) [OF this] obtain e where "b' = b @ tag # e"
    "\<forall>T rest. P (tab_types T) \<longrightarrow> dec_attr_body (dec_attr f T) T tag (e @ rest) = Some (x, rest)"
    by (auto simp: assms(2))
  then show "\<exists>e. b' = b @ e \<and> 1 \<le> length e \<and>
      (\<forall>T rest. P (tab_types T) \<longrightarrow> dec_attr (Suc f) T (e @ rest) = Some (x, rest))"
    by (intro exI [of _ "tag # e"]) simp
qed

lemma wires_counted:
  assumes "wires m n P (\<lambda>T. dec_n (d T) (length xs)) ys"
  shows "wires (bindE (on_bytes (encode_varint (int (length xs)))) (\<lambda>_. m)) n P
    (\<lambda>T. dec_sized (d T)) ys"
proof -
  have "wires (on_bytes (encode_varint (int (length xs)))) 0 (\<lambda>_. True) (\<lambda>T. dec_varint) (int (length xs))"
    by (rule wires_bytes) (simp add: varint.dec_enc)
  from wires_bind [where d' = "\<lambda>n T. dec_n (d T) (nat n)", OF this, of m n P ys] assms
  show ?thesis by (simp add: dec_sized_def)
qed

lemma and_mask_take_bit [simp]: "and x (2 ^ w - 1) = take_bit w (x :: int)"
  by (simp add: take_bit_eq_mask mask_eq_exp_minus_1)

lemma encode_ap_int_wire:
  assumes "encode_ap_int v n b = (Inr (), b')"
  shows "\<exists>e. b' = b @ e \<and> (\<forall>rest.
    (if n \<le> 8 then dec_map uint dec_byte else dec_signed_varint) (e @ rest) = Some (v, rest))"
  using assms by (auto simp: encode_ap_int_def bindE_Inr_iff assertE_Inr_iff uint_of_int_byte
      signed_varint.dec_enc split: if_splits)

lemma wires_float:
  "wires (encode_tagged (FloatAttr ty v n)) 1 (\<lambda>tys. attr_typed tys (FloatAttr ty v n))
     (dec_attr (Suc f)) (WFloat ty v)"
  unfolding encode_tagged.simps
proof (rule wires_scalar [where t = TagFloat and tag = 2])
  fix b b'
  assume "seqE [buf_extend (attribute_tag_bytes TagFloat), encode_typeid ty] (encode_ap_int v n) b
    = (Inr (), b')"
  then have ty: "0 \<le> type_id ty"
    and run: "encode_ap_int v n (b @ attribute_tag_bytes TagFloat @ varint (type_id ty)) = (Inr (), b')"
    by (auto simp: bindE_Inr_iff)
  obtain e where e: "b' = (b @ attribute_tag_bytes TagFloat @ varint (type_id ty)) @ e"
    "\<And>rest. (if n \<le> 8 then dec_map uint dec_byte else dec_signed_varint) (e @ rest) = Some (v, rest)"
    using encode_ap_int_wire [OF run] by blast
  have "dec_attr_body (dec_attr f T) T 2 ((varint (type_id ty) @ e) @ rest) = Some (WFloat ty v, rest)"
    if "attr_typed (tab_types T) (FloatAttr ty v n)" for T rest
    using that ty e(2) [of rest]
    by (auto simp: dec_attr_body_def dec_float_def typeid.dec_enc resolves_def)
  then show "\<exists>e. b' = b @ attribute_tag_bytes TagFloat @ e \<and> (\<forall>T rest.
      attr_typed (tab_types T) (FloatAttr ty v n) \<longrightarrow>
      dec_attr_body (dec_attr f T) T 2 (e @ rest) = Some (WFloat ty v, rest))"
    by (intro exI [of _ "varint (type_id ty) @ e"]) (simp add: e(1))
qed simp

lemma wires_entry:
  assumes "wires m n P (\<lambda>T. d T) x"
  shows "wires (bindE (encode_str k) (\<lambda>_. m)) n P
    (\<lambda>T. dec_bind (dec_str T) (\<lambda>k. dec_map (Pair k) (d T))) (utf8 k, x)"
proof -
  have "wires (bindE (encode_str k) (\<lambda>_. m)) (1 + n) (\<lambda>tys. True \<and> P tys)
      (\<lambda>T. dec_bind (dec_str T) (\<lambda>k. dec_map (Pair k) (d T))) (utf8 k, x)"
    by (rule wires_bind [where d' = "\<lambda>k T. dec_map (Pair k) (d T)", OF wires_str])
      (rule wires_map [OF assms])
  then show ?thesis by (rule wires_weaken) simp_all
qed

lemma wires_cons:
  assumes "wires m n P d x" and "wires ms n' P' (\<lambda>T. dec_n (d T) k) xs"
  shows "wires (bindE m (\<lambda>_. ms)) (max n n') (\<lambda>tys. P tys \<and> P' tys) (\<lambda>T. dec_n (d T) (Suc k)) (x # xs)"
proof -
  have "wires (bindE m (\<lambda>_. ms)) (n + n') (\<lambda>tys. P tys \<and> P' tys) (\<lambda>T. dec_n (d T) (Suc k)) (x # xs)"
    unfolding dec_n.simps
    by (rule wires_bind [where d' = "\<lambda>x T. dec_map (Cons x) (dec_n (d T) k)", OF assms(1)])
      (rule wires_map [OF assms(2)])
  then show ?thesis by (rule wires_weaken) simp_all
qed

lemma wires_divby:
  "wires (encode_tagged (DivBy d e a)) 1 P (dec_attr (Suc f)) (WDivBy d e a)"
  unfolding encode_tagged.simps
  by (rule wires_scalar [where t = TagDivBy and tag = 8])
    (auto simp: bindE_Inr_iff dec_attr_body_def varint.dec_enc split: if_splits)

lemma wires_bounded:
  "wires (encode_tagged (Bounded l u)) 1 P (dec_attr (Suc f)) (WBounded l u)"
  unfolding encode_tagged.simps
  by (rule wires_scalar [where t = TagBounded and tag = 12])
    (auto simp: bindE_Inr_iff dec_attr_body_def)

lemma wires_integer:
  "wires (encode_tagged (IntegerAttr ty w x)) 1 P (dec_attr (Suc f)) (WInteger ty (take_bit w x))"
  unfolding encode_tagged.simps
  by (rule wires_scalar [where t = TagInteger and tag = 1])
    (auto simp: bindE_Inr_iff dec_attr_body_def varint.dec_enc typeid.dec_enc push_bit_eq_mult)

lemma wires_bool: "wires (encode_tagged (BoolAttr b)) 1 P (dec_attr (Suc f)) (WBool b)"
  unfolding encode_tagged.simps
  by (rule wires_scalar [where t = TagBool and tag = 3])
    (auto simp: bindE_Inr_iff dec_attr_body_def pybool_def)

theorem encode_tagged_wires:
  "attr_depth a \<le> f \<Longrightarrow> wires (encode_tagged a) (attr_depth a) (\<lambda>tys. attr_typed tys a) (dec_attr f) (wire_attr a)"
  "attrs_depth xs \<le> f \<Longrightarrow> wires (encode_tagged_items xs) (attrs_depth xs) (\<lambda>tys. attrs_typed tys xs)
     (\<lambda>T. dec_n (dec_attr f T) (length xs)) (wire_attrs xs)"
  "items_depth kvs \<le> f \<Longrightarrow> wires (encode_dictionary_items kvs) (items_depth kvs) (\<lambda>tys. items_typed tys kvs)
     (\<lambda>T. dec_n (dec_bind (dec_str T) (\<lambda>k. dec_map (Pair k) (dec_attr f T))) (length kvs)) (wire_items kvs)"
proof (induction a and xs and kvs arbitrary: f and f and f
    rule: encode_tagged_encode_tagged_items_encode_dictionary_items.induct)
  case (1 items)
  then obtain g where g: "f = Suc g" "attrs_depth items \<le> g" by (cases f) auto
  show ?case unfolding g(1) encode_tagged.simps attr_depth.simps wire_attr.simps seqE.simps
    using wires_map [OF wires_counted [OF 1(1) [OF g(2)]], of WArray]
    by (intro wires_tagged [where tag = 6]) (simp_all add: dec_attr_body_def)
next
  case (2 items)
  then obtain g where g: "f = Suc g" "items_depth items \<le> g" by (cases f) auto
  show ?case unfolding g(1) encode_tagged.simps attr_depth.simps wire_attr.simps seqE.simps
    using wires_map [OF wires_counted [OF 2(1) [OF g(2)]], of WDictionary]
    by (intro wires_tagged [where tag = 10]) (simp_all add: dec_attr_body_def)
next
  case (3 items)
  then obtain g where g: "f = Suc g" "items_depth items \<le> g" by (cases f) auto
  show ?case unfolding g(1) encode_tagged.simps attr_depth.simps wire_attr.simps seqE.simps
    using wires_map [OF wires_counted [OF 3(1) [OF g(2)]], of WHints]
    by (intro wires_tagged [where tag = 11]) (simp_all add: dec_attr_body_def)
next
  case (4 d e a)
  then obtain g where "f = Suc g" by (cases f) auto
  then show ?case by (simp only: wire_attr.simps attr_depth.simps attr_typed.simps wires_divby)
next
  case (5 vs)
  show ?case by (simp add: wires_raise)
next
  case (6 l u)
  then obtain g where "f = Suc g" by (cases f) auto
  then show ?case by (simp only: wire_attr.simps attr_depth.simps attr_typed.simps wires_bounded)
next
  case (7 ty v n)
  then obtain g where "f = Suc g" by (cases f) auto
  then show ?case by (simp only: wire_attr.simps attr_depth.simps wires_float)
next
  case (8 ty w x)
  then obtain g where "f = Suc g" by (cases f) auto
  then show ?case by (simp only: wire_attr.simps attr_depth.simps attr_typed.simps wires_integer)
next
  case (9 b)
  then obtain g where "f = Suc g" by (cases f) auto
  then show ?case by (simp only: wire_attr.simps attr_depth.simps attr_typed.simps wires_bool)
next
  case 10
  show ?case by (simp only: encode_tagged_items.simps attrs_depth.simps wire_attrs.simps
    list.size(3) dec_n.simps wires_skip)
next
  case (11 x xs)
  then have "wires (encode_tagged x) (attr_depth x) (\<lambda>tys. attr_typed tys x) (dec_attr f) (wire_attr x)"
    "wires (encode_tagged_items xs) (attrs_depth xs) (\<lambda>tys. attrs_typed tys xs)
     (\<lambda>T. dec_n (dec_attr f T) (length xs)) (wire_attrs xs)" by simp_all
  from wires_cons [OF this] show ?case by simp
next
  case 12
  show ?case by (simp only: encode_dictionary_items.simps items_depth.simps wire_items.simps
    list.size(3) dec_n.simps wires_skip)
next
  case (13 k v xs)
  then have v: "wires (encode_tagged v) (attr_depth v) (\<lambda>tys. attr_typed tys v) (dec_attr f) (wire_attr v)"
    and xs: "wires (encode_dictionary_items xs) (items_depth xs) (\<lambda>tys. items_typed tys xs)
     (\<lambda>T. dec_n (dec_bind (dec_str T) (\<lambda>k. dec_map (Pair k) (dec_attr f T))) (length xs)) (wire_items xs)"
    by simp_all
  from wires_cons [OF wires_entry [OF v] xs] show ?case by (simp add: bindE_assoc)
qed

end
