(* ===== verification/BcDebugInfo.thy ===== *)
theory BcDebugInfo
  imports BcAttribute
begin

text \<open>
  \<^verbatim>\<open>src/cuda/tile/_bytecode/debug_info.py\<close>: the debug attribute table.  \<^verbatim>\<open>DebugAttrTable\<close>
  shares the writer's string table, so an operation works on the pair of both tables: the tag
  bytes are built in a fresh buffer (interning strings on the way) and then interned with ids
  from 1.
\<close>

datatype debug_attr_id = DebugAttrId (debug_attr_id: int)

definition MISSING_DEBUG_ATTR_ID :: debug_attr_id where
  "MISSING_DEBUG_ATTR_ID = DebugAttrId 0"

datatype debug_tag = DICompileUnit | DIFile | DILexicalBlock | DILoc | DISubprogram | DICallSite

fun debug_tag_bytes :: "debug_tag \<Rightarrow> bytes" where
  "debug_tag_bytes DICompileUnit = [0x01]"
| "debug_tag_bytes DIFile = [0x02]"
| "debug_tag_bytes DILexicalBlock = [0x03]"
| "debug_tag_bytes DILoc = [0x04]"
| "debug_tag_bytes DISubprogram = [0x05]"
| "debug_tag_bytes DICallSite = [0x06]"

type_synonym debug_attr_table = "(bytes, debug_attr_id) table"
type_synonym debug_state = "string_table \<times> debug_attr_table"

definition debug_table_getitem :: "bytes \<Rightarrow> (debug_attr_table, debug_attr_id) eff" where
  "debug_table_getitem key = table_getitem DebugAttrId 1 key"

definition debug_built :: "(sbuf, unit) eff \<Rightarrow> (debug_state, debug_attr_id) eff" where
  "debug_built build = (\<lambda>(strings, attrs).
     case build (strings, []) of
       (Inl e, (strings', _)) \<Rightarrow> (Inl e, (strings', attrs))
     | (Inr _, (strings', key)) \<Rightarrow>
         (case debug_table_getitem key attrs of (r, attrs') \<Rightarrow> (r, (strings', attrs'))))"

definition put_tag :: "debug_tag \<Rightarrow> (sbuf, unit) eff" where
  "put_tag t = on_bytes (buf_extend (debug_tag_bytes t))"

definition put_attr :: "debug_attr_id \<Rightarrow> (sbuf, unit) eff" where
  "put_attr a = on_bytes (encode_varint (debug_attr_id a))"

definition put_int :: "int \<Rightarrow> (sbuf, unit) eff" where
  "put_int x = on_bytes (encode_varint x)"

definition debug_file :: "pystr \<Rightarrow> pystr \<Rightarrow> (debug_state, debug_attr_id) eff" where
  "debug_file name directory = debug_built
     (seqE [put_tag DIFile, encode_str name] (encode_str directory))"

definition debug_compile_unit :: "debug_attr_id \<Rightarrow> (debug_state, debug_attr_id) eff" where
  "debug_compile_unit file = debug_built (seqE [put_tag DICompileUnit] (put_attr file))"

definition debug_lexical_block ::
    "debug_attr_id \<Rightarrow> debug_attr_id \<Rightarrow> int \<Rightarrow> int \<Rightarrow> (debug_state, debug_attr_id) eff" where
  "debug_lexical_block parent_scope file line column = debug_built
     (seqE [put_tag DILexicalBlock, put_attr parent_scope, put_attr file, put_int line]
        (put_int column))"

definition debug_subprogram ::
    "bytecode_version \<Rightarrow> debug_attr_id \<Rightarrow> int \<Rightarrow> pystr \<Rightarrow> pystr \<Rightarrow> debug_attr_id \<Rightarrow> int
     \<Rightarrow> (debug_state, debug_attr_id) eff" where
  "debug_subprogram version file line name linkage_name compile_unit scope_line = debug_built
     (seqE [put_tag DISubprogram, put_attr file, put_int line, encode_str name,
            encode_str linkage_name, put_attr compile_unit, put_int scope_line]
        (if version \<ge> V_13_5 then put_int 0 else skipE))"

definition debug_call_site ::
    "debug_attr_id \<Rightarrow> debug_attr_id \<Rightarrow> (debug_state, debug_attr_id) eff" where
  "debug_call_site callee caller = debug_built
     (seqE [put_tag DICallSite, put_attr callee] (put_attr caller))"

definition debug_loc ::
    "debug_attr_id \<Rightarrow> pystr \<Rightarrow> int \<Rightarrow> int \<Rightarrow> (debug_state, debug_attr_id) eff" where
  "debug_loc scope filename line column = debug_built
     (seqE [put_tag DILoc, put_attr scope, encode_str filename, put_int line] (put_int column))"

interpretation debug_attrs: interning debug_table_getitem debug_attr_id 1 table_keys "table_ok DebugAttrId 1"
proof
  show "\<exists>v t'. debug_table_getitem k t = (Inr v, t') \<and> table_ok DebugAttrId 1 t'
      \<and> table_keys t' = (if k \<in> set (table_keys t) then table_keys t else table_keys t @ [k])
      \<and> 1 \<le> debug_attr_id v \<and> debug_attr_id v < 1 + int (length (table_keys t'))
      \<and> table_keys t' ! nat (debug_attr_id v - 1) = k" if "table_ok DebugAttrId 1 t" for t k
    unfolding debug_table_getitem_def by (rule table_getitem_ok [OF that]) simp
qed (simp add: table_ok_def)

section \<open>What a debug attribute means\<close>

datatype debug_desc =
    DFile pystr pystr
  | DCompileUnit debug_attr_id
  | DLexicalBlock debug_attr_id debug_attr_id int int
  | DSubprogram debug_attr_id int pystr pystr debug_attr_id int
  | DCallSite debug_attr_id debug_attr_id
  | DLoc debug_attr_id pystr int int

fun intern_debug :: "bytecode_version \<Rightarrow> debug_desc \<Rightarrow> (debug_state, debug_attr_id) eff" where
  "intern_debug v (DFile n d) = debug_file n d"
| "intern_debug v (DCompileUnit f) = debug_compile_unit f"
| "intern_debug v (DLexicalBlock p f l c) = debug_lexical_block p f l c"
| "intern_debug v (DSubprogram f l n ln cu sl) = debug_subprogram v f l n ln cu sl"
| "intern_debug v (DCallSite a b) = debug_call_site a b"
| "intern_debug v (DLoc s f l c) = debug_loc s f l c"

text \<open>The entry as a reader sees it: integers and UTF-8 strings.\<close>

datatype wdebug =
    WFile bytes bytes
  | WCompileUnit int
  | WLexicalBlock int int int int
  | WSubprogram int int bytes bytes int int
  | WCallSite int int
  | WLoc int bytes int int

fun wire_debug :: "debug_desc \<Rightarrow> wdebug" where
  "wire_debug (DFile n d) = WFile (utf8 n) (utf8 d)"
| "wire_debug (DCompileUnit f) = WCompileUnit (debug_attr_id f)"
| "wire_debug (DLexicalBlock p f l c) = WLexicalBlock (debug_attr_id p) (debug_attr_id f) l c"
| "wire_debug (DSubprogram f l n ln cu sl) =
     WSubprogram (debug_attr_id f) l (utf8 n) (utf8 ln) (debug_attr_id cu) sl"
| "wire_debug (DCallSite a b) = WCallSite (debug_attr_id a) (debug_attr_id b)"
| "wire_debug (DLoc s f l c) = WLoc (debug_attr_id s) (utf8 f) l c"

definition dec_debug_body :: "bytecode_version \<Rightarrow> byte \<Rightarrow> tables \<Rightarrow> wdebug dec" where
  "dec_debug_body v tag T =
    (if tag = 2 then dec_bind (dec_str T) (\<lambda>n. dec_map (WFile n) (dec_str T))
     else if tag = 1 then dec_map WCompileUnit dec_varint
     else if tag = 3 then
       dec_bind dec_varint (\<lambda>p. dec_bind dec_varint (\<lambda>f. dec_bind dec_varint (\<lambda>l.
         dec_map (WLexicalBlock p f l) dec_varint)))
     else if tag = 5 then
       dec_bind dec_varint (\<lambda>f. dec_bind dec_varint (\<lambda>l. dec_bind (dec_str T) (\<lambda>n.
       dec_bind (dec_str T) (\<lambda>ln. dec_bind dec_varint (\<lambda>cu. dec_bind dec_varint (\<lambda>sl.
       dec_map (\<lambda>_. WSubprogram f l n ln cu sl)
         (if v \<ge> V_13_5 then dec_varint else dec_ret 0)))))))
     else if tag = 6 then dec_bind dec_varint (\<lambda>a. dec_map (WCallSite a) dec_varint)
     else if tag = 4 then
       dec_bind dec_varint (\<lambda>s. dec_bind (dec_str T) (\<lambda>f. dec_bind dec_varint (\<lambda>l.
         dec_map (WLoc s f l) dec_varint)))
     else dec_fail)"

definition dec_debug :: "bytecode_version \<Rightarrow> tables \<Rightarrow> wdebug dec" where
  "dec_debug v T = dec_bind dec_byte (\<lambda>tag. dec_debug_body v tag T)"

lemma wires_put_int: "wires (put_int x) 0 P (\<lambda>T. dec_varint) x"
  unfolding put_int_def by (rule wires_bytes) (auto simp: varint.dec_enc split: if_splits)

lemma wires_put_attr: "wires (put_attr a) 0 P (\<lambda>T. dec_varint) (debug_attr_id a)"
  unfolding put_attr_def by (rule wires_bytes) (auto simp: varint.dec_enc split: if_splits)

lemma wires_string: "wires (encode_str k) 0 P dec_str (utf8 k)"
  using wires_str by (rule wires_weaken) simp_all

text \<open>\<open>wires_bind\<close> with the trivial side conditions folded away.\<close>

lemma wires_then:
  assumes m: "wires m 0 (\<lambda>_. True) d x" and k: "wires k 0 (\<lambda>_. True) (d' x) y"
  shows "wires (bindE m (\<lambda>_. k)) 0 (\<lambda>_. True) (\<lambda>T. dec_bind (d T) (\<lambda>x. d' x T)) y"
  using wires_bind [where d' = d', OF m k] by simp

lemma wires_put_tag:
  assumes "debug_tag_bytes t = [tag]" and "wires m 0 (\<lambda>_. True) (dec_debug_body v tag) x"
  shows "wires (bindE (put_tag t) (\<lambda>_. m)) 0 (\<lambda>_. True) (dec_debug v) x"
proof -
  have "wires (put_tag t) 0 (\<lambda>_. True) (\<lambda>T. dec_byte) tag"
    unfolding put_tag_def by (rule wires_bytes) (simp add: assms)
  from wires_then [where d' = "dec_debug_body v", OF this assms(2)]
  show ?thesis by (simp add: dec_debug_def [abs_def])
qed

definition build_debug :: "bytecode_version \<Rightarrow> debug_desc \<Rightarrow> (sbuf, unit) eff" where
  "build_debug v d = (case d of
     DFile n dir \<Rightarrow> seqE [put_tag DIFile, encode_str n] (encode_str dir)
   | DCompileUnit f \<Rightarrow> seqE [put_tag DICompileUnit] (put_attr f)
   | DLexicalBlock p f l c \<Rightarrow> seqE [put_tag DILexicalBlock, put_attr p, put_attr f, put_int l] (put_int c)
   | DSubprogram f l n ln cu sl \<Rightarrow>
       seqE [put_tag DISubprogram, put_attr f, put_int l, encode_str n, encode_str ln, put_attr cu,
             put_int sl] (if v \<ge> V_13_5 then put_int 0 else skipE)
   | DCallSite a b \<Rightarrow> seqE [put_tag DICallSite, put_attr a] (put_attr b)
   | DLoc s f l c \<Rightarrow> seqE [put_tag DILoc, put_attr s, encode_str f, put_int l] (put_int c))"

lemma intern_debug_built: "intern_debug v d = debug_built (build_debug v d)"
  by (cases d) (simp_all add: build_debug_def debug_file_def debug_compile_unit_def
      debug_lexical_block_def debug_subprogram_def debug_call_site_def debug_loc_def)

lemma wires_trailing_flags:
  "wires (if v \<ge> V_13_5 then put_int 0 else skipE) 0 (\<lambda>_. True)
     (\<lambda>T. dec_map (\<lambda>_. y) (if v \<ge> V_13_5 then dec_varint else dec_ret 0)) y"
  by (rule wires_map [where x = 0]; cases "V_13_5 \<le> v")
    (simp_all only: if_True if_False wires_put_int wires_skip)

lemmas wires_debug = wires_then wires_put_int wires_put_attr wires_string

lemma build_debug_wires: "wires (build_debug v d) 0 (\<lambda>_. True) (dec_debug v) (wire_debug d)"
proof (cases d)
  case (DFile n dir)
  show ?thesis unfolding DFile build_debug_def debug_desc.case seqE.simps wire_debug.simps
    by (rule wires_put_tag [where tag = 2], simp, simp add: dec_debug_body_def [abs_def],
        (rule wires_debug wires_map)+)
next
  case (DCompileUnit f)
  show ?thesis unfolding DCompileUnit build_debug_def debug_desc.case seqE.simps wire_debug.simps
    by (rule wires_put_tag [where tag = 1], simp, simp add: dec_debug_body_def [abs_def],
        (rule wires_debug wires_map)+)
next
  case (DLexicalBlock p f l c)
  show ?thesis unfolding DLexicalBlock build_debug_def debug_desc.case seqE.simps wire_debug.simps
    by (rule wires_put_tag [where tag = 3], simp, simp add: dec_debug_body_def [abs_def],
        (rule wires_debug wires_map)+)
next
  case (DSubprogram f l n ln cu sl)
  show ?thesis unfolding DSubprogram build_debug_def debug_desc.case seqE.simps wire_debug.simps
    by (rule wires_put_tag [where tag = 5], simp, simp add: dec_debug_body_def [abs_def] split del: if_split,
        (rule wires_trailing_flags wires_debug)+)
next
  case (DCallSite a b)
  show ?thesis unfolding DCallSite build_debug_def debug_desc.case seqE.simps wire_debug.simps
    by (rule wires_put_tag [where tag = 6], simp, simp add: dec_debug_body_def [abs_def],
        (rule wires_debug wires_map)+)
next
  case (DLoc s f l c)
  show ?thesis unfolding DLoc build_debug_def debug_desc.case seqE.simps wire_debug.simps
    by (rule wires_put_tag [where tag = 4], simp, simp add: dec_debug_body_def [abs_def],
        (rule wires_debug wires_map)+)
qed

text \<open>An interned debug attribute reads back as what was described, and ids identify entries.\<close>

lemma debug_built_success:
  assumes "debug_built build (strings, attrs) = (Inr i, (strings', attrs'))"
  shows "\<exists>key. build (strings, []) = (Inr (), (strings', key))
    \<and> debug_table_getitem key attrs = (Inr i, attrs')"
  using assms by (auto simp: debug_built_def split: prod.splits sum.splits)

lemma intern_debug_entry:
  assumes strings: "table_ok StringId 0 strings" and attrs: "table_ok DebugAttrId 1 attrs"
    and run: "intern_debug v d (strings, attrs) = (Inr i, (strings', attrs'))"
  shows "table_ok StringId 0 strings' \<and> grows strings strings'
    \<and> table_ok DebugAttrId 1 attrs' \<and> grows attrs attrs'
    \<and> 1 \<le> debug_attr_id i
    \<and> (\<exists>key. resolves (table_keys attrs') (debug_attr_id i - 1) key
        \<and> (\<forall>T. covers (tab_strings T) strings' \<longrightarrow> dec_debug v T key = Some (wire_debug d, [])))"
proof -
  obtain key where key: "build_debug v d (strings, []) = (Inr (), (strings', key))"
      "debug_table_getitem key attrs = (Inr i, attrs')"
    using debug_built_success [OF run [unfolded intern_debug_built]] by blast
  have "table_ok StringId 0 (fst (strings, [] :: bytes))" using strings by simp
  from wires_D [OF build_debug_wires this key(1)]
  obtain e where e: "table_ok StringId 0 strings'" "grows strings strings'" "key = e"
      "\<And>T rest. covers (tab_strings T) strings' \<Longrightarrow> dec_debug v T (e @ rest) = Some (wire_debug d, rest)"
    by auto
  have "dec_debug v T key = Some (wire_debug d, [])" if "covers (tab_strings T) strings'" for T
    using e(4) [OF that, of "[]"] by (simp add: e(3))
  then show ?thesis
    using debug_attrs.getitem_position [OF attrs key(2)] debug_attrs.keys_grow [OF attrs key(2)] e(1,2)
    by (auto simp: resolves_def grows_def)
qed

end
