(* ===== verification/BcCodeBuilder.thy ===== *)
theory BcCodeBuilder
  imports BcDebugInfo
begin

text \<open>
  \<^verbatim>\<open>src/cuda/tile/_bytecode/code_builder.py\<close>: the builder the operation encoders write
  through, and the regions of nested blocks.

  \<^item> the \<^verbatim>\<open>@contextmanager\<close> methods are split at their \<^verbatim>\<open>yield\<close>: \<open>new_block_enter\<close> is the code
    before it, \<open>new_block_exit\<close> the code after a normal end of the body (with the \<^verbatim>\<open>finally\<close>
    clause), \<open>new_block_abort\<close> the \<^verbatim>\<open>finally\<close> clause after an exception in the body;
  \<^item> \<open>cb_varint\<close>, \<open>cb_typeid\<close>, \<dots>: the free functions of \<^verbatim>\<open>basic.py\<close> and \<^verbatim>\<open>type_base.py\<close> applied
    to the alias \<^verbatim>\<open>_buf = code_builder.buf\<close>, as the encoders call them.
\<close>

datatype bc_value = Value (value_id: int)

record nested_block_builder =
  nb_num_results :: nat
  nb_num_blocks :: int

text \<open>The result of \<^verbatim>\<open>new_op\<close> and of an encoder: \<^verbatim>\<open>None\<close>, one value, a tuple, or a block builder.\<close>

datatype op_result =
    NoResult
  | OneResult bc_value
  | ManyResults "bc_value list"
  | NestedResult nested_block_builder

record code_builder =
  buf :: bytes
  cb_version :: bytecode_version
  cb_string_table :: string_table
  cb_constant_table :: constant_table
  debug_attr_per_op :: "debug_attr_id list"
  next_value_id :: int
  cur_debug_attr :: debug_attr_id
  num_ops :: int

type_synonym 'a cb = "(code_builder, 'a) eff"

definition on_buf :: "(bytes, 'a) eff \<Rightarrow> 'a cb" where
  "on_buf = zoom buf (\<lambda>b s. s\<lparr>buf := b\<rparr>)"

definition on_sbuf :: "(sbuf, 'a) eff \<Rightarrow> 'a cb" where
  "on_sbuf = zoom (\<lambda>s. (cb_string_table s, buf s)) (\<lambda>t s. s\<lparr>cb_string_table := fst t, buf := snd t\<rparr>)"

definition on_constants :: "(constant_table, 'a) eff \<Rightarrow> 'a cb" where
  "on_constants = zoom cb_constant_table (\<lambda>t s. s\<lparr>cb_constant_table := t\<rparr>)"

section \<open>Values and operations\<close>

definition make_value_tuple :: "nat \<Rightarrow> bc_value list cb" where
  "make_value_tuple n = (\<lambda>s.
     let e = next_value_id s + int n;
         ret = List.map Value [next_value_id s..e - 1]
     in (Inr ret, s\<lparr>next_value_id := e\<rparr>))"

definition record_op :: "unit cb" where
  "record_op = modifyE (\<lambda>s. s\<lparr>debug_attr_per_op := debug_attr_per_op s @ [cur_debug_attr s],
                                 num_ops := num_ops s + 1\<rparr>)"

definition new_op :: "nat option \<Rightarrow> op_result cb" where
  "new_op num_results = bindE record_op (\<lambda>_.
     case num_results of
       None \<Rightarrow> (\<lambda>s. (Inr (OneResult (Value (next_value_id s))), s\<lparr>next_value_id := next_value_id s + 1\<rparr>))
     | Some n \<Rightarrow> if n = 0 then retE NoResult
                 else bindE (make_value_tuple n) (\<lambda>vs. retE (ManyResults vs)))"

definition new_op_with_nested_blocks :: "nat \<Rightarrow> int \<Rightarrow> op_result cb" where
  "new_op_with_nested_blocks num_results num_blocks =
     seqE [record_op, on_buf (encode_varint num_blocks)]
       (retE (NestedResult \<lparr>nb_num_results = num_results, nb_num_blocks = num_blocks\<rparr>))"

section \<open>Nested blocks\<close>

text \<open>The local variables \<^verbatim>\<open>orig_buf\<close>, \<^verbatim>\<open>orig_next_value_id\<close>, \<^verbatim>\<open>orig_num_ops\<close> of \<^verbatim>\<open>new_block\<close>.\<close>

record block_save =
  orig_buf :: bytes
  orig_next_value_id :: int
  orig_num_ops :: int

definition new_block_enter ::
    "nested_block_builder \<Rightarrow> type_id list \<Rightarrow> (bc_value list \<times> block_save) cb" where
  "new_block_enter nb arg_type_ids =
     seqE [assertE (nb_num_blocks nb > 0),
           on_buf (buf_append 1),
           on_buf (encode_varint (int (length arg_type_ids))),
           forE arg_type_ids (\<lambda>t. on_buf (encode_typeid t))]
       (bindE (getE (\<lambda>s. \<lparr>orig_buf = buf s, orig_next_value_id = next_value_id s,
                            orig_num_ops = num_ops s\<rparr>)) (\<lambda>saved.
        bindE (modifyE (\<lambda>s. s\<lparr>num_ops := 0, buf := []\<rparr>)) (\<lambda>_.
        bindE (make_value_tuple (length arg_type_ids)) (\<lambda>vs. retE (vs, saved)))))"

definition new_block_abort :: "bytes \<Rightarrow> block_save \<Rightarrow> unit cb" where
  "new_block_abort outer saved =
     modifyE (\<lambda>s. s\<lparr>next_value_id := orig_next_value_id saved, num_ops := orig_num_ops saved,
                      buf := outer\<rparr>)"

definition new_block_exit :: "nested_block_builder \<Rightarrow> block_save \<Rightarrow> nested_block_builder cb" where
  "new_block_exit nb saved = (\<lambda>s.
     case encode_varint (num_ops s) (orig_buf saved) of
       (Inl e, outer) \<Rightarrow> (Inl e, snd (new_block_abort outer saved s))
     | (Inr _, outer) \<Rightarrow>
         (Inr (nb\<lparr>nb_num_blocks := nb_num_blocks nb - 1\<rparr>),
          snd (new_block_abort (outer @ buf s) saved s)))"

text \<open>\<^verbatim>\<open>with nb.new_block(arg_type_ids) as values: body\<close>.\<close>

definition new_block ::
    "nested_block_builder \<Rightarrow> type_id list \<Rightarrow> (bc_value list \<Rightarrow> unit cb) \<Rightarrow> nested_block_builder cb" where
  "new_block nb arg_type_ids body =
     bindE (new_block_enter nb arg_type_ids) (\<lambda>(vals, saved) s.
       case body vals s of
         (Inl e, u) \<Rightarrow> (Inl e, snd (new_block_abort (orig_buf saved) saved u))
       | (Inr _, u) \<Rightarrow> new_block_exit nb saved u)"

definition nested_done :: "nested_block_builder \<Rightarrow> bc_value list cb" where
  "nested_done nb =
     seqE [assertE (nb_num_blocks nb = 0)] (make_value_tuple (nb_num_results nb))"

text \<open>\<^verbatim>\<open>debug_attr\<close>: the attribute recorded for the operations of the body, and its restoration.\<close>

definition debug_attr_enter :: "debug_attr_id \<Rightarrow> debug_attr_id cb" where
  "debug_attr_enter a =
     bindE (getE cur_debug_attr) (\<lambda>old. bindE (modifyE (\<lambda>s. s\<lparr>cur_debug_attr := a\<rparr>)) (\<lambda>_. retE old))"

definition debug_attr_exit :: "debug_attr_id \<Rightarrow> unit cb" where
  "debug_attr_exit old = modifyE (\<lambda>s. s\<lparr>cur_debug_attr := old\<rparr>)"

section \<open>Writing operands and attributes\<close>

definition encode_operand :: "bc_value \<Rightarrow> (bytes, unit) eff" where
  "encode_operand val = encode_varint (value_id val)"

definition encode_optional_operand :: "bc_value option \<Rightarrow> (bytes, unit) eff" where
  "encode_optional_operand val =
     (case val of None \<Rightarrow> skipE | Some v \<Rightarrow> encode_varint (value_id v))"

definition encode_unsized_variadic_operands :: "bc_value list \<Rightarrow> (bytes, unit) eff" where
  "encode_unsized_variadic_operands vals = forE vals (\<lambda>v. encode_varint (value_id v))"

definition encode_sized_variadic_operands :: "bc_value list \<Rightarrow> (bytes, unit) eff" where
  "encode_sized_variadic_operands vals =
     seqE [encode_varint (int (length vals))] (encode_unsized_variadic_operands vals)"

definition cb_varint :: "int \<Rightarrow> unit cb" where
  "cb_varint x = on_buf (encode_varint x)"

definition cb_typeid :: "type_id \<Rightarrow> unit cb" where
  "cb_typeid t = on_buf (encode_typeid t)"

definition cb_sized_typeid_seq :: "type_id list \<Rightarrow> unit cb" where
  "cb_sized_typeid_seq ts = on_buf (encode_sized_typeid_seq ts)"

definition cb_operand :: "bc_value \<Rightarrow> unit cb" where
  "cb_operand v = on_buf (encode_operand v)"

definition cb_optional_operand :: "bc_value option \<Rightarrow> unit cb" where
  "cb_optional_operand v = on_buf (encode_optional_operand v)"

definition cb_unsized_variadic_operands :: "bc_value list \<Rightarrow> unit cb" where
  "cb_unsized_variadic_operands vs = on_buf (encode_unsized_variadic_operands vs)"

definition cb_sized_variadic_operands :: "bc_value list \<Rightarrow> unit cb" where
  "cb_sized_variadic_operands vs = on_buf (encode_sized_variadic_operands vs)"

definition encode_opattr_bool :: "bool \<Rightarrow> unit cb" where
  "encode_opattr_bool val = on_buf (buf_append (pybool val))"

definition encode_opattr_int :: "int \<Rightarrow> unit cb" where
  "encode_opattr_int val = on_buf (encode_varint val)"

text \<open>
  \<^verbatim>\<open>encode_opattr_enum(expected_type, val)\<close>: the first argument is the byte table of the expected
  type, so HOL's typing of the second plays the part of the \<^verbatim>\<open>isinstance\<close> assertion.
\<close>

definition encode_opattr_enum :: "('e \<Rightarrow> bytes) \<Rightarrow> 'e \<Rightarrow> unit cb" where
  "encode_opattr_enum expected_type val = on_buf (buf_extend (expected_type val))"

definition encode_opattr_str :: "pystr \<Rightarrow> unit cb" where
  "encode_opattr_str val = on_sbuf (encode_str val)"

definition encode_opattr_typeid :: "type_id \<Rightarrow> unit cb" where
  "encode_opattr_typeid t = on_buf (encode_typeid t)"

definition encode_opattr_tagged :: "(attr \<Rightarrow> bool) \<Rightarrow> attr \<Rightarrow> unit cb" where
  "encode_opattr_tagged attr_class val =
     seqE [assertE (attr_class val)] (on_sbuf (encode_tagged val))"

definition encode_opattr_array :: "attr list \<Rightarrow> unit cb" where
  "encode_opattr_array arr =
     seqE [on_buf (encode_varint (int (length arr)))]
       (forE arr (\<lambda>x. encode_opattr_tagged (\<lambda>_. True) x))"

definition encode_opattr_dense_typed_elements :: "bytes \<Rightarrow> unit cb" where
  "encode_opattr_dense_typed_elements val =
     bindE (on_constants (dense_constant val)) (\<lambda>cid. on_buf (encode_varint (constant_id cid)))"

definition encode_opattr_dense_int32_array :: "int list \<Rightarrow> unit cb" where
  "encode_opattr_dense_int32_array val = on_buf (encode_int_list val 4)"

definition encode_opattr_dense_bool_array :: "bool list \<Rightarrow> unit cb" where
  "encode_opattr_dense_bool_array val = on_buf (encode_int_list (List.map pybool val) 1)"

text \<open>The argument is the \<^verbatim>\<open>hints_by_arch\<close> list of an \<^verbatim>\<open>OptimizationHints\<close>.\<close>

definition encode_opattr_optimization_hints :: "(pystr \<times> attr) list \<Rightarrow> unit cb" where
  "encode_opattr_optimization_hints hints = on_sbuf (encode_dictionary_untagged hints)"

text \<open>\<^verbatim>\<open>if code_builder.version >= v: m1 else: m2\<close>.\<close>

definition if_version :: "bytecode_version \<Rightarrow> 'a cb \<Rightarrow> 'a cb \<Rightarrow> 'a cb" where
  "if_version v m1 m2 = (\<lambda>s. if cb_version s \<ge> v then m1 s else m2 s)"

text \<open>\<^verbatim>\<open>assert _flag_bits < n or code_builder.version >= v\<close>.\<close>

definition assert_flags :: "int \<Rightarrow> int \<Rightarrow> bytecode_version \<Rightarrow> unit cb" where
  "assert_flags flag_bits n v = (\<lambda>s. assertE (flag_bits < n \<or> cb_version s \<ge> v) s)"

end
