(* ===== verification/BcEncodings.thy ===== *)
theory BcEncodings
  imports BcCodeBuilder
begin

text \<open>
  \<^verbatim>\<open>src/cuda/tile/_bytecode/encodings.py\<close>: the enumerations of the bytecode and one encoder per
  operation.  Each definition lists the statements of the Python function in order, then the
  \<^verbatim>\<open>return\<close>.  The version tests and assertions that guard fields newer than the targeted
  bytecode version are kept where the code has them.
\<close>

section \<open>Enumerations\<close>

datatype atomic_rmw_mode =
    RMW_AND | RMW_OR | RMW_XOR | RMW_ADD
  | RMW_ADDF | RMW_MAX | RMW_MIN | RMW_UMAX
  | RMW_UMIN | RMW_XCHG

fun atomic_rmw_mode_bytes :: "atomic_rmw_mode \<Rightarrow> bytes" where
  "atomic_rmw_mode_bytes RMW_AND = [0x00]"
| "atomic_rmw_mode_bytes RMW_OR = [0x01]"
| "atomic_rmw_mode_bytes RMW_XOR = [0x02]"
| "atomic_rmw_mode_bytes RMW_ADD = [0x03]"
| "atomic_rmw_mode_bytes RMW_ADDF = [0x04]"
| "atomic_rmw_mode_bytes RMW_MAX = [0x05]"
| "atomic_rmw_mode_bytes RMW_MIN = [0x06]"
| "atomic_rmw_mode_bytes RMW_UMAX = [0x07]"
| "atomic_rmw_mode_bytes RMW_UMIN = [0x08]"
| "atomic_rmw_mode_bytes RMW_XCHG = [0x09]"

lemma length_atomic_rmw_mode_bytes [simp]: "length (atomic_rmw_mode_bytes x) = 1"
  by (cases x) simp_all

datatype comparison_ordering =
    CMPO_UNORDERED | CMPO_ORDERED

fun comparison_ordering_bytes :: "comparison_ordering \<Rightarrow> bytes" where
  "comparison_ordering_bytes CMPO_UNORDERED = [0x00]"
| "comparison_ordering_bytes CMPO_ORDERED = [0x01]"

lemma length_comparison_ordering_bytes [simp]: "length (comparison_ordering_bytes x) = 1"
  by (cases x) simp_all

datatype comparison_predicate =
    CMP_EQUAL | CMP_NOT_EQUAL | CMP_LESS_THAN | CMP_LESS_THAN_OR_EQUAL
  | CMP_GREATER_THAN | CMP_GREATER_THAN_OR_EQUAL

fun comparison_predicate_bytes :: "comparison_predicate \<Rightarrow> bytes" where
  "comparison_predicate_bytes CMP_EQUAL = [0x00]"
| "comparison_predicate_bytes CMP_NOT_EQUAL = [0x01]"
| "comparison_predicate_bytes CMP_LESS_THAN = [0x02]"
| "comparison_predicate_bytes CMP_LESS_THAN_OR_EQUAL = [0x03]"
| "comparison_predicate_bytes CMP_GREATER_THAN = [0x04]"
| "comparison_predicate_bytes CMP_GREATER_THAN_OR_EQUAL = [0x05]"

lemma length_comparison_predicate_bytes [simp]: "length (comparison_predicate_bytes x) = 1"
  by (cases x) simp_all

datatype gpu_architecture =
    ARCH_SM_80 | ARCH_SM_86 | ARCH_SM_87 | ARCH_SM_88
  | ARCH_SM_89 | ARCH_SM_90 | ARCH_SM_100 | ARCH_SM_103
  | ARCH_SM_110 | ARCH_SM_120 | ARCH_SM_121

fun gpu_architecture_bytes :: "gpu_architecture \<Rightarrow> bytes" where
  "gpu_architecture_bytes ARCH_SM_80 = [0x50]"
| "gpu_architecture_bytes ARCH_SM_86 = [0x56]"
| "gpu_architecture_bytes ARCH_SM_87 = [0x57]"
| "gpu_architecture_bytes ARCH_SM_88 = [0x58]"
| "gpu_architecture_bytes ARCH_SM_89 = [0x59]"
| "gpu_architecture_bytes ARCH_SM_90 = [0x5a]"
| "gpu_architecture_bytes ARCH_SM_100 = [0x64]"
| "gpu_architecture_bytes ARCH_SM_103 = [0x67]"
| "gpu_architecture_bytes ARCH_SM_110 = [0x6e]"
| "gpu_architecture_bytes ARCH_SM_120 = [0x78]"
| "gpu_architecture_bytes ARCH_SM_121 = [0x79]"

lemma length_gpu_architecture_bytes [simp]: "length (gpu_architecture_bytes x) = 1"
  by (cases x) simp_all

datatype hint_key =
    HINT_NumCTAInCGA | HINT_Occupancy | HINT_AllowTMA | HINT_Latency
  | HINT_NumWorkerWarpsPerCTA

fun hint_key_bytes :: "hint_key \<Rightarrow> bytes" where
  "hint_key_bytes HINT_NumCTAInCGA = [0x00]"
| "hint_key_bytes HINT_Occupancy = [0x01]"
| "hint_key_bytes HINT_AllowTMA = [0x02]"
| "hint_key_bytes HINT_Latency = [0x03]"
| "hint_key_bytes HINT_NumWorkerWarpsPerCTA = [0x04]"

lemma length_hint_key_bytes [simp]: "length (hint_key_bytes x) = 1"
  by (cases x) simp_all

datatype integer_overflow =
    OVF_NONE | OVF_NSW | OVF_NUW | OVF_NW

fun integer_overflow_bytes :: "integer_overflow \<Rightarrow> bytes" where
  "integer_overflow_bytes OVF_NONE = [0x00]"
| "integer_overflow_bytes OVF_NSW = [0x01]"
| "integer_overflow_bytes OVF_NUW = [0x02]"
| "integer_overflow_bytes OVF_NW = [0x03]"

lemma length_integer_overflow_bytes [simp]: "length (integer_overflow_bytes x) = 1"
  by (cases x) simp_all

datatype memory_ordering_semantics =
    MO_WEAK | MO_RELAXED | MO_ACQUIRE | MO_RELEASE
  | MO_ACQ_REL

fun memory_ordering_semantics_bytes :: "memory_ordering_semantics \<Rightarrow> bytes" where
  "memory_ordering_semantics_bytes MO_WEAK = [0x00]"
| "memory_ordering_semantics_bytes MO_RELAXED = [0x01]"
| "memory_ordering_semantics_bytes MO_ACQUIRE = [0x02]"
| "memory_ordering_semantics_bytes MO_RELEASE = [0x03]"
| "memory_ordering_semantics_bytes MO_ACQ_REL = [0x04]"

lemma length_memory_ordering_semantics_bytes [simp]: "length (memory_ordering_semantics_bytes x) = 1"
  by (cases x) simp_all

datatype memory_scope =
    MS_TL_BLK | MS_DEVICE | MS_SYS

fun memory_scope_bytes :: "memory_scope \<Rightarrow> bytes" where
  "memory_scope_bytes MS_TL_BLK = [0x00]"
| "memory_scope_bytes MS_DEVICE = [0x01]"
| "memory_scope_bytes MS_SYS = [0x02]"

lemma length_memory_scope_bytes [simp]: "length (memory_scope_bytes x) = 1"
  by (cases x) simp_all

datatype multimem_reduction_kind =
    MMR_ADD | MMR_MIN | MMR_MAX | MMR_AND
  | MMR_OR | MMR_XOR | MMR_UMIN | MMR_UMAX

fun multimem_reduction_kind_bytes :: "multimem_reduction_kind \<Rightarrow> bytes" where
  "multimem_reduction_kind_bytes MMR_ADD = [0x00]"
| "multimem_reduction_kind_bytes MMR_MIN = [0x01]"
| "multimem_reduction_kind_bytes MMR_MAX = [0x02]"
| "multimem_reduction_kind_bytes MMR_AND = [0x03]"
| "multimem_reduction_kind_bytes MMR_OR = [0x04]"
| "multimem_reduction_kind_bytes MMR_XOR = [0x05]"
| "multimem_reduction_kind_bytes MMR_UMIN = [0x06]"
| "multimem_reduction_kind_bytes MMR_UMAX = [0x07]"

lemma length_multimem_reduction_kind_bytes [simp]: "length (multimem_reduction_kind_bytes x) = 1"
  by (cases x) simp_all

datatype rounding_mode =
    RM_NEAREST_EVEN | RM_ZERO | RM_NEGATIVE_INF | RM_POSITIVE_INF
  | RM_APPROX | RM_FULL | RM_NEAREST_INT_TO_ZERO | RM_NEAREST_AWAY

fun rounding_mode_bytes :: "rounding_mode \<Rightarrow> bytes" where
  "rounding_mode_bytes RM_NEAREST_EVEN = [0x00]"
| "rounding_mode_bytes RM_ZERO = [0x01]"
| "rounding_mode_bytes RM_NEGATIVE_INF = [0x02]"
| "rounding_mode_bytes RM_POSITIVE_INF = [0x03]"
| "rounding_mode_bytes RM_APPROX = [0x04]"
| "rounding_mode_bytes RM_FULL = [0x05]"
| "rounding_mode_bytes RM_NEAREST_INT_TO_ZERO = [0x06]"
| "rounding_mode_bytes RM_NEAREST_AWAY = [0x07]"

lemma length_rounding_mode_bytes [simp]: "length (rounding_mode_bytes x) = 1"
  by (cases x) simp_all

datatype signedness =
    SG_Unsigned | SG_Signed

fun signedness_bytes :: "signedness \<Rightarrow> bytes" where
  "signedness_bytes SG_Unsigned = [0x00]"
| "signedness_bytes SG_Signed = [0x01]"

lemma length_signedness_bytes [simp]: "length (signedness_bytes x) = 1"
  by (cases x) simp_all

datatype symbol_visibility =
    SV_Public | SV_Private

fun symbol_visibility_bytes :: "symbol_visibility \<Rightarrow> bytes" where
  "symbol_visibility_bytes SV_Public = [0x00]"
| "symbol_visibility_bytes SV_Private = [0x01]"

lemma length_symbol_visibility_bytes [simp]: "length (symbol_visibility_bytes x) = 1"
  by (cases x) simp_all

datatype synchronization =
    SYNC_None | SYNC_Warp | SYNC_Warpgroup | SYNC_CTA

fun synchronization_bytes :: "synchronization \<Rightarrow> bytes" where
  "synchronization_bytes SYNC_None = [0x00]"
| "synchronization_bytes SYNC_Warp = [0x01]"
| "synchronization_bytes SYNC_Warpgroup = [0x02]"
| "synchronization_bytes SYNC_CTA = [0x03]"

lemma length_synchronization_bytes [simp]: "length (synchronization_bytes x) = 1"
  by (cases x) simp_all

section \<open>Operation encoders\<close>

definition encode_AbsFOp ::
    "type_id \<Rightarrow> bc_value \<Rightarrow> op_result cb" where
  "encode_AbsFOp result_type source =
     seqE [cb_varint 0,
           cb_typeid result_type,
           cb_operand source]
       (new_op None)"

definition encode_AbsIOp ::
    "type_id \<Rightarrow> bc_value \<Rightarrow> op_result cb" where
  "encode_AbsIOp result_type source =
     seqE [cb_varint 1,
           cb_typeid result_type,
           cb_operand source]
       (new_op None)"

definition encode_AddFOp ::
    "type_id \<Rightarrow> bc_value \<Rightarrow> bc_value \<Rightarrow> rounding_mode \<Rightarrow> bool \<Rightarrow> op_result cb" where
  "encode_AddFOp result_type lhs rhs rounding_mode flush_to_zero =
     seqE [cb_varint 2,
           cb_typeid result_type,
           cb_varint (pybool flush_to_zero),
           encode_opattr_enum rounding_mode_bytes rounding_mode,
           cb_operand lhs,
           cb_operand rhs]
       (new_op None)"

definition encode_AddIOp ::
    "type_id \<Rightarrow> bc_value \<Rightarrow> bc_value \<Rightarrow> integer_overflow \<Rightarrow> op_result cb" where
  "encode_AddIOp result_type lhs rhs overflow =
     seqE [cb_varint 3,
           cb_typeid result_type,
           encode_opattr_enum integer_overflow_bytes overflow,
           cb_operand lhs,
           cb_operand rhs]
       (new_op None)"

definition encode_AllocaOp ::
    "type_id \<Rightarrow> int \<Rightarrow> int \<Rightarrow> bool \<Rightarrow> op_result cb" where
  "encode_AllocaOp result_type num_elem alignment global' =
     seqE [cb_varint 113,
           cb_typeid result_type,
           cb_varint (pybool global'),
           encode_opattr_int num_elem,
           encode_opattr_int alignment]
       (new_op None)"

definition encode_AndIOp ::
    "type_id \<Rightarrow> bc_value \<Rightarrow> bc_value \<Rightarrow> op_result cb" where
  "encode_AndIOp result_type lhs rhs =
     seqE [cb_varint 4,
           cb_typeid result_type,
           cb_operand lhs,
           cb_operand rhs]
       (new_op None)"

definition encode_AssertOp ::
    "bc_value \<Rightarrow> pystr \<Rightarrow> op_result cb" where
  "encode_AssertOp condition message =
     seqE [cb_varint 5,
           encode_opattr_str message,
           cb_operand condition]
       (new_op (Some 0))"

definition encode_AssumeOp ::
    "type_id \<Rightarrow> bc_value \<Rightarrow> attr \<Rightarrow> op_result cb" where
  "encode_AssumeOp result_type value' predicate =
     seqE [cb_varint 6,
           cb_typeid result_type,
           encode_opattr_tagged is_assume_predicate predicate,
           cb_operand value']
       (new_op None)"

definition encode_Atan2Op ::
    "type_id \<Rightarrow> bc_value \<Rightarrow> bc_value \<Rightarrow> op_result cb" where
  "encode_Atan2Op result_type x y =
     seqE [cb_varint 110,
           cb_typeid result_type,
           cb_operand x,
           cb_operand y]
       (new_op None)"

definition encode_AtomicCASTkoOp ::
    "type_id \<Rightarrow> type_id \<Rightarrow> bc_value \<Rightarrow> bc_value \<Rightarrow> bc_value \<Rightarrow> bc_value option \<Rightarrow> bc_value option \<Rightarrow>
     memory_ordering_semantics \<Rightarrow> memory_scope \<Rightarrow> op_result cb" where
  "encode_AtomicCASTkoOp result_type result_token_type pointers cmp val mask' token
      memory_ordering_semantics memory_scope =
     seqE [cb_varint 7,
           cb_typeid result_type,
           cb_typeid result_token_type,
           cb_varint (or (pybool (mask' \<noteq> None)) (push_bit 1 (pybool (token \<noteq> None)))),
           encode_opattr_enum memory_ordering_semantics_bytes memory_ordering_semantics,
           encode_opattr_enum memory_scope_bytes memory_scope,
           cb_operand pointers,
           cb_operand cmp,
           cb_operand val,
           cb_optional_operand mask',
           cb_optional_operand token]
       (new_op (Some 2))"

definition encode_AtomicRMWTkoOp ::
    "type_id \<Rightarrow> type_id \<Rightarrow> bc_value \<Rightarrow> bc_value \<Rightarrow> bc_value option \<Rightarrow> bc_value option \<Rightarrow>
     memory_ordering_semantics \<Rightarrow> memory_scope \<Rightarrow> atomic_rmw_mode \<Rightarrow> op_result cb" where
  "encode_AtomicRMWTkoOp result_type result_token_type pointers arg mask' token
      memory_ordering_semantics memory_scope mode =
     seqE [cb_varint 8,
           cb_typeid result_type,
           cb_typeid result_token_type,
           cb_varint (or (pybool (mask' \<noteq> None)) (push_bit 1 (pybool (token \<noteq> None)))),
           encode_opattr_enum memory_ordering_semantics_bytes memory_ordering_semantics,
           encode_opattr_enum memory_scope_bytes memory_scope,
           encode_opattr_enum atomic_rmw_mode_bytes mode,
           cb_operand pointers,
           cb_operand arg,
           cb_optional_operand mask',
           cb_optional_operand token]
       (new_op (Some 2))"

definition encode_AtomicRedViewTkoOp ::
    "type_id \<Rightarrow> bc_value \<Rightarrow> bc_value list \<Rightarrow> bc_value \<Rightarrow> bc_value option \<Rightarrow> memory_ordering_semantics \<Rightarrow>
     memory_scope \<Rightarrow> atomic_rmw_mode \<Rightarrow> bool list \<Rightarrow> op_result cb" where
  "encode_AtomicRedViewTkoOp result_token_type view index value' token memory_ordering_semantics
      memory_scope mode inbounds =
     seqE [cb_varint 117,
           cb_sized_typeid_seq [result_token_type],
           cb_varint (pybool (token \<noteq> None)),
           encode_opattr_enum memory_ordering_semantics_bytes memory_ordering_semantics,
           encode_opattr_enum memory_scope_bytes memory_scope,
           encode_opattr_enum atomic_rmw_mode_bytes mode,
           if_version V_13_5 (encode_opattr_dense_bool_array inbounds) (if list_ex id inbounds
             then raiseE ValueError else skipE),
           cb_operand view,
           cb_sized_variadic_operands index,
           cb_operand value',
           cb_optional_operand token]
       (new_op None)"

definition encode_BitcastOp ::
    "type_id \<Rightarrow> bc_value \<Rightarrow> op_result cb" where
  "encode_BitcastOp result_type source =
     seqE [cb_varint 9,
           cb_typeid result_type,
           cb_operand source]
       (new_op None)"

definition encode_BreakOp ::
    "bc_value list \<Rightarrow> op_result cb" where
  "encode_BreakOp operands =
     seqE [cb_varint 10,
           cb_sized_typeid_seq [],
           cb_varint (int (length operands)),
           cb_unsized_variadic_operands operands]
       (new_op (Some 0))"

definition encode_BroadcastOp ::
    "type_id \<Rightarrow> bc_value \<Rightarrow> op_result cb" where
  "encode_BroadcastOp result_type source =
     seqE [cb_varint 11,
           cb_typeid result_type,
           cb_operand source]
       (new_op None)"

definition encode_CatOp ::
    "type_id \<Rightarrow> bc_value \<Rightarrow> bc_value \<Rightarrow> int \<Rightarrow> op_result cb" where
  "encode_CatOp result_type lhs rhs dim =
     seqE [cb_varint 12,
           cb_typeid result_type,
           encode_opattr_int dim,
           cb_operand lhs,
           cb_operand rhs]
       (new_op None)"

definition encode_CeilOp ::
    "type_id \<Rightarrow> bc_value \<Rightarrow> op_result cb" where
  "encode_CeilOp result_type source =
     seqE [cb_varint 13,
           cb_typeid result_type,
           cb_operand source]
       (new_op None)"

definition encode_CmpFOp ::
    "type_id \<Rightarrow> bc_value \<Rightarrow> bc_value \<Rightarrow> comparison_predicate \<Rightarrow> comparison_ordering \<Rightarrow> op_result cb" where
  "encode_CmpFOp result_type lhs rhs comparison_predicate comparison_ordering =
     seqE [cb_varint 14,
           cb_typeid result_type,
           encode_opattr_enum comparison_predicate_bytes comparison_predicate,
           encode_opattr_enum comparison_ordering_bytes comparison_ordering,
           cb_operand lhs,
           cb_operand rhs]
       (new_op None)"

definition encode_CmpIOp ::
    "type_id \<Rightarrow> bc_value \<Rightarrow> bc_value \<Rightarrow> comparison_predicate \<Rightarrow> signedness \<Rightarrow> op_result cb" where
  "encode_CmpIOp result_type lhs rhs comparison_predicate signedness =
     seqE [cb_varint 15,
           cb_typeid result_type,
           encode_opattr_enum comparison_predicate_bytes comparison_predicate,
           encode_opattr_enum signedness_bytes signedness,
           cb_operand lhs,
           cb_operand rhs]
       (new_op None)"

definition encode_ConstantOp ::
    "type_id \<Rightarrow> bytes \<Rightarrow> op_result cb" where
  "encode_ConstantOp result_type value' =
     seqE [cb_varint 16,
           cb_typeid result_type,
           encode_opattr_dense_typed_elements value']
       (new_op None)"

definition encode_ContinueOp ::
    "bc_value list \<Rightarrow> op_result cb" where
  "encode_ContinueOp operands =
     seqE [cb_varint 17,
           cb_sized_typeid_seq [],
           cb_varint (int (length operands)),
           cb_unsized_variadic_operands operands]
       (new_op (Some 0))"

definition encode_CosHOp ::
    "type_id \<Rightarrow> bc_value \<Rightarrow> op_result cb" where
  "encode_CosHOp result_type source =
     seqE [cb_varint 19,
           cb_typeid result_type,
           cb_operand source]
       (new_op None)"

definition encode_CosOp ::
    "type_id \<Rightarrow> bc_value \<Rightarrow> op_result cb" where
  "encode_CosOp result_type source =
     seqE [cb_varint 18,
           cb_typeid result_type,
           cb_operand source]
       (new_op None)"

definition encode_DivFOp ::
    "type_id \<Rightarrow> bc_value \<Rightarrow> bc_value \<Rightarrow> rounding_mode \<Rightarrow> bool \<Rightarrow> op_result cb" where
  "encode_DivFOp result_type lhs rhs rounding_mode flush_to_zero =
     seqE [cb_varint 20,
           cb_typeid result_type,
           cb_varint (pybool flush_to_zero),
           encode_opattr_enum rounding_mode_bytes rounding_mode,
           cb_operand lhs,
           cb_operand rhs]
       (new_op None)"

definition encode_DivIOp ::
    "type_id \<Rightarrow> bc_value \<Rightarrow> bc_value \<Rightarrow> signedness \<Rightarrow> rounding_mode \<Rightarrow> op_result cb" where
  "encode_DivIOp result_type lhs rhs signedness rounding =
     seqE [cb_varint 21,
           cb_typeid result_type,
           encode_opattr_enum signedness_bytes signedness,
           encode_opattr_enum rounding_mode_bytes rounding,
           cb_operand lhs,
           cb_operand rhs]
       (new_op None)"

definition encode_EntryOp ::
    "pystr \<Rightarrow> type_id \<Rightarrow> attr list option \<Rightarrow> attr list option \<Rightarrow> (pystr \<times> attr) list option \<Rightarrow> op_result
     cb" where
  "encode_EntryOp sym_name function_type' arg_attrs res_attrs optimization_hints =
     (let flag_bits = or (or (pybool (res_attrs \<noteq> None)) (push_bit 1 (pybool (optimization_hints
           \<noteq> None)))) (push_bit 2 (pybool (arg_attrs \<noteq> None))) in
      seqE [cb_varint 22,
           assert_flags flag_bits 4 V_13_5,
           cb_varint flag_bits,
           encode_opattr_str sym_name,
           encode_opattr_typeid function_type',
           (case arg_attrs of None \<Rightarrow> skipE | Some arg_attrs \<Rightarrow> encode_opattr_array arg_attrs),
           (case res_attrs of None \<Rightarrow> skipE | Some res_attrs \<Rightarrow> encode_opattr_array res_attrs),
           (case optimization_hints of None \<Rightarrow> skipE | Some optimization_hints \<Rightarrow>
             encode_opattr_optimization_hints optimization_hints)]
       (new_op_with_nested_blocks 0 1))"

definition encode_Exp2Op ::
    "type_id \<Rightarrow> bc_value \<Rightarrow> bool \<Rightarrow> op_result cb" where
  "encode_Exp2Op result_type source flush_to_zero =
     seqE [cb_varint 24,
           cb_typeid result_type,
           cb_varint (pybool flush_to_zero),
           cb_operand source]
       (new_op None)"

definition encode_ExpOp ::
    "type_id \<Rightarrow> bc_value \<Rightarrow> rounding_mode \<Rightarrow> op_result cb" where
  "encode_ExpOp result_type source rounding_mode =
     seqE [cb_varint 23,
           cb_typeid result_type,
           if_version V_13_3 (encode_opattr_enum rounding_mode_bytes rounding_mode) (assertE
             (rounding_mode = RM_FULL)),
           cb_operand source]
       (new_op None)"

definition encode_ExtIOp ::
    "type_id \<Rightarrow> bc_value \<Rightarrow> signedness \<Rightarrow> op_result cb" where
  "encode_ExtIOp to_type from' signedness =
     seqE [cb_varint 37,
           cb_typeid to_type,
           encode_opattr_enum signedness_bytes signedness,
           cb_operand from']
       (new_op None)"

definition encode_ExtractOp ::
    "type_id \<Rightarrow> bc_value \<Rightarrow> bc_value list \<Rightarrow> op_result cb" where
  "encode_ExtractOp result_type source indices =
     seqE [cb_varint 38,
           cb_sized_typeid_seq [result_type],
           cb_varint (1 + int (length indices)),
           cb_operand source,
           cb_unsized_variadic_operands indices]
       (new_op None)"

definition encode_FPowFOp ::
    "type_id \<Rightarrow> bc_value \<Rightarrow> bc_value \<Rightarrow> op_result cb" where
  "encode_FPowFOp result_type source exponent =
     seqE [cb_varint 84,
           cb_typeid result_type,
           cb_operand source,
           cb_operand exponent]
       (new_op None)"

definition encode_FPowIOp ::
    "type_id \<Rightarrow> bc_value \<Rightarrow> bc_value \<Rightarrow> op_result cb" where
  "encode_FPowIOp result_type source exponent =
     seqE [cb_varint 121,
           cb_typeid result_type,
           cb_operand source,
           cb_operand exponent]
       (new_op None)"

definition encode_FToFOp ::
    "type_id \<Rightarrow> bc_value \<Rightarrow> rounding_mode \<Rightarrow> op_result cb" where
  "encode_FToFOp to_type from' rounding_mode =
     seqE [cb_varint 42,
           cb_typeid to_type,
           encode_opattr_enum rounding_mode_bytes rounding_mode,
           cb_operand from']
       (new_op None)"

definition encode_FToIOp ::
    "type_id \<Rightarrow> bc_value \<Rightarrow> signedness \<Rightarrow> rounding_mode \<Rightarrow> bool \<Rightarrow> op_result cb" where
  "encode_FToIOp to_type from' signedness rounding_mode saturating =
     (let flag_bits = pybool saturating in
      seqE [cb_varint 43,
           cb_typeid to_type,
           assert_flags flag_bits 1 V_13_4,
           if_version V_13_4 (cb_varint flag_bits) (skipE),
           encode_opattr_enum signedness_bytes signedness,
           encode_opattr_enum rounding_mode_bytes rounding_mode,
           cb_operand from']
       (new_op None))"

definition encode_FloorOp ::
    "type_id \<Rightarrow> bc_value \<Rightarrow> op_result cb" where
  "encode_FloorOp result_type source =
     seqE [cb_varint 39,
           cb_typeid result_type,
           cb_operand source]
       (new_op None)"

definition encode_FmaOp ::
    "type_id \<Rightarrow> bc_value \<Rightarrow> bc_value \<Rightarrow> bc_value \<Rightarrow> rounding_mode \<Rightarrow> bool \<Rightarrow> op_result cb" where
  "encode_FmaOp result_type lhs rhs acc rounding_mode flush_to_zero =
     seqE [cb_varint 40,
           cb_typeid result_type,
           cb_varint (pybool flush_to_zero),
           encode_opattr_enum rounding_mode_bytes rounding_mode,
           cb_operand lhs,
           cb_operand rhs,
           cb_operand acc]
       (new_op None)"

definition encode_ForOp ::
    "type_id list \<Rightarrow> bc_value \<Rightarrow> bc_value \<Rightarrow> bc_value \<Rightarrow> bc_value list \<Rightarrow> bool \<Rightarrow> op_result cb" where
  "encode_ForOp result_types lowerBound upperBound step initValues unsignedCmp =
     (let flag_bits = pybool unsignedCmp in
      seqE [cb_varint 41,
           cb_sized_typeid_seq result_types,
           assert_flags flag_bits 1 V_13_2,
           if_version V_13_2 (cb_varint flag_bits) (skipE),
           cb_varint (3 + int (length initValues)),
           cb_operand lowerBound,
           cb_operand upperBound,
           cb_operand step,
           cb_unsized_variadic_operands initValues]
       (new_op_with_nested_blocks (length result_types) 1))"

definition encode_GdcLaunchDependentsTkoOp ::
    "type_id \<Rightarrow> bc_value option \<Rightarrow> op_result cb" where
  "encode_GdcLaunchDependentsTkoOp result_token_type token =
     seqE [cb_varint 119,
           cb_typeid result_token_type,
           cb_varint (pybool (token \<noteq> None)),
           cb_optional_operand token]
       (new_op None)"

definition encode_GdcWaitTkoOp ::
    "type_id \<Rightarrow> bc_value option \<Rightarrow> op_result cb" where
  "encode_GdcWaitTkoOp result_token_type token =
     seqE [cb_varint 120,
           cb_typeid result_token_type,
           cb_varint (pybool (token \<noteq> None)),
           cb_optional_operand token]
       (new_op None)"

definition encode_GetGlobalOp ::
    "type_id \<Rightarrow> pystr \<Rightarrow> op_result cb" where
  "encode_GetGlobalOp result_type name =
     seqE [cb_varint 44,
           cb_typeid result_type,
           encode_opattr_str name]
       (new_op None)"

definition encode_GetIndexSpaceShapeOp ::
    "type_id list \<Rightarrow> bc_value \<Rightarrow> op_result cb" where
  "encode_GetIndexSpaceShapeOp result_types src =
     seqE [cb_varint 45,
           cb_sized_typeid_seq result_types,
           cb_operand src]
       (new_op (Some (length result_types)))"

definition encode_GetNumTileBlocksOp ::
    "type_id \<Rightarrow> type_id \<Rightarrow> type_id \<Rightarrow> op_result cb" where
  "encode_GetNumTileBlocksOp gridSize_x_type gridSize_y_type gridSize_z_type =
     seqE [cb_varint 46,
           cb_typeid gridSize_x_type,
           cb_typeid gridSize_y_type,
           cb_typeid gridSize_z_type]
       (new_op (Some 3))"

definition encode_GetTensorShapeOp ::
    "type_id list \<Rightarrow> bc_value \<Rightarrow> op_result cb" where
  "encode_GetTensorShapeOp result_types src =
     seqE [cb_varint 47,
           cb_sized_typeid_seq result_types,
           cb_operand src]
       (new_op (Some (length result_types)))"

definition encode_GetTileBlockIdOp ::
    "type_id \<Rightarrow> type_id \<Rightarrow> type_id \<Rightarrow> op_result cb" where
  "encode_GetTileBlockIdOp blockId_x_type blockId_y_type blockId_z_type =
     seqE [cb_varint 48,
           cb_typeid blockId_x_type,
           cb_typeid blockId_y_type,
           cb_typeid blockId_z_type]
       (new_op (Some 3))"

definition encode_GlobalOp ::
    "pystr \<Rightarrow> bytes \<Rightarrow> int \<Rightarrow> bool \<Rightarrow> symbol_visibility \<Rightarrow> op_result cb" where
  "encode_GlobalOp sym_name value' alignment constant symbol_visibility =
     (let flag_bits = pybool constant in
      seqE [cb_varint 49,
           assert_flags flag_bits 1 V_13_3,
           if_version V_13_3 (cb_varint flag_bits) (skipE),
           encode_opattr_str sym_name,
           encode_opattr_dense_typed_elements value',
           encode_opattr_int alignment,
           if_version V_13_3 (encode_opattr_enum symbol_visibility_bytes symbol_visibility)
             (assertE (symbol_visibility = SV_Public))]
       (new_op (Some 0)))"

definition encode_IToFOp ::
    "type_id \<Rightarrow> bc_value \<Rightarrow> signedness \<Rightarrow> rounding_mode \<Rightarrow> op_result cb" where
  "encode_IToFOp to_type from' signedness rounding_mode =
     seqE [cb_varint 59,
           cb_typeid to_type,
           encode_opattr_enum signedness_bytes signedness,
           encode_opattr_enum rounding_mode_bytes rounding_mode,
           cb_operand from']
       (new_op None)"

definition encode_IfOp ::
    "type_id list \<Rightarrow> bc_value \<Rightarrow> op_result cb" where
  "encode_IfOp result_types condition =
     seqE [cb_varint 50,
           cb_sized_typeid_seq result_types,
           cb_operand condition]
       (new_op_with_nested_blocks (length result_types) 2)"

definition encode_InsertOp ::
    "type_id \<Rightarrow> bc_value \<Rightarrow> bc_value \<Rightarrow> bc_value list \<Rightarrow> op_result cb" where
  "encode_InsertOp result_type source destination indices =
     seqE [cb_varint 118,
           cb_sized_typeid_seq [result_type],
           cb_varint (2 + int (length indices)),
           cb_operand source,
           cb_operand destination,
           cb_unsized_variadic_operands indices]
       (new_op None)"

definition encode_IntToPtrOp ::
    "type_id \<Rightarrow> bc_value \<Rightarrow> op_result cb" where
  "encode_IntToPtrOp result_type source =
     seqE [cb_varint 51,
           cb_typeid result_type,
           cb_operand source]
       (new_op None)"

definition encode_IotaOp ::
    "type_id \<Rightarrow> op_result cb" where
  "encode_IotaOp result_type =
     seqE [cb_varint 58,
           cb_typeid result_type]
       (new_op None)"

definition encode_JoinTokensOp ::
    "type_id \<Rightarrow> bc_value list \<Rightarrow> op_result cb" where
  "encode_JoinTokensOp result_type tokens =
     seqE [cb_varint 60,
           cb_sized_typeid_seq [result_type],
           cb_varint (int (length tokens)),
           cb_unsized_variadic_operands tokens]
       (new_op None)"

definition encode_LoadPtrTkoOp ::
    "type_id \<Rightarrow> type_id \<Rightarrow> bc_value \<Rightarrow> bc_value option \<Rightarrow> bc_value option \<Rightarrow> bc_value option \<Rightarrow>
     memory_ordering_semantics \<Rightarrow> memory_scope option \<Rightarrow> (pystr \<times> attr) list option \<Rightarrow> op_result cb" where
  "encode_LoadPtrTkoOp result_type result_token_type source mask' paddingValue token
      memory_ordering_semantics memory_scope optimization_hints =
     seqE [cb_varint 61,
           cb_typeid result_type,
           cb_typeid result_token_type,
           cb_varint (or (or (or (or (pybool (memory_scope \<noteq> None)) (push_bit 1 (pybool
             (optimization_hints \<noteq> None)))) (push_bit 2 (pybool (mask' \<noteq> None))))
             (push_bit 3 (pybool (paddingValue \<noteq> None)))) (push_bit 4 (pybool (token
             \<noteq> None)))),
           encode_opattr_enum memory_ordering_semantics_bytes memory_ordering_semantics,
           (case memory_scope of None \<Rightarrow> skipE | Some memory_scope \<Rightarrow> encode_opattr_enum
             memory_scope_bytes memory_scope),
           (case optimization_hints of None \<Rightarrow> skipE | Some optimization_hints \<Rightarrow>
             encode_opattr_optimization_hints optimization_hints),
           cb_operand source,
           cb_optional_operand mask',
           cb_optional_operand paddingValue,
           cb_optional_operand token]
       (new_op (Some 2))"

definition encode_LoadViewTkoOp ::
    "type_id \<Rightarrow> type_id \<Rightarrow> bc_value \<Rightarrow> bc_value list \<Rightarrow> bc_value option \<Rightarrow> memory_ordering_semantics \<Rightarrow>
     memory_scope option \<Rightarrow> (pystr \<times> attr) list option \<Rightarrow> bool list \<Rightarrow> op_result cb" where
  "encode_LoadViewTkoOp tile_type result_token_type view index token memory_ordering_semantics
      memory_scope optimization_hints inbounds =
     seqE [cb_varint 62,
           cb_sized_typeid_seq [tile_type, result_token_type],
           cb_varint (or (or (pybool (memory_scope \<noteq> None)) (push_bit 1 (pybool
             (optimization_hints \<noteq> None)))) (push_bit 2 (pybool (token \<noteq> None)))),
           encode_opattr_enum memory_ordering_semantics_bytes memory_ordering_semantics,
           (case memory_scope of None \<Rightarrow> skipE | Some memory_scope \<Rightarrow> encode_opattr_enum
             memory_scope_bytes memory_scope),
           (case optimization_hints of None \<Rightarrow> skipE | Some optimization_hints \<Rightarrow>
             encode_opattr_optimization_hints optimization_hints),
           if_version V_13_4 (encode_opattr_dense_bool_array inbounds) (if list_ex id inbounds
             then raiseE ValueError else skipE),
           cb_operand view,
           cb_sized_variadic_operands index,
           cb_optional_operand token]
       (new_op (Some 2))"

definition encode_Log2Op ::
    "type_id \<Rightarrow> bc_value \<Rightarrow> op_result cb" where
  "encode_Log2Op result_type source =
     seqE [cb_varint 64,
           cb_typeid result_type,
           cb_operand source]
       (new_op None)"

definition encode_LogOp ::
    "type_id \<Rightarrow> bc_value \<Rightarrow> op_result cb" where
  "encode_LogOp result_type source =
     seqE [cb_varint 63,
           cb_typeid result_type,
           cb_operand source]
       (new_op None)"

definition encode_LoopOp ::
    "type_id list \<Rightarrow> bc_value list \<Rightarrow> op_result cb" where
  "encode_LoopOp result_types initValues =
     seqE [cb_varint 65,
           cb_sized_typeid_seq result_types,
           cb_varint (int (length initValues)),
           cb_unsized_variadic_operands initValues]
       (new_op_with_nested_blocks (length result_types) 1)"

definition encode_MakeGatherScatterViewOp ::
    "type_id \<Rightarrow> bc_value \<Rightarrow> op_result cb" where
  "encode_MakeGatherScatterViewOp result_type tensor_view' =
     seqE [cb_varint 115,
           cb_typeid result_type,
           cb_operand tensor_view']
       (new_op None)"

definition encode_MakePartitionViewOp ::
    "type_id \<Rightarrow> bc_value \<Rightarrow> op_result cb" where
  "encode_MakePartitionViewOp result_type tensor_view' =
     seqE [cb_varint 66,
           cb_typeid result_type,
           cb_operand tensor_view']
       (new_op None)"

definition encode_MakeStridedViewOp ::
    "type_id \<Rightarrow> bc_value \<Rightarrow> op_result cb" where
  "encode_MakeStridedViewOp result_type tensor_view' =
     seqE [cb_varint 116,
           cb_typeid result_type,
           cb_operand tensor_view']
       (new_op None)"

definition encode_MakeTensorViewOp ::
    "type_id \<Rightarrow> bc_value \<Rightarrow> bc_value list \<Rightarrow> bc_value list \<Rightarrow> op_result cb" where
  "encode_MakeTensorViewOp result_type base dynamicShape dynamicStrides =
     seqE [cb_varint 67,
           cb_sized_typeid_seq [result_type],
           cb_operand base,
           cb_sized_variadic_operands dynamicShape,
           cb_sized_variadic_operands dynamicStrides]
       (new_op None)"

definition encode_MakeTokenOp ::
    "type_id \<Rightarrow> op_result cb" where
  "encode_MakeTokenOp result_type =
     seqE [cb_varint 68,
           cb_typeid result_type]
       (new_op None)"

definition encode_MaxFOp ::
    "type_id \<Rightarrow> bc_value \<Rightarrow> bc_value \<Rightarrow> bool \<Rightarrow> bool \<Rightarrow> op_result cb" where
  "encode_MaxFOp result_type lhs rhs propagate_nan flush_to_zero =
     seqE [cb_varint 69,
           cb_typeid result_type,
           cb_varint (or (pybool propagate_nan) (push_bit 1 (pybool flush_to_zero))),
           cb_operand lhs,
           cb_operand rhs]
       (new_op None)"

definition encode_MaxIOp ::
    "type_id \<Rightarrow> bc_value \<Rightarrow> bc_value \<Rightarrow> signedness \<Rightarrow> op_result cb" where
  "encode_MaxIOp result_type lhs rhs signedness =
     seqE [cb_varint 70,
           cb_typeid result_type,
           encode_opattr_enum signedness_bytes signedness,
           cb_operand lhs,
           cb_operand rhs]
       (new_op None)"

definition encode_MemoryFenceAliasTkoOp ::
    "type_id \<Rightarrow> bc_value \<Rightarrow> op_result cb" where
  "encode_MemoryFenceAliasTkoOp result_token_type token =
     seqE [cb_varint 122,
           cb_typeid result_token_type,
           cb_operand token]
       (new_op None)"

definition encode_MinFOp ::
    "type_id \<Rightarrow> bc_value \<Rightarrow> bc_value \<Rightarrow> bool \<Rightarrow> bool \<Rightarrow> op_result cb" where
  "encode_MinFOp result_type lhs rhs propagate_nan flush_to_zero =
     seqE [cb_varint 71,
           cb_typeid result_type,
           cb_varint (or (pybool propagate_nan) (push_bit 1 (pybool flush_to_zero))),
           cb_operand lhs,
           cb_operand rhs]
       (new_op None)"

definition encode_MinIOp ::
    "type_id \<Rightarrow> bc_value \<Rightarrow> bc_value \<Rightarrow> signedness \<Rightarrow> op_result cb" where
  "encode_MinIOp result_type lhs rhs signedness =
     seqE [cb_varint 72,
           cb_typeid result_type,
           encode_opattr_enum signedness_bytes signedness,
           cb_operand lhs,
           cb_operand rhs]
       (new_op None)"

definition encode_MmaFOp ::
    "type_id \<Rightarrow> bc_value \<Rightarrow> bc_value \<Rightarrow> bc_value \<Rightarrow> bool \<Rightarrow> op_result cb" where
  "encode_MmaFOp result_type lhs rhs acc fast_acc =
     (let flag_bits = pybool fast_acc in
      seqE [cb_varint 73,
           cb_typeid result_type,
           assert_flags flag_bits 1 V_13_3,
           if_version V_13_3 (cb_varint flag_bits) (skipE),
           cb_operand lhs,
           cb_operand rhs,
           cb_operand acc]
       (new_op None))"

definition encode_MmaFScaledOp ::
    "type_id \<Rightarrow> bc_value \<Rightarrow> bc_value \<Rightarrow> bc_value \<Rightarrow> bc_value \<Rightarrow> bc_value \<Rightarrow> op_result cb" where
  "encode_MmaFScaledOp result_type lhs rhs acc lhs_scale rhs_scale =
     seqE [cb_varint 114,
           cb_typeid result_type,
           cb_operand lhs,
           cb_operand rhs,
           cb_operand acc,
           cb_operand lhs_scale,
           cb_operand rhs_scale]
       (new_op None)"

definition encode_MmaIOp ::
    "type_id \<Rightarrow> bc_value \<Rightarrow> bc_value \<Rightarrow> bc_value \<Rightarrow> signedness \<Rightarrow> signedness \<Rightarrow> op_result cb" where
  "encode_MmaIOp result_type lhs rhs acc signedness_lhs signedness_rhs =
     seqE [cb_varint 74,
           cb_typeid result_type,
           encode_opattr_enum signedness_bytes signedness_lhs,
           encode_opattr_enum signedness_bytes signedness_rhs,
           cb_operand lhs,
           cb_operand rhs,
           cb_operand acc]
       (new_op None)"

definition encode_ModuleOp ::
    "pystr \<Rightarrow> pystr option \<Rightarrow> op_result cb" where
  "encode_ModuleOp sym_name producer =
     (let flag_bits = pybool (producer \<noteq> None) in
      seqE [cb_varint 75,
           assert_flags flag_bits 1 V_13_3,
           if_version V_13_3 (cb_varint flag_bits) (skipE),
           encode_opattr_str sym_name,
           (case producer of None \<Rightarrow> skipE | Some producer \<Rightarrow> encode_opattr_str producer)]
       (new_op_with_nested_blocks 0 1))"

definition encode_MulFOp ::
    "type_id \<Rightarrow> bc_value \<Rightarrow> bc_value \<Rightarrow> rounding_mode \<Rightarrow> bool \<Rightarrow> op_result cb" where
  "encode_MulFOp result_type lhs rhs rounding_mode flush_to_zero =
     seqE [cb_varint 76,
           cb_typeid result_type,
           cb_varint (pybool flush_to_zero),
           encode_opattr_enum rounding_mode_bytes rounding_mode,
           cb_operand lhs,
           cb_operand rhs]
       (new_op None)"

definition encode_MulIOp ::
    "type_id \<Rightarrow> bc_value \<Rightarrow> bc_value \<Rightarrow> integer_overflow \<Rightarrow> op_result cb" where
  "encode_MulIOp result_type lhs rhs overflow =
     seqE [cb_varint 78,
           cb_typeid result_type,
           encode_opattr_enum integer_overflow_bytes overflow,
           cb_operand lhs,
           cb_operand rhs]
       (new_op None)"

definition encode_MulhiIOp ::
    "type_id \<Rightarrow> bc_value \<Rightarrow> bc_value \<Rightarrow> op_result cb" where
  "encode_MulhiIOp result_type x y =
     seqE [cb_varint 77,
           cb_typeid result_type,
           cb_operand x,
           cb_operand y]
       (new_op None)"

definition encode_MultimemLoadReduceViewTkoOp ::
    "type_id \<Rightarrow> type_id \<Rightarrow> bc_value \<Rightarrow> bc_value list \<Rightarrow> bc_value option \<Rightarrow> memory_ordering_semantics \<Rightarrow>
     memory_scope option \<Rightarrow> multimem_reduction_kind \<Rightarrow> bool list \<Rightarrow> op_result cb" where
  "encode_MultimemLoadReduceViewTkoOp reduced_values_type result_token_type view index token
      memory_ordering_semantics memory_scope reduction inbounds =
     seqE [cb_varint 123,
           cb_sized_typeid_seq [reduced_values_type, result_token_type],
           cb_varint (or (pybool (memory_scope \<noteq> None)) (push_bit 1 (pybool (token \<noteq> None)))),
           encode_opattr_enum memory_ordering_semantics_bytes memory_ordering_semantics,
           (case memory_scope of None \<Rightarrow> skipE | Some memory_scope \<Rightarrow> encode_opattr_enum
             memory_scope_bytes memory_scope),
           encode_opattr_enum multimem_reduction_kind_bytes reduction,
           encode_opattr_dense_bool_array inbounds,
           cb_operand view,
           cb_sized_variadic_operands index,
           cb_optional_operand token]
       (new_op (Some 2))"

definition encode_MultimemReduceViewTkoOp ::
    "type_id \<Rightarrow> bc_value \<Rightarrow> bc_value \<Rightarrow> bc_value list \<Rightarrow> bc_value option \<Rightarrow> memory_ordering_semantics \<Rightarrow>
     memory_scope \<Rightarrow> multimem_reduction_kind \<Rightarrow> bool list \<Rightarrow> op_result cb" where
  "encode_MultimemReduceViewTkoOp result_token_type view tile' index token
      memory_ordering_semantics memory_scope reduction inbounds =
     seqE [cb_varint 124,
           cb_sized_typeid_seq [result_token_type],
           cb_varint (pybool (token \<noteq> None)),
           encode_opattr_enum memory_ordering_semantics_bytes memory_ordering_semantics,
           encode_opattr_enum memory_scope_bytes memory_scope,
           encode_opattr_enum multimem_reduction_kind_bytes reduction,
           encode_opattr_dense_bool_array inbounds,
           cb_operand view,
           cb_operand tile',
           cb_sized_variadic_operands index,
           cb_optional_operand token]
       (new_op None)"

definition encode_MultimemStoreViewTkoOp ::
    "type_id \<Rightarrow> bc_value \<Rightarrow> bc_value \<Rightarrow> bc_value list \<Rightarrow> bc_value option \<Rightarrow> memory_ordering_semantics \<Rightarrow>
     memory_scope option \<Rightarrow> bool list \<Rightarrow> op_result cb" where
  "encode_MultimemStoreViewTkoOp result_token_type view tile' index token memory_ordering_semantics
      memory_scope inbounds =
     seqE [cb_varint 125,
           cb_sized_typeid_seq [result_token_type],
           cb_varint (or (pybool (memory_scope \<noteq> None)) (push_bit 1 (pybool (token \<noteq> None)))),
           encode_opattr_enum memory_ordering_semantics_bytes memory_ordering_semantics,
           (case memory_scope of None \<Rightarrow> skipE | Some memory_scope \<Rightarrow> encode_opattr_enum
             memory_scope_bytes memory_scope),
           encode_opattr_dense_bool_array inbounds,
           cb_operand view,
           cb_operand tile',
           cb_sized_variadic_operands index,
           cb_optional_operand token]
       (new_op None)"

definition encode_NegFOp ::
    "type_id \<Rightarrow> bc_value \<Rightarrow> op_result cb" where
  "encode_NegFOp result_type source =
     seqE [cb_varint 79,
           cb_typeid result_type,
           cb_operand source]
       (new_op None)"

definition encode_NegIOp ::
    "type_id \<Rightarrow> bc_value \<Rightarrow> integer_overflow \<Rightarrow> op_result cb" where
  "encode_NegIOp result_type source overflow =
     seqE [cb_varint 80,
           cb_typeid result_type,
           if_version V_13_2 (encode_opattr_enum integer_overflow_bytes overflow) (assertE
             (overflow = OVF_NONE)),
           cb_operand source]
       (new_op None)"

definition encode_OffsetOp ::
    "type_id \<Rightarrow> bc_value \<Rightarrow> bc_value \<Rightarrow> op_result cb" where
  "encode_OffsetOp result_type ptr offset =
     seqE [cb_varint 81,
           cb_typeid result_type,
           cb_operand ptr,
           cb_operand offset]
       (new_op None)"

definition encode_OrIOp ::
    "type_id \<Rightarrow> bc_value \<Rightarrow> bc_value \<Rightarrow> op_result cb" where
  "encode_OrIOp result_type lhs rhs =
     seqE [cb_varint 82,
           cb_typeid result_type,
           cb_operand lhs,
           cb_operand rhs]
       (new_op None)"

definition encode_PackOp ::
    "type_id \<Rightarrow> bc_value \<Rightarrow> op_result cb" where
  "encode_PackOp result_type source =
     seqE [cb_varint 111,
           cb_typeid result_type,
           cb_operand source]
       (new_op None)"

definition encode_PermuteOp ::
    "type_id \<Rightarrow> bc_value \<Rightarrow> int list \<Rightarrow> op_result cb" where
  "encode_PermuteOp result_type source permutation =
     seqE [cb_varint 83,
           cb_typeid result_type,
           encode_opattr_dense_int32_array permutation,
           cb_operand source]
       (new_op None)"

text \<open>
  \<^verbatim>\<open>encode_PrintTkoOp\<close> collects its result types in a list whose element may be \<^verbatim>\<open>None\<close>; reading
  \<^verbatim>\<open>None.type_id\<close> is an \<^verbatim>\<open>AttributeError\<close>.
\<close>

definition cb_sized_opt_typeid_seq :: "type_id option list \<Rightarrow> unit cb" where
  "cb_sized_opt_typeid_seq ts =
     on_buf (seqE [encode_varint (int (length ts))]
       (forE ts (\<lambda>t. case t of None \<Rightarrow> raiseE AttributeError | Some i \<Rightarrow> encode_varint (type_id i))))"

text \<open>\<^verbatim>\<open>results[result_token_idx]\<close> with index 0, on the tuple returned by \<^verbatim>\<open>new_op(1)\<close>.\<close>

definition first_result :: "op_result \<Rightarrow> op_result" where
  "first_result r = (case r of ManyResults (x # _) \<Rightarrow> OneResult x | _ \<Rightarrow> r)"

definition encode_PrintTkoOp ::
    "type_id option \<Rightarrow> bc_value list \<Rightarrow> bc_value option \<Rightarrow> pystr \<Rightarrow> op_result cb" where
  "encode_PrintTkoOp result_token_type args token str' =
     bindE (getE cb_version) (\<lambda>version.
     let flag_bits = pybool (token \<noteq> None);
         result_types = (if version \<ge> V_13_2 then [result_token_type] else []) in
      seqE [cb_varint 85,
           if_version V_13_2 skipE (assertE (result_token_type = None)),
           cb_sized_opt_typeid_seq result_types,
           assert_flags flag_bits 1 V_13_2,
           if_version V_13_2 (cb_varint flag_bits) (skipE),
           encode_opattr_str str',
           cb_sized_variadic_operands args,
           cb_optional_operand token]
       (bindE (new_op (Some (length result_types))) (\<lambda>results.
          retE (if version \<ge> V_13_2 then first_result results else NoResult))))"

definition encode_PtrToIntOp ::
    "type_id \<Rightarrow> bc_value \<Rightarrow> op_result cb" where
  "encode_PtrToIntOp result_type source =
     seqE [cb_varint 86,
           cb_typeid result_type,
           cb_operand source]
       (new_op None)"

definition encode_PtrToPtrOp ::
    "type_id \<Rightarrow> bc_value \<Rightarrow> op_result cb" where
  "encode_PtrToPtrOp result_type source =
     seqE [cb_varint 87,
           cb_typeid result_type,
           cb_operand source]
       (new_op None)"

definition encode_ReduceOp ::
    "type_id list \<Rightarrow> bc_value list \<Rightarrow> int \<Rightarrow> attr list \<Rightarrow> op_result cb" where
  "encode_ReduceOp result_types operands dim identities =
     seqE [cb_varint 88,
           cb_sized_typeid_seq result_types,
           encode_opattr_int dim,
           encode_opattr_array identities,
           cb_varint (int (length operands)),
           cb_unsized_variadic_operands operands]
       (new_op_with_nested_blocks (length result_types) 1)"

definition encode_RemFOp ::
    "type_id \<Rightarrow> bc_value \<Rightarrow> bc_value \<Rightarrow> op_result cb" where
  "encode_RemFOp result_type lhs rhs =
     seqE [cb_varint 89,
           cb_typeid result_type,
           cb_operand lhs,
           cb_operand rhs]
       (new_op None)"

definition encode_RemIOp ::
    "type_id \<Rightarrow> bc_value \<Rightarrow> bc_value \<Rightarrow> signedness \<Rightarrow> op_result cb" where
  "encode_RemIOp result_type lhs rhs signedness =
     seqE [cb_varint 90,
           cb_typeid result_type,
           encode_opattr_enum signedness_bytes signedness,
           cb_operand lhs,
           cb_operand rhs]
       (new_op None)"

definition encode_ReshapeOp ::
    "type_id \<Rightarrow> bc_value \<Rightarrow> op_result cb" where
  "encode_ReshapeOp result_type source =
     seqE [cb_varint 91,
           cb_typeid result_type,
           cb_operand source]
       (new_op None)"

definition encode_ReturnOp ::
    "bc_value list \<Rightarrow> op_result cb" where
  "encode_ReturnOp operands =
     seqE [cb_varint 92,
           cb_sized_typeid_seq [],
           cb_varint (int (length operands)),
           cb_unsized_variadic_operands operands]
       (new_op (Some 0))"

definition encode_RsqrtOp ::
    "type_id \<Rightarrow> bc_value \<Rightarrow> bool \<Rightarrow> op_result cb" where
  "encode_RsqrtOp result_type source flush_to_zero =
     seqE [cb_varint 93,
           cb_typeid result_type,
           cb_varint (pybool flush_to_zero),
           cb_operand source]
       (new_op None)"

definition encode_ScanOp ::
    "type_id list \<Rightarrow> bc_value list \<Rightarrow> int \<Rightarrow> bool \<Rightarrow> attr list \<Rightarrow> op_result cb" where
  "encode_ScanOp result_types operands dim reverse identities =
     seqE [cb_varint 94,
           cb_sized_typeid_seq result_types,
           encode_opattr_int dim,
           encode_opattr_bool reverse,
           encode_opattr_array identities,
           cb_varint (int (length operands)),
           cb_unsized_variadic_operands operands]
       (new_op_with_nested_blocks (length result_types) 1)"

definition encode_SelectOp ::
    "type_id \<Rightarrow> bc_value \<Rightarrow> bc_value \<Rightarrow> bc_value \<Rightarrow> op_result cb" where
  "encode_SelectOp result_type cond val_if_true val_if_false =
     seqE [cb_varint 95,
           cb_typeid result_type,
           cb_operand cond,
           cb_operand val_if_true,
           cb_operand val_if_false]
       (new_op None)"

definition encode_ShLIOp ::
    "type_id \<Rightarrow> bc_value \<Rightarrow> bc_value \<Rightarrow> integer_overflow \<Rightarrow> op_result cb" where
  "encode_ShLIOp result_type lhs rhs overflow =
     seqE [cb_varint 96,
           cb_typeid result_type,
           encode_opattr_enum integer_overflow_bytes overflow,
           cb_operand lhs,
           cb_operand rhs]
       (new_op None)"

definition encode_ShRIOp ::
    "type_id \<Rightarrow> bc_value \<Rightarrow> bc_value \<Rightarrow> signedness \<Rightarrow> op_result cb" where
  "encode_ShRIOp result_type lhs rhs signedness =
     seqE [cb_varint 97,
           cb_typeid result_type,
           encode_opattr_enum signedness_bytes signedness,
           cb_operand lhs,
           cb_operand rhs]
       (new_op None)"

definition encode_SinHOp ::
    "type_id \<Rightarrow> bc_value \<Rightarrow> op_result cb" where
  "encode_SinHOp result_type source =
     seqE [cb_varint 99,
           cb_typeid result_type,
           cb_operand source]
       (new_op None)"

definition encode_SinOp ::
    "type_id \<Rightarrow> bc_value \<Rightarrow> op_result cb" where
  "encode_SinOp result_type source =
     seqE [cb_varint 98,
           cb_typeid result_type,
           cb_operand source]
       (new_op None)"

definition encode_SqrtOp ::
    "type_id \<Rightarrow> bc_value \<Rightarrow> rounding_mode \<Rightarrow> bool \<Rightarrow> op_result cb" where
  "encode_SqrtOp result_type source rounding_mode flush_to_zero =
     seqE [cb_varint 100,
           cb_typeid result_type,
           cb_varint (pybool flush_to_zero),
           encode_opattr_enum rounding_mode_bytes rounding_mode,
           cb_operand source]
       (new_op None)"

definition encode_StorePtrTkoOp ::
    "type_id \<Rightarrow> bc_value \<Rightarrow> bc_value \<Rightarrow> bc_value option \<Rightarrow> bc_value option \<Rightarrow> memory_ordering_semantics \<Rightarrow>
     memory_scope option \<Rightarrow> (pystr \<times> attr) list option \<Rightarrow> op_result cb" where
  "encode_StorePtrTkoOp result_token_type destination value' mask' token memory_ordering_semantics
      memory_scope optimization_hints =
     seqE [cb_varint 101,
           cb_typeid result_token_type,
           cb_varint (or (or (or (pybool (memory_scope \<noteq> None)) (push_bit 1 (pybool
             (optimization_hints \<noteq> None)))) (push_bit 2 (pybool (mask' \<noteq> None))))
             (push_bit 3 (pybool (token \<noteq> None)))),
           encode_opattr_enum memory_ordering_semantics_bytes memory_ordering_semantics,
           (case memory_scope of None \<Rightarrow> skipE | Some memory_scope \<Rightarrow> encode_opattr_enum
             memory_scope_bytes memory_scope),
           (case optimization_hints of None \<Rightarrow> skipE | Some optimization_hints \<Rightarrow>
             encode_opattr_optimization_hints optimization_hints),
           cb_operand destination,
           cb_operand value',
           cb_optional_operand mask',
           cb_optional_operand token]
       (new_op None)"

definition encode_StoreViewTkoOp ::
    "type_id \<Rightarrow> bc_value \<Rightarrow> bc_value \<Rightarrow> bc_value list \<Rightarrow> bc_value option \<Rightarrow> memory_ordering_semantics \<Rightarrow>
     memory_scope option \<Rightarrow> (pystr \<times> attr) list option \<Rightarrow> bool list \<Rightarrow> op_result cb" where
  "encode_StoreViewTkoOp result_token_type tile' view index token memory_ordering_semantics
      memory_scope optimization_hints inbounds =
     seqE [cb_varint 102,
           cb_sized_typeid_seq [result_token_type],
           cb_varint (or (or (pybool (memory_scope \<noteq> None)) (push_bit 1 (pybool
             (optimization_hints \<noteq> None)))) (push_bit 2 (pybool (token \<noteq> None)))),
           encode_opattr_enum memory_ordering_semantics_bytes memory_ordering_semantics,
           (case memory_scope of None \<Rightarrow> skipE | Some memory_scope \<Rightarrow> encode_opattr_enum
             memory_scope_bytes memory_scope),
           (case optimization_hints of None \<Rightarrow> skipE | Some optimization_hints \<Rightarrow>
             encode_opattr_optimization_hints optimization_hints),
           if_version V_13_4 (encode_opattr_dense_bool_array inbounds) (if list_ex id inbounds
             then raiseE ValueError else skipE),
           cb_operand tile',
           cb_operand view,
           cb_sized_variadic_operands index,
           cb_optional_operand token]
       (new_op None)"

definition encode_SubFOp ::
    "type_id \<Rightarrow> bc_value \<Rightarrow> bc_value \<Rightarrow> rounding_mode \<Rightarrow> bool \<Rightarrow> op_result cb" where
  "encode_SubFOp result_type lhs rhs rounding_mode flush_to_zero =
     seqE [cb_varint 103,
           cb_typeid result_type,
           cb_varint (pybool flush_to_zero),
           encode_opattr_enum rounding_mode_bytes rounding_mode,
           cb_operand lhs,
           cb_operand rhs]
       (new_op None)"

definition encode_SubIOp ::
    "type_id \<Rightarrow> bc_value \<Rightarrow> bc_value \<Rightarrow> integer_overflow \<Rightarrow> op_result cb" where
  "encode_SubIOp result_type lhs rhs overflow =
     seqE [cb_varint 104,
           cb_typeid result_type,
           encode_opattr_enum integer_overflow_bytes overflow,
           cb_operand lhs,
           cb_operand rhs]
       (new_op None)"

definition encode_TanHOp ::
    "type_id \<Rightarrow> bc_value \<Rightarrow> rounding_mode \<Rightarrow> op_result cb" where
  "encode_TanHOp result_type source rounding_mode =
     seqE [cb_varint 106,
           cb_typeid result_type,
           if_version V_13_2 (encode_opattr_enum rounding_mode_bytes rounding_mode) (assertE
             (rounding_mode = RM_FULL)),
           cb_operand source]
       (new_op None)"

definition encode_TanOp ::
    "type_id \<Rightarrow> bc_value \<Rightarrow> op_result cb" where
  "encode_TanOp result_type source =
     seqE [cb_varint 105,
           cb_typeid result_type,
           cb_operand source]
       (new_op None)"

definition encode_TruncIOp ::
    "type_id \<Rightarrow> bc_value \<Rightarrow> integer_overflow \<Rightarrow> op_result cb" where
  "encode_TruncIOp to_type from' overflow =
     seqE [cb_varint 107,
           cb_typeid to_type,
           encode_opattr_enum integer_overflow_bytes overflow,
           cb_operand from']
       (new_op None)"

definition encode_UnpackOp ::
    "type_id \<Rightarrow> bc_value \<Rightarrow> op_result cb" where
  "encode_UnpackOp result_type source =
     seqE [cb_varint 112,
           cb_typeid result_type,
           cb_operand source]
       (new_op None)"

definition encode_XOrIOp ::
    "type_id \<Rightarrow> bc_value \<Rightarrow> bc_value \<Rightarrow> op_result cb" where
  "encode_XOrIOp result_type lhs rhs =
     seqE [cb_varint 108,
           cb_typeid result_type,
           cb_operand lhs,
           cb_operand rhs]
       (new_op None)"

definition encode_YieldOp ::
    "bc_value list \<Rightarrow> op_result cb" where
  "encode_YieldOp operands =
     seqE [cb_varint 109,
           cb_sized_typeid_seq [],
           cb_varint (int (length operands)),
           cb_unsized_variadic_operands operands]
       (new_op (Some 0))"

definition encode_PreviewCallOp ::
    "type_id list \<Rightarrow> bc_value list \<Rightarrow> pystr \<Rightarrow> attr list \<Rightarrow> attr list option \<Rightarrow>
     attr list option \<Rightarrow> op_result cb" where
  "encode_PreviewCallOp result_types operands callee const_args arg_attrs res_attrs =
     seqE [cb_varint 16386,
           cb_sized_typeid_seq result_types,
           cb_varint (or (pybool (arg_attrs \<noteq> None)) (push_bit 1 (pybool (res_attrs \<noteq> None)))),
           encode_opattr_str callee,
           encode_opattr_array const_args,
           (case arg_attrs of None \<Rightarrow> skipE | Some arg_attrs \<Rightarrow> encode_opattr_array arg_attrs),
           (case res_attrs of None \<Rightarrow> skipE | Some res_attrs \<Rightarrow> encode_opattr_array res_attrs),
           cb_varint (int (length operands)),
           cb_unsized_variadic_operands operands]
       (new_op (Some (length result_types)))"

end
