(* ===== verification/BcOpWire.thy ===== *)
theory BcOpWire
  imports BcCodeBuilder
begin

text \<open>
  A reader for the instruction encodings, and the contract that relates a statement of an
  encoder to the field it writes.

  \<^item> \<open>kind\<close>, \<open>field\<close>: the shape and the value of one field of an instruction.  \<open>KOpt n k\<close>
    is a field present exactly when bit \<open>n\<close> of the preceding flags field is set;
  \<^item> \<open>dec_fields\<close>: reads a list of fields, carrying the flags;
  \<^item> \<open>writes v Q m d x\<close>: under bytecode version \<open>v\<close>, every successful run of \<open>m\<close> only appends
    bytes and interns entries, and the reader \<open>d\<close> turns these bytes into \<open>x\<close> under any tables
    that extend the ones the run left and whose type entries satisfy \<open>Q\<close>.
\<close>

section \<open>Fields\<close>

datatype kind =
    KTypeId | KTypeIds | KFlags | KEnum | KInt | KBool | KStr | KTypeAttr | KConst
  | KAttr | KAttrs | KHints | KI32s | KBools | KVal | KVals | KBlocks
  | KOpt nat kind

datatype field =
    FTypeId type_id
  | FTypeIds "type_id list"
  | FFlags int
  | FEnum bytes
  | FInt int
  | FBool bool
  | FStr bytes
  | FTypeAttr type_id
  | FConst bytes
  | FAttr wattr
  | FAttrs "wattr list"
  | FHints "(bytes \<times> wattr) list"
  | FInts "int list"
  | FBools "bool list"
  | FVal int
  | FVals "int list"
  | FBlocks int
  | FAbsent

definition fopt :: "('a \<Rightarrow> field) \<Rightarrow> 'a option \<Rightarrow> field" where
  "fopt f x = (case x of None \<Rightarrow> FAbsent | Some y \<Rightarrow> f y)"

lemma fopt_simps [simp]: "fopt f None = FAbsent" "fopt f (Some x) = f x"
  by (simp_all add: fopt_def)

text \<open>A constant entry is a length and its bytes; the field is the bytes.\<close>

definition dec_const :: "tables \<Rightarrow> bytes dec" where
  "dec_const T = dec_bind (dec_index (tab_constants T)) (\<lambda>e.
     case dec_constant_entry e of Some (data, []) \<Rightarrow> dec_ret data | _ \<Rightarrow> dec_fail)"

text \<open>The nesting of an attribute is bounded by the bytes left to read.\<close>

definition dec_attr_any :: "tables \<Rightarrow> wattr dec" where
  "dec_attr_any T = (\<lambda>bs. dec_attr (length bs) T bs)"

definition dec_attrs_any :: "tables \<Rightarrow> wattr list dec" where
  "dec_attrs_any T = dec_sized (dec_attr_any T)"

definition dec_hints_any :: "tables \<Rightarrow> (bytes \<times> wattr) list dec" where
  "dec_hints_any T = (\<lambda>bs.
     dec_sized (dec_bind (dec_str T) (\<lambda>k. dec_map (Pair k) (dec_attr (length bs) T))) bs)"

fun dec_field :: "tables \<Rightarrow> int \<Rightarrow> kind \<Rightarrow> field dec" where
  "dec_field T fl KTypeId = dec_map FTypeId dec_typeid"
| "dec_field T fl KTypeIds = dec_map FTypeIds (dec_sized dec_typeid)"
| "dec_field T fl KFlags = dec_map FFlags dec_varint"
| "dec_field T fl KEnum = dec_map FEnum (dec_take 1)"
| "dec_field T fl KInt = dec_map FInt dec_varint"
| "dec_field T fl KBool = dec_map (\<lambda>b. FBool (b \<noteq> 0)) dec_byte"
| "dec_field T fl KStr = dec_map FStr (dec_str T)"
| "dec_field T fl KTypeAttr = dec_map FTypeAttr dec_typeid"
| "dec_field T fl KConst = dec_map FConst (dec_const T)"
| "dec_field T fl KAttr = dec_map FAttr (dec_attr_any T)"
| "dec_field T fl KAttrs = dec_map FAttrs (dec_attrs_any T)"
| "dec_field T fl KHints = dec_map FHints (dec_hints_any T)"
| "dec_field T fl KI32s = dec_map FInts (dec_sized (dec_signed 4))"
| "dec_field T fl KBools = dec_map (\<lambda>xs. FBools (List.map (\<lambda>x. x \<noteq> 0) xs)) (dec_sized (dec_signed 1))"
| "dec_field T fl KVal = dec_map FVal dec_varint"
| "dec_field T fl KVals = dec_map FVals (dec_sized dec_varint)"
| "dec_field T fl KBlocks = dec_map FBlocks dec_varint"
| "dec_field T fl (KOpt n k) = (if bit fl n then dec_field T fl k else dec_ret FAbsent)"

definition next_flags :: "int \<Rightarrow> field \<Rightarrow> int" where
  "next_flags fl f = (case f of FFlags n \<Rightarrow> n | _ \<Rightarrow> fl)"

primrec dec_fields :: "tables \<Rightarrow> int \<Rightarrow> kind list \<Rightarrow> field list dec" where
  "dec_fields T fl [] = dec_ret []"
| "dec_fields T fl (k # ks) = dec_bind (dec_field T fl k) (\<lambda>f.
     dec_map (Cons f) (dec_fields T (next_flags fl f) ks))"

section \<open>The contract of a statement\<close>

definition cb_ok :: "code_builder \<Rightarrow> bool" where
  "cb_ok s \<longleftrightarrow> table_ok StringId 0 (cb_string_table s) \<and> table_ok ConstantId 0 (cb_constant_table s)"

text \<open>\<open>later T s\<close>: the reader's tables extend the ones of the builder.\<close>

definition later :: "tables \<Rightarrow> code_builder \<Rightarrow> bool" where
  "later T s \<longleftrightarrow> covers (tab_strings T) (cb_string_table s) \<and>
     covers (tab_constants T) (cb_constant_table s)"

definition tables_grow :: "code_builder \<Rightarrow> code_builder \<Rightarrow> bool" where
  "tables_grow s s' \<longleftrightarrow> grows (cb_string_table s) (cb_string_table s') \<and>
     grows (cb_constant_table s) (cb_constant_table s')"

text \<open>\<open>same_ops s s'\<close>: only the buffer and the interning tables differ.\<close>

definition same_ops :: "code_builder \<Rightarrow> code_builder \<Rightarrow> bool" where
  "same_ops s s' \<longleftrightarrow> cb_version s' = cb_version s \<and> debug_attr_per_op s' = debug_attr_per_op s \<and>
     next_value_id s' = next_value_id s \<and> cur_debug_attr s' = cur_debug_attr s \<and>
     num_ops s' = num_ops s"

definition writes ::
    "bytecode_version \<Rightarrow> (bytes list \<Rightarrow> bool) \<Rightarrow> unit cb \<Rightarrow> (tables \<Rightarrow> 'x dec) \<Rightarrow> 'x \<Rightarrow> bool" where
  "writes v Q m d x \<longleftrightarrow> (\<forall>s s'. cb_version s = v \<longrightarrow> cb_ok s \<longrightarrow> m s = (Inr (), s') \<longrightarrow>
     cb_ok s' \<and> tables_grow s s' \<and> same_ops s s' \<and>
     (\<exists>e. buf s' = buf s @ e \<and>
        (\<forall>T rest. later T s' \<longrightarrow> Q (tab_types T) \<longrightarrow> d T (e @ rest) = Some (x, rest))))"

lemma tables_grow_refl [simp]: "tables_grow s s"
  by (simp add: tables_grow_def)

lemma tables_grow_trans: "tables_grow s t \<Longrightarrow> tables_grow t u \<Longrightarrow> tables_grow s u"
  unfolding tables_grow_def by (elim conjE; intro conjI; erule (1) grows_trans)

lemma later_earlier: "later T u \<Longrightarrow> tables_grow t u \<Longrightarrow> later T t"
  unfolding later_def tables_grow_def by (elim conjE; intro conjI; erule (1) covers_grows)

lemma same_ops_refl [simp]: "same_ops s s"
  by (simp add: same_ops_def)

lemma same_ops_trans: "same_ops s t \<Longrightarrow> same_ops t u \<Longrightarrow> same_ops s u"
  by (simp add: same_ops_def)

lemma writes_I:
  assumes "\<And>s s'. cb_version s = v \<Longrightarrow> cb_ok s \<Longrightarrow> m s = (Inr (), s') \<Longrightarrow>
     cb_ok s' \<and> tables_grow s s' \<and> same_ops s s' \<and>
     (\<exists>e. buf s' = buf s @ e \<and>
        (\<forall>T rest. later T s' \<longrightarrow> Q (tab_types T) \<longrightarrow> d T (e @ rest) = Some (x, rest)))"
  shows "writes v Q m d x"
  using assms unfolding writes_def by blast

lemma writes_D:
  assumes "writes v Q m d x" and "cb_version s = v" and "cb_ok s" and "m s = (Inr (), s')"
  obtains e where "cb_ok s'" and "tables_grow s s'" and "same_ops s s'" and "buf s' = buf s @ e"
    and "\<And>T rest. later T s' \<Longrightarrow> Q (tab_types T) \<Longrightarrow> d T (e @ rest) = Some (x, rest)"
  using assms unfolding writes_def by blast

lemma writes_bind:
  assumes m: "writes v Q m d x" and k: "writes v Q k (d' x) y"
  shows "writes v Q (bindE m (\<lambda>_. k)) (\<lambda>T. dec_bind (d T) (\<lambda>x. d' x T)) y"
proof (rule writes_I)
  fix s s'
  assume v: "cb_version s = v" and ok: "cb_ok s" and "bindE m (\<lambda>_. k) s = (Inr (), s')"
  then obtain t where r1: "m s = (Inr (), t)" and r2: "k t = (Inr (), s')"
    by (auto simp: bindE_Inr_iff)
  obtain e1 where 1: "cb_ok t" "tables_grow s t" "same_ops s t" "buf t = buf s @ e1"
      "\<And>T rest. later T t \<Longrightarrow> Q (tab_types T) \<Longrightarrow> d T (e1 @ rest) = Some (x, rest)"
    using writes_D [OF m v ok r1] by blast
  have "cb_version t = v" using 1(3) v by (simp add: same_ops_def)
  then obtain e2 where 2: "cb_ok s'" "tables_grow t s'" "same_ops t s'" "buf s' = buf t @ e2"
      "\<And>T rest. later T s' \<Longrightarrow> Q (tab_types T) \<Longrightarrow> d' x T (e2 @ rest) = Some (y, rest)"
    using writes_D [OF k _ 1(1) r2] by blast
  have "dec_bind (d T) (\<lambda>x. d' x T) ((e1 @ e2) @ rest) = Some (y, rest)"
    if "later T s'" "Q (tab_types T)" for T rest
    using 1(5) [OF later_earlier [OF that(1) 2(2)] that(2), of "e2 @ rest"] 2(5) [OF that] by simp
  then show "cb_ok s' \<and> tables_grow s s' \<and> same_ops s s' \<and> (\<exists>e. buf s' = buf s @ e \<and>
      (\<forall>T rest. later T s' \<longrightarrow> Q (tab_types T) \<longrightarrow>
         dec_bind (d T) (\<lambda>x. d' x T) (e @ rest) = Some (y, rest)))"
    using 1(2,3,4) 2(1,2,3,4) tables_grow_trans same_ops_trans by (intro conjI exI [of _ "e1 @ e2"]) auto
qed

lemma writes_map: "writes v Q m d x \<Longrightarrow> writes v Q m (\<lambda>T. dec_map f (d T)) (f x)"
  unfolding writes_def by fastforce

lemma writes_skip: "writes v Q skipE (\<lambda>T. dec_ret x) x"
  by (rule writes_I) auto

lemma writes_raise: "writes v Q (raiseE e) d x"
  by (rule writes_I) simp

text \<open>From a writer of bytes, and from a writer of bytes that also interns strings.\<close>

lemma on_buf_Inr_iff: "on_buf m s = (Inr u, s') \<longleftrightarrow> (\<exists>b. m (buf s) = (Inr u, b) \<and> s' = s\<lparr>buf := b\<rparr>)"
  by (auto simp: on_buf_def zoom_Inr_iff)

lemma writes_buf:
  assumes "\<And>b b'. m b = (Inr (), b') \<Longrightarrow>
    \<exists>e. b' = b @ e \<and> (\<forall>T rest. d T (e @ rest) = Some (x, rest))"
  shows "writes v Q (on_buf m) d x"
proof (rule writes_I)
  fix s s'
  assume ok: "cb_ok s" and "on_buf m s = (Inr (), s')"
  then obtain b where "m (buf s) = (Inr (), b)" and s': "s' = s\<lparr>buf := b\<rparr>"
    by (auto simp: on_buf_Inr_iff)
  then show "cb_ok s' \<and> tables_grow s s' \<and> same_ops s s' \<and> (\<exists>e. buf s' = buf s @ e \<and>
      (\<forall>T rest. later T s' \<longrightarrow> Q (tab_types T) \<longrightarrow> d T (e @ rest) = Some (x, rest)))"
    using assms [of "buf s" b] ok by (auto simp: cb_ok_def tables_grow_def same_ops_def)
qed

lemma writes_sbuf:
  assumes "wires m n P d x" and "\<And>tys. Q tys \<Longrightarrow> P tys"
  shows "writes v Q (on_sbuf m) d x"
proof (rule writes_I)
  fix s s'
  assume ok: "cb_ok s" and "on_sbuf m s = (Inr (), s')"
  then obtain t where r: "m (cb_string_table s, buf s) = (Inr (), t)"
    and s': "s' = s\<lparr>cb_string_table := fst t, buf := snd t\<rparr>"
    by (auto simp: on_sbuf_def zoom_Inr_iff)
  have ok': "table_ok StringId 0 (fst (cb_string_table s, buf s))"
    using ok by (simp add: cb_ok_def)
  obtain e where "table_ok StringId 0 (fst t)" "grows (fst (cb_string_table s, buf s)) (fst t)"
    "snd t = snd (cb_string_table s, buf s) @ e" "n \<le> length e"
    "\<And>T rest. covers (tab_strings T) (fst t) \<Longrightarrow> P (tab_types T) \<Longrightarrow> d T (e @ rest) = Some (x, rest)"
    using wires_D [OF assms(1) ok' r] by blast
  then show "cb_ok s' \<and> tables_grow s s' \<and> same_ops s s' \<and> (\<exists>e. buf s' = buf s @ e \<and>
      (\<forall>T rest. later T s' \<longrightarrow> Q (tab_types T) \<longrightarrow> d T (e @ rest) = Some (x, rest)))"
    using assms(2) ok by (auto simp: s' cb_ok_def tables_grow_def same_ops_def later_def)
qed

section \<open>Statements that write one field\<close>

definition field_ok ::
    "bytecode_version \<Rightarrow> (bytes list \<Rightarrow> bool) \<Rightarrow> int \<Rightarrow> unit cb \<Rightarrow> kind \<Rightarrow> field \<Rightarrow> bool" where
  "field_ok v Q fl m k f = writes v Q m (\<lambda>T. dec_field T fl k) f"

named_theorems field_rules "the field each statement writes"

lemma field_varint:
  assumes "\<And>T. dec_field T fl k = dec_map F dec_varint"
  shows "field_ok v Q fl (cb_varint x) k (F x)"
  unfolding field_ok_def cb_varint_def
  by (rule writes_buf) (auto simp: assms varint.dec_enc split: if_splits)

lemma field_flags [field_rules]: "field_ok v Q fl (cb_varint x) KFlags (FFlags x)"
  by (rule field_varint) simp

lemma field_int [field_rules]: "field_ok v Q fl (encode_opattr_int x) KInt (FInt x)"
  unfolding encode_opattr_int_def cb_varint_def [symmetric] by (rule field_varint) simp

lemma field_blocks: "field_ok v Q fl (cb_varint x) KBlocks (FBlocks x)"
  by (rule field_varint) simp

lemma field_operand [field_rules]: "field_ok v Q fl (cb_operand x) KVal (FVal (value_id x))"
  unfolding cb_operand_def encode_operand_def cb_varint_def [symmetric] by (rule field_varint) simp

lemma field_typeid [field_rules]: "field_ok v Q fl (cb_typeid t) KTypeId (FTypeId t)"
  unfolding field_ok_def cb_typeid_def
  by (rule writes_buf) (auto simp: encode_typeid_Inr_iff typeid.dec_enc)

lemma field_type_attr [field_rules]: "field_ok v Q fl (encode_opattr_typeid t) KTypeAttr (FTypeAttr t)"
  unfolding field_ok_def encode_opattr_typeid_def
  by (rule writes_buf) (auto simp: encode_typeid_Inr_iff typeid.dec_enc)

lemma field_typeids [field_rules]: "field_ok v Q fl (cb_sized_typeid_seq ts) KTypeIds (FTypeIds ts)"
  unfolding field_ok_def cb_sized_typeid_seq_def
proof (rule writes_buf)
  fix b b'
  assume "encode_sized_typeid_seq ts b = (Inr (), b')"
  then have "forE ts (\<lambda>t. encode_varint (type_id t)) (b @ varint (int (length ts))) = (Inr (), b')"
    by (simp add: encode_sized_typeid_seq_def)
  then have "list_all (\<lambda>t. 0 \<le> type_id t) ts \<and>
      b' = (b @ varint (int (length ts))) @ concat (List.map (\<lambda>t. varint (type_id t)) ts)"
    by (rule forE_success) (auto split: if_splits)
  then show "\<exists>e. b' = b @ e \<and> (\<forall>T rest. dec_field T fl KTypeIds (e @ rest) = Some (FTypeIds ts, rest))"
    using typeid.dec_sized_enc [of ts]
    by (intro exI [of _ "sized (\<lambda>t. varint (type_id t)) ts"]) (simp add: sized_def)
qed

lemma field_enum [field_rules]:
  assumes "length (f x) = 1"
  shows "field_ok v Q fl (encode_opattr_enum f x) KEnum (FEnum (f x))"
  unfolding field_ok_def encode_opattr_enum_def
  by (rule writes_buf) (simp add: assms)

lemma field_bool [field_rules]: "field_ok v Q fl (encode_opattr_bool x) KBool (FBool x)"
  unfolding field_ok_def encode_opattr_bool_def
  by (rule writes_buf) (auto simp: pybool_def)

lemma field_str [field_rules]: "field_ok v Q fl (encode_opattr_str x) KStr (FStr (utf8 x))"
  unfolding field_ok_def encode_opattr_str_def dec_field.simps
  by (rule writes_map [OF writes_sbuf [OF wires_str [where P = "\<lambda>_. True"]]]) simp

lemma field_i32s [field_rules]:
  "field_ok v Q fl (encode_opattr_dense_int32_array xs) KI32s (FInts xs)"
  unfolding field_ok_def encode_opattr_dense_int32_array_def
  by (rule writes_buf) (auto simp: signed_le.dec_sized_enc)

lemma field_bools [field_rules]:
  "field_ok v Q fl (encode_opattr_dense_bool_array xs) KBools (FBools xs)"
proof -
  have "(\<lambda>x. x \<noteq> 0) \<circ> pybool = id" by (auto simp: pybool_def fun_eq_iff)
  then show ?thesis
    unfolding field_ok_def encode_opattr_dense_bool_array_def
    by (intro writes_buf) (auto simp: signed_le.dec_sized_enc)
qed

lemma unsized_operands_Inr:
  assumes "encode_unsized_variadic_operands vs b = (Inr (), b')"
  shows "list_all (\<lambda>v. 0 \<le> value_id v) vs \<and> b' = b @ concat (List.map (\<lambda>v. varint (value_id v)) vs)"
  using assms unfolding encode_unsized_variadic_operands_def
  by (rule forE_success) (auto split: if_splits)

lemma field_operands [field_rules]:
  "field_ok v Q fl (cb_sized_variadic_operands vs) KVals (FVals (List.map value_id vs))"
  unfolding field_ok_def cb_sized_variadic_operands_def
proof (rule writes_buf)
  fix b b'
  assume "encode_sized_variadic_operands vs b = (Inr (), b')"
  then have "encode_unsized_variadic_operands vs (b @ varint (int (length vs))) = (Inr (), b')"
    by (simp add: encode_sized_variadic_operands_def)
  from unsized_operands_Inr [OF this]
  have ok: "list_all (\<lambda>x. 0 \<le> x) (List.map value_id vs)"
    and b': "b' = b @ sized varint (List.map value_id vs)"
    by (simp_all add: sized_def list_all_iff comp_def)
  show "\<exists>e. b' = b @ e \<and>
      (\<forall>T rest. dec_field T fl KVals (e @ rest) = Some (FVals (List.map value_id vs), rest))"
    by (intro exI [of _ "sized varint (List.map value_id vs)"])
      (simp add: b' varint.dec_sized_enc [OF ok])
qed

lemma field_const [field_rules]:
  "field_ok v Q fl (encode_opattr_dense_typed_elements x) KConst (FConst x)"
  unfolding field_ok_def
proof (rule writes_I)
  fix s s'
  assume ok: "cb_ok s" and "encode_opattr_dense_typed_elements x s = (Inr (), s')"
  then obtain c t where c: "constant_table_getitem (constant_entry x) (cb_constant_table s) = (Inr c, t)"
    and s': "0 \<le> constant_id c" "s' = s\<lparr>cb_constant_table := t, buf := buf s @ varint (constant_id c)\<rparr>"
    by (auto simp: encode_opattr_dense_typed_elements_def bindE_Inr_iff on_constants_def zoom_Inr_iff
        on_buf_Inr_iff dense_constant_eq split: if_splits)
  have t0: "table_ok ConstantId 0 (cb_constant_table s)" using ok by (simp add: cb_ok_def)
  have t: "table_ok ConstantId 0 t" "resolves (table_keys t) (constant_id c) (constant_entry x)"
    "grows (cb_constant_table s) t"
    using constants.getitem_position [OF t0 c] constants.keys_grow [OF t0 c]
    by (simp_all add: resolves_def grows_def)
  have "dec_field T fl KConst (varint (constant_id c) @ rest) = Some (FConst x, rest)"
    if "later T s'" for T rest
  proof -
    have "resolves (tab_constants T) (constant_id c) (constant_entry x)"
      using that t(2) by (auto simp: s' later_def intro: covers_resolves)
    then show ?thesis
      by (simp add: dec_const_def dec_index_resolves constant_entry.dec_enc_exact)
  qed
  then show "cb_ok s' \<and> tables_grow s s' \<and> same_ops s s' \<and> (\<exists>e. buf s' = buf s @ e \<and>
      (\<forall>T rest. later T s' \<longrightarrow> Q (tab_types T) \<longrightarrow> dec_field T fl KConst (e @ rest) = Some (FConst x, rest)))"
    using ok t by (auto simp: s' cb_ok_def tables_grow_def same_ops_def)
qed

text \<open>Attributes: any fuel that covers the nesting will do, so the length of the input does.\<close>

lemma wires_deep:
  assumes "\<And>f. n \<le> f \<Longrightarrow> wires m n P (d f) x"
  shows "wires m n P (\<lambda>T bs. d (length bs) T bs) x"
proof (rule wires_I)
  fix s s'
  assume ok: "table_ok StringId 0 (fst s)" and run: "m s = (Inr (), s')"
  from assms [OF order_refl] obtain e where 1: "table_ok StringId 0 (fst s')" "grows (fst s) (fst s')"
      "snd s' = snd s @ e" "n \<le> length e"
      "\<And>T rest. covers (tab_strings T) (fst s') \<Longrightarrow> P (tab_types T) \<Longrightarrow>
         d n T (e @ rest) = Some (x, rest)"
    by (rule wires_D [where m = m and s = s and s' = s', OF _ ok run]) (rule that)
  have "d (length (e @ rest)) T (e @ rest) = Some (x, rest)"
    if "covers (tab_strings T) (fst s')" "P (tab_types T)" for T rest
  proof -
    have "n \<le> length (e @ rest)" using 1(4) by simp
    from assms [OF this] obtain e' where e': "snd s' = snd s @ e'"
      "\<And>T' r. covers (tab_strings T') (fst s') \<Longrightarrow> P (tab_types T') \<Longrightarrow>
         d (length (e @ rest)) T' (e' @ r) = Some (x, r)"
      by (rule wires_D [where m = m and s = s and s' = s', OF _ ok run]) (rule that)
    have "e' = e" using e'(1) 1(3) by simp
    with e'(2) [OF that, of rest] show ?thesis by simp
  qed
  then show "table_ok StringId 0 (fst s') \<and> grows (fst s) (fst s') \<and>
     (\<exists>e. snd s' = snd s @ e \<and> n \<le> length e \<and>
        (\<forall>T rest. covers (tab_strings T) (fst s') \<longrightarrow> P (tab_types T) \<longrightarrow>
           d (length (e @ rest)) T (e @ rest) = Some (x, rest)))"
    using 1 by blast
qed

lemma wires_attr_any:
  "wires (encode_tagged a) (attr_depth a) (\<lambda>tys. attr_typed tys a) dec_attr_any (wire_attr a)"
  unfolding dec_attr_any_def [abs_def] by (rule wires_deep, rule encode_tagged_wires)

lemma wires_hints_any:
  "wires (encode_dictionary_untagged kvs) (items_depth kvs) (\<lambda>tys. items_typed tys kvs)
     dec_hints_any (wire_items kvs)"
  unfolding dec_hints_any_def [abs_def] encode_dictionary_untagged_def seqE.simps
  by (rule wires_deep, rule wires_counted, rule encode_tagged_wires)

lemma writes_silent:
  assumes "\<And>s s'. cb_version s = v \<Longrightarrow> m0 s = (Inr (), s') \<Longrightarrow> s' = s"
    and "writes v Q m d x"
  shows "writes v Q (bindE m0 (\<lambda>_. m)) d x"
proof (rule writes_I)
  fix s s'
  assume v: "cb_version s = v" and ok: "cb_ok s" and "bindE m0 (\<lambda>_. m) s = (Inr (), s')"
  then obtain t where "m0 s = (Inr (), t)" and r: "m t = (Inr (), s')"
    by (auto simp: bindE_Inr_iff)
  then have "t = s" using assms(1) [OF v] by blast
  with r have "m s = (Inr (), s')" by simp
  then show "cb_ok s' \<and> tables_grow s s' \<and> same_ops s s' \<and> (\<exists>e. buf s' = buf s @ e \<and>
      (\<forall>T rest. later T s' \<longrightarrow> Q (tab_types T) \<longrightarrow> d T (e @ rest) = Some (x, rest)))"
    using assms(2) v ok unfolding writes_def by blast
qed

lemma writes_tagged:
  assumes "\<And>tys. Q tys \<Longrightarrow> attr_typed tys a"
  shows "writes v Q (encode_opattr_tagged cls a) dec_attr_any (wire_attr a)"
  unfolding encode_opattr_tagged_def seqE.simps
  by (rule writes_silent [OF _ writes_sbuf [OF wires_attr_any assms]]) (auto simp: assertE_Inr_iff)

lemma writes_forE:
  "(\<And>x. x \<in> set xs \<Longrightarrow> writes v Q (f x) d (g x)) \<Longrightarrow>
    writes v Q (forE xs f) (\<lambda>T. dec_n (d T) (length xs)) (List.map g xs)"
proof (induction xs)
  case Nil
  show ?case by (simp only: forE.simps dec_n.simps list.size list.map writes_skip)
next
  case (Cons x xs)
  then have "writes v Q (f x) d (g x)"
    and "writes v Q (forE xs f) (\<lambda>T. dec_n (d T) (length xs)) (List.map g xs)" by simp_all
  from writes_bind [where d' = "\<lambda>y T. dec_map (Cons y) (dec_n (d T) (length xs))",
      OF this(1) writes_map [OF this(2)]]
  show ?case by simp
qed

lemma writes_counted:
  assumes "writes v Q m (\<lambda>T. dec_n (d T) (length xs)) ys"
  shows "writes v Q (bindE (on_buf (encode_varint (int (length xs)))) (\<lambda>_. m)) (\<lambda>T. dec_sized (d T)) ys"
proof -
  have "writes v Q (on_buf (encode_varint (int (length xs)))) (\<lambda>T. dec_varint) (int (length xs))"
    by (rule writes_buf) (simp add: varint.dec_enc)
  from writes_bind [where d' = "\<lambda>n T. dec_n (d T) (nat n)", OF this, of m ys] assms
  show ?thesis by (simp add: dec_sized_def)
qed

lemma wire_attrs_map: "wire_attrs xs = List.map wire_attr xs"
  by (induction xs) simp_all

lemma attrs_typed_all: "attrs_typed tys xs \<longleftrightarrow> (\<forall>x \<in> set xs. attr_typed tys x)"
  by (induction xs) simp_all

lemma field_tagged [field_rules]:
  assumes "\<And>tys. Q tys \<Longrightarrow> attr_typed tys a"
  shows "field_ok v Q fl (encode_opattr_tagged cls a) KAttr (FAttr (wire_attr a))"
  unfolding field_ok_def dec_field.simps by (rule writes_map [OF writes_tagged [OF assms]])

lemma field_array [field_rules]:
  assumes "\<And>tys. Q tys \<Longrightarrow> attrs_typed tys xs"
  shows "field_ok v Q fl (encode_opattr_array xs) KAttrs (FAttrs (wire_attrs xs))"
  unfolding field_ok_def dec_field.simps dec_attrs_any_def encode_opattr_array_def seqE.simps
    wire_attrs_map
  using assms by (intro writes_map writes_counted writes_forE writes_tagged) (simp add: attrs_typed_all)

lemma field_hints [field_rules]:
  assumes "\<And>tys. Q tys \<Longrightarrow> items_typed tys kvs"
  shows "field_ok v Q fl (encode_opattr_optimization_hints kvs) KHints (FHints (wire_items kvs))"
  unfolding field_ok_def dec_field.simps encode_opattr_optimization_hints_def
  by (rule writes_map [OF writes_sbuf [OF wires_hints_any assms]])

text \<open>Optional fields, present exactly when their flag bit is set.\<close>

lemma field_optional:
  assumes "bit fl n \<longleftrightarrow> x \<noteq> None" and "\<And>y. x = Some y \<Longrightarrow> field_ok v Q fl (m y) k (g y)"
  shows "field_ok v Q fl (case x of None \<Rightarrow> skipE | Some y \<Rightarrow> m y) (KOpt n k) (fopt g x)"
  using assms by (cases x) (simp_all add: field_ok_def writes_skip)

lemma field_optional_operand:
  assumes "bit fl n \<longleftrightarrow> x \<noteq> None"
  shows "field_ok v Q fl (cb_optional_operand x) (KOpt n KVal) (fopt (\<lambda>y. FVal (value_id y)) x)"
proof -
  have eq: "cb_optional_operand x = (case x of None \<Rightarrow> skipE | Some y \<Rightarrow> cb_operand y)"
    by (cases x) (auto simp: cb_optional_operand_def cb_operand_def encode_optional_operand_def
        encode_operand_def on_buf_def zoom_def skipE_def retE_def fun_eq_iff)
  show ?thesis unfolding eq by (rule field_optional [OF assms]) (rule field_operand)
qed

lemma field_optional_enum:
  assumes "bit fl n \<longleftrightarrow> x \<noteq> None" and "\<And>y. length (f y) = 1"
  shows "field_ok v Q fl (case x of None \<Rightarrow> skipE | Some y \<Rightarrow> encode_opattr_enum f y)
    (KOpt n KEnum) (fopt (\<lambda>y. FEnum (f y)) x)"
  by (rule field_optional [OF assms(1)]) (simp add: field_enum assms(2))

lemma field_optional_str:
  assumes "bit fl n \<longleftrightarrow> x \<noteq> None"
  shows "field_ok v Q fl (case x of None \<Rightarrow> skipE | Some y \<Rightarrow> encode_opattr_str y)
    (KOpt n KStr) (fopt (\<lambda>y. FStr (utf8 y)) x)"
  by (rule field_optional [OF assms(1)]) (rule field_str)

lemma field_optional_array:
  assumes "bit fl n \<longleftrightarrow> x \<noteq> None" and "\<And>tys. Q tys \<Longrightarrow> pred_option (attrs_typed tys) x"
  shows "field_ok v Q fl (case x of None \<Rightarrow> skipE | Some y \<Rightarrow> encode_opattr_array y)
    (KOpt n KAttrs) (fopt (\<lambda>y. FAttrs (wire_attrs y)) x)"
  using assms(2) by (intro field_optional [OF assms(1)] field_array) auto

lemma field_optional_hints:
  assumes "bit fl n \<longleftrightarrow> x \<noteq> None" and "\<And>tys. Q tys \<Longrightarrow> pred_option (items_typed tys) x"
  shows "field_ok v Q fl (case x of None \<Rightarrow> skipE | Some y \<Rightarrow> encode_opattr_optimization_hints y)
    (KOpt n KHints) (fopt (\<lambda>y. FHints (wire_items y)) x)"
  using assms(2) by (intro field_optional [OF assms(1)] field_hints) auto

section \<open>Sequences of fields\<close>

definition fields_ok ::
    "bytecode_version \<Rightarrow> (bytes list \<Rightarrow> bool) \<Rightarrow> int \<Rightarrow> unit cb list \<Rightarrow> kind list \<Rightarrow> field list \<Rightarrow> bool" where
  "fields_ok v Q fl ms ks fs = writes v Q (seqE ms skipE) (\<lambda>T. dec_fields T fl ks) fs"

lemma fields_Nil: "fields_ok v Q fl [] [] []"
  by (simp only: fields_ok_def seqE.simps dec_fields.simps writes_skip)

lemma fields_Cons:
  assumes "field_ok v Q fl m k f" and "fields_ok v Q (next_flags fl f) ms ks fs"
  shows "fields_ok v Q fl (m # ms) (k # ks) (f # fs)"
  using writes_bind [where d' = "\<lambda>f T. dec_map (Cons f) (dec_fields T (next_flags fl f) ks)",
      OF assms(1) [unfolded field_ok_def] writes_map [OF assms(2) [unfolded fields_ok_def]]]
  by (simp add: fields_ok_def)

lemma fields_assert_flags:
  assumes "b < n \<or> V \<le> v \<Longrightarrow> fields_ok v Q fl ms ks fs"
  shows "fields_ok v Q fl (assert_flags b n V # ms) ks fs"
proof (cases "b < n \<or> V \<le> v")
  case True
  then show ?thesis unfolding fields_ok_def seqE.simps
    by (intro writes_silent) (auto simp: assert_flags_def assertE_Inr_iff intro: assms [unfolded fields_ok_def])
next
  case False
  then show ?thesis
    by (auto simp: fields_ok_def writes_def assert_flags_def assertE_Inr_iff bindE_Inr_iff)
qed

lemma fields_assert:
  assumes "b \<Longrightarrow> fields_ok v Q fl ms ks fs"
  shows "fields_ok v Q fl (assertE b # ms) ks fs"
  using assms by (cases b) (auto simp: fields_ok_def writes_def assertE_Inr_iff bindE_Inr_iff)

lemma fields_skip: "fields_ok v Q fl ms ks fs \<Longrightarrow> fields_ok v Q fl (skipE # ms) ks fs"
  by (simp add: fields_ok_def)

lemma fields_raise: "fields_ok v Q fl (raiseE e # ms) ks fs"
  by (auto simp: fields_ok_def writes_def bindE_Inr_iff)

lemma fields_if_raise:
  assumes "\<not> b \<Longrightarrow> fields_ok v Q fl ms ks fs"
  shows "fields_ok v Q fl ((if b then raiseE e else skipE) # ms) ks fs"
  using assms by (simp add: fields_raise fields_skip)

lemma fields_if_version:
  assumes "fields_ok v Q fl ((if V \<le> v then m1 else m2) # ms) ks fs"
  shows "fields_ok v Q fl (if_version V m1 m2 # ms) ks fs"
  using assms unfolding fields_ok_def writes_def if_version_def seqE.simps
  by (auto simp: bindE_Inr_iff)

lemma on_buf_bind: "bindE (on_buf m) (\<lambda>_. bindE (on_buf n) k) = bindE (on_buf (bindE m (\<lambda>_. n))) k"
  by (auto simp: on_buf_def bindE_def zoom_def fun_eq_iff split: prod.splits sum.splits)

lemma sized_operands_eq:
  "encode_sized_variadic_operands vs =
     bindE (encode_varint (int (length vs))) (\<lambda>_. encode_unsized_variadic_operands vs)"
  by (simp add: encode_sized_variadic_operands_def)

lemma unsized_Cons:
  "encode_unsized_variadic_operands (x # xs) =
     bindE (encode_operand x) (\<lambda>_. encode_unsized_variadic_operands xs)"
  by (simp add: encode_unsized_variadic_operands_def encode_operand_def)

text \<open>A counted operand list written as a count, leading operands and the rest.\<close>

lemma fields_sized:
  assumes "fields_ok v Q fl ms ks fs"
  shows "fields_ok v Q fl (cb_varint (int (length xs)) # cb_unsized_variadic_operands xs # ms)
      (KVals # ks) (FVals (List.map value_id xs) # fs)"
    and "fields_ok v Q fl (cb_varint (1 + int (length xs)) # cb_operand x #
      cb_unsized_variadic_operands xs # ms)
      (KVals # ks) (FVals (value_id x # List.map value_id xs) # fs)"
    and "fields_ok v Q fl (cb_varint (2 + int (length xs)) # cb_operand x # cb_operand y #
      cb_unsized_variadic_operands xs # ms)
      (KVals # ks) (FVals (value_id x # value_id y # List.map value_id xs) # fs)"
    and "fields_ok v Q fl (cb_varint (3 + int (length xs)) # cb_operand x # cb_operand y #
      cb_operand z # cb_unsized_variadic_operands xs # ms)
      (KVals # ks) (FVals (value_id x # value_id y # value_id z # List.map value_id xs) # fs)"
  using fields_Cons [OF field_operands, of v Q fl xs ms ks fs]
    fields_Cons [OF field_operands, of v Q fl "x # xs" ms ks fs]
    fields_Cons [OF field_operands, of v Q fl "x # y # xs" ms ks fs]
    fields_Cons [OF field_operands, of v Q fl "x # y # z # xs" ms ks fs] assms
  by (simp_all add: fields_ok_def cb_varint_def cb_operand_def cb_unsized_variadic_operands_def
      cb_sized_variadic_operands_def on_buf_bind sized_operands_eq unsized_Cons bindE_assoc
      add.commute next_flags_def)

text \<open>The rules the instruction proofs are made of: one per statement, by its kind.\<close>

lemmas fields_intros =
  fields_Nil fields_assert_flags fields_assert fields_skip fields_raise fields_if_raise fields_if_version
  fields_sized
  field_rules [THEN fields_Cons]
  field_optional_operand [THEN fields_Cons] field_optional_enum [THEN fields_Cons]
  field_optional_str [THEN fields_Cons] field_optional_array [THEN fields_Cons]
  field_optional_hints [THEN fields_Cons]

lemma next_flags_simps [simp]:
  "next_flags fl (FFlags n) = n" "next_flags fl (FTypeId t) = fl" "next_flags fl (FTypeIds ts) = fl"
  "next_flags fl (FEnum e) = fl" "next_flags fl (FInt i) = fl" "next_flags fl (FBool b) = fl"
  "next_flags fl (FStr k) = fl" "next_flags fl (FTypeAttr t) = fl" "next_flags fl (FConst c) = fl"
  "next_flags fl (FAttr a) = fl" "next_flags fl (FAttrs as) = fl" "next_flags fl (FHints h) = fl"
  "next_flags fl (FInts xs) = fl" "next_flags fl (FBools bs) = fl" "next_flags fl (FVal i) = fl"
  "next_flags fl (FVals xs) = fl" "next_flags fl (FBlocks n) = fl" "next_flags fl FAbsent = fl"
  by (simp_all add: next_flags_def)

lemma next_flags_fopt:
  assumes "\<And>y fl. next_flags fl (f y) = fl"
  shows "next_flags fl (fopt f x) = fl"
  using assms by (cases x) simp_all

end
