(* ===== verification/BcSchema.thy ===== *)
theory BcSchema
  imports BcOpWire
begin

text \<open>
  The instruction reader, as one table: the fields of every opcode under a bytecode version, and
  the contract \<open>op_writes\<close> of an operation encoder.  A reader that knows only this table
  recovers the opcode, the fields, the number of results and the number of nested blocks.
\<close>

section \<open>Instructions\<close>

datatype raw_op = RawOp (raw_opcode: int) (raw_fields: "field list")

fun field_results :: "field \<Rightarrow> nat" where
  "field_results (FTypeId t) = 1"
| "field_results (FTypeIds ts) = length ts"
| "field_results _ = 0"

definition raw_results :: "raw_op \<Rightarrow> nat" where
  "raw_results r = sum_list (List.map field_results (raw_fields r))"

fun field_blocks :: "field \<Rightarrow> int option" where
  "field_blocks (FBlocks n) = Some n"
| "field_blocks _ = None"

definition raw_blocks :: "raw_op \<Rightarrow> int option" where
  "raw_blocks r = (case rev (raw_fields r) of [] \<Rightarrow> None | f # _ \<Rightarrow> field_blocks f)"

definition instruction_table :: "bytecode_version \<Rightarrow> (int \<times> kind list) list" where
  "instruction_table v = [
    (0, [KTypeId, KVal]),
    (1, [KTypeId, KVal]),
    (2, [KTypeId, KFlags, KEnum, KVal, KVal]),
    (3, [KTypeId, KEnum, KVal, KVal]),
    (4, [KTypeId, KVal, KVal]),
    (5, [KStr, KVal]),
    (6, [KTypeId, KAttr, KVal]),
    (7, [KTypeId, KTypeId, KFlags, KEnum, KEnum, KVal, KVal, KVal, KOpt 0 KVal, KOpt 1 KVal]),
    (8, [KTypeId, KTypeId, KFlags, KEnum, KEnum, KEnum, KVal, KVal, KOpt 0 KVal, KOpt 1 KVal]),
    (9, [KTypeId, KVal]),
    (10, [KTypeIds, KVals]),
    (11, [KTypeId, KVal]),
    (12, [KTypeId, KInt, KVal, KVal]),
    (13, [KTypeId, KVal]),
    (14, [KTypeId, KEnum, KEnum, KVal, KVal]),
    (15, [KTypeId, KEnum, KEnum, KVal, KVal]),
    (16, [KTypeId, KConst]),
    (17, [KTypeIds, KVals]),
    (18, [KTypeId, KVal]),
    (19, [KTypeId, KVal]),
    (20, [KTypeId, KFlags, KEnum, KVal, KVal]),
    (21, [KTypeId, KEnum, KEnum, KVal, KVal]),
    (22, ([KFlags, KStr, KTypeAttr, KOpt 2 KAttrs, KOpt 0 KAttrs, KOpt 1 KHints]) @ [KBlocks]),
    (23, KTypeId # (if V_13_3 \<le> v then [KEnum] else []) @ [KVal]),
    (24, [KTypeId, KFlags, KVal]),
    (37, [KTypeId, KEnum, KVal]),
    (38, [KTypeIds, KVals]),
    (39, [KTypeId, KVal]),
    (40, [KTypeId, KFlags, KEnum, KVal, KVal, KVal]),
    (41, (KTypeIds # (if V_13_2 \<le> v then [KFlags] else []) @ [KVals]) @ [KBlocks]),
    (42, [KTypeId, KEnum, KVal]),
    (43, KTypeId # (if V_13_4 \<le> v then [KFlags] else []) @ [KEnum, KEnum, KVal]),
    (44, [KTypeId, KStr]),
    (45, [KTypeIds, KVal]),
    (46, [KTypeId, KTypeId, KTypeId]),
    (47, [KTypeIds, KVal]),
    (48, [KTypeId, KTypeId, KTypeId]),
    (49, (if V_13_3 \<le> v then [KFlags] else []) @ KStr # KConst # KInt # (if V_13_3 \<le> v then [KEnum]
      else [])),
    (50, ([KTypeIds, KVal]) @ [KBlocks]),
    (51, [KTypeId, KVal]),
    (58, [KTypeId]),
    (59, [KTypeId, KEnum, KEnum, KVal]),
    (60, [KTypeIds, KVals]),
    (61, [KTypeId, KTypeId, KFlags, KEnum, KOpt 0 KEnum, KOpt 1 KHints, KVal, KOpt 2 KVal, KOpt 3
      KVal, KOpt 4 KVal]),
    (62, KTypeIds # KFlags # KEnum # KOpt 0 KEnum # KOpt 1 KHints # (if V_13_4 \<le> v then [KBools]
      else []) @ [KVal, KVals, KOpt 2 KVal]),
    (63, [KTypeId, KVal]),
    (64, [KTypeId, KVal]),
    (65, ([KTypeIds, KVals]) @ [KBlocks]),
    (66, [KTypeId, KVal]),
    (67, [KTypeIds, KVal, KVals, KVals]),
    (68, [KTypeId]),
    (69, [KTypeId, KFlags, KVal, KVal]),
    (70, [KTypeId, KEnum, KVal, KVal]),
    (71, [KTypeId, KFlags, KVal, KVal]),
    (72, [KTypeId, KEnum, KVal, KVal]),
    (73, KTypeId # (if V_13_3 \<le> v then [KFlags] else []) @ [KVal, KVal, KVal]),
    (74, [KTypeId, KEnum, KEnum, KVal, KVal, KVal]),
    (75, ((if V_13_3 \<le> v then [KFlags] else []) @ [KStr, KOpt 0 KStr]) @ [KBlocks]),
    (76, [KTypeId, KFlags, KEnum, KVal, KVal]),
    (77, [KTypeId, KVal, KVal]),
    (78, [KTypeId, KEnum, KVal, KVal]),
    (79, [KTypeId, KVal]),
    (80, KTypeId # (if V_13_2 \<le> v then [KEnum] else []) @ [KVal]),
    (81, [KTypeId, KVal, KVal]),
    (82, [KTypeId, KVal, KVal]),
    (83, [KTypeId, KI32s, KVal]),
    (84, [KTypeId, KVal, KVal]),
    (85, KTypeIds # (if V_13_2 \<le> v then [KFlags] else []) @ [KStr, KVals, KOpt 0 KVal]),
    (86, [KTypeId, KVal]),
    (87, [KTypeId, KVal]),
    (88, ([KTypeIds, KInt, KAttrs, KVals]) @ [KBlocks]),
    (89, [KTypeId, KVal, KVal]),
    (90, [KTypeId, KEnum, KVal, KVal]),
    (91, [KTypeId, KVal]),
    (92, [KTypeIds, KVals]),
    (93, [KTypeId, KFlags, KVal]),
    (94, ([KTypeIds, KInt, KBool, KAttrs, KVals]) @ [KBlocks]),
    (95, [KTypeId, KVal, KVal, KVal]),
    (96, [KTypeId, KEnum, KVal, KVal]),
    (97, [KTypeId, KEnum, KVal, KVal]),
    (98, [KTypeId, KVal]),
    (99, [KTypeId, KVal]),
    (100, [KTypeId, KFlags, KEnum, KVal]),
    (101, [KTypeId, KFlags, KEnum, KOpt 0 KEnum, KOpt 1 KHints, KVal, KVal, KOpt 2 KVal, KOpt 3
      KVal]),
    (102, KTypeIds # KFlags # KEnum # KOpt 0 KEnum # KOpt 1 KHints # (if V_13_4 \<le> v then [KBools]
      else []) @ [KVal, KVal, KVals, KOpt 2 KVal]),
    (103, [KTypeId, KFlags, KEnum, KVal, KVal]),
    (104, [KTypeId, KEnum, KVal, KVal]),
    (105, [KTypeId, KVal]),
    (106, KTypeId # (if V_13_2 \<le> v then [KEnum] else []) @ [KVal]),
    (107, [KTypeId, KEnum, KVal]),
    (108, [KTypeId, KVal, KVal]),
    (109, [KTypeIds, KVals]),
    (110, [KTypeId, KVal, KVal]),
    (111, [KTypeId, KVal]),
    (112, [KTypeId, KVal]),
    (113, [KTypeId, KFlags, KInt, KInt]),
    (114, [KTypeId, KVal, KVal, KVal, KVal, KVal]),
    (115, [KTypeId, KVal]),
    (116, [KTypeId, KVal]),
    (117, KTypeIds # KFlags # KEnum # KEnum # KEnum # (if V_13_5 \<le> v then [KBools] else []) @ [KVal,
      KVals, KVal, KOpt 0 KVal]),
    (118, [KTypeIds, KVals]),
    (119, [KTypeId, KFlags, KOpt 0 KVal]),
    (120, [KTypeId, KFlags, KOpt 0 KVal]),
    (121, [KTypeId, KVal, KVal]),
    (122, [KTypeId, KVal]),
    (123, [KTypeIds, KFlags, KEnum, KOpt 0 KEnum, KEnum, KBools, KVal, KVals, KOpt 1 KVal]),
    (124, [KTypeIds, KFlags, KEnum, KEnum, KEnum, KBools, KVal, KVal, KVals, KOpt 0 KVal]),
    (125, [KTypeIds, KFlags, KEnum, KOpt 0 KEnum, KBools, KVal, KVal, KVals, KOpt 1 KVal]),
    (16386, [KTypeIds, KFlags, KStr, KAttrs, KOpt 0 KAttrs, KOpt 1 KAttrs, KVals])]"

definition schema :: "bytecode_version \<Rightarrow> int \<Rightarrow> kind list option" where
  "schema v opcode = map_of (instruction_table v) opcode"

definition dec_op :: "bytecode_version \<Rightarrow> tables \<Rightarrow> raw_op dec" where
  "dec_op v T = dec_bind dec_varint (\<lambda>opcode.
     case schema v opcode of
       None \<Rightarrow> dec_fail
     | Some ks \<Rightarrow> dec_map (RawOp opcode) (dec_fields T 0 ks))"

section \<open>The contract of an operation encoder\<close>

fun op_values :: "op_result \<Rightarrow> bc_value list option" where
  "op_values NoResult = Some []"
| "op_values (OneResult x) = Some [x]"
| "op_values (ManyResults xs) = Some xs"
| "op_values (NestedResult nb) = None"

text \<open>
  \<open>returns raw i r j\<close>: what the caller gets (\<open>r\<close>) and the value counter before and after
  agree with what a reader of \<open>raw\<close> would number.
\<close>

definition returns :: "raw_op \<Rightarrow> int \<Rightarrow> op_result \<Rightarrow> int \<Rightarrow> bool" where
  "returns raw i r j \<longleftrightarrow> (case raw_blocks raw of
     Some n \<Rightarrow> j = i \<and> r = NestedResult \<lparr>nb_num_results = raw_results raw, nb_num_blocks = n\<rparr>
   | None \<Rightarrow> j = i + int (raw_results raw) \<and>
       (\<exists>vs. op_values r = Some vs \<and> List.map value_id vs = [i..j - 1]))"

definition op_writes ::
    "bytecode_version \<Rightarrow> (bytes list \<Rightarrow> bool) \<Rightarrow> op_result cb \<Rightarrow> raw_op \<Rightarrow> bool" where
  "op_writes v Q m raw \<longleftrightarrow> (\<forall>s r s'. cb_version s = v \<longrightarrow> cb_ok s \<longrightarrow> m s = (Inr r, s') \<longrightarrow>
     cb_ok s' \<and> tables_grow s s' \<and>
     cb_version s' = v \<and> cur_debug_attr s' = cur_debug_attr s \<and>
     num_ops s' = num_ops s + 1 \<and>
     debug_attr_per_op s' = debug_attr_per_op s @ [cur_debug_attr s] \<and>
     returns raw (next_value_id s) r (next_value_id s') \<and>
     (\<exists>e. buf s' = buf s @ e \<and>
        (\<forall>T rest. later T s' \<longrightarrow> Q (tab_types T) \<longrightarrow> dec_op v T (e @ rest) = Some (raw, rest))))"

lemma seqE_as_bind: "seqE ms k = bindE (seqE ms skipE) (\<lambda>_. k)"
  by (induction ms) (simp_all add: bindE_assoc)

lemma dec_fields_append:
  "dec_fields T fl ks bs = Some (fs, rest) \<Longrightarrow>
   (\<And>fl'. dec_fields T fl' ks' rest = Some (gs, rest')) \<Longrightarrow>
   dec_fields T fl (ks @ ks') bs = Some (fs @ gs, rest')"
proof (induction ks arbitrary: fl bs fs)
  case (Cons k ks)
  then obtain f r fs1 where f: "dec_field T fl k bs = Some (f, r)"
    and fs1: "dec_fields T (next_flags fl f) ks r = Some (fs1, rest)" and fs: "fs = f # fs1"
    by (auto simp: dec_map_def dec_bind_def split: option.splits)
  from Cons.IH [OF fs1 Cons.prems(2)] f show ?case by (simp add: fs)
qed simp

text \<open>The fields before the final statement, then a final statement that writes \<open>e\<close> and records the operation.\<close>

lemma op_writes_I:
  assumes ks: "schema v opcode = Some (ks @ ks')" and ms: "fields_ok v Q 0 ms ks fs"
    and k: "\<And>s r s'. k s = (Inr r, s') \<Longrightarrow>
      cb_string_table s' = cb_string_table s \<and> cb_constant_table s' = cb_constant_table s \<and>
      cb_version s' = cb_version s \<and> buf s' = buf s @ e \<and>
      cur_debug_attr s' = cur_debug_attr s \<and> num_ops s' = num_ops s + 1 \<and>
      debug_attr_per_op s' = debug_attr_per_op s @ [cur_debug_attr s] \<and>
      returns (RawOp opcode (fs @ gs)) (next_value_id s) r (next_value_id s')"
    and gs: "\<And>T fl rest s r s'. k s = (Inr r, s') \<Longrightarrow> dec_fields T fl ks' (e @ rest) = Some (gs, rest)"
  shows "op_writes v Q (seqE (cb_varint opcode # ms) k) (RawOp opcode (fs @ gs))"
  unfolding op_writes_def
proof (intro allI impI)
  fix s r s'
  assume v: "cb_version s = v" and ok: "cb_ok s"
    and "seqE (cb_varint opcode # ms) k s = (Inr r, s')"
  then obtain t where run: "seqE (cb_varint opcode # ms) skipE s = (Inr (), t)"
    and last: "k t = (Inr r, s')"
    by (subst (asm) seqE_as_bind) (auto simp: bindE_Inr_iff)
  have W: "writes v Q (seqE (cb_varint opcode # ms) skipE)
      (\<lambda>T. dec_bind dec_varint (\<lambda>x. dec_map (Pair x) (dec_fields T 0 ks))) (opcode, fs)"
  proof -
    have "writes v Q (cb_varint opcode) (\<lambda>T. dec_varint) opcode"
      unfolding cb_varint_def by (rule writes_buf) (auto simp: varint.dec_enc split: if_splits)
    from writes_bind [where d' = "\<lambda>x T. dec_map (Pair x) (dec_fields T 0 ks)",
        OF this writes_map [OF ms [unfolded fields_ok_def]]]
    show ?thesis by simp
  qed
  obtain w where 1: "cb_ok t" "tables_grow s t" "same_ops s t" "buf t = buf s @ w"
      "\<And>T rest. later T t \<Longrightarrow> Q (tab_types T) \<Longrightarrow>
        dec_bind dec_varint (\<lambda>x. dec_map (Pair x) (dec_fields T 0 ks)) (w @ rest) = Some ((opcode, fs), rest)"
    by (rule writes_D [OF W v ok run]) (rule that)
  note 2 = k [OF last]
  have "dec_op v T ((w @ e) @ rest) = Some (RawOp opcode (fs @ gs), rest)"
    if T: "later T s'" "Q (tab_types T)" for T rest
  proof -
    have "later T t" using T(1) 2 by (simp add: later_def)
    from 1(5) [OF this T(2), of "e @ rest"] obtain r1 where
      op: "dec_varint (w @ e @ rest) = Some (opcode, r1)"
      and fs: "dec_fields T 0 ks r1 = Some (fs, e @ rest)"
      by (auto simp: dec_bind_def dec_map_def split: option.splits)
    from dec_fields_append [OF fs gs [OF last]] op ks show ?thesis by (simp add: dec_op_def)
  qed
  then show "cb_ok s' \<and> tables_grow s s' \<and> cb_version s' = v \<and> cur_debug_attr s' = cur_debug_attr s \<and>
     num_ops s' = num_ops s + 1 \<and> debug_attr_per_op s' = debug_attr_per_op s @ [cur_debug_attr s] \<and>
     returns (RawOp opcode (fs @ gs)) (next_value_id s) r (next_value_id s') \<and>
     (\<exists>e. buf s' = buf s @ e \<and> (\<forall>T rest. later T s' \<longrightarrow> Q (tab_types T) \<longrightarrow>
        dec_op v T (e @ rest) = Some (RawOp opcode (fs @ gs), rest)))"
    using 1(1-4) 2 v by (auto simp: cb_ok_def tables_grow_def same_ops_def)
qed

text \<open>The three ways an encoder ends.\<close>

lemma value_id_Value [simp]: "value_id \<circ> Value = id"
  by (simp add: fun_eq_iff)

lemma op_writes_one:
  assumes "schema v opcode \<noteq> None" and "fields_ok v Q 0 ms (the (schema v opcode)) fs"
    and "raw_blocks (RawOp opcode fs) = None" and "raw_results (RawOp opcode fs) = 1"
  shows "op_writes v Q (seqE (cb_varint opcode # ms) (new_op None)) (RawOp opcode fs)"
proof -
  have "op_writes v Q (seqE (cb_varint opcode # ms) (new_op None)) (RawOp opcode (fs @ []))"
    by (rule op_writes_I [where e = "[]" and ks' = "[]", OF _ assms(2)])
      (use assms in \<open>auto simp: new_op_def record_op_def modifyE_def bindE_def returns_def\<close>)
  then show ?thesis by simp
qed

lemma op_writes_many:
  assumes "schema v opcode \<noteq> None" and "fields_ok v Q 0 ms (the (schema v opcode)) fs"
    and "raw_blocks (RawOp opcode fs) = None" and "raw_results (RawOp opcode fs) = n"
  shows "op_writes v Q (seqE (cb_varint opcode # ms) (new_op (Some n))) (RawOp opcode fs)"
proof -
  have "op_writes v Q (seqE (cb_varint opcode # ms) (new_op (Some n))) (RawOp opcode (fs @ []))"
    by (rule op_writes_I [where e = "[]" and ks' = "[]", OF _ assms(2)])
      (use assms in \<open>auto simp: new_op_def record_op_def modifyE_def bindE_def retE_def returns_def
        make_value_tuple_def Let_def split: if_splits\<close>)
  then show ?thesis by simp
qed

lemma op_writes_nested:
  assumes "schema v opcode = Some (butlast (the (schema v opcode)) @ [KBlocks])"
    and "fields_ok v Q 0 ms (butlast (the (schema v opcode))) fs"
    and "raw_results (RawOp opcode fs) = n"
  shows "op_writes v Q (seqE (cb_varint opcode # ms) (new_op_with_nested_blocks n b))
    (RawOp opcode (fs @ [FBlocks b]))"
  by (rule op_writes_I [where e = "varint b", OF assms(1,2)])
    (use assms(3) in \<open>auto simp: new_op_with_nested_blocks_def record_op_def modifyE_def bindE_def
      retE_def returns_def on_buf_def zoom_def raw_blocks_def raw_results_def varint.dec_enc
      split: if_splits\<close>)

end
