(* ===== verification/BcOpRoundtrip.thy ===== *)
theory BcOpRoundtrip
  imports BcEncodings BcSchema
begin

text \<open>
  Every operation encoder of \<^verbatim>\<open>encodings.py\<close> satisfies the contract \<open>op_writes\<close> of
  \<open>BcSchema\<close>: what it writes is read back as its opcode and its arguments, field by field.
  One lemma per encoder; \<open>op_call\<close> collects the encoders into one relation.
\<close>

lemma schema_simps:
  "schema v 0 = Some ([KTypeId, KVal])"
  "schema v 1 = Some ([KTypeId, KVal])"
  "schema v 2 = Some ([KTypeId, KFlags, KEnum, KVal, KVal])"
  "schema v 3 = Some ([KTypeId, KEnum, KVal, KVal])"
  "schema v 113 = Some ([KTypeId, KFlags, KInt, KInt])"
  "schema v 4 = Some ([KTypeId, KVal, KVal])"
  "schema v 5 = Some ([KStr, KVal])"
  "schema v 6 = Some ([KTypeId, KAttr, KVal])"
  "schema v 110 = Some ([KTypeId, KVal, KVal])"
  "schema v 7 = Some ([KTypeId, KTypeId, KFlags, KEnum, KEnum, KVal, KVal, KVal, KOpt 0 KVal, KOpt 1 KVal])"
  "schema v 8 = Some ([KTypeId, KTypeId, KFlags, KEnum, KEnum, KEnum, KVal, KVal, KOpt 0 KVal, KOpt 1 KVal])"
  "schema v 117 = Some (KTypeIds # KFlags # KEnum # KEnum # KEnum # (if V_13_5 \<le> v then [KBools] else []) @ [KVal, KVals, KVal, KOpt 0 KVal])"
  "schema v 9 = Some ([KTypeId, KVal])"
  "schema v 10 = Some ([KTypeIds, KVals])"
  "schema v 11 = Some ([KTypeId, KVal])"
  "schema v 12 = Some ([KTypeId, KInt, KVal, KVal])"
  "schema v 13 = Some ([KTypeId, KVal])"
  "schema v 14 = Some ([KTypeId, KEnum, KEnum, KVal, KVal])"
  "schema v 15 = Some ([KTypeId, KEnum, KEnum, KVal, KVal])"
  "schema v 16 = Some ([KTypeId, KConst])"
  "schema v 17 = Some ([KTypeIds, KVals])"
  "schema v 19 = Some ([KTypeId, KVal])"
  "schema v 18 = Some ([KTypeId, KVal])"
  "schema v 20 = Some ([KTypeId, KFlags, KEnum, KVal, KVal])"
  "schema v 21 = Some ([KTypeId, KEnum, KEnum, KVal, KVal])"
  "schema v 22 = Some (([KFlags, KStr, KTypeAttr, KOpt 2 KAttrs, KOpt 0 KAttrs, KOpt 1 KHints]) @ [KBlocks])"
  "schema v 24 = Some ([KTypeId, KFlags, KVal])"
  "schema v 23 = Some (KTypeId # (if V_13_3 \<le> v then [KEnum] else []) @ [KVal])"
  "schema v 37 = Some ([KTypeId, KEnum, KVal])"
  "schema v 38 = Some ([KTypeIds, KVals])"
  "schema v 84 = Some ([KTypeId, KVal, KVal])"
  "schema v 121 = Some ([KTypeId, KVal, KVal])"
  "schema v 42 = Some ([KTypeId, KEnum, KVal])"
  "schema v 43 = Some (KTypeId # (if V_13_4 \<le> v then [KFlags] else []) @ [KEnum, KEnum, KVal])"
  "schema v 39 = Some ([KTypeId, KVal])"
  "schema v 40 = Some ([KTypeId, KFlags, KEnum, KVal, KVal, KVal])"
  "schema v 41 = Some ((KTypeIds # (if V_13_2 \<le> v then [KFlags] else []) @ [KVals]) @ [KBlocks])"
  "schema v 119 = Some ([KTypeId, KFlags, KOpt 0 KVal])"
  "schema v 120 = Some ([KTypeId, KFlags, KOpt 0 KVal])"
  "schema v 44 = Some ([KTypeId, KStr])"
  "schema v 45 = Some ([KTypeIds, KVal])"
  "schema v 46 = Some ([KTypeId, KTypeId, KTypeId])"
  "schema v 47 = Some ([KTypeIds, KVal])"
  "schema v 48 = Some ([KTypeId, KTypeId, KTypeId])"
  "schema v 49 = Some ((if V_13_3 \<le> v then [KFlags] else []) @ KStr # KConst # KInt # (if V_13_3 \<le> v then [KEnum] else []))"
  "schema v 59 = Some ([KTypeId, KEnum, KEnum, KVal])"
  "schema v 50 = Some (([KTypeIds, KVal]) @ [KBlocks])"
  "schema v 118 = Some ([KTypeIds, KVals])"
  "schema v 51 = Some ([KTypeId, KVal])"
  "schema v 58 = Some ([KTypeId])"
  "schema v 60 = Some ([KTypeIds, KVals])"
  "schema v 61 = Some ([KTypeId, KTypeId, KFlags, KEnum, KOpt 0 KEnum, KOpt 1 KHints, KVal, KOpt 2 KVal, KOpt 3 KVal, KOpt 4 KVal])"
  "schema v 62 = Some (KTypeIds # KFlags # KEnum # KOpt 0 KEnum # KOpt 1 KHints # (if V_13_4 \<le> v then [KBools] else []) @ [KVal, KVals, KOpt 2 KVal])"
  "schema v 64 = Some ([KTypeId, KVal])"
  "schema v 63 = Some ([KTypeId, KVal])"
  "schema v 65 = Some (([KTypeIds, KVals]) @ [KBlocks])"
  "schema v 115 = Some ([KTypeId, KVal])"
  "schema v 66 = Some ([KTypeId, KVal])"
  "schema v 116 = Some ([KTypeId, KVal])"
  "schema v 67 = Some ([KTypeIds, KVal, KVals, KVals])"
  "schema v 68 = Some ([KTypeId])"
  "schema v 69 = Some ([KTypeId, KFlags, KVal, KVal])"
  "schema v 70 = Some ([KTypeId, KEnum, KVal, KVal])"
  "schema v 122 = Some ([KTypeId, KVal])"
  "schema v 71 = Some ([KTypeId, KFlags, KVal, KVal])"
  "schema v 72 = Some ([KTypeId, KEnum, KVal, KVal])"
  "schema v 73 = Some (KTypeId # (if V_13_3 \<le> v then [KFlags] else []) @ [KVal, KVal, KVal])"
  "schema v 114 = Some ([KTypeId, KVal, KVal, KVal, KVal, KVal])"
  "schema v 74 = Some ([KTypeId, KEnum, KEnum, KVal, KVal, KVal])"
  "schema v 75 = Some (((if V_13_3 \<le> v then [KFlags] else []) @ [KStr, KOpt 0 KStr]) @ [KBlocks])"
  "schema v 76 = Some ([KTypeId, KFlags, KEnum, KVal, KVal])"
  "schema v 78 = Some ([KTypeId, KEnum, KVal, KVal])"
  "schema v 77 = Some ([KTypeId, KVal, KVal])"
  "schema v 123 = Some ([KTypeIds, KFlags, KEnum, KOpt 0 KEnum, KEnum, KBools, KVal, KVals, KOpt 1 KVal])"
  "schema v 124 = Some ([KTypeIds, KFlags, KEnum, KEnum, KEnum, KBools, KVal, KVal, KVals, KOpt 0 KVal])"
  "schema v 125 = Some ([KTypeIds, KFlags, KEnum, KOpt 0 KEnum, KBools, KVal, KVal, KVals, KOpt 1 KVal])"
  "schema v 79 = Some ([KTypeId, KVal])"
  "schema v 80 = Some (KTypeId # (if V_13_2 \<le> v then [KEnum] else []) @ [KVal])"
  "schema v 81 = Some ([KTypeId, KVal, KVal])"
  "schema v 82 = Some ([KTypeId, KVal, KVal])"
  "schema v 111 = Some ([KTypeId, KVal])"
  "schema v 83 = Some ([KTypeId, KI32s, KVal])"
  "schema v 85 = Some (KTypeIds # (if V_13_2 \<le> v then [KFlags] else []) @ [KStr, KVals, KOpt 0 KVal])"
  "schema v 86 = Some ([KTypeId, KVal])"
  "schema v 87 = Some ([KTypeId, KVal])"
  "schema v 88 = Some (([KTypeIds, KInt, KAttrs, KVals]) @ [KBlocks])"
  "schema v 89 = Some ([KTypeId, KVal, KVal])"
  "schema v 90 = Some ([KTypeId, KEnum, KVal, KVal])"
  "schema v 91 = Some ([KTypeId, KVal])"
  "schema v 92 = Some ([KTypeIds, KVals])"
  "schema v 93 = Some ([KTypeId, KFlags, KVal])"
  "schema v 94 = Some (([KTypeIds, KInt, KBool, KAttrs, KVals]) @ [KBlocks])"
  "schema v 95 = Some ([KTypeId, KVal, KVal, KVal])"
  "schema v 96 = Some ([KTypeId, KEnum, KVal, KVal])"
  "schema v 97 = Some ([KTypeId, KEnum, KVal, KVal])"
  "schema v 99 = Some ([KTypeId, KVal])"
  "schema v 98 = Some ([KTypeId, KVal])"
  "schema v 100 = Some ([KTypeId, KFlags, KEnum, KVal])"
  "schema v 101 = Some ([KTypeId, KFlags, KEnum, KOpt 0 KEnum, KOpt 1 KHints, KVal, KVal, KOpt 2 KVal, KOpt 3 KVal])"
  "schema v 102 = Some (KTypeIds # KFlags # KEnum # KOpt 0 KEnum # KOpt 1 KHints # (if V_13_4 \<le> v then [KBools] else []) @ [KVal, KVal, KVals, KOpt 2 KVal])"
  "schema v 103 = Some ([KTypeId, KFlags, KEnum, KVal, KVal])"
  "schema v 104 = Some ([KTypeId, KEnum, KVal, KVal])"
  "schema v 106 = Some (KTypeId # (if V_13_2 \<le> v then [KEnum] else []) @ [KVal])"
  "schema v 105 = Some ([KTypeId, KVal])"
  "schema v 107 = Some ([KTypeId, KEnum, KVal])"
  "schema v 112 = Some ([KTypeId, KVal])"
  "schema v 108 = Some ([KTypeId, KVal, KVal])"
  "schema v 109 = Some ([KTypeIds, KVals])"
  "schema v 16386 = Some ([KTypeIds, KFlags, KStr, KAttrs, KOpt 0 KAttrs, KOpt 1 KAttrs, KVals])"
  by (simp_all add: schema_def instruction_table_def)

lemma field_results_fopt: "(\<And>y. field_results (f y) = 0) \<Longrightarrow> field_results (fopt f x) = 0"
  by (cases x) simp_all

lemma field_blocks_fopt: "(\<And>y. field_blocks (f y) = None) \<Longrightarrow> field_blocks (fopt f x) = None"
  by (cases x) simp_all

lemma pybool_less_one: "pybool b < 1 \<longleftrightarrow> \<not> b"
  by (simp add: pybool_def)

lemma bit_times_two: "bit (x * 2 :: int) n \<longleftrightarrow> n \<noteq> 0 \<and> bit x (n - 1)"
  using bit_double_iff [of x n] by (simp add: mult.commute possible_bit_def)

lemmas op_simps = schema_simps raw_results_def raw_blocks_def field_results_fopt field_blocks_fopt
  next_flags_fopt bit_simps bit_times_two pybool_less_one

lemma AbsFOp_wire:
  "op_writes v Q (encode_AbsFOp result_type source)
    (RawOp 0 ([FTypeId result_type, FVal (value_id source)]))"
  unfolding encode_AbsFOp_def
  by (rule op_writes_one) (auto intro!: fields_intros simp: op_simps)

lemma AbsIOp_wire:
  "op_writes v Q (encode_AbsIOp result_type source)
    (RawOp 1 ([FTypeId result_type, FVal (value_id source)]))"
  unfolding encode_AbsIOp_def
  by (rule op_writes_one) (auto intro!: fields_intros simp: op_simps)

lemma AddFOp_wire:
  "op_writes v Q (encode_AddFOp result_type lhs rhs rounding_mode flush_to_zero)
    (RawOp 2 ([FTypeId result_type, FFlags (pybool flush_to_zero), FEnum (rounding_mode_bytes
      rounding_mode), FVal (value_id lhs), FVal (value_id rhs)]))"
  unfolding encode_AddFOp_def
  by (rule op_writes_one) (auto intro!: fields_intros simp: op_simps)

lemma AddIOp_wire:
  "op_writes v Q (encode_AddIOp result_type lhs rhs overflow)
    (RawOp 3 ([FTypeId result_type, FEnum (integer_overflow_bytes overflow), FVal (value_id lhs),
      FVal (value_id rhs)]))"
  unfolding encode_AddIOp_def
  by (rule op_writes_one) (auto intro!: fields_intros simp: op_simps)

lemma AllocaOp_wire:
  "op_writes v Q (encode_AllocaOp result_type num_elem alignment global')
    (RawOp 113 ([FTypeId result_type, FFlags (pybool global'), FInt num_elem, FInt alignment]))"
  unfolding encode_AllocaOp_def
  by (rule op_writes_one) (auto intro!: fields_intros simp: op_simps)

lemma AndIOp_wire:
  "op_writes v Q (encode_AndIOp result_type lhs rhs)
    (RawOp 4 ([FTypeId result_type, FVal (value_id lhs), FVal (value_id rhs)]))"
  unfolding encode_AndIOp_def
  by (rule op_writes_one) (auto intro!: fields_intros simp: op_simps)

lemma AssertOp_wire:
  "op_writes v Q (encode_AssertOp condition message)
    (RawOp 5 ([FStr (utf8 message), FVal (value_id condition)]))"
  unfolding encode_AssertOp_def
  by (rule op_writes_many) (auto intro!: fields_intros simp: op_simps)

lemma AssumeOp_wire:
  assumes "\<And>tys. Q tys \<Longrightarrow> attr_typed tys predicate"
  shows "op_writes v Q (encode_AssumeOp result_type value' predicate)
    (RawOp 6 ([FTypeId result_type, FAttr (wire_attr predicate), FVal (value_id value')]))"
  unfolding encode_AssumeOp_def
  by (rule op_writes_one) (auto intro!: fields_intros simp: op_simps assms)

lemma Atan2Op_wire:
  "op_writes v Q (encode_Atan2Op result_type x y)
    (RawOp 110 ([FTypeId result_type, FVal (value_id x), FVal (value_id y)]))"
  unfolding encode_Atan2Op_def
  by (rule op_writes_one) (auto intro!: fields_intros simp: op_simps)

lemma AtomicCASTkoOp_wire:
  "op_writes v Q (encode_AtomicCASTkoOp result_type result_token_type pointers cmp val mask' token
      memory_ordering_semantics memory_scope)
    (RawOp 7 ([FTypeId result_type, FTypeId result_token_type, FFlags (or (pybool (mask' \<noteq> None))
      (push_bit 1 (pybool (token \<noteq> None)))), FEnum (memory_ordering_semantics_bytes
      memory_ordering_semantics), FEnum (memory_scope_bytes memory_scope), FVal (value_id
      pointers), FVal (value_id cmp), FVal (value_id val), fopt (\<lambda>v. FVal (value_id v)) mask',
      fopt (\<lambda>v. FVal (value_id v)) token]))"
  unfolding encode_AtomicCASTkoOp_def
  by (rule op_writes_many) (auto intro!: fields_intros simp: op_simps)

lemma AtomicRMWTkoOp_wire:
  "op_writes v Q (encode_AtomicRMWTkoOp result_type result_token_type pointers arg mask' token
      memory_ordering_semantics memory_scope mode)
    (RawOp 8 ([FTypeId result_type, FTypeId result_token_type, FFlags (or (pybool (mask' \<noteq> None))
      (push_bit 1 (pybool (token \<noteq> None)))), FEnum (memory_ordering_semantics_bytes
      memory_ordering_semantics), FEnum (memory_scope_bytes memory_scope), FEnum
      (atomic_rmw_mode_bytes mode), FVal (value_id pointers), FVal (value_id arg), fopt
      (\<lambda>v. FVal (value_id v)) mask', fopt (\<lambda>v. FVal (value_id v)) token]))"
  unfolding encode_AtomicRMWTkoOp_def
  by (rule op_writes_many) (auto intro!: fields_intros simp: op_simps)

lemma AtomicRedViewTkoOp_wire:
  "op_writes v Q (encode_AtomicRedViewTkoOp result_token_type view index value' token memory_ordering_semantics
      memory_scope mode inbounds)
    (RawOp 117 (FTypeIds [result_token_type] # FFlags (pybool (token \<noteq> None)) # FEnum
      (memory_ordering_semantics_bytes memory_ordering_semantics) # FEnum (memory_scope_bytes
      memory_scope) # FEnum (atomic_rmw_mode_bytes mode) # (if V_13_5 \<le> v then [FBools inbounds]
      else []) @ [FVal (value_id view), FVals (List.map value_id index), FVal (value_id value'),
      fopt (\<lambda>v. FVal (value_id v)) token]))"
  unfolding encode_AtomicRedViewTkoOp_def
  by (rule op_writes_one) (auto intro!: fields_intros simp: op_simps)

lemma BitcastOp_wire:
  "op_writes v Q (encode_BitcastOp result_type source)
    (RawOp 9 ([FTypeId result_type, FVal (value_id source)]))"
  unfolding encode_BitcastOp_def
  by (rule op_writes_one) (auto intro!: fields_intros simp: op_simps)

lemma BreakOp_wire:
  "op_writes v Q (encode_BreakOp operands)
    (RawOp 10 ([FTypeIds [], FVals (List.map value_id operands)]))"
  unfolding encode_BreakOp_def
  by (rule op_writes_many) (auto intro!: fields_intros simp: op_simps)

lemma BroadcastOp_wire:
  "op_writes v Q (encode_BroadcastOp result_type source)
    (RawOp 11 ([FTypeId result_type, FVal (value_id source)]))"
  unfolding encode_BroadcastOp_def
  by (rule op_writes_one) (auto intro!: fields_intros simp: op_simps)

lemma CatOp_wire:
  "op_writes v Q (encode_CatOp result_type lhs rhs dim)
    (RawOp 12 ([FTypeId result_type, FInt dim, FVal (value_id lhs), FVal (value_id rhs)]))"
  unfolding encode_CatOp_def
  by (rule op_writes_one) (auto intro!: fields_intros simp: op_simps)

lemma CeilOp_wire:
  "op_writes v Q (encode_CeilOp result_type source)
    (RawOp 13 ([FTypeId result_type, FVal (value_id source)]))"
  unfolding encode_CeilOp_def
  by (rule op_writes_one) (auto intro!: fields_intros simp: op_simps)

lemma CmpFOp_wire:
  "op_writes v Q (encode_CmpFOp result_type lhs rhs comparison_predicate comparison_ordering)
    (RawOp 14 ([FTypeId result_type, FEnum (comparison_predicate_bytes comparison_predicate), FEnum
      (comparison_ordering_bytes comparison_ordering), FVal (value_id lhs), FVal (value_id
      rhs)]))"
  unfolding encode_CmpFOp_def
  by (rule op_writes_one) (auto intro!: fields_intros simp: op_simps)

lemma CmpIOp_wire:
  "op_writes v Q (encode_CmpIOp result_type lhs rhs comparison_predicate signedness)
    (RawOp 15 ([FTypeId result_type, FEnum (comparison_predicate_bytes comparison_predicate), FEnum
      (signedness_bytes signedness), FVal (value_id lhs), FVal (value_id rhs)]))"
  unfolding encode_CmpIOp_def
  by (rule op_writes_one) (auto intro!: fields_intros simp: op_simps)

lemma ConstantOp_wire:
  "op_writes v Q (encode_ConstantOp result_type value')
    (RawOp 16 ([FTypeId result_type, FConst value']))"
  unfolding encode_ConstantOp_def
  by (rule op_writes_one) (auto intro!: fields_intros simp: op_simps)

lemma ContinueOp_wire:
  "op_writes v Q (encode_ContinueOp operands)
    (RawOp 17 ([FTypeIds [], FVals (List.map value_id operands)]))"
  unfolding encode_ContinueOp_def
  by (rule op_writes_many) (auto intro!: fields_intros simp: op_simps)

lemma CosHOp_wire:
  "op_writes v Q (encode_CosHOp result_type source)
    (RawOp 19 ([FTypeId result_type, FVal (value_id source)]))"
  unfolding encode_CosHOp_def
  by (rule op_writes_one) (auto intro!: fields_intros simp: op_simps)

lemma CosOp_wire:
  "op_writes v Q (encode_CosOp result_type source)
    (RawOp 18 ([FTypeId result_type, FVal (value_id source)]))"
  unfolding encode_CosOp_def
  by (rule op_writes_one) (auto intro!: fields_intros simp: op_simps)

lemma DivFOp_wire:
  "op_writes v Q (encode_DivFOp result_type lhs rhs rounding_mode flush_to_zero)
    (RawOp 20 ([FTypeId result_type, FFlags (pybool flush_to_zero), FEnum (rounding_mode_bytes
      rounding_mode), FVal (value_id lhs), FVal (value_id rhs)]))"
  unfolding encode_DivFOp_def
  by (rule op_writes_one) (auto intro!: fields_intros simp: op_simps)

lemma DivIOp_wire:
  "op_writes v Q (encode_DivIOp result_type lhs rhs signedness rounding)
    (RawOp 21 ([FTypeId result_type, FEnum (signedness_bytes signedness), FEnum (rounding_mode_bytes
      rounding), FVal (value_id lhs), FVal (value_id rhs)]))"
  unfolding encode_DivIOp_def
  by (rule op_writes_one) (auto intro!: fields_intros simp: op_simps)

lemma EntryOp_wire:
  assumes "\<And>tys. Q tys \<Longrightarrow> pred_option (attrs_typed tys) arg_attrs"
    and "\<And>tys. Q tys \<Longrightarrow> pred_option (attrs_typed tys) res_attrs"
    and "\<And>tys. Q tys \<Longrightarrow> pred_option (items_typed tys) optimization_hints"
  shows "op_writes v Q (encode_EntryOp sym_name function_type' arg_attrs res_attrs optimization_hints)
    (RawOp 22 (([FFlags (or (or (pybool (res_attrs \<noteq> None)) (push_bit 1 (pybool (optimization_hints
      \<noteq> None)))) (push_bit 2 (pybool (arg_attrs \<noteq> None)))), FStr (utf8 sym_name), FTypeAttr
      function_type', fopt (\<lambda>arg_attrs. FAttrs (wire_attrs arg_attrs)) arg_attrs, fopt
      (\<lambda>res_attrs. FAttrs (wire_attrs res_attrs)) res_attrs, fopt (\<lambda>optimization_hints. FHints
      (wire_items optimization_hints)) optimization_hints]) @ [FBlocks 1]))"
  unfolding encode_EntryOp_def Let_def
  by (rule op_writes_nested) (auto intro!: fields_intros simp: op_simps assms)

lemma Exp2Op_wire:
  "op_writes v Q (encode_Exp2Op result_type source flush_to_zero)
    (RawOp 24 ([FTypeId result_type, FFlags (pybool flush_to_zero), FVal (value_id source)]))"
  unfolding encode_Exp2Op_def
  by (rule op_writes_one) (auto intro!: fields_intros simp: op_simps)

lemma ExpOp_wire:
  "op_writes v Q (encode_ExpOp result_type source rounding_mode)
    (RawOp 23 (FTypeId result_type # (if V_13_3 \<le> v then [FEnum (rounding_mode_bytes rounding_mode)]
      else []) @ [FVal (value_id source)]))"
  unfolding encode_ExpOp_def
  by (rule op_writes_one) (auto intro!: fields_intros simp: op_simps)

lemma ExtIOp_wire:
  "op_writes v Q (encode_ExtIOp to_type from' signedness)
    (RawOp 37 ([FTypeId to_type, FEnum (signedness_bytes signedness), FVal (value_id from')]))"
  unfolding encode_ExtIOp_def
  by (rule op_writes_one) (auto intro!: fields_intros simp: op_simps)

lemma ExtractOp_wire:
  "op_writes v Q (encode_ExtractOp result_type source indices)
    (RawOp 38 ([FTypeIds [result_type], FVals (List.map value_id (source # indices))]))"
  unfolding encode_ExtractOp_def
  by (rule op_writes_one) (auto intro!: fields_intros simp: op_simps)

lemma FPowFOp_wire:
  "op_writes v Q (encode_FPowFOp result_type source exponent)
    (RawOp 84 ([FTypeId result_type, FVal (value_id source), FVal (value_id exponent)]))"
  unfolding encode_FPowFOp_def
  by (rule op_writes_one) (auto intro!: fields_intros simp: op_simps)

lemma FPowIOp_wire:
  "op_writes v Q (encode_FPowIOp result_type source exponent)
    (RawOp 121 ([FTypeId result_type, FVal (value_id source), FVal (value_id exponent)]))"
  unfolding encode_FPowIOp_def
  by (rule op_writes_one) (auto intro!: fields_intros simp: op_simps)

lemma FToFOp_wire:
  "op_writes v Q (encode_FToFOp to_type from' rounding_mode)
    (RawOp 42 ([FTypeId to_type, FEnum (rounding_mode_bytes rounding_mode), FVal (value_id from')]))"
  unfolding encode_FToFOp_def
  by (rule op_writes_one) (auto intro!: fields_intros simp: op_simps)

lemma FToIOp_wire:
  "op_writes v Q (encode_FToIOp to_type from' signedness rounding_mode saturating)
    (RawOp 43 (FTypeId to_type # (if V_13_4 \<le> v then [FFlags (pybool saturating)] else []) @ [FEnum
      (signedness_bytes signedness), FEnum (rounding_mode_bytes rounding_mode), FVal (value_id
      from')]))"
  unfolding encode_FToIOp_def Let_def
  by (rule op_writes_one) (auto intro!: fields_intros simp: op_simps)

lemma FloorOp_wire:
  "op_writes v Q (encode_FloorOp result_type source)
    (RawOp 39 ([FTypeId result_type, FVal (value_id source)]))"
  unfolding encode_FloorOp_def
  by (rule op_writes_one) (auto intro!: fields_intros simp: op_simps)

lemma FmaOp_wire:
  "op_writes v Q (encode_FmaOp result_type lhs rhs acc rounding_mode flush_to_zero)
    (RawOp 40 ([FTypeId result_type, FFlags (pybool flush_to_zero), FEnum (rounding_mode_bytes
      rounding_mode), FVal (value_id lhs), FVal (value_id rhs), FVal (value_id acc)]))"
  unfolding encode_FmaOp_def
  by (rule op_writes_one) (auto intro!: fields_intros simp: op_simps)

lemma ForOp_wire:
  "op_writes v Q (encode_ForOp result_types lowerBound upperBound step initValues unsignedCmp)
    (RawOp 41 ((FTypeIds result_types # (if V_13_2 \<le> v then [FFlags (pybool unsignedCmp)] else []) @
      [FVals (List.map value_id (lowerBound # upperBound # step # initValues))]) @ [FBlocks 1]))"
  unfolding encode_ForOp_def Let_def
  by (rule op_writes_nested) (auto intro!: fields_intros simp: op_simps)

lemma GdcLaunchDependentsTkoOp_wire:
  "op_writes v Q (encode_GdcLaunchDependentsTkoOp result_token_type token)
    (RawOp 119 ([FTypeId result_token_type, FFlags (pybool (token \<noteq> None)), fopt (\<lambda>v. FVal (value_id
      v)) token]))"
  unfolding encode_GdcLaunchDependentsTkoOp_def
  by (rule op_writes_one) (auto intro!: fields_intros simp: op_simps)

lemma GdcWaitTkoOp_wire:
  "op_writes v Q (encode_GdcWaitTkoOp result_token_type token)
    (RawOp 120 ([FTypeId result_token_type, FFlags (pybool (token \<noteq> None)), fopt (\<lambda>v. FVal (value_id
      v)) token]))"
  unfolding encode_GdcWaitTkoOp_def
  by (rule op_writes_one) (auto intro!: fields_intros simp: op_simps)

lemma GetGlobalOp_wire:
  "op_writes v Q (encode_GetGlobalOp result_type name)
    (RawOp 44 ([FTypeId result_type, FStr (utf8 name)]))"
  unfolding encode_GetGlobalOp_def
  by (rule op_writes_one) (auto intro!: fields_intros simp: op_simps)

lemma GetIndexSpaceShapeOp_wire:
  "op_writes v Q (encode_GetIndexSpaceShapeOp result_types src)
    (RawOp 45 ([FTypeIds result_types, FVal (value_id src)]))"
  unfolding encode_GetIndexSpaceShapeOp_def
  by (rule op_writes_many) (auto intro!: fields_intros simp: op_simps)

lemma GetNumTileBlocksOp_wire:
  "op_writes v Q (encode_GetNumTileBlocksOp gridSize_x_type gridSize_y_type gridSize_z_type)
    (RawOp 46 ([FTypeId gridSize_x_type, FTypeId gridSize_y_type, FTypeId gridSize_z_type]))"
  unfolding encode_GetNumTileBlocksOp_def
  by (rule op_writes_many) (auto intro!: fields_intros simp: op_simps)

lemma GetTensorShapeOp_wire:
  "op_writes v Q (encode_GetTensorShapeOp result_types src)
    (RawOp 47 ([FTypeIds result_types, FVal (value_id src)]))"
  unfolding encode_GetTensorShapeOp_def
  by (rule op_writes_many) (auto intro!: fields_intros simp: op_simps)

lemma GetTileBlockIdOp_wire:
  "op_writes v Q (encode_GetTileBlockIdOp blockId_x_type blockId_y_type blockId_z_type)
    (RawOp 48 ([FTypeId blockId_x_type, FTypeId blockId_y_type, FTypeId blockId_z_type]))"
  unfolding encode_GetTileBlockIdOp_def
  by (rule op_writes_many) (auto intro!: fields_intros simp: op_simps)

lemma GlobalOp_wire:
  "op_writes v Q (encode_GlobalOp sym_name value' alignment constant symbol_visibility)
    (RawOp 49 ((if V_13_3 \<le> v then [FFlags (pybool constant)] else []) @ FStr (utf8 sym_name) #
      FConst value' # FInt alignment # (if V_13_3 \<le> v then [FEnum (symbol_visibility_bytes
      symbol_visibility)] else [])))"
  unfolding encode_GlobalOp_def Let_def
  by (rule op_writes_many) (auto intro!: fields_intros simp: op_simps)

lemma IToFOp_wire:
  "op_writes v Q (encode_IToFOp to_type from' signedness rounding_mode)
    (RawOp 59 ([FTypeId to_type, FEnum (signedness_bytes signedness), FEnum (rounding_mode_bytes
      rounding_mode), FVal (value_id from')]))"
  unfolding encode_IToFOp_def
  by (rule op_writes_one) (auto intro!: fields_intros simp: op_simps)

lemma IfOp_wire:
  "op_writes v Q (encode_IfOp result_types condition)
    (RawOp 50 (([FTypeIds result_types, FVal (value_id condition)]) @ [FBlocks 2]))"
  unfolding encode_IfOp_def
  by (rule op_writes_nested) (auto intro!: fields_intros simp: op_simps)

lemma InsertOp_wire:
  "op_writes v Q (encode_InsertOp result_type source destination indices)
    (RawOp 118 ([FTypeIds [result_type], FVals (List.map value_id (source # destination #
      indices))]))"
  unfolding encode_InsertOp_def
  by (rule op_writes_one) (auto intro!: fields_intros simp: op_simps)

lemma IntToPtrOp_wire:
  "op_writes v Q (encode_IntToPtrOp result_type source)
    (RawOp 51 ([FTypeId result_type, FVal (value_id source)]))"
  unfolding encode_IntToPtrOp_def
  by (rule op_writes_one) (auto intro!: fields_intros simp: op_simps)

lemma IotaOp_wire:
  "op_writes v Q (encode_IotaOp result_type)
    (RawOp 58 ([FTypeId result_type]))"
  unfolding encode_IotaOp_def
  by (rule op_writes_one) (auto intro!: fields_intros simp: op_simps)

lemma JoinTokensOp_wire:
  "op_writes v Q (encode_JoinTokensOp result_type tokens)
    (RawOp 60 ([FTypeIds [result_type], FVals (List.map value_id tokens)]))"
  unfolding encode_JoinTokensOp_def
  by (rule op_writes_one) (auto intro!: fields_intros simp: op_simps)

lemma LoadPtrTkoOp_wire:
  assumes "\<And>tys. Q tys \<Longrightarrow> pred_option (items_typed tys) optimization_hints"
  shows "op_writes v Q (encode_LoadPtrTkoOp result_type result_token_type source mask' paddingValue token
      memory_ordering_semantics memory_scope optimization_hints)
    (RawOp 61 ([FTypeId result_type, FTypeId result_token_type, FFlags (or (or (or (or (pybool
      (memory_scope \<noteq> None)) (push_bit 1 (pybool (optimization_hints \<noteq> None)))) (push_bit 2
      (pybool (mask' \<noteq> None)))) (push_bit 3 (pybool (paddingValue \<noteq> None)))) (push_bit 4 (pybool
      (token \<noteq> None)))), FEnum (memory_ordering_semantics_bytes memory_ordering_semantics), fopt
      (\<lambda>memory_scope. FEnum (memory_scope_bytes memory_scope)) memory_scope, fopt
      (\<lambda>optimization_hints. FHints (wire_items optimization_hints)) optimization_hints, FVal
      (value_id source), fopt (\<lambda>v. FVal (value_id v)) mask', fopt (\<lambda>v. FVal (value_id v))
      paddingValue, fopt (\<lambda>v. FVal (value_id v)) token]))"
  unfolding encode_LoadPtrTkoOp_def
  by (rule op_writes_many) (auto intro!: fields_intros simp: op_simps assms)

lemma LoadViewTkoOp_wire:
  assumes "\<And>tys. Q tys \<Longrightarrow> pred_option (items_typed tys) optimization_hints"
  shows "op_writes v Q (encode_LoadViewTkoOp tile_type result_token_type view index token memory_ordering_semantics
      memory_scope optimization_hints inbounds)
    (RawOp 62 (FTypeIds [tile_type, result_token_type] # FFlags (or (or (pybool (memory_scope
      \<noteq> None)) (push_bit 1 (pybool (optimization_hints \<noteq> None)))) (push_bit 2 (pybool (token
      \<noteq> None)))) # FEnum (memory_ordering_semantics_bytes memory_ordering_semantics) # fopt
      (\<lambda>memory_scope. FEnum (memory_scope_bytes memory_scope)) memory_scope # fopt
      (\<lambda>optimization_hints. FHints (wire_items optimization_hints)) optimization_hints # (if
      V_13_4 \<le> v then [FBools inbounds] else []) @ [FVal (value_id view), FVals (List.map
      value_id index), fopt (\<lambda>v. FVal (value_id v)) token]))"
  unfolding encode_LoadViewTkoOp_def
  by (rule op_writes_many) (auto intro!: fields_intros simp: op_simps assms)

lemma Log2Op_wire:
  "op_writes v Q (encode_Log2Op result_type source)
    (RawOp 64 ([FTypeId result_type, FVal (value_id source)]))"
  unfolding encode_Log2Op_def
  by (rule op_writes_one) (auto intro!: fields_intros simp: op_simps)

lemma LogOp_wire:
  "op_writes v Q (encode_LogOp result_type source)
    (RawOp 63 ([FTypeId result_type, FVal (value_id source)]))"
  unfolding encode_LogOp_def
  by (rule op_writes_one) (auto intro!: fields_intros simp: op_simps)

lemma LoopOp_wire:
  "op_writes v Q (encode_LoopOp result_types initValues)
    (RawOp 65 (([FTypeIds result_types, FVals (List.map value_id initValues)]) @ [FBlocks 1]))"
  unfolding encode_LoopOp_def
  by (rule op_writes_nested) (auto intro!: fields_intros simp: op_simps)

lemma MakeGatherScatterViewOp_wire:
  "op_writes v Q (encode_MakeGatherScatterViewOp result_type tensor_view')
    (RawOp 115 ([FTypeId result_type, FVal (value_id tensor_view')]))"
  unfolding encode_MakeGatherScatterViewOp_def
  by (rule op_writes_one) (auto intro!: fields_intros simp: op_simps)

lemma MakePartitionViewOp_wire:
  "op_writes v Q (encode_MakePartitionViewOp result_type tensor_view')
    (RawOp 66 ([FTypeId result_type, FVal (value_id tensor_view')]))"
  unfolding encode_MakePartitionViewOp_def
  by (rule op_writes_one) (auto intro!: fields_intros simp: op_simps)

lemma MakeStridedViewOp_wire:
  "op_writes v Q (encode_MakeStridedViewOp result_type tensor_view')
    (RawOp 116 ([FTypeId result_type, FVal (value_id tensor_view')]))"
  unfolding encode_MakeStridedViewOp_def
  by (rule op_writes_one) (auto intro!: fields_intros simp: op_simps)

lemma MakeTensorViewOp_wire:
  "op_writes v Q (encode_MakeTensorViewOp result_type base dynamicShape dynamicStrides)
    (RawOp 67 ([FTypeIds [result_type], FVal (value_id base), FVals (List.map value_id
      dynamicShape), FVals (List.map value_id dynamicStrides)]))"
  unfolding encode_MakeTensorViewOp_def
  by (rule op_writes_one) (auto intro!: fields_intros simp: op_simps)

lemma MakeTokenOp_wire:
  "op_writes v Q (encode_MakeTokenOp result_type)
    (RawOp 68 ([FTypeId result_type]))"
  unfolding encode_MakeTokenOp_def
  by (rule op_writes_one) (auto intro!: fields_intros simp: op_simps)

lemma MaxFOp_wire:
  "op_writes v Q (encode_MaxFOp result_type lhs rhs propagate_nan flush_to_zero)
    (RawOp 69 ([FTypeId result_type, FFlags (or (pybool propagate_nan) (push_bit 1 (pybool
      flush_to_zero))), FVal (value_id lhs), FVal (value_id rhs)]))"
  unfolding encode_MaxFOp_def
  by (rule op_writes_one) (auto intro!: fields_intros simp: op_simps)

lemma MaxIOp_wire:
  "op_writes v Q (encode_MaxIOp result_type lhs rhs signedness)
    (RawOp 70 ([FTypeId result_type, FEnum (signedness_bytes signedness), FVal (value_id lhs), FVal
      (value_id rhs)]))"
  unfolding encode_MaxIOp_def
  by (rule op_writes_one) (auto intro!: fields_intros simp: op_simps)

lemma MemoryFenceAliasTkoOp_wire:
  "op_writes v Q (encode_MemoryFenceAliasTkoOp result_token_type token)
    (RawOp 122 ([FTypeId result_token_type, FVal (value_id token)]))"
  unfolding encode_MemoryFenceAliasTkoOp_def
  by (rule op_writes_one) (auto intro!: fields_intros simp: op_simps)

lemma MinFOp_wire:
  "op_writes v Q (encode_MinFOp result_type lhs rhs propagate_nan flush_to_zero)
    (RawOp 71 ([FTypeId result_type, FFlags (or (pybool propagate_nan) (push_bit 1 (pybool
      flush_to_zero))), FVal (value_id lhs), FVal (value_id rhs)]))"
  unfolding encode_MinFOp_def
  by (rule op_writes_one) (auto intro!: fields_intros simp: op_simps)

lemma MinIOp_wire:
  "op_writes v Q (encode_MinIOp result_type lhs rhs signedness)
    (RawOp 72 ([FTypeId result_type, FEnum (signedness_bytes signedness), FVal (value_id lhs), FVal
      (value_id rhs)]))"
  unfolding encode_MinIOp_def
  by (rule op_writes_one) (auto intro!: fields_intros simp: op_simps)

lemma MmaFOp_wire:
  "op_writes v Q (encode_MmaFOp result_type lhs rhs acc fast_acc)
    (RawOp 73 (FTypeId result_type # (if V_13_3 \<le> v then [FFlags (pybool fast_acc)] else []) @ [FVal
      (value_id lhs), FVal (value_id rhs), FVal (value_id acc)]))"
  unfolding encode_MmaFOp_def Let_def
  by (rule op_writes_one) (auto intro!: fields_intros simp: op_simps)

lemma MmaFScaledOp_wire:
  "op_writes v Q (encode_MmaFScaledOp result_type lhs rhs acc lhs_scale rhs_scale)
    (RawOp 114 ([FTypeId result_type, FVal (value_id lhs), FVal (value_id rhs), FVal (value_id acc),
      FVal (value_id lhs_scale), FVal (value_id rhs_scale)]))"
  unfolding encode_MmaFScaledOp_def
  by (rule op_writes_one) (auto intro!: fields_intros simp: op_simps)

lemma MmaIOp_wire:
  "op_writes v Q (encode_MmaIOp result_type lhs rhs acc signedness_lhs signedness_rhs)
    (RawOp 74 ([FTypeId result_type, FEnum (signedness_bytes signedness_lhs), FEnum
      (signedness_bytes signedness_rhs), FVal (value_id lhs), FVal (value_id rhs), FVal
      (value_id acc)]))"
  unfolding encode_MmaIOp_def
  by (rule op_writes_one) (auto intro!: fields_intros simp: op_simps)

lemma ModuleOp_wire:
  "op_writes v Q (encode_ModuleOp sym_name producer)
    (RawOp 75 (((if V_13_3 \<le> v then [FFlags (pybool (producer \<noteq> None))] else []) @ [FStr (utf8
      sym_name), fopt (\<lambda>producer. FStr (utf8 producer)) producer]) @ [FBlocks 1]))"
  unfolding encode_ModuleOp_def Let_def
  by (rule op_writes_nested) (auto intro!: fields_intros simp: op_simps simp del: option.case fopt_simps)

lemma MulFOp_wire:
  "op_writes v Q (encode_MulFOp result_type lhs rhs rounding_mode flush_to_zero)
    (RawOp 76 ([FTypeId result_type, FFlags (pybool flush_to_zero), FEnum (rounding_mode_bytes
      rounding_mode), FVal (value_id lhs), FVal (value_id rhs)]))"
  unfolding encode_MulFOp_def
  by (rule op_writes_one) (auto intro!: fields_intros simp: op_simps)

lemma MulIOp_wire:
  "op_writes v Q (encode_MulIOp result_type lhs rhs overflow)
    (RawOp 78 ([FTypeId result_type, FEnum (integer_overflow_bytes overflow), FVal (value_id lhs),
      FVal (value_id rhs)]))"
  unfolding encode_MulIOp_def
  by (rule op_writes_one) (auto intro!: fields_intros simp: op_simps)

lemma MulhiIOp_wire:
  "op_writes v Q (encode_MulhiIOp result_type x y)
    (RawOp 77 ([FTypeId result_type, FVal (value_id x), FVal (value_id y)]))"
  unfolding encode_MulhiIOp_def
  by (rule op_writes_one) (auto intro!: fields_intros simp: op_simps)

lemma MultimemLoadReduceViewTkoOp_wire:
  "op_writes v Q (encode_MultimemLoadReduceViewTkoOp reduced_values_type result_token_type view index token
      memory_ordering_semantics memory_scope reduction inbounds)
    (RawOp 123 ([FTypeIds [reduced_values_type, result_token_type], FFlags (or (pybool (memory_scope
      \<noteq> None)) (push_bit 1 (pybool (token \<noteq> None)))), FEnum (memory_ordering_semantics_bytes
      memory_ordering_semantics), fopt (\<lambda>memory_scope. FEnum (memory_scope_bytes memory_scope))
      memory_scope, FEnum (multimem_reduction_kind_bytes reduction), FBools inbounds, FVal
      (value_id view), FVals (List.map value_id index), fopt (\<lambda>v. FVal (value_id v)) token]))"
  unfolding encode_MultimemLoadReduceViewTkoOp_def
  by (rule op_writes_many) (auto intro!: fields_intros simp: op_simps)

lemma MultimemReduceViewTkoOp_wire:
  "op_writes v Q (encode_MultimemReduceViewTkoOp result_token_type view tile' index token
      memory_ordering_semantics memory_scope reduction inbounds)
    (RawOp 124 ([FTypeIds [result_token_type], FFlags (pybool (token \<noteq> None)), FEnum
      (memory_ordering_semantics_bytes memory_ordering_semantics), FEnum (memory_scope_bytes
      memory_scope), FEnum (multimem_reduction_kind_bytes reduction), FBools inbounds, FVal
      (value_id view), FVal (value_id tile'), FVals (List.map value_id index), fopt (\<lambda>v. FVal
      (value_id v)) token]))"
  unfolding encode_MultimemReduceViewTkoOp_def
  by (rule op_writes_one) (auto intro!: fields_intros simp: op_simps)

lemma MultimemStoreViewTkoOp_wire:
  "op_writes v Q (encode_MultimemStoreViewTkoOp result_token_type view tile' index token
      memory_ordering_semantics memory_scope inbounds)
    (RawOp 125 ([FTypeIds [result_token_type], FFlags (or (pybool (memory_scope \<noteq> None)) (push_bit 1
      (pybool (token \<noteq> None)))), FEnum (memory_ordering_semantics_bytes
      memory_ordering_semantics), fopt (\<lambda>memory_scope. FEnum (memory_scope_bytes memory_scope))
      memory_scope, FBools inbounds, FVal (value_id view), FVal (value_id tile'), FVals
      (List.map value_id index), fopt (\<lambda>v. FVal (value_id v)) token]))"
  unfolding encode_MultimemStoreViewTkoOp_def
  by (rule op_writes_one) (auto intro!: fields_intros simp: op_simps)

lemma NegFOp_wire:
  "op_writes v Q (encode_NegFOp result_type source)
    (RawOp 79 ([FTypeId result_type, FVal (value_id source)]))"
  unfolding encode_NegFOp_def
  by (rule op_writes_one) (auto intro!: fields_intros simp: op_simps)

lemma NegIOp_wire:
  "op_writes v Q (encode_NegIOp result_type source overflow)
    (RawOp 80 (FTypeId result_type # (if V_13_2 \<le> v then [FEnum (integer_overflow_bytes overflow)]
      else []) @ [FVal (value_id source)]))"
  unfolding encode_NegIOp_def
  by (rule op_writes_one) (auto intro!: fields_intros simp: op_simps)

lemma OffsetOp_wire:
  "op_writes v Q (encode_OffsetOp result_type ptr offset)
    (RawOp 81 ([FTypeId result_type, FVal (value_id ptr), FVal (value_id offset)]))"
  unfolding encode_OffsetOp_def
  by (rule op_writes_one) (auto intro!: fields_intros simp: op_simps)

lemma OrIOp_wire:
  "op_writes v Q (encode_OrIOp result_type lhs rhs)
    (RawOp 82 ([FTypeId result_type, FVal (value_id lhs), FVal (value_id rhs)]))"
  unfolding encode_OrIOp_def
  by (rule op_writes_one) (auto intro!: fields_intros simp: op_simps)

lemma PackOp_wire:
  "op_writes v Q (encode_PackOp result_type source)
    (RawOp 111 ([FTypeId result_type, FVal (value_id source)]))"
  unfolding encode_PackOp_def
  by (rule op_writes_one) (auto intro!: fields_intros simp: op_simps)

lemma PermuteOp_wire:
  "op_writes v Q (encode_PermuteOp result_type source permutation)
    (RawOp 83 ([FTypeId result_type, FInts permutation, FVal (value_id source)]))"
  unfolding encode_PermuteOp_def
  by (rule op_writes_one) (auto intro!: fields_intros simp: op_simps)

lemma opt_typeids_Some:
  "cb_sized_opt_typeid_seq (List.map Some us) = cb_sized_typeid_seq us"
proof -
  have "forE (List.map Some us)
      (\<lambda>t. case t of None \<Rightarrow> raiseE AttributeError | Some i \<Rightarrow> encode_varint (type_id i)) =
    forE us (\<lambda>t. encode_varint (type_id t))"
    by (induction us) (simp_all del: encode_varint_eq)
  then show ?thesis
    by (simp add: cb_sized_opt_typeid_seq_def cb_sized_typeid_seq_def encode_sized_typeid_seq_def)
qed

lemma field_opt_typeid:
  "field_ok v Q fl (cb_sized_opt_typeid_seq [t]) KTypeIds (FTypeIds [the t])"
proof (cases t)
  case None
  have "fst (cb_sized_opt_typeid_seq [None] s) = Inl AttributeError" for s
    by (simp add: cb_sized_opt_typeid_seq_def on_buf_def zoom_def bindE_def raiseE_def)
  then have "cb_sized_opt_typeid_seq [None] s \<noteq> (Inr (), s')" for s s'
    by (metis fst_conv sum.distinct(1))
  then show ?thesis by (simp add: None field_ok_def writes_def)
next
  case (Some i)
  then show ?thesis using opt_typeids_Some [of "[i]"] field_typeids [of v Q fl "[i]"] by simp
qed

text \<open>\<^verbatim>\<open>encode_PrintTkoOp\<close> ends like an operation with one result, or with none before 13.2.\<close>

lemma first_result_one: "bindE (new_op (Some (Suc 0))) (\<lambda>rs. retE (first_result rs)) = new_op None"
proof -
  have "bindE (make_value_tuple (Suc 0)) (\<lambda>vs. retE (first_result (ManyResults vs))) s =
    (Inr (OneResult (Value (next_value_id s))), s\<lparr>next_value_id := next_value_id s + 1\<rparr>)" for s
    by (simp add: bindE_def make_value_tuple_def Let_def first_result_def retE_def)
  then have "bindE (make_value_tuple (Suc 0)) (\<lambda>vs. retE (first_result (ManyResults vs))) =
    (\<lambda>s. (Inr (OneResult (Value (next_value_id s))), s\<lparr>next_value_id := next_value_id s + 1\<rparr>))"
    by (rule ext)
  then show ?thesis by (simp add: new_op_def bindE_assoc)
qed

lemma no_result_zero: "bindE (new_op (Some 0)) (\<lambda>rs. retE NoResult) = new_op (Some 0)"
  by (simp add: new_op_def bindE_assoc)

lemma op_writes_at_version:
  assumes "op_writes v Q (f v) raw"
  shows "op_writes v Q (bindE (getE cb_version) f) raw"
proof -
  have at: "bindE (getE cb_version) f s = f v s" if "cb_version s = v" for s
    using that by (simp add: bindE_def getE_def)
  show ?thesis unfolding op_writes_def
    by (intro allI impI, rule assms [unfolded op_writes_def, rule_format]) (simp_all only: at)
qed

lemma PrintTkoOp_wire:
  "op_writes v Q (encode_PrintTkoOp result_token_type args token str')
    (RawOp 85 (FTypeIds (if V_13_2 \<le> v then [the result_token_type] else []) #
      (if V_13_2 \<le> v then [FFlags (pybool (token \<noteq> None))] else []) @
      [FStr (utf8 str'), FVals (List.map value_id args), fopt (\<lambda>v. FVal (value_id v)) token]))"
proof (cases "V_13_2 \<le> v")
  case True
  have "op_writes v Q
    (seqE [cb_varint 85, if_version V_13_2 skipE (assertE (result_token_type = None)),
           cb_sized_opt_typeid_seq [result_token_type],
           assert_flags (pybool (token \<noteq> None)) 1 V_13_2,
           if_version V_13_2 (cb_varint (pybool (token \<noteq> None))) skipE,
           encode_opattr_str str', cb_sized_variadic_operands args, cb_optional_operand token]
       (new_op None))
    (RawOp 85 [FTypeIds [the result_token_type], FFlags (pybool (token \<noteq> None)),
      FStr (utf8 str'), FVals (List.map value_id args), fopt (\<lambda>v. FVal (value_id v)) token])"
    by (rule op_writes_one)
      (use True in \<open>auto intro!: fields_intros field_opt_typeid [THEN fields_Cons] simp: op_simps
        simp del: fopt_simps\<close>)
  with True show ?thesis unfolding encode_PrintTkoOp_def Let_def
    by (intro op_writes_at_version) (simp add: first_result_one del: seqE.simps)
next
  case False
  have "op_writes v Q
    (seqE [cb_varint 85, if_version V_13_2 skipE (assertE (result_token_type = None)),
           cb_sized_typeid_seq [], assert_flags (pybool (token \<noteq> None)) 1 V_13_2,
           if_version V_13_2 (cb_varint (pybool (token \<noteq> None))) skipE,
           encode_opattr_str str', cb_sized_variadic_operands args, cb_optional_operand token]
       (new_op (Some 0)))
    (RawOp 85 [FTypeIds [], FStr (utf8 str'), FVals (List.map value_id args),
      fopt (\<lambda>v. FVal (value_id v)) token])"
    by (rule op_writes_many)
      (use False in \<open>auto intro!: fields_intros simp: op_simps simp del: fopt_simps\<close>)
  with False show ?thesis
    unfolding encode_PrintTkoOp_def Let_def using opt_typeids_Some [of "[]"]
    by (intro op_writes_at_version) (simp add: no_result_zero del: seqE.simps)
qed

lemma PtrToIntOp_wire:
  "op_writes v Q (encode_PtrToIntOp result_type source)
    (RawOp 86 ([FTypeId result_type, FVal (value_id source)]))"
  unfolding encode_PtrToIntOp_def
  by (rule op_writes_one) (auto intro!: fields_intros simp: op_simps)

lemma PtrToPtrOp_wire:
  "op_writes v Q (encode_PtrToPtrOp result_type source)
    (RawOp 87 ([FTypeId result_type, FVal (value_id source)]))"
  unfolding encode_PtrToPtrOp_def
  by (rule op_writes_one) (auto intro!: fields_intros simp: op_simps)

lemma ReduceOp_wire:
  assumes "\<And>tys. Q tys \<Longrightarrow> attrs_typed tys identities"
  shows "op_writes v Q (encode_ReduceOp result_types operands dim identities)
    (RawOp 88 (([FTypeIds result_types, FInt dim, FAttrs (wire_attrs identities), FVals (List.map
      value_id operands)]) @ [FBlocks 1]))"
  unfolding encode_ReduceOp_def
  by (rule op_writes_nested) (auto intro!: fields_intros simp: op_simps assms)

lemma RemFOp_wire:
  "op_writes v Q (encode_RemFOp result_type lhs rhs)
    (RawOp 89 ([FTypeId result_type, FVal (value_id lhs), FVal (value_id rhs)]))"
  unfolding encode_RemFOp_def
  by (rule op_writes_one) (auto intro!: fields_intros simp: op_simps)

lemma RemIOp_wire:
  "op_writes v Q (encode_RemIOp result_type lhs rhs signedness)
    (RawOp 90 ([FTypeId result_type, FEnum (signedness_bytes signedness), FVal (value_id lhs), FVal
      (value_id rhs)]))"
  unfolding encode_RemIOp_def
  by (rule op_writes_one) (auto intro!: fields_intros simp: op_simps)

lemma ReshapeOp_wire:
  "op_writes v Q (encode_ReshapeOp result_type source)
    (RawOp 91 ([FTypeId result_type, FVal (value_id source)]))"
  unfolding encode_ReshapeOp_def
  by (rule op_writes_one) (auto intro!: fields_intros simp: op_simps)

lemma ReturnOp_wire:
  "op_writes v Q (encode_ReturnOp operands)
    (RawOp 92 ([FTypeIds [], FVals (List.map value_id operands)]))"
  unfolding encode_ReturnOp_def
  by (rule op_writes_many) (auto intro!: fields_intros simp: op_simps)

lemma RsqrtOp_wire:
  "op_writes v Q (encode_RsqrtOp result_type source flush_to_zero)
    (RawOp 93 ([FTypeId result_type, FFlags (pybool flush_to_zero), FVal (value_id source)]))"
  unfolding encode_RsqrtOp_def
  by (rule op_writes_one) (auto intro!: fields_intros simp: op_simps)

lemma ScanOp_wire:
  assumes "\<And>tys. Q tys \<Longrightarrow> attrs_typed tys identities"
  shows "op_writes v Q (encode_ScanOp result_types operands dim reverse identities)
    (RawOp 94 (([FTypeIds result_types, FInt dim, FBool reverse, FAttrs (wire_attrs identities),
      FVals (List.map value_id operands)]) @ [FBlocks 1]))"
  unfolding encode_ScanOp_def
  by (rule op_writes_nested) (auto intro!: fields_intros simp: op_simps assms)

lemma SelectOp_wire:
  "op_writes v Q (encode_SelectOp result_type cond val_if_true val_if_false)
    (RawOp 95 ([FTypeId result_type, FVal (value_id cond), FVal (value_id val_if_true), FVal
      (value_id val_if_false)]))"
  unfolding encode_SelectOp_def
  by (rule op_writes_one) (auto intro!: fields_intros simp: op_simps)

lemma ShLIOp_wire:
  "op_writes v Q (encode_ShLIOp result_type lhs rhs overflow)
    (RawOp 96 ([FTypeId result_type, FEnum (integer_overflow_bytes overflow), FVal (value_id lhs),
      FVal (value_id rhs)]))"
  unfolding encode_ShLIOp_def
  by (rule op_writes_one) (auto intro!: fields_intros simp: op_simps)

lemma ShRIOp_wire:
  "op_writes v Q (encode_ShRIOp result_type lhs rhs signedness)
    (RawOp 97 ([FTypeId result_type, FEnum (signedness_bytes signedness), FVal (value_id lhs), FVal
      (value_id rhs)]))"
  unfolding encode_ShRIOp_def
  by (rule op_writes_one) (auto intro!: fields_intros simp: op_simps)

lemma SinHOp_wire:
  "op_writes v Q (encode_SinHOp result_type source)
    (RawOp 99 ([FTypeId result_type, FVal (value_id source)]))"
  unfolding encode_SinHOp_def
  by (rule op_writes_one) (auto intro!: fields_intros simp: op_simps)

lemma SinOp_wire:
  "op_writes v Q (encode_SinOp result_type source)
    (RawOp 98 ([FTypeId result_type, FVal (value_id source)]))"
  unfolding encode_SinOp_def
  by (rule op_writes_one) (auto intro!: fields_intros simp: op_simps)

lemma SqrtOp_wire:
  "op_writes v Q (encode_SqrtOp result_type source rounding_mode flush_to_zero)
    (RawOp 100 ([FTypeId result_type, FFlags (pybool flush_to_zero), FEnum (rounding_mode_bytes
      rounding_mode), FVal (value_id source)]))"
  unfolding encode_SqrtOp_def
  by (rule op_writes_one) (auto intro!: fields_intros simp: op_simps)

lemma StorePtrTkoOp_wire:
  assumes "\<And>tys. Q tys \<Longrightarrow> pred_option (items_typed tys) optimization_hints"
  shows "op_writes v Q (encode_StorePtrTkoOp result_token_type destination value' mask' token memory_ordering_semantics
      memory_scope optimization_hints)
    (RawOp 101 ([FTypeId result_token_type, FFlags (or (or (or (pybool (memory_scope \<noteq> None))
      (push_bit 1 (pybool (optimization_hints \<noteq> None)))) (push_bit 2 (pybool (mask' \<noteq> None))))
      (push_bit 3 (pybool (token \<noteq> None)))), FEnum (memory_ordering_semantics_bytes
      memory_ordering_semantics), fopt (\<lambda>memory_scope. FEnum (memory_scope_bytes memory_scope))
      memory_scope, fopt (\<lambda>optimization_hints. FHints (wire_items optimization_hints))
      optimization_hints, FVal (value_id destination), FVal (value_id value'), fopt (\<lambda>v. FVal
      (value_id v)) mask', fopt (\<lambda>v. FVal (value_id v)) token]))"
  unfolding encode_StorePtrTkoOp_def
  by (rule op_writes_one) (auto intro!: fields_intros simp: op_simps assms)

lemma StoreViewTkoOp_wire:
  assumes "\<And>tys. Q tys \<Longrightarrow> pred_option (items_typed tys) optimization_hints"
  shows "op_writes v Q (encode_StoreViewTkoOp result_token_type tile' view index token memory_ordering_semantics
      memory_scope optimization_hints inbounds)
    (RawOp 102 (FTypeIds [result_token_type] # FFlags (or (or (pybool (memory_scope \<noteq> None))
      (push_bit 1 (pybool (optimization_hints \<noteq> None)))) (push_bit 2 (pybool (token \<noteq> None)))) #
      FEnum (memory_ordering_semantics_bytes memory_ordering_semantics) # fopt
      (\<lambda>memory_scope. FEnum (memory_scope_bytes memory_scope)) memory_scope # fopt
      (\<lambda>optimization_hints. FHints (wire_items optimization_hints)) optimization_hints # (if
      V_13_4 \<le> v then [FBools inbounds] else []) @ [FVal (value_id tile'), FVal (value_id view),
      FVals (List.map value_id index), fopt (\<lambda>v. FVal (value_id v)) token]))"
  unfolding encode_StoreViewTkoOp_def
  by (rule op_writes_one) (auto intro!: fields_intros simp: op_simps assms)

lemma SubFOp_wire:
  "op_writes v Q (encode_SubFOp result_type lhs rhs rounding_mode flush_to_zero)
    (RawOp 103 ([FTypeId result_type, FFlags (pybool flush_to_zero), FEnum (rounding_mode_bytes
      rounding_mode), FVal (value_id lhs), FVal (value_id rhs)]))"
  unfolding encode_SubFOp_def
  by (rule op_writes_one) (auto intro!: fields_intros simp: op_simps)

lemma SubIOp_wire:
  "op_writes v Q (encode_SubIOp result_type lhs rhs overflow)
    (RawOp 104 ([FTypeId result_type, FEnum (integer_overflow_bytes overflow), FVal (value_id lhs),
      FVal (value_id rhs)]))"
  unfolding encode_SubIOp_def
  by (rule op_writes_one) (auto intro!: fields_intros simp: op_simps)

lemma TanHOp_wire:
  "op_writes v Q (encode_TanHOp result_type source rounding_mode)
    (RawOp 106 (FTypeId result_type # (if V_13_2 \<le> v then [FEnum (rounding_mode_bytes
      rounding_mode)] else []) @ [FVal (value_id source)]))"
  unfolding encode_TanHOp_def
  by (rule op_writes_one) (auto intro!: fields_intros simp: op_simps)

lemma TanOp_wire:
  "op_writes v Q (encode_TanOp result_type source)
    (RawOp 105 ([FTypeId result_type, FVal (value_id source)]))"
  unfolding encode_TanOp_def
  by (rule op_writes_one) (auto intro!: fields_intros simp: op_simps)

lemma TruncIOp_wire:
  "op_writes v Q (encode_TruncIOp to_type from' overflow)
    (RawOp 107 ([FTypeId to_type, FEnum (integer_overflow_bytes overflow), FVal (value_id from')]))"
  unfolding encode_TruncIOp_def
  by (rule op_writes_one) (auto intro!: fields_intros simp: op_simps)

lemma UnpackOp_wire:
  "op_writes v Q (encode_UnpackOp result_type source)
    (RawOp 112 ([FTypeId result_type, FVal (value_id source)]))"
  unfolding encode_UnpackOp_def
  by (rule op_writes_one) (auto intro!: fields_intros simp: op_simps)

lemma XOrIOp_wire:
  "op_writes v Q (encode_XOrIOp result_type lhs rhs)
    (RawOp 108 ([FTypeId result_type, FVal (value_id lhs), FVal (value_id rhs)]))"
  unfolding encode_XOrIOp_def
  by (rule op_writes_one) (auto intro!: fields_intros simp: op_simps)

lemma YieldOp_wire:
  "op_writes v Q (encode_YieldOp operands)
    (RawOp 109 ([FTypeIds [], FVals (List.map value_id operands)]))"
  unfolding encode_YieldOp_def
  by (rule op_writes_many) (auto intro!: fields_intros simp: op_simps)

lemma PreviewCallOp_wire:
  assumes "\<And>tys. Q tys \<Longrightarrow> attrs_typed tys const_args"
    and "\<And>tys. Q tys \<Longrightarrow> pred_option (attrs_typed tys) arg_attrs"
    and "\<And>tys. Q tys \<Longrightarrow> pred_option (attrs_typed tys) res_attrs"
  shows "op_writes v Q (encode_PreviewCallOp result_types operands callee const_args arg_attrs res_attrs)
    (RawOp 16386 ([FTypeIds result_types, FFlags (or (pybool (arg_attrs \<noteq> None)) (push_bit 1 (pybool
      (res_attrs \<noteq> None)))), FStr (utf8 callee), FAttrs (wire_attrs const_args), fopt
      (\<lambda>arg_attrs. FAttrs (wire_attrs arg_attrs)) arg_attrs, fopt (\<lambda>res_attrs. FAttrs
      (wire_attrs res_attrs)) res_attrs, FVals (List.map value_id operands)]))"
  unfolding encode_PreviewCallOp_def
  by (rule op_writes_many) (auto intro!: fields_intros simp: op_simps assms)

section \<open>All encoders\<close>

text \<open>
  \<open>op_call v Q m raw\<close>: \<open>m\<close> is a call of one of the encoders and \<open>raw\<close> the instruction
  it stands for under version \<open>v\<close>; \<open>Q\<close> is what the type table must satisfy for the
  attributes of the call (the width of its floats).
\<close>

inductive op_call :: "bytecode_version \<Rightarrow> (bytes list \<Rightarrow> bool) \<Rightarrow> op_result cb \<Rightarrow> raw_op \<Rightarrow> bool"
  for v Q where
call_AbsFOp:
    "op_call v Q (encode_AbsFOp result_type source)
    (RawOp 0 ([FTypeId result_type, FVal (value_id source)]))"
| call_AbsIOp:
    "op_call v Q (encode_AbsIOp result_type source)
    (RawOp 1 ([FTypeId result_type, FVal (value_id source)]))"
| call_AddFOp:
    "op_call v Q (encode_AddFOp result_type lhs rhs rounding_mode flush_to_zero)
    (RawOp 2 ([FTypeId result_type, FFlags (pybool flush_to_zero), FEnum (rounding_mode_bytes
      rounding_mode), FVal (value_id lhs), FVal (value_id rhs)]))"
| call_AddIOp:
    "op_call v Q (encode_AddIOp result_type lhs rhs overflow)
    (RawOp 3 ([FTypeId result_type, FEnum (integer_overflow_bytes overflow), FVal (value_id lhs),
      FVal (value_id rhs)]))"
| call_AllocaOp:
    "op_call v Q (encode_AllocaOp result_type num_elem alignment global')
    (RawOp 113 ([FTypeId result_type, FFlags (pybool global'), FInt num_elem, FInt alignment]))"
| call_AndIOp:
    "op_call v Q (encode_AndIOp result_type lhs rhs)
    (RawOp 4 ([FTypeId result_type, FVal (value_id lhs), FVal (value_id rhs)]))"
| call_AssertOp:
    "op_call v Q (encode_AssertOp condition message)
    (RawOp 5 ([FStr (utf8 message), FVal (value_id condition)]))"
| call_AssumeOp:
    "\<forall>tys. Q tys \<longrightarrow> attr_typed tys predicate \<Longrightarrow>
     op_call v Q (encode_AssumeOp result_type value' predicate)
    (RawOp 6 ([FTypeId result_type, FAttr (wire_attr predicate), FVal (value_id value')]))"
| call_Atan2Op:
    "op_call v Q (encode_Atan2Op result_type x y)
    (RawOp 110 ([FTypeId result_type, FVal (value_id x), FVal (value_id y)]))"
| call_AtomicCASTkoOp:
    "op_call v Q (encode_AtomicCASTkoOp result_type result_token_type pointers cmp val mask' token
      memory_ordering_semantics memory_scope)
    (RawOp 7 ([FTypeId result_type, FTypeId result_token_type, FFlags (or (pybool (mask' \<noteq> None))
      (push_bit 1 (pybool (token \<noteq> None)))), FEnum (memory_ordering_semantics_bytes
      memory_ordering_semantics), FEnum (memory_scope_bytes memory_scope), FVal (value_id
      pointers), FVal (value_id cmp), FVal (value_id val), fopt (\<lambda>v. FVal (value_id v)) mask',
      fopt (\<lambda>v. FVal (value_id v)) token]))"
| call_AtomicRMWTkoOp:
    "op_call v Q (encode_AtomicRMWTkoOp result_type result_token_type pointers arg mask' token
      memory_ordering_semantics memory_scope mode)
    (RawOp 8 ([FTypeId result_type, FTypeId result_token_type, FFlags (or (pybool (mask' \<noteq> None))
      (push_bit 1 (pybool (token \<noteq> None)))), FEnum (memory_ordering_semantics_bytes
      memory_ordering_semantics), FEnum (memory_scope_bytes memory_scope), FEnum
      (atomic_rmw_mode_bytes mode), FVal (value_id pointers), FVal (value_id arg), fopt
      (\<lambda>v. FVal (value_id v)) mask', fopt (\<lambda>v. FVal (value_id v)) token]))"
| call_AtomicRedViewTkoOp:
    "op_call v Q (encode_AtomicRedViewTkoOp result_token_type view index value' token memory_ordering_semantics
      memory_scope mode inbounds)
    (RawOp 117 (FTypeIds [result_token_type] # FFlags (pybool (token \<noteq> None)) # FEnum
      (memory_ordering_semantics_bytes memory_ordering_semantics) # FEnum (memory_scope_bytes
      memory_scope) # FEnum (atomic_rmw_mode_bytes mode) # (if V_13_5 \<le> v then [FBools inbounds]
      else []) @ [FVal (value_id view), FVals (List.map value_id index), FVal (value_id value'),
      fopt (\<lambda>v. FVal (value_id v)) token]))"
| call_BitcastOp:
    "op_call v Q (encode_BitcastOp result_type source)
    (RawOp 9 ([FTypeId result_type, FVal (value_id source)]))"
| call_BreakOp:
    "op_call v Q (encode_BreakOp operands)
    (RawOp 10 ([FTypeIds [], FVals (List.map value_id operands)]))"
| call_BroadcastOp:
    "op_call v Q (encode_BroadcastOp result_type source)
    (RawOp 11 ([FTypeId result_type, FVal (value_id source)]))"
| call_CatOp:
    "op_call v Q (encode_CatOp result_type lhs rhs dim)
    (RawOp 12 ([FTypeId result_type, FInt dim, FVal (value_id lhs), FVal (value_id rhs)]))"
| call_CeilOp:
    "op_call v Q (encode_CeilOp result_type source)
    (RawOp 13 ([FTypeId result_type, FVal (value_id source)]))"
| call_CmpFOp:
    "op_call v Q (encode_CmpFOp result_type lhs rhs comparison_predicate comparison_ordering)
    (RawOp 14 ([FTypeId result_type, FEnum (comparison_predicate_bytes comparison_predicate), FEnum
      (comparison_ordering_bytes comparison_ordering), FVal (value_id lhs), FVal (value_id
      rhs)]))"
| call_CmpIOp:
    "op_call v Q (encode_CmpIOp result_type lhs rhs comparison_predicate signedness)
    (RawOp 15 ([FTypeId result_type, FEnum (comparison_predicate_bytes comparison_predicate), FEnum
      (signedness_bytes signedness), FVal (value_id lhs), FVal (value_id rhs)]))"
| call_ConstantOp:
    "op_call v Q (encode_ConstantOp result_type value')
    (RawOp 16 ([FTypeId result_type, FConst value']))"
| call_ContinueOp:
    "op_call v Q (encode_ContinueOp operands)
    (RawOp 17 ([FTypeIds [], FVals (List.map value_id operands)]))"
| call_CosHOp:
    "op_call v Q (encode_CosHOp result_type source)
    (RawOp 19 ([FTypeId result_type, FVal (value_id source)]))"
| call_CosOp:
    "op_call v Q (encode_CosOp result_type source)
    (RawOp 18 ([FTypeId result_type, FVal (value_id source)]))"
| call_DivFOp:
    "op_call v Q (encode_DivFOp result_type lhs rhs rounding_mode flush_to_zero)
    (RawOp 20 ([FTypeId result_type, FFlags (pybool flush_to_zero), FEnum (rounding_mode_bytes
      rounding_mode), FVal (value_id lhs), FVal (value_id rhs)]))"
| call_DivIOp:
    "op_call v Q (encode_DivIOp result_type lhs rhs signedness rounding)
    (RawOp 21 ([FTypeId result_type, FEnum (signedness_bytes signedness), FEnum (rounding_mode_bytes
      rounding), FVal (value_id lhs), FVal (value_id rhs)]))"
| call_EntryOp:
    "\<forall>tys. Q tys \<longrightarrow> pred_option (attrs_typed tys) arg_attrs \<Longrightarrow>
     \<forall>tys. Q tys \<longrightarrow> pred_option (attrs_typed tys) res_attrs \<Longrightarrow>
     \<forall>tys. Q tys \<longrightarrow> pred_option (items_typed tys) optimization_hints \<Longrightarrow>
     op_call v Q (encode_EntryOp sym_name function_type' arg_attrs res_attrs optimization_hints)
    (RawOp 22 (([FFlags (or (or (pybool (res_attrs \<noteq> None)) (push_bit 1 (pybool (optimization_hints
      \<noteq> None)))) (push_bit 2 (pybool (arg_attrs \<noteq> None)))), FStr (utf8 sym_name), FTypeAttr
      function_type', fopt (\<lambda>arg_attrs. FAttrs (wire_attrs arg_attrs)) arg_attrs, fopt
      (\<lambda>res_attrs. FAttrs (wire_attrs res_attrs)) res_attrs, fopt (\<lambda>optimization_hints. FHints
      (wire_items optimization_hints)) optimization_hints]) @ [FBlocks 1]))"
| call_Exp2Op:
    "op_call v Q (encode_Exp2Op result_type source flush_to_zero)
    (RawOp 24 ([FTypeId result_type, FFlags (pybool flush_to_zero), FVal (value_id source)]))"
| call_ExpOp:
    "op_call v Q (encode_ExpOp result_type source rounding_mode)
    (RawOp 23 (FTypeId result_type # (if V_13_3 \<le> v then [FEnum (rounding_mode_bytes rounding_mode)]
      else []) @ [FVal (value_id source)]))"
| call_ExtIOp:
    "op_call v Q (encode_ExtIOp to_type from' signedness)
    (RawOp 37 ([FTypeId to_type, FEnum (signedness_bytes signedness), FVal (value_id from')]))"
| call_ExtractOp:
    "op_call v Q (encode_ExtractOp result_type source indices)
    (RawOp 38 ([FTypeIds [result_type], FVals (List.map value_id (source # indices))]))"
| call_FPowFOp:
    "op_call v Q (encode_FPowFOp result_type source exponent)
    (RawOp 84 ([FTypeId result_type, FVal (value_id source), FVal (value_id exponent)]))"
| call_FPowIOp:
    "op_call v Q (encode_FPowIOp result_type source exponent)
    (RawOp 121 ([FTypeId result_type, FVal (value_id source), FVal (value_id exponent)]))"
| call_FToFOp:
    "op_call v Q (encode_FToFOp to_type from' rounding_mode)
    (RawOp 42 ([FTypeId to_type, FEnum (rounding_mode_bytes rounding_mode), FVal (value_id from')]))"
| call_FToIOp:
    "op_call v Q (encode_FToIOp to_type from' signedness rounding_mode saturating)
    (RawOp 43 (FTypeId to_type # (if V_13_4 \<le> v then [FFlags (pybool saturating)] else []) @ [FEnum
      (signedness_bytes signedness), FEnum (rounding_mode_bytes rounding_mode), FVal (value_id
      from')]))"
| call_FloorOp:
    "op_call v Q (encode_FloorOp result_type source)
    (RawOp 39 ([FTypeId result_type, FVal (value_id source)]))"
| call_FmaOp:
    "op_call v Q (encode_FmaOp result_type lhs rhs acc rounding_mode flush_to_zero)
    (RawOp 40 ([FTypeId result_type, FFlags (pybool flush_to_zero), FEnum (rounding_mode_bytes
      rounding_mode), FVal (value_id lhs), FVal (value_id rhs), FVal (value_id acc)]))"
| call_ForOp:
    "op_call v Q (encode_ForOp result_types lowerBound upperBound step initValues unsignedCmp)
    (RawOp 41 ((FTypeIds result_types # (if V_13_2 \<le> v then [FFlags (pybool unsignedCmp)] else []) @
      [FVals (List.map value_id (lowerBound # upperBound # step # initValues))]) @ [FBlocks 1]))"
| call_GdcLaunchDependentsTkoOp:
    "op_call v Q (encode_GdcLaunchDependentsTkoOp result_token_type token)
    (RawOp 119 ([FTypeId result_token_type, FFlags (pybool (token \<noteq> None)), fopt (\<lambda>v. FVal (value_id
      v)) token]))"
| call_GdcWaitTkoOp:
    "op_call v Q (encode_GdcWaitTkoOp result_token_type token)
    (RawOp 120 ([FTypeId result_token_type, FFlags (pybool (token \<noteq> None)), fopt (\<lambda>v. FVal (value_id
      v)) token]))"
| call_GetGlobalOp:
    "op_call v Q (encode_GetGlobalOp result_type name)
    (RawOp 44 ([FTypeId result_type, FStr (utf8 name)]))"
| call_GetIndexSpaceShapeOp:
    "op_call v Q (encode_GetIndexSpaceShapeOp result_types src)
    (RawOp 45 ([FTypeIds result_types, FVal (value_id src)]))"
| call_GetNumTileBlocksOp:
    "op_call v Q (encode_GetNumTileBlocksOp gridSize_x_type gridSize_y_type gridSize_z_type)
    (RawOp 46 ([FTypeId gridSize_x_type, FTypeId gridSize_y_type, FTypeId gridSize_z_type]))"
| call_GetTensorShapeOp:
    "op_call v Q (encode_GetTensorShapeOp result_types src)
    (RawOp 47 ([FTypeIds result_types, FVal (value_id src)]))"
| call_GetTileBlockIdOp:
    "op_call v Q (encode_GetTileBlockIdOp blockId_x_type blockId_y_type blockId_z_type)
    (RawOp 48 ([FTypeId blockId_x_type, FTypeId blockId_y_type, FTypeId blockId_z_type]))"
| call_GlobalOp:
    "op_call v Q (encode_GlobalOp sym_name value' alignment constant symbol_visibility)
    (RawOp 49 ((if V_13_3 \<le> v then [FFlags (pybool constant)] else []) @ FStr (utf8 sym_name) #
      FConst value' # FInt alignment # (if V_13_3 \<le> v then [FEnum (symbol_visibility_bytes
      symbol_visibility)] else [])))"
| call_IToFOp:
    "op_call v Q (encode_IToFOp to_type from' signedness rounding_mode)
    (RawOp 59 ([FTypeId to_type, FEnum (signedness_bytes signedness), FEnum (rounding_mode_bytes
      rounding_mode), FVal (value_id from')]))"
| call_IfOp:
    "op_call v Q (encode_IfOp result_types condition)
    (RawOp 50 (([FTypeIds result_types, FVal (value_id condition)]) @ [FBlocks 2]))"
| call_InsertOp:
    "op_call v Q (encode_InsertOp result_type source destination indices)
    (RawOp 118 ([FTypeIds [result_type], FVals (List.map value_id (source # destination #
      indices))]))"
| call_IntToPtrOp:
    "op_call v Q (encode_IntToPtrOp result_type source)
    (RawOp 51 ([FTypeId result_type, FVal (value_id source)]))"
| call_IotaOp:
    "op_call v Q (encode_IotaOp result_type)
    (RawOp 58 ([FTypeId result_type]))"
| call_JoinTokensOp:
    "op_call v Q (encode_JoinTokensOp result_type tokens)
    (RawOp 60 ([FTypeIds [result_type], FVals (List.map value_id tokens)]))"
| call_LoadPtrTkoOp:
    "\<forall>tys. Q tys \<longrightarrow> pred_option (items_typed tys) optimization_hints \<Longrightarrow>
     op_call v Q (encode_LoadPtrTkoOp result_type result_token_type source mask' paddingValue token
      memory_ordering_semantics memory_scope optimization_hints)
    (RawOp 61 ([FTypeId result_type, FTypeId result_token_type, FFlags (or (or (or (or (pybool
      (memory_scope \<noteq> None)) (push_bit 1 (pybool (optimization_hints \<noteq> None)))) (push_bit 2
      (pybool (mask' \<noteq> None)))) (push_bit 3 (pybool (paddingValue \<noteq> None)))) (push_bit 4 (pybool
      (token \<noteq> None)))), FEnum (memory_ordering_semantics_bytes memory_ordering_semantics), fopt
      (\<lambda>memory_scope. FEnum (memory_scope_bytes memory_scope)) memory_scope, fopt
      (\<lambda>optimization_hints. FHints (wire_items optimization_hints)) optimization_hints, FVal
      (value_id source), fopt (\<lambda>v. FVal (value_id v)) mask', fopt (\<lambda>v. FVal (value_id v))
      paddingValue, fopt (\<lambda>v. FVal (value_id v)) token]))"
| call_LoadViewTkoOp:
    "\<forall>tys. Q tys \<longrightarrow> pred_option (items_typed tys) optimization_hints \<Longrightarrow>
     op_call v Q (encode_LoadViewTkoOp tile_type result_token_type view index token memory_ordering_semantics
      memory_scope optimization_hints inbounds)
    (RawOp 62 (FTypeIds [tile_type, result_token_type] # FFlags (or (or (pybool (memory_scope
      \<noteq> None)) (push_bit 1 (pybool (optimization_hints \<noteq> None)))) (push_bit 2 (pybool (token
      \<noteq> None)))) # FEnum (memory_ordering_semantics_bytes memory_ordering_semantics) # fopt
      (\<lambda>memory_scope. FEnum (memory_scope_bytes memory_scope)) memory_scope # fopt
      (\<lambda>optimization_hints. FHints (wire_items optimization_hints)) optimization_hints # (if
      V_13_4 \<le> v then [FBools inbounds] else []) @ [FVal (value_id view), FVals (List.map
      value_id index), fopt (\<lambda>v. FVal (value_id v)) token]))"
| call_Log2Op:
    "op_call v Q (encode_Log2Op result_type source)
    (RawOp 64 ([FTypeId result_type, FVal (value_id source)]))"
| call_LogOp:
    "op_call v Q (encode_LogOp result_type source)
    (RawOp 63 ([FTypeId result_type, FVal (value_id source)]))"
| call_LoopOp:
    "op_call v Q (encode_LoopOp result_types initValues)
    (RawOp 65 (([FTypeIds result_types, FVals (List.map value_id initValues)]) @ [FBlocks 1]))"
| call_MakeGatherScatterViewOp:
    "op_call v Q (encode_MakeGatherScatterViewOp result_type tensor_view')
    (RawOp 115 ([FTypeId result_type, FVal (value_id tensor_view')]))"
| call_MakePartitionViewOp:
    "op_call v Q (encode_MakePartitionViewOp result_type tensor_view')
    (RawOp 66 ([FTypeId result_type, FVal (value_id tensor_view')]))"
| call_MakeStridedViewOp:
    "op_call v Q (encode_MakeStridedViewOp result_type tensor_view')
    (RawOp 116 ([FTypeId result_type, FVal (value_id tensor_view')]))"
| call_MakeTensorViewOp:
    "op_call v Q (encode_MakeTensorViewOp result_type base dynamicShape dynamicStrides)
    (RawOp 67 ([FTypeIds [result_type], FVal (value_id base), FVals (List.map value_id
      dynamicShape), FVals (List.map value_id dynamicStrides)]))"
| call_MakeTokenOp:
    "op_call v Q (encode_MakeTokenOp result_type)
    (RawOp 68 ([FTypeId result_type]))"
| call_MaxFOp:
    "op_call v Q (encode_MaxFOp result_type lhs rhs propagate_nan flush_to_zero)
    (RawOp 69 ([FTypeId result_type, FFlags (or (pybool propagate_nan) (push_bit 1 (pybool
      flush_to_zero))), FVal (value_id lhs), FVal (value_id rhs)]))"
| call_MaxIOp:
    "op_call v Q (encode_MaxIOp result_type lhs rhs signedness)
    (RawOp 70 ([FTypeId result_type, FEnum (signedness_bytes signedness), FVal (value_id lhs), FVal
      (value_id rhs)]))"
| call_MemoryFenceAliasTkoOp:
    "op_call v Q (encode_MemoryFenceAliasTkoOp result_token_type token)
    (RawOp 122 ([FTypeId result_token_type, FVal (value_id token)]))"
| call_MinFOp:
    "op_call v Q (encode_MinFOp result_type lhs rhs propagate_nan flush_to_zero)
    (RawOp 71 ([FTypeId result_type, FFlags (or (pybool propagate_nan) (push_bit 1 (pybool
      flush_to_zero))), FVal (value_id lhs), FVal (value_id rhs)]))"
| call_MinIOp:
    "op_call v Q (encode_MinIOp result_type lhs rhs signedness)
    (RawOp 72 ([FTypeId result_type, FEnum (signedness_bytes signedness), FVal (value_id lhs), FVal
      (value_id rhs)]))"
| call_MmaFOp:
    "op_call v Q (encode_MmaFOp result_type lhs rhs acc fast_acc)
    (RawOp 73 (FTypeId result_type # (if V_13_3 \<le> v then [FFlags (pybool fast_acc)] else []) @ [FVal
      (value_id lhs), FVal (value_id rhs), FVal (value_id acc)]))"
| call_MmaFScaledOp:
    "op_call v Q (encode_MmaFScaledOp result_type lhs rhs acc lhs_scale rhs_scale)
    (RawOp 114 ([FTypeId result_type, FVal (value_id lhs), FVal (value_id rhs), FVal (value_id acc),
      FVal (value_id lhs_scale), FVal (value_id rhs_scale)]))"
| call_MmaIOp:
    "op_call v Q (encode_MmaIOp result_type lhs rhs acc signedness_lhs signedness_rhs)
    (RawOp 74 ([FTypeId result_type, FEnum (signedness_bytes signedness_lhs), FEnum
      (signedness_bytes signedness_rhs), FVal (value_id lhs), FVal (value_id rhs), FVal
      (value_id acc)]))"
| call_ModuleOp:
    "op_call v Q (encode_ModuleOp sym_name producer)
    (RawOp 75 (((if V_13_3 \<le> v then [FFlags (pybool (producer \<noteq> None))] else []) @ [FStr (utf8
      sym_name), fopt (\<lambda>producer. FStr (utf8 producer)) producer]) @ [FBlocks 1]))"
| call_MulFOp:
    "op_call v Q (encode_MulFOp result_type lhs rhs rounding_mode flush_to_zero)
    (RawOp 76 ([FTypeId result_type, FFlags (pybool flush_to_zero), FEnum (rounding_mode_bytes
      rounding_mode), FVal (value_id lhs), FVal (value_id rhs)]))"
| call_MulIOp:
    "op_call v Q (encode_MulIOp result_type lhs rhs overflow)
    (RawOp 78 ([FTypeId result_type, FEnum (integer_overflow_bytes overflow), FVal (value_id lhs),
      FVal (value_id rhs)]))"
| call_MulhiIOp:
    "op_call v Q (encode_MulhiIOp result_type x y)
    (RawOp 77 ([FTypeId result_type, FVal (value_id x), FVal (value_id y)]))"
| call_MultimemLoadReduceViewTkoOp:
    "op_call v Q (encode_MultimemLoadReduceViewTkoOp reduced_values_type result_token_type view index token
      memory_ordering_semantics memory_scope reduction inbounds)
    (RawOp 123 ([FTypeIds [reduced_values_type, result_token_type], FFlags (or (pybool (memory_scope
      \<noteq> None)) (push_bit 1 (pybool (token \<noteq> None)))), FEnum (memory_ordering_semantics_bytes
      memory_ordering_semantics), fopt (\<lambda>memory_scope. FEnum (memory_scope_bytes memory_scope))
      memory_scope, FEnum (multimem_reduction_kind_bytes reduction), FBools inbounds, FVal
      (value_id view), FVals (List.map value_id index), fopt (\<lambda>v. FVal (value_id v)) token]))"
| call_MultimemReduceViewTkoOp:
    "op_call v Q (encode_MultimemReduceViewTkoOp result_token_type view tile' index token
      memory_ordering_semantics memory_scope reduction inbounds)
    (RawOp 124 ([FTypeIds [result_token_type], FFlags (pybool (token \<noteq> None)), FEnum
      (memory_ordering_semantics_bytes memory_ordering_semantics), FEnum (memory_scope_bytes
      memory_scope), FEnum (multimem_reduction_kind_bytes reduction), FBools inbounds, FVal
      (value_id view), FVal (value_id tile'), FVals (List.map value_id index), fopt (\<lambda>v. FVal
      (value_id v)) token]))"
| call_MultimemStoreViewTkoOp:
    "op_call v Q (encode_MultimemStoreViewTkoOp result_token_type view tile' index token
      memory_ordering_semantics memory_scope inbounds)
    (RawOp 125 ([FTypeIds [result_token_type], FFlags (or (pybool (memory_scope \<noteq> None)) (push_bit 1
      (pybool (token \<noteq> None)))), FEnum (memory_ordering_semantics_bytes
      memory_ordering_semantics), fopt (\<lambda>memory_scope. FEnum (memory_scope_bytes memory_scope))
      memory_scope, FBools inbounds, FVal (value_id view), FVal (value_id tile'), FVals
      (List.map value_id index), fopt (\<lambda>v. FVal (value_id v)) token]))"
| call_NegFOp:
    "op_call v Q (encode_NegFOp result_type source)
    (RawOp 79 ([FTypeId result_type, FVal (value_id source)]))"
| call_NegIOp:
    "op_call v Q (encode_NegIOp result_type source overflow)
    (RawOp 80 (FTypeId result_type # (if V_13_2 \<le> v then [FEnum (integer_overflow_bytes overflow)]
      else []) @ [FVal (value_id source)]))"
| call_OffsetOp:
    "op_call v Q (encode_OffsetOp result_type ptr offset)
    (RawOp 81 ([FTypeId result_type, FVal (value_id ptr), FVal (value_id offset)]))"
| call_OrIOp:
    "op_call v Q (encode_OrIOp result_type lhs rhs)
    (RawOp 82 ([FTypeId result_type, FVal (value_id lhs), FVal (value_id rhs)]))"
| call_PackOp:
    "op_call v Q (encode_PackOp result_type source)
    (RawOp 111 ([FTypeId result_type, FVal (value_id source)]))"
| call_PermuteOp:
    "op_call v Q (encode_PermuteOp result_type source permutation)
    (RawOp 83 ([FTypeId result_type, FInts permutation, FVal (value_id source)]))"
| call_PrintTkoOp:
    "op_call v Q (encode_PrintTkoOp result_token_type args token str')
    (RawOp 85 (FTypeIds (if V_13_2 \<le> v then [the result_token_type] else []) # (if V_13_2 \<le> v then
      [FFlags (pybool (token \<noteq> None))] else []) @ [FStr (utf8 str'), FVals (List.map value_id
      args), fopt (\<lambda>v. FVal (value_id v)) token]))"
| call_PtrToIntOp:
    "op_call v Q (encode_PtrToIntOp result_type source)
    (RawOp 86 ([FTypeId result_type, FVal (value_id source)]))"
| call_PtrToPtrOp:
    "op_call v Q (encode_PtrToPtrOp result_type source)
    (RawOp 87 ([FTypeId result_type, FVal (value_id source)]))"
| call_ReduceOp:
    "\<forall>tys. Q tys \<longrightarrow> attrs_typed tys identities \<Longrightarrow>
     op_call v Q (encode_ReduceOp result_types operands dim identities)
    (RawOp 88 (([FTypeIds result_types, FInt dim, FAttrs (wire_attrs identities), FVals (List.map
      value_id operands)]) @ [FBlocks 1]))"
| call_RemFOp:
    "op_call v Q (encode_RemFOp result_type lhs rhs)
    (RawOp 89 ([FTypeId result_type, FVal (value_id lhs), FVal (value_id rhs)]))"
| call_RemIOp:
    "op_call v Q (encode_RemIOp result_type lhs rhs signedness)
    (RawOp 90 ([FTypeId result_type, FEnum (signedness_bytes signedness), FVal (value_id lhs), FVal
      (value_id rhs)]))"
| call_ReshapeOp:
    "op_call v Q (encode_ReshapeOp result_type source)
    (RawOp 91 ([FTypeId result_type, FVal (value_id source)]))"
| call_ReturnOp:
    "op_call v Q (encode_ReturnOp operands)
    (RawOp 92 ([FTypeIds [], FVals (List.map value_id operands)]))"
| call_RsqrtOp:
    "op_call v Q (encode_RsqrtOp result_type source flush_to_zero)
    (RawOp 93 ([FTypeId result_type, FFlags (pybool flush_to_zero), FVal (value_id source)]))"
| call_ScanOp:
    "\<forall>tys. Q tys \<longrightarrow> attrs_typed tys identities \<Longrightarrow>
     op_call v Q (encode_ScanOp result_types operands dim reverse identities)
    (RawOp 94 (([FTypeIds result_types, FInt dim, FBool reverse, FAttrs (wire_attrs identities),
      FVals (List.map value_id operands)]) @ [FBlocks 1]))"
| call_SelectOp:
    "op_call v Q (encode_SelectOp result_type cond val_if_true val_if_false)
    (RawOp 95 ([FTypeId result_type, FVal (value_id cond), FVal (value_id val_if_true), FVal
      (value_id val_if_false)]))"
| call_ShLIOp:
    "op_call v Q (encode_ShLIOp result_type lhs rhs overflow)
    (RawOp 96 ([FTypeId result_type, FEnum (integer_overflow_bytes overflow), FVal (value_id lhs),
      FVal (value_id rhs)]))"
| call_ShRIOp:
    "op_call v Q (encode_ShRIOp result_type lhs rhs signedness)
    (RawOp 97 ([FTypeId result_type, FEnum (signedness_bytes signedness), FVal (value_id lhs), FVal
      (value_id rhs)]))"
| call_SinHOp:
    "op_call v Q (encode_SinHOp result_type source)
    (RawOp 99 ([FTypeId result_type, FVal (value_id source)]))"
| call_SinOp:
    "op_call v Q (encode_SinOp result_type source)
    (RawOp 98 ([FTypeId result_type, FVal (value_id source)]))"
| call_SqrtOp:
    "op_call v Q (encode_SqrtOp result_type source rounding_mode flush_to_zero)
    (RawOp 100 ([FTypeId result_type, FFlags (pybool flush_to_zero), FEnum (rounding_mode_bytes
      rounding_mode), FVal (value_id source)]))"
| call_StorePtrTkoOp:
    "\<forall>tys. Q tys \<longrightarrow> pred_option (items_typed tys) optimization_hints \<Longrightarrow>
     op_call v Q (encode_StorePtrTkoOp result_token_type destination value' mask' token memory_ordering_semantics
      memory_scope optimization_hints)
    (RawOp 101 ([FTypeId result_token_type, FFlags (or (or (or (pybool (memory_scope \<noteq> None))
      (push_bit 1 (pybool (optimization_hints \<noteq> None)))) (push_bit 2 (pybool (mask' \<noteq> None))))
      (push_bit 3 (pybool (token \<noteq> None)))), FEnum (memory_ordering_semantics_bytes
      memory_ordering_semantics), fopt (\<lambda>memory_scope. FEnum (memory_scope_bytes memory_scope))
      memory_scope, fopt (\<lambda>optimization_hints. FHints (wire_items optimization_hints))
      optimization_hints, FVal (value_id destination), FVal (value_id value'), fopt (\<lambda>v. FVal
      (value_id v)) mask', fopt (\<lambda>v. FVal (value_id v)) token]))"
| call_StoreViewTkoOp:
    "\<forall>tys. Q tys \<longrightarrow> pred_option (items_typed tys) optimization_hints \<Longrightarrow>
     op_call v Q (encode_StoreViewTkoOp result_token_type tile' view index token memory_ordering_semantics
      memory_scope optimization_hints inbounds)
    (RawOp 102 (FTypeIds [result_token_type] # FFlags (or (or (pybool (memory_scope \<noteq> None))
      (push_bit 1 (pybool (optimization_hints \<noteq> None)))) (push_bit 2 (pybool (token \<noteq> None)))) #
      FEnum (memory_ordering_semantics_bytes memory_ordering_semantics) # fopt
      (\<lambda>memory_scope. FEnum (memory_scope_bytes memory_scope)) memory_scope # fopt
      (\<lambda>optimization_hints. FHints (wire_items optimization_hints)) optimization_hints # (if
      V_13_4 \<le> v then [FBools inbounds] else []) @ [FVal (value_id tile'), FVal (value_id view),
      FVals (List.map value_id index), fopt (\<lambda>v. FVal (value_id v)) token]))"
| call_SubFOp:
    "op_call v Q (encode_SubFOp result_type lhs rhs rounding_mode flush_to_zero)
    (RawOp 103 ([FTypeId result_type, FFlags (pybool flush_to_zero), FEnum (rounding_mode_bytes
      rounding_mode), FVal (value_id lhs), FVal (value_id rhs)]))"
| call_SubIOp:
    "op_call v Q (encode_SubIOp result_type lhs rhs overflow)
    (RawOp 104 ([FTypeId result_type, FEnum (integer_overflow_bytes overflow), FVal (value_id lhs),
      FVal (value_id rhs)]))"
| call_TanHOp:
    "op_call v Q (encode_TanHOp result_type source rounding_mode)
    (RawOp 106 (FTypeId result_type # (if V_13_2 \<le> v then [FEnum (rounding_mode_bytes
      rounding_mode)] else []) @ [FVal (value_id source)]))"
| call_TanOp:
    "op_call v Q (encode_TanOp result_type source)
    (RawOp 105 ([FTypeId result_type, FVal (value_id source)]))"
| call_TruncIOp:
    "op_call v Q (encode_TruncIOp to_type from' overflow)
    (RawOp 107 ([FTypeId to_type, FEnum (integer_overflow_bytes overflow), FVal (value_id from')]))"
| call_UnpackOp:
    "op_call v Q (encode_UnpackOp result_type source)
    (RawOp 112 ([FTypeId result_type, FVal (value_id source)]))"
| call_XOrIOp:
    "op_call v Q (encode_XOrIOp result_type lhs rhs)
    (RawOp 108 ([FTypeId result_type, FVal (value_id lhs), FVal (value_id rhs)]))"
| call_YieldOp:
    "op_call v Q (encode_YieldOp operands)
    (RawOp 109 ([FTypeIds [], FVals (List.map value_id operands)]))"
| call_PreviewCallOp:
    "\<forall>tys. Q tys \<longrightarrow> attrs_typed tys const_args \<Longrightarrow>
     \<forall>tys. Q tys \<longrightarrow> pred_option (attrs_typed tys) arg_attrs \<Longrightarrow>
     \<forall>tys. Q tys \<longrightarrow> pred_option (attrs_typed tys) res_attrs \<Longrightarrow>
     op_call v Q (encode_PreviewCallOp result_types operands callee const_args arg_attrs res_attrs)
    (RawOp 16386 ([FTypeIds result_types, FFlags (or (pybool (arg_attrs \<noteq> None)) (push_bit 1 (pybool
      (res_attrs \<noteq> None)))), FStr (utf8 callee), FAttrs (wire_attrs const_args), fopt
      (\<lambda>arg_attrs. FAttrs (wire_attrs arg_attrs)) arg_attrs, fopt (\<lambda>res_attrs. FAttrs
      (wire_attrs res_attrs)) res_attrs, FVals (List.map value_id operands)]))"

lemmas op_wires =
  AbsFOp_wire AbsIOp_wire AddFOp_wire AddIOp_wire AllocaOp_wire AndIOp_wire AssertOp_wire
  AssumeOp_wire Atan2Op_wire AtomicCASTkoOp_wire AtomicRMWTkoOp_wire AtomicRedViewTkoOp_wire
  BitcastOp_wire BreakOp_wire BroadcastOp_wire CatOp_wire CeilOp_wire CmpFOp_wire CmpIOp_wire
  ConstantOp_wire ContinueOp_wire CosHOp_wire CosOp_wire DivFOp_wire DivIOp_wire EntryOp_wire
  Exp2Op_wire ExpOp_wire ExtIOp_wire ExtractOp_wire FPowFOp_wire FPowIOp_wire FToFOp_wire
  FToIOp_wire FloorOp_wire FmaOp_wire ForOp_wire GdcLaunchDependentsTkoOp_wire GdcWaitTkoOp_wire
  GetGlobalOp_wire GetIndexSpaceShapeOp_wire GetNumTileBlocksOp_wire GetTensorShapeOp_wire
  GetTileBlockIdOp_wire GlobalOp_wire IToFOp_wire IfOp_wire InsertOp_wire IntToPtrOp_wire
  IotaOp_wire JoinTokensOp_wire LoadPtrTkoOp_wire LoadViewTkoOp_wire Log2Op_wire LogOp_wire
  LoopOp_wire MakeGatherScatterViewOp_wire MakePartitionViewOp_wire MakeStridedViewOp_wire
  MakeTensorViewOp_wire MakeTokenOp_wire MaxFOp_wire MaxIOp_wire MemoryFenceAliasTkoOp_wire
  MinFOp_wire MinIOp_wire MmaFOp_wire MmaFScaledOp_wire MmaIOp_wire ModuleOp_wire MulFOp_wire
  MulIOp_wire MulhiIOp_wire MultimemLoadReduceViewTkoOp_wire MultimemReduceViewTkoOp_wire
  MultimemStoreViewTkoOp_wire NegFOp_wire NegIOp_wire OffsetOp_wire OrIOp_wire PackOp_wire
  PermuteOp_wire PrintTkoOp_wire PtrToIntOp_wire PtrToPtrOp_wire ReduceOp_wire RemFOp_wire
  RemIOp_wire ReshapeOp_wire ReturnOp_wire RsqrtOp_wire ScanOp_wire SelectOp_wire ShLIOp_wire
  ShRIOp_wire SinHOp_wire SinOp_wire SqrtOp_wire StorePtrTkoOp_wire StoreViewTkoOp_wire
  SubFOp_wire SubIOp_wire TanHOp_wire TanOp_wire TruncIOp_wire UnpackOp_wire XOrIOp_wire
  YieldOp_wire PreviewCallOp_wire

lemma op_call_writes: "op_call v Q m raw \<Longrightarrow> op_writes v Q m raw"
  by (induct rule: op_call.induct) (rule op_wires; blast)+

lemma opcodes_distinct: "distinct (List.map fst (instruction_table v))"
  by (simp add: instruction_table_def)

end
