(* ===== verification/BcBody.thy ===== *)
theory BcBody
  imports BcOpRoundtrip
begin

text \<open>
  Whole instruction streams: sequences of encoder calls, with the regions opened by
  \<^verbatim>\<open>new_block\<close> and the \<^verbatim>\<open>debug_attr\<close> scopes nested in them.

  \<^item> \<open>instr\<close>, \<open>block\<close>: the tree a reader recovers;
  \<^item> \<open>emits v Q s is u\<close>: client code that uses the builder as intended (it opens a block with
    \<^verbatim>\<open>with nb.new_block(...)\<close>, closes all of them, calls \<^verbatim>\<open>nb.done()\<close>) and takes the builder
    from \<open>s\<close> to \<open>u\<close> without an exception;
  \<^item> \<open>dec_instr\<close>: the reader of a tree; its fuel bounds the nesting of blocks.
\<close>

section \<open>Trees of instructions\<close>

datatype instr = Instr (instr_op: raw_op) (instr_blocks: "block list")
  and block = Block (block_args: "type_id list") (block_body: "instr list")

fun instr_depth :: "instr \<Rightarrow> nat"
  and block_depth :: "block \<Rightarrow> nat"
where
  "instr_depth (Instr raw bs) = Suc (fold max (List.map block_depth bs) 0)"
| "block_depth (Block tys is) = fold max (List.map instr_depth is) 0"

text \<open>The operations of a tree, in the order their debug attributes are recorded.\<close>

fun instr_ops :: "instr \<Rightarrow> raw_op list"
  and block_ops :: "block \<Rightarrow> raw_op list"
where
  "instr_ops (Instr raw bs) = raw # concat (List.map block_ops bs)"
| "block_ops (Block tys is) = concat (List.map instr_ops is)"

definition instrs_results :: "instr list \<Rightarrow> nat" where
  "instrs_results is = sum_list (List.map (\<lambda>i. raw_results (instr_op i)) is)"

section \<open>Using the builder\<close>

text \<open>
  Other holders of the string and constant tables (the writer, the debug table) may intern
  entries between two operations; \<open>shares s t\<close> is such a step.
\<close>

definition shares :: "code_builder \<Rightarrow> code_builder \<Rightarrow> bool" where
  "shares s t \<longleftrightarrow> cb_ok t \<and> tables_grow s t \<and>
     (\<exists>x y. t = s\<lparr>cb_string_table := x, cb_constant_table := y\<rparr>)"

inductive
  emits :: "bytecode_version \<Rightarrow> (bytes list \<Rightarrow> bool) \<Rightarrow> code_builder \<Rightarrow> instr list \<Rightarrow> code_builder \<Rightarrow> bool"
  and emits_blocks :: "bytecode_version \<Rightarrow> (bytes list \<Rightarrow> bool) \<Rightarrow> nested_block_builder \<Rightarrow> code_builder \<Rightarrow>
    block list \<Rightarrow> nested_block_builder \<Rightarrow> code_builder \<Rightarrow> bool"
  for v Q
where
  emits_Nil: "emits v Q s [] s"
| emits_op:
    "op_call v Q m raw \<Longrightarrow> m s = (Inr r, t) \<Longrightarrow> op_values r = Some vs \<Longrightarrow>
     emits v Q t is u \<Longrightarrow> emits v Q s (Instr raw [] # is) u"
| emits_nested:
    "op_call v Q m raw \<Longrightarrow> m s = (Inr (NestedResult nb), t) \<Longrightarrow>
     emits_blocks v Q nb t bs nb' t' \<Longrightarrow> nested_done nb' t' = (Inr vs, t'') \<Longrightarrow>
     emits v Q t'' is u \<Longrightarrow> emits v Q s (Instr raw bs # is) u"
| emits_debug:
    "debug_attr_enter a s = (Inr old, t) \<Longrightarrow> emits v Q t is u \<Longrightarrow>
     debug_attr_exit old u = (Inr (), w) \<Longrightarrow> emits v Q w js x \<Longrightarrow> emits v Q s (is @ js) x"
| emits_shared: "shares s t \<Longrightarrow> emits v Q t is u \<Longrightarrow> emits v Q s is u"
| emits_blocks_Nil: "emits_blocks v Q nb s [] nb s"
| emits_blocks_Cons:
    "new_block_enter nb tys s = (Inr (vals, saved), t) \<Longrightarrow> emits v Q t is u \<Longrightarrow>
     new_block_exit nb saved u = (Inr nb1, w) \<Longrightarrow> emits_blocks v Q nb1 w bs nb2 x \<Longrightarrow>
     emits_blocks v Q nb s (Block tys is # bs) nb2 x"

section \<open>The reader\<close>

definition dec_block :: "instr dec \<Rightarrow> block dec" where
  "dec_block d = dec_bind dec_byte (\<lambda>one. if one = 1 then
     dec_bind (dec_sized dec_typeid) (\<lambda>tys. dec_map (Block tys) (dec_sized d)) else dec_fail)"

primrec dec_instr :: "nat \<Rightarrow> bytecode_version \<Rightarrow> tables \<Rightarrow> instr dec" where
  "dec_instr 0 v T = dec_fail"
| "dec_instr (Suc n) v T = dec_bind (dec_op v T) (\<lambda>raw. case raw_blocks raw of
     None \<Rightarrow> dec_ret (Instr raw [])
   | Some k \<Rightarrow> dec_map (Instr raw) (dec_n (dec_block (dec_instr n v T)) (nat k)))"

section \<open>Round trip\<close>

lemma dec_n_append:
  "dec_n d (length xs) bs = Some (xs, r) \<Longrightarrow> dec_n d n r = Some (ys, rest) \<Longrightarrow>
   dec_n d (length xs + n) bs = Some (xs @ ys, rest)"
proof (induction xs arbitrary: bs)
  case (Cons x xs)
  then obtain r1 where "d bs = Some (x, r1)" "dec_n d (length xs) r1 = Some (xs, r)"
    by (auto simp: dec_map_def dec_bind_def split: option.splits)
  with Cons show ?case by simp
qed simp

definition instrs_depth :: "instr list \<Rightarrow> nat" where
  "instrs_depth is = fold max (List.map instr_depth is) 0"

definition blocks_depth :: "block list \<Rightarrow> nat" where
  "blocks_depth bs = fold max (List.map block_depth bs) 0"

lemma fold_max_le: "fold max xs a \<le> n \<longleftrightarrow> a \<le> n \<and> (\<forall>x \<in> set xs. x \<le> (n :: nat))"
  by (induction xs arbitrary: a) auto

lemma instrs_depth_le: "instrs_depth is \<le> n \<longleftrightarrow> (\<forall>i \<in> set is. instr_depth i \<le> n)"
  by (simp add: instrs_depth_def fold_max_le)

lemma blocks_depth_le: "blocks_depth bs \<le> n \<longleftrightarrow> (\<forall>b \<in> set bs. block_depth b \<le> n)"
  by (simp add: blocks_depth_def fold_max_le)

lemma depth_simps [simp]:
  "instr_depth (Instr raw bs) = Suc (blocks_depth bs)" "block_depth (Block tys is) = instrs_depth is"
  by (simp_all add: instrs_depth_def blocks_depth_def)

declare instr_depth.simps [simp del] block_depth.simps [simp del]

text \<open>What a stretch of client code does to the builder, and what the reader makes of it.\<close>

definition stream_ok ::
    "bytecode_version \<Rightarrow> (bytes list \<Rightarrow> bool) \<Rightarrow> code_builder \<Rightarrow> (nat \<Rightarrow> tables \<Rightarrow> 'x dec) \<Rightarrow> nat \<Rightarrow>
     raw_op list \<Rightarrow> 'x \<Rightarrow> code_builder \<Rightarrow> bool" where
  "stream_ok v Q s d depth ops x u \<longleftrightarrow>
     cb_ok u \<and> tables_grow s u \<and> cb_version u = v \<and> cur_debug_attr u = cur_debug_attr s \<and>
     (\<exists>as. debug_attr_per_op u = debug_attr_per_op s @ as \<and> length as = length ops) \<and>
     (\<exists>e. buf u = buf s @ e \<and> (\<forall>T rest n. later T u \<longrightarrow> Q (tab_types T) \<longrightarrow> depth \<le> n \<longrightarrow>
        d n T (e @ rest) = Some (x, rest)))"

lemma stream_ok_refl: "cb_ok s \<Longrightarrow> cb_version s = v \<Longrightarrow> stream_ok v Q s (\<lambda>n T. dec_ret x) k [] x s"
  by (simp add: stream_ok_def)

lemma stream_ok_E:
  assumes "stream_ok v Q s d k ops x u"
  obtains as e where "cb_ok u" and "tables_grow s u" and "cb_version u = v"
    and "cur_debug_attr u = cur_debug_attr s"
    and "debug_attr_per_op u = debug_attr_per_op s @ as" and "length as = length ops"
    and "buf u = buf s @ e"
    and "\<And>T rest n. later T u \<Longrightarrow> Q (tab_types T) \<Longrightarrow> k \<le> n \<Longrightarrow> d n T (e @ rest) = Some (x, rest)"
  using assms unfolding stream_ok_def by blast

lemma stream_trans:
  assumes 1: "stream_ok v Q s d1 k1 ops1 x t" and 2: "stream_ok v Q t d2 k2 ops2 y u"
    and k: "k1 \<le> k" "k2 \<le> k"
    and d: "\<And>T n bs r rest. k \<le> n \<Longrightarrow> d1 n T bs = Some (x, r) \<Longrightarrow> d2 n T r = Some (y, rest) \<Longrightarrow>
      d n T bs = Some (z, rest)"
  shows "stream_ok v Q s d k (ops1 @ ops2) z u"
proof -
  obtain as e where a: "cb_ok t" "tables_grow s t" "cb_version t = v"
    "cur_debug_attr t = cur_debug_attr s" "debug_attr_per_op t = debug_attr_per_op s @ as"
    "length as = length ops1" "buf t = buf s @ e"
    "\<And>T rest n. later T t \<Longrightarrow> Q (tab_types T) \<Longrightarrow> k1 \<le> n \<Longrightarrow> d1 n T (e @ rest) = Some (x, rest)"
    by (rule stream_ok_E [OF 1]) (rule that)
  obtain bs f where b: "cb_ok u" "tables_grow t u" "cb_version u = v"
    "cur_debug_attr u = cur_debug_attr t" "debug_attr_per_op u = debug_attr_per_op t @ bs"
    "length bs = length ops2" "buf u = buf t @ f"
    "\<And>T rest n. later T u \<Longrightarrow> Q (tab_types T) \<Longrightarrow> k2 \<le> n \<Longrightarrow> d2 n T (f @ rest) = Some (y, rest)"
    by (rule stream_ok_E [OF 2]) (rule that)
  have "d n T ((e @ f) @ rest) = Some (z, rest)"
    if T: "later T u" "Q (tab_types T)" "k \<le> n" for T rest n
  proof (rule d [OF that(3)])
    show "d1 n T ((e @ f) @ rest) = Some (x, f @ rest)"
      using a(8) [OF later_earlier [OF T(1) b(2)] T(2), of n "f @ rest"] k T(3) by simp
    show "d2 n T (f @ rest) = Some (y, rest)" using b(8) [OF T(1,2)] k T(3) by simp
  qed
  then show ?thesis unfolding stream_ok_def
    using a b tables_grow_trans [OF a(2) b(2)] by (intro conjI exI [of _ "e @ f"] exI [of _ "as @ bs"]) auto
qed

lemma stream_deeper:
  assumes "stream_ok v Q s d k ops x u"
  shows "stream_ok v Q s (\<lambda>n. d (n - 1)) (Suc k) ops x u"
proof -
  have "k \<le> n - 1" if "Suc k \<le> n" for n using that by simp
  then show ?thesis using assms unfolding stream_ok_def by blast
qed

lemma op_stream:
  assumes "op_call v Q m raw" and "cb_version s = v" and "cb_ok s" and "m s = (Inr r, t)"
  shows "stream_ok v Q s (\<lambda>n T. dec_op v T) 0 [raw] raw t" and "num_ops t = num_ops s + 1"
    and "returns raw (next_value_id s) r (next_value_id t)"
proof -
  note w = op_call_writes [OF assms(1), unfolded op_writes_def, rule_format, OF assms(2-4)]
  then obtain e where e: "buf t = buf s @ e"
    "\<forall>T rest. later T t \<longrightarrow> Q (tab_types T) \<longrightarrow> dec_op v T (e @ rest) = Some (raw, rest)" by blast
  show "stream_ok v Q s (\<lambda>n T. dec_op v T) 0 [raw] raw t"
    unfolding stream_ok_def using w e
    by (intro conjI exI [of _ e] exI [of _ "[cur_debug_attr s]"]) simp_all
  show "num_ops t = num_ops s + 1" "returns raw (next_value_id s) r (next_value_id t)"
    using w by simp_all
qed

lemma stream_same:
  assumes "cb_ok s" and "cb_version s = v" and "buf t = buf s" and "cb_string_table t = cb_string_table s"
    and "cb_constant_table t = cb_constant_table s" and "cb_version t = v"
    and "cur_debug_attr t = cur_debug_attr s" and "debug_attr_per_op t = debug_attr_per_op s"
  shows "stream_ok v Q s (\<lambda>n T. dec_ret x) k [] x t"
  using assms by (auto simp: stream_ok_def cb_ok_def tables_grow_def)

lemma nested_done_stream:
  assumes "nested_done nb s = (Inr vs, t)" and "cb_version s = v" and "cb_ok s"
  shows "stream_ok v Q s (\<lambda>n T. dec_ret ()) 0 [] () t" and "num_ops t = num_ops s"
    and "next_value_id t = next_value_id s + int (nb_num_results nb)" and "nb_num_blocks nb = 0"
    and "List.map value_id vs = [next_value_id s..next_value_id t - 1]"
proof -
  have t: "t = s\<lparr>next_value_id := next_value_id s + int (nb_num_results nb)\<rparr>"
    and nb: "nb_num_blocks nb = 0"
    and vs: "vs = List.map Value [next_value_id s..next_value_id t - 1]"
    using assms(1) by (auto simp: nested_done_def bindE_Inr_iff assertE_Inr_iff make_value_tuple_def Let_def)
  show "stream_ok v Q s (\<lambda>n T. dec_ret ()) 0 [] () t"
    by (rule stream_same) (simp_all add: t assms)
  show "num_ops t = num_ops s" "next_value_id t = next_value_id s + int (nb_num_results nb)"
    "nb_num_blocks nb = 0" "List.map value_id vs = [next_value_id s..next_value_id t - 1]"
    by (simp_all add: t nb vs)
qed

text \<open>The region of one block.\<close>

lemma on_buf_forE: "forE xs (\<lambda>x. on_buf (f x)) = on_buf (forE xs f)"
proof (induction xs)
  case Nil
  show ?case by (simp add: on_buf_def zoom_def skipE_def retE_def fun_eq_iff)
next
  case (Cons x xs)
  then show ?case
    by (auto simp: on_buf_def zoom_def bindE_def fun_eq_iff split: prod.splits sum.splits)
qed

lemma typeids_written:
  assumes "forE ts encode_typeid b = (Inr (), b')"
  shows "list_all (\<lambda>t. 0 \<le> type_id t) ts \<and> b' = b @ concat (List.map (\<lambda>t. varint (type_id t)) ts)"
  using assms by (rule forE_success) (simp add: encode_typeid_Inr_iff)

lemma new_block_enter_Inr:
  assumes "new_block_enter nb tys s = (Inr (vals, saved), t)"
  shows "0 < nb_num_blocks nb" and "list_all (\<lambda>t. 0 \<le> type_id t) tys"
    and "saved = \<lparr>orig_buf = buf s @ 1 # sized (\<lambda>t. varint (type_id t)) tys,
      orig_next_value_id = next_value_id s, orig_num_ops = num_ops s\<rparr>"
    and "t = s\<lparr>num_ops := 0, buf := [], next_value_id := next_value_id s + int (length tys)\<rparr>"
    and "List.map value_id vals = [next_value_id s..next_value_id s + int (length tys) - 1]"
proof -
  obtain b where nb: "0 < nb_num_blocks nb"
    and run: "forE tys encode_typeid (buf s @ 1 # varint (int (length tys))) = (Inr (), b)"
    and saved: "saved = \<lparr>orig_buf = b, orig_next_value_id = next_value_id s, orig_num_ops = num_ops s\<rparr>"
    and t: "t = s\<lparr>num_ops := 0, buf := [], next_value_id := next_value_id s + int (length tys)\<rparr>"
    and vals: "vals = List.map Value [next_value_id s..next_value_id s + int (length tys) - 1]"
    using assms unfolding new_block_enter_def on_buf_forE
    by (auto simp: bindE_Inr_iff assertE_Inr_iff on_buf_Inr_iff getE_def modifyE_def make_value_tuple_def Let_def)
  show "0 < nb_num_blocks nb" "list_all (\<lambda>t. 0 \<le> type_id t) tys"
    "saved = \<lparr>orig_buf = buf s @ 1 # sized (\<lambda>t. varint (type_id t)) tys,
      orig_next_value_id = next_value_id s, orig_num_ops = num_ops s\<rparr>"
    "t = s\<lparr>num_ops := 0, buf := [], next_value_id := next_value_id s + int (length tys)\<rparr>"
    "List.map value_id vals = [next_value_id s..next_value_id s + int (length tys) - 1]"
    using nb typeids_written [OF run] by (simp_all add: saved t vals sized_def)
qed

lemma new_block_exit_Inr:
  assumes "new_block_exit nb saved s = (Inr nb', t)"
  shows "0 \<le> num_ops s" and "nb' = nb\<lparr>nb_num_blocks := nb_num_blocks nb - 1\<rparr>"
    and "t = s\<lparr>next_value_id := orig_next_value_id saved, num_ops := orig_num_ops saved,
      buf := (orig_buf saved @ varint (num_ops s)) @ buf s\<rparr>"
  using assms by (auto simp: new_block_exit_def new_block_abort_def modifyE_def split: if_splits)

lemma dec_block_bytes:
  assumes "list_all (\<lambda>t. 0 \<le> type_id t) tys"
    and "dec_n d (length is) (e @ rest) = Some (is, rest)"
  shows "dec_block d ((1 # sized (\<lambda>t. varint (type_id t)) tys @ varint (int (length is)) @ e) @ rest)
    = Some (Block tys is, rest)"
  using typeid.dec_sized_enc [OF assms(1)] assms(2)
  by (simp add: dec_block_def dec_sized_def [of d] varint.dec_enc)

lemma block_stream:
  assumes enter: "new_block_enter nb tys s = (Inr (vals, saved), t)"
    and body: "stream_ok v Q t (\<lambda>n T. dec_n (dec_instr n v T) (length is)) (instrs_depth is) ops is u"
    and count: "num_ops u = num_ops t + int (length is)"
    and exit: "new_block_exit nb saved u = (Inr nb', w)"
  shows "stream_ok v Q s (\<lambda>n T. dec_block (dec_instr n v T)) (instrs_depth is) ops (Block tys is) w"
    and "num_ops w = num_ops s" and "next_value_id w = next_value_id s"
    and "nb' = nb\<lparr>nb_num_blocks := nb_num_blocks nb - 1\<rparr>"
proof -
  note en = new_block_enter_Inr [OF enter] and ex = new_block_exit_Inr [OF exit]
  obtain as e where b: "cb_ok u" "tables_grow t u" "cb_version u = v"
    "cur_debug_attr u = cur_debug_attr t" "debug_attr_per_op u = debug_attr_per_op t @ as"
    "length as = length ops" "buf u = buf t @ e"
    "\<And>T rest n. later T u \<Longrightarrow> Q (tab_types T) \<Longrightarrow> instrs_depth is \<le> n \<Longrightarrow>
      dec_n (dec_instr n v T) (length is) (e @ rest) = Some (is, rest)"
    by (rule stream_ok_E [OF body]) (rule that)
  let ?e = "1 # sized (\<lambda>t. varint (type_id t)) tys @ varint (int (length is)) @ e"
  have "num_ops u = int (length is)" using count en(4) by simp
  then have w: "w = u\<lparr>next_value_id := next_value_id s, num_ops := num_ops s, buf := buf s @ ?e\<rparr>"
    using ex(3) en(3,4) b(7) by simp
  have "dec_block (dec_instr n v T) (?e @ rest) = Some (Block tys is, rest)"
    if "later T w" "Q (tab_types T)" "instrs_depth is \<le> n" for T rest n
  proof -
    have "later T u" using that(1) by (simp add: w later_def)
    from dec_block_bytes [OF en(2) b(8) [OF this that(2,3)]] show ?thesis .
  qed
  then show "stream_ok v Q s (\<lambda>n T. dec_block (dec_instr n v T)) (instrs_depth is) ops (Block tys is) w"
    unfolding stream_ok_def using b en(4)
    by (intro conjI exI [of _ ?e] exI [of _ as]) (auto simp: w cb_ok_def tables_grow_def)
  show "num_ops w = num_ops s" "next_value_id w = next_value_id s" by (simp_all add: w)
  show "nb' = nb\<lparr>nb_num_blocks := nb_num_blocks nb - 1\<rparr>" by (rule ex(2))
qed

lemma instrs_results_simps [simp]:
  "instrs_results [] = 0" "instrs_results (i # is) = raw_results (instr_op i) + instrs_results is"
  "instrs_results (is @ js) = instrs_results is + instrs_results js"
  by (simp_all add: instrs_results_def)

lemma dec_n_one: "d bs = Some (x, r) \<Longrightarrow> dec_n d n r = Some (xs, rest) \<Longrightarrow>
    dec_n d (Suc n) bs = Some (x # xs, rest)"
  by simp

lemma fold_max_init: "fold max xs a = max a (fold max xs (0 :: nat))"
proof (induction xs arbitrary: a)
  case (Cons x xs)
  from Cons [of "max x a"] Cons [of "max x 0"] show ?case by simp
qed simp

lemma depth_Cons [simp]:
  "instrs_depth [] = 0" "blocks_depth [] = 0"
  "instrs_depth (i # is) = max (instr_depth i) (instrs_depth is)"
  "blocks_depth (b # bs) = max (block_depth b) (blocks_depth bs)"
  using fold_max_init [of "List.map instr_depth is" "instr_depth i"]
    fold_max_init [of "List.map block_depth bs" "block_depth b"]
  by (simp_all add: instrs_depth_def blocks_depth_def)

lemma instrs_depth_append [simp]: "instrs_depth (is @ js) = max (instrs_depth is) (instrs_depth js)"
  by (induction "is") simp_all

abbreviation instrs_stream ::
    "bytecode_version \<Rightarrow> (bytes list \<Rightarrow> bool) \<Rightarrow> code_builder \<Rightarrow> instr list \<Rightarrow> code_builder \<Rightarrow> bool" where
  "instrs_stream v Q s is u \<equiv> stream_ok v Q s (\<lambda>n T. dec_n (dec_instr n v T) (length is))
     (instrs_depth is) (concat (List.map instr_ops is)) is u"

abbreviation blocks_stream ::
    "bytecode_version \<Rightarrow> (bytes list \<Rightarrow> bool) \<Rightarrow> code_builder \<Rightarrow> block list \<Rightarrow> code_builder \<Rightarrow> bool" where
  "blocks_stream v Q s bs u \<equiv> stream_ok v Q s (\<lambda>n T. dec_n (dec_block (dec_instr n v T)) (length bs))
     (blocks_depth bs) (concat (List.map block_ops bs)) bs u"

lemma plain_instr_stream:
  assumes op: "stream_ok v Q s (\<lambda>n T. dec_op v T) 0 [raw] raw t" and raw: "raw_blocks raw = None"
    and rest: "instrs_stream v Q t is u"
  shows "instrs_stream v Q s (Instr raw [] # is) u"
proof -
  have "dec_n (dec_instr n v T) (length (Instr raw [] # is)) bs = Some (Instr raw [] # is, rest)"
    if "max 1 (instrs_depth is) \<le> n" "dec_op v T bs = Some (raw, r)"
      "dec_n (dec_instr n v T) (length is) r = Some (is, rest)" for T n bs r rest
  proof -
    have "n \<noteq> 0" using that(1) by simp
    then obtain m where "n = Suc m" by (rule not0_implies_Suc [THEN exE])
    then have "dec_instr n v T bs = Some (Instr raw [], r)" using that(2) raw by simp
    from dec_n_one [OF this that(3)] show ?thesis by simp
  qed
  from stream_trans [OF op rest _ _ this, of "max 1 (instrs_depth is)"] show ?thesis by simp
qed

lemma nested_instr_stream:
  assumes op: "stream_ok v Q s (\<lambda>n T. dec_op v T) 0 [raw] raw t"
    and raw: "raw_blocks raw = Some (int (length bs))"
    and blocks: "blocks_stream v Q t bs u" and rest: "instrs_stream v Q u is w"
  shows "instrs_stream v Q s (Instr raw bs # is) w"
proof -
  have one: "dec_instr n v T xs = Some (Instr raw bs, rest)"
    if "Suc (blocks_depth bs) \<le> n" "dec_op v T xs = Some (raw, r)"
      "dec_n (dec_block (dec_instr (n - 1) v T)) (length bs) r = Some (bs, rest)" for T n xs r rest
  proof -
    have "n \<noteq> 0" using that(1) by simp
    then obtain m where "n = Suc m" by (rule not0_implies_Suc [THEN exE])
    then show ?thesis using that(2,3) raw by simp
  qed
  have "stream_ok v Q s (\<lambda>n T. dec_instr n v T) (Suc (blocks_depth bs)) (instr_ops (Instr raw bs))
      (Instr raw bs) u"
    using stream_trans [OF op stream_deeper [OF blocks] _ _ one, of "Suc (blocks_depth bs)"] by simp
  from stream_trans [OF this rest _ _ dec_n_one, of "instrs_depth (Instr raw bs # is)"]
  show ?thesis by simp
qed

theorem emits_stream:
  shows "emits v Q s is u \<Longrightarrow> cb_version s = v \<Longrightarrow> cb_ok s \<Longrightarrow>
      instrs_stream v Q s is u \<and> num_ops u = num_ops s + int (length is) \<and>
      next_value_id u = next_value_id s + int (instrs_results is)"
    and "emits_blocks v Q nb s bs nb' u \<Longrightarrow> cb_version s = v \<Longrightarrow> cb_ok s \<Longrightarrow>
      blocks_stream v Q s bs u \<and> num_ops u = num_ops s \<and> next_value_id u = next_value_id s \<and>
      nb' = nb\<lparr>nb_num_blocks := nb_num_blocks nb - int (length bs)\<rparr>"
proof (induction rule: emits_emits_blocks.inducts)
  case (emits_Nil s)
  have "instrs_stream v Q s [] s"
    unfolding list.size(3) list.map(1) concat.simps dec_n.simps using emits_Nil by (intro stream_ok_refl)
  then show ?case by (simp del: dec_ret_apply)
next
  case (emits_op m raw s r t vs "is" u)
  note op = op_stream [OF emits_op(1) emits_op.prems emits_op.hyps(1)]
  have t: "cb_version t = v" "cb_ok t" using op(1) by (auto simp: stream_ok_def)
  note rest = emits_op(3) [OF t]
  have raw: "raw_blocks raw = None"
    using op(3) emits_op.hyps(2) by (auto simp: returns_def split: option.splits)
  then have "next_value_id t = next_value_id s + int (raw_results raw)"
    using op(3) by (simp add: returns_def)
  then show ?case using plain_instr_stream [OF op(1) raw] rest op(2) by simp
next
  case (emits_nested m raw s nb t bs nb' t' vs t'' "is" u)
  note op = op_stream [OF emits_nested(1) emits_nested.prems emits_nested.hyps(1)]
  have t: "cb_version t = v" "cb_ok t" using op(1) by (auto simp: stream_ok_def)
  note bl = emits_nested(3) [OF t]
  have t': "cb_version t' = v" "cb_ok t'" using bl by (auto simp: stream_ok_def)
  note dn = nested_done_stream [OF emits_nested.hyps(2) t']
  have t'': "cb_version t'' = v" "cb_ok t''" using dn(1) by (auto simp: stream_ok_def)
  note rest = emits_nested(5) [OF t'']
  obtain k where raw: "raw_blocks raw = Some k"
    using op(3) by (auto simp: returns_def split: option.splits)
  then have nb: "nb = \<lparr>nb_num_results = raw_results raw, nb_num_blocks = k\<rparr>" and nv: "next_value_id t = next_value_id s"
    using op(3) by (simp_all add: returns_def)
  have "k = int (length bs)" using bl dn(4) by (simp add: nb)
  then have k: "raw_blocks raw = Some (int (length bs))" using raw by simp
  have "blocks_stream v Q t bs t''"
    using stream_trans [OF conjunct1 [OF bl] dn(1), of "blocks_depth bs"] by simp
  then have "instrs_stream v Q s (Instr raw bs # is) u"
    using nested_instr_stream [OF op(1) k] rest by simp
  then show ?case using rest bl dn nv op(2) by (simp add: nb)
next
  case (emits_debug a s old t "is" u w js x)
  have t: "t = s\<lparr>cur_debug_attr := a\<rparr>" and old: "old = cur_debug_attr s"
    using emits_debug.hyps(1) by (auto simp: debug_attr_enter_def bindE_Inr_iff getE_def modifyE_def)
  have w: "w = u\<lparr>cur_debug_attr := old\<rparr>"
    using emits_debug.hyps(2) by (simp add: debug_attr_exit_def modifyE_def)
  have "cb_version t = v" "cb_ok t" using emits_debug.prems by (simp_all add: t cb_ok_def)
  note body = emits_debug(4) [OF this]
  have sw: "instrs_stream v Q s is w"
    using body unfolding stream_ok_def
    by (auto simp: w t old cb_ok_def tables_grow_def later_def)
  then have "cb_version w = v" "cb_ok w" by (auto simp: stream_ok_def)
  note rest = emits_debug(6) [OF this]
  have "instrs_stream v Q s (is @ js) x"
    using stream_trans [OF sw conjunct1 [OF rest] _ _ dec_n_append, of "instrs_depth (is @ js)"] by simp
  then show ?case using rest body by (simp add: w t)
next
  case (emits_shared s t "is" u)
  have t: "cb_version t = v" "cb_ok t" "num_ops t = num_ops s" "next_value_id t = next_value_id s"
    using emits_shared.hyps(1) emits_shared.prems by (auto simp: shares_def)
  note rest = emits_shared(3) [OF t(1,2)]
  have "stream_ok v Q s (\<lambda>n T. dec_ret ()) 0 [] () t"
    using emits_shared.hyps(1) emits_shared.prems by (auto simp: shares_def stream_ok_def)
  from stream_trans [OF this conjunct1 [OF rest], of "instrs_depth is"] rest t show ?case by simp
next
  case (emits_blocks_Nil nb s)
  have "blocks_stream v Q s [] s"
    unfolding list.size(3) list.map(1) concat.simps dec_n.simps using emits_blocks_Nil by (intro stream_ok_refl)
  then show ?case by (simp del: dec_ret_apply)
next
  case (emits_blocks_Cons nb tys s vals saved t "is" u nb1 w bs nb2 x)
  have "cb_version t = v" "cb_ok t"
    using new_block_enter_Inr(4) [OF emits_blocks_Cons.hyps(1)] emits_blocks_Cons.prems
    by (simp_all add: cb_ok_def)
  note body = emits_blocks_Cons(4) [OF this]
  note bl = block_stream [OF emits_blocks_Cons.hyps(1) conjunct1 [OF body]
      conjunct1 [OF conjunct2 [OF body]] emits_blocks_Cons.hyps(2)]
  have "cb_version w = v" "cb_ok w" using bl(1) by (auto simp: stream_ok_def)
  note rest = emits_blocks_Cons(6) [OF this]
  have "blocks_stream v Q s (Block tys is # bs) x"
    using stream_trans [OF bl(1) conjunct1 [OF rest] _ _ dec_n_one, of "blocks_depth (Block tys is # bs)"]
    by simp
  then show ?case using rest bl by simp
qed

section \<open>The \<^verbatim>\<open>finally\<close> clause of a block\<close>

text \<open>
  However the body of a block ends, the value counter and the operation counter of the enclosing
  region are back, and the enclosing buffer only grew; after an exception nothing of the body is
  left in it.
\<close>

lemma forE_on_buf_grows:
  assumes "\<And>x b r b'. f x b = (r, b') \<Longrightarrow> \<exists>e. b' = b @ e" and "on_buf (forE xs f) s = (r, t)"
  shows "\<exists>e. t = s\<lparr>buf := buf s @ e\<rparr>"
proof -
  have grow: "\<exists>e. b' = b @ e" if "forE xs f b = (r, b')" for b b' r
    using that
  proof (induction xs arbitrary: b)
    case (Cons x xs)
    obtain r1 b1 where f: "f x b = (r1, b1)" by (cases "f x b")
    obtain e where e: "b1 = b @ e" using assms(1) [OF f] by blast
    show ?case
    proof (cases r1)
      case (Inl y)
      then show ?thesis using Cons.prems f e by auto
    next
      case (Inr y)
      then have "forE xs f b1 = (r, b')" using Cons.prems f by simp
      from Cons.IH [OF this] show ?thesis by (auto simp: e)
    qed
  qed (simp add: skipE_def retE_def)
  obtain b' where "forE xs f (buf s) = (r, b')" and "t = s\<lparr>buf := b'\<rparr>"
    using assms(2) by (auto simp: on_buf_def zoom_def split: prod.splits)
  then show ?thesis using grow by blast
qed

lemma new_block_enter_error:
  assumes "new_block_enter nb tys s = (Inl x, t)"
  shows "\<exists>e. t = s\<lparr>buf := buf s @ e\<rparr>"
proof (cases "0 < nb_num_blocks nb")
  case False
  then have "t = s" using assms by (simp add: new_block_enter_def assertE_def bindE_def)
  then show ?thesis by (intro exI [of _ "[]"]) simp
next
  case True
  let ?b = "buf s @ 1 # varint (int (length tys))"
  let ?loop = "on_buf (forE tys encode_typeid)"
  obtain r u where loop: "?loop (s\<lparr>buf := ?b\<rparr>) = (r, u)" by (cases "?loop (s\<lparr>buf := ?b\<rparr>)")
  have grow: "\<exists>e. u = s\<lparr>buf := ?b\<rparr>\<lparr>buf := buf (s\<lparr>buf := ?b\<rparr>) @ e\<rparr>"
    by (rule forE_on_buf_grows [OF _ loop]) (auto simp: encode_typeid_def split: if_splits)
  have head: "on_buf (buf_append 1) s = (Inr (), s\<lparr>buf := buf s @ [1]\<rparr>)"
    "on_buf (encode_varint (int (length tys))) (s\<lparr>buf := buf s @ [1]\<rparr>) = (Inr (), s\<lparr>buf := ?b\<rparr>)"
    by (simp_all add: on_buf_def zoom_def buf_append_def)
  have "r = Inl x \<and> t = u"
    using assms head loop True
    by (cases r) (auto simp: new_block_enter_def on_buf_forE getE_def modifyE_def make_value_tuple_def
        bindE_def retE_def Let_def)
  then show ?thesis using grow by auto
qed

lemma new_block_state:
  assumes run: "new_block nb tys body s = (r, t)"
  shows "next_value_id t = next_value_id s \<and> num_ops t = num_ops s \<and> (\<exists>e. buf t = buf s @ e)"
proof (cases "new_block_enter nb tys s")
  case (Pair r1 u)
  show ?thesis
  proof (cases r1)
    case (Inl x)
    with new_block_enter_error Pair obtain e where "u = s\<lparr>buf := buf s @ e\<rparr>" by blast
    then show ?thesis using run Pair Inl by (auto simp: new_block_def)
  next
    case (Inr p)
    obtain vals saved where p: "p = (vals, saved)" by (cases p)
    note en = new_block_enter_Inr [OF Pair [unfolded Inr p]]
    obtain r2 w where body: "body vals u = (r2, w)" by (cases "body vals u")
    show ?thesis
    proof (cases r2)
      case (Inl x)
      then show ?thesis using run Pair Inr p body en(3)
        by (auto simp: new_block_def new_block_abort_def modifyE_def)
    next
      case Inr2: (Inr y)
      then have "new_block_exit nb saved w = (r, t)"
        using run Pair Inr p body by (simp add: new_block_def)
      then show ?thesis using en(3)
        by (auto simp: new_block_exit_def new_block_abort_def modifyE_def split: if_splits)
    qed
  qed
qed

lemma new_block_raise:
  assumes "new_block_enter nb tys s = (Inr (vals, saved), u)" and "body vals u = (Inl x, w)"
  shows "new_block nb tys body s =
    (Inl x, w\<lparr>next_value_id := next_value_id s, num_ops := num_ops s,
       buf := buf s @ 1 # sized (\<lambda>t. varint (type_id t)) tys\<rparr>)"
  using assms new_block_enter_Inr(3) [OF assms(1)]
  by (simp add: new_block_def new_block_abort_def modifyE_def)

end
