(* ===== verification/BcWriter.thy ===== *)
theory BcWriter
  imports BcBody
begin

text \<open>
  \<^verbatim>\<open>src/cuda/tile/_bytecode/writer.py\<close>: functions, globals, tables and the sections of a
  bytecode file.

  \<^item> \<open>writer\<close> holds the tables that the Python objects share by reference.  The
    \<^verbatim>\<open>CodeBuilder\<close> of a function under construction aliases the string table, the constant
    table and one list of \<^verbatim>\<open>debug_info\<close>; \<open>builder_view\<close> is that aliasing: the builder is a view
    of the writer and of the builder's own fields (\<open>func_state\<close>);
  \<^item> the \<^verbatim>\<open>@contextmanager\<close> functions take the body of their \<^verbatim>\<open>with\<close> statement as an
    argument (\<open>function_def\<close>, \<open>section_with\<close>, \<open>write_bytecode\<close>).
\<close>

section \<open>Globals\<close>

record global_section =
  gs_defined_names :: "pystr list"
  gs_contents :: bytes

definition is_defined :: "global_section \<Rightarrow> pystr \<Rightarrow> bool" where
  "is_defined g global_name = List.member (gs_defined_names g) global_name"

record writer =
  num_functions :: int
  debug_info :: "debug_attr_id list list"
  w_buf :: bytes
  w_strings :: string_table
  w_debug_attrs :: debug_attr_table
  w_constants :: constant_table
  w_types :: type_table
  w_globals :: global_section
  w_version :: bytecode_version

type_synonym 'a wr = "(writer, 'a) eff"

definition on_w_strings :: "(string_table, 'a) eff \<Rightarrow> 'a wr" where
  "on_w_strings = zoom w_strings (\<lambda>t w. w\<lparr>w_strings := t\<rparr>)"

definition on_w_constants :: "(constant_table, 'a) eff \<Rightarrow> 'a wr" where
  "on_w_constants = zoom w_constants (\<lambda>t w. w\<lparr>w_constants := t\<rparr>)"

definition on_w_types :: "(type_table, 'a) eff \<Rightarrow> 'a wr" where
  "on_w_types = zoom w_types (\<lambda>t w. w\<lparr>w_types := t\<rparr>)"

definition on_w_debug :: "(debug_state, 'a) eff \<Rightarrow> 'a wr" where
  "on_w_debug = zoom (\<lambda>w. (w_strings w, w_debug_attrs w))
     (\<lambda>t w. w\<lparr>w_strings := fst t, w_debug_attrs := snd t\<rparr>)"

definition on_w_buf :: "(bytes, 'a) eff \<Rightarrow> 'a wr" where
  "on_w_buf = zoom w_buf (\<lambda>b w. w\<lparr>w_buf := b\<rparr>)"

definition on_w_sbuf :: "(sbuf, 'a) eff \<Rightarrow> 'a wr" where
  "on_w_sbuf = zoom (\<lambda>w. (w_strings w, w_buf w)) (\<lambda>t w. w\<lparr>w_strings := fst t, w_buf := snd t\<rparr>)"

definition on_contents :: "(bytes, 'a) eff \<Rightarrow> 'a wr" where
  "on_contents = zoom (\<lambda>w. gs_contents (w_globals w))
     (\<lambda>b w. w\<lparr>w_globals := (w_globals w)\<lparr>gs_contents := b\<rparr>\<rparr>)"

definition define_global ::
    "pystr \<Rightarrow> type_id \<Rightarrow> bytes \<Rightarrow> int \<Rightarrow> bool \<Rightarrow> symbol_visibility \<Rightarrow> unit wr" where
  "define_global name type data alignment constant symbol_visibility =
     bindE (getE (\<lambda>w. is_defined (w_globals w) name)) (\<lambda>defined.
     if defined then raiseE ValueError else
     bindE (on_w_strings (intern_str name)) (\<lambda>name_id.
     seqE [on_contents (encode_varint name_id),
           on_contents (encode_typeid type),
           bindE (on_w_constants (dense_constant data)) (\<lambda>c. on_contents (encode_varint (constant_id c))),
           on_contents (encode_varint alignment),
           bindE (getE w_version) (\<lambda>version. if version \<ge> V_13_3
             then seqE [on_contents (buf_extend (symbol_visibility_bytes symbol_visibility))]
                    (on_contents (encode_varint (pybool constant)))
             else skipE)]
       (modifyE (\<lambda>w. w\<lparr>w_globals := (w_globals w)
          \<lparr>gs_defined_names := gs_defined_names (w_globals w) @ [name]\<rparr>\<rparr>))))"

section \<open>Functions\<close>

text \<open>The builder's own fields; \<open>fs_index\<close> is the list of \<^verbatim>\<open>debug_info\<close> it appends to.\<close>

record func_state =
  fs_index :: nat
  fs_buf :: bytes
  fs_next_value_id :: int
  fs_cur_debug_attr :: debug_attr_id
  fs_num_ops :: int

type_synonym 'a fn = "(writer \<times> func_state, 'a) eff"

definition builder_view :: "writer \<times> func_state \<Rightarrow> code_builder" where
  "builder_view = (\<lambda>(w, f). \<lparr>buf = fs_buf f, cb_version = w_version w, cb_string_table = w_strings w,
     cb_constant_table = w_constants w, debug_attr_per_op = debug_info w ! fs_index f,
     next_value_id = fs_next_value_id f, cur_debug_attr = fs_cur_debug_attr f, num_ops = fs_num_ops f\<rparr>)"

definition builder_put :: "code_builder \<Rightarrow> writer \<times> func_state \<Rightarrow> writer \<times> func_state" where
  "builder_put s = (\<lambda>(w, f).
     (w\<lparr>w_strings := cb_string_table s, w_constants := cb_constant_table s,
        debug_info := (debug_info w)[fs_index f := debug_attr_per_op s]\<rparr>,
      f\<lparr>fs_buf := buf s, fs_next_value_id := next_value_id s, fs_cur_debug_attr := cur_debug_attr s,
        fs_num_ops := num_ops s\<rparr>))"

definition in_builder :: "'a cb \<Rightarrow> 'a fn" where
  "in_builder = zoom builder_view builder_put"

definition in_writer :: "'a wr \<Rightarrow> 'a fn" where
  "in_writer = zoom fst (\<lambda>w s. (w, snd s))"

definition entry_flags :: "bytecode_version \<Rightarrow> bool \<Rightarrow> (pystr \<times> entry_hints) list \<Rightarrow> int" where
  "entry_flags version entry_point hints =
     (if version \<ge> V_13_5 then (if entry_point then 0x02 else 0)
      else (if entry_point then or 0x02 (if hints \<noteq> [] then 0x04 else 0) else 0))"

text \<open>The code of \<^verbatim>\<open>BytecodeWriter.function\<close> before the \<^verbatim>\<open>yield\<close>: the header of the function.\<close>

definition function_header ::
    "pystr \<Rightarrow> type_id list \<Rightarrow> type_id list \<Rightarrow> bool \<Rightarrow> (pystr \<times> entry_hints) list \<Rightarrow> debug_attr_id \<Rightarrow> unit wr" where
  "function_header name parameter_types result_types entry_point hints debug_attr =
     seqE [modifyE (\<lambda>w. w\<lparr>num_functions := num_functions w + 1\<rparr>),
           bindE (on_w_strings (intern_str name)) (\<lambda>i. on_w_buf (encode_varint i)),
           bindE (on_w_types (function_type parameter_types result_types)) (\<lambda>sig_ty.
             on_w_buf (encode_typeid sig_ty)),
           bindE (getE w_version) (\<lambda>version. on_w_buf (buf_append (entry_flags version entry_point hints))),
           modifyE (\<lambda>w. w\<lparr>debug_info := debug_info w @ [[debug_attr]]\<rparr>),
           bindE (getE (\<lambda>w. int (length (debug_info w)))) (\<lambda>n. on_w_buf (encode_varint n)),
           bindE (getE w_version) (\<lambda>version.
             if entry_point \<and> (hints \<noteq> [] \<or> version \<ge> V_13_5)
             then on_w_sbuf (encode_tagged (make_entry_hints hints)) else skipE)]
       (bindE (getE w_version) (\<lambda>version.
          if version \<ge> V_13_5 then on_w_sbuf (encode_tagged (AttributeArray [])) else skipE))"

definition new_builder :: "func_state wr" where
  "new_builder = getE (\<lambda>w. \<lparr>fs_index = length (debug_info w) - 1, fs_buf = [], fs_next_value_id = 0,
     fs_cur_debug_attr = DebugAttrId 0, fs_num_ops = 0\<rparr>)"

text \<open>\<^verbatim>\<open>with writer.function(...) as (builder, parameters): body\<close>.\<close>

definition function_def ::
    "pystr \<Rightarrow> type_id list \<Rightarrow> type_id list \<Rightarrow> bool \<Rightarrow> (pystr \<times> entry_hints) list \<Rightarrow> debug_attr_id \<Rightarrow>
     (bc_value list \<Rightarrow> unit fn) \<Rightarrow> unit wr" where
  "function_def name parameter_types result_types entry_point hints debug_attr body =
     seqE [function_header name parameter_types result_types entry_point hints debug_attr]
     (bindE new_builder (\<lambda>f w.
        case bindE (in_builder (make_value_tuple (length parameter_types))) body (w, f) of
          (Inl e, (w', f')) \<Rightarrow> (Inl e, w')
        | (Inr _, (w', f')) \<Rightarrow>
            seqE [on_w_buf (encode_varint (int (length (fs_buf f'))))]
              (on_w_buf (buf_extend (fs_buf f'))) w'))"

section \<open>Sections\<close>

datatype section_id = EndOfBytecode | StringSection | FuncSection | DebugSection | ConstantSection
  | TypeSection | GlobalSection | NumSections

fun section_value :: "section_id \<Rightarrow> int" where
  "section_value EndOfBytecode = 0x00"
| "section_value StringSection = 0x01"
| "section_value FuncSection = 0x02"
| "section_value DebugSection = 0x03"
| "section_value ConstantSection = 0x04"
| "section_value TypeSection = 0x05"
| "section_value GlobalSection = 0x06"
| "section_value NumSections = 0x07"

definition pad_to :: "int \<Rightarrow> (bytes, unit) eff" where
  "pad_to alignment = (\<lambda>b. (Inr (), b @ replicate (nat (- int (length b) mod alignment)) 0xcb))"

definition section_close :: "section_id \<Rightarrow> int \<Rightarrow> bytes \<Rightarrow> (bytes, unit) eff" where
  "section_close section_id alignment section_buf =
     seqE [buf_append (or (section_value section_id) (if alignment > 1 then 0x80 else 0)),
           encode_varint (int (length section_buf)),
           if alignment > 1 then seqE [encode_varint alignment] (pad_to alignment) else skipE]
       (buf_extend section_buf)"

definition section_with :: "section_id \<Rightarrow> int \<Rightarrow> (bytes, unit) eff \<Rightarrow> (bytes, unit) eff" where
  "section_with section_id alignment body = (\<lambda>b. case body [] of
     (Inl e, _) \<Rightarrow> (Inl e, b)
   | (Inr _, section_buf) \<Rightarrow> section_close section_id alignment section_buf b)"

definition write_header :: "bytecode_version \<Rightarrow> (bytes, unit) eff" where
  "write_header version =
     seqE [buf_extend [0x7f, 0x54, 0x69, 0x6c, 0x65, 0x49, 0x52, 0x00],
           buf_append (version_major version),
           buf_append (version_minor version)]
       (extend_checked (to_bytes_unsigned 2 (version_tag version)))"

definition patch_header_preview_flag :: "bytecode_version \<Rightarrow> (bytes, unit) eff" where
  "patch_header_preview_flag version = (\<lambda>b.
     case to_bytes_unsigned 2 (or (version_tag version) 1) of
       Inl e \<Rightarrow> (Inl e, b)
     | Inr t \<Rightarrow> (Inr (), take 10 b @ t @ drop 12 b))"

fun write_offsets :: "('v \<Rightarrow> int) \<Rightarrow> nat \<Rightarrow> int \<Rightarrow> int \<Rightarrow> (bytes \<times> 'v) list \<Rightarrow> (bytes, unit) eff" where
  "write_offsets unwrap index_size expected_id offset [] = skipE"
| "write_offsets unwrap index_size expected_id offset ((encoded_item, i) # items) =
     seqE [assertE (expected_id = unwrap i),
           extend_checked (to_bytes_unsigned index_size offset)]
       (write_offsets unwrap index_size (expected_id + 1) (offset + int (length encoded_item)) items)"

definition write_table ::
    "('v \<Rightarrow> int) \<Rightarrow> int \<Rightarrow> (bytes, 'v) table \<Rightarrow> nat \<Rightarrow> (bytes, unit) eff" where
  "write_table unwrap starting_id table index_size =
     (let items = sort_key (\<lambda>x. unwrap (snd x)) table in
      seqE [encode_varint (int (length items)),
            pad_to (int index_size),
            write_offsets unwrap index_size starting_id 0 items]
        (forE items (\<lambda>x. buf_extend (fst x))))"

definition write_global_section :: "global_section \<Rightarrow> (bytes, unit) eff" where
  "write_global_section g =
     (if length (gs_defined_names g) > 0 then
        section_with GlobalSection 1
          (seqE [encode_varint (int (length (gs_defined_names g)))] (buf_extend (gs_contents g)))
      else skipE)"

fun write_index_offsets :: "int \<Rightarrow> debug_attr_id list list \<Rightarrow> (bytes, int) eff" where
  "write_index_offsets index_offset [] = retE index_offset"
| "write_index_offsets index_offset (func_info # infos) =
     seqE [extend_checked (to_bytes_unsigned 4 index_offset)]
       (write_index_offsets (index_offset + int (length func_info)) infos)"

definition write_debug_info_section ::
    "debug_attr_id list list \<Rightarrow> debug_attr_table \<Rightarrow> (bytes, unit) eff" where
  "write_debug_info_section infos attr_table =
     section_with DebugSection 8
       (seqE [encode_varint (int (length infos)),
              pad_to 4,
              bindE (write_index_offsets 0 infos) encode_varint,
              pad_to 8,
              forE infos (\<lambda>func_info. forE func_info (\<lambda>attr.
                extend_checked (to_bytes_unsigned 8 (debug_attr_id attr))))]
         (if length attr_table = 0
          then (case debug_table_getitem [0x00] [] of
                  (Inl e, _) \<Rightarrow> raiseE e
                | (Inr i, attr_table') \<Rightarrow>
                    seqE [assertE (debug_attr_id i = 1)] (write_table debug_attr_id 1 attr_table' 4))
          else write_table debug_attr_id 1 attr_table 4))"

definition new_writer :: "bytes \<Rightarrow> bytecode_version \<Rightarrow> writer" where
  "new_writer b version = \<lparr>num_functions = 0, debug_info = [], w_buf = b, w_strings = [],
     w_debug_attrs = [], w_constants = [], w_types = new_type_table,
     w_globals = \<lparr>gs_defined_names = [], gs_contents = []\<rparr>, w_version = version\<rparr>"

text \<open>The sections after the function section, from the final state of the writer.\<close>

definition write_tail :: "writer \<Rightarrow> (bytes, unit) eff" where
  "write_tail w =
     seqE [write_global_section (w_globals w),
           section_with ConstantSection 8 (write_table constant_id 0 (w_constants w) 8),
           write_debug_info_section (debug_info w) (w_debug_attrs w),
           section_with TypeSection 4 (write_table type_id 0 (w_types w) 4),
           section_with StringSection 4 (write_table string_id 0 (w_strings w) 4)]
       (buf_append (section_value EndOfBytecode))"

text \<open>\<^verbatim>\<open>with write_bytecode(num_functions, buf, version) as w: client\<close>.\<close>

definition write_bytecode :: "int \<Rightarrow> bytecode_version \<Rightarrow> unit wr \<Rightarrow> (bytes, unit) eff" where
  "write_bytecode num_funcs version client =
     seqE [write_header version] (\<lambda>b.
       case encode_varint num_funcs [] of
         (Inl e, _) \<Rightarrow> (Inl e, b)
       | (Inr _, section_buf) \<Rightarrow>
           (case bindE client (\<lambda>_. bindE (getE num_functions) (\<lambda>n. assertE (n = num_funcs)))
                   (new_writer section_buf version) of
              (Inl e, _) \<Rightarrow> (Inl e, b)
            | (Inr _, w) \<Rightarrow> seqE [section_close FuncSection 8 (w_buf w)] (write_tail w) b))"

end
