(* ===== verification/BcFile.thy ===== *)
theory BcFile
  imports BcWriter
begin

text \<open>
  The reader of a whole bytecode file and the round trip of \<open>BcWriter\<close>: tables, sections, the
  header and the padding.

  \<^item> \<open>dec_table\<close>: an offset table, for a section of known length;
  \<^item> \<open>dec_section\<close>, \<open>dec_sections\<close>: sections up to the end mark, in a file of known length
    (alignment is relative to the start of the file);
  \<^item> \<open>dec_file\<close>: header and sections.
\<close>

section \<open>Tables\<close>

primrec starts :: "int \<Rightarrow> 'a list list \<Rightarrow> int list" where
  "starts off [] = []"
| "starts off (k # ks) = off # starts (off + int (length k)) ks"

fun cut_at :: "int list \<Rightarrow> 'a list \<Rightarrow> 'a list list" where
  "cut_at [] data = []"
| "cut_at [a] data = [drop (nat a) data]"
| "cut_at (a # b # xs) data = take (nat (b - a)) (drop (nat a) data) # cut_at (b # xs) data"

definition dec_padding_to :: "int \<Rightarrow> nat \<Rightarrow> unit dec" where
  "dec_padding_to alignment flen = (\<lambda>bs. dec_map (\<lambda>_. ())
     (dec_take (nat (- int (flen - length bs) mod alignment))) bs)"

definition dec_table :: "nat \<Rightarrow> nat \<Rightarrow> bytes list dec" where
  "dec_table index_size flen = dec_bind dec_varint (\<lambda>n.
     dec_bind (dec_padding_to (int index_size) flen) (\<lambda>_.
     dec_bind (dec_n (dec_unsigned index_size) (nat n)) (\<lambda>offs data. Some (cut_at offs data, []))))"

lemma length_starts [simp]: "length (starts off ks) = length ks"
  by (induction ks arbitrary: off) simp_all

lemma cut_starts: "off = int (length pre) \<Longrightarrow> cut_at (starts off ks) (pre @ concat ks) = ks"
proof (induction ks arbitrary: off pre)
  case (Cons k ks)
  then have IH: "cut_at (starts (off + int (length k)) ks) ((pre @ k) @ concat ks) = ks"
    by (intro Cons.IH) simp
  show ?case
  proof (cases ks)
    case Nil
    then show ?thesis using Cons.prems by simp
  next
    case (Cons k' ks')
    then show ?thesis using IH \<open>off = int (length pre)\<close> by simp
  qed
qed simp

lemma extend_checked_unsigned [simp]:
  "extend_checked (to_bytes_unsigned w x) b = (Inr u, b') \<longleftrightarrow>
     0 \<le> x \<and> x < 256 ^ w \<and> b' = b @ le_bytes w x"
  by (auto simp: extend_checked_def to_bytes_unsigned_def)

lemma write_offsets_success:
  assumes "write_offsets unwrap w i off items b = (Inr (), b')"
  shows "list_all (\<lambda>x. 0 \<le> x \<and> x < 256 ^ w) (starts off (List.map fst items)) \<and>
    b' = b @ concat (List.map (le_bytes w) (starts off (List.map fst items)))"
  using assms
proof (induction items arbitrary: i off b)
  case (Cons x items)
  obtain k v where x: "x = (k, v)" by (cases x)
  from Cons.prems have "0 \<le> off" "off < 256 ^ w"
    and "write_offsets unwrap w (i + 1) (off + int (length k)) items (b @ le_bytes w off) = (Inr (), b')"
    by (auto simp: x bindE_Inr_iff assertE_Inr_iff)
  with Cons.IH [OF this(3)] show ?case by (simp add: x)
qed simp

lemma sort_key_table:
  assumes "table_ok wrap start t" and "\<And>i. unwrap (wrap i) = i"
  shows "sort_key (\<lambda>x. unwrap (snd x)) t = t"
proof (rule sort_key_id_if_sorted)
  have "List.map (\<lambda>x. unwrap (snd x)) t = List.map unwrap (List.map snd t)" by simp
  also have "\<dots> = List.map (\<lambda>i. int i + start) [0..<length t]"
    using assms by (simp add: table_ok_def comp_def)
  also have "sorted \<dots>" by (simp add: sorted_iff_nth_mono)
  finally show "sorted (List.map (\<lambda>x. unwrap (snd x)) t)" .
qed

lemma pad_to_Inr [simp]:
  "pad_to al b = (Inr u, b') \<longleftrightarrow> b' = b @ replicate (nat (- int (length b) mod al)) 0xcb"
  by (auto simp: pad_to_def)

lemma dec_padding_to_replicate:
  assumes "flen = n + length (replicate (nat (- int n mod al)) c @ rest)"
  shows "dec_padding_to al flen (replicate (nat (- int n mod al)) c @ rest) = Some ((), rest)"
proof -
  have "flen - length (replicate (nat (- int n mod al)) c @ rest) = n" using assms by simp
  moreover have "dec_take (nat (- int n mod al)) (replicate (nat (- int n mod al)) c @ rest) =
    Some (replicate (nat (- int n mod al)) c, rest)"
    by (rule dec_take_append) simp
  ultimately show ?thesis by (simp only: dec_padding_to_def dec_map_Some)
qed

theorem write_table_dec:
  assumes ok: "table_ok wrap start t" and wrap: "\<And>i. unwrap (wrap i) = i"
    and run: "write_table unwrap start t w b = (Inr (), b')"
  shows "\<exists>e. b' = b @ e \<and> dec_table w (length b') e = Some (table_keys t, [])"
proof -
  let ?n = "varint (int (length t))"
  let ?pad = "replicate (nat (- int (length (b @ ?n)) mod int w)) (0xcb :: byte)"
  let ?offs = "starts 0 (table_keys t)"
  let ?data = "concat (table_keys t)"
  have data: "forE t (\<lambda>x. buf_extend (fst x)) c = (Inr (), c @ ?data)" for c
    by (rule forE_writes) (simp add: buf_extend_def)
  from run have "\<exists>c. write_offsets unwrap w start 0 t (b @ ?n @ ?pad) = (Inr (), c) \<and> b' = c @ ?data"
    using data by (auto simp: write_table_def sort_key_table [OF ok wrap] bindE_Inr_iff pad_to_def)
  then obtain c where "write_offsets unwrap w start 0 t (b @ ?n @ ?pad) = (Inr (), c)"
    and b': "b' = c @ ?data" by blast
  note offs = write_offsets_success [OF this(1)]
  let ?o = "concat (List.map (le_bytes w) ?offs)"
  have b'e: "b' = b @ (?n @ ?pad @ ?o @ ?data)" using b' offs by simp
  have pad: "dec_padding_to (int w) (length b') (?pad @ ?o @ ?data) = Some ((), ?o @ ?data)"
    by (rule dec_padding_to_replicate) (simp only: b'e length_append add.assoc)
  have "dec_n (dec_unsigned w) (length t) (?o @ ?data) = Some (?offs, ?data)"
    using unsigned_le.dec_n_enc [of w ?offs ?data] offs by simp
  then have "dec_table w (length b') (?n @ ?pad @ ?o @ ?data) = Some (cut_at ?offs ?data, [])"
    using pad by (simp add: dec_table_def varint.dec_enc)
  moreover have "cut_at ?offs ?data = table_keys t"
    using cut_starts [of 0 "[]" "table_keys t"] by simp
  ultimately show ?thesis using b'e by auto
qed

section \<open>Sections\<close>

definition dec_section :: "nat \<Rightarrow> (int \<times> bytes) dec" where
  "dec_section flen = dec_bind dec_byte (\<lambda>b.
     dec_bind dec_varint (\<lambda>n.
     dec_bind (if bit b 7 then dec_bind dec_varint (\<lambda>al. dec_padding_to al flen) else dec_ret ()) (\<lambda>_.
     dec_map (Pair (uint (and b 0x7f))) (dec_take (nat n)))))"

primrec dec_sections :: "nat \<Rightarrow> nat \<Rightarrow> (int \<times> bytes) list dec" where
  "dec_sections 0 flen bs = None"
| "dec_sections (Suc n) flen bs = (case bs of
     [] \<Rightarrow> None
   | b # rest \<Rightarrow> if b = 0 then Some ([], rest)
       else dec_bind (dec_section flen) (\<lambda>s. dec_map (Cons s) (dec_sections n flen)) bs)"

lemma section_byte:
  "x < 256 \<Longrightarrow> 0 \<le> x \<Longrightarrow> x = or (section_value i) (if p then 0x80 else 0) \<Longrightarrow>
   uint (and (word_of_int x :: byte) 0x7f) = section_value i \<and> (bit (word_of_int x :: byte) 7 \<longleftrightarrow> p)"
  by (cases i; cases p) (simp_all add: bit_iff_odd)

lemma section_byte_range: "0 \<le> or (section_value i) (if p then 0x80 else 0) \<and>
    or (section_value i) (if p then 0x80 else 0) < 256"
  by (cases i; cases p) simp_all

theorem section_close_dec:
  assumes "section_close i al content b = (Inr (), b')"
  shows "\<exists>e. b' = b @ e \<and>
    (\<forall>rest. dec_section (length (b' @ rest)) (e @ rest) = Some ((section_value i, content), rest)) \<and>
    (\<exists>x r. e = x # r \<and> (i \<noteq> EndOfBytecode \<longrightarrow> x \<noteq> 0)) \<and>
    (1 < al \<longrightarrow> int (length b' - length content) mod al = 0)"
proof -
  let ?x = "or (section_value i) (if 1 < al then 0x80 else 0)"
  let ?b1 = "b @ [word_of_int ?x] @ varint (int (length content))"
  let ?pad = "replicate (nat (- int (length (?b1 @ varint al)) mod al)) (0xcb :: byte)"
  note sb = section_byte [of ?x i "1 < al", OF _ _ refl]
  have nz: "i \<noteq> EndOfBytecode \<longrightarrow> (word_of_int ?x :: byte) \<noteq> 0"
    by (cases i; cases "1 < al") simp_all
  show ?thesis
  proof (cases "1 < al")
    case False
    then have b': "b' = b @ ([word_of_int ?x] @ varint (int (length content)) @ content)"
      using assms by (auto simp: section_close_def bindE_Inr_iff)
    then show ?thesis
      using False nz sb section_byte_range [of i "1 < al"]
      by (intro exI [of _ "[word_of_int ?x] @ varint (int (length content)) @ content"])
        (simp add: dec_section_def varint.dec_enc)
  next
    case True
    then have b': "b' = ?b1 @ varint al @ ?pad @ content"
      using assms by (auto simp: section_close_def bindE_Inr_iff algebra_simps)
    have pad: "dec_padding_to al (length (b' @ rest)) (?pad @ content @ rest) = Some ((), content @ rest)"
      for rest by (rule dec_padding_to_replicate) (simp only: b' length_append add.assoc)
    have "dec_section (length (b' @ rest)) ([word_of_int ?x] @ varint (int (length content)) @
        varint al @ ?pad @ content @ rest) = Some ((section_value i, content), rest)" for rest
    proof -
      have "dec_bind dec_varint (\<lambda>al. dec_padding_to al (length (b' @ rest)))
          (varint al @ ?pad @ content @ rest) = Some ((), content @ rest)"
        using True pad by (simp add: varint.dec_enc del: length_append)
      then show ?thesis
        using True sb section_byte_range [of i "1 < al"]
        by (simp add: dec_section_def varint.dec_enc del: length_append)
    qed
    moreover have "int (length b' - length content) mod al = 0"
    proof -
      have "int (length b' - length content) =
          int (length (?b1 @ varint al)) + (- int (length (?b1 @ varint al)) mod al)"
        using True by (simp add: b')
      also have "\<dots> mod al = 0" by (simp only: mod_add_right_eq) simp
      finally show ?thesis .
    qed
    ultimately show ?thesis
    proof (intro exI [of _ "[word_of_int ?x] @ varint (int (length content)) @ varint al @ ?pad @ content"]
        conjI allI impI)
      show "\<exists>x r. [word_of_int ?x] @ varint (int (length content)) @ varint al @ ?pad @ content = x # r \<and>
          (i \<noteq> EndOfBytecode \<longrightarrow> x \<noteq> 0)" using nz by auto
    qed (simp_all only: b' append_assoc)
  qed
qed

section \<open>Files\<close>

definition dec_debug_info :: "nat \<Rightarrow> (int list list \<times> bytes list) dec" where
  "dec_debug_info flen = dec_bind dec_varint (\<lambda>n.
     dec_bind (dec_padding_to 4 flen) (\<lambda>_.
     dec_bind (dec_n (dec_unsigned 4) (nat n)) (\<lambda>offs.
     dec_bind dec_varint (\<lambda>m.
     dec_bind (dec_padding_to 8 flen) (\<lambda>_.
     dec_bind (dec_n (dec_unsigned 8) (nat m)) (\<lambda>ids.
     dec_map (Pair (cut_at offs ids)) (dec_table 4 flen)))))))"

definition magic :: bytes where
  "magic = [0x7f, 0x54, 0x69, 0x6c, 0x65, 0x49, 0x52, 0x00]"

definition dec_file :: "((int \<times> int \<times> int) \<times> (int \<times> bytes) list) dec" where
  "dec_file = (\<lambda>bs. dec_bind (dec_take 8) (\<lambda>m. if m = magic then
     dec_bind dec_byte (\<lambda>major. dec_bind dec_byte (\<lambda>minor. dec_bind (dec_unsigned 2) (\<lambda>tag.
     dec_map (Pair (uint major, uint minor, tag)) (dec_sections (length bs) (length bs)))))
     else dec_fail) bs)"

lemma dec_sections_mono:
  "dec_sections n flen bs = Some r \<Longrightarrow> n \<le> m \<Longrightarrow> dec_sections m flen bs = Some r"
proof (induction n arbitrary: m bs r)
  case (Suc n)
  obtain k where m: "m = Suc k" "n \<le> k" using Suc.prems(2) by (cases m) auto
  show ?case
  proof (cases bs)
    case Nil
    then show ?thesis using Suc.prems(1) by simp
  next
    case (Cons b rest)
    show ?thesis
    proof (cases "b = 0")
      case True
      then show ?thesis using Suc.prems(1) Cons m by simp
    next
      case False
      then obtain x bs1 ys rest1 where "dec_section flen bs = Some (x, bs1)"
        and "dec_sections n flen bs1 = Some (ys, rest1)" and "r = (x # ys, rest1)"
        using Suc.prems(1) Cons by (auto simp: dec_map_def dec_bind_def split: option.splits)
      then show ?thesis using Suc.IH [of bs1 "(ys, rest1)" k] Cons False m by simp
    qed
  qed
qed simp

text \<open>\<open>adds_sections b b' ss\<close>: from \<open>b\<close> to \<open>b'\<close> the sections \<open>ss\<close> were written.\<close>

definition adds_sections :: "bytes \<Rightarrow> bytes \<Rightarrow> (int \<times> bytes) list \<Rightarrow> bool" where
  "adds_sections b b' ss \<longleftrightarrow> (\<exists>e. b' = b @ e \<and> (\<forall>rest n ys rest'.
     dec_sections n (length (b' @ rest)) rest = Some (ys, rest') \<longrightarrow>
     dec_sections (length ss + n) (length (b' @ rest)) (e @ rest) = Some (ss @ ys, rest')))"

lemma adds_sections_refl: "adds_sections b b []"
  by (simp add: adds_sections_def)

lemma adds_sections_trans:
  assumes "adds_sections b c ss" and "adds_sections c d ts"
  shows "adds_sections b d (ss @ ts)"
proof -
  obtain e where e: "c = b @ e" "\<And>rest n ys rest'. dec_sections n (length (c @ rest)) rest = Some (ys, rest') \<Longrightarrow>
     dec_sections (length ss + n) (length (c @ rest)) (e @ rest) = Some (ss @ ys, rest')"
    using assms(1) unfolding adds_sections_def by blast
  obtain f where f: "d = c @ f" "\<And>rest n ys rest'. dec_sections n (length (d @ rest)) rest = Some (ys, rest') \<Longrightarrow>
     dec_sections (length ts + n) (length (d @ rest)) (f @ rest) = Some (ts @ ys, rest')"
    using assms(2) unfolding adds_sections_def by blast
  have "dec_sections (length (ss @ ts) + n) (length (d @ rest)) ((e @ f) @ rest) = Some ((ss @ ts) @ ys, rest')"
    if "dec_sections n (length (d @ rest)) rest = Some (ys, rest')" for rest n ys rest'
    using e(2) [of "length ts + n" "f @ rest" "ts @ ys" rest'] f(2) [OF that] f(1) by (simp add: add.assoc)
  then show ?thesis unfolding adds_sections_def using e(1) f(1) by (intro exI [of _ "e @ f"]) simp
qed

lemma section_close_adds:
  assumes "section_close i al content b = (Inr (), b')" and "i \<noteq> EndOfBytecode"
  shows "adds_sections b b' [(section_value i, content)]"
proof -
  obtain e x r where e: "b' = b @ e" "e = x # r" "x \<noteq> 0"
    "\<And>rest. dec_section (length (b' @ rest)) (e @ rest) = Some ((section_value i, content), rest)"
    using section_close_dec [OF assms(1)] assms(2) by blast
  have "dec_sections (Suc n) (length (b' @ rest)) (e @ rest) = Some ((section_value i, content) # ys, rest')"
    if "dec_sections n (length (b' @ rest)) rest = Some (ys, rest')" for n rest ys rest'
    using e(4) [of rest] that by (simp add: e(2,3))
  then show ?thesis unfolding adds_sections_def using e(1) by (intro exI [of _ e]) simp
qed

lemma section_with_adds:
  assumes "section_with i al body b = (Inr (), b')" and "i \<noteq> EndOfBytecode"
  shows "\<exists>content. body [] = (Inr (), content) \<and> adds_sections b b' [(section_value i, content)]"
  using assms section_close_adds by (auto simp: section_with_def split: prod.splits sum.splits)

text \<open>The debug section: the attribute ids of every operation, by function, and the attribute table.\<close>

lemma write_index_offsets_success:
  assumes "write_index_offsets off infos b = (Inr n, b')"
  shows "n = off + int (length (concat infos)) \<and>
    list_all (\<lambda>x. 0 \<le> x \<and> x < 256 ^ 4) (starts off infos) \<and>
    b' = b @ concat (List.map (le_bytes 4) (starts off infos))"
  using assms
proof (induction infos arbitrary: off b)
  case (Cons x infos)
  then have "0 \<le> off" "off < 256 ^ 4"
    and "write_index_offsets (off + int (length x)) infos (b @ le_bytes 4 off) = (Inr n, b')"
    by (auto simp: bindE_Inr_iff)
  with Cons.IH [OF this(3)] show ?case by simp
qed simp

lemma forE_concat: "forE xss (\<lambda>xs. forE xs f) = forE (concat xss) f"
proof (induction xss)
  case (Cons xs xss)
  have "bindE (forE xs f) (\<lambda>_. forE (concat xss) f) = forE (xs @ concat xss) f"
    by (induction xs) (simp_all add: bindE_assoc)
  with Cons show ?case by simp
qed simp

lemma starts_map: "starts off (List.map (List.map f) xss) = starts off xss"
  by (induction xss arbitrary: off) simp_all

definition read_debug_table :: "debug_attr_table \<Rightarrow> bytes list" where
  "read_debug_table t = (if t = [] then [[0]] else table_keys t)"

lemma write_debug_table_dec:
  assumes ok: "table_ok DebugAttrId 1 t"
    and run: "(if length t = 0
          then (case debug_table_getitem [0x00] [] of
                  (Inl e, _) \<Rightarrow> raiseE e
                | (Inr i, t') \<Rightarrow> seqE [assertE (debug_attr_id i = 1)] (write_table debug_attr_id 1 t' 4))
          else write_table debug_attr_id 1 t 4) b = (Inr (), b')"
  shows "\<exists>e. b' = b @ e \<and> dec_table 4 (length b') e = Some (read_debug_table t, [])"
proof (cases "t = []")
  case True
  let ?t = "[([0x00 :: byte], DebugAttrId 1)]"
  have "write_table debug_attr_id 1 ?t 4 b = (Inr (), b')"
    using run True by (simp add: debug_table_getitem_def table_getitem_def table_missing_def Let_def)
  from write_table_dec [OF _ _ this] show ?thesis
    using True by (simp add: table_ok_def read_debug_table_def)
next
  case False
  then have "write_table debug_attr_id 1 t 4 b = (Inr (), b')" using run by simp
  from write_table_dec [OF ok _ this] show ?thesis using False by (simp add: read_debug_table_def)
qed

lemma debug_info_body:
  assumes "seqE [encode_varint (int (length infos)), pad_to 4,
              bindE (write_index_offsets 0 infos) encode_varint, pad_to 8,
              forE infos (\<lambda>func_info. forE func_info (\<lambda>attr.
                extend_checked (to_bytes_unsigned 8 (debug_attr_id attr))))] tab [] = (Inr (), c)"
  shows "\<exists>b1 b2 b3. b1 = varint (int (length infos)) \<and>
    b2 = b1 @ replicate (nat (- int (length b1) mod 4)) 0xcb @ concat (List.map (le_bytes 4) (starts 0 infos)) @
      varint (int (length (concat infos))) \<and>
    b3 = b2 @ replicate (nat (- int (length b2) mod 8)) 0xcb @
      concat (List.map (\<lambda>a. le_bytes 8 (debug_attr_id a)) (concat infos)) \<and>
    tab b3 = (Inr (), c) \<and>
    list_all (\<lambda>x. 0 \<le> x \<and> x < 256 ^ 4) (starts 0 infos) \<and>
    list_all (\<lambda>a. 0 \<le> debug_attr_id a \<and> debug_attr_id a < 256 ^ 8) (concat infos)"
proof -
  let ?b1 = "varint (int (length infos))"
  let ?p1 = "replicate (nat (- int (length ?b1) mod 4)) (0xcb :: byte)"
  from assms obtain k b where off: "write_index_offsets 0 infos (?b1 @ ?p1) = (Inr k, b)"
    and rest: "bindE (encode_varint k) (\<lambda>_. bindE (pad_to 8) (\<lambda>_.
      bindE (forE (concat infos) (\<lambda>attr. extend_checked (to_bytes_unsigned 8 (debug_attr_id attr))))
        (\<lambda>_. tab))) b = (Inr (), c)"
    by (auto simp: bindE_Inr_iff forE_concat bindE_assoc simp del: encode_varint_eq
        simp: encode_varint_Inr_iff)
  note o = write_index_offsets_success [OF off]
  let ?b2 = "b @ varint k"
  let ?b3 = "?b2 @ replicate (nat (- int (length ?b2) mod 8)) 0xcb"
  from rest obtain b4 where
    ids: "forE (concat infos) (\<lambda>attr. extend_checked (to_bytes_unsigned 8 (debug_attr_id attr))) ?b3 = (Inr (), b4)"
    and tab: "tab b4 = (Inr (), c)"
    by (auto simp: bindE_Inr_iff encode_varint_Inr_iff simp del: encode_varint_eq)
  have "list_all (\<lambda>a. 0 \<le> debug_attr_id a \<and> debug_attr_id a < 256 ^ 8) (concat infos) \<and>
    b4 = ?b3 @ concat (List.map (\<lambda>a. le_bytes 8 (debug_attr_id a)) (concat infos))"
    using ids by (rule forE_success) simp
  then show ?thesis using o tab by (intro exI conjI) (rule refl | simp)+
qed

lemma debug_info_content_dec:
  assumes ok: "table_ok DebugAttrId 1 t"
    and run: "write_debug_info_section infos t b = (Inr (), b')"
  shows "\<exists>c. adds_sections b b' [(3, c)] \<and>
    dec_debug_info (length c) c = Some ((List.map (List.map debug_attr_id) infos, read_debug_table t), [])"
proof -
  let ?ids = "List.map debug_attr_id (concat infos)"
  obtain c where secs: "adds_sections b b' [(3, c)]"
    and body: "seqE [encode_varint (int (length infos)), pad_to 4,
              bindE (write_index_offsets 0 infos) encode_varint, pad_to 8,
              forE infos (\<lambda>func_info. forE func_info (\<lambda>attr.
                extend_checked (to_bytes_unsigned 8 (debug_attr_id attr))))]
         (if length t = 0
          then (case debug_table_getitem [0x00] [] of
                  (Inl e, _) \<Rightarrow> raiseE e
                | (Inr i, t') \<Rightarrow> seqE [assertE (debug_attr_id i = 1)] (write_table debug_attr_id 1 t' 4))
          else write_table debug_attr_id 1 t 4) [] = (Inr (), c)"
    using section_with_adds [OF run [unfolded write_debug_info_section_def]] by auto
  obtain b1 b2 b3 where b1: "b1 = varint (int (length infos))"
    and b2: "b2 = b1 @ replicate (nat (- int (length b1) mod 4)) 0xcb @
      concat (List.map (le_bytes 4) (starts 0 infos)) @ varint (int (length ?ids))"
    and b3: "b3 = b2 @ replicate (nat (- int (length b2) mod 8)) 0xcb @ concat (List.map (le_bytes 8) ?ids)"
    and tab: "(if length t = 0
          then (case debug_table_getitem [0x00] [] of
                  (Inl e, _) \<Rightarrow> raiseE e
                | (Inr i, t') \<Rightarrow> seqE [assertE (debug_attr_id i = 1)] (write_table debug_attr_id 1 t' 4))
          else write_table debug_attr_id 1 t 4) b3 = (Inr (), c)"
    and o: "list_all (\<lambda>x. 0 \<le> x \<and> x < 256 ^ 4) (starts 0 infos)"
    and i: "list_all (\<lambda>x. 0 \<le> x \<and> x < 256 ^ 8) ?ids"
    using debug_info_body [OF body] by (auto simp: comp_def list.pred_map)
  obtain e where c: "c = b3 @ e" and e: "dec_table 4 (length c) e = Some (read_debug_table t, [])"
    using write_debug_table_dec [OF ok tab] by blast
  let ?p1 = "replicate (nat (- int (length b1) mod 4)) (0xcb :: byte)"
  let ?p2 = "replicate (nat (- int (length b2) mod 8)) (0xcb :: byte)"
  let ?o = "concat (List.map (le_bytes 4) (starts 0 infos))"
  let ?d = "concat (List.map (le_bytes 8) ?ids)"
  let ?r1 = "?o @ varint (int (length ?ids)) @ ?p2 @ ?d @ e"
  have c1: "c = b1 @ ?p1 @ ?r1" and c2: "c = b2 @ ?p2 @ ?d @ e"
    by (simp_all only: c b3 b2 append_assoc)
  have p1: "dec_padding_to 4 (length c) (?p1 @ ?r1) = Some ((), ?r1)"
    by (rule dec_padding_to_replicate) (simp only: c1 length_append)
  have p2: "dec_padding_to 8 (length c) (?p2 @ ?d @ e) = Some ((), ?d @ e)"
    by (rule dec_padding_to_replicate) (simp only: c2 length_append)
  have "cut_at (starts 0 infos) ?ids = List.map (List.map debug_attr_id) infos"
    using cut_starts [of 0 "[]" "List.map (List.map debug_attr_id) infos"]
    by (simp add: starts_map map_concat)
  moreover have "dec_n (dec_unsigned 4) (length infos) ?r1 = Some (starts 0 infos, varint (int (length ?ids)) @ ?p2 @ ?d @ e)"
    using unsigned_le.dec_n_enc [OF o] by simp
  moreover have "dec_n (dec_unsigned 8) (length ?ids) (?d @ e) = Some (?ids, e)"
    by (rule unsigned_le.dec_n_enc [OF i])
  ultimately have "dec_debug_info (length c) (b1 @ ?p1 @ ?r1) =
      Some ((List.map (List.map debug_attr_id) infos, read_debug_table t), [])"
    using p1 p2 e by (simp add: dec_debug_info_def b1 varint.dec_enc)
  then show ?thesis using secs c1 by auto
qed

section \<open>The whole file\<close>

text \<open>What every operation of the writer keeps: the four interning tables are well formed.\<close>

definition writer_ok :: "writer \<Rightarrow> bool" where
  "writer_ok w \<longleftrightarrow> table_ok StringId 0 (w_strings w) \<and> table_ok DebugAttrId 1 (w_debug_attrs w) \<and>
     table_ok ConstantId 0 (w_constants w) \<and> table_ok TypeId 0 (w_types w)"

lemma new_writer_ok: "writer_ok (new_writer b v)"
  by (simp add: writer_ok_def new_writer_def new_type_table_ok)

text \<open>The sections of a file, in order, for a final writer state.\<close>

definition global_sections :: "global_section \<Rightarrow> (int \<times> bytes) list" where
  "global_sections g = (if gs_defined_names g = [] then []
     else [(6, varint (int (length (gs_defined_names g))) @ gs_contents g)])"

lemma write_global_section_adds:
  assumes "write_global_section g b = (Inr (), b')"
  shows "adds_sections b b' (global_sections g)"
proof (cases "gs_defined_names g = []")
  case True
  then show ?thesis using assms
    by (simp add: write_global_section_def global_sections_def adds_sections_refl)
next
  case False
  then have "section_with GlobalSection 1
      (seqE [encode_varint (int (length (gs_defined_names g)))] (buf_extend (gs_contents g))) b = (Inr (), b')"
    using assms by (simp add: write_global_section_def)
  from section_with_adds [OF this] show ?thesis
    using False by (auto simp: global_sections_def)
qed

lemma section_table_adds:
  assumes "table_ok wrap start t" and "\<And>i. unwrap (wrap i) = i" and "i \<noteq> EndOfBytecode"
    and "section_with i al (write_table unwrap start t w) b = (Inr (), b')"
  shows "\<exists>c. adds_sections b b' [(section_value i, c)] \<and> dec_table w (length c) c = Some (table_keys t, [])"
proof -
  obtain c where c: "write_table unwrap start t w [] = (Inr (), c)"
    and secs: "adds_sections b b' [(section_value i, c)]"
    using section_with_adds [OF assms(4,3)] by blast
  obtain e where "c = [] @ e" and "dec_table w (length c) e = Some (table_keys t, [])"
    using write_table_dec [OF assms(1,2) c] by blast
  then show ?thesis using secs by auto
qed

definition tail_decoded :: "writer \<Rightarrow> bytes \<Rightarrow> bytes \<Rightarrow> bytes \<Rightarrow> bytes \<Rightarrow> bool" where
  "tail_decoded w ct db ty st \<longleftrightarrow>
     dec_table 8 (length ct) ct = Some (table_keys (w_constants w), []) \<and>
     dec_debug_info (length db) db =
       Some ((List.map (List.map debug_attr_id) (debug_info w), read_debug_table (w_debug_attrs w)), []) \<and>
     dec_table 4 (length ty) ty = Some (table_keys (w_types w), []) \<and>
     dec_table 4 (length st) st = Some (table_keys (w_strings w), [])"

lemma write_tail_adds:
  assumes ok: "writer_ok w" and run: "write_tail w b = (Inr (), b')"
  shows "\<exists>ct db ty st b1. b' = b1 @ [0] \<and> tail_decoded w ct db ty st \<and>
    adds_sections b b1 (global_sections (w_globals w) @ [(4, ct), (3, db), (5, ty), (1, st)])"
proof -
  obtain c1 c2 c3 c4 c5 where
    r1: "write_global_section (w_globals w) b = (Inr (), c1)"
    and r2: "section_with ConstantSection 8 (write_table constant_id 0 (w_constants w) 8) c1 = (Inr (), c2)"
    and r3: "write_debug_info_section (debug_info w) (w_debug_attrs w) c2 = (Inr (), c3)"
    and r4: "section_with TypeSection 4 (write_table type_id 0 (w_types w) 4) c3 = (Inr (), c4)"
    and r5: "section_with StringSection 4 (write_table string_id 0 (w_strings w) 4) c4 = (Inr (), c5)"
    and b': "b' = c5 @ [0]"
    using run by (auto simp: write_tail_def bindE_Inr_iff)
  note oks = ok [unfolded writer_ok_def]
  obtain ct where ct: "adds_sections c1 c2 [(4, ct)]"
    "dec_table 8 (length ct) ct = Some (table_keys (w_constants w), [])"
    using section_table_adds [where wrap = ConstantId, OF _ _ _ r2] oks by auto
  obtain db where db: "adds_sections c2 c3 [(3, db)]" "dec_debug_info (length db) db =
      Some ((List.map (List.map debug_attr_id) (debug_info w), read_debug_table (w_debug_attrs w)), [])"
    using debug_info_content_dec [OF _ r3] oks by auto
  obtain ty where ty: "adds_sections c3 c4 [(5, ty)]"
    "dec_table 4 (length ty) ty = Some (table_keys (w_types w), [])"
    using section_table_adds [where wrap = TypeId, OF _ _ _ r4] oks by auto
  obtain st where st: "adds_sections c4 c5 [(1, st)]"
    "dec_table 4 (length st) st = Some (table_keys (w_strings w), [])"
    using section_table_adds [where wrap = StringId, OF _ _ _ r5] oks by auto
  have "adds_sections b c5 (global_sections (w_globals w) @ [(4, ct)] @ [(3, db)] @ [(5, ty)] @ [(1, st)])"
    using write_global_section_adds [OF r1] ct(1) db(1) ty(1) st(1)
    by (blast intro: adds_sections_trans)
  then show ?thesis using b' ct(2) db(2) ty(2) st(2)
    by (intro exI [of _ ct] exI [of _ db] exI [of _ ty] exI [of _ st] exI [of _ c5])
      (simp add: tail_decoded_def)
qed

definition header_bytes :: "bytecode_version \<Rightarrow> bytes" where
  "header_bytes v = magic @ [word_of_int (version_major v), word_of_int (version_minor v)] @
     le_bytes 2 (version_tag v)"

lemma write_header_eq: "write_header v b = (Inr (), b @ header_bytes v)"
  by (cases v) (simp_all add: write_header_def header_bytes_def magic_def version_major_def
      version_minor_def version_tag_def buf_extend_def buf_append_def extend_checked_def
      to_bytes_unsigned_def bindE_def)

lemma length_header_bytes [simp]: "length (header_bytes v) = 12"
  by (simp add: header_bytes_def magic_def)

lemma dec_file_header:
  assumes "dec_sections n (length (header_bytes v @ rest)) rest = Some (ss, [])"
    and "n \<le> length (header_bytes v @ rest)"
  shows "dec_file (header_bytes v @ rest) = Some (((version_major v, version_minor v, version_tag v), ss), [])"
proof -
  have take: "dec_take 8 (header_bytes v @ rest) = Some (magic,
      [word_of_int (version_major v), word_of_int (version_minor v)] @ le_bytes 2 (version_tag v) @ rest)"
    by (simp add: header_bytes_def dec_take_def magic_def)
  have tag: "dec_unsigned 2 (le_bytes 2 (version_tag v) @ rest) = Some (version_tag v, rest)"
    by (rule unsigned_le.dec_enc) (cases v; simp add: version_tag_def)
  have bytes: "uint (word_of_int (version_major v) :: byte) = version_major v"
    "uint (word_of_int (version_minor v) :: byte) = version_minor v"
    by (cases v; simp add: version_major_def version_minor_def)+
  note secs = dec_sections_mono [OF assms]
  show ?thesis using take tag bytes secs by (simp add: dec_file_def del: length_append)
qed

theorem write_bytecode_dec:
  assumes run: "write_bytecode n v client [] = (Inr (), out)"
    and ok: "\<And>w. client (new_writer (varint n) v) = (Inr (), w) \<Longrightarrow> writer_ok w"
  shows "\<exists>w ct db ty st. client (new_writer (varint n) v) = (Inr (), w) \<and> num_functions w = n \<and>
    tail_decoded w ct db ty st \<and>
    dec_file out = Some (((version_major v, version_minor v, version_tag v),
      (2, w_buf w) # global_sections (w_globals w) @ [(4, ct), (3, db), (5, ty), (1, st)]), [])"
proof -
  obtain w c where client: "client (new_writer (varint n) v) = (Inr (), w)" and n: "num_functions w = n"
    and close: "section_close FuncSection 8 (w_buf w) (header_bytes v) = (Inr (), c)"
    and tail: "write_tail w c = (Inr (), out)"
    using run by (auto simp: write_bytecode_def write_header_eq bindE_Inr_iff getE_def assertE_Inr_iff
        split: prod.splits sum.splits if_splits)
  obtain ct db ty st b1 where out: "out = b1 @ [0]" and dec: "tail_decoded w ct db ty st"
    and secs: "adds_sections c b1 (global_sections (w_globals w) @ [(4, ct), (3, db), (5, ty), (1, st)])"
    using write_tail_adds [OF ok [OF client] tail] by blast
  let ?ss = "(2, w_buf w) # global_sections (w_globals w) @ [(4, ct), (3, db), (5, ty), (1, st)]"
  have "adds_sections (header_bytes v) b1 ?ss"
    using adds_sections_trans [OF section_close_adds [OF close] secs] by simp
  then obtain e where e: "b1 = header_bytes v @ e"
    "\<And>rest n ys rest'. dec_sections n (length (b1 @ rest)) rest = Some (ys, rest') \<Longrightarrow>
     dec_sections (length ?ss + n) (length (b1 @ rest)) (e @ rest) = Some (?ss @ ys, rest')"
    unfolding adds_sections_def by blast
  have "dec_sections (length ?ss + 1) (length (header_bytes v @ e @ [0])) (e @ [0]) = Some (?ss, [])"
    using e(2) [of 1 "[0]" "[]" "[]"] e(1) by simp
  moreover have "length ?ss + 1 \<le> length (header_bytes v @ e @ [0])"
    by (simp add: global_sections_def)
  ultimately have "dec_file (header_bytes v @ e @ [0]) =
      Some (((version_major v, version_minor v, version_tag v), ?ss), [])"
    by (rule dec_file_header)
  then show ?thesis using client n dec out e(1) by auto
qed

end
