(* ===== verification/BcProgram.thy ===== *)
theory BcProgram
  imports BcFile
begin

text \<open>
  Programs: what a client of \<^verbatim>\<open>BytecodeWriter\<close> builds, and the reader that recovers it from the
  bytes of the file alone.

  \<^item> \<open>func_entry\<close>: a function as a reader sees it;
  \<^item> \<open>builds v Q w fs w'\<close>: client code that interns types and debug attributes, defines globals
    and emits the functions \<open>fs\<close>;
  \<^item> \<open>dec_program\<close>: the reader of a file; its fuel bounds the nesting and the number of
    instructions of a function.
\<close>

section \<open>Writing a function header\<close>

definition writer_grows :: "writer \<Rightarrow> writer \<Rightarrow> bool" where
  "writer_grows w w' \<longleftrightarrow> grows (w_strings w) (w_strings w') \<and> grows (w_debug_attrs w) (w_debug_attrs w') \<and>
     grows (w_constants w) (w_constants w') \<and> grows (w_types w) (w_types w')"

lemma writer_grows_refl [simp]: "writer_grows w w"
  by (simp add: writer_grows_def)

lemma writer_grows_trans: "writer_grows w u \<Longrightarrow> writer_grows u x \<Longrightarrow> writer_grows w x"
  unfolding writer_grows_def by (elim conjE; intro conjI; erule (1) grows_trans)

definition file_tables :: "tables \<Rightarrow> writer \<Rightarrow> bool" where
  "file_tables T w \<longleftrightarrow> covers (tab_strings T) (w_strings w) \<and> covers (tab_constants T) (w_constants w) \<and>
     covers (tab_types T) (w_types w)"

lemma file_tables_earlier: "file_tables T w' \<Longrightarrow> writer_grows w w' \<Longrightarrow> file_tables T w"
  unfolding file_tables_def writer_grows_def by (elim conjE; intro conjI; erule (1) covers_grows)

text \<open>
  \<open>header_writes v m d x\<close>: the analogue for the writer of the contract of an encoder statement:
  \<open>m\<close> appends bytes to the function section that the reader \<open>d\<close> turns into \<open>x\<close>.
\<close>

definition header_writes :: "bytecode_version \<Rightarrow> unit wr \<Rightarrow> (tables \<Rightarrow> 'x dec) \<Rightarrow> 'x \<Rightarrow> bool" where
  "header_writes v m d x \<longleftrightarrow> (\<forall>w w'. writer_ok w \<longrightarrow> w_version w = v \<longrightarrow> m w = (Inr (), w') \<longrightarrow>
     writer_ok w' \<and> writer_grows w w' \<and> w_version w' = v \<and> debug_info w' = debug_info w \<and>
     num_functions w' = num_functions w \<and>
     (\<exists>e. w_buf w' = w_buf w @ e \<and>
        (\<forall>T rest. file_tables T w' \<longrightarrow> d T (e @ rest) = Some (x, rest))))"

lemma header_writes_I:
  assumes "\<And>w w'. writer_ok w \<Longrightarrow> w_version w = v \<Longrightarrow> m w = (Inr (), w') \<Longrightarrow>
     writer_ok w' \<and> writer_grows w w' \<and> w_version w' = v \<and> debug_info w' = debug_info w \<and>
     num_functions w' = num_functions w \<and>
     (\<exists>e. w_buf w' = w_buf w @ e \<and>
        (\<forall>T rest. file_tables T w' \<longrightarrow> d T (e @ rest) = Some (x, rest)))"
  shows "header_writes v m d x"
  using assms unfolding header_writes_def by blast

lemma header_writes_D:
  assumes "header_writes v m d x" and "writer_ok w" and "w_version w = v" and "m w = (Inr (), w')"
  obtains e where "writer_ok w'" and "writer_grows w w'" and "w_version w' = v"
    and "debug_info w' = debug_info w" and "num_functions w' = num_functions w"
    and "w_buf w' = w_buf w @ e"
    and "\<And>T rest. file_tables T w' \<Longrightarrow> d T (e @ rest) = Some (x, rest)"
  using assms unfolding header_writes_def by blast

lemma header_writes_bind:
  assumes m: "header_writes v m d x" and k: "header_writes v k (d' x) y"
  shows "header_writes v (bindE m (\<lambda>_. k)) (\<lambda>T. dec_bind (d T) (\<lambda>x. d' x T)) y"
proof (rule header_writes_I)
  fix w w'
  assume ok: "writer_ok w" and v: "w_version w = v" and "bindE m (\<lambda>_. k) w = (Inr (), w')"
  then obtain t where r1: "m w = (Inr (), t)" and r2: "k t = (Inr (), w')"
    by (auto simp: bindE_Inr_iff)
  obtain e1 where 1: "writer_ok t" "writer_grows w t" "w_version t = v" "debug_info t = debug_info w"
      "num_functions t = num_functions w" "w_buf t = w_buf w @ e1"
      "\<And>T rest. file_tables T t \<Longrightarrow> d T (e1 @ rest) = Some (x, rest)"
    by (rule header_writes_D [OF m ok v r1]) (rule that)
  obtain e2 where 2: "writer_ok w'" "writer_grows t w'" "w_version w' = v" "debug_info w' = debug_info t"
      "num_functions w' = num_functions t" "w_buf w' = w_buf t @ e2"
      "\<And>T rest. file_tables T w' \<Longrightarrow> d' x T (e2 @ rest) = Some (y, rest)"
    by (rule header_writes_D [OF k 1(1) 1(3) r2]) (rule that)
  have "dec_bind (d T) (\<lambda>x. d' x T) ((e1 @ e2) @ rest) = Some (y, rest)"
    if "file_tables T w'" for T rest
    using 1(7) [OF file_tables_earlier [OF that 2(2)], of "e2 @ rest"] 2(7) [OF that] by simp
  then show "writer_ok w' \<and> writer_grows w w' \<and> w_version w' = v \<and> debug_info w' = debug_info w \<and>
     num_functions w' = num_functions w \<and> (\<exists>e. w_buf w' = w_buf w @ e \<and>
        (\<forall>T rest. file_tables T w' \<longrightarrow> dec_bind (d T) (\<lambda>x. d' x T) (e @ rest) = Some (y, rest)))"
    using writer_grows_trans [OF 1(2) 2(2)] 1(4-6) 2(1,3-6)
    by (intro conjI exI [of _ "e1 @ e2"]) simp_all
qed

lemma header_writes_skip: "header_writes v skipE (\<lambda>T. dec_ret x) x"
  by (rule header_writes_I) auto

lemma header_writes_map:
  assumes "header_writes v m d x"
  shows "header_writes v m (\<lambda>T. dec_map f (d T)) (f x)"
proof -
  have "bindE m (\<lambda>_. skipE) = m"
    using bindE_ret_right [of m] by (simp add: skipE_def)
  then show ?thesis
    using header_writes_bind [where d' = "\<lambda>x T. dec_ret (f x)", OF assms header_writes_skip]
    by (simp only: dec_map_def)
qed

lemma header_writes_buf:
  assumes "\<And>b b'. m b = (Inr (), b') \<Longrightarrow> \<exists>e. b' = b @ e \<and> (\<forall>T rest. d T (e @ rest) = Some (x, rest))"
  shows "header_writes v (on_w_buf m) d x"
proof (rule header_writes_I)
  fix w w'
  assume ok: "writer_ok w" and v: "w_version w = v" and "on_w_buf m w = (Inr (), w')"
  then obtain b where "m (w_buf w) = (Inr (), b)" and w': "w' = w\<lparr>w_buf := b\<rparr>"
    by (auto simp: on_w_buf_def zoom_Inr_iff)
  then show "writer_ok w' \<and> writer_grows w w' \<and> w_version w' = v \<and> debug_info w' = debug_info w \<and>
     num_functions w' = num_functions w \<and> (\<exists>e. w_buf w' = w_buf w @ e \<and>
        (\<forall>T rest. file_tables T w' \<longrightarrow> d T (e @ rest) = Some (x, rest)))"
    using assms [of "w_buf w" b] ok v by (auto simp: writer_ok_def writer_grows_def)
qed

lemma header_writes_sbuf:
  assumes "wires m n (\<lambda>_. True) d x"
  shows "header_writes v (on_w_sbuf m) d x"
proof (rule header_writes_I)
  fix w w'
  assume ok: "writer_ok w" and v: "w_version w = v" and "on_w_sbuf m w = (Inr (), w')"
  then obtain t where r: "m (w_strings w, w_buf w) = (Inr (), t)"
    and w': "w' = w\<lparr>w_strings := fst t, w_buf := snd t\<rparr>"
    by (auto simp: on_w_sbuf_def zoom_Inr_iff)
  have ok': "table_ok StringId 0 (fst (w_strings w, w_buf w))" using ok by (simp add: writer_ok_def)
  obtain e where "table_ok StringId 0 (fst t)" "grows (fst (w_strings w, w_buf w)) (fst t)"
    "snd t = snd (w_strings w, w_buf w) @ e" "n \<le> length e"
    "\<And>T rest. covers (tab_strings T) (fst t) \<Longrightarrow> True \<Longrightarrow> d T (e @ rest) = Some (x, rest)"
    by (rule wires_D [OF assms ok' r]) (rule that)
  then show "writer_ok w' \<and> writer_grows w w' \<and> w_version w' = v \<and> debug_info w' = debug_info w \<and>
     num_functions w' = num_functions w \<and> (\<exists>e. w_buf w' = w_buf w @ e \<and>
        (\<forall>T rest. file_tables T w' \<longrightarrow> d T (e @ rest) = Some (x, rest)))"
    using ok v by (auto simp: w' writer_ok_def writer_grows_def file_tables_def)
qed

lemma header_writes_str:
  "header_writes v (bindE (on_w_strings (intern_str name)) (\<lambda>i. on_w_buf (encode_varint i))) dec_str (utf8 name)"
proof -
  have "bindE (on_w_strings (intern_str name)) (\<lambda>i. on_w_buf (encode_varint i)) = on_w_sbuf (encode_str name)"
    by (auto simp: on_w_strings_def on_w_buf_def on_w_sbuf_def encode_str_def on_strings_def on_bytes_def
        zoom_def bindE_def fun_eq_iff split: prod.splits sum.splits)
  then show ?thesis using header_writes_sbuf [OF wires_str] by simp
qed

lemma header_writes_version:
  assumes "header_writes v (f v) d x"
  shows "header_writes v (bindE (getE w_version) f) d x"
proof -
  have at: "bindE (getE w_version) f w = f v w" if "w_version w = v" for w
    using that by (simp add: bindE_def getE_def)
  show ?thesis
    by (rule header_writes_I, rule assms [unfolded header_writes_def, rule_format]) (simp_all only: at)
qed

definition dec_signature :: "bytecode_version \<Rightarrow> tables \<Rightarrow> (type_id list \<times> type_id list) dec" where
  "dec_signature v T = dec_bind (dec_index (tab_types T)) (\<lambda>e.
     case dec_type v e of Some (DFunction ps rs, []) \<Rightarrow> dec_ret (ps, rs) | _ \<Rightarrow> dec_fail)"

lemma header_writes_signature:
  "header_writes v (bindE (on_w_types (function_type ps rs)) (\<lambda>t. on_w_buf (encode_typeid t)))
     (dec_signature v) (ps, rs)"
proof (rule header_writes_I)
  fix w w'
  assume ok: "writer_ok w" and v: "w_version w = v"
    and "bindE (on_w_types (function_type ps rs)) (\<lambda>t. on_w_buf (encode_typeid t)) w = (Inr (), w')"
  then obtain i t where i: "intern_type v (DFunction ps rs) (w_types w) = (Inr i, t)"
    and nonneg: "0 \<le> type_id i"
    and w': "w' = w\<lparr>w_types := t, w_buf := w_buf w @ varint (type_id i)\<rparr>"
    by (auto simp: bindE_Inr_iff on_w_types_def on_w_buf_def zoom_Inr_iff)
  have "table_ok TypeId 0 (w_types w)" using ok by (simp add: writer_ok_def)
  from intern_type_entry [OF this i] obtain e where t: "table_ok TypeId 0 t" "grows (w_types w) t"
    "resolves (table_keys t) (type_id i) e" "dec_type v e = Some (DFunction ps rs, [])"
    by (auto simp: grows_def)
  have "dec_signature v T (varint (type_id i) @ rest) = Some ((ps, rs), rest)"
    if "file_tables T w'" for T rest
  proof -
    have "covers (tab_types T) t" using that by (simp add: file_tables_def w')
    from covers_resolves [OF this t(3)] show ?thesis
      by (simp add: dec_signature_def dec_index_resolves t(4))
  qed
  then show "writer_ok w' \<and> writer_grows w w' \<and> w_version w' = v \<and> debug_info w' = debug_info w \<and>
     num_functions w' = num_functions w \<and> (\<exists>e. w_buf w' = w_buf w @ e \<and>
        (\<forall>T rest. file_tables T w' \<longrightarrow> dec_signature v T (e @ rest) = Some ((ps, rs), rest)))"
    using ok v t by (auto simp: w' writer_ok_def writer_grows_def)
qed

definition dec_head_a :: "bytecode_version \<Rightarrow> tables \<Rightarrow> (bytes \<times> (type_id list \<times> type_id list) \<times> byte) dec" where
  "dec_head_a v T = dec_bind (dec_str T) (\<lambda>name. dec_map (Pair name)
     (dec_bind (dec_signature v T) (\<lambda>sig. dec_map (Pair sig) dec_byte)))"

definition dec_head_b :: "bytecode_version \<Rightarrow> byte \<Rightarrow> tables \<Rightarrow> (int \<times> wattr option) dec" where
  "dec_head_b v fl T = dec_bind dec_varint (\<lambda>di. dec_map (Pair di)
     (dec_bind (dec_opt (bit fl 1 \<and> (V_13_5 \<le> v \<or> bit fl 2)) (dec_attr_any T)) (\<lambda>h.
       dec_map (\<lambda>_. h) (if V_13_5 \<le> v then dec_map (\<lambda>_. ()) (dec_attr_any T) else dec_ret ()))))"

definition header_hints ::
    "bytecode_version \<Rightarrow> bool \<Rightarrow> (pystr \<times> entry_hints) list \<Rightarrow> wattr option" where
  "header_hints v entry_point hints = (if entry_point \<and> (hints \<noteq> [] \<or> V_13_5 \<le> v)
     then Some (wire_attr (make_entry_hints hints)) else None)"

lemma entry_flags_bits:
  "0 \<le> entry_flags v e h" "entry_flags v e h < 256"
  "bit (word_of_int (entry_flags v e h) :: byte) 1 \<longleftrightarrow> e"
  "bit (word_of_int (entry_flags v e h) :: byte) 2 \<longleftrightarrow> e \<and> h \<noteq> [] \<and> \<not> V_13_5 \<le> v"
  by (auto simp: entry_flags_def bit_iff_odd)

lemma entry_hints_typed:
  "attr_typed tys (make_entry_hints hints)" "attr_typed tys (AttributeArray [])"
proof -
  have "attr_typed tys (entry_hints_as_dictionary h)" for h
    by (simp add: entry_hints_as_dictionary_def opt_item_def create_i32_def split: option.splits)
  then show "attr_typed tys (make_entry_hints hints)"
    by (induction hints) (auto simp: make_entry_hints_def)
qed simp

lemma header_writes_attr:
  assumes "\<And>tys. attr_typed tys a"
  shows "header_writes v (on_w_sbuf (encode_tagged a)) dec_attr_any (wire_attr a)"
proof (rule header_writes_sbuf)
  show "wires (encode_tagged a) (attr_depth a) (\<lambda>_. True) dec_attr_any (wire_attr a)"
    by (rule wires_weaken [OF wires_attr_any]) (simp_all add: assms)
qed

lemma head_a_writes:
  "header_writes v (bindE (bindE (on_w_strings (intern_str name)) (\<lambda>i. on_w_buf (encode_varint i))) (\<lambda>_.
     bindE (bindE (on_w_types (function_type ps rs)) (\<lambda>t. on_w_buf (encode_typeid t))) (\<lambda>_.
     bindE (getE w_version) (\<lambda>version. on_w_buf (buf_append (entry_flags version entry hints))))))
   (dec_head_a v) (utf8 name, (ps, rs), word_of_int (entry_flags v entry hints))"
proof -
  have fl: "header_writes v (bindE (getE w_version) (\<lambda>version. on_w_buf (buf_append (entry_flags version entry hints))))
      (\<lambda>T. dec_byte) (word_of_int (entry_flags v entry hints))"
    by (intro header_writes_version header_writes_buf) auto
  show ?thesis unfolding dec_head_a_def
    by (rule header_writes_bind [where d' = "\<lambda>name T. dec_map (Pair name)
          (dec_bind (dec_signature v T) (\<lambda>sig. dec_map (Pair sig) dec_byte))", OF header_writes_str],
        rule header_writes_map,
        rule header_writes_bind [where d' = "\<lambda>sig T. dec_map (Pair sig) dec_byte", OF header_writes_signature],
        rule header_writes_map, rule fl)
qed

lemma head_b_writes:
  assumes "fl = word_of_int (entry_flags v entry hints)"
  shows "header_writes v (bindE (on_w_buf (encode_varint n)) (\<lambda>_.
     bindE (bindE (getE w_version) (\<lambda>version. if entry \<and> (hints \<noteq> [] \<or> version \<ge> V_13_5)
             then on_w_sbuf (encode_tagged (make_entry_hints hints)) else skipE)) (\<lambda>_.
     bindE (getE w_version) (\<lambda>version.
          if version \<ge> V_13_5 then on_w_sbuf (encode_tagged (AttributeArray [])) else skipE))))
   (dec_head_b v fl) (n, header_hints v entry hints)"
proof -
  have n: "header_writes v (on_w_buf (encode_varint n)) (\<lambda>T. dec_varint) n"
    by (rule header_writes_buf) (auto simp: varint.dec_enc split: if_splits)
  have h: "header_writes v (bindE (getE w_version) (\<lambda>version. if entry \<and> (hints \<noteq> [] \<or> version \<ge> V_13_5)
             then on_w_sbuf (encode_tagged (make_entry_hints hints)) else skipE))
      (\<lambda>T. dec_opt (bit fl 1 \<and> (V_13_5 \<le> v \<or> bit fl 2)) (dec_attr_any T)) (header_hints v entry hints)"
  proof (rule header_writes_version, cases "entry \<and> (hints \<noteq> [] \<or> V_13_5 \<le> v)")
    case True
    then have "bit fl 1 \<and> (V_13_5 \<le> v \<or> bit fl 2)"
      using entry_flags_bits(3,4) [of v entry hints] by (auto simp: assms)
    with True show "header_writes v (if entry \<and> (hints \<noteq> [] \<or> V_13_5 \<le> v)
        then on_w_sbuf (encode_tagged (make_entry_hints hints)) else skipE)
      (\<lambda>T. dec_opt (bit fl 1 \<and> (V_13_5 \<le> v \<or> bit fl 2)) (dec_attr_any T)) (header_hints v entry hints)"
      using header_writes_map [where f = Some, OF header_writes_attr [OF entry_hints_typed(1)], of v hints]
      by (simp only: dec_opt_def header_hints_def if_True simp_thms)
  next
    case False
    then have "\<not> (bit fl 1 \<and> (V_13_5 \<le> v \<or> bit fl 2))"
      using entry_flags_bits(3,4) [of v entry hints] by (auto simp: assms)
    with False show "header_writes v (if entry \<and> (hints \<noteq> [] \<or> V_13_5 \<le> v)
        then on_w_sbuf (encode_tagged (make_entry_hints hints)) else skipE)
      (\<lambda>T. dec_opt (bit fl 1 \<and> (V_13_5 \<le> v \<or> bit fl 2)) (dec_attr_any T)) (header_hints v entry hints)"
      by (simp only: dec_opt_def header_hints_def if_False simp_thms header_writes_skip)
  qed
  have a: "header_writes v (bindE (getE w_version) (\<lambda>version.
          if version \<ge> V_13_5 then on_w_sbuf (encode_tagged (AttributeArray [])) else skipE))
      (\<lambda>T. if V_13_5 \<le> v then dec_map (\<lambda>_. ()) (dec_attr_any T) else dec_ret ()) ()"
    by (rule header_writes_version, cases "V_13_5 \<le> v")
      (simp_all only: if_True if_False header_writes_skip
        header_writes_map [where f = "\<lambda>_. ()", OF header_writes_attr [OF entry_hints_typed(2)]])
  show ?thesis unfolding dec_head_b_def
    by (rule header_writes_bind [where d' = "\<lambda>di T. dec_map (Pair di)
     (dec_bind (dec_opt (bit fl 1 \<and> (V_13_5 \<le> v \<or> bit fl 2)) (dec_attr_any T)) (\<lambda>h.
       dec_map (\<lambda>_. h) (if V_13_5 \<le> v then dec_map (\<lambda>_. ()) (dec_attr_any T) else dec_ret ())))", OF n],
        rule header_writes_map,
        rule header_writes_bind [where d' = "\<lambda>h T. dec_map (\<lambda>_. h)
          (if V_13_5 \<le> v then dec_map (\<lambda>_. ()) (dec_attr_any T) else dec_ret ())", OF h],
        rule header_writes_map [OF a])
qed

section \<open>Functions\<close>

definition dec_header ::
    "bytecode_version \<Rightarrow> tables \<Rightarrow> (bytes \<times> (type_id list \<times> type_id list) \<times> byte \<times> int \<times> wattr option) dec" where
  "dec_header v T = dec_bind (dec_head_a v T) (\<lambda>(name, sig, fl).
     dec_map (\<lambda>(di, h). (name, sig, fl, di, h)) (dec_head_b v fl T))"

lemma function_header_dec:
  assumes run: "function_header name ps rs entry hints dbg w = (Inr (), w')"
    and ok: "writer_ok w" and v: "w_version w = v"
  obtains e where "writer_ok w'" and "writer_grows w w'" and "w_version w' = v"
    and "debug_info w' = debug_info w @ [[dbg]]" and "num_functions w' = num_functions w + 1"
    and "w_buf w' = w_buf w @ e"
    and "\<And>T rest. file_tables T w' \<Longrightarrow> dec_header v T (e @ rest) =
      Some ((utf8 name, (ps, rs), word_of_int (entry_flags v entry hints),
        int (length (debug_info w)) + 1, header_hints v entry hints), rest)"
proof -
  let ?w0 = "w\<lparr>num_functions := num_functions w + 1\<rparr>"
  let ?A = "bindE (bindE (on_w_strings (intern_str name)) (\<lambda>i. on_w_buf (encode_varint i))) (\<lambda>_.
     bindE (bindE (on_w_types (function_type ps rs)) (\<lambda>t. on_w_buf (encode_typeid t))) (\<lambda>_.
     bindE (getE w_version) (\<lambda>version. on_w_buf (buf_append (entry_flags version entry hints)))))"
  let ?B = "\<lambda>n. bindE (on_w_buf (encode_varint n)) (\<lambda>_.
     bindE (bindE (getE w_version) (\<lambda>version. if entry \<and> (hints \<noteq> [] \<or> version \<ge> V_13_5)
             then on_w_sbuf (encode_tagged (make_entry_hints hints)) else skipE)) (\<lambda>_.
     bindE (getE w_version) (\<lambda>version.
          if version \<ge> V_13_5 then on_w_sbuf (encode_tagged (AttributeArray [])) else skipE)))"
  have "bindE ?A (\<lambda>_. bindE (modifyE (\<lambda>w. w\<lparr>debug_info := debug_info w @ [[dbg]]\<rparr>)) (\<lambda>_.
      bindE (getE (\<lambda>w. int (length (debug_info w)))) ?B)) ?w0 = (Inr (), w')"
    using run unfolding function_header_def seqE.simps bindE_assoc
    by (simp only: bindE_modify)
  then obtain u w1 where A: "?A ?w0 = (Inr u, w1)"
    and R: "bindE (modifyE (\<lambda>w. w\<lparr>debug_info := debug_info w @ [[dbg]]\<rparr>)) (\<lambda>_.
      bindE (getE (\<lambda>w. int (length (debug_info w)))) ?B) w1 = (Inr (), w')"
    by (rule bindE_Inr_E)
  have "u = ()" by simp
  with A have A: "?A ?w0 = (Inr (), w1)" by (simp only:)
  have n: "int (length (debug_info (w1\<lparr>debug_info := debug_info w1 @ [[dbg]]\<rparr>))) =
    int (length (debug_info w1)) + 1" by simp
  from R have B: "?B (int (length (debug_info w1)) + 1) (w1\<lparr>debug_info := debug_info w1 @ [[dbg]]\<rparr>) = (Inr (), w')"
    unfolding bindE_modify bindE_get by (simp only: n)
  have "writer_ok ?w0" "w_version ?w0 = v" using ok v by (simp_all add: writer_ok_def)
  from this A obtain e1 where 1: "writer_ok w1" "writer_grows ?w0 w1" "w_version w1 = v"
      "debug_info w1 = debug_info ?w0" "num_functions w1 = num_functions ?w0" "w_buf w1 = w_buf ?w0 @ e1"
      "\<And>T rest. file_tables T w1 \<Longrightarrow> dec_head_a v T (e1 @ rest) =
        Some ((utf8 name, (ps, rs), word_of_int (entry_flags v entry hints)), rest)"
    by (rule header_writes_D [OF head_a_writes]) (rule that)
  let ?w2 = "w1\<lparr>debug_info := debug_info w1 @ [[dbg]]\<rparr>"
  have "writer_ok ?w2" "w_version ?w2 = v" using 1(1,3) by (simp_all add: writer_ok_def)
  from this B obtain e2 where 2: "writer_ok w'" "writer_grows ?w2 w'" "w_version w' = v"
      "debug_info w' = debug_info ?w2" "num_functions w' = num_functions ?w2" "w_buf w' = w_buf ?w2 @ e2"
      "\<And>T rest. file_tables T w' \<Longrightarrow> dec_head_b v (word_of_int (entry_flags v entry hints)) T (e2 @ rest) =
        Some ((int (length (debug_info w1)) + 1, header_hints v entry hints), rest)"
    by (rule header_writes_D [OF head_b_writes [OF refl]]) (rule that)
  have grow: "writer_grows w1 w'" "writer_grows w w1" using 1(2) 2(2) by (simp_all add: writer_grows_def)
  show ?thesis
  proof (rule that [of "e1 @ e2"])
    fix T rest
    assume T: "file_tables T w'"
    from 1(7) [OF file_tables_earlier [OF T grow(1)], of "e2 @ rest"] 2(7) [OF T, of rest]
    show "dec_header v T ((e1 @ e2) @ rest) =
      Some ((utf8 name, (ps, rs), word_of_int (entry_flags v entry hints),
        int (length (debug_info w)) + 1, header_hints v entry hints), rest)"
      using 1(4) by (simp add: dec_header_def)
  qed (use 1 2 writer_grows_trans [OF grow(2,1)] in simp_all)
qed

text \<open>Reading instructions until the code of the function is exhausted.\<close>

primrec dec_until :: "'a dec \<Rightarrow> nat \<Rightarrow> bytes \<Rightarrow> 'a list option" where
  "dec_until d 0 bs = (if bs = [] then Some [] else None)"
| "dec_until d (Suc n) bs = (if bs = [] then Some [] else
     (case d bs of None \<Rightarrow> None | Some (x, rest) \<Rightarrow> map_option (Cons x) (dec_until d n rest)))"

lemma dec_until_dec_n:
  "d [] = None \<Longrightarrow> dec_n d (length xs) bs = Some (xs, []) \<Longrightarrow> length xs \<le> n \<Longrightarrow> dec_until d n bs = Some xs"
proof (induction xs arbitrary: n bs)
  case Nil
  then show ?case by (cases n) simp_all
next
  case (Cons x xs)
  obtain m where m: "n = Suc m" "length xs \<le> m" using Cons.prems(3) by (cases n) auto
  obtain r where "d bs = Some (x, r)" "dec_n d (length xs) r = Some (xs, [])"
    using Cons.prems(2) by (auto simp: dec_map_def dec_bind_def split: option.splits)
  then show ?case using Cons.IH [of r m] Cons.prems(1) m by auto
qed

lemma dec_instr_Nil: "dec_instr n v T [] = None"
  by (cases n) (simp_all add: dec_fail_def dec_op_def dec_bind_def)

datatype func_entry = FuncEntry (fe_name: bytes) (fe_params: "type_id list") (fe_results: "type_id list")
  (fe_flags: int) (fe_debug: int) (fe_hints: "wattr option") (fe_body: "instr list")

definition dec_func :: "bytecode_version \<Rightarrow> nat \<Rightarrow> tables \<Rightarrow> func_entry dec" where
  "dec_func v n T = dec_bind (dec_header v T) (\<lambda>(name, (ps, rs), fl, di, h).
     dec_bind dec_varint (\<lambda>k. dec_bind (dec_take (nat k)) (\<lambda>code.
     case dec_until (dec_instr n v T) n code of
       None \<Rightarrow> dec_fail
     | Some is \<Rightarrow> dec_ret (FuncEntry name ps rs (uint fl) di h is))))"

definition body_fuel :: "instr list \<Rightarrow> nat" where
  "body_fuel is = max (instrs_depth is) (length is)"

text \<open>
  \<open>body_ok v Q s is t\<close>: the body of a \<^verbatim>\<open>with writer.function(...)\<close> statement went from \<open>s\<close> to
  \<open>t\<close>: seen through the builder it emitted \<open>is\<close>; it may have interned types, strings,
  constants and debug attributes and defined globals, but wrote no other function.
\<close>

definition body_ok ::
    "bytecode_version \<Rightarrow> (bytes list \<Rightarrow> bool) \<Rightarrow> writer \<times> func_state \<Rightarrow> instr list \<Rightarrow> writer \<times> func_state \<Rightarrow> bool" where
  "body_ok v Q s is t \<longleftrightarrow> emits v Q (builder_view s) is (builder_view t) \<and>
     writer_ok (fst t) \<and> writer_grows (fst s) (fst t) \<and> w_buf (fst t) = w_buf (fst s) \<and>
     w_version (fst t) = w_version (fst s) \<and> num_functions (fst t) = num_functions (fst s) \<and>
     fs_index (snd t) = fs_index (snd s) \<and>
     debug_info (fst t) = (debug_info (fst s))[fs_index (snd s) := debug_attr_per_op (builder_view t)]"

text \<open>The operations recorded for a function: the function itself, then its instructions.\<close>

definition op_count :: "func_entry \<Rightarrow> nat" where
  "op_count f = Suc (length (concat (List.map instr_ops (fe_body f))))"

text \<open>The parameters and the builder handed to the body of a function.\<close>

definition start_params :: "nat \<Rightarrow> bc_value list" where
  "start_params n = List.map Value [0..int n - 1]"

definition start_state :: "writer \<Rightarrow> nat \<Rightarrow> writer \<times> func_state" where
  "start_state w n = (w, \<lparr>fs_index = length (debug_info w) - 1, fs_buf = [], fs_next_value_id = int n,
     fs_cur_debug_attr = DebugAttrId 0, fs_num_ops = 0\<rparr>)"

lemma function_def_run:
  assumes "function_header name ps rs entry hints dbg w = (Inr (), w1)" and "debug_info w1 \<noteq> []"
  shows "function_def name ps rs entry hints dbg body w =
    (case body (start_params (length ps)) (start_state w1 (length ps)) of
       (Inl e, (w', f')) \<Rightarrow> (Inl e, w')
     | (Inr _, (w', f')) \<Rightarrow> seqE [on_w_buf (encode_varint (int (length (fs_buf f'))))]
         (on_w_buf (buf_extend (fs_buf f'))) w')"
proof -
  have "bindE (in_builder (make_value_tuple (length ps))) body
      (w1, \<lparr>fs_index = length (debug_info w1) - 1, fs_buf = [], fs_next_value_id = 0,
        fs_cur_debug_attr = DebugAttrId 0, fs_num_ops = 0\<rparr>) =
    body (start_params (length ps)) (start_state w1 (length ps))"
    using assms(2) by (subst bindE_Inr) (simp_all add: in_builder_def zoom_def make_value_tuple_def Let_def
        builder_view_def builder_put_def start_params_def start_state_def)
  then show ?thesis
    unfolding function_def_def seqE.simps
    by (subst bindE_Inr [where m = "function_header name ps rs entry hints dbg" and s = w, OF assms(1)])
      (simp add: new_builder_def bindE_get)
qed

text \<open>A function: its header, then its code, read back as one entry.\<close>

lemma function_def_dec:
  assumes header: "function_header name ps rs entry hints dbg w = (Inr (), w1)"
    and run: "function_def name ps rs entry hints dbg body w = (Inr (), w')"
    and body: "\<And>t. body (start_params (length ps)) (start_state w1 (length ps)) = (Inr (), t) \<Longrightarrow>
      body_ok v Q (start_state w1 (length ps)) is t"
    and ok: "writer_ok w" and v: "w_version w = v"
  shows "\<exists>e as. writer_ok w' \<and> writer_grows w w' \<and> w_version w' = v \<and>
    num_functions w' = num_functions w + 1 \<and>
    debug_info w' = debug_info w @ [dbg # as] \<and> length as = length (concat (List.map instr_ops is)) \<and>
    w_buf w' = w_buf w @ e \<and>
    (\<forall>T n rest. file_tables T w' \<longrightarrow> Q (tab_types T) \<longrightarrow> body_fuel is \<le> n \<longrightarrow> dec_func v n T (e @ rest) =
      Some (FuncEntry (utf8 name) ps rs (entry_flags v entry hints) (int (length (debug_info w)) + 1)
        (header_hints v entry hints) is, rest))"
proof -
  obtain e1 where 1: "writer_ok w1" "writer_grows w w1" "w_version w1 = v"
    "debug_info w1 = debug_info w @ [[dbg]]" "num_functions w1 = num_functions w + 1"
    "w_buf w1 = w_buf w @ e1"
    "\<And>T rest. file_tables T w1 \<Longrightarrow> dec_header v T (e1 @ rest) =
      Some ((utf8 name, (ps, rs), word_of_int (entry_flags v entry hints),
        int (length (debug_info w)) + 1, header_hints v entry hints), rest)"
    by (rule function_header_dec [OF header ok v]) (rule that)
  let ?s = "start_state w1 (length ps)"
  have "debug_info w1 \<noteq> []" by (simp add: 1(4))
  from run [unfolded function_def_run [OF header this]] obtain w2 f2 where
    b: "body (start_params (length ps)) ?s = (Inr (), (w2, f2))"
    and w': "w' = w2\<lparr>w_buf := (w_buf w2 @ varint (int (length (fs_buf f2)))) @ fs_buf f2\<rparr>"
    by (auto simp: bindE_Inr_iff on_w_buf_def zoom_Inr_iff split: prod.splits sum.splits)
  note bo = body [OF b, unfolded body_ok_def]
  have "cb_version (builder_view ?s) = v" "cb_ok (builder_view ?s)"
    using 1(1,3) by (simp_all add: builder_view_def start_state_def cb_ok_def writer_ok_def)
  from emits_stream(1) [OF conjunct1 [OF bo] this]
  have "instrs_stream v Q (builder_view ?s) is (builder_view (w2, f2))" ..
  then obtain as e2 where st: "debug_attr_per_op (builder_view (w2, f2)) = debug_attr_per_op (builder_view ?s) @ as"
    "length as = length (concat (List.map instr_ops is))" "buf (builder_view (w2, f2)) = buf (builder_view ?s) @ e2"
    "\<And>T rest n. later T (builder_view (w2, f2)) \<Longrightarrow> Q (tab_types T) \<Longrightarrow> instrs_depth is \<le> n \<Longrightarrow>
      dec_n (dec_instr n v T) (length is) (e2 @ rest) = Some (is, rest)"
    by (rule stream_ok_E) (rule that)
  have code: "fs_buf f2 = e2" using st(3) by (simp add: builder_view_def start_state_def)
  have dbg: "debug_info w2 = debug_info w @ [dbg # as]"
  proof -
    have "debug_attr_per_op (builder_view ?s) = [dbg]"
      by (simp add: start_state_def builder_view_def 1(4))
    with st(1) have "debug_attr_per_op (builder_view (w2, f2)) = dbg # as" by simp
    moreover have "fs_index (snd ?s) = length (debug_info w)" "debug_info (fst ?s) = debug_info w @ [[dbg]]"
      by (simp_all add: start_state_def 1(4))
    moreover have "debug_info (fst (w2, f2)) =
        (debug_info (fst ?s))[fs_index (snd ?s) := debug_attr_per_op (builder_view (w2, f2))]"
      using bo by blast
    ultimately show ?thesis by simp
  qed
  have grow: "writer_grows w1 w'" "writer_ok w'" "writer_grows w1 w2"
    using bo by (simp_all add: start_state_def w' writer_grows_def writer_ok_def)
  let ?e = "e1 @ varint (int (length e2)) @ e2"
  have dec: "dec_func v n T (?e @ rest) =
      Some (FuncEntry (utf8 name) ps rs (entry_flags v entry hints) (int (length (debug_info w)) + 1)
        (header_hints v entry hints) is, rest)"
    if T: "file_tables T w'" "Q (tab_types T)" "body_fuel is \<le> n" for T n rest
  proof -
    have "later T (builder_view (w2, f2))"
      using T(1) by (simp add: file_tables_def later_def builder_view_def w')
    from st(4) [OF this T(2), of n "[]"] T(3)
    have "dec_n (dec_instr n v T) (length is) e2 = Some (is, [])" by (simp add: body_fuel_def)
    from dec_until_dec_n [OF dec_instr_Nil this, of n] T(3)
    have "dec_until (dec_instr n v T) n e2 = Some is" by (simp add: body_fuel_def)
    moreover have "uint (word_of_int (entry_flags v entry hints) :: byte) = entry_flags v entry hints"
      by (rule uint_of_int_byte) (rule entry_flags_bits)+
    ultimately show ?thesis
      using 1(7) [OF file_tables_earlier [OF T(1) grow(1)], of "varint (int (length e2)) @ e2 @ rest"]
      by (simp add: dec_func_def varint.dec_enc)
  qed
  have "w_buf w' = w_buf w @ ?e" using bo 1(6) by (simp add: w' code start_state_def)
  moreover have "w_version w' = v" "num_functions w' = num_functions w + 1" "debug_info w' = debug_info w @ [dbg # as]"
    using bo 1 dbg by (simp_all add: w' start_state_def)
  ultimately show ?thesis
    using dec grow(2) writer_grows_trans [OF 1(2) grow(1)] st(2) by blast
qed

section \<open>Programs\<close>

text \<open>
  \<open>builds v Q w fs w'\<close>: a client of the writer that interns types and debug attributes, defines
  globals and writes the functions \<open>fs\<close>, in any order.
\<close>

inductive builds ::
    "bytecode_version \<Rightarrow> (bytes list \<Rightarrow> bool) \<Rightarrow> writer \<Rightarrow> func_entry list \<Rightarrow> writer \<Rightarrow> bool"
  for v Q
where
  builds_Nil: "builds v Q w [] w"
| builds_type:
    "on_w_types (intern_type v d) w = (Inr i, w1) \<Longrightarrow> builds v Q w1 fs w' \<Longrightarrow> builds v Q w fs w'"
| builds_debug:
    "on_w_debug (intern_debug v d) w = (Inr i, w1) \<Longrightarrow> builds v Q w1 fs w' \<Longrightarrow> builds v Q w fs w'"
| builds_global:
    "define_global name type data alignment constant vis w = (Inr (), w1) \<Longrightarrow> builds v Q w1 fs w' \<Longrightarrow>
     builds v Q w fs w'"
| builds_function:
    "function_header name ps rs entry hints dbg w = (Inr (), w0) \<Longrightarrow>
     function_def name ps rs entry hints dbg body w = (Inr (), w1) \<Longrightarrow>
     (\<forall>t. body (start_params (length ps)) (start_state w0 (length ps)) = (Inr (), t) \<longrightarrow>
        body_ok v Q (start_state w0 (length ps)) is t) \<Longrightarrow>
     f = FuncEntry (utf8 name) ps rs (entry_flags v entry hints) (int (length (debug_info w)) + 1)
        (header_hints v entry hints) is \<Longrightarrow>
     builds v Q w1 fs w' \<Longrightarrow> builds v Q w (f # fs) w'"

text \<open>The steps that write no function leave the function section alone.\<close>

definition writer_quiet :: "writer \<Rightarrow> writer \<Rightarrow> bool" where
  "writer_quiet w w' \<longleftrightarrow> writer_ok w' \<and> writer_grows w w' \<and> w_version w' = w_version w \<and>
     num_functions w' = num_functions w \<and> debug_info w' = debug_info w \<and> w_buf w' = w_buf w"

lemma type_quiet:
  assumes "on_w_types (intern_type v d) w = (Inr i, w')" and "writer_ok w"
  shows "writer_quiet w w'"
proof -
  obtain t where t: "intern_type v d (w_types w) = (Inr i, t)" and w': "w' = w\<lparr>w_types := t\<rparr>"
    using assms(1) by (auto simp: on_w_types_def zoom_Inr_iff)
  have "table_ok TypeId 0 (w_types w)" using assms(2) by (simp add: writer_ok_def)
  from intern_type_entry [OF this t] show ?thesis
    using assms(2) by (auto simp: w' writer_quiet_def writer_ok_def writer_grows_def grows_def)
qed

lemma debug_quiet:
  assumes "on_w_debug (intern_debug v d) w = (Inr i, w')" and "writer_ok w"
  shows "writer_quiet w w'"
proof -
  obtain ss as where t: "intern_debug v d (w_strings w, w_debug_attrs w) = (Inr i, (ss, as))"
    and w': "w' = w\<lparr>w_strings := ss, w_debug_attrs := as\<rparr>"
    using assms(1) by (auto simp: on_w_debug_def zoom_Inr_iff)
  have "table_ok StringId 0 (w_strings w)" "table_ok DebugAttrId 1 (w_debug_attrs w)"
    using assms(2) by (simp_all add: writer_ok_def)
  from intern_debug_entry [OF this t] show ?thesis
    using assms(2) by (auto simp: w' writer_quiet_def writer_ok_def writer_grows_def)
qed

text \<open>Statements made of such steps.\<close>

definition quietE :: "'a wr \<Rightarrow> bool" where
  "quietE m \<longleftrightarrow> (\<forall>w x w'. writer_ok w \<longrightarrow> m w = (Inr x, w') \<longrightarrow> writer_quiet w w')"

lemma writer_quiet_trans: "writer_quiet w u \<Longrightarrow> writer_quiet u x \<Longrightarrow> writer_quiet w x"
  unfolding writer_quiet_def using writer_grows_trans [of w u x] by simp

lemma writer_quiet_globals: "writer_ok w \<Longrightarrow> writer_quiet w (w\<lparr>w_globals := g\<rparr>)"
  by (simp add: writer_quiet_def writer_ok_def writer_grows_def)

lemma quietE_bind:
  assumes m: "quietE m" and k: "\<And>y. quietE (k y)"
  shows "quietE (bindE m k)"
  unfolding quietE_def
proof (intro allI impI)
  fix w x w'
  assume ok: "writer_ok w" and "bindE m k w = (Inr x, w')"
  then obtain y u where r: "m w = (Inr y, u)" "k y u = (Inr x, w')" by (auto simp: bindE_Inr_iff)
  have q: "writer_quiet w u" using m ok r(1) by (auto simp: quietE_def)
  then have "writer_ok u" by (simp add: writer_quiet_def)
  then have "writer_quiet u w'" using k [of y] r(2) by (auto simp: quietE_def)
  with q show "writer_quiet w w'" by (rule writer_quiet_trans)
qed

lemma quietE_get: "quietE (getE f)"
  by (simp add: quietE_def getE_def writer_quiet_def)

lemma quietE_skip: "quietE skipE"
  by (simp add: quietE_def writer_quiet_def)

lemma quietE_raise: "quietE (raiseE e)"
  by (simp add: quietE_def)

lemma quietE_globals: "quietE (modifyE (\<lambda>w. w\<lparr>w_globals := f w\<rparr>))"
  by (simp add: quietE_def modifyE_def writer_quiet_globals)

lemma quietE_contents: "quietE (on_contents m)"
  unfolding quietE_def
  by (auto simp: on_contents_def zoom_Inr_iff writer_quiet_globals)

lemma quietE_strings: "quietE (on_w_strings (intern_str name))"
  unfolding quietE_def
proof (intro allI impI)
  fix w i w'
  assume ok: "writer_ok w" and "on_w_strings (intern_str name) w = (Inr i, w')"
  then obtain t where t: "intern_str name (w_strings w) = (Inr i, t)" and w': "w' = w\<lparr>w_strings := t\<rparr>"
    by (auto simp: on_w_strings_def zoom_Inr_iff)
  have "table_ok StringId 0 (w_strings w)" using ok by (simp add: writer_ok_def)
  from intern_str_success [OF this t] show "writer_quiet w w'"
    using ok by (auto simp: w' writer_quiet_def writer_ok_def writer_grows_def grows_def)
qed

lemma quietE_constants: "quietE (on_w_constants (dense_constant data))"
  unfolding quietE_def
proof (intro allI impI)
  fix w i w'
  assume ok: "writer_ok w" and "on_w_constants (dense_constant data) w = (Inr i, w')"
  then obtain t where t: "constant_table_getitem (constant_entry data) (w_constants w) = (Inr i, t)"
    and w': "w' = w\<lparr>w_constants := t\<rparr>"
    by (auto simp: on_w_constants_def zoom_Inr_iff dense_constant_eq)
  have "table_ok ConstantId 0 (w_constants w)" using ok by (simp add: writer_ok_def)
  from constants.getitem_position [OF this t] constants.keys_grow [OF this t] show "writer_quiet w w'"
    using ok by (auto simp: w' writer_quiet_def writer_ok_def writer_grows_def grows_def)
qed

lemma quietE_if: "quietE m \<Longrightarrow> quietE k \<Longrightarrow> quietE (if b then m else k)"
  by simp

lemma global_quiet: "quietE (define_global name ty data al c vis)"
  unfolding define_global_def seqE.simps
  by (intro quietE_bind quietE_if quietE_get quietE_raise quietE_strings quietE_constants quietE_contents
      quietE_skip quietE_globals)

theorem builds_dec:
  assumes "builds v Q w fs w'" and "writer_ok w" and "w_version w = v"
  shows "\<exists>e. writer_ok w' \<and> writer_grows w w' \<and> w_version w' = v \<and>
    num_functions w' = num_functions w + int (length fs) \<and>
    List.map length (debug_info w') = List.map length (debug_info w) @ List.map op_count fs \<and>
    w_buf w' = w_buf w @ e \<and>
    (\<forall>T n rest. file_tables T w' \<longrightarrow> Q (tab_types T) \<longrightarrow> (\<forall>f \<in> set fs. body_fuel (fe_body f) \<le> n) \<longrightarrow>
       dec_n (dec_func v n T) (length fs) (e @ rest) = Some (fs, rest))"
  using assms
proof (induction rule: builds.induct)
  case (builds_Nil w)
  then show ?case by simp
next
  case (builds_type d w i w1 fs w')
  have q: "writer_quiet w w1" by (rule type_quiet [OF builds_type(1,4)])
  with builds_type show ?case
    using writer_grows_trans [of w w1 w'] by (simp add: writer_quiet_def)
next
  case (builds_debug d w i w1 fs w')
  have q: "writer_quiet w w1" by (rule debug_quiet [OF builds_debug(1,4)])
  with builds_debug show ?case
    using writer_grows_trans [of w w1 w'] by (simp add: writer_quiet_def)
next
  case (builds_global name ty data al c vis w w1 fs w')
  have q: "writer_quiet w w1"
    using global_quiet builds_global(1,4) unfolding quietE_def by blast
  with builds_global show ?case
    using writer_grows_trans [of w w1 w'] by (simp add: writer_quiet_def)
next
  case (builds_function name ps rs entry hints dbg w w0 body w1 "is" f fs w')
  have "body_ok v Q (start_state w0 (length ps)) is t"
    if "body (start_params (length ps)) (start_state w0 (length ps)) = (Inr (), t)" for t
    using builds_function(3) that by blast
  from function_def_dec [OF builds_function(1,2) this builds_function(7,8)]
  obtain e1 as where 1: "writer_ok w1" "writer_grows w w1" "w_version w1 = v"
    "num_functions w1 = num_functions w + 1" "debug_info w1 = debug_info w @ [dbg # as]"
    "length as = length (concat (List.map instr_ops is))" "w_buf w1 = w_buf w @ e1"
    "\<And>T n rest. file_tables T w1 \<Longrightarrow> Q (tab_types T) \<Longrightarrow> body_fuel is \<le> n \<Longrightarrow>
      dec_func v n T (e1 @ rest) = Some (f, rest)"
    unfolding builds_function(4) by blast
  from builds_function(6) [OF 1(1,3)] obtain e2 where 2: "writer_ok w'" "writer_grows w1 w'" "w_version w' = v"
    "num_functions w' = num_functions w1 + int (length fs)"
    "List.map length (debug_info w') = List.map length (debug_info w1) @ List.map op_count fs"
    "w_buf w' = w_buf w1 @ e2"
    "\<And>T n rest. file_tables T w' \<Longrightarrow> Q (tab_types T) \<Longrightarrow> (\<forall>f \<in> set fs. body_fuel (fe_body f) \<le> n) \<Longrightarrow>
       dec_n (dec_func v n T) (length fs) (e2 @ rest) = Some (fs, rest)"
    by blast
  have f: "fe_body f = is" by (simp add: builds_function(4))
  have "dec_n (dec_func v n T) (length (f # fs)) ((e1 @ e2) @ rest) = Some (f # fs, rest)"
    if T: "file_tables T w'" "Q (tab_types T)" "\<forall>f \<in> set (f # fs). body_fuel (fe_body f) \<le> n" for T n rest
    using 1(8) [OF file_tables_earlier [OF T(1) 2(2)] T(2), of n "e2 @ rest"] 2(7) [OF T(1,2), of n rest]
      T(3) f by simp
  moreover have "List.map length (debug_info w') =
      List.map length (debug_info w) @ List.map op_count (f # fs)"
    using 2(5) 1(5,6) by (simp add: op_count_def f)
  ultimately show ?case
    using 1(4,7) 2(1,3,4,6) writer_grows_trans [OF 1(2) 2(2)] by (intro exI [of _ "e1 @ e2"]) simp
qed

section \<open>Reading a file\<close>

definition version_of :: "int \<Rightarrow> int \<Rightarrow> bytecode_version option" where
  "version_of major minor = List.find (\<lambda>v. version_major v = major \<and> version_minor v = minor)
     [V_13_1, V_13_2, V_13_3, V_13_4, V_13_5]"

definition section_table :: "(int \<times> bytes) list \<Rightarrow> int \<Rightarrow> nat \<Rightarrow> bytes list option" where
  "section_table secs i w = (case map_of secs i of None \<Rightarrow> None
     | Some c \<Rightarrow> map_option fst (dec_table w (length c) c))"

definition file_reader :: "(int \<times> bytes) list \<Rightarrow> tables option" where
  "file_reader secs =
     (case (section_table secs 1 4, section_table secs 4 8, section_table secs 5 4) of
        (Some ss, Some cs, Some ts) \<Rightarrow> Some \<lparr>tab_strings = ss, tab_constants = cs, tab_types = ts\<rparr>
      | _ \<Rightarrow> None)"

definition dec_program :: "nat \<Rightarrow> bytes \<Rightarrow> (bytecode_version \<times> func_entry list) option" where
  "dec_program n bs = (case dec_file bs of
     Some (((major, minor, tag), secs), []) \<Rightarrow>
       (case (version_of major minor, map_of secs 2, file_reader secs) of
          (Some v, Some code, Some T) \<Rightarrow>
            (case dec_sized (dec_func v n T) code of Some (fs, []) \<Rightarrow> Some (v, fs) | _ \<Rightarrow> None)
        | _ \<Rightarrow> None)
   | _ \<Rightarrow> None)"

lemma version_of_parts: "version_of (version_major v) (version_minor v) = Some v"
  by (cases v) (simp_all add: version_of_def version_major_def version_minor_def)

theorem program_dec:
  assumes run: "write_bytecode n v client [] = (Inr (), out)"
    and built: "\<And>w. client (new_writer (varint n) v) = (Inr (), w) \<Longrightarrow>
      builds v Q (new_writer (varint n) v) fs w \<and> Q (table_keys (w_types w))"
    and fuel: "\<forall>f \<in> set fs. body_fuel (fe_body f) \<le> k"
  shows "dec_program k out = Some (v, fs)"
proof -
  have ok0: "writer_ok (new_writer (varint n) v)" "w_version (new_writer (varint n) v) = v"
    by (simp add: new_writer_ok, simp add: new_writer_def)
  have "writer_ok w" if "client (new_writer (varint n) v) = (Inr (), w)" for w
    using builds_dec [OF conjunct1 [OF built [OF that]] ok0] by blast
  from write_bytecode_dec [OF run this] obtain w ct db ty st where
    client: "client (new_writer (varint n) v) = (Inr (), w)" and n: "num_functions w = n"
    and tail: "tail_decoded w ct db ty st"
    and whole: "dec_file out = Some (((version_major v, version_minor v, version_tag v),
      (2, w_buf w) # global_sections (w_globals w) @ [(4, ct), (3, db), (5, ty), (1, st)]), [])"
    by blast
  obtain e where num: "num_functions w = num_functions (new_writer (varint n) v) + int (length fs)"
    and code: "w_buf w = w_buf (new_writer (varint n) v) @ e"
    and dec: "\<And>T k rest. file_tables T w \<Longrightarrow> Q (tab_types T) \<Longrightarrow> (\<forall>f \<in> set fs. body_fuel (fe_body f) \<le> k) \<Longrightarrow>
       dec_n (dec_func v k T) (length fs) (e @ rest) = Some (fs, rest)"
    using builds_dec [OF conjunct1 [OF built [OF client]] ok0] by blast
  let ?secs = "(2, w_buf w) # global_sections (w_globals w) @ [(4, ct), (3, db), (5, ty), (1, st)]"
  let ?T = "\<lparr>tab_strings = table_keys (w_strings w), tab_constants = table_keys (w_constants w),
    tab_types = table_keys (w_types w)\<rparr>"
  have "file_reader ?secs = Some ?T"
    using tail by (simp add: file_reader_def section_table_def tail_decoded_def global_sections_def)
  moreover have "file_tables ?T w" by (simp add: file_tables_def covers_def)
  from dec [OF this _ fuel, of "[]"] built [OF client]
  have "dec_n (dec_func v k ?T) (length fs) e = Some (fs, [])" by simp
  then have "dec_sized (dec_func v k ?T) (w_buf w) = Some (fs, [])"
    using num n code by (simp add: new_writer_def dec_sized_def varint.dec_enc)
  ultimately show ?thesis
    by (simp add: dec_program_def whole version_of_parts)
qed

end
