(* ===== verification/BcExample.thy ===== *)
theory BcExample
  imports BcProgram
begin

text \<open>
  A worked example: the file with one entry point \<^verbatim>\<open>f\<close> whose body is a constant, a loop that
  breaks at once, and a return.  The runs of the client are computed from the definitions; the
  properties of the development are applied to them.
\<close>

section \<open>A body\<close>

definition demo_constant :: "op_result cb" where
  "demo_constant = encode_ConstantOp (TypeId 1) [42, 0, 0, 0]"

definition demo_loop :: "op_result cb" where
  "demo_loop = encode_LoopOp [TypeId 1] [Value 0]"

definition demo_blocks :: "nested_block_builder \<Rightarrow> nested_block_builder cb" where
  "demo_blocks nb = new_block nb [TypeId 1] (\<lambda>vs. bindE (encode_BreakOp vs) (\<lambda>_. skipE))"

definition demo_body :: "unit cb" where
  "demo_body =
     seqE [bindE demo_constant (\<lambda>_. skipE),
           bindE demo_loop (\<lambda>r. case r of
             NestedResult nb \<Rightarrow> bindE (demo_blocks nb) (\<lambda>nb'. bindE (nested_done nb') (\<lambda>_. skipE))
           | _ \<Rightarrow> skipE)]
       (bindE (encode_ReturnOp []) (\<lambda>_. skipE))"

definition demo_instrs :: "instr list" where
  "demo_instrs =
     [Instr (RawOp 16 [FTypeId (TypeId 1), FConst [42, 0, 0, 0]]) [],
      Instr (RawOp 65 [FTypeIds [TypeId 1], FVals [0], FBlocks 1])
        [Block [TypeId 1] [Instr (RawOp 10 [FTypeIds [], FVals [1]]) []]],
      Instr (RawOp 92 [FTypeIds [], FVals []]) []]"


section \<open>Builder bodies\<close>

text \<open>A body that only uses the builder satisfies \<open>body_ok\<close>: the writer follows through the alias.\<close>

lemma in_builder_body_ok:
  assumes run: "in_builder m s = (Inr r, t)" and m: "m (builder_view s) = (Inr r, u)"
    and em: "emits v Q (builder_view s) is u"
    and ok: "writer_ok (fst s)" "w_version (fst s) = v" "fs_index (snd s) < length (debug_info (fst s))"
  shows "body_ok v Q s is t"
proof -
  obtain w f where s: "s = (w, f)" by (cases s)
  have cb: "cb_ok (builder_view s)" "cb_version (builder_view s) = v"
    using ok by (simp_all add: s builder_view_def cb_ok_def writer_ok_def)
  from emits_stream(1) [OF em cb(2,1)] have u: "cb_ok u" "tables_grow (builder_view s) u" "cb_version u = v"
    by (simp_all add: stream_ok_def)
  have t: "t = builder_put u s"
    using run m by (simp add: in_builder_def zoom_def)
  have view: "builder_view t = u"
    using ok u(3) by (simp add: t s builder_view_def builder_put_def)
  show ?thesis
    using em ok u unfolding body_ok_def view
    by (simp add: t s builder_view_def builder_put_def writer_ok_def cb_ok_def writer_grows_def tables_grow_def)
qed

section \<open>Its run\<close>

lemma demo_emits:
  assumes "demo_constant s = (Inr (OneResult x), s1)" "demo_loop s1 = (Inr (NestedResult nb), s2)"
    and "new_block_enter nb [TypeId 1] s2 = (Inr ([Value 1], sv), s3)"
    and "encode_BreakOp [Value 1] s3 = (Inr NoResult, s4)" "new_block_exit nb sv s4 = (Inr nb', s5)"
    and "nested_done nb' s5 = (Inr vs, s6)" "encode_ReturnOp [] s6 = (Inr NoResult, s7)"
  shows "emits v Q s demo_instrs s7"
proof -
  have c: "op_call v Q demo_constant (RawOp 16 [FTypeId (TypeId 1), FConst [42, 0, 0, 0]])"
    unfolding demo_constant_def by (rule call_ConstantOp)
  have l: "op_call v Q demo_loop (RawOp 65 [FTypeIds [TypeId 1], FVals [0], FBlocks 1])"
    using call_LoopOp [of v Q "[TypeId 1]" "[Value 0]"] by (simp add: demo_loop_def)
  have b: "op_call v Q (encode_BreakOp [Value 1]) (RawOp 10 [FTypeIds [], FVals [1]])"
    using call_BreakOp [of v Q "[Value 1]"] by simp
  have r: "op_call v Q (encode_ReturnOp []) (RawOp 92 [FTypeIds [], FVals []])"
    using call_ReturnOp [of v Q "[]"] by simp
  have blk: "emits_blocks v Q nb s2 [Block [TypeId 1] [Instr (RawOp 10 [FTypeIds [], FVals [1]]) []]] nb' s5"
    by (rule emits_blocks_Cons [OF assms(3) emits_op [OF b assms(4) op_values.simps(1) emits_Nil] assms(5)
        emits_blocks_Nil])
  show ?thesis
    unfolding demo_instrs_def
    by (rule emits_op [OF c assms(1) op_values.simps(2) emits_nested [OF l assms(2) blk assms(6)
        emits_op [OF r assms(7) op_values.simps(1) emits_Nil]]])
qed

definition demo_client :: "unit wr" where
  "demo_client = function_def (lit ''f'') [] [] True [] (DebugAttrId 0) (\<lambda>_. in_builder demo_body)"

text \<open>The writer after the header of the function, and at the end of the client.\<close>

definition demo_writer :: writer where
  "demo_writer = \<lparr>num_functions = 1, debug_info = [[DebugAttrId 0]], w_buf = [1, 0, 2, 2, 1],
     w_strings = [([102], StringId 0)], w_debug_attrs = [], w_constants = [],
     w_types = [([0], TypeId 0), ([3], TypeId 1), ([16, 0, 0], TypeId 2)],
     w_globals = \<lparr>gs_defined_names = [], gs_contents = []\<rparr>, w_version = V_13_3\<rparr>"

definition demo_final :: writer where
  "demo_final = \<lparr>num_functions = 1, debug_info = [replicate 5 (DebugAttrId 0)],
     w_buf = [1, 0, 2, 2, 1, 20, 16, 1, 0, 65, 1, 1, 1, 0, 1, 1, 1, 1, 1, 10, 0, 1, 1, 92, 0, 0],
     w_strings = [([102], StringId 0)], w_debug_attrs = [],
     w_constants = [([4, 42, 0, 0, 0], ConstantId 0)],
     w_types = [([0], TypeId 0), ([3], TypeId 1), ([16, 0, 0], TypeId 2)],
     w_globals = \<lparr>gs_defined_names = [], gs_contents = []\<rparr>, w_version = V_13_3\<rparr>"

definition demo_start :: code_builder where
  "demo_start = builder_view (start_state demo_writer 0)"

definition demo_end :: code_builder where
  "demo_end = \<lparr>buf = [16, 1, 0, 65, 1, 1, 1, 0, 1, 1, 1, 1, 1, 10, 0, 1, 1, 92, 0, 0],
     cb_version = V_13_3, cb_string_table = [([102], StringId 0)],
     cb_constant_table = [([4, 42, 0, 0, 0], ConstantId 0)],
     debug_attr_per_op = replicate 5 (DebugAttrId 0), next_value_id = 2,
     cur_debug_attr = DebugAttrId 0, num_ops = 3\<rparr>"

text \<open>The states in between differ in a few fields only.\<close>

definition demo_state :: "bytes \<Rightarrow> nat \<Rightarrow> int \<Rightarrow> int \<Rightarrow> code_builder" where
  "demo_state b recorded next_id ops = \<lparr>buf = b, cb_version = V_13_3,
     cb_string_table = [([102], StringId 0)], cb_constant_table = [([4, 42, 0, 0, 0], ConstantId 0)],
     debug_attr_per_op = replicate recorded (DebugAttrId 0), next_value_id = next_id,
     cur_debug_attr = DebugAttrId 0, num_ops = ops\<rparr>"

lemma demo_run: "emits V_13_3 Q demo_start demo_instrs demo_end"
proof -
  let ?nb = "\<lparr>nb_num_results = 1, nb_num_blocks = 1\<rparr>"
  let ?nb' = "\<lparr>nb_num_results = 1, nb_num_blocks = 0\<rparr>"
  let ?loop = "[16, 1, 0, 65, 1, 1, 1, 0, 1]"
  let ?sv = "\<lparr>orig_buf = ?loop @ [1, 1, 1], orig_next_value_id = 1, orig_num_ops = 2\<rparr>"
  let ?inner = "[10, 0, 1, 1]"
  let ?final = "?loop @ [1, 1, 1, 1] @ ?inner"
  have "demo_constant demo_start = (Inr (OneResult (Value 0)), demo_state [16, 1, 0] 2 1 1)" by code_simp
  moreover have "demo_loop (demo_state [16, 1, 0] 2 1 1) = (Inr (NestedResult ?nb), demo_state ?loop 3 1 2)"
    by code_simp
  moreover have "new_block_enter ?nb [TypeId 1] (demo_state ?loop 3 1 2) =
      (Inr ([Value 1], ?sv), demo_state [] 3 2 0)" by code_simp
  moreover have "encode_BreakOp [Value 1] (demo_state [] 3 2 0) = (Inr NoResult, demo_state ?inner 4 2 1)"
    by code_simp
  moreover have "new_block_exit ?nb ?sv (demo_state ?inner 4 2 1) = (Inr ?nb', demo_state ?final 4 1 2)"
    by code_simp
  moreover have "nested_done ?nb' (demo_state ?final 4 1 2) = (Inr [Value 1], demo_state ?final 4 2 2)"
    by code_simp
  moreover have "encode_ReturnOp [] (demo_state ?final 4 2 2) = (Inr NoResult, demo_end)" by code_simp
  ultimately show ?thesis by (rule demo_emits)
qed

section \<open>Its file\<close>

definition demo_function :: func_entry where
  "demo_function = FuncEntry (utf8 (lit ''f'')) [] [] (entry_flags V_13_3 True []) 1
     (header_hints V_13_3 True []) demo_instrs"

lemma demo_client_run: "demo_client (new_writer [1] V_13_3) = (Inr (), demo_final)"
  by code_simp

lemma demo_builds: "builds V_13_3 Q (new_writer [1] V_13_3) [demo_function] demo_final"
proof -
  let ?w = "new_writer [1] V_13_3"
  let ?s = "start_state demo_writer 0"
  have head: "function_header (lit ''f'') [] [] True [] (DebugAttrId 0) ?w = (Inr (), demo_writer)"
    by code_simp
  have "demo_body demo_start = (Inr (), demo_end)" by code_simp
  then have run: "demo_body (builder_view ?s) = (Inr (), demo_end)"
    by (simp add: demo_start_def)
  have em: "emits V_13_3 Q (builder_view ?s) demo_instrs demo_end"
    using demo_run by (simp add: demo_start_def)
  have "writer_ok demo_writer"
    by (simp add: writer_ok_def demo_writer_def table_ok_def upt_rec)
  then have ok: "body_ok V_13_3 Q ?s demo_instrs t" if "in_builder demo_body ?s = (Inr (), t)" for t
    by (intro in_builder_body_ok [OF that run em]) (simp_all add: start_state_def demo_writer_def)
  show ?thesis
    by (rule builds_function [OF head demo_client_run [unfolded demo_client_def] _ _ builds_Nil])
       (simp_all add: ok demo_function_def new_writer_def)
qed

definition demo_file :: bytes where
  "demo_file =
    [127, 84, 105, 108, 101, 73, 82, 0, 13, 3, 0, 0, 130, 26, 8, 203, 1, 0, 2, 2, 1, 20, 16, 1,
     0, 65, 1, 1, 1, 0, 1, 1, 1, 1, 1, 10, 0, 1, 1, 92, 0, 0,
     132, 21, 8, 203, 203, 203, 1, 203, 203, 203, 203, 203, 203, 203, 0, 0, 0, 0, 0, 0, 0, 0,
     4, 42, 0, 0, 0,
     131, 65, 8, 1, 203, 203, 203, 0, 0, 0, 0, 5, 203, 203, 203, 203, 203, 203, 203] @
     replicate 40 0 @ [1, 203, 203, 203, 0, 0, 0, 0, 0,
     133, 21, 4, 3, 203, 203, 203, 0, 0, 0, 0, 1, 0, 0, 0, 2, 0, 0, 0, 0, 3, 16, 0, 0,
     129, 9, 4, 1, 203, 203, 203, 0, 0, 0, 0, 102, 0]"

lemma demo_file_run: "write_bytecode 1 V_13_3 demo_client [] = (Inr (), demo_file)"
  by code_simp

section \<open>Facts about the example\<close>

lemma one_varint: "varint 1 = [1]" by (simp add: varint_small)

lemma demo_fuel: "body_fuel (fe_body demo_function) \<le> 4"
  by (simp add: demo_function_def demo_instrs_def body_fuel_def)

lemma demo_final_ok: "writer_ok demo_final"
  using builds_dec [OF demo_builds new_writer_ok] by (auto simp: new_writer_def)

lemma demo_start_ok: "cb_version demo_start = V_13_3" "cb_ok demo_start"
  by (simp_all add: demo_start_def start_state_def builder_view_def demo_writer_def cb_ok_def table_ok_def)

lemma demo_constant_run:
  "demo_constant demo_start = (Inr (OneResult (Value 0)), demo_state [16, 1, 0] 2 1 1)"
  by code_simp

lemma demo_constant_call: "op_call v Q demo_constant (RawOp 16 [FTypeId (TypeId 1), FConst [42, 0, 0, 0]])"
  unfolding demo_constant_def by (rule call_ConstantOp)

definition demo_pointer :: type_desc where
  "demo_pointer = DTensorView (TypeId 1) [-1, 128] [128, 1] PtrDefault"

lemma demo_pointer_run:
  "intern_type V_13_4 demo_pointer new_type_table = (Inr (TypeId 2), new_type_table @
     [([14, 1, 1, 2] @ replicate 8 255 @ 128 # replicate 7 0 @ 2 # 128 # replicate 7 0 @ 1 # replicate 7 0 @ [0],
       TypeId 2)])"
  by code_simp

end
