(* ===== verification/DTypes.thy ===== *)
theory DTypes
  imports BcTypes
begin

text \<open>
  \<^verbatim>\<open>src/cuda/tile/_datatype.py\<close>: the data types of tiles, their classification, arithmetic
  promotion, shape broadcasting and the tables of supported matrix products.  The predicates that
  the Python module imports from the extension (\<^verbatim>\<open>is_integral\<close>, \<^verbatim>\<open>_promote_dtypes\<close>, \<dots>) are
  translated from \<^verbatim>\<open>cext/dtype.h\<close> and \<^verbatim>\<open>cext/dtype.cpp\<close>.

  A derived dtype is created once per memory space and pointee, so comparing two of them by their
  ids is comparing their structure.
\<close>

section \<open>Data types\<close>

datatype memory_space =
  MS_GENERIC | MS_GLOBAL | MS_SHARED | MS_CONSTANT | MS_LOCAL | MS_TENSOR | MS_SHARED_CLUSTER

fun memory_space_pointer_bitwidth :: "memory_space \<Rightarrow> nat" where
  "memory_space_pointer_bitwidth MS_GENERIC = 64"
| "memory_space_pointer_bitwidth MS_GLOBAL = 64"
| "memory_space_pointer_bitwidth MS_SHARED = 32"
| "memory_space_pointer_bitwidth MS_CONSTANT = 64"
| "memory_space_pointer_bitwidth MS_LOCAL = 64"
| "memory_space_pointer_bitwidth MS_TENSOR = 32"
| "memory_space_pointer_bitwidth MS_SHARED_CLUSTER = 32"

datatype dtype =
    DT_bool
  | DT_uint8 | DT_uint16 | DT_uint32 | DT_uint64
  | DT_int8 | DT_int16 | DT_int32 | DT_int64
  | DT_float16 | DT_float32 | DT_float64 | DT_bfloat16
  | DT_tfloat32 | DT_float8_e4m3fn | DT_float8_e5m3fnu | DT_float8_e5m2 | DT_float8_e8m0fnu
  | DT_float4_e2m1fn | DT_float6_e2m3fn | DT_float6_e3m2fn
  | DT_mbarrier | DT_cluster_launch_control_token | DT_tensor_map_descriptor | DT_int128
  | DT_pointer "dtype option" memory_space
  | DT_foreign_pointer dtype

fun bitwidth :: "dtype \<Rightarrow> nat" where
  "bitwidth DT_bool = 8"
| "bitwidth DT_uint8 = 8" | "bitwidth DT_uint16 = 16" | "bitwidth DT_uint32 = 32" | "bitwidth DT_uint64 = 64"
| "bitwidth DT_int8 = 8" | "bitwidth DT_int16 = 16" | "bitwidth DT_int32 = 32" | "bitwidth DT_int64 = 64"
| "bitwidth DT_float16 = 16" | "bitwidth DT_float32 = 32" | "bitwidth DT_float64 = 64" | "bitwidth DT_bfloat16 = 16"
| "bitwidth DT_tfloat32 = 32" | "bitwidth DT_float8_e4m3fn = 8" | "bitwidth DT_float8_e5m3fnu = 8"
| "bitwidth DT_float8_e5m2 = 8" | "bitwidth DT_float8_e8m0fnu = 8" | "bitwidth DT_float4_e2m1fn = 4"
| "bitwidth DT_float6_e2m3fn = 6" | "bitwidth DT_float6_e3m2fn = 6"
| "bitwidth DT_mbarrier = 64" | "bitwidth DT_cluster_launch_control_token = 128"
| "bitwidth DT_tensor_map_descriptor = 1024" | "bitwidth DT_int128 = 128"
| "bitwidth (DT_pointer p ms) = memory_space_pointer_bitwidth ms"
| "bitwidth (DT_foreign_pointer p) = 64"

definition is_boolean :: "dtype \<Rightarrow> bool" where
  "is_boolean t \<longleftrightarrow> t = DT_bool"

definition is_unsigned_integer :: "dtype \<Rightarrow> bool" where
  "is_unsigned_integer t \<longleftrightarrow> t \<in> {DT_uint8, DT_uint16, DT_uint32, DT_uint64}"

definition is_signed_integer :: "dtype \<Rightarrow> bool" where
  "is_signed_integer t \<longleftrightarrow> t \<in> {DT_int8, DT_int16, DT_int32, DT_int64}"

definition is_integral :: "dtype \<Rightarrow> bool" where
  "is_integral t \<longleftrightarrow> is_unsigned_integer t \<or> is_signed_integer t"

definition is_unrestricted_float :: "dtype \<Rightarrow> bool" where
  "is_unrestricted_float t \<longleftrightarrow> t \<in> {DT_float16, DT_float32, DT_float64, DT_bfloat16}"

definition is_restricted_float :: "dtype \<Rightarrow> bool" where
  "is_restricted_float t \<longleftrightarrow> t \<in> {DT_tfloat32, DT_float8_e4m3fn, DT_float8_e5m3fnu, DT_float8_e5m2,
     DT_float8_e8m0fnu, DT_float4_e2m1fn, DT_float6_e2m3fn, DT_float6_e3m2fn}"

definition is_float :: "dtype \<Rightarrow> bool" where
  "is_float t \<longleftrightarrow> is_unrestricted_float t \<or> is_restricted_float t"

definition is_numeric :: "dtype \<Rightarrow> bool" where
  "is_numeric t \<longleftrightarrow> is_boolean t \<or> is_integral t \<or> is_float t"

definition is_arithmetic :: "dtype \<Rightarrow> bool" where
  "is_arithmetic t \<longleftrightarrow> is_boolean t \<or> is_integral t \<or> is_unrestricted_float t"

definition is_signed :: "dtype \<Rightarrow> bool" where
  "is_signed t \<longleftrightarrow> is_signed_integer t \<or> is_unrestricted_float t \<or>
     t \<in> {DT_tfloat32, DT_float8_e4m3fn, DT_float8_e5m2, DT_float4_e2m1fn, DT_float6_e2m3fn, DT_float6_e3m2fn}"

definition is_pointer_dtype :: "dtype \<Rightarrow> bool" where
  "is_pointer_dtype t \<longleftrightarrow> (case t of DT_pointer p ms \<Rightarrow> True | _ \<Rightarrow> False)"

definition is_foreign_pointer_dtype :: "dtype \<Rightarrow> bool" where
  "is_foreign_pointer_dtype t \<longleftrightarrow> (case t of DT_foreign_pointer p \<Rightarrow> True | _ \<Rightarrow> False)"

lemmas dtype_class_defs = is_boolean_def is_unsigned_integer_def is_signed_integer_def is_integral_def
  is_unrestricted_float_def is_restricted_float_def is_float_def is_numeric_def is_arithmetic_def
  is_signed_def is_pointer_dtype_def is_foreign_pointer_dtype_def

datatype numeric_dtype_category = CatBoolean | CatIntegral | CatFloat | CatRestrictedFloat

text \<open>The \<^verbatim>\<open>else\<close> branch asserts that the dtype is not numeric, then raises \<^verbatim>\<open>ValueError\<close>.\<close>

definition numeric_dtype_category :: "dtype \<Rightarrow> py_error + numeric_dtype_category" where
  "numeric_dtype_category t =
     (if is_boolean t then Inr CatBoolean
      else if is_integral t then Inr CatIntegral
      else if is_unrestricted_float t then Inr CatFloat
      else if is_restricted_float t then Inr CatRestrictedFloat
      else if is_numeric t then Inl AssertionError else Inl ValueError)"

section \<open>Integer types\<close>

definition integer_dtype_min :: "dtype \<Rightarrow> int" where
  "integer_dtype_min t = (if is_signed_integer t then - (2 ^ (bitwidth t - 1)) else 0)"

definition integer_dtype_max :: "dtype \<Rightarrow> int" where
  "integer_dtype_max t = (if is_signed_integer t then 2 ^ (bitwidth t - 1) - 1 else 2 ^ bitwidth t - 1)"

record integer_info =
  ii_bits :: nat
  ii_min :: int
  ii_max :: int

definition IntegerInfo :: "dtype \<Rightarrow> py_error + integer_info" where
  "IntegerInfo t = (if \<not> is_integral t then Inl TypeError else
     Inr \<lparr>ii_bits = bitwidth t, ii_min = integer_dtype_min t, ii_max = integer_dtype_max t\<rparr>)"

definition integer_dtype :: "int \<Rightarrow> bool \<Rightarrow> py_error + dtype" where
  "integer_dtype bits is_sgn =
     (if bits = 8 \<and> \<not> is_sgn then Inr DT_uint8
      else if bits = 16 \<and> \<not> is_sgn then Inr DT_uint16
      else if bits = 32 \<and> \<not> is_sgn then Inr DT_uint32
      else if bits = 64 \<and> \<not> is_sgn then Inr DT_uint64
      else if bits = 8 \<and> is_sgn then Inr DT_int8
      else if bits = 16 \<and> is_sgn then Inr DT_int16
      else if bits = 32 \<and> is_sgn then Inr DT_int32
      else if bits = 64 \<and> is_sgn then Inr DT_int64
      else Inl ValueError)"

fun dtype_simple_bytecode_type :: "dtype \<Rightarrow> py_error + simple_type" where
  "dtype_simple_bytecode_type DT_bool = Inr I1"
| "dtype_simple_bytecode_type DT_uint8 = Inr I8"
| "dtype_simple_bytecode_type DT_uint16 = Inr I16"
| "dtype_simple_bytecode_type DT_uint32 = Inr I32"
| "dtype_simple_bytecode_type DT_uint64 = Inr I64"
| "dtype_simple_bytecode_type DT_int8 = Inr I8"
| "dtype_simple_bytecode_type DT_int16 = Inr I16"
| "dtype_simple_bytecode_type DT_int32 = Inr I32"
| "dtype_simple_bytecode_type DT_int64 = Inr I64"
| "dtype_simple_bytecode_type DT_float16 = Inr F16"
| "dtype_simple_bytecode_type DT_bfloat16 = Inr BF16"
| "dtype_simple_bytecode_type DT_float32 = Inr F32"
| "dtype_simple_bytecode_type DT_tfloat32 = Inr TF32"
| "dtype_simple_bytecode_type DT_float64 = Inr F64"
| "dtype_simple_bytecode_type DT_float8_e4m3fn = Inr F8E4M3FN"
| "dtype_simple_bytecode_type DT_float8_e5m2 = Inr F8E5M2"
| "dtype_simple_bytecode_type DT_float8_e8m0fnu = Inr F8E8M0FNU"
| "dtype_simple_bytecode_type DT_float4_e2m1fn = Inr F4E2M1FN"
| "dtype_simple_bytecode_type DT_float8_e5m3fnu = Inr FNV8E5M3FNU"
| "dtype_simple_bytecode_type _ = Inl KeyError"

section \<open>Broadcasting\<close>

fun broadcast_dims :: "int list \<Rightarrow> int list \<Rightarrow> py_error + int list" where
  "broadcast_dims (d1 # s1) (d2 # s2) =
     (let d = (if d1 \<noteq> d2 then (if d1 = 1 then Inr d2 else if d2 = 1 then Inr d1 else Inl TypeError) else Inr d1)
      in case d of Inl e \<Rightarrow> Inl e
         | Inr x \<Rightarrow> (case broadcast_dims s1 s2 of Inl e \<Rightarrow> Inl e | Inr xs \<Rightarrow> Inr (x # xs)))"
| "broadcast_dims _ _ = Inr []"

definition broadcast_shapes :: "int list \<Rightarrow> int list \<Rightarrow> py_error + int list" where
  "broadcast_shapes a b =
     (let (s1, s2) = (if length a > length b then (b, a) else (a, b))
      in broadcast_dims (replicate (length s2 - length s1) 1 @ s1) s2)"

section \<open>Arithmetic promotion\<close>

text \<open>The table of \<^verbatim>\<open>cext/dtype.cpp\<close>, with its columns in the order of \<open>promotion_dtypes\<close>.\<close>

definition promotion_dtypes :: "dtype list" where
  "promotion_dtypes = [DT_bool, DT_uint8, DT_uint16, DT_uint32, DT_uint64, DT_int8, DT_int16, DT_int32,
     DT_int64, DT_float16, DT_float32, DT_float64, DT_bfloat16]"

definition promotion_table :: "dtype option list list" where
  "promotion_table =
   (let b1 = Some DT_bool; u8 = Some DT_uint8; u16 = Some DT_uint16; u32 = Some DT_uint32; u64 = Some DT_uint64;
        i8 = Some DT_int8; i16 = Some DT_int16; i32 = Some DT_int32; i64 = Some DT_int64;
        f16 = Some DT_float16; f32 = Some DT_float32; f64 = Some DT_float64; bf = Some DT_bfloat16; na = None
    in [[ b1 , u8 , u16, u32, u64, i8 , i16, i32, i64, f16, f32, f64, bf ],
        [ u8 , u8 , u16, u32, u64, na , na , na , na , f16, f32, f64, bf ],
        [ u16, u16, u16, u32, u64, na , na , na , na , f16, f32, f64, bf ],
        [ u32, u32, u32, u32, u64, na , na , na , na , f16, f32, f64, bf ],
        [ u64, u64, u64, u64, u64, na , na , na , na , f16, f32, f64, bf ],
        [ i8 , na , na , na , na , i8 , i16, i32, i64, f16, f32, f64, bf ],
        [ i16, na , na , na , na , i16, i16, i32, i64, f16, f32, f64, bf ],
        [ i32, na , na , na , na , i32, i32, i32, i64, f16, f32, f64, bf ],
        [ i64, na , na , na , na , i64, i64, i64, i64, f16, f32, f64, bf ],
        [ f16, f16, f16, f16, f16, f16, f16, f16, f16, f16, f32, f64, na ],
        [ f32, f32, f32, f32, f32, f32, f32, f32, f32, f32, f32, f64, f32],
        [ f64, f64, f64, f64, f64, f64, f64, f64, f64, f64, f64, f64, f64],
        [ bf , bf , bf , bf , bf , bf , bf , bf , bf , na , f32, f64, bf ]])"

definition promotion_index :: "dtype \<Rightarrow> nat option" where
  "promotion_index t = List.find (\<lambda>i. promotion_dtypes ! i = t) [0..<length promotion_dtypes]"

definition cext_promote_dtypes :: "dtype \<Rightarrow> dtype \<Rightarrow> dtype option" where
  "cext_promote_dtypes a b =
     (if a = b then Some a
      else case (promotion_index a, promotion_index b) of
        (Some i, Some j) \<Rightarrow> promotion_table ! i ! j
      | _ \<Rightarrow> None)"

definition promote_dtypes :: "dtype \<Rightarrow> dtype \<Rightarrow> bool \<Rightarrow> py_error + dtype" where
  "promote_dtypes t1 t2 force_float =
     (if t1 = t2 \<and> (\<not> force_float \<or> is_float t1) then Inr t1
      else if is_restricted_float t1 \<or> is_restricted_float t2 then Inl TileTypeError
      else if is_pointer_dtype t1 \<or> is_pointer_dtype t2 then Inl TileTypeError
      else case cext_promote_dtypes t1 t2 of
        None \<Rightarrow> Inl TileTypeError
      | Some ret \<Rightarrow> Inr (if \<not> force_float \<or> is_float ret then ret else DT_float32))"

section \<open>Matrix products\<close>

fun mma_supported_dtypes :: "dtype \<Rightarrow> dtype list option" where
  "mma_supported_dtypes DT_float8_e4m3fn = Some [DT_float16, DT_float32]"
| "mma_supported_dtypes DT_float8_e5m2 = Some [DT_float16, DT_float32]"
| "mma_supported_dtypes DT_float16 = Some [DT_float16, DT_float32]"
| "mma_supported_dtypes DT_bfloat16 = Some [DT_float32]"
| "mma_supported_dtypes DT_float32 = Some [DT_float32]"
| "mma_supported_dtypes DT_tfloat32 = Some [DT_float32]"
| "mma_supported_dtypes DT_float64 = Some [DT_float64]"
| "mma_supported_dtypes DT_int8 = Some [DT_int32]"
| "mma_supported_dtypes DT_uint8 = Some [DT_int32]"
| "mma_supported_dtypes _ = None"

definition is_int8_like :: "dtype \<Rightarrow> bool" where
  "is_int8_like t \<longleftrightarrow> t = DT_int8 \<or> t = DT_uint8"

definition resolve_mma_supported_dtype :: "dtype \<Rightarrow> dtype \<Rightarrow> dtype option \<Rightarrow> py_error + dtype" where
  "resolve_mma_supported_dtype x y acc =
     (if x \<noteq> y \<and> (\<not> is_int8_like x \<or> \<not> is_int8_like y) then Inl TileTypeError
      else case mma_supported_dtypes x of
        None \<Rightarrow> Inl TileTypeError
      | Some candidates \<Rightarrow> (case acc of
          Some a \<Rightarrow> if List.member candidates a then Inr a else Inl TileTypeError
        | None \<Rightarrow> Inr (hd candidates)))"

text \<open>Operand dtype, then scale dtype, to the result dtype and the scaling block sizes.\<close>

fun mma_scaled_supported_dtypes :: "dtype \<Rightarrow> (dtype \<times> dtype \<times> int list) list option" where
  "mma_scaled_supported_dtypes DT_float8_e4m3fn = Some [(DT_float8_e8m0fnu, DT_float32, [32])]"
| "mma_scaled_supported_dtypes DT_float8_e5m2 = Some [(DT_float8_e8m0fnu, DT_float32, [32])]"
| "mma_scaled_supported_dtypes DT_float4_e2m1fn =
     Some [(DT_float8_e8m0fnu, DT_float32, [16, 32]), (DT_float8_e4m3fn, DT_float32, [16]),
           (DT_float8_e5m3fnu, DT_float32, [16, 32])]"
| "mma_scaled_supported_dtypes _ = None"

definition resolve_mma_scaled_supported_dtype ::
    "dtype \<Rightarrow> dtype \<Rightarrow> dtype \<Rightarrow> dtype \<Rightarrow> dtype \<Rightarrow> py_error + unit" where
  "resolve_mma_scaled_supported_dtype x x_scale y y_scale acc =
     (if x \<noteq> y then Inl TileTypeError
      else if x_scale \<noteq> y_scale then Inl TileTypeError
      else case mma_scaled_supported_dtypes x of
        None \<Rightarrow> Inl TileTypeError
      | Some scales \<Rightarrow> (case map_of scales x_scale of
          None \<Rightarrow> Inl TileTypeError
        | Some (expected_acc, _) \<Rightarrow> if acc \<noteq> expected_acc then Inl TileTypeError else Inr ()))"

definition get_mma_scaled_scaling_block_sizes :: "dtype \<Rightarrow> dtype \<Rightarrow> py_error + int list" where
  "get_mma_scaled_scaling_block_sizes data_dtype scale_dtype =
     (case mma_scaled_supported_dtypes data_dtype of
        None \<Rightarrow> Inl AssertionError
      | Some scales \<Rightarrow> (case map_of scales scale_dtype of
          None \<Rightarrow> Inl AssertionError | Some (_, sizes) \<Rightarrow> Inr sizes))"

section \<open>Pointers\<close>

definition PointerInfo :: "dtype \<Rightarrow> py_error + dtype" where
  "PointerInfo t = (if \<not> is_pointer_dtype t then Inl TypeError else Inr t)"

definition pointer_pointee_dtype :: "dtype \<Rightarrow> py_error + dtype" where
  "pointer_pointee_dtype t = (case t of DT_pointer (Some p) ms \<Rightarrow> Inr p | _ \<Rightarrow> Inl ValueError)"

definition pointer_opaque :: "dtype \<Rightarrow> bool" where
  "pointer_opaque t \<longleftrightarrow> (case t of DT_pointer None ms \<Rightarrow> True | _ \<Rightarrow> False)"

definition foreign_pointer_dtype :: "dtype \<Rightarrow> py_error + dtype" where
  "foreign_pointer_dtype pointee =
     (if is_foreign_pointer_dtype pointee then Inl TypeError else Inr (DT_foreign_pointer pointee))"

section \<open>Laws\<close>

text \<open>Broadcasting is an elementwise join of the shapes aligned at their last axes.\<close>

definition compatible_dims :: "int \<Rightarrow> int \<Rightarrow> bool" where
  "compatible_dims a b \<longleftrightarrow> a = b \<or> a = 1 \<or> b = 1"

definition join_dims :: "int \<Rightarrow> int \<Rightarrow> int" where
  "join_dims a b = (if a = 1 then b else a)"

definition pad_shape :: "nat \<Rightarrow> int list \<Rightarrow> int list" where
  "pad_shape n s = replicate (n - length s) 1 @ s"

lemma broadcast_dims_eq:
  assumes "length s = length t"
  shows "broadcast_dims s t =
    (if list_all2 compatible_dims s t then Inr (map2 join_dims s t) else Inl TypeError)"
  using assms
  by (induction s t rule: list_induct2) (auto simp: compatible_dims_def join_dims_def Let_def)

lemma compatible_dims_sym: "compatible_dims a b \<longleftrightarrow> compatible_dims b a"
  by (auto simp: compatible_dims_def)

lemma join_dims_sym: "compatible_dims a b \<Longrightarrow> join_dims a b = join_dims b a"
  by (auto simp: compatible_dims_def join_dims_def)

lemma list_all2_compatible_sym: "list_all2 compatible_dims s t \<longleftrightarrow> list_all2 compatible_dims t s"
  by (auto simp: list_all2_conv_all_nth compatible_dims_sym)

lemma map2_join_sym:
  "list_all2 compatible_dims s t \<Longrightarrow> map2 join_dims s t = map2 join_dims t s"
  by (induction s t rule: list_all2_induct) (auto dest: join_dims_sym)

lemma length_pad_shape [simp]: "length s \<le> n \<Longrightarrow> length (pad_shape n s) = n"
  by (simp add: pad_shape_def)

lemma pad_shape_full [simp]: "pad_shape (length s) s = s"
  by (simp add: pad_shape_def)

lemma broadcast_shapes_eq:
  "broadcast_shapes a b =
     (let n = max (length a) (length b); s = pad_shape n a; t = pad_shape n b
      in if list_all2 compatible_dims s t then Inr (map2 join_dims s t) else Inl TypeError)"
proof (cases "length a > length b")
  case True
  then have "broadcast_shapes a b = broadcast_dims (pad_shape (length a) b) a"
    by (simp add: broadcast_shapes_def pad_shape_def)
  then show ?thesis using True
    by (simp add: broadcast_dims_eq Let_def max_def list_all2_compatible_sym map2_join_sym)
next
  case False
  then have "broadcast_shapes a b = broadcast_dims (pad_shape (length b) a) b"
    by (simp add: broadcast_shapes_def pad_shape_def)
  then show ?thesis using False by (simp add: broadcast_dims_eq Let_def max_def)
qed

text \<open>The promotion table, as a finite check.\<close>

definition table_laws :: bool where
  "table_laws \<longleftrightarrow> (\<forall>i \<in> {0..<13}. \<forall>j \<in> {0..<13}.
     promotion_table ! i ! j = promotion_table ! j ! i \<and>
     promotion_table ! i ! i = Some (promotion_dtypes ! i) \<and>
     (case promotion_table ! i ! j of None \<Rightarrow> True | Some r \<Rightarrow>
        (case promotion_index r of None \<Rightarrow> False | Some k \<Rightarrow>
           promotion_table ! i ! k = Some r \<and> promotion_table ! j ! k = Some r)))"

lemma table_laws: table_laws
  by code_simp

lemma length_promotion_dtypes: "length promotion_dtypes = 13"
  by (simp add: promotion_dtypes_def)

lemma promotion_index_Some:
  assumes "promotion_index t = Some i"
  shows "i < 13 \<and> promotion_dtypes ! i = t"
  using assms by (auto simp: promotion_index_def find_Some_iff length_promotion_dtypes)

lemma cext_promote_sym: "cext_promote_dtypes a b = cext_promote_dtypes b a"
  using table_laws promotion_index_Some [of a] promotion_index_Some [of b]
  by (auto simp: cext_promote_dtypes_def table_laws_def split: option.splits)

lemma cext_promote_absorbs:
  assumes "cext_promote_dtypes a b = Some r"
  shows "cext_promote_dtypes a r = Some r \<and> cext_promote_dtypes b r = Some r"
proof (cases "a = b")
  case True
  then show ?thesis using assms by (simp add: cext_promote_dtypes_def)
next
  case False
  then obtain i j where ij: "promotion_index a = Some i" "promotion_index b = Some j"
    "promotion_table ! i ! j = Some r"
    using assms by (auto simp: cext_promote_dtypes_def split: option.splits)
  then have "i \<in> {0..<13}" "j \<in> {0..<13}" using promotion_index_Some by auto
  with table_laws ij(3) obtain k where "promotion_index r = Some k"
    "promotion_table ! i ! k = Some r" "promotion_table ! j ! k = Some r"
    unfolding table_laws_def by (fastforce split: option.splits)
  then show ?thesis using ij by (simp add: cext_promote_dtypes_def)
qed

lemma promotable_arithmetic:
  assumes "cext_promote_dtypes a b = Some r" and "\<not> is_restricted_float a" and "\<not> is_restricted_float b"
  shows "\<not> is_restricted_float r \<and> (is_pointer_dtype r \<longrightarrow> is_pointer_dtype a)"
proof (cases "a = b")
  case True
  then show ?thesis using assms by (simp add: cext_promote_dtypes_def)
next
  case False
  have "cext_promote_dtypes a r = Some r" using cext_promote_absorbs [OF assms(1)] ..
  then have "a = r \<or> (\<exists>k. promotion_index r = Some k)"
    by (auto simp: cext_promote_dtypes_def split: option.splits if_splits)
  then show ?thesis
  proof
    assume "\<exists>k. promotion_index r = Some k"
    then have "r \<in> set promotion_dtypes"
      using promotion_index_Some length_promotion_dtypes nth_mem by metis
    then show ?thesis by (auto simp: promotion_dtypes_def is_restricted_float_def is_pointer_dtype_def)
  qed (use assms in auto)
qed


text \<open>C35. Broadcasting two shapes pads the shorter one with ones on the left and joins the axes; it
  raises \<^verbatim>\<open>TypeError\<close> exactly if two aligned axes differ and neither is 1, and does not depend
  on the order of its arguments.\<close>

theorem broadcast_shapes_join:
  "broadcast_shapes a b =
     (let n = max (length a) (length b); s = pad_shape n a; t = pad_shape n b
      in if list_all2 compatible_dims s t then Inr (map2 join_dims s t) else Inl TypeError)
   \<and> broadcast_shapes a b = broadcast_shapes b a"
  unfolding broadcast_shapes_eq Let_def max.commute [of "length b"]
  by (simp add: list_all2_compatible_sym [of "pad_shape (max (length a) (length b)) b"] map2_join_sym)


end
