(* ===== verification/Signature.thy ===== *)
theory Signature
  imports DTypes "HOL-Library.AList"
begin

text \<open>
  \<^verbatim>\<open>src/cuda/tile/compilation/_signature.py\<close>: the constraints on the parameters of a kernel and the
  validation of a kernel signature.  The constructors of the Python classes are the functions
  \<open>\<dots>_init\<close>; they return the object or the exception.

  \<^item> \<open>v3\<close> is \<^verbatim>\<open>cconv_v3_enabled()\<close>, a compile-time switch of the extension;
  \<^item> a class object is its identity, module, qualified name, number of dataclass fields and enum
    members; a float constant is its 64 bits.
\<close>

section \<open>Classes, constants and calling conventions\<close>

record py_class =
  cls_id :: nat
  cls_module :: pystr
  cls_qualname :: pystr
  cls_field_count :: nat
  cls_members :: "pystr list"

datatype constant_value =
    BoolConst bool
  | IntConst int
  | FloatConst "64 word"
  | NoneConst
  | StringConst pystr
  | EnumConst py_class pystr
  | DTypeConst dtype
  | ForeignDTypeConst dtype
  | OtherConst

datatype constant_kind = CK_Bool | CK_Int | CK_Float | CK_None | CK_String | CK_Enum | CK_NativeDType | CK_ForeignDType

fun classify_constant :: "bool \<Rightarrow> constant_value \<Rightarrow> bool \<Rightarrow> constant_kind option" where
  "classify_constant v3 (BoolConst b) kernel_arg = Some CK_Bool"
| "classify_constant v3 (IntConst i) kernel_arg = Some CK_Int"
| "classify_constant v3 (FloatConst f) kernel_arg = Some CK_Float"
| "classify_constant v3 NoneConst kernel_arg = (if v3 \<or> \<not> kernel_arg then Some CK_None else None)"
| "classify_constant v3 (StringConst s) kernel_arg = (if v3 \<or> \<not> kernel_arg then Some CK_String else None)"
| "classify_constant v3 (EnumConst c m) kernel_arg = (if v3 \<or> \<not> kernel_arg then Some CK_Enum else None)"
| "classify_constant v3 (DTypeConst d) kernel_arg = (if v3 \<or> \<not> kernel_arg then Some CK_NativeDType else None)"
| "classify_constant v3 (ForeignDTypeConst d) kernel_arg =
     (if v3 \<or> \<not> kernel_arg then Some CK_ForeignDType else None)"
| "classify_constant v3 OtherConst kernel_arg = None"

text \<open>The calling conventions; \<open>CConvV3\<close> exists only in builds with \<open>v3\<close>.\<close>

datatype calling_convention = CConvV1 | CConvV2 | CConvV3

fun cconv_version :: "calling_convention \<Rightarrow> int" where
  "cconv_version CConvV1 = 1"
| "cconv_version CConvV2 = 2"
| "cconv_version CConvV3 = 3"

section \<open>Constraints\<close>

record array_constraint =
  arr_dtype :: dtype
  arr_ndim :: int
  arr_index_dtype :: dtype
  arr_stride_lower_bound_incl :: "int option list"
  arr_alias_groups :: "pystr list"
  arr_may_alias_internally :: bool
  arr_stride_constant :: "int option list"
  arr_shape_constant :: "int option list"
  arr_stride_divisible_by :: "int list"
  arr_shape_divisible_by :: "int list"
  arr_base_addr_divisible_by :: int

datatype constraint =
    ScalarConstraint dtype
  | TensorMapConstraint
  | PointerConstraint dtype
  | StreamConstraint
  | ArrayConstraint array_constraint
  | ListConstraint array_constraint "pystr list" bool
  | TupleConstraint "constraint list"
  | DataclassConstraint py_class "constraint list"
  | ConstantConstraint constant_value

definition ScalarConstraint_init :: "dtype \<Rightarrow> py_error + constraint" where
  "ScalarConstraint_init d =
     (if is_pointer_dtype d \<or> \<not> is_numeric d then Inl TypeError else Inr (ScalarConstraint d))"

definition TensorMapConstraint_init :: "bool \<Rightarrow> py_error + constraint" where
  "TensorMapConstraint_init v3 = (if \<not> v3 then Inl NotImplementedError else Inr TensorMapConstraint)"

definition PointerConstraint_init :: "bool \<Rightarrow> dtype \<Rightarrow> py_error + constraint" where
  "PointerConstraint_init v3 d =
     (if \<not> v3 then Inl NotImplementedError
      else if is_pointer_dtype d \<or> \<not> is_numeric d then Inl TypeError else Inr (PointerConstraint d))"

definition StreamConstraint_init :: "bool \<Rightarrow> py_error + constraint" where
  "StreamConstraint_init v3 = (if \<not> v3 then Inl NotImplementedError else Inr StreamConstraint)"

definition ConstantConstraint_init :: "bool \<Rightarrow> constant_value \<Rightarrow> py_error + constraint" where
  "ConstantConstraint_init v3 val =
     (case classify_constant v3 val True of
        None \<Rightarrow> Inl TypeError
      | Some kind \<Rightarrow> if kind = CK_ForeignDType then Inl TypeError else Inr (ConstantConstraint val))"

text \<open>An assumption per axis: absent, one value for all axes, or a sequence.\<close>

datatype 'a assumption = NoAssumption | ForAllAxes 'a | PerAxis "'a list"

definition parse_assumption_tuple ::
    "'a assumption \<Rightarrow> int \<Rightarrow> 'a \<Rightarrow> ('a \<Rightarrow> py_error + unit) \<Rightarrow> py_error + 'a list" where
  "parse_assumption_tuple s ndim default_value predicate =
     (case s of
        NoAssumption \<Rightarrow> Inr (replicate (nat ndim) default_value)
      | ForAllAxes x \<Rightarrow> Inr (replicate (nat ndim) x)
      | PerAxis xs \<Rightarrow>
          if int (length xs) \<noteq> ndim then Inl ValueError
          else bindS (mapS predicate xs) (\<lambda>_. Inr xs))"

definition check_optional_int :: "int option \<Rightarrow> py_error + unit" where
  "check_optional_int val = Inr ()"

definition check_optional_nonnegative_int :: "int option \<Rightarrow> py_error + unit" where
  "check_optional_nonnegative_int val =
     (case val of None \<Rightarrow> Inr () | Some x \<Rightarrow> if x < 0 then Inl ValueError else Inr ())"

definition check_divisibility :: "int \<Rightarrow> py_error + unit" where
  "check_divisibility val = (if val \<le> 0 then Inl TypeError else Inr ())"

fun remove_redundant_lower_bounds :: "int option list \<Rightarrow> int option list \<Rightarrow> py_error + int option list" where
  "remove_redundant_lower_bounds (Some val # vs) (Some lb # ret) =
     (if val < lb then Inl ValueError
      else bindS (remove_redundant_lower_bounds vs ret) (\<lambda>r. Inr (None # r)))"
| "remove_redundant_lower_bounds (_ # vs) (lb # ret) =
     bindS (remove_redundant_lower_bounds vs ret) (\<lambda>r. Inr (lb # r))"
| "remove_redundant_lower_bounds _ ret = Inr ret"

fun remove_redundant_divisibility_constraints :: "int option list \<Rightarrow> int list \<Rightarrow> py_error + int list" where
  "remove_redundant_divisibility_constraints (Some val # vs) (d # ret) =
     (if d = 0 then Inl ZeroDivisionError
      else if val mod d \<noteq> 0 then Inl ValueError
      else bindS (remove_redundant_divisibility_constraints vs ret) (\<lambda>r. Inr (1 # r)))"
| "remove_redundant_divisibility_constraints (None # vs) (d # ret) =
     bindS (remove_redundant_divisibility_constraints vs ret) (\<lambda>r. Inr (d # r))"
| "remove_redundant_divisibility_constraints _ ret = Inr ret"

text \<open>\<^verbatim>\<open>ArrayConstraint.__init__\<close>.\<close>

definition ArrayConstraint_init ::
    "dtype \<Rightarrow> int \<Rightarrow> dtype \<Rightarrow> int option assumption \<Rightarrow> pystr list \<Rightarrow> bool \<Rightarrow> int option assumption \<Rightarrow>
     int option assumption \<Rightarrow> int assumption \<Rightarrow> int assumption \<Rightarrow> int \<Rightarrow> py_error + array_constraint" where
  "ArrayConstraint_init dtype ndim index_dtype stride_lower_bound_incl alias_groups may_alias_internally
      stride_constant shape_constant stride_divisible_by shape_divisible_by base_addr_divisible_by =
     bindS (guardS (\<not> ndim < 0) ValueError) (\<lambda>_.
     bindS (guardS (index_dtype \<in> {DT_int32, DT_uint32, DT_int64}) ValueError) (\<lambda>_.
     bindS (parse_assumption_tuple stride_constant ndim None check_optional_int) (\<lambda>stride_constant.
     bindS (parse_assumption_tuple shape_constant ndim None check_optional_nonnegative_int) (\<lambda>shape_constant.
     bindS (parse_assumption_tuple stride_lower_bound_incl ndim None check_optional_int) (\<lambda>slb.
     bindS (remove_redundant_lower_bounds stride_constant slb) (\<lambda>slb.
     bindS (parse_assumption_tuple stride_divisible_by ndim 1 check_divisibility) (\<lambda>stride_div.
     bindS (remove_redundant_divisibility_constraints stride_constant stride_div) (\<lambda>stride_div.
     bindS (parse_assumption_tuple shape_divisible_by ndim 1 check_divisibility) (\<lambda>shape_div.
     bindS (remove_redundant_divisibility_constraints shape_constant shape_div) (\<lambda>shape_div.
     bindS (guardS (\<not> base_addr_divisible_by \<le> 0) ValueError) (\<lambda>_.
       Inr \<lparr>arr_dtype = dtype, arr_ndim = ndim, arr_index_dtype = index_dtype,
            arr_stride_lower_bound_incl = slb, arr_alias_groups = alias_groups,
            arr_may_alias_internally = may_alias_internally, arr_stride_constant = stride_constant,
            arr_shape_constant = shape_constant, arr_stride_divisible_by = stride_div,
            arr_shape_divisible_by = shape_div, arr_base_addr_divisible_by = base_addr_divisible_by\<rparr>)))))))))))"

definition ListConstraint_init :: "constraint \<Rightarrow> pystr list \<Rightarrow> bool \<Rightarrow> py_error + constraint" where
  "ListConstraint_init element alias_groups elements_may_alias =
     (case element of ArrayConstraint a \<Rightarrow> Inr (ListConstraint a alias_groups elements_may_alias)
      | _ \<Rightarrow> Inl TypeError)"

definition TupleConstraint_init :: "constraint list \<Rightarrow> py_error + constraint" where
  "TupleConstraint_init items = Inr (TupleConstraint items)"

definition DataclassConstraint_init :: "bool \<Rightarrow> py_class \<Rightarrow> constraint list \<Rightarrow> py_error + constraint" where
  "DataclassConstraint_init v3 cls field_list =
     (if \<not> v3 then Inl NotImplementedError
      else if length field_list \<noteq> cls_field_count cls then Inl TypeError
      else Inr (DataclassConstraint cls field_list))"

text \<open>\<^verbatim>\<open>DataclassConstraint.create\<close>: \<open>names\<close> are the declared fields, \<open>kwargs\<close> the keyword arguments.\<close>

fun create_fields :: "pystr list \<Rightarrow> (pystr \<times> constraint) list \<Rightarrow> py_error + constraint list" where
  "create_fields [] kwargs = (if length kwargs > 0 then Inl TypeError else Inr [])"
| "create_fields (name # names) kwargs =
     (case map_of kwargs name of
        None \<Rightarrow> Inl TypeError
      | Some c \<Rightarrow> bindS (create_fields names (AList.delete name kwargs)) (\<lambda>cs. Inr (c # cs)))"

definition DataclassConstraint_create ::
    "bool \<Rightarrow> py_class \<Rightarrow> pystr list \<Rightarrow> (pystr \<times> constraint) list \<Rightarrow> py_error + constraint" where
  "DataclassConstraint_create v3 cls names kwargs =
     bindS (create_fields names kwargs) (DataclassConstraint_init v3 cls)"

section \<open>Interpreting plain values\<close>

datatype constraint_like =
    IsConstraint constraint
  | PlainConstant constant_value
  | PlainTuple "constraint_like list"
  | DataclassInstance py_class "constraint_like list"

fun to_constraint :: "bool \<Rightarrow> constraint_like \<Rightarrow> py_error + constraint" where
  "to_constraint v3 (IsConstraint c) = Inr c"
| "to_constraint v3 (PlainConstant val) =
     (case classify_constant v3 val True of
        None \<Rightarrow> Inl TypeError | Some _ \<Rightarrow> ConstantConstraint_init v3 val)"
| "to_constraint v3 (PlainTuple xs) =
     bindS (mapS (to_constraint v3) xs) TupleConstraint_init"
| "to_constraint v3 (DataclassInstance cls fs) =
     bindS (mapS (to_constraint v3) fs) (DataclassConstraint_init v3 cls)"

section \<open>Kernel signatures\<close>

record kernel_signature =
  sig_parameters :: "constraint list"
  sig_calling_convention :: calling_convention
  sig_symbol :: "pystr option"

text \<open>
  \<^verbatim>\<open>_collect_alias_groups\<close>: the groups of every array and list, in order, with the class of the
  constraint.  Dataclass fields are not visited.
\<close>

datatype alias_kind = AliasArray | AliasList

fun collect_alias_groups :: "constraint list \<Rightarrow> (alias_kind \<times> pystr list) list"
  and collect_alias_groups_of :: "constraint \<Rightarrow> (alias_kind \<times> pystr list) list"
where
  "collect_alias_groups [] = []"
| "collect_alias_groups (p # ps) = collect_alias_groups_of p @ collect_alias_groups ps"
| "collect_alias_groups_of (ArrayConstraint a) = [(AliasArray, arr_alias_groups a)]"
| "collect_alias_groups_of (ListConstraint a gs m) = [(AliasList, gs), (AliasArray, arr_alias_groups a)]"
| "collect_alias_groups_of (TupleConstraint items) = collect_alias_groups items"
| "collect_alias_groups_of _ = []"

record alias_state =
  use_count :: "(pystr \<times> int) list"
  constraint_type_by_group :: "(pystr \<times> alias_kind) list"

fun validate_group_list :: "alias_kind \<Rightarrow> pystr list \<Rightarrow> pystr list \<Rightarrow> alias_state \<Rightarrow> py_error + alias_state" where
  "validate_group_list ty seen [] st = Inr st"
| "validate_group_list ty seen (ag # groups) st =
     (if List.member seen ag then Inl ValueError
      else
        let count = (case map_of (use_count st) ag of None \<Rightarrow> 0 | Some n \<Rightarrow> n) + 1 in
        case map_of (constraint_type_by_group st) ag of
          Some existing_ty \<Rightarrow>
            if ty \<noteq> existing_ty then Inl ValueError
            else validate_group_list ty (ag # seen) groups
                   (st\<lparr>use_count := AList.update ag count (use_count st),
                       constraint_type_by_group := AList.update ag ty (constraint_type_by_group st)\<rparr>)
        | None \<Rightarrow> validate_group_list ty (ag # seen) groups
                   (st\<lparr>use_count := AList.update ag count (use_count st),
                       constraint_type_by_group := AList.update ag ty (constraint_type_by_group st)\<rparr>))"

fun validate_groups :: "(alias_kind \<times> pystr list) list \<Rightarrow> alias_state \<Rightarrow> py_error + alias_state" where
  "validate_groups [] st = Inr st"
| "validate_groups ((ty, groups) # rest) st = bindS (validate_group_list ty [] groups st) (validate_groups rest)"

definition validate_alias_groups :: "constraint list \<Rightarrow> py_error + unit" where
  "validate_alias_groups parameters =
     bindS (validate_groups (collect_alias_groups parameters)
              \<lparr>use_count = [], constraint_type_by_group = []\<rparr>) (\<lambda>st.
       guardS (\<forall>(ag, count) \<in> set (use_count st). count \<noteq> 1) ValueError)"

fun validate_constraint_support :: "calling_convention \<Rightarrow> constraint \<Rightarrow> py_error + unit" where
  "validate_constraint_support cc (ScalarConstraint d) = Inr ()"
| "validate_constraint_support cc TensorMapConstraint = guardS (\<not> cconv_version cc < 3) ValueError"
| "validate_constraint_support cc (PointerConstraint d) = guardS (\<not> cconv_version cc < 3) ValueError"
| "validate_constraint_support cc StreamConstraint = guardS (\<not> cconv_version cc < 3) ValueError"
| "validate_constraint_support cc (ArrayConstraint a) =
     guardS (\<not> (list_ex (\<lambda>x. x \<noteq> None) (arr_shape_constant a) \<and> cconv_version cc < 2)) ValueError"
| "validate_constraint_support cc (ListConstraint a gs m) =
     guardS (\<not> (list_ex (\<lambda>x. x \<noteq> None) (arr_shape_constant a) \<and> cconv_version cc < 2)) ValueError"
| "validate_constraint_support cc (TupleConstraint items) =
     bindS (guardS (\<not> cconv_version cc < 2) ValueError) (\<lambda>_.
     bindS (mapS (validate_constraint_support cc) items) (\<lambda>_. Inr ()))"
| "validate_constraint_support cc (DataclassConstraint cls field_list) =
     bindS (guardS (\<not> cconv_version cc < 3) ValueError) (\<lambda>_.
     bindS (mapS (validate_constraint_support cc) field_list) (\<lambda>_. Inr ()))"
| "validate_constraint_support cc (ConstantConstraint c) = Inr ()"

definition KernelSignature_init ::
    "bool \<Rightarrow> constraint_like list \<Rightarrow> calling_convention \<Rightarrow> pystr option \<Rightarrow> py_error + kernel_signature" where
  "KernelSignature_init v3 parameters cc symbol =
     bindS (mapS (to_constraint v3) parameters) (\<lambda>parameters.
     bindS (validate_alias_groups parameters) (\<lambda>_.
     bindS (mapS (validate_constraint_support cc) parameters) (\<lambda>_.
       Inr \<lparr>sig_parameters = parameters, sig_calling_convention = cc, sig_symbol = symbol\<rparr>)))"

definition with_symbol :: "kernel_signature \<Rightarrow> pystr option \<Rightarrow> kernel_signature" where
  "with_symbol s symbol = s\<lparr>sig_symbol := symbol\<rparr>"

section \<open>Arrays: the normal form of a constraint\<close>

definition array_ok :: "array_constraint \<Rightarrow> bool" where
  "array_ok a \<longleftrightarrow> 0 \<le> arr_ndim a \<and> arr_index_dtype a \<in> {DT_int32, DT_uint32, DT_int64} \<and>
     (let n = nat (arr_ndim a) in
        length (arr_stride_lower_bound_incl a) = n \<and> length (arr_stride_constant a) = n \<and>
        length (arr_shape_constant a) = n \<and> length (arr_stride_divisible_by a) = n \<and>
        length (arr_shape_divisible_by a) = n) \<and>
     (\<forall>x \<in> set (arr_shape_constant a). case x of None \<Rightarrow> True | Some v \<Rightarrow> 0 \<le> v) \<and>
     (\<forall>d \<in> set (arr_stride_divisible_by a). 0 < d) \<and> (\<forall>d \<in> set (arr_shape_divisible_by a). 0 < d) \<and>
     0 < arr_base_addr_divisible_by a \<and>
     list_all2 (\<lambda>c b. c \<noteq> None \<longrightarrow> b = None) (arr_stride_constant a) (arr_stride_lower_bound_incl a) \<and>
     list_all2 (\<lambda>c d. c \<noteq> None \<longrightarrow> d = 1) (arr_stride_constant a) (arr_stride_divisible_by a) \<and>
     list_all2 (\<lambda>c d. c \<noteq> None \<longrightarrow> d = 1) (arr_shape_constant a) (arr_shape_divisible_by a)"

lemma parse_assumption_tuple_length:
  "parse_assumption_tuple s n d p = Inr xs \<Longrightarrow> 0 \<le> n \<Longrightarrow> length xs = nat n"
  by (cases s) (auto simp: parse_assumption_tuple_def bindS_Inr_iff split: if_splits)

lemma parse_assumption_tuple_elems:
  assumes "parse_assumption_tuple s n d p = Inr xs" and "P d" and "\<And>x. s = ForAllAxes x \<Longrightarrow> P x"
    and "\<And>x. p x = Inr () \<Longrightarrow> P x"
  shows "\<forall>x \<in> set xs. P x"
  using assms by (cases s) (auto simp: parse_assumption_tuple_def bindS_Inr_iff mapS_Inr_iff
    list_all2_conv_all_nth in_set_conv_nth split: if_splits)

lemma remove_redundant_lower_bounds_Inr:
  assumes "remove_redundant_lower_bounds vs ret = Inr r" and "length vs = length ret"
  shows "length r = length ret \<and> list_all2 (\<lambda>c b. c \<noteq> None \<longrightarrow> b = None) vs r"
  using assms
  by (induction vs ret arbitrary: r rule: remove_redundant_lower_bounds.induct)
    (auto simp: bindS_Inr_iff split: if_splits)

lemma remove_redundant_divisibility_Inr:
  assumes "remove_redundant_divisibility_constraints vs ret = Inr r" and "length vs = length ret"
  shows "length r = length ret \<and> list_all2 (\<lambda>c d. c \<noteq> None \<longrightarrow> d = 1) vs r \<and> set r \<subseteq> insert 1 (set ret)"
  using assms
  by (induction vs ret arbitrary: r rule: remove_redundant_divisibility_constraints.induct)
    (auto simp: bindS_Inr_iff split: if_splits)

lemma check_divisibility_Inr: "check_divisibility x = Inr u \<longleftrightarrow> 0 < x"
  by (auto simp: check_divisibility_def)

lemma check_nonnegative_Inr:
  "check_optional_nonnegative_int x = Inr u \<longleftrightarrow> (case x of None \<Rightarrow> True | Some v \<Rightarrow> 0 \<le> v)"
  by (auto simp: check_optional_nonnegative_int_def split: option.splits)

text \<open>The scalar shorthand is not checked by the constructor; \<open>shorthand_ok\<close> says it is positive.\<close>

definition shorthand_ok :: "int assumption \<Rightarrow> bool" where
  "shorthand_ok s \<longleftrightarrow> (case s of ForAllAxes x \<Rightarrow> 0 < x | _ \<Rightarrow> True)"

definition shape_shorthand_ok :: "int option assumption \<Rightarrow> bool" where
  "shape_shorthand_ok s \<longleftrightarrow> (case s of ForAllAxes (Some x) \<Rightarrow> 0 \<le> x | _ \<Rightarrow> True)"

lemma ArrayConstraint_init_ok:
  assumes "ArrayConstraint_init dt n ix slb gs alias sc shc sd shd base = Inr a"
    and "shorthand_ok sd" and "shorthand_ok shd" and "shape_shorthand_ok shc"
  shows "array_ok a"
proof -
  obtain sc' shc' slb0 slb' sd0 sd' shd0 shd' where
    n: "0 \<le> n" and ix: "ix \<in> {DT_int32, DT_uint32, DT_int64}" and base: "0 < base"
    and 1: "parse_assumption_tuple sc n None check_optional_int = Inr sc'"
    and 2: "parse_assumption_tuple shc n None check_optional_nonnegative_int = Inr shc'"
    and 3: "parse_assumption_tuple slb n None check_optional_int = Inr slb0"
      "remove_redundant_lower_bounds sc' slb0 = Inr slb'"
    and 4: "parse_assumption_tuple sd n 1 check_divisibility = Inr sd0"
      "remove_redundant_divisibility_constraints sc' sd0 = Inr sd'"
    and 5: "parse_assumption_tuple shd n 1 check_divisibility = Inr shd0"
      "remove_redundant_divisibility_constraints shc' shd0 = Inr shd'"
    and a: "a = \<lparr>arr_dtype = dt, arr_ndim = n, arr_index_dtype = ix, arr_stride_lower_bound_incl = slb',
      arr_alias_groups = gs, arr_may_alias_internally = alias, arr_stride_constant = sc',
      arr_shape_constant = shc', arr_stride_divisible_by = sd', arr_shape_divisible_by = shd',
      arr_base_addr_divisible_by = base\<rparr>"
    using assms(1) unfolding ArrayConstraint_init_def bindS_Inr_iff guardS_Inr_iff
    by (elim exE conjE) (simp add: not_less not_le)
  note len = 1 [THEN parse_assumption_tuple_length, OF n] 2 [THEN parse_assumption_tuple_length, OF n]
    3(1) [THEN parse_assumption_tuple_length, OF n] 4(1) [THEN parse_assumption_tuple_length, OF n]
    5(1) [THEN parse_assumption_tuple_length, OF n]
  have "\<forall>x \<in> set shc'. case x of None \<Rightarrow> True | Some v \<Rightarrow> 0 \<le> v"
    using assms(4) by (intro parse_assumption_tuple_elems [OF 2])
      (auto simp: check_nonnegative_Inr shape_shorthand_ok_def split: option.splits)
  moreover have "\<forall>d \<in> set sd0. 0 < d"
    using assms(2) by (intro parse_assumption_tuple_elems [OF 4(1)])
      (auto simp: check_divisibility_Inr shorthand_ok_def)
  moreover have "\<forall>d \<in> set shd0. 0 < d"
    using assms(3) by (intro parse_assumption_tuple_elems [OF 5(1)])
      (auto simp: check_divisibility_Inr shorthand_ok_def)
  ultimately show ?thesis
    using remove_redundant_lower_bounds_Inr [OF 3(2)] remove_redundant_divisibility_Inr [OF 4(2)]
      remove_redundant_divisibility_Inr [OF 5(2)] len n ix base
    by (auto simp: a array_ok_def Let_def)
qed

text \<open>An array in normal form is a fixed point of the constructor.\<close>

lemma parse_own: "(\<And>x. x \<in> set xs \<Longrightarrow> p x = Inr ()) \<Longrightarrow> length xs = nat n \<Longrightarrow> 0 \<le> n \<Longrightarrow>
  parse_assumption_tuple (PerAxis xs) n d p = Inr xs"
proof -
  assume p: "\<And>x. x \<in> set xs \<Longrightarrow> p x = Inr ()" and n: "length xs = nat n" "0 \<le> n"
  have "mapS p xs = Inr (replicate (length xs) ())"
    using p by (induction xs) auto
  then show ?thesis using n by (simp add: parse_assumption_tuple_def)
qed

lemma remove_lower_bounds_own:
  "list_all2 (\<lambda>c b. c \<noteq> None \<longrightarrow> b = None) vs ret \<Longrightarrow> remove_redundant_lower_bounds vs ret = Inr ret"
  by (induction vs ret rule: remove_redundant_lower_bounds.induct) auto

lemma remove_divisibility_own:
  "list_all2 (\<lambda>c d. c \<noteq> None \<longrightarrow> d = 1) vs ret \<Longrightarrow> remove_redundant_divisibility_constraints vs ret = Inr ret"
  by (induction vs ret rule: remove_redundant_divisibility_constraints.induct) auto

lemma ArrayConstraint_init_own:
  assumes "array_ok a"
  shows "ArrayConstraint_init (arr_dtype a) (arr_ndim a) (arr_index_dtype a)
    (PerAxis (arr_stride_lower_bound_incl a)) (arr_alias_groups a) (arr_may_alias_internally a)
    (PerAxis (arr_stride_constant a)) (PerAxis (arr_shape_constant a))
    (PerAxis (arr_stride_divisible_by a)) (PerAxis (arr_shape_divisible_by a))
    (arr_base_addr_divisible_by a) = Inr a"
  using assms unfolding array_ok_def Let_def ArrayConstraint_init_def
  by (simp add: parse_own check_optional_int_def check_nonnegative_Inr check_divisibility_Inr
      remove_lower_bounds_own remove_divisibility_own)

section \<open>Alias groups\<close>

text \<open>
  What \<^verbatim>\<open>_validate_alias_groups\<close> accepts: no group twice in one list, each group used by lists
  and arrays only or by arrays only, and never just once.
\<close>

definition group_uses :: "(alias_kind \<times> pystr list) list \<Rightarrow> pystr \<Rightarrow> nat" where
  "group_uses cs g = length (filter (\<lambda>(ty, gs). g \<in> set gs) cs)"

definition alias_groups_valid :: "(alias_kind \<times> pystr list) list \<Rightarrow> bool" where
  "alias_groups_valid cs \<longleftrightarrow>
     (\<forall>(ty, gs) \<in> set cs. distinct gs \<and> (\<forall>g \<in> set gs. group_uses cs g \<noteq> 1)) \<and>
     (\<forall>(ty, gs) \<in> set cs. \<forall>(ty', gs') \<in> set cs. set gs \<inter> set gs' \<noteq> {} \<longrightarrow> ty = ty')"

text \<open>The state as two maps.\<close>

definition alias_rep :: "alias_state \<Rightarrow> (pystr \<Rightarrow> int option) \<Rightarrow> (pystr \<Rightarrow> alias_kind option) \<Rightarrow> bool" where
  "alias_rep st u t \<longleftrightarrow> distinct (List.map fst (use_count st)) \<and>
     map_of (use_count st) = u \<and> map_of (constraint_type_by_group st) = t"

definition count_groups :: "pystr list \<Rightarrow> (pystr \<Rightarrow> int option) \<Rightarrow> pystr \<Rightarrow> int option" where
  "count_groups gs u = (\<lambda>g. if g \<in> set gs then Some ((case u g of None \<Rightarrow> 0 | Some n \<Rightarrow> n) + 1) else u g)"

definition type_groups :: "alias_kind \<Rightarrow> pystr list \<Rightarrow> (pystr \<Rightarrow> alias_kind option) \<Rightarrow> pystr \<Rightarrow> alias_kind option" where
  "type_groups ty gs t = (\<lambda>g. if g \<in> set gs then Some ty else t g)"

lemma count_groups_Cons:
  "g \<notin> set gs \<Longrightarrow>
   count_groups gs (u(g \<mapsto> (case u g of None \<Rightarrow> 0 | Some n \<Rightarrow> n) + 1)) = count_groups (g # gs) u"
  by (auto simp: count_groups_def)

lemma type_groups_Cons: "type_groups ty gs (t(g \<mapsto> ty)) = type_groups ty (g # gs) t"
  by (auto simp: type_groups_def)

lemma validate_group_list_eq:
  assumes "alias_rep st u t"
  shows "case validate_group_list ty seen gs st of
      Inl e \<Rightarrow> e = ValueError \<and>
        \<not> (distinct gs \<and> set gs \<inter> set seen = {} \<and> (\<forall>g \<in> set gs. t g \<in> {None, Some ty}))
    | Inr st' \<Rightarrow> alias_rep st' (count_groups gs u) (type_groups ty gs t) \<and>
        distinct gs \<and> set gs \<inter> set seen = {} \<and> (\<forall>g \<in> set gs. t g \<in> {None, Some ty})"
  using assms
proof (induction gs arbitrary: seen st u t)
  case Nil
  then show ?case by (simp add: count_groups_def type_groups_def)
next
  case (Cons g gs)
  let ?n = "(case u g of None \<Rightarrow> 0 | Some n \<Rightarrow> n) + 1"
  let ?st = "st\<lparr>use_count := AList.update g ?n (use_count st),
      constraint_type_by_group := AList.update g ty (constraint_type_by_group st)\<rparr>"
  have rep: "alias_rep ?st (u(g \<mapsto> ?n)) (t(g \<mapsto> ty))"
    using Cons.prems by (simp add: alias_rep_def update_conv' distinct_update)
  have run: "validate_group_list ty seen (g # gs) st =
      (if g \<in> set seen \<or> t g \<notin> {None, Some ty} then Inl ValueError
       else validate_group_list ty (g # seen) gs ?st)"
    using Cons.prems
    by (auto simp: alias_rep_def Let_def split: option.splits)
  show ?case
  proof (cases "g \<in> set seen \<or> t g \<notin> {None, Some ty}")
    case True
    then show ?thesis unfolding run by auto
  next
    case False
    note IH = Cons.IH [OF rep, of "g # seen"]
    have eq: "(\<forall>x \<in> set gs. (t(g \<mapsto> ty)) x \<in> {None, Some ty}) \<longleftrightarrow> (\<forall>x \<in> set gs. t x \<in> {None, Some ty})"
      using False by (auto split: if_splits)
    show ?thesis
    proof (cases "validate_group_list ty (g # seen) gs ?st")
      case (Inl e)
      with IH False eq run show ?thesis by auto
    next
      case (Inr st')
      with IH have d: "distinct gs" "g \<notin> set gs" "set gs \<inter> set seen = {}"
        "\<forall>x \<in> set gs. (t(g \<mapsto> ty)) x \<in> {None, Some ty}"
        and rep': "alias_rep st' (count_groups gs (u(g \<mapsto> ?n))) (type_groups ty gs (t(g \<mapsto> ty)))"
        by auto
      from rep' have "alias_rep st' (count_groups (g # gs) u) (type_groups ty (g # gs) t)"
        by (simp only: count_groups_Cons [OF d(2)] type_groups_Cons)
      with d eq False run Inr show ?thesis by auto
    qed
  qed
qed

text \<open>The maps after a prefix of the lists.\<close>

definition uses_map :: "(alias_kind \<times> pystr list) list \<Rightarrow> pystr \<Rightarrow> int option" where
  "uses_map cs = (\<lambda>g. if group_uses cs g = 0 then None else Some (int (group_uses cs g)))"

definition kinds_map :: "(alias_kind \<times> pystr list) list \<Rightarrow> pystr \<Rightarrow> alias_kind option" where
  "kinds_map cs = (\<lambda>g. map_option fst (List.find (\<lambda>(ty, gs). g \<in> set gs) (rev cs)))"

definition groups_consistent :: "(alias_kind \<times> pystr list) list \<Rightarrow> bool" where
  "groups_consistent cs \<longleftrightarrow> (\<forall>(ty, gs) \<in> set cs. distinct gs) \<and>
     (\<forall>(ty, gs) \<in> set cs. \<forall>(ty', gs') \<in> set cs. set gs \<inter> set gs' \<noteq> {} \<longrightarrow> ty = ty')"

lemma groups_consistent_I:
  assumes "\<And>ty gs. (ty, gs) \<in> set cs \<Longrightarrow> distinct gs"
    and "\<And>ty gs ty' gs' g. (ty, gs) \<in> set cs \<Longrightarrow> (ty', gs') \<in> set cs \<Longrightarrow> g \<in> set gs \<Longrightarrow> g \<in> set gs' \<Longrightarrow> ty = ty'"
  shows "groups_consistent cs"
  unfolding groups_consistent_def using assms by blast

lemma groups_consistent_distinct: "groups_consistent cs \<Longrightarrow> (ty, gs) \<in> set cs \<Longrightarrow> distinct gs"
  unfolding groups_consistent_def by blast

lemma groups_consistent_kind:
  "groups_consistent cs \<Longrightarrow> (ty, gs) \<in> set cs \<Longrightarrow> (ty', gs') \<in> set cs \<Longrightarrow> g \<in> set gs \<Longrightarrow> g \<in> set gs' \<Longrightarrow> ty = ty'"
  unfolding groups_consistent_def by blast

lemma groups_consistent_prefix: "groups_consistent (xs @ ys) \<Longrightarrow> groups_consistent xs"
  by (rule groups_consistent_I)
    (auto dest: groups_consistent_distinct groups_consistent_kind [where cs = "xs @ ys"])

lemma uses_map_snoc: "count_groups gs (uses_map cs) = uses_map (cs @ [(ty, gs)])"
  by (auto simp: count_groups_def uses_map_def group_uses_def fun_eq_iff)

lemma kinds_map_snoc: "type_groups ty gs (kinds_map cs) = kinds_map (cs @ [(ty, gs)])"
  by (auto simp: type_groups_def kinds_map_def)

lemma kinds_map_None: "kinds_map cs g = None \<longleftrightarrow> (\<forall>(ty, gs) \<in> set cs. g \<notin> set gs)"
  by (auto simp: kinds_map_def find_None_iff)

lemma kinds_map_Some: "kinds_map cs g = Some ty \<Longrightarrow> \<exists>gs. (ty, gs) \<in> set cs \<and> g \<in> set gs"
  unfolding kinds_map_def by (auto simp: find_Some_iff) (metis length_rev nth_mem set_rev)

lemma groups_consistent_snoc:
  assumes "groups_consistent cs"
  shows "groups_consistent (cs @ [(ty, gs)]) \<longleftrightarrow>
    distinct gs \<and> (\<forall>g \<in> set gs. kinds_map cs g \<in> {None, Some ty})"
proof
  assume c: "groups_consistent (cs @ [(ty, gs)])"
  have "kinds_map cs g \<in> {None, Some ty}" if "g \<in> set gs" for g
  proof (cases "kinds_map cs g")
    case (Some ty')
    from kinds_map_Some [OF this] obtain gs' where "(ty', gs') \<in> set cs" "g \<in> set gs'" by blast
    with groups_consistent_kind [OF c, of ty' gs' ty gs g] that have "ty' = ty" by simp
    with Some show ?thesis by simp
  qed simp
  with groups_consistent_distinct [OF c, of ty gs]
  show "distinct gs \<and> (\<forall>g \<in> set gs. kinds_map cs g \<in> {None, Some ty})" by simp
next
  assume d: "distinct gs \<and> (\<forall>g \<in> set gs. kinds_map cs g \<in> {None, Some ty})"
  have "ty' = ty" if m: "(ty', gs') \<in> set cs" and g: "g \<in> set gs" "g \<in> set gs'" for ty' gs' g
  proof (cases "kinds_map cs g")
    case None
    with m g(2) show ?thesis by (auto simp: kinds_map_None)
  next
    case (Some ty'')
    with d g have "ty'' = ty" by auto
    moreover from kinds_map_Some [OF Some] obtain gs'' where "(ty'', gs'') \<in> set cs" "g \<in> set gs''" by blast
    ultimately show ?thesis using groups_consistent_kind [OF assms m _ g(2)] by blast
  qed
  note old = this
  show "groups_consistent (cs @ [(ty, gs)])"
  proof (rule groups_consistent_I)
    fix ty1 gs1 assume "(ty1, gs1) \<in> set (cs @ [(ty, gs)])"
    then show "distinct gs1" using d groups_consistent_distinct [OF assms] by auto
  next
    fix ty1 gs1 ty2 gs2 g
    assume "(ty1, gs1) \<in> set (cs @ [(ty, gs)])" "(ty2, gs2) \<in> set (cs @ [(ty, gs)])"
      and "g \<in> set gs1" "g \<in> set gs2"
    then show "ty1 = ty2" using old groups_consistent_kind [OF assms] by auto
  qed
qed

lemma validate_groups_eq:
  assumes "alias_rep st (uses_map pre) (kinds_map pre)" and "groups_consistent pre"
  shows "case validate_groups cs st of
      Inl e \<Rightarrow> e = ValueError \<and> \<not> groups_consistent (pre @ cs)
    | Inr st' \<Rightarrow> alias_rep st' (uses_map (pre @ cs)) (kinds_map (pre @ cs)) \<and> groups_consistent (pre @ cs)"
  using assms
proof (induction cs arbitrary: pre st)
  case (Cons c cs)
  obtain ty gs where c: "c = (ty, gs)" by (cases c)
  note step = validate_group_list_eq [OF Cons.prems(1), where ty = ty and seen = "[]" and gs = gs]
  show ?case
  proof (cases "validate_group_list ty [] gs st")
    case (Inl e)
    with step have "e = ValueError" "\<not> groups_consistent (pre @ [c])"
      by (auto simp: c groups_consistent_snoc [OF Cons.prems(2)])
    with groups_consistent_prefix [of "pre @ [c]" cs] Inl show ?thesis by (auto simp: c)
  next
    case (Inr st')
    with step have "alias_rep st' (uses_map (pre @ [c])) (kinds_map (pre @ [c]))"
      and "groups_consistent (pre @ [c])"
      by (simp_all add: c uses_map_snoc [of gs pre ty] kinds_map_snoc groups_consistent_snoc [OF Cons.prems(2)])
    from Cons.IH [OF this, unfolded append_assoc append.simps] show ?thesis by (simp add: c Inr)
  qed
qed simp

lemma validate_alias_groups_iff:
  "validate_alias_groups ps =
     (if alias_groups_valid (collect_alias_groups ps) then Inr () else Inl ValueError)"
proof -
  let ?cs = "collect_alias_groups ps"
  let ?st = "\<lparr>use_count = [], constraint_type_by_group = []\<rparr>"
  have "alias_rep ?st (uses_map []) (kinds_map [])" "groups_consistent []"
    by (auto simp: alias_rep_def uses_map_def kinds_map_def group_uses_def groups_consistent_def)
  note run = validate_groups_eq [OF this, of ?cs, simplified]
  have valid: "alias_groups_valid ?cs \<longleftrightarrow>
      groups_consistent ?cs \<and> (\<forall>(ty, gs) \<in> set ?cs. \<forall>g \<in> set gs. group_uses ?cs g \<noteq> 1)"
    by (fastforce simp: alias_groups_valid_def groups_consistent_def)
  show ?thesis
  proof (cases "validate_groups ?cs ?st")
    case (Inl e)
    with run valid show ?thesis by (simp add: validate_alias_groups_def)
  next
    case (Inr st)
    with run have rep: "alias_rep st (uses_map ?cs) (kinds_map ?cs)" and c: "groups_consistent ?cs" by auto
    have mem: "(g, n) \<in> set (use_count st) \<longleftrightarrow> uses_map ?cs g = Some n" for g n
      using rep by (auto simp: alias_rep_def simp flip: map_of_eq_Some_iff)
    have "group_uses ?cs g = 1 \<Longrightarrow> \<exists>(ty, gs) \<in> set ?cs. g \<in> set gs" for g
      by (auto simp: group_uses_def length_Suc_conv filter_eq_Cons_iff)
    then have "(\<forall>(ty, gs) \<in> set ?cs. \<forall>g \<in> set gs. group_uses ?cs g \<noteq> 1) \<longleftrightarrow> (\<forall>g. group_uses ?cs g \<noteq> 1)"
      by blast
    moreover have "(\<forall>(g, n) \<in> set (use_count st). n \<noteq> 1) \<longleftrightarrow> (\<forall>g. group_uses ?cs g \<noteq> 1)"
      unfolding Ball_def split_paired_All mem uses_map_def by (simp, metis zero_less_Suc)
    ultimately have "(\<forall>(g, n) \<in> set (use_count st). n \<noteq> 1) \<longleftrightarrow>
        (\<forall>(ty, gs) \<in> set ?cs. \<forall>g \<in> set gs. group_uses ?cs g \<noteq> 1)" by simp
    then show ?thesis using c valid Inr by (auto simp: validate_alias_groups_def guardS_def)
  qed
qed

text \<open>C33. \<^verbatim>\<open>_validate_alias_groups\<close> accepts exactly the parameters in which no array or list repeats
  a group, every group is used by at least two of them, and no group mixes arrays with lists; any
  other parameters raise \<^verbatim>\<open>ValueError\<close>.\<close>

theorem validate_alias_groups_eq:
  "validate_alias_groups ps =
     (if alias_groups_valid (collect_alias_groups ps) then Inr () else Inl ValueError)"
  by (rule validate_alias_groups_iff)

end
