(* ===== verification/MangleText.thy ===== *)
theory MangleText
  imports Signature
begin

text \<open>
  The lexical part of \<^verbatim>\<open>src/cuda/tile/compilation/_name_mangling.py\<close>: the cursor over a mangled
  name, the regular expressions it is read with, numbers, strings and dtype names.

  \<^item> a regular expression is the function that gives the length of its match at the start of a
    string; none of the expressions of the module needs backtracking;
  \<^item> \<open>demangler\<close> is the state of demangling: the rest of the name, the position, and
    \<^verbatim>\<open>_last_seen_id\<close> of \<^verbatim>\<open>_AliasGroupDemangler\<close>;
  \<^item> the locale \<open>text_format\<close> is the contract of a printer and its reader: what was printed is read
    back, and exactly it is consumed, whenever the text that follows is allowed.
\<close>

section \<open>Characters\<close>

abbreviation ch :: "char \<Rightarrow> nat" where
  "ch c \<equiv> of_char c"

definition is_digit :: "nat \<Rightarrow> bool" where
  "is_digit c \<longleftrightarrow> ch (CHR ''0'') \<le> c \<and> c \<le> ch (CHR ''9'')"

definition is_lower :: "nat \<Rightarrow> bool" where
  "is_lower c \<longleftrightarrow> ch (CHR ''a'') \<le> c \<and> c \<le> ch (CHR ''z'')"

definition is_upper :: "nat \<Rightarrow> bool" where
  "is_upper c \<longleftrightarrow> ch (CHR ''A'') \<le> c \<and> c \<le> ch (CHR ''Z'')"

definition is_hex :: "nat \<Rightarrow> bool" where
  "is_hex c \<longleftrightarrow> is_digit c \<or> ch (CHR ''a'') \<le> c \<and> c \<le> ch (CHR ''f'')"

definition is_name_char :: "nat \<Rightarrow> bool" where
  "is_name_char c \<longleftrightarrow> is_lower c \<or> is_digit c"

text \<open>\<^verbatim>\<open>[a-zA-JL-Z0-9]\<close>.\<close>

definition is_plain :: "nat \<Rightarrow> bool" where
  "is_plain c \<longleftrightarrow> is_lower c \<or> is_upper c \<and> c \<noteq> ch (CHR ''K'') \<or> is_digit c"

lemmas char_class_defs = is_digit_def is_lower_def is_upper_def is_hex_def is_name_char_def is_plain_def

section \<open>Regular expressions and the cursor\<close>

type_synonym regex = "pystr \<Rightarrow> nat option"

definition re_one :: "(nat \<Rightarrow> bool) \<Rightarrow> regex" where
  "re_one P = (\<lambda>s. case s of [] \<Rightarrow> None | c # _ \<Rightarrow> if P c then Some 1 else None)"

definition re_char :: "char \<Rightarrow> regex" where
  "re_char c = re_one (\<lambda>x. x = ch c)"

definition re_plus :: "(nat \<Rightarrow> bool) \<Rightarrow> regex" where
  "re_plus P = (\<lambda>s. let n = length (takeWhile P s) in if n = 0 then None else Some n)"

definition re_star :: "(nat \<Rightarrow> bool) \<Rightarrow> regex" where
  "re_star P = (\<lambda>s. Some (length (takeWhile P s)))"

definition re_times :: "nat \<Rightarrow> (nat \<Rightarrow> bool) \<Rightarrow> regex" where
  "re_times n P = (\<lambda>s. if n \<le> length s \<and> list_all P (take n s) then Some n else None)"

definition re_seq :: "regex \<Rightarrow> regex \<Rightarrow> regex" where
  "re_seq r1 r2 = (\<lambda>s. case r1 s of None \<Rightarrow> None | Some n \<Rightarrow>
     (case r2 (drop n s) of None \<Rightarrow> None | Some m \<Rightarrow> Some (n + m)))"

definition re_alt :: "regex \<Rightarrow> regex \<Rightarrow> regex" where
  "re_alt r1 r2 = (\<lambda>s. case r1 s of None \<Rightarrow> r2 s | Some n \<Rightarrow> Some n)"

lemmas re_defs = re_one_def re_char_def re_plus_def re_star_def re_times_def re_seq_def re_alt_def

record demangler =
  dm_remaining :: pystr
  dm_pos :: nat
  dm_last_seen_id :: int

type_synonym 'a dmg = "(demangler, 'a) eff"

definition advance :: "nat \<Rightarrow> demangler \<Rightarrow> demangler" where
  "advance n s = s\<lparr>dm_remaining := drop n (dm_remaining s), dm_pos := dm_pos s + n\<rparr>"

definition cur_peek :: "regex \<Rightarrow> nat option dmg" where
  "cur_peek r = getE (\<lambda>s. r (dm_remaining s))"

definition cur_read :: "regex \<Rightarrow> pystr option dmg" where
  "cur_read r = (\<lambda>s. case r (dm_remaining s) of
     None \<Rightarrow> (Inr None, s)
   | Some n \<Rightarrow> (Inr (Some (take n (dm_remaining s))), advance n s))"

definition cur_expect :: "regex \<Rightarrow> pystr dmg" where
  "cur_expect r = bindE (cur_read r) (\<lambda>m. case m of None \<Rightarrow> raiseE ValueError | Some x \<Rightarrow> retE x)"

lemma cur_expect_eq:
  "cur_expect r s = (case r (dm_remaining s) of None \<Rightarrow> (Inl ValueError, s)
     | Some n \<Rightarrow> (Inr (take n (dm_remaining s)), advance n s))"
  by (simp add: cur_expect_def cur_read_def bindE_def raiseE_def retE_def split: option.splits)

lemma advance_simps [simp]:
  "dm_remaining (advance n s) = drop n (dm_remaining s)"
  "dm_last_seen_id (advance n s) = dm_last_seen_id s"
  "advance m (advance n s) = advance (n + m) s" "advance 0 s = s"
  by (simp_all add: advance_def drop_drop add.commute add.left_commute)

section \<open>Numbers\<close>

definition digit_char :: "nat \<Rightarrow> nat" where
  "digit_char d = (if d < 10 then ch (CHR ''0'') + d else ch (CHR ''a'') + (d - 10))"

definition digit_value :: "nat \<Rightarrow> nat" where
  "digit_value c = (if is_digit c then c - ch (CHR ''0'') else c - ch (CHR ''a'') + 10)"

text \<open>\<open>nat_str b n\<close>: the digits of \<open>n\<close> in base \<open>b\<close>, as \<^verbatim>\<open>str(n)\<close> and \<^verbatim>\<open>f"{n:x}"\<close> print them.\<close>

function nat_str :: "nat \<Rightarrow> nat \<Rightarrow> pystr" where
  "nat_str b n = (if n < b \<or> b < 2 then [digit_char n] else nat_str b (n div b) @ [digit_char (n mod b)])"
  by pat_completeness auto
termination
  by (relation "measure snd") (auto intro: div_less_dividend)

declare nat_str.simps [simp del]

text \<open>\<^verbatim>\<open>int(s, base)\<close> of a string of digits.\<close>

definition parse_digits :: "nat \<Rightarrow> pystr \<Rightarrow> nat" where
  "parse_digits b s = foldl (\<lambda>a c. a * b + digit_value c) 0 s"

definition pad_left :: "nat \<Rightarrow> pystr \<Rightarrow> pystr" where
  "pad_left w s = replicate (w - length s) (ch (CHR ''0'')) @ s"

abbreviation int_str :: "int \<Rightarrow> pystr" where
  "int_str n \<equiv> nat_str 10 (nat n)"

abbreviation hex_str :: "nat \<Rightarrow> pystr" where
  "hex_str n \<equiv> nat_str 16 n"

definition mangle_signed_int :: "int \<Rightarrow> pystr" where
  "mangle_signed_int val = (if val < 0 then lit ''_'' @ int_str (- val) else int_str val)"

definition demangle_signed_int :: "int dmg" where
  "demangle_signed_int =
     bindE (cur_read (re_char (CHR ''_''))) (\<lambda>m.
     let sign = (if m = None then 1 else - 1) in
     bindE (cur_expect (re_plus is_digit)) (\<lambda>ds. retE (sign * int (parse_digits 10 ds))))"

definition demangle_divisibility :: "int dmg" where
  "demangle_divisibility =
     bindE demangle_signed_int (\<lambda>ret. if ret \<le> 1 then raiseE ValueError else retE ret)"

section \<open>Strings\<close>

text \<open>
  \<^verbatim>\<open>_mangle_string\<close>: the chunks between two matches of \<^verbatim>\<open>[^a-zA-JL-Z0-9]\<close> are copied, a match is
  replaced by its escape, so the result is character by character.
\<close>

definition mangle_char :: "nat \<Rightarrow> pystr" where
  "mangle_char c =
     (if is_plain c then [c]
      else if c = ch (CHR ''_'') then lit ''__''
      else if c = ch (CHR ''K'') then lit ''_k''
      else if int c \<le> 0xff then lit ''_'' @ pad_left 2 (hex_str c)
      else if int c \<le> 0xffff then lit ''_u'' @ pad_left 4 (hex_str c)
      else lit ''_w'' @ pad_left 8 (hex_str c))"

definition mangle_string :: "pystr \<Rightarrow> pystr" where
  "mangle_string s = concat (List.map mangle_char s) @ lit ''_z''"

definition is_escape :: "nat \<Rightarrow> bool" where
  "is_escape c \<longleftrightarrow> c = ch (CHR ''_'') \<or> is_hex c \<or> List.member (lit ''kzuw'') c"

lemma bindE_cong [fundef_cong]:
  assumes "m s = m' s'" and "\<And>x t. m' s' = (Inr x, t) \<Longrightarrow> k x t = k' x t"
  shows "bindE m k s = bindE m' k' s'"
  using assms by (auto simp: bindE_def split: sum.splits prod.splits)

lemma re_char_len: "re_char c s = Some n \<Longrightarrow> 0 < n \<and> n \<le> length s"
  by (auto simp: re_char_def re_one_def split: list.splits if_splits)

lemma cur_expect_shrinks:
  assumes "cur_expect (re_char c) s = (Inr x, t)"
  shows "length (dm_remaining t) < length (dm_remaining s)"
  using assms re_char_len [of c "dm_remaining s"]
  by (auto simp: cur_expect_eq split: option.splits)

lemma cur_expect_no_longer:
  assumes "cur_expect r s = (Inr x, t)"
  shows "length (dm_remaining t) \<le> length (dm_remaining s)"
  using assms by (auto simp: cur_expect_eq split: option.splits)

lemma cur_read_no_longer:
  assumes "cur_read r s = (x, t)"
  shows "length (dm_remaining t) \<le> length (dm_remaining s)"
  using assms by (auto simp: cur_read_def split: option.splits)

function demangle_string_loop :: "pystr \<Rightarrow> demangler \<Rightarrow> (py_error + pystr) \<times> demangler" where
  "demangle_string_loop chunks s =
     bindE (cur_read (re_plus is_plain)) (\<lambda>alphanumeric_chunk s.
       let chunks = chunks @ (case alphanumeric_chunk of None \<Rightarrow> [] | Some x \<Rightarrow> x) in
       bindE (cur_expect (re_char (CHR ''_''))) (\<lambda>_ s.
       bindE (cur_expect (re_one is_escape)) (\<lambda>c s1.
         if c = lit ''_'' then demangle_string_loop (chunks @ lit ''_'') s1
         else if c = lit ''k'' then demangle_string_loop (chunks @ lit ''K'') s1
         else if c = lit ''z'' then retE chunks s1
         else if c = lit ''u'' then
           bindE (cur_expect (re_times 4 is_hex)) (\<lambda>ds s2.
             demangle_string_loop (chunks @ [parse_digits 16 ds]) s2) s1
         else if c = lit ''w'' then
           bindE (cur_expect (re_times 8 is_hex)) (\<lambda>ds s2.
             if 0x10ffff < int (parse_digits 16 ds) then raiseE ValueError s2
             else demangle_string_loop (chunks @ [parse_digits 16 ds]) s2) s1
         else
           bindE (cur_expect (re_one is_hex)) (\<lambda>d s2.
             demangle_string_loop (chunks @ [parse_digits 16 (c @ d)]) s2) s1) s) s) s"
  by pat_completeness auto
termination
  by (relation "measure (\<lambda>(_, s). length (dm_remaining s))")
    (fastforce dest: cur_expect_shrinks cur_expect_no_longer cur_read_no_longer)+

declare demangle_string_loop.simps [simp del]

definition demangle_string :: "pystr dmg" where
  "demangle_string = demangle_string_loop []"

section \<open>Dtype names\<close>

definition mangled_dtypes :: "(dtype \<times> string) list" where
  "mangled_dtypes =
     [(DT_bool, ''b8''), (DT_uint8, ''u8''), (DT_uint16, ''u16''), (DT_uint32, ''u32''), (DT_uint64, ''u64''),
      (DT_int8, ''i8''), (DT_int16, ''i16''), (DT_int32, ''i32''), (DT_int64, ''i64''),
      (DT_float16, ''f16''), (DT_float32, ''f32''), (DT_float64, ''f64''), (DT_bfloat16, ''bf16''),
      (DT_tfloat32, ''tf32''), (DT_float8_e4m3fn, ''f8m3fn''), (DT_float8_e5m2, ''f8m2''),
      (DT_float8_e8m0fnu, ''f8m0fnu'')]"

definition mangle_dtype :: "dtype \<Rightarrow> py_error + pystr" where
  "mangle_dtype d = (case map_of mangled_dtypes d of None \<Rightarrow> Inl ValueError | Some n \<Rightarrow> Inr (lit n))"

definition demangle_dtype :: "dtype dmg" where
  "demangle_dtype =
     bindE (cur_expect (re_plus is_name_char)) (\<lambda>dtype_str.
     case List.find (\<lambda>(d, n). lit n = dtype_str) mangled_dtypes of
       None \<Rightarrow> raiseE ValueError | Some (d, n) \<Rightarrow> retE d)"

section \<open>Reading back what was printed\<close>

text \<open>
  \<open>reads F l x m a l'\<close>: when the rest of the name starts with \<open>x\<close> and goes on with something
  allowed by \<open>F\<close>, and the last group id seen is \<open>l\<close>, then \<open>m\<close> returns \<open>a\<close>, consumes exactly \<open>x\<close> and
  leaves \<open>l'\<close>.
\<close>

definition reads :: "(pystr \<Rightarrow> bool) \<Rightarrow> int \<Rightarrow> pystr \<Rightarrow> 'a dmg \<Rightarrow> 'a \<Rightarrow> int \<Rightarrow> bool" where
  "reads F l x m a l' \<longleftrightarrow> (\<forall>(s :: demangler) rest. dm_remaining s = x @ rest \<longrightarrow> F rest \<longrightarrow> dm_last_seen_id s = l \<longrightarrow>
     m s = (Inr a, (advance (length x) s)\<lparr>dm_last_seen_id := l'\<rparr>))"

lemma reads_I:
  assumes "\<And>(s :: demangler) rest. dm_remaining s = x @ rest \<Longrightarrow> F rest \<Longrightarrow> dm_last_seen_id s = l \<Longrightarrow>
     m s = (Inr a, (advance (length x) s)\<lparr>dm_last_seen_id := l'\<rparr>)"
  shows "reads F l x m a l'"
  using assms by (simp add: reads_def)

lemma reads_D:
  assumes "reads F l x m a l'" and "dm_remaining s = x @ rest" and "F rest" and "dm_last_seen_id s = l"
  shows "m s = (Inr a, (advance (length x) s)\<lparr>dm_last_seen_id := l'\<rparr>)"
  using assms by (simp add: reads_def)

lemma advance_last_seen [simp]:
  "advance n ((s :: demangler)\<lparr>dm_last_seen_id := l\<rparr>) = (advance n s)\<lparr>dm_last_seen_id := l\<rparr>"
  by (simp add: advance_def)

lemma last_seen_same: "dm_last_seen_id s = l \<Longrightarrow> (s :: demangler)\<lparr>dm_last_seen_id := l\<rparr> = s"
  by auto

lemma reads_bind:
  assumes m: "reads G l x m a l1" and k: "reads F l1 y (k a) b l2"
    and F: "\<And>rest. F rest \<Longrightarrow> G (y @ rest)"
  shows "reads F l (x @ y) (bindE m k) b l2"
proof (rule reads_I)
  fix s :: demangler and rest assume s: "dm_remaining s = (x @ y) @ rest" "F rest" "dm_last_seen_id s = l"
  let ?s1 = "(advance (length x) s)\<lparr>dm_last_seen_id := l1\<rparr>"
  have 1: "m s = (Inr a, ?s1)" using reads_D [OF m, of s "y @ rest"] s F by simp
  have "k a ?s1 = (Inr b, (advance (length y) ?s1)\<lparr>dm_last_seen_id := l2\<rparr>)"
    by (rule reads_D [OF k, of ?s1 rest]) (simp_all add: s)
  then show "bindE m k s = (Inr b, (advance (length (x @ y)) s)\<lparr>dm_last_seen_id := l2\<rparr>)"
    by (simp add: bindE_def 1)
qed

lemma reads_ret: "reads F l [] (retE a) a l"
  by (rule reads_I) (simp add: retE_def last_seen_same)

lemma reads_weaken: "reads F l x m a l' \<Longrightarrow> (\<And>rest. G rest \<Longrightarrow> F rest) \<Longrightarrow> reads G l x m a l'"
  by (simp add: reads_def)

text \<open>The last step of a body: a reader followed by a value.\<close>

lemma reads_bind_ret:
  assumes "reads F l x m a l'" and "k a = retE b"
  shows "reads F l x (bindE m k) b l'"
  using reads_bind [OF assms(1), of F "[]" k b l'] assms(2) reads_ret [of F l' b] by simp

definition matches :: "regex \<Rightarrow> (pystr \<Rightarrow> bool) \<Rightarrow> pystr \<Rightarrow> bool" where
  "matches r F x \<longleftrightarrow> (\<forall>rest. F rest \<longrightarrow> r (x @ rest) = Some (length x))"

definition refuses :: "regex \<Rightarrow> (pystr \<Rightarrow> bool) \<Rightarrow> bool" where
  "refuses r F \<longleftrightarrow> (\<forall>rest. F rest \<longrightarrow> r rest = None)"

lemma reads_expect: "matches r F x \<Longrightarrow> reads F l x (cur_expect r) x l"
  by (rule reads_I) (simp add: cur_expect_eq matches_def last_seen_same)

lemma reads_read: "matches r F x \<Longrightarrow> reads F l x (cur_read r) (Some x) l"
  by (rule reads_I) (simp add: cur_read_def matches_def last_seen_same)

lemma reads_read_None: "refuses r F \<Longrightarrow> reads F l [] (cur_read r) None l"
  by (rule reads_I) (simp add: cur_read_def refuses_def last_seen_same)

definition begins :: "(nat \<Rightarrow> bool) \<Rightarrow> pystr \<Rightarrow> bool" where
  "begins P s \<longleftrightarrow> (case s of [] \<Rightarrow> False | c # _ \<Rightarrow> P c)"

lemma begins_simps [simp]: "\<not> begins P []" "begins P (c # s) = P c"
  by (simp_all add: begins_def)

lemma begins_append: "begins P (x @ y) \<longleftrightarrow> (if x = [] then begins P y else P (hd x))"
  by (cases x) auto

lemma takeWhile_stops: "list_all P x \<Longrightarrow> \<not> begins P rest \<Longrightarrow> takeWhile P (x @ rest) = x"
  by (induction x) (auto simp: begins_def split: list.splits)

lemma matches_plus: "list_all P x \<Longrightarrow> x \<noteq> [] \<Longrightarrow> matches (re_plus P) (\<lambda>rest. \<not> begins P rest) x"
  by (simp add: matches_def re_plus_def takeWhile_stops Let_def)

lemma matches_char [simp]: "matches (re_char c) F [ch c]"
  by (simp add: matches_def re_defs)

lemma matches_one: "P c \<Longrightarrow> matches (re_one P) F [c]"
  by (simp add: matches_def re_defs)

lemma matches_times: "length x = n \<Longrightarrow> list_all P x \<Longrightarrow> matches (re_times n P) F x"
  by (simp add: matches_def re_times_def)

lemma reads_one: "P c \<Longrightarrow> reads F l [c] (cur_expect (re_one P)) [c] l"
  by (intro reads_expect matches_one)

lemma reads_char: "reads F l [ch c] (cur_expect (re_char c)) [ch c] l"
  by (intro reads_expect matches_char)

lemma refuses_char: "(\<And>rest. F rest \<Longrightarrow> \<not> begins (\<lambda>x. x = ch c) rest) \<Longrightarrow> refuses (re_char c) F"
  by (force simp: refuses_def re_defs begins_def split: list.splits)

lemma refuses_plus: "(\<And>rest. F rest \<Longrightarrow> \<not> begins P rest) \<Longrightarrow> refuses (re_plus P) F"
  by (force simp: refuses_def re_plus_def begins_def Let_def split: list.splits)

subsection \<open>Numbers\<close>

lemma digit_char_hex: "d < 16 \<Longrightarrow> is_hex (digit_char d)"
  by (simp add: char_class_defs digit_char_def)

lemma digit_char_digit: "d < 10 \<Longrightarrow> is_digit (digit_char d)"
  by (simp add: char_class_defs digit_char_def)

lemma digit_value_char: "d < 16 \<Longrightarrow> digit_value (digit_char d) = d"
  by (simp add: char_class_defs digit_char_def digit_value_def)

lemma nat_str_nonempty [simp]: "nat_str b n \<noteq> []"
  by (subst nat_str.simps) simp

lemma nat_str_digits: "b = 10 \<Longrightarrow> list_all is_digit (nat_str b n)"
  by (induction b n rule: nat_str.induct) (subst nat_str.simps, auto simp: digit_char_digit)

lemma nat_str_hex: "b \<le> 16 \<Longrightarrow> 2 \<le> b \<Longrightarrow> list_all is_hex (nat_str b n)"
proof (induction b n rule: nat_str.induct)
  case (1 b n)
  then have "n mod b < 16" using mod_less_divisor [of b n] by linarith
  then show ?case using 1 by (subst nat_str.simps) (auto simp: digit_char_hex)
qed

lemma parse_digits_snoc: "parse_digits b (s @ [c]) = parse_digits b s * b + digit_value c"
  by (simp add: parse_digits_def)

lemma parse_nat_str: "2 \<le> b \<Longrightarrow> b \<le> 16 \<Longrightarrow> parse_digits b (nat_str b n) = n"
proof (induction b n rule: nat_str.induct)
  case (1 b n)
  then have "n mod b < 16" using mod_less_divisor [of b n] by linarith
  then show ?case using 1
    by (subst nat_str.simps) (auto simp: parse_digits_snoc digit_value_char parse_digits_def [of b "[digit_char n]"])
qed

lemma parse_pad_left [simp]: "parse_digits b (pad_left w s) = parse_digits b s"
proof -
  have "foldl (\<lambda>a c. a * b + digit_value c) 0 (replicate k (ch (CHR ''0''))) = 0" for k
    by (induction k) (simp_all add: digit_value_def is_digit_def)
  then show ?thesis by (simp add: parse_digits_def pad_left_def)
qed

lemma nat_str_length: "n < b ^ w \<Longrightarrow> 2 \<le> b \<Longrightarrow> 0 < w \<Longrightarrow> length (nat_str b n) \<le> w"
proof (induction w arbitrary: n)
  case (Suc w)
  show ?case
  proof (cases "n < b")
    case False
    then have "n div b < b ^ w" using Suc.prems by (simp add: div_less_iff_less_mult mult.commute)
    moreover have "0 < w"
    proof (rule ccontr)
      assume "\<not> 0 < w" then show False using Suc.prems False by simp
    qed
    ultimately show ?thesis using Suc False by (subst nat_str.simps) simp
  qed (subst nat_str.simps, simp)
qed simp

lemma nat_str_leading: "2 \<le> b \<Longrightarrow> b \<le> 16 \<Longrightarrow> 0 < n \<Longrightarrow> hd (nat_str b n) \<noteq> ch (CHR ''0'')"
proof (induction b n rule: nat_str.induct)
  case (1 b n)
  show ?case
  proof (cases "n < b")
    case True
    then show ?thesis using 1 by (subst nat_str.simps) (auto simp: digit_char_def)
  next
    case False
    then have "0 < n div b" using 1 by (simp add: div_greater_zero_iff)
    then show ?thesis using 1 False by (subst nat_str.simps) (simp add: hd_append)
  qed
qed

definition no_digit :: "pystr \<Rightarrow> bool" where
  "no_digit rest \<longleftrightarrow> \<not> begins is_digit rest"

lemma digit_not_underscore: "is_digit c \<Longrightarrow> c \<noteq> ch (CHR ''_'')"
  by (auto simp: is_digit_def)

lemma reads_nat_str:
  assumes "\<And>rest. F rest \<Longrightarrow> no_digit rest"
  shows "reads F l (nat_str 10 n) (cur_expect (re_plus is_digit)) (nat_str 10 n) l"
  by (rule reads_weaken [OF reads_expect [OF matches_plus [OF nat_str_digits]]])
    (use assms in \<open>auto simp: no_digit_def\<close>)

lemma reads_signed_int: "reads no_digit l (mangle_signed_int v) demangle_signed_int v l"
proof (cases "v < 0")
  case True
  have "reads no_digit l ([ch (CHR ''_'')] @ int_str (- v)) demangle_signed_int v l"
    unfolding demangle_signed_int_def
  proof (rule reads_bind [OF reads_read [OF matches_char]])
    show "reads no_digit l (int_str (- v))
      (let sign = if Some [ch (CHR ''_'')] = None then 1 else - 1 in
       bindE (cur_expect (re_plus is_digit)) (\<lambda>ds. retE (sign * int (parse_digits 10 ds)))) v l"
      unfolding Let_def
      by (rule reads_bind_ret [OF reads_nat_str]) (use True in \<open>simp_all add: parse_nat_str\<close>)
  qed simp
  then show ?thesis using True by (simp add: mangle_signed_int_def lit_def)
next
  case False
  have d: "begins (\<lambda>x. x = ch (CHR ''_'')) (int_str v @ rest) = False" for rest
    using nat_str_digits [of 10 "nat v"] digit_not_underscore
    by (cases "int_str v") (auto simp: begins_append)
  have "reads no_digit l ([] @ int_str v) demangle_signed_int v l"
    unfolding demangle_signed_int_def
  proof (rule reads_bind [OF reads_read_None [OF refuses_char]])
    show "reads no_digit l (int_str v)
      (let sign = if None = (None :: pystr option) then 1 else - 1 in
       bindE (cur_expect (re_plus is_digit)) (\<lambda>ds. retE (sign * int (parse_digits 10 ds)))) v l"
      unfolding Let_def
      by (rule reads_bind_ret [OF reads_nat_str]) (use False in \<open>simp_all add: parse_nat_str\<close>)
    show "\<not> begins (\<lambda>x. x = ch (CHR ''_'')) rest"
      if "\<exists>r. rest = int_str v @ r" for rest
      using that d by auto
  qed auto
  then show ?thesis using False by (simp add: mangle_signed_int_def)
qed

lemma reads_divisibility: "1 < v \<Longrightarrow> reads no_digit l (mangle_signed_int v) demangle_divisibility v l"
  unfolding demangle_divisibility_def by (rule reads_bind_ret [OF reads_signed_int]) simp


subsection \<open>Strings\<close>

lemma pad_left_length: "length s \<le> w \<Longrightarrow> length (pad_left w s) = w"
  by (simp add: pad_left_def)

lemma pad_left_hex: "list_all is_hex s \<Longrightarrow> list_all is_hex (pad_left w s)"
  by (auto simp: pad_left_def list_all_iff is_hex_def is_digit_def)

lemma hex_padded:
  assumes "n < 16 ^ w" and "0 < w"
  shows "length (pad_left w (hex_str n)) = w" and "list_all is_hex (pad_left w (hex_str n))"
    and "parse_digits 16 (pad_left w (hex_str n)) = n"
  using assms nat_str_length [of n 16 w] by (simp_all add: pad_left_length pad_left_hex nat_str_hex parse_nat_str)

lemma reads_hex_padded:
  assumes "n < 16 ^ w" and "0 < w"
  shows "reads F l (pad_left w (hex_str n)) (cur_expect (re_times w is_hex)) (pad_left w (hex_str n)) l"
  using assms by (intro reads_expect matches_times hex_padded)

text \<open>The part of the loop after the character that says which escape it is.\<close>

definition escaped :: "pystr \<Rightarrow> pystr \<Rightarrow> pystr dmg" where
  "escaped chunks c = (\<lambda>s1.
       if c = lit ''_'' then demangle_string_loop (chunks @ lit ''_'') s1
       else if c = lit ''k'' then demangle_string_loop (chunks @ lit ''K'') s1
       else if c = lit ''z'' then retE chunks s1
       else if c = lit ''u'' then
         bindE (cur_expect (re_times 4 is_hex)) (\<lambda>ds s2.
           demangle_string_loop (chunks @ [parse_digits 16 ds]) s2) s1
       else if c = lit ''w'' then
         bindE (cur_expect (re_times 8 is_hex)) (\<lambda>ds s2.
           if 0x10ffff < int (parse_digits 16 ds) then raiseE ValueError s2
           else demangle_string_loop (chunks @ [parse_digits 16 ds]) s2) s1
       else
         bindE (cur_expect (re_one is_hex)) (\<lambda>d s2.
           demangle_string_loop (chunks @ [parse_digits 16 (c @ d)]) s2) s1)"

lemma loop_eq:
  "demangle_string_loop chunks = bindE (cur_read (re_plus is_plain)) (\<lambda>a.
     bindE (cur_expect (re_char (CHR ''_''))) (\<lambda>_.
     bindE (cur_expect (re_one is_escape)) (escaped (chunks @ (case a of None \<Rightarrow> [] | Some x \<Rightarrow> x)))))"
  by (rule ext, subst demangle_string_loop.simps, simp only: escaped_def [abs_def] Let_def)

lemma escaped_simps:
  "escaped chunks (lit ''_'') = demangle_string_loop (chunks @ lit ''_'')"
  "escaped chunks (lit ''k'') = demangle_string_loop (chunks @ lit ''K'')"
  "escaped chunks (lit ''z'') = retE chunks"
  "escaped chunks (lit ''u'') = bindE (cur_expect (re_times 4 is_hex)) (\<lambda>ds.
     demangle_string_loop (chunks @ [parse_digits 16 ds]))"
  "escaped chunks (lit ''w'') = bindE (cur_expect (re_times 8 is_hex)) (\<lambda>ds s2.
     if 0x10ffff < int (parse_digits 16 ds) then raiseE ValueError s2
     else demangle_string_loop (chunks @ [parse_digits 16 ds]) s2)"
  "is_hex d \<Longrightarrow> escaped chunks [d] = bindE (cur_expect (re_one is_hex)) (\<lambda>e.
     demangle_string_loop (chunks @ [parse_digits 16 ([d] @ e)]))"
  by (auto simp: escaped_def lit_def fun_eq_iff is_hex_def is_digit_def if_distribR)

text \<open>Reading the escape of one character leaves the loop with that character.\<close>

lemma reads_escape_char:
  assumes k: "reads F l y (demangle_string_loop (chunks @ [c])) b l"
    and c: "\<not> is_plain c" "c \<le> 0x10ffff"
  shows "reads F l (mangle_char c @ y)
    (bindE (cur_expect (re_char (CHR ''_''))) (\<lambda>_. bindE (cur_expect (re_one is_escape)) (escaped chunks))) b l"
proof -
  have esc: "reads F l (lit ''_'' @ [e] @ z)
      (bindE (cur_expect (re_char (CHR ''_''))) (\<lambda>_. bindE (cur_expect (re_one is_escape)) (escaped chunks))) b l"
    if "is_escape e" "reads F l z (escaped chunks [e]) b l" for e z
  proof -
    have "reads F l ([e] @ z) (bindE (cur_expect (re_one is_escape)) (escaped chunks)) b l"
      by (rule reads_bind [OF reads_one]) (simp_all add: that)
    then have "reads F l ([ch (CHR ''_'')] @ [e] @ z)
      (bindE (cur_expect (re_char (CHR ''_''))) (\<lambda>_. bindE (cur_expect (re_one is_escape)) (escaped chunks))) b l"
      by (rule reads_bind [OF reads_char]) simp
    then show ?thesis by (simp add: lit_def)
  qed
  show ?thesis
  proof (cases "c = ch (CHR ''_'') \<or> c = ch (CHR ''K'')")
    case True
    then show ?thesis
      using esc [of "ch (CHR ''_'')" y] esc [of "ch (CHR ''k'')" y] k escaped_simps(1,2) [of chunks]
      by (auto simp: mangle_char_def is_escape_def lit_def is_plain_def char_class_defs)
  next
    case False
    consider "c < 16 ^ 2" | "16 ^ 2 \<le> c" "c < 16 ^ 4" | "16 ^ 4 \<le> c" by linarith
    then show ?thesis
    proof cases
      case 1
      obtain d e where de: "pad_left 2 (hex_str c) = [d, e]"
        using hex_padded(1) [OF 1] by (auto simp: length_Suc_conv numeral_2_eq_2)
      have h: "is_hex d" "is_hex e" "parse_digits 16 ([d] @ [e]) = c"
        using hex_padded(2,3) [OF 1] by (auto simp: de)
      have "reads F l ([e] @ y) (escaped chunks [d]) b l"
        unfolding escaped_simps(6) [OF h(1)]
        by (rule reads_bind [OF reads_one]) (simp_all only: h k)
      then show ?thesis
        using esc [of d] h 1 False c de by (simp add: mangle_char_def is_escape_def)
    next
      case 2
      have "reads F l (pad_left 4 (hex_str c) @ y) (escaped chunks (lit ''u'')) b l"
        unfolding escaped_simps
        by (rule reads_bind [OF reads_hex_padded [OF 2(2)]]) (simp_all only: hex_padded(3) [OF 2(2)] k)
      then show ?thesis
        using esc [of "ch (CHR ''u'')"] 2 False c by (simp add: mangle_char_def is_escape_def lit_def)
    next
      case 3
      have 8: "c < 16 ^ 8" using c by simp
      have "reads F l (pad_left 8 (hex_str c) @ y) (escaped chunks (lit ''w'')) b l"
        unfolding escaped_simps
        by (rule reads_bind [OF reads_hex_padded [OF 8]]) (use c k in \<open>simp_all add: parse_nat_str\<close>)
      then show ?thesis
        using esc [of "ch (CHR ''w'')"] 3 False c by (simp add: mangle_char_def is_escape_def lit_def)
    qed
  qed
qed

lemma plain_copied: "list_all is_plain s \<Longrightarrow> concat (List.map mangle_char s) = s"
  by (induction s) (simp_all add: mangle_char_def)

lemma underscore_not_plain: "\<not> is_plain (ch (CHR ''_''))"
  by (simp add: char_class_defs)

lemma mangle_char_escapes: "\<not> is_plain c \<Longrightarrow> \<exists>y. mangle_char c = ch (CHR ''_'') # y"
  by (simp add: mangle_char_def lit_def)

lemma reads_loop_chunk:
  assumes p: "list_all is_plain p" and z: "\<exists>y. z = ch (CHR ''_'') # y"
    and k: "reads F l z (bindE (cur_expect (re_char (CHR ''_''))) (\<lambda>_.
      bindE (cur_expect (re_one is_escape)) (escaped (chunks @ p)))) b l"
  shows "reads F l (p @ z) (demangle_string_loop chunks) b l"
proof (cases "p = []")
  case True
  have "reads (\<lambda>rest. \<not> begins is_plain rest) l [] (cur_read (re_plus is_plain)) None l"
    by (intro reads_read_None refuses_plus)
  then show ?thesis
    unfolding loop_eq using True z k underscore_not_plain
    by (intro reads_bind [where G = "\<lambda>rest. \<not> begins is_plain rest"]) auto
next
  case False
  have "reads (\<lambda>rest. \<not> begins is_plain rest) l p (cur_read (re_plus is_plain)) (Some p) l"
    by (intro reads_read matches_plus p False)
  then show ?thesis
    unfolding loop_eq using z k underscore_not_plain
    by (intro reads_bind [where G = "\<lambda>rest. \<not> begins is_plain rest"]) auto
qed

lemma reads_string_loop:
  "\<forall>c \<in> set s. c \<le> 0x10ffff \<Longrightarrow> reads F l (mangle_string s) (demangle_string_loop chunks) (chunks @ s) l"
proof (induction s arbitrary: chunks rule: length_induct)
  case (1 s)
  define p q where "p = takeWhile is_plain s" and "q = dropWhile is_plain s"
  have s: "s = p @ q" and p: "list_all is_plain p"
    by (simp_all add: p_def q_def list_all_iff) (metis set_takeWhileD)
  have m: "mangle_string s = p @ concat (List.map mangle_char q) @ lit ''_z''"
    using plain_copied [OF p] by (simp add: mangle_string_def s)
  show ?case
  proof (cases q)
    case Nil
    have "reads F l (lit ''_z'') (bindE (cur_expect (re_char (CHR ''_''))) (\<lambda>_.
        bindE (cur_expect (re_one is_escape)) (escaped (chunks @ p)))) (chunks @ p) l"
    proof -
      have "reads F l [ch (CHR ''z'')] (bindE (cur_expect (re_one is_escape)) (escaped (chunks @ p))) (chunks @ p) l"
        by (rule reads_bind_ret [OF reads_one])
          (use escaped_simps(3) [of "chunks @ p"] in \<open>simp_all add: is_escape_def lit_def\<close>)
      then have "reads F l ([ch (CHR ''_'')] @ [ch (CHR ''z'')])
        (bindE (cur_expect (re_char (CHR ''_''))) (\<lambda>_.
          bindE (cur_expect (re_one is_escape)) (escaped (chunks @ p)))) (chunks @ p) l"
        by (rule reads_bind [OF reads_char]) simp
      then show ?thesis by (simp add: lit_def)
    qed
    then show ?thesis unfolding m using Nil s p
      by (intro reads_loop_chunk [where p = p]) (auto simp: lit_def)
  next
    case (Cons c t)
    have c: "\<not> is_plain c" using Cons hd_dropWhile [of is_plain s] by (simp add: q_def)
    have "reads F l (mangle_string t) (demangle_string_loop ((chunks @ p) @ [c])) (((chunks @ p) @ [c]) @ t) l"
      using 1(1) [rule_format, of t "(chunks @ p) @ [c]"] 1(2) s Cons by simp
    then have "reads F l (mangle_char c @ mangle_string t) (bindE (cur_expect (re_char (CHR ''_''))) (\<lambda>_.
        bindE (cur_expect (re_one is_escape)) (escaped (chunks @ p)))) (chunks @ s) l"
      using reads_escape_char [OF _ c] 1(2) s Cons by simp
    from reads_loop_chunk [OF p _ this]
    have "reads F l (p @ mangle_char c @ mangle_string t) (demangle_string_loop chunks) (chunks @ s) l"
      using mangle_char_escapes [OF c] by auto
    then show ?thesis using m Cons by (simp add: mangle_string_def)
  qed
qed

lemma reads_string:
  "\<forall>c \<in> set s. c \<le> 0x10ffff \<Longrightarrow> reads F l (mangle_string s) demangle_string s l"
  using reads_string_loop [of s F l "[]"] by (simp add: demangle_string_def)

section \<open>Text formats\<close>

text \<open>A printer and its reader: whatever is printed is read back, and exactly it is consumed, if the
  text that follows is allowed. Printed texts are then uniquely decodable.\<close>

locale text_format =
  fixes ok :: "'a \<Rightarrow> bool" and follows :: "pystr \<Rightarrow> bool"
    and pr :: "'a \<Rightarrow> pystr" and rd :: "'a dmg"
  assumes reads_printed: "ok x \<Longrightarrow> reads follows l (pr x) rd x l"
begin

lemma read_printed:
  assumes "ok x" and "follows r"
  shows "rd \<lparr>dm_remaining = pr x @ r, dm_pos = n, dm_last_seen_id = l\<rparr> =
    (Inr x, \<lparr>dm_remaining = r, dm_pos = n + length (pr x), dm_last_seen_id = l\<rparr>)"
  using reads_D [OF reads_printed [OF assms(1), of l], of "\<lparr>dm_remaining = pr x @ r, dm_pos = n, dm_last_seen_id = l\<rparr>" r]
    assms(2) by (simp add: advance_def)

lemma printed_unique:
  assumes "ok x" "ok y" and "follows r" "follows r'" and "pr x @ r = pr y @ r'"
  shows "x = y \<and> r = r'"
  using read_printed [OF assms(1,3), of 0 0] unfolding assms(5) read_printed [OF assms(2,4)] by simp

end

interpretation signed_int: text_format "\<lambda>_. True" no_digit mangle_signed_int demangle_signed_int
  by unfold_locales (rule reads_signed_int)

interpretation quoted: text_format "\<lambda>s. \<forall>c \<in> set s. c \<le> 0x10ffff" "\<lambda>_. True" mangle_string demangle_string
  by unfold_locales (rule reads_string)

end
