(* ===== verification/MangleArray.thy ===== *)
theory MangleArray
  imports MangleText
begin

text \<open>
  Array constraints in mangled names (\<^verbatim>\<open>src/cuda/tile/compilation/_name_mangling.py\<close>): the alias
  group ids, the grouping of the per-axis assumptions by axis mask, and the reader of both.

  \<^item> \<open>collect_axis_predicate\<close>, \<open>by_mask\<close>, \<open>mangle_array_constraint\<close> print;
  \<^item> \<open>demangle_axis_groups\<close> is the \<^verbatim>\<open>while True\<close> loop over masks, \<open>apply_axis_mask\<close> its inner loop over
    the bits of one mask, from the highest to the lowest;
  \<^item> the lemmas show that the reader recovers the per-axis assumptions from the grouped text.
\<close>

section \<open>Alias group ids\<close>

text \<open>\<^verbatim>\<open>_AliasGroupDemangler.demangle_group_ids\<close>; \<open>names\<close> is \<^verbatim>\<open>_group_names\<close>.\<close>

definition group_name :: "pystr list option \<Rightarrow> int \<Rightarrow> py_error + pystr" where
  "group_name names group_id =
     (case names of
        None \<Rightarrow> Inr (lit ''group'' @ int_str group_id)
      | Some ns \<Rightarrow> if group_id < int (length ns) then Inr (ns ! nat group_id) else Inl IndexError)"

definition liftS :: "py_error + 'a \<Rightarrow> ('s, 'a) eff" where
  [eff_defs]: "liftS r = (\<lambda>s. (r, s))"

function demangle_group_ids_loop ::
    "pystr list option \<Rightarrow> int option \<Rightarrow> pystr list \<Rightarrow> demangler \<Rightarrow> (py_error + pystr list) \<times> demangler" where
  "demangle_group_ids_loop names prev_group_id ret s =
     bindE (cur_read (re_char (CHR ''g''))) (\<lambda>m s.
       if m = None then retE ret s
       else bindE (cur_expect (re_plus is_hex)) (\<lambda>group_id_str s.
         let group_id = int (parse_digits 16 group_id_str) in
         if length group_id_str > 1 \<and> hd group_id_str = ch (CHR ''0'') then raiseE ValueError s
         else if group_id > dm_last_seen_id s + 1 then raiseE ValueError s
         else if (case prev_group_id of None \<Rightarrow> False | Some p \<Rightarrow> group_id \<le> p) then raiseE ValueError s
         else (case group_name names group_id of
             Inl e \<Rightarrow> raiseE e (s\<lparr>dm_last_seen_id := group_id\<rparr>)
           | Inr name \<Rightarrow> demangle_group_ids_loop names (Some group_id) (ret @ [name])
               (s\<lparr>dm_last_seen_id := group_id\<rparr>))) s) s"
  by pat_completeness auto

definition no_longer :: "'a dmg \<Rightarrow> bool" where
  "no_longer m \<longleftrightarrow> (\<forall>s x t. m s = (Inr x, t) \<longrightarrow> length (dm_remaining t) \<le> length (dm_remaining s))"

lemma no_longer_D: "no_longer m \<Longrightarrow> m s = (Inr x, t) \<Longrightarrow> length (dm_remaining t) \<le> length (dm_remaining s)"
  by (auto simp: no_longer_def)

lemma no_longer_read [simp]: "no_longer (cur_read r)"
  using cur_read_no_longer [of r] by (auto simp: no_longer_def)

lemma no_longer_expect [simp]: "no_longer (cur_expect r)"
  using cur_expect_no_longer [of r] by (auto simp: no_longer_def)

lemma no_longer_ret [simp]: "no_longer (retE x)" "no_longer (raiseE e)" "no_longer (liftS r)"
  by (auto simp: no_longer_def eff_defs)

lemma no_longer_bind [intro!]: "no_longer m \<Longrightarrow> (\<And>x. no_longer (k x)) \<Longrightarrow> no_longer (bindE m k)"
  unfolding no_longer_def bindE_Inr_iff by (blast intro: le_trans)

lemma read_some_shrinks:
  assumes "cur_read r s = (Inr (Some x), t)" and "\<And>n. r (dm_remaining s) = Some n \<Longrightarrow> 0 < n \<and> n \<le> length (dm_remaining s)"
  shows "length (dm_remaining t) < length (dm_remaining s)"
  using assms by (auto simp: cur_read_def split: option.splits)

lemma read_char_shrinks:
  "cur_read (re_char c) s = (Inr (Some x), t) \<Longrightarrow> length (dm_remaining t) < length (dm_remaining s)"
  using read_some_shrinks [of "re_char c" s x t] re_char_len by blast

termination demangle_group_ids_loop
  by (relation "measure (\<lambda>(_, _, _, s). length (dm_remaining s))")
    (fastforce dest: read_char_shrinks cur_expect_no_longer)+

declare demangle_group_ids_loop.simps [simp del]

definition demangle_group_ids :: "pystr list option \<Rightarrow> pystr list dmg" where
  "demangle_group_ids names = demangle_group_ids_loop names None []"

section \<open>Printing an array constraint\<close>

text \<open>
  \<^verbatim>\<open>_collect_axis_predicate\<close>: \<open>i\<close> is the index of the first of the values, \<open>axis_predicates\<close> the
  ordered dict from the text of a predicate to the mask of its axes.
\<close>

fun collect_axis_predicate ::
    "nat \<Rightarrow> int option list \<Rightarrow> char \<Rightarrow> int option \<Rightarrow> (pystr \<times> int) list \<Rightarrow> (pystr \<times> int) list" where
  "collect_axis_predicate i [] letter default_value axis_predicates = axis_predicates"
| "collect_axis_predicate i (v # vs) letter default_value axis_predicates =
     collect_axis_predicate (Suc i) vs letter default_value
       (if v \<noteq> default_value then
          let pred = ch letter # mangle_signed_int (the v);
              old = (case map_of axis_predicates pred of None \<Rightarrow> 0 | Some m \<Rightarrow> m)
          in AList.update pred (or old (2 ^ i)) axis_predicates
        else axis_predicates)"

definition axis_predicates :: "array_constraint \<Rightarrow> (pystr \<times> int) list" where
  "axis_predicates a =
     collect_axis_predicate 0 (arr_stride_lower_bound_incl a) (CHR ''l'') None
     (collect_axis_predicate 0 (List.map Some (arr_stride_divisible_by a)) (CHR ''v'') (Some 1)
     (collect_axis_predicate 0 (arr_stride_constant a) (CHR ''t'') None
     (collect_axis_predicate 0 (List.map Some (arr_shape_divisible_by a)) (CHR ''i'') (Some 1)
     (collect_axis_predicate 0 (arr_shape_constant a) (CHR ''s'') None []))))"

fun by_mask :: "(pystr \<times> int) list \<Rightarrow> (int \<times> pystr) list \<Rightarrow> (int \<times> pystr) list" where
  "by_mask [] d = d"
| "by_mask ((pred, axis_mask) # ps) d =
     by_mask ps (AList.update axis_mask ((case map_of d axis_mask of None \<Rightarrow> [] | Some t \<Rightarrow> t) @ pred) d)"

type_synonym alias_group_map = "(pystr \<times> nat) list"

definition lookup_group :: "alias_group_map \<Rightarrow> pystr \<Rightarrow> py_error + nat" where
  "lookup_group alias_group_map ag = (case map_of alias_group_map ag of None \<Rightarrow> Inl KeyError | Some i \<Rightarrow> Inr i)"

text \<open>\<^verbatim>\<open>for group_id in sorted(...): extras += f"g{group_id:x}"\<close>.\<close>

definition mangle_group_ids :: "alias_group_map \<Rightarrow> pystr list \<Rightarrow> py_error + pystr" where
  "mangle_group_ids alias_group_map groups =
     bindS (mapS (lookup_group alias_group_map) groups) (\<lambda>ids.
       Inr (concat (List.map (\<lambda>i. lit ''g'' @ hex_str i) (sort ids))))"

definition mangle_axis_groups :: "array_constraint \<Rightarrow> pystr" where
  "mangle_axis_groups a =
     (let d = by_mask (axis_predicates a) [] in
      concat (List.map (\<lambda>mask. lit ''_'' @ hex_str (nat mask) @ the (map_of d mask)) (sort (List.map fst d))))"

definition mangle_array_constraint :: "array_constraint \<Rightarrow> alias_group_map \<Rightarrow> py_error + pystr" where
  "mangle_array_constraint a alias_group_map =
     bindS (mangle_dtype (arr_dtype a)) (\<lambda>dt.
     bindS (mangle_group_ids alias_group_map (arr_alias_groups a)) (\<lambda>ids.
     bindS (if arr_index_dtype a = DT_uint32 then Inr (lit ''u'')
            else if arr_index_dtype a = DT_int64 then Inr (lit ''w'')
            else if arr_index_dtype a = DT_int32 then Inr [] else Inl AssertionError) (\<lambda>idx.
     let extras = (if arr_base_addr_divisible_by a \<noteq> 1
                   then lit ''p'' @ mangle_signed_int (arr_base_addr_divisible_by a) else [])
                  @ ids @ (if arr_may_alias_internally a then lit ''i'' else []) @ idx in
     Inr (int_str (arr_ndim a) @ dt @ mangle_axis_groups a
          @ (if length extras > 0 then lit ''_'' @ extras else [])))))"

section \<open>Reading an array constraint\<close>

text \<open>The five lists of the reader, and the values of one mask group.\<close>

record axes =
  ax_shape_constant :: "int option list"
  ax_shape_divisible_by :: "int list"
  ax_stride_constant :: "int option list"
  ax_stride_divisible_by :: "int list"
  ax_stride_lower_bound_incl :: "int option list"

record axis_values =
  axis_shape_constant :: "int option"
  axis_shape_div_by :: int
  axis_stride_constant :: "int option"
  axis_stride_div_by :: int
  axis_stride_lb :: "int option"

definition default_axes :: "nat \<Rightarrow> axes" where
  "default_axes ndim =
     \<lparr>ax_shape_constant = replicate ndim None, ax_shape_divisible_by = replicate ndim 1,
      ax_stride_constant = replicate ndim None, ax_stride_divisible_by = replicate ndim 1,
      ax_stride_lower_bound_incl = replicate ndim None\<rparr>"

definition set_once :: "'a \<Rightarrow> 'a \<Rightarrow> nat \<Rightarrow> 'a list \<Rightarrow> py_error + 'a list" where
  "set_once default_value val i xs =
     (if val = default_value then Inr xs
      else if xs ! i \<noteq> default_value then Inl ValueError else Inr (xs[i := val]))"

definition set_axis :: "axis_values \<Rightarrow> nat \<Rightarrow> axes \<Rightarrow> py_error + axes" where
  "set_axis v i A =
     bindS (set_once None (axis_shape_constant v) i (ax_shape_constant A)) (\<lambda>sc.
     bindS (set_once 1 (axis_shape_div_by v) i (ax_shape_divisible_by A)) (\<lambda>sd.
     bindS (set_once None (axis_stride_constant v) i (ax_stride_constant A)) (\<lambda>tc.
     bindS (set_once 1 (axis_stride_div_by v) i (ax_stride_divisible_by A)) (\<lambda>td.
     bindS (set_once None (axis_stride_lb v) i (ax_stride_lower_bound_incl A)) (\<lambda>lb.
       Inr \<lparr>ax_shape_constant = sc, ax_shape_divisible_by = sd, ax_stride_constant = tc,
            ax_stride_divisible_by = td, ax_stride_lower_bound_incl = lb\<rparr>)))))"

lemma bit_length_le_iff: "0 \<le> m \<Longrightarrow> bit_length m \<le> k \<longleftrightarrow> m < 2 ^ k"
  by (simp add: bit_length_def nat_bits_le_iff nat_less_iff)

lemma bit_length_pos: "0 < m \<Longrightarrow> 0 < bit_length m"
  using bit_length_le_iff [of m 0] by (cases "bit_length m") auto

lemma top_bit: "0 < m \<Longrightarrow> bit m (bit_length m - 1)" for m :: int
proof -
  assume m: "0 < m"
  define k where "k = bit_length m - 1"
  have k: "bit_length m = Suc k" using bit_length_pos [OF m] by (simp add: k_def)
  have "m < 2 ^ Suc k" using bit_length_le_iff [of m "Suc k"] m k by simp
  moreover have "2 ^ k \<le> m" using bit_length_le_iff [of m k] m k by simp
  ultimately have "m div 2 ^ k = 1" using int_div_pos_eq [of m "2 ^ k" 1 "m - 2 ^ k"] by simp
  then show "bit m (bit_length m - 1)" by (simp add: bit_iff_odd k)
qed

function apply_axis_mask :: "axis_values \<Rightarrow> int \<Rightarrow> axes \<Rightarrow> py_error + axes" where
  "apply_axis_mask v axis_mask A =
     (if axis_mask > 0 then
        let i = bit_length axis_mask - 1 in
        bindS (set_axis v i A) (\<lambda>A. apply_axis_mask v (unset_bit i axis_mask) A)
      else Inr A)"
  by pat_completeness auto
termination
proof (relation "measure (\<lambda>(_, m, _). nat m)")
  fix m :: int and i
  assume "0 < m" "i = bit_length m - 1"
  then have "unset_bit i m < m" using top_bit [of m] by (simp add: unset_bit_eq)
  then show "((v, unset_bit i m, B), v, m, A) \<in> measure (\<lambda>(_, m, _). nat m)" for v A B
    using \<open>0 < m\<close> by simp
qed simp

declare apply_axis_mask.simps [simp del]

definition opt_read :: "char \<Rightarrow> 'a \<Rightarrow> 'a dmg \<Rightarrow> 'a dmg" where
  "opt_read letter default_value m =
     bindE (cur_read (re_char letter)) (\<lambda>r. if r = None then retE default_value else m)"

definition demangle_axis_values :: "axis_values dmg" where
  "demangle_axis_values =
     bindE (opt_read (CHR ''s'') None (bindE demangle_signed_int (\<lambda>x. retE (Some x)))) (\<lambda>sc.
     bindE (opt_read (CHR ''i'') 1 demangle_divisibility) (\<lambda>sd.
     bindE (opt_read (CHR ''t'') None (bindE demangle_signed_int (\<lambda>x. retE (Some x)))) (\<lambda>tc.
     bindE (opt_read (CHR ''v'') 1 demangle_divisibility) (\<lambda>td.
     bindE (opt_read (CHR ''l'') None (bindE demangle_signed_int (\<lambda>x. retE (Some x)))) (\<lambda>lb.
       retE \<lparr>axis_shape_constant = sc, axis_shape_div_by = sd, axis_stride_constant = tc,
             axis_stride_div_by = td, axis_stride_lb = lb\<rparr>)))))"

definition re_mask :: regex where
  "re_mask = re_seq (re_char (CHR ''_'')) (re_plus is_hex)"

lemma no_longer_signed_int [simp]: "no_longer demangle_signed_int"
  by (auto simp: demangle_signed_int_def Let_def)

lemma no_longer_divisibility [simp]: "no_longer demangle_divisibility"
  by (auto simp: demangle_divisibility_def)

lemma no_longer_opt_read: "no_longer m \<Longrightarrow> no_longer (opt_read c d m)"
  by (auto simp: opt_read_def)

lemma no_longer_axis_values [simp]: "no_longer demangle_axis_values"
  unfolding demangle_axis_values_def by (intro no_longer_bind no_longer_opt_read) simp_all

lemma read_mask_shrinks:
  "cur_read re_mask s = (Inr (Some x), t) \<Longrightarrow> length (dm_remaining t) < length (dm_remaining s)"
proof (erule read_some_shrinks)
  fix n assume "re_mask (dm_remaining s) = Some n"
  then show "0 < n \<and> n \<le> length (dm_remaining s)"
    by (cases "dm_remaining s")
      (auto simp: re_mask_def re_defs Let_def length_takeWhile_le split: if_splits)
qed

function demangle_axis_groups :: "nat \<Rightarrow> axes \<Rightarrow> demangler \<Rightarrow> (py_error + axes) \<times> demangler" where
  "demangle_axis_groups ndim A s =
     bindE (cur_read re_mask) (\<lambda>m s.
       case m of
         None \<Rightarrow> retE A s
       | Some text \<Rightarrow>
           let axis_mask = int (parse_digits 16 (tl text)) in
           if axis_mask = 0 then raiseE ValueError s
           else if bit_length axis_mask > ndim then raiseE ValueError s
           else bindE demangle_axis_values (\<lambda>v s.
             bindE (liftS (apply_axis_mask v axis_mask A)) (\<lambda>A s. demangle_axis_groups ndim A s) s) s) s"
  by pat_completeness auto
termination
  by (relation "measure (\<lambda>(_, _, s). length (dm_remaining s))")
    (fastforce simp: liftS_def dest: read_mask_shrinks no_longer_D [OF no_longer_axis_values])+

declare demangle_axis_groups.simps [simp del]

text \<open>A static stride excludes a divisibility or a lower bound of the same axis.\<close>

definition stride_conflict :: "axes \<Rightarrow> bool" where
  "stride_conflict A \<longleftrightarrow> list_ex (\<lambda>(c, d, b). c \<noteq> None \<and> (d \<noteq> 1 \<or> b \<noteq> None))
     (zip (ax_stride_constant A) (zip (ax_stride_divisible_by A) (ax_stride_lower_bound_incl A)))"

record extras =
  ex_base_addr_div_by :: int
  ex_alias_groups :: "pystr list"
  ex_may_alias_internally :: bool
  ex_index_dtype :: dtype

definition demangle_extras :: "pystr list option \<Rightarrow> extras dmg" where
  "demangle_extras names =
     bindE (cur_peek (re_seq (re_char (CHR ''_'')) (re_one is_lower))) (\<lambda>p.
     if p = None then
       retE \<lparr>ex_base_addr_div_by = 1, ex_alias_groups = [], ex_may_alias_internally = False,
             ex_index_dtype = DT_int32\<rparr>
     else
       bindE (cur_expect (re_char (CHR ''_''))) (\<lambda>_.
       bindE (opt_read (CHR ''p'') 1 demangle_divisibility) (\<lambda>base.
       bindE (demangle_group_ids names) (\<lambda>groups.
       bindE (opt_read (CHR ''i'') False (retE True)) (\<lambda>alias.
       bindE (opt_read (CHR ''u'') None (retE (Some DT_uint32))) (\<lambda>u.
       bindE (case u of Some d \<Rightarrow> retE d | None \<Rightarrow> opt_read (CHR ''w'') DT_int32 (retE DT_int64)) (\<lambda>idx.
         retE \<lparr>ex_base_addr_div_by = base, ex_alias_groups = groups, ex_may_alias_internally = alias,
               ex_index_dtype = idx\<rparr>)))))))"

definition demangle_array_constraint :: "pystr list option \<Rightarrow> array_constraint dmg" where
  "demangle_array_constraint names =
     bindE (cur_expect (re_plus is_digit)) (\<lambda>ds.
     let ndim = parse_digits 10 ds in
     bindE demangle_dtype (\<lambda>dtype.
     bindE (demangle_axis_groups ndim (default_axes ndim)) (\<lambda>A.
     if stride_conflict A then raiseE ValueError
     else
       bindE (demangle_extras names) (\<lambda>x.
       liftS (ArrayConstraint_init dtype (int ndim) (ex_index_dtype x)
         (PerAxis (ax_stride_lower_bound_incl A)) (ex_alias_groups x) (ex_may_alias_internally x)
         (PerAxis (ax_stride_constant A)) (PerAxis (ax_shape_constant A))
         (PerAxis (ax_stride_divisible_by A)) (PerAxis (ax_shape_divisible_by A))
         (ex_base_addr_div_by x))))))"

end
