(* ===== verification/Mangling.thy ===== *)
theory Mangling
  imports MangleArray
begin

text \<open>
  Mangled kernel names, \<^verbatim>\<open>src/cuda/tile/compilation/_name_mangling.py\<close>: constraints of every kind,
  the classes and enums they name, the calling convention, and whole names.

  \<^item> \<open>limit\<close> is the number of nested calls of \<open>demangle_constraint\<close> that the interpreter still
    allows; beyond it Python raises \<^verbatim>\<open>RecursionError\<close>;
  \<^item> \<open>collected_globals\<close> is \<^verbatim>\<open>_CollectedGlobals\<close>; a Python set becomes the list of its elements in the
    order they were added, which is irrelevant as long as no two of them have the same names;
  \<^item> a provider is a function of the module and the qualified name;
  \<^item> the limit of \<^verbatim>\<open>int()\<close> and \<^verbatim>\<open>str()\<close> on the number of decimal digits is not modelled.
\<close>

section \<open>Calling conventions\<close>

definition cconv_code :: "calling_convention \<Rightarrow> pystr" where
  "cconv_code cc = lit ''t'' @ int_str (cconv_version cc)"

definition cconv_from_code :: "bool \<Rightarrow> pystr \<Rightarrow> py_error + calling_convention" where
  "cconv_from_code v3 code =
     (if code = lit ''t1'' then Inr CConvV1
      else if code = lit ''t2'' then Inr CConvV2
      else if v3 \<and> code = lit ''t3'' then Inr CConvV3
      else Inl ValueError)"

definition demangle_calling_convention :: "bool \<Rightarrow> calling_convention dmg" where
  "demangle_calling_convention v3 =
     bindE (cur_expect (re_plus (\<lambda>c. c \<noteq> ch (CHR ''_'')))) (\<lambda>cconv_code. liftS (cconv_from_code v3 cconv_code))"

section \<open>Globals\<close>

record collected_globals =
  cg_dataclasses :: "py_class list"
  cg_enums :: "py_class list"

type_synonym provider = "pystr \<Rightarrow> pystr \<Rightarrow> py_error + py_class"

record allowed_globals =
  ag_dataclasses :: provider
  ag_enums :: provider

definition to_global_provider :: "py_class list \<Rightarrow> provider" where
  "to_global_provider allowed = (\<lambda>module_name class_qualname.
     case List.find (\<lambda>c. cls_module c = module_name \<and> cls_qualname c = class_qualname) allowed of
       None \<Rightarrow> Inl ValueError | Some c \<Rightarrow> Inr c)"

definition set_add :: "'a \<Rightarrow> 'a list \<Rightarrow> 'a list" where
  "set_add x xs = (if x \<in> set xs then xs else xs @ [x])"

definition mangle_global :: "py_class \<Rightarrow> pystr" where
  "mangle_global c = mangle_string (cls_module c) @ mangle_string (cls_qualname c)"

definition demangle_global :: "provider \<Rightarrow> py_class dmg" where
  "demangle_global provider =
     bindE demangle_string (\<lambda>module_name.
     bindE demangle_string (\<lambda>qualname. liftS (provider module_name qualname)))"

definition demangle_enum_constant :: "allowed_globals \<Rightarrow> constant_value dmg" where
  "demangle_enum_constant allowed =
     bindE (demangle_global (ag_enums allowed)) (\<lambda>enum_cls.
     bindE demangle_string (\<lambda>member_name.
       if member_name \<in> set (cls_members enum_cls) then retE (EnumConst enum_cls member_name)
       else raiseE KeyError))"

section \<open>Constraints\<close>

definition mangle_constant :: "bool \<Rightarrow> constant_value \<Rightarrow> (collected_globals, pystr) eff" where
  "mangle_constant v3 val =
     (case classify_constant v3 val True of
        None \<Rightarrow> raiseE AssertionError
      | Some kind \<Rightarrow>
          (case val of
             BoolConst b \<Rightarrow> retE (lit ''B'' @ int_str (pybool b))
           | IntConst i \<Rightarrow> retE (lit ''I'' @ mangle_signed_int i)
           | FloatConst f \<Rightarrow> retE (lit ''F'' @ pad_left 16 (hex_str (unat f)))
           | NoneConst \<Rightarrow> retE (lit ''Cn_'')
           | StringConst s \<Rightarrow> retE (lit ''Cs_'' @ mangle_string s)
           | EnumConst cls member_name \<Rightarrow>
               bindE (assertE v3) (\<lambda>_.
               bindE (modifyE (\<lambda>g. g\<lparr>cg_enums := set_add cls (cg_enums g)\<rparr>)) (\<lambda>_.
                 retE (lit ''Ce_'' @ mangle_global cls @ mangle_string member_name)))
           | DTypeConst d \<Rightarrow> bindE (liftS (mangle_dtype d)) (\<lambda>n. retE (lit ''Cd_'' @ n))
           | _ \<Rightarrow> raiseE AssertionError))"

fun mangle_constraint :: "bool \<Rightarrow> alias_group_map \<Rightarrow> constraint \<Rightarrow> (collected_globals, pystr) eff"
  and mangle_constraints :: "bool \<Rightarrow> alias_group_map \<Rightarrow> constraint list \<Rightarrow> (collected_globals, pystr list) eff"
where
  "mangle_constraint v3 m (ArrayConstraint a) =
     bindE (liftS (mangle_array_constraint a m)) (\<lambda>t. retE (lit ''A'' @ t))"
| "mangle_constraint v3 m (ListConstraint a groups elements_may_alias) =
     bindE (liftS (mangle_group_ids m groups)) (\<lambda>ids.
     bindE (liftS (mangle_array_constraint a m)) (\<lambda>t.
       retE (lit ''L'' @ ids @ (if elements_may_alias then lit ''i'' else []) @ lit ''A'' @ t)))"
| "mangle_constraint v3 m (TupleConstraint items) =
     bindE (mangle_constraints v3 m items) (\<lambda>ts.
       retE (lit ''T'' @ int_str (int (length items)) @ concat ts))"
| "mangle_constraint v3 m (DataclassConstraint cls items) =
     bindE (modifyE (\<lambda>g. g\<lparr>cg_dataclasses := set_add cls (cg_dataclasses g)\<rparr>)) (\<lambda>_.
     bindE (mangle_constraints v3 m items) (\<lambda>ts.
       retE (lit ''D'' @ mangle_global cls @ int_str (int (length items)) @ concat ts)))"
| "mangle_constraint v3 m (ScalarConstraint d) =
     bindE (liftS (mangle_dtype d)) (\<lambda>n. retE (lit ''S'' @ n))"
| "mangle_constraint v3 m TensorMapConstraint = retE (lit ''M'')"
| "mangle_constraint v3 m (PointerConstraint d) =
     bindE (liftS (mangle_dtype d)) (\<lambda>n. retE (lit ''P'' @ n))"
| "mangle_constraint v3 m StreamConstraint = retE (lit ''R'')"
| "mangle_constraint v3 m (ConstantConstraint val) = mangle_constant v3 val"
| "mangle_constraints v3 m [] = retE []"
| "mangle_constraints v3 m (p # ps) =
     bindE (mangle_constraint v3 m p) (\<lambda>t. bindE (mangle_constraints v3 m ps) (\<lambda>ts. retE (t # ts)))"

text \<open>\<^verbatim>\<open>[A-BD-Z]|C[a-z0-9]+_\<close>.\<close>

definition re_constraint :: regex where
  "re_constraint = re_alt (re_one (\<lambda>c. is_upper c \<and> c \<noteq> ch (CHR ''C'')))
     (re_seq (re_char (CHR ''C'')) (re_seq (re_plus is_name_char) (re_char (CHR ''_''))))"

text \<open>\<^verbatim>\<open>[f() for _ in range(count)]\<close>.\<close>

fun repeatE :: "nat \<Rightarrow> ('s, 'a) eff \<Rightarrow> ('s, 'a list) eff" where
  "repeatE 0 f = retE []"
| "repeatE (Suc n) f = bindE f (\<lambda>x. bindE (repeatE n f) (\<lambda>xs. retE (x # xs)))"

definition re_count :: regex where
  "re_count = re_seq (re_one (\<lambda>c. is_digit c \<and> c \<noteq> ch (CHR ''0''))) (re_star is_digit)"

fun demangle_constraint :: "bool \<Rightarrow> pystr list option \<Rightarrow> allowed_globals \<Rightarrow> nat \<Rightarrow> constraint dmg" where
  "demangle_constraint v3 names allowed 0 = raiseE RecursionError"
| "demangle_constraint v3 names allowed (Suc limit) =
     bindE (cur_expect re_constraint) (\<lambda>c.
     if c = lit ''A'' then
       bindE (demangle_array_constraint names) (\<lambda>a. retE (ArrayConstraint a))
     else if c = lit ''L'' then
       bindE (demangle_group_ids names) (\<lambda>alias_groups.
       bindE (cur_read (re_char (CHR ''i''))) (\<lambda>i.
       bindE (demangle_constraint v3 names allowed limit) (\<lambda>element.
       case element of
         ArrayConstraint a \<Rightarrow> liftS (ListConstraint_init element alias_groups (i \<noteq> None))
       | _ \<Rightarrow> raiseE ValueError)))
     else if c = lit ''T'' then
       bindE (cur_expect (re_plus is_digit)) (\<lambda>count.
       bindE (repeatE (parse_digits 10 count) (demangle_constraint v3 names allowed limit)) (\<lambda>items.
         liftS (TupleConstraint_init items)))
     else if c = lit ''D'' \<and> v3 then
       bindE (demangle_global (ag_dataclasses allowed)) (\<lambda>cls.
       bindE (cur_expect re_count) (\<lambda>field_count.
       bindE (repeatE (parse_digits 10 field_count) (demangle_constraint v3 names allowed limit)) (\<lambda>items.
         liftS (DataclassConstraint_init v3 cls items))))
     else if c = lit ''S'' then bindE demangle_dtype (\<lambda>d. liftS (ScalarConstraint_init d))
     else if c = lit ''M'' \<and> v3 then liftS (TensorMapConstraint_init v3)
     else if c = lit ''P'' \<and> v3 then bindE demangle_dtype (\<lambda>d. liftS (PointerConstraint_init v3 d))
     else if c = lit ''R'' \<and> v3 then liftS (StreamConstraint_init v3)
     else if c = lit ''B'' then
       bindE (cur_expect (re_one (\<lambda>x. x = ch (CHR ''0'') \<or> x = ch (CHR ''1'')))) (\<lambda>d.
         liftS (ConstantConstraint_init v3 (BoolConst (parse_digits 10 d \<noteq> 0))))
     else if c = lit ''I'' then
       bindE demangle_signed_int (\<lambda>i. liftS (ConstantConstraint_init v3 (IntConst i)))
     else if c = lit ''F'' then
       bindE (cur_expect (re_times 16 is_hex)) (\<lambda>ds.
         liftS (ConstantConstraint_init v3 (FloatConst (word_of_nat (parse_digits 16 ds)))))
     else if c = lit ''Cn_'' \<and> v3 then liftS (ConstantConstraint_init v3 NoneConst)
     else if c = lit ''Cs_'' \<and> v3 then
       bindE demangle_string (\<lambda>s. liftS (ConstantConstraint_init v3 (StringConst s)))
     else if c = lit ''Ce_'' \<and> v3 then
       bindE (demangle_enum_constant allowed) (\<lambda>e. liftS (ConstantConstraint_init v3 e))
     else if c = lit ''Cd_'' \<and> v3 then
       bindE demangle_dtype (\<lambda>d. liftS (ConstantConstraint_init v3 (DTypeConst d)))
     else raiseE ValueError)"

section \<open>Kernel names\<close>

text \<open>\<^verbatim>\<open>_map_alias_groups\<close>: a group is numbered when it is first met.\<close>

fun map_groups :: "pystr list \<Rightarrow> alias_group_map \<times> pystr list \<Rightarrow> alias_group_map \<times> pystr list" where
  "map_groups [] m = m"
| "map_groups (ag # groups) (name2idx, idx2name) =
     map_groups groups
       (if map_of name2idx ag = None
        then (name2idx @ [(ag, length name2idx)], idx2name @ [ag]) else (name2idx, idx2name))"

definition map_alias_groups :: "constraint list \<Rightarrow> alias_group_map \<times> pystr list" where
  "map_alias_groups parameters =
     foldl (\<lambda>m (_, groups). map_groups groups m) ([], []) (collect_alias_groups parameters)"

text \<open>\<^verbatim>\<open>symbol.rfind(pat)\<close>: the last position at which \<open>pat\<close> occurs.\<close>

definition rfind :: "pystr \<Rightarrow> pystr \<Rightarrow> nat option" where
  "rfind pat s = List.find (\<lambda>i. take (length pat) (drop i s) = pat) (rev [0..<Suc (length s)])"

lemma no_longer_group_ids_loop:
  "demangle_group_ids_loop names p ret s = (Inr x, t) \<Longrightarrow> length (dm_remaining t) \<le> length (dm_remaining s)"
proof (induction names p ret s arbitrary: x t rule: demangle_group_ids_loop.induct)
  case (1 names p ret s)
  show ?case
  proof (rule ccontr)
    assume long: "\<not> length (dm_remaining t) \<le> length (dm_remaining s)"
    from 1(2) obtain m s1 where m: "cur_read (re_char (CHR ''g'')) s = (Inr m, s1)"
      unfolding demangle_group_ids_loop.simps [of names p ret s] by (auto simp: bindE_Inr_iff)
    with long cur_read_no_longer [OF m] 1 show False
      unfolding demangle_group_ids_loop.simps [of names p ret s]
      by (fastforce simp: bindE_Inr_iff retE_def raiseE_def Let_def split: if_splits sum.splits
          dest: cur_expect_no_longer)
  qed
qed

lemma no_longer_group_ids [simp]: "no_longer (demangle_group_ids names)"
  using no_longer_group_ids_loop by (auto simp: no_longer_def demangle_group_ids_def)

lemma no_longer_axis_groups [simp]: "no_longer (demangle_axis_groups ndim A)"
proof -
  have "demangle_axis_groups ndim A s = (Inr x, t) \<Longrightarrow> length (dm_remaining t) \<le> length (dm_remaining s)" for x s t
  proof (induction ndim A s arbitrary: x t rule: demangle_axis_groups.induct)
    case (1 ndim A s)
    show ?case
    proof (rule ccontr)
      assume long: "\<not> length (dm_remaining t) \<le> length (dm_remaining s)"
      from 1(2) obtain m s1 where m: "cur_read re_mask s = (Inr m, s1)"
        unfolding demangle_axis_groups.simps [of ndim A s] by (auto simp: bindE_Inr_iff)
      with long cur_read_no_longer [OF m] 1 show False
        unfolding demangle_axis_groups.simps [of ndim A s]
        by (fastforce simp: bindE_Inr_iff retE_def raiseE_def liftS_def Let_def split: if_splits option.splits
            dest: no_longer_D [OF no_longer_axis_values])
    qed
  qed
  then show ?thesis by (auto simp: no_longer_def)
qed

lemma no_longer_if [intro!]: "(b \<Longrightarrow> no_longer m) \<Longrightarrow> (\<not> b \<Longrightarrow> no_longer m') \<Longrightarrow> no_longer (if b then m else m')"
  by simp

lemma no_longer_cases [intro!]:
  "no_longer m \<Longrightarrow> (\<And>x. no_longer (k x)) \<Longrightarrow> no_longer (case z of None \<Rightarrow> m | Some x \<Rightarrow> k x)"
  "(\<And>a b. no_longer (f a b)) \<Longrightarrow> no_longer (case p of (a, b) \<Rightarrow> f a b)"
  by (auto split: option.split prod.split)

lemma no_longer_peek [simp]: "no_longer (cur_peek r)"
  by (simp add: no_longer_def cur_peek_def getE_def)

lemma no_longer_string_loop:
  "demangle_string_loop chunks s = (Inr x, t) \<Longrightarrow> length (dm_remaining t) \<le> length (dm_remaining s)"
proof (induction "length (dm_remaining s)" arbitrary: chunks s x t rule: less_induct)
  case less
  from less.prems obtain a s1 b s2 c s3 where 1: "cur_read (re_plus is_plain) s = (Inr a, s1)"
    and 2: "cur_expect (re_char (CHR ''_'')) s1 = (Inr b, s2)" and 3: "cur_expect (re_one is_escape) s2 = (Inr c, s3)"
    and 4: "escaped (chunks @ (case a of None \<Rightarrow> [] | Some x \<Rightarrow> x)) c s3 = (Inr x, t)"
    unfolding loop_eq by (auto simp: bindE_Inr_iff)
  have s3: "length (dm_remaining s3) < length (dm_remaining s)"
    using cur_read_no_longer [OF 1] cur_expect_shrinks [OF 2] cur_expect_no_longer [OF 3] by linarith
  have "length (dm_remaining t) \<le> length (dm_remaining s3)"
  proof (rule ccontr)
    assume long: "\<not> length (dm_remaining t) \<le> length (dm_remaining s3)"
    have IH: "length (dm_remaining t) \<le> length (dm_remaining s3)"
      if "demangle_string_loop cs u = (Inr x, t)" "length (dm_remaining u) \<le> length (dm_remaining s3)" for cs u
      using less.hyps [OF _ that(1)] that(2) s3 by linarith
    from 4 long IH show False
      by (auto simp: escaped_def bindE_Inr_iff retE_def raiseE_def split: if_splits dest!: cur_expect_no_longer)
  qed
  with s3 show ?case by linarith
qed

lemma no_longer_string [simp]: "no_longer demangle_string"
  using no_longer_string_loop by (auto simp: no_longer_def demangle_string_def)

lemma no_longer_dtype [simp]: "no_longer demangle_dtype"
  unfolding demangle_dtype_def by (intro no_longer_bind no_longer_cases) simp_all

lemma no_longer_array [simp]: "no_longer (demangle_array_constraint names)"
  unfolding demangle_array_constraint_def demangle_extras_def Let_def
  by (intro no_longer_bind no_longer_if no_longer_cases no_longer_opt_read) simp_all

lemma no_longer_repeat: "no_longer m \<Longrightarrow> no_longer (repeatE n m)"
  by (induction n) auto

lemma no_longer_constraint: "no_longer (demangle_constraint v3 names allowed limit)"
proof (induction limit)
  case (Suc limit)
  show ?case unfolding demangle_constraint.simps demangle_global_def demangle_enum_constant_def
    by (intro no_longer_bind no_longer_if no_longer_repeat Suc) (simp_all split: constraint.split)
qed simp

function demangle_parameters ::
    "bool \<Rightarrow> pystr list option \<Rightarrow> allowed_globals \<Rightarrow> nat \<Rightarrow> constraint list \<Rightarrow> demangler \<Rightarrow>
     (py_error + constraint list) \<times> demangler" where
  "demangle_parameters v3 names allowed limit parameters s =
     (if length (dm_remaining s) > 0 then
        bindE (cur_expect (re_char (CHR ''_''))) (\<lambda>_ s.
        bindE (demangle_constraint v3 names allowed limit) (\<lambda>c s.
          demangle_parameters v3 names allowed limit (parameters @ [c]) s) s) s
      else retE parameters s)"
  by pat_completeness auto
termination
  by (relation "measure (\<lambda>(_, _, _, _, _, s). length (dm_remaining s))")
    (fastforce dest: cur_expect_shrinks no_longer_D [OF no_longer_constraint])+

declare demangle_parameters.simps [simp del]

definition demangle_kernel_name_with ::
    "bool \<Rightarrow> nat \<Rightarrow> pystr \<Rightarrow> pystr list option \<Rightarrow> allowed_globals \<Rightarrow> py_error + (pystr \<times> kernel_signature)" where
  "demangle_kernel_name_with v3 limit symbol alias_group_names allowed =
     (case rfind (lit ''_K'') symbol of
        None \<Rightarrow> Inl ValueError
      | Some pos \<Rightarrow>
          fst (bindE (demangle_calling_convention v3) (\<lambda>cconv.
               bindE (demangle_parameters v3 alias_group_names allowed limit []) (\<lambda>parameters.
               bindE (liftS (KernelSignature_init v3 (List.map IsConstraint parameters) cconv (Some symbol)))
                 (\<lambda>sig. retE (take pos symbol, sig))))
            \<lparr>dm_remaining = drop (pos + 2) symbol, dm_pos = pos + 2, dm_last_seen_id = - 1\<rparr>))"

definition demangle_kernel_name :: "bool \<Rightarrow> nat \<Rightarrow> pystr \<Rightarrow> py_error + (pystr \<times> kernel_signature)" where
  "demangle_kernel_name v3 limit symbol =
     demangle_kernel_name_with v3 limit symbol None
       \<lparr>ag_dataclasses = to_global_provider [], ag_enums = to_global_provider []\<rparr>"

definition mangle_kernel_name :: "bool \<Rightarrow> nat \<Rightarrow> pystr \<Rightarrow> kernel_signature \<Rightarrow> py_error + pystr" where
  "mangle_kernel_name v3 limit function_name kernel_signature =
     (let (alias_group_map, alias_group_names) = map_alias_groups (sig_parameters kernel_signature) in
      case mangle_constraints v3 alias_group_map (sig_parameters kernel_signature)
             \<lparr>cg_dataclasses = [], cg_enums = []\<rparr> of
        (Inl e, collected) \<Rightarrow> Inl e
      | (Inr ts, collected) \<Rightarrow>
          let ret = function_name @ lit ''_K'' @ cconv_code (sig_calling_convention kernel_signature)
                    @ concat (List.map (\<lambda>t. lit ''_'' @ t) ts) in
          bindS (demangle_kernel_name_with v3 limit ret (Some alias_group_names)
                  \<lparr>ag_dataclasses = to_global_provider (cg_dataclasses collected),
                   ag_enums = to_global_provider (cg_enums collected)\<rparr>) (\<lambda>(parsed_function_name, parsed_sig).
          bindS (guardS (function_name = parsed_function_name) AssertionError) (\<lambda>_.
          bindS (guardS (sig_parameters kernel_signature = sig_parameters parsed_sig) AssertionError) (\<lambda>_.
            Inr ret))))"

definition with_mangled_symbol :: "bool \<Rightarrow> nat \<Rightarrow> kernel_signature \<Rightarrow> pystr \<Rightarrow> py_error + kernel_signature" where
  "with_mangled_symbol v3 limit sig function_name =
     bindS (mangle_kernel_name v3 limit function_name sig) (\<lambda>symbol. Inr (with_symbol sig (Some symbol)))"

end
