(* ===== verification/ArrayRoundtrip.thy ===== *)
theory ArrayRoundtrip
  imports Mangling
begin

text \<open>
  The round trip of array constraints: the per-axis assumptions, printed by axis mask, are read back
  to the same five lists; alias group ids are read back to the names of the groups; together,
  \<open>demangle_array_constraint\<close> recovers what \<open>mangle_array_constraint\<close> printed.
\<close>

section \<open>The dict of axis predicates\<close>

text \<open>One kind of assumption: the axes of every value, in the order the values are first met.\<close>

fun axis_dict :: "nat \<Rightarrow> int option list \<Rightarrow> (int \<times> int) list \<Rightarrow> (int \<times> int) list" where
  "axis_dict i [] E = E"
| "axis_dict i (v # vs) E = axis_dict (Suc i) vs
     (case v of None \<Rightarrow> E
      | Some x \<Rightarrow> AList.update x (or (case map_of E x of None \<Rightarrow> 0 | Some m \<Rightarrow> m) (2 ^ i)) E)"

definition pred_text :: "char \<Rightarrow> int \<Rightarrow> pystr" where
  "pred_text c x = ch c # mangle_signed_int x"

definition pred_entries :: "char \<Rightarrow> (int \<times> int) list \<Rightarrow> (pystr \<times> int) list" where
  "pred_entries c E = List.map (\<lambda>(x, m). (pred_text c x, m)) E"

lemma reads_inj:
  assumes "reads F l x m a l'" and "reads F l x m b l''" and "F rest"
  shows "a = b"
  using reads_D [OF assms(1), of "\<lparr>dm_remaining = x @ rest, dm_pos = 0, dm_last_seen_id = l\<rparr>" rest]
    reads_D [OF assms(2), of "\<lparr>dm_remaining = x @ rest, dm_pos = 0, dm_last_seen_id = l\<rparr>" rest] assms(3)
  by simp

lemma mangle_signed_int_inj [simp]: "mangle_signed_int x = mangle_signed_int y \<longleftrightarrow> x = y"
  using signed_int.printed_unique [where x = x and y = y and r = "[]" and r' = "[]"] by (auto simp: no_digit_def)

lemma pred_text_inj [simp]: "pred_text c x = pred_text c' y \<longleftrightarrow> c = c' \<and> x = y"
  by (auto simp: pred_text_def of_char_eq_iff)

lemma update_map_key: "inj_on f (insert k (fst ` set al)) \<Longrightarrow>
  AList.update (f k) v (List.map (\<lambda>(k, v). (f k, v)) al) = List.map (\<lambda>(k, v). (f k, v)) (AList.update k v al)"
  by (induction al) (auto simp: inj_on_def)

lemma update_append_fresh: "k \<notin> fst ` set D \<Longrightarrow> AList.update k v (D @ E) = D @ AList.update k v E"
  by (induction D) auto

lemma map_of_pred_entries: "map_of (pred_entries c E) (pred_text c x) = map_of E x"
  by (induction E) (auto simp: pred_entries_def)

lemma update_pred_entries:
  "AList.update (pred_text c x) m (pred_entries c E) = pred_entries c (AList.update x m E)"
  unfolding pred_entries_def using update_map_key [of "pred_text c" x E m] by (simp add: inj_on_def)

lemma collect_eq:
  assumes "\<And>x. pred_text c x \<notin> fst ` set D"
  shows "collect_axis_predicate i vs c None (D @ pred_entries c E) = D @ pred_entries c (axis_dict i vs E)"
proof (induction vs arbitrary: i E)
  case (Cons v vs)
  have "map_of (D @ pred_entries c E) (pred_text c x) = map_of E x" for x
    using assms [of x] by (simp add: map_add_def map_of_pred_entries split: option.split)
      (metis map_of_eq_None_iff option.distinct(1))
  then show ?case
    using Cons.IH [of "Suc i"] assms
    by (cases v) (simp_all add: Let_def update_append_fresh update_pred_entries flip: pred_text_def)
qed simp

definition div_opt :: "int \<Rightarrow> int option" where
  "div_opt d = (if d = 1 then None else Some d)"

lemma collect_divisibility:
  "collect_axis_predicate i (List.map Some ds) c (Some 1) D =
   collect_axis_predicate i (List.map div_opt ds) c None D"
  by (induction ds arbitrary: i D) (simp_all add: div_opt_def)

text \<open>The values of one letter in the constraint; \<open>None\<close> where it has the default.\<close>

definition letter_values :: "array_constraint \<Rightarrow> (char \<times> int option list) list" where
  "letter_values a =
     [(CHR ''s'', arr_shape_constant a), (CHR ''i'', List.map div_opt (arr_shape_divisible_by a)),
      (CHR ''t'', arr_stride_constant a), (CHR ''v'', List.map div_opt (arr_stride_divisible_by a)),
      (CHR ''l'', arr_stride_lower_bound_incl a)]"

lemma letter_not_in: "c \<noteq> c' \<Longrightarrow> pred_text c x \<notin> fst ` set (pred_entries c' E)"
  by (auto simp: pred_entries_def)

lemma axis_predicates_eq:
  "axis_predicates a = concat (List.map (\<lambda>(c, vs). pred_entries c (axis_dict 0 vs [])) (letter_values a))"
proof -
  have step: "collect_axis_predicate 0 vs c None D = D @ pred_entries c (axis_dict 0 vs [])"
    if "\<And>x. pred_text c x \<notin> fst ` set D" for c D vs
    using collect_eq [OF that, of 0 vs "[]"] by (simp add: pred_entries_def)
  show ?thesis
    unfolding axis_predicates_def collect_divisibility letter_values_def
    by (subst step, use letter_not_in in \<open>auto simp: image_Un\<close>)+
qed

text \<open>The meaning of an axis dict: value to the set of its axes.\<close>

definition axis_dict_ok :: "(nat \<Rightarrow> int option) \<Rightarrow> (int \<times> int) list \<Rightarrow> bool" where
  "axis_dict_ok f E \<longleftrightarrow> distinct (List.map fst E) \<and>
     (\<forall>(x, m) \<in> set E. 0 < m \<and> (\<forall>i. bit m i \<longleftrightarrow> f i = Some x)) \<and>
     (\<forall>i x. f i = Some x \<longrightarrow> x \<in> fst ` set E)"

lemma axis_dict_step:
  assumes "axis_dict_ok f E" and "f i = None"
  shows "axis_dict_ok (f(i := Some x))
    (AList.update x (or (case map_of E x of None \<Rightarrow> 0 | Some m \<Rightarrow> m) (2 ^ i)) E)"
proof -
  define n :: int where "n = or (case map_of E x of None \<Rightarrow> 0 | Some m \<Rightarrow> m) (2 ^ i)"
  have old: "0 < m \<and> (\<forall>i. bit m i \<longleftrightarrow> f i = Some y)" if "(y, m) \<in> set E" for y m
    using assms that by (auto simp: axis_dict_ok_def)
  have none: "map_of E x = None \<Longrightarrow> f j \<noteq> Some x" for j
    using assms by (auto simp: axis_dict_ok_def map_of_eq_None_iff)
  have bits: "bit n j \<longleftrightarrow> (f(i := Some x)) j = Some x" for j
    using none [of j] old [OF map_of_SomeD, of x] assms(2)
    by (auto simp: bit_simps n_def split: option.split)
  have "0 \<le> n" using old [OF map_of_SomeD, of x] by (auto simp: n_def less_imp_le split: option.split)
  moreover have "bit n i" by (simp add: bits)
  ultimately have pos: "0 < n" by (metis bit_0_eq bot_apply bot_bool_def order_le_less)
  have d: "distinct (List.map fst E)" using assms by (simp add: axis_dict_ok_def)
  have mem: "(y, m) \<in> set (AList.update x n E) \<longleftrightarrow> (if y = x then m = n else (y, m) \<in> set E)" for y m
    using map_of_eq_Some_iff [OF distinct_update [OF d, of x n], of y m] map_of_eq_Some_iff [OF d, of y m]
    by (auto simp: update_conv')
  have "axis_dict_ok (f(i := Some x)) (AList.update x n E)" unfolding axis_dict_ok_def
  proof (intro conjI ballI allI impI, goal_cases)
    case 1
    show ?case using d by (rule distinct_update)
  next
    case (2 p)
    obtain y m where p: "p = (y, m)" by (cases p)
    show ?case
    proof (cases "y = x")
      case True
      then show ?thesis using 2 bits pos by (simp add: p mem)
    next
      case False
      then have "(y, m) \<in> set E" using 2 by (simp add: p mem)
      with old [OF this] False assms(2) show ?thesis by (auto simp: p)
    qed
  next
    case (3 j y)
    then show ?case using assms by (auto simp: axis_dict_ok_def dom_update split: if_splits)
  qed
  then show ?thesis by (simp add: n_def)
qed

lemma axis_dict_ok:
  assumes "axis_dict_ok f E" and "\<And>j. i \<le> j \<Longrightarrow> f j = None"
  shows "axis_dict_ok (\<lambda>j. if j < i then f j else if j < i + length vs then vs ! (j - i) else None) (axis_dict i vs E)"
  using assms
proof (induction vs arbitrary: i f E)
  case Nil
  have "(\<lambda>j. if j < i then f j else None) = f"
    using Nil by (auto simp: not_less)
  with Nil(1) show ?case by (simp cong: if_cong)
next
  case (Cons v vs)
  let ?E = "case v of None \<Rightarrow> E
      | Some x \<Rightarrow> AList.update x (or (case map_of E x of None \<Rightarrow> 0 | Some m \<Rightarrow> m) (2 ^ i)) E"
  have E: "axis_dict_ok (f(i := v)) ?E"
    using Cons.prems axis_dict_step [of f E i] by (cases v) (auto simp: fun_upd_idem)
  have "axis_dict_ok (\<lambda>j. if j < Suc i then (f(i := v)) j
      else if j < Suc i + length vs then vs ! (j - Suc i) else None) (axis_dict (Suc i) vs ?E)"
    by (rule Cons.IH [OF E]) (use Cons.prems in auto)
  moreover have "(\<lambda>j. if j < Suc i then (f(i := v)) j
      else if j < Suc i + length vs then vs ! (j - Suc i) else None) =
    (\<lambda>j. if j < i then f j else if j < i + length (v # vs) then (v # vs) ! (j - i) else None)"
    by (auto simp: fun_eq_iff nth_Cons' Suc_diff_Suc le_less_Suc_eq)
  ultimately show ?case by simp
qed

lemma axis_dict_all:
  "axis_dict_ok (\<lambda>j. if j < length vs then vs ! j else None) (axis_dict 0 vs [])"
  using axis_dict_ok [of "\<lambda>_. None" "[]" 0 vs] by (simp add: axis_dict_ok_def [of "\<lambda>_. None"] cong: if_cong)

section \<open>Grouping by mask\<close>

lemma by_mask_spec:
  assumes "distinct (List.map fst d)"
  shows "distinct (List.map fst (by_mask ps d)) \<and> fst ` set (by_mask ps d) = fst ` set d \<union> snd ` set ps \<and>
    (\<forall>m \<in> fst ` set d \<union> snd ` set ps. map_of (by_mask ps d) m =
      Some ((case map_of d m of None \<Rightarrow> [] | Some t \<Rightarrow> t) @ concat (List.map fst (filter (\<lambda>p. snd p = m) ps))))"
  using assms
proof (induction ps arbitrary: d)
  case Nil
  then show ?case by (auto simp: map_of_eq_None_iff split: option.split)
next
  case (Cons p ps)
  obtain t k where p: "p = (t, k)" by (cases p)
  define u where "u = (case map_of d k of None \<Rightarrow> [] | Some t \<Rightarrow> t) @ t"
  have "distinct (List.map fst (AList.update k u d))" using Cons.prems by (rule distinct_update)
  note IH = Cons.IH [OF this]
  have run: "by_mask (p # ps) d = by_mask ps (AList.update k u d)" by (simp add: p u_def)
  have keys: "fst ` set (AList.update k u d) = insert k (fst ` set d)" by (simp add: dom_update)
  have "map_of (by_mask (p # ps) d) m =
      Some ((case map_of d m of None \<Rightarrow> [] | Some t \<Rightarrow> t) @ concat (List.map fst (filter (\<lambda>p. snd p = m) (p # ps))))"
    if "m \<in> fst ` set d \<union> snd ` set (p # ps)" for m
  proof -
    have "m \<in> insert k (fst ` set d) \<union> snd ` set ps" using that p by auto
    then have "map_of (by_mask (p # ps) d) m = Some ((case map_of (AList.update k u d) m of None \<Rightarrow> [] | Some t \<Rightarrow> t) @
        concat (List.map fst (filter (\<lambda>p. snd p = m) ps)))"
      using IH unfolding run keys by blast
    then show ?thesis by (simp add: update_conv' p u_def)
  qed
  with IH show ?case unfolding run keys by (simp add: p)
qed


text \<open>The value that the letter with values \<open>vs\<close> has in the group of mask \<open>m\<close>.\<close>

definition group_value :: "int option list \<Rightarrow> int \<Rightarrow> int option" where
  "group_value vs m = map_option fst (List.find (\<lambda>p. snd p = m) (axis_dict 0 vs []))"

definition opt_pred :: "char \<Rightarrow> int option \<Rightarrow> pystr" where
  "opt_pred c v = (case v of None \<Rightarrow> [] | Some x \<Rightarrow> pred_text c x)"

definition mask_text :: "array_constraint \<Rightarrow> int \<Rightarrow> pystr" where
  "mask_text a m = lit ''_'' @ hex_str (nat m) @
     concat (List.map (\<lambda>(c, vs). opt_pred c (group_value vs m)) (letter_values a))"

definition masks :: "array_constraint \<Rightarrow> int list" where
  "masks a = sort (List.map fst (by_mask (axis_predicates a) []))"

lemma axis_dict_masks_distinct: "axis_dict_ok f E \<Longrightarrow> distinct (List.map snd E)"
proof -
  assume ok: "axis_dict_ok f E"
  then have "inj_on snd (set E)"
  proof (intro inj_onI)
    fix p q assume "p \<in> set E" "q \<in> set E" "snd p = snd q"
    moreover obtain x m y m' where pq: "p = (x, m)" "q = (y, m')" by (cases p; cases q)
    ultimately have "0 < m" "\<forall>i. bit m i \<longleftrightarrow> f i = Some x" "\<forall>i. bit m i \<longleftrightarrow> f i = Some y" "m' = m"
      using ok by (auto simp: axis_dict_ok_def)
    then have "Some x = f (bit_length m - 1)" "Some y = f (bit_length m - 1)" using top_bit [of m] by metis+
    then have "Some x = Some y" by (rule trans [OF _ sym])
    then show "p = q" using \<open>m' = m\<close> by (simp add: pq)
  qed
  moreover have "distinct E" using ok by (auto simp: axis_dict_ok_def distinct_map)
  ultimately show ?thesis by (simp add: distinct_map)
qed

lemma filter_key: "distinct (List.map f xs) \<Longrightarrow>
  filter (\<lambda>p. f p = k) xs = (case List.find (\<lambda>p. f p = k) xs of None \<Rightarrow> [] | Some p \<Rightarrow> [p])"
proof (induction xs)
  case (Cons x xs)
  have "f x = k \<Longrightarrow> filter (\<lambda>p. f p = k) xs = []" using Cons.prems by (auto simp: filter_empty_conv) (metis image_eqI)
  with Cons show ?case by auto
qed simp

lemma find_key: "distinct (List.map f xs) \<Longrightarrow> List.find (\<lambda>p. f p = k) xs = Some p \<longleftrightarrow> p \<in> set xs \<and> f p = k"
  by (induction xs) auto

lemma group_value_iff: "group_value vs m = Some x \<longleftrightarrow> (x, m) \<in> set (axis_dict 0 vs [])"
  using find_key [OF axis_dict_masks_distinct [OF axis_dict_all [of vs]], of m]
  by (auto simp: group_value_def)

lemma pred_entries_of_mask:
  "concat (List.map fst (filter (\<lambda>p. snd p = m) (pred_entries c (axis_dict 0 vs [])))) = opt_pred c (group_value vs m)"
proof -
  have "filter (\<lambda>p. snd p = m) (pred_entries c E) = List.map (\<lambda>(x, m). (pred_text c x, m)) (filter (\<lambda>p. snd p = m) E)" for E
    by (induction E) (auto simp: pred_entries_def)
  then show ?thesis
    by (auto simp: filter_key [OF axis_dict_masks_distinct [OF axis_dict_all]] group_value_def opt_pred_def
        split: option.split)
qed

lemma masks_eq:
  "set (masks a) = (\<Union>(c, vs) \<in> set (letter_values a). snd ` set (axis_dict 0 vs []))" "distinct (masks a)"
proof -
  have "snd ` set (pred_entries c E) = snd ` set E" for c and E :: "(int \<times> int) list"
    by (force simp: pred_entries_def)
  then show "set (masks a) = (\<Union>(c, vs) \<in> set (letter_values a). snd ` set (axis_dict 0 vs []))"
    using by_mask_spec [of "[]" "axis_predicates a"]
    by (auto simp: masks_def axis_predicates_eq image_UN split_beta)
  show "distinct (masks a)" using by_mask_spec [of "[]" "axis_predicates a"] by (simp add: masks_def)
qed

lemma mangle_axis_groups_eq: "mangle_axis_groups a = concat (List.map (mask_text a) (masks a))"
proof -
  let ?d = "by_mask (axis_predicates a) []"
  note spec = by_mask_spec [of "[]" "axis_predicates a", simplified]
  have "the (map_of ?d m) = concat (List.map (\<lambda>(c, vs). opt_pred c (group_value vs m)) (letter_values a))"
    if "m \<in> set (masks a)" for m
  proof -
    from that spec obtain p where "p \<in> set (axis_predicates a)" "m = snd p" by (auto simp: masks_def)
    with spec have "the (map_of ?d m) = concat (List.map fst (filter (\<lambda>p. snd p = m) (axis_predicates a)))" by simp
    also have "\<dots> = concat (List.map (\<lambda>(c, vs). opt_pred c (group_value vs m)) (letter_values a))"
      unfolding axis_predicates_eq letter_values_def by (simp add: pred_entries_of_mask)
    finally show ?thesis .
  qed
  then show ?thesis unfolding mangle_axis_groups_def Let_def masks_def [symmetric] mask_text_def
    by (intro arg_cong [where f = concat] map_cong) auto
qed

lemma below_exp: "0 \<le> m \<Longrightarrow> (\<And>i. bit m i \<Longrightarrow> i < n) \<Longrightarrow> m < 2 ^ n" for m :: int
proof -
  assume "0 \<le> m" "\<And>i. bit m i \<Longrightarrow> i < n"
  then have "take_bit n m = m" by (intro bit_eqI) (auto simp: bit_take_bit_iff)
  then show ?thesis by (metis take_bit_int_less_exp)
qed

lemma group_value_props:
  assumes "group_value vs m = Some x"
  shows "0 < m" "bit m i \<longleftrightarrow> i < length vs \<and> vs ! i = Some x" "m < 2 ^ length vs" "Some x \<in> set vs"
proof -
  from assms axis_dict_all [of vs] have *: "0 < m" "\<And>i. bit m i \<longleftrightarrow> (if i < length vs then vs ! i else None) = Some x"
    by (auto simp: group_value_iff axis_dict_ok_def)
  then show "0 < m" "bit m i \<longleftrightarrow> i < length vs \<and> vs ! i = Some x" by auto
  show "m < 2 ^ length vs" using * by (intro below_exp) (auto split: if_splits)
  show "Some x \<in> set vs" using *(2) [of "bit_length m - 1"] top_bit [OF *(1)]
    by (auto split: if_splits) (metis nth_mem)
qed

lemma value_group:
  assumes "i < length vs" and "vs ! i = Some x"
  obtains m where "group_value vs m = Some x" and "bit m i"
proof -
  from axis_dict_all [of vs] assms have "x \<in> fst ` set (axis_dict 0 vs [])"
    unfolding axis_dict_ok_def by presburger
  then obtain m where "(x, m) \<in> set (axis_dict 0 vs [])" by auto
  then have "group_value vs m = Some x" by (simp add: group_value_iff)
  with that [of m] group_value_props(2) [of vs m x i] assms show ?thesis by simp
qed

lemma masks_group: "m \<in> set (masks a) \<longleftrightarrow> (\<exists>(c, vs) \<in> set (letter_values a). group_value vs m \<noteq> None)"
  unfolding masks_eq by (force simp: group_value_iff)


section \<open>Reading one group\<close>

text \<open>What may follow the assumptions of a mask: not a lowercase letter and not a digit.\<close>

definition no_name :: "pystr \<Rightarrow> bool" where
  "no_name rest \<longleftrightarrow> \<not> begins is_name_char rest"

lemma reads_opt_Some:
  assumes "reads F l t m x l'"
  shows "reads F l (ch c # t) (opt_read c d m) x l'"
  using reads_bind [OF reads_read [OF matches_char [of c]], of F l t "\<lambda>r. if r = None then retE d else m" x l' "\<lambda>_. True"] assms
  by (simp add: opt_read_def)

lemma reads_opt_None:
  assumes "\<And>rest. F rest \<Longrightarrow> \<not> begins (\<lambda>x. x = ch c) rest"
  shows "reads F l [] (opt_read c d m) d l"
  unfolding opt_read_def
  by (rule reads_bind_ret [OF reads_read_None [OF refuses_char]]) (use assms in simp_all)

lemma begins_opt_pred: "begins P (opt_pred c v @ rest) \<longleftrightarrow> (if v = None then begins P rest else P (ch c))"
  by (cases v) (simp_all add: opt_pred_def pred_text_def)

definition after_letter :: "char \<Rightarrow> pystr \<Rightarrow> bool" where
  "after_letter c rest \<longleftrightarrow> no_digit rest \<and> \<not> begins (\<lambda>x. x = ch c) rest"

lemma reads_opt_int:
  "reads (after_letter c) l (opt_pred c v) (opt_read c None (bindE demangle_signed_int (\<lambda>x. retE (Some x)))) v l"
proof (cases v)
  case None
  then show ?thesis by (auto simp: opt_pred_def after_letter_def intro: reads_opt_None)
next
  case (Some x)
  have "reads no_digit l (mangle_signed_int x) (bindE demangle_signed_int (\<lambda>x. retE (Some x))) (Some x) l"
    by (rule reads_bind_ret [OF reads_signed_int]) simp
  then show ?thesis
    using Some by (auto simp: opt_pred_def pred_text_def after_letter_def intro: reads_opt_Some reads_weaken)
qed

lemma reads_opt_div:
  assumes "\<And>x. v = Some x \<Longrightarrow> 1 < x"
  shows "reads (after_letter c) l (opt_pred c v) (opt_read c 1 demangle_divisibility)
    (case v of None \<Rightarrow> 1 | Some x \<Rightarrow> x) l"
proof (cases v)
  case None
  then show ?thesis by (auto simp: opt_pred_def after_letter_def intro: reads_opt_None)
next
  case (Some x)
  then show ?thesis
    using reads_divisibility [OF assms [OF Some], of l]
    by (auto simp: opt_pred_def pred_text_def after_letter_def intro: reads_opt_Some reads_weaken)
qed

lemma after_opt_pred:
  "after_letter c (opt_pred d v @ rest) \<longleftrightarrow> (if v = None then after_letter c rest else d \<noteq> c \<and> \<not> is_digit (ch d))"
  by (auto simp: after_letter_def no_digit_def begins_opt_pred of_char_eq_iff)

definition div_value :: "int option \<Rightarrow> int" where
  "div_value v = (case v of None \<Rightarrow> 1 | Some x \<Rightarrow> x)"

definition mask_values :: "array_constraint \<Rightarrow> int \<Rightarrow> axis_values" where
  "mask_values a m =
     \<lparr>axis_shape_constant = group_value (arr_shape_constant a) m,
      axis_shape_div_by = div_value (group_value (List.map div_opt (arr_shape_divisible_by a)) m),
      axis_stride_constant = group_value (arr_stride_constant a) m,
      axis_stride_div_by = div_value (group_value (List.map div_opt (arr_stride_divisible_by a)) m),
      axis_stride_lb = group_value (arr_stride_lower_bound_incl a) m\<rparr>"

lemma begins_ch: "begins is_name_char (ch c # r) = is_name_char (ch c)"
  by simp

lemma no_name_begins: "no_name rest \<Longrightarrow> is_name_char x \<Longrightarrow> begins (\<lambda>y. y = x) rest \<Longrightarrow> False"
  by (cases rest) (simp_all add: no_name_def)

lemma no_name_digit: "no_name rest \<Longrightarrow> no_digit rest"
  by (cases rest) (simp_all add: no_name_def no_digit_def is_name_char_def)

lemma group_value_div:
  assumes "group_value (List.map div_opt ds) m = Some x" and "\<forall>d \<in> set ds. 0 < d"
  shows "1 < x"
proof -
  from group_value_props(4) [OF assms(1)] obtain d where "d \<in> set ds" "div_opt d = Some x" by auto
  with assms(2) show ?thesis by (force simp: div_opt_def split: if_splits)
qed

lemma reads_axis_values:
  assumes "array_ok a"
  shows "reads no_name l (concat (List.map (\<lambda>(c, vs). opt_pred c (group_value vs m)) (letter_values a)))
    demangle_axis_values (mask_values a m) l"
proof -
  have lower: "is_name_char (ch c)" "\<not> is_digit (ch c)" if "c \<in> {CHR ''s'', CHR ''i'', CHR ''t'', CHR ''v'', CHR ''l''}" for c
    using that by (auto simp: char_class_defs)
  have after: "after_letter c rest" if "no_name rest" "c \<in> {CHR ''s'', CHR ''i'', CHR ''t'', CHR ''v'', CHR ''l''}" for c rest
    using that no_name_begins [of rest "ch c"] lower(1) [OF that(2)] no_name_digit by (auto simp: after_letter_def)
  have div: "group_value (List.map div_opt (arr_shape_divisible_by a)) m = Some x \<Longrightarrow> 1 < x"
    "group_value (List.map div_opt (arr_stride_divisible_by a)) m = Some x \<Longrightarrow> 1 < x" for x
    using assms by (auto simp: array_ok_def Let_def elim!: group_value_div)
  show ?thesis
    unfolding letter_values_def demangle_axis_values_def list.map concat.simps prod.case append_Nil2
    by (rule reads_bind [OF reads_opt_int], rule reads_bind [OF reads_opt_div [OF div(1)]], assumption,
        rule reads_bind [OF reads_opt_int], rule reads_bind [OF reads_opt_div [OF div(2)]], assumption,
        rule reads_bind_ret [OF reads_weaken [OF reads_opt_int]])
      (auto simp: mask_values_def div_value_def after_opt_pred is_digit_def intro: after)
qed


section \<open>Applying one mask\<close>

definition put_bits :: "'a \<Rightarrow> 'a \<Rightarrow> int \<Rightarrow> 'a list \<Rightarrow> 'a list" where
  "put_bits default_value val m xs =
     (if val = default_value then xs
      else List.map (\<lambda>i. if bit m i then val else xs ! i) [0..<length xs])"

definition fits :: "'a \<Rightarrow> 'a \<Rightarrow> int \<Rightarrow> 'a list \<Rightarrow> bool" where
  "fits default_value val m xs \<longleftrightarrow>
     (val \<noteq> default_value \<longrightarrow> (\<forall>i < length xs. bit m i \<longrightarrow> xs ! i = default_value))"

lemma put_bits_0: "put_bits d v 0 xs = xs"
  by (simp add: put_bits_def map_nth)

lemma put_bits_length [simp]: "length (put_bits d v m xs) = length xs"
  by (simp add: put_bits_def)

text \<open>One step: the top bit is set, the others stay to be done.\<close>

definition put_one :: "'a \<Rightarrow> 'a \<Rightarrow> nat \<Rightarrow> 'a list \<Rightarrow> 'a list" where
  "put_one d v i xs = (if v = d then xs else xs[i := v])"

lemma put_one_length [simp]: "length (put_one d v i xs) = length xs"
  by (simp add: put_one_def)

lemma set_once_fits:
  "fits d v m xs \<Longrightarrow> bit m i \<Longrightarrow> i < length xs \<Longrightarrow> set_once d v i xs = Inr (put_one d v i xs)"
  by (auto simp: fits_def set_once_def put_one_def)

lemma fits_step: "fits d v m xs \<Longrightarrow> fits d v (unset_bit i m) (put_one d v i xs)"
  by (auto simp: fits_def put_one_def bit_unset_bit_iff nth_list_update)

lemma put_bits_step:
  "bit m i \<Longrightarrow> i < length xs \<Longrightarrow> put_bits d v (unset_bit i m) (put_one d v i xs) = put_bits d v m xs"
  by (auto simp: put_bits_def put_one_def bit_unset_bit_iff intro!: nth_equalityI)

definition fits_axes :: "axis_values \<Rightarrow> int \<Rightarrow> nat \<Rightarrow> axes \<Rightarrow> bool" where
  "fits_axes v m n A \<longleftrightarrow>
     length (ax_shape_constant A) = n \<and> length (ax_shape_divisible_by A) = n \<and>
     length (ax_stride_constant A) = n \<and> length (ax_stride_divisible_by A) = n \<and>
     length (ax_stride_lower_bound_incl A) = n \<and>
     fits None (axis_shape_constant v) m (ax_shape_constant A) \<and>
     fits 1 (axis_shape_div_by v) m (ax_shape_divisible_by A) \<and>
     fits None (axis_stride_constant v) m (ax_stride_constant A) \<and>
     fits 1 (axis_stride_div_by v) m (ax_stride_divisible_by A) \<and>
     fits None (axis_stride_lb v) m (ax_stride_lower_bound_incl A)"

definition put_axes :: "axis_values \<Rightarrow> int \<Rightarrow> axes \<Rightarrow> axes" where
  "put_axes v m A =
     \<lparr>ax_shape_constant = put_bits None (axis_shape_constant v) m (ax_shape_constant A),
      ax_shape_divisible_by = put_bits 1 (axis_shape_div_by v) m (ax_shape_divisible_by A),
      ax_stride_constant = put_bits None (axis_stride_constant v) m (ax_stride_constant A),
      ax_stride_divisible_by = put_bits 1 (axis_stride_div_by v) m (ax_stride_divisible_by A),
      ax_stride_lower_bound_incl = put_bits None (axis_stride_lb v) m (ax_stride_lower_bound_incl A)\<rparr>"

lemma apply_axis_mask_step:
  "0 < m \<Longrightarrow> i = bit_length m - 1 \<Longrightarrow>
   apply_axis_mask v m A = bindS (set_axis v i A) (apply_axis_mask v (unset_bit i m))"
  by (subst apply_axis_mask.simps) (simp add: Let_def)

lemma apply_axis_mask_eq:
  assumes "0 \<le> m" and "m < 2 ^ n" and "fits_axes v m n A"
  shows "apply_axis_mask v m A = Inr (put_axes v m A)"
  using assms
proof (induction v m A rule: apply_axis_mask.induct)
  case (1 v m A)
  show ?case
  proof (cases "m = 0")
    case True
    then show ?thesis by (simp add: apply_axis_mask.simps [of v 0] put_axes_def put_bits_0)
  next
    case False
    define i where "i = bit_length m - 1"
    have m: "0 < m" using 1 False by simp
    have i: "bit m i" using top_bit [OF m] by (simp add: i_def)
    have "bit_length m \<le> n" using 1 by (simp add: bit_length_le_iff)
    then have n: "i < n" using bit_length_pos [OF m] by (simp add: i_def)
    let ?A = "\<lparr>ax_shape_constant = put_one None (axis_shape_constant v) i (ax_shape_constant A),
      ax_shape_divisible_by = put_one 1 (axis_shape_div_by v) i (ax_shape_divisible_by A),
      ax_stride_constant = put_one None (axis_stride_constant v) i (ax_stride_constant A),
      ax_stride_divisible_by = put_one 1 (axis_stride_div_by v) i (ax_stride_divisible_by A),
      ax_stride_lower_bound_incl = put_one None (axis_stride_lb v) i (ax_stride_lower_bound_incl A)\<rparr>"
    have set: "set_axis v i A = Inr ?A"
      using 1(4) n by (simp add: set_axis_def fits_axes_def set_once_fits [OF _ i])
    have "unset_bit i m < m" using i by (simp add: unset_bit_eq)
    then have lt: "unset_bit i m < 2 ^ n" using 1(3) by linarith
    have fits: "fits_axes v (unset_bit i m) n ?A"
      using 1(4) by (simp add: fits_axes_def fits_step)
    have "apply_axis_mask v (unset_bit i m) ?A = Inr (put_axes v (unset_bit i m) ?A)"
      using m by (intro 1(1) [OF m i_def _ lt fits]) simp
    moreover have "put_axes v (unset_bit i m) ?A = put_axes v m A"
      using 1(4) i n by (simp add: put_axes_def fits_axes_def put_bits_step)
    ultimately show ?thesis
      by (simp add: apply_axis_mask_step [OF m i_def] set)
  qed
qed


section \<open>Applying all masks\<close>

text \<open>The values of one kind once the masks in \<open>ms\<close> have been applied.\<close>

definition covered :: "int option list \<Rightarrow> int list \<Rightarrow> nat \<Rightarrow> bool" where
  "covered vs ms i \<longleftrightarrow> (\<exists>m \<in> set ms. group_value vs m \<noteq> None \<and> bit m i)"

definition applied :: "(int option \<Rightarrow> 'a) \<Rightarrow> int option list \<Rightarrow> int list \<Rightarrow> 'a list" where
  "applied f vs ms = List.map (\<lambda>i. f (if covered vs ms i then vs ! i else None)) [0..<length vs]"

lemma covered_snoc: "covered vs (ms @ [m]) i \<longleftrightarrow> covered vs ms i \<or> group_value vs m \<noteq> None \<and> bit m i"
  by (auto simp: covered_def)

lemma applied_length [simp]: "length (applied f vs ms) = length vs"
  by (simp add: applied_def)

lemma group_values_disjoint:
  assumes "group_value vs m = Some x" and "group_value vs m' = Some x'" and "bit m i" and "bit m' i"
  shows "m = m'"
proof -
  have "x = x'" using group_value_props(2) [OF assms(1), of i] group_value_props(2) [OF assms(2), of i] assms(3,4) by simp
  with assms(1,2) show ?thesis
    using axis_dict_all [of vs] by (auto simp: group_value_iff axis_dict_ok_def dest: eq_key_imp_eq_value)
qed

lemma applied_fits:
  assumes "m \<notin> set ms" and "f None = d"
  shows "fits d (f (group_value vs m)) m (applied f vs ms)"
  unfolding fits_def
proof (intro impI allI)
  fix i assume v: "f (group_value vs m) \<noteq> d" and i: "i < length (applied f vs ms)" "bit m i"
  have "\<not> covered vs ms i"
  proof
    assume "covered vs ms i"
    then obtain m' where "m' \<in> set ms" "group_value vs m' \<noteq> None" "bit m' i" by (auto simp: covered_def)
    moreover have "group_value vs m \<noteq> None" using v assms(2) by (cases "group_value vs m") auto
    ultimately show False using group_values_disjoint [OF _ _ i(2)] assms(1) by blast
  qed
  then show "applied f vs ms ! i = d" using i assms(2) by (simp add: applied_def)
qed

lemma applied_step:
  assumes "f None = d" and "\<And>x. Some x \<in> set vs \<Longrightarrow> f (Some x) \<noteq> d"
  shows "put_bits d (f (group_value vs m)) m (applied f vs ms) = applied f vs (ms @ [m])"
proof (cases "group_value vs m")
  case None
  then show ?thesis using assms(1) by (simp add: put_bits_def applied_def covered_snoc)
next
  case (Some x)
  have "f (Some x) \<noteq> d" using assms(2) group_value_props(4) [OF Some] by blast
  then show ?thesis
    using Some group_value_props(2) [OF Some] by (auto simp: put_bits_def applied_def covered_snoc)
qed

lemma div_value_opt [simp]: "div_value (div_opt d) = d"
  by (simp add: div_value_def div_opt_def)

lemma div_value_None [simp]: "div_value None = 1"
  by (simp add: div_value_def)

lemma map_div_value [simp]: "List.map (div_value \<circ> div_opt) ds = ds"
  by (simp add: map_idI)

lemma applied_step_id: "put_bits None (group_value vs m) m (applied id vs ms) = applied id vs (ms @ [m])"
  using applied_step [of id None vs m ms] by simp

lemma div_value_Some: "Some x \<in> div_opt ` A \<Longrightarrow> div_value (Some x) \<noteq> 1"
  by (auto simp: div_opt_def div_value_def split: if_splits)

lemma applied_step_div:
  "put_bits 1 (div_value (group_value (List.map div_opt ds) m)) m (applied div_value (List.map div_opt ds) ms) =
   applied div_value (List.map div_opt ds) (ms @ [m])"
  using applied_step [of div_value 1 "List.map div_opt ds" m ms] div_value_Some by simp

lemma applied_all:
  assumes "\<And>m. group_value vs m \<noteq> None \<Longrightarrow> m \<in> set ms"
  shows "applied f vs ms = List.map f vs"
proof (rule nth_equalityI)
  fix i assume i: "i < length (applied f vs ms)"
  have "covered vs ms i" if v: "vs ! i \<noteq> None"
  proof -
    from v obtain x where x: "vs ! i = Some x" by auto
    have "i < length vs" using i by simp
    from value_group [OF this x] obtain m where "group_value vs m = Some x" "bit m i" .
    with assms [of m] show ?thesis unfolding covered_def by blast
  qed
  then show "applied f vs ms ! i = List.map f vs ! i" using i by (cases "vs ! i") (auto simp: applied_def)
qed simp

lemma applied_none: "applied f vs [] = replicate (length vs) (f None)"
  by (simp add: applied_def covered_def map_replicate_const)

definition axes_after :: "array_constraint \<Rightarrow> int list \<Rightarrow> axes" where
  "axes_after a ms =
     \<lparr>ax_shape_constant = applied id (arr_shape_constant a) ms,
      ax_shape_divisible_by = applied div_value (List.map div_opt (arr_shape_divisible_by a)) ms,
      ax_stride_constant = applied id (arr_stride_constant a) ms,
      ax_stride_divisible_by = applied div_value (List.map div_opt (arr_stride_divisible_by a)) ms,
      ax_stride_lower_bound_incl = applied id (arr_stride_lower_bound_incl a) ms\<rparr>"

definition axes_of :: "array_constraint \<Rightarrow> axes" where
  "axes_of a =
     \<lparr>ax_shape_constant = arr_shape_constant a, ax_shape_divisible_by = arr_shape_divisible_by a,
      ax_stride_constant = arr_stride_constant a, ax_stride_divisible_by = arr_stride_divisible_by a,
      ax_stride_lower_bound_incl = arr_stride_lower_bound_incl a\<rparr>"

lemma letter_group_masks:
  "(c, vs) \<in> set (letter_values a) \<Longrightarrow> group_value vs m \<noteq> None \<Longrightarrow> m \<in> set (masks a)"
  unfolding masks_group by blast

lemma applied_letter:
  assumes "(c, vs) \<in> set (letter_values a)"
  shows "applied f vs (masks a) = List.map f vs"
  using letter_group_masks [OF assms] by (intro applied_all)

lemma axes_after_all: "axes_after a (masks a) = axes_of a"
  using applied_letter [of "CHR ''s''" _ a id] applied_letter [of "CHR ''i''" _ a div_value]
    applied_letter [of "CHR ''t''" _ a id] applied_letter [of "CHR ''v''" _ a div_value]
    applied_letter [of "CHR ''l''" _ a id]
  by (simp add: axes_after_def axes_of_def letter_values_def)

lemma array_ok_lengths:
  assumes "array_ok a"
  shows "length (arr_shape_constant a) = nat (arr_ndim a)" "length (arr_shape_divisible_by a) = nat (arr_ndim a)"
    "length (arr_stride_constant a) = nat (arr_ndim a)" "length (arr_stride_divisible_by a) = nat (arr_ndim a)"
    "length (arr_stride_lower_bound_incl a) = nat (arr_ndim a)"
  using assms by (simp_all add: array_ok_def Let_def)

lemma axes_after_none: "array_ok a \<Longrightarrow> axes_after a [] = default_axes (nat (arr_ndim a))"
  by (simp add: axes_after_def default_axes_def applied_none array_ok_lengths)

lemma axes_after_step:
  assumes "array_ok a" and "m \<notin> set ms" and "m \<in> set (masks a)"
  shows "apply_axis_mask (mask_values a m) m (axes_after a ms) = Inr (axes_after a (ms @ [m]))"
proof -
  note len = array_ok_lengths [OF assms(1)]
  from assms(3) obtain c vs x where v: "(c, vs) \<in> set (letter_values a)" "group_value vs m = Some x"
    unfolding masks_group by blast
  then have "length vs = nat (arr_ndim a)" using len by (auto simp: letter_values_def)
  then have "0 < m" "m < 2 ^ nat (arr_ndim a)" using group_value_props [OF v(2)] by simp_all
  moreover have "fits_axes (mask_values a m) m (nat (arr_ndim a)) (axes_after a ms)"
    using applied_fits [OF assms(2), of id] applied_fits [OF assms(2), of div_value] len
    by (simp add: fits_axes_def mask_values_def axes_after_def)
  ultimately have "apply_axis_mask (mask_values a m) m (axes_after a ms) = Inr (put_axes (mask_values a m) m (axes_after a ms))"
    by (intro apply_axis_mask_eq) simp_all
  moreover have "put_axes (mask_values a m) m (axes_after a ms) = axes_after a (ms @ [m])"
    by (simp add: put_axes_def mask_values_def axes_after_def applied_step_id applied_step_div)
  ultimately show ?thesis by simp
qed


section \<open>Reading all groups\<close>

text \<open>What may follow the axis groups of an array: the extras, or the end of the constraint.\<close>

definition boundary :: "pystr \<Rightarrow> bool" where
  "boundary rest \<longleftrightarrow> (case rest of [] \<Rightarrow> True | c # r \<Rightarrow>
     is_upper c \<or> c = ch (CHR ''_'') \<and> begins is_upper r)"

definition extra_letter :: "nat \<Rightarrow> bool" where
  "extra_letter c \<longleftrightarrow> c \<in> set (lit ''pgiuw'')"

definition groups_end :: "pystr \<Rightarrow> bool" where
  "groups_end rest \<longleftrightarrow> boundary rest \<or> (\<exists>c r. rest = ch (CHR ''_'') # c # r \<and> extra_letter c)"

lemma groups_end_cases:
  assumes "groups_end rest"
  shows "no_name rest" and "re_mask rest = None" and "no_digit rest"
proof -
  have e: "extra_letter c \<Longrightarrow> \<not> is_hex c \<and> \<not> is_upper c" for c
    by (auto simp: extra_letter_def lit_def char_class_defs)
  have u: "is_upper c \<Longrightarrow> \<not> is_hex c \<and> \<not> is_name_char c \<and> c \<noteq> ch (CHR ''_'')" for c
    by (auto simp: char_class_defs)
  show n: "no_name rest"
    using assms e u by (cases rest) (auto simp: groups_end_def boundary_def no_name_def is_name_char_def is_lower_def is_digit_def)
  show "re_mask rest = None"
    using assms e u
    by (auto simp: groups_end_def boundary_def begins_def re_mask_def re_defs Let_def split: list.splits)
  show "no_digit rest" using n by (rule no_name_digit)
qed

lemma mask_text_begins: "\<exists>r. mask_text a m @ rest = ch (CHR ''_'') # r"
  by (simp add: mask_text_def lit_def)

lemma mask_texts_no_name:
  assumes "groups_end rest"
  shows "no_name (concat (List.map (mask_text a) ms) @ rest)"
proof (cases ms)
  case Nil
  then show ?thesis using groups_end_cases(1) [OF assms] by simp
next
  case (Cons m ms')
  then show ?thesis using mask_text_begins [of a m "concat (List.map (mask_text a) ms') @ rest"]
    by (auto simp: no_name_def char_class_defs)
qed

lemma demangle_axis_groups_eq:
  "demangle_axis_groups n A = bindE (cur_read re_mask) (\<lambda>m.
     case m of None \<Rightarrow> retE A
     | Some text \<Rightarrow>
         let axis_mask = int (parse_digits 16 (tl text)) in
         if axis_mask = 0 then raiseE ValueError
         else if bit_length axis_mask > n then raiseE ValueError
         else bindE demangle_axis_values (\<lambda>v.
           bindE (liftS (apply_axis_mask v axis_mask A)) (demangle_axis_groups n)))"
proof (rule ext)
  fix s
  show "demangle_axis_groups n A s = bindE (cur_read re_mask) (\<lambda>m.
     case m of None \<Rightarrow> retE A
     | Some text \<Rightarrow>
         let axis_mask = int (parse_digits 16 (tl text)) in
         if axis_mask = 0 then raiseE ValueError
         else if bit_length axis_mask > n then raiseE ValueError
         else bindE demangle_axis_values (\<lambda>v.
           bindE (liftS (apply_axis_mask v axis_mask A)) (demangle_axis_groups n))) s"
    unfolding demangle_axis_groups.simps [of n A s]
    by (rule bindE_cong [OF refl]) (simp add: Let_def split: option.split)
qed

definition no_hex :: "pystr \<Rightarrow> bool" where
  "no_hex rest \<longleftrightarrow> \<not> begins is_hex rest"

lemma no_name_hex: "no_name rest \<Longrightarrow> no_hex rest"
  by (cases rest) (auto simp: no_name_def no_hex_def char_class_defs)

lemma reads_mask: "reads no_hex l (lit ''_'' @ hex_str n) (cur_read re_mask) (Some (lit ''_'' @ hex_str n)) l"
proof (rule reads_read, unfold matches_def, intro allI impI)
  fix rest assume "no_hex rest"
  with matches_plus [OF nat_str_hex [of 16 n]] have "re_plus is_hex (hex_str n @ rest) = Some (length (hex_str n))"
    by (simp add: matches_def no_hex_def)
  then show "re_mask ((lit ''_'' @ hex_str n) @ rest) = Some (length (lit ''_'' @ hex_str n))"
    by (simp add: re_mask_def re_seq_def re_char_def re_one_def lit_def)
qed

lemma preds_no_hex:
  "no_name rest \<Longrightarrow> no_hex (concat (List.map (\<lambda>(c, vs). opt_pred c (group_value vs m)) (letter_values a)) @ rest)"
  using no_name_hex [of rest] by (simp add: letter_values_def no_hex_def begins_opt_pred char_class_defs)

lemma reads_lift: "reads F l [] (liftS (Inr x)) x l"
  using reads_ret [of F l x] by (simp add: liftS_def retE_def)

lemma mask_bounds:
  assumes "array_ok a" and "m \<in> set (masks a)"
  shows "0 < m" and "bit_length m \<le> nat (arr_ndim a)"
proof -
  from assms(2) obtain c vs x where v: "(c, vs) \<in> set (letter_values a)" "group_value vs m = Some x"
    unfolding masks_group by blast
  then have "length vs = nat (arr_ndim a)" using array_ok_lengths [OF assms(1)] by (auto simp: letter_values_def)
  with group_value_props [OF v(2)] show "0 < m" "bit_length m \<le> nat (arr_ndim a)"
    by (simp_all add: bit_length_le_iff)
qed

lemma reads_axis_groups_from:
  assumes "array_ok a" and "masks a = done_ms @ ms"
  shows "reads groups_end l (concat (List.map (mask_text a) ms))
    (demangle_axis_groups (nat (arr_ndim a)) (axes_after a done_ms)) (axes_of a) l"
  using assms(2)
proof (induction ms arbitrary: done_ms)
  case Nil
  have "reads groups_end l [] (cur_read re_mask) None l"
    by (rule reads_read_None) (simp add: refuses_def groups_end_cases)
  then show ?case
    using Nil axes_after_all [of a] by (subst demangle_axis_groups_eq) (auto intro: reads_bind_ret)
next
  case (Cons m ms)
  let ?n = "nat (arr_ndim a)"
  let ?preds = "concat (List.map (\<lambda>(c, vs). opt_pred c (group_value vs m)) (letter_values a))"
  let ?rest = "concat (List.map (mask_text a) ms)"
  have m: "m \<in> set (masks a)" "m \<notin> set done_ms" using Cons.prems masks_eq(2) [of a] by auto
  note mb = mask_bounds [OF assms(1) m(1)]
  have "reads groups_end l ?rest (demangle_axis_groups ?n (axes_after a (done_ms @ [m]))) (axes_of a) l"
    using Cons by simp
  then have tail: "reads groups_end l ([] @ ?rest)
      (bindE (liftS (apply_axis_mask (mask_values a m) m (axes_after a done_ms))) (demangle_axis_groups ?n)) (axes_of a) l"
    unfolding axes_after_step [OF assms(1) m(2,1)] by (rule reads_bind [OF reads_lift]) simp
  have "reads groups_end l (?preds @ [] @ ?rest) (bindE demangle_axis_values (\<lambda>v.
      bindE (liftS (apply_axis_mask v m (axes_after a done_ms))) (demangle_axis_groups ?n))) (axes_of a) l"
    by (rule reads_bind [OF reads_axis_values [OF assms(1)]], rule tail) (simp add: mask_texts_no_name)
  then have "reads groups_end l ((lit ''_'' @ hex_str (nat m)) @ ?preds @ [] @ ?rest)
      (demangle_axis_groups ?n (axes_after a done_ms)) (axes_of a) l"
    by (subst demangle_axis_groups_eq, intro reads_bind [OF reads_mask])
      (use mb in \<open>auto simp: lit_def parse_nat_str preds_no_hex mask_texts_no_name\<close>)
  then show ?case by (simp add: mask_text_def [of a m])
qed

lemma reads_axis_groups:
  assumes "array_ok a"
  shows "reads groups_end l (mangle_axis_groups a)
    (demangle_axis_groups (nat (arr_ndim a)) (default_axes (nat (arr_ndim a)))) (axes_of a) l"
  using reads_axis_groups_from [OF assms, of "[]" "masks a" l] axes_after_none [OF assms]
  by (simp add: mangle_axis_groups_eq)


section \<open>Alias group ids\<close>

definition ids_text :: "nat list \<Rightarrow> pystr" where
  "ids_text ids = concat (List.map (\<lambda>i. lit ''g'' @ hex_str i) ids)"

definition group_names_of :: "pystr list option \<Rightarrow> nat list \<Rightarrow> pystr list" where
  "group_names_of names ids = List.map (\<lambda>i.
     case names of None \<Rightarrow> lit ''group'' @ int_str (int i) | Some ns \<Rightarrow> ns ! i) ids"

text \<open>
  \<^verbatim>\<open>_last_seen_id\<close> is the id read last, so an id is accepted when it is at most one more than its
  predecessor in the whole name.
\<close>

fun ids_accepted :: "int \<Rightarrow> nat list \<Rightarrow> bool" where
  "ids_accepted l [] \<longleftrightarrow> True"
| "ids_accepted l (i # is) \<longleftrightarrow> int i \<le> l + 1 \<and> ids_accepted (int i) is"

definition last_id :: "int \<Rightarrow> nat list \<Rightarrow> int" where
  "last_id l ids = (if ids = [] then l else int (last ids))"

lemma ids_accepted_append: "ids_accepted l (xs @ ys) \<longleftrightarrow> ids_accepted l xs \<and> ids_accepted (last_id l xs) ys"
  by (induction xs arbitrary: l) (auto simp: last_id_def)

definition names_cover :: "pystr list option \<Rightarrow> nat list \<Rightarrow> bool" where
  "names_cover names ids \<longleftrightarrow> (case names of None \<Rightarrow> True | Some ns \<Rightarrow> \<forall>i \<in> set ids. i < length ns)"

definition ids_end :: "pystr \<Rightarrow> bool" where
  "ids_end rest \<longleftrightarrow> no_hex rest \<and> \<not> begins (\<lambda>x. x = ch (CHR ''g'')) rest"

lemma hex_str_no_leading_zero: "\<not> (length (hex_str i) > 1 \<and> hd (hex_str i) = ch (CHR ''0''))"
proof (cases "i = 0")
  case True
  then show ?thesis by (subst nat_str.simps) simp
next
  case False
  then show ?thesis using nat_str_leading [of 16 i] by simp
qed

lemma group_id_step:
  assumes "dm_remaining s = lit ''g'' @ hex_str i @ rest" and "no_hex rest"
    and "int i \<le> dm_last_seen_id s + 1" and "case p of None \<Rightarrow> True | Some q \<Rightarrow> q < int i"
    and "group_name names (int i) = Inr nm"
  shows "demangle_group_ids_loop names p ret s = demangle_group_ids_loop names (Some (int i)) (ret @ [nm])
    ((advance (Suc (length (hex_str i))) s)\<lparr>dm_last_seen_id := int i\<rparr>)"
proof -
  have 1: "cur_read (re_char (CHR ''g'')) s = (Inr (Some (lit ''g'')), advance (Suc 0) s)"
    using assms(1) by (simp add: cur_read_def re_char_def re_one_def lit_def)
  have 2: "cur_expect (re_plus is_hex) (advance (Suc 0) s) = (Inr (hex_str i), advance (Suc (length (hex_str i))) s)"
    using matches_plus [OF nat_str_hex [of 16 i]] assms(1,2)
    by (simp add: cur_expect_eq matches_def no_hex_def lit_def)
  show ?thesis
    by (subst demangle_group_ids_loop.simps)
      (use hex_str_no_leading_zero [of i] assms(3-5) in
        \<open>auto simp: bindE_def 1 2 Let_def parse_nat_str split: option.split\<close>)
qed

lemma group_name_covered:
  "names_cover names (i # is) \<Longrightarrow> group_name names (int i) = Inr (hd (group_names_of names [i]))"
  by (auto simp: group_name_def names_cover_def group_names_of_def split: option.split)

lemma hex_str_begins: "begins is_hex (hex_str i @ rest)"
  using nat_str_hex [of 16 i] nat_str_nonempty [of 16 i] by (cases "hex_str i") auto

lemma ids_text_no_hex: "ids_end rest \<Longrightarrow> no_hex (ids_text is @ rest)"
  by (cases "is") (simp_all add: ids_text_def ids_end_def no_hex_def lit_def char_class_defs)

lemma reads_group_ids_loop:
  assumes "sorted_wrt (<) ids" and "ids_accepted l ids" and "names_cover names ids"
    and "case p of None \<Rightarrow> True | Some q \<Rightarrow> \<forall>i \<in> set ids. q < int i"
  shows "reads ids_end l (ids_text ids) (demangle_group_ids_loop names p ret) (ret @ group_names_of names ids)
    (last_id l ids)"
  using assms
proof (induction ids arbitrary: l p ret)
  case Nil
  show ?case
  proof (rule reads_I)
    fix s :: demangler and rest
    assume "dm_remaining s = ids_text [] @ rest" "ids_end rest" "dm_last_seen_id s = l"
    moreover from this have "cur_read (re_char (CHR ''g'')) s = (Inr None, s)"
      by (cases rest) (simp_all add: cur_read_def re_char_def re_one_def ids_text_def ids_end_def)
    ultimately show "demangle_group_ids_loop names p ret s =
      (Inr (ret @ group_names_of names []), (advance (length (ids_text [])) s)\<lparr>dm_last_seen_id := last_id l []\<rparr>)"
      by (subst demangle_group_ids_loop.simps)
        (simp add: bindE_def retE_def group_names_of_def ids_text_def last_id_def)
  qed
next
  case (Cons i ids)
  let ?nm = "hd (group_names_of names [i])"
  have IH: "reads ids_end (int i) (ids_text ids) (demangle_group_ids_loop names (Some (int i)) (ret @ [?nm]))
      ((ret @ [?nm]) @ group_names_of names ids) (last_id (int i) ids)"
    using Cons by (intro Cons.IH) (auto simp: names_cover_def split: option.splits)
  show ?case
  proof (rule reads_I)
    fix s :: demangler and rest
    assume s: "dm_remaining s = ids_text (i # ids) @ rest" "ids_end rest" "dm_last_seen_id s = l"
    let ?s = "(advance (Suc (length (hex_str i))) s)\<lparr>dm_last_seen_id := int i\<rparr>"
    have "demangle_group_ids_loop names p ret s = demangle_group_ids_loop names (Some (int i)) (ret @ [?nm]) ?s"
      by (rule group_id_step [where rest = "ids_text ids @ rest"])
        (use s Cons.prems group_name_covered [of names i ids] ids_text_no_hex in
          \<open>auto simp: ids_text_def split: option.splits\<close>)
    also have "\<dots> = (Inr ((ret @ [?nm]) @ group_names_of names ids),
        (advance (length (ids_text ids)) ?s)\<lparr>dm_last_seen_id := last_id (int i) ids\<rparr>)"
      by (rule reads_D [OF IH _ s(2)]) (simp_all add: s ids_text_def lit_def)
    also have "\<dots> = (Inr (ret @ group_names_of names (i # ids)),
        (advance (length (ids_text (i # ids))) s)\<lparr>dm_last_seen_id := last_id l (i # ids)\<rparr>)"
      by (simp add: group_names_of_def last_id_def ids_text_def lit_def)
    finally show "demangle_group_ids_loop names p ret s = (Inr (ret @ group_names_of names (i # ids)),
        (advance (length (ids_text (i # ids))) s)\<lparr>dm_last_seen_id := last_id l (i # ids)\<rparr>)" .
  qed
qed

lemma reads_group_ids:
  assumes "sorted_wrt (<) ids" and "ids_accepted l ids" and "names_cover names ids"
  shows "reads ids_end l (ids_text ids) (demangle_group_ids names) (group_names_of names ids) (last_id l ids)"
  using reads_group_ids_loop [OF assms, of None "[]"] by (simp add: demangle_group_ids_def)


section \<open>Dtypes, extras and the whole array\<close>

lemma dtype_names:
  "\<forall>p \<in> set mangled_dtypes. list_all is_name_char (lit (snd p)) \<and> lit (snd p) \<noteq> [] \<and> \<not> is_digit (hd (lit (snd p)))"
  "distinct (List.map (\<lambda>p. lit (snd p)) mangled_dtypes)"
  by code_simp+

lemma mangle_dtype_entry:
  assumes "mangle_dtype d = Inr n"
  obtains n0 where "(d, n0) \<in> set mangled_dtypes" "n = lit n0"
  using assms by (auto simp: mangle_dtype_def split: option.splits dest: map_of_SomeD)

lemma reads_dtype:
  assumes "mangle_dtype d = Inr n"
  shows "reads no_name l n demangle_dtype d l"
proof -
  from mangle_dtype_entry [OF assms] obtain n0 where n0: "(d, n0) \<in> set mangled_dtypes" "n = lit n0" .
  have "List.find (\<lambda>p. lit (snd p) = n) mangled_dtypes = Some (d, n0)"
    unfolding find_key [OF dtype_names(2)] using n0 by simp
  then have k: "(case List.find (\<lambda>(d, n'). lit n' = n) mangled_dtypes of None \<Rightarrow> raiseE ValueError | Some (d, n) \<Rightarrow> retE d) = retE d"
  proof -
    have "(\<lambda>(d, n'). lit n' = n) = (\<lambda>p :: dtype \<times> string. lit (snd p) = n)" by auto
    then show ?thesis using \<open>List.find _ _ = _\<close> by simp
  qed
  have "list_all is_name_char n" "n \<noteq> []" using bspec [OF dtype_names(1) n0(1)] n0(2) by simp_all
  then have "reads no_name l n (cur_expect (re_plus is_name_char)) n l"
    by (intro reads_weaken [OF reads_expect [OF matches_plus]]) (simp_all add: no_name_def)
  then show ?thesis unfolding demangle_dtype_def by (rule reads_bind_ret) (rule k)
qed

interpretation dtype_name: text_format "\<lambda>d. \<exists>n. mangle_dtype d = Inr n" no_name
    "\<lambda>d. projr (mangle_dtype d)" demangle_dtype
  by unfold_locales (auto intro: reads_dtype)

lemma dtype_begins: "mangle_dtype d = Inr n \<Longrightarrow> no_digit (n @ rest)"
proof -
  assume "mangle_dtype d = Inr n"
  from mangle_dtype_entry [OF this] obtain n0 where n0: "(d, n0) \<in> set mangled_dtypes" "n = lit n0" .
  have "n \<noteq> [] \<and> \<not> is_digit (hd n)" using bspec [OF dtype_names(1) n0(1)] n0(2) by simp
  then show ?thesis by (cases n) (simp_all add: no_digit_def)
qed

lemma reads_opt_flag:
  "reads (\<lambda>rest. \<not> begins (\<lambda>x. x = ch c) rest) l (if b then [ch c] else []) (opt_read c d (retE y)) (if b then y else d) l"
  using reads_opt_Some [OF reads_ret, of "\<lambda>rest. \<not> begins (\<lambda>x. x = ch c) rest" l c d y]
    reads_opt_None [of "\<lambda>rest. \<not> begins (\<lambda>x. x = ch c) rest" c l d]
  by simp

definition index_text :: "dtype \<Rightarrow> pystr" where
  "index_text d = (if d = DT_uint32 then lit ''u'' else if d = DT_int64 then lit ''w'' else [])"

definition extras_text :: "array_constraint \<Rightarrow> nat list \<Rightarrow> pystr" where
  "extras_text a ids = opt_pred (CHR ''p'') (div_opt (arr_base_addr_divisible_by a)) @ ids_text ids @
     (if arr_may_alias_internally a then lit ''i'' else []) @ index_text (arr_index_dtype a)"

lemma boundary_begins: "boundary rest \<Longrightarrow> (\<And>c. P c \<Longrightarrow> \<not> is_upper c \<and> c \<noteq> ch (CHR ''_'')) \<Longrightarrow> \<not> begins P rest"
  by (cases rest) (auto simp: boundary_def)

lemma begins_ids: "begins P (ids_text ids @ rest) \<longleftrightarrow> (if ids = [] then begins P rest else P (ch (CHR ''g'')))"
  by (cases ids) (simp_all add: ids_text_def lit_def)

lemma begins_if: "begins P ((if b then x else y) @ rest) \<longleftrightarrow> (if b then begins P (x @ rest) else begins P (y @ rest))"
  by simp

lemma reads_peek:
  assumes "\<And>rest. F rest \<Longrightarrow> r (x @ rest) = v" and "reads F l x (k v) b l'"
  shows "reads F l x (bindE (cur_peek r) k) b l'"
  using assms by (auto simp: reads_def cur_peek_def bindE_get)

lemma boundary_simps [simp]:
  "boundary rest \<Longrightarrow> \<not> begins is_digit rest" "boundary rest \<Longrightarrow> \<not> begins is_hex rest"
  "boundary rest \<Longrightarrow> \<not> begins is_name_char rest"
  by (erule boundary_begins; auto simp: char_class_defs)+

lemma boundary_lower [simp]: "boundary rest \<Longrightarrow> is_lower c \<Longrightarrow> \<not> begins (\<lambda>x. x = c) rest"
  by (erule boundary_begins) (auto simp: char_class_defs)

lemma reads_index_dtype:
  assumes "d \<in> {DT_int32, DT_uint32, DT_int64}"
  shows "reads boundary l (index_text d)
    (bindE (opt_read (CHR ''u'') None (retE (Some DT_uint32))) (\<lambda>u.
      case u of Some d \<Rightarrow> retE d | None \<Rightarrow> opt_read (CHR ''w'') DT_int32 (retE DT_int64))) d l"
proof (cases "d = DT_uint32")
  case True
  then show ?thesis
    using reads_bind_ret [OF reads_opt_Some [OF reads_ret], of "\<lambda>u. case u of Some d \<Rightarrow> retE d | None \<Rightarrow> opt_read (CHR ''w'') DT_int32 (retE DT_int64)"
      "Some DT_uint32" DT_uint32 boundary l "CHR ''u''" None]
    by (simp add: index_text_def lit_def)
next
  case False
  have w: "reads boundary l (if d = DT_int64 then [ch (CHR ''w'')] else [])
    (opt_read (CHR ''w'') DT_int32 (retE DT_int64)) (if d = DT_int64 then DT_int64 else DT_int32) l"
    by (rule reads_weaken [OF reads_opt_flag]) (simp add: is_lower_def)
  have "reads boundary l ([] @ (if d = DT_int64 then [ch (CHR ''w'')] else []))
    (bindE (opt_read (CHR ''u'') None (retE (Some DT_uint32))) (\<lambda>u.
      case u of Some d \<Rightarrow> retE d | None \<Rightarrow> opt_read (CHR ''w'') DT_int32 (retE DT_int64)))
    (if d = DT_int64 then DT_int64 else DT_int32) l"
    by (rule reads_bind [OF reads_opt_None [of "\<lambda>rest. \<not> begins (\<lambda>x. x = ch (CHR ''u'')) rest"]])
      (use w in \<open>auto simp: is_lower_def\<close>)
  then show ?thesis using False assms by (auto simp: index_text_def lit_def)
qed

lemma reads_extras_body:
  assumes "array_ok a" and "sorted_wrt (<) ids" and "ids_accepted l ids" and "names_cover names ids"
  shows "reads boundary l (extras_text a ids)
    (bindE (opt_read (CHR ''p'') 1 demangle_divisibility) (\<lambda>base.
     bindE (demangle_group_ids names) (\<lambda>groups.
     bindE (opt_read (CHR ''i'') False (retE True)) (\<lambda>alias.
     bindE (bindE (opt_read (CHR ''u'') None (retE (Some DT_uint32))) (\<lambda>u.
       case u of Some d \<Rightarrow> retE d | None \<Rightarrow> opt_read (CHR ''w'') DT_int32 (retE DT_int64))) (\<lambda>idx.
       retE \<lparr>ex_base_addr_div_by = base, ex_alias_groups = groups, ex_may_alias_internally = alias,
             ex_index_dtype = idx\<rparr>)))))
    \<lparr>ex_base_addr_div_by = arr_base_addr_divisible_by a, ex_alias_groups = group_names_of names ids,
     ex_may_alias_internally = arr_may_alias_internally a, ex_index_dtype = arr_index_dtype a\<rparr> (last_id l ids)"
proof -
  have p: "1 < x" if "div_opt (arr_base_addr_divisible_by a) = Some x" for x
    using that assms(1) by (auto simp: div_opt_def array_ok_def split: if_splits)
  have idx: "arr_index_dtype a \<in> {DT_int32, DT_uint32, DT_int64}" using assms(1) by (simp add: array_ok_def)
  have flag: "reads (\<lambda>rest. \<not> begins (\<lambda>x. x = ch (CHR ''i'')) rest) l' (if arr_may_alias_internally a then lit ''i'' else [])
      (opt_read (CHR ''i'') False (retE True)) (arr_may_alias_internally a) l'" for l'
    using reads_opt_flag [of "CHR ''i''" l' "arr_may_alias_internally a" False True]
    by (cases "arr_may_alias_internally a") (simp_all add: lit_def)
  show ?thesis
    unfolding extras_text_def
    by (rule reads_bind [OF reads_opt_div [OF p]], assumption, rule reads_bind [OF reads_group_ids [OF assms(2-4)]],
        rule reads_bind [OF flag], rule reads_bind_ret [OF reads_index_dtype [OF idx]])
      (simp_all add: ids_end_def no_hex_def after_letter_def no_digit_def begins_ids index_text_def lit_def
        char_class_defs div_value_opt [unfolded div_value_def])
qed

lemma extras_begin:
  assumes "extras_text a ids \<noteq> []"
  obtains c r where "extras_text a ids = c # r" and "extra_letter c" and "is_lower c"
  using assms that
  by (cases "div_opt (arr_base_addr_divisible_by a)"; cases ids; cases "arr_may_alias_internally a")
    (auto simp: extras_text_def opt_pred_def pred_text_def ids_text_def index_text_def lit_def extra_letter_def
      is_lower_def split: if_splits)

definition extras_suffix :: "array_constraint \<Rightarrow> nat list \<Rightarrow> pystr" where
  "extras_suffix a ids = (if extras_text a ids = [] then [] else lit ''_'' @ extras_text a ids)"

lemma extras_suffix_end: "boundary rest \<Longrightarrow> groups_end (extras_suffix a ids @ rest)"
  by (cases "extras_text a ids = []")
    (auto simp: extras_suffix_def groups_end_def lit_def elim!: extras_begin [of a ids])

lemma div_opt_None: "div_opt d = None \<longleftrightarrow> d = 1"
  by (simp add: div_opt_def)

lemma reads_extras:
  assumes "array_ok a" and "sorted_wrt (<) ids" and "ids_accepted l ids" and "names_cover names ids"
  shows "reads boundary l (extras_suffix a ids) (demangle_extras names)
    \<lparr>ex_base_addr_div_by = arr_base_addr_divisible_by a, ex_alias_groups = group_names_of names ids,
     ex_may_alias_internally = arr_may_alias_internally a, ex_index_dtype = arr_index_dtype a\<rparr> (last_id l ids)"
proof (cases "extras_text a ids = []")
  case True
  then have d: "arr_base_addr_divisible_by a = 1" "ids = []" "\<not> arr_may_alias_internally a" "arr_index_dtype a = DT_int32"
    using assms(1)
    by (auto simp: extras_text_def opt_pred_def pred_text_def ids_text_def index_text_def lit_def array_ok_def
        div_opt_None split: option.splits if_splits)
  have "re_seq (re_char (CHR ''_'')) (re_one is_lower) rest = None" if "boundary rest" for rest
    using that by (auto simp: boundary_def begins_def re_defs char_class_defs split: list.splits)
  then show ?thesis unfolding demangle_extras_def extras_suffix_def
    using d True by (intro reads_peek [where v = None]) (simp_all add: reads_ret group_names_of_def last_id_def)
next
  case False
  from extras_begin [OF this] obtain c r where c: "extras_text a ids = c # r" "is_lower c" by metis
  have peek: "re_seq (re_char (CHR ''_'')) (re_one is_lower) ((lit ''_'' @ extras_text a ids) @ rest) = Some 2" for rest
    using c by (simp add: re_defs lit_def)
  have "reads boundary l (lit ''_'' @ extras_text a ids) (demangle_extras names)
    \<lparr>ex_base_addr_div_by = arr_base_addr_divisible_by a, ex_alias_groups = group_names_of names ids,
     ex_may_alias_internally = arr_may_alias_internally a, ex_index_dtype = arr_index_dtype a\<rparr> (last_id l ids)"
    unfolding demangle_extras_def
    by (rule reads_peek [where v = "Some 2"], rule peek,
        simp only: option.distinct if_False lit_def list.map,
        rule reads_bind [OF reads_char], use reads_extras_body [OF assms] in \<open>simp only: bindE_assoc\<close>) simp
  then show ?thesis using False by (simp add: extras_suffix_def)
qed

lemma no_stride_conflict: "array_ok a \<Longrightarrow> \<not> stride_conflict (axes_of a)"
  unfolding stride_conflict_def axes_of_def array_ok_def Let_def
  by (auto simp: list_ex_iff list_all2_conv_all_nth set_zip)

text \<open>
  The text of an array is read back to the array with its alias groups named by the ids, whatever
  follows it, as long as that begins a new constraint or ends the name.
\<close>

lemma mangle_array_text:
  assumes "mangle_array_constraint a m = Inr t"
  obtains n gs where "mangle_dtype (arr_dtype a) = Inr n" "mapS (lookup_group m) (arr_alias_groups a) = Inr gs"
    "t = int_str (arr_ndim a) @ n @ mangle_axis_groups a @ extras_suffix a (sort gs)"
  using assms that unfolding mangle_array_constraint_def mangle_group_ids_def
  by (auto simp: bindS_Inr_iff Let_def extras_suffix_def extras_text_def opt_pred_def pred_text_def div_opt_def
      ids_text_def index_text_def lit_def split: if_splits)

lemma reads_array:
  assumes "array_ok a" and "mangle_dtype (arr_dtype a) = Inr n" and "sorted_wrt (<) ids"
    and "ids_accepted l ids" and "names_cover names ids"
  shows "reads boundary l (int_str (arr_ndim a) @ n @ mangle_axis_groups a @ extras_suffix a ids)
    (demangle_array_constraint names) (a\<lparr>arr_alias_groups := group_names_of names ids\<rparr>) (last_id l ids)"
proof -
  let ?a = "a\<lparr>arr_alias_groups := group_names_of names ids\<rparr>"
  have ok: "array_ok ?a" using assms(1) by (simp add: array_ok_def)
  have nd: "0 \<le> arr_ndim a" using assms(1) by (simp add: array_ok_def)
  note init = ArrayConstraint_init_own [OF ok, simplified]
  let ?init = "\<lambda>x. liftS (ArrayConstraint_init (arr_dtype a) (int (nat (arr_ndim a))) (ex_index_dtype x)
         (PerAxis (ax_stride_lower_bound_incl (axes_of a))) (ex_alias_groups x) (ex_may_alias_internally x)
         (PerAxis (ax_stride_constant (axes_of a))) (PerAxis (ax_shape_constant (axes_of a)))
         (PerAxis (ax_stride_divisible_by (axes_of a))) (PerAxis (ax_shape_divisible_by (axes_of a)))
         (ex_base_addr_div_by x)) :: array_constraint dmg"
  have x: "reads boundary l (extras_suffix a ids @ []) (bindE (demangle_extras names) ?init) ?a (last_id l ids)"
    by (rule reads_bind [OF reads_extras [OF assms(1,3-5)]]) (simp_all add: axes_of_def nd init reads_lift)
  have g: "reads boundary l (mangle_axis_groups a @ extras_suffix a ids)
      (bindE (demangle_axis_groups (nat (arr_ndim a)) (default_axes (nat (arr_ndim a)))) (\<lambda>A.
        if stride_conflict A then raiseE ValueError
        else bindE (demangle_extras names) (\<lambda>x.
          liftS (ArrayConstraint_init (arr_dtype a) (int (nat (arr_ndim a))) (ex_index_dtype x)
            (PerAxis (ax_stride_lower_bound_incl A)) (ex_alias_groups x) (ex_may_alias_internally x)
            (PerAxis (ax_stride_constant A)) (PerAxis (ax_shape_constant A))
            (PerAxis (ax_stride_divisible_by A)) (PerAxis (ax_shape_divisible_by A))
            (ex_base_addr_div_by x))))) ?a (last_id l ids)"
    by (rule reads_bind [OF reads_axis_groups [OF assms(1)]])
      (use x no_stride_conflict [OF assms(1)] in \<open>simp_all add: extras_suffix_end\<close>)
  have nn: "no_name (mangle_axis_groups a @ extras_suffix a ids @ rest)" if "boundary rest" for rest
    using mask_texts_no_name [OF extras_suffix_end [OF that]] by (simp add: mangle_axis_groups_eq)
  have ds: "parse_digits 10 (int_str (arr_ndim a)) = nat (arr_ndim a)" by (simp add: parse_nat_str)
  show ?thesis
    unfolding demangle_array_constraint_def Let_def
    by (rule reads_bind [OF reads_nat_str [where F = no_digit]], assumption, unfold ds,
        rule reads_bind [OF reads_dtype [OF assms(2)]], rule g)
      (simp_all add: dtype_begins [OF assms(2)] nn)
qed

end
