(* ===== verification/NameRoundtrip.thy ===== *)
theory NameRoundtrip
  imports ArrayRoundtrip
begin

text \<open>
  The round trip of constraints of every kind and of whole kernel names.

  \<^item> \<open>constraint_ids\<close>: the ids of the alias groups in the order in which they are printed;
  \<^item> \<open>relabel\<close>: the constraint with its groups named by id, what a reader can recover;
  \<^item> \<open>mangleable\<close>: what the two modules leave to their callers: arrays in the normal form of the
    constructor, code points, classes found again under their names, enum members that exist;
  \<^item> \<open>reads_constraint\<close>, \<open>demangle_mangled\<close>: reading what was printed.
\<close>

section \<open>What is printed\<close>

definition group_ids :: "alias_group_map \<Rightarrow> pystr list \<Rightarrow> nat list" where
  "group_ids m gs = List.map (\<lambda>g. the (map_of m g)) gs"

fun constraint_ids :: "alias_group_map \<Rightarrow> constraint \<Rightarrow> nat list" where
  "constraint_ids m (ArrayConstraint a) = group_ids m (arr_alias_groups a)"
| "constraint_ids m (ListConstraint a gs e) = group_ids m gs @ group_ids m (arr_alias_groups a)"
| "constraint_ids m (TupleConstraint items) = concat (List.map (constraint_ids m) items)"
| "constraint_ids m (DataclassConstraint cls items) = concat (List.map (constraint_ids m) items)"
| "constraint_ids m _ = []"

definition relabel_array :: "pystr list option \<Rightarrow> alias_group_map \<Rightarrow> array_constraint \<Rightarrow> array_constraint" where
  "relabel_array names m a = a\<lparr>arr_alias_groups := group_names_of names (group_ids m (arr_alias_groups a))\<rparr>"

fun relabel :: "pystr list option \<Rightarrow> alias_group_map \<Rightarrow> constraint \<Rightarrow> constraint" where
  "relabel names m (ArrayConstraint a) = ArrayConstraint (relabel_array names m a)"
| "relabel names m (ListConstraint a gs e) =
     ListConstraint (relabel_array names m a) (group_names_of names (group_ids m gs)) e"
| "relabel names m (TupleConstraint items) = TupleConstraint (List.map (relabel names m) items)"
| "relabel names m (DataclassConstraint cls items) = DataclassConstraint cls (List.map (relabel names m) items)"
| "relabel names m c = c"

fun depth :: "constraint \<Rightarrow> nat" where
  "depth (ListConstraint a gs e) = 2"
| "depth (TupleConstraint items) = Suc (foldr max (List.map depth items) 0)"
| "depth (DataclassConstraint cls items) = Suc (foldr max (List.map depth items) 0)"
| "depth _ = 1"

definition canonical_groups :: "alias_group_map \<Rightarrow> pystr list \<Rightarrow> bool" where
  "canonical_groups m gs \<longleftrightarrow> set gs \<subseteq> fst ` set m \<and> sorted_wrt (<) (group_ids m gs)"

definition code_points :: "pystr \<Rightarrow> bool" where
  "code_points s \<longleftrightarrow> (\<forall>c \<in> set s. int c \<le> 0x10ffff)"

definition found :: "provider \<Rightarrow> py_class \<Rightarrow> bool" where
  "found p cls \<longleftrightarrow> code_points (cls_module cls) \<and> code_points (cls_qualname cls) \<and>
     p (cls_module cls) (cls_qualname cls) = Inr cls"

fun mangleable_constant :: "bool \<Rightarrow> allowed_globals \<Rightarrow> constant_value \<Rightarrow> bool" where
  "mangleable_constant v3 ag (BoolConst b) = True"
| "mangleable_constant v3 ag (IntConst i) = True"
| "mangleable_constant v3 ag (FloatConst f) = True"
| "mangleable_constant v3 ag NoneConst = v3"
| "mangleable_constant v3 ag (StringConst s) = (v3 \<and> code_points s)"
| "mangleable_constant v3 ag (EnumConst cls member_name) =
     (v3 \<and> found (ag_enums ag) cls \<and> member_name \<in> set (cls_members cls) \<and> code_points member_name)"
| "mangleable_constant v3 ag (DTypeConst d) = (v3 \<and> d \<in> fst ` set mangled_dtypes)"
| "mangleable_constant v3 ag _ = False"

fun mangleable :: "bool \<Rightarrow> allowed_globals \<Rightarrow> alias_group_map \<Rightarrow> constraint \<Rightarrow> bool" where
  "mangleable v3 ag m (ArrayConstraint a) =
     (array_ok a \<and> arr_dtype a \<in> fst ` set mangled_dtypes \<and> canonical_groups m (arr_alias_groups a))"
| "mangleable v3 ag m (ListConstraint a gs e) =
     (array_ok a \<and> arr_dtype a \<in> fst ` set mangled_dtypes \<and> canonical_groups m (arr_alias_groups a) \<and>
      canonical_groups m gs)"
| "mangleable v3 ag m (TupleConstraint items) = (\<forall>c \<in> set items. mangleable v3 ag m c)"
| "mangleable v3 ag m (DataclassConstraint cls items) =
     (v3 \<and> found (ag_dataclasses ag) cls \<and> length items = cls_field_count cls \<and> items \<noteq> [] \<and>
      (\<forall>c \<in> set items. mangleable v3 ag m c))"
| "mangleable v3 ag m (ScalarConstraint d) = (d \<in> fst ` set mangled_dtypes)"
| "mangleable v3 ag m (PointerConstraint d) = (v3 \<and> d \<in> fst ` set mangled_dtypes)"
| "mangleable v3 ag m TensorMapConstraint = v3"
| "mangleable v3 ag m StreamConstraint = v3"
| "mangleable v3 ag m (ConstantConstraint c) = mangleable_constant v3 ag c"

text \<open>The text of a constraint, as a function of the constraint alone.\<close>

definition dtype_text :: "dtype \<Rightarrow> pystr" where
  "dtype_text d = (case map_of mangled_dtypes d of None \<Rightarrow> [] | Some n \<Rightarrow> lit n)"

definition array_text :: "alias_group_map \<Rightarrow> array_constraint \<Rightarrow> pystr" where
  "array_text m a = int_str (arr_ndim a) @ dtype_text (arr_dtype a) @ mangle_axis_groups a @
     extras_suffix a (group_ids m (arr_alias_groups a))"

fun constant_text :: "constant_value \<Rightarrow> pystr" where
  "constant_text (BoolConst b) = lit ''B'' @ int_str (pybool b)"
| "constant_text (IntConst i) = lit ''I'' @ mangle_signed_int i"
| "constant_text (FloatConst f) = lit ''F'' @ pad_left 16 (hex_str (unat f))"
| "constant_text NoneConst = lit ''Cn_''"
| "constant_text (StringConst s) = lit ''Cs_'' @ mangle_string s"
| "constant_text (EnumConst cls n) = lit ''Ce_'' @ mangle_global cls @ mangle_string n"
| "constant_text (DTypeConst d) = lit ''Cd_'' @ dtype_text d"
| "constant_text _ = []"

fun constraint_text :: "alias_group_map \<Rightarrow> constraint \<Rightarrow> pystr" where
  "constraint_text m (ArrayConstraint a) = lit ''A'' @ array_text m a"
| "constraint_text m (ListConstraint a gs e) =
     lit ''L'' @ ids_text (group_ids m gs) @ (if e then lit ''i'' else []) @ lit ''A'' @ array_text m a"
| "constraint_text m (TupleConstraint items) =
     lit ''T'' @ int_str (int (length items)) @ concat (List.map (constraint_text m) items)"
| "constraint_text m (DataclassConstraint cls items) =
     lit ''D'' @ mangle_global cls @ int_str (int (length items)) @ concat (List.map (constraint_text m) items)"
| "constraint_text m (ScalarConstraint d) = lit ''S'' @ dtype_text d"
| "constraint_text m (PointerConstraint d) = lit ''P'' @ dtype_text d"
| "constraint_text m TensorMapConstraint = lit ''M''"
| "constraint_text m StreamConstraint = lit ''R''"
| "constraint_text m (ConstantConstraint c) = constant_text c"

text \<open>The classes it mentions, in the order in which they are collected.\<close>

fun constraint_dataclasses :: "constraint \<Rightarrow> py_class list" where
  "constraint_dataclasses (TupleConstraint items) = concat (List.map constraint_dataclasses items)"
| "constraint_dataclasses (DataclassConstraint cls items) =
     cls # concat (List.map constraint_dataclasses items)"
| "constraint_dataclasses _ = []"

fun constraint_enums :: "constraint \<Rightarrow> py_class list" where
  "constraint_enums (TupleConstraint items) = concat (List.map constraint_enums items)"
| "constraint_enums (DataclassConstraint cls items) = concat (List.map constraint_enums items)"
| "constraint_enums (ConstantConstraint (EnumConst cls n)) = [cls]"
| "constraint_enums _ = []"

definition set_union :: "'a list \<Rightarrow> 'a list \<Rightarrow> 'a list" where
  "set_union xs ys = foldl (\<lambda>xs y. set_add y xs) xs ys"

lemma set_set_union [simp]: "set (set_union xs ys) = set xs \<union> set ys"
proof -
  have "set (foldl (\<lambda>xs y. set_add y xs) xs ys) = set xs \<union> set ys" for xs
    by (induction ys arbitrary: xs) (auto simp: set_add_def)
  then show ?thesis by (simp add: set_union_def)
qed

lemma set_union_append: "set_union (set_union xs ys) zs = set_union xs (ys @ zs)"
  by (simp add: set_union_def)

lemma set_union_simps [simp]: "set_union xs [] = xs" "set_union xs (y # ys) = set_union (set_add y xs) ys"
  by (simp_all add: set_union_def)

definition collected :: "constraint list \<Rightarrow> collected_globals \<Rightarrow> collected_globals" where
  "collected cs g = g\<lparr>cg_dataclasses := set_union (cg_dataclasses g) (concat (List.map constraint_dataclasses cs)),
                      cg_enums := set_union (cg_enums g) (concat (List.map constraint_enums cs))\<rparr>"

lemma sort_canonical: "sorted_wrt (<) ids \<Longrightarrow> sort ids = ids" for ids :: "nat list"
  by (simp add: sorted_sort_id strict_sorted_imp_sorted)

lemma lookup_groups: "set gs \<subseteq> fst ` set m \<Longrightarrow> mapS (lookup_group m) gs = Inr (group_ids m gs)"
proof (induction gs)
  case (Cons g gs)
  then have "map_of m g \<noteq> None" by (auto simp: map_of_eq_None_iff)
  with Cons show ?case by (auto simp: group_ids_def lookup_group_def)
qed (simp add: group_ids_def)

lemma mangle_dtype_text: "d \<in> fst ` set mangled_dtypes \<Longrightarrow> mangle_dtype d = Inr (dtype_text d)"
  by (auto simp: mangle_dtype_def dtype_text_def map_of_eq_None_iff split: option.split)

lemma mangle_ids_text: "canonical_groups m gs \<Longrightarrow> mangle_group_ids m gs = Inr (ids_text (group_ids m gs))"
  by (simp add: canonical_groups_def mangle_group_ids_def lookup_groups sort_canonical ids_text_def)

lemma mangle_array_eq:
  assumes "array_ok a" and "arr_dtype a \<in> fst ` set mangled_dtypes" and "canonical_groups m (arr_alias_groups a)"
  shows "mangle_array_constraint a m = Inr (array_text m a)"
  using assms
  by (auto simp: mangle_array_constraint_def mangle_dtype_text mangle_ids_text array_text_def array_ok_def Let_def
      extras_suffix_def extras_text_def opt_pred_def pred_text_def div_opt_def index_text_def lit_def)

lemma mangle_constant_eq:
  assumes "mangleable_constant v3 ag c"
  shows "mangle_constant v3 c g = (Inr (constant_text c), collected [ConstantConstraint c] g)"
  using assms
  by (cases c) (auto simp: mangle_constant_def eff_defs bindE_def mangle_dtype_text collected_def)

lemma collected_append: "collected ds (collected cs g) = collected (cs @ ds) g"
  by (simp add: collected_def set_union_append)

lemma mangle_eq:
  "mangleable v3 ag m c \<Longrightarrow> mangle_constraint v3 m c g = (Inr (constraint_text m c), collected [c] g)"
  "\<forall>c \<in> set cs. mangleable v3 ag m c \<Longrightarrow>
   mangle_constraints v3 m cs g = (Inr (List.map (constraint_text m) cs), collected cs g)"
proof (induction v3 m c and v3 m cs arbitrary: g and g rule: mangle_constraint_mangle_constraints.induct)
  case (1 v3 m a)
  then show ?case by (simp add: mangle_array_eq eff_defs bindE_def collected_def)
next
  case (2 v3 m a gs e)
  then show ?case by (simp add: mangle_array_eq mangle_ids_text eff_defs bindE_def collected_def)
next
  case (3 v3 m items)
  then show ?case by (simp add: eff_defs bindE_def collected_def)
next
  case (4 v3 m cls items)
  have items: "\<forall>c \<in> set items. mangleable v3 ag m c" using 4(2) unfolding mangleable.simps by blast
  have run: "mangle_constraints v3 m items g' = (Inr (List.map (constraint_text m) items), collected items g')" for g'
    by (rule 4(1) [OF items])
  show ?case by (simp add: run eff_defs bindE_def collected_def)
next
  case (9 v3 m c)
  then show ?case by (simp add: mangle_constant_eq)
next
  case (11 v3 m p ps)
  then show ?case by (simp add: eff_defs bindE_def collected_append)
qed (simp_all add: mangle_dtype_text eff_defs bindE_def collected_def)


section \<open>Reading a constraint\<close>

definition constraint_body :: "bool \<Rightarrow> pystr list option \<Rightarrow> allowed_globals \<Rightarrow> nat \<Rightarrow> pystr \<Rightarrow> constraint dmg" where
  "constraint_body v3 names allowed limit c =
     (if c = lit ''A'' then
       bindE (demangle_array_constraint names) (\<lambda>a. retE (ArrayConstraint a))
     else if c = lit ''L'' then
       bindE (demangle_group_ids names) (\<lambda>alias_groups.
       bindE (cur_read (re_char (CHR ''i''))) (\<lambda>i.
       bindE (demangle_constraint v3 names allowed limit) (\<lambda>element.
       case element of
         ArrayConstraint a \<Rightarrow> liftS (ListConstraint_init element alias_groups (i \<noteq> None))
       | _ \<Rightarrow> raiseE ValueError)))
     else if c = lit ''T'' then
       bindE (cur_expect (re_plus is_digit)) (\<lambda>count.
       bindE (repeatE (parse_digits 10 count) (demangle_constraint v3 names allowed limit)) (\<lambda>items.
         liftS (TupleConstraint_init items)))
     else if c = lit ''D'' \<and> v3 then
       bindE (demangle_global (ag_dataclasses allowed)) (\<lambda>cls.
       bindE (cur_expect re_count) (\<lambda>field_count.
       bindE (repeatE (parse_digits 10 field_count) (demangle_constraint v3 names allowed limit)) (\<lambda>items.
         liftS (DataclassConstraint_init v3 cls items))))
     else if c = lit ''S'' then bindE demangle_dtype (\<lambda>d. liftS (ScalarConstraint_init d))
     else if c = lit ''M'' \<and> v3 then liftS (TensorMapConstraint_init v3)
     else if c = lit ''P'' \<and> v3 then bindE demangle_dtype (\<lambda>d. liftS (PointerConstraint_init v3 d))
     else if c = lit ''R'' \<and> v3 then liftS (StreamConstraint_init v3)
     else if c = lit ''B'' then
       bindE (cur_expect (re_one (\<lambda>x. x = ch (CHR ''0'') \<or> x = ch (CHR ''1'')))) (\<lambda>d.
         liftS (ConstantConstraint_init v3 (BoolConst (parse_digits 10 d \<noteq> 0))))
     else if c = lit ''I'' then
       bindE demangle_signed_int (\<lambda>i. liftS (ConstantConstraint_init v3 (IntConst i)))
     else if c = lit ''F'' then
       bindE (cur_expect (re_times 16 is_hex)) (\<lambda>ds.
         liftS (ConstantConstraint_init v3 (FloatConst (word_of_nat (parse_digits 16 ds)))))
     else if c = lit ''Cn_'' \<and> v3 then liftS (ConstantConstraint_init v3 NoneConst)
     else if c = lit ''Cs_'' \<and> v3 then
       bindE demangle_string (\<lambda>s. liftS (ConstantConstraint_init v3 (StringConst s)))
     else if c = lit ''Ce_'' \<and> v3 then
       bindE (demangle_enum_constant allowed) (\<lambda>e. liftS (ConstantConstraint_init v3 e))
     else if c = lit ''Cd_'' \<and> v3 then
       bindE demangle_dtype (\<lambda>d. liftS (ConstantConstraint_init v3 (DTypeConst d)))
     else raiseE ValueError)"

lemma demangle_constraint_Suc:
  "demangle_constraint v3 names allowed (Suc limit) =
     bindE (cur_expect re_constraint) (constraint_body v3 names allowed limit)"
  unfolding constraint_body_def [abs_def] demangle_constraint.simps ..

lemma reads_code:
  assumes "\<And>rest. re_constraint (code @ rest) = Some (length code)"
    and "reads F l t (constraint_body v3 names ag k code) c l'"
  shows "reads F l (code @ t) (demangle_constraint v3 names ag (Suc k)) c l'"
  unfolding demangle_constraint_Suc
  by (rule reads_bind [OF reads_expect [where F = "\<lambda>_. True"]]) (simp_all add: matches_def assms)

lemma letter_code: "is_upper (ch c) \<Longrightarrow> c \<noteq> CHR ''C'' \<Longrightarrow> re_constraint (lit [c] @ rest) = Some (length (lit [c]))"
proof -
  assume c: "is_upper (ch c)" "c \<noteq> CHR ''C''"
  then have "ch c \<noteq> ch (CHR ''C'')" by (simp only: of_char_eq_iff not_False_eq_True)
  with c(1) show ?thesis by (simp add: re_constraint_def re_alt_def re_one_def lit_def)
qed

lemma constant_code:
  "is_name_char (ch c) \<Longrightarrow> re_constraint (lit [CHR ''C'', c, CHR ''_''] @ rest) = Some (length (lit [CHR ''C'', c, CHR ''_'']))"
  by (simp add: re_constraint_def re_defs lit_def char_class_defs)

lemma constant_text_upper: "mangleable_constant v3 ag c \<Longrightarrow> begins is_upper (constant_text c @ rest)"
  by (cases c) (simp_all add: lit_def is_upper_def)

lemma constraint_text_upper: "mangleable v3 ag m c \<Longrightarrow> begins is_upper (constraint_text m c @ rest)"
  by (cases c) (simp_all add: lit_def is_upper_def constant_text_upper)

lemma upper_boundary: "begins is_upper rest \<Longrightarrow> boundary rest"
  by (cases rest) (simp_all add: boundary_def)

lemma texts_boundary:
  assumes "\<forall>c \<in> set cs. mangleable v3 ag m c" and "boundary rest"
  shows "boundary (concat (List.map (constraint_text m) cs) @ rest)"
  using assms
proof (cases cs)
  case (Cons c cs')
  then show ?thesis
    using constraint_text_upper [of v3 ag m c "concat (List.map (constraint_text m) cs') @ rest"] assms(1)
    by (auto intro: upper_boundary)
qed simp

lemma names_cover_append: "names_cover names (xs @ ys) \<longleftrightarrow> names_cover names xs \<and> names_cover names ys"
  by (cases names) (auto simp: names_cover_def)

lemma last_id_append: "last_id l (xs @ ys) = last_id (last_id l xs) ys"
  by (simp add: last_id_def)

lemma reads_items:
  assumes "\<And>c l. c \<in> set cs \<Longrightarrow> ids_accepted l (constraint_ids m c) \<Longrightarrow> names_cover names (constraint_ids m c) \<Longrightarrow>
      reads boundary l (constraint_text m c) f (relabel names m c) (last_id l (constraint_ids m c))"
    and "\<forall>c \<in> set cs. mangleable v3 ag m c"
    and "ids_accepted l (concat (List.map (constraint_ids m) cs))"
    and "names_cover names (concat (List.map (constraint_ids m) cs))"
  shows "reads boundary l (concat (List.map (constraint_text m) cs)) (repeatE (length cs) f)
    (List.map (relabel names m) cs) (last_id l (concat (List.map (constraint_ids m) cs)))"
  using assms
proof (induction cs arbitrary: l)
  case Nil
  show ?case by (simp add: reads_ret last_id_def)
next
  case (Cons c cs)
  have hd: "reads boundary l (constraint_text m c) f (relabel names m c) (last_id l (constraint_ids m c))"
    using Cons.prems by (intro Cons.prems(1)) (simp_all add: ids_accepted_append names_cover_append)
  have tl: "reads boundary (last_id l (constraint_ids m c)) (concat (List.map (constraint_text m) cs))
      (repeatE (length cs) f) (List.map (relabel names m) cs) (last_id (last_id l (constraint_ids m c)) (concat (List.map (constraint_ids m) cs)))"
    by (rule Cons.IH) (use Cons.prems in \<open>simp_all add: ids_accepted_append names_cover_append\<close>)
  show ?case unfolding list.map concat.simps list.size repeatE.simps add_0_right add_Suc_right last_id_append
    by (rule reads_bind [OF hd], rule reads_bind_ret [OF tl]) (use Cons.prems(2) texts_boundary [of cs v3 ag m] in simp_all)
qed

lemma reads_then_lift:
  "reads F l t m a l' \<Longrightarrow> k a = Inr b \<Longrightarrow> reads F l t (bindE m (\<lambda>x. liftS (k x))) b l'"
  by (rule reads_bind_ret) (auto simp: liftS_def retE_def)

lemma reads_global:
  assumes "found p cls"
  shows "reads F l (mangle_global cls) (demangle_global p) cls l"
  unfolding mangle_global_def demangle_global_def
  by (rule reads_bind [OF reads_string [where F = "\<lambda>_. True"]], use assms in \<open>simp add: found_def code_points_def\<close>,
      rule reads_then_lift [OF reads_string])
    (use assms in \<open>simp_all add: found_def code_points_def\<close>)

lemma reads_count:
  assumes "0 < n"
  shows "reads no_digit l (int_str (int n)) (cur_expect re_count) (int_str (int n)) l"
proof (rule reads_expect, unfold matches_def, intro allI impI)
  fix rest assume rest: "no_digit rest"
  obtain d ds where ds: "int_str (int n) = d # ds" by (cases "int_str (int n)") auto
  have "list_all is_digit (d # ds)" using nat_str_digits [of 10 "nat (int n)"] by (simp only: ds)
  moreover have "d \<noteq> ch (CHR ''0'')" using nat_str_leading [of 10 "nat (int n)"] assms by (simp add: ds [simplified])
  ultimately show "re_count (int_str (int n) @ rest) = Some (length (int_str (int n)))"
    using rest unfolding ds re_count_def
    by (simp add: re_seq_def re_one_def re_star_def takeWhile_stops no_digit_def)
qed


lemma mangled_dtypes_numeric:
  "d \<in> fst ` set mangled_dtypes \<Longrightarrow> \<not> is_pointer_dtype d \<and> is_numeric d"
  by (auto simp: mangled_dtypes_def dtype_class_defs)

lemma reads_constant:
  assumes "mangleable_constant v3 ag c"
  shows "reads boundary l (constant_text c) (demangle_constraint v3 names ag (Suc k)) (ConstantConstraint c) l"
proof (cases c)
  case (BoolConst b)
  have "int_str (pybool b) = [ch (if b then CHR ''1'' else CHR ''0'')]"
    by (simp add: pybool_def nat_str.simps digit_char_def)
  then show ?thesis unfolding BoolConst constant_text.simps
    by (intro reads_code letter_code) 
     (auto simp: is_upper_def constraint_body_def lit_def ConstantConstraint_init_def parse_digits_def digit_value_def
       is_digit_def intro!: reads_then_lift reads_one)
next
  case (IntConst i)
  show ?thesis unfolding IntConst constant_text.simps
    by (intro reads_code letter_code)
     (auto simp: is_upper_def constraint_body_def lit_def ConstantConstraint_init_def no_digit_def
       intro!: reads_then_lift reads_weaken [OF reads_signed_int])
next
  case (FloatConst f)
  have "reads boundary l (pad_left 16 (hex_str (unat f))) (cur_expect (re_times 16 is_hex)) (pad_left 16 (hex_str (unat f))) l"
    using unsigned_less [of f, where 'a = nat] by (intro reads_hex_padded) simp_all
  then show ?thesis unfolding FloatConst constant_text.simps
    by (intro reads_code letter_code)
     (auto simp: is_upper_def constraint_body_def lit_def ConstantConstraint_init_def parse_nat_str
       intro!: reads_then_lift)
next
  case NoneConst
  then show ?thesis using assms reads_code [OF constant_code [of "CHR ''n''"], of boundary l "[]"]
    by (auto simp: constraint_body_def lit_def ConstantConstraint_init_def is_name_char_def is_lower_def reads_lift)
next
  case (StringConst s)
  then show ?thesis using assms unfolding StringConst constant_text.simps
    by (intro reads_code constant_code)
     (auto simp: is_name_char_def is_lower_def constraint_body_def lit_def ConstantConstraint_init_def code_points_def
       intro!: reads_then_lift reads_string)
next
  case (EnumConst cls n)
  have "reads boundary l (mangle_global cls @ mangle_string n) (demangle_enum_constant ag) (EnumConst cls n) l"
    unfolding demangle_enum_constant_def
    by (rule reads_bind [OF reads_global [where F = "\<lambda>_. True"]], use assms EnumConst in simp,
      rule reads_bind_ret [OF reads_string]) (use assms EnumConst in \<open>simp_all add: code_points_def\<close>)
  then show ?thesis using assms unfolding EnumConst constant_text.simps
    by (intro reads_code constant_code)
     (auto simp: is_name_char_def is_lower_def constraint_body_def lit_def ConstantConstraint_init_def
       intro!: reads_then_lift)
next
  case (DTypeConst d)
  have "reads boundary l (dtype_text d) demangle_dtype d l"
    using assms DTypeConst by (intro reads_weaken [OF reads_dtype [OF mangle_dtype_text]]) (auto simp: no_name_def)
  then show ?thesis using assms unfolding DTypeConst constant_text.simps
    by (intro reads_code constant_code)
     (auto simp: is_name_char_def is_lower_def constraint_body_def lit_def ConstantConstraint_init_def
       intro!: reads_then_lift)
qed (use assms in simp_all)


lemma reads_flag:
  "reads (\<lambda>rest. \<not> begins (\<lambda>x. x = ch c) rest) l (if b then lit [c] else []) (cur_read (re_char c))
    (if b then Some [ch c] else None) l"
  by (cases b) (auto simp: lit_def intro: reads_read reads_read_None refuses_char)

lemma canonical_ids: "canonical_groups m gs \<Longrightarrow> sorted_wrt (<) (group_ids m gs)"
  by (simp add: canonical_groups_def)

lemma reads_array_text:
  assumes "array_ok a" and "arr_dtype a \<in> fst ` set mangled_dtypes" and "canonical_groups m (arr_alias_groups a)"
    and "ids_accepted l (group_ids m (arr_alias_groups a))" and "names_cover names (group_ids m (arr_alias_groups a))"
  shows "reads boundary l (array_text m a) (demangle_array_constraint names) (relabel_array names m a)
    (last_id l (group_ids m (arr_alias_groups a)))"
  unfolding array_text_def relabel_array_def
  by (rule reads_array [OF assms(1) mangle_dtype_text [OF assms(2)] canonical_ids [OF assms(3)] assms(4,5)])

lemma reads_array_constraint:
  assumes "mangleable v3 ag m (ArrayConstraint a)" and "ids_accepted l (constraint_ids m (ArrayConstraint a))"
    and "names_cover names (constraint_ids m (ArrayConstraint a))"
  shows "reads boundary l (constraint_text m (ArrayConstraint a)) (demangle_constraint v3 names ag (Suc k))
    (relabel names m (ArrayConstraint a)) (last_id l (constraint_ids m (ArrayConstraint a)))"
proof -
  have "reads boundary l (array_text m a) (constraint_body v3 names ag k (lit ''A'')) (ArrayConstraint (relabel_array names m a))
      (last_id l (group_ids m (arr_alias_groups a)))"
    unfolding constraint_body_def if_P [OF refl]
    by (rule reads_bind_ret [OF reads_array_text]) (use assms in simp_all)
  then show ?thesis unfolding constraint_text.simps relabel.simps constraint_ids.simps
    by (intro reads_code letter_code) (simp_all add: is_upper_def)
qed

lemma foldr_max_le: "foldr max xs 0 \<le> k \<longleftrightarrow> (\<forall>x \<in> set xs. x \<le> k)" for k :: nat
  by (induction xs) auto

theorem reads_constraint:
  assumes "mangleable v3 ag m c" and "depth c \<le> limit" and "ids_accepted l (constraint_ids m c)"
    and "names_cover names (constraint_ids m c)"
  shows "reads boundary l (constraint_text m c) (demangle_constraint v3 names ag limit) (relabel names m c)
    (last_id l (constraint_ids m c))"
  using assms
proof (induction c arbitrary: l limit rule: constraint.induct)
  case (ScalarConstraint d)
  then obtain k where k: "limit = Suc k" by (cases limit) auto
  have "reads boundary l (dtype_text d) demangle_dtype d l"
    using ScalarConstraint by (intro reads_weaken [OF reads_dtype [OF mangle_dtype_text]]) (auto simp: no_name_def)
  then show ?case unfolding k constraint_text.simps relabel.simps constraint_ids.simps
    by (intro reads_code letter_code)
      (use ScalarConstraint mangled_dtypes_numeric [of d] in
        \<open>auto simp: is_upper_def constraint_body_def lit_def last_id_def ScalarConstraint_init_def intro!: reads_then_lift\<close>)
next
  case (PointerConstraint d)
  then obtain k where k: "limit = Suc k" by (cases limit) auto
  have "reads boundary l (dtype_text d) demangle_dtype d l"
    using PointerConstraint by (intro reads_weaken [OF reads_dtype [OF mangle_dtype_text]]) (auto simp: no_name_def)
  then show ?case unfolding k constraint_text.simps relabel.simps constraint_ids.simps
    by (intro reads_code letter_code)
      (use PointerConstraint mangled_dtypes_numeric [of d] in
        \<open>auto simp: is_upper_def constraint_body_def lit_def last_id_def PointerConstraint_init_def intro!: reads_then_lift\<close>)
next
  case TensorMapConstraint
  then obtain k where k: "limit = Suc k" by (cases limit) auto
  show ?case using TensorMapConstraint reads_code [OF letter_code [of "CHR ''M''"], of boundary l "[]"]
    by (simp add: k is_upper_def constraint_body_def lit_def last_id_def TensorMapConstraint_init_def reads_lift)
next
  case StreamConstraint
  then obtain k where k: "limit = Suc k" by (cases limit) auto
  show ?case using StreamConstraint reads_code [OF letter_code [of "CHR ''R''"], of boundary l "[]"]
    by (simp add: k is_upper_def constraint_body_def lit_def last_id_def StreamConstraint_init_def reads_lift)
next
  case (ArrayConstraint a)
  then obtain k where k: "limit = Suc k" by (cases limit) auto
  show ?case unfolding k using ArrayConstraint by (intro reads_array_constraint)
next
  case (ListConstraint a gs e)
  then obtain k where k: "limit = Suc (Suc k)" by (cases limit rule: nat.exhaust; cases "limit - 1") auto
  let ?l = "last_id l (group_ids m gs)"
  have el: "reads boundary ?l (constraint_text m (ArrayConstraint a)) (demangle_constraint v3 names ag (Suc k))
      (relabel names m (ArrayConstraint a)) (last_id ?l (constraint_ids m (ArrayConstraint a)))"
    using ListConstraint by (intro reads_array_constraint) (simp_all add: ids_accepted_append names_cover_append)
  have body: "constraint_body v3 names ag (Suc k) (lit ''L'') =
      bindE (demangle_group_ids names) (\<lambda>alias_groups.
      bindE (cur_read (re_char (CHR ''i''))) (\<lambda>i.
      bindE (demangle_constraint v3 names ag (Suc k)) (\<lambda>element.
      case element of ArrayConstraint a \<Rightarrow> liftS (ListConstraint_init element alias_groups (i \<noteq> None))
      | _ \<Rightarrow> raiseE ValueError)))"
    by (simp add: constraint_body_def lit_def del: demangle_constraint.simps)
  have eq: "last_id ?l (constraint_ids m (ArrayConstraint a)) = last_id l (constraint_ids m (ListConstraint a gs e))"
    by (simp add: last_id_append)
  have gs: "reads ids_end l (ids_text (group_ids m gs)) (demangle_group_ids names)
      (group_names_of names (group_ids m gs)) ?l"
    using ListConstraint
    by (intro reads_group_ids) (simp_all add: canonical_ids ids_accepted_append names_cover_append)
  have "reads boundary l (ids_text (group_ids m gs) @ (if e then lit ''i'' else []) @ constraint_text m (ArrayConstraint a))
      (constraint_body v3 names ag (Suc k) (lit ''L'')) (relabel names m (ListConstraint a gs e))
      (last_id l (constraint_ids m (ListConstraint a gs e)))"
    unfolding body
    by (rule reads_bind [OF gs], rule reads_bind [OF reads_flag], rule reads_bind_ret [OF el [unfolded eq]])
      (simp_all add: ListConstraint_init_def liftS_def retE_def last_id_append ids_end_def no_hex_def lit_def char_class_defs)
  then show ?case unfolding k constraint_text.simps(1,2)
    by (intro reads_code letter_code) (simp_all add: is_upper_def)
next
  case (TupleConstraint items)
  then obtain k where k: "limit = Suc k" by (cases limit) auto
  have body: "constraint_body v3 names ag k (lit ''T'') =
      bindE (cur_expect (re_plus is_digit)) (\<lambda>count.
      bindE (repeatE (parse_digits 10 count) (demangle_constraint v3 names ag k)) (\<lambda>items.
        liftS (TupleConstraint_init items)))"
    by (simp add: constraint_body_def lit_def del: demangle_constraint.simps)
  have n: "parse_digits 10 (int_str (int (length items))) = length items" by (simp add: parse_nat_str)
  have items: "reads boundary l (concat (List.map (constraint_text m) items))
      (repeatE (length items) (demangle_constraint v3 names ag k)) (List.map (relabel names m) items)
      (last_id l (concat (List.map (constraint_ids m) items)))"
    using TupleConstraint by (intro reads_items [of _ _ _ _ v3 ag]) (simp_all add: k foldr_max_le)
  have "reads boundary l (int_str (int (length items)) @ concat (List.map (constraint_text m) items))
      (constraint_body v3 names ag k (lit ''T'')) (relabel names m (TupleConstraint items))
      (last_id l (constraint_ids m (TupleConstraint items)))"
    unfolding body
    by (rule reads_bind [OF reads_nat_str [where F = no_digit]], assumption, unfold n relabel.simps constraint_ids.simps,
        rule reads_then_lift [OF items])
      (use TupleConstraint.prems texts_boundary [of items v3 ag m] in \<open>simp_all add: TupleConstraint_init_def no_digit_def\<close>)
  then show ?case unfolding k constraint_text.simps
    by (intro reads_code letter_code) (simp_all add: is_upper_def)
next
  case (DataclassConstraint cls items)
  then obtain k where k: "limit = Suc k" by (cases limit) auto
  note ok = DataclassConstraint.prems(1) [unfolded mangleable.simps]
  have body: "constraint_body True names ag k (lit ''D'') =
      bindE (demangle_global (ag_dataclasses ag)) (\<lambda>cls.
      bindE (cur_expect re_count) (\<lambda>field_count.
      bindE (repeatE (parse_digits 10 field_count) (demangle_constraint True names ag k)) (\<lambda>items.
        liftS (DataclassConstraint_init True cls items))))"
    by (simp add: constraint_body_def lit_def del: demangle_constraint.simps)
  have n: "parse_digits 10 (int_str (int (length items))) = length items" by (simp add: parse_nat_str)
  have "\<forall>c \<in> set items. mangleable v3 ag m c" using ok by blast
  note tb = texts_boundary [OF this]
  have v3: "v3 = True" and nz: "0 < length items" using ok unfolding length_greater_0_conv by blast+
  have items: "reads boundary l (concat (List.map (constraint_text m) items))
      (repeatE (length items) (demangle_constraint True names ag k)) (List.map (relabel names m) items)
      (last_id l (concat (List.map (constraint_ids m) items)))"
    using DataclassConstraint unfolding v3
    by (intro reads_items [of _ _ _ _ True ag]) (simp_all add: k foldr_max_le)
  have fs: "reads boundary l (int_str (int (length items)) @ concat (List.map (constraint_text m) items))
      (bindE (cur_expect re_count) (\<lambda>field_count.
        bindE (repeatE (parse_digits 10 field_count) (demangle_constraint True names ag k)) (\<lambda>items.
        liftS (DataclassConstraint_init True cls items)))) (relabel names m (DataclassConstraint cls items))
      (last_id l (constraint_ids m (DataclassConstraint cls items)))"
    by (rule reads_bind [OF reads_count [OF nz]], unfold n relabel.simps constraint_ids.simps,
        rule reads_then_lift [OF items])
      (use ok tb in \<open>simp_all add: DataclassConstraint_init_def no_digit_def\<close>)
  have "reads boundary l (mangle_global cls @ int_str (int (length items)) @ concat (List.map (constraint_text m) items))
      (constraint_body v3 names ag k (lit ''D'')) (relabel names m (DataclassConstraint cls items))
      (last_id l (constraint_ids m (DataclassConstraint cls items)))"
    unfolding v3 body
    by (rule reads_bind [OF reads_global [where F = "\<lambda>_. True"]], use ok in simp, rule fs) simp
  then show ?case unfolding k constraint_text.simps
    by (intro reads_code letter_code) (simp_all add: is_upper_def)
next
  case (ConstantConstraint c)
  then obtain k where k: "limit = Suc k" by (cases limit) auto
  show ?case using ConstantConstraint
    by (simp add: k last_id_def reads_constant del: demangle_constraint.simps)
qed


section \<open>No separator in the text of a constraint\<close>

definition no_K :: "pystr \<Rightarrow> bool" where
  "no_K t \<longleftrightarrow> ch (CHR ''K'') \<notin> set t"

lemma no_K_append [simp]: "no_K (x @ y) \<longleftrightarrow> no_K x \<and> no_K y"
  by (auto simp: no_K_def)

lemma no_K_simps [simp]: "no_K []" "no_K (c # x) \<longleftrightarrow> c \<noteq> ch (CHR ''K'') \<and> no_K x"
  by (auto simp: no_K_def)

lemma no_K_concat [simp]: "no_K (concat xs) \<longleftrightarrow> (\<forall>x \<in> set xs. no_K x)"
  by (induction xs) auto

lemma no_K_hex: "list_all is_hex t \<Longrightarrow> no_K t"
  by (induction t) (auto simp: char_class_defs)

lemma no_K_nat_str [simp]: "no_K (nat_str 10 n)" "no_K (hex_str n)" "no_K (pad_left w (hex_str n))"
  by (auto intro!: no_K_hex pad_left_hex nat_str_hex)

lemma no_K_signed_int [simp]: "no_K (mangle_signed_int i)"
  by (simp add: mangle_signed_int_def lit_def)

lemma plain_not_K: "is_plain c \<Longrightarrow> c \<noteq> ch (CHR ''K'')"
  by (auto simp: char_class_defs)

lemma no_K_string [simp]: "no_K (mangle_string s)"
proof -
  have "no_K (mangle_char c)" for c using plain_not_K [of c] by (simp add: mangle_char_def lit_def)
  then show ?thesis by (auto simp: mangle_string_def lit_def)
qed

lemma no_K_dtype_text [simp]: "no_K (dtype_text d)"
  by (cases d) (simp_all add: dtype_text_def mangled_dtypes_def lit_def)

lemma no_K_preds [simp]: "ch c \<noteq> ch (CHR ''K'') \<Longrightarrow> no_K (opt_pred c v)"
  by (cases v) (auto simp: opt_pred_def pred_text_def)

lemma no_K_ids [simp]: "no_K (ids_text ids)"
  by (auto simp: ids_text_def lit_def)

lemma no_K_array [simp]: "no_K (array_text m a)"
proof -
  have "no_K (mask_text a k)" for k by (auto simp: mask_text_def letter_values_def lit_def)
  then have "no_K (mangle_axis_groups a)" by (auto simp: mangle_axis_groups_eq)
  then show ?thesis
    by (simp add: array_text_def extras_suffix_def extras_text_def index_text_def lit_def)
qed

lemma no_K_constant [simp]: "no_K (constant_text c)"
  by (cases c) (simp_all add: lit_def mangle_global_def)

lemma no_K_constraint [simp]: "no_K (constraint_text m c)"
  by (induction c rule: constraint.induct) (auto simp: lit_def mangle_global_def)

section \<open>Whole names\<close>

lemma find_last:
  assumes "P k" and "k < n" and "\<And>i. k < i \<Longrightarrow> i < n \<Longrightarrow> \<not> P i"
  shows "List.find P (rev [0..<n]) = Some k"
  using assms(2,3)
proof (induction n)
  case (Suc n)
  then show ?case using assms(1) by (cases "k = n") auto
qed simp

lemma rfind_separator:
  assumes "no_K rest"
  shows "rfind (lit ''_K'') (f @ lit ''_K'' @ rest) = Some (length f)"
  unfolding rfind_def
proof (rule find_last)
  show "take (length (lit ''_K'')) (drop (length f) (f @ lit ''_K'' @ rest)) = lit ''_K''" by (simp add: lit_def)
  show "length f < Suc (length (f @ lit ''_K'' @ rest))" by simp
  fix i assume i: "length f < i" "i < Suc (length (f @ lit ''_K'' @ rest))"
  show "take (length (lit ''_K'')) (drop i (f @ lit ''_K'' @ rest)) \<noteq> lit ''_K''"
  proof
    assume h: "take (length (lit ''_K'')) (drop i (f @ lit ''_K'' @ rest)) = lit ''_K''"
    obtain j where j: "i = length f + Suc j" using i(1) less_iff_Suc_add by auto
    have L: "lit ''_K'' = [ch (CHR ''_''), ch (CHR ''K'')]" "length (lit ''_K'') = 2"
      by (simp_all add: lit_def)
    have "drop i (f @ lit ''_K'' @ rest) = drop j (ch (CHR ''K'') # rest)" by (simp add: j L(1))
    with h have t: "take 2 (drop j (ch (CHR ''K'') # rest)) = [ch (CHR ''_''), ch (CHR ''K'')]"
      unfolding L(2) by (simp only: L(1))
    then obtain k where k: "j = Suc k" by (cases j) auto
    with t have "ch (CHR ''K'') \<in> set (take 2 (drop k rest))" by simp
    then have "ch (CHR ''K'') \<in> set rest" by (meson in_set_dropD in_set_takeD)
    with assms show False by (simp add: no_K_def)
  qed
qed


lemma demangle_parameters_eq:
  "demangle_parameters v3 names ag limit ps s =
     (if dm_remaining s = [] then retE ps s
      else bindE (cur_expect (re_char (CHR ''_''))) (\<lambda>_.
        bindE (demangle_constraint v3 names ag limit) (\<lambda>c. demangle_parameters v3 names ag limit (ps @ [c]))) s)"
  by (subst demangle_parameters.simps) simp

definition params_text :: "alias_group_map \<Rightarrow> constraint list \<Rightarrow> pystr" where
  "params_text m ps = concat (List.map (\<lambda>p. lit ''_'' @ constraint_text m p) ps)"

lemma params_boundary:
  assumes "\<forall>p \<in> set ps. mangleable v3 ag m p"
  shows "boundary (params_text m ps)"
proof (cases ps)
  case (Cons p ps')
  then show ?thesis
    using assms constraint_text_upper [of v3 ag m p "params_text m ps'"]
    by (simp add: params_text_def boundary_def lit_def)
qed (simp add: params_text_def boundary_def)

definition params_ids :: "alias_group_map \<Rightarrow> constraint list \<Rightarrow> nat list" where
  "params_ids m ps = concat (List.map (constraint_ids m) ps)"

lemma reads_parameters:
  assumes "\<forall>p \<in> set ps. mangleable v3 ag m p \<and> depth p \<le> limit"
    and "ids_accepted l (params_ids m ps)" and "names_cover names (params_ids m ps)"
  shows "reads (\<lambda>rest. rest = []) l (params_text m ps) (demangle_parameters v3 names ag limit acc)
    (acc @ List.map (relabel names m) ps) (last_id l (params_ids m ps))"
  using assms
proof (induction ps arbitrary: l acc)
  case Nil
  show ?case
    by (rule reads_I) (simp add: params_text_def demangle_parameters_eq retE_def params_ids_def last_id_def)
next
  case (Cons p ps)
  let ?l = "last_id l (constraint_ids m p)"
  have p: "reads boundary l (constraint_text m p) (demangle_constraint v3 names ag limit) (relabel names m p) ?l"
    using Cons.prems
    by (intro reads_constraint) (simp_all add: params_ids_def ids_accepted_append names_cover_append)
  have "reads (\<lambda>rest. rest = []) ?l (params_text m ps)
      (demangle_parameters v3 names ag limit (acc @ [relabel names m p]))
      ((acc @ [relabel names m p]) @ List.map (relabel names m) ps) (last_id ?l (params_ids m ps))"
    by (rule Cons.IH) (use Cons.prems in \<open>simp_all add: params_ids_def ids_accepted_append names_cover_append\<close>)
  then have ps: "reads (\<lambda>rest. rest = []) ?l (params_text m ps)
      (demangle_parameters v3 names ag limit (acc @ [relabel names m p]))
      (acc @ List.map (relabel names m) (p # ps)) (last_id l (params_ids m (p # ps)))"
    by (simp add: params_ids_def last_id_append)
  have "\<forall>p \<in> set ps. mangleable v3 ag m p" using Cons.prems(1) by auto
  note end_p = params_boundary [OF this]
  have step: "reads (\<lambda>rest. rest = []) l ([ch (CHR ''_'')] @ constraint_text m p @ params_text m ps)
      (bindE (cur_expect (re_char (CHR ''_''))) (\<lambda>_.
        bindE (demangle_constraint v3 names ag limit) (\<lambda>c. demangle_parameters v3 names ag limit (acc @ [c]))))
      (acc @ List.map (relabel names m) (p # ps)) (last_id l (params_ids m (p # ps)))"
    by (rule reads_bind [OF reads_char [where F = "\<lambda>_. True"]], rule reads_bind [OF p], rule ps)
      (simp_all add: end_p)
  have tx: "params_text m (p # ps) = [ch (CHR ''_'')] @ constraint_text m p @ params_text m ps"
    by (simp add: params_text_def lit_def)
  show ?case unfolding tx
  proof (rule reads_I)
    fix s :: demangler and rest
    let ?x = "[ch (CHR ''_'')] @ constraint_text m p @ params_text m ps"
    assume s: "dm_remaining s = ?x @ rest" "rest = []" "dm_last_seen_id s = l"
    then have "dm_remaining s \<noteq> []" by simp
    with reads_D [OF step s] show "demangle_parameters v3 names ag limit acc s =
        (Inr (acc @ List.map (relabel names m) (p # ps)), (advance (length ?x) s)\<lparr>dm_last_seen_id := last_id l (params_ids m (p # ps))\<rparr>)"
      by (simp add: demangle_parameters_eq [of v3 names ag limit acc s])
  qed
qed

lemma nat_str_digit: "n < b \<Longrightarrow> nat_str b n = [digit_char n]"
  by (subst nat_str.simps) simp

lemma cconv_codes:
  "cconv_code CConvV1 = lit ''t1''" "cconv_code CConvV2 = lit ''t2''" "cconv_code CConvV3 = lit ''t3''"
  by (simp_all add: cconv_code_def lit_def nat_str_digit digit_char_def)

lemma reads_cconv:
  assumes "cc = CConvV3 \<Longrightarrow> v3"
  shows "reads (\<lambda>rest. \<not> begins (\<lambda>c. c \<noteq> ch (CHR ''_'')) rest) l (cconv_code cc)
    (demangle_calling_convention v3) cc l"
proof -
  have "list_all (\<lambda>c. c \<noteq> ch (CHR ''_'')) (cconv_code cc)" "cconv_code cc \<noteq> []"
    by (cases cc; simp add: cconv_codes lit_def)+
  then have "matches (re_plus (\<lambda>c. c \<noteq> ch (CHR ''_''))) (\<lambda>rest. \<not> begins (\<lambda>c. c \<noteq> ch (CHR ''_'')) rest) (cconv_code cc)"
    by (rule matches_plus)
  moreover have "cconv_from_code v3 (cconv_code cc) = Inr cc"
    using assms by (cases cc) (simp_all add: cconv_codes cconv_from_code_def lit_def)
  ultimately show ?thesis unfolding demangle_calling_convention_def
    by (intro reads_then_lift [OF reads_expect])
qed

lemma no_K_cconv [simp]: "no_K (cconv_code cc)"
  by (simp add: cconv_code_def lit_def)

text \<open>
  Reading a printed name: with providers that find the classes and names that cover the ids, the
  result is the signature with its groups named by id, as far as the constructor accepts it.
\<close>

theorem demangle_mangled:
  assumes "\<forall>p \<in> set ps. mangleable v3 ag m p \<and> depth p \<le> limit"
    and "ids_accepted (- 1) (params_ids m ps)" and "names_cover names (params_ids m ps)"
    and "cc = CConvV3 \<Longrightarrow> v3"
  shows "demangle_kernel_name_with v3 limit (f @ lit ''_K'' @ cconv_code cc @ params_text m ps) names ag =
    bindS (KernelSignature_init v3 (List.map IsConstraint (List.map (relabel names m) ps)) cc
      (Some (f @ lit ''_K'' @ cconv_code cc @ params_text m ps))) (\<lambda>sig. Inr (f, sig))"
proof -
  let ?sym = "f @ lit ''_K'' @ cconv_code cc @ params_text m ps"
  let ?s = "\<lparr>dm_remaining = cconv_code cc @ params_text m ps, dm_pos = Suc (Suc (length f)), dm_last_seen_id = - 1\<rparr>"
  have "no_K (cconv_code cc @ params_text m ps)" by (auto simp: params_text_def lit_def)
  from rfind_separator [OF this, of f] have pos: "rfind (lit ''_K'') ?sym = Some (length f)" by simp
  have c: "\<not> begins (\<lambda>c. c \<noteq> ch (CHR ''_'')) (params_text m ps)"
    by (cases ps) (simp_all add: params_text_def lit_def)
  have 1: "demangle_calling_convention v3 ?s = (Inr cc, advance (length (cconv_code cc)) ?s)"
    using reads_D [OF reads_cconv [OF assms(4)], of cc ?s "params_text m ps" "- 1"] c
    by (simp add: last_seen_same)
  have 2: "demangle_parameters v3 names ag limit [] (advance (length (cconv_code cc)) ?s) =
      (Inr (List.map (relabel names m) ps), (advance (length ?sym - length f - 2) ?s)\<lparr>dm_last_seen_id := last_id (- 1) (params_ids m ps)\<rparr>)"
    using reads_D [OF reads_parameters [OF assms(1-3), of "[]"], of "advance (length (cconv_code cc)) ?s" "[]"]
    by (simp add: lit_def)
  show ?thesis
    unfolding demangle_kernel_name_with_def pos
    by (simp add: bindE_def 1 2 liftS_def retE_def lit_def bindS_def split: sum.split)
qed


section \<open>The numbering of the alias groups\<close>

definition numbering :: "alias_group_map \<times> pystr list \<Rightarrow> bool" where
  "numbering p \<longleftrightarrow> (case p of (m, ns) \<Rightarrow> distinct ns \<and> m = zip ns [0..<length ns])"

lemma numbering_map_of:
  assumes "numbering (m, ns)"
  shows "map_of m g = Some i \<longleftrightarrow> i < length ns \<and> ns ! i = g" and "fst ` set m = set ns"
proof -
  have m: "m = zip ns [0..<length ns]" and d: "distinct ns" using assms by (auto simp: numbering_def)
  have "map_of m g = Some i \<longleftrightarrow> (g, i) \<in> set m" using d by (simp add: m map_of_eq_Some_iff)
  also have "\<dots> \<longleftrightarrow> i < length ns \<and> ns ! i = g" by (auto simp: m set_zip)
  finally show "map_of m g = Some i \<longleftrightarrow> i < length ns \<and> ns ! i = g" .
  show "fst ` set m = set ns" unfolding m by (simp flip: set_map)
qed

lemma map_groups_numbering:
  assumes "numbering (m, ns)"
  shows "numbering (map_groups gs (m, ns)) \<and> set (snd (map_groups gs (m, ns))) = set ns \<union> set gs"
  using assms
proof (induction gs arbitrary: m ns)
  case (Cons g gs)
  show ?case
  proof (cases "map_of m g = None")
    case True
    then have "g \<notin> set ns" using numbering_map_of [OF Cons.prems] by (auto simp: map_of_eq_None_iff)
    then have "numbering (m @ [(g, length m)], ns @ [g])" using Cons.prems by (simp add: numbering_def)
    from Cons.IH [OF this] show ?thesis using True by auto
  next
    case False
    then have "g \<in> set ns" using numbering_map_of [OF Cons.prems] by (auto simp: map_of_eq_None_iff)
    with False Cons.IH [OF Cons.prems] show ?thesis by auto
  qed
qed simp

lemma map_alias_groups_numbering:
  "numbering (map_alias_groups ps)"
  "set (snd (map_alias_groups ps)) = (\<Union>(k, gs) \<in> set (collect_alias_groups ps). set gs)"
proof -
  have "numbering p \<Longrightarrow> numbering (foldl (\<lambda>m (_, groups). map_groups groups m) p cs) \<and>
      set (snd (foldl (\<lambda>m (_, groups). map_groups groups m) p cs)) = set (snd p) \<union> (\<Union>(k, gs) \<in> set cs. set gs)"
    for p and cs :: "(alias_kind \<times> pystr list) list"
  proof (induction cs arbitrary: p)
    case (Cons c cs)
    obtain k gs m ns where c: "c = (k, gs)" and p: "p = (m, ns)" by (cases c; cases p)
    from map_groups_numbering [of m ns gs] Cons.prems Cons.IH [of "map_groups gs p"]
    show ?case by (auto simp: c p)
  qed simp
  from this [of "([], [])" "collect_alias_groups ps"]
  show "numbering (map_alias_groups ps)"
    "set (snd (map_alias_groups ps)) = (\<Union>(k, gs) \<in> set (collect_alias_groups ps). set gs)"
    by (simp_all add: map_alias_groups_def numbering_def)
qed

lemma known_group:
  assumes "numbering (m, ns)" and "g \<in> fst ` set m"
  shows "the (map_of m g) < length ns" and "ns ! the (map_of m g) = g"
proof -
  from assms(2) obtain i where i: "map_of m g = Some i" by (meson not_None_eq map_of_eq_None_iff)
  with numbering_map_of(1) [OF assms(1), of g i] show "the (map_of m g) < length ns" "ns ! the (map_of m g) = g"
    by simp_all
qed

lemma group_names_own:
  assumes "numbering (m, ns)" and "canonical_groups m gs"
  shows "group_names_of (Some ns) (group_ids m gs) = gs" and "names_cover (Some ns) (group_ids m gs)"
  using assms(2) known_group [OF assms(1)]
  by (auto simp: canonical_groups_def group_names_of_def group_ids_def names_cover_def subset_iff intro!: map_idI)

lemma relabel_own:
  assumes "numbering (m, ns)" and "mangleable v3 ag m c"
  shows "relabel (Some ns) m c = c" and "names_cover (Some ns) (constraint_ids m c)"
proof -
  have "mangleable v3 ag m c \<Longrightarrow> relabel (Some ns) m c = c \<and> names_cover (Some ns) (constraint_ids m c)"
  proof (induction c rule: constraint.induct)
    case (ArrayConstraint a)
    then show ?case using group_names_own [OF assms(1)] by (simp add: relabel_array_def)
  next
    case (ListConstraint a gs e)
    then show ?case using group_names_own [OF assms(1)] by (simp add: relabel_array_def names_cover_append)
  qed (auto simp: names_cover_def map_idI split: option.splits)
  with assms(2) show "relabel (Some ns) m c = c" "names_cover (Some ns) (constraint_ids m c)" by simp_all
qed

section \<open>Names of whole signatures\<close>

definition collected_allowed :: "constraint list \<Rightarrow> allowed_globals" where
  "collected_allowed ps = (let g = collected ps \<lparr>cg_dataclasses = [], cg_enums = []\<rparr> in
     \<lparr>ag_dataclasses = to_global_provider (cg_dataclasses g), ag_enums = to_global_provider (cg_enums g)\<rparr>)"

definition signature_mangleable :: "bool \<Rightarrow> nat \<Rightarrow> allowed_globals \<Rightarrow> kernel_signature \<Rightarrow> bool" where
  "signature_mangleable v3 limit ag sig =
     (let ps = sig_parameters sig; m = fst (map_alias_groups ps) in
      list_all (\<lambda>p. mangleable v3 ag m p \<and> depth p \<le> limit) ps \<and> ids_accepted (- 1) (params_ids m ps) \<and>
      (sig_calling_convention sig = CConvV3 \<longrightarrow> v3))"

definition mangled_text :: "pystr \<Rightarrow> kernel_signature \<Rightarrow> pystr" where
  "mangled_text f sig = f @ lit ''_K'' @ cconv_code (sig_calling_convention sig) @
     params_text (fst (map_alias_groups (sig_parameters sig))) (sig_parameters sig)"

lemma mapS_constraints: "mapS (to_constraint v3) (List.map IsConstraint ps) = Inr ps"
  by (induction ps) auto

lemma KernelSignature_init_constraints:
  "KernelSignature_init v3 (List.map IsConstraint ps) cc symb =
     bindS (validate_alias_groups ps) (\<lambda>_. bindS (mapS (validate_constraint_support cc) ps) (\<lambda>_.
       Inr \<lparr>sig_parameters = ps, sig_calling_convention = cc, sig_symbol = symb\<rparr>))"
  by (simp add: KernelSignature_init_def mapS_constraints)

definition valid_signature :: "kernel_signature \<Rightarrow> bool" where
  "valid_signature sig \<longleftrightarrow> alias_groups_valid (collect_alias_groups (sig_parameters sig)) \<and>
     (\<forall>p \<in> set (sig_parameters sig). validate_constraint_support (sig_calling_convention sig) p = Inr ())"

lemma mapS_unit: "mapS f ps = Inr us \<longleftrightarrow> (\<forall>p \<in> set ps. f p = Inr ()) \<and> us = replicate (length ps) ()"
  by (induction ps arbitrary: us) (auto simp: bindS_Inr_iff)

lemma KernelSignature_init_valid:
  "KernelSignature_init v3 xs cc symb = Inr sig \<Longrightarrow> valid_signature sig"
  by (auto simp: KernelSignature_init_def bindS_Inr_iff mapS_unit valid_signature_def validate_alias_groups_iff
      split: if_splits)

lemma valid_KernelSignature_init:
  assumes "valid_signature sig"
  shows "KernelSignature_init v3 (List.map IsConstraint (sig_parameters sig)) (sig_calling_convention sig) symb =
    Inr (sig\<lparr>sig_symbol := symb\<rparr>)"
proof -
  have "mapS (validate_constraint_support (sig_calling_convention sig)) (sig_parameters sig) =
      Inr (replicate (length (sig_parameters sig)) ())"
    using assms by (simp add: mapS_unit valid_signature_def)
  then show ?thesis
    using assms by (simp add: KernelSignature_init_constraints validate_alias_groups_iff valid_signature_def)
qed

theorem demangle_own:
  assumes "valid_signature sig" and "signature_mangleable v3 limit (collected_allowed (sig_parameters sig)) sig"
  shows "demangle_kernel_name_with v3 limit (mangled_text f sig)
      (Some (snd (map_alias_groups (sig_parameters sig)))) (collected_allowed (sig_parameters sig)) =
    Inr (f, sig\<lparr>sig_symbol := Some (mangled_text f sig)\<rparr>)"
proof -
  let ?ps = "sig_parameters sig" and ?ag = "collected_allowed (sig_parameters sig)"
  obtain m ns where mn: "map_alias_groups ?ps = (m, ns)" by (cases "map_alias_groups ?ps")
  have num: "numbering (m, ns)" using map_alias_groups_numbering(1) [of ?ps] by (simp add: mn)
  have ok: "\<forall>p \<in> set ?ps. mangleable v3 ?ag m p \<and> depth p \<le> limit"
    and ids: "ids_accepted (- 1) (params_ids m ?ps)" and cc: "sig_calling_convention sig = CConvV3 \<Longrightarrow> v3"
    using assms(2) by (simp_all add: signature_mangleable_def Let_def mn list_all_iff)
  have same: "List.map (relabel (Some ns) m) ?ps = ?ps"
    using ok relabel_own(1) [OF num] by (intro map_idI) blast
  have cover: "names_cover (Some ns) (params_ids m ?ps)"
    using ok relabel_own(2) [OF num] by (fastforce simp: params_ids_def names_cover_def)
  show ?thesis
    using demangle_mangled [OF ok ids cover cc, where f = f] valid_KernelSignature_init [OF assms(1)]
    by (simp add: same mangled_text_def mn)
qed

theorem mangle_ok:
  assumes "valid_signature sig" and "signature_mangleable v3 limit (collected_allowed (sig_parameters sig)) sig"
  shows "mangle_kernel_name v3 limit f sig = Inr (mangled_text f sig)"
proof -
  let ?ps = "sig_parameters sig" and ?ag = "collected_allowed (sig_parameters sig)"
  obtain m ns where mn: "map_alias_groups ?ps = (m, ns)" by (cases "map_alias_groups ?ps")
  have "\<forall>p \<in> set ?ps. mangleable v3 ?ag m p"
    using assms(2) by (simp add: signature_mangleable_def Let_def mn list_all_iff)
  note run = mangle_eq(2) [OF this, of "\<lparr>cg_dataclasses = [], cg_enums = []\<rparr>"]
  have "f @ lit ''_K'' @ cconv_code (sig_calling_convention sig) @
      concat (List.map (\<lambda>t. lit ''_'' @ t) (List.map (constraint_text m) ?ps)) = mangled_text f sig"
    by (simp add: mangled_text_def params_text_def mn o_def)
  then show ?thesis
    using demangle_own [OF assms, of f]
    by (simp add: mangle_kernel_name_def mn run collected_allowed_def Let_def del: List.map_map)
qed

section \<open>Reading a name without knowing the groups\<close>

definition rename_groups :: "(pystr \<Rightarrow> pystr) \<Rightarrow> (alias_kind \<times> pystr list) list \<Rightarrow> (alias_kind \<times> pystr list) list" where
  "rename_groups h cs = List.map (\<lambda>(k, gs). (k, List.map h gs)) cs"

lemma rename_groups_append: "rename_groups h (xs @ ys) = rename_groups h xs @ rename_groups h ys"
  by (simp add: rename_groups_def)

definition all_groups :: "(alias_kind \<times> pystr list) list \<Rightarrow> pystr set" where
  "all_groups cs = (\<Union>(k, gs) \<in> set cs. set gs)"

lemma group_uses_rename:
  assumes "inj_on h (all_groups cs)" and "g \<in> all_groups cs"
  shows "group_uses (rename_groups h cs) (h g) = group_uses cs g"
proof -
  have "h g \<in> h ` set gs \<longleftrightarrow> g \<in> set gs" if "(k, gs) \<in> set cs" for k gs
  proof -
    have "set gs \<subseteq> all_groups cs" using that by (auto simp: all_groups_def)
    with inj_on_image_mem_iff [OF assms(1,2)] show ?thesis by blast
  qed
  then have "(case p of (k, gs) \<Rightarrow> g \<in> set gs) = (h g \<in> h ` set (snd p))" if "p \<in> set cs" for p
    using that by (cases p) auto
  then have "filter (\<lambda>(k, gs). g \<in> set gs) cs = filter (\<lambda>p. h g \<in> h ` set (snd p)) cs"
    by (intro filter_cong) auto
  then show ?thesis
    by (simp add: group_uses_def rename_groups_def filter_map o_def case_prod_beta)
qed

lemma alias_groups_valid_rename:
  assumes inj: "inj_on h (all_groups cs)" and valid: "alias_groups_valid cs"
  shows "alias_groups_valid (rename_groups h cs)"
proof -
  have sub: "set gs \<subseteq> all_groups cs" if "(k, gs) \<in> set cs" for k gs using that by (auto simp: all_groups_def)
  have ok: "distinct (List.map h gs)" "x \<in> h ` set gs \<Longrightarrow> group_uses (rename_groups h cs) x \<noteq> 1"
    if "(k, gs) \<in> set cs" for k gs x
  proof -
    have v: "distinct gs" "\<forall>g \<in> set gs. group_uses cs g \<noteq> 1" using that valid by (auto simp: alias_groups_valid_def)
    then show "distinct (List.map h gs)" using inj_on_subset [OF inj sub [OF that]] by (simp add: distinct_map)
    show "x \<in> h ` set gs \<Longrightarrow> group_uses (rename_groups h cs) x \<noteq> 1"
      using v(2) group_uses_rename [OF inj] sub [OF that] by (metis imageE subsetD)
  qed
  have same: "k = k'" if "(k, gs) \<in> set cs" "(k', gs') \<in> set cs" "h ` set gs \<inter> h ` set gs' \<noteq> {}" for k k' gs gs'
  proof -
    from that(3) obtain x y where "x \<in> set gs" "y \<in> set gs'" "h x = h y" by auto
    with inj_onD [OF inj, of x y] sub [OF that(1)] sub [OF that(2)] have "x \<in> set gs \<inter> set gs'" by auto
    with valid that(1,2) show ?thesis by (fastforce simp: alias_groups_valid_def)
  qed
  show ?thesis
    unfolding alias_groups_valid_def
  proof (intro conjI ballI, goal_cases)
    case (1 p)
    then obtain k gs where "(k, gs) \<in> set cs" "p = (k, List.map h gs)" by (auto simp: rename_groups_def)
    with ok show ?case by simp
  next
    case (2 p)
    then obtain k gs where p: "(k, gs) \<in> set cs" "p = (k, List.map h gs)" by (auto simp: rename_groups_def)
    have "case q of (k', gs') \<Rightarrow> set (List.map h gs) \<inter> set gs' \<noteq> {} \<longrightarrow> k = k'" if "q \<in> set (rename_groups h cs)" for q
    proof -
      from that obtain k' gs' where "(k', gs') \<in> set cs" "q = (k', List.map h gs')" by (auto simp: rename_groups_def)
      with same p(1) show ?thesis by simp
    qed
    then show ?case by (simp add: p(2))
  qed
qed

definition id_name :: "alias_group_map \<Rightarrow> pystr \<Rightarrow> pystr" where
  "id_name m g = lit ''group'' @ int_str (int (the (map_of m g)))"

lemma group_names_None: "group_names_of None (group_ids m gs) = List.map (id_name m) gs"
  by (simp add: group_names_of_def group_ids_def id_name_def)

lemma id_name_inj:
  assumes "numbering (m, ns)"
  shows "inj_on (id_name m) (set ns)"
proof (rule inj_onI)
  fix g h assume g: "g \<in> set ns" "h \<in> set ns" and "id_name m g = id_name m h"
  then have "int_str (int (the (map_of m g))) = int_str (int (the (map_of m h)))" by (simp add: id_name_def)
  from arg_cong [OF this, of "parse_digits 10"] have "the (map_of m g) = the (map_of m h)" by (simp add: parse_nat_str)
  moreover have "g \<in> fst ` set m" "h \<in> fst ` set m" using g numbering_map_of(2) [OF assms] by auto
  ultimately show "g = h" using known_group(2) [OF assms] by metis
qed

lemma collect_relabel:
  "collect_alias_groups (List.map (relabel None m) ps) = rename_groups (id_name m) (collect_alias_groups ps)"
  "collect_alias_groups_of (relabel None m p) = rename_groups (id_name m) (collect_alias_groups_of p)"
  by (induction ps and p rule: collect_alias_groups_collect_alias_groups_of.induct)
    (simp_all add: rename_groups_append relabel_array_def group_names_None,
     simp_all add: rename_groups_def)

lemma support_relabel:
  "validate_constraint_support cc (relabel names m p) = validate_constraint_support cc p"
proof (induction p rule: constraint.induct)
  case (TupleConstraint items)
  then have "mapS (validate_constraint_support cc) (List.map (relabel names m) items) = mapS (validate_constraint_support cc) items"
    by (induction items) auto
  then show ?case by simp
next
  case (DataclassConstraint cls items)
  then have "mapS (validate_constraint_support cc) (List.map (relabel names m) items) = mapS (validate_constraint_support cc) items"
    by (induction items) auto
  then show ?case by simp
qed (simp_all add: relabel_array_def)

definition relabelled :: "kernel_signature \<Rightarrow> kernel_signature" where
  "relabelled sig = sig\<lparr>sig_parameters :=
     List.map (relabel None (fst (map_alias_groups (sig_parameters sig)))) (sig_parameters sig)\<rparr>"

lemma valid_relabelled:
  assumes "valid_signature sig"
  shows "valid_signature (relabelled sig)"
proof -
  obtain m ns where mn: "map_alias_groups (sig_parameters sig) = (m, ns)" by (cases "map_alias_groups (sig_parameters sig)")
  have num: "numbering (m, ns)" using map_alias_groups_numbering(1) [of "sig_parameters sig"] by (simp add: mn)
  have "set ns = all_groups (collect_alias_groups (sig_parameters sig))"
    using map_alias_groups_numbering(2) [of "sig_parameters sig"] by (simp add: mn all_groups_def)
  with id_name_inj [OF num] have "inj_on (id_name m) (all_groups (collect_alias_groups (sig_parameters sig)))" by simp
  from alias_groups_valid_rename [OF this] assms show ?thesis
    by (simp add: valid_signature_def relabelled_def mn collect_relabel support_relabel)
qed

definition no_globals :: allowed_globals where
  "no_globals = \<lparr>ag_dataclasses = to_global_provider [], ag_enums = to_global_provider []\<rparr>"

theorem demangle_ok:
  assumes "valid_signature sig" and "signature_mangleable v3 limit no_globals sig"
  shows "demangle_kernel_name v3 limit (mangled_text f sig) =
    Inr (f, (relabelled sig)\<lparr>sig_symbol := Some (mangled_text f sig)\<rparr>)"
proof -
  let ?ps = "sig_parameters sig"
  obtain m ns where mn: "map_alias_groups ?ps = (m, ns)" by (cases "map_alias_groups ?ps")
  have ok: "\<forall>p \<in> set ?ps. mangleable v3 no_globals m p \<and> depth p \<le> limit"
    and ids: "ids_accepted (- 1) (params_ids m ?ps)" and cc: "sig_calling_convention sig = CConvV3 \<Longrightarrow> v3"
    using assms(2) by (simp_all add: signature_mangleable_def Let_def mn list_all_iff)
  have cover: "names_cover None (params_ids m ?ps)" by (simp add: names_cover_def)
  show ?thesis
    using demangle_mangled [OF ok ids cover cc, where f = f] valid_KernelSignature_init [OF valid_relabelled [OF assms(1)]]
    by (simp add: demangle_kernel_name_def no_globals_def [symmetric] mangled_text_def relabelled_def mn)
qed

text \<open>Names never collide: the function name and everything a name says can be read off it.\<close>

theorem mangled_text_inj:
  assumes "valid_signature sig" and "signature_mangleable v3 limit no_globals sig"
    and "valid_signature sig'" and "signature_mangleable v3 limit no_globals sig'"
    and "mangled_text f sig = mangled_text f' sig'"
  shows "f = f' \<and> (relabelled sig)\<lparr>sig_symbol := None\<rparr> = (relabelled sig')\<lparr>sig_symbol := None\<rparr>"
proof -
  have "Inr (f, (relabelled sig)\<lparr>sig_symbol := Some (mangled_text f sig)\<rparr>) =
      (Inr (f', (relabelled sig')\<lparr>sig_symbol := Some (mangled_text f' sig')\<rparr>) :: py_error + _)"
    using demangle_ok [OF assms(1,2), of f] demangle_ok [OF assms(3,4), of f'] assms(5) by metis
  then have e: "f = f' \<and> (relabelled sig)\<lparr>sig_symbol := Some (mangled_text f sig)\<rparr> =
      (relabelled sig')\<lparr>sig_symbol := Some (mangled_text f' sig')\<rparr>" unfolding sum.inject prod.inject .
  then show ?thesis using arg_cong [OF conjunct2 [OF e], of "sig_symbol_update (\<lambda>_. None)"] by simp
qed

end
