(* ===== verification/KernelNames.thy ===== *)
theory KernelNames
  imports NameRoundtrip
begin

text \<open>
  What mangled kernel names promise, and where they do not keep it: the properties of
  \<^verbatim>\<open>mangle_kernel_name\<close> and \<^verbatim>\<open>demangle_kernel_name\<close>, each with a concrete signature it applies to.
\<close>

section \<open>Signatures without classes\<close>

lemma no_globals_found: "\<not> found (ag_dataclasses no_globals) c" "\<not> found (ag_enums no_globals) c"
  by (simp_all add: found_def no_globals_def to_global_provider_def)

lemma no_globals_none:
  "mangleable v3 no_globals m c \<Longrightarrow> constraint_dataclasses c = [] \<and> constraint_enums c = []"
proof (induction c rule: constraint.induct)
  case (ConstantConstraint c)
  then show ?case by (cases c) (simp_all add: no_globals_found)
qed (simp_all add: no_globals_found)

lemma collected_no_globals:
  assumes "signature_mangleable v3 limit no_globals sig"
  shows "collected_allowed (sig_parameters sig) = no_globals"
proof -
  have "constraint_dataclasses p = [] \<and> constraint_enums p = []" if "p \<in> set (sig_parameters sig)" for p
    using assms that no_globals_none by (auto simp: signature_mangleable_def Let_def list_all_iff)
  then have "concat (List.map constraint_dataclasses (sig_parameters sig)) = []"
    "concat (List.map constraint_enums (sig_parameters sig)) = []" by simp_all
  then show ?thesis by (simp only: collected_allowed_def collected_def no_globals_def) simp
qed

section \<open>Example signatures\<close>

definition example_array :: "pystr list \<Rightarrow> array_constraint" where
  "example_array gs =
     \<lparr>arr_dtype = DT_float32, arr_ndim = 3, arr_index_dtype = DT_int64,
      arr_stride_lower_bound_incl = [Some (- 1), Some (- 1), None], arr_alias_groups = gs,
      arr_may_alias_internally = True, arr_stride_constant = [None, None, Some 1],
      arr_shape_constant = [Some 4, None, Some 4], arr_stride_divisible_by = [8, 8, 1],
      arr_shape_divisible_by = [1, 8, 1], arr_base_addr_divisible_by = 16\<rparr>"

definition example_class :: py_class where
  "example_class = \<lparr>cls_id = 0, cls_module = lit ''app.KV'', cls_qualname = lit ''Pair'',
     cls_field_count = 2, cls_members = []\<rparr>"

definition make_signature :: "constraint list \<Rightarrow> kernel_signature" where
  "make_signature ps = \<lparr>sig_parameters = ps, sig_calling_convention = CConvV3, sig_symbol = None\<rparr>"

definition example_signature :: kernel_signature where
  "example_signature = make_signature
     [ArrayConstraint (example_array [lit ''a'', lit ''b'']), ArrayConstraint (example_array [lit ''a'']),
      TupleConstraint [ScalarConstraint DT_int32, ConstantConstraint (IntConst (- 7))],
      ArrayConstraint (example_array [lit ''b'']), ConstantConstraint (StringConst (lit ''a_K''))]"

definition class_signature :: kernel_signature where
  "class_signature = make_signature
     [DataclassConstraint example_class [ScalarConstraint DT_int32, PointerConstraint DT_float16],
      ConstantConstraint NoneConst]"

lemma example_ok:
  "valid_signature example_signature" "signature_mangleable True 2 no_globals example_signature"
  "valid_signature class_signature"
  "signature_mangleable True 2 (collected_allowed (sig_parameters class_signature)) class_signature"
  by code_simp+

lemma example_constructed:
  "KernelSignature_init True (List.map IsConstraint (sig_parameters class_signature)) CConvV3 None = Inr class_signature"
  by code_simp

section \<open>Properties\<close>



text \<open>C28. A name alone is enough for signatures that mention no classes: \<^verbatim>\<open>demangle_kernel_name\<close> returns
  the function name and the signature with its alias groups renamed to \<open>group0\<close>, \<open>group1\<close>, \<dots>, which
  the constructor accepts again.\<close>

theorem kernel_name_demangled:
  assumes "valid_signature sig" and "signature_mangleable v3 limit no_globals sig"
    and "mangle_kernel_name v3 limit f sig = Inr name"
  shows "demangle_kernel_name v3 limit name = Inr (f, with_symbol (relabelled sig) (Some name))"
  using demangle_ok [OF assms(1,2), of f] mangle_ok [OF assms(1), of v3 limit f] assms(2,3)
  by (simp add: collected_no_globals with_symbol_def)

theorem kernel_name_demangled_witness:
  "demangle_kernel_name True 2 (mangled_text (lit ''f_K'') example_signature) =
    Inr (lit ''f_K'', with_symbol (relabelled example_signature) (Some (mangled_text (lit ''f_K'') example_signature)))"
  by (rule kernel_name_demangled [OF example_ok(1,2)])
    (use mangle_ok [OF example_ok(1), of True 2] collected_no_globals [OF example_ok(2)] example_ok(2) in simp)


definition renamed_signature :: kernel_signature where
  "renamed_signature = make_signature
     [ArrayConstraint (example_array [lit ''x'', lit ''y'']), ArrayConstraint (example_array [lit ''x'']),
      TupleConstraint [ScalarConstraint DT_int32, ConstantConstraint (IntConst (- 7))],
      ArrayConstraint (example_array [lit ''y'']), ConstantConstraint (StringConst (lit ''a_K''))]"

lemma renamed_ok:
  "valid_signature renamed_signature" "signature_mangleable True 2 no_globals renamed_signature"
  "mangled_text (lit ''f'') renamed_signature = mangled_text (lit ''f'') example_signature"
  by code_simp+


text \<open>C30. The text of an array constraint is read back to that constraint, with its groups named by their
  ids, in front of any text that starts another constraint, and exactly it is consumed: the grouping
  of the per-axis assumptions by mask loses nothing.\<close>

theorem array_text_roundtrip:
  assumes "array_ok a" and "mangle_array_constraint a m = Inr t" and "canonical_groups m (arr_alias_groups a)"
    and "ids_accepted (dm_last_seen_id s) (group_ids m (arr_alias_groups a))"
    and "names_cover names (group_ids m (arr_alias_groups a))"
    and "dm_remaining s = t @ rest" and "boundary rest"
  shows "demangle_array_constraint names s = (Inr (relabel_array names m a),
    \<lparr>dm_remaining = rest, dm_pos = dm_pos s + length t,
     dm_last_seen_id = last_id (dm_last_seen_id s) (group_ids m (arr_alias_groups a))\<rparr>)"
proof -
  obtain n where "mangle_dtype (arr_dtype a) = Inr n" using mangle_array_text [OF assms(2)] .
  from mangle_dtype_entry [OF this] obtain n0 where "(arr_dtype a, n0) \<in> set mangled_dtypes" .
  then have dt: "arr_dtype a \<in> fst ` set mangled_dtypes" by force
  have t: "t = array_text m a" using mangle_array_eq [OF assms(1) dt assms(3)] assms(2) by simp
  show ?thesis
    using reads_D [OF reads_array_text [OF assms(1) dt assms(3-5)] _ assms(7) refl] assms(6)
    by (simp add: t advance_def)
qed

definition witness_state :: demangler where
  "witness_state = \<lparr>dm_remaining = lit ''3f32_2i8_3v8l_1_4t1_5s4_p16g0g1iw_Si32'', dm_pos = 0, dm_last_seen_id = - 1\<rparr>"

lemma witness_text:
  "mangle_array_constraint (example_array [lit ''a'', lit ''b'']) [(lit ''a'', 0), (lit ''b'', 1)] =
     Inr (lit ''3f32_2i8_3v8l_1_4t1_5s4_p16g0g1iw'')"
  "array_ok (example_array [lit ''a'', lit ''b''])"
  by code_simp+

theorem array_text_roundtrip_witness:
  "demangle_array_constraint (Some [lit ''a'', lit ''b'']) witness_state =
   (Inr (relabel_array (Some [lit ''a'', lit ''b'']) [(lit ''a'', 0), (lit ''b'', 1)] (example_array [lit ''a'', lit ''b''])),
    \<lparr>dm_remaining = lit ''_Si32'', dm_pos = dm_pos witness_state + length (lit ''3f32_2i8_3v8l_1_4t1_5s4_p16g0g1iw''),
     dm_last_seen_id = last_id (dm_last_seen_id witness_state) (group_ids [(lit ''a'', 0), (lit ''b'', 1)]
       (arr_alias_groups (example_array [lit ''a'', lit ''b''])))\<rparr>)"
  by (rule array_text_roundtrip [OF witness_text(2,1)])
    (simp_all add: canonical_groups_def group_ids_def example_array_def witness_state_def names_cover_def
      boundary_def lit_def is_upper_def)

text \<open>C31. Every string of code points is read back from its mangled text, whatever follows, and the
  mangled text never contains the separator \<^verbatim>\<open>_K\<close>.\<close>

theorem string_text_roundtrip:
  assumes "\<forall>c \<in> set x. c \<le> 0x10ffff" and "dm_remaining s = mangle_string x @ rest"
  shows "demangle_string s = (Inr x, advance (length (mangle_string x)) s) \<and> ch (CHR ''K'') \<notin> set (mangle_string x)"
  using reads_D [OF reads_string [OF assms(1), of "\<lambda>_. True"] assms(2) _ refl] no_K_string [of x]
  by (simp add: last_seen_same no_K_def)

theorem string_text_roundtrip_witness:
  "demangle_string \<lparr>dm_remaining = mangle_string [75, 95, 233, 0x20ac, 0x1f600] @ lit ''Si32'', dm_pos = 0, dm_last_seen_id = 0\<rparr> =
     (Inr [75, 95, 233, 0x20ac, 0x1f600], advance (length (mangle_string [75, 95, 233, 0x20ac, 0x1f600]))
       \<lparr>dm_remaining = mangle_string [75, 95, 233, 0x20ac, 0x1f600] @ lit ''Si32'', dm_pos = 0, dm_last_seen_id = 0\<rparr>) \<and>
   ch (CHR ''K'') \<notin> set (mangle_string [75, 95, 233, 0x20ac, 0x1f600])"
  by (rule string_text_roundtrip [where rest = "lit ''Si32''"]) simp_all

section \<open>Signatures that have no name\<close>

definition plain_array :: "pystr list \<Rightarrow> array_constraint" where
  "plain_array gs =
     \<lparr>arr_dtype = DT_bool, arr_ndim = 0, arr_index_dtype = DT_int32, arr_stride_lower_bound_incl = [],
      arr_alias_groups = gs, arr_may_alias_internally = False, arr_stride_constant = [],
      arr_shape_constant = [], arr_stride_divisible_by = [], arr_shape_divisible_by = [],
      arr_base_addr_divisible_by = 1\<rparr>"

definition chain_signature :: kernel_signature where
  "chain_signature = make_signature
     [ArrayConstraint (plain_array [lit ''a'', lit ''b'']), ArrayConstraint (plain_array [lit ''a'']),
      ArrayConstraint (plain_array [lit ''c'']), ArrayConstraint (plain_array [lit ''b'', lit ''c''])]"

definition order_signature :: kernel_signature where
  "order_signature = make_signature
     [ArrayConstraint (plain_array [lit ''a'', lit ''b'']), ArrayConstraint (plain_array [lit ''b'', lit ''a''])]"

definition nested_signature :: kernel_signature where
  "nested_signature = make_signature
     [DataclassConstraint example_class [ArrayConstraint (plain_array [lit ''a'']), ArrayConstraint (plain_array [lit ''a''])]]"

definition float8_signature :: kernel_signature where
  "float8_signature = make_signature [ScalarConstraint DT_float8_e5m3fnu]"

definition constructed :: "kernel_signature \<Rightarrow> bool" where
  "constructed sig \<longleftrightarrow> KernelSignature_init True (List.map IsConstraint (sig_parameters sig))
     (sig_calling_convention sig) (sig_symbol sig) = Inr sig"


end
