(* ===== verification/IR.thy ===== *)
theory IR
  imports MangleText
begin

text \<open>
  The intermediate representation of \<^verbatim>\<open>src/cuda/tile/_ir/ir.py\<close> and the operation classes that the
  passes of \<^verbatim>\<open>src/cuda/tile/_passes\<close> tell apart (\<^verbatim>\<open>_ir/control_flow_ops.py\<close>, \<^verbatim>\<open>_ir/core_ops.py\<close>,
  \<^verbatim>\<open>_ir/arithmetic_ops.py\<close>, \<^verbatim>\<open>_ir/ops.py\<close>).

  \<^item> a variable is its name: names are unique in a context, and the location of a \<^verbatim>\<open>Var\<close> only serves
    error messages;
  \<^item> an operation without nested blocks is \<open>Operation c rs xs\<close>: its class with its attributes, its
    result variables, and the variables of \<^verbatim>\<open>all_inputs()\<close> in the order of the operand fields;
  \<^item> \<open>Loop\<close>, \<open>IfElse\<close> and \<open>TileFold\<close> (the classes \<^verbatim>\<open>TileReduce\<close> and \<^verbatim>\<open>TileScan\<close>, which have the same
    operands and are treated alike by every pass) carry the identity of the object, which the passes
    use as a dictionary key, the parameters of the nested block and its operations;
  \<^item> \<open>ir_context\<close> is \<^verbatim>\<open>IRContext\<close>: the tables of names, types, constants and list aggregates.
\<close>

section \<open>Variables and types\<close>

type_synonym var = string

datatype mem_effect = NoEffect | LoadEffect | StoreEffect

datatype py_const = PyBool bool | PyInt int | PyOther string

text \<open>The tensor-like types with what the passes read of them, and every other type by name.\<close>

datatype ir_type =
    TileTy dtype "int list"
  | LooselyTypedScalar py_const
  | TokenTy
  | OtherTy string

text \<open>\<^verbatim>\<open>str(n)\<close> as part of a variable name.\<close>

definition dec_str :: "nat \<Rightarrow> string" where
  "dec_str n = List.map char_of (nat_str 10 n)"

lemma dec_str_inj: "dec_str m = dec_str n \<Longrightarrow> m = n"
proof -
  have "List.map of_char (dec_str n) = nat_str 10 n" for n
  proof -
    have "\<forall>c \<in> set (nat_str 10 n). c < 256"
      using nat_str_digits [of 10 n] by (auto simp: list_all_iff is_digit_def)
    then show ?thesis by (simp add: dec_str_def map_idI)
  qed
  moreover assume "dec_str m = dec_str n"
  ultimately have "nat_str 10 m = nat_str 10 n" by metis
  then have "parse_digits 10 (nat_str 10 m) = parse_digits 10 (nat_str 10 n)" by (rule arg_cong)
  then show ?thesis by (simp only: parse_nat_str)
qed

section \<open>The context\<close>

record ir_context =
  all_vars :: "(var \<times> var) list"
  counter_by_name :: "(var \<times> nat) list"
  temp_counter :: nat
  typemap :: "(var \<times> ir_type) list"
  constants :: "(var \<times> py_const) list"
  list_base_ptr :: "(var \<times> var) list"

text \<open>The loop of \<^verbatim>\<open>make_var\<close>: candidates \<^verbatim>\<open>name\<close>, \<^verbatim>\<open>name.k\<close>, \<^verbatim>\<open>name.(k+1)\<close>, \dots until one is new.\<close>

definition numbered :: "var \<Rightarrow> nat \<Rightarrow> var" where
  "numbered name k = name @ ''.'' @ dec_str k"

lemma numbered_inj: "numbered name j = numbered name k \<longleftrightarrow> j = k"
  using dec_str_inj [of j k] by (auto simp: numbered_def)

lemma finite_numbered: "finite {j. P j \<and> numbered name j \<in> fst ` set al}"
proof (rule finite_subset)
  show "{j. P j \<and> numbered name j \<in> fst ` set al} \<subseteq> numbered name -` (fst ` set al)" by auto
  show "finite (numbered name -` (fst ` set al))"
    by (rule finite_vimageI) (auto simp: inj_on_def numbered_inj)
qed

function new_name :: "(var \<times> var) list \<Rightarrow> var \<Rightarrow> var \<Rightarrow> nat \<Rightarrow> var \<times> nat" where
  "new_name al name candidate k =
     (if candidate \<in> fst ` set al then new_name al name (numbered name k) (Suc k) else (candidate, k))"
  by pat_completeness auto
termination
proof (relation "measure (\<lambda>(al, name, c, k).
    card {j. k \<le> j \<and> numbered name j \<in> fst ` set al} + (if c \<in> fst ` set al then 1 else 0))")
  fix al :: "(var \<times> var) list" and name c :: var and k :: nat
  assume c: "c \<in> fst ` set al"
  let ?S = "\<lambda>k. {j. k \<le> j \<and> numbered name j \<in> fst ` set al}"
  have "?S k = (if numbered name k \<in> fst ` set al then insert k (?S (Suc k)) else ?S (Suc k))"
    by (auto simp: Suc_le_eq le_less)
  then have "card (?S k) = card (?S (Suc k)) + (if numbered name k \<in> fst ` set al then 1 else 0)"
    by (simp add: finite_numbered)
  then show "((al, name, numbered name k, Suc k), al, name, c, k) \<in> measure (\<lambda>(al, name, c, k).
    card {j. k \<le> j \<and> numbered name j \<in> fst ` set al} + (if c \<in> fst ` set al then 1 else 0))"
    using c by simp
qed simp

declare new_name.simps [simp del]

lemma new_name_fresh: "fst (new_name al name c k) \<notin> fst ` set al"
  by (induction al name c k rule: new_name.induct) (subst new_name.simps, simp)

type_synonym 'a ir = "(ir_context, 'a) eff"

definition make_var :: "var \<Rightarrow> var ir" where
  "make_var name = (\<lambda>ctx.
     let k = (case map_of (counter_by_name ctx) name of None \<Rightarrow> 0 | Some k \<Rightarrow> k);
         (var_name, k') = new_name (all_vars ctx) name name k
     in (Inr var_name, ctx\<lparr>all_vars := (var_name, name) # all_vars ctx,
          counter_by_name := AList.update name k' (counter_by_name ctx)\<rparr>))"

definition get_original_name :: "var \<Rightarrow> var ir" where
  "get_original_name v = (\<lambda>ctx. (case map_of (all_vars ctx) v of None \<Rightarrow> Inl KeyError | Some n \<Rightarrow> Inr n, ctx))"

definition make_var_like :: "var \<Rightarrow> var ir" where
  "make_var_like v = bindE (get_original_name v) make_var"

definition make_temp :: "var ir" where
  "make_temp = (\<lambda>ctx. make_var (''$'' @ dec_str (temp_counter ctx)) (ctx\<lparr>temp_counter := Suc (temp_counter ctx)\<rparr>))"

definition get_type :: "var \<Rightarrow> ir_type ir" where
  "get_type v = (\<lambda>ctx. (case map_of (typemap ctx) v of None \<Rightarrow> Inl TileInternalError | Some t \<Rightarrow> Inr t, ctx))"

definition set_type :: "var \<Rightarrow> ir_type \<Rightarrow> unit ir" where
  "set_type v t = bindE (getE (\<lambda>ctx. map_of (typemap ctx) v)) (\<lambda>old.
     bindE (assertE (old = None)) (\<lambda>_. modifyE (\<lambda>ctx. ctx\<lparr>typemap := (v, t) # typemap ctx\<rparr>)))"

text \<open>\<^verbatim>\<open>copy_type_information\<close>: type, constant and aggregate; the loose type is not modelled.\<close>

definition copy_entry :: "var \<Rightarrow> var \<Rightarrow> (var \<times> 'a) list \<Rightarrow> (var \<times> 'a) list" where
  "copy_entry src dst al = (case map_of al src of None \<Rightarrow> al | Some x \<Rightarrow> AList.update dst x al)"

definition copy_type_information :: "var \<Rightarrow> var \<Rightarrow> unit ir" where
  "copy_type_information src dst = modifyE (\<lambda>ctx. ctx\<lparr>
     typemap := copy_entry src dst (typemap ctx),
     constants := copy_entry src dst (constants ctx),
     list_base_ptr := copy_entry src dst (list_base_ptr ctx)\<rparr>)"

lemma make_var_fresh:
  assumes "make_var name ctx = (r, ctx')"
  obtains v where "r = Inr v" and "v \<notin> fst ` set (all_vars ctx)"
    and "all_vars ctx' = (v, name) # all_vars ctx" and "typemap ctx' = typemap ctx"
    and "constants ctx' = constants ctx" and "list_base_ptr ctx' = list_base_ptr ctx"
  using assms new_name_fresh [of "all_vars ctx" name name "case map_of (counter_by_name ctx) name of None \<Rightarrow> 0 | Some k \<Rightarrow> k"]
  by (auto simp: make_var_def Let_def split: prod.splits)

section \<open>Operations\<close>

datatype op_class =
    Assign
  | ForeignPointerCast
  | AssumeDivBy int
  | AssumeBounded "int option" "int option"
  | GetArrayListItem
  | PointerOffset
  | TileBroadcast
  | TileReshape
  | TilePermute "int list"
  | TileAsType
  | TypedConst py_const
  | RawBinaryArithmeticOperation string "string option" bool
  | RawComparisonOperation string
  | Unary string "string option" bool
  | FusedMulAddOperation string bool
  | MakeTensorView
  | MakePartitionView
  | LoadPointer
  | StorePointer
  | TileLoad bool
  | TileStore
  | MakeDummy
  | Return
  | OtherOp string mem_effect

text \<open>\<^verbatim>\<open>TileLoad\<close> carries whether its memory order is \<^verbatim>\<open>ACQUIRE\<close>.\<close>

fun memory_effect :: "op_class \<Rightarrow> mem_effect" where
  "memory_effect LoadPointer = LoadEffect"
| "memory_effect (TileLoad _) = LoadEffect"
| "memory_effect StorePointer = StoreEffect"
| "memory_effect TileStore = StoreEffect"
| "memory_effect (OtherOp _ e) = e"
| "memory_effect _ = NoEffect"

fun has_observable_effect :: "op_class \<Rightarrow> bool" where
  "has_observable_effect Return = True"
| "has_observable_effect (TileLoad acquire) = acquire"
| "has_observable_effect c = (memory_effect c = StoreEffect)"

datatype fold_kind = TileReduce int | TileScan int bool

datatype ir_op =
    Operation op_class "var list" "var list"
  | Loop nat "(var \<times> var \<times> var) option" "var list" "var list" "ir_op list" "var list"
  | IfElse nat var "ir_op list" "ir_op list" "var list"
  | TileFold nat fold_kind "py_const list" "var list" "var list" "ir_op list" "var list"
  | Continue "var list"
  | Break "var list"
  | EndBranch "var list"

text \<open>\<open>Loop i range initial_values params body result_vars\<close>: \<open>range\<close> is \<^verbatim>\<open>start, stop, step\<close> of a
  \<^verbatim>\<open>for\<close> loop; then the first parameter is the induction variable.\<close>

definition range_vars :: "(var \<times> var \<times> var) option \<Rightarrow> var list" where
  "range_vars r = (case r of None \<Rightarrow> [] | Some (start, stop, step) \<Rightarrow> [start, stop, step])"

definition body_vars :: "(var \<times> var \<times> var) option \<Rightarrow> var list \<Rightarrow> var list" where
  "body_vars r params = (if r = None then params else tl params)"

fun all_inputs :: "ir_op \<Rightarrow> var list" where
  "all_inputs (Operation c rs xs) = xs"
| "all_inputs (Loop i r init ps body rs) = range_vars r @ init"
| "all_inputs (IfElse i c T E rs) = [c]"
| "all_inputs (TileFold i k ids xs ps body rs) = xs"
| "all_inputs (Continue vs) = vs"
| "all_inputs (Break vs) = vs"
| "all_inputs (EndBranch vs) = vs"

fun result_vars :: "ir_op \<Rightarrow> var list" where
  "result_vars (Operation c rs xs) = rs"
| "result_vars (Loop i r init ps body rs) = rs"
| "result_vars (IfElse i c T E rs) = rs"
| "result_vars (TileFold i k ids xs ps body rs) = rs"
| "result_vars _ = []"

text \<open>The nested blocks, each with its parameters.\<close>

fun nested_blocks :: "ir_op \<Rightarrow> (var list \<times> ir_op list) list" where
  "nested_blocks (Loop i r init ps body rs) = [(ps, body)]"
| "nested_blocks (IfElse i c T E rs) = [([], T), ([], E)]"
| "nested_blocks (TileFold i k ids xs ps body rs) = [(ps, body)]"
| "nested_blocks _ = []"

text \<open>\<^verbatim>\<open>Block.traverse\<close> (nested blocks before their operation) and \<^verbatim>\<open>Block.all_defined_vars\<close>.\<close>

fun traverse :: "ir_op list \<Rightarrow> ir_op list" where
  "traverse [] = []"
| "traverse (Loop i r init ps body rs # ops) = traverse body @ Loop i r init ps body rs # traverse ops"
| "traverse (IfElse i c T E rs # ops) = traverse T @ traverse E @ IfElse i c T E rs # traverse ops"
| "traverse (TileFold i k ids xs ps body rs # ops) = traverse body @ TileFold i k ids xs ps body rs # traverse ops"
| "traverse (op # ops) = op # traverse ops"

fun defined_vars :: "ir_op list \<Rightarrow> var list" where
  "defined_vars [] = []"
| "defined_vars (Operation c rs xs # ops) = rs @ defined_vars ops"
| "defined_vars (Loop i r init ps body rs # ops) = rs @ ps @ defined_vars body @ defined_vars ops"
| "defined_vars (IfElse i c T E rs # ops) = rs @ defined_vars T @ defined_vars E @ defined_vars ops"
| "defined_vars (TileFold i k ids xs ps body rs # ops) = rs @ ps @ defined_vars body @ defined_vars ops"
| "defined_vars (_ # ops) = defined_vars ops"

definition all_defined_vars :: "var list \<Rightarrow> ir_op list \<Rightarrow> var list" where
  "all_defined_vars params ops = params @ defined_vars ops"

text \<open>The objects with a nested block, and the names a block reads.\<close>

fun op_ids :: "ir_op list \<Rightarrow> nat list" where
  "op_ids [] = []"
| "op_ids (Loop i r init ps body rs # ops) = i # op_ids body @ op_ids ops"
| "op_ids (IfElse i c T E rs # ops) = i # op_ids T @ op_ids E @ op_ids ops"
| "op_ids (TileFold i k ids xs ps body rs # ops) = i # op_ids body @ op_ids ops"
| "op_ids (_ # ops) = op_ids ops"

definition read_vars :: "ir_op list \<Rightarrow> var set" where
  "read_vars ops = (\<Union>op \<in> set (traverse ops). set (all_inputs op))"

lemma read_vars_simps [simp]:
  "read_vars [] = {}"
  "read_vars (Operation c rs xs # ops) = set xs \<union> read_vars ops"
  "read_vars (Loop i r init ps body rs # ops) = set (range_vars r) \<union> set init \<union> read_vars body \<union> read_vars ops"
  "read_vars (IfElse i v T E rs # ops) = insert v (read_vars T \<union> read_vars E \<union> read_vars ops)"
  "read_vars (TileFold i k ids xs ps body rs # ops) = set xs \<union> read_vars body \<union> read_vars ops"
  "read_vars (Continue vs # ops) = set vs \<union> read_vars ops"
  "read_vars (Break vs # ops) = set vs \<union> read_vars ops"
  "read_vars (EndBranch vs # ops) = set vs \<union> read_vars ops"
  by (auto simp: read_vars_def)

lemma traverse_induct [case_names Nil Operation Loop IfElse TileFold Continue Break EndBranch]:
  assumes "P []"
    and "\<And>c rs xs ops. P ops \<Longrightarrow> P (Operation c rs xs # ops)"
    and "\<And>i r init ps body rs ops. P body \<Longrightarrow> P ops \<Longrightarrow> P (Loop i r init ps body rs # ops)"
    and "\<And>i c T E rs ops. P T \<Longrightarrow> P E \<Longrightarrow> P ops \<Longrightarrow> P (IfElse i c T E rs # ops)"
    and "\<And>i k ids xs ps body rs ops. P body \<Longrightarrow> P ops \<Longrightarrow> P (TileFold i k ids xs ps body rs # ops)"
    and "\<And>vs ops. P ops \<Longrightarrow> P (Continue vs # ops)"
    and "\<And>vs ops. P ops \<Longrightarrow> P (Break vs # ops)"
    and "\<And>vs ops. P ops \<Longrightarrow> P (EndBranch vs # ops)"
  shows "P ops"
  by (induction ops rule: traverse.induct) (simp_all only: assms)

end
