(* ===== verification/IRSem.thy ===== *)
theory IRSem
  imports IR
begin

text \<open>
  A reference semantics of the intermediate representation, over which the passes are specified.

  \<^item> \<open>machine\<close> is what the passes do not know: the operations as functions of their operands and of
    the state (memory, printed text, \<dots>), the truth of a condition, the values of a range, and the
    view of a tile as lanes of elements along an axis;
  \<^item> \<open>exec M n ops \<rho> s\<close> runs the operations of a block; \<open>None\<close> is a run that goes wrong (an undefined
    variable, the wrong number of values, an operation that traps) or needs more than \<open>n\<close> iterations
    of a \<^verbatim>\<open>while\<close> loop;
  \<^item> a block ends by falling through, or with the values of its terminator.
\<close>

section \<open>Machines and outcomes\<close>

record ('v, 's) machine =
  m_step :: "op_class \<Rightarrow> 'v list \<Rightarrow> 's \<Rightarrow> ('v list \<times> 's) option"
  m_true :: "'v \<Rightarrow> bool"
  m_range :: "'v \<Rightarrow> 'v \<Rightarrow> 'v \<Rightarrow> 'v list option"
  m_const :: "py_const \<Rightarrow> 'v"
  m_dims :: "int \<Rightarrow> 'v \<Rightarrow> nat \<times> nat"
  m_elem :: "int \<Rightarrow> 'v \<Rightarrow> nat \<Rightarrow> nat \<Rightarrow> 'v"
  m_tile :: "int \<Rightarrow> 'v list list \<Rightarrow> 'v"

datatype 'v outcome = Fell | Continued "'v list" | Broke "'v list" | Yielded "'v list" | Returned

type_synonym 'v env = "var \<Rightarrow> 'v option"

definition lookups :: "'v env \<Rightarrow> var list \<Rightarrow> 'v list option" where
  "lookups \<rho> xs = those (List.map \<rho> xs)"

definition bind_vars :: "var list \<Rightarrow> 'v list \<Rightarrow> 'v env \<Rightarrow> 'v env option" where
  "bind_vars xs vs \<rho> = (if length xs = length vs then Some (\<rho>(xs [\<mapsto>] vs)) else None)"

section \<open>Loops\<close>

text \<open>A body takes the values of its parameters and the state.\<close>

type_synonym ('v, 's) body = "'v list \<Rightarrow> 's \<Rightarrow> ('v outcome \<times> 's) option"

fun while_loop :: "('v, 's) body \<Rightarrow> nat \<Rightarrow> 'v list \<Rightarrow> 's \<Rightarrow> ('v outcome \<times> 's) option" where
  "while_loop f 0 vs s = None"
| "while_loop f (Suc n) vs s = (case f vs s of
     Some (Continued ws, t) \<Rightarrow> while_loop f n ws t
   | Some (Broke ws, t) \<Rightarrow> Some (Yielded ws, t)
   | Some (Returned, t) \<Rightarrow> Some (Returned, t)
   | _ \<Rightarrow> None)"

fun for_loop :: "('v, 's) body \<Rightarrow> 'v list \<Rightarrow> 'v list \<Rightarrow> 's \<Rightarrow> ('v outcome \<times> 's) option" where
  "for_loop f [] vs s = Some (Yielded vs, s)"
| "for_loop f (i # is) vs s = (case f (i # vs) s of
     Some (Continued ws, t) \<Rightarrow> for_loop f is ws t
   | Some (Broke ws, t) \<Rightarrow> Some (Yielded ws, t)
   | Some (Returned, t) \<Rightarrow> Some (Returned, t)
   | _ \<Rightarrow> None)"

section \<open>Reductions and scans\<close>

text \<open>The running results of a lane: each element, a tuple of one value per tile, is combined with
  the accumulated tuple, starting with the identities.\<close>

fun accumulate :: "('v list \<Rightarrow> 'v list \<Rightarrow> 'v list option) \<Rightarrow> 'v list \<Rightarrow> 'v list list \<Rightarrow> 'v list list option" where
  "accumulate g a [] = Some []"
| "accumulate g a (e # es) = Option.bind (g a e) (\<lambda>b. map_option ((#) b) (accumulate g b es))"

definition fold_lane :: "fold_kind \<Rightarrow> ('v list \<Rightarrow> 'v list \<Rightarrow> 'v list option) \<Rightarrow> 'v list \<Rightarrow> 'v list list \<Rightarrow> 'v list list option" where
  "fold_lane k g a es = (case k of
     TileReduce _ \<Rightarrow> map_option (\<lambda>as. [last (a # as)]) (accumulate g a es)
   | TileScan _ True \<Rightarrow> map_option rev (accumulate g a (rev es))
   | TileScan _ False \<Rightarrow> accumulate g a es)"

fun fold_axis :: "fold_kind \<Rightarrow> int" where
  "fold_axis (TileReduce a) = a"
| "fold_axis (TileScan a _) = a"

definition lane :: "('v, 's) machine \<Rightarrow> int \<Rightarrow> 'v list \<Rightarrow> nat \<Rightarrow> nat \<Rightarrow> 'v list list" where
  "lane M ax vs q i = List.map (\<lambda>j. List.map (\<lambda>v. m_elem M ax v i j) vs) [0..<q]"

definition fold_tiles ::
    "('v, 's) machine \<Rightarrow> fold_kind \<Rightarrow> ('v list \<Rightarrow> 'v list \<Rightarrow> 'v list option) \<Rightarrow> py_const list \<Rightarrow> 'v list \<Rightarrow> 'v list option" where
  "fold_tiles M k g ids vs = (let ax = fold_axis k in
     if vs = [] then Some []
     else let (p, q) = m_dims M ax (hd vs) in
       if (\<forall>v \<in> set vs. m_dims M ax v = (p, q)) \<and> length ids = length vs
       then map_option (\<lambda>rows. List.map (\<lambda>t. m_tile M ax (List.map (List.map (\<lambda>r. r ! t)) rows)) [0..<length vs])
              (those (List.map (\<lambda>i. fold_lane k g (List.map (m_const M) ids) (lane M ax vs q i)) [0..<p]))
       else None)"

section \<open>Blocks\<close>

text \<open>What follows an operation that hands on values: its results are bound and the rest of the block
  runs; a jump or a return leaves the block.\<close>

definition resume :: "var list \<Rightarrow> 'v env \<Rightarrow> ('v env \<Rightarrow> 's \<Rightarrow> ('v outcome \<times> 's) option) \<Rightarrow>
    ('v outcome \<times> 's) option \<Rightarrow> ('v outcome \<times> 's) option" where
  "resume rs \<rho> k r = Option.bind r (\<lambda>(out, t). case out of
     Yielded ys \<Rightarrow> Option.bind (bind_vars rs ys \<rho>) (\<lambda>\<rho>'. k \<rho>' t)
   | Fell \<Rightarrow> None
   | _ \<Rightarrow> Some (out, t))"

definition run_loop :: "('v, 's) machine \<Rightarrow> nat \<Rightarrow> (var \<times> var \<times> var) option \<Rightarrow> 'v env \<Rightarrow> ('v, 's) body \<Rightarrow>
    'v list \<Rightarrow> 's \<Rightarrow> ('v outcome \<times> 's) option" where
  "run_loop M n r \<rho> f vs s = (case r of
     None \<Rightarrow> while_loop f n vs s
   | Some (start, stop, step) \<Rightarrow>
       Option.bind (\<rho> start) (\<lambda>a. Option.bind (\<rho> stop) (\<lambda>b. Option.bind (\<rho> step) (\<lambda>c.
         Option.bind (m_range M a b c) (\<lambda>is. for_loop f is vs s)))))"

definition yielded :: "nat \<Rightarrow> ('v outcome \<times> 's) option \<Rightarrow> 'v list option" where
  "yielded k r = (case r of Some (Yielded ys, t) \<Rightarrow> if length ys = k then Some ys else None | _ \<Rightarrow> None)"

fun exec :: "('v, 's) machine \<Rightarrow> nat \<Rightarrow> ir_op list \<Rightarrow> 'v env \<Rightarrow> 's \<Rightarrow> ('v outcome \<times> 's) option" where
  "exec M n [] \<rho> s = Some (Fell, s)"
| "exec M n (Operation c rs xs # ops) \<rho> s =
     (if c = Return then Some (Returned, s)
      else Option.bind (lookups \<rho> xs) (\<lambda>vs. Option.bind (m_step M c vs s) (\<lambda>(ys, t).
        resume rs \<rho> (exec M n ops) (Some (Yielded ys, t)))))"
| "exec M n (Loop i r init ps body rs # ops) \<rho> s =
     Option.bind (lookups \<rho> init) (\<lambda>vs. resume rs \<rho> (exec M n ops)
       (run_loop M n r \<rho> (\<lambda>ws t. Option.bind (bind_vars ps ws \<rho>) (\<lambda>\<rho>'. exec M n body \<rho>' t)) vs s))"
| "exec M n (IfElse i c T E rs # ops) \<rho> s =
     Option.bind (\<rho> c) (\<lambda>v. resume rs \<rho> (exec M n ops)
       (if m_true M v then exec M n T \<rho> s else exec M n E \<rho> s))"
| "exec M n (TileFold i k ids xs ps body rs # ops) \<rho> s =
     Option.bind (lookups \<rho> xs) (\<lambda>vs. Option.bind (fold_tiles M k
         (\<lambda>a e. Option.bind (bind_vars ps (a @ e) \<rho>) (\<lambda>\<rho>'. yielded (length vs) (exec M n body \<rho>' s))) ids vs)
       (\<lambda>ys. resume rs \<rho> (exec M n ops) (Some (Yielded ys, s))))"
| "exec M n (Continue xs # ops) \<rho> s = Option.bind (lookups \<rho> xs) (\<lambda>vs. Some (Continued vs, s))"
| "exec M n (Break xs # ops) \<rho> s = Option.bind (lookups \<rho> xs) (\<lambda>vs. Some (Broke vs, s))"
| "exec M n (EndBranch xs # ops) \<rho> s = Option.bind (lookups \<rho> xs) (\<lambda>vs. Some (Yielded vs, s))"

section \<open>Facts about runs\<close>

lemma lookups_simps [simp]:
  "lookups \<rho> [] = Some []"
  "lookups \<rho> (x # xs) = Option.bind (\<rho> x) (\<lambda>v. Option.bind (lookups \<rho> xs) (\<lambda>vs. Some (v # vs)))"
  by (auto simp: lookups_def split: option.splits Option.bind_splits)

lemma lookups_list_all2: "lookups \<rho> xs = Some vs \<longleftrightarrow> list_all2 (\<lambda>x v. \<rho> x = Some v) xs vs"
  by (induction xs arbitrary: vs) (auto simp: bind_eq_Some_conv list_all2_Cons1)

lemma lookups_length: "lookups \<rho> xs = Some vs \<Longrightarrow> length vs = length xs"
  by (auto simp: lookups_list_all2 dest: list_all2_lengthD)

lemma lookups_cong: "(\<And>x. x \<in> set xs \<Longrightarrow> \<rho> x = \<rho>' x) \<Longrightarrow> lookups \<rho> xs = lookups \<rho>' xs"
  by (induction xs) auto

lemma bind_vars_Some: "bind_vars xs vs \<rho> = Some \<rho>' \<longleftrightarrow> length xs = length vs \<and> \<rho>' = \<rho>(xs [\<mapsto>] vs)"
  by (auto simp: bind_vars_def)

lemma resume_Some:
  "resume rs \<rho> k r = Some x \<longleftrightarrow> (\<exists>out t. r = Some (out, t) \<and>
     ((\<exists>ys \<rho>'. out = Yielded ys \<and> bind_vars rs ys \<rho> = Some \<rho>' \<and> k \<rho>' t = Some x) \<or>
      (out = Returned \<or> (\<exists>ys. out = Continued ys) \<or> (\<exists>ys. out = Broke ys)) \<and> x = (out, t)))"
proof (cases r)
  case (Some p)
  obtain out t where "p = (out, t)" by (cases p)
  then show ?thesis using Some by (cases out) (auto simp: resume_def bind_eq_Some_conv)
qed (simp add: resume_def)

lemma while_loop_outcome: "while_loop f n vs s = Some (out, t) \<Longrightarrow> out = Returned \<or> (\<exists>ys. out = Yielded ys)"
  by (induction f n vs s rule: while_loop.induct) (auto split: option.splits outcome.splits prod.splits)

lemma for_loop_outcome: "for_loop f is vs s = Some (out, t) \<Longrightarrow> out = Returned \<or> (\<exists>ys. out = Yielded ys)"
  by (induction f "is" vs s rule: for_loop.induct) (auto split: option.splits outcome.splits prod.splits)

lemma run_loop_outcome: "run_loop M n r \<rho> f vs s = Some (out, t) \<Longrightarrow> out = Returned \<or> (\<exists>ys. out = Yielded ys)"
  by (auto simp: run_loop_def bind_eq_Some_conv dest: while_loop_outcome for_loop_outcome split: option.splits prod.splits)

text \<open>A relation between the values, outcomes and states of two loops carries over from one iteration
  to the whole run.\<close>

lemma while_loop_sim:
  assumes step: "\<And>vs ws s x. R vs ws \<Longrightarrow> f vs s = Some x \<Longrightarrow>
      (case x of (Continued vs', t) \<Rightarrow> \<exists>ws'. g ws s = Some (Continued ws', t) \<and> R vs' ws'
       | (Broke vs', t) \<Rightarrow> \<exists>ws'. g ws s = Some (Broke ws', t) \<and> Q vs' ws'
       | (Returned, t) \<Rightarrow> g ws s = Some (Returned, t) | _ \<Rightarrow> True)"
  shows "while_loop f n vs s = Some (out, t) \<Longrightarrow> R vs ws \<Longrightarrow>
    (out = Returned \<and> while_loop g n ws s = Some (Returned, t)) \<or>
    (\<exists>ys zs. out = Yielded ys \<and> while_loop g n ws s = Some (Yielded zs, t) \<and> Q ys zs)"
proof (induction n arbitrary: vs ws s)
  case (Suc n)
  then obtain x where x: "f vs s = Some x" by (auto split: option.splits)
  from step [OF Suc.prems(2) x] Suc.prems x Suc.IH show ?case
    by (fastforce split: outcome.splits prod.splits)
qed simp

lemma for_loop_sim:
  assumes step: "\<And>i vs ws s x. R vs ws \<Longrightarrow> f (i # vs) s = Some x \<Longrightarrow>
      (case x of (Continued vs', t) \<Rightarrow> \<exists>ws'. g (i # ws) s = Some (Continued ws', t) \<and> R vs' ws'
       | (Broke vs', t) \<Rightarrow> \<exists>ws'. g (i # ws) s = Some (Broke ws', t) \<and> Q vs' ws'
       | (Returned, t) \<Rightarrow> g (i # ws) s = Some (Returned, t) | _ \<Rightarrow> True)"
    and "\<And>vs ws. R vs ws \<Longrightarrow> Q vs ws"
  shows "for_loop f is vs s = Some (out, t) \<Longrightarrow> R vs ws \<Longrightarrow>
    (out = Returned \<and> for_loop g is ws s = Some (Returned, t)) \<or>
    (\<exists>ys zs. out = Yielded ys \<and> for_loop g is ws s = Some (Yielded zs, t) \<and> Q ys zs)"
proof (induction "is" arbitrary: vs ws s)
  case (Cons i "is")
  then obtain x where x: "f (i # vs) s = Some x" by (auto split: option.splits)
  from step [OF Cons.prems(2) x] Cons.prems x Cons.IH show ?case
    by (fastforce split: outcome.splits prod.splits)
qed (use assms(2) in auto)

end
