(* ===== verification/Dce.thy ===== *)
theory Dce
  imports IRSem
begin

text \<open>
  \<^verbatim>\<open>src/cuda/tile/_passes/dce.py\<close>: dead code elimination.

  \<^item> \<open>build_dataflow_graph\<close> records for every variable, and for the pseudovariable \<^verbatim>\<open>$cf\<close> of every
    operation with a nested block, what it depends on; the graph is a dictionary, kept as an
    association list;
  \<^item> \<open>find_used_variables\<close> closes the set of used variables under the edges of the graph. The order
    in which Python lists a set is not specified; the model keeps the set as a list;
  \<^item> \<open>prune_block\<close> drops what is not used and replaces pruned operands of the terminators by dummies.
\<close>

section \<open>The data-flow graph\<close>

type_synonym dataflow_graph = "(var \<times> var list) list"

record dce_state =
  dce_ctx :: ir_context
  graph :: dataflow_graph
  used :: "var list"
  op_to_cf_name :: "(nat \<times> var) list"

text \<open>What \<^verbatim>\<open>innermost_loop\<close> is asked for.\<close>

record loop_info =
  loop_is_for :: bool
  loop_body_vars :: "var list"
  loop_result_vars :: "var list"

type_synonym 'a dce = "(dce_state, 'a) eff"

text \<open>\<^verbatim>\<open>for x, y in zip(xs, ys, strict=True)\<close>: the bodies of the common prefix run first.\<close>

definition zip_strict :: "'a list \<Rightarrow> 'b list \<Rightarrow> ('a \<times> 'b \<Rightarrow> ('s, unit) eff) \<Rightarrow> ('s, unit) eff" where
  "zip_strict xs ys f = bindE (forE (zip xs ys) f)
     (\<lambda>_. if length xs = length ys then skipE else raiseE ValueError)"

definition zip3_strict :: "'a list \<Rightarrow> 'b list \<Rightarrow> 'c list \<Rightarrow> ('a \<times> 'b \<times> 'c \<Rightarrow> ('s, unit) eff) \<Rightarrow> ('s, unit) eff" where
  "zip3_strict xs ys zs f = bindE (forE (zip xs (zip ys zs)) f)
     (\<lambda>_. if length xs = length ys \<and> length ys = length zs then skipE else raiseE ValueError)"

definition graph_set :: "var \<Rightarrow> var list \<Rightarrow> unit dce" where
  "graph_set dst deps = modifyE (\<lambda>s. s\<lparr>graph := AList.update dst deps (graph s)\<rparr>)"

definition graph_append :: "var \<Rightarrow> var \<Rightarrow> unit dce" where
  "graph_append dst src = bindE (getE (\<lambda>s. map_of (graph s) dst)) (\<lambda>old. case old of
     None \<Rightarrow> raiseE KeyError
   | Some deps \<Rightarrow> graph_set dst (deps @ [src]))"

definition graph_append_opt :: "var \<Rightarrow> var option \<Rightarrow> unit dce" where
  "graph_append_opt dst src = (case src of None \<Rightarrow> skipE | Some x \<Rightarrow> graph_append dst x)"

definition make_control_flow_name :: "nat \<Rightarrow> var dce" where
  "make_control_flow_name op = bindE (zoom dce_ctx (\<lambda>c s. s\<lparr>dce_ctx := c\<rparr>) (make_var ''$cf'')) (\<lambda>cf_name.
     bindE (modifyE (\<lambda>s. s\<lparr>op_to_cf_name := AList.update op cf_name (op_to_cf_name s)\<rparr>)) (\<lambda>_. retE cf_name))"

definition use_all :: "var list \<Rightarrow> unit dce" where
  "use_all xs = modifyE (\<lambda>s. s\<lparr>used := fold List.insert xs (used s)\<rparr>)"

text \<open>The edges of \<^verbatim>\<open>Loop\<close>, \<^verbatim>\<open>Continue\<close>, \<^verbatim>\<open>Break\<close>, \<^verbatim>\<open>TileReduce\<close>/\<^verbatim>\<open>TileScan\<close> and \<^verbatim>\<open>EndBranch\<close>.\<close>

definition loop_edges :: "(var \<times> var \<times> var) option \<Rightarrow> var list \<Rightarrow> var list \<Rightarrow> var list \<Rightarrow> var \<Rightarrow> var option \<Rightarrow> unit dce" where
  "loop_edges r init bvs rs cf_name innermost_cf_name =
     seqE [graph_set cf_name [],
           zip3_strict init bvs rs (\<lambda>(init_var, body_var, res_var).
             seqE [graph_set body_var [init_var, cf_name]] (graph_set res_var [cf_name])),
           graph_append_opt cf_name innermost_cf_name]
       (case r of None \<Rightarrow> skipE
        | Some (start, stop, step) \<Rightarrow>
            seqE [graph_append cf_name start, graph_append cf_name stop, graph_append cf_name step]
              (zip_strict rs init (\<lambda>(res_var, init_var). graph_append res_var init_var)))"

definition continue_edges :: "loop_info option \<Rightarrow> var option \<Rightarrow> var option \<Rightarrow> var list \<Rightarrow> unit dce" where
  "continue_edges innermost_loop innermost_loop_name innermost_cf_name vs =
     (case (innermost_loop, innermost_loop_name) of
        (Some l, Some n) \<Rightarrow>
          seqE [graph_append_opt n innermost_cf_name,
                zip_strict (loop_body_vars l) vs (\<lambda>(body_var, next_var). graph_append body_var next_var)]
            (if loop_is_for l
             then zip_strict (loop_result_vars l) vs (\<lambda>(res_var, next_var). graph_append res_var next_var)
             else skipE)
      | _ \<Rightarrow> raiseE AssertionError)"

definition break_edges :: "loop_info option \<Rightarrow> var option \<Rightarrow> var option \<Rightarrow> var list \<Rightarrow> unit dce" where
  "break_edges innermost_loop innermost_loop_name innermost_cf_name vs =
     (case (innermost_loop, innermost_loop_name) of
        (Some l, Some n) \<Rightarrow>
          seqE [graph_append_opt n innermost_cf_name]
            (zip_strict (loop_result_vars l) vs (\<lambda>(res_var, out_var). graph_append res_var out_var))
      | _ \<Rightarrow> raiseE AssertionError)"

definition end_branch_edges :: "var list option \<Rightarrow> var list \<Rightarrow> unit dce" where
  "end_branch_edges target vs = (case target of
     None \<Rightarrow> raiseE AttributeError
   | Some rs \<Rightarrow> zip_strict rs vs (\<lambda>(res_var, out_var). graph_append res_var out_var))"

definition fold_lhs :: "var list \<Rightarrow> var list \<Rightarrow> var list" where
  "fold_lhs xs params = take (length xs) params"

definition fold_rhs :: "var list \<Rightarrow> var list \<Rightarrow> var list" where
  "fold_rhs xs params = drop (length xs) params"

definition fold_edges :: "var list \<Rightarrow> var list \<Rightarrow> var list \<Rightarrow> var \<Rightarrow> var option \<Rightarrow> unit dce" where
  "fold_edges xs params rs cf_name innermost_cf_name =
     seqE [graph_set cf_name [], graph_append_opt cf_name innermost_cf_name,
           assertE (length params = length xs * 2)]
       (zip_strict (zip xs (zip (fold_lhs xs params) (fold_rhs xs params))) rs (\<lambda>((x, a, b), res_var).
          seqE [graph_set a [x, res_var], graph_set b [x, res_var]]
            (graph_set res_var [cf_name, x, a, b])))"

fun build_dataflow_graph ::
    "ir_op list \<Rightarrow> loop_info option \<Rightarrow> var option \<Rightarrow> var list option \<Rightarrow> var option \<Rightarrow> unit dce" where
  "build_dataflow_graph [] l ln t cf = skipE"
| "build_dataflow_graph (Loop i r init ps body rs # ops) l ln t cf =
     bindE (make_control_flow_name i) (\<lambda>cf_name.
       seqE [loop_edges r init (body_vars r ps) rs cf_name cf,
             build_dataflow_graph body
               (Some \<lparr>loop_is_for = (r \<noteq> None), loop_body_vars = body_vars r ps, loop_result_vars = rs\<rparr>)
               (Some cf_name) None (Some cf_name)]
         (build_dataflow_graph ops l ln t cf))"
| "build_dataflow_graph (Continue vs # ops) l ln t cf =
     seqE [continue_edges l ln cf vs] (build_dataflow_graph ops l ln t cf)"
| "build_dataflow_graph (Break vs # ops) l ln t cf =
     seqE [break_edges l ln cf vs] (build_dataflow_graph ops l ln t cf)"
| "build_dataflow_graph (IfElse i c T E rs # ops) l ln t cf =
     bindE (make_control_flow_name i) (\<lambda>cf_name.
       seqE [graph_set cf_name [c], graph_append_opt cf_name cf,
             forE rs (\<lambda>res_var. graph_set res_var [cf_name]),
             build_dataflow_graph T l ln (Some rs) (Some cf_name),
             build_dataflow_graph E l ln (Some rs) (Some cf_name)]
         (build_dataflow_graph ops l ln t cf))"
| "build_dataflow_graph (TileFold i k ids xs ps body rs # ops) l ln t cf =
     bindE (make_control_flow_name i) (\<lambda>cf_name.
       seqE [fold_edges xs ps rs cf_name cf,
             build_dataflow_graph body None None (Some rs) (Some cf_name)]
         (build_dataflow_graph ops l ln t cf))"
| "build_dataflow_graph (EndBranch vs # ops) l ln t cf =
     seqE [end_branch_edges t vs] (build_dataflow_graph ops l ln t cf)"
| "build_dataflow_graph (Operation c rs xs # ops) l ln t cf =
     (let deps = xs @ (case cf of None \<Rightarrow> [] | Some n \<Rightarrow> [n]) in
      seqE [if has_observable_effect c then use_all deps else skipE,
            forE rs (\<lambda>dst_var. graph_set dst_var deps)]
        (build_dataflow_graph ops l ln t cf))"

section \<open>Used variables\<close>

text \<open>\<^verbatim>\<open>pending\<close> is a stack whose top is the head of the list.\<close>

definition new_sources :: "var list \<Rightarrow> var list \<Rightarrow> var list" where
  "new_sources srcs us = filter (\<lambda>x. x \<notin> set us) (rev (remdups (rev srcs)))"

definition edge_sources :: "dataflow_graph \<Rightarrow> var set" where
  "edge_sources g = (\<Union>(d, srcs) \<in> set g. set srcs)"

lemma finite_edge_sources: "finite (edge_sources g)"
  by (auto simp: edge_sources_def)

function find_used_variables :: "dataflow_graph \<Rightarrow> var list \<Rightarrow> var list \<Rightarrow> var list" where
  "find_used_variables g us [] = us"
| "find_used_variables g us (dst # pending) =
     (let new = new_sources (case map_of g dst of None \<Rightarrow> [] | Some srcs \<Rightarrow> srcs) us in
      find_used_variables g (rev new @ us) (rev new @ pending))"
  by pat_completeness auto
termination
proof (relation "measures [\<lambda>(g, us, p). card (edge_sources g - set us), \<lambda>(g, us, p). length p]")
  fix g :: dataflow_graph and us :: "var list" and dst :: var and pending new :: "var list"
  assume new: "new = new_sources (case map_of g dst of None \<Rightarrow> [] | Some srcs \<Rightarrow> srcs) us"
  show "((g, rev new @ us, rev new @ pending), g, us, dst # pending)
    \<in> measures [\<lambda>(g, us, p). card (edge_sources g - set us), \<lambda>(g, us, p). length p]"
  proof (cases "new = []")
    case False
    have "set new \<subseteq> edge_sources g - set us"
      by (force simp: new new_sources_def edge_sources_def dest!: sym [of "Some _"] map_of_SomeD split: option.splits)
    then have "edge_sources g - set (rev new @ us) \<subset> edge_sources g - set us"
      using False by (cases new) auto
    then have "card (edge_sources g - set (rev new @ us)) < card (edge_sources g - set us)"
      by (rule psubset_card_mono [rotated]) (simp add: finite_edge_sources)
    then show ?thesis by simp
  qed simp
qed simp

section \<open>Pruning\<close>

definition select_by_mask :: "'a list \<Rightarrow> bool list \<Rightarrow> ('s, 'a list) eff" where
  "select_by_mask xs ms =
     (if length xs = length ms then retE (List.map fst (filter snd (zip xs ms))) else raiseE ValueError)"

definition make_dummy_like :: "var \<Rightarrow> (var \<times> ir_op) ir" where
  "make_dummy_like v = bindE (make_var_like v) (\<lambda>dummy_var.
     bindE (get_type v) (\<lambda>ty.
     bindE (set_type dummy_var ty) (\<lambda>_.
     retE (dummy_var, Operation MakeDummy [dummy_var] []))))"

text \<open>The new operands, and the dummies they need.\<close>

fun replace_pruned_with_dummy :: "var list \<Rightarrow> var set \<Rightarrow> (var list \<times> ir_op list) ir" where
  "replace_pruned_with_dummy [] us = retE ([], [])"
| "replace_pruned_with_dummy (v # vs) us =
     bindE (if v \<in> us then retE (v, []) else bindE (make_dummy_like v) (\<lambda>(d, op). retE (d, [op]))) (\<lambda>(x, o1).
     bindE (replace_pruned_with_dummy vs us) (\<lambda>(xs, o2). retE (x # xs, o1 @ o2)))"

definition cf_used :: "(nat \<times> var) list \<Rightarrow> var set \<Rightarrow> nat \<Rightarrow> bool ir" where
  "cf_used cfs us i = (case map_of cfs i of None \<Rightarrow> raiseE KeyError | Some n \<Rightarrow> retE (n \<in> us))"

definition strict_masks :: "bool list \<Rightarrow> 'a list \<Rightarrow> 'b list \<Rightarrow> ('s, bool list) eff" where
  "strict_masks m xs ys = (if length xs = length ys then retE m else raiseE ValueError)"

fun prune_block :: "ir_op list \<Rightarrow> var set \<Rightarrow> (nat \<times> var) list \<Rightarrow> bool list \<Rightarrow> bool list \<Rightarrow> ir_op list ir" where
  "prune_block [] us cfs loop_mask end_branch_mask = retE []"
| "prune_block (Loop i r init ps body rs # ops) us cfs loop_mask end_branch_mask =
     bindE (cf_used cfs us i) (\<lambda>keep.
     if \<not> keep then prune_block ops us cfs loop_mask end_branch_mask
     else
       let bvs = body_vars r ps in
       bindE (strict_masks (List.map (\<lambda>(b, res). b \<in> us \<or> res \<in> us) (zip bvs rs)) bvs rs) (\<lambda>mask.
       bindE (select_by_mask init mask) (\<lambda>init1.
       bindE (replace_pruned_with_dummy init1 us) (\<lambda>(init2, dummies).
       bindE (select_by_mask rs mask) (\<lambda>rs'.
       bindE (prune_block body us cfs mask []) (\<lambda>body'.
       bindE (select_by_mask bvs mask) (\<lambda>bvs'.
       bindE (if r \<noteq> None \<and> ps = [] then raiseE IndexError else skipE) (\<lambda>_.
       bindE (prune_block ops us cfs loop_mask end_branch_mask) (\<lambda>ops'.
       retE (dummies @ Loop i r init2 (if r = None then bvs' else hd ps # bvs') body' rs' # ops'))))))))))"
| "prune_block (Continue vs # ops) us cfs loop_mask end_branch_mask =
     bindE (select_by_mask vs loop_mask) (\<lambda>vs1.
     bindE (replace_pruned_with_dummy vs1 us) (\<lambda>(vs2, dummies).
     bindE (prune_block ops us cfs loop_mask end_branch_mask) (\<lambda>ops'.
     retE (dummies @ Continue vs2 # ops'))))"
| "prune_block (Break vs # ops) us cfs loop_mask end_branch_mask =
     bindE (select_by_mask vs loop_mask) (\<lambda>vs1.
     bindE (replace_pruned_with_dummy vs1 us) (\<lambda>(vs2, dummies).
     bindE (prune_block ops us cfs loop_mask end_branch_mask) (\<lambda>ops'.
     retE (dummies @ Break vs2 # ops'))))"
| "prune_block (IfElse i c T E rs # ops) us cfs loop_mask end_branch_mask =
     bindE (cf_used cfs us i) (\<lambda>keep.
     if \<not> keep then prune_block ops us cfs loop_mask end_branch_mask
     else
       let mask = List.map (\<lambda>v. v \<in> us) rs in
       bindE (prune_block T us cfs loop_mask mask) (\<lambda>T'.
       bindE (prune_block E us cfs loop_mask mask) (\<lambda>E'.
       bindE (select_by_mask rs mask) (\<lambda>rs'.
       bindE (prune_block ops us cfs loop_mask end_branch_mask) (\<lambda>ops'.
       retE (IfElse i c T' E' rs' # ops'))))))"
| "prune_block (TileFold i k ids xs ps body rs # ops) us cfs loop_mask end_branch_mask =
     bindE (cf_used cfs us i) (\<lambda>keep.
     if \<not> keep then prune_block ops us cfs loop_mask end_branch_mask
     else
       let mask = List.map (\<lambda>v. v \<in> us) rs in
       bindE (prune_block body us cfs [] mask) (\<lambda>body'.
       bindE (select_by_mask xs mask) (\<lambda>xs'.
       bindE (select_by_mask ids mask) (\<lambda>ids'.
       bindE (assertE (length ps = length xs * 2)) (\<lambda>_.
       bindE (select_by_mask (fold_lhs xs ps) mask) (\<lambda>lhs'.
       bindE (select_by_mask (fold_rhs xs ps) mask) (\<lambda>rhs'.
       bindE (select_by_mask rs mask) (\<lambda>rs'.
       bindE (prune_block ops us cfs loop_mask end_branch_mask) (\<lambda>ops'.
       retE (TileFold i k ids' xs' (lhs' @ rhs') body' rs' # ops'))))))))))"
| "prune_block (EndBranch vs # ops) us cfs loop_mask end_branch_mask =
     bindE (select_by_mask vs end_branch_mask) (\<lambda>vs'.
     bindE (prune_block ops us cfs loop_mask end_branch_mask) (\<lambda>ops'.
     retE (EndBranch vs' # ops')))"
| "prune_block (Operation c rs xs # ops) us cfs loop_mask end_branch_mask =
     bindE (prune_block ops us cfs loop_mask end_branch_mask) (\<lambda>ops'.
     retE (if (\<exists>r \<in> set rs. r \<in> us) \<or> has_observable_effect c then Operation c rs xs # ops' else ops'))"

definition dead_code_elimination_pass :: "ir_op list \<Rightarrow> ir_op list ir" where
  "dead_code_elimination_pass root_block = (\<lambda>ctx.
     case build_dataflow_graph root_block None None None None
            \<lparr>dce_ctx = ctx, graph = [], used = [], op_to_cf_name = []\<rparr> of
       (Inl e, st) \<Rightarrow> (Inl e, dce_ctx st)
     | (Inr _, st) \<Rightarrow>
         prune_block root_block (set (find_used_variables (graph st) (used st) (used st)))
           (op_to_cf_name st) [] [] (dce_ctx st))"

end
