(* ===== verification/DceFlow.thy ===== *)
theory DceFlow
  imports Dce
begin

text \<open>
  What the data-flow graph of dead code elimination guarantees.

  \<^item> \<open>find_used_variables\<close> computes exactly the variables reachable from the initial ones;
  \<^item> \<open>edges st d x\<close>: the graph has an edge from \<open>d\<close> to \<open>x\<close>; \<open>None\<close> stands for the initial set of used
    variables;
  \<^item> \<open>flow E cfn ops l ln t cf\<close>: the edges that the operations of a block need are in \<open>E\<close>;
  \<^item> \<open>graph_grows D X I P m\<close>: an effect \<open>m\<close> that defines the names \<open>D\<close>, reads the names \<open>X\<close> and visits
    the operations \<open>I\<close>; it keeps all earlier edges, and \<open>P\<close> holds from then on;
  \<^item> \<open>build_flow\<close>: \<open>build_dataflow_graph\<close> records the flow of a program whose names are distinct.
\<close>

section \<open>Reachability\<close>

definition graph_edges :: "dataflow_graph \<Rightarrow> (var \<times> var) set" where
  "graph_edges g = {(d, x). \<exists>srcs. map_of g d = Some srcs \<and> x \<in> set srcs}"

lemma set_new_sources: "set (new_sources srcs us) = set srcs - set us"
  by (auto simp: new_sources_def)

lemma find_used_spec:
  assumes "set pending \<subseteq> set us"
    and "\<And>d x. d \<in> set us - set pending \<Longrightarrow> (d, x) \<in> graph_edges g \<Longrightarrow> x \<in> set us"
  shows "set us \<subseteq> set (find_used_variables g us pending) \<and>
    (\<forall>d \<in> set (find_used_variables g us pending). \<forall>x. (d, x) \<in> graph_edges g \<longrightarrow> x \<in> set (find_used_variables g us pending)) \<and>
    (\<forall>x \<in> set (find_used_variables g us pending). \<exists>u \<in> set us. (u, x) \<in> (graph_edges g)\<^sup>*)"
  using assms
proof (induction g us pending rule: find_used_variables.induct)
  case (1 g us)
  then show ?case by auto
next
  case (2 g us dst pending)
  define srcs where "srcs = (case map_of g dst of None \<Rightarrow> [] | Some srcs \<Rightarrow> srcs)"
  define new where "new = new_sources srcs us"
  have succ: "(dst, x) \<in> graph_edges g \<longleftrightarrow> x \<in> set srcs" for x
    by (cases "map_of g dst") (simp_all add: graph_edges_def srcs_def)
  have new: "set new = set srcs - set us" by (simp add: new_def set_new_sources)
  let ?r = "find_used_variables g (rev new @ us) (rev new @ pending)"
  have p: "set (rev new @ pending) \<subseteq> set (rev new @ us)" using 2(2) by auto
  have q: "x \<in> set (rev new @ us)" if "d \<in> set (rev new @ us) - set (rev new @ pending)" "(d, x) \<in> graph_edges g" for d x
  proof (cases "d = dst")
    case True
    then show ?thesis using that(2) succ new by auto
  next
    case False
    then have "d \<in> set us - set (dst # pending)" using that(1) by auto
    from 2(3) [OF this that(2)] show ?thesis by simp
  qed
  have "set us \<union> set new \<subseteq> set ?r \<and>
    (\<forall>d \<in> set ?r. \<forall>x. (d, x) \<in> graph_edges g \<longrightarrow> x \<in> set ?r) \<and>
    (\<forall>x \<in> set ?r. \<exists>u \<in> set us \<union> set new. (u, x) \<in> (graph_edges g)\<^sup>*)"
  proof -
    have eq: "set (rev new @ us) = set us \<union> set new" by auto
    show ?thesis using 2(1) [OF new_def [unfolded srcs_def] p q] unfolding eq .
  qed
  moreover have "\<exists>u \<in> set us. (u, x) \<in> (graph_edges g)\<^sup>*" if "v \<in> set new" "(v, x) \<in> (graph_edges g)\<^sup>*" for v x
    using that 2(2) succ new by (auto intro!: bexI [of _ dst] converse_rtrancl_into_rtrancl [of dst v])
  moreover have "find_used_variables g us (dst # pending) = ?r" by (simp add: new_def srcs_def Let_def)
  ultimately show ?case by auto
qed

lemma find_used_reachable:
  "set (find_used_variables g us us) = (graph_edges g)\<^sup>* `` set us"
proof -
  note spec = find_used_spec [of us us g, simplified]
  let ?r = "set (find_used_variables g us us)"
  have "x \<in> ?r" if "u \<in> set us" "(u, x) \<in> (graph_edges g)\<^sup>*" for u x
    using that(2,1) spec by (induction rule: rtrancl_induct) blast+
  then show ?thesis using spec by auto
qed

section \<open>The flow of a block\<close>

type_synonym flow_edges = "var option \<Rightarrow> var \<Rightarrow> bool"

definition edges :: "dce_state \<Rightarrow> flow_edges" where
  "edges st d x = (case d of None \<Rightarrow> x \<in> set (used st) | Some y \<Rightarrow> (y, x) \<in> graph_edges (graph st))"

definition depends :: "flow_edges \<Rightarrow> var list \<Rightarrow> var list \<Rightarrow> bool" where
  "depends E ds xs \<longleftrightarrow> list_all2 (\<lambda>d x. E (Some d) x) ds xs"

definition parent :: "flow_edges \<Rightarrow> var option \<Rightarrow> var option \<Rightarrow> bool" where
  "parent E d cf \<longleftrightarrow> (\<forall>c \<in> set_option cf. E d c)"

fun flow :: "flow_edges \<Rightarrow> (nat \<Rightarrow> var option) \<Rightarrow> ir_op list \<Rightarrow>
    loop_info option \<Rightarrow> var option \<Rightarrow> var list option \<Rightarrow> var option \<Rightarrow> bool" where
  "flow E cfn [] l ln t cf = True"
| "flow E cfn (Operation c rs xs # ops) l ln t cf =
     ((has_observable_effect c \<longrightarrow> (\<forall>x \<in> set xs. E None x) \<and> parent E None cf) \<and>
      (\<forall>r \<in> set rs. (\<forall>x \<in> set xs. E (Some r) x) \<and> parent E (Some r) cf) \<and>
      flow E cfn ops l ln t cf)"
| "flow E cfn (Loop i r init ps body rs # ops) l ln t cf =
     (let bvs = body_vars r ps in
      \<exists>n. cfn i = Some n \<and> parent E (Some n) cf \<and>
        length init = length bvs \<and> length bvs = length rs \<and>
        depends E bvs init \<and> (\<forall>b \<in> set bvs. E (Some b) n) \<and> (\<forall>q \<in> set rs. E (Some q) n) \<and>
        (\<forall>x \<in> set (range_vars r). E (Some n) x) \<and> (r \<noteq> None \<longrightarrow> depends E rs init) \<and>
        flow E cfn body (Some \<lparr>loop_is_for = (r \<noteq> None), loop_body_vars = bvs, loop_result_vars = rs\<rparr>)
          (Some n) None (Some n) \<and>
        flow E cfn ops l ln t cf)"
| "flow E cfn (Continue vs # ops) l ln t cf =
     ((\<exists>li n. l = Some li \<and> ln = Some n \<and> parent E (Some n) cf \<and> depends E (loop_body_vars li) vs \<and>
        (loop_is_for li \<longrightarrow> depends E (loop_result_vars li) vs)) \<and> flow E cfn ops l ln t cf)"
| "flow E cfn (Break vs # ops) l ln t cf =
     ((\<exists>li n. l = Some li \<and> ln = Some n \<and> parent E (Some n) cf \<and> depends E (loop_result_vars li) vs) \<and>
      flow E cfn ops l ln t cf)"
| "flow E cfn (IfElse i c T F rs # ops) l ln t cf =
     (\<exists>n. cfn i = Some n \<and> E (Some n) c \<and> parent E (Some n) cf \<and> (\<forall>q \<in> set rs. E (Some q) n) \<and>
        flow E cfn T l ln (Some rs) (Some n) \<and> flow E cfn F l ln (Some rs) (Some n) \<and>
        flow E cfn ops l ln t cf)"
| "flow E cfn (TileFold i k ids xs ps body rs # ops) l ln t cf =
     (\<exists>n. cfn i = Some n \<and> parent E (Some n) cf \<and> length ps = length xs * 2 \<and> length xs = length rs \<and>
        depends E rs xs \<and> (\<forall>q \<in> set rs. E (Some q) n) \<and>
        depends E rs (fold_lhs xs ps) \<and> depends E rs (fold_rhs xs ps) \<and>
        depends E (fold_lhs xs ps) rs \<and> depends E (fold_rhs xs ps) rs \<and>
        flow E cfn body None None (Some rs) (Some n) \<and> flow E cfn ops l ln t cf)"
| "flow E cfn (EndBranch vs # ops) l ln t cf =
     ((\<exists>rs. t = Some rs \<and> depends E rs vs) \<and> flow E cfn ops l ln t cf)"

section \<open>Effects that keep the graph\<close>

definition var_names :: "dce_state \<Rightarrow> var set" where
  "var_names st = fst ` set (all_vars (dce_ctx st))"

definition graph_dom :: "dce_state \<Rightarrow> var set" where
  "graph_dom st = fst ` set (graph st)"

definition cf_ids :: "dce_state \<Rightarrow> nat set" where
  "cf_ids st = fst ` set (op_to_cf_name st)"

definition known_names :: "dce_state \<Rightarrow> bool" where
  "known_names st \<longleftrightarrow> graph_dom st \<subseteq> var_names st \<and> (\<forall>d x. edges st d x \<longrightarrow> x \<in> var_names st)"

definition extends :: "dce_state \<Rightarrow> dce_state \<Rightarrow> bool" where
  "extends st st' \<longleftrightarrow> (\<forall>d x. edges st d x \<longrightarrow> edges st' d x) \<and> var_names st \<subseteq> var_names st' \<and>
     (\<forall>i n. map_of (op_to_cf_name st) i = Some n \<longrightarrow> map_of (op_to_cf_name st') i = Some n)"

definition graph_grows :: "var set \<Rightarrow> var set \<Rightarrow> nat set \<Rightarrow> (dce_state \<Rightarrow> bool) \<Rightarrow> unit dce \<Rightarrow> bool" where
  "graph_grows D X I P m \<longleftrightarrow> (\<forall>st st'. m st = (Inr (), st') \<longrightarrow> known_names st \<longrightarrow>
     D \<inter> graph_dom st = {} \<longrightarrow> D \<union> X \<subseteq> var_names st \<longrightarrow> I \<inter> cf_ids st = {} \<longrightarrow>
     extends st st' \<and> known_names st' \<and> graph_dom st' \<subseteq> graph_dom st \<union> D \<union> - var_names st \<and>
     cf_ids st' \<subseteq> cf_ids st \<union> I \<and>
     (\<forall>st''. extends st' st'' \<longrightarrow> P st''))"

lemma extends_refl [simp]: "extends st st"
  by (simp add: extends_def)

lemma extends_trans: "extends a b \<Longrightarrow> extends b c \<Longrightarrow> extends a c"
  by (auto simp: extends_def)

lemma graph_grows_bind:
  assumes m: "graph_grows D1 X1 J1 P1 m" and k: "graph_grows D2 X2 J2 P2 k"
    and "D1 \<inter> D2 = {}" and "J1 \<inter> J2 = {}"
  shows "graph_grows (D1 \<union> D2) (X1 \<union> X2) (J1 \<union> J2) (\<lambda>st. P1 st \<and> P2 st) (bindE m (\<lambda>_. k))"
  unfolding graph_grows_def
proof (intro allI impI)
  fix st st'
  assume run: "bindE m (\<lambda>_. k) st = (Inr (), st')" and st: "known_names st"
    and D: "(D1 \<union> D2) \<inter> graph_dom st = {}" and X: "D1 \<union> D2 \<union> (X1 \<union> X2) \<subseteq> var_names st"
    and I: "(J1 \<union> J2) \<inter> cf_ids st = {}"
  from run obtain st1 where m1: "m st = (Inr (), st1)" and k1: "k st1 = (Inr (), st')"
    by (auto simp: bindE_Inr_iff)
  from m [unfolded graph_grows_def, rule_format, OF m1 st] D X I
  have 1: "extends st st1" "known_names st1" "graph_dom st1 \<subseteq> graph_dom st \<union> D1 \<union> - var_names st"
    "cf_ids st1 \<subseteq> cf_ids st \<union> J1" "\<And>s. extends st1 s \<Longrightarrow> P1 s"
    by auto
  have "var_names st \<subseteq> var_names st1" using 1(1) by (simp add: extends_def)
  then have "D2 \<inter> graph_dom st1 = {}" "D2 \<union> X2 \<subseteq> var_names st1" "J2 \<inter> cf_ids st1 = {}"
    subgoal using 1(3) D X assms(3) by blast
    subgoal using X \<open>var_names st \<subseteq> var_names st1\<close> by blast
    subgoal using 1(4) I assms(4) by blast
    done
  from k [unfolded graph_grows_def, rule_format, OF k1 1(2) this]
  have 2: "extends st1 st'" "known_names st'" "graph_dom st' \<subseteq> graph_dom st1 \<union> D2 \<union> - var_names st1"
    "cf_ids st' \<subseteq> cf_ids st1 \<union> J2" "\<And>s. extends st' s \<Longrightarrow> P2 s"
    by auto
  have "graph_dom st' \<subseteq> graph_dom st \<union> (D1 \<union> D2) \<union> - var_names st"
    using 1(3) 2(3) \<open>var_names st \<subseteq> var_names st1\<close> by blast
  moreover have "cf_ids st' \<subseteq> cf_ids st \<union> (J1 \<union> J2)"
    using 1(4) 2(4) by blast
  moreover have "P1 s \<and> P2 s" if "extends st' s" for s
    using that 1(5) 2(1,5) extends_trans by blast
  ultimately show "extends st st' \<and> known_names st' \<and> graph_dom st' \<subseteq> graph_dom st \<union> (D1 \<union> D2) \<union> - var_names st \<and>
     cf_ids st' \<subseteq> cf_ids st \<union> (J1 \<union> J2) \<and>
     (\<forall>st''. extends st' st'' \<longrightarrow> P1 st'' \<and> P2 st'')"
    using 1(1) 2(1,2) extends_trans by blast
qed

lemma graph_grows_weaken:
  assumes "graph_grows D X I P m" and "D \<subseteq> D'" "X \<subseteq> D' \<union> X'" "I \<subseteq> I'" and "\<And>st. P st \<Longrightarrow> P' st"
  shows "graph_grows D' X' I' P' m"
  unfolding graph_grows_def
proof (intro allI impI)
  fix st st'
  assume run: "m st = (Inr (), st')" "known_names st" and "D' \<inter> graph_dom st = {}"
    "D' \<union> X' \<subseteq> var_names st" "I' \<inter> cf_ids st = {}"
  then have "D \<inter> graph_dom st = {}" "D \<union> X \<subseteq> var_names st" "I \<inter> cf_ids st = {}"
    using assms(2-4) by auto
  from assms(1) [unfolded graph_grows_def, rule_format, OF run this] assms(2-5)
  show "extends st st' \<and> known_names st' \<and> graph_dom st' \<subseteq> graph_dom st \<union> D' \<union> - var_names st \<and>
     cf_ids st' \<subseteq> cf_ids st \<union> I' \<and> (\<forall>st''. extends st' st'' \<longrightarrow> P' st'')"
    by auto
qed

lemma graph_grows_skip: "graph_grows {} {} {} (\<lambda>_. True) skipE"
  by (auto simp: graph_grows_def skipE_def retE_def)

lemma graph_grows_raise: "graph_grows {} {} {} P (raiseE e)"
  by (simp add: graph_grows_def raiseE_def)

lemma graph_grows_if: "graph_grows D X J P a \<Longrightarrow> graph_grows D X J P b \<Longrightarrow> graph_grows D X J P (if c then a else b)"
  by simp

lemma edges_update:
  "edges (st\<lparr>graph := AList.update d deps (graph st)\<rparr>) y x =
     (if y = Some d then x \<in> set deps else edges st y x)"
  by (auto simp: edges_def graph_edges_def update_conv' split: option.splits)

lemma graph_dom_update: "graph_dom (st\<lparr>graph := AList.update d deps (graph st)\<rparr>) = insert d (graph_dom st)"
  by (simp add: graph_dom_def dom_update)

lemma fixed_fields [simp]:
  "var_names (st\<lparr>graph := g\<rparr>) = var_names st" "cf_ids (st\<lparr>graph := g\<rparr>) = cf_ids st"
  "var_names (st\<lparr>used := u\<rparr>) = var_names st" "cf_ids (st\<lparr>used := u\<rparr>) = cf_ids st"
  "graph_dom (st\<lparr>used := u\<rparr>) = graph_dom st"
  by (simp_all add: var_names_def cf_ids_def graph_dom_def)

lemma edge_dom: "edges st (Some d) x \<Longrightarrow> d \<in> graph_dom st"
  by (force simp: edges_def graph_edges_def graph_dom_def dest: map_of_SomeD)

lemma graph_grows_set: "graph_grows {d} (set deps) {} (\<lambda>st. \<forall>x \<in> set deps. edges st (Some d) x) (graph_set d deps)"
  unfolding graph_grows_def graph_set_def modifyE_def
  by (auto simp: known_names_def extends_def edges_update graph_dom_update dest: edge_dom split: if_splits)

lemma graph_grows_append: "graph_grows {} {x} {} (\<lambda>st. edges st (Some d) x) (graph_append d x)"
proof -
  have dom: "map_of (graph st) d = Some deps \<Longrightarrow> d \<in> graph_dom st" for st deps
    by (force simp: graph_dom_def dest: map_of_SomeD)
  have old: "map_of (graph st) d = Some deps \<Longrightarrow> edges st (Some d) y \<longleftrightarrow> y \<in> set deps" for st deps y
    by (simp add: edges_def graph_edges_def)
  have known: "map_of (graph st) d = Some deps \<Longrightarrow> \<forall>d x. edges st d x \<longrightarrow> x \<in> var_names st \<Longrightarrow> y \<in> set deps \<Longrightarrow>
      y \<in> var_names st" for st deps y
    using old by blast
  show ?thesis
    unfolding graph_grows_def graph_append_def graph_set_def
    by (auto simp: bindE_Inr_iff getE_def raiseE_def modifyE_def known_names_def extends_def edges_update
        graph_dom_update old dest: dom known split: option.splits if_splits)
qed

lemma graph_grows_append_opt: "graph_grows {} (set_option cf) {} (\<lambda>st. parent (edges st) (Some d) cf) (graph_append_opt d cf)"
proof (cases cf)
  case None
  then show ?thesis using graph_grows_weaken [OF graph_grows_skip] by (simp add: graph_append_opt_def parent_def)
next
  case (Some c)
  then show ?thesis using graph_grows_append by (simp add: graph_append_opt_def parent_def)
qed

lemma set_fold_insert: "set (fold List.insert xs us) = set xs \<union> set us"
  by (induction xs arbitrary: us) auto

lemma edges_use:
  "edges (st\<lparr>used := u\<rparr>) y x = (if y = None then x \<in> set u else edges st y x)"
  by (auto simp: edges_def split: option.splits)

lemma edges_None: "edges st None x \<longleftrightarrow> x \<in> set (used st)"
  by (simp add: edges_def)

lemma used_known: "known_names st \<Longrightarrow> x \<in> set (used st) \<Longrightarrow> x \<in> var_names st"
  using edges_None known_names_def by blast

lemma graph_grows_use_all: "graph_grows {} (set xs) {} (\<lambda>st. \<forall>x \<in> set xs. edges st None x) (use_all xs)"
  unfolding graph_grows_def use_all_def modifyE_def
  by (auto simp: known_names_def extends_def edges_use set_fold_insert split: if_splits)
     (simp_all only: flip: edges_None, blast?)

lemma graph_grows_forE:
  assumes "\<And>x. x \<in> set xs \<Longrightarrow> graph_grows (set (D x)) (X x) {} (P x) (f x)" and "distinct (concat (List.map D xs))"
  shows "graph_grows (set (concat (List.map D xs))) (\<Union>x \<in> set xs. X x) {} (\<lambda>st. \<forall>x \<in> set xs. P x st) (forE xs f)"
  using assms
proof (induction xs)
  case Nil
  then show ?case using graph_grows_skip by simp
next
  case (Cons x xs)
  have "graph_grows (set (D x) \<union> set (concat (List.map D xs))) (X x \<union> (\<Union>x \<in> set xs. X x)) ({} \<union> {})
      (\<lambda>st. P x st \<and> (\<forall>x \<in> set xs. P x st)) (bindE (f x) (\<lambda>_. forE xs f))"
    using Cons by (intro graph_grows_bind) auto
  then show ?case by simp
qed

lemma graph_grows_check:
  assumes "graph_grows D X J P m"
  shows "graph_grows D X J (\<lambda>st. P st \<and> c) (bindE m (\<lambda>_. if c then skipE else raiseE e))"
  using graph_grows_bind [OF assms graph_grows_weaken [OF graph_grows_skip, of "{}" "{}" "{}" "\<lambda>_. c"]]
    graph_grows_bind [OF assms graph_grows_raise [of "\<lambda>_. c" e]] by (cases c) simp_all

lemma graph_grows_zip_strict:
  assumes "\<And>p. p \<in> set (zip xs ys) \<Longrightarrow> graph_grows (set (D p)) (X p) {} (P p) (f p)"
    and "distinct (concat (List.map D (zip xs ys)))"
  shows "graph_grows (set (concat (List.map D (zip xs ys)))) (\<Union>p \<in> set (zip xs ys). X p) {}
    (\<lambda>st. (\<forall>p \<in> set (zip xs ys). P p st) \<and> length xs = length ys) (zip_strict xs ys f)"
  unfolding zip_strict_def by (rule graph_grows_check [OF graph_grows_forE]) (use assms in auto)

lemma graph_grows_zip_append:
  "graph_grows {} (set ys) {} (\<lambda>st. depends (edges st) xs ys) (zip_strict xs ys (\<lambda>(d, x). graph_append d x))"
proof (rule graph_grows_weaken)
  show "graph_grows (set (concat (List.map (\<lambda>_. []) (zip xs ys)))) (\<Union>p \<in> set (zip xs ys). {snd p}) {}
     (\<lambda>st. (\<forall>p \<in> set (zip xs ys). edges st (Some (fst p)) (snd p)) \<and> length xs = length ys)
     (zip_strict xs ys (\<lambda>(d, x). graph_append d x))"
    by (rule graph_grows_zip_strict) (auto simp: graph_grows_append concat_eq_Nil_conv [THEN iffD2])
qed (auto simp: depends_def list_all2_iff dest: set_zip_rightD)

text \<open>A new control-flow name.\<close>

lemma graph_grows_name:
  assumes k: "\<And>n. n \<notin> D \<union> X \<Longrightarrow> graph_grows (insert n D) X J (P n) (k n)" and "i \<notin> J"
  shows "graph_grows D X (insert i J) (\<lambda>st. \<exists>n. map_of (op_to_cf_name st) i = Some n \<and> P n st)
    (bindE (make_control_flow_name i) k)"
  unfolding graph_grows_def
proof (intro allI impI)
  fix st st'
  assume run: "bindE (make_control_flow_name i) k st = (Inr (), st')" and st: "known_names st"
    and D: "D \<inter> graph_dom st = {}" and X: "D \<union> X \<subseteq> var_names st"
    and I: "insert i J \<inter> cf_ids st = {}"
  obtain r ctx1 where mk: "make_var ''$cf'' (dce_ctx st) = (r, ctx1)" by fastforce
  from make_var_fresh [OF mk] obtain n where n: "r = Inr n" "n \<notin> var_names st"
      "all_vars ctx1 = (n, ''$cf'') # all_vars (dce_ctx st)" by (auto simp: var_names_def)
  let ?st1 = "st\<lparr>dce_ctx := ctx1, op_to_cf_name := AList.update i n (op_to_cf_name st)\<rparr>"
  have run1: "k n ?st1 = (Inr (), st')"
    using run mk n(1) by (auto simp: make_control_flow_name_def bindE_Inr_iff zoom_Inr_iff modifyE_def retE_def)
  have same: "edges ?st1 = edges st" "graph_dom ?st1 = graph_dom st"
    by (auto simp: edges_def graph_dom_def fun_eq_iff split: option.splits)
  have names: "var_names ?st1 = insert n (var_names st)" by (simp add: var_names_def n(3))
  have ids: "cf_ids ?st1 = insert i (cf_ids st)" by (simp add: cf_ids_def dom_update)
  have known: "known_names ?st1" using st by (auto simp: known_names_def same names)
  have ext: "extends st ?st1"
    using I by (force simp: extends_def same names update_conv' cf_ids_def dest: map_of_SomeD)
  have dom: "insert n D \<inter> graph_dom ?st1 = {}"
    using D n(2) st by (auto simp: same known_names_def)
  have "n \<notin> D \<union> X" using X n(2) by auto
  from k [OF this, unfolded graph_grows_def, rule_format, OF run1 known dom] X I assms(2)
  have 2: "extends ?st1 st'" "known_names st'" "graph_dom st' \<subseteq> graph_dom st \<union> insert n D \<union> - var_names ?st1"
    "cf_ids st' \<subseteq> insert i (cf_ids st) \<union> J" "\<And>s. extends st' s \<Longrightarrow> P n s"
    by (auto simp: names ids same)
  have i: "map_of (op_to_cf_name s) i = Some n" if "extends st' s" for s
  proof -
    have "map_of (op_to_cf_name ?st1) i = Some n" by (simp add: update_conv')
    then show ?thesis using extends_trans [OF 2(1) that] unfolding extends_def by blast
  qed
  have "graph_dom st' \<subseteq> graph_dom st \<union> D \<union> - var_names st" using 2(3) n(2) names by blast
  then show "extends st st' \<and> known_names st' \<and> graph_dom st' \<subseteq> graph_dom st \<union> D \<union> - var_names st \<and>
     cf_ids st' \<subseteq> cf_ids st \<union> insert i J \<and>
     (\<forall>st''. extends st' st'' \<longrightarrow> (\<exists>n. map_of (op_to_cf_name st'') i = Some n \<and> P n st''))"
    using extends_trans [OF ext 2(1)] 2(2,4,5) i by blast
qed

section \<open>The flow that the pass records\<close>

lemma zip3_mem: "(a, b, q) \<in> set (zip as (zip bs qs)) \<Longrightarrow> a \<in> set as \<and> b \<in> set bs \<and> q \<in> set qs"
  by (meson set_zip_leftD set_zip_rightD)

lemma distinct_interleaved:
  assumes "distinct (bs @ qs)"
  shows "distinct (concat (List.map (\<lambda>(a, b, q). [b, q]) (zip as (zip bs qs))))"
  using assms
proof (induction as arbitrary: bs qs)
  case (Cons a as)
  show ?case
  proof (cases "bs = [] \<or> qs = []")
    case False
    then obtain b bs' q qs' where s: "bs = b # bs'" "qs = q # qs'" by (auto simp: neq_Nil_conv)
    show ?thesis using Cons.IH [of bs' qs'] Cons.prems by (auto simp: s dest!: zip3_mem)
  qed auto
qed simp

lemma set_interleaved: "set (concat (List.map (\<lambda>(a, b, q). [b, q]) (zip as (zip bs qs)))) \<subseteq> set bs \<union> set qs"
  by (auto dest!: zip3_mem)

lemma depends_zip: "length ds = length xs \<Longrightarrow> (\<And>d x. (d, x) \<in> set (zip ds xs) \<Longrightarrow> E (Some d) x) \<Longrightarrow> depends E ds xs"
  by (auto simp: depends_def list_all2_iff)

lemma loop_vars_flow:
  assumes "length init = length bvs" and "length bvs = length rs"
    and "\<forall>(a, b, q) \<in> set (zip init (zip bvs rs)). E (Some b) a \<and> E (Some b) n \<and> E (Some q) n"
  shows "depends E bvs init \<and> (\<forall>b \<in> set bvs. E (Some b) n) \<and> (\<forall>q \<in> set rs. E (Some q) n)"
  using assms by (induction init bvs rs rule: list_induct3) (auto simp: depends_def)

lemma loop_vars_grow:
  assumes "distinct (bvs @ rs)"
  shows "graph_grows (set bvs \<union> set rs) (insert n (set init)) {}
    (\<lambda>st. length init = length bvs \<and> length bvs = length rs \<and> depends (edges st) bvs init \<and>
      (\<forall>b \<in> set bvs. edges st (Some b) n) \<and> (\<forall>q \<in> set rs. edges st (Some q) n))
    (zip3_strict init bvs rs (\<lambda>(init_var, body_var, res_var).
       seqE [graph_set body_var [init_var, n]] (graph_set res_var [n])))"
proof (rule graph_grows_weaken)
  show "graph_grows (set (concat (List.map (\<lambda>(a, b, q). [b, q]) (zip init (zip bvs rs)))))
     (\<Union>(a, b, q) \<in> set (zip init (zip bvs rs)). {a, n}) {}
     (\<lambda>st. (\<forall>(a, b, q) \<in> set (zip init (zip bvs rs)). edges st (Some b) a \<and> edges st (Some b) n \<and> edges st (Some q) n) \<and>
        (length init = length bvs \<and> length bvs = length rs))
     (zip3_strict init bvs rs (\<lambda>(init_var, body_var, res_var).
       seqE [graph_set body_var [init_var, n]] (graph_set res_var [n])))"
    unfolding zip3_strict_def
  proof (rule graph_grows_check, rule graph_grows_forE [OF _ distinct_interleaved [OF assms]])
    fix p assume p: "p \<in> set (zip init (zip bvs rs))"
    obtain a b q where abq: "p = (a, b, q)" by (cases p)
    then have "b \<noteq> q" using p assms by (auto dest!: zip3_mem)
    then have "graph_grows {b, q} {a, n} {} (\<lambda>st. edges st (Some b) a \<and> edges st (Some b) n \<and> edges st (Some q) n)
        (bindE (graph_set b [a, n]) (\<lambda>_. graph_set q [n]))"
      by (intro graph_grows_weaken [OF graph_grows_bind [OF graph_grows_set graph_grows_set]]) auto
    then show "graph_grows (set (case p of (a, b, q) \<Rightarrow> [b, q])) (case p of (a, b, q) \<Rightarrow> {a, n}) {}
        (\<lambda>st. case p of (a, b, q) \<Rightarrow> edges st (Some b) a \<and> edges st (Some b) n \<and> edges st (Some q) n)
        (case p of (init_var, body_var, res_var) \<Rightarrow>
           seqE [graph_set body_var [init_var, n]] (graph_set res_var [n]))"
      by (simp add: abq)
  qed
next
  show "(\<Union>(a, b, q) \<in> set (zip init (zip bvs rs)). {a, n}) \<subseteq> set bvs \<union> set rs \<union> insert n (set init)"
    by (auto dest!: zip3_mem)
next
  fix st
  assume *: "(\<forall>(a, b, q) \<in> set (zip init (zip bvs rs)). edges st (Some b) a \<and> edges st (Some b) n \<and> edges st (Some q) n) \<and>
        (length init = length bvs \<and> length bvs = length rs)"
  show "length init = length bvs \<and> length bvs = length rs \<and> depends (edges st) bvs init \<and>
      (\<forall>b \<in> set bvs. edges st (Some b) n) \<and> (\<forall>q \<in> set rs. edges st (Some q) n)"
    using * loop_vars_flow [of init bvs rs "edges st" n] by blast
qed (simp_all only: set_interleaved subset_refl)

lemma loop_edges_grow:
  assumes "n \<notin> set bvs \<union> set rs" and "distinct (bvs @ rs)"
  shows "graph_grows (insert n (set bvs \<union> set rs)) (set init \<union> set (range_vars r) \<union> set_option cf) {}
    (\<lambda>st. parent (edges st) (Some n) cf \<and>
      (length init = length bvs \<and> length bvs = length rs \<and> depends (edges st) bvs init \<and>
       (\<forall>b \<in> set bvs. edges st (Some b) n) \<and> (\<forall>q \<in> set rs. edges st (Some q) n)) \<and>
      (\<forall>x \<in> set (range_vars r). edges st (Some n) x) \<and> (r \<noteq> None \<longrightarrow> depends (edges st) rs init))
    (loop_edges r init bvs rs n cf)"
proof (cases r)
  case None
  show ?thesis
    unfolding loop_edges_def seqE.simps None option.case
    by (rule graph_grows_weaken [OF graph_grows_bind [OF graph_grows_set graph_grows_bind [OF loop_vars_grow [OF assms(2), of n, unfolded seqE.simps]
            graph_grows_bind [OF graph_grows_append_opt graph_grows_skip]]]])
       (use assms in \<open>auto simp: range_vars_def\<close>)
next
  case (Some p)
  obtain start stop step where p: "p = (start, stop, step)" by (cases p)
  show ?thesis
    unfolding loop_edges_def seqE.simps Some p option.case prod.case
    by (rule graph_grows_weaken [OF graph_grows_bind [OF graph_grows_set graph_grows_bind [OF loop_vars_grow [OF assms(2), of n, unfolded seqE.simps]
            graph_grows_bind [OF graph_grows_append_opt graph_grows_bind [OF graph_grows_append graph_grows_bind [OF graph_grows_append
            graph_grows_bind [OF graph_grows_append graph_grows_zip_append]]]]]]])
       (use assms in \<open>auto simp: range_vars_def\<close>)
qed

lemma continue_edges_grow:
  "graph_grows {} (set vs \<union> set_option cf) {} (\<lambda>st. \<exists>li n. l = Some li \<and> ln = Some n \<and> parent (edges st) (Some n) cf \<and>
      depends (edges st) (loop_body_vars li) vs \<and> (loop_is_for li \<longrightarrow> depends (edges st) (loop_result_vars li) vs))
    (continue_edges l ln cf vs)"
proof (cases "l = None \<or> ln = None")
  case True
  then show ?thesis by (auto simp: continue_edges_def graph_grows_def raiseE_def split: option.splits)
next
  case False
  then obtain li n where l: "l = Some li" "ln = Some n" by auto
  show ?thesis
    unfolding continue_edges_def seqE.simps l option.case prod.case
  proof (cases "loop_is_for li", simp_all only: if_True if_False)
    assume "loop_is_for li"
    show "graph_grows {} (set vs \<union> set_option cf) {} (\<lambda>st. \<exists>lia na. Some li = Some lia \<and> Some n = Some na \<and> parent (edges st) (Some na) cf \<and>
      depends (edges st) (loop_body_vars lia) vs \<and> (loop_is_for lia \<longrightarrow> depends (edges st) (loop_result_vars lia) vs))
     (bindE (graph_append_opt n cf) (\<lambda>_. bindE (zip_strict (loop_body_vars li) vs (\<lambda>(body_var, next_var). graph_append body_var next_var))
       (\<lambda>_. zip_strict (loop_result_vars li) vs (\<lambda>(res_var, next_var). graph_append res_var next_var))))"
      by (rule graph_grows_weaken [OF graph_grows_bind [OF graph_grows_append_opt graph_grows_bind [OF graph_grows_zip_append graph_grows_zip_append]]]) auto
  next
    assume "\<not> loop_is_for li"
    then show "graph_grows {} (set vs \<union> set_option cf) {} (\<lambda>st. \<exists>lia na. Some li = Some lia \<and> Some n = Some na \<and> parent (edges st) (Some na) cf \<and>
      depends (edges st) (loop_body_vars lia) vs \<and> (loop_is_for lia \<longrightarrow> depends (edges st) (loop_result_vars lia) vs))
     (bindE (graph_append_opt n cf) (\<lambda>_. bindE (zip_strict (loop_body_vars li) vs (\<lambda>(body_var, next_var). graph_append body_var next_var))
       (\<lambda>_. skipE)))"
      by (intro graph_grows_weaken [OF graph_grows_bind [OF graph_grows_append_opt graph_grows_bind [OF graph_grows_zip_append graph_grows_skip]]]) auto
  qed
qed

lemma break_edges_grow:
  "graph_grows {} (set vs \<union> set_option cf) {} (\<lambda>st. \<exists>li n. l = Some li \<and> ln = Some n \<and> parent (edges st) (Some n) cf \<and>
      depends (edges st) (loop_result_vars li) vs)
    (break_edges l ln cf vs)"
proof (cases "l = None \<or> ln = None")
  case True
  then show ?thesis by (auto simp: break_edges_def graph_grows_def raiseE_def split: option.splits)
next
  case False
  then obtain li n where l: "l = Some li" "ln = Some n" by auto
  show ?thesis
    unfolding break_edges_def seqE.simps l option.case prod.case
    by (rule graph_grows_weaken [OF graph_grows_bind [OF graph_grows_append_opt graph_grows_zip_append]]) auto
qed

lemma end_branch_edges_grow:
  "graph_grows {} (set vs) {} (\<lambda>st. \<exists>rs. t = Some rs \<and> depends (edges st) rs vs) (end_branch_edges t vs)"
proof (cases t)
  case None
  then show ?thesis by (simp add: end_branch_edges_def graph_grows_raise graph_grows_def raiseE_def)
next
  case (Some rs)
  show ?thesis unfolding end_branch_edges_def Some option.case
    by (rule graph_grows_weaken [OF graph_grows_zip_append]) auto
qed

definition fold_names :: "(var \<times> var \<times> var) \<times> var \<Rightarrow> var list" where
  "fold_names p = (case p of ((x, a, b), q) \<Rightarrow> [a, b, q])"

lemma zip4_mem: "((x, a, b), q) \<in> set (zip (zip xs (zip as bs)) rs) \<Longrightarrow> x \<in> set xs \<and> a \<in> set as \<and> b \<in> set bs \<and> q \<in> set rs"
  by (meson set_zip_leftD set_zip_rightD)

lemma distinct_fold_names:
  assumes "distinct (as @ bs @ rs)"
  shows "distinct (concat (List.map fold_names (zip (zip xs (zip as bs)) rs)))"
  using assms
proof (induction xs arbitrary: as bs rs)
  case (Cons x xs)
  show ?case
  proof (cases "as = [] \<or> bs = [] \<or> rs = []")
    case False
    then obtain a as' b bs' q rs' where s: "as = a # as'" "bs = b # bs'" "rs = q # rs'" by (auto simp: neq_Nil_conv)
    show ?thesis using Cons.IH [of as' bs' rs'] Cons.prems by (auto simp: s fold_names_def dest!: zip4_mem)
  qed auto
qed simp

lemma set_fold_names: "set (concat (List.map fold_names (zip (zip xs (zip as bs)) rs))) \<subseteq> set as \<union> set bs \<union> set rs"
  by (auto simp: fold_names_def dest!: zip4_mem)

lemma fold_vars_flow:
  assumes "length xs = length as" "length as = length bs" "length bs = length rs"
    and "\<forall>((x, a, b), q) \<in> set (zip (zip xs (zip as bs)) rs). E (Some a) x \<and> E (Some a) q \<and> E (Some b) x \<and>
      E (Some b) q \<and> E (Some q) n \<and> E (Some q) x \<and> E (Some q) a \<and> E (Some q) b"
  shows "depends E rs xs \<and> (\<forall>q \<in> set rs. E (Some q) n) \<and> depends E rs as \<and> depends E rs bs \<and>
    depends E as rs \<and> depends E bs rs"
  using assms by (induction xs as bs rs rule: list_induct4) (auto simp: depends_def)

lemma graph_grows_fold_item:
  assumes "distinct [a, b, q]"
  shows "graph_grows {a, b, q} {x, n, a, b, q} {} (\<lambda>st. edges st (Some a) x \<and> edges st (Some a) q \<and>
      edges st (Some b) x \<and> edges st (Some b) q \<and> edges st (Some q) n \<and> edges st (Some q) x \<and>
      edges st (Some q) a \<and> edges st (Some q) b)
    (bindE (graph_set a [x, q]) (\<lambda>_. bindE (graph_set b [x, q]) (\<lambda>_. graph_set q [n, x, a, b])))"
  by (rule graph_grows_weaken [OF graph_grows_bind [OF graph_grows_set graph_grows_bind [OF graph_grows_set graph_grows_set]]])
    (use assms in auto)

lemma fold_vars_grow:
  assumes "distinct (as @ bs @ rs)" and len: "length xs = length as" "length as = length bs"
  shows "graph_grows (set as \<union> set bs \<union> set rs) (insert n (set xs)) {}
    (\<lambda>st. length xs = length rs \<and> depends (edges st) rs xs \<and> (\<forall>q \<in> set rs. edges st (Some q) n) \<and>
      depends (edges st) rs as \<and> depends (edges st) rs bs \<and> depends (edges st) as rs \<and> depends (edges st) bs rs)
    (zip_strict (zip xs (zip as bs)) rs (\<lambda>((x, a, b), q).
       seqE [graph_set a [x, q], graph_set b [x, q]] (graph_set q [n, x, a, b])))"
proof (rule graph_grows_weaken)
  let ?z = "zip (zip xs (zip as bs)) rs"
  show "graph_grows (set (concat (List.map fold_names ?z))) (\<Union>((x, a, b), q) \<in> set ?z. {x, n, a, b, q}) {}
     (\<lambda>st. (\<forall>((x, a, b), q) \<in> set ?z. edges st (Some a) x \<and> edges st (Some a) q \<and> edges st (Some b) x \<and>
      edges st (Some b) q \<and> edges st (Some q) n \<and> edges st (Some q) x \<and> edges st (Some q) a \<and> edges st (Some q) b) \<and>
       length (zip xs (zip as bs)) = length rs)
     (zip_strict (zip xs (zip as bs)) rs (\<lambda>((x, a, b), q).
       seqE [graph_set a [x, q], graph_set b [x, q]] (graph_set q [n, x, a, b])))"
  proof (rule graph_grows_zip_strict [OF _ distinct_fold_names [OF assms(1)]])
    fix p assume p: "p \<in> set ?z"
    obtain x a b q where xabq: "p = ((x, a, b), q)" by (cases p) auto
    then have "distinct [a, b, q]" using p assms(1) by (auto dest!: zip4_mem)
    from graph_grows_fold_item [OF this, of x n]
    show "graph_grows (set (fold_names p)) ((\<lambda>((x, a, b), q). {x, n, a, b, q}) p) {}
        (\<lambda>st. (\<lambda>((x, a, b), q). edges st (Some a) x \<and> edges st (Some a) q \<and> edges st (Some b) x \<and>
          edges st (Some b) q \<and> edges st (Some q) n \<and> edges st (Some q) x \<and> edges st (Some q) a \<and> edges st (Some q) b) p)
        ((\<lambda>((x, a, b), q). seqE [graph_set a [x, q], graph_set b [x, q]] (graph_set q [n, x, a, b])) p)"
      by (simp add: xabq fold_names_def)
  qed
next
  let ?z = "zip (zip xs (zip as bs)) rs"
  show "(\<Union>((x, a, b), q) \<in> set ?z. {x, n, a, b, q}) \<subseteq> set as \<union> set bs \<union> set rs \<union> insert n (set xs)"
    by (auto dest!: zip4_mem)
  fix st
  assume "(\<forall>((x, a, b), q) \<in> set ?z. edges st (Some a) x \<and> edges st (Some a) q \<and> edges st (Some b) x \<and>
      edges st (Some b) q \<and> edges st (Some q) n \<and> edges st (Some q) x \<and> edges st (Some q) a \<and> edges st (Some q) b) \<and>
       length (zip xs (zip as bs)) = length rs"
  then show "length xs = length rs \<and> depends (edges st) rs xs \<and> (\<forall>q \<in> set rs. edges st (Some q) n) \<and>
      depends (edges st) rs as \<and> depends (edges st) rs bs \<and> depends (edges st) as rs \<and> depends (edges st) bs rs"
    using fold_vars_flow [of xs as bs rs "edges st" n] len by simp
qed (simp_all only: set_fold_names subset_refl)

lemma fold_edges_grow:
  assumes "n \<notin> set ps \<union> set rs" and "distinct (rs @ ps)"
  shows "graph_grows (insert n (set ps \<union> set rs)) (set xs \<union> set_option cf) {}
    (\<lambda>st. parent (edges st) (Some n) cf \<and> length ps = length xs * 2 \<and> length xs = length rs \<and>
       depends (edges st) rs xs \<and> (\<forall>q \<in> set rs. edges st (Some q) n) \<and>
       depends (edges st) rs (fold_lhs xs ps) \<and> depends (edges st) rs (fold_rhs xs ps) \<and>
       depends (edges st) (fold_lhs xs ps) rs \<and> depends (edges st) (fold_rhs xs ps) rs)
    (fold_edges xs ps rs n cf)"
proof (cases "length ps = length xs * 2")
  case True
  have len: "length xs = length (fold_lhs xs ps)" "length (fold_lhs xs ps) = length (fold_rhs xs ps)"
    using True by (simp_all add: fold_lhs_def fold_rhs_def)
  have split: "fold_lhs xs ps @ fold_rhs xs ps = ps" by (simp add: fold_lhs_def fold_rhs_def)
  then have dis: "distinct (fold_lhs xs ps @ fold_rhs xs ps @ rs)" and set: "set (fold_lhs xs ps) \<union> set (fold_rhs xs ps) = set ps"
    using assms(2) by (metis append_assoc distinct_append inf_commute, metis set_append)
  have check: "assertE (length ps = length xs * 2) = skipE" by (simp add: True skipE_def)
  show ?thesis
    unfolding fold_edges_def seqE.simps check
    by (rule graph_grows_weaken [OF graph_grows_bind [OF graph_grows_set graph_grows_bind [OF graph_grows_append_opt
            graph_grows_bind [OF graph_grows_skip fold_vars_grow [OF dis len, of n, unfolded seqE.simps set]]]]])
       (use assms(1) set True in auto)
next
  case False
  have "graph_grows {} {} {} P (assertE False)" for P :: "dce_state \<Rightarrow> bool" by (simp add: graph_grows_def assertE_def)
  then show ?thesis
    unfolding fold_edges_def seqE.simps using False
    by (auto simp: graph_grows_def assertE_def bindE_Inr_iff)
qed

lemma graph_grows_results:
  assumes "distinct rs"
  shows "graph_grows (set rs) (set deps) {} (\<lambda>st. \<forall>q \<in> set rs. \<forall>x \<in> set deps. edges st (Some q) x)
    (forE rs (\<lambda>q. graph_set q deps))"
proof (rule graph_grows_weaken)
  show "graph_grows (set (concat (List.map (\<lambda>q. [q]) rs))) (\<Union>q \<in> set rs. set deps) {}
      (\<lambda>st. \<forall>q \<in> set rs. \<forall>x \<in> set deps. edges st (Some q) x) (forE rs (\<lambda>q. graph_set q deps))"
    by (rule graph_grows_forE) (use assms graph_grows_set in \<open>auto simp: concat_map_singleton\<close>)
qed auto

text \<open>One lemma per operation: the rest of the block is \<open>k\<close>.\<close>

lemma set_body_vars: "set (body_vars r ps) \<subseteq> set ps"
  by (cases ps) (auto simp: body_vars_def)

lemma distinct_body_vars: "distinct ps \<Longrightarrow> distinct (body_vars r ps)"
  by (simp add: body_vars_def distinct_tl)

lemma build_flow:
  assumes "distinct (defined_vars ops)" and "distinct (op_ids ops)"
  shows "graph_grows (set (defined_vars ops)) (read_vars ops \<union> set_option cf) (set (op_ids ops))
    (\<lambda>st. flow (edges st) (map_of (op_to_cf_name st)) ops l ln t cf) (build_dataflow_graph ops l ln t cf)"
  using assms
proof (induction ops arbitrary: l ln t cf rule: traverse_induct)
  case Nil
  then show ?case using graph_grows_weaken [OF graph_grows_skip] by simp
next
  case (Operation c rs xs ops)
  let ?deps = "xs @ (case cf of None \<Rightarrow> [] | Some n \<Rightarrow> [n])"
  have deps: "set ?deps = set xs \<union> set_option cf" by (cases cf) auto
  have use: "graph_grows {} (set ?deps) {} (\<lambda>st. has_observable_effect c \<longrightarrow> (\<forall>x \<in> set ?deps. edges st None x))
      (if has_observable_effect c then use_all ?deps else skipE)"
    using graph_grows_use_all [of ?deps] graph_grows_weaken [OF graph_grows_skip, of "{}" "set ?deps" "{}" "\<lambda>_. True"]
    by (cases "has_observable_effect c") simp_all
  have "distinct rs" "set rs \<inter> set (defined_vars ops) = {}" using Operation.prems by auto
  from Operation.IH [of cf l ln t] Operation.prems this show ?case
    unfolding build_dataflow_graph.simps seqE.simps Let_def
    by (intro graph_grows_weaken [OF graph_grows_bind [OF use graph_grows_bind [OF graph_grows_results [of rs ?deps]]]])
       (auto simp: deps parent_def)
next
  case (Loop i r init ps body rs ops)
  let ?bvs = "body_vars r ps"
  let ?li = "\<lparr>loop_is_for = (r \<noteq> None), loop_body_vars = ?bvs, loop_result_vars = rs\<rparr>"
  have bvs: "set ?bvs \<subseteq> set ps" "distinct (?bvs @ rs)"
    using Loop.prems set_body_vars [of r ps] distinct_body_vars [of ps r] by auto
  let ?D = "set rs \<union> set ps \<union> set (defined_vars body) \<union> set (defined_vars ops)"
  let ?X = "set (range_vars r) \<union> set init \<union> read_vars body \<union> read_vars ops \<union> set_option cf"
  let ?J = "set (op_ids body) \<union> set (op_ids ops)"
  have "graph_grows ?D ?X (insert i ?J) (\<lambda>st. \<exists>n. map_of (op_to_cf_name st) i = Some n \<and>
       parent (edges st) (Some n) cf \<and> (length init = length ?bvs \<and> length ?bvs = length rs \<and>
        depends (edges st) ?bvs init \<and> (\<forall>b \<in> set ?bvs. edges st (Some b) n) \<and> (\<forall>q \<in> set rs. edges st (Some q) n)) \<and>
        (\<forall>x \<in> set (range_vars r). edges st (Some n) x) \<and> (r \<noteq> None \<longrightarrow> depends (edges st) rs init) \<and>
        flow (edges st) (map_of (op_to_cf_name st)) body (Some ?li) (Some n) None (Some n) \<and>
        flow (edges st) (map_of (op_to_cf_name st)) ops l ln t cf)
     (build_dataflow_graph (Loop i r init ps body rs # ops) l ln t cf)"
    unfolding build_dataflow_graph.simps seqE.simps
  proof (rule graph_grows_name)
    fix n assume n: "n \<notin> ?D \<union> ?X"
    have 1: "n \<notin> set ?bvs \<union> set rs" using n bvs(1) by auto
    have 2: "graph_grows (set (defined_vars body)) (read_vars body \<union> {n}) (set (op_ids body))
        (\<lambda>st. flow (edges st) (map_of (op_to_cf_name st)) body (Some ?li) (Some n) None (Some n))
        (build_dataflow_graph body (Some ?li) (Some n) None (Some n))"
      using Loop.IH(1) [of "Some n" "Some ?li" "Some n" None] Loop.prems by simp
    have 3: "graph_grows (set (defined_vars ops)) (read_vars ops \<union> set_option cf) (set (op_ids ops))
        (\<lambda>st. flow (edges st) (map_of (op_to_cf_name st)) ops l ln t cf) (build_dataflow_graph ops l ln t cf)"
      using Loop.IH(2) [of cf l ln t] Loop.prems by simp
    have "insert n (set ?bvs \<union> set rs) \<inter> (set (defined_vars body) \<union> set (defined_vars ops)) = {}"
      "set (defined_vars body) \<inter> set (defined_vars ops) = {}" "set (op_ids body) \<inter> set (op_ids ops) = {}"
      using Loop.prems n bvs(1) by auto
    then show "graph_grows (insert n ?D) ?X ?J (\<lambda>st. parent (edges st) (Some n) cf \<and>
        (length init = length ?bvs \<and> length ?bvs = length rs \<and>
        depends (edges st) ?bvs init \<and> (\<forall>b \<in> set ?bvs. edges st (Some b) n) \<and> (\<forall>q \<in> set rs. edges st (Some q) n)) \<and>
        (\<forall>x \<in> set (range_vars r). edges st (Some n) x) \<and> (r \<noteq> None \<longrightarrow> depends (edges st) rs init) \<and>
        flow (edges st) (map_of (op_to_cf_name st)) body (Some ?li) (Some n) None (Some n) \<and>
        flow (edges st) (map_of (op_to_cf_name st)) ops l ln t cf)
      (bindE (loop_edges r init ?bvs rs n cf) (\<lambda>_. bindE (build_dataflow_graph body (Some ?li) (Some n) None (Some n))
        (\<lambda>_. build_dataflow_graph ops l ln t cf)))"
      by (intro graph_grows_weaken [OF graph_grows_bind [OF loop_edges_grow [OF 1 bvs(2)] graph_grows_bind [OF 2 3]]])
         (use bvs(1) in blast)+
  qed (use Loop.prems in auto)
  then show ?case by (rule graph_grows_weaken) (auto simp: Let_def)
next
  case (IfElse i c T E rs ops)
  let ?D = "set rs \<union> set (defined_vars T) \<union> set (defined_vars E) \<union> set (defined_vars ops)"
  let ?X = "insert c (read_vars T \<union> read_vars E \<union> read_vars ops) \<union> set_option cf"
  let ?J = "set (op_ids T) \<union> set (op_ids E) \<union> set (op_ids ops)"
  have "graph_grows ?D ?X (insert i ?J) (\<lambda>st. \<exists>n. map_of (op_to_cf_name st) i = Some n \<and>
       edges st (Some n) c \<and> parent (edges st) (Some n) cf \<and> (\<forall>q \<in> set rs. edges st (Some q) n) \<and>
        flow (edges st) (map_of (op_to_cf_name st)) T l ln (Some rs) (Some n) \<and>
        flow (edges st) (map_of (op_to_cf_name st)) E l ln (Some rs) (Some n) \<and>
        flow (edges st) (map_of (op_to_cf_name st)) ops l ln t cf)
     (build_dataflow_graph (IfElse i c T E rs # ops) l ln t cf)"
    unfolding build_dataflow_graph.simps seqE.simps
  proof (rule graph_grows_name)
    fix n assume n: "n \<notin> ?D \<union> ?X"
    have 0: "graph_grows {n} {c} {} (\<lambda>st. edges st (Some n) c) (graph_set n [c])"
      using graph_grows_set [of n "[c]"] by simp
    have 1: "graph_grows (set rs) {n} {} (\<lambda>st. \<forall>q \<in> set rs. edges st (Some q) n) (forE rs (\<lambda>q. graph_set q [n]))"
      using graph_grows_results [of rs "[n]"] IfElse.prems by simp
    have 2: "graph_grows (set (defined_vars T)) (read_vars T \<union> {n}) (set (op_ids T))
        (\<lambda>st. flow (edges st) (map_of (op_to_cf_name st)) T l ln (Some rs) (Some n))
        (build_dataflow_graph T l ln (Some rs) (Some n))"
      using IfElse.IH(1) [of "Some n" l ln "Some rs"] IfElse.prems by simp
    have 3: "graph_grows (set (defined_vars E)) (read_vars E \<union> {n}) (set (op_ids E))
        (\<lambda>st. flow (edges st) (map_of (op_to_cf_name st)) E l ln (Some rs) (Some n))
        (build_dataflow_graph E l ln (Some rs) (Some n))"
      using IfElse.IH(2) [of "Some n" l ln "Some rs"] IfElse.prems by simp
    have 4: "graph_grows (set (defined_vars ops)) (read_vars ops \<union> set_option cf) (set (op_ids ops))
        (\<lambda>st. flow (edges st) (map_of (op_to_cf_name st)) ops l ln t cf) (build_dataflow_graph ops l ln t cf)"
      using IfElse.IH(3) [of cf l ln t] IfElse.prems by simp
    show "graph_grows (insert n ?D) ?X ?J (\<lambda>st. edges st (Some n) c \<and> parent (edges st) (Some n) cf \<and>
        (\<forall>q \<in> set rs. edges st (Some q) n) \<and>
        flow (edges st) (map_of (op_to_cf_name st)) T l ln (Some rs) (Some n) \<and>
        flow (edges st) (map_of (op_to_cf_name st)) E l ln (Some rs) (Some n) \<and>
        flow (edges st) (map_of (op_to_cf_name st)) ops l ln t cf)
      (bindE (graph_set n [c]) (\<lambda>_. bindE (graph_append_opt n cf) (\<lambda>_. bindE (forE rs (\<lambda>q. graph_set q [n]))
        (\<lambda>_. bindE (build_dataflow_graph T l ln (Some rs) (Some n)) (\<lambda>_. bindE (build_dataflow_graph E l ln (Some rs) (Some n))
        (\<lambda>_. build_dataflow_graph ops l ln t cf))))))"
      by (rule graph_grows_weaken [OF graph_grows_bind [OF 0 graph_grows_bind [OF graph_grows_append_opt graph_grows_bind [OF 1
             graph_grows_bind [OF 2 graph_grows_bind [OF 3 4]]]]]])
         (use IfElse.prems n in auto)
  qed (use IfElse.prems in auto)
  then show ?case by (rule graph_grows_weaken) auto
next
  case (TileFold i k ids xs ps body rs ops)
  let ?D = "set rs \<union> set ps \<union> set (defined_vars body) \<union> set (defined_vars ops)"
  let ?X = "set xs \<union> read_vars body \<union> read_vars ops \<union> set_option cf"
  let ?J = "set (op_ids body) \<union> set (op_ids ops)"
  let ?P = "\<lambda>n st. parent (edges st) (Some n) cf \<and> length ps = length xs * 2 \<and> length xs = length rs \<and>
       depends (edges st) rs xs \<and> (\<forall>q \<in> set rs. edges st (Some q) n) \<and>
       depends (edges st) rs (fold_lhs xs ps) \<and> depends (edges st) rs (fold_rhs xs ps) \<and>
       depends (edges st) (fold_lhs xs ps) rs \<and> depends (edges st) (fold_rhs xs ps) rs"
  have "graph_grows ?D ?X (insert i ?J) (\<lambda>st. \<exists>n. map_of (op_to_cf_name st) i = Some n \<and> ?P n st \<and>
        flow (edges st) (map_of (op_to_cf_name st)) body None None (Some rs) (Some n) \<and>
        flow (edges st) (map_of (op_to_cf_name st)) ops l ln t cf)
     (build_dataflow_graph (TileFold i k ids xs ps body rs # ops) l ln t cf)"
    unfolding build_dataflow_graph.simps seqE.simps
  proof (rule graph_grows_name)
    fix n assume n: "n \<notin> ?D \<union> ?X"
    have 1: "n \<notin> set ps \<union> set rs" "distinct (rs @ ps)" using n TileFold.prems by auto
    have 2: "graph_grows (set (defined_vars body)) (read_vars body \<union> {n}) (set (op_ids body))
        (\<lambda>st. flow (edges st) (map_of (op_to_cf_name st)) body None None (Some rs) (Some n))
        (build_dataflow_graph body None None (Some rs) (Some n))"
      using TileFold.IH(1) [of "Some n" None None "Some rs"] TileFold.prems by simp
    have 3: "graph_grows (set (defined_vars ops)) (read_vars ops \<union> set_option cf) (set (op_ids ops))
        (\<lambda>st. flow (edges st) (map_of (op_to_cf_name st)) ops l ln t cf) (build_dataflow_graph ops l ln t cf)"
      using TileFold.IH(2) [of cf l ln t] TileFold.prems by simp
    show "graph_grows (insert n ?D) ?X ?J (\<lambda>st. ?P n st \<and>
        flow (edges st) (map_of (op_to_cf_name st)) body None None (Some rs) (Some n) \<and>
        flow (edges st) (map_of (op_to_cf_name st)) ops l ln t cf)
      (bindE (fold_edges xs ps rs n cf) (\<lambda>_. bindE (build_dataflow_graph body None None (Some rs) (Some n))
        (\<lambda>_. build_dataflow_graph ops l ln t cf)))"
      by (rule graph_grows_weaken [OF graph_grows_bind [OF fold_edges_grow [OF 1] graph_grows_bind [OF 2 3]]])
         (use TileFold.prems n in auto)
  qed (use TileFold.prems in auto)
  then show ?case by (rule graph_grows_weaken) auto
next
  case (Continue vs ops)
  from Continue.IH [of cf l ln t] Continue.prems show ?case
    unfolding build_dataflow_graph.simps seqE.simps
    by (intro graph_grows_weaken [OF graph_grows_bind [OF continue_edges_grow]]) auto
next
  case (Break vs ops)
  from Break.IH [of cf l ln t] Break.prems show ?case
    unfolding build_dataflow_graph.simps seqE.simps
    by (intro graph_grows_weaken [OF graph_grows_bind [OF break_edges_grow]]) auto
next
  case (EndBranch vs ops)
  from EndBranch.IH [of cf l ln t] EndBranch.prems show ?case
    unfolding build_dataflow_graph.simps seqE.simps
    by (intro graph_grows_weaken [OF graph_grows_bind [OF end_branch_edges_grow]]) auto
qed

end
