(* ===== verification/DceProof.thy ===== *)
theory DceProof
  imports DceFlow
begin

text \<open>
  Dead code elimination keeps the behaviour of a program.

  \<^item> \<open>agree U\<close>: two environments give the used variables the same values;
  \<^item> \<open>keeps cs vs ws\<close>: \<open>ws\<close> are the values of \<open>vs\<close> at the positions to keep; at the exact ones they
    are the same, the others come from dummies;
  \<^item> \<open>dead_run\<close>: a block that is not used has no effect and does not leave a used loop;
  \<^item> \<open>prune_run\<close>: a run of a block is also a run of the pruned block, with related outcomes.
\<close>

section \<open>Machines and closed sets\<close>

definition pure_steps :: "('v, 's) machine \<Rightarrow> bool" where
  "pure_steps M \<longleftrightarrow> (\<forall>c vs s ys t. m_step M c vs s = Some (ys, t) \<longrightarrow> \<not> has_observable_effect c \<longrightarrow> t = s)"

definition has_dummies :: "('v, 's) machine \<Rightarrow> bool" where
  "has_dummies M \<longleftrightarrow> (\<forall>s. \<exists>v. m_step M MakeDummy [] s = Some ([v], s))"

definition closed_under :: "var set \<Rightarrow> flow_edges \<Rightarrow> bool" where
  "closed_under U E \<longleftrightarrow> (\<forall>x. E None x \<longrightarrow> x \<in> U) \<and> (\<forall>d x. E (Some d) x \<longrightarrow> d \<in> U \<longrightarrow> x \<in> U)"

lemma closed_D: "closed_under U E \<Longrightarrow> E (Some d) x \<Longrightarrow> d \<in> U \<Longrightarrow> x \<in> U"
  by (simp add: closed_under_def)

lemma closed_None: "closed_under U E \<Longrightarrow> E None x \<Longrightarrow> x \<in> U"
  by (simp add: closed_under_def)

lemma closed_parent: "closed_under U E \<Longrightarrow> parent E (Some d) cf \<Longrightarrow> d \<in> U \<Longrightarrow> set_option cf \<subseteq> U"
  by (auto simp: parent_def closed_under_def)

lemma closed_depends: "closed_under U E \<Longrightarrow> depends E ds xs \<Longrightarrow> list_all2 (\<lambda>d x. d \<in> U \<longrightarrow> x \<in> U) ds xs"
  by (auto simp: depends_def closed_under_def elim: list_all2_mono)

section \<open>Dead blocks\<close>

lemma while_loop_quiet:
  assumes "\<And>vs s out t. f vs s = Some (out, t) \<Longrightarrow> t = s \<and> out \<noteq> Returned"
  shows "while_loop f n vs s = Some (out, t) \<Longrightarrow> t = s \<and> (\<exists>ys. out = Yielded ys)"
proof (induction n arbitrary: vs s)
  case (Suc n)
  then obtain o1 t1 where "f vs s = Some (o1, t1)" by (auto split: option.splits)
  with assms [OF this] Suc show ?case by (auto split: outcome.splits)
qed simp

lemma for_loop_quiet:
  assumes "\<And>vs s out t. f vs s = Some (out, t) \<Longrightarrow> t = s \<and> out \<noteq> Returned"
  shows "for_loop f is vs s = Some (out, t) \<Longrightarrow> t = s \<and> (\<exists>ys. out = Yielded ys)"
proof (induction "is" arbitrary: vs s)
  case (Cons i "is")
  then obtain o1 t1 where "f (i # vs) s = Some (o1, t1)" by (auto split: option.splits)
  with assms [OF this] Cons show ?case by (auto split: outcome.splits)
qed auto

lemma run_loop_quiet:
  assumes "\<And>vs s out t. f vs s = Some (out, t) \<Longrightarrow> t = s \<and> out \<noteq> Returned"
    and "run_loop M n r \<rho> f vs s = Some (out, t)"
  shows "t = s \<and> (\<exists>ys. out = Yielded ys)"
proof (cases r)
  case None
  then have "while_loop f n vs s = Some (out, t)" using assms(2) by (simp add: run_loop_def)
  then show ?thesis by (rule while_loop_quiet [rotated]) (rule assms(1))
next
  case (Some p)
  then obtain "is" where "for_loop f is vs s = Some (out, t)"
    using assms(2) by (auto simp: run_loop_def bind_eq_Some_conv split: prod.splits)
  then show ?thesis by (rule for_loop_quiet [rotated]) (rule assms(1))
qed

lemma dead_run:
  assumes U: "closed_under U E" and M: "pure_steps M"
  shows "flow E cfn ops l ln t (Some c) \<Longrightarrow> c \<notin> U \<Longrightarrow> exec M n ops \<rho> s = Some (out, s') \<Longrightarrow>
    s' = s \<and> out \<noteq> Returned \<and> (\<forall>m. ln = Some m \<longrightarrow> m \<in> U \<longrightarrow> (\<forall>vs. out \<noteq> Continued vs \<and> out \<noteq> Broke vs))"
proof (induction ops arbitrary: l ln t c \<rho> s out s' rule: traverse_induct)
  case (Operation cl rs xs ops)
  have "\<not> has_observable_effect cl"
    using Operation.prems(1,2) closed_None [OF U] by (auto simp: parent_def)
  then show ?case using Operation.prems Operation.IH M
    by (fastforce simp: bind_eq_Some_conv resume_Some pure_steps_def split: if_splits)
next
  case (Loop i r init ps body rs ops)
  from Loop.prems(1) obtain m where m: "parent E (Some m) (Some c)"
      "flow E cfn body (Some \<lparr>loop_is_for = (r \<noteq> None), loop_body_vars = body_vars r ps, loop_result_vars = rs\<rparr>)
          (Some m) None (Some m)" and ops: "flow E cfn ops l ln t (Some c)"
    by (auto simp: Let_def)
  have "m \<notin> U" using closed_parent [OF U m(1)] Loop.prems(2) by auto
  note body = Loop.IH(1) [OF m(2) this]
  from Loop.prems(3) obtain vs where vs: "lookups \<rho> init = Some vs"
    and run: "resume rs \<rho> (exec M n ops) (run_loop M n r \<rho> (\<lambda>ws t. Option.bind (bind_vars ps ws \<rho>) (\<lambda>\<rho>'. exec M n body \<rho>' t)) vs s)
      = Some (out, s')"
    by (auto simp: bind_eq_Some_conv)
  from run obtain o1 t1 where r: "run_loop M n r \<rho> (\<lambda>ws t. Option.bind (bind_vars ps ws \<rho>) (\<lambda>\<rho>'. exec M n body \<rho>' t)) vs s = Some (o1, t1)"
    by (auto simp: resume_Some)
  have q: "t1 = s \<and> (\<exists>ys. o1 = Yielded ys)"
    by (rule run_loop_quiet [OF _ r]) (auto simp: bind_eq_Some_conv dest: body)
  then obtain \<rho>' where "exec M n ops \<rho>' s = Some (out, s')" using run r by (auto simp: resume_Some)
  from Loop.IH(2) [OF ops Loop.prems(2) this] show ?case .
next
  case (IfElse i v T F rs ops)
  from IfElse.prems(1) obtain m where m: "parent E (Some m) (Some c)"
      "flow E cfn T l ln (Some rs) (Some m)" "flow E cfn F l ln (Some rs) (Some m)"
    and ops: "flow E cfn ops l ln t (Some c)" by auto
  have dead: "m \<notin> U" using closed_parent [OF U m(1)] IfElse.prems(2) by auto
  from IfElse.prems(3) obtain x where
    run: "resume rs \<rho> (exec M n ops) (if m_true M x then exec M n T \<rho> s else exec M n F \<rho> s) = Some (out, s')"
    by (auto simp: bind_eq_Some_conv)
  then obtain o1 t1 where b: "(if m_true M x then exec M n T \<rho> s else exec M n F \<rho> s) = Some (o1, t1)"
    by (auto simp: resume_Some)
  then have q: "t1 = s \<and> o1 \<noteq> Returned \<and> (\<forall>m. ln = Some m \<longrightarrow> m \<in> U \<longrightarrow> (\<forall>vs. o1 \<noteq> Continued vs \<and> o1 \<noteq> Broke vs))"
    using IfElse.IH(1) [OF m(2) dead] IfElse.IH(2) [OF m(3) dead] by (cases "m_true M x") auto
  from run b consider \<rho>' where "exec M n ops \<rho>' t1 = Some (out, s')"
    | "out = o1" "s' = t1" by (auto simp: resume_Some)
  then show ?case
  proof cases
    case 1
    then show ?thesis using IfElse.IH(3) [OF ops IfElse.prems(2)] q by simp
  next
    case 2
    then show ?thesis using q by simp
  qed
next
  case (TileFold i k ids xs ps body rs ops)
  then show ?case by (fastforce simp: bind_eq_Some_conv resume_Some)
qed (auto simp: bind_eq_Some_conv parent_def dest: closed_D [OF U])

text \<open>A jump comes from a block inside a loop.\<close>

lemma jump_needs_loop:
  "flow E cfn ops l ln t cf \<Longrightarrow> exec M n ops \<rho> s = Some (out, s') \<Longrightarrow> out = Continued vs \<or> out = Broke vs \<Longrightarrow> ln \<noteq> None"
proof (induction ops arbitrary: l ln t cf \<rho> s out s' vs rule: traverse_induct)
  case (Loop i r init ps body rs ops)
  then show ?case by (fastforce simp: Let_def bind_eq_Some_conv resume_Some dest: run_loop_outcome)
next
  case (IfElse i v T F rs ops)
  then show ?case by (fastforce simp: bind_eq_Some_conv resume_Some split: if_splits)
qed (fastforce simp: bind_eq_Some_conv resume_Some split: if_splits)+

section \<open>Masks\<close>

definition picked :: "'a list \<Rightarrow> bool list \<Rightarrow> 'a list" where
  "picked xs ms = List.map fst (filter snd (zip xs ms))"

lemma picked_simps [simp]:
  "picked [] ms = []" "picked xs [] = []"
  "picked (x # xs) (m # ms) = (if m then x # picked xs ms else picked xs ms)"
  by (simp_all add: picked_def)

lemma select_by_mask_Inr: "select_by_mask xs ms s = (Inr ys, s') \<longleftrightarrow> length xs = length ms \<and> ys = picked xs ms \<and> s' = s"
  by (auto simp: select_by_mask_def picked_def retE_def raiseE_def)

lemma picked_map: "picked (List.map f xs) ms = List.map f (picked xs ms)"
  by (induction xs arbitrary: ms) (auto, case_tac ms, auto)

lemma picked_append: "length xs = length ms \<Longrightarrow> picked (xs @ ys) (ms @ ns) = picked xs ms @ picked ys ns"
  by (induction xs ms rule: list_induct2) auto

lemma set_picked: "set (picked xs ms) \<subseteq> set xs"
  by (auto simp: picked_def dest: set_zip_leftD)

lemma length_picked: "length xs = length ms \<Longrightarrow> length (picked xs ms) = length (filter id ms)"
  by (induction xs ms rule: list_induct2) auto

fun keeps :: "(bool \<times> bool) list \<Rightarrow> 'v list \<Rightarrow> 'v list \<Rightarrow> bool" where
  "keeps [] [] ws = (ws = [])"
| "keeps ((k, e) # cs) (v # vs) ws =
     (if k then (case ws of [] \<Rightarrow> False | w # ws' \<Rightarrow> (e \<longrightarrow> w = v) \<and> keeps cs vs ws') else keeps cs vs ws)"
| "keeps _ _ ws = False"

lemma keeps_mono:
  assumes "keeps cs vs ws" and "list_all2 (\<lambda>(k, e) (k', e'). k = k' \<and> (e' \<longrightarrow> e)) cs cs'"
  shows "keeps cs' vs ws"
  using assms by (induction cs vs ws arbitrary: cs' rule: keeps.induct)
    (auto simp: list_all2_Cons1 split: list.splits if_splits)

definition exactly :: "bool list \<Rightarrow> (bool \<times> bool) list" where
  "exactly ms = List.map (\<lambda>m. (m, m)) ms"

lemma keeps_exactly: "keeps (exactly ms) vs ws \<longleftrightarrow> length vs = length ms \<and> ws = picked vs ms"
proof (induction ms arbitrary: vs ws)
  case Nil
  then show ?case by (cases vs) (simp_all add: exactly_def)
next
  case (Cons m ms)
  then show ?case by (cases vs; cases ws) (auto simp: exactly_def)
qed

lemma fst_exactly [simp]: "List.map fst (exactly ms) = ms"
  by (simp add: exactly_def comp_def)

section \<open>Environments\<close>

definition agree :: "var set \<Rightarrow> 'v env \<Rightarrow> 'v env \<Rightarrow> bool" where
  "agree U \<rho> \<rho>' \<longleftrightarrow> (\<forall>x \<in> U. \<forall>v. \<rho> x = Some v \<longrightarrow> \<rho>' x = Some v)"

lemma agree_D: "agree U \<rho> \<rho>' \<Longrightarrow> x \<in> U \<Longrightarrow> \<rho> x = Some v \<Longrightarrow> \<rho>' x = Some v"
  by (simp add: agree_def)

lemma agree_lookups: "agree U \<rho> \<rho>' \<Longrightarrow> set xs \<subseteq> U \<Longrightarrow> lookups \<rho> xs = Some vs \<Longrightarrow> lookups \<rho>' xs = Some vs"
  by (induction xs arbitrary: vs) (auto simp: bind_eq_Some_conv agree_def)

lemma agree_drop: "agree U \<rho> \<rho>' \<Longrightarrow> set rs \<inter> U = {} \<Longrightarrow> bind_vars rs ys \<rho> = Some \<rho>1 \<Longrightarrow> agree U \<rho>1 \<rho>'"
  by (simp add: agree_def bind_vars_Some disjoint_iff) (metis map_upds_apply_nontin)

lemma bind_vars_Cons: "bind_vars (x # xs) (v # vs) \<rho> = bind_vars xs vs (\<rho>(x \<mapsto> v))"
  by (simp add: bind_vars_def)

lemma bind_keeps:
  assumes "keeps cs ys zs" and "length rs = length cs" and "bind_vars rs ys \<rho> = Some \<rho>1" and "agree U \<rho> \<rho>'"
    and "list_all2 (\<lambda>q (k, e). q \<in> U \<longrightarrow> k \<and> e) rs cs"
  shows "\<exists>\<rho>1'. bind_vars (picked rs (List.map fst cs)) zs \<rho>' = Some \<rho>1' \<and> agree U \<rho>1 \<rho>1'"
  using assms
proof (induction cs ys zs arbitrary: rs \<rho> \<rho>' rule: keeps.induct)
  case (1 ws)
  then show ?case by (auto simp: bind_vars_def)
next
  case (2 k e cs v vs ws)
  from 2(4) obtain q rs' where rs: "rs = q # rs'" by (cases rs) auto
  have l: "length rs' = length cs" using 2(4) by (simp add: rs)
  have b: "bind_vars rs' vs (\<rho>(q \<mapsto> v)) = Some \<rho>1" using 2(5) by (simp add: rs bind_vars_Cons)
  have c: "list_all2 (\<lambda>q (k, e). q \<in> U \<longrightarrow> k \<and> e) rs' cs" using 2(7) by (simp add: rs)
  show ?case
  proof (cases k)
    case True
    then obtain w ws' where ws: "ws = w # ws'" "e \<longrightarrow> w = v" "keeps cs vs ws'"
      using 2(3) by (auto split: list.splits)
    have ag: "agree U (\<rho>(q \<mapsto> v)) (\<rho>'(q \<mapsto> w))"
      using 2(6,7) ws(2) by (auto simp: agree_def rs)
    from 2(1) [OF True ws(1) ws(3) l b ag c]
    have "\<exists>\<rho>1'. bind_vars (picked rs' (List.map fst cs)) ws' (\<rho>'(q \<mapsto> w)) = Some \<rho>1' \<and> agree U \<rho>1 \<rho>1'" .
    then show ?thesis using True by (simp add: rs ws(1) bind_vars_Cons)
  next
    case False
    have ag: "agree U (\<rho>(q \<mapsto> v)) \<rho>'" using 2(6,7) False by (auto simp: agree_def rs)
    have k: "keeps cs vs ws" using 2(3) False by simp
    from 2(2) [OF False k l b ag c] show ?thesis using False by (simp add: rs)
  qed
qed auto

section \<open>Dummies\<close>

definition ctx_names :: "ir_context \<Rightarrow> var set" where
  "ctx_names ctx = fst ` set (all_vars ctx)"

lemma make_dummy_like_Inr:
  assumes "make_dummy_like v ctx = (Inr r, ctx')"
  obtains d where "r = (d, Operation MakeDummy [d] [])" and "d \<notin> ctx_names ctx"
    and "ctx_names ctx' = insert d (ctx_names ctx)"
proof -
  from assms obtain n c1 d c2 where "get_original_name v ctx = (Inr n, c1)" and mk: "make_var n c1 = (Inr d, c2)"
    and r: "r = (d, Operation MakeDummy [d] [])" and rest: "all_vars ctx' = all_vars c2" "c1 = ctx"
    by (auto simp: make_dummy_like_def make_var_like_def bindE_Inr_iff get_original_name_def get_type_def set_type_def
        getE_def assertE_Inr_iff modifyE_def retE_def)
  from make_var_fresh [OF mk] have "d \<notin> fst ` set (all_vars c1)" "all_vars c2 = (d, n) # all_vars c1" by auto
  then show thesis using that r rest by (simp add: ctx_names_def)
qed

definition keeps_names :: "'a ir \<Rightarrow> bool" where
  "keeps_names m \<longleftrightarrow> (\<forall>c r c'. m c = (Inr r, c') \<longrightarrow> ctx_names c \<subseteq> ctx_names c')"

lemma keeps_names_bind: "keeps_names m \<Longrightarrow> (\<And>x. keeps_names (k x)) \<Longrightarrow> keeps_names (bindE m k)"
  unfolding keeps_names_def
proof (intro allI impI)
  fix c r c'
  assume m: "\<forall>c r c'. m c = (Inr r, c') \<longrightarrow> ctx_names c \<subseteq> ctx_names c'"
    and k: "\<And>x. \<forall>c r c'. k x c = (Inr r, c') \<longrightarrow> ctx_names c \<subseteq> ctx_names c'"
    and "bindE m k c = (Inr r, c')"
  then obtain x c1 where "m c = (Inr x, c1)" "k x c1 = (Inr r, c')" by (auto simp: bindE_Inr_iff)
  then show "ctx_names c \<subseteq> ctx_names c'" using m k by (meson order_trans)
qed

lemma keeps_names_basic [simp]:
  "keeps_names (retE x)" "keeps_names skipE" "keeps_names (raiseE e)" "keeps_names (select_by_mask xs ms)"
  "keeps_names (assertE b)" "keeps_names (cf_used cfs us i)" "keeps_names (strict_masks m xs ys)"
  by (auto simp: keeps_names_def retE_def skipE_def raiseE_def select_by_mask_def assertE_def cf_used_def
      strict_masks_def split: option.splits if_splits)

lemma keeps_names_dummy: "keeps_names (make_dummy_like v)"
  by (auto simp: keeps_names_def elim!: make_dummy_like_Inr)

lemma keeps_names_replace: "keeps_names (replace_pruned_with_dummy vs us)"
  by (induction vs us rule: replace_pruned_with_dummy.induct)
    (auto intro!: keeps_names_bind keeps_names_dummy split: prod.splits)

lemma keeps_names_prune: "keeps_names (prune_block ops us cfs lm bm)"
  by (induction ops us cfs lm bm rule: prune_block.induct)
    (auto simp: Let_def intro!: keeps_names_bind keeps_names_replace split: prod.splits)

lemma prune_names: "prune_block ops us cfs lm bm c = (Inr r, c') \<Longrightarrow> U \<subseteq> ctx_names c \<Longrightarrow> U \<subseteq> ctx_names c'"
  using keeps_names_prune unfolding keeps_names_def by blast

lemma exec_dummy:
  assumes "m_step M MakeDummy [] s = Some ([w], s)"
  shows "exec M n (Operation MakeDummy [d] [] # ops) \<rho> s = exec M n ops (\<rho>(d \<mapsto> w)) s"
  using assms by (simp add: resume_def bind_vars_def)

lemma replace_run:
  assumes M: "has_dummies M"
  shows "replace_pruned_with_dummy vs U ctx = (Inr (vs', ds), ctx') \<Longrightarrow> U \<subseteq> ctx_names ctx \<Longrightarrow>
    (\<forall>v \<in> set vs \<inter> U. \<rho> v \<noteq> None) \<Longrightarrow>
    \<exists>\<rho>2 ws. (\<forall>rest. exec M n (ds @ rest) \<rho> s = exec M n rest \<rho>2 s) \<and> (\<forall>x \<in> ctx_names ctx. \<rho>2 x = \<rho> x) \<and>
      lookups \<rho>2 vs' = Some ws \<and> list_all2 (\<lambda>v w. v \<in> U \<longrightarrow> \<rho> v = Some w) vs ws \<and> U \<subseteq> ctx_names ctx'"
proof (induction vs U arbitrary: ctx vs' ds ctx' \<rho> rule: replace_pruned_with_dummy.induct)
  case (1 us)
  then show ?case by (auto simp: retE_def intro: exI [of _ \<rho>])
next
  case (2 v vs us)
  show ?case
  proof (cases "v \<in> us")
    case True
    with 2(2) obtain xs o2 where r: "replace_pruned_with_dummy vs us ctx = (Inr (xs, o2), ctx')"
        "vs' = v # xs" "ds = o2" by (auto simp: bindE_Inr_iff retE_def)
    from 2(1) [OF r(1) 2(3), of \<rho>] 2(4) obtain \<rho>2 ws where
      w: "\<forall>rest. exec M n (ds @ rest) \<rho> s = exec M n rest \<rho>2 s" "\<forall>x \<in> ctx_names ctx. \<rho>2 x = \<rho> x"
      "lookups \<rho>2 xs = Some ws" "list_all2 (\<lambda>v w. v \<in> us \<longrightarrow> \<rho> v = Some w) vs ws" "us \<subseteq> ctx_names ctx'"
      by (auto simp: r(3))
    from True 2(4) obtain a where a: "\<rho> v = Some a" by auto
    have "\<rho>2 v = Some a" using w(2) True 2(3) a by auto
    then show ?thesis using w a by (intro exI [of _ \<rho>2] exI [of _ "a # ws"]) (auto simp: r(2))
  next
    case False
    with 2(2) obtain p c1 xs o2 where mk: "make_dummy_like v ctx = (Inr p, c1)"
      and r': "replace_pruned_with_dummy vs us c1 = (Inr (xs, o2), ctx')"
        "vs' = fst p # xs" "ds = snd p # o2"
      by (auto simp: bindE_Inr_iff retE_def split: prod.splits)
    from make_dummy_like_Inr [OF mk] obtain d where d: "p = (d, Operation MakeDummy [d] [])"
        "d \<notin> ctx_names ctx" "ctx_names c1 = insert d (ctx_names ctx)" .
    have r: "replace_pruned_with_dummy vs us c1 = (Inr (xs, o2), ctx')"
      "vs' = d # xs" "ds = Operation MakeDummy [d] [] # o2" using r' d(1) by simp_all
    from M obtain w where w: "m_step M MakeDummy [] s = Some ([w], s)" by (auto simp: has_dummies_def)
    have dU: "d \<notin> us" using d(2) 2(3) by auto
    have u1: "us \<subseteq> ctx_names c1" using 2(3) d(3) by auto
    have "\<forall>v \<in> set vs \<inter> us. (\<rho>(d \<mapsto> w)) v \<noteq> None" using 2(4) by auto
    from 2(1) [OF r(1) u1 this]
    have "\<exists>\<rho>2 ws. (\<forall>rest. exec M n (o2 @ rest) (\<rho>(d \<mapsto> w)) s = exec M n rest \<rho>2 s) \<and>
      (\<forall>x \<in> ctx_names c1. \<rho>2 x = (\<rho>(d \<mapsto> w)) x) \<and> lookups \<rho>2 xs = Some ws \<and>
      list_all2 (\<lambda>v x. v \<in> us \<longrightarrow> (\<rho>(d \<mapsto> w)) v = Some x) vs ws \<and> us \<subseteq> ctx_names ctx'" .
    then obtain \<rho>2 ws where
      e: "\<forall>rest. exec M n (o2 @ rest) (\<rho>(d \<mapsto> w)) s = exec M n rest \<rho>2 s"
      "\<forall>x \<in> ctx_names c1. \<rho>2 x = (\<rho>(d \<mapsto> w)) x" "lookups \<rho>2 xs = Some ws"
      "list_all2 (\<lambda>v x. v \<in> us \<longrightarrow> (\<rho>(d \<mapsto> w)) v = Some x) vs ws" "us \<subseteq> ctx_names ctx'" by blast
    have "list_all2 (\<lambda>v x. v \<in> us \<longrightarrow> \<rho> v = Some x) vs ws"
      using e(4) by (rule list_all2_mono) (use dU in \<open>auto split: if_splits\<close>)
    moreover have "\<rho>2 d = Some w" using e(2) d(3) by simp
    moreover have "\<forall>x \<in> ctx_names ctx. \<rho>2 x = \<rho> x" using e(2) d(2,3) by auto
    ultimately show ?thesis using e(1,3,5) False exec_dummy [OF w]
      by (intro exI [of _ \<rho>2] exI [of _ "w # ws"]) (simp add: r(2,3))
  qed
qed

lemma keeps_values:
  assumes "lookups \<rho> vs = Some vals" and "length vs = length cs"
    and "list_all2 (\<lambda>v w. v \<in> U \<longrightarrow> \<rho>' v = Some w) (picked vs (List.map fst cs)) ws"
    and "list_all2 (\<lambda>v (k, e). e \<longrightarrow> v \<in> U) vs cs" and "agree U \<rho> \<rho>'"
  shows "keeps cs vals ws"
  using assms
proof (induction cs arbitrary: vs vals ws)
  case Nil
  then show ?case by auto
next
  case (Cons c cs)
  obtain k e where c: "c = (k, e)" by (cases c)
  from Cons.prems(2) obtain v vs1 where vs: "vs = v # vs1" by (cases vs) auto
  from Cons.prems(1) obtain a vals1 where a: "\<rho> v = Some a" "lookups \<rho> vs1 = Some vals1" "vals = a # vals1"
    by (auto simp: vs bind_eq_Some_conv)
  show ?case
  proof (cases k)
    case True
    with Cons.prems(3) obtain w ws1 where w: "ws = w # ws1" "v \<in> U \<longrightarrow> \<rho>' v = Some w"
      "list_all2 (\<lambda>v w. v \<in> U \<longrightarrow> \<rho>' v = Some w) (picked vs1 (List.map fst cs)) ws1"
      by (auto simp: vs c list_all2_Cons1)
    have "e \<longrightarrow> w = a" using w(2) a(1) Cons.prems(4,5) by (auto simp: vs c dest: agree_D)
    then show ?thesis using Cons.IH [OF a(2) _ w(3)] Cons.prems True by (simp add: vs c a(3) w(1))
  next
    case False
    then show ?thesis using Cons.IH [OF a(2)] Cons.prems by (simp add: vs c a(3))
  qed
qed

text \<open>The operands of a terminator, and the initial values of a loop.\<close>

lemma operands_run:
  assumes M: "has_dummies M" and sel: "select_by_mask vs (List.map fst cs) c0 = (Inr vs1, c1)"
    and rep: "replace_pruned_with_dummy vs1 U c1 = (Inr (vs2, ds), c2)"
    and U: "U \<subseteq> ctx_names c0" and vals: "lookups \<rho> vs = Some vals" and ag: "agree U \<rho> \<rho>'"
    and ex: "list_all2 (\<lambda>v (k, e). e \<longrightarrow> v \<in> U) vs cs"
  obtains \<rho>2 ws where "\<And>rest. exec M n (ds @ rest) \<rho>' s = exec M n rest \<rho>2 s" and "agree U \<rho> \<rho>2"
    and "lookups \<rho>2 vs2 = Some ws" and "keeps cs vals ws" and "U \<subseteq> ctx_names c2"
proof -
  from sel have vs1: "length vs = length cs" "vs1 = picked vs (List.map fst cs)" "c1 = c0"
    by (auto simp: select_by_mask_Inr)
  have "\<forall>v \<in> set vs1 \<inter> U. \<rho>' v \<noteq> None"
  proof
    fix v assume v: "v \<in> set vs1 \<inter> U"
    then have "v \<in> set vs" using set_picked [of vs] by (auto simp: vs1(2))
    then obtain a where "\<rho> v = Some a" using vals by (auto simp: lookups_list_all2 list_all2_conv_all_nth in_set_conv_nth)
    then show "\<rho>' v \<noteq> None" using ag v by (auto simp: agree_def)
  qed
  from replace_run [OF M rep U [folded vs1(3)] this, of n s] obtain \<rho>2 ws where
    r: "\<And>rest. exec M n (ds @ rest) \<rho>' s = exec M n rest \<rho>2 s" "\<forall>x \<in> ctx_names c1. \<rho>2 x = \<rho>' x"
      "lookups \<rho>2 vs2 = Some ws" "list_all2 (\<lambda>v w. v \<in> U \<longrightarrow> \<rho>' v = Some w) vs1 ws" "U \<subseteq> ctx_names c2" by auto
  have "agree U \<rho> \<rho>2" using ag r(2) U by (auto simp: agree_def vs1(3))
  moreover have "keeps cs vals ws" using keeps_values [OF vals vs1(1) _ ex ag] r(4) by (simp add: vs1(2))
  ultimately show thesis using that r(1,3,5) by blast
qed

section \<open>Reductions and scans of fewer tiles\<close>

lemma picked_nth: "length r = n \<Longrightarrow> picked r ms = List.map ((!) r) (picked [0..<n] ms)"
  using picked_map [of "(!) r" "[0..<n]" ms] map_nth [of r] by auto

lemma picked_nil_any: "length xs = length ms \<Longrightarrow> picked xs ms = [] \<longleftrightarrow> True \<notin> set ms"
  by (induction xs ms rule: list_induct2) auto

definition picks_body :: "nat \<Rightarrow> bool list \<Rightarrow> ('v list \<Rightarrow> 'v list \<Rightarrow> 'v list option) \<Rightarrow> ('v list \<Rightarrow> 'v list \<Rightarrow> 'v list option) \<Rightarrow> bool" where
  "picks_body n ms g g' \<longleftrightarrow> (\<forall>a e b. length a = n \<longrightarrow> length e = n \<longrightarrow> g a e = Some b \<longrightarrow>
     length b = n \<and> g' (picked a ms) (picked e ms) = Some (picked b ms))"

lemma accumulate_picked:
  assumes "picks_body n ms g g'"
  shows "accumulate g a es = Some rs \<Longrightarrow> length a = n \<Longrightarrow> \<forall>e \<in> set es. length e = n \<Longrightarrow>
    accumulate g' (picked a ms) (List.map (\<lambda>e. picked e ms) es) = Some (List.map (\<lambda>r. picked r ms) rs) \<and>
    (\<forall>r \<in> set rs. length r = n)"
proof (induction es arbitrary: a rs)
  case (Cons e es)
  from Cons.prems(1) obtain b rs1 where b: "g a e = Some b" "accumulate g b es = Some rs1" "rs = b # rs1"
    by (auto simp: bind_eq_Some_conv)
  have "length b = n \<and> g' (picked a ms) (picked e ms) = Some (picked b ms)"
    using assms [unfolded picks_body_def, rule_format, OF Cons.prems(2) _ b(1)] Cons.prems(3) by simp
  then show ?case using Cons.IH [OF b(2)] Cons.prems(3) by (simp add: b(3))
qed simp

lemma fold_lane_picked:
  assumes "picks_body n ms g g'" and "fold_lane k g a es = Some rs" and "length a = n" and "\<forall>e \<in> set es. length e = n"
  shows "fold_lane k g' (picked a ms) (List.map (\<lambda>e. picked e ms) es) = Some (List.map (\<lambda>r. picked r ms) rs) \<and>
    (\<forall>r \<in> set rs. length r = n)"
proof (cases k)
  case (TileReduce ax)
  then obtain as where as: "accumulate g a es = Some as" "rs = [last (a # as)]"
    using assms(2) by (auto simp: fold_lane_def)
  have "\<forall>r \<in> set (a # as). length r = n" using accumulate_picked [OF assms(1) as(1)] assms(3,4) by simp
  then have "length (last (a # as)) = n" using last_in_set [of "a # as"] by blast
  moreover have "picked (last (a # as)) ms = last (picked a ms # List.map (\<lambda>r. picked r ms) as)"
    by (cases as rule: rev_cases) auto
  ultimately show ?thesis using accumulate_picked [OF assms(1) as(1) assms(3,4)]
    by (simp add: fold_lane_def TileReduce as(2))
next
  case (TileScan ax rv)
  then show ?thesis using assms accumulate_picked [OF assms(1), of a "if rv then rev es else es"]
    by (cases rv) (auto simp: fold_lane_def rev_map)
qed

lemma lane_picked: "lane M ax (picked vs ms) q i = List.map (\<lambda>e. picked e ms) (lane M ax vs q i)"
  by (simp add: lane_def picked_map)

lemma those_map_Some: "those (List.map f xs) = Some ys \<longleftrightarrow> list_all2 (\<lambda>x y. f x = Some y) xs ys"
  by (induction xs arbitrary: ys) (auto simp: list_all2_Cons1 split: option.splits)

lemma fold_tiles_picked:
  assumes run: "fold_tiles M k g ids vs = Some ys" and n: "length vs = n" "length ms = n" and g: "picks_body n ms g g'"
  shows "fold_tiles M k g' (picked ids ms) (picked vs ms) = Some (picked ys ms) \<and> length ys = n"
proof (cases "vs = []")
  case True
  then show ?thesis using run n by (simp add: fold_tiles_def)
next
  case False
  let ?ax = "fold_axis k"
  obtain p q where pq: "m_dims M ?ax (hd vs) = (p, q)" by fastforce
  define out where "out = (\<lambda>rows :: 'a list list list. \<lambda>t. m_tile M ?ax (List.map (List.map (\<lambda>r. r ! t)) rows))"
  from run False pq obtain rows where all: "\<forall>v \<in> set vs. m_dims M ?ax v = (p, q)" "length ids = n"
    and rows: "list_all2 (\<lambda>i row. fold_lane k g (List.map (m_const M) ids) (lane M ?ax vs q i) = Some row) [0..<p] rows"
    and ys: "ys = List.map (out rows) [0..<n]"
    by (auto simp: fold_tiles_def Let_def those_map_Some n(1) out_def split: if_splits)
  let ?pick = "\<lambda>r. picked r ms"
  have row: "fold_lane k g' (List.map (m_const M) (picked ids ms)) (lane M ?ax (picked vs ms) q i) = Some (List.map ?pick row) \<and>
      (\<forall>r \<in> set row. length r = n)"
    if "fold_lane k g (List.map (m_const M) ids) (lane M ?ax vs q i) = Some row" for i row
  proof -
    have "length (List.map (m_const M) ids) = n" "\<forall>e \<in> set (lane M ?ax vs q i). length e = n"
      using all(2) n(1) by (simp_all add: lane_def)
    from fold_lane_picked [OF g that this] show ?thesis unfolding lane_picked picked_map .
  qed
  have rows': "list_all2 (\<lambda>i row. fold_lane k g' (List.map (m_const M) (picked ids ms)) (lane M ?ax (picked vs ms) q i) = Some row)
      [0..<p] (List.map (List.map ?pick) rows)"
    using rows by (auto simp: list_all2_map2 elim!: list_all2_mono dest: row)
  have wide: "\<forall>row \<in> set rows. \<forall>r \<in> set row. length r = n"
  proof (intro ballI)
    fix w r assume "w \<in> set rows" and r: "r \<in> set w"
    then obtain j where "j < length rows" "w = rows ! j" by (auto simp: in_set_conv_nth)
    then have "fold_lane k g (List.map (m_const M) ids) (lane M ?ax vs q ([0..<p] ! j)) = Some w"
      using list_all2_nthD2 [OF rows] by simp
    then show "length r = n" using row r by blast
  qed
  let ?P = "picked [0..<n] ms"
  have out: "List.map (out (List.map (List.map ?pick) rows)) [0..<length ?P] = picked ys ms"
  proof -
    have "out (List.map (List.map ?pick) rows) t = out rows (?P ! t)" if "t < length ?P" for t
    proof -
      have nth: "picked r ms ! t = r ! (?P ! t)" if "length r = n" for r :: "'a list"
      proof -
        have "picked r ms ! t = List.map ((!) r) ?P ! t" by (subst picked_nth [OF that]) (rule refl)
        then show ?thesis using \<open>t < length ?P\<close> by simp
      qed
      have "List.map (List.map (\<lambda>r. r ! t)) (List.map (List.map ?pick) rows) = List.map (List.map (\<lambda>r. r ! (?P ! t))) rows"
        using wide nth by simp
      then show ?thesis by (simp only: out_def)
    qed
    then have "List.map (out (List.map (List.map ?pick) rows)) [0..<length ?P] = List.map (\<lambda>t. out rows (?P ! t)) [0..<length ?P]"
      by simp
    also have "\<dots> = List.map (out rows) ?P"
      by (rule nth_equalityI) simp_all
    also have "\<dots> = picked ys ms" by (simp add: ys picked_map)
    finally show ?thesis .
  qed
  have len: "length (picked vs ms) = length ?P" "length (picked ids ms) = length ?P" "length ys = n"
    using n all(2) by (simp_all add: length_picked ys)
  show ?thesis
  proof (cases "picked vs ms = []")
    case True
    then have "picked ys ms = []" using n len(3) picked_nil_any [of vs ms] picked_nil_any [of ys ms] by simp
    then show ?thesis using True len(3) by (simp add: fold_tiles_def)
  next
    case False
    have "hd (picked vs ms) \<in> set vs" using False set_picked [of vs ms] by (meson hd_in_set subsetD)
    moreover have "those (List.map (\<lambda>i. fold_lane k g' (List.map (m_const M) (picked ids ms)) (lane M ?ax (picked vs ms) q i)) [0..<p])
        = Some (List.map (List.map ?pick) rows)"
      using rows' by (simp only: those_map_Some)
    moreover have "\<forall>v \<in> set (picked vs ms). m_dims M ?ax v = (p, q)" using all(1) set_picked [of vs ms] by blast
    ultimately show ?thesis using False all(1) len out [unfolded out_def]
      by (simp add: fold_tiles_def Let_def)
  qed
qed

section \<open>Runs of a pruned block\<close>

definition continue_keeps :: "var set \<Rightarrow> loop_info \<Rightarrow> (bool \<times> bool) list" where
  "continue_keeps U li = List.map (\<lambda>(b, q). (b \<in> U \<or> q \<in> U, b \<in> U \<or> loop_is_for li \<and> q \<in> U))
     (zip (loop_body_vars li) (loop_result_vars li))"

definition break_keeps :: "var set \<Rightarrow> loop_info \<Rightarrow> (bool \<times> bool) list" where
  "break_keeps U li = List.map (\<lambda>(b, q). (b \<in> U \<or> q \<in> U, q \<in> U)) (zip (loop_body_vars li) (loop_result_vars li))"

definition loop_mask_of :: "var set \<Rightarrow> loop_info \<Rightarrow> bool list" where
  "loop_mask_of U li = List.map (\<lambda>(b, q). b \<in> U \<or> q \<in> U) (zip (loop_body_vars li) (loop_result_vars li))"

definition branch_mask_of :: "var set \<Rightarrow> var list \<Rightarrow> bool list" where
  "branch_mask_of U rs = List.map (\<lambda>q. q \<in> U) rs"

lemma fst_keeps [simp]:
  "List.map fst (continue_keeps U li) = loop_mask_of U li"
  "List.map fst (break_keeps U li) = loop_mask_of U li"
  by (auto simp: continue_keeps_def break_keeps_def loop_mask_of_def)

fun outcomes :: "var set \<Rightarrow> loop_info option \<Rightarrow> var list option \<Rightarrow> 'v outcome \<Rightarrow> 'v outcome \<Rightarrow> bool" where
  "outcomes U l t (Continued vs) o' = (\<exists>li ws. l = Some li \<and> o' = Continued ws \<and> keeps (continue_keeps U li) vs ws)"
| "outcomes U l t (Broke vs) o' = (\<exists>li ws. l = Some li \<and> o' = Broke ws \<and> keeps (break_keeps U li) vs ws)"
| "outcomes U l t (Yielded vs) o' = (\<exists>rs ws. t = Some rs \<and> o' = Yielded ws \<and> keeps (exactly (branch_mask_of U rs)) vs ws)"
| "outcomes U l t o1 o' = (o' = o1)"

definition simulates :: "('v, 's) machine \<Rightarrow> nat \<Rightarrow> var set \<Rightarrow> loop_info option \<Rightarrow> var list option \<Rightarrow>
    'v outcome \<times> 's \<Rightarrow> ir_op list \<Rightarrow> 'v env \<Rightarrow> 's \<Rightarrow> bool" where
  "simulates M n U l t r ops \<rho> s \<longleftrightarrow> (\<exists>o'. exec M n ops \<rho> s = Some (o', snd r) \<and> outcomes U l t (fst r) o')"

lemma list_all2_cont:
  assumes "list_all2 (\<lambda>d x. d \<in> U \<longrightarrow> x \<in> U) (loop_body_vars li) vs" and "length (loop_body_vars li) = length (loop_result_vars li)"
    and "loop_is_for li \<longrightarrow> list_all2 (\<lambda>d x. d \<in> U \<longrightarrow> x \<in> U) (loop_result_vars li) vs"
  shows "list_all2 (\<lambda>v (k, e). e \<longrightarrow> v \<in> U) vs (continue_keeps U li)"
  using assms by (auto simp: list_all2_conv_all_nth continue_keeps_def)

lemma list_all2_break:
  assumes "list_all2 (\<lambda>d x. d \<in> U \<longrightarrow> x \<in> U) (loop_result_vars li) vs" and "length (loop_body_vars li) = length (loop_result_vars li)"
  shows "list_all2 (\<lambda>v (k, e). e \<longrightarrow> v \<in> U) vs (break_keeps U li)"
  using assms by (auto simp: list_all2_conv_all_nth break_keeps_def)

lemma results_kept: "list_all2 (\<lambda>q (k, e). q \<in> U \<longrightarrow> k \<and> e) rs (exactly (branch_mask_of U rs))"
  by (auto simp: list_all2_conv_all_nth exactly_def branch_mask_of_def)

lemma lookups_picked:
  assumes "lookups \<rho> xs = Some vs" and "agree U \<rho> \<rho>'" and "list_all2 (\<lambda>x m. m \<longrightarrow> x \<in> U) xs ms"
  shows "lookups \<rho>' (picked xs ms) = Some (picked vs ms)"
  using assms
proof (induction xs arbitrary: vs ms)
  case (Cons x xs)
  then show ?case by (auto simp: bind_eq_Some_conv list_all2_Cons1 agree_def)
qed simp

text \<open>Results that a pruned operation still binds.\<close>

lemma resume_kept:
  assumes "resume rs \<rho> k r = Some (out, s')" and ag: "agree U \<rho> \<rho>'"
    and "\<And>ys t1. r = Some (Yielded ys, t1) \<Longrightarrow> \<exists>zs cs. r' = Some (Yielded zs, t1) \<and> keeps cs ys zs \<and>
        List.map fst cs = ms \<and> list_all2 (\<lambda>q (k, e). q \<in> U \<longrightarrow> k \<and> e) rs cs"
    and "\<And>o1 t1. r = Some (o1, t1) \<Longrightarrow> o1 \<noteq> Fell \<Longrightarrow> (\<And>ys. o1 \<noteq> Yielded ys) \<Longrightarrow>
        \<exists>o2. r' = Some (o2, t1) \<and> outcomes U l t o1 o2"
    and k: "\<And>\<rho>1 \<rho>1' t1. k \<rho>1 t1 = Some (out, s') \<Longrightarrow> agree U \<rho>1 \<rho>1' \<Longrightarrow>
        \<exists>o'. k' \<rho>1' t1 = Some (o', s') \<and> outcomes U l t out o'"
  shows "\<exists>o'. resume (picked rs ms) \<rho>' k' r' = Some (o', s') \<and> outcomes U l t out o'"
proof -
  from assms(1) consider ys t1 \<rho>1 where "r = Some (Yielded ys, t1)" "bind_vars rs ys \<rho> = Some \<rho>1" "k \<rho>1 t1 = Some (out, s')"
    | "r = Some (out, s')" "out \<noteq> Fell" "\<And>ys. out \<noteq> Yielded ys"
    by (auto simp: resume_Some)
  then show ?thesis
  proof cases
    case 1
    from assms(3) [OF 1(1)] obtain zs cs where z: "r' = Some (Yielded zs, t1)" "keeps cs ys zs" "List.map fst cs = ms"
      "list_all2 (\<lambda>q (k, e). q \<in> U \<longrightarrow> k \<and> e) rs cs" by blast
    from bind_keeps [OF z(2) list_all2_lengthD [OF z(4)] 1(2) ag z(4)] obtain \<rho>1' where
      b: "bind_vars (picked rs ms) zs \<rho>' = Some \<rho>1'" "agree U \<rho>1 \<rho>1'" by (auto simp: z(3))
    from k [OF 1(3) b(2)] show ?thesis by (simp add: resume_def z(1) b(1))
  next
    case 2
    from assms(4) [OF this] obtain o2 where o2: "r' = Some (o2, s')" "outcomes U l t out o2" by blast
    then show ?thesis using 2(2,3) by (cases out) (auto simp: resume_def)
  qed
qed

definition ready :: "var set \<Rightarrow> loop_info option \<Rightarrow> var option \<Rightarrow> var list option \<Rightarrow> var option \<Rightarrow>
    bool list \<Rightarrow> bool list \<Rightarrow> ir_context \<Rightarrow> bool" where
  "ready U l ln t cf lm bm ctx \<longleftrightarrow> set_option cf \<subseteq> U \<and> set_option ln \<subseteq> U \<and> U \<subseteq> ctx_names ctx \<and>
     (\<forall>li \<in> set_option l. length (loop_body_vars li) = length (loop_result_vars li) \<and> lm = loop_mask_of U li) \<and>
     (\<forall>rs \<in> set_option t. bm = branch_mask_of U rs)"

definition prunes :: "('v, 's) machine \<Rightarrow> nat \<Rightarrow> var set \<Rightarrow> flow_edges \<Rightarrow> (nat \<times> var) list \<Rightarrow> ir_op list \<Rightarrow> bool" where
  "prunes M n U E cfs ops \<longleftrightarrow> (\<forall>l ln t cf lm bm ctx ops' ctx' \<rho> \<rho>' s out s'.
     flow E (map_of cfs) ops l ln t cf \<longrightarrow> ready U l ln t cf lm bm ctx \<longrightarrow>
     prune_block ops U cfs lm bm ctx = (Inr ops', ctx') \<longrightarrow> agree U \<rho> \<rho>' \<longrightarrow>
     exec M n ops \<rho> s = Some (out, s') \<longrightarrow>
     (\<exists>o'. exec M n ops' \<rho>' s = Some (o', s') \<and> outcomes U l t out o'))"

lemma prunes_D:
  assumes "prunes M n U E cfs ops" and "flow E (map_of cfs) ops l ln t cf" and "ready U l ln t cf lm bm ctx"
    and "prune_block ops U cfs lm bm ctx = (Inr ops', ctx')" and "agree U \<rho> \<rho>'" and "exec M n ops \<rho> s = Some (out, s')"
  obtains o' where "exec M n ops' \<rho>' s = Some (o', s')" and "outcomes U l t out o'"
  using assms unfolding prunes_def by blast

lemma prunes_ex:
  assumes "prunes M n U E cfs ops" and "flow E (map_of cfs) ops l ln t cf" and "ready U l ln t cf lm bm ctx"
    and "prune_block ops U cfs lm bm ctx = (Inr ops', ctx')" and "agree U \<rho> \<rho>'" and "exec M n ops \<rho> s = Some (out, s')"
  shows "\<exists>o'. exec M n ops' \<rho>' s = Some (o', s') \<and> outcomes U l t out o'"
  using assms unfolding prunes_def by blast

lemma ready_ctx: "ready U l ln t cf lm bm ctx \<Longrightarrow> U \<subseteq> ctx_names ctx' \<Longrightarrow> ready U l ln t cf lm bm ctx'"
  by (simp add: ready_def)

lemma agree_bind:
  assumes "agree U \<rho> \<rho>'" and "bind_vars rs ys \<rho> = Some \<rho>1"
  obtains \<rho>1' where "bind_vars rs ys \<rho>' = Some \<rho>1'" and "agree U \<rho>1 \<rho>1'"
proof -
  have "agree U (\<rho>(rs [\<mapsto>] ys)) (\<rho>'(rs [\<mapsto>] ys))" if "agree U \<rho> \<rho>'" "length rs = length ys" for \<rho> \<rho>'
    using that(2,1)
  proof (induction rs ys arbitrary: \<rho> \<rho>' rule: list_induct2)
    case (Cons x xs y ys)
    have "agree U (\<rho>(x \<mapsto> y)) (\<rho>'(x \<mapsto> y))" using Cons.prems by (auto simp: agree_def)
    from Cons.IH [OF this] have "agree U (\<rho>(x \<mapsto> y, xs [\<mapsto>] ys)) (\<rho>'(x \<mapsto> y, xs [\<mapsto>] ys))" .
    then show ?case by simp
  qed simp
  then show thesis using that assms by (auto simp: bind_vars_Some)
qed

lemma prunes_Nil: "prunes M n U E cfs []"
  by (auto simp: prunes_def retE_def)

lemma prunes_Operation:
  assumes U: "closed_under U E" and M: "pure_steps M" and IH: "prunes M n U E cfs ops"
  shows "prunes M n U E cfs (Operation c rs xs # ops)"
  unfolding prunes_def
proof (intro allI impI)
  fix l ln t cf lm bm ctx ops' ctx' \<rho> \<rho>' s out s'
  assume fl: "flow E (map_of cfs) (Operation c rs xs # ops) l ln t cf" and rd: "ready U l ln t cf lm bm ctx"
    and pr: "prune_block (Operation c rs xs # ops) U cfs lm bm ctx = (Inr ops', ctx')" and ag: "agree U \<rho> \<rho>'"
    and ex: "exec M n (Operation c rs xs # ops) \<rho> s = Some (out, s')"
  from pr obtain ops1 where p: "prune_block ops U cfs lm bm ctx = (Inr ops1, ctx')"
    and ops': "ops' = (if (\<exists>r \<in> set rs. r \<in> U) \<or> has_observable_effect c then Operation c rs xs # ops1 else ops1)"
    by (auto simp: bindE_Inr_iff retE_def)
  from fl have fl1: "flow E (map_of cfs) ops l ln t cf" by simp
  show "\<exists>o'. exec M n ops' \<rho>' s = Some (o', s') \<and> outcomes U l t out o'"
  proof (cases "c = Return")
    case True
    then show ?thesis using ex ops' by auto
  next
    case False
    with ex obtain vs ys t1 \<rho>1 where vs: "lookups \<rho> xs = Some vs" and st: "m_step M c vs s = Some (ys, t1)"
      and b: "bind_vars rs ys \<rho> = Some \<rho>1" and k: "exec M n ops \<rho>1 t1 = Some (out, s')"
      by (auto simp: bind_eq_Some_conv resume_Some)
    show ?thesis
    proof (cases "(\<exists>r \<in> set rs. r \<in> U) \<or> has_observable_effect c")
      case True
      then have "set xs \<subseteq> U"
      proof
        assume "\<exists>r \<in> set rs. r \<in> U"
        then show ?thesis using fl closed_D [OF U] by (simp, blast)
      next
        assume "has_observable_effect c"
        then show ?thesis using fl closed_None [OF U] by auto
      qed
      from agree_lookups [OF ag this vs] have "lookups \<rho>' xs = Some vs" .
      moreover from agree_bind [OF ag b] obtain \<rho>1' where "bind_vars rs ys \<rho>' = Some \<rho>1'" "agree U \<rho>1 \<rho>1'" .
      moreover from prunes_D [OF IH fl1 rd p this(2) k] obtain o' where
        "exec M n ops1 \<rho>1' t1 = Some (o', s')" "outcomes U l t out o'" .
      ultimately show ?thesis using True False st by (auto simp: ops' resume_def)
    next
      case drop: False
      then have "t1 = s" using M st by (auto simp: pure_steps_def)
      have "agree U \<rho>1 \<rho>'" using agree_drop [OF ag _ b] drop by auto
      from prunes_D [OF IH fl1 rd p this k] obtain o' where
        "exec M n ops1 \<rho>' t1 = Some (o', s')" "outcomes U l t out o'" .
      then show ?thesis using drop \<open>t1 = s\<close> by (auto simp: ops')
    qed
  qed
qed

lemma prunes_Continue:
  assumes U: "closed_under U E" and M: "has_dummies M"
  shows "prunes M n U E cfs (Continue vs # ops)"
  unfolding prunes_def
proof (intro allI impI)
  fix l ln t cf lm bm ctx ops' ctx' \<rho> \<rho>' s out s'
  assume fl: "flow E (map_of cfs) (Continue vs # ops) l ln t cf" and rd: "ready U l ln t cf lm bm ctx"
    and pr: "prune_block (Continue vs # ops) U cfs lm bm ctx = (Inr ops', ctx')" and ag: "agree U \<rho> \<rho>'"
    and ex: "exec M n (Continue vs # ops) \<rho> s = Some (out, s')"
  from fl obtain li where li: "l = Some li" "depends E (loop_body_vars li) vs" "loop_is_for li \<longrightarrow> depends E (loop_result_vars li) vs"
    by auto
  then have len: "length (loop_body_vars li) = length (loop_result_vars li)" and lm: "lm = loop_mask_of U li"
    using rd by (auto simp: ready_def)
  have cs: "list_all2 (\<lambda>v (k, e). e \<longrightarrow> v \<in> U) vs (continue_keeps U li)"
    using list_all2_cont [OF closed_depends [OF U li(2)] len] closed_depends [OF U] li(3) by blast
  from pr obtain vs1 c1 vs2 ds c2 ops1 where p: "select_by_mask vs (List.map fst (continue_keeps U li)) ctx = (Inr vs1, c1)"
      "replace_pruned_with_dummy vs1 U c1 = (Inr (vs2, ds), c2)" "ops' = ds @ Continue vs2 # ops1"
    by (auto simp: bindE_Inr_iff retE_def lm)
  from ex obtain vals where v: "lookups \<rho> vs = Some vals" "out = Continued vals" "s' = s"
    by (auto simp: bind_eq_Some_conv)
  have "U \<subseteq> ctx_names ctx" using rd by (simp add: ready_def)
  from operands_run [OF M p(1,2) this v(1) ag cs, of n s] obtain \<rho>2 ws where
    "\<And>rest. exec M n (ds @ rest) \<rho>' s = exec M n rest \<rho>2 s" "lookups \<rho>2 vs2 = Some ws" "keeps (continue_keeps U li) vals ws"
    by metis
  then show "\<exists>o'. exec M n ops' \<rho>' s = Some (o', s') \<and> outcomes U l t out o'" by (simp add: p(3) v(2,3) li(1))
qed

lemma prunes_Break:
  assumes U: "closed_under U E" and M: "has_dummies M"
  shows "prunes M n U E cfs (Break vs # ops)"
  unfolding prunes_def
proof (intro allI impI)
  fix l ln t cf lm bm ctx ops' ctx' \<rho> \<rho>' s out s'
  assume fl: "flow E (map_of cfs) (Break vs # ops) l ln t cf" and rd: "ready U l ln t cf lm bm ctx"
    and pr: "prune_block (Break vs # ops) U cfs lm bm ctx = (Inr ops', ctx')" and ag: "agree U \<rho> \<rho>'"
    and ex: "exec M n (Break vs # ops) \<rho> s = Some (out, s')"
  from fl obtain li where li: "l = Some li" "depends E (loop_result_vars li) vs" by auto
  then have len: "length (loop_body_vars li) = length (loop_result_vars li)" and lm: "lm = loop_mask_of U li"
    using rd by (auto simp: ready_def)
  have cs: "list_all2 (\<lambda>v (k, e). e \<longrightarrow> v \<in> U) vs (break_keeps U li)"
    by (rule list_all2_break [OF closed_depends [OF U li(2)] len])
  from pr obtain vs1 c1 vs2 ds c2 ops1 where p: "select_by_mask vs (List.map fst (break_keeps U li)) ctx = (Inr vs1, c1)"
      "replace_pruned_with_dummy vs1 U c1 = (Inr (vs2, ds), c2)" "ops' = ds @ Break vs2 # ops1"
    by (auto simp: bindE_Inr_iff retE_def lm)
  from ex obtain vals where v: "lookups \<rho> vs = Some vals" "out = Broke vals" "s' = s"
    by (auto simp: bind_eq_Some_conv)
  have "U \<subseteq> ctx_names ctx" using rd by (simp add: ready_def)
  from operands_run [OF M p(1,2) this v(1) ag cs, of n s] obtain \<rho>2 ws where
    "\<And>rest. exec M n (ds @ rest) \<rho>' s = exec M n rest \<rho>2 s" "lookups \<rho>2 vs2 = Some ws" "keeps (break_keeps U li) vals ws"
    by metis
  then show "\<exists>o'. exec M n ops' \<rho>' s = Some (o', s') \<and> outcomes U l t out o'" by (simp add: p(3) v(2,3) li(1))
qed

lemma prunes_EndBranch:
  assumes U: "closed_under U E"
  shows "prunes M n U E cfs (EndBranch vs # ops)"
  unfolding prunes_def
proof (intro allI impI)
  fix l ln t cf lm bm ctx ops' ctx' \<rho> \<rho>' s out s'
  assume fl: "flow E (map_of cfs) (EndBranch vs # ops) l ln t cf" and rd: "ready U l ln t cf lm bm ctx"
    and pr: "prune_block (EndBranch vs # ops) U cfs lm bm ctx = (Inr ops', ctx')" and ag: "agree U \<rho> \<rho>'"
    and ex: "exec M n (EndBranch vs # ops) \<rho> s = Some (out, s')"
  from fl obtain rs where rs: "t = Some rs" "depends E rs vs" by auto
  then have bm: "bm = branch_mask_of U rs" using rd by (simp add: ready_def)
  from pr obtain ops1 where p: "length vs = length bm" "ops' = EndBranch (picked vs bm) # ops1"
    by (auto simp: bindE_Inr_iff retE_def select_by_mask_Inr)
  from ex obtain vals where v: "lookups \<rho> vs = Some vals" "out = Yielded vals" "s' = s"
    by (auto simp: bind_eq_Some_conv)
  have "list_all2 (\<lambda>x m. m \<longrightarrow> x \<in> U) vs bm"
    using closed_depends [OF U rs(2)] by (auto simp: list_all2_conv_all_nth bm branch_mask_of_def)
  from lookups_picked [OF v(1) ag this] show "\<exists>o'. exec M n ops' \<rho>' s = Some (o', s') \<and> outcomes U l t out o'"
    using p lookups_length [OF v(1)] by (simp add: v(2,3) rs(1) keeps_exactly bm [symmetric])
qed

lemma effect_results:
  "retE x s = (Inr y, s') \<longleftrightarrow> y = x \<and> s' = s" "raiseE e s = (Inr y, s') \<longleftrightarrow> False"
  "skipE s = (Inr u, s') \<longleftrightarrow> s' = s"
  by (auto simp: retE_def raiseE_def skipE_def)

lemma prune_Loop_Inr:
  assumes "prune_block (Loop i r init ps body rs # ops) U cfs lm bm ctx = (Inr ops', ctx')"
  obtains (drop) m where "map_of cfs i = Some m" "m \<notin> U" "prune_block ops U cfs lm bm ctx = (Inr ops', ctx')"
  | (keep) m ms init1 init2 ds c1 body' c2 ops1 where "map_of cfs i = Some m" "m \<in> U"
      "ms = loop_mask_of U \<lparr>loop_is_for = (r \<noteq> None), loop_body_vars = body_vars r ps, loop_result_vars = rs\<rparr>"
      "select_by_mask init ms ctx = (Inr init1, ctx)"
      "replace_pruned_with_dummy init1 U ctx = (Inr (init2, ds), c1)"
      "prune_block body U cfs ms [] c1 = (Inr body', c2)" "r \<noteq> None \<longrightarrow> ps \<noteq> []"
      "prune_block ops U cfs lm bm c2 = (Inr ops1, ctx')"
      "ops' = ds @ Loop i r init2 (if r = None then picked (body_vars r ps) ms else hd ps # picked (body_vars r ps) ms)
         body' (picked rs ms) # ops1"
proof (cases "map_of cfs i")
  case None
  then show ?thesis using assms by (simp add: bindE_Inr_iff cf_used_def raiseE_def)
next
  case (Some m)
  show ?thesis
  proof (cases "m \<in> U")
    case False
    then show ?thesis using drop [OF Some False] assms by (simp add: bindE_Inr_iff cf_used_def Some effect_results)
  next
    case True
    then show ?thesis using keep [OF Some True refl] assms
      by (auto simp: bindE_Inr_iff cf_used_def Some effect_results strict_masks_def select_by_mask_Inr loop_mask_of_def
          Let_def split: if_splits)
  qed
qed

lemma outcomes_jump: "outcomes U l t o1 o2 \<Longrightarrow> (\<And>ys. o1 \<noteq> Yielded ys) \<Longrightarrow> outcomes U l t' o1 o2"
  by (cases o1) auto

lemma continue_break_keeps:
  "loop_is_for li \<Longrightarrow> keeps (continue_keeps U li) vs ws \<Longrightarrow> keeps (break_keeps U li) vs ws"
  by (erule keeps_mono) (auto simp: continue_keeps_def break_keeps_def list_all2_conv_all_nth)

text \<open>One iteration, then the whole loop.\<close>

lemma run_loop_sim:
  assumes step: "\<And>vs ws s o1 t1. (if r = None then keeps (continue_keeps U li) vs ws
        else \<exists>i vs' ws'. vs = i # vs' \<and> ws = i # ws' \<and> keeps (continue_keeps U li) vs' ws') \<Longrightarrow>
      f vs s = Some (o1, t1) \<Longrightarrow> \<exists>o2. g ws s = Some (o2, t1) \<and> outcomes U (Some li) None o1 o2"
    and li: "loop_is_for li = (r \<noteq> None)" and ag: "agree U \<rho> \<rho>'" and rv: "set (range_vars r) \<subseteq> U"
    and run: "run_loop M n r \<rho> f vs s = Some (out, t)" and vs: "keeps (continue_keeps U li) vs ws"
  shows "(out = Returned \<and> run_loop M n r \<rho>' g ws s = Some (Returned, t)) \<or>
    (\<exists>ys zs. out = Yielded ys \<and> run_loop M n r \<rho>' g ws s = Some (Yielded zs, t) \<and> keeps (break_keeps U li) ys zs)"
proof (cases r)
  case None
  have 1: "case x of (Continued vs', t) \<Rightarrow> \<exists>ws'. g ws s = Some (Continued ws', t) \<and> keeps (continue_keeps U li) vs' ws'
       | (Broke vs', t) \<Rightarrow> \<exists>ws'. g ws s = Some (Broke ws', t) \<and> keeps (break_keeps U li) vs' ws'
       | (Returned, t) \<Rightarrow> g ws s = Some (Returned, t) | _ \<Rightarrow> True"
    if "keeps (continue_keeps U li) vs ws" "f vs s = Some x" for vs ws s x
    using step [of vs ws s "fst x" "snd x"] that None by (auto split: prod.splits outcome.splits)
  from run have f: "while_loop f n vs s = Some (out, t)" by (simp add: run_loop_def None)
  have "(out = Returned \<and> while_loop g n ws s = Some (Returned, t)) \<or>
    (\<exists>ys zs. out = Yielded ys \<and> while_loop g n ws s = Some (Yielded zs, t) \<and> keeps (break_keeps U li) ys zs)"
    by (rule while_loop_sim [where R = "keeps (continue_keeps U li)", OF _ f vs]) (rule 1)
  then show ?thesis by (simp add: run_loop_def None)
next
  case (Some p)
  obtain a b c where p: "p = (a, b, c)" by (cases p)
  have 1: "case x of (Continued vs', t) \<Rightarrow> \<exists>ws'. g (i # ws) s = Some (Continued ws', t) \<and> keeps (continue_keeps U li) vs' ws'
       | (Broke vs', t) \<Rightarrow> \<exists>ws'. g (i # ws) s = Some (Broke ws', t) \<and> keeps (break_keeps U li) vs' ws'
       | (Returned, t) \<Rightarrow> g (i # ws) s = Some (Returned, t) | _ \<Rightarrow> True"
    if "keeps (continue_keeps U li) vs ws" "f (i # vs) s = Some x" for i vs ws s x
    using step [of "i # vs" "i # ws" s "fst x" "snd x"] that Some by (auto split: prod.splits outcome.splits)
  from run obtain va vb vc "is" where v: "\<rho> a = Some va" "\<rho> b = Some vb" "\<rho> c = Some vc" "m_range M va vb vc = Some is"
    and f: "for_loop f is vs s = Some (out, t)" by (auto simp: run_loop_def Some p bind_eq_Some_conv)
  have "\<rho>' a = Some va" "\<rho>' b = Some vb" "\<rho>' c = Some vc"
    using ag rv v by (auto simp: range_vars_def Some p agree_def)
  moreover have 2: "keeps (break_keeps U li) vs ws" if "keeps (continue_keeps U li) vs ws" for vs ws
    using continue_break_keeps [OF _ that] li Some by simp
  moreover have "(out = Returned \<and> for_loop g is ws s = Some (Returned, t)) \<or>
    (\<exists>ys zs. out = Yielded ys \<and> for_loop g is ws s = Some (Yielded zs, t) \<and> keeps (break_keeps U li) ys zs)"
    by (rule for_loop_sim [where R = "keeps (continue_keeps U li)", OF _ _ f vs]) (rule 1, assumption+, rule 2)
  ultimately show ?thesis using v(4) by (simp add: run_loop_def Some p)
qed

lemma params_kept:
  assumes "length (loop_body_vars li) = length (loop_result_vars li)"
  shows "list_all2 (\<lambda>q (k, e). q \<in> U \<longrightarrow> k \<and> e) (loop_body_vars li) (continue_keeps U li)"
    and "list_all2 (\<lambda>q (k, e). q \<in> U \<longrightarrow> k \<and> e) (loop_result_vars li) (break_keeps U li)"
  using assms by (auto simp: list_all2_conv_all_nth continue_keeps_def break_keeps_def)

lemma bind_params:
  assumes r: "r \<noteq> None \<longrightarrow> ps \<noteq> []" and len: "length (body_vars r ps) = length rs"
    and li: "li = \<lparr>loop_is_for = (r \<noteq> None), loop_body_vars = body_vars r ps, loop_result_vars = rs\<rparr>"
    and vs: "if r = None then keeps (continue_keeps U li) vs ws
        else \<exists>i vs' ws'. vs = i # vs' \<and> ws = i # ws' \<and> keeps (continue_keeps U li) vs' ws'"
    and b: "bind_vars ps vs \<rho> = Some \<rho>1" and ag: "agree U \<rho> \<rho>'"
  obtains \<rho>1' where "bind_vars (if r = None then picked (body_vars r ps) (loop_mask_of U li)
      else hd ps # picked (body_vars r ps) (loop_mask_of U li)) ws \<rho>' = Some \<rho>1'" and "agree U \<rho>1 \<rho>1'"
proof (cases "r = None")
  case True
  have k: "keeps (continue_keeps U li) vs ws" using vs True by simp
  have p: "list_all2 (\<lambda>q (k, e). q \<in> U \<longrightarrow> k \<and> e) ps (continue_keeps U li)"
    using params_kept(1) [of li U] len True by (simp add: li body_vars_def)
  from bind_keeps [OF k list_all2_lengthD [OF p] b ag p] True that show thesis by (auto simp: body_vars_def)
next
  case False
  then obtain p ps1 where ps: "ps = p # ps1" using r by (cases ps) auto
  obtain i vs' ws' where v: "vs = i # vs'" "ws = i # ws'" "keeps (continue_keeps U li) vs' ws'" using vs False by auto
  have k: "keeps ((True, True) # continue_keeps U li) vs ws" using v by simp
  have p: "list_all2 (\<lambda>q (k, e). q \<in> U \<longrightarrow> k \<and> e) ps ((True, True) # continue_keeps U li)"
    using params_kept(1) [of li U] len False by (cases r) (simp_all add: li body_vars_def ps)
  from bind_keeps [OF k list_all2_lengthD [OF p] b ag p] False that show thesis by (auto simp: body_vars_def ps)
qed

lemma ready_body:
  assumes "ready U l ln t cf lm bm ctx" and "m \<in> U" and "U \<subseteq> ctx_names ctx'"
    and "length (loop_body_vars li) = length (loop_result_vars li)"
  shows "ready U (Some li) (Some m) None (Some m) (loop_mask_of U li) [] ctx'"
  using assms by (simp add: ready_def)

lemma prunes_Loop:
  assumes U: "closed_under U E" and P: "pure_steps M" and D: "has_dummies M"
    and body: "prunes M n U E cfs body" and rest: "prunes M n U E cfs ops"
  shows "prunes M n U E cfs (Loop i r init ps body rs # ops)"
  unfolding prunes_def
proof (intro allI impI)
  fix l ln t cf lm bm ctx ops' ctx' \<rho> \<rho>' s out s'
  let ?bvs = "body_vars r ps"
  define li where li: "li = \<lparr>loop_is_for = (r \<noteq> None), loop_body_vars = ?bvs, loop_result_vars = rs\<rparr>"
  assume fl: "flow E (map_of cfs) (Loop i r init ps body rs # ops) l ln t cf" and rd: "ready U l ln t cf lm bm ctx"
    and pr: "prune_block (Loop i r init ps body rs # ops) U cfs lm bm ctx = (Inr ops', ctx')" and ag: "agree U \<rho> \<rho>'"
    and ex: "exec M n (Loop i r init ps body rs # ops) \<rho> s = Some (out, s')"
  from fl obtain m where m: "map_of cfs i = Some m" and len: "length init = length ?bvs" "length ?bvs = length rs"
    and dep: "depends E ?bvs init" "\<forall>q \<in> set rs. E (Some q) m" "\<forall>x \<in> set (range_vars r). E (Some m) x"
      "r \<noteq> None \<longrightarrow> depends E rs init"
    and fb: "flow E (map_of cfs) body (Some li) (Some m) None (Some m)" and fr: "flow E (map_of cfs) ops l ln t cf"
    by (auto simp: Let_def li)
  define f where "f = (\<lambda>ws t. Option.bind (bind_vars ps ws \<rho>) (\<lambda>\<rho>1. exec M n body \<rho>1 t))"
  from ex obtain vs where vs: "lookups \<rho> init = Some vs"
    and run: "resume rs \<rho> (exec M n ops) (run_loop M n r \<rho> f vs s) = Some (out, s')"
    by (auto simp: bind_eq_Some_conv f_def)
  from pr show "\<exists>o'. exec M n ops' \<rho>' s = Some (o', s') \<and> outcomes U l t out o'"
  proof (cases rule: prune_Loop_Inr)
    case (drop m')
    then have dead: "m \<notin> U" using m by simp
    from run obtain o1 t1 where r1: "run_loop M n r \<rho> f vs s = Some (o1, t1)" by (auto simp: resume_Some)
    have "t2 = s2 \<and> o2 \<noteq> Returned" if "f ws s2 = Some (o2, t2)" for ws s2 o2 t2
    proof -
      from that obtain \<rho>1 where "exec M n body \<rho>1 s2 = Some (o2, t2)" by (auto simp: f_def bind_eq_Some_conv)
      from dead_run [OF U P fb dead this] show ?thesis by simp
    qed
    then have "t1 = s \<and> (\<exists>ys. o1 = Yielded ys)" by (rule run_loop_quiet [OF _ r1])
    then obtain ys \<rho>1 where b: "bind_vars rs ys \<rho> = Some \<rho>1" and k: "exec M n ops \<rho>1 s = Some (out, s')"
      using run r1 by (auto simp: resume_Some)
    have "set rs \<inter> U = {}" using dep(2) closed_D [OF U] dead by blast
    from prunes_ex [OF rest fr rd drop(3) agree_drop [OF ag this b] k] show ?thesis by blast
  next
    case (keep m' ms init1 init2 ds c1 body' c2 ops1)
    then have live: "m \<in> U" and ms: "ms = loop_mask_of U li" using m by (simp_all add: li)
    have lenl: "length (loop_body_vars li) = length (loop_result_vars li)" using len by (simp add: li)
    have cs: "list_all2 (\<lambda>v (k, e). e \<longrightarrow> v \<in> U) init (continue_keeps U li)"
      by (rule list_all2_cont [OF _ lenl]) (use closed_depends [OF U] dep(1,4) in \<open>auto simp: li\<close>)
    have "U \<subseteq> ctx_names ctx" using rd by (simp add: ready_def)
    from operands_run [OF D keep(4) [unfolded ms, folded fst_keeps(1)] keep(5) this vs ag cs, of n s]
    obtain \<rho>2 ws where e: "\<And>rest. exec M n (ds @ rest) \<rho>' s = exec M n rest \<rho>2 s" and ag2: "agree U \<rho> \<rho>2"
      and ws: "lookups \<rho>2 init2 = Some ws" "keeps (continue_keeps U li) vs ws" and c1: "U \<subseteq> ctx_names c1" by metis
    let ?ps = "if r = None then picked ?bvs (loop_mask_of U li) else hd ps # picked ?bvs (loop_mask_of U li)"
    define g where "g = (\<lambda>ws t. Option.bind (bind_vars ?ps ws \<rho>2) (\<lambda>\<rho>1. exec M n body' \<rho>1 t))"
    have step: "\<exists>o2. g ws s = Some (o2, t1) \<and> outcomes U (Some li) None o1 o2"
      if k: "if r = None then keeps (continue_keeps U li) vs ws
        else \<exists>i vs' ws'. vs = i # vs' \<and> ws = i # ws' \<and> keeps (continue_keeps U li) vs' ws'" and f: "f vs s = Some (o1, t1)"
      for vs ws s o1 t1
    proof -
      from f obtain \<rho>1 where b: "bind_vars ps vs \<rho> = Some \<rho>1" "exec M n body \<rho>1 s = Some (o1, t1)"
        by (auto simp: f_def bind_eq_Some_conv)
      from bind_params [OF keep(7) len(2) li k b(1) ag2] obtain \<rho>1' where b': "bind_vars ?ps ws \<rho>2 = Some \<rho>1'" "agree U \<rho>1 \<rho>1'" .
      from prunes_ex [OF body fb ready_body [OF rd live c1 lenl] keep(6) [unfolded ms] b'(2) b(2)]
      show ?thesis by (auto simp: g_def b'(1))
    qed
    have rv: "set (range_vars r) \<subseteq> U" using dep(3) closed_D [OF U] live by blast
    have c2: "U \<subseteq> ctx_names c2" by (rule prune_names [OF keep(6) c1])
    have sim: "(o1 = Returned \<and> run_loop M n r \<rho>2 g ws s = Some (Returned, t1)) \<or>
        (\<exists>ys zs. o1 = Yielded ys \<and> run_loop M n r \<rho>2 g ws s = Some (Yielded zs, t1) \<and> keeps (break_keeps U li) ys zs)"
      if "run_loop M n r \<rho> f vs s = Some (o1, t1)" for o1 t1
      by (rule run_loop_sim [where f = f and li = li, OF _ _ ag2 rv that ws(2)]) (rule step, assumption+, simp add: li)
    have "\<exists>o'. resume (picked rs (loop_mask_of U li)) \<rho>2 (exec M n ops1) (run_loop M n r \<rho>2 g ws s) = Some (o', s') \<and> outcomes U l t out o'"
    proof (rule resume_kept [OF run ag2])
      fix ys t1 assume "run_loop M n r \<rho> f vs s = Some (Yielded ys, t1)"
      from sim [OF this] obtain zs where "run_loop M n r \<rho>2 g ws s = Some (Yielded zs, t1)" "keeps (break_keeps U li) ys zs"
        by auto
      then show "\<exists>zs cs. run_loop M n r \<rho>2 g ws s = Some (Yielded zs, t1) \<and> keeps cs ys zs \<and> List.map fst cs = loop_mask_of U li \<and>
        list_all2 (\<lambda>q (k, e). q \<in> U \<longrightarrow> k \<and> e) rs cs"
        using params_kept(2) [OF lenl, of U] by (intro exI [of _ zs] exI [of _ "break_keeps U li"]) (simp add: li)
    next
      fix o1 t1 assume r1: "run_loop M n r \<rho> f vs s = Some (o1, t1)" and "\<And>ys. o1 \<noteq> Yielded ys"
      with sim [OF r1] show "\<exists>o2. run_loop M n r \<rho>2 g ws s = Some (o2, t1) \<and> outcomes U l t o1 o2" by auto
    next
      fix \<rho>1 \<rho>1' t1 assume "exec M n ops \<rho>1 t1 = Some (out, s')" "agree U \<rho>1 \<rho>1'"
      from prunes_ex [OF rest fr ready_ctx [OF rd c2] keep(8) this(2,1)]
      show "\<exists>o'. exec M n ops1 \<rho>1' t1 = Some (o', s') \<and> outcomes U l t out o'" by blast
    qed
    then show ?thesis by (simp add: keep(9) e ws(1) ms g_def cong: if_cong)
  qed
qed

lemma prunes_IfElse:
  assumes U: "closed_under U E" and P: "pure_steps M"
    and T: "prunes M n U E cfs T" and F: "prunes M n U E cfs F" and rest: "prunes M n U E cfs ops"
  shows "prunes M n U E cfs (IfElse i c T F rs # ops)"
  unfolding prunes_def
proof (intro allI impI)
  fix l ln t cf lm bm ctx ops' ctx' \<rho> \<rho>' s out s'
  assume fl: "flow E (map_of cfs) (IfElse i c T F rs # ops) l ln t cf" and rd: "ready U l ln t cf lm bm ctx"
    and pr: "prune_block (IfElse i c T F rs # ops) U cfs lm bm ctx = (Inr ops', ctx')" and ag: "agree U \<rho> \<rho>'"
    and ex: "exec M n (IfElse i c T F rs # ops) \<rho> s = Some (out, s')"
  from fl obtain m where m: "map_of cfs i = Some m" and dep: "E (Some m) c" "\<forall>q \<in> set rs. E (Some q) m"
    and fT: "flow E (map_of cfs) T l ln (Some rs) (Some m)" and fF: "flow E (map_of cfs) F l ln (Some rs) (Some m)"
    and fr: "flow E (map_of cfs) ops l ln t cf" by auto
  from ex obtain v where v: "\<rho> c = Some v"
    and run: "resume rs \<rho> (exec M n ops) (if m_true M v then exec M n T \<rho> s else exec M n F \<rho> s) = Some (out, s')"
    by (auto simp: bind_eq_Some_conv)
  let ?ms = "branch_mask_of U rs"
  show "\<exists>o'. exec M n ops' \<rho>' s = Some (o', s') \<and> outcomes U l t out o'"
  proof (cases "m \<in> U")
    case False
    then have p: "prune_block ops U cfs lm bm ctx = (Inr ops', ctx')"
      using pr by (simp add: bindE_Inr_iff cf_used_def m effect_results)
    from run obtain o1 t1 where b1: "(if m_true M v then exec M n T \<rho> s else exec M n F \<rho> s) = Some (o1, t1)" and "o1 \<noteq> Fell"
      by (auto simp: resume_Some)
    have "t1 = s \<and> o1 \<noteq> Returned \<and> (\<forall>m. ln = Some m \<longrightarrow> m \<in> U \<longrightarrow> (\<forall>vs. o1 \<noteq> Continued vs \<and> o1 \<noteq> Broke vs))"
      using b1 dead_run [OF U P fT False] dead_run [OF U P fF False] by (cases "m_true M v") simp_all
    moreover have "\<exists>m. ln = Some m \<and> m \<in> U" if jump: "o1 = Continued vs \<or> o1 = Broke vs" for vs
    proof -
      have "ln \<noteq> None"
        using jump_needs_loop [OF fT _ jump] jump_needs_loop [OF fF _ jump] b1 by (cases "m_true M v") auto
      then show ?thesis using rd by (auto simp: ready_def)
    qed
    ultimately obtain ys where "o1 = Yielded ys" "t1 = s" using \<open>o1 \<noteq> Fell\<close> by (cases o1) auto
    then obtain \<rho>1 where b: "bind_vars rs ys \<rho> = Some \<rho>1" and k: "exec M n ops \<rho>1 s = Some (out, s')"
      using run b1 by (auto simp: resume_Some)
    have "set rs \<inter> U = {}" using dep(2) closed_D [OF U] False by blast
    from prunes_ex [OF rest fr rd p agree_drop [OF ag this b] k] show ?thesis by blast
  next
    case True
    with pr obtain T' c1 F' c2 ops1 where p: "prune_block T U cfs lm ?ms ctx = (Inr T', c1)"
        "prune_block F U cfs lm ?ms c1 = (Inr F', c2)" "prune_block ops U cfs lm bm c2 = (Inr ops1, ctx')"
        "ops' = IfElse i c T' F' (picked rs ?ms) # ops1"
      by (auto simp: bindE_Inr_iff cf_used_def m effect_results Let_def select_by_mask_Inr branch_mask_of_def)
    have ctx: "U \<subseteq> ctx_names ctx" using rd by (simp add: ready_def)
    have c1: "U \<subseteq> ctx_names c1" by (rule prune_names [OF p(1) ctx])
    have c2: "U \<subseteq> ctx_names c2" by (rule prune_names [OF p(2) c1])
    have rT: "ready U l ln (Some rs) (Some m) lm ?ms ctx" and rF: "ready U l ln (Some rs) (Some m) lm ?ms c1"
      using rd True c1 by (simp_all add: ready_def)
    have branch: "\<exists>o2. (if m_true M v then exec M n T' \<rho>' s else exec M n F' \<rho>' s) = Some (o2, t1) \<and> outcomes U l (Some rs) o1 o2"
      if "(if m_true M v then exec M n T \<rho> s else exec M n F \<rho> s) = Some (o1, t1)" for o1 t1
    proof (cases "m_true M v")
      case True
      then have "exec M n T \<rho> s = Some (o1, t1)" using that by simp
      from prunes_ex [OF T fT rT p(1) ag this] True show ?thesis by auto
    next
      case False
      then have "exec M n F \<rho> s = Some (o1, t1)" using that by simp
      from prunes_ex [OF F fF rF p(2) ag this] False show ?thesis by auto
    qed
    have "\<exists>o'. resume (picked rs ?ms) \<rho>' (exec M n ops1) (if m_true M v then exec M n T' \<rho>' s else exec M n F' \<rho>' s) = Some (o', s') \<and>
        outcomes U l t out o'"
    proof (rule resume_kept [OF run ag])
      fix ys t1 assume "(if m_true M v then exec M n T \<rho> s else exec M n F \<rho> s) = Some (Yielded ys, t1)"
      from branch [OF this] obtain zs where "(if m_true M v then exec M n T' \<rho>' s else exec M n F' \<rho>' s) = Some (Yielded zs, t1)"
        "keeps (exactly ?ms) ys zs" by auto
      then show "\<exists>zs cs. (if m_true M v then exec M n T' \<rho>' s else exec M n F' \<rho>' s) = Some (Yielded zs, t1) \<and> keeps cs ys zs \<and>
          List.map fst cs = ?ms \<and> list_all2 (\<lambda>q (k, e). q \<in> U \<longrightarrow> k \<and> e) rs cs"
        using results_kept [of U rs] by (intro exI [of _ zs] exI [of _ "exactly ?ms"]) simp
    next
      fix o1 t1 assume "(if m_true M v then exec M n T \<rho> s else exec M n F \<rho> s) = Some (o1, t1)" "\<And>ys. o1 \<noteq> Yielded ys"
      with branch [of o1 t1] outcomes_jump [of U l "Some rs" o1 _ t]
      show "\<exists>o2. (if m_true M v then exec M n T' \<rho>' s else exec M n F' \<rho>' s) = Some (o2, t1) \<and> outcomes U l t o1 o2" by blast
    next
      fix \<rho>1 \<rho>1' t1 assume "exec M n ops \<rho>1 t1 = Some (out, s')" "agree U \<rho>1 \<rho>1'"
      from prunes_ex [OF rest fr ready_ctx [OF rd c2] p(3) this(2,1)]
      show "\<exists>o'. exec M n ops1 \<rho>1' t1 = Some (o', s') \<and> outcomes U l t out o'" by blast
    qed
    moreover have "\<rho>' c = Some v" using agree_D [OF ag closed_D [OF U dep(1) True] v] .
    ultimately show ?thesis by (simp add: p(4))
  qed
qed

lemma yielded_Some: "yielded k r = Some ys \<longleftrightarrow> (\<exists>t. r = Some (Yielded ys, t)) \<and> length ys = k"
  by (auto simp: yielded_def split: option.splits outcome.splits)

lemma prunes_TileFold:
  assumes U: "closed_under U E" and body: "prunes M n U E cfs body" and rest: "prunes M n U E cfs ops"
  shows "prunes M n U E cfs (TileFold i k ids xs ps body rs # ops)"
  unfolding prunes_def
proof (intro allI impI)
  fix l ln t cf lm bm ctx ops' ctx' \<rho> \<rho>' s out s'
  assume fl: "flow E (map_of cfs) (TileFold i k ids xs ps body rs # ops) l ln t cf" and rd: "ready U l ln t cf lm bm ctx"
    and pr: "prune_block (TileFold i k ids xs ps body rs # ops) U cfs lm bm ctx = (Inr ops', ctx')" and ag: "agree U \<rho> \<rho>'"
    and ex: "exec M n (TileFold i k ids xs ps body rs # ops) \<rho> s = Some (out, s')"
  let ?as = "fold_lhs xs ps" and ?bs = "fold_rhs xs ps"
  from fl obtain m where m: "map_of cfs i = Some m" and len: "length ps = length xs * 2" "length xs = length rs"
    and dep: "depends E rs xs" "\<forall>q \<in> set rs. E (Some q) m" "depends E ?as rs" "depends E ?bs rs"
    and fb: "flow E (map_of cfs) body None None (Some rs) (Some m)" and fr: "flow E (map_of cfs) ops l ln t cf" by auto
  define g where "g = (\<lambda>a e. Option.bind (bind_vars ps (a @ e) \<rho>) (\<lambda>\<rho>1. yielded (length xs) (exec M n body \<rho>1 s)))"
  from ex obtain vs ys \<rho>1 where vs: "lookups \<rho> xs = Some vs" and run: "fold_tiles M k g ids vs = Some ys"
    and b: "bind_vars rs ys \<rho> = Some \<rho>1" and k: "exec M n ops \<rho>1 s = Some (out, s')"
    by (auto simp: bind_eq_Some_conv g_def resume_Some lookups_length)
  let ?ms = "branch_mask_of U rs"
  show "\<exists>o'. exec M n ops' \<rho>' s = Some (o', s') \<and> outcomes U l t out o'"
  proof (cases "m \<in> U")
    case False
    then have p: "prune_block ops U cfs lm bm ctx = (Inr ops', ctx')"
      using pr by (simp add: bindE_Inr_iff cf_used_def m effect_results)
    have "set rs \<inter> U = {}" using dep(2) closed_D [OF U] False by blast
    from prunes_ex [OF rest fr rd p agree_drop [OF ag this b] k] show ?thesis by blast
  next
    case True
    with pr obtain body' c1 ops1 where p: "prune_block body U cfs [] ?ms ctx = (Inr body', c1)"
        "prune_block ops U cfs lm bm c1 = (Inr ops1, ctx')"
        "ops' = TileFold i k (picked ids ?ms) (picked xs ?ms) (picked ?as ?ms @ picked ?bs ?ms) body' (picked rs ?ms) # ops1"
      by (auto simp: bindE_Inr_iff cf_used_def m effect_results Let_def select_by_mask_Inr branch_mask_of_def assertE_Inr_iff)
    have ctx: "U \<subseteq> ctx_names ctx" using rd by (simp add: ready_def)
    have rb: "ready U None None (Some rs) (Some m) [] ?ms ctx" using True ctx by (simp add: ready_def)
    have lms: "length ?ms = length xs" by (simp add: branch_mask_of_def len(2))
    have las: "length ?as = length xs" "length ?bs = length xs" using len(1) by (simp_all add: fold_lhs_def fold_rhs_def)
    have ps: "ps = ?as @ ?bs" by (simp add: fold_lhs_def fold_rhs_def)
    have cs: "list_all2 (\<lambda>q (k, e). q \<in> U \<longrightarrow> k \<and> e) ps (exactly (?ms @ ?ms))"
    proof -
      have half: "list_all2 (\<lambda>q (k, e). q \<in> U \<longrightarrow> k \<and> e) as (exactly ?ms)" if "depends E as rs" for as
        using closed_depends [OF U that] by (auto simp: exactly_def list_all2_conv_all_nth branch_mask_of_def)
      have "list_all2 (\<lambda>q (k, e). q \<in> U \<longrightarrow> k \<and> e) (?as @ ?bs) (exactly ?ms @ exactly ?ms)"
        by (rule list_all2_appendI [OF half [OF dep(3)] half [OF dep(4)]])
      then show ?thesis using ps by (simp add: exactly_def)
    qed
    define g' where "g' = (\<lambda>a e. Option.bind (bind_vars (picked ?as ?ms @ picked ?bs ?ms) (a @ e) \<rho>')
      (\<lambda>\<rho>1. yielded (length (picked xs ?ms)) (exec M n body' \<rho>1 s)))"
    have "picks_body (length xs) ?ms g g'"
      unfolding picks_body_def
    proof (intro allI impI)
      fix a e b assume ae: "length a = length xs" "length e = length xs" and gb: "g a e = Some b"
      from gb obtain \<rho>1 t1 where e1: "bind_vars ps (a @ e) \<rho> = Some \<rho>1" "exec M n body \<rho>1 s = Some (Yielded b, t1)" "length b = length xs"
        by (auto simp: g_def bind_eq_Some_conv yielded_Some)
      have ke: "keeps (exactly (?ms @ ?ms)) (a @ e) (picked (a @ e) (?ms @ ?ms))" using ae lms by (simp add: keeps_exactly)
      from bind_keeps [OF ke list_all2_lengthD [OF cs] e1(1) ag cs] obtain \<rho>1' where
        e2: "bind_vars (picked ps (?ms @ ?ms)) (picked (a @ e) (?ms @ ?ms)) \<rho>' = Some \<rho>1'" "agree U \<rho>1 \<rho>1'" by auto
      from prunes_ex [OF body fb rb p(1) e2(2) e1(2)] obtain zs where
        "exec M n body' \<rho>1' s = Some (Yielded zs, t1)" "zs = picked b ?ms" by (auto simp: keeps_exactly)
      moreover have "picked ps (?ms @ ?ms) = picked ?as ?ms @ picked ?bs ?ms"
        by (subst ps) (simp add: picked_append las lms)
      ultimately show "length b = length xs \<and> g' (picked a ?ms) (picked e ?ms) = Some (picked b ?ms)"
        using e1(3) e2(1) ae lms by (simp add: g'_def picked_append yielded_def length_picked)
    qed
    from fold_tiles_picked [OF run lookups_length [OF vs] lms this]
    have run': "fold_tiles M k g' (picked ids ?ms) (picked vs ?ms) = Some (picked ys ?ms)" and ly: "length ys = length xs" by auto
    have "list_all2 (\<lambda>x m. m \<longrightarrow> x \<in> U) xs ?ms"
      using closed_depends [OF U dep(1)] by (auto simp: list_all2_conv_all_nth branch_mask_of_def)
    from lookups_picked [OF vs ag this] have vs': "lookups \<rho>' (picked xs ?ms) = Some (picked vs ?ms)" .
    have "keeps (exactly ?ms) ys (picked ys ?ms)" using ly lms by (simp add: keeps_exactly)
    from bind_keeps [OF this list_all2_lengthD [OF results_kept] b ag results_kept] obtain \<rho>1' where
      b': "bind_vars (picked rs ?ms) (picked ys ?ms) \<rho>' = Some \<rho>1'" "agree U \<rho>1 \<rho>1'" by auto
    from prunes_ex [OF rest fr ready_ctx [OF rd prune_names [OF p(1) ctx]] p(2) b'(2) k]
    show ?thesis using vs' run' b'(1) lookups_length [OF vs'] by (auto simp: p(3) g'_def resume_def)
  qed
qed

lemma prunes_all:
  assumes "closed_under U E" and "pure_steps M" and "has_dummies M"
  shows "prunes M n U E cfs ops"
  by (induction ops rule: traverse_induct)
    (simp_all add: prunes_Nil prunes_Operation prunes_Loop prunes_IfElse prunes_TileFold prunes_Continue prunes_Break
      prunes_EndBranch assms)

end
