(* ===== verification/DceTotal.thy ===== *)
theory DceTotal
  imports DceProof
begin

text \<open>
  Dead code elimination does not raise on a well-formed program.

  \<^item> \<open>well_nested\<close>: jumps stand in loops, yields in branches, and the numbers of values match;
  \<^item> \<open>adds K m K'\<close>: if the graph has entries for \<open>K\<close>, then \<open>m\<close> succeeds, keeps all entries and the types and adds
    entries for \<open>K'\<close>;
  \<^item> \<open>total V m\<close>: if the variables \<open>V\<close> have types, then \<open>m\<close> succeeds and leaves them typed.
\<close>

section \<open>Well-formed programs\<close>

fun well_nested :: "ir_op list \<Rightarrow> loop_info option \<Rightarrow> var list option \<Rightarrow> bool" where
  "well_nested [] l t = True"
| "well_nested (Operation c rs xs # ops) l t = well_nested ops l t"
| "well_nested (Loop i r init ps body rs # ops) l t =
     (length init = length (body_vars r ps) \<and> length (body_vars r ps) = length rs \<and> (r \<noteq> None \<longrightarrow> ps \<noteq> []) \<and>
      well_nested body (Some \<lparr>loop_is_for = (r \<noteq> None), loop_body_vars = body_vars r ps, loop_result_vars = rs\<rparr>) None \<and>
      well_nested ops l t)"
| "well_nested (IfElse i c T E rs # ops) l t =
     (well_nested T l (Some rs) \<and> well_nested E l (Some rs) \<and> well_nested ops l t)"
| "well_nested (TileFold i k ids xs ps body rs # ops) l t =
     (length ps = length xs * 2 \<and> length xs = length rs \<and> length ids = length xs \<and>
      well_nested body None (Some rs) \<and> well_nested ops l t)"
| "well_nested (Continue vs # ops) l t =
     (l \<noteq> None \<and> length (loop_body_vars (the l)) = length vs \<and> well_nested ops l t)"
| "well_nested (Break vs # ops) l t =
     (l \<noteq> None \<and> length (loop_body_vars (the l)) = length vs \<and> well_nested ops l t)"
| "well_nested (EndBranch vs # ops) l t = (t \<noteq> None \<and> length (the t) = length vs \<and> well_nested ops l t)"

section \<open>The graph is built\<close>

definition adds :: "var set \<Rightarrow> unit dce \<Rightarrow> var set \<Rightarrow> bool" where
  "adds K m K' \<longleftrightarrow> (\<forall>st. K \<subseteq> graph_dom st \<longrightarrow>
     (\<exists>st'. m st = (Inr (), st') \<and> graph_dom st \<union> K' \<subseteq> graph_dom st' \<and>
        typemap (dce_ctx st') = typemap (dce_ctx st)))"

lemma adds_bind:
  assumes "adds K m K1" and "adds (K \<union> K1) k K2"
  shows "adds K (bindE m (\<lambda>_. k)) (K1 \<union> K2)"
  unfolding adds_def
proof (intro allI impI)
  fix st assume "K \<subseteq> graph_dom st"
  with assms(1) obtain st1 where 1: "m st = (Inr (), st1)" "graph_dom st \<union> K1 \<subseteq> graph_dom st1"
    "typemap (dce_ctx st1) = typemap (dce_ctx st)"
    unfolding adds_def by blast
  with \<open>K \<subseteq> graph_dom st\<close> have "K \<union> K1 \<subseteq> graph_dom st1" by blast
  with assms(2) obtain st2 where 2: "k st1 = (Inr (), st2)" "graph_dom st1 \<union> K2 \<subseteq> graph_dom st2"
    "typemap (dce_ctx st2) = typemap (dce_ctx st1)"
    unfolding adds_def by blast
  show "\<exists>st'. bindE m (\<lambda>_. k) st = (Inr (), st') \<and> graph_dom st \<union> (K1 \<union> K2) \<subseteq> graph_dom st' \<and>
      typemap (dce_ctx st') = typemap (dce_ctx st)"
    using 1 2 by (intro exI [of _ st2]) auto
qed

lemma adds_weaken: "adds K m K1 \<Longrightarrow> K \<subseteq> K' \<Longrightarrow> K2 \<subseteq> K1 \<Longrightarrow> adds K' m K2"
  unfolding adds_def by blast

lemma adds_seq:
  assumes "adds K m A" and "adds (K \<union> A) k B" and "K' \<subseteq> A \<union> B"
  shows "adds K (bindE m (\<lambda>_. k)) K'"
  by (rule adds_weaken [OF adds_bind [OF assms(1,2)] subset_refl assms(3)])

lemma adds_skip: "adds K skipE {}"
  by (auto simp: adds_def skipE_def retE_def)

lemma adds_set: "adds K (graph_set d deps) {d}"
  by (auto simp: adds_def graph_set_def modifyE_def graph_dom_update)

lemma adds_append: "d \<in> K \<Longrightarrow> adds K (graph_append d x) {}"
proof -
  have "\<exists>deps. map_of (graph st) d = Some deps" if "d \<in> graph_dom st" for st
    using that by (cases "map_of (graph st) d") (auto simp: graph_dom_def map_of_eq_None_iff)
  then show "d \<in> K \<Longrightarrow> adds K (graph_append d x) {}"
    by (fastforce simp: adds_def graph_append_def graph_set_def bindE_def getE_def modifyE_def graph_dom_update)
qed

lemma adds_append_opt: "d \<in> K \<Longrightarrow> adds K (graph_append_opt d cf) {}"
  by (auto simp: graph_append_opt_def adds_append adds_skip split: option.splits)

lemma adds_use: "adds K (use_all xs) {}"
  by (auto simp: adds_def use_all_def modifyE_def)

lemma adds_forE: "(\<And>x. x \<in> set xs \<Longrightarrow> adds K (f x) (A x)) \<Longrightarrow> adds K (forE xs f) (\<Union>x \<in> set xs. A x)"
proof (induction xs)
  case (Cons x xs)
  then show ?case
    by (auto intro!: adds_seq [where A = "A x" and B = "\<Union>x \<in> set xs. A x"] elim: adds_weaken)
qed (simp add: adds_skip)

lemma adds_zip_append: "set ds \<subseteq> K \<Longrightarrow> length ds = length xs \<Longrightarrow>
    adds K (zip_strict ds xs (\<lambda>(d, x). graph_append d x)) {}"
  unfolding zip_strict_def
  by (rule adds_seq [where B = "{}", OF adds_forE [where A = "\<lambda>_. {}"]])
    (auto simp: adds_skip intro!: adds_append dest: set_zip_leftD)

lemma adds_name:
  assumes "\<And>n. adds K (k n) K'"
  shows "adds K (bindE (make_control_flow_name i) k) K'"
  unfolding adds_def
proof (intro allI impI)
  fix st assume K: "K \<subseteq> graph_dom st"
  obtain r ctx1 where mk: "make_var ''$cf'' (dce_ctx st) = (r, ctx1)" by fastforce
  from make_var_fresh [OF mk] obtain n where n: "r = Inr n" "typemap ctx1 = typemap (dce_ctx st)" by metis
  let ?st1 = "st\<lparr>dce_ctx := ctx1, op_to_cf_name := AList.update i n (op_to_cf_name st)\<rparr>"
  have "bindE (make_control_flow_name i) k st = k n ?st1"
    using mk n by (simp add: make_control_flow_name_def bindE_def zoom_def modifyE_def retE_def)
  moreover have "graph_dom ?st1 = graph_dom st" "typemap (dce_ctx ?st1) = typemap (dce_ctx st)"
    using n by (simp_all add: graph_dom_def)
  ultimately show "\<exists>st'. bindE (make_control_flow_name i) k st = (Inr (), st') \<and> graph_dom st \<union> K' \<subseteq> graph_dom st' \<and>
      typemap (dce_ctx st') = typemap (dce_ctx st)"
    using assms [of n] K unfolding adds_def by metis
qed

lemma adds_loop_edges:
  assumes len: "length init = length bvs" "length bvs = length rs"
  shows "adds K (loop_edges r init bvs rs n cf) ({n} \<union> set bvs \<union> set rs)"
proof -
  have vars: "adds K (zip3_strict init bvs rs (\<lambda>(a, b, q). bindE (graph_set b [a, n]) (\<lambda>_. graph_set q [n])))
      (set bvs \<union> set rs)" for K
    unfolding zip3_strict_def
  proof (rule adds_seq [where B = "{}", OF adds_forE [where A = "\<lambda>(a, b, q). {b, q}"]])
    show "set bvs \<union> set rs \<subseteq> (\<Union>(a, b, q) \<in> set (zip init (zip bvs rs)). {b, q}) \<union> {}"
      using len by (induction init bvs rs rule: list_induct3) auto
    have "adds K (bindE (graph_set b [a, n]) (\<lambda>_. graph_set q [n])) {b, q}" for a b q
      by (rule adds_seq [OF adds_set adds_set]) auto
    then show "adds K (case p of (a, b, q) \<Rightarrow> bindE (graph_set b [a, n]) (\<lambda>_. graph_set q [n])) (case p of (a, b, q) \<Rightarrow> {b, q})" for p
      by (cases p) simp
  qed (use len in \<open>simp add: adds_skip\<close>)
  show ?thesis
  proof (cases r)
    case None
    show ?thesis unfolding loop_edges_def seqE.simps None option.case
      by (rule adds_weaken [OF adds_bind [OF adds_set adds_bind [OF vars adds_bind [OF adds_append_opt adds_skip]]] subset_refl]) auto
  next
    case (Some p)
    obtain a b c where p: "p = (a, b, c)" by (cases p)
    show ?thesis unfolding loop_edges_def seqE.simps Some p option.case prod.case
      by (rule adds_weaken [OF adds_bind [OF adds_set adds_bind [OF vars adds_bind [OF adds_append_opt adds_bind [OF adds_append
            adds_bind [OF adds_append adds_bind [OF adds_append adds_zip_append]]]]]] subset_refl]) (use len in auto)
  qed
qed

lemma adds_fold_edges:
  assumes len: "length ps = length xs * 2" "length xs = length rs"
  shows "adds K (fold_edges xs ps rs n cf) (set rs)"
proof -
  have fl: "length (fold_lhs xs ps) = length rs" and fr: "length (fold_rhs xs ps) = length rs"
    using len by (simp_all add: fold_lhs_def fold_rhs_def)
  have z: "adds K (zip_strict (zip xs (zip as bs)) rs (\<lambda>((x, a, b), q).
      bindE (graph_set a [x, q]) (\<lambda>_. bindE (graph_set b [x, q]) (\<lambda>_. graph_set q [n, x, a, b])))) (set rs)"
    if "length as = length rs" "length bs = length rs" for as bs K
    unfolding zip_strict_def
  proof (rule adds_seq [where B = "{}", OF adds_forE [where A = "\<lambda>p. {snd p}"]])
    have "adds K (bindE (graph_set a [x, q]) (\<lambda>_. bindE (graph_set b [x, q]) (\<lambda>_. graph_set q [n, x, a, b]))) {q}" for a b q x
      by (rule adds_weaken [OF adds_bind [OF adds_set adds_bind [OF adds_set adds_set]] subset_refl]) auto
    then show "adds K ((\<lambda>((x, a, b), q). bindE (graph_set a [x, q]) (\<lambda>_. bindE (graph_set b [x, q])
        (\<lambda>_. graph_set q [n, x, a, b]))) p) {snd p}" for p
      by (cases p) auto
    show "set rs \<subseteq> (\<Union>p \<in> set (zip (zip xs (zip as bs)) rs). {snd p}) \<union> {}"
    proof
      fix q assume "q \<in> set rs"
      then have "q \<in> set (List.map snd (zip (zip xs (zip as bs)) rs))" using that len by simp
      then show "q \<in> (\<Union>p \<in> set (zip (zip xs (zip as bs)) rs). {snd p}) \<union> {}" by auto
    qed
  qed (use that len in \<open>simp add: adds_skip\<close>)
  have a: "assertE (length ps = length xs * 2) = skipE" by (simp add: len skipE_def)
  show ?thesis
    unfolding fold_edges_def seqE.simps a
    by (rule adds_weaken [OF adds_bind [OF adds_set adds_bind [OF adds_append_opt adds_bind [OF adds_skip z [OF fl fr]]]]
          subset_refl]) auto
qed

definition loop_keys :: "loop_info option \<Rightarrow> var option \<Rightarrow> var set" where
  "loop_keys l ln = set_option ln \<union> (case l of None \<Rightarrow> {} | Some li \<Rightarrow> set (loop_body_vars li) \<union> set (loop_result_vars li))"

definition branch_keys :: "var list option \<Rightarrow> var set" where
  "branch_keys t = (case t of None \<Rightarrow> {} | Some rs \<Rightarrow> set rs)"

definition loop_fits :: "loop_info option \<Rightarrow> var option \<Rightarrow> bool" where
  "loop_fits l ln \<longleftrightarrow> (l = None \<longleftrightarrow> ln = None) \<and>
     (\<forall>li \<in> set_option l. length (loop_body_vars li) = length (loop_result_vars li))"

lemma build_adds:
  "well_nested ops l t \<Longrightarrow> loop_fits l ln \<Longrightarrow> loop_keys l ln \<union> branch_keys t \<subseteq> K \<Longrightarrow>
    adds K (build_dataflow_graph ops l ln t cf) {}"
proof (induction ops arbitrary: l ln t cf K rule: traverse_induct)
  case Nil
  then show ?case by (simp add: adds_skip)
next
  case (Operation c rs xs ops)
  have q: "adds K (forE rs (\<lambda>q. graph_set q deps)) (set rs)" for deps K
    using adds_forE [of rs K "\<lambda>q. graph_set q deps" "\<lambda>q. {q}"] adds_set by simp
  have k: "adds (K \<union> {} \<union> set rs) (build_dataflow_graph ops l ln t cf) {}"
    by (rule Operation.IH) (use Operation.prems in auto)
  have u: "adds K (if must_keep then use_all ys else skipE) {}" for K must_keep ys by (simp add: adds_use adds_skip)
  show ?case
    unfolding build_dataflow_graph.simps Let_def seqE.simps
    by (rule adds_weaken [OF adds_bind [OF u adds_bind [OF q k]] subset_refl]) auto
next
  case (Loop i r init ps body rs ops)
  let ?bvs = "body_vars r ps"
  let ?li = "\<lparr>loop_is_for = (r \<noteq> None), loop_body_vars = ?bvs, loop_result_vars = rs\<rparr>"
  have len: "length init = length ?bvs" "length ?bvs = length rs" using Loop.prems(1) by auto
  have b: "adds (K \<union> ({n} \<union> set ?bvs \<union> set rs)) (build_dataflow_graph body (Some ?li) (Some n) None (Some n)) {}" for n
    by (rule Loop.IH(1)) (use Loop.prems(1) len in \<open>auto simp: loop_fits_def loop_keys_def branch_keys_def\<close>)
  have k: "adds (K \<union> ({n} \<union> set ?bvs \<union> set rs) \<union> {}) (build_dataflow_graph ops l ln t cf) {}" for n
    by (rule Loop.IH(2)) (use Loop.prems in auto)
  show ?case
    unfolding build_dataflow_graph.simps seqE.simps
    by (rule adds_name) (rule adds_seq [OF adds_loop_edges [OF len] adds_seq [OF b k]], auto)
next
  case (IfElse i c T E rs ops)
  have q: "adds K (forE rs (\<lambda>q. graph_set q [n])) (set rs)" for n K
    using adds_forE [of rs K "\<lambda>q. graph_set q [n]" "\<lambda>q. {q}"] adds_set by simp
  have 1: "adds (K \<union> {n} \<union> {} \<union> set rs) (build_dataflow_graph T l ln (Some rs) (Some n)) {}" for n
    by (rule IfElse.IH(1)) (use IfElse.prems in \<open>auto simp: branch_keys_def\<close>)
  have 2: "adds (K \<union> {n} \<union> {} \<union> set rs \<union> {}) (build_dataflow_graph E l ln (Some rs) (Some n)) {}" for n
    by (rule IfElse.IH(2)) (use IfElse.prems in \<open>auto simp: branch_keys_def\<close>)
  have 3: "adds (K \<union> {n} \<union> {} \<union> set rs \<union> {} \<union> {}) (build_dataflow_graph ops l ln t cf) {}" for n
    by (rule IfElse.IH(3)) (use IfElse.prems in auto)
  show ?case
    unfolding build_dataflow_graph.simps seqE.simps
    by (rule adds_name) (rule adds_seq [OF adds_set adds_seq [OF adds_append_opt adds_seq [OF q
        adds_seq [OF 1 adds_seq [OF 2 3]]]]], auto)
next
  case (TileFold i k ids xs ps body rs ops)
  have 1: "adds (K \<union> set rs) (build_dataflow_graph body None None (Some rs) (Some n)) {}" for n
    by (rule TileFold.IH(1)) (use TileFold.prems in \<open>auto simp: loop_fits_def loop_keys_def branch_keys_def\<close>)
  have 2: "adds (K \<union> set rs \<union> {}) (build_dataflow_graph ops l ln t cf) {}" for n
    by (rule TileFold.IH(2)) (use TileFold.prems in auto)
  have "length ps = length xs * 2" "length xs = length rs" using TileFold.prems by auto
  note f = adds_fold_edges [OF this]
  show ?case
    unfolding build_dataflow_graph.simps seqE.simps
    by (rule adds_name) (rule adds_seq [OF f adds_seq [OF 1 2]], auto)
next
  case (Continue vs ops)
  then obtain li n where l: "l = Some li" "ln = Some n" "length (loop_body_vars li) = length vs"
    "length (loop_result_vars li) = length vs" by (auto simp: loop_fits_def)
  have k: "adds (K \<union> {}) (build_dataflow_graph ops l ln t cf) {}" by (rule Continue.IH) (use Continue.prems in auto)
  have "adds K (continue_edges l ln cf vs) {}"
    unfolding continue_edges_def l option.case prod.case seqE.simps
    by (rule adds_seq [OF adds_append_opt adds_seq [OF adds_zip_append]])
      (use Continue.prems(3) l in \<open>auto simp: loop_keys_def intro!: adds_zip_append adds_skip\<close>)
  then show ?case unfolding build_dataflow_graph.simps seqE.simps by (rule adds_seq [OF _ k]) simp
next
  case (Break vs ops)
  then obtain li n where l: "l = Some li" "ln = Some n" "length (loop_result_vars li) = length vs"
    by (auto simp: loop_fits_def)
  have k: "adds (K \<union> {}) (build_dataflow_graph ops l ln t cf) {}" by (rule Break.IH) (use Break.prems in auto)
  have "adds K (break_edges l ln cf vs) {}"
    unfolding break_edges_def l option.case prod.case seqE.simps
    by (rule adds_seq [OF adds_append_opt adds_zip_append]) (use Break.prems(3) l in \<open>auto simp: loop_keys_def\<close>)
  then show ?case unfolding build_dataflow_graph.simps seqE.simps by (rule adds_seq [OF _ k]) simp
next
  case (EndBranch vs ops)
  then obtain rs where t: "t = Some rs" "length rs = length vs" by auto
  have k: "adds (K \<union> {}) (build_dataflow_graph ops l ln t cf) {}" by (rule EndBranch.IH) (use EndBranch.prems in auto)
  have "adds K (end_branch_edges t vs) {}"
    unfolding end_branch_edges_def t option.case
    by (rule adds_zip_append) (use EndBranch.prems(3) t in \<open>auto simp: branch_keys_def\<close>)
  then show ?case unfolding build_dataflow_graph.simps seqE.simps by (rule adds_seq [OF _ k]) simp
qed

section \<open>Pruning succeeds\<close>

text \<open>Every variable of \<open>V\<close> has a type, and every typed variable a name.\<close>

definition typed_ctx :: "var set \<Rightarrow> ir_context \<Rightarrow> bool" where
  "typed_ctx V ctx \<longleftrightarrow> V \<subseteq> fst ` set (typemap ctx) \<and> fst ` set (typemap ctx) \<subseteq> ctx_names ctx"

definition total :: "var set \<Rightarrow> 'a ir \<Rightarrow> bool" where
  "total V m \<longleftrightarrow> (\<forall>ctx. typed_ctx V ctx \<longrightarrow> (\<exists>r ctx'. m ctx = (Inr r, ctx') \<and> typed_ctx V ctx'))"

lemma total_bind: "total V m \<Longrightarrow> (\<And>x. total V (k x)) \<Longrightarrow> total V (bindE m k)"
  unfolding total_def bindE_def by fastforce

lemma total_ret: "total V (retE x)"
  by (simp add: total_def retE_def)

lemma total_skip: "total V skipE"
  by (simp add: total_def skipE_def retE_def)

lemma total_dummy:
  assumes "v \<in> V"
  shows "total V (make_dummy_like v)"
  unfolding total_def
proof (intro allI impI)
  fix ctx assume ctx: "typed_ctx V ctx"
  then have known: "v \<in> fst ` set (all_vars ctx)" "v \<in> fst ` set (typemap ctx)"
    using assms by (auto simp: typed_ctx_def ctx_names_def)
  then obtain name ty where nt: "map_of (all_vars ctx) v = Some name" "map_of (typemap ctx) v = Some ty"
    by (metis map_of_eq_None_iff not_None_eq)
  obtain q ctx1 where mk: "make_var name ctx = (q, ctx1)" by fastforce
  from make_var_fresh [OF mk] obtain d where d: "q = Inr d" "d \<notin> fst ` set (all_vars ctx)"
    "all_vars ctx1 = (d, name) # all_vars ctx" "typemap ctx1 = typemap ctx" by metis
  then have "map_of (typemap ctx1) d = None"
    using ctx by (auto simp: map_of_eq_None_iff typed_ctx_def ctx_names_def)
  then have "make_dummy_like v ctx = (Inr (d, Operation MakeDummy [d] []), ctx1\<lparr>typemap := (d, ty) # typemap ctx1\<rparr>)"
    using nt mk d by (simp add: make_dummy_like_def make_var_like_def get_original_name_def get_type_def set_type_def
        bindE_def getE_def assertE_def modifyE_def retE_def)
  moreover have "typed_ctx V (ctx1\<lparr>typemap := (d, ty) # typemap ctx1\<rparr>)"
    using ctx d by (auto simp: typed_ctx_def ctx_names_def)
  ultimately show "\<exists>r ctx'. make_dummy_like v ctx = (Inr r, ctx') \<and> typed_ctx V ctx'" by blast
qed

lemma total_replace: "set vs \<subseteq> V \<Longrightarrow> total V (replace_pruned_with_dummy vs us)"
  by (induction vs) (auto intro!: total_bind total_ret total_dummy split: prod.splits)

lemma total_select: "length xs = length ms \<Longrightarrow> total V (select_by_mask xs ms)"
  by (simp add: select_by_mask_def total_ret)

lemma total_if: "total V a \<Longrightarrow> total V b \<Longrightarrow> total V (if c then a else b)"
  by simp

lemma total_bind_pair: "total V m \<Longrightarrow> (\<And>a b. total V (k a b)) \<Longrightarrow> total V (bindE m (\<lambda>(a, b). k a b))"
  by (rule total_bind) auto

lemma total_cf:
  assumes "i \<in> fst ` set cfs" and "\<And>keep. total V (k keep)"
  shows "total V (bindE (cf_used cfs us i) k)"
proof -
  from assms(1) obtain n where "map_of cfs i = Some n" by (metis map_of_eq_None_iff not_None_eq)
  then show ?thesis using assms(2) by (simp add: cf_used_def)
qed

text \<open>What a selection hands on is part of the list it selects from.\<close>

lemma total_bind_select:
  assumes "length xs = length ms" and "\<And>ys. set ys \<subseteq> set xs \<Longrightarrow> total V (k ys)"
  shows "total V (bindE (select_by_mask xs ms) k)"
proof -
  have "set (List.map fst (filter snd (zip xs ms))) \<subseteq> set xs" by (auto dest: set_zip_leftD)
  with assms show ?thesis by (simp add: select_by_mask_def)
qed

definition masks_fit :: "loop_info option \<Rightarrow> var list option \<Rightarrow> bool list \<Rightarrow> bool list \<Rightarrow> bool" where
  "masks_fit l t lm em \<longleftrightarrow> (\<forall>li \<in> set_option l. length lm = length (loop_body_vars li)) \<and>
     (\<forall>rs \<in> set_option t. length em = length rs)"

lemma prune_total:
  "well_nested ops l t \<Longrightarrow> masks_fit l t lm em \<Longrightarrow> read_vars ops \<subseteq> V \<Longrightarrow> set (op_ids ops) \<subseteq> fst ` set cfs \<Longrightarrow>
    total V (prune_block ops us cfs lm em)"
proof (induction ops arbitrary: l t lm em rule: traverse_induct)
  case Nil
  then show ?case by (simp add: total_ret)
next
  case (Operation c rs xs ops)
  then show ?case by (auto intro!: total_bind total_ret)
next
  case (Loop i r init ps body rs ops)
  let ?bvs = "body_vars r ps"
  let ?mask = "List.map (\<lambda>(b, res). b \<in> us \<or> res \<in> us) (zip ?bvs rs)"
  have len: "length init = length ?mask" "length rs = length ?mask" "length ?bvs = length ?mask" "length ?bvs = length rs"
    and ps: "(if r \<noteq> None \<and> ps = [] then raiseE IndexError else skipE) = skipE"
    and init: "set init \<subseteq> V" and i: "i \<in> fst ` set cfs"
    using Loop.prems by auto
  have b: "total V (prune_block body us cfs ?mask [])"
  proof (rule Loop.IH(1))
    show "masks_fit (Some \<lparr>loop_is_for = (r \<noteq> None), loop_body_vars = ?bvs, loop_result_vars = rs\<rparr>) None ?mask []"
      using len(4) by (simp add: masks_fit_def)
  qed (use Loop.prems in auto)
  have k: "total V (prune_block ops us cfs lm em)" by (rule Loop.IH(2)) (use Loop.prems in auto)
  have m: "strict_masks ?mask ?bvs rs = retE ?mask" using len(4) by (simp add: strict_masks_def)
  show ?case
    unfolding prune_block.simps Let_def m ps bindE_ret
    by (intro total_cf [OF i] total_if k total_bind_select [OF len(1)] total_bind_pair [OF total_replace]
        total_bind_select [OF len(2)] total_bind [OF b] total_bind_select [OF len(3)] total_bind [OF total_skip] total_bind [OF k] total_ret)
      (use init in auto)
next
  case (IfElse i c T E rs ops)
  let ?mask = "List.map (\<lambda>v. v \<in> us) rs"
  have i: "i \<in> fst ` set cfs" using IfElse.prems by auto
  have t: "total V (prune_block T us cfs lm ?mask)"
    by (rule IfElse.IH(1)) (use IfElse.prems in \<open>auto simp: masks_fit_def\<close>)
  have e: "total V (prune_block E us cfs lm ?mask)"
    by (rule IfElse.IH(2)) (use IfElse.prems in \<open>auto simp: masks_fit_def\<close>)
  have k: "total V (prune_block ops us cfs lm em)" by (rule IfElse.IH(3)) (use IfElse.prems in auto)
  show ?case
    unfolding prune_block.simps Let_def
    by (intro total_cf [OF i] total_if k total_bind [OF t] total_bind [OF e] total_bind_select total_bind [OF k] total_ret) simp
next
  case (TileFold i kd ids xs ps body rs ops)
  let ?mask = "List.map (\<lambda>v. v \<in> us) rs"
  have i: "i \<in> fst ` set cfs"
    and len: "length xs = length ?mask" "length ids = length ?mask" "length (fold_lhs xs ps) = length ?mask"
      "length (fold_rhs xs ps) = length ?mask" "length rs = length ?mask"
    and ps: "assertE (length ps = length xs * 2) = skipE"
    using TileFold.prems by (auto simp: fold_lhs_def fold_rhs_def assertE_def skipE_def retE_def)
  have b: "total V (prune_block body us cfs [] ?mask)"
    by (rule TileFold.IH(1)) (use TileFold.prems in \<open>auto simp: masks_fit_def\<close>)
  have k: "total V (prune_block ops us cfs lm em)" by (rule TileFold.IH(2)) (use TileFold.prems in auto)
  show ?case
    unfolding prune_block.simps Let_def ps
    by (intro total_cf [OF i] total_if k total_bind [OF b] total_bind_select [OF len(1)] total_bind_select [OF len(2)]
        total_bind_select [OF len(3)] total_bind_select [OF len(4)] total_bind_select [OF len(5)]
        total_bind [OF total_skip] total_bind [OF k] total_ret)
next
  case (Continue vs ops)
  have k: "total V (prune_block ops us cfs lm em)" by (rule Continue.IH) (use Continue.prems in auto)
  have len: "length vs = length lm" "set vs \<subseteq> V" using Continue.prems by (auto simp: masks_fit_def)
  show ?case
    unfolding prune_block.simps
    by (intro total_bind_select [OF len(1)] total_bind_pair [OF total_replace] total_bind [OF k] total_ret) (use len in auto)
next
  case (Break vs ops)
  have k: "total V (prune_block ops us cfs lm em)" by (rule Break.IH) (use Break.prems in auto)
  have len: "length vs = length lm" "set vs \<subseteq> V" using Break.prems by (auto simp: masks_fit_def)
  show ?case
    unfolding prune_block.simps
    by (intro total_bind_select [OF len(1)] total_bind_pair [OF total_replace] total_bind [OF k] total_ret) (use len in auto)
next
  case (EndBranch vs ops)
  have k: "total V (prune_block ops us cfs lm em)" by (rule EndBranch.IH) (use EndBranch.prems in auto)
  have len: "length vs = length em" using EndBranch.prems by (auto simp: masks_fit_def)
  show ?case
    unfolding prune_block.simps
    by (intro total_bind_select [OF len] total_bind [OF k] total_ret)
qed

end
