(* ===== verification/DcePass.thy ===== *)
theory DcePass
  imports DceTotal
begin

text \<open>
  The whole dead code elimination pass, and a machine over integers to run examples on.
\<close>

section \<open>A machine over integers\<close>

text \<open>The state is the list of printed values; a tile is a single integer.\<close>

definition print_op :: op_class where
  "print_op = OtherOp ''tile_printf'' StoreEffect"

fun int_step :: "op_class \<Rightarrow> int list \<Rightarrow> int list \<Rightarrow> (int list \<times> int list) option" where
  "int_step (TypedConst (PyInt i)) [] s = Some ([i], s)"
| "int_step (RawBinaryArithmeticOperation fn _ _) [x, y] s =
     (if fn = ''add'' then Some ([x + y], s) else if fn = ''mul'' then Some ([x * y], s) else None)"
| "int_step (RawComparisonOperation fn) [x, y] s =
     (if fn = ''lt'' then Some ([of_bool (x < y)], s) else if fn = ''ge'' then Some ([of_bool (x \<ge> y)], s) else None)"
| "int_step (OtherOp name e) [x] s = (if e = StoreEffect then Some ([], s @ [x]) else None)"
| "int_step Assign [x] s = Some ([x], s)"
| "int_step MakeDummy [] s = Some ([0], s)"
| "int_step _ _ _ = None"

definition int_machine :: "(int, int list) machine" where
  "int_machine = \<lparr>m_step = int_step, m_true = (\<lambda>v. v \<noteq> 0),
     m_range = (\<lambda>a b c. if c = 1 then Some [a..b - 1] else None),
     m_const = (\<lambda>c. case c of PyInt i \<Rightarrow> i | _ \<Rightarrow> 0), m_dims = (\<lambda>_ _. (1, 1)),
     m_elem = (\<lambda>_ v _ _. v), m_tile = (\<lambda>_ rows. hd (hd rows))\<rparr>"

lemma int_machine_pure: "pure_steps int_machine"
proof -
  have "int_step c vs s = Some (ys, t) \<Longrightarrow> \<not> has_observable_effect c \<Longrightarrow> t = s" for c vs s ys t
    by (induction c vs s rule: int_step.induct) (auto split: if_splits)
  then show ?thesis by (simp add: pure_steps_def int_machine_def)
qed

lemma int_machine_dummies: "has_dummies int_machine"
  by (simp add: has_dummies_def int_machine_def)

section \<open>The pass\<close>

definition known_program :: "ir_context \<Rightarrow> ir_op list \<Rightarrow> bool" where
  "known_program ctx ops \<longleftrightarrow> distinct (defined_vars ops) \<and> distinct (op_ids ops) \<and>
     set (defined_vars ops) \<union> read_vars ops \<subseteq> ctx_names ctx"

lemma edges_initial: "edges \<lparr>dce_ctx = ctx, graph = [], used = [], op_to_cf_name = []\<rparr> d x \<longleftrightarrow> False"
  by (auto simp: edges_def graph_edges_def split: option.splits)

lemma used_closed:
  "closed_under (set (find_used_variables (graph st) (used st) (used st))) (edges st)"
  unfolding closed_under_def find_used_reachable by (auto simp: edges_def intro: rtrancl_into_rtrancl)

lemma used_known_names:
  assumes "known_names st"
  shows "set (find_used_variables (graph st) (used st) (used st)) \<subseteq> var_names st"
proof
  fix x assume "x \<in> set (find_used_variables (graph st) (used st) (used st))"
  then obtain u where u: "u \<in> set (used st)" "(u, x) \<in> (graph_edges (graph st))\<^sup>*"
    by (auto simp: find_used_reachable)
  from u(2,1) show "x \<in> var_names st"
  proof (induction rule: rtrancl_induct)
    case base
    then show ?case using used_known [OF assms] by blast
  next
    case (step y z)
    then have "edges st (Some y) z" by (simp add: edges_def)
    then show ?case using assms by (auto simp: known_names_def)
  qed
qed

lemma dce_build:
  assumes wf: "known_program ctx root"
    and b: "build_dataflow_graph root None None None None
      \<lparr>dce_ctx = ctx, graph = [], used = [], op_to_cf_name = []\<rparr> = (Inr (), st)"
  shows "known_names st" and "flow (edges st) (map_of (op_to_cf_name st)) root None None None None"
    and "ctx_names ctx \<subseteq> ctx_names (dce_ctx st)"
proof -
  let ?st0 = "\<lparr>dce_ctx = ctx, graph = [], used = [], op_to_cf_name = []\<rparr>"
  have names: "var_names ?st0 = ctx_names ctx" by (simp add: var_names_def ctx_names_def)
  have "known_names ?st0" by (simp add: known_names_def edges_initial graph_dom_def)
  moreover have "set (defined_vars root) \<inter> graph_dom ?st0 = {}" "set (op_ids root) \<inter> cf_ids ?st0 = {}"
    by (simp_all add: graph_dom_def cf_ids_def)
  moreover have "set (defined_vars root) \<union> (read_vars root \<union> set_option None) \<subseteq> var_names ?st0"
    using wf by (simp add: known_program_def names)
  ultimately have "extends ?st0 st \<and> known_names st \<and>
      flow (edges st) (map_of (op_to_cf_name st)) root None None None None"
    using build_flow [of root None None None None] wf b unfolding graph_grows_def known_program_def
    by (metis extends_refl)
  then show "known_names st" and "flow (edges st) (map_of (op_to_cf_name st)) root None None None None"
    and "ctx_names ctx \<subseteq> ctx_names (dce_ctx st)"
    using names by (simp_all add: extends_def var_names_def ctx_names_def)
qed

lemma dce_correct:
  assumes run: "dead_code_elimination_pass root ctx = (Inr root', ctx')" and wf: "known_program ctx root"
    and M: "pure_steps M" "has_dummies M" and ex: "exec M n root \<rho> s = Some (out, t)"
  shows "exec M n root' \<rho> s = Some (out, t)"
proof -
  let ?st0 = "\<lparr>dce_ctx = ctx, graph = [], used = [], op_to_cf_name = []\<rparr>"
  from run obtain st where b: "build_dataflow_graph root None None None None ?st0 = (Inr (), st)"
    and p: "prune_block root (set (find_used_variables (graph st) (used st) (used st))) (op_to_cf_name st) [] [] (dce_ctx st)
      = (Inr root', ctx')"
    by (auto simp: dead_code_elimination_pass_def split: prod.splits sum.splits)
  note st = dce_build [OF wf b]
  let ?U = "set (find_used_variables (graph st) (used st) (used st))"
  have "ready ?U None None None None [] [] (dce_ctx st)"
    using used_known_names [OF st(1)] by (simp add: ready_def ctx_names_def var_names_def)
  from prunes_ex [OF prunes_all [OF used_closed M] st(2) this p _ ex, of \<rho>]
  obtain o' where o': "exec M n root' \<rho> s = Some (o', t)" "outcomes ?U None None out o'"
    by (auto simp: agree_def)
  moreover have "o' = out" using o'(2) by (cases out) auto
  ultimately show ?thesis by simp
qed

lemma flow_cf_ids: "flow E cfn ops l ln t cf \<Longrightarrow> i \<in> set (op_ids ops) \<Longrightarrow> \<exists>n. cfn i = Some n"
  by (induction ops arbitrary: l ln t cf rule: traverse_induct) (auto simp: Let_def)

lemma dce_succeeds:
  assumes wf: "known_program ctx root" and nest: "well_nested root None None"
    and ty: "typed_ctx (read_vars root) ctx"
  shows "\<exists>root' ctx'. dead_code_elimination_pass root ctx = (Inr root', ctx') \<and> typed_ctx (read_vars root) ctx'"
proof -
  let ?st0 = "\<lparr>dce_ctx = ctx, graph = [], used = [], op_to_cf_name = []\<rparr>"
  have "adds {} (build_dataflow_graph root None None None None) {}"
    by (rule build_adds [OF nest]) (simp_all add: loop_fits_def loop_keys_def branch_keys_def)
  then obtain st where b: "build_dataflow_graph root None None None None ?st0 = (Inr (), st)"
    and tm: "typemap (dce_ctx st) = typemap ctx"
    unfolding adds_def by fastforce
  note grown = dce_build [OF wf b]
  have "typed_ctx (read_vars root) (dce_ctx st)"
    using ty grown(3) unfolding typed_ctx_def tm by blast
  moreover have "set (op_ids root) \<subseteq> fst ` set (op_to_cf_name st)"
  proof
    fix i assume "i \<in> set (op_ids root)"
    from flow_cf_ids [OF grown(2) this] show "i \<in> fst ` set (op_to_cf_name st)"
      by (metis map_of_eq_None_iff option.distinct(1))
  qed
  then have "total (read_vars root) (prune_block root us (op_to_cf_name st) [] [])" for us
    by (rule prune_total [OF nest, rotated 2]) (simp_all add: masks_fit_def)
  ultimately show ?thesis
    by (simp add: dead_code_elimination_pass_def b total_def)
qed

section \<open>An example\<close>

text \<open>A loop that prints its induction variable, with an unused accumulator and an unused constant.\<close>

definition demo_program :: "ir_op list" where
  "demo_program =
     [Operation (TypedConst (PyInt 0)) [''zero''] [],
      Operation (TypedConst (PyInt 1)) [''one''] [],
      Operation (TypedConst (PyInt 3)) [''three''] [],
      Operation (TypedConst (PyInt 7)) [''dead''] [],
      Loop 0 (Some (''zero'', ''three'', ''one'')) [''dead''] [''i'', ''acc'']
        [Operation print_op [] [''i''],
         Operation (RawBinaryArithmeticOperation ''add'' None False) [''next''] [''acc'', ''one''],
         Continue [''next'']] [''result''],
      Operation Return [] []]"

definition demo_context :: ir_context where
  "demo_context = \<lparr>all_vars = List.map (\<lambda>v. (v, v)) [''zero'', ''one'', ''three'', ''dead'', ''i'', ''acc'', ''next'', ''result''],
     counter_by_name = [], temp_counter = 0,
     typemap = List.map (\<lambda>v. (v, TileTy DT_int64 [])) [''zero'', ''one'', ''three'', ''dead'', ''i'', ''acc'', ''next''],
     constants = [], list_base_ptr = []\<rparr>"

definition demo_pruned :: "ir_op list" where
  "demo_pruned =
     [Operation (TypedConst (PyInt 0)) [''zero''] [],
      Operation (TypedConst (PyInt 1)) [''one''] [],
      Operation (TypedConst (PyInt 3)) [''three''] [],
      Loop 0 (Some (''zero'', ''three'', ''one'')) [] [''i''] [Operation print_op [] [''i''], Continue []] [],
      Operation Return [] []]"

lemma demo_pass:
  "fst (dead_code_elimination_pass demo_program demo_context) = Inr demo_pruned"
  by code_simp

lemma demo_known: "known_program demo_context demo_program"
  by code_simp

lemma demo_exec: "exec int_machine 0 demo_program (\<lambda>_. None) [] = Some (Returned, [0, 1, 2])"
  by code_simp

lemma demo_nested: "well_nested demo_program None None"
  by code_simp

lemma demo_typed: "typed_ctx (read_vars demo_program) demo_context"
  by code_simp

section \<open>Properties\<close>



text \<open>C37. \<^verbatim>\<open>find_used_variables\<close> terminates on every graph, cyclic ones included, and returns exactly the
  variables that some variable of \<^verbatim>\<open>used\<close> reaches along the edges of the data-flow graph.\<close>

theorem used_variables_reachable:
  "set (find_used_variables g us us) = (graph_edges g)\<^sup>* `` set us"
  by (rule find_used_reachable)

text \<open>C38. \<^verbatim>\<open>IRContext.make_var\<close> terminates and never reuses a name: the variable it returns is new, and
  the names of the context stay pairwise distinct.\<close>

theorem make_var_unique:
  assumes "distinct (List.map fst (all_vars ctx))"
  shows "\<exists>v. fst (make_var name ctx) = Inr v \<and> v \<notin> ctx_names ctx \<and>
    all_vars (snd (make_var name ctx)) = (v, name) # all_vars ctx \<and>
    distinct (List.map fst (all_vars (snd (make_var name ctx))))"
proof -
  obtain r ctx' where mk: "make_var name ctx = (r, ctx')" by fastforce
  from make_var_fresh [OF mk] obtain v where "r = Inr v" "v \<notin> fst ` set (all_vars ctx)"
    "all_vars ctx' = (v, name) # all_vars ctx" by metis
  then show ?thesis using assms mk by (simp add: ctx_names_def)
qed

theorem make_var_unique_witness:
  "\<exists>v. fst (make_var ''i'' demo_context) = Inr v \<and> v \<notin> ctx_names demo_context \<and>
    all_vars (snd (make_var ''i'' demo_context)) = (v, ''i'') # all_vars demo_context \<and>
    distinct (List.map fst (all_vars (snd (make_var ''i'' demo_context))))"
proof (rule make_var_unique)
  show "distinct (List.map fst (all_vars demo_context))" by code_simp
qed

end
