(* ===== verification/CodeMotion.thy ===== *)
theory CodeMotion
  imports IR
begin

text \<open>
  \<^verbatim>\<open>src/cuda/tile/_passes/code_motion.py\<close>: hoisting of loop-invariant operations.

  \<^item> the state is the Python stack of \<^verbatim>\<open>_BlockInfo\<close> (the root block first) and the dictionary
    \<^verbatim>\<open>def_depth\<close> from variables to the depth of the block that defines them, as an association list;
  \<^item> \<open>hoist_ops\<close> is the loop of \<^verbatim>\<open>_hoist\<close> over the operations of the block on top of the stack, and
    \<open>in_block\<close> the pushing and popping around it. A block is rebuilt functionally: the operation that
    is appended carries the hoisted nested blocks.
\<close>

section \<open>Block and dependency information\<close>

datatype block_mobility = IMMOVABLE | CAN_MOVE_WITH_LOOP | CAN_MOVE

fun mobility_rank :: "block_mobility \<Rightarrow> nat" where
  "mobility_rank IMMOVABLE = 0"
| "mobility_rank CAN_MOVE_WITH_LOOP = 1"
| "mobility_rank CAN_MOVE = 2"

record dependency_info =
  must_stay :: bool
  max_outside_depth :: nat

record block_info =
  rebuilt_block :: "ir_op list"
  is_loop_body :: bool
  mobility :: block_mobility
  min_depth :: nat

record hoist_state =
  stack :: "block_info list"
  def_depths :: "(var \<times> nat) list"

definition def_depth :: "hoist_state \<Rightarrow> var \<Rightarrow> nat option" where
  "def_depth s = map_of (def_depths s)"

type_synonym 'a hoisting = "(hoist_state, 'a) eff"

definition new_dependency_info :: "bool \<Rightarrow> dependency_info" where
  "new_dependency_info stay = \<lparr>must_stay = stay, max_outside_depth = 0\<rparr>"

definition update_dependency :: "nat \<Rightarrow> nat \<Rightarrow> dependency_info \<Rightarrow> dependency_info" where
  "update_dependency dependency_depth cur_block_depth d =
     (if dependency_depth \<ge> cur_block_depth then d\<lparr>must_stay := True\<rparr>
      else d\<lparr>max_outside_depth := max (max_outside_depth d) dependency_depth\<rparr>)"

definition new_block_info :: "bool \<Rightarrow> block_info" where
  "new_block_info loop_body = \<lparr>rebuilt_block = [], is_loop_body = loop_body, mobility = CAN_MOVE, min_depth = 0\<rparr>"

definition update_mobility :: "block_mobility \<Rightarrow> block_info \<Rightarrow> block_info" where
  "update_mobility m b = (if mobility_rank m < mobility_rank (mobility b) then b\<lparr>mobility := m\<rparr> else b)"

definition update_min_depth :: "nat \<Rightarrow> block_info \<Rightarrow> block_info" where
  "update_min_depth outside b = b\<lparr>min_depth := max (min_depth b) outside\<rparr>"

definition append_op :: "ir_op \<Rightarrow> block_info \<Rightarrow> block_info" where
  "append_op op b = b\<lparr>rebuilt_block := rebuilt_block b @ [op]\<rparr>"

section \<open>The stack\<close>

definition cur_depth :: "hoist_state \<Rightarrow> nat" where
  "cur_depth s = length (stack s) - 1"

definition at_depth :: "nat \<Rightarrow> (block_info \<Rightarrow> block_info) \<Rightarrow> unit hoisting" where
  "at_depth d f = modifyE (\<lambda>s. s\<lparr>stack := (stack s)[d := f (stack s ! d)]\<rparr>)"

definition push_block :: "bool \<Rightarrow> unit hoisting" where
  "push_block loop_body = modifyE (\<lambda>s. s\<lparr>stack := stack s @ [new_block_info loop_body]\<rparr>)"

definition pop_block :: "block_info hoisting" where
  "pop_block = (\<lambda>s. (Inr (last (stack s)), s\<lparr>stack := butlast (stack s)\<rparr>))"

definition in_block :: "bool \<Rightarrow> unit hoisting \<Rightarrow> block_info hoisting" where
  "in_block loop_body m = bindE (push_block loop_body) (\<lambda>_. bindE m (\<lambda>_. pop_block))"

definition define_at :: "nat \<Rightarrow> var list \<Rightarrow> unit hoisting" where
  "define_at d vs = modifyE (\<lambda>s. s\<lparr>def_depths := List.map (\<lambda>v. (v, d)) vs @ def_depths s\<rparr>)"

text \<open>\<^verbatim>\<open>for v in vs: depinfo.update(def_depth[v.name], depth)\<close>\<close>

fun update_by_vars :: "var list \<Rightarrow> nat \<Rightarrow> dependency_info \<Rightarrow> dependency_info hoisting" where
  "update_by_vars [] depth d = retE d"
| "update_by_vars (v # vs) depth d = bindE (getE (\<lambda>s. def_depth s v)) (\<lambda>found. case found of
     None \<Rightarrow> raiseE KeyError
   | Some k \<Rightarrow> update_by_vars vs depth (update_dependency k depth d))"

definition update_by_branch :: "block_info \<Rightarrow> nat \<Rightarrow> dependency_info \<Rightarrow> dependency_info" where
  "update_by_branch branch_res depth d =
     (let d' = update_dependency (min_depth branch_res) depth d in
      if mobility branch_res \<noteq> CAN_MOVE then d'\<lparr>must_stay := True\<rparr> else d')"

primrec hoist_target :: "block_info list \<Rightarrow> nat \<Rightarrow> nat \<Rightarrow> nat" where
  "hoist_target blocks outside 0 = 0"
| "hoist_target blocks outside (Suc d) =
     (if Suc d > outside \<and> is_loop_body (blocks ! Suc d) then hoist_target blocks outside d else Suc d)"

definition place :: "ir_op \<Rightarrow> dependency_info \<Rightarrow> nat \<Rightarrow> unit hoisting" where
  "place op d depth = bindE (getE stack) (\<lambda>blocks.
     let target_depth = (if must_stay d then depth else hoist_target blocks (max_outside_depth d) depth) in
     seqE [at_depth target_depth (update_min_depth (max_outside_depth d)),
           at_depth target_depth (append_op op)]
       (define_at target_depth (result_vars op)))"

section \<open>Hoisting\<close>

fun hoist_ops :: "ir_op list \<Rightarrow> bool \<Rightarrow> unit hoisting" where
  "hoist_ops [] loop_body = skipE"
| "hoist_ops (Loop i r init ps body rs # ops) loop_body =
     bindE (getE cur_depth) (\<lambda>d.
     bindE (define_at (d + 1) ps) (\<lambda>_.
     bindE (in_block True (hoist_ops body True)) (\<lambda>body_res.
     let stuck = (mobility body_res = IMMOVABLE) in
     bindE (if stuck then at_depth d (update_mobility IMMOVABLE) else skipE) (\<lambda>_.
     bindE (update_by_vars init d (new_dependency_info (\<not> loop_body \<or> stuck))) (\<lambda>depinfo.
     bindE (place (Loop i r init ps (rebuilt_block body_res) rs) (update_dependency (min_depth body_res) d depinfo) d) (\<lambda>_.
     hoist_ops ops loop_body))))))"
| "hoist_ops (TileFold i k ids xs ps body rs # ops) loop_body =
     bindE (getE cur_depth) (\<lambda>d.
     bindE (define_at (d + 1) ps) (\<lambda>_.
     bindE (in_block True (hoist_ops body True)) (\<lambda>body_res.
     let stuck = (mobility body_res = IMMOVABLE) in
     bindE (if stuck then at_depth d (update_mobility IMMOVABLE) else skipE) (\<lambda>_.
     bindE (update_by_vars xs d (new_dependency_info (\<not> loop_body \<or> stuck))) (\<lambda>depinfo.
     bindE (place (TileFold i k ids xs ps (rebuilt_block body_res) rs) (update_dependency (min_depth body_res) d depinfo) d) (\<lambda>_.
     hoist_ops ops loop_body))))))"
| "hoist_ops (IfElse i c T E rs # ops) loop_body =
     bindE (getE cur_depth) (\<lambda>d.
     bindE (update_by_vars [c] d (new_dependency_info (\<not> loop_body))) (\<lambda>depinfo.
     bindE (in_block False (hoist_ops T False)) (\<lambda>then_res.
     bindE (if mobility then_res \<noteq> CAN_MOVE then at_depth d (update_mobility (mobility then_res)) else skipE) (\<lambda>_.
     bindE (in_block False (hoist_ops E False)) (\<lambda>else_res.
     bindE (if mobility else_res \<noteq> CAN_MOVE then at_depth d (update_mobility (mobility else_res)) else skipE) (\<lambda>_.
     bindE (place (IfElse i c (rebuilt_block then_res) (rebuilt_block else_res) rs)
              (update_by_branch else_res d (update_by_branch then_res d depinfo)) d) (\<lambda>_.
     hoist_ops ops loop_body)))))))"
| "hoist_ops (Operation cl rs xs # ops) loop_body =
     bindE (getE cur_depth) (\<lambda>d.
     bindE (if has_observable_effect cl
            then bindE (at_depth d (update_mobility IMMOVABLE)) (\<lambda>_. retE (new_dependency_info True))
            else update_by_vars xs d (new_dependency_info (\<not> loop_body))) (\<lambda>depinfo.
     bindE (place (Operation cl rs xs) depinfo d) (\<lambda>_.
     hoist_ops ops loop_body)))"
| "hoist_ops (Continue vs # ops) loop_body =
     bindE (getE cur_depth) (\<lambda>d.
     bindE (at_depth d (update_mobility CAN_MOVE_WITH_LOOP)) (\<lambda>_.
     bindE (update_by_vars vs d (new_dependency_info True)) (\<lambda>depinfo.
     bindE (place (Continue vs) depinfo d) (\<lambda>_.
     hoist_ops ops loop_body))))"
| "hoist_ops (Break vs # ops) loop_body =
     bindE (getE cur_depth) (\<lambda>d.
     bindE (at_depth d (update_mobility CAN_MOVE_WITH_LOOP)) (\<lambda>_.
     bindE (update_by_vars vs d (new_dependency_info True)) (\<lambda>depinfo.
     bindE (place (Break vs) depinfo d) (\<lambda>_.
     hoist_ops ops loop_body))))"
| "hoist_ops (EndBranch vs # ops) loop_body =
     bindE (getE cur_depth) (\<lambda>d.
     bindE (update_by_vars vs d (new_dependency_info True)) (\<lambda>depinfo.
     bindE (place (EndBranch vs) depinfo d) (\<lambda>_.
     hoist_ops ops loop_body)))"

definition hoist_loop_invariants :: "var list \<Rightarrow> ir_op list \<Rightarrow> py_error + ir_op list" where
  "hoist_loop_invariants params root =
     (case in_block False (hoist_ops root False)
             \<lparr>stack = [], def_depths = List.map (\<lambda>v. (v, 0)) params\<rparr> of
        (Inl e, _) \<Rightarrow> Inl e
      | (Inr res, _) \<Rightarrow> Inr (rebuilt_block res))"

section \<open>What the pass should keep\<close>

text \<open>Every variable is defined in scope before it is read.\<close>

fun scoped :: "var set \<Rightarrow> ir_op list \<Rightarrow> bool" where
  "scoped V [] = True"
| "scoped V (Loop i r init ps body rs # ops) =
     (set (range_vars r) \<union> set init \<subseteq> V \<and> scoped (V \<union> set ps) body \<and> scoped (V \<union> set rs) ops)"
| "scoped V (IfElse i c T E rs # ops) = (c \<in> V \<and> scoped V T \<and> scoped V E \<and> scoped (V \<union> set rs) ops)"
| "scoped V (TileFold i k ids xs ps body rs # ops) =
     (set xs \<subseteq> V \<and> scoped (V \<union> set ps) body \<and> scoped (V \<union> set rs) ops)"
| "scoped V (op # ops) = (set (all_inputs op) \<subseteq> V \<and> scoped (V \<union> set (result_vars op)) ops)"


definition own_vars :: "ir_op list \<Rightarrow> var set" where
  "own_vars ops = (\<Union>op \<in> set ops. set (result_vars op))"

fun flat_block :: "ir_op list \<Rightarrow> bool" where
  "flat_block [] = True"
| "flat_block (op # ops) = (nested_blocks op = [] \<and> flat_block ops)"

fun has_effects :: "ir_op list \<Rightarrow> bool" where
  "has_effects [] = False"
| "has_effects (Operation c rs xs # ops) = (has_observable_effect c \<or> has_effects ops)"
| "has_effects (Loop i r init ps body rs # ops) = (has_effects body \<or> has_effects ops)"
| "has_effects (IfElse i c T E rs # ops) = (has_effects T \<or> has_effects E \<or> has_effects ops)"
| "has_effects (TileFold i k ids xs ps body rs # ops) = (has_effects body \<or> has_effects ops)"
| "has_effects (_ # ops) = has_effects ops"

text \<open>
  The programs for which \<^verbatim>\<open>_hoist\<close> counts every dependency: whatever stands in a loop and has nested
  blocks either has an observable effect, and stays, or its blocks are flat, and then a \<^verbatim>\<open>for\<close> loop
  has its range from \<open>G\<close>, the variables of the root block.
\<close>

fun hoist_safe :: "var set \<Rightarrow> bool \<Rightarrow> ir_op list \<Rightarrow> bool" where
  "hoist_safe G loop_body [] = True"
| "hoist_safe G loop_body (Loop i r init ps body rs # ops) =
     ((loop_body \<longrightarrow> has_effects body \<or> flat_block body \<and> set (range_vars r) \<subseteq> G) \<and>
      hoist_safe G True body \<and> hoist_safe G loop_body ops)"
| "hoist_safe G loop_body (TileFold i k ids xs ps body rs # ops) =
     ((loop_body \<longrightarrow> has_effects body \<or> flat_block body) \<and> hoist_safe G True body \<and> hoist_safe G loop_body ops)"
| "hoist_safe G loop_body (IfElse i c T E rs # ops) =
     ((loop_body \<longrightarrow> has_effects T \<or> has_effects E \<or> flat_block T \<and> flat_block E) \<and>
      hoist_safe G False T \<and> hoist_safe G False E \<and> hoist_safe G loop_body ops)"
| "hoist_safe G loop_body (_ # ops) = hoist_safe G loop_body ops"

end
