(* ===== verification/CodeMotionScope.thy ===== *)
theory CodeMotionScope
  imports CodeMotion
begin

text \<open>
  Hoisting keeps definitions in front of their uses, on the programs of \<open>hoist_safe\<close>.

  \<^item> \<open>avail Ps s k\<close>: what the block at depth \<open>k\<close> defines so far, \<open>Ps\<close> being the parameters of the blocks;
  \<^item> \<open>hoist_inv\<close>: \<^verbatim>\<open>def_depth\<close> says where a variable in scope is available, and every block on the stack
    only reads what is available above it;
  \<^item> \<open>tight\<close>: the block on top of the stack reads nothing from between its \<^verbatim>\<open>min_depth\<close> and itself;
  \<^item> \<open>evolves D s s'\<close>: what every part of the pass leaves as it is.
\<close>

section \<open>Scopes\<close>

lemma own_vars_simps [simp]:
  "own_vars [] = {}" "own_vars (op # ops) = set (result_vars op) \<union> own_vars ops"
  "own_vars (xs @ ys) = own_vars xs \<union> own_vars ys"
  by (auto simp: own_vars_def)

lemma own_vars_defined: "own_vars ops \<subseteq> set (defined_vars ops)"
  by (induction ops rule: defined_vars.induct) auto

lemma scoped_mono: "scoped V ops \<Longrightarrow> V \<subseteq> W \<Longrightarrow> scoped W ops"
proof (induction ops arbitrary: V W rule: traverse_induct)
  case (Operation c rs xs ops)
  note ih = Operation.IH [OF _ Un_mono [OF \<open>V \<subseteq> W\<close> subset_refl]]
  show ?case using Operation.prems by (auto intro: ih)
next
  case (Loop i r init ps body rs ops)
  note ih = Loop.IH [OF _ Un_mono [OF \<open>V \<subseteq> W\<close> subset_refl]]
  show ?case using Loop.prems by (auto intro: ih)
next
  case (IfElse i c T E rs ops)
  note ih = IfElse.IH(1,2) [OF _ \<open>V \<subseteq> W\<close>] IfElse.IH(3) [OF _ Un_mono [OF \<open>V \<subseteq> W\<close> subset_refl]]
  show ?case using IfElse.prems by (auto intro: ih)
next
  case (TileFold i k ids xs ps body rs ops)
  note ih = TileFold.IH [OF _ Un_mono [OF \<open>V \<subseteq> W\<close> subset_refl]]
  show ?case using TileFold.prems by (auto intro: ih)
qed auto

lemma scoped_Cons: "scoped V (op # ops) \<longleftrightarrow> scoped V [op] \<and> scoped (V \<union> set (result_vars op)) ops"
  by (cases op) auto

lemma scoped_append: "scoped V (xs @ ys) \<longleftrightarrow> scoped V xs \<and> scoped (V \<union> own_vars xs) ys"
proof (induction xs arbitrary: V)
  case (Cons op xs)
  then show ?case
    unfolding append_Cons by (subst (1 2) scoped_Cons) (simp add: Un_assoc)
qed simp

section \<open>Dependencies\<close>

definition counted :: "nat \<Rightarrow> nat \<Rightarrow> dependency_info \<Rightarrow> bool" where
  "counted n k d \<longleftrightarrow> (if n \<le> k then must_stay d else k \<le> max_outside_depth d)"

definition info_le :: "dependency_info \<Rightarrow> dependency_info \<Rightarrow> bool" where
  "info_le d d' \<longleftrightarrow> (must_stay d \<longrightarrow> must_stay d') \<and> max_outside_depth d \<le> max_outside_depth d'"

lemma info_le_refl [simp]: "info_le d d"
  by (simp add: info_le_def)

lemma info_le_trans: "info_le a b \<Longrightarrow> info_le b c \<Longrightarrow> info_le a c"
  by (auto simp: info_le_def)

lemma counted_mono: "counted n k d \<Longrightarrow> info_le d d' \<Longrightarrow> counted n k d'"
  by (auto simp: counted_def info_le_def split: if_splits)

lemma update_dependency_le: "info_le d (update_dependency k n d)"
  by (auto simp: info_le_def update_dependency_def)

lemma update_dependency_counted: "counted n k (update_dependency k n d)"
  by (auto simp: counted_def update_dependency_def)

lemma update_dependency_bound: "max_outside_depth d \<le> n \<Longrightarrow> max_outside_depth (update_dependency k n d) \<le> n"
  by (auto simp: update_dependency_def)

lemma update_by_vars_ok:
  assumes "\<forall>v \<in> set vs. def_depth s v \<noteq> None" and "max_outside_depth d \<le> n"
  shows "\<exists>d'. update_by_vars vs n d s = (Inr d', s) \<and> info_le d d' \<and> max_outside_depth d' \<le> n \<and>
    (\<forall>v \<in> set vs. \<forall>k. def_depth s v = Some k \<longrightarrow> counted n k d')"
  using assms
proof (induction vs arbitrary: d)
  case Nil
  then show ?case by (simp add: retE_def)
next
  case (Cons v vs)
  then obtain k where k: "def_depth s v = Some k" by auto
  let ?d = "update_dependency k n d"
  from Cons.IH [of ?d] Cons.prems obtain d' where d': "update_by_vars vs n ?d s = (Inr d', s)" "info_le ?d d'"
    "max_outside_depth d' \<le> n" "\<forall>v \<in> set vs. \<forall>k. def_depth s v = Some k \<longrightarrow> counted n k d'"
    by (auto simp: update_dependency_bound)
  have "counted n k d'" by (rule counted_mono [OF update_dependency_counted d'(2)])
  then show ?case
    using k d' info_le_trans [OF update_dependency_le d'(2)] by (auto simp: bindE_get)
qed

lemma hoist_target_le: "hoist_target bs m d \<le> d"
  by (induction d) auto

lemma hoist_target_ge: "m \<le> d \<Longrightarrow> m \<le> hoist_target bs m d"
  by (induction d) auto

section \<open>Placing an operation\<close>

lemma def_depth_simps [simp]:
  "def_depth (s\<lparr>stack := st\<rparr>) = def_depth s"
  "def_depth (s\<lparr>def_depths := List.map (\<lambda>v. (v, d)) vs @ al\<rparr>) v = (if v \<in> set vs then Some d else map_of al v)"
  "def_depth \<lparr>stack = st, def_depths = List.map (\<lambda>v. (v, d)) vs\<rparr> v = (if v \<in> set vs then Some d else None)"
proof -
  have "map_of (List.map (\<lambda>v. (v, d)) vs @ al) v = (if v \<in> set vs then Some d else map_of al v)" for al
    by (induction vs) auto
  from this [of al] this [of "[]"] show "def_depth (s\<lparr>def_depths := List.map (\<lambda>v. (v, d)) vs @ al\<rparr>) v = (if v \<in> set vs then Some d else map_of al v)"
    "def_depth \<lparr>stack = st, def_depths = List.map (\<lambda>v. (v, d)) vs\<rparr> v = (if v \<in> set vs then Some d else None)"
    by (simp_all add: def_depth_def)
qed (simp add: def_depth_def)

lemma map_of_def_depths [simp]: "map_of (def_depths s) = def_depth s"
  by (simp add: def_depth_def)

lemma place_eq:
  assumes "t = (if must_stay d then n else hoist_target (stack s) (max_outside_depth d) n)" and "n < length (stack s)"
  shows "place op d n s = (Inr (), s\<lparr>
    stack := (stack s)[t := append_op op (update_min_depth (max_outside_depth d) (stack s ! t))],
    def_depths := List.map (\<lambda>v. (v, t)) (result_vars op) @ def_depths s\<rparr>)"
proof -
  have t: "t < length (stack s)" using assms hoist_target_le [of "stack s" "max_outside_depth d" n] by auto
  show ?thesis
    unfolding place_def bindE_get Let_def assms(1) [symmetric]
    using t by (simp add: at_depth_def define_at_def bindE_modify modifyE_def cong: if_cong)
qed

section \<open>The invariant\<close>

definition avail :: "var set list \<Rightarrow> hoist_state \<Rightarrow> nat \<Rightarrow> var set" where
  "avail Ps s k = Ps ! k \<union> own_vars (rebuilt_block (stack s ! k))"

definition hoist_inv :: "var set list \<Rightarrow> var set \<Rightarrow> var set \<Rightarrow> hoist_state \<Rightarrow> bool" where
  "hoist_inv Ps G V s \<longleftrightarrow> stack s \<noteq> [] \<and> length Ps = length (stack s) \<and>
     (\<forall>v \<in> V. \<exists>k < length Ps. def_depth s v = Some k \<and> v \<in> avail Ps s k) \<and>
     (\<forall>v \<in> V \<inter> G. def_depth s v = Some 0) \<and>
     (\<forall>k < length Ps. scoped ((\<Union>j < k. avail Ps s j) \<union> Ps ! k) (rebuilt_block (stack s ! k)))"

definition tight :: "var set list \<Rightarrow> hoist_state \<Rightarrow> bool" where
  "tight Ps s \<longleftrightarrow> (let n = cur_depth s; top = last (stack s) in
     scoped ((\<Union>j \<in> {j. j < n \<and> j \<le> min_depth top}. avail Ps s j) \<union> Ps ! n) (rebuilt_block top))"

definition evolves :: "var set \<Rightarrow> hoist_state \<Rightarrow> hoist_state \<Rightarrow> bool" where
  "evolves D s s' \<longleftrightarrow> length (stack s') = length (stack s) \<and>
     (\<forall>k < length (stack s). is_loop_body (stack s' ! k) = is_loop_body (stack s ! k) \<and>
        own_vars (rebuilt_block (stack s ! k)) \<subseteq> own_vars (rebuilt_block (stack s' ! k)) \<and>
        (mobility (stack s ! k) = IMMOVABLE \<longrightarrow> mobility (stack s' ! k) = IMMOVABLE)) \<and>
     (\<forall>v. v \<notin> D \<longrightarrow> def_depth s' v = def_depth s v)"

lemma evolves_refl [simp]: "evolves D s s"
  by (simp add: evolves_def)

lemma evolves_trans:
  assumes a: "evolves D s t" and b: "evolves D t u"
  shows "evolves D s u"
proof -
  have len: "length (stack t) = length (stack s)" using a by (simp add: evolves_def)
  show ?thesis
    using a b unfolding evolves_def len
    by (intro conjI allI impI) (simp, simp, meson subset_trans, blast, simp)
qed

lemma evolves_mono: "evolves D s t \<Longrightarrow> D \<subseteq> D' \<Longrightarrow> evolves D' s t"
  unfolding evolves_def by blast

lemma evolves_avail: "evolves D s t \<Longrightarrow> k < length (stack s) \<Longrightarrow> avail Ps s k \<subseteq> avail Ps t k"
  unfolding evolves_def avail_def by blast

text \<open>The operation may go where \<^verbatim>\<open>_hoist\<close> puts it.\<close>

definition placeable :: "var set list \<Rightarrow> hoist_state \<Rightarrow> ir_op \<Rightarrow> dependency_info \<Rightarrow> bool" where
  "placeable Ps s op d \<longleftrightarrow> max_outside_depth d \<le> cur_depth s \<and>
     (if must_stay d then scoped (\<Union>j \<le> cur_depth s. avail Ps s j) [op]
      else scoped (\<Union>j \<le> max_outside_depth d. avail Ps s j) [op])"

lemma place_ok:
  assumes inv: "hoist_inv Ps G V s" and p: "placeable Ps s op d"
    and fresh: "set (result_vars op) \<inter> V = {}" and root: "set (result_vars op) \<inter> G = {} \<or> cur_depth s = 0"
  obtains s' where "place op d (cur_depth s) s = (Inr (), s')"
    and "hoist_inv Ps G (V \<union> set (result_vars op)) s'" and "evolves (set (result_vars op)) s s'"
proof -
  define n where "n = cur_depth s"
  define t where "t = (if must_stay d then n else hoist_target (stack s) (max_outside_depth d) n)"
  define s' where "s' = s\<lparr>
    stack := (stack s)[t := append_op op (update_min_depth (max_outside_depth d) (stack s ! t))],
    def_depths := List.map (\<lambda>v. (v, t)) (result_vars op) @ def_depths s\<rparr>"
  have n: "n < length (stack s)" using inv by (simp add: n_def hoist_inv_def cur_depth_def)
  have t: "t \<le> n" "max_outside_depth d \<le> t \<or> must_stay d"
    using p hoist_target_le hoist_target_ge by (auto simp: t_def placeable_def n_def)
  have tl: "t < length (stack s)" using t(1) n by simp
  have place: "place op d n s = (Inr (), s')" unfolding s'_def by (rule place_eq [OF t_def n])
  have nth: "stack s' ! k = (if k = t then append_op op (update_min_depth (max_outside_depth d) (stack s ! t)) else stack s ! k)"
    if "k < length (stack s)" for k
    using that by (simp add: s'_def)
  have nb: "rebuilt_block (stack s' ! k) = rebuilt_block (stack s ! k) @ (if k = t then [op] else [])" if "k < length (stack s)" for k
    using that by (simp add: nth append_op_def update_min_depth_def)
  have ev: "evolves (set (result_vars op)) s s'"
    unfolding evolves_def by (auto simp: nth append_op_def update_min_depth_def) (simp_all add: s'_def)
  have av: "avail Ps s' k = avail Ps s k \<union> (if k = t then set (result_vars op) else {})" if "k < length (stack s)" for k
    using nb [OF that] by (auto simp: avail_def)
  have op: "scoped (\<Union>j \<le> t. avail Ps s j) [op]"
  proof (cases "must_stay d")
    case True
    then show ?thesis using p by (simp add: placeable_def t_def n_def)
  next
    case False
    then have "scoped (\<Union>j \<le> max_outside_depth d. avail Ps s j) [op]" "max_outside_depth d \<le> t"
      using p t(2) by (auto simp: placeable_def)
    then show ?thesis by (elim scoped_mono) (auto intro: order_trans)
  qed
  have len: "length Ps = length (stack s)" "stack s' \<noteq> []" "length (stack s') = length (stack s)"
    using inv by (auto simp: hoist_inv_def s'_def)
  have "hoist_inv Ps G (V \<union> set (result_vars op)) s'"
    unfolding hoist_inv_def
  proof (intro conjI ballI allI impI)
    show "stack s' \<noteq> []" "length Ps = length (stack s')" using len by simp_all
  next
    fix v assume v: "v \<in> V \<union> set (result_vars op)"
    show "\<exists>k < length Ps. def_depth s' v = Some k \<and> v \<in> avail Ps s' k"
    proof (cases "v \<in> set (result_vars op)")
      case True
      then show ?thesis using tl av [OF tl] by (auto simp: s'_def len)
    next
      case False
      with v inv obtain k where "k < length Ps" "def_depth s v = Some k" "v \<in> avail Ps s k"
        unfolding hoist_inv_def by blast
      then show ?thesis using False av [of k] len(1) by (auto simp: s'_def)
    qed
  next
    fix v assume v: "v \<in> (V \<union> set (result_vars op)) \<inter> G"
    show "def_depth s' v = Some 0"
    proof (cases "v \<in> set (result_vars op)")
      case True
      then have "n = 0" using v root by (auto simp: n_def)
      then show ?thesis using True t(1) by (simp add: s'_def)
    next
      case False
      then show ?thesis using v inv by (auto simp: s'_def hoist_inv_def)
    qed
  next
    fix k assume k: "k < length Ps"
    then have kl: "k < length (stack s)" using len by simp
    have up: "(\<Union>j < k. avail Ps s j) \<subseteq> (\<Union>j < k. avail Ps s' j)"
      using av kl by fastforce
    have old: "scoped ((\<Union>j < k. avail Ps s' j) \<union> Ps ! k) (rebuilt_block (stack s ! k))"
      using inv k up unfolding hoist_inv_def by (blast intro: scoped_mono)
    show "scoped ((\<Union>j < k. avail Ps s' j) \<union> Ps ! k) (rebuilt_block (stack s' ! k))"
    proof (cases "k = t")
      case True
      have "{..t} = insert t {..<t}" by auto
      then have "(\<Union>j \<le> t. avail Ps s j) \<subseteq> (\<Union>j < t. avail Ps s' j) \<union> Ps ! t \<union> own_vars (rebuilt_block (stack s ! t))"
        using up True by (auto simp: avail_def)
      with op have "scoped ((\<Union>j < t. avail Ps s' j) \<union> Ps ! t \<union> own_vars (rebuilt_block (stack s ! t))) [op]"
        by (rule scoped_mono)
      then show ?thesis using old nb [OF kl] True by (simp add: scoped_append)
    next
      case False
      then show ?thesis using old nb [OF kl] by simp
    qed
  qed
  with place ev that show thesis by (simp add: n_def)
qed


section \<open>Simple operations\<close>

lemma scoped_simple: "nested_blocks op = [] \<Longrightarrow> scoped V [op] \<longleftrightarrow> set (all_inputs op) \<subseteq> V"
  by (cases op) auto

lemma inv_top:
  assumes "hoist_inv Ps G V s"
  shows "cur_depth s < length (stack s)" and "length Ps = length (stack s)" and "last (stack s) = stack s ! cur_depth s"
  using assms by (auto simp: hoist_inv_def cur_depth_def last_conv_nth)

lemma inv_available: "hoist_inv Ps G V s \<Longrightarrow> v \<in> V \<Longrightarrow> \<exists>k \<le> cur_depth s. def_depth s v = Some k \<and> v \<in> avail Ps s k"
  using inv_top [of Ps G V s] unfolding hoist_inv_def by (metis Suc_pred' cur_depth_def length_greater_0_conv less_Suc_eq_le)

lemma inv_scope: "hoist_inv Ps G V s \<Longrightarrow> V \<subseteq> (\<Union>j \<le> cur_depth s. avail Ps s j)"
  by (blast dest: inv_available)

lemma counted_scope:
  assumes inv: "hoist_inv Ps G V s" and x: "x \<in> V" "\<forall>k. def_depth s x = Some k \<longrightarrow> counted (cur_depth s) k d"
    and "\<not> must_stay d"
  shows "x \<in> (\<Union>j \<le> max_outside_depth d. avail Ps s j)"
proof -
  from inv_available [OF inv x(1)] obtain k where "def_depth s x = Some k" "x \<in> avail Ps s k" by blast
  moreover from this x(2) have "counted (cur_depth s) k d" by blast
  ultimately show ?thesis using assms(4) by (auto simp: counted_def split: if_splits)
qed

lemma simple_placeable:
  assumes inv: "hoist_inv Ps G V s" and op: "nested_blocks op = []" "set (all_inputs op) \<subseteq> V"
    and cnt: "must_stay d \<or> (\<forall>v \<in> set (all_inputs op). \<forall>k. def_depth s v = Some k \<longrightarrow> counted (cur_depth s) k d)"
    and bound: "max_outside_depth d \<le> cur_depth s"
  shows "placeable Ps s op d"
proof (cases "must_stay d")
  case True
  then show ?thesis using inv_scope [OF inv] op bound by (auto simp: placeable_def scoped_simple)
next
  case False
  then have "set (all_inputs op) \<subseteq> (\<Union>j \<le> max_outside_depth d. avail Ps s j)"
    using op(2) cnt by (auto simp del: UN_iff intro!: counted_scope [OF inv])
  then show ?thesis using False op(1) bound by (simp add: placeable_def scoped_simple)
qed

lemma place_tight:
  assumes inv: "hoist_inv Ps G V s" and op: "nested_blocks op = []" "set (all_inputs op) \<subseteq> V"
    and cnt: "\<forall>v \<in> set (all_inputs op). \<forall>k. def_depth s v = Some k \<longrightarrow> counted (cur_depth s) k d"
    and place: "place op d (cur_depth s) s = (Inr (), s')" and tight: "tight Ps s"
  shows "tight Ps s'"
proof -
  define n where "n = cur_depth s"
  define t where "t = (if must_stay d then n else hoist_target (stack s) (max_outside_depth d) n)"
  have n: "n < length (stack s)" using inv_top(1) [OF inv] by (simp add: n_def)
  have t: "t \<le> n" using hoist_target_le by (auto simp: t_def)
  have s': "s' = s\<lparr>stack := (stack s)[t := append_op op (update_min_depth (max_outside_depth d) (stack s ! t))],
      def_depths := List.map (\<lambda>v. (v, t)) (result_vars op) @ def_depths s\<rparr>"
    using place place_eq [OF t_def n, of op] by (simp add: n_def)
  have cd: "cur_depth s' = n" by (simp add: s' cur_depth_def n_def)
  have nth: "stack s' ! k = (if k = t then append_op op (update_min_depth (max_outside_depth d) (stack s ! t)) else stack s ! k)"
    if "k < length (stack s)" for k
    using that by (simp add: s')
  have last: "last (stack s') = stack s' ! n" "last (stack s) = stack s ! n"
  proof -
    have "stack s \<noteq> []" "stack s' \<noteq> []" using inv by (simp_all add: hoist_inv_def s')
    then show "last (stack s') = stack s' ! n" "last (stack s) = stack s ! n"
      using cd by (simp_all add: last_conv_nth n_def cur_depth_def)
  qed
  have av: "avail Ps s k \<subseteq> avail Ps s' k" if "k < length (stack s)" for k
    using nth [OF that] by (auto simp: avail_def append_op_def update_min_depth_def)
  let ?low = "\<lambda>s m. \<Union>j \<in> {j. j < n \<and> j \<le> m}. avail Ps s j"
  have low: "?low s m \<subseteq> ?low s' m'" if "m \<le> m'" for m m' :: nat
    by (rule UN_mono) (use that n in \<open>auto intro!: av\<close>)
  have old: "scoped (?low s (min_depth (stack s ! n)) \<union> Ps ! n) (rebuilt_block (stack s ! n))"
    using tight by (simp add: tight_def Let_def last n_def)
  show ?thesis
  proof (cases "t = n")
    case False
    have "?low s (min_depth (stack s ! n)) \<subseteq> ?low s' (min_depth (stack s ! n))" by (rule low) simp
    then have "scoped (?low s' (min_depth (stack s ! n)) \<union> Ps ! n) (rebuilt_block (stack s ! n))"
      using old by (blast intro: scoped_mono)
    then show ?thesis using nth [OF n] False by (simp add: tight_def Let_def cd last)
  next
    case True
    let ?m = "max (min_depth (stack s ! n)) (max_outside_depth d)"
    have "?low s (min_depth (stack s ! n)) \<subseteq> ?low s' ?m" by (rule low) simp
    then have 1: "scoped (?low s' ?m \<union> Ps ! n) (rebuilt_block (stack s ! n))"
      using old by (blast intro: scoped_mono)
    have "x \<in> ?low s' ?m \<union> Ps ! n \<union> own_vars (rebuilt_block (stack s ! n))" if x: "x \<in> set (all_inputs op)" for x
    proof -
      from x op(2) inv_available [OF inv, of x] obtain k where k: "k \<le> n" "def_depth s x = Some k" "x \<in> avail Ps s k"
        by (auto simp: n_def)
      show ?thesis
      proof (cases "k = n")
        case True
        then show ?thesis using k(3) by (auto simp: avail_def)
      next
        case False
        then have "k < n" "k \<le> max_outside_depth d"
          using k(1,2) cnt x by (auto simp: counted_def n_def)
        then show ?thesis using k(3) av [of k] n by (auto intro: bexI [of _ k])
      qed
    qed
    then have "scoped (?low s' ?m \<union> Ps ! n \<union> own_vars (rebuilt_block (stack s ! n))) [op]"
      by (auto simp only: scoped_simple [OF op(1)])
    then show ?thesis
      using 1 nth [OF n] True by (simp add: tight_def Let_def cd last append_op_def update_min_depth_def scoped_append)
  qed
qed

lemma mobility_ok:
  assumes inv: "hoist_inv Ps G V s"
  obtains s' where "at_depth (cur_depth s) (update_mobility m) s = (Inr (), s')" and "hoist_inv Ps G V s'"
    and "evolves {} s s'" and "cur_depth s' = cur_depth s" and "tight Ps s \<Longrightarrow> tight Ps s'" and "def_depth s' = def_depth s"
    and "m = IMMOVABLE \<Longrightarrow> mobility (last (stack s')) = IMMOVABLE" and "\<And>k. avail Ps s' k = avail Ps s k"
proof -
  let ?n = "cur_depth s"
  define s' where "s' = s\<lparr>stack := (stack s)[?n := update_mobility m (stack s ! ?n)]\<rparr>"
  note top = inv_top [OF inv]
  have nb: "rebuilt_block (update_mobility m b) = rebuilt_block b" "min_depth (update_mobility m b) = min_depth b"
    "is_loop_body (update_mobility m b) = is_loop_body b" "mobility b = IMMOVABLE \<Longrightarrow> mobility (update_mobility m b) = IMMOVABLE"
    "m = IMMOVABLE \<Longrightarrow> mobility (update_mobility m b) = IMMOVABLE" for b
    by (cases "mobility b"; simp add: update_mobility_def)+
  have nth: "stack s' ! k = (if k = ?n then update_mobility m (stack s ! k) else stack s ! k)" for k
    using top(1) by (simp add: s'_def)
  have len: "length (stack s') = length (stack s)" and dd: "def_depth s' = def_depth s" by (simp_all add: s'_def)
  have cd: "cur_depth s' = ?n" by (simp add: cur_depth_def len)
  have new: "rebuilt_block (stack s' ! k) = rebuilt_block (stack s ! k)" for k by (simp add: nth nb)
  have av: "avail Ps s' k = avail Ps s k" for k by (simp only: avail_def new)
  have ne: "stack s' \<noteq> []" using inv by (simp add: hoist_inv_def s'_def)
  have last: "last (stack s') = update_mobility m (stack s ! ?n)"
    using ne by (simp add: last_conv_nth len nth cur_depth_def)
  show thesis
  proof (rule that)
    show "at_depth ?n (update_mobility m) s = (Inr (), s')" by (simp add: at_depth_def modifyE_def s'_def)
    show "hoist_inv Ps G V s'" using inv ne unfolding hoist_inv_def av new dd len by blast
    show "evolves {} s s'" unfolding evolves_def nth len dd using nb by simp
    show "tight Ps s'" if "tight Ps s"
      using that unfolding tight_def Let_def last cd av top(3) nb .
    show "mobility (last (stack s')) = IMMOVABLE" if "m = IMMOVABLE" using nb(5) [OF that] last by simp
  qed (simp_all add: cd av dd)
qed


section \<open>A block\<close>

definition hoist_ready :: "var set list \<Rightarrow> var set \<Rightarrow> var set \<Rightarrow> ir_op list \<Rightarrow> bool \<Rightarrow> hoist_state \<Rightarrow> bool" where
  "hoist_ready Ps G V ops lb s \<longleftrightarrow> scoped V ops \<and> distinct (defined_vars ops) \<and> set (defined_vars ops) \<inter> V = {} \<and>
     set (defined_vars ops) \<inter> G \<subseteq> (if cur_depth s = 0 then own_vars ops else {}) \<and> hoist_safe G lb ops \<and>
     hoist_inv Ps G V s \<and> (lb \<longrightarrow> is_loop_body (last (stack s))) \<and> (cur_depth s = 0 \<longrightarrow> \<not> lb)"

definition hoists :: "var set list \<Rightarrow> var set \<Rightarrow> var set \<Rightarrow> ir_op list \<Rightarrow> unit hoisting \<Rightarrow> hoist_state \<Rightarrow> bool" where
  "hoists Ps G V ops m s \<longleftrightarrow> (\<exists>s'. m s = (Inr (), s') \<and> hoist_inv Ps G (V \<union> own_vars ops) s' \<and>
     evolves (set (defined_vars ops)) s s' \<and> (has_effects ops \<longrightarrow> mobility (last (stack s')) = IMMOVABLE) \<and>
     (flat_block ops \<longrightarrow> \<not> has_effects ops \<longrightarrow> tight Ps s \<longrightarrow> tight Ps s'))"

lemma defined_vars_Cons: "set (defined_vars (op # ops)) = set (defined_vars [op]) \<union> set (defined_vars ops)"
  by (cases op) auto

lemma has_effects_Cons: "has_effects (op # ops) \<longleftrightarrow> has_effects [op] \<or> has_effects ops"
  by (cases op) auto

lemma own_defined: "set (result_vars op) \<subseteq> set (defined_vars [op])"
  by (cases op) auto

lemma distinct_defined_Cons:
  "distinct (defined_vars (op # ops)) \<Longrightarrow> distinct (defined_vars ops) \<and> set (result_vars op) \<inter> set (defined_vars ops) = {}"
  by (cases op) auto

lemma hoist_safe_Cons: "hoist_safe G lb (op # ops) \<Longrightarrow> hoist_safe G lb ops"
  by (cases op) auto

lemma evolves_last:
  assumes "evolves D s s'" and "stack s \<noteq> []"
  shows "cur_depth s' = cur_depth s" and "is_loop_body (last (stack s')) = is_loop_body (last (stack s))"
    and "mobility (last (stack s)) = IMMOVABLE \<Longrightarrow> mobility (last (stack s')) = IMMOVABLE"
proof -
  have len: "length (stack s') = length (stack s)" using assms(1) by (simp add: evolves_def)
  with assms(2) have ne: "stack s' \<noteq> []" by force
  have top: "length (stack s) - 1 < length (stack s)" using assms(2) by simp
  note at = assms(1) [unfolded evolves_def, THEN conjunct2, THEN conjunct1, THEN spec, THEN mp, OF top]
  show "cur_depth s' = cur_depth s" by (simp add: cur_depth_def len)
  show "is_loop_body (last (stack s')) = is_loop_body (last (stack s))"
    using at unfolding last_conv_nth [OF ne] last_conv_nth [OF assms(2)] len by simp
  show "mobility (last (stack s)) = IMMOVABLE \<Longrightarrow> mobility (last (stack s')) = IMMOVABLE"
    using at unfolding last_conv_nth [OF ne] last_conv_nth [OF assms(2)] len by simp
qed

text \<open>The rest of a block, after its first operation.\<close>

lemma hoists_rest:
  assumes ready: "hoist_ready Ps G V (op # ops) lb s" and run: "hoist_ops (op # ops) lb s = hoist_ops ops lb s1"
    and inv: "hoist_inv Ps G (V \<union> set (result_vars op)) s1" and ev: "evolves (set (defined_vars [op])) s s1"
    and eff: "has_effects [op] \<Longrightarrow> mobility (last (stack s1)) = IMMOVABLE"
    and tight: "nested_blocks op = [] \<Longrightarrow> \<not> has_effects [op] \<Longrightarrow> tight Ps s \<Longrightarrow> tight Ps s1"
    and IH: "hoist_ready Ps G (V \<union> set (result_vars op)) ops lb s1 \<Longrightarrow>
      hoists Ps G (V \<union> set (result_vars op)) ops (hoist_ops ops lb) s1"
  shows "hoists Ps G V (op # ops) (hoist_ops (op # ops) lb) s"
proof -
  have ne: "stack s \<noteq> []" "stack s1 \<noteq> []" using ready inv by (auto simp: hoist_ready_def hoist_inv_def)
  note last = evolves_last [OF ev ne(1)]
  have "hoist_ready Ps G (V \<union> set (result_vars op)) ops lb s1"
    unfolding hoist_ready_def
  proof (intro conjI)
    show "scoped (V \<union> set (result_vars op)) ops" using ready scoped_Cons [of V op ops] by (simp add: hoist_ready_def)
    have d: "distinct (defined_vars ops) \<and> set (result_vars op) \<inter> set (defined_vars ops) = {}"
      using ready by (intro distinct_defined_Cons) (simp add: hoist_ready_def)
    then show "distinct (defined_vars ops)" by simp
    show "set (defined_vars ops) \<inter> (V \<union> set (result_vars op)) = {}"
      using ready d defined_vars_Cons [of op ops] by (auto simp: hoist_ready_def)
    have "set (defined_vars ops) \<inter> G \<subseteq> (if cur_depth s = 0 then own_vars (op # ops) else {})"
      using ready defined_vars_Cons [of op ops] by (auto simp: hoist_ready_def)
    then show "set (defined_vars ops) \<inter> G \<subseteq> (if cur_depth s1 = 0 then own_vars ops else {})"
      using d by (auto simp: last(1) split: if_splits)
    show "hoist_safe G lb ops" using ready hoist_safe_Cons by (auto simp: hoist_ready_def)
    show "hoist_inv Ps G (V \<union> set (result_vars op)) s1" by (rule inv)
    show "lb \<longrightarrow> is_loop_body (last (stack s1))" "cur_depth s1 = 0 \<longrightarrow> \<not> lb"
      using ready last(1,2) by (auto simp: hoist_ready_def)
  qed
  from IH [OF this] obtain s' where s': "hoist_ops ops lb s1 = (Inr (), s')"
    "hoist_inv Ps G (V \<union> set (result_vars op) \<union> own_vars ops) s'" "evolves (set (defined_vars ops)) s1 s'"
    "has_effects ops \<longrightarrow> mobility (last (stack s')) = IMMOVABLE"
    "flat_block ops \<longrightarrow> \<not> has_effects ops \<longrightarrow> tight Ps s1 \<longrightarrow> tight Ps s'"
    unfolding hoists_def by blast
  show ?thesis
    unfolding hoists_def
  proof (intro exI [of _ s'] conjI impI)
    show "hoist_ops (op # ops) lb s = (Inr (), s')" by (simp add: run s'(1))
    show "hoist_inv Ps G (V \<union> own_vars (op # ops)) s'" using s'(2) by (simp add: Un_assoc)
    show "evolves (set (defined_vars (op # ops))) s s'"
      unfolding defined_vars_Cons [of op ops]
      by (rule evolves_trans) (rule evolves_mono [OF ev], simp, rule evolves_mono [OF s'(3)], simp)
    show "mobility (last (stack s')) = IMMOVABLE" if "has_effects (op # ops)"
      using that s'(4) eff evolves_last(3) [OF s'(3) ne(2)] has_effects_Cons [of op ops] by blast
    show "tight Ps s'" if "flat_block (op # ops)" "\<not> has_effects (op # ops)" "tight Ps s"
      using that s'(5) tight has_effects_Cons [of op ops] by auto
  qed
qed

text \<open>A simple operation with the information \<open>d\<close> about its dependencies.\<close>

lemma hoists_simple:
  assumes ready: "hoist_ready Ps G V (op # ops) lb s" and simple: "nested_blocks op = []"
    and ev: "evolves {} s s0" "hoist_inv Ps G V s0" "cur_depth s0 = cur_depth s" "def_depth s0 = def_depth s"
    and tight: "tight Ps s \<Longrightarrow> tight Ps s0"
    and eff: "has_effects [op] \<Longrightarrow> mobility (last (stack s0)) = IMMOVABLE \<and> must_stay d"
    and cnt: "\<not> has_effects [op] \<Longrightarrow> \<forall>v \<in> set (all_inputs op). \<forall>k. def_depth s v = Some k \<longrightarrow> counted (cur_depth s) k d"
    and bound: "max_outside_depth d \<le> cur_depth s"
    and run: "\<And>s1. place op d (cur_depth s) s0 = (Inr (), s1) \<Longrightarrow> hoist_ops (op # ops) lb s = hoist_ops ops lb s1"
    and IH: "\<And>V s. hoist_ready Ps G V ops lb s \<Longrightarrow> hoists Ps G V ops (hoist_ops ops lb) s"
  shows "hoists Ps G V (op # ops) (hoist_ops (op # ops) lb) s"
proof -
  have ins: "set (all_inputs op) \<subseteq> V"
    using ready scoped_Cons [of V op ops] scoped_simple [OF simple, of V] by (simp add: hoist_ready_def)
  have fresh: "set (result_vars op) \<inter> V = {}"
    and root: "set (result_vars op) \<inter> G = {} \<or> cur_depth s0 = 0"
    using ready own_defined [of op] defined_vars_Cons [of op ops]
    by (auto simp: hoist_ready_def ev(3) split: if_splits)
  have p: "placeable Ps s0 op d"
    by (rule simple_placeable [OF ev(2) simple ins]) (use eff cnt bound ev in auto)
  from place_ok [OF ev(2) p fresh root] obtain s1 where s1: "place op d (cur_depth s) s0 = (Inr (), s1)"
    "hoist_inv Ps G (V \<union> set (result_vars op)) s1" "evolves (set (result_vars op)) s0 s1"
    unfolding ev(3) by blast
  have ne: "stack s0 \<noteq> []" using ev(2) by (simp add: hoist_inv_def)
  show ?thesis
  proof (rule hoists_rest [OF ready run [OF s1(1)] s1(2) _ _ _ IH])
    show "evolves (set (defined_vars [op])) s s1"
      by (rule evolves_trans [OF evolves_mono [OF ev(1)] evolves_mono [OF s1(3) own_defined]]) simp
    show "mobility (last (stack s1)) = IMMOVABLE" if "has_effects [op]"
      using eff [OF that] evolves_last(3) [OF s1(3) ne] by blast
    show "tight Ps s1" if "\<not> has_effects [op]" "tight Ps s"
      by (rule place_tight [OF ev(2) simple ins _ _ tight]) (use cnt that s1(1) ev in auto)
  qed
qed

lemma scope_depth: "hoist_inv Ps G V s \<Longrightarrow> set vs \<subseteq> V \<Longrightarrow> \<forall>v \<in> set vs. def_depth s v \<noteq> None"
  using inv_available by fastforce


section \<open>Nested blocks\<close>

definition with_params :: "nat \<Rightarrow> var list \<Rightarrow> hoist_state \<Rightarrow> hoist_state" where
  "with_params d vs s = s\<lparr>def_depths := List.map (\<lambda>v. (v, d)) vs @ def_depths s\<rparr>"

lemma define_at_eq: "define_at d vs s = (Inr (), with_params d vs s)"
  by (simp add: define_at_def with_params_def modifyE_def)

lemma with_params_Nil [simp]: "with_params d [] s = s"
  by (simp add: with_params_def)

text \<open>What a hoisted nested block reads: everything around it, or what \<^verbatim>\<open>min_depth\<close> says.\<close>

definition nested_ok :: "var set list \<Rightarrow> var list \<Rightarrow> ir_op list \<Rightarrow> hoist_state \<Rightarrow> block_info \<Rightarrow> bool" where
  "nested_ok Ps ps body s b \<longleftrightarrow>
     scoped ((\<Union>j \<le> cur_depth s. avail Ps s j) \<union> set ps) (rebuilt_block b) \<and>
     (has_effects body \<longrightarrow> mobility b = IMMOVABLE) \<and>
     (flat_block body \<longrightarrow> \<not> has_effects body \<longrightarrow>
        scoped ((\<Union>j \<in> {j. j \<le> cur_depth s \<and> j \<le> min_depth b}. avail Ps s j) \<union> set ps) (rebuilt_block b))"

lemma nested_ok_evolves:
  assumes "nested_ok Ps ps body s b" and ev: "evolves D s t" and "stack s \<noteq> []"
  shows "nested_ok Ps ps body t b"
proof -
  have cd: "cur_depth t = cur_depth s" by (rule evolves_last [OF ev assms(3)])
  have av: "avail Ps s j \<subseteq> avail Ps t j" if "j \<le> cur_depth s" for j
  proof (rule evolves_avail [OF ev])
    have "0 < length (stack s)" using assms(3) by simp
    then show "j < length (stack s)" using that unfolding cur_depth_def by linarith
  qed
  have 1: "scoped ((\<Union>j \<in> J. avail Ps s j) \<union> A) ops \<Longrightarrow> scoped ((\<Union>j \<in> J. avail Ps t j) \<union> A) ops"
    if "J \<subseteq> {..cur_depth s}" for J A ops
    by (erule scoped_mono, intro Un_mono UN_mono) (use that av in auto)
  show ?thesis
    using assms(1) unfolding nested_ok_def cd by (intro conjI impI 1) auto
qed

lemma in_block_ok:
  assumes inv: "hoist_inv Ps G V s" and sc: "scoped (V \<union> set ps) body" and dist: "distinct (ps @ defined_vars body)"
    and fresh: "set (ps @ defined_vars body) \<inter> (V \<union> G) = {}" and safe: "hoist_safe G b body"
    and IH: "\<And>Ps V s. hoist_ready Ps G V body b s \<Longrightarrow> hoists Ps G V body (hoist_ops body b) s"
  obtains res s2 where "in_block b (hoist_ops body b) (with_params (cur_depth s + 1) ps s) = (Inr res, s2)"
    and "hoist_inv Ps G V s2" and "evolves (set (ps @ defined_vars body)) s s2" and "nested_ok Ps ps body s2 res"
proof -
  let ?n = "cur_depth s"
  define s1 where "s1 = (with_params (?n + 1) ps s)\<lparr>stack := stack s @ [new_block_info b]\<rparr>"
  note top = inv_top [OF inv]
  have len: "length (stack s) = ?n + 1" using top(1) by (simp add: cur_depth_def)
  have st1: "stack s1 = stack s @ [new_block_info b]" by (simp add: s1_def)
  have dd1: "def_depth s1 v = (if v \<in> set ps then Some (?n + 1) else def_depth s v)" for v
    by (simp add: s1_def with_params_def)
  have nth1: "stack s1 ! k = (if k \<le> ?n then stack s ! k else new_block_info b)" "(Ps @ [set ps]) ! k = (if k \<le> ?n then Ps ! k else set ps)"
    if "k \<le> ?n + 1" for k
    using that len top(2) by (auto simp: st1 nth_append)
  have av1: "avail (Ps @ [set ps]) s1 k = (if k \<le> ?n then avail Ps s k else set ps)" if "k \<le> ?n + 1" for k
    using that by (simp add: avail_def nth1 new_block_info_def)
  have inv1: "hoist_inv (Ps @ [set ps]) G (V \<union> set ps) s1"
    unfolding hoist_inv_def
  proof (intro conjI ballI allI impI)
    show "stack s1 \<noteq> []" "length (Ps @ [set ps]) = length (stack s1)" using top(2) by (simp_all add: st1)
  next
    fix v assume "v \<in> V \<union> set ps"
    then consider "v \<in> set ps" | "v \<in> V" "v \<notin> set ps" by blast
    then show "\<exists>k < length (Ps @ [set ps]). def_depth s1 v = Some k \<and> v \<in> avail (Ps @ [set ps]) s1 k"
    proof cases
      case 1
      then show ?thesis using top(2) len av1 [of "?n + 1"] by (intro exI [of _ "?n + 1"]) (simp add: dd1)
    next
      case 2
      from inv_available [OF inv 2(1)] obtain k where "k \<le> ?n" "def_depth s v = Some k" "v \<in> avail Ps s k" by blast
      then show ?thesis using 2(2) top(2) len av1 [of k] by (intro exI [of _ k]) (simp add: dd1)
    qed
  next
    fix v assume "v \<in> (V \<union> set ps) \<inter> G"
    then show "def_depth s1 v = Some 0" using inv fresh by (auto simp: dd1 hoist_inv_def)
  next
    fix k assume "k < length (Ps @ [set ps])"
    then have k: "k \<le> ?n + 1" using top(2) len by simp
    have "(\<Union>j < k. avail (Ps @ [set ps]) s1 j) = (\<Union>j < k. avail Ps s j)" using k av1 by auto
    then show "scoped ((\<Union>j < k. avail (Ps @ [set ps]) s1 j) \<union> (Ps @ [set ps]) ! k) (rebuilt_block (stack s1 ! k))"
      using inv k len top(2) by (auto simp: nth1 new_block_info_def hoist_inv_def)
  qed
  have cd1: "cur_depth s1 = ?n + 1" using len by (simp add: cur_depth_def st1)
  have "hoist_ready (Ps @ [set ps]) G (V \<union> set ps) body b s1"
    using inv1 sc dist fresh safe unfolding hoist_ready_def cd1 by (auto simp: st1 new_block_info_def)
  from IH [OF this] obtain s3 where s3: "hoist_ops body b s1 = (Inr (), s3)"
    "hoist_inv (Ps @ [set ps]) G (V \<union> set ps \<union> own_vars body) s3" "evolves (set (defined_vars body)) s1 s3"
    "has_effects body \<longrightarrow> mobility (last (stack s3)) = IMMOVABLE"
    "flat_block body \<longrightarrow> \<not> has_effects body \<longrightarrow> tight (Ps @ [set ps]) s1 \<longrightarrow> tight (Ps @ [set ps]) s3"
    unfolding hoists_def by blast
  define s2 where "s2 = s3\<lparr>stack := butlast (stack s3)\<rparr>"
  have len3: "length (stack s3) = ?n + 2" using s3(3) len by (simp add: evolves_def st1)
  have len2: "length (stack s2) = ?n + 1" by (simp add: s2_def len3)
  have nth2: "stack s2 ! k = stack s3 ! k" if "k \<le> ?n" for k
    using that len3 by (simp add: s2_def nth_butlast)
  have last3: "last (stack s3) = stack s3 ! (?n + 1)" using len3 by (subst last_conv_nth) auto
  have cd: "cur_depth s2 = ?n" "cur_depth s3 = ?n + 1" by (simp_all add: cur_depth_def len2 len3)
  have av2: "avail (Ps @ [set ps]) s3 k = avail Ps s2 k" if "k \<le> ?n" for k
    using that by (simp add: avail_def nth1 nth2)
  have ev: "evolves (set (ps @ defined_vars body)) s s2"
    unfolding evolves_def
  proof (intro conjI allI impI)
    show "length (stack s2) = length (stack s)" using len len2 by simp
    fix k assume "k < length (stack s)"
    then have "k \<le> ?n" "k < length (stack s1)" using len by (simp_all add: st1)
    then show "is_loop_body (stack s2 ! k) = is_loop_body (stack s ! k)"
      "own_vars (rebuilt_block (stack s ! k)) \<subseteq> own_vars (rebuilt_block (stack s2 ! k))"
      "mobility (stack s ! k) = IMMOVABLE \<Longrightarrow> mobility (stack s2 ! k) = IMMOVABLE"
      using s3(3) [unfolded evolves_def, THEN conjunct2, THEN conjunct1, THEN spec, of k] by (simp_all add: nth1 nth2)
  next
    fix v assume "v \<notin> set (ps @ defined_vars body)"
    then show "def_depth s2 v = def_depth s v" using s3(3) dd1 by (simp add: evolves_def s2_def)
  qed
  have "scoped ((\<Union>j < ?n + 1. avail (Ps @ [set ps]) s3 j) \<union> set ps) (rebuilt_block (last (stack s3)))"
    using s3(2) nth1(2) [of "?n + 1"] top(2) len unfolding hoist_inv_def last3 by auto
  moreover have "(\<Union>j < ?n + 1. avail (Ps @ [set ps]) s3 j) = (\<Union>j \<le> ?n. avail Ps s2 j)"
    using av2 by (auto simp: less_Suc_eq_le)
  moreover have "scoped ((\<Union>j \<in> {j. j \<le> ?n \<and> j \<le> min_depth (last (stack s3))}. avail Ps s2 j) \<union> set ps) (rebuilt_block (last (stack s3)))"
    if "flat_block body" "\<not> has_effects body"
  proof -
    have "tight (Ps @ [set ps]) s1" by (simp add: tight_def Let_def st1 new_block_info_def)
    with that s3(5) have "tight (Ps @ [set ps]) s3" by blast
    moreover have "(\<Union>j \<in> {j. j < ?n + 1 \<and> j \<le> min_depth (last (stack s3))}. avail (Ps @ [set ps]) s3 j)
        = (\<Union>j \<in> {j. j \<le> ?n \<and> j \<le> min_depth (last (stack s3))}. avail Ps s2 j)"
      using av2 by (auto simp: less_Suc_eq_le)
    ultimately show ?thesis using nth1(2) [of "?n + 1"] by (simp add: tight_def Let_def cd)
  qed
  ultimately have nok: "nested_ok Ps ps body s2 (last (stack s3))"
    using s3(4) by (simp add: nested_ok_def cd)
  have inv2: "hoist_inv Ps G V s2"
    unfolding hoist_inv_def
  proof (intro conjI ballI allI impI)
    show "stack s2 \<noteq> []" using len2 by auto
    show "length Ps = length (stack s2)" using len len2 top(2) by simp
  next
    fix v assume v: "v \<in> V"
    then have dv: "def_depth s2 v = def_depth s v" using ev fresh by (auto simp: evolves_def)
    from inv_available [OF inv v] obtain k where k: "k \<le> ?n" "def_depth s v = Some k" "v \<in> avail Ps s k" by blast
    then have "v \<in> avail Ps s2 k" using evolves_avail [OF ev, of k] len by auto
    then show "\<exists>k < length Ps. def_depth s2 v = Some k \<and> v \<in> avail Ps s2 k" using k dv top(2) len by auto
  next
    fix v assume v: "v \<in> V \<inter> G"
    then have "def_depth s2 v = def_depth s v" using ev fresh by (auto simp: evolves_def)
    then show "def_depth s2 v = Some 0" using inv v by (simp add: hoist_inv_def)
  next
    fix k assume "k < length Ps"
    then have k: "k \<le> ?n" using top(2) len by simp
    have "(\<Union>j < k. avail (Ps @ [set ps]) s3 j) = (\<Union>j < k. avail Ps s2 j)" using k av2 by auto
    moreover have "scoped ((\<Union>j < k. avail (Ps @ [set ps]) s3 j) \<union> (Ps @ [set ps]) ! k) (rebuilt_block (stack s3 ! k))"
      using s3(2) k top(2) len unfolding hoist_inv_def by auto
    ultimately show "scoped ((\<Union>j < k. avail Ps s2 j) \<union> Ps ! k) (rebuilt_block (stack s2 ! k))"
      using k by (simp add: nth1 nth2)
  qed
  have "in_block b (hoist_ops body b) (with_params (?n + 1) ps s) = (Inr (last (stack s3)), s2)"
    using s3(1) by (simp add: in_block_def push_block_def bindE_modify with_params_def s1_def pop_block_def s2_def)
  from that [OF this inv2 ev nok] show thesis .
qed


text \<open>An operation with nested blocks that has gone through them.\<close>

lemma hoists_nested:
  assumes ready: "hoist_ready Ps G V (op # ops) lb s" and nested: "nested_blocks op \<noteq> []"
    and inv: "hoist_inv Ps G V s1" and ev: "evolves (set (defined_vars [op])) s s1"
    and eff: "has_effects [op] \<Longrightarrow> mobility (last (stack s1)) = IMMOVABLE"
    and same: "result_vars op' = result_vars op" and p: "placeable Ps s1 op' d"
    and run: "\<And>s2. place op' d (cur_depth s) s1 = (Inr (), s2) \<Longrightarrow> hoist_ops (op # ops) lb s = hoist_ops ops lb s2"
    and IH: "\<And>V s. hoist_ready Ps G V ops lb s \<Longrightarrow> hoists Ps G V ops (hoist_ops ops lb) s"
  shows "hoists Ps G V (op # ops) (hoist_ops (op # ops) lb) s"
proof -
  have ne: "stack s \<noteq> []" "stack s1 \<noteq> []" using ready inv by (auto simp: hoist_ready_def hoist_inv_def)
  have cd: "cur_depth s1 = cur_depth s" by (rule evolves_last [OF ev ne(1)])
  have fresh: "set (result_vars op') \<inter> V = {}"
    and root: "set (result_vars op') \<inter> G = {} \<or> cur_depth s1 = 0"
    using ready own_defined [of op] defined_vars_Cons [of op ops]
    by (auto simp: hoist_ready_def cd same split: if_splits)
  from place_ok [OF inv p fresh root] obtain s2 where s2: "place op' d (cur_depth s) s1 = (Inr (), s2)"
    "hoist_inv Ps G (V \<union> set (result_vars op)) s2" "evolves (set (result_vars op)) s1 s2"
    unfolding same cd by blast
  show ?thesis
  proof (rule hoists_rest [OF ready run [OF s2(1)] s2(2) _ _ _ IH])
    show "evolves (set (defined_vars [op])) s s2"
      by (rule evolves_trans [OF ev evolves_mono [OF s2(3) own_defined]])
    show "mobility (last (stack s2)) = IMMOVABLE" if "has_effects [op]"
      using eff [OF that] evolves_last(3) [OF s2(3) ne(2)] by blast
  qed (use nested in simp_all)
qed

text \<open>\<^verbatim>\<open>Loop\<close>, \<^verbatim>\<open>TileReduce\<close> and \<^verbatim>\<open>TileScan\<close>: one nested block, which is a loop body.\<close>

lemma body_placeable:
  assumes inv: "hoist_inv Ps G V s" and nok: "nested_ok Ps ps body s res"
    and head: "set ins \<union> set rng \<subseteq> V"
    and op: "\<And>W. scoped W [op] \<longleftrightarrow> set ins \<union> set rng \<subseteq> W \<and> scoped (W \<union> set ps) (rebuilt_block res)"
    and safe: "lb \<longrightarrow> has_effects body \<or> flat_block body \<and> set rng \<subseteq> G"
    and d: "info_le (new_dependency_info (\<not> lb \<or> mobility res = IMMOVABLE)) d" "max_outside_depth d \<le> cur_depth s"
      "\<forall>v \<in> set ins. \<forall>k. def_depth s v = Some k \<longrightarrow> counted (cur_depth s) k d"
      "counted (cur_depth s) (min_depth res) d"
  shows "placeable Ps s op d"
proof (cases "must_stay d")
  case True
  then show ?thesis
    using nok head inv_scope [OF inv] d(2) by (auto simp: placeable_def op nested_ok_def)
next
  case False
  let ?W = "\<Union>j \<le> max_outside_depth d. avail Ps s j"
  from False d(1) have lb: "lb" "mobility res \<noteq> IMMOVABLE" by (auto simp: info_le_def new_dependency_info_def)
  with safe nok have flat: "flat_block body" "\<not> has_effects body" "set rng \<subseteq> G" by (auto simp: nested_ok_def)
  have "set ins \<subseteq> ?W"
    using head d(3) False by (auto simp del: UN_iff intro!: counted_scope [OF inv])
  moreover have "set rng \<subseteq> ?W"
  proof
    fix v assume v: "v \<in> set rng"
    with flat head inv have "def_depth s v = Some 0" by (auto simp: hoist_inv_def)
    moreover from v head inv_available [OF inv, of v] obtain k where "def_depth s v = Some k" "v \<in> avail Ps s k" by auto
    ultimately show "v \<in> ?W" by auto
  qed
  moreover have "scoped (?W \<union> set ps) (rebuilt_block res)"
  proof (rule scoped_mono)
    show "scoped ((\<Union>j \<in> {j. j \<le> cur_depth s \<and> j \<le> min_depth res}. avail Ps s j) \<union> set ps) (rebuilt_block res)"
      using nok flat by (simp add: nested_ok_def)
    have "min_depth res \<le> max_outside_depth d" using d(4) False by (auto simp: counted_def split: if_splits)
    then show "(\<Union>j \<in> {j. j \<le> cur_depth s \<and> j \<le> min_depth res}. avail Ps s j) \<union> set ps \<subseteq> ?W \<union> set ps"
      by (intro Un_mono UN_mono) auto
  qed
  ultimately show ?thesis using False d(2) by (simp add: placeable_def op)
qed


lemma update_by_branch_le: "info_le d (update_by_branch b n d)"
  using update_dependency_le [of d "min_depth b" n] by (auto simp: update_by_branch_def Let_def info_le_def)

lemma update_by_branch_counted: "counted n (min_depth b) (update_by_branch b n d)"
  using update_dependency_counted [of n "min_depth b" d] by (auto simp: update_by_branch_def Let_def counted_def)

lemma update_by_branch_bound: "max_outside_depth d \<le> n \<Longrightarrow> max_outside_depth (update_by_branch b n d) \<le> n"
  using update_dependency_bound [of d n "min_depth b"] by (auto simp: update_by_branch_def Let_def)

lemma update_by_branch_stay: "mobility b \<noteq> CAN_MOVE \<Longrightarrow> must_stay (update_by_branch b n d)"
  by (simp add: update_by_branch_def Let_def)

text \<open>What stands below the depth that was counted.\<close>

lemma nested_ok_below:
  assumes "nested_ok Ps [] body s b" and "flat_block body" and "\<not> has_effects body"
    and "counted (cur_depth s) (min_depth b) d" and "\<not> must_stay d"
  shows "scoped (\<Union>j \<le> max_outside_depth d. avail Ps s j) (rebuilt_block b)"
proof (rule scoped_mono)
  show "scoped ((\<Union>j \<in> {j. j \<le> cur_depth s \<and> j \<le> min_depth b}. avail Ps s j) \<union> set []) (rebuilt_block b)"
    using assms(1-3) by (simp add: nested_ok_def)
  have "min_depth b \<le> max_outside_depth d" using assms(4,5) by (auto simp: counted_def split: if_splits)
  then show "(\<Union>j \<in> {j. j \<le> cur_depth s \<and> j \<le> min_depth b}. avail Ps s j) \<union> set [] \<subseteq> (\<Union>j \<le> max_outside_depth d. avail Ps s j)"
    by (simp, intro UN_mono) auto
qed

section \<open>All operations\<close>

lemma maybe_mobility_ok:
  assumes inv: "hoist_inv Ps G V s"
  obtains s' where "(if c then at_depth (cur_depth s) (update_mobility m) else skipE) s = (Inr (), s')" and "hoist_inv Ps G V s'"
    and "evolves {} s s'" and "cur_depth s' = cur_depth s" and "def_depth s' = def_depth s"
    and "c \<Longrightarrow> m = IMMOVABLE \<Longrightarrow> mobility (last (stack s')) = IMMOVABLE"
proof (cases c)
  case True
  from mobility_ok [OF inv, of m] obtain s' where s': "at_depth (cur_depth s) (update_mobility m) s = (Inr (), s')"
    "hoist_inv Ps G V s'" "evolves {} s s'" "cur_depth s' = cur_depth s" "def_depth s' = def_depth s"
    "m = IMMOVABLE \<Longrightarrow> mobility (last (stack s')) = IMMOVABLE" by metis
  show thesis by (rule that [of s']) (use s' True in simp_all)
next
  case False
  show thesis by (rule that [of s]) (use False inv in \<open>simp_all add: skipE_def retE_def\<close>)
qed

text \<open>A nested block, and what it says about the mobility of the block around it.\<close>

lemma block_ok:
  assumes inv: "hoist_inv Ps G V s" and sc: "scoped (V \<union> set ps) body" and dist: "distinct (ps @ defined_vars body)"
    and fresh: "set (ps @ defined_vars body) \<inter> (V \<union> G) = {}" and safe: "hoist_safe G b body"
    and IH: "\<And>Ps V s. hoist_ready Ps G V body b s \<Longrightarrow> hoists Ps G V body (hoist_ops body b) s"
    and c: "\<And>r. mobility r = IMMOVABLE \<Longrightarrow> c r"
  obtains res s1 s2 where "in_block b (hoist_ops body b) (with_params (cur_depth s + 1) ps s) = (Inr res, s1)"
    and "(if c res then at_depth (cur_depth s) (update_mobility (mobility res)) else skipE) s1 = (Inr (), s2)"
    and "hoist_inv Ps G V s2" and "evolves (set (ps @ defined_vars body)) s s2" and "nested_ok Ps ps body s2 res"
    and "has_effects body \<Longrightarrow> mobility (last (stack s2)) = IMMOVABLE"
proof -
  from in_block_ok [OF inv sc dist fresh safe IH] obtain res s1
    where s1: "in_block b (hoist_ops body b) (with_params (cur_depth s + 1) ps s) = (Inr res, s1)" "hoist_inv Ps G V s1"
      "evolves (set (ps @ defined_vars body)) s s1" "nested_ok Ps ps body s1 res" by metis
  have ne: "stack s \<noteq> []" "stack s1 \<noteq> []" using inv s1(2) by (auto simp: hoist_inv_def)
  have cd: "cur_depth s1 = cur_depth s" by (rule evolves_last [OF s1(3) ne(1)])
  from maybe_mobility_ok [OF s1(2), of "c res" "mobility res"] obtain s2
    where s2: "(if c res then at_depth (cur_depth s) (update_mobility (mobility res)) else skipE) s1 = (Inr (), s2)"
      "hoist_inv Ps G V s2" "evolves {} s1 s2" "c res \<Longrightarrow> mobility res = IMMOVABLE \<Longrightarrow> mobility (last (stack s2)) = IMMOVABLE"
    unfolding cd by metis
  show thesis
  proof (rule that [OF s1(1) s2(1,2)])
    show "evolves (set (ps @ defined_vars body)) s s2"
      by (rule evolves_trans [OF s1(3) evolves_mono [OF s2(3)]]) simp
    show "nested_ok Ps ps body s2 res" by (rule nested_ok_evolves [OF s1(4) s2(3) ne(2)])
    show "mobility (last (stack s2)) = IMMOVABLE" if "has_effects body"
      using that s1(4) s2(4) c by (auto simp: nested_ok_def)
  qed
qed

lemma ready_nested:
  assumes "hoist_ready Ps G V (op # ops) lb s"
  shows "hoist_inv Ps G V s" and "scoped V [op]"
  using assms scoped_Cons [of V op ops] by (auto simp: hoist_ready_def)

lemma fresh_nested:
  assumes ready: "hoist_ready Ps G V (op # ops) lb s" and X: "X \<subseteq> set (defined_vars [op])"
    "X \<inter> set (result_vars op) = {}" "X \<inter> set (defined_vars ops) = {}"
  shows "X \<inter> (V \<union> G) = {}"
proof -
  have "X \<inter> own_vars (op # ops) = {}" using X own_vars_defined [of ops] by auto
  then show ?thesis
    using ready X(1) defined_vars_Cons [of op ops] by (auto simp: hoist_ready_def split: if_splits)
qed

lemma hoist_ops_ok: "hoist_ready Ps G V ops lb s \<Longrightarrow> hoists Ps G V ops (hoist_ops ops lb) s"
proof (induction ops arbitrary: Ps V lb s rule: traverse_induct)
  case Nil
  then show ?case by (auto simp: hoists_def hoist_ready_def skipE_def retE_def)
next
  case (Operation c rs xs ops)
  note inv = ready_nested(1) [OF Operation.prems]
  have xs: "\<forall>v \<in> set xs. def_depth s v \<noteq> None"
    using scope_depth [OF inv, of xs] Operation.prems by (simp add: hoist_ready_def)
  show ?case
  proof (cases "has_observable_effect c")
    case True
    from mobility_ok [OF inv, of IMMOVABLE] obtain s0 where s0: "at_depth (cur_depth s) (update_mobility IMMOVABLE) s = (Inr (), s0)"
      "hoist_inv Ps G V s0" "evolves {} s s0" "cur_depth s0 = cur_depth s" "tight Ps s \<Longrightarrow> tight Ps s0" "def_depth s0 = def_depth s"
      "mobility (last (stack s0)) = IMMOVABLE" by metis
    show ?thesis
      by (rule hoists_simple [OF Operation.prems _ s0(3,2,4,6) s0(5) _ _ _ _ Operation.IH, where d = "new_dependency_info True"])
        (use True s0(1,7) in \<open>simp_all add: bindE_get new_dependency_info_def\<close>)
  next
    case False
    from update_by_vars_ok [OF xs, of "new_dependency_info (\<not> lb)" "cur_depth s"] obtain d
      where d: "update_by_vars xs (cur_depth s) (new_dependency_info (\<not> lb)) s = (Inr d, s)" "max_outside_depth d \<le> cur_depth s"
        "\<forall>v \<in> set xs. \<forall>k. def_depth s v = Some k \<longrightarrow> counted (cur_depth s) k d"
      by (auto simp: new_dependency_info_def)
    show ?thesis
      by (rule hoists_simple [OF Operation.prems _ evolves_refl inv refl refl _ _ _ _ _ Operation.IH, where d = d])
        (use False d in \<open>simp_all add: bindE_get\<close>)
  qed
next
  case (Continue vs ops)
  note inv = ready_nested(1) [OF Continue.prems]
  from mobility_ok [OF inv, of CAN_MOVE_WITH_LOOP] obtain s0
    where s0: "at_depth (cur_depth s) (update_mobility CAN_MOVE_WITH_LOOP) s = (Inr (), s0)"
      "hoist_inv Ps G V s0" "evolves {} s s0" "cur_depth s0 = cur_depth s" "tight Ps s \<Longrightarrow> tight Ps s0" "def_depth s0 = def_depth s" by metis
  have vs: "\<forall>v \<in> set vs. def_depth s0 v \<noteq> None"
    using scope_depth [OF inv, of vs] Continue.prems by (simp add: hoist_ready_def s0(6))
  from update_by_vars_ok [OF vs, of "new_dependency_info True" "cur_depth s"] obtain d
    where d: "update_by_vars vs (cur_depth s) (new_dependency_info True) s0 = (Inr d, s0)" "max_outside_depth d \<le> cur_depth s"
      "\<forall>v \<in> set vs. \<forall>k. def_depth s0 v = Some k \<longrightarrow> counted (cur_depth s) k d"
    by (auto simp: new_dependency_info_def)
  show ?case
    by (rule hoists_simple [OF Continue.prems _ s0(3,2,4,6) s0(5) _ _ _ _ Continue.IH, where d = d])
      (use s0(1,6) d in \<open>simp_all add: bindE_get\<close>)
next
  case (Break vs ops)
  note inv = ready_nested(1) [OF Break.prems]
  from mobility_ok [OF inv, of CAN_MOVE_WITH_LOOP] obtain s0
    where s0: "at_depth (cur_depth s) (update_mobility CAN_MOVE_WITH_LOOP) s = (Inr (), s0)"
      "hoist_inv Ps G V s0" "evolves {} s s0" "cur_depth s0 = cur_depth s" "tight Ps s \<Longrightarrow> tight Ps s0" "def_depth s0 = def_depth s" by metis
  have vs: "\<forall>v \<in> set vs. def_depth s0 v \<noteq> None"
    using scope_depth [OF inv, of vs] Break.prems by (simp add: hoist_ready_def s0(6))
  from update_by_vars_ok [OF vs, of "new_dependency_info True" "cur_depth s"] obtain d
    where d: "update_by_vars vs (cur_depth s) (new_dependency_info True) s0 = (Inr d, s0)" "max_outside_depth d \<le> cur_depth s"
      "\<forall>v \<in> set vs. \<forall>k. def_depth s0 v = Some k \<longrightarrow> counted (cur_depth s) k d"
    by (auto simp: new_dependency_info_def)
  show ?case
    by (rule hoists_simple [OF Break.prems _ s0(3,2,4,6) s0(5) _ _ _ _ Break.IH, where d = d])
      (use s0(1,6) d in \<open>simp_all add: bindE_get\<close>)
next
  case (EndBranch vs ops)
  note inv = ready_nested(1) [OF EndBranch.prems]
  have vs: "\<forall>v \<in> set vs. def_depth s v \<noteq> None"
    using scope_depth [OF inv, of vs] EndBranch.prems by (simp add: hoist_ready_def)
  from update_by_vars_ok [OF vs, of "new_dependency_info True" "cur_depth s"] obtain d
    where d: "update_by_vars vs (cur_depth s) (new_dependency_info True) s = (Inr d, s)" "max_outside_depth d \<le> cur_depth s"
      "\<forall>v \<in> set vs. \<forall>k. def_depth s v = Some k \<longrightarrow> counted (cur_depth s) k d"
    by (auto simp: new_dependency_info_def)
  show ?case
    by (rule hoists_simple [OF EndBranch.prems _ evolves_refl inv refl refl _ _ _ _ _ EndBranch.IH, where d = d])
      (use d in \<open>simp_all add: bindE_get\<close>)
next
  case (Loop i r init ps body rs ops)
  let ?op = "Loop i r init ps body rs"
  note inv = ready_nested(1) [OF Loop.prems]
  have wf: "scoped (V \<union> set ps) body" "distinct (ps @ defined_vars body)" "hoist_safe G True body"
    and ins: "set init \<union> set (range_vars r) \<subseteq> V"
    and safe: "lb \<longrightarrow> has_effects body \<or> flat_block body \<and> set (range_vars r) \<subseteq> G"
    using Loop.prems by (auto simp: hoist_ready_def)
  have fresh: "set (ps @ defined_vars body) \<inter> (V \<union> G) = {}"
    by (rule fresh_nested [OF Loop.prems]) (use Loop.prems in \<open>auto simp: hoist_ready_def\<close>)
  from block_ok [OF inv wf(1,2) fresh wf(3) Loop.IH(1), of "\<lambda>b. mobility b = IMMOVABLE"] obtain res s1 s2
    where b: "in_block True (hoist_ops body True) (with_params (cur_depth s + 1) ps s) = (Inr res, s1)"
      "(if mobility res = IMMOVABLE then at_depth (cur_depth s) (update_mobility (mobility res)) else skipE) s1 = (Inr (), s2)"
      "hoist_inv Ps G V s2" "evolves (set (ps @ defined_vars body)) s s2" "nested_ok Ps ps body s2 res"
      "has_effects body \<Longrightarrow> mobility (last (stack s2)) = IMMOVABLE" by metis
  have b2: "(if mobility res = IMMOVABLE then at_depth (cur_depth s) (update_mobility IMMOVABLE) else skipE) s1 = (Inr (), s2)"
    using b(2) by (simp split: if_splits)
  have ne: "stack s \<noteq> []" using inv by (simp add: hoist_inv_def)
  have cd: "cur_depth s2 = cur_depth s" by (rule evolves_last [OF b(4) ne])
  have known: "\<forall>v \<in> set init. def_depth s2 v \<noteq> None" using scope_depth [OF b(3), of init] ins by simp
  from update_by_vars_ok [OF known, of "new_dependency_info (\<not> lb \<or> mobility res = IMMOVABLE)" "cur_depth s"] obtain d
    where d: "update_by_vars init (cur_depth s) (new_dependency_info (\<not> lb \<or> mobility res = IMMOVABLE)) s2 = (Inr d, s2)"
      "info_le (new_dependency_info (\<not> lb \<or> mobility res = IMMOVABLE)) d" "max_outside_depth d \<le> cur_depth s"
      "\<forall>v \<in> set init. \<forall>k. def_depth s2 v = Some k \<longrightarrow> counted (cur_depth s) k d"
    by (auto simp: new_dependency_info_def)
  let ?d = "update_dependency (min_depth res) (cur_depth s) d"
  have p: "placeable Ps s2 (Loop i r init ps (rebuilt_block res) rs) ?d"
  proof (rule body_placeable [OF b(3,5) ins _ safe, unfolded cd])
    show "\<forall>v \<in> set init. \<forall>k. def_depth s2 v = Some k \<longrightarrow> counted (cur_depth s) k ?d"
      using d(4) counted_mono [OF _ update_dependency_le] by blast
  qed (use d update_dependency_counted update_dependency_bound info_le_trans [OF d(2) update_dependency_le] in auto)
  show ?case
  proof (rule hoists_nested [OF Loop.prems _ b(3) _ _ _ p _ Loop.IH(2)])
    show "evolves (set (defined_vars [?op])) s s2" by (rule evolves_mono [OF b(4)]) auto
    show "hoist_ops (?op # ops) lb s = hoist_ops ops lb s3"
      if "place (Loop i r init ps (rebuilt_block res) rs) ?d (cur_depth s) s2 = (Inr (), s3)" for s3
      using b(1) b2 d(1) that by (simp add: bindE_get define_at_eq Let_def)
  qed (use b(6) in auto)
next
  case (TileFold i k ids xs ps body rs ops)
  let ?op = "TileFold i k ids xs ps body rs"
  note inv = ready_nested(1) [OF TileFold.prems]
  have wf: "scoped (V \<union> set ps) body" "distinct (ps @ defined_vars body)" "hoist_safe G True body"
    and ins: "set xs \<union> set [] \<subseteq> V"
    and safe: "lb \<longrightarrow> has_effects body \<or> flat_block body \<and> set [] \<subseteq> G"
    using TileFold.prems by (auto simp: hoist_ready_def)
  have fresh: "set (ps @ defined_vars body) \<inter> (V \<union> G) = {}"
    by (rule fresh_nested [OF TileFold.prems]) (use TileFold.prems in \<open>auto simp: hoist_ready_def\<close>)
  from block_ok [OF inv wf(1,2) fresh wf(3) TileFold.IH(1), of "\<lambda>b. mobility b = IMMOVABLE"] obtain res s1 s2
    where b: "in_block True (hoist_ops body True) (with_params (cur_depth s + 1) ps s) = (Inr res, s1)"
      "(if mobility res = IMMOVABLE then at_depth (cur_depth s) (update_mobility (mobility res)) else skipE) s1 = (Inr (), s2)"
      "hoist_inv Ps G V s2" "evolves (set (ps @ defined_vars body)) s s2" "nested_ok Ps ps body s2 res"
      "has_effects body \<Longrightarrow> mobility (last (stack s2)) = IMMOVABLE" by metis
  have b2: "(if mobility res = IMMOVABLE then at_depth (cur_depth s) (update_mobility IMMOVABLE) else skipE) s1 = (Inr (), s2)"
    using b(2) by (simp split: if_splits)
  have ne: "stack s \<noteq> []" using inv by (simp add: hoist_inv_def)
  have cd: "cur_depth s2 = cur_depth s" by (rule evolves_last [OF b(4) ne])
  have known: "\<forall>v \<in> set xs. def_depth s2 v \<noteq> None" using scope_depth [OF b(3), of xs] ins by simp
  from update_by_vars_ok [OF known, of "new_dependency_info (\<not> lb \<or> mobility res = IMMOVABLE)" "cur_depth s"] obtain d
    where d: "update_by_vars xs (cur_depth s) (new_dependency_info (\<not> lb \<or> mobility res = IMMOVABLE)) s2 = (Inr d, s2)"
      "info_le (new_dependency_info (\<not> lb \<or> mobility res = IMMOVABLE)) d" "max_outside_depth d \<le> cur_depth s"
      "\<forall>v \<in> set xs. \<forall>k. def_depth s2 v = Some k \<longrightarrow> counted (cur_depth s) k d"
    by (auto simp: new_dependency_info_def)
  let ?d = "update_dependency (min_depth res) (cur_depth s) d"
  have p: "placeable Ps s2 (TileFold i k ids xs ps (rebuilt_block res) rs) ?d"
  proof (rule body_placeable [OF b(3,5) ins _ safe, unfolded cd])
    show "\<forall>v \<in> set xs. \<forall>k. def_depth s2 v = Some k \<longrightarrow> counted (cur_depth s) k ?d"
      using d(4) counted_mono [OF _ update_dependency_le] by blast
  qed (use d update_dependency_counted update_dependency_bound info_le_trans [OF d(2) update_dependency_le] in auto)
  show ?case
  proof (rule hoists_nested [OF TileFold.prems _ b(3) _ _ _ p _ TileFold.IH(2)])
    show "evolves (set (defined_vars [?op])) s s2" by (rule evolves_mono [OF b(4)]) auto
    show "hoist_ops (?op # ops) lb s = hoist_ops ops lb s3"
      if "place (TileFold i k ids xs ps (rebuilt_block res) rs) ?d (cur_depth s) s2 = (Inr (), s3)" for s3
      using b(1) b2 d(1) that by (simp add: bindE_get define_at_eq Let_def)
  qed (use b(6) in auto)
next
  case (IfElse i c T E rs ops)
  let ?op = "IfElse i c T E rs"
  note inv = ready_nested(1) [OF IfElse.prems]
  have ne: "stack s \<noteq> []" using inv by (simp add: hoist_inv_def)
  have wf: "scoped (V \<union> set []) T" "distinct ([] @ defined_vars T)" "hoist_safe G False T"
      "scoped (V \<union> set []) E" "distinct ([] @ defined_vars E)" "hoist_safe G False E"
    and c: "c \<in> V" and safe: "lb \<longrightarrow> has_effects T \<or> has_effects E \<or> flat_block T \<and> flat_block E"
    using IfElse.prems by (auto simp: hoist_ready_def)
  have fresh: "set ([] @ defined_vars T) \<inter> (V \<union> G) = {}" "set ([] @ defined_vars E) \<inter> (V \<union> G) = {}"
    by (rule fresh_nested [OF IfElse.prems]; use IfElse.prems in \<open>auto simp: hoist_ready_def\<close>)+
  have known: "\<forall>v \<in> set [c]. def_depth s v \<noteq> None" using scope_depth [OF inv, of "[c]"] c by simp
  from update_by_vars_ok [OF known, of "new_dependency_info (\<not> lb)" "cur_depth s"] obtain d
    where d: "update_by_vars [c] (cur_depth s) (new_dependency_info (\<not> lb)) s = (Inr d, s)"
      "info_le (new_dependency_info (\<not> lb)) d" "max_outside_depth d \<le> cur_depth s"
      "\<forall>k. def_depth s c = Some k \<longrightarrow> counted (cur_depth s) k d"
    by (auto simp: new_dependency_info_def)
  from block_ok [OF inv wf(1,2) fresh(1) wf(3) IfElse.IH(1), of "\<lambda>b. mobility b \<noteq> CAN_MOVE"] obtain t s1 s2
    where t: "in_block False (hoist_ops T False) s = (Inr t, s1)"
      "(if mobility t \<noteq> CAN_MOVE then at_depth (cur_depth s) (update_mobility (mobility t)) else skipE) s1 = (Inr (), s2)"
      "hoist_inv Ps G V s2" "evolves (set ([] @ defined_vars T)) s s2" "nested_ok Ps [] T s2 t"
      "has_effects T \<Longrightarrow> mobility (last (stack s2)) = IMMOVABLE" unfolding with_params_Nil by (metis block_mobility.distinct(3))
  have ne2: "stack s2 \<noteq> []" using t(3) by (simp add: hoist_inv_def)
  have cd2: "cur_depth s2 = cur_depth s" by (rule evolves_last [OF t(4) ne])
  from block_ok [OF t(3) wf(4,5) fresh(2) wf(6) IfElse.IH(2), of "\<lambda>b. mobility b \<noteq> CAN_MOVE"] obtain e s3 s4
    where e: "in_block False (hoist_ops E False) s2 = (Inr e, s3)"
      "(if mobility e \<noteq> CAN_MOVE then at_depth (cur_depth s) (update_mobility (mobility e)) else skipE) s3 = (Inr (), s4)"
      "hoist_inv Ps G V s4" "evolves (set ([] @ defined_vars E)) s2 s4" "nested_ok Ps [] E s4 e"
      "has_effects E \<Longrightarrow> mobility (last (stack s4)) = IMMOVABLE" unfolding with_params_Nil cd2 by (metis block_mobility.distinct(3))
  have cd4: "cur_depth s4 = cur_depth s" using evolves_last(1) [OF e(4) ne2] cd2 by simp
  have t4: "nested_ok Ps [] T s4 t" by (rule nested_ok_evolves [OF t(5) e(4) ne2])
  have ev: "evolves (set (defined_vars [?op])) s s4"
    by (rule evolves_trans [OF evolves_mono [OF t(4)] evolves_mono [OF e(4)]]) auto
  have "c \<notin> set (defined_vars [?op])"
    using c IfElse.prems defined_vars_Cons [of ?op ops] by (auto simp: hoist_ready_def)
  then have dc: "def_depth s4 c = def_depth s c" using ev by (auto simp: evolves_def)
  let ?dt = "update_by_branch t (cur_depth s) d"
  let ?d = "update_by_branch e (cur_depth s) ?dt"
  have cnt: "counted (cur_depth s4) (min_depth t) ?d" "counted (cur_depth s4) (min_depth e) ?d"
    "\<forall>k. def_depth s4 c = Some k \<longrightarrow> counted (cur_depth s4) k ?d"
    using counted_mono [OF update_by_branch_counted update_by_branch_le] update_by_branch_counted
      counted_mono [OF _ info_le_trans [OF update_by_branch_le update_by_branch_le]] d(4) unfolding cd4 dc by blast+
  have bound: "max_outside_depth ?d \<le> cur_depth s4"
    unfolding cd4 by (intro update_by_branch_bound d(3))
  have p: "placeable Ps s4 (IfElse i c (rebuilt_block t) (rebuilt_block e) rs) ?d"
  proof (cases "must_stay ?d")
    case True
    then show ?thesis using t4 e(5) c inv_scope [OF e(3)] bound by (auto simp: placeable_def nested_ok_def)
  next
    case False
    then have "lb" using d(2) info_le_trans [OF update_by_branch_le update_by_branch_le]
      by (auto simp: info_le_def new_dependency_info_def)
    moreover have "mobility e = CAN_MOVE" "mobility t = CAN_MOVE"
      using False update_by_branch_stay update_by_branch_le unfolding info_le_def by blast+
    then have eff: "\<not> has_effects T" "\<not> has_effects E" using t4 e(5) by (auto simp: nested_ok_def)
    ultimately have flat: "flat_block T" "flat_block E" using safe by auto
    have "c \<in> (\<Union>j \<le> max_outside_depth ?d. avail Ps s4 j)"
      by (rule counted_scope [OF e(3) c cnt(3) False])
    then show ?thesis
      using False bound nested_ok_below [OF t4 flat(1) eff(1) cnt(1) False] nested_ok_below [OF e(5) flat(2) eff(2) cnt(2) False]
      by (simp add: placeable_def)
  qed
  show ?case
  proof (rule hoists_nested [OF IfElse.prems _ e(3) ev _ _ p _ IfElse.IH(3)])
    show "mobility (last (stack s4)) = IMMOVABLE" if "has_effects [?op]"
      using that t(6) e(6) evolves_last(3) [OF e(4) ne2] by auto
    show "hoist_ops (?op # ops) lb s = hoist_ops ops lb s5"
      if "place (IfElse i c (rebuilt_block t) (rebuilt_block e) rs) ?d (cur_depth s) s4 = (Inr (), s5)" for s5
      using d(1) t(1,2) e(1,2) that by (simp add: bindE_get del: update_by_vars.simps)
  qed auto
qed


lemma hoist_scoped:
  assumes "scoped (set params) root" and "distinct (params @ defined_vars root)"
    and "hoist_safe (set params \<union> own_vars root) False root"
  shows "\<exists>root'. hoist_loop_invariants params root = Inr root' \<and> scoped (set params) root'"
proof -
  let ?s = "\<lparr>stack = [new_block_info False], def_depths = List.map (\<lambda>v. (v, 0)) params\<rparr>"
  let ?G = "set params \<union> own_vars root"
  have "hoist_inv [set params] ?G (set params) ?s"
    by (auto simp: hoist_inv_def avail_def new_block_info_def)
  then have "hoist_ready [set params] ?G (set params) root False ?s"
    using assms by (auto simp: hoist_ready_def cur_depth_def)
  from hoist_ops_ok [OF this] obtain s' where s': "hoist_ops root False ?s = (Inr (), s')"
    "hoist_inv [set params] ?G (set params \<union> own_vars root) s'" unfolding hoists_def by blast
  have "length (stack s') = 1" using s'(2) by (simp add: hoist_inv_def)
  then have "last (stack s') = stack s' ! 0" by (cases "stack s'") auto
  moreover have "scoped (set params) (rebuilt_block (stack s' ! 0))" using s'(2) by (auto simp: hoist_inv_def)
  ultimately show ?thesis
    using s'(1) by (simp add: hoist_loop_invariants_def in_block_def push_block_def bindE_modify pop_block_def)
qed

end
