(* ===== verification/CodeMotionKeep.thy ===== *)
theory CodeMotionKeep
  imports CodeMotionScope "HOL-Library.Multiset"
begin

text \<open>
  Hoisting neither loses nor copies an operation, and leaves observable operations where they are.

  \<^item> \<open>op_count\<close>: all operations of a program, nested ones included, without their nested blocks;
  \<^item> \<open>skeleton\<close>: the observable operations of a program in their blocks, everything else dropped;
  \<^item> \<open>keeps ops s s'\<close>: \<open>s'\<close> has the operations of \<open>s\<close> and those of \<open>ops\<close>, and on top of the stack the
    skeleton has grown by the skeleton of \<open>ops\<close>.
\<close>

section \<open>Measures of a program\<close>

fun shape :: "ir_op \<Rightarrow> ir_op" where
  "shape (Loop i r init ps body rs) = Loop i r init ps [] rs"
| "shape (IfElse i c T E rs) = IfElse i c [] [] rs"
| "shape (TileFold i k ids xs ps body rs) = TileFold i k ids xs ps [] rs"
| "shape op = op"

definition op_count :: "ir_op list \<Rightarrow> ir_op multiset" where
  "op_count ops = mset (List.map shape (traverse ops))"

fun skeleton :: "ir_op list \<Rightarrow> ir_op list" where
  "skeleton [] = []"
| "skeleton (Operation c rs xs # ops) =
     (if has_observable_effect c then Operation c rs xs # skeleton ops else skeleton ops)"
| "skeleton (Loop i r init ps body rs # ops) =
     (if skeleton body = [] then skeleton ops else Loop i r init ps (skeleton body) rs # skeleton ops)"
| "skeleton (IfElse i c T E rs # ops) =
     (if skeleton T = [] \<and> skeleton E = [] then skeleton ops else IfElse i c (skeleton T) (skeleton E) rs # skeleton ops)"
| "skeleton (TileFold i k ids xs ps body rs # ops) =
     (if skeleton body = [] then skeleton ops else TileFold i k ids xs ps (skeleton body) rs # skeleton ops)"
| "skeleton (_ # ops) = skeleton ops"

lemma skeleton_effects: "skeleton ops \<noteq> [] \<longleftrightarrow> has_effects ops"
  by (induction ops rule: traverse_induct) auto

lemma skeleton_append: "skeleton (xs @ ys) = skeleton xs @ skeleton ys"
  by (induction xs rule: traverse_induct) auto

lemma traverse_Cons: "traverse (op # ops) = traverse [op] @ traverse ops"
  by (cases op) auto

lemma op_count_Cons: "op_count (op # ops) = op_count [op] + op_count ops"
  unfolding op_count_def by (subst traverse_Cons) simp

lemma op_count_append: "op_count (xs @ ys) = op_count xs + op_count ys"
proof (induction xs)
  case (Cons op xs)
  then show ?case unfolding append_Cons by (subst (1 2) op_count_Cons) simp
qed (simp add: op_count_def)

definition stack_count :: "hoist_state \<Rightarrow> ir_op multiset" where
  "stack_count s = (\<Sum>b \<leftarrow> stack s. op_count (rebuilt_block b))"

definition skel :: "hoist_state \<Rightarrow> nat \<Rightarrow> ir_op list" where
  "skel s k = skeleton (rebuilt_block (stack s ! k))"

definition stuck :: "hoist_state \<Rightarrow> nat \<Rightarrow> bool" where
  "stuck s k \<longleftrightarrow> mobility (stack s ! k) = IMMOVABLE"

definition keeps :: "ir_op list \<Rightarrow> hoist_state \<Rightarrow> hoist_state \<Rightarrow> bool" where
  "keeps ops s s' \<longleftrightarrow> length (stack s') = length (stack s) \<and> (\<forall>k < cur_depth s. skel s' k = skel s k) \<and>
     skel s' (cur_depth s) = skel s (cur_depth s) @ skeleton ops \<and> stack_count s' = stack_count s + op_count ops \<and>
     (\<forall>k \<le> cur_depth s. stuck s k \<longrightarrow> stuck s' k) \<and> (has_effects ops \<longrightarrow> stuck s' (cur_depth s))"

text \<open>What the parts of a step keep: the blocks do not change, only what is noted about them.\<close>

definition same_blocks :: "hoist_state \<Rightarrow> hoist_state \<Rightarrow> bool" where
  "same_blocks s s' \<longleftrightarrow> length (stack s') = length (stack s) \<and> (\<forall>k < length (stack s). skel s' k = skel s k) \<and>
     (\<forall>k < length (stack s). stuck s k \<longrightarrow> stuck s' k)"

section \<open>The parts of a step\<close>

lemma stack_count_update:
  assumes "k < length (stack s)" and "op_count (rebuilt_block b) = op_count (rebuilt_block (stack s ! k)) + x"
  shows "stack_count (s\<lparr>stack := (stack s)[k := b]\<rparr>) = stack_count s + x"
proof -
  have "sum_list (List.map f (xs[k := b])) = sum_list (List.map f xs) + x"
    if "k < length xs" "f b = f (xs ! k) + x" for f :: "block_info \<Rightarrow> ir_op multiset" and xs
    using that by (induction xs arbitrary: k) (auto simp: nth_Cons ac_simps split: nat.splits)
  with assms show ?thesis by (simp add: stack_count_def)
qed

lemma update_by_vars_same: "update_by_vars vs n d s = (Inr d', s') \<Longrightarrow> s' = s \<and> info_le d d'"
proof (induction vs arbitrary: d)
  case (Cons v vs)
  then obtain k where "update_by_vars vs n (update_dependency k n d) s = (Inr d', s')"
    by (auto simp: bindE_get raiseE_def split: option.splits)
  with Cons.IH show ?case using info_le_trans [OF update_dependency_le] by blast
qed (simp add: retE_def)

lemma mobility_keeps:
  assumes "(if c then at_depth (cur_depth s) (update_mobility m) else skipE) s = (Inr (), s')" and ne: "stack s \<noteq> []"
  shows "same_blocks s s'" and "stack_count s' = stack_count s" and "c \<Longrightarrow> m = IMMOVABLE \<Longrightarrow> stuck s' (cur_depth s)"
proof -
  have n: "cur_depth s < length (stack s)" using ne by (simp add: cur_depth_def)
  have new: "rebuilt_block (update_mobility m b) = rebuilt_block b" for b by (simp add: update_mobility_def)
  have mob: "mobility b = IMMOVABLE \<Longrightarrow> mobility (update_mobility m b) = IMMOVABLE"
    "m = IMMOVABLE \<Longrightarrow> mobility (update_mobility m b) = IMMOVABLE" for b
    by (cases "mobility b"; simp add: update_mobility_def)+
  have s': "s' = (if c then s\<lparr>stack := (stack s)[cur_depth s := update_mobility m (stack s ! cur_depth s)]\<rparr> else s)"
    using assms(1) by (auto simp: at_depth_def modifyE_def skipE_def retE_def split: if_splits)
  show "same_blocks s s'"
  proof (cases c)
    case True
    then have "stack s' ! k = (if k = cur_depth s then update_mobility m (stack s ! k) else stack s ! k)"
      if "k < length (stack s)" for k using that by (simp add: s')
    then show ?thesis using True mob(1) new by (simp add: same_blocks_def skel_def stuck_def) (simp add: s')
  qed (simp add: s' same_blocks_def)
  show "stack_count s' = stack_count s"
    using stack_count_update [OF n, of "update_mobility m (stack s ! cur_depth s)" "{#}"] by (simp add: s' new)
  show "stuck s' (cur_depth s)" if c "m = IMMOVABLE" using that n mob(2) by (simp add: s' stuck_def)
qed

lemma place_keeps:
  assumes "place op d (cur_depth s) s = (Inr (), s')" and ne: "stack s \<noteq> []" and stay: "has_effects [op] \<longrightarrow> must_stay d"
    and stuck: "has_effects [op] \<longrightarrow> stuck s (cur_depth s)"
  shows "keeps [op] s s'"
proof -
  define n where "n = cur_depth s"
  define t where "t = (if must_stay d then n else hoist_target (stack s) (max_outside_depth d) n)"
  let ?b = "append_op op (update_min_depth (max_outside_depth d) (stack s ! t))"
  have n: "n < length (stack s)" using ne by (simp add: n_def cur_depth_def)
  then have t: "t < length (stack s)" using hoist_target_le [of "stack s" "max_outside_depth d" n] by (auto simp: t_def)
  have s': "s' = s\<lparr>stack := (stack s)[t := ?b],
      def_depths := List.map (\<lambda>v. (v, t)) (result_vars op) @ def_depths s\<rparr>"
    using assms(1) place_eq [OF t_def n, of op] by (simp add: n_def)
  have nth: "stack s' ! k = (if k = t then ?b else stack s ! k)" if "k < length (stack s)" for k
    using that by (simp add: s')
  have b: "rebuilt_block ?b = rebuilt_block (stack s ! t) @ [op]" "mobility ?b = mobility (stack s ! t)"
    by (simp_all add: append_op_def update_min_depth_def)
  have skel: "skel s' k = (if k = t then skel s k @ skeleton [op] else skel s k)" if "k < length (stack s)" for k
    using nth [OF that] b(1) by (auto simp: skel_def skeleton_append)
  have "skeleton [op] = []" if "t \<noteq> n" using that stay skeleton_effects [of "[op]"] by (auto simp: t_def)
  then have "\<forall>k < n. skel s' k = skel s k" "skel s' n = skel s n @ skeleton [op]"
    using skel n by (auto split: if_splits)
  moreover have "stack_count s' = stack_count s + op_count [op]"
  proof -
    have "stack_count s' = stack_count (s\<lparr>stack := (stack s)[t := ?b]\<rparr>)" by (simp add: stack_count_def s')
    also have "\<dots> = stack_count s + op_count [op]" by (rule stack_count_update [OF t]) (simp add: b op_count_append)
    finally show ?thesis .
  qed
  moreover have "\<forall>k < length (stack s). stuck s k \<longrightarrow> stuck s' k" using nth b(2) by (auto simp: stuck_def)
  ultimately show ?thesis using n stuck by (auto simp: keeps_def n_def s')
qed


section \<open>Blocks\<close>

lemma same_blocks_refl [simp]: "same_blocks s s"
  by (simp add: same_blocks_def)

lemma same_blocks_trans: "same_blocks s t \<Longrightarrow> same_blocks t u \<Longrightarrow> same_blocks s u"
  unfolding same_blocks_def by auto

lemma same_blocks_depth: "same_blocks s t \<Longrightarrow> cur_depth t = cur_depth s \<and> (stack t = [] \<longleftrightarrow> stack s = [])"
  unfolding same_blocks_def cur_depth_def by (metis length_0_conv)

lemma skeleton_Cons: "skeleton (op # ops) = skeleton [op] @ skeleton ops"
  by (cases op) auto

lemma keeps_step:
  assumes same: "same_blocks s s1" and ne: "stack s \<noteq> []"
    and cnt: "stack_count s1 + X = stack_count s + Y" "op_count [op'] + Y = op_count [op] + X"
    and k: "keeps [op'] s1 s2" and skel: "skeleton [op'] = skeleton [op]"
  shows "keeps [op] s s2"
proof -
  have n: "cur_depth s < length (stack s)" using ne by (simp add: cur_depth_def)
  have "stack_count s1 + op_count [op'] + (X + Y) = stack_count s + op_count [op] + (X + Y)"
    using cnt by (metis (no_types, lifting) add.assoc add.commute)
  then have "stack_count s1 + op_count [op'] = stack_count s + op_count [op]" by simp
  moreover have "has_effects [op'] = has_effects [op]" using skeleton_effects [of "[op']"] skeleton_effects [of "[op]"] skel by simp
  ultimately show ?thesis
    using same k skel n same_blocks_depth [OF same] by (auto simp: keeps_def same_blocks_def)
qed

lemma keeps_trans:
  assumes "keeps [op] s s1" and "keeps ops s1 s2"
  shows "keeps (op # ops) s s2"
proof -
  have "cur_depth s1 = cur_depth s" using assms(1) by (simp add: keeps_def cur_depth_def)
  then show ?thesis
    using assms skeleton_Cons [of op ops] op_count_Cons [of op ops] has_effects_Cons [of op ops]
    by (auto simp: keeps_def add.assoc)
qed

lemma in_block_keeps:
  assumes run: "in_block b (hoist_ops body b) s = (Inr res, s')" and ne: "stack s \<noteq> []"
    and IH: "\<forall>b s s'. hoist_ops body b s = (Inr (), s') \<longrightarrow> stack s \<noteq> [] \<longrightarrow> keeps body s s'"
  shows "same_blocks s s'" and "stack_count s' + op_count (rebuilt_block res) = stack_count s + op_count body"
    and "skeleton (rebuilt_block res) = skeleton body" and "has_effects body \<Longrightarrow> mobility res = IMMOVABLE"
proof -
  define s1 where "s1 = s\<lparr>stack := stack s @ [new_block_info b]\<rparr>"
  from run obtain s2 where s2: "hoist_ops body b s1 = (Inr (), s2)" "res = last (stack s2)" "s' = s2\<lparr>stack := butlast (stack s2)\<rparr>"
    by (auto simp: in_block_def push_block_def bindE_modify bindE_Inr_iff pop_block_def s1_def)
  have cd: "cur_depth s1 = length (stack s)" by (simp add: cur_depth_def s1_def)
  have k: "keeps body s1 s2" using IH s2(1) by (simp add: s1_def)
  then have len: "length (stack s2) = Suc (length (stack s))" by (simp add: keeps_def s1_def)
  then obtain bs where bs: "stack s2 = bs @ [res]" "length bs = length (stack s)"
    using s2(2) by (metis append_butlast_last_id length_butlast diff_Suc_1 list.size(3) nat.distinct(1))
  have nth: "stack s1 ! k = stack s ! k" "stack s' ! k = stack s2 ! k" if "k < length (stack s)" for k
    using that bs by (simp_all add: s1_def s2(3) nth_append)
  have top: "stack s1 ! length (stack s) = new_block_info b" "stack s2 ! length (stack s) = res"
    using bs by (simp_all add: s1_def nth_append flip: bs(2))
  show "same_blocks s s'"
    using k nth bs unfolding keeps_def same_blocks_def cd skel_def stuck_def by (auto simp: s2(3))
  have "stack_count s1 = stack_count s" by (simp add: stack_count_def s1_def new_block_info_def op_count_def)
  moreover have "stack_count s2 = stack_count s' + op_count (rebuilt_block res)"
    by (simp add: stack_count_def bs s2(3))
  ultimately show "stack_count s' + op_count (rebuilt_block res) = stack_count s + op_count body"
    using k by (simp add: keeps_def)
  show "skeleton (rebuilt_block res) = skeleton body"
    using k unfolding keeps_def cd skel_def top by (simp add: new_block_info_def)
  show "mobility res = IMMOVABLE" if "has_effects body"
    using k that unfolding keeps_def cd stuck_def top by blast
qed

lemma op_count_nested:
  "op_count [Loop i r init ps body rs] = op_count body + {#Loop i r init ps [] rs#}"
  "op_count [TileFold i k ids xs ps body rs] = op_count body + {#TileFold i k ids xs ps [] rs#}"
  "op_count [IfElse i c T E rs] = op_count T + op_count E + {#IfElse i c [] [] rs#}"
  by (simp_all add: op_count_def)

lemma stack_define: "define_at d vs s = (Inr (), s') \<Longrightarrow> same_blocks s s' \<and> stack_count s' = stack_count s"
  by (auto simp: define_at_eq with_params_def same_blocks_def skel_def stuck_def stack_count_def)

lemma hoist_ops_keeps: "hoist_ops ops lb s = (Inr (), s') \<Longrightarrow> stack s \<noteq> [] \<Longrightarrow> keeps ops s s'"
proof (induction ops arbitrary: lb s s' rule: traverse_induct)
  case Nil
  then show ?case by (auto simp: keeps_def skipE_def retE_def op_count_def)
next
  case (Operation c rs xs ops)
  let ?c = "has_observable_effect c"
  from Operation.prems(1) obtain d s0 s2 where
    0: "(if ?c then bindE (at_depth (cur_depth s) (update_mobility IMMOVABLE)) (\<lambda>_. retE (new_dependency_info True))
         else update_by_vars xs (cur_depth s) (new_dependency_info (\<not> lb))) s = (Inr d, s0)"
    and p: "place (Operation c rs xs) d (cur_depth s) s0 = (Inr (), s2)" and run: "hoist_ops ops lb s2 = (Inr (), s')"
    by (simp add: bindE_get bindE_Inr_iff) blast
  have "(if ?c then at_depth (cur_depth s) (update_mobility IMMOVABLE) else skipE) s = (Inr (), s0) \<and> (?c \<longrightarrow> must_stay d)"
    using 0 by (cases ?c) (auto simp: bindE_Inr_iff retE_def skipE_def new_dependency_info_def dest: update_by_vars_same)
  then obtain s1 where s1: "s1 = s0"
    and m: "(if ?c then at_depth (cur_depth s) (update_mobility IMMOVABLE) else skipE) s = (Inr (), s1)"
    and d: "?c \<longrightarrow> must_stay d" by blast
  note mk = mobility_keeps [OF m Operation.prems(2)]
  note sd = same_blocks_depth [OF mk(1)]
  have "keeps [Operation c rs xs] s1 s2"
    by (rule place_keeps) (use p s1 sd d mk(3) Operation.prems(2) in auto)
  then have k: "keeps [Operation c rs xs] s s2"
    by (rule keeps_step [OF mk(1) Operation.prems(2), where X = "{#}" and Y = "{#}", rotated 2]) (simp_all add: mk(2))
  then have "stack s2 \<noteq> []" using Operation.prems(2) by (auto simp: keeps_def)
  from keeps_trans [OF k Operation.IH [OF run this]] show ?case .
next
  case (Continue vs ops)
  from Continue.prems(1) obtain d s1 s2 where
    m: "(if True then at_depth (cur_depth s) (update_mobility CAN_MOVE_WITH_LOOP) else skipE) s = (Inr (), s1)"
    and p: "place (Continue vs) d (cur_depth s) s1 = (Inr (), s2)" and run: "hoist_ops ops lb s2 = (Inr (), s')"
    by (auto simp: bindE_get bindE_Inr_iff dest: update_by_vars_same)
  note mk = mobility_keeps [OF m Continue.prems(2)]
  note sd = same_blocks_depth [OF mk(1)]
  have "keeps [Continue vs] s1 s2" by (rule place_keeps) (use p sd Continue.prems(2) in auto)
  then have k: "keeps [Continue vs] s s2"
    by (rule keeps_step [OF mk(1) Continue.prems(2), where X = "{#}" and Y = "{#}", rotated 2]) (simp_all add: mk(2))
  then have "stack s2 \<noteq> []" using Continue.prems(2) by (auto simp: keeps_def)
  from keeps_trans [OF k Continue.IH [OF run this]] show ?case .
next
  case (Break vs ops)
  from Break.prems(1) obtain d s1 s2 where
    m: "(if True then at_depth (cur_depth s) (update_mobility CAN_MOVE_WITH_LOOP) else skipE) s = (Inr (), s1)"
    and p: "place (Break vs) d (cur_depth s) s1 = (Inr (), s2)" and run: "hoist_ops ops lb s2 = (Inr (), s')"
    by (auto simp: bindE_get bindE_Inr_iff dest: update_by_vars_same)
  note mk = mobility_keeps [OF m Break.prems(2)]
  note sd = same_blocks_depth [OF mk(1)]
  have "keeps [Break vs] s1 s2" by (rule place_keeps) (use p sd Break.prems(2) in auto)
  then have k: "keeps [Break vs] s s2"
    by (rule keeps_step [OF mk(1) Break.prems(2), where X = "{#}" and Y = "{#}", rotated 2]) (simp_all add: mk(2))
  then have "stack s2 \<noteq> []" using Break.prems(2) by (auto simp: keeps_def)
  from keeps_trans [OF k Break.IH [OF run this]] show ?case .
next
  case (EndBranch vs ops)
  from EndBranch.prems(1) obtain d s2 where p: "place (EndBranch vs) d (cur_depth s) s = (Inr (), s2)"
    and run: "hoist_ops ops lb s2 = (Inr (), s')"
    by (auto simp: bindE_get bindE_Inr_iff dest: update_by_vars_same)
  have k: "keeps [EndBranch vs] s s2" by (rule place_keeps) (use p EndBranch.prems(2) in auto)
  then have "stack s2 \<noteq> []" using EndBranch.prems(2) by (auto simp: keeps_def)
  from keeps_trans [OF k EndBranch.IH [OF run this]] show ?case .
next
  case (Loop i r init ps body rs ops)
  from Loop.prems(1) obtain s0 res s1 s2 d s3 where
    df: "define_at (cur_depth s + 1) ps s = (Inr (), s0)"
    and b: "in_block True (hoist_ops body True) s0 = (Inr res, s1)"
    and m: "(if mobility res = IMMOVABLE then at_depth (cur_depth s) (update_mobility IMMOVABLE) else skipE) s1 = (Inr (), s2)"
    and d: "info_le (new_dependency_info (\<not> lb \<or> mobility res = IMMOVABLE)) d"
    and p: "place (Loop i r init ps (rebuilt_block res) rs) (update_dependency (min_depth res) (cur_depth s) d) (cur_depth s) s2 = (Inr (), s3)"
    and run: "hoist_ops ops lb s3 = (Inr (), s')"
    by (auto simp: bindE_get bindE_Inr_iff Let_def simp del: hoist_ops.simps(1) dest!: update_by_vars_same)
  note df = stack_define [OF df]
  have ne0: "stack s0 \<noteq> []" "cur_depth s0 = cur_depth s" using same_blocks_depth df Loop.prems(2) by auto
  have "\<forall>b s s'. hoist_ops body b s = (Inr (), s') \<longrightarrow> stack s \<noteq> [] \<longrightarrow> keeps body s s'" using Loop.IH(1) by blast
  note bk = in_block_keeps [OF b ne0(1) this]
  have ne1: "stack s1 \<noteq> []" "cur_depth s1 = cur_depth s" using same_blocks_depth [OF bk(1)] ne0 by auto
  note mk = mobility_keeps [OF m [folded ne1(2)] ne1(1)]
  have same: "same_blocks s s2" using df bk(1) mk(1) by (blast intro: same_blocks_trans)
  have ne2: "stack s2 \<noteq> []" "cur_depth s2 = cur_depth s" using same_blocks_depth [OF same] Loop.prems(2) by auto
  have "keeps [Loop i r init ps (rebuilt_block res) rs] s2 s3"
  proof (rule place_keeps [OF p [folded ne2(2)] ne2(1)])
    have "mobility res = IMMOVABLE" if "has_effects [Loop i r init ps (rebuilt_block res) rs]"
      using that bk(3,4) skeleton_effects [of "rebuilt_block res"] skeleton_effects [of body] by simp
    then show "has_effects [Loop i r init ps (rebuilt_block res) rs] \<longrightarrow> must_stay (update_dependency (min_depth res) (cur_depth s2) d)"
      "has_effects [Loop i r init ps (rebuilt_block res) rs] \<longrightarrow> stuck s2 (cur_depth s2)"
      using d update_dependency_le [of d "min_depth res"] mk(3) unfolding ne2(2) ne1(2) info_le_def new_dependency_info_def by auto
  qed
  then have k: "keeps [Loop i r init ps body rs] s s3"
  proof (rule keeps_step [OF same Loop.prems(2), rotated 2])
    show "stack_count s2 + op_count (rebuilt_block res) = stack_count s + op_count body" using bk(2) mk(2) df by simp
  qed (simp_all add: op_count_nested bk(3) ac_simps)
  then have "stack s3 \<noteq> []" using Loop.prems(2) by (auto simp: keeps_def)
  from keeps_trans [OF k Loop.IH(2) [OF run this]] show ?case .
next
  case (TileFold i kd ids xs ps body rs ops)
  from TileFold.prems(1) obtain s0 res s1 s2 d s3 where
    df: "define_at (cur_depth s + 1) ps s = (Inr (), s0)"
    and b: "in_block True (hoist_ops body True) s0 = (Inr res, s1)"
    and m: "(if mobility res = IMMOVABLE then at_depth (cur_depth s) (update_mobility IMMOVABLE) else skipE) s1 = (Inr (), s2)"
    and d: "info_le (new_dependency_info (\<not> lb \<or> mobility res = IMMOVABLE)) d"
    and p: "place (TileFold i kd ids xs ps (rebuilt_block res) rs) (update_dependency (min_depth res) (cur_depth s) d) (cur_depth s) s2 = (Inr (), s3)"
    and run: "hoist_ops ops lb s3 = (Inr (), s')"
    by (auto simp: bindE_get bindE_Inr_iff Let_def simp del: hoist_ops.simps(1) dest!: update_by_vars_same)
  note df = stack_define [OF df]
  have ne0: "stack s0 \<noteq> []" "cur_depth s0 = cur_depth s" using same_blocks_depth df TileFold.prems(2) by auto
  have "\<forall>b s s'. hoist_ops body b s = (Inr (), s') \<longrightarrow> stack s \<noteq> [] \<longrightarrow> keeps body s s'" using TileFold.IH(1) by blast
  note bk = in_block_keeps [OF b ne0(1) this]
  have ne1: "stack s1 \<noteq> []" "cur_depth s1 = cur_depth s" using same_blocks_depth [OF bk(1)] ne0 by auto
  note mk = mobility_keeps [OF m [folded ne1(2)] ne1(1)]
  have same: "same_blocks s s2" using df bk(1) mk(1) by (blast intro: same_blocks_trans)
  have ne2: "stack s2 \<noteq> []" "cur_depth s2 = cur_depth s" using same_blocks_depth [OF same] TileFold.prems(2) by auto
  have "keeps [TileFold i kd ids xs ps (rebuilt_block res) rs] s2 s3"
  proof (rule place_keeps [OF p [folded ne2(2)] ne2(1)])
    have "mobility res = IMMOVABLE" if "has_effects [TileFold i kd ids xs ps (rebuilt_block res) rs]"
      using that bk(3,4) skeleton_effects [of "rebuilt_block res"] skeleton_effects [of body] by simp
    then show "has_effects [TileFold i kd ids xs ps (rebuilt_block res) rs] \<longrightarrow> must_stay (update_dependency (min_depth res) (cur_depth s2) d)"
      "has_effects [TileFold i kd ids xs ps (rebuilt_block res) rs] \<longrightarrow> stuck s2 (cur_depth s2)"
      using d update_dependency_le [of d "min_depth res"] mk(3) unfolding ne2(2) ne1(2) info_le_def new_dependency_info_def by auto
  qed
  then have k: "keeps [TileFold i kd ids xs ps body rs] s s3"
  proof (rule keeps_step [OF same TileFold.prems(2), rotated 2])
    show "stack_count s2 + op_count (rebuilt_block res) = stack_count s + op_count body" using bk(2) mk(2) df by simp
  qed (simp_all add: op_count_nested bk(3) ac_simps)
  then have "stack s3 \<noteq> []" using TileFold.prems(2) by (auto simp: keeps_def)
  from keeps_trans [OF k TileFold.IH(2) [OF run this]] show ?case .
next
  case (IfElse i c T E rs ops)
  let ?op = "\<lambda>T E. IfElse i c T E rs"
  from IfElse.prems(1) obtain d t s1 s2 e s3 s4 s5 where
    b1: "in_block False (hoist_ops T False) s = (Inr t, s1)"
    and m1: "(if mobility t \<noteq> CAN_MOVE then at_depth (cur_depth s) (update_mobility (mobility t)) else skipE) s1 = (Inr (), s2)"
    and b2: "in_block False (hoist_ops E False) s2 = (Inr e, s3)"
    and m2: "(if mobility e \<noteq> CAN_MOVE then at_depth (cur_depth s) (update_mobility (mobility e)) else skipE) s3 = (Inr (), s4)"
    and p: "place (?op (rebuilt_block t) (rebuilt_block e)) (update_by_branch e (cur_depth s) (update_by_branch t (cur_depth s) d)) (cur_depth s) s4 = (Inr (), s5)"
    and run: "hoist_ops ops lb s5 = (Inr (), s')"
    by (auto simp: bindE_get bindE_Inr_iff Let_def simp del: hoist_ops.simps(1) update_by_vars.simps dest!: update_by_vars_same)
  note ne = IfElse.prems(2)
  have ih: "\<forall>b s s'. hoist_ops T b s = (Inr (), s') \<longrightarrow> stack s \<noteq> [] \<longrightarrow> keeps T s s'"
    "\<forall>b s s'. hoist_ops E b s = (Inr (), s') \<longrightarrow> stack s \<noteq> [] \<longrightarrow> keeps E s s'"
    using IfElse.IH(1,2) by blast+
  note k1 = in_block_keeps [OF b1 ne ih(1)]
  have n1: "stack s1 \<noteq> []" "cur_depth s1 = cur_depth s" using same_blocks_depth [OF k1(1)] ne by auto
  note l1 = mobility_keeps [OF m1 [folded n1(2)] n1(1)]
  have same2: "same_blocks s s2" using k1(1) l1(1) by (blast intro: same_blocks_trans)
  have n2: "stack s2 \<noteq> []" "cur_depth s2 = cur_depth s" using same_blocks_depth [OF same2] ne by auto
  note k2 = in_block_keeps [OF b2 n2(1) ih(2)]
  have n3: "stack s3 \<noteq> []" "cur_depth s3 = cur_depth s" using same_blocks_depth [OF k2(1)] n2 by auto
  note l2 = mobility_keeps [OF m2 [folded n3(2)] n3(1)]
  have same24: "same_blocks s2 s4" using k2(1) l2(1) by (blast intro: same_blocks_trans)
  have same: "same_blocks s s4" by (rule same_blocks_trans [OF same2 same24])
  have n4: "stack s4 \<noteq> []" "cur_depth s4 = cur_depth s" using same_blocks_depth [OF same] ne by auto
  have stuck: "mobility t = IMMOVABLE \<or> mobility e = IMMOVABLE" if "has_effects [?op (rebuilt_block t) (rebuilt_block e)]"
    using that k1(3,4) k2(3,4) skeleton_effects [of "rebuilt_block t"] skeleton_effects [of T]
      skeleton_effects [of "rebuilt_block e"] skeleton_effects [of E] by auto
  have "cur_depth s2 < length (stack s2)" using n2(1) by (simp add: cur_depth_def)
  then have top: "cur_depth s < length (stack s2)" by (simp only: n2(2))
  have "keeps [?op (rebuilt_block t) (rebuilt_block e)] s4 s5"
  proof (rule place_keeps [OF p [folded n4(2)] n4(1)]; intro impI)
    assume eff: "has_effects [?op (rebuilt_block t) (rebuilt_block e)]"
    show "must_stay (update_by_branch e (cur_depth s4) (update_by_branch t (cur_depth s4) d))"
      using stuck [OF eff] update_by_branch_stay [of t] update_by_branch_stay [of e] update_by_branch_le
      by (auto simp: info_le_def)
    show "stuck s4 (cur_depth s4)"
      using stuck [OF eff]
    proof
      assume "mobility t = IMMOVABLE"
      then have "stuck s2 (cur_depth s)" using l1(3) by (simp add: n1(2))
      then show ?thesis using same24 top by (simp add: same_blocks_def n4(2))
    next
      assume "mobility e = IMMOVABLE"
      then show ?thesis using l2(3) by (simp add: n3(2) n4(2))
    qed
  qed
  then have k: "keeps [?op T E] s s5"
  proof (rule keeps_step [OF same ne, rotated 2])
    show "stack_count s4 + (op_count (rebuilt_block t) + op_count (rebuilt_block e)) = stack_count s + (op_count T + op_count E)"
      using k1(2) l1(2) k2(2) l2(2) by (metis (no_types, lifting) add.assoc add.commute)
  qed (simp_all add: op_count_nested k1(3) k2(3) ac_simps)
  then have "stack s5 \<noteq> []" using ne by (auto simp: keeps_def)
  from keeps_trans [OF k IfElse.IH(3) [OF run this]] show ?case .
qed

lemma hoist_keeps:
  assumes "hoist_loop_invariants params root = Inr root'"
  shows "op_count root' = op_count root" and "skeleton root' = skeleton root"
proof -
  let ?s = "\<lparr>stack = [new_block_info False], def_depths = List.map (\<lambda>v. (v, 0)) params\<rparr>"
  from assms obtain s' where s': "hoist_ops root False ?s = (Inr (), s')" "root' = rebuilt_block (last (stack s'))"
    by (auto simp: hoist_loop_invariants_def in_block_def push_block_def bindE_modify bindE_Inr_iff pop_block_def
        split: prod.splits sum.splits dest!: bindE_Inr_E)
  have k: "keeps root ?s s'" by (rule hoist_ops_keeps [OF s'(1)]) simp
  then have "length (stack s') = 1" by (simp add: keeps_def)
  then obtain b where "stack s' = [b]" by (cases "stack s'") auto
  then show "op_count root' = op_count root" "skeleton root' = skeleton root"
    using k s'(2) by (simp_all add: keeps_def stack_count_def skel_def cur_depth_def new_block_info_def op_count_def)
qed

end
