(* ===== verification/CodeMotionPass.thy ===== *)
theory CodeMotionPass
  imports CodeMotionKeep
begin

text \<open>
  The properties of \<^verbatim>\<open>hoist_loop_invariants\<close>: what it keeps on every program, when it keeps scopes, and
  two programs on which it does not.
\<close>

section \<open>Evaluation\<close>

text \<open>Applied to a state, so that evaluation does not enter the rest of a program before its time.\<close>

lemmas hoist_ops_code [code] = hoist_ops.simps [THEN fun_cong]

section \<open>Programs\<close>

definition int_const :: "int \<Rightarrow> var \<Rightarrow> ir_op" where
  "int_const n v = Operation (TypedConst (PyInt n)) [v] []"

definition int_add :: "var \<Rightarrow> var \<Rightarrow> var \<Rightarrow> ir_op" where
  "int_add r x y = Operation (RawBinaryArithmeticOperation ''add'' None False) [r] [x, y]"

definition print_int :: "var \<Rightarrow> ir_op" where
  "print_int x = Operation (OtherOp ''tile_printf'' StoreEffect) [] [x]"

text \<open>\<^verbatim>\<open>for i in range(9): s = 0; for j in range(9): s = s + i; print(s + 1)\<close>, with an invariant sum.\<close>

definition safe_program :: "ir_op list" where
  "safe_program =
     [int_const 0 ''zero'', int_const 9 ''nine'', int_const 1 ''one'',
      Loop 0 (Some (''zero'', ''nine'', ''one'')) [] [''i'']
        [int_const 5 ''five'', int_add ''six'' ''five'' ''one'',
         Loop 1 (Some (''zero'', ''nine'', ''one'')) [''six''] [''j'', ''acc'']
           [int_add ''acc2'' ''acc'' ''i'', Continue [''acc2'']] [''sum''],
         print_int ''sum'', Continue []] []]"

definition safe_hoisted :: "ir_op list" where
  "safe_hoisted =
     [int_const 0 ''zero'', int_const 9 ''nine'', int_const 1 ''one'',
      int_const 5 ''five'', int_add ''six'' ''five'' ''one'',
      Loop 0 (Some (''zero'', ''nine'', ''one'')) [] [''i'']
        [Loop 1 (Some (''zero'', ''nine'', ''one'')) [''six''] [''j'', ''acc'']
           [int_add ''acc2'' ''acc'' ''i'', Continue [''acc2'']] [''sum''],
         print_int ''sum'', Continue []] []]"

lemma safe_program_hoisted: "hoist_loop_invariants [] safe_program = Inr safe_hoisted"
  by code_simp

text \<open>\<^verbatim>\<open>for i in range(9): s = 0; for j in range(i): s = s + 1; print(s)\<close>\<close>

definition range_program :: "ir_op list" where
  "range_program =
     [int_const 0 ''zero'', int_const 9 ''nine'', int_const 1 ''one'',
      Loop 0 (Some (''zero'', ''nine'', ''one'')) [] [''i'']
        [Loop 1 (Some (''zero'', ''i'', ''one'')) [''zero''] [''j'', ''acc'']
           [int_add ''acc2'' ''acc'' ''one'', Continue [''acc2'']] [''sum''],
         print_int ''sum'', Continue []] []]"

text \<open>\<^verbatim>\<open>for i in range(9): x = i + i; s = 0; for j in range(9): if j < 1: s = s + x; print(s)\<close>\<close>

definition branch_program :: "ir_op list" where
  "branch_program =
     [int_const 0 ''zero'', int_const 9 ''nine'', int_const 1 ''one'',
      Loop 0 (Some (''zero'', ''nine'', ''one'')) [] [''i'']
        [int_add ''x'' ''i'' ''i'',
         Loop 1 (Some (''zero'', ''nine'', ''one'')) [''zero''] [''j'', ''acc'']
           [Operation (RawComparisonOperation ''lt'') [''c''] [''j'', ''one''],
            IfElse 2 ''c'' [int_add ''acc2'' ''acc'' ''x'', EndBranch [''acc2'']] [EndBranch [''acc'']] [''acc3''],
            Continue [''acc3'']] [''sum''],
         print_int ''sum'', Continue []] []]"

text \<open>Every variable is defined once and before its uses, but no longer so in the hoisted program.\<close>

definition leaves_scope :: "ir_op list \<Rightarrow> bool" where
  "leaves_scope root \<longleftrightarrow> scoped {} root \<and> distinct (defined_vars root) \<and>
     (case hoist_loop_invariants [] root of Inl e \<Rightarrow> False | Inr root' \<Rightarrow> \<not> scoped {} root')"

section \<open>Properties\<close>

text \<open>C39. \<^verbatim>\<open>hoist_loop_invariants\<close> neither loses, copies nor changes an operation, and no operation with an
  observable effect moves: the hoisted program has the same operations, each as often as before, and
  its observable operations stand in the same blocks in the same order.\<close>

theorem hoist_conserves_operations:
  assumes "hoist_loop_invariants params root = Inr root'"
  shows "op_count root' = op_count root \<and> skeleton root' = skeleton root"
  using hoist_keeps [OF assms] by simp

theorem hoist_conserves_operations_witness:
  "op_count safe_hoisted = op_count safe_program \<and> skeleton safe_hoisted = skeleton safe_program"
  by (rule hoist_conserves_operations [OF safe_program_hoisted])

text \<open>C8. On a program whose variables are defined once and before their uses, \<^verbatim>\<open>hoist_loop_invariants\<close> does
  not raise and again defines every variable in scope before it is used, if whatever stands in a loop
  and has nested blocks either has an observable effect, or has flat blocks and takes the range of a
  \<^verbatim>\<open>for\<close> loop from the root block.\<close>

theorem hoist_keeps_scopes:
  assumes "scoped (set params) root" and "distinct (params @ defined_vars root)"
    and "hoist_safe (set params \<union> own_vars root) False root"
  shows "\<exists>root'. hoist_loop_invariants params root = Inr root' \<and> scoped (set params) root'"
  by (rule hoist_scoped [OF assms])

theorem hoist_keeps_scopes_witness:
  "\<exists>root'. hoist_loop_invariants [] safe_program = Inr root' \<and> scoped (set []) root'"
proof (rule hoist_keeps_scopes)
  show "scoped (set []) safe_program" by code_simp
  show "distinct ([] @ defined_vars safe_program)" by code_simp
  show "hoist_safe (set [] \<union> own_vars safe_program) False safe_program" by code_simp
qed


end
