(* ===== verification/Dataflow.thy ===== *)
theory Dataflow
  imports Dce Signature
begin

text \<open>
  \<^verbatim>\<open>src/cuda/tile/_passes/dataflow_analysis.py\<close>: what is known of every variable (alias set, divisor,
  constant value), as a fixpoint of the flow of values.

  \<^item> \<open>data_predicate\<close> and \<open>aggregate_predicate\<close> are the two lattices, \<open>tracker\<close> a table of one of them with
    its dirty flag, \<open>df_state\<close> the pair of tables;
  \<^item> \<open>analyze_block\<close> is one pass over the program; \<open>analyze_until_clean\<close> is the loop, which returns \<open>None\<close>
    if it does not end;
  \<^item> a constant that is a \<^verbatim>\<open>bool\<close> is the integer it equals, as in Python;
  \<^item> an operation with the wrong number of operands cannot be built in Python; the model raises.
\<close>

section \<open>Predicates\<close>

definition ALIAS_UNIVERSE :: int where
  "ALIAS_UNIVERSE = -1"

record data_predicate =
  alias_set :: int
  div_by :: int
  may_alias_internally :: bool
  const_value :: "int option"

definition unify :: "data_predicate \<Rightarrow> data_predicate \<Rightarrow> data_predicate" where
  "unify p q = \<lparr>alias_set = or (alias_set p) (alias_set q), div_by = gcd (div_by p) (div_by q),
     may_alias_internally = (may_alias_internally p \<or> may_alias_internally q),
     const_value = (if const_value p = const_value q then const_value p else None)\<rparr>"

definition ALWAYS_TRUE_PREDICATE :: data_predicate where
  "ALWAYS_TRUE_PREDICATE = \<lparr>alias_set = ALIAS_UNIVERSE, div_by = 1, may_alias_internally = True, const_value = None\<rparr>"

text \<open>\<^verbatim>\<open>_AggregatePredicate\<close>: a dictionary whose missing keys are always true.\<close>

type_synonym aggregate_predicate = "(nat \<times> data_predicate) list"

definition agg_get :: "aggregate_predicate \<Rightarrow> nat \<Rightarrow> data_predicate" where
  "agg_get a k = (case map_of a k of None \<Rightarrow> ALWAYS_TRUE_PREDICATE | Some p \<Rightarrow> p)"

definition agg_keys :: "aggregate_predicate \<Rightarrow> aggregate_predicate \<Rightarrow> nat list" where
  "agg_keys a b = remdups (List.map fst a @ List.map fst b)"

definition agg_unify :: "aggregate_predicate \<Rightarrow> aggregate_predicate \<Rightarrow> aggregate_predicate" where
  "agg_unify a b = List.map (\<lambda>k. (k, unify (agg_get a k) (agg_get b k))) (agg_keys a b)"

definition agg_eq :: "aggregate_predicate \<Rightarrow> aggregate_predicate \<Rightarrow> bool" where
  "agg_eq a b \<longleftrightarrow> (\<forall>k \<in> set (agg_keys a b). agg_get a k = agg_get b k)"

definition ALWAYS_TRUE_AGG_PREDICATE :: aggregate_predicate where
  "ALWAYS_TRUE_AGG_PREDICATE = []"

section \<open>Trackers\<close>

record 'p tracker =
  tracker_dirty :: bool
  predicates :: "(var \<times> 'p) list"

definition empty_tracker :: "'p tracker" where
  "empty_tracker = \<lparr>tracker_dirty = False, predicates = []\<rparr>"

definition tracker_update :: "('p \<Rightarrow> 'p \<Rightarrow> 'p) \<Rightarrow> ('p \<Rightarrow> 'p \<Rightarrow> bool) \<Rightarrow> var \<Rightarrow> 'p \<Rightarrow> 'p tracker \<Rightarrow> 'p tracker" where
  "tracker_update uni eq v pred t =
     (case map_of (predicates t) v of
        None \<Rightarrow> t\<lparr>tracker_dirty := True, predicates := AList.update v pred (predicates t)\<rparr>
      | Some old_pred \<Rightarrow>
          let new_pred = uni old_pred pred in
          if eq new_pred old_pred then t
          else t\<lparr>tracker_dirty := True, predicates := AList.update v new_pred (predicates t)\<rparr>)"

record df_state =
  pred_tracker :: "data_predicate tracker"
  list_array_tracker :: "aggregate_predicate tracker"

type_synonym 'a df = "(df_state, 'a) eff"

definition pred_of :: "var \<Rightarrow> data_predicate df" where
  "pred_of v = bindE (getE (\<lambda>s. map_of (predicates (pred_tracker s)) v)) (\<lambda>p.
     case p of None \<Rightarrow> raiseE KeyError | Some p \<Rightarrow> retE p)"

definition list_pred_of :: "var \<Rightarrow> aggregate_predicate df" where
  "list_pred_of v = bindE (getE (\<lambda>s. map_of (predicates (list_array_tracker s)) v)) (\<lambda>p.
     case p of None \<Rightarrow> raiseE KeyError | Some p \<Rightarrow> retE p)"

definition update_pred :: "var \<Rightarrow> data_predicate \<Rightarrow> unit df" where
  "update_pred v p = modifyE (\<lambda>s. s\<lparr>pred_tracker := tracker_update unify (=) v p (pred_tracker s)\<rparr>)"

definition update_list_pred :: "var \<Rightarrow> aggregate_predicate \<Rightarrow> unit df" where
  "update_list_pred v p =
     modifyE (\<lambda>s. s\<lparr>list_array_tracker := tracker_update agg_unify agg_eq v p (list_array_tracker s)\<rparr>)"

definition propagate_list :: "var \<Rightarrow> var \<Rightarrow> unit df" where
  "propagate_list src dst = bindE (list_pred_of src) (update_list_pred dst)"

definition propagate :: "var \<Rightarrow> var \<Rightarrow> unit df" where
  "propagate src dst = bindE (bindE (pred_of src) (update_pred dst)) (\<lambda>_. propagate_list src dst)"

definition set_pred :: "var \<Rightarrow> data_predicate \<Rightarrow> unit df" where
  "set_pred v p = bindE (update_pred v p) (\<lambda>_. update_list_pred v ALWAYS_TRUE_AGG_PREDICATE)"

definition set_always_true :: "var \<Rightarrow> unit df" where
  "set_always_true v = set_pred v ALWAYS_TRUE_PREDICATE"

definition df_dirty :: "df_state \<Rightarrow> bool" where
  "df_dirty s \<longleftrightarrow> tracker_dirty (pred_tracker s) \<or> tracker_dirty (list_array_tracker s)"

definition reset_dirty :: "df_state \<Rightarrow> df_state" where
  "reset_dirty s = s\<lparr>pred_tracker := (pred_tracker s)\<lparr>tracker_dirty := False\<rparr>,
     list_array_tracker := (list_array_tracker s)\<lparr>tracker_dirty := False\<rparr>\<rparr>"

section \<open>Types\<close>

text \<open>The value of a loosely typed scalar is a \<^verbatim>\<open>bool\<close>, an \<^verbatim>\<open>int\<close> or else a \<^verbatim>\<open>float\<close>.\<close>

definition dtype_of_constant_scalar :: "py_const \<Rightarrow> py_error + dtype" where
  "dtype_of_constant_scalar c = (case c of
     PyBool b \<Rightarrow> Inr DT_bool
   | PyInt i \<Rightarrow>
       if -(2 ^ 31) \<le> i \<and> i < 2 ^ 31 then Inr DT_int32
       else if -(2 ^ 63) \<le> i \<and> i < 2 ^ 63 then Inr DT_int64
       else if 0 \<le> i \<and> i < 2 ^ 64 then Inr DT_uint64
       else Inl TileValueError
   | PyOther s \<Rightarrow> Inr DT_float32)"

definition get_dtype :: "ir_type \<Rightarrow> py_error + dtype" where
  "get_dtype ty = (case ty of
     LooselyTypedScalar c \<Rightarrow> dtype_of_constant_scalar c
   | TileTy dt shape \<Rightarrow> Inr dt
   | _ \<Rightarrow> Inl AssertionError)"

definition type_of :: "ir_context \<Rightarrow> var \<Rightarrow> py_error + ir_type" where
  "type_of ctx v = (case map_of (typemap ctx) v of None \<Rightarrow> Inl TileInternalError | Some t \<Rightarrow> Inr t)"

definition dtype_of :: "ir_context \<Rightarrow> var \<Rightarrow> py_error + dtype" where
  "dtype_of ctx v = bindS (type_of ctx v) get_dtype"

definition lift_result :: "(py_error + 'a) \<Rightarrow> ('s, 'a) eff" where
  "lift_result r = (\<lambda>s. (r, s))"

definition truncate_int :: "dtype \<Rightarrow> int \<Rightarrow> int" where
  "truncate_int dt x =
     (let y = x mod 2 ^ bitwidth dt in
      if is_signed dt \<and> y div 2 ^ (bitwidth dt - 1) \<noteq> 0 then y - 2 ^ bitwidth dt else y)"

section \<open>Operations\<close>

definition with_result :: "var list \<Rightarrow> (var \<Rightarrow> ('s, 'a) eff) \<Rightarrow> ('s, 'a) eff" where
  "with_result rs k = (case rs of [r] \<Rightarrow> k r | _ \<Rightarrow> raiseE ValueError)"

definition with_operand :: "var list \<Rightarrow> (var \<Rightarrow> ('s, 'a) eff) \<Rightarrow> ('s, 'a) eff" where
  "with_operand xs k = (case xs of [x] \<Rightarrow> k x | _ \<Rightarrow> raiseE TypeError)"

definition with_operands :: "var list \<Rightarrow> (var \<Rightarrow> var \<Rightarrow> ('s, 'a) eff) \<Rightarrow> ('s, 'a) eff" where
  "with_operands xs k = (case xs of [x, y] \<Rightarrow> k x y | _ \<Rightarrow> raiseE TypeError)"

definition binary_divisibility :: "ir_context \<Rightarrow> string \<Rightarrow> var \<Rightarrow> var \<Rightarrow> var \<Rightarrow> int df" where
  "binary_divisibility ctx fn lhs rhs res =
     bindE (lift_result (dtype_of ctx res)) (\<lambda>result_dtype.
     if is_integral result_dtype then
       bindE (pred_of lhs) (\<lambda>x. bindE (pred_of rhs) (\<lambda>y.
       retE (if fn = ''add'' \<or> fn = ''sub'' then gcd (div_by x) (div_by y)
             else if fn = ''mul'' then div_by x * div_by y else 1)))
     else retE 1)"

definition unary_divisibility :: "ir_context \<Rightarrow> string \<Rightarrow> var \<Rightarrow> var \<Rightarrow> int df" where
  "unary_divisibility ctx fn x res =
     bindE (lift_result (dtype_of ctx res)) (\<lambda>result_dtype.
     if is_integral result_dtype then
       bindE (pred_of x) (\<lambda>p. retE (if fn = ''abs'' \<or> fn = ''neg'' then div_by p else 1))
     else retE 1)"

definition pointer_offset_divisibility :: "dtype \<Rightarrow> int list \<Rightarrow> data_predicate \<Rightarrow> data_predicate \<Rightarrow> int" where
  "pointer_offset_divisibility pointee shape ptr off =
     (if \<forall>x \<in> set shape. x = 1 then
        gcd (div_by ptr)
          (if bitwidth pointee mod 8 = 0 then div_by off * int (bitwidth pointee div 8) else 1)
      else 1)"

definition astype_predicate :: "dtype \<Rightarrow> dtype \<Rightarrow> data_predicate \<Rightarrow> data_predicate" where
  "astype_predicate orig_dtype result_dtype p =
     (if is_integral orig_dtype \<and> is_integral result_dtype
      then p\<lparr>div_by := gcd (div_by p) (2 ^ bitwidth result_dtype),
             const_value := map_option (truncate_int result_dtype) (const_value p)\<rparr>
      else p\<lparr>div_by := 1, const_value := None\<rparr>)"

definition is_scalar_type :: "ir_type \<Rightarrow> bool" where
  "is_scalar_type ty \<longleftrightarrow> (case ty of TileTy dt shape \<Rightarrow> shape = [] | LooselyTypedScalar c \<Rightarrow> True | _ \<Rightarrow> False)"

definition const_predicate :: "bool \<Rightarrow> int \<Rightarrow> data_predicate" where
  "const_predicate scalar i = \<lparr>alias_set = ALIAS_UNIVERSE, div_by = \<bar>i\<bar>, may_alias_internally = True,
     const_value = (if scalar then Some i else None)\<rparr>"

definition int_of_const :: "py_const \<Rightarrow> int option" where
  "int_of_const c = (case c of PyInt i \<Rightarrow> Some i | PyBool b \<Rightarrow> Some (of_bool b) | PyOther _ \<Rightarrow> None)"

fun analyze_op :: "ir_context \<Rightarrow> op_class \<Rightarrow> var list \<Rightarrow> var list \<Rightarrow> unit df" where
  "analyze_op ctx Assign rs xs = with_operand xs (\<lambda>x. with_result rs (propagate x))"
| "analyze_op ctx ForeignPointerCast rs xs = with_operand xs (\<lambda>x. with_result rs (propagate x))"
| "analyze_op ctx (AssumeDivBy divisor) rs xs = with_operand xs (\<lambda>x. with_result rs (\<lambda>r.
     bindE (pred_of x) (\<lambda>p. bindE (update_pred r (p\<lparr>div_by := divisor\<rparr>)) (\<lambda>_. propagate_list x r))))"
| "analyze_op ctx GetArrayListItem rs xs = with_operands xs (\<lambda>x index.
     case map_of (list_base_ptr ctx) x of
       None \<Rightarrow> raiseE KeyError
     | Some base \<Rightarrow> bindE (list_pred_of base) (\<lambda>arr_predicates.
         forE (List.enumerate 0 rs) (\<lambda>(i, v). set_pred v (agg_get arr_predicates i))))"
| "analyze_op ctx PointerOffset rs xs = with_operands xs (\<lambda>pointer offset. with_result rs (\<lambda>r.
     bindE (lift_result (type_of ctx pointer)) (\<lambda>ptr_ty. case ptr_ty of
       TileTy dt shape \<Rightarrow>
         bindE (lift_result (PointerInfo dt)) (\<lambda>info.
         bindE (if \<forall>x \<in> set shape. x = 1 then lift_result (pointer_pointee_dtype info) else retE DT_bool) (\<lambda>pointee.
         bindE (if \<forall>x \<in> set shape. x = 1 then pred_of offset else pred_of pointer) (\<lambda>off.
         bindE (pred_of pointer) (\<lambda>ptr.
         set_pred r (ptr\<lparr>div_by := pointer_offset_divisibility pointee shape ptr off\<rparr>)))))
     | _ \<Rightarrow> raiseE AssertionError)))"
| "analyze_op ctx TileBroadcast rs xs = with_operand xs (\<lambda>x. with_result rs (propagate x))"
| "analyze_op ctx TileReshape rs xs = with_operand xs (\<lambda>x. with_result rs (propagate x))"
| "analyze_op ctx (TilePermute axes) rs xs = with_operand xs (\<lambda>x. with_result rs (propagate x))"
| "analyze_op ctx (AssumeBounded lower upper) rs xs = with_operand xs (\<lambda>x. with_result rs (propagate x))"
| "analyze_op ctx TileAsType rs xs = with_operand xs (\<lambda>x. with_result rs (\<lambda>r.
     bindE (lift_result (dtype_of ctx x)) (\<lambda>orig_dtype.
     bindE (lift_result (dtype_of ctx r)) (\<lambda>result_dtype.
     bindE (pred_of x) (\<lambda>p. set_pred r (astype_predicate orig_dtype result_dtype p))))))"
| "analyze_op ctx (TypedConst c) rs xs = (case int_of_const c of
     None \<Rightarrow> with_result rs set_always_true
   | Some i \<Rightarrow> with_result rs (\<lambda>r. bindE (lift_result (type_of ctx r)) (\<lambda>ty.
       set_pred r (const_predicate (is_scalar_type ty) i))))"
| "analyze_op ctx (RawBinaryArithmeticOperation fn rm ftz) rs xs = with_operands xs (\<lambda>lhs rhs. with_result rs (\<lambda>r.
     bindE (binary_divisibility ctx fn lhs rhs r) (\<lambda>d. set_pred r (ALWAYS_TRUE_PREDICATE\<lparr>div_by := d\<rparr>))))"
| "analyze_op ctx (Unary fn rm ftz) rs xs = with_operand xs (\<lambda>x. with_result rs (\<lambda>r.
     bindE (unary_divisibility ctx fn x r) (\<lambda>d. set_pred r (ALWAYS_TRUE_PREDICATE\<lparr>div_by := d\<rparr>))))"
| "analyze_op ctx c rs xs = forE rs set_always_true"


section \<open>Blocks\<close>

fun analyze_block :: "ir_context \<Rightarrow> ir_op list \<Rightarrow> loop_info option \<Rightarrow> var list option \<Rightarrow> unit df" where
  "analyze_block ctx [] l t = skipE"
| "analyze_block ctx (Operation c rs xs # ops) l t =
     bindE (analyze_op ctx c rs xs) (\<lambda>_. analyze_block ctx ops l t)"
| "analyze_block ctx (Loop i r init ps body rs # ops) l t =
     (let bvs = body_vars r ps in
      seqE [if r \<noteq> None then (case ps of [] \<Rightarrow> raiseE IndexError | p # _ \<Rightarrow> set_always_true p) else skipE,
            zip3_strict init bvs rs (\<lambda>(init_var, body_var, result_var).
              seqE [propagate init_var body_var]
                (if r \<noteq> None then propagate init_var result_var else skipE)),
            analyze_block ctx body
              (Some \<lparr>loop_is_for = (r \<noteq> None), loop_body_vars = bvs, loop_result_vars = rs\<rparr>) None]
        (analyze_block ctx ops l t))"
| "analyze_block ctx (Continue vs # ops) l t =
     bindE (case l of
         None \<Rightarrow> raiseE AttributeError
       | Some li \<Rightarrow> zip3_strict vs (loop_body_vars li) (loop_result_vars li) (\<lambda>(next_var, body_var, result_var).
           seqE [propagate next_var body_var]
             (if loop_is_for li then propagate next_var result_var else skipE)))
       (\<lambda>_. analyze_block ctx ops l t)"
| "analyze_block ctx (Break vs # ops) l t =
     bindE (case l of
         None \<Rightarrow> raiseE AttributeError
       | Some li \<Rightarrow> zip_strict vs (loop_result_vars li) (\<lambda>(output, result_var). propagate output result_var))
       (\<lambda>_. analyze_block ctx ops l t)"
| "analyze_block ctx (IfElse i c T E rs # ops) l t =
     seqE [analyze_block ctx T l (Some rs), analyze_block ctx E l (Some rs)] (analyze_block ctx ops l t)"
| "analyze_block ctx (EndBranch vs # ops) l t =
     bindE (case t of
         None \<Rightarrow> raiseE AttributeError
       | Some rs \<Rightarrow> zip_strict vs rs (\<lambda>(output, result_var). propagate output result_var))
       (\<lambda>_. analyze_block ctx ops l t)"
| "analyze_block ctx (TileFold i k ids xs ps body rs # ops) l t =
     seqE [forE ps set_always_true, analyze_block ctx body None (Some rs)] (analyze_block ctx ops l t)"

partial_function (option) analyze_until_clean ::
    "ir_context \<Rightarrow> ir_op list \<Rightarrow> df_state \<Rightarrow> ((py_error + unit) \<times> df_state) option" where
  "analyze_until_clean ctx root s =
     (if \<not> df_dirty s then Some (Inr (), s)
      else case analyze_block ctx root None None (reset_dirty s) of
        (Inl e, s') \<Rightarrow> Some (Inl e, s')
      | (Inr _, s') \<Rightarrow> analyze_until_clean ctx root s')"

text \<open>For evaluation, which takes a pass to its end before it looks at the next one.\<close>

fun clean_after :: "ir_context \<Rightarrow> ir_op list \<Rightarrow> (py_error + unit) \<times> df_state \<Rightarrow> ((py_error + unit) \<times> df_state) option" where
  "clean_after ctx root (Inl e, s) = Some (Inl e, s)"
| "clean_after ctx root (Inr u, s) = analyze_until_clean ctx root s"

lemma analyze_until_clean_code [code]:
  "analyze_until_clean ctx root s =
     (if df_dirty s then clean_after ctx root (analyze_block ctx root None None (reset_dirty s)) else Some (Inr (), s))"
  by (subst analyze_until_clean.simps) (simp split: prod.splits sum.splits)

section \<open>Parameters\<close>

text \<open>\<^verbatim>\<open>_AliasSetMapper\<close>: the next bit of the sequence, and the bits of the groups seen so far.\<close>

record alias_set_mapper =
  next_bit :: nat
  group_bits :: "(pystr \<times> int) list"

definition new_bit :: "(alias_set_mapper, int) eff" where
  "new_bit = (\<lambda>m. (Inr (2 ^ next_bit m), m\<lparr>next_bit := Suc (next_bit m)\<rparr>))"

definition bit_of_group :: "pystr \<Rightarrow> (alias_set_mapper, int) eff" where
  "bit_of_group g = bindE (getE (\<lambda>m. map_of (group_bits m) g)) (\<lambda>found. case found of
     Some b \<Rightarrow> retE b
   | None \<Rightarrow> bindE new_bit (\<lambda>b. bindE (modifyE (\<lambda>m. m\<lparr>group_bits := (g, b) # group_bits m\<rparr>)) (\<lambda>_. retE b)))"

fun bits_of_groups :: "pystr list \<Rightarrow> int \<Rightarrow> (alias_set_mapper, int) eff" where
  "bits_of_groups [] ret = retE ret"
| "bits_of_groups (g # gs) ret = bindE (bit_of_group g) (\<lambda>b. bits_of_groups gs (or ret b))"

definition map_alias_set :: "pystr list option \<Rightarrow> (alias_set_mapper, int) eff" where
  "map_alias_set groups = (case groups of
     None \<Rightarrow> retE ALIAS_UNIVERSE
   | Some [] \<Rightarrow> new_bit
   | Some gs \<Rightarrow> bits_of_groups gs 0)"

definition dim_predicates :: "int option list \<Rightarrow> int list \<Rightarrow> py_error + data_predicate list" where
  "dim_predicates static divisors =
     (if length static = length divisors
      then Inr (List.map (\<lambda>(static_value, d). \<lparr>alias_set = ALIAS_UNIVERSE,
             div_by = (case static_value of None \<Rightarrow> d | Some c \<Rightarrow> c),
             may_alias_internally = True, const_value = static_value\<rparr>) (zip static divisors))
      else Inl ValueError)"

definition get_array_predicates :: "array_constraint \<Rightarrow> (alias_set_mapper, data_predicate list) eff" where
  "get_array_predicates a = bindE (map_alias_set (Some (arr_alias_groups a))) (\<lambda>aliases.
     bindE (lift_result (dim_predicates (arr_shape_constant a) (arr_shape_divisible_by a))) (\<lambda>shape.
     bindE (lift_result (dim_predicates (arr_stride_constant a) (arr_stride_divisible_by a))) (\<lambda>stride.
     retE (\<lparr>alias_set = aliases, div_by = arr_base_addr_divisible_by a,
             may_alias_internally = arr_may_alias_internally a, const_value = None\<rparr> # shape @ stride))))"

record param_state =
  ps_df :: df_state
  ps_mapper :: alias_set_mapper

type_synonym 'a params = "(param_state, 'a) eff"

definition in_df :: "unit df \<Rightarrow> unit params" where
  "in_df m = zoom ps_df (\<lambda>d s. s\<lparr>ps_df := d\<rparr>) m"

definition in_mapper :: "(alias_set_mapper, 'a) eff \<Rightarrow> 'a params" where
  "in_mapper m = zoom ps_mapper (\<lambda>d s. s\<lparr>ps_mapper := d\<rparr>) m"

definition register_array :: "array_constraint \<Rightarrow> var list \<Rightarrow> unit params" where
  "register_array a vs = bindE (in_mapper (get_array_predicates a)) (\<lambda>ps.
     zip_strict vs ps (\<lambda>(v, p). in_df (set_pred v p)))"

definition register_plain :: "var list \<Rightarrow> unit params" where
  "register_plain vs = (case vs of [v] \<Rightarrow> in_df (set_always_true v) | _ \<Rightarrow> raiseE ValueError)"

definition register_list :: "array_constraint \<Rightarrow> pystr list \<Rightarrow> bool \<Rightarrow> var \<Rightarrow> var \<Rightarrow> unit params" where
  "register_list elt groups elements_may_alias base_ptr size_var =
     bindE (in_mapper (map_alias_set (Some groups))) (\<lambda>aliases.
     bindE (in_df (update_pred base_ptr \<lparr>alias_set = aliases, div_by = 1,
              may_alias_internally = elements_may_alias, const_value = None\<rparr>)) (\<lambda>_.
     bindE (in_mapper (get_array_predicates elt)) (\<lambda>elt_predicates.
     bindE (in_df (update_list_pred base_ptr (List.enumerate 0 elt_predicates))) (\<lambda>_.
     in_df (set_always_true size_var)))))"

text \<open>The items of a tuple take their variables from \<^verbatim>\<open>flat_params\<close> at an offset; other kinds of constraint
  are skipped.\<close>

fun register_tuple :: "constraint list \<Rightarrow> var list \<Rightarrow> nat \<Rightarrow> nat params" where
  "register_tuple [] flat_params offset = retE offset"
| "register_tuple (ArrayConstraint a # cs) flat_params offset =
     (let n = nat (1 + 2 * arr_ndim a) in
      bindE (register_array a (take n (drop offset flat_params))) (\<lambda>_. register_tuple cs flat_params (offset + n)))"
| "register_tuple (ScalarConstraint d # cs) flat_params offset =
     bindE (register_plain (take 1 (drop offset flat_params))) (\<lambda>_. register_tuple cs flat_params (offset + 1))"
| "register_tuple (PointerConstraint d # cs) flat_params offset =
     bindE (register_plain (take 1 (drop offset flat_params))) (\<lambda>_. register_tuple cs flat_params (offset + 1))"
| "register_tuple (TupleConstraint items # cs) flat_params offset =
     bindE (register_tuple items flat_params offset) (\<lambda>offset'. register_tuple cs flat_params offset')"
| "register_tuple (ListConstraint elt groups em # cs) flat_params offset =
     (case drop offset flat_params of
        base_ptr # size_var # _ \<Rightarrow>
          bindE (register_list elt groups em base_ptr size_var) (\<lambda>_. register_tuple cs flat_params (offset + 2))
      | _ \<Rightarrow> raiseE IndexError)"
| "register_tuple (_ # cs) flat_params offset = register_tuple cs flat_params offset"

definition register_parameter :: "var list \<times> constraint \<Rightarrow> unit params" where
  "register_parameter p = (case p of (flat_params, c) \<Rightarrow> (case c of
     ArrayConstraint a \<Rightarrow> register_array a flat_params
   | ScalarConstraint d \<Rightarrow> register_plain flat_params
   | PointerConstraint d \<Rightarrow> register_plain flat_params
   | ListConstraint elt groups em \<Rightarrow> (case flat_params of
       [base_ptr, size_var] \<Rightarrow> register_list elt groups em base_ptr size_var
     | _ \<Rightarrow> raiseE AssertionError)
   | TupleConstraint items \<Rightarrow> bindE (register_tuple items flat_params 0) (\<lambda>_. skipE)
   | _ \<Rightarrow> raiseE AssertionError))"

definition empty_df_state :: df_state where
  "empty_df_state = \<lparr>pred_tracker = empty_tracker, list_array_tracker = empty_tracker\<rparr>"

definition dataflow_analysis ::
    "ir_context \<Rightarrow> ir_op list \<Rightarrow> (var list \<times> constraint) list \<Rightarrow> (py_error + (var \<times> data_predicate) list) option" where
  "dataflow_analysis ctx root parameter_constraints =
     (case forE parameter_constraints register_parameter
             \<lparr>ps_df = empty_df_state, ps_mapper = \<lparr>next_bit = 0, group_bits = []\<rparr>\<rparr> of
        (Inl e, _) \<Rightarrow> Some (Inl e)
      | (Inr _, ps) \<Rightarrow>
          (case analyze_block ctx root None None (ps_df ps) of
             (Inl e, _) \<Rightarrow> Some (Inl e)
           | (Inr _, s) \<Rightarrow> map_option (\<lambda>(r, s'). map_sum id (\<lambda>_. predicates (pred_tracker s')) r)
               (analyze_until_clean ctx root s)))"

text \<open>\<^verbatim>\<open>DataflowResult.constant_value\<close>\<close>

definition constant_value :: "(var \<times> data_predicate) list \<Rightarrow> var \<Rightarrow> int option" where
  "constant_value result v = Option.bind (map_of result v) const_value"

end
