(* ===== verification/DataflowStep.thy ===== *)
theory DataflowStep
  imports Dataflow
begin

text \<open>
  What a pass of the data-flow analysis does to the tables: predicates only get weaker, and a pass that
  leaves the tables clean has changed nothing.

  \<^item> \<open>weaker p q\<close>: the divisor of \<open>q\<close> divides that of \<open>p\<close>, and \<open>q\<close> knows the constant of \<open>p\<close> or none;
  \<^item> \<open>moves m\<close>: an effect of this kind; \<open>noop m s\<close>: it changes nothing in \<open>s\<close>.
\<close>

section \<open>Weaker predicates\<close>

definition weaker :: "data_predicate \<Rightarrow> data_predicate \<Rightarrow> bool" where
  "weaker p q \<longleftrightarrow> div_by q dvd div_by p \<and> (const_value q = None \<or> const_value q = const_value p)"

lemma weaker_refl [simp]: "weaker p p"
  by (simp add: weaker_def)

lemma weaker_trans: "weaker p q \<Longrightarrow> weaker q r \<Longrightarrow> weaker p r"
  by (auto simp: weaker_def intro: dvd_trans)

lemma weaker_unify: "weaker p (unify p q)" "weaker q (unify p q)"
  by (auto simp: weaker_def unify_def)

definition pred_at :: "df_state \<Rightarrow> var \<Rightarrow> data_predicate option" where
  "pred_at s = map_of (predicates (pred_tracker s))"

definition weakened :: "df_state \<Rightarrow> df_state \<Rightarrow> bool" where
  "weakened s s' \<longleftrightarrow> (\<forall>v p. pred_at s v = Some p \<longrightarrow> (\<exists>q. pred_at s' v = Some q \<and> weaker p q))"

lemma weakened_refl [simp]: "weakened s s"
  by (simp add: weakened_def)

lemma weakened_trans: "weakened s t \<Longrightarrow> weakened t u \<Longrightarrow> weakened s u"
  unfolding weakened_def by (meson weaker_trans)

text \<open>The variable has a predicate that what flows into it does not change.\<close>

definition absorbs :: "df_state \<Rightarrow> var \<Rightarrow> data_predicate \<Rightarrow> bool" where
  "absorbs s v p \<longleftrightarrow> (\<exists>q. pred_at s v = Some q \<and> unify q p = q)"

lemma absorbs_weaker: "absorbs s v p \<Longrightarrow> \<exists>q. pred_at s v = Some q \<and> weaker p q"
  using weaker_unify(2) unfolding absorbs_def by metis

section \<open>Effects that move down\<close>

definition moves :: "'a df \<Rightarrow> bool" where
  "moves m \<longleftrightarrow> (\<forall>s x s'. m s = (Inr x, s') \<longrightarrow> (s' = s \<or> df_dirty s') \<and> (df_dirty s \<longrightarrow> df_dirty s') \<and> weakened s s')"

lemma moves_bind: "moves m \<Longrightarrow> (\<And>x. moves (k x)) \<Longrightarrow> moves (bindE m k)"
  unfolding moves_def by (auto simp: bindE_Inr_iff) (metis weakened_trans)+

lemma moves_ret [intro]: "moves (retE x)" and moves_skip [intro]: "moves skipE" and moves_raise [intro]: "moves (raiseE e)"
  and moves_lift [intro]: "moves (lift_result r)"
  by (auto simp: moves_def retE_def skipE_def raiseE_def lift_result_def)

lemma moves_if: "moves a \<Longrightarrow> moves b \<Longrightarrow> moves (if c then a else b)"
  by simp

lemma moves_forE: "(\<And>x. moves (f x)) \<Longrightarrow> moves (forE xs f)"
  by (induction xs) (auto intro: moves_bind)

lemma moves_pred_of [intro]: "moves (pred_of v)" and moves_list_pred_of [intro]: "moves (list_pred_of v)"
  by (auto simp: moves_def pred_of_def list_pred_of_def bindE_get raiseE_def retE_def split: option.splits)

lemma moves_update_pred [intro]: "moves (update_pred v p)"
  unfolding moves_def
proof (intro allI impI)
  fix s x s' assume "update_pred v p s = (Inr x, s')"
  then have s': "s' = s\<lparr>pred_tracker := tracker_update unify (=) v p (pred_tracker s)\<rparr>"
    by (simp add: update_pred_def modifyE_def)
  show "(s' = s \<or> df_dirty s') \<and> (df_dirty s \<longrightarrow> df_dirty s') \<and> weakened s s'"
  proof (cases "map_of (predicates (pred_tracker s)) v")
    case None
    then show ?thesis
      by (auto simp: s' tracker_update_def df_dirty_def weakened_def pred_at_def update_conv')
  next
    case (Some q)
    show ?thesis
    proof (cases "unify q p = q")
      case True
      then show ?thesis using Some by (simp add: s' tracker_update_def)
    next
      case False
      then show ?thesis using Some weaker_unify(1)
        by (auto simp: s' tracker_update_def df_dirty_def weakened_def pred_at_def update_conv' Let_def)
    qed
  qed
qed

lemma moves_update_list_pred [intro]: "moves (update_list_pred v p)"
  by (auto simp: moves_def update_list_pred_def modifyE_def tracker_update_def Let_def df_dirty_def weakened_def pred_at_def
      split: option.splits)

lemma moves_propagate_list [intro]: "moves (propagate_list src dst)"
  unfolding propagate_list_def by (rule moves_bind) auto

lemma moves_propagate [intro]: "moves (propagate src dst)"
  unfolding propagate_def by (intro moves_bind) auto

lemma moves_set_pred [intro]: "moves (set_pred v p)" and moves_set_always_true [intro]: "moves (set_always_true v)"
  unfolding set_pred_def set_always_true_def by (intro moves_bind; auto)+

lemma moves_zip_strict: "(\<And>p. moves (f p)) \<Longrightarrow> moves (zip_strict xs ys f)"
  unfolding zip_strict_def by (intro moves_bind moves_forE moves_if) auto

lemma moves_zip3_strict: "(\<And>p. moves (f p)) \<Longrightarrow> moves (zip3_strict xs ys zs f)"
  unfolding zip3_strict_def by (intro moves_bind moves_forE moves_if) auto

lemma moves_with_result: "(\<And>r. moves (k r)) \<Longrightarrow> moves (with_result rs k)"
  by (auto simp: with_result_def split: list.split)

lemma moves_with_operand: "(\<And>x. moves (k x)) \<Longrightarrow> moves (with_operand xs k)"
  by (auto simp: with_operand_def split: list.split)

lemma moves_with_operands: "(\<And>x y. moves (k x y)) \<Longrightarrow> moves (with_operands xs k)"
  by (auto simp: with_operands_def split: list.split)

lemmas moves_rules = moves_bind moves_if moves_forE moves_zip_strict moves_zip3_strict moves_with_result
  moves_with_operand moves_with_operands

lemma moves_divisibility [intro]:
  "moves (binary_divisibility ctx fn lhs rhs res)" "moves (unary_divisibility ctx fn x res)"
  unfolding binary_divisibility_def unary_divisibility_def by (intro moves_rules; auto)+

lemma moves_analyze_op: "moves (analyze_op ctx c rs xs)"
  by (induction ctx c rs xs rule: analyze_op.induct)
    (auto intro!: moves_rules split: option.split ir_type.split prod.split)

lemma moves_analyze_block: "moves (analyze_block ctx ops l t)"
proof (induction ctx ops l t rule: analyze_block.induct)
  case (2 ctx c rs xs ops l t)
  then show ?case by (auto intro: moves_bind moves_analyze_op)
qed (auto simp: Let_def intro!: moves_rules split: list.split option.split prod.split)

section \<open>Effects that change nothing\<close>

definition noop :: "'a df \<Rightarrow> 'a \<Rightarrow> df_state \<Rightarrow> bool" where
  "noop m x s \<longleftrightarrow> m s = (Inr x, s) \<and> \<not> df_dirty s"

lemma moves_clean: "moves m \<Longrightarrow> m s = (Inr x, s') \<Longrightarrow> \<not> df_dirty s' \<Longrightarrow> s' = s"
  unfolding moves_def by blast

lemma noop_bind:
  assumes "noop (bindE m k) y s" and "moves m" and "\<And>x. moves (k x)"
  obtains x where "noop m x s" and "noop (k x) y s"
proof -
  from assms(1) obtain x t where "m s = (Inr x, t)" "k x t = (Inr y, s)" "\<not> df_dirty s"
    by (auto simp: noop_def bindE_Inr_iff)
  then show thesis using moves_clean [OF assms(3)] that by (metis noop_def)
qed

end
