(* ===== verification/DataflowSound.thy ===== *)
theory DataflowSound
  imports DataflowStep
begin

text \<open>
  The meaning of a predicate, what the analysis assumes of the operations, and the soundness of a clean
  pass: every value that a run binds to a variable is described by the predicate of the variable.

  \<^item> \<open>view\<close> gives the integers and the addresses of a value (one for a scalar, one per element for a
    tile); \<open>describes W p x\<close>: the powers of two that divide \<^verbatim>\<open>div_by\<close> divide all of them, and all the
    integers are the constant, if there is one;
  \<^item> \<open>op_spec\<close> is what the operations do to integers and addresses: arithmetic modulo the width;
  \<^item> \<open>exec_checked Q\<close> is \<open>exec\<close> with the check that every value bound to a variable satisfies \<open>Q\<close>.
\<close>

section \<open>Divisibility by powers of two\<close>

text \<open>What is left of divisibility when arithmetic wraps around.\<close>

definition ok_div :: "int \<Rightarrow> int \<Rightarrow> bool" where
  "ok_div d e \<longleftrightarrow> (\<forall>k. 2 ^ k dvd d \<longrightarrow> 2 ^ k dvd e)"

lemma ok_div_self [simp]: "ok_div d d"
  by (simp add: ok_div_def)

lemma ok_div_abs [simp]: "ok_div \<bar>d\<bar> d"
  by (simp add: ok_div_def)

lemma ok_div_1 [simp]: "ok_div 1 e"
  by (simp add: ok_div_def)

lemma ok_div_dvd: "ok_div d e \<Longrightarrow> d' dvd d \<Longrightarrow> ok_div d' e"
  unfolding ok_div_def by (meson dvd_trans)

lemma ok_div_of_dvd: "d dvd e \<Longrightarrow> ok_div d e"
  unfolding ok_div_def by (meson dvd_trans)

lemma ok_div_add: "ok_div a x \<Longrightarrow> ok_div b y \<Longrightarrow> ok_div (gcd a b) (x + y)"
  and ok_div_diff: "ok_div a x \<Longrightarrow> ok_div b y \<Longrightarrow> ok_div (gcd a b) (x - y)"
  by (auto simp: ok_div_def)

lemma ok_div_uminus: "ok_div d x \<Longrightarrow> ok_div d (- x)"
  by (simp add: ok_div_def)

lemma ok_div_abs_value: "ok_div d x \<Longrightarrow> ok_div d \<bar>x\<bar>"
  by (simp add: ok_div_def)

lemma ok_div_0: "ok_div 0 x \<longleftrightarrow> x = 0"
proof
  assume "ok_div 0 x"
  then have "2 ^ nat (\<bar>x\<bar> + 1) dvd x" by (simp add: ok_div_def)
  moreover have "\<bar>x\<bar> < 2 ^ nat (\<bar>x\<bar> + 1)"
  proof -
    have "int (nat (\<bar>x\<bar> + 1)) < int (2 ^ nat (\<bar>x\<bar> + 1))"
      by (subst of_nat_less_iff) (rule less_exp)
    then show ?thesis by simp
  qed
  ultimately show "x = 0" using dvd_imp_le_int [of x "2 ^ nat (\<bar>x\<bar> + 1)"] by fastforce
qed (simp add: ok_div_def)

lemma pow2_dvd_mult:
  "2 ^ k dvd a * b \<Longrightarrow> ok_div a x \<Longrightarrow> ok_div b y \<Longrightarrow> a \<noteq> 0 \<Longrightarrow> (2::int) ^ k dvd x * y"
proof (induction k arbitrary: a x)
  case (Suc k)
  show ?case
  proof (cases "2 dvd a")
    case True
    then obtain a' where a': "a = 2 * a'" by auto
    have "2 ^ 1 dvd x" using Suc.prems(2) True unfolding ok_div_def by (metis power_one_right)
    then obtain x' where x': "x = 2 * x'" by auto
    have "ok_div a' x'"
      unfolding ok_div_def
    proof (intro allI impI)
      fix j assume "2 ^ j dvd a'"
      then have "2 ^ Suc j dvd a" by (simp add: a')
      then have "2 ^ Suc j dvd x" using Suc.prems(2) unfolding ok_div_def by blast
      then show "2 ^ j dvd x'" by (simp add: x')
    qed
    moreover have "2 ^ k dvd a' * b" using Suc.prems(1) by (simp add: a' mult.assoc)
    ultimately have "2 ^ k dvd x' * y" using Suc.IH Suc.prems(3,4) a' by auto
    then show ?thesis by (simp add: x' mult.assoc)
  next
    case False
    then have "coprime (2 ^ Suc k) a" by simp
    then have "2 ^ Suc k dvd b" using Suc.prems(1) by (simp add: coprime_dvd_mult_right_iff)
    then have "2 ^ Suc k dvd y" using Suc.prems(3) unfolding ok_div_def by blast
    then show ?thesis by simp
  qed
qed simp

lemma ok_div_mult:
  assumes "ok_div a x" and "ok_div b y"
  shows "ok_div (a * b) (x * y)"
proof (cases "a = 0")
  case True
  then show ?thesis using assms by (simp add: ok_div_0)
next
  case False
  then show ?thesis using pow2_dvd_mult [OF _ assms False] by (simp add: ok_div_def)
qed

lemma ok_div_mod: "ok_div d x \<Longrightarrow> ok_div d (x mod 2 ^ n)"
  unfolding ok_div_def
proof (intro allI impI)
  fix k assume "\<forall>k. 2 ^ k dvd d \<longrightarrow> 2 ^ k dvd x" and "2 ^ k dvd d"
  then have x: "2 ^ k dvd x" by blast
  show "2 ^ k dvd x mod 2 ^ n"
  proof (cases "k \<le> n")
    case True
    then show ?thesis using x by (simp add: dvd_mod le_imp_power_dvd)
  next
    case False
    then have "2 ^ n dvd x" using x by (meson dvd_trans le_imp_power_dvd nat_le_linear)
    then show ?thesis by (simp add: mod_eq_0_iff_dvd)
  qed
qed

lemma ok_div_truncate:
  assumes "ok_div d x"
  shows "ok_div d (truncate_int dt x)"
proof -
  let ?n = "bitwidth dt" let ?y = "x mod 2 ^ ?n"
  have y: "ok_div d ?y" by (rule ok_div_mod [OF assms])
  have "ok_div d (?y - 2 ^ ?n)" if "?y div 2 ^ (?n - 1) \<noteq> 0"
    unfolding ok_div_def
  proof (intro allI impI)
    fix k assume k: "2 ^ k dvd d"
    show "2 ^ k dvd ?y - 2 ^ ?n"
    proof (cases "k \<le> ?n")
      case True
      then show ?thesis using y k unfolding ok_div_def by (simp add: dvd_diff le_imp_power_dvd)
    next
      case False
      then have "2 ^ ?n dvd x" using assms k unfolding ok_div_def by (meson dvd_trans le_imp_power_dvd nat_le_linear)
      then show ?thesis using that by (simp add: mod_eq_0_iff_dvd)
    qed
  qed
  then show ?thesis using y by (auto simp: truncate_int_def Let_def)
qed

section \<open>Descriptions\<close>

record 'v view =
  v_ints :: "'v \<Rightarrow> int set"
  v_addrs :: "'v \<Rightarrow> int set"

definition describes :: "'v view \<Rightarrow> data_predicate \<Rightarrow> 'v \<Rightarrow> bool" where
  "describes W p x \<longleftrightarrow> (\<forall>e \<in> v_ints W x. ok_div (div_by p) e \<and> (\<forall>c. const_value p = Some c \<longrightarrow> e = c)) \<and>
     (\<forall>a \<in> v_addrs W x. ok_div (div_by p) a)"

definition known :: "'v view \<Rightarrow> df_state \<Rightarrow> var \<Rightarrow> 'v \<Rightarrow> bool" where
  "known W s v x \<longleftrightarrow> (\<exists>p. pred_at s v = Some p \<and> describes W p x)"

lemma describes_weaker: "describes W p x \<Longrightarrow> weaker p q \<Longrightarrow> describes W q x"
  by (auto simp: describes_def weaker_def intro: ok_div_dvd)

lemma describes_true [simp]: "describes W ALWAYS_TRUE_PREDICATE x"
  by (simp add: describes_def ALWAYS_TRUE_PREDICATE_def)

lemma absorbs_known: "absorbs s v p \<Longrightarrow> describes W p x \<Longrightarrow> known W s v x"
  using absorbs_weaker describes_weaker unfolding known_def by metis

section \<open>Clean effects\<close>

lemma noop_update: "noop (update_pred v p) u s \<Longrightarrow> absorbs s v p"
proof -
  assume n: "noop (update_pred v p) u s"
  then have t: "pred_tracker s = tracker_update unify (=) v p (pred_tracker s)" and c: "\<not> tracker_dirty (pred_tracker s)"
    by (auto simp: noop_def update_pred_def modifyE_def df_dirty_def dest: arg_cong [where f = pred_tracker])
  have "tracker_dirty (tracker_update unify (=) v p (pred_tracker s))" if "\<not> absorbs s v p"
    using that by (auto simp: tracker_update_def absorbs_def pred_at_def Let_def split: option.splits)
  with t c show ?thesis by metis
qed

lemma noop_pred_of: "noop (pred_of v) p s \<Longrightarrow> pred_at s v = Some p"
  by (auto simp: noop_def pred_of_def bindE_get pred_at_def raiseE_def retE_def split: option.splits)

lemma noop_lift: "noop (lift_result r) x s \<Longrightarrow> r = Inr x"
  by (simp add: noop_def lift_result_def)

lemma noop_ret: "noop (retE x) y s \<Longrightarrow> y = x"
  by (simp add: noop_def retE_def)

lemma noop_set_pred: "noop (set_pred v p) u s \<Longrightarrow> absorbs s v p"
  unfolding set_pred_def by (erule noop_bind) (auto dest: noop_update)

lemma noop_set_always_true: "noop (set_always_true v) u s \<Longrightarrow> known W s v x"
  unfolding set_always_true_def by (rule absorbs_known [OF noop_set_pred describes_true])

lemma noop_propagate:
  assumes "noop (propagate a b) u s"
  shows "\<exists>p. pred_at s a = Some p \<and> absorbs s b p"
proof -
  have "noop (bindE (pred_of a) (update_pred b)) () s"
    using assms unfolding propagate_def by (rule noop_bind) (auto intro: moves_bind)
  then obtain p where "noop (pred_of a) p s" "noop (update_pred b p) () s" by (rule noop_bind) auto
  then show ?thesis using noop_pred_of noop_update by blast
qed

lemma propagate_known: "noop (propagate a b) u s \<Longrightarrow> known W s a x \<Longrightarrow> known W s b x"
  using noop_propagate [of a b u s] absorbs_known unfolding known_def by fastforce

lemma noop_forE: "noop (forE xs f) u s \<Longrightarrow> (\<And>x. moves (f x)) \<Longrightarrow> x \<in> set xs \<Longrightarrow> noop (f x) () s"
proof (induction xs)
  case (Cons y xs)
  from Cons.prems(1,2) have "noop (f y) () s \<and> noop (forE xs f) () s"
    unfolding forE.simps by (auto elim!: noop_bind intro: moves_forE)
  then show ?case using Cons.IH Cons.prems(2,3) by auto
qed simp

lemma noop_check: "noop (if c then skipE else raiseE e) u s \<Longrightarrow> c"
  by (auto simp: noop_def raiseE_def split: if_splits)

lemma noop_zip:
  assumes "noop (zip_strict xs ys f) u s" and m: "\<And>p. moves (f p)"
  shows "list_all2 (\<lambda>x y. noop (f (x, y)) () s) xs ys"
proof -
  from assms(1) have "noop (forE (zip xs ys) f) () s" "length xs = length ys"
    unfolding zip_strict_def by (auto elim!: noop_bind intro: moves_forE [OF m] dest: noop_check)
  then show ?thesis by (auto simp: list_all2_iff intro: noop_forE [OF _ m])
qed

lemma noop_zip3:
  assumes "noop (zip3_strict xs ys zs f) u s" and m: "\<And>p. moves (f p)"
  shows "length xs = length ys \<and> length ys = length zs \<and> (\<forall>p \<in> set (zip xs (zip ys zs)). noop (f p) () s)"
proof -
  from assms(1) have "noop (forE (zip xs (zip ys zs)) f) () s" "length xs = length ys \<and> length ys = length zs"
    unfolding zip3_strict_def by (auto elim!: noop_bind intro: moves_forE [OF m] dest: noop_check)
  then show ?thesis by (auto intro: noop_forE [OF _ m])
qed

end
