(* ===== verification/DataflowRun.thy ===== *)
theory DataflowRun
  imports DataflowSound
begin

text \<open>
  What the analysis assumes of the operations, and that it describes their results.

  \<^item> \<open>result_spec\<close> is what an operation does to the integers and addresses of its operands: copies keep
    them, arithmetic is modulo the width of the result, an offset moves an address by whole elements;
  \<^item> \<open>op_sound\<close>: at a state that the analysis of an operation leaves as it is, known operands give known
    results.
\<close>

section \<open>What the operations do\<close>

definition keeps :: "'v view \<Rightarrow> 'v list \<Rightarrow> 'v \<Rightarrow> bool" where
  "keeps W vs y \<longleftrightarrow> v_ints W y \<subseteq> (\<Union>v \<in> set vs. v_ints W v) \<and> v_addrs W y \<subseteq> (\<Union>v \<in> set vs. v_addrs W v)"

definition arith :: "string \<Rightarrow> int \<Rightarrow> int \<Rightarrow> int" where
  "arith fn a b = (if fn = ''add'' then a + b else if fn = ''sub'' then a - b else a * b)"

definition integral_of :: "ir_context \<Rightarrow> var \<Rightarrow> dtype option" where
  "integral_of ctx v = (case dtype_of ctx v of Inl e \<Rightarrow> None | Inr dt \<Rightarrow> if is_integral dt then Some dt else None)"

text \<open>The pointee of a pointer tile with one element, and so the bytes an offset is scaled by.\<close>

definition offset_bytes :: "ir_context \<Rightarrow> var \<Rightarrow> int option" where
  "offset_bytes ctx v = (case type_of ctx v of
     Inr (TileTy dt shape) \<Rightarrow>
       (case bindS (PointerInfo dt) pointer_pointee_dtype of
          Inr pointee \<Rightarrow> if (\<forall>x \<in> set shape. x = 1) \<and> bitwidth pointee mod 8 = 0
                         then Some (int (bitwidth pointee div 8)) else None
        | _ \<Rightarrow> None)
   | _ \<Rightarrow> None)"

fun result_spec :: "'v view \<Rightarrow> ir_context \<Rightarrow> op_class \<Rightarrow> var \<Rightarrow> var list \<Rightarrow> 'v list \<Rightarrow> 'v \<Rightarrow> bool" where
  "result_spec W ctx Assign r xs vs y = keeps W vs y"
| "result_spec W ctx ForeignPointerCast r xs vs y = keeps W vs y"
| "result_spec W ctx TileBroadcast r xs vs y = keeps W vs y"
| "result_spec W ctx TileReshape r xs vs y = keeps W vs y"
| "result_spec W ctx (TilePermute axes) r xs vs y = keeps W vs y"
| "result_spec W ctx (AssumeBounded l u) r xs vs y = keeps W vs y"
| "result_spec W ctx (AssumeDivBy d) r xs vs y = (keeps W vs y \<and> (\<forall>e \<in> v_ints W y \<union> v_addrs W y. d dvd e))"
| "result_spec W ctx (TypedConst c) r xs vs y =
     (\<forall>i. int_of_const c = Some i \<longrightarrow> v_ints W y \<subseteq> {i} \<and> v_addrs W y = {})"
| "result_spec W ctx (RawBinaryArithmeticOperation fn rm ftz) r xs vs y =
     (\<forall>dt. integral_of ctx r = Some dt \<and> fn \<in> {''add'', ''sub'', ''mul''} \<longrightarrow>
        v_ints W y \<subseteq> {truncate_int dt (arith fn a b) | a b. a \<in> v_ints W (vs ! 0) \<and> b \<in> v_ints W (vs ! 1)} \<and>
        v_addrs W y = {})"
| "result_spec W ctx (Unary fn rm ftz) r xs vs y =
     (\<forall>dt. integral_of ctx r = Some dt \<and> fn \<in> {''abs'', ''neg''} \<longrightarrow>
        v_ints W y \<subseteq> {truncate_int dt (if fn = ''abs'' then \<bar>a\<bar> else - a) | a. a \<in> v_ints W (vs ! 0)} \<and>
        v_addrs W y = {})"
| "result_spec W ctx TileAsType r xs vs y =
     (\<forall>dt. integral_of ctx r = Some dt \<and> integral_of ctx (xs ! 0) \<noteq> None \<longrightarrow>
        v_ints W y \<subseteq> truncate_int dt ` v_ints W (vs ! 0) \<and> v_addrs W y = {})"
| "result_spec W ctx PointerOffset r xs vs y = (v_ints W y = {} \<and>
     (\<forall>k. offset_bytes ctx (xs ! 0) = Some k \<longrightarrow>
        v_addrs W y \<subseteq> {(a + i * k) mod 2 ^ 64 | a i. a \<in> v_addrs W (vs ! 0) \<and> i \<in> v_ints W (vs ! 1)}))"
| "result_spec W ctx c r xs vs y = True"

definition op_spec :: "'v view \<Rightarrow> ir_context \<Rightarrow> op_class \<Rightarrow> var list \<Rightarrow> var list \<Rightarrow> 'v list \<Rightarrow> 'v list \<Rightarrow> bool" where
  "op_spec W ctx c rs xs vs ys \<longleftrightarrow> (\<forall>(r, y) \<in> set (zip rs ys). result_spec W ctx c r xs vs y)"

section \<open>Clean operations\<close>

lemma noop_with_result: "noop (with_result rs k) u s \<Longrightarrow> \<exists>r. rs = [r] \<and> noop (k r) u s"
  by (auto simp: with_result_def noop_def raiseE_def split: list.splits)

lemma noop_with_operand: "noop (with_operand xs k) u s \<Longrightarrow> \<exists>x. xs = [x] \<and> noop (k x) u s"
  by (auto simp: with_operand_def noop_def raiseE_def split: list.splits)

lemma noop_with_operands: "noop (with_operands xs k) u s \<Longrightarrow> \<exists>x y. xs = [x, y] \<and> noop (k x y) u s"
  by (auto simp: with_operands_def noop_def raiseE_def split: list.splits)

lemmas noop_operands = noop_with_result noop_with_operand noop_with_operands

lemma describes_keeps: "describes W p v \<Longrightarrow> keeps W [v] y \<Longrightarrow> describes W p y"
  unfolding describes_def keeps_def by auto

lemma propagate_keeps:
  assumes "noop (propagate x r) u s" "known W s x v" "keeps W [v] y"
  shows "known W s r y"
  using propagate_known [OF assms(1)] describes_keeps assms(2,3) unfolding known_def by metis

lemma set_pred_known: "noop (set_pred r p) u s \<Longrightarrow> describes W p y \<Longrightarrow> known W s r y"
  by (rule absorbs_known [OF noop_set_pred])

lemma forE_always_true: "noop (forE rs set_always_true) u s \<Longrightarrow> length rs = length ys \<Longrightarrow> list_all2 (known W s) rs ys"
  by (auto simp: list_all2_conv_all_nth intro!: noop_set_always_true dest: noop_forE [OF _ moves_set_always_true nth_mem])

lemma integral_of_Some: "integral_of ctx v = Some dt \<longleftrightarrow> dtype_of ctx v = Inr dt \<and> is_integral dt"
  by (auto simp: integral_of_def split: sum.splits if_splits)

lemma describes_div_only:
  "describes W (ALWAYS_TRUE_PREDICATE\<lparr>div_by := d\<rparr>) y \<longleftrightarrow> (\<forall>e \<in> v_ints W y \<union> v_addrs W y. ok_div d e)"
  by (auto simp: describes_def ALWAYS_TRUE_PREDICATE_def)

lemma known_div: "known W s x v \<Longrightarrow> pred_at s x = Some p \<Longrightarrow> e \<in> v_ints W v \<union> v_addrs W v \<Longrightarrow> ok_div (div_by p) e"
  unfolding known_def describes_def by auto

lemma noop_assume:
  assumes "noop (bindE (pred_of x) (\<lambda>p. bindE (update_pred r (p\<lparr>div_by := d\<rparr>)) (\<lambda>_. propagate_list x r))) u s"
  shows "\<exists>p. pred_at s x = Some p \<and> absorbs s r (p\<lparr>div_by := d\<rparr>)"
proof -
  obtain p where p: "noop (pred_of x) p s" "noop (bindE (update_pred r (p\<lparr>div_by := d\<rparr>)) (\<lambda>_. propagate_list x r)) u s"
    using assms by (rule noop_bind) (auto intro!: moves_rules)
  from p(2) have "absorbs s r (p\<lparr>div_by := d\<rparr>)" by (rule noop_bind) (auto intro: noop_update)
  then show ?thesis using noop_pred_of [OF p(1)] by blast
qed

lemma noop_binary:
  assumes "noop (bindE (binary_divisibility ctx fn l q r) (\<lambda>d. set_pred r (ALWAYS_TRUE_PREDICATE\<lparr>div_by := d\<rparr>))) u s"
  shows "\<exists>d. absorbs s r (ALWAYS_TRUE_PREDICATE\<lparr>div_by := d\<rparr>) \<and> (d = 1 \<or>
     (\<exists>dt px py. integral_of ctx r = Some dt \<and> pred_at s l = Some px \<and> pred_at s q = Some py \<and>
       fn \<in> {''add'', ''sub'', ''mul''} \<and>
       d = (if fn = ''mul'' then div_by px * div_by py else gcd (div_by px) (div_by py))))"
proof -
  obtain d where d: "noop (binary_divisibility ctx fn l q r) d s"
    "noop (set_pred r (ALWAYS_TRUE_PREDICATE\<lparr>div_by := d\<rparr>)) u s"
    using assms by (rule noop_bind) auto
  from d(1) obtain dt where dt: "dtype_of ctx r = Inr dt" and n: "noop (if is_integral dt then
       bindE (pred_of l) (\<lambda>x. bindE (pred_of q) (\<lambda>y.
       retE (if fn = ''add'' \<or> fn = ''sub'' then gcd (div_by x) (div_by y)
             else if fn = ''mul'' then div_by x * div_by y else 1))) else retE 1) d s"
    unfolding binary_divisibility_def by (rule noop_bind) (auto intro!: moves_rules dest: noop_lift)
  show ?thesis
  proof (cases "is_integral dt")
    case True
    then have "noop (bindE (pred_of l) (\<lambda>x. bindE (pred_of q) (\<lambda>y.
       retE (if fn = ''add'' \<or> fn = ''sub'' then gcd (div_by x) (div_by y)
             else if fn = ''mul'' then div_by x * div_by y else 1)))) d s" using n by simp
    then obtain px where px: "noop (pred_of l) px s" and m: "noop (bindE (pred_of q) (\<lambda>y.
       retE (if fn = ''add'' \<or> fn = ''sub'' then gcd (div_by px) (div_by y)
             else if fn = ''mul'' then div_by px * div_by y else 1))) d s"
      by (rule noop_bind) (auto intro!: moves_rules)
    from m obtain py where "noop (pred_of q) py s" "d = (if fn = ''add'' \<or> fn = ''sub'' then gcd (div_by px) (div_by py)
             else if fn = ''mul'' then div_by px * div_by py else 1)"
      by (rule noop_bind) (auto dest: noop_ret)
    with px show ?thesis using dt True noop_pred_of
      by (intro exI [of _ d] conjI noop_set_pred [OF d(2)]) (auto simp: integral_of_Some)
  qed (use n noop_set_pred [OF d(2)] in \<open>auto dest: noop_ret\<close>)
qed

lemma noop_unary:
  assumes "noop (bindE (unary_divisibility ctx fn x r) (\<lambda>d. set_pred r (ALWAYS_TRUE_PREDICATE\<lparr>div_by := d\<rparr>))) u s"
  shows "\<exists>d. absorbs s r (ALWAYS_TRUE_PREDICATE\<lparr>div_by := d\<rparr>) \<and> (d = 1 \<or>
     (\<exists>dt px. integral_of ctx r = Some dt \<and> pred_at s x = Some px \<and> fn \<in> {''abs'', ''neg''} \<and> d = div_by px))"
proof -
  obtain d where d: "noop (unary_divisibility ctx fn x r) d s"
    "noop (set_pred r (ALWAYS_TRUE_PREDICATE\<lparr>div_by := d\<rparr>)) u s"
    using assms by (rule noop_bind) auto
  from d(1) obtain dt where dt: "dtype_of ctx r = Inr dt" and n: "noop (if is_integral dt then
       bindE (pred_of x) (\<lambda>p. retE (if fn = ''abs'' \<or> fn = ''neg'' then div_by p else 1)) else retE 1) d s"
    unfolding unary_divisibility_def by (rule noop_bind) (auto intro!: moves_rules dest: noop_lift)
  show ?thesis
  proof (cases "is_integral dt")
    case True
    then have "noop (bindE (pred_of x) (\<lambda>p. retE (if fn = ''abs'' \<or> fn = ''neg'' then div_by p else 1))) d s"
      using n by simp
    then obtain px where "noop (pred_of x) px s" "d = (if fn = ''abs'' \<or> fn = ''neg'' then div_by px else 1)"
      by (rule noop_bind) (auto dest: noop_ret)
    then show ?thesis using dt True noop_pred_of
      by (intro exI [of _ d] conjI noop_set_pred [OF d(2)]) (auto simp: integral_of_Some)
  qed (use n noop_set_pred [OF d(2)] in \<open>auto dest: noop_ret\<close>)
qed

lemma noop_astype:
  assumes "noop (bindE (lift_result (dtype_of ctx x)) (\<lambda>orig_dtype. bindE (lift_result (dtype_of ctx r)) (\<lambda>result_dtype.
     bindE (pred_of x) (\<lambda>p. set_pred r (astype_predicate orig_dtype result_dtype p))))) u s"
  shows "\<exists>dt dt' p. dtype_of ctx x = Inr dt \<and> dtype_of ctx r = Inr dt' \<and> pred_at s x = Some p \<and>
     absorbs s r (astype_predicate dt dt' p)"
proof -
  obtain dt where dt: "dtype_of ctx x = Inr dt" and
    n: "noop (bindE (lift_result (dtype_of ctx r)) (\<lambda>result_dtype.
      bindE (pred_of x) (\<lambda>p. set_pred r (astype_predicate dt result_dtype p)))) u s"
    using assms by (rule noop_bind) (auto intro!: moves_rules dest: noop_lift)
  from n obtain dt' where dt': "dtype_of ctx r = Inr dt'" and
    n: "noop (bindE (pred_of x) (\<lambda>p. set_pred r (astype_predicate dt dt' p))) u s"
    by (rule noop_bind) (auto intro!: moves_rules dest: noop_lift)
  from n obtain p where "noop (pred_of x) p s" "noop (set_pred r (astype_predicate dt dt' p)) u s"
    by (rule noop_bind) auto
  then show ?thesis using dt dt' noop_pred_of noop_set_pred by blast
qed

lemma astype_describes:
  assumes p: "describes W p v"
    and i: "\<And>dt. integral_of ctx r = Some dt \<Longrightarrow> integral_of ctx x \<noteq> None \<Longrightarrow>
      v_ints W y \<subseteq> truncate_int dt ` v_ints W v \<and> v_addrs W y = {}"
    and t: "dtype_of ctx x = Inr dt" "dtype_of ctx r = Inr dt'"
  shows "describes W (astype_predicate dt dt' p) y"
proof (cases "is_integral dt \<and> is_integral dt'")
  case True
  then have y: "v_ints W y \<subseteq> truncate_int dt' ` v_ints W v" "v_addrs W y = {}"
    using i [of dt'] t by (auto simp: integral_of_def)
  have "ok_div (gcd (div_by p) (2 ^ bitwidth dt')) (truncate_int dt' e) \<and>
      (\<forall>c. map_option (truncate_int dt') (const_value p) = Some c \<longrightarrow> truncate_int dt' e = c)" if "e \<in> v_ints W v" for e
  proof
    show "ok_div (gcd (div_by p) (2 ^ bitwidth dt')) (truncate_int dt' e)"
      by (rule ok_div_truncate, rule ok_div_dvd [of "div_by p"]) (use p that in \<open>auto simp: describes_def\<close>)
    show "\<forall>c. map_option (truncate_int dt') (const_value p) = Some c \<longrightarrow> truncate_int dt' e = c"
      using p that by (auto simp: describes_def)
  qed
  then show ?thesis using y True by (auto simp: describes_def astype_predicate_def)
qed (auto simp: describes_def astype_predicate_def)


lemma noop_offset:
  assumes "noop (analyze_op ctx PointerOffset [r] [x, i]) u s"
  shows "\<exists>p pointee dt shape off. pred_at s x = Some p \<and> type_of ctx x = Inr (TileTy dt shape) \<and>
    absorbs s r (p\<lparr>div_by := pointer_offset_divisibility pointee shape p off\<rparr>) \<and>
    ((\<forall>x \<in> set shape. x = 1) \<longrightarrow> bindS (PointerInfo dt) pointer_pointee_dtype = Inr pointee \<and> pred_at s i = Some off)"
proof -
  let ?one = "\<lambda>shape. \<forall>x \<in> set shape. x = (1::int)"
  let ?C = "\<lambda>dt shape. bindE (lift_result (PointerInfo dt)) (\<lambda>info.
    bindE (if ?one shape then lift_result (pointer_pointee_dtype info) else retE DT_bool) (\<lambda>pointee.
    bindE (if ?one shape then pred_of i else pred_of x) (\<lambda>off. bindE (pred_of x) (\<lambda>ptr.
    set_pred r (ptr\<lparr>div_by := pointer_offset_divisibility pointee shape ptr off\<rparr>)))))"
  have "noop (bindE (lift_result (type_of ctx x)) (\<lambda>ptr_ty. case ptr_ty of
       TileTy dt shape \<Rightarrow> ?C dt shape | _ \<Rightarrow> raiseE AssertionError)) u s"
    using assms by (simp add: with_operands_def with_result_def)
  then obtain ty where ty: "type_of ctx x = Inr ty"
    "noop (case ty of TileTy dt shape \<Rightarrow> ?C dt shape | _ \<Rightarrow> raiseE AssertionError) u s"
    by (rule noop_bind) (auto intro!: moves_rules dest: noop_lift split: ir_type.split)
  then obtain dt shape where n: "ty = TileTy dt shape" "noop (?C dt shape) u s"
    by (cases ty) (auto simp: noop_def raiseE_def)
  from n(2) obtain info where info: "PointerInfo dt = Inr info" and
    n2: "noop (bindE (if ?one shape then lift_result (pointer_pointee_dtype info) else retE DT_bool) (\<lambda>pointee.
      bindE (if ?one shape then pred_of i else pred_of x) (\<lambda>off. bindE (pred_of x) (\<lambda>ptr.
      set_pred r (ptr\<lparr>div_by := pointer_offset_divisibility pointee shape ptr off\<rparr>))))) u s"
    by (rule noop_bind) (auto intro!: moves_rules dest: noop_lift)
  from n2 obtain pointee where
    a: "noop (if ?one shape then lift_result (pointer_pointee_dtype info) else retE DT_bool) pointee s" and
    n3: "noop (bindE (if ?one shape then pred_of i else pred_of x) (\<lambda>off. bindE (pred_of x) (\<lambda>ptr.
      set_pred r (ptr\<lparr>div_by := pointer_offset_divisibility pointee shape ptr off\<rparr>)))) u s"
    by (rule noop_bind) (auto intro!: moves_rules)
  from n3 obtain off where
    b: "noop (if ?one shape then pred_of i else pred_of x) off s" and
    n4: "noop (bindE (pred_of x) (\<lambda>ptr.
      set_pred r (ptr\<lparr>div_by := pointer_offset_divisibility pointee shape ptr off\<rparr>))) u s"
    by (rule noop_bind) (auto intro!: moves_rules)
  from n4 obtain p where p: "noop (pred_of x) p s"
    "noop (set_pred r (p\<lparr>div_by := pointer_offset_divisibility pointee shape p off\<rparr>)) u s"
    by (rule noop_bind) auto
  have "?one shape \<longrightarrow> bindS (PointerInfo dt) pointer_pointee_dtype = Inr pointee \<and> pred_at s i = Some off"
    using a b info by (auto dest: noop_lift noop_pred_of)
  then show ?thesis using noop_pred_of [OF p(1)] noop_set_pred [OF p(2)] ty(1) n(1) by blast
qed

lemma offset_describes:
  assumes p: "describes W p v" and off: "(\<forall>x \<in> set shape. x = 1) \<Longrightarrow> describes W off i"
    and y: "v_ints W y = {}"
    and k: "\<And>k. (\<forall>x \<in> set shape. x = 1) \<Longrightarrow> bitwidth pointee mod 8 = 0 \<Longrightarrow> k = int (bitwidth pointee div 8) \<Longrightarrow>
      v_addrs W y \<subseteq> {(a + j * k) mod 2 ^ 64 | a j. a \<in> v_addrs W v \<and> j \<in> v_ints W i}"
  shows "describes W (p\<lparr>div_by := pointer_offset_divisibility pointee shape p off\<rparr>) y"
proof (cases "(\<forall>x \<in> set shape. x = 1) \<and> bitwidth pointee mod 8 = 0")
  case True
  let ?k = "int (bitwidth pointee div 8)"
  have "ok_div (gcd (div_by p) (div_by off * ?k)) ((a + j * ?k) mod 2 ^ 64)" if "a \<in> v_addrs W v" "j \<in> v_ints W i" for a j
    by (intro ok_div_mod ok_div_add ok_div_mult) (use p off True that in \<open>auto simp: describes_def\<close>)
  then show ?thesis using y k [of ?k] True by (auto simp: describes_def pointer_offset_divisibility_def)
next
  case False
  then have "pointer_offset_divisibility pointee shape p off = 1"
    by (auto simp: pointer_offset_divisibility_def)
  then show ?thesis using y by (simp add: describes_def)
qed

lemma offset_sound:
  assumes n: "noop (analyze_op ctx PointerOffset [r] [x, i]) u s" and kx: "known W s x v" and ki: "known W s i w"
    and sp: "result_spec W ctx PointerOffset r [x, i] [v, w] y"
  shows "known W s r y"
proof -
  from noop_offset [OF n] obtain p pointee dt shape off where o:
    "pred_at s x = Some p" "type_of ctx x = Inr (TileTy dt shape)"
    "absorbs s r (p\<lparr>div_by := pointer_offset_divisibility pointee shape p off\<rparr>)"
    "(\<forall>x \<in> set shape. x = 1) \<longrightarrow> bindS (PointerInfo dt) pointer_pointee_dtype = Inr pointee \<and> pred_at s i = Some off"
    by blast
  have "describes W p v" "(\<forall>x \<in> set shape. x = 1) \<Longrightarrow> describes W off w"
    using kx ki o by (auto simp: known_def)
  moreover have "v_addrs W y \<subseteq> {(a + j * k) mod 2 ^ 64 | a j. a \<in> v_addrs W v \<and> j \<in> v_ints W w}"
    if "\<forall>x \<in> set shape. x = 1" "bitwidth pointee mod 8 = 0" "k = int (bitwidth pointee div 8)" for k
  proof -
    have "offset_bytes ctx x = Some k" using o that by (simp add: offset_bytes_def)
    then show ?thesis using sp by simp
  qed
  ultimately have "describes W (p\<lparr>div_by := pointer_offset_divisibility pointee shape p off\<rparr>) y"
    using sp by (intro offset_describes) auto
  then show ?thesis by (rule absorbs_known [OF o(3)])
qed

lemma nth_Cons_1: "(x # y # xs) ! 1 = y"
  by simp

lemma binary_sound:
  assumes n: "noop (analyze_op ctx (RawBinaryArithmeticOperation fn rm ftz) [r] [a, b]) u s"
    and k: "known W s a v" "known W s b w"
    and sp: "result_spec W ctx (RawBinaryArithmeticOperation fn rm ftz) r [a, b] [v, w] y"
  shows "known W s r y"
proof -
  have "noop (bindE (binary_divisibility ctx fn a b r) (\<lambda>d. set_pred r (ALWAYS_TRUE_PREDICATE\<lparr>div_by := d\<rparr>))) u s"
    using n by (simp add: with_operands_def with_result_def)
  from noop_binary [OF this] obtain d where c: "absorbs s r (ALWAYS_TRUE_PREDICATE\<lparr>div_by := d\<rparr>)" and
    d: "d = 1 \<or> (\<exists>dt px py. integral_of ctx r = Some dt \<and> pred_at s a = Some px \<and> pred_at s b = Some py \<and>
       fn \<in> {''add'', ''sub'', ''mul''} \<and>
       d = (if fn = ''mul'' then div_by px * div_by py else gcd (div_by px) (div_by py)))" by blast
  have "ok_div d e" if e: "e \<in> v_ints W y \<union> v_addrs W y" for e
  proof (cases "d = 1")
    case False
    with d obtain dt px py where D: "integral_of ctx r = Some dt" "pred_at s a = Some px" "pred_at s b = Some py"
       "fn \<in> {''add'', ''sub'', ''mul''}" "d = (if fn = ''mul'' then div_by px * div_by py else gcd (div_by px) (div_by py))"
      by blast
    have "v_ints W y \<subseteq> {truncate_int dt (arith fn a b) | a b. a \<in> v_ints W v \<and> b \<in> v_ints W w} \<and> v_addrs W y = {}"
      using spec [OF sp [unfolded result_spec.simps nth_Cons_0 nth_Cons_1], of dt] D(1,4) by (rule mp [OF _ conjI])
    with e obtain p q where pq: "p \<in> v_ints W v" "q \<in> v_ints W w" "e = truncate_int dt (arith fn p q)" by blast
    then have "ok_div (div_by px) p" "ok_div (div_by py) q" using known_div [OF k(1) D(2)] known_div [OF k(2) D(3)] by simp_all
    then have "ok_div d (arith fn p q)" using D(4,5) by (auto simp: arith_def intro: ok_div_add ok_div_diff ok_div_mult)
    then show ?thesis using pq(3) ok_div_truncate by blast
  qed simp
  then show ?thesis by (intro absorbs_known [OF c]) (simp add: describes_div_only)
qed

lemma unary_sound:
  assumes n: "noop (analyze_op ctx (Unary fn rm ftz) [r] [a]) u s"
    and k: "known W s a v" and sp: "result_spec W ctx (Unary fn rm ftz) r [a] [v] y"
  shows "known W s r y"
proof -
  have "noop (bindE (unary_divisibility ctx fn a r) (\<lambda>d. set_pred r (ALWAYS_TRUE_PREDICATE\<lparr>div_by := d\<rparr>))) u s"
    using n by (simp add: with_operand_def with_result_def)
  from noop_unary [OF this] obtain d where c: "absorbs s r (ALWAYS_TRUE_PREDICATE\<lparr>div_by := d\<rparr>)" and
    d: "d = 1 \<or> (\<exists>dt px. integral_of ctx r = Some dt \<and> pred_at s a = Some px \<and> fn \<in> {''abs'', ''neg''} \<and> d = div_by px)"
    by blast
  have "ok_div d e" if e: "e \<in> v_ints W y \<union> v_addrs W y" for e
  proof (cases "d = 1")
    case False
    with d obtain dt px where D: "integral_of ctx r = Some dt" "pred_at s a = Some px" "fn \<in> {''abs'', ''neg''}" "d = div_by px"
      by blast
    have "v_ints W y \<subseteq> {truncate_int dt (if fn = ''abs'' then \<bar>a\<bar> else - a) | a. a \<in> v_ints W v} \<and> v_addrs W y = {}"
      using spec [OF sp [unfolded result_spec.simps nth_Cons_0], of dt] D(1,3) by (rule mp [OF _ conjI])
    with e obtain p where p: "p \<in> v_ints W v" "e = truncate_int dt (if fn = ''abs'' then \<bar>p\<bar> else - p)" by blast
    then have "ok_div d p" using known_div [OF k D(2)] D(4) by simp
    then show ?thesis unfolding p(2) by (auto intro: ok_div_truncate ok_div_abs_value ok_div_uminus)
  qed simp
  then show ?thesis by (intro absorbs_known [OF c]) (simp add: describes_div_only)
qed

section \<open>Every operation\<close>

lemma copy_sound:
  assumes "noop (with_operand xs (\<lambda>x. with_result rs (propagate x))) u s" "list_all2 (known W s) xs vs"
    and "\<forall>(r, y) \<in> set (zip rs ys). keeps W vs y" "length rs = length ys"
  shows "list_all2 (known W s) rs ys"
proof -
  from assms(1) obtain x r where "xs = [x]" "rs = [r]" "noop (propagate x r) u s"
    by (blast dest: noop_with_operand noop_with_result)
  moreover obtain v where "vs = [v]" "known W s x v" using assms(2) \<open>xs = [x]\<close> by (auto simp: list_all2_Cons1)
  moreover obtain y where "ys = [y]" using assms(4) \<open>rs = [r]\<close> by (cases ys) auto
  ultimately show ?thesis using assms(3) propagate_keeps by simp
qed

lemma op_sound:
  assumes n: "noop (analyze_op ctx c rs xs) u s" and k: "list_all2 (known W s) xs vs"
    and sp: "op_spec W ctx c rs xs vs ys" and len: "length rs = length ys" and g: "c \<noteq> GetArrayListItem"
  shows "list_all2 (known W s) rs ys"
proof -
  have one: "\<exists>y. ys = [y] \<and> result_spec W ctx c r xs vs y" if "rs = [r]" for r
    using that len sp by (cases ys) (auto simp: op_spec_def)
  have copy: ?thesis if "analyze_op ctx c rs xs = with_operand xs (\<lambda>x. with_result rs (propagate x))"
    and "\<And>r y. result_spec W ctx c r xs vs y = keeps W vs y"
    using copy_sound [of xs rs u s W vs ys] n k sp len that by (simp add: op_spec_def)
  have other: ?thesis if "analyze_op ctx c rs xs = forE rs set_always_true"
    using forE_always_true [of rs u s ys W] n len that by simp
  show ?thesis
  proof (cases c)
    case (AssumeDivBy d)
    then obtain x r where e: "xs = [x]" "rs = [r]" and
      m: "noop (bindE (pred_of x) (\<lambda>p. bindE (update_pred r (p\<lparr>div_by := d\<rparr>)) (\<lambda>_. propagate_list x r))) u s"
      using n by (auto dest!: noop_with_operand noop_with_result)
    obtain y v where y: "ys = [y]" "vs = [v]" "known W s x v" "keeps W [v] y" "\<forall>e \<in> v_ints W y \<union> v_addrs W y. d dvd e"
      using one [OF e(2)] k e AssumeDivBy by (auto simp: list_all2_Cons1)
    obtain p where p: "pred_at s x = Some p" "absorbs s r (p\<lparr>div_by := d\<rparr>)" using noop_assume [OF m] by blast
    have "describes W p y" using describes_keeps y(3,4) p(1) by (auto simp: known_def)
    then have "describes W (p\<lparr>div_by := d\<rparr>) y" using y(5) by (auto simp: describes_def intro: ok_div_of_dvd)
    then show ?thesis using absorbs_known [OF p(2)] e y(1) by simp
  next
    case PointerOffset
    then obtain x i r where e: "xs = [x, i]" "rs = [r]"
      using n by (auto dest!: noop_with_operands noop_with_result)
    with k obtain v w where v: "vs = [v, w]" "known W s x v" "known W s i w" by (auto simp: list_all2_Cons1)
    obtain y where y: "ys = [y]" "result_spec W ctx c r xs vs y" using one [OF e(2)] by blast
    show ?thesis using offset_sound [OF n [unfolded PointerOffset e] v(2,3)
        y(2) [unfolded PointerOffset e v(1)]] e y(1) by simp
  next
    case TileAsType
    then obtain x r where e: "xs = [x]" "rs = [r]" and
      m: "noop (bindE (lift_result (dtype_of ctx x)) (\<lambda>orig_dtype. bindE (lift_result (dtype_of ctx r)) (\<lambda>result_dtype.
        bindE (pred_of x) (\<lambda>p. set_pred r (astype_predicate orig_dtype result_dtype p))))) u s"
      using n by (auto dest!: noop_with_operand noop_with_result)
    obtain y v where y: "ys = [y]" "vs = [v]" "known W s x v" "result_spec W ctx TileAsType r [x] [v] y"
      using one [OF e(2)] k e TileAsType by (auto simp: list_all2_Cons1)
    obtain dt dt' p where p: "dtype_of ctx x = Inr dt" "dtype_of ctx r = Inr dt'" "pred_at s x = Some p"
      "absorbs s r (astype_predicate dt dt' p)" using noop_astype [OF m] by blast
    have "describes W (astype_predicate dt dt' p) y"
      by (rule astype_describes [where ctx = ctx and r = r and x = x and v = v]) (use p y(3,4) in \<open>auto simp: known_def\<close>)
    then show ?thesis using absorbs_known [OF p(4)] e y(1) by simp
  next
    case (TypedConst q)
    show ?thesis
    proof (cases "int_of_const q")
      case None
      then obtain r where "rs = [r]" "noop (set_always_true r) u s"
        using n TypedConst by (auto dest!: noop_with_result)
      then show ?thesis using one [of r] noop_set_always_true by fastforce
    next
      case (Some i)
      then obtain r where e: "rs = [r]" and m: "noop (bindE (lift_result (type_of ctx r)) (\<lambda>ty.
          set_pred r (const_predicate (is_scalar_type ty) i))) u s"
        using n TypedConst by (auto dest!: noop_with_result)
      from m obtain ty where "noop (set_pred r (const_predicate (is_scalar_type ty) i)) u s"
        by (rule noop_bind) auto
      moreover obtain y where y: "ys = [y]" "v_ints W y \<subseteq> {i}" "v_addrs W y = {}"
        using one [OF e] TypedConst Some by auto
      moreover have "describes W (const_predicate (is_scalar_type ty) i) y"
        using y by (auto simp: describes_def const_predicate_def)
      ultimately show ?thesis using set_pred_known e by fastforce
    qed
  next
    case (RawBinaryArithmeticOperation fn rm ftz)
    then obtain a b r where e: "xs = [a, b]" "rs = [r]"
      using n by (auto dest!: noop_with_operands noop_with_result)
    with k obtain v w where v: "vs = [v, w]" "known W s a v" "known W s b w" by (auto simp: list_all2_Cons1)
    obtain y where y: "ys = [y]" "result_spec W ctx c r xs vs y" using one [OF e(2)] by blast
    show ?thesis using binary_sound [OF n [unfolded RawBinaryArithmeticOperation e] v(2,3)
        y(2) [unfolded RawBinaryArithmeticOperation e v(1)]] e y(1) by simp
  next
    case (Unary fn rm ftz)
    then obtain a r where e: "xs = [a]" "rs = [r]"
      using n by (auto dest!: noop_with_operand noop_with_result)
    with k obtain v where v: "vs = [v]" "known W s a v" by (auto simp: list_all2_Cons1)
    obtain y where y: "ys = [y]" "result_spec W ctx c r xs vs y" using one [OF e(2)] by blast
    show ?thesis using unary_sound [OF n [unfolded Unary e] v(2) y(2) [unfolded Unary e v(1)]] e y(1) by simp
  qed ((rule copy; simp; fail) | (rule other; simp; fail) | (use g in \<open>simp; fail\<close>))+
qed

end
