(* ===== verification/DataflowExec.thy ===== *)
theory DataflowExec
  imports DataflowRun IRSem
begin

text \<open>
  Checked runs, and that the analysis passes the check.

  \<^item> \<open>exec_checked Q\<close> is \<open>exec\<close> with a check at every binding: a run in which a variable \<open>v\<close> gets a value
    \<open>x\<close> without \<open>Q v x\<close> goes wrong;
  \<^item> \<open>obeys\<close>: the operations of a program do on a machine what \<open>op_spec\<close> says, and \<open>tiles_ok\<close>: a tile
    that is put together from elements has their integers and addresses, and no axis is empty;
  \<^item> \<open>block_sound\<close>: at a state that a pass over a block leaves as it is, runs of the block pass the check
    for \<open>known\<close>.
\<close>

section \<open>Checked runs\<close>

definition bind_checked :: "(var \<Rightarrow> 'v \<Rightarrow> bool) \<Rightarrow> var list \<Rightarrow> 'v list \<Rightarrow> 'v env \<Rightarrow> 'v env option" where
  "bind_checked Q xs vs \<rho> = (if list_all2 Q xs vs then bind_vars xs vs \<rho> else None)"

definition resume_checked :: "(var \<Rightarrow> 'v \<Rightarrow> bool) \<Rightarrow> var list \<Rightarrow> 'v env \<Rightarrow>
    ('v env \<Rightarrow> 's \<Rightarrow> ('v outcome \<times> 's) option) \<Rightarrow> ('v outcome \<times> 's) option \<Rightarrow> ('v outcome \<times> 's) option" where
  "resume_checked Q rs \<rho> k r = Option.bind r (\<lambda>(out, t). case out of
     Yielded ys \<Rightarrow> Option.bind (bind_checked Q rs ys \<rho>) (\<lambda>\<rho>'. k \<rho>' t)
   | Fell \<Rightarrow> None
   | _ \<Rightarrow> Some (out, t))"

fun exec_checked :: "(var \<Rightarrow> 'v \<Rightarrow> bool) \<Rightarrow> ('v, 's) machine \<Rightarrow> nat \<Rightarrow> ir_op list \<Rightarrow> 'v env \<Rightarrow> 's \<Rightarrow> ('v outcome \<times> 's) option" where
  "exec_checked Q M n [] \<rho> s = Some (Fell, s)"
| "exec_checked Q M n (Operation c rs xs # ops) \<rho> s =
     (if c = Return then Some (Returned, s)
      else Option.bind (lookups \<rho> xs) (\<lambda>vs. Option.bind (m_step M c vs s) (\<lambda>(ys, t).
        resume_checked Q rs \<rho> (exec_checked Q M n ops) (Some (Yielded ys, t)))))"
| "exec_checked Q M n (Loop i r init ps body rs # ops) \<rho> s =
     Option.bind (lookups \<rho> init) (\<lambda>vs. resume_checked Q rs \<rho> (exec_checked Q M n ops)
       (run_loop M n r \<rho> (\<lambda>ws t. Option.bind (bind_checked Q ps ws \<rho>) (\<lambda>\<rho>'. exec_checked Q M n body \<rho>' t)) vs s))"
| "exec_checked Q M n (IfElse i c T E rs # ops) \<rho> s =
     Option.bind (\<rho> c) (\<lambda>v. resume_checked Q rs \<rho> (exec_checked Q M n ops)
       (if m_true M v then exec_checked Q M n T \<rho> s else exec_checked Q M n E \<rho> s))"
| "exec_checked Q M n (TileFold i k ids xs ps body rs # ops) \<rho> s =
     Option.bind (lookups \<rho> xs) (\<lambda>vs. Option.bind (fold_tiles M k
         (\<lambda>a e. Option.bind (bind_checked Q ps (a @ e) \<rho>) (\<lambda>\<rho>'. yielded (length vs) (exec_checked Q M n body \<rho>' s))) ids vs)
       (\<lambda>ys. resume_checked Q rs \<rho> (exec_checked Q M n ops) (Some (Yielded ys, s))))"
| "exec_checked Q M n (Continue xs # ops) \<rho> s = Option.bind (lookups \<rho> xs) (\<lambda>vs. Some (Continued vs, s))"
| "exec_checked Q M n (Break xs # ops) \<rho> s = Option.bind (lookups \<rho> xs) (\<lambda>vs. Some (Broke vs, s))"
| "exec_checked Q M n (EndBranch xs # ops) \<rho> s = Option.bind (lookups \<rho> xs) (\<lambda>vs. Some (Yielded vs, s))"

definition env_ok :: "(var \<Rightarrow> 'v \<Rightarrow> bool) \<Rightarrow> 'v env \<Rightarrow> bool" where
  "env_ok Q \<rho> \<longleftrightarrow> (\<forall>v x. \<rho> v = Some x \<longrightarrow> Q v x)"

lemma env_ok_upds: "list_all2 Q xs vs \<Longrightarrow> env_ok Q \<rho> \<Longrightarrow> env_ok Q (\<rho>(xs [\<mapsto>] vs))"
proof (induction xs vs arbitrary: \<rho> rule: list_all2_induct)
  case (Cons x xs y ys)
  have "env_ok Q (\<rho>(x \<mapsto> y))" using Cons by (simp add: env_ok_def)
  then show ?case using Cons.IH by simp
qed simp

lemma lookups_ok: "lookups \<rho> xs = Some vs \<Longrightarrow> env_ok Q \<rho> \<Longrightarrow> list_all2 Q xs vs"
  by (auto simp: lookups_list_all2 env_ok_def elim: list_all2_mono)

lemma bind_checked_Some: "bind_checked Q xs vs \<rho> = Some \<rho>' \<longleftrightarrow> list_all2 Q xs vs \<and> \<rho>' = \<rho>(xs [\<mapsto>] vs)"
  by (auto simp: bind_checked_def bind_vars_Some dest: list_all2_lengthD)

text \<open>What is known of the values a block is left with: they go to the loop or the branch around it.\<close>

fun outcome_ok :: "(var \<Rightarrow> 'v \<Rightarrow> bool) \<Rightarrow> loop_info option \<Rightarrow> var list option \<Rightarrow> 'v outcome \<Rightarrow> bool" where
  "outcome_ok Q l t (Continued ws) = (\<exists>li. l = Some li \<and> list_all2 Q (loop_body_vars li) ws \<and>
     (loop_is_for li \<longrightarrow> list_all2 Q (loop_result_vars li) ws))"
| "outcome_ok Q l t (Broke ws) = (\<exists>li. l = Some li \<and> list_all2 Q (loop_result_vars li) ws)"
| "outcome_ok Q l t (Yielded ws) = (\<exists>rs. t = Some rs \<and> list_all2 Q rs ws)"
| "outcome_ok Q l t _ = True"

lemma resume_checkedI:
  assumes "resume rs \<rho> k r = Some (out, t)" and "env_ok Q \<rho>"
    and r: "\<And>o' t'. r = Some (o', t') \<Longrightarrow> case o' of Yielded ys \<Rightarrow> length rs = length ys \<longrightarrow> list_all2 Q rs ys | _ \<Rightarrow> outcome_ok Q l tg o'"
    and k: "\<And>\<rho>' t'. k \<rho>' t' = Some (out, t) \<Longrightarrow> env_ok Q \<rho>' \<Longrightarrow> k' \<rho>' t' = Some (out, t) \<and> outcome_ok Q l tg out"
  shows "resume_checked Q rs \<rho> k' r = Some (out, t) \<and> outcome_ok Q l tg out"
proof -
  from assms(1) obtain o' t' where o': "r = Some (o', t')" and "(\<exists>ys \<rho>'. o' = Yielded ys \<and> bind_vars rs ys \<rho> = Some \<rho>' \<and>
      k \<rho>' t' = Some (out, t)) \<or> (o' = Returned \<or> (\<exists>ys. o' = Continued ys) \<or> (\<exists>ys. o' = Broke ys)) \<and> (out, t) = (o', t')"
    unfolding resume_Some by blast
  then show ?thesis
  proof (elim disjE exE conjE)
    fix ys \<rho>' assume ys: "o' = Yielded ys" "bind_vars rs ys \<rho> = Some \<rho>'" "k \<rho>' t' = Some (out, t)"
    then have "list_all2 Q rs ys" "\<rho>' = \<rho>(rs [\<mapsto>] ys)" using r [OF o'] by (auto simp: bind_vars_Some)
    then have "bind_checked Q rs ys \<rho> = Some \<rho>'" "env_ok Q \<rho>'" using assms(2) by (auto simp: bind_checked_Some intro: env_ok_upds)
    then show ?thesis using k [OF ys(3)] o' ys(1) by (simp add: resume_checked_def)
  qed (use r [OF o'] o' in \<open>auto simp: resume_checked_def\<close>)
qed

section \<open>Loops\<close>

lemma while_checked:
  assumes step: "\<And>vs s out t. list_all2 Q bs vs \<Longrightarrow> f vs s = Some (out, t) \<Longrightarrow>
      g vs s = Some (out, t) \<and> outcome_ok Q (Some \<lparr>loop_is_for = False, loop_body_vars = bs, loop_result_vars = rs\<rparr>) None out"
    and "while_loop f n vs s = Some (out, t)" and "list_all2 Q bs vs"
  shows "while_loop g n vs s = Some (out, t) \<and> (\<forall>ys. out = Yielded ys \<longrightarrow> list_all2 Q rs ys)"
proof -
  let ?R = "\<lambda>vs ws. vs = ws \<and> list_all2 Q bs vs" let ?S = "\<lambda>vs ws. vs = ws \<and> list_all2 Q rs vs"
  have "(out = Returned \<and> while_loop g n vs s = Some (Returned, t)) \<or>
    (\<exists>ys zs. out = Yielded ys \<and> while_loop g n vs s = Some (Yielded zs, t) \<and> ?S ys zs)"
    by (rule while_loop_sim [where R = ?R, OF _ assms(2)])
      (use step assms(3) in \<open>force split: outcome.split\<close>)+
  then show ?thesis by auto
qed

lemma for_checked:
  assumes step: "\<And>i vs s out t. list_all2 Q bs vs \<Longrightarrow> list_all2 Q rs vs \<Longrightarrow> f (i # vs) s = Some (out, t) \<Longrightarrow>
      g (i # vs) s = Some (out, t) \<and> outcome_ok Q (Some \<lparr>loop_is_for = True, loop_body_vars = bs, loop_result_vars = rs\<rparr>) None out"
    and "for_loop f is vs s = Some (out, t)" and "list_all2 Q bs vs" "list_all2 Q rs vs"
  shows "for_loop g is vs s = Some (out, t) \<and> (\<forall>ys. out = Yielded ys \<longrightarrow> list_all2 Q rs ys)"
proof -
  let ?R = "\<lambda>vs ws. vs = ws \<and> list_all2 Q bs vs \<and> list_all2 Q rs vs" let ?S = "\<lambda>vs ws. vs = ws \<and> list_all2 Q rs vs"
  have "(out = Returned \<and> for_loop g is vs s = Some (Returned, t)) \<or>
    (\<exists>ys zs. out = Yielded ys \<and> for_loop g is vs s = Some (Yielded zs, t) \<and> ?S ys zs)"
    by (rule for_loop_sim [where R = ?R, OF _ _ assms(2)])
      (use step assms(3,4) in \<open>force split: outcome.split\<close>)+
  then show ?thesis by auto
qed

section \<open>Reductions and scans\<close>

definition tiles_ok :: "'v view \<Rightarrow> ('v, 's) machine \<Rightarrow> bool" where
  "tiles_ok W M \<longleftrightarrow> (\<forall>ax v. 0 < fst (m_dims M ax v) \<and> 0 < snd (m_dims M ax v)) \<and>
     (\<forall>ax rows. keeps W (concat rows) (m_tile M ax rows))"

lemma accumulate_checked:
  assumes "\<And>a e b. g a e = Some b \<Longrightarrow> g' a e = Some b \<and> list_all2 Q rs b"
  shows "accumulate g a es = Some bs \<Longrightarrow> accumulate g' a es = Some bs \<and> length bs = length es \<and> (\<forall>b \<in> set bs. list_all2 Q rs b)"
proof (induction es arbitrary: a bs)
  case (Cons e es)
  then obtain b cs where "g a e = Some b" "accumulate g b es = Some cs" "bs = b # cs"
    by (auto simp: bind_eq_Some_conv)
  then show ?case using Cons.IH [of b cs] assms by auto
qed simp

lemma fold_lane_checked:
  assumes g: "\<And>a e b. g a e = Some b \<Longrightarrow> g' a e = Some b \<and> list_all2 Q rs b"
    and "fold_lane k g a es = Some row" and "es \<noteq> []"
  shows "fold_lane k g' a es = Some row \<and> row \<noteq> [] \<and> (\<forall>b \<in> set row. list_all2 Q rs b)"
proof (cases k)
  case (TileReduce ax)
  then obtain bs where bs: "accumulate g a es = Some bs" "row = [last (a # bs)]"
    using assms(2) by (auto simp: fold_lane_def)
  have "accumulate g' a es = Some bs \<and> length bs = length es \<and> (\<forall>b \<in> set bs. list_all2 Q rs b)"
    by (rule accumulate_checked [OF g bs(1)])
  then show ?thesis using bs TileReduce assms(3) by (cases bs) (auto simp: fold_lane_def)
next
  case (TileScan ax rv)
  let ?es = "if rv then rev es else es"
  obtain bs where bs: "accumulate g a ?es = Some bs" "row = (if rv then rev bs else bs)"
    using assms(2) TileScan by (auto simp: fold_lane_def split: if_splits bool.splits)
  have "accumulate g' a ?es = Some bs \<and> length bs = length ?es \<and> (\<forall>b \<in> set bs. list_all2 Q rs b)"
    by (rule accumulate_checked [OF g bs(1)])
  then show ?thesis using bs TileScan assms(3) by (cases rv) (auto simp: fold_lane_def)
qed

lemma tile_known:
  assumes "tiles_ok W M" "concat rows \<noteq> []" "\<forall>e \<in> set (concat rows). known W s r e"
  shows "known W s r (m_tile M ax rows)"
proof -
  obtain e where "e \<in> set (concat rows)" using assms(2) by (meson last_in_set)
  then obtain p where p: "pred_at s r = Some p" using assms(3) by (auto simp: known_def)
  then have d: "\<forall>e \<in> set (concat rows). describes W p e" using assms(3) by (auto simp: known_def)
  have "keeps W (concat rows) (m_tile M ax rows)" using assms(1) by (auto simp: tiles_ok_def)
  then have "describes W p (m_tile M ax rows)" using d unfolding describes_def keeps_def by blast
  then show ?thesis using p by (auto simp: known_def)
qed

lemma those_Some: "those (List.map f xs) = Some ys \<longleftrightarrow> list_all2 (\<lambda>x y. f x = Some y) xs ys"
  by (induction xs arbitrary: ys) (auto simp: list_all2_Cons1 split: option.splits)

lemma fold_tiles_checked:
  assumes t: "tiles_ok W M"
    and g: "\<And>a e b. g a e = Some b \<Longrightarrow> g' a e = Some b \<and> list_all2 (known W s) rs b"
    and f: "fold_tiles M k g ids vs = Some ys"
  shows "fold_tiles M k g' ids vs = Some ys \<and> (length rs = length ys \<longrightarrow> list_all2 (known W s) rs ys)"
proof (cases "vs = []")
  case False
  let ?ax = "fold_axis k"
  obtain p q where pq: "m_dims M ?ax (hd vs) = (p, q)" by fastforce
  then have pos: "0 < p" "0 < q" using t unfolding tiles_ok_def by (metis fst_conv snd_conv)+
  let ?l = "\<lambda>g i. fold_lane k g (List.map (m_const M) ids) (lane M ?ax vs q i)"
  have c: "(\<forall>v \<in> set vs. m_dims M ?ax v = (p, q)) \<and> length ids = length vs"
  proof (rule ccontr)
    assume n: "\<not> ?thesis"
    have "fold_tiles M k g ids vs = None"
      by (simp only: fold_tiles_def Let_def False if_False pq case_prod_conv if_not_P [OF n])
    then show False using f by simp
  qed
  then have "map_option (\<lambda>rows. List.map (\<lambda>t. m_tile M ?ax (List.map (List.map (\<lambda>r. r ! t)) rows)) [0..<length vs])
      (those (List.map (?l g) [0..<p])) = Some ys"
    using f False pq by (simp add: fold_tiles_def Let_def)
  then obtain rows where rows: "those (List.map (?l g) [0..<p]) = Some rows" and
    ys': "List.map (\<lambda>t. m_tile M ?ax (List.map (List.map (\<lambda>r. r ! t)) rows)) [0..<length vs] = ys"
    unfolding map_option_eq_Some by (elim exE conjE)
  note ys = ys' [symmetric]
  have all: "list_all2 (\<lambda>i row. ?l g i = Some row) [0..<p] rows"
    using rows unfolding those_Some .
  have ne: "lane M ?ax vs q i \<noteq> []" for i using pos by (simp add: lane_def)
  have each: "list_all2 (\<lambda>i row. ?l g' i = Some row \<and> row \<noteq> [] \<and> (\<forall>b \<in> set row. list_all2 (known W s) rs b)) [0..<p] rows"
    using all
  proof (rule list_all2_mono)
    fix i row assume r: "?l g i = Some row"
    show "?l g' i = Some row \<and> row \<noteq> [] \<and> (\<forall>b \<in> set row. list_all2 (known W s) rs b)"
      by (rule fold_lane_checked [where g = g, OF _ r ne]) (rule g)
  qed
  have "those (List.map (?l g') [0..<p]) = Some rows"
    unfolding those_Some using each by (rule list_all2_mono) blast
  then have "fold_tiles M k g' ids vs = Some ys" using False pq c ys by (simp add: fold_tiles_def Let_def)
  moreover have "list_all2 (known W s) rs ys" if l: "length rs = length ys"
    unfolding list_all2_conv_all_nth
  proof (intro conjI allI impI l)
    fix j assume j: "j < length rs"
    let ?R = "List.map (List.map (\<lambda>r. r ! j)) rows"
    have rows_ok: "row \<noteq> [] \<and> (\<forall>b \<in> set row. list_all2 (known W s) rs b)" if "row \<in> set rows" for row
      using each that by (auto simp: list_all2_conv_all_nth in_set_conv_nth)
    have "rows \<noteq> []" using all pos by auto
    then have "concat ?R \<noteq> []" using rows_ok by (cases rows) auto
    moreover have "\<forall>e \<in> set (concat ?R). known W s (rs ! j) e"
      using rows_ok j by (fastforce simp: list_all2_conv_all_nth)
    ultimately have "known W s (rs ! j) (m_tile M ?ax ?R)" by (rule tile_known [OF t])
    then show "known W s (rs ! j) (ys ! j)" using ys l j by simp
  qed
  ultimately show ?thesis by blast
qed (use f in \<open>auto simp: fold_tiles_def\<close>)


section \<open>Blocks\<close>

fun op_obeys :: "'v view \<Rightarrow> ir_context \<Rightarrow> ('v, 's) machine \<Rightarrow> ir_op \<Rightarrow> bool" where
  "op_obeys W ctx M (Operation c rs xs) \<longleftrightarrow> c \<noteq> GetArrayListItem \<and>
     (\<forall>vs s ys t. m_step M c vs s = Some (ys, t) \<longrightarrow> op_spec W ctx c rs xs vs ys)"
| "op_obeys W ctx M _ \<longleftrightarrow> True"

definition obeys :: "'v view \<Rightarrow> ir_context \<Rightarrow> ('v, 's) machine \<Rightarrow> ir_op list \<Rightarrow> bool" where
  "obeys W ctx M ops \<longleftrightarrow> (\<forall>op \<in> set (traverse ops). op_obeys W ctx M op)"

lemma obeys_simps:
  "obeys W ctx M (Operation c rs xs # ops) \<longleftrightarrow> op_obeys W ctx M (Operation c rs xs) \<and> obeys W ctx M ops"
  "obeys W ctx M (Loop i r init ps body rs # ops) \<longleftrightarrow> obeys W ctx M body \<and> obeys W ctx M ops"
  "obeys W ctx M (IfElse i v T E rs # ops) \<longleftrightarrow> obeys W ctx M T \<and> obeys W ctx M E \<and> obeys W ctx M ops"
  "obeys W ctx M (TileFold i k ids xs ps body rs # ops) \<longleftrightarrow> obeys W ctx M body \<and> obeys W ctx M ops"
  "obeys W ctx M (Continue vs # ops) \<longleftrightarrow> obeys W ctx M ops"
  "obeys W ctx M (Break vs # ops) \<longleftrightarrow> obeys W ctx M ops"
  "obeys W ctx M (EndBranch vs # ops) \<longleftrightarrow> obeys W ctx M ops"
  by (simp_all add: obeys_def ball_Un del: op_obeys.simps(1))

lemma noop_triple:
  "noop (seqE [propagate x b] (if c then propagate x r else skipE)) u s \<Longrightarrow>
     noop (propagate x b) () s \<and> (c \<longrightarrow> noop (propagate x r) () s)"
  by (auto elim!: noop_bind split: if_splits)

lemma propagate_all:
  assumes "length xs = length ys" "length ys = length zs"
    and "\<forall>p \<in> set (zip xs (zip ys zs)). noop ((\<lambda>(x, b, r). seqE [propagate x b] (if c then propagate x r else skipE)) p) () s"
    and "list_all2 (known W s) xs vs"
  shows "list_all2 (known W s) ys vs \<and> (c \<longrightarrow> list_all2 (known W s) zs vs)"
proof -
  have "noop (propagate (xs ! j) (ys ! j)) () s \<and> (c \<longrightarrow> noop (propagate (xs ! j) (zs ! j)) () s)" if "j < length xs" for j
  proof -
    have "(xs ! j, ys ! j, zs ! j) \<in> set (zip xs (zip ys zs))"
      using that assms(1,2) by (auto simp: set_zip)
    then show ?thesis using assms(3) noop_triple by fastforce
  qed
  then show ?thesis using assms(1,2,4) propagate_known unfolding list_all2_conv_all_nth by metis
qed

lemma propagate_pairs:
  assumes "list_all2 (\<lambda>x y. noop ((\<lambda>(a, b). propagate a b) (x, y)) () s) xs ys" "list_all2 (known W s) xs vs"
  shows "list_all2 (known W s) ys vs"
proof -
  have "noop (propagate (xs ! j) (ys ! j)) () s" if "j < length xs" for j
    using list_all2_nthD [OF assms(1) that] by simp
  then show ?thesis using assms(2) list_all2_lengthD [OF assms(1)] propagate_known unfolding list_all2_conv_all_nth by metis
qed

lemma noop_then: "noop (bindE m (\<lambda>_. k)) y s \<Longrightarrow> moves m \<Longrightarrow> moves k \<Longrightarrow> noop m () s \<and> noop k y s"
  by (erule noop_bind) auto

lemma moves_triple: "moves ((\<lambda>(x, b, r). seqE [propagate x b] (if c then propagate x r else skipE)) p)"
  by (cases p) (auto intro!: moves_rules)

lemma moves_pair: "moves ((\<lambda>(a, b). propagate a b) p)"
  by (cases p) auto

lemma noop_Loop:
  assumes "noop (analyze_block ctx (Loop i r init ps body rs # ops) l tg) () s"
  shows "(r \<noteq> None \<longrightarrow> (\<exists>p qs. ps = p # qs \<and> noop (set_always_true p) () s)) \<and>
    length init = length (body_vars r ps) \<and> length (body_vars r ps) = length rs \<and>
    (\<forall>q \<in> set (zip init (zip (body_vars r ps) rs)). noop ((\<lambda>(x, b, y). seqE [propagate x b] (if r \<noteq> None then propagate x y else skipE)) q) () s) \<and>
    noop (analyze_block ctx body (Some \<lparr>loop_is_for = (r \<noteq> None), loop_body_vars = body_vars r ps, loop_result_vars = rs\<rparr>) None) () s \<and>
    noop (analyze_block ctx ops l tg) () s"
proof -
  let ?A = "if r \<noteq> None then (case ps of [] \<Rightarrow> raiseE IndexError | p # _ \<Rightarrow> set_always_true p) else skipE"
  let ?f = "\<lambda>(x, b, y). seqE [propagate x b] (if r \<noteq> None then propagate x y else skipE)"
  let ?B = "zip3_strict init (body_vars r ps) rs ?f"
  let ?C = "analyze_block ctx body (Some \<lparr>loop_is_for = (r \<noteq> None), loop_body_vars = body_vars r ps, loop_result_vars = rs\<rparr>) None"
  let ?D = "analyze_block ctx ops l tg"
  have mA: "moves ?A" by (auto split: list.split)
  have mB: "moves ?B" by (rule moves_zip3_strict [OF moves_triple])
  have mC: "moves ?C" and mD: "moves ?D" by (rule moves_analyze_block)+
  have "noop (bindE ?A (\<lambda>_. bindE ?B (\<lambda>_. bindE ?C (\<lambda>_. ?D)))) () s"
    using assms by (simp add: Let_def)
  then have A: "noop ?A () s" and n: "noop (bindE ?B (\<lambda>_. bindE ?C (\<lambda>_. ?D))) () s"
    using noop_then [OF _ mA moves_bind [OF mB moves_bind [OF mC mD]]] by blast+
  from n have B: "noop ?B () s" and C: "noop ?C () s" and D: "noop ?D () s"
    using noop_then [OF n mB moves_bind [OF mC mD]] noop_then [OF _ mC mD] by blast+
  have "r \<noteq> None \<longrightarrow> (\<exists>p qs. ps = p # qs \<and> noop (set_always_true p) () s)"
    using A by (cases ps) (auto simp: noop_def raiseE_def)
  then show ?thesis using noop_zip3 [OF B moves_triple] C D by blast
qed

end
