(* ===== verification/DataflowBlock.thy ===== *)
theory DataflowBlock
  imports DataflowExec
begin

text \<open>
  At a state that a pass over a block leaves as it is, the runs of the block pass the check that every
  value bound to a variable is described by the predicate of the variable.
\<close>

definition passes :: "'v view \<Rightarrow> ('v, 's) machine \<Rightarrow> nat \<Rightarrow> df_state \<Rightarrow> loop_info option \<Rightarrow> var list option \<Rightarrow> ir_op list \<Rightarrow> bool" where
  "passes W M n s l tg ops \<longleftrightarrow> (\<forall>\<rho> st out st'. env_ok (known W s) \<rho> \<longrightarrow> exec M n ops \<rho> st = Some (out, st') \<longrightarrow>
     exec_checked (known W s) M n ops \<rho> st = Some (out, st') \<and> outcome_ok (known W s) l tg out)"

lemma passesI:
  assumes "\<And>\<rho> st out st'. env_ok (known W s) \<rho> \<Longrightarrow> exec M n ops \<rho> st = Some (out, st') \<Longrightarrow>
     exec_checked (known W s) M n ops \<rho> st = Some (out, st') \<and> outcome_ok (known W s) l tg out"
  shows "passes W M n s l tg ops"
  using assms unfolding passes_def by blast

lemma passesD:
  "passes W M n s l tg ops \<Longrightarrow> exec M n ops \<rho> st = Some (out, st') \<Longrightarrow> env_ok (known W s) \<rho> \<Longrightarrow>
     exec_checked (known W s) M n ops \<rho> st = Some (out, st') \<and> outcome_ok (known W s) l tg out"
  unfolding passes_def by blast

text \<open>The body of a loop, as a function of the values of its parameters.\<close>

lemma body_checked:
  assumes "passes W M n s l tg body" and "env_ok (known W s) \<rho>" and "list_all2 (known W s) ps ws"
    and "Option.bind (bind_vars ps ws \<rho>) (\<lambda>\<rho>'. exec M n body \<rho>' st) = Some (out, t)"
  shows "Option.bind (bind_checked (known W s) ps ws \<rho>) (\<lambda>\<rho>'. exec_checked (known W s) M n body \<rho>' st) = Some (out, t) \<and>
    outcome_ok (known W s) l tg out"
proof -
  from assms(4) obtain \<rho>' where r: "bind_vars ps ws \<rho> = Some \<rho>'" "exec M n body \<rho>' st = Some (out, t)"
    by (auto simp: bind_eq_Some_conv)
  then have "\<rho>' = \<rho>(ps [\<mapsto>] ws)" by (simp add: bind_vars_Some)
  then have "env_ok (known W s) \<rho>'" "bind_checked (known W s) ps ws \<rho> = Some \<rho>'"
    using env_ok_upds [OF assms(3,2)] assms(3) by (auto simp: bind_checked_Some)
  then show ?thesis using passesD [OF assms(1) r(2)] by simp
qed

lemma passes_Operation:
  assumes IH: "passes W M n s l tg ops" and ob: "op_obeys W ctx M (Operation c rs xs)" and n: "noop (analyze_op ctx c rs xs) () s"
  shows "passes W M n s l tg (Operation c rs xs # ops)"
proof (rule passesI)
  fix \<rho> st out st' assume e: "env_ok (known W s) \<rho>" and x: "exec M n (Operation c rs xs # ops) \<rho> st = Some (out, st')"
  let ?Q = "known W s"
  show "exec_checked ?Q M n (Operation c rs xs # ops) \<rho> st = Some (out, st') \<and> outcome_ok ?Q l tg out"
  proof (cases "c = Return")
    case False
    with x obtain vs ys t where v: "lookups \<rho> xs = Some vs" "m_step M c vs st = Some (ys, t)"
      "resume rs \<rho> (exec M n ops) (Some (Yielded ys, t)) = Some (out, st')"
      by (auto simp: bind_eq_Some_conv)
    have "op_spec W ctx c rs xs vs ys" "c \<noteq> GetArrayListItem" using ob v(2) by auto
    then have ys: "length rs = length ys \<longrightarrow> list_all2 ?Q rs ys" using op_sound [OF n lookups_ok [OF v(1) e]] by blast
    have "resume_checked ?Q rs \<rho> (exec_checked ?Q M n ops) (Some (Yielded ys, t)) = Some (out, st') \<and> outcome_ok ?Q l tg out"
      by (rule resume_checkedI [OF v(3) e]) (use ys passesD [OF IH] in auto)
    then show ?thesis using False v(1,2) by simp
  qed (use x in auto)
qed

lemma passes_Loop:
  assumes IH: "passes W M n s l tg ops" and n: "noop (analyze_block ctx (Loop i r init ps body rs # ops) l tg) () s"
    and body: "passes W M n s (Some \<lparr>loop_is_for = (r \<noteq> None), loop_body_vars = body_vars r ps, loop_result_vars = rs\<rparr>) None body"
  shows "passes W M n s l tg (Loop i r init ps body rs # ops)"
proof (rule passesI)
  fix \<rho> st out st' assume e: "env_ok (known W s) \<rho>" and x: "exec M n (Loop i r init ps body rs # ops) \<rho> st = Some (out, st')"
  let ?Q = "known W s"
  let ?f = "\<lambda>ws t. Option.bind (bind_vars ps ws \<rho>) (\<lambda>\<rho>'. exec M n body \<rho>' t)"
  let ?g = "\<lambda>ws t. Option.bind (bind_checked ?Q ps ws \<rho>) (\<lambda>\<rho>'. exec_checked ?Q M n body \<rho>' t)"
  from x obtain vs where v: "lookups \<rho> init = Some vs"
    and rs: "resume rs \<rho> (exec M n ops) (run_loop M n r \<rho> ?f vs st) = Some (out, st')"
    by (auto simp: bind_eq_Some_conv)
  from noop_Loop [OF n] have L: "length init = length (body_vars r ps)" "length (body_vars r ps) = length rs"
    "\<forall>q \<in> set (zip init (zip (body_vars r ps) rs)). noop ((\<lambda>(x, b, y). seqE [propagate x b] (if r \<noteq> None then propagate x y else skipE)) q) () s"
    and p: "r \<noteq> None \<Longrightarrow> \<exists>p qs. ps = p # qs \<and> noop (set_always_true p) () s" by blast+
  have start: "list_all2 ?Q (body_vars r ps) vs" "r \<noteq> None \<longrightarrow> list_all2 ?Q rs vs"
    using propagate_all [OF L lookups_ok [OF v e]] by blast+
  have loop: "run_loop M n r \<rho> ?g vs st = Some (o', t') \<and> (\<forall>ys. o' = Yielded ys \<longrightarrow> list_all2 ?Q rs ys)"
    if o': "run_loop M n r \<rho> ?f vs st = Some (o', t')" for o' t'
  proof (cases r)
    case None
    have "while_loop ?g n vs st = Some (o', t') \<and> (\<forall>ys. o' = Yielded ys \<longrightarrow> list_all2 ?Q rs ys)"
    proof (rule while_checked [where f = ?f and bs = ps])
      show "while_loop ?f n vs st = Some (o', t')" using o' None by (simp add: run_loop_def)
      show "list_all2 ?Q ps vs" using start None by (simp add: body_vars_def)
    next
      fix ws t out' t'' assume "list_all2 ?Q ps ws" "?f ws t = Some (out', t'')"
      then show "?g ws t = Some (out', t'') \<and> outcome_ok ?Q (Some \<lparr>loop_is_for = False, loop_body_vars = ps, loop_result_vars = rs\<rparr>) None out'"
        using body_checked [OF body e] None by (simp add: body_vars_def)
    qed
    then show ?thesis using None by (simp add: run_loop_def)
  next
    case (Some abc)
    then obtain a b c where abc: "r = Some (a, b, c)" by (cases abc) auto
    then obtain p qs where q: "ps = p # qs" "noop (set_always_true p) () s" using p by blast
    from o' abc obtain x y z "is" where is_: "\<rho> a = Some x" "\<rho> b = Some y" "\<rho> c = Some z" "m_range M x y z = Some is"
      "for_loop ?f is vs st = Some (o', t')" by (auto simp: run_loop_def bind_eq_Some_conv)
    have "for_loop ?g is vs st = Some (o', t') \<and> (\<forall>ys. o' = Yielded ys \<longrightarrow> list_all2 ?Q rs ys)"
    proof (rule for_checked [where f = ?f and bs = qs])
      show "for_loop ?f is vs st = Some (o', t')" by (rule is_(5))
      show "list_all2 ?Q qs vs" "list_all2 ?Q rs vs" using start abc q(1) by (simp_all add: body_vars_def)
    next
      fix j ws t out' t'' assume ws: "list_all2 ?Q qs ws" and f: "?f (j # ws) t = Some (out', t'')"
      have "?Q p j" by (rule noop_set_always_true [OF q(2)])
      then have "list_all2 ?Q ps (j # ws)" using ws q(1) by simp
      from body_checked [OF body e this f] show "?g (j # ws) t = Some (out', t'') \<and> outcome_ok ?Q (Some \<lparr>loop_is_for = True, loop_body_vars = qs, loop_result_vars = rs\<rparr>) None out'"
        unfolding abc q(1) by (simp add: body_vars_def)
    qed
    then show ?thesis using is_ abc by (simp add: run_loop_def)
  qed
  have "resume_checked ?Q rs \<rho> (exec_checked ?Q M n ops) (run_loop M n r \<rho> ?f vs st) = Some (out, st') \<and> outcome_ok ?Q l tg out"
  proof (rule resume_checkedI [OF rs e])
    fix o' t' assume "run_loop M n r \<rho> ?f vs st = Some (o', t')"
    then show "case o' of Yielded ys \<Rightarrow> length rs = length ys \<longrightarrow> list_all2 ?Q rs ys | _ \<Rightarrow> outcome_ok ?Q l tg o'"
      using loop run_loop_outcome [of M n r \<rho> ?f vs st o' t'] by auto
  qed (use passesD [OF IH] in blast)
  moreover from rs obtain o' t' where "run_loop M n r \<rho> ?f vs st = Some (o', t')" unfolding resume_Some by blast
  moreover from this have "run_loop M n r \<rho> ?g vs st = Some (o', t')" using loop by blast
  ultimately show "exec_checked ?Q M n (Loop i r init ps body rs # ops) \<rho> st = Some (out, st') \<and> outcome_ok ?Q l tg out"
    using v by simp
qed

lemma passes_IfElse:
  assumes IH: "passes W M n s l tg ops" and T: "passes W M n s l (Some rs) T" and E: "passes W M n s l (Some rs) E"
  shows "passes W M n s l tg (IfElse i c T E rs # ops)"
proof (rule passesI)
  fix \<rho> st out st' assume e: "env_ok (known W s) \<rho>" and x: "exec M n (IfElse i c T E rs # ops) \<rho> st = Some (out, st')"
  let ?Q = "known W s"
  from x obtain v where v: "\<rho> c = Some v" and
    rs: "resume rs \<rho> (exec M n ops) (if m_true M v then exec M n T \<rho> st else exec M n E \<rho> st) = Some (out, st')"
    by (auto simp: bind_eq_Some_conv)
  let ?r = "if m_true M v then exec M n T \<rho> st else exec M n E \<rho> st"
  let ?r' = "if m_true M v then exec_checked ?Q M n T \<rho> st else exec_checked ?Q M n E \<rho> st"
  have br: "?r' = Some (o', t') \<and> outcome_ok ?Q l (Some rs) o'" if "?r = Some (o', t')" for o' t'
    using that passesD [OF T _ e] passesD [OF E _ e] by (auto split: if_splits)
  have "resume_checked ?Q rs \<rho> (exec_checked ?Q M n ops) ?r = Some (out, st') \<and> outcome_ok ?Q l tg out"
  proof (rule resume_checkedI [OF rs e])
    fix o' t' assume "?r = Some (o', t')"
    from br [OF this] show "case o' of Yielded ys \<Rightarrow> length rs = length ys \<longrightarrow> list_all2 ?Q rs ys | _ \<Rightarrow> outcome_ok ?Q l tg o'"
      by (cases o') auto
  qed (use passesD [OF IH] in blast)
  moreover from rs obtain o' t' where "?r = Some (o', t')" unfolding resume_Some by blast
  moreover from this have "?r' = Some (o', t')" using br by blast
  ultimately show "exec_checked ?Q M n (IfElse i c T E rs # ops) \<rho> st = Some (out, st') \<and> outcome_ok ?Q l tg out"
    using v by simp
qed

lemma passes_TileFold:
  assumes IH: "passes W M n s l tg ops" and body: "passes W M n s None (Some rs) body" and t: "tiles_ok W M"
    and ps: "noop (forE ps set_always_true) () s"
  shows "passes W M n s l tg (TileFold i k ids xs ps body rs # ops)"
proof (rule passesI)
  fix \<rho> st out st' assume e: "env_ok (known W s) \<rho>" and x: "exec M n (TileFold i k ids xs ps body rs # ops) \<rho> st = Some (out, st')"
  let ?Q = "known W s"
  let ?g = "\<lambda>m a e. Option.bind (bind_vars ps (a @ e) \<rho>) (\<lambda>\<rho>'. yielded m (exec M n body \<rho>' st))"
  let ?g' = "\<lambda>m a e. Option.bind (bind_checked ?Q ps (a @ e) \<rho>) (\<lambda>\<rho>'. yielded m (exec_checked ?Q M n body \<rho>' st))"
  from x obtain vs ys where v: "lookups \<rho> xs = Some vs" "fold_tiles M k (?g (length vs)) ids vs = Some ys"
    and rs: "resume rs \<rho> (exec M n ops) (Some (Yielded ys, st)) = Some (out, st')"
    by (auto simp: bind_eq_Some_conv)
  have g: "?g' m a el = Some b \<and> list_all2 ?Q rs b" if gb: "?g m a el = Some b" for m a el b
  proof -
    from gb obtain \<rho>' where r0: "bind_vars ps (a @ el) \<rho> = Some \<rho>'" and y: "yielded m (exec M n body \<rho>' st) = Some b"
      unfolding bind_eq_Some_conv by blast
    from y obtain o' t' where r1: "exec M n body \<rho>' st = Some (o', t')" and b: "o' = Yielded b" "length b = m"
      by (auto simp: yielded_def split: option.splits outcome.splits if_splits)
    note r = r0 r1
    then have "length ps = length (a @ el)" and eq: "\<rho>' = \<rho>(ps [\<mapsto>] (a @ el))" by (auto simp: bind_vars_Some)
    then have "list_all2 ?Q ps (a @ el)" by (intro forE_always_true [OF ps])
    then have "bind_checked ?Q ps (a @ el) \<rho> = Some \<rho>'" "env_ok ?Q \<rho>'"
      using eq e by (auto simp: bind_checked_Some intro: env_ok_upds)
    then show ?thesis using passesD [OF body r(2)] b by (simp add: yielded_def)
  qed
  have ft: "fold_tiles M k (?g' (length vs)) ids vs = Some ys \<and> (length rs = length ys \<longrightarrow> list_all2 ?Q rs ys)"
    by (rule fold_tiles_checked [where g = "?g (length vs)", OF t _ v(2)]) (rule g)
  note ys = ft [THEN conjunct1] ft [THEN conjunct2]
  have "resume_checked ?Q rs \<rho> (exec_checked ?Q M n ops) (Some (Yielded ys, st)) = Some (out, st') \<and> outcome_ok ?Q l tg out"
    by (rule resume_checkedI [OF rs e]) (use ys(2) passesD [OF IH] in auto)
  then show "exec_checked ?Q M n (TileFold i k ids xs ps body rs # ops) \<rho> st = Some (out, st') \<and> outcome_ok ?Q l tg out"
    using v(1) ys(1) by simp
qed

theorem block_sound:
  assumes t: "tiles_ok W M"
  shows "obeys W ctx M ops \<Longrightarrow> noop (analyze_block ctx ops l tg) () s \<Longrightarrow> passes W M n s l tg ops"
proof (induction ops arbitrary: l tg rule: traverse_induct)
  case Nil
  then show ?case by (auto intro: passesI)
next
  case (Operation c rs xs ops)
  have "noop (analyze_op ctx c rs xs) () s \<and> noop (analyze_block ctx ops l tg) () s"
    using Operation.prems(2) by (intro noop_then) (auto intro: moves_analyze_op moves_analyze_block)
  then show ?case using Operation by (intro passes_Operation [where ctx = ctx]) (simp_all add: obeys_simps del: op_obeys.simps)
next
  case (Loop i r init ps body rs ops)
  then show ?case using noop_Loop [OF Loop.prems(2)] by (intro passes_Loop [OF _ Loop.prems(2)]) (simp_all add: obeys_simps)
next
  case (IfElse i c T E rs ops)
  let ?T = "analyze_block ctx T l (Some rs)" and ?E = "analyze_block ctx E l (Some rs)" and ?R = "analyze_block ctx ops l tg"
  have n: "noop (bindE ?T (\<lambda>_. bindE ?E (\<lambda>_. ?R))) () s" using IfElse.prems(2) by simp
  note m = moves_analyze_block
  have "noop ?T () s \<and> noop ?E () s \<and> noop ?R () s"
    using noop_then [OF n m moves_bind [OF m m]] noop_then [OF _ m m] by blast
  then show ?case using IfElse by (intro passes_IfElse) (simp_all add: obeys_simps)
next
  case (TileFold i k ids xs ps body rs ops)
  let ?P = "forE ps set_always_true" and ?B = "analyze_block ctx body None (Some rs)" and ?R = "analyze_block ctx ops l tg"
  have n: "noop (bindE ?P (\<lambda>_. bindE ?B (\<lambda>_. ?R))) () s" using TileFold.prems(2) by simp
  note m = moves_analyze_block and mP = moves_forE [OF moves_set_always_true]
  have "noop ?P () s \<and> noop ?B () s \<and> noop ?R () s"
    using noop_then [OF n mP moves_bind [OF m m]] noop_then [OF _ m m] by blast
  then show ?case using TileFold t by (intro passes_TileFold) (simp_all add: obeys_simps)
next
  case (Continue vs ops)
  let ?f = "\<lambda>li (x, b, y). seqE [propagate x b] (if loop_is_for li then propagate x y else skipE)"
  let ?A = "case l of None \<Rightarrow> raiseE AttributeError | Some li \<Rightarrow> zip3_strict vs (loop_body_vars li) (loop_result_vars li) (?f li)"
  have n: "noop (bindE ?A (\<lambda>_. analyze_block ctx ops l tg)) () s"
    using Continue.prems(2) unfolding analyze_block.simps .
  have "moves ?A" by (cases l; simp only: option.case) (rule moves_raise moves_zip3_strict moves_triple)+
  then have "noop ?A () s" using noop_then [OF n _ moves_analyze_block] by blast
  then obtain li where li: "l = Some li" "noop (zip3_strict vs (loop_body_vars li) (loop_result_vars li) (?f li)) () s"
    by (cases l) (simp_all add: noop_def raiseE_def)
  then have z: "length vs = length (loop_body_vars li)" "length (loop_body_vars li) = length (loop_result_vars li)"
    "\<forall>q \<in> set (zip vs (zip (loop_body_vars li) (loop_result_vars li))). noop (?f li q) () s"
    using noop_zip3 [OF li(2) moves_triple] by blast+
  show ?case
  proof (rule passesI)
    fix \<rho> st out st' assume e: "env_ok (known W s) \<rho>" and "exec M n (Continue vs # ops) \<rho> st = Some (out, st')"
    then obtain ws where ws: "lookups \<rho> vs = Some ws" "out = Continued ws" "st' = st" by (auto simp: bind_eq_Some_conv)
    show "exec_checked (known W s) M n (Continue vs # ops) \<rho> st = Some (out, st') \<and> outcome_ok (known W s) l tg out"
      using ws li(1) propagate_all [OF z lookups_ok [OF ws(1) e]] by simp
  qed
next
  case (Break vs ops)
  let ?A = "case l of None \<Rightarrow> raiseE AttributeError | Some li \<Rightarrow> zip_strict vs (loop_result_vars li) (\<lambda>(a, b). propagate a b)"
  have n: "noop (bindE ?A (\<lambda>_. analyze_block ctx ops l tg)) () s"
    using Break.prems(2) unfolding analyze_block.simps .
  have "moves ?A" by (cases l; simp only: option.case) (rule moves_raise moves_zip_strict moves_pair)+
  then have "noop ?A () s" using noop_then [OF n _ moves_analyze_block] by blast
  then obtain li where li: "l = Some li" "noop (zip_strict vs (loop_result_vars li) (\<lambda>(a, b). propagate a b)) () s"
    by (cases l) (simp_all add: noop_def raiseE_def)
  show ?case
  proof (rule passesI)
    fix \<rho> st out st' assume e: "env_ok (known W s) \<rho>" and "exec M n (Break vs # ops) \<rho> st = Some (out, st')"
    then obtain ws where ws: "lookups \<rho> vs = Some ws" "out = Broke ws" "st' = st" by (auto simp: bind_eq_Some_conv)
    show "exec_checked (known W s) M n (Break vs # ops) \<rho> st = Some (out, st') \<and> outcome_ok (known W s) l tg out"
      using ws li(1) propagate_pairs [OF noop_zip [OF li(2) moves_pair] lookups_ok [OF ws(1) e]] by simp
  qed
next
  case (EndBranch vs ops)
  let ?A = "case tg of None \<Rightarrow> raiseE AttributeError | Some rs \<Rightarrow> zip_strict vs rs (\<lambda>(a, b). propagate a b)"
  have n: "noop (bindE ?A (\<lambda>_. analyze_block ctx ops l tg)) () s"
    using EndBranch.prems(2) unfolding analyze_block.simps .
  have "moves ?A" by (cases tg; simp only: option.case) (rule moves_raise moves_zip_strict moves_pair)+
  then have "noop ?A () s" using noop_then [OF n _ moves_analyze_block] by blast
  then obtain rs where rs: "tg = Some rs" "noop (zip_strict vs rs (\<lambda>(a, b). propagate a b)) () s"
    by (cases tg) (simp_all add: noop_def raiseE_def)
  show ?case
  proof (rule passesI)
    fix \<rho> st out st' assume e: "env_ok (known W s) \<rho>" and "exec M n (EndBranch vs # ops) \<rho> st = Some (out, st')"
    then obtain ws where ws: "lookups \<rho> vs = Some ws" "out = Yielded ws" "st' = st" by (auto simp: bind_eq_Some_conv)
    show "exec_checked (known W s) M n (EndBranch vs # ops) \<rho> st = Some (out, st') \<and> outcome_ok (known W s) l tg out"
      using ws rs(1) propagate_pairs [OF noop_zip [OF rs(2) moves_pair] lookups_ok [OF ws(1) e]] by simp
  qed
qed

end
