(* ===== verification/DataflowParams.thy ===== *)
theory DataflowParams
  imports DataflowStep DataflowSound
begin

text \<open>
  The registration of the parameters: arguments that meet the constraints of the signature are described
  by the predicates that the analysis starts with.

  \<^item> \<open>flat_size\<close> and \<open>arrays_in\<close> lay a constraint out over its flat parameters, and \<open>array_ok\<close> says that the
    values of an array meet its constraint;
  \<^item> \<open>params_known\<close>: after the registration every flat parameter has a predicate that describes it.
\<close>

section \<open>Arguments\<close>

fun flat_size :: "constraint \<Rightarrow> nat" and flat_sizes :: "constraint list \<Rightarrow> nat" where
  "flat_size (ArrayConstraint a) = nat (1 + 2 * arr_ndim a)"
| "flat_size (ScalarConstraint d) = 1"
| "flat_size (PointerConstraint d) = 1"
| "flat_size (ListConstraint elt groups em) = 2"
| "flat_size (TupleConstraint items) = flat_sizes items"
| "flat_size _ = 0"
| "flat_sizes [] = 0"
| "flat_sizes (c # cs) = flat_size c + flat_sizes cs"

fun arrays_in :: "constraint \<Rightarrow> var list \<Rightarrow> (array_constraint \<times> var list) list" and
    arrays_in_all :: "constraint list \<Rightarrow> var list \<Rightarrow> (array_constraint \<times> var list) list" where
  "arrays_in (ArrayConstraint a) vs = [(a, vs)]"
| "arrays_in (TupleConstraint items) vs = arrays_in_all items vs"
| "arrays_in _ vs = []"
| "arrays_in_all [] vs = []"
| "arrays_in_all (c # cs) vs = arrays_in c (take (flat_size c) vs) @ arrays_in_all cs (drop (flat_size c) vs)"

text \<open>Only the first parameters matter.\<close>

lemma arrays_in_take: "flat_size c \<le> n \<Longrightarrow> arrays_in c (take (flat_size c) (take n vs)) = arrays_in c (take (flat_size c) vs)"
  by (simp add: min_absorb1)

lemma arrays_in_all_take: "flat_sizes cs \<le> n \<Longrightarrow> arrays_in_all cs (take n vs) = arrays_in_all cs vs"
proof (induction cs arbitrary: n vs)
  case (Cons c cs)
  then show ?case using Cons.IH [of "n - flat_size c" "drop (flat_size c) vs"] by (simp add: drop_take min_absorb1)
qed simp

definition dim_ok :: "'v view \<Rightarrow> int option \<times> int \<Rightarrow> 'v \<Rightarrow> bool" where
  "dim_ok W cd x \<longleftrightarrow> v_addrs W x = {} \<and>
     (case cd of (Some c, d) \<Rightarrow> v_ints W x \<subseteq> {c} | (None, d) \<Rightarrow> \<forall>e \<in> v_ints W x. d dvd e)"

definition base_ok :: "'v view \<Rightarrow> int \<Rightarrow> 'v \<Rightarrow> bool" where
  "base_ok W d x \<longleftrightarrow> v_ints W x = {} \<and> (\<forall>a \<in> v_addrs W x. d dvd a)"

definition dims_of :: "array_constraint \<Rightarrow> (int option \<times> int) list" where
  "dims_of a = zip (arr_shape_constant a) (arr_shape_divisible_by a) @ zip (arr_stride_constant a) (arr_stride_divisible_by a)"

definition array_ok :: "'v view \<Rightarrow> (var \<Rightarrow> 'v option) \<Rightarrow> array_constraint \<Rightarrow> var list \<Rightarrow> bool" where
  "array_ok W \<rho> a vs \<longleftrightarrow>
     (\<forall>x. \<rho> (hd vs) = Some x \<longrightarrow> base_ok W (arr_base_addr_divisible_by a) x) \<and>
     (\<forall>(v, cd) \<in> set (zip (tl vs) (dims_of a)). \<forall>x. \<rho> v = Some x \<longrightarrow> dim_ok W cd x)"

definition arguments_ok :: "'v view \<Rightarrow> (var \<Rightarrow> 'v option) \<Rightarrow> (var list \<times> constraint) list \<Rightarrow> bool" where
  "arguments_ok W \<rho> params \<longleftrightarrow> (\<forall>v x. \<rho> v = Some x \<longrightarrow> (\<exists>(vs, c) \<in> set params. v \<in> set (take (flat_size c) vs))) \<and>
     (\<forall>(vs, c) \<in> set params. \<forall>(a, ws) \<in> set (arrays_in c vs). array_ok W \<rho> a ws)"

section \<open>Registration\<close>

definition loosens :: "'a params \<Rightarrow> bool" where
  "loosens m \<longleftrightarrow> (\<forall>s x s'. m s = (Inr x, s') \<longrightarrow> weakened (ps_df s) (ps_df s'))"

lemma loosens_bind: "loosens m \<Longrightarrow> (\<And>x. loosens (k x)) \<Longrightarrow> loosens (bindE m k)"
  unfolding loosens_def by (auto simp: bindE_Inr_iff) (metis weakened_trans)

lemma loosens_ret [intro]: "loosens (retE x)" and loosens_skip [intro]: "loosens skipE" and loosens_raise [intro]: "loosens (raiseE e)"
  by (auto simp: loosens_def retE_def skipE_def raiseE_def)

lemma loosens_in_df [intro]: "moves m \<Longrightarrow> loosens (in_df m)"
  by (auto simp: loosens_def in_df_def zoom_Inr_iff moves_def)

lemma loosens_in_mapper [intro]: "loosens (in_mapper m)"
  by (auto simp: loosens_def in_mapper_def zoom_Inr_iff)

lemma loosens_forE: "(\<And>x. loosens (f x)) \<Longrightarrow> loosens (forE xs f)"
  by (induction xs) (auto intro: loosens_bind)

lemma loosens_zip_strict: "(\<And>p. loosens (f p)) \<Longrightarrow> loosens (zip_strict xs ys f)"
  unfolding zip_strict_def by (intro loosens_bind loosens_forE) auto

lemma loosens_register_array [intro]: "loosens (register_array a vs)"
  unfolding register_array_def by (intro loosens_bind loosens_zip_strict) auto

lemma loosens_register_plain [intro]: "loosens (register_plain vs)"
  by (auto simp: register_plain_def split: list.split)

lemma loosens_register_list [intro]: "loosens (register_list elt groups em b n)"
  unfolding register_list_def by (intro loosens_bind) auto

lemma loosens_register_tuple [intro]: "loosens (register_tuple cs vs off)"
  by (induction cs vs off rule: register_tuple.induct) (auto simp: Let_def intro!: loosens_bind split: list.split)

lemma loosens_register_parameter [intro]: "loosens (register_parameter p)"
  by (auto simp: register_parameter_def intro!: loosens_bind split: prod.split constraint.split list.split)

text \<open>A parameter with a predicate that describes its argument keeps one.\<close>

definition param_known :: "'v view \<Rightarrow> (var \<Rightarrow> 'v option) \<Rightarrow> param_state \<Rightarrow> var \<Rightarrow> bool" where
  "param_known W \<rho> s v \<longleftrightarrow> (\<exists>p. pred_at (ps_df s) v = Some p \<and> (\<forall>x. \<rho> v = Some x \<longrightarrow> describes W p x))"

lemma param_known_later: "param_known W \<rho> s v \<Longrightarrow> loosens m \<Longrightarrow> m s = (Inr x, s') \<Longrightarrow> param_known W \<rho> s' v"
  unfolding param_known_def loosens_def weakened_def by (metis describes_weaker)

lemma update_pred_weaker: "update_pred v p s = (Inr u, s') \<Longrightarrow> \<exists>q. pred_at s' v = Some q \<and> weaker p q"
  by (auto simp: update_pred_def modifyE_def pred_at_def tracker_update_def Let_def update_conv' weaker_unify
      split: option.splits if_splits) (metis weaker_unify(2))

lemma set_pred_weaker: "set_pred v p s = (Inr u, s') \<Longrightarrow> \<exists>q. pred_at s' v = Some q \<and> weaker p q"
  unfolding set_pred_def bindE_Inr_iff
  by (auto dest!: update_pred_weaker simp: update_list_pred_def modifyE_def pred_at_def)

lemma in_df_set_pred:
  "in_df (set_pred v p) s = (Inr u, s') \<Longrightarrow> (\<forall>x. \<rho> v = Some x \<longrightarrow> describes W p x) \<Longrightarrow> param_known W \<rho> s' v"
  unfolding in_df_def zoom_Inr_iff param_known_def
  by (auto dest!: set_pred_weaker) (metis describes_weaker)

lemma in_df_update_pred:
  "in_df (update_pred v p) s = (Inr u, s') \<Longrightarrow> (\<forall>x. \<rho> v = Some x \<longrightarrow> describes W p x) \<Longrightarrow> param_known W \<rho> s' v"
  unfolding in_df_def zoom_Inr_iff param_known_def
  by (auto dest!: update_pred_weaker) (metis describes_weaker)

lemma forE_known:
  assumes "forE ps (\<lambda>(v, p). in_df (set_pred v p)) s = (Inr u, s')"
    and "\<forall>(v, p) \<in> set ps. \<forall>x. \<rho> v = Some x \<longrightarrow> describes W p x"
  shows "\<forall>(v, p) \<in> set ps. param_known W \<rho> s' v"
  using assms
proof (induction ps arbitrary: s)
  case (Cons vp ps)
  obtain v p where vp: "vp = (v, p)" by (cases vp)
  from Cons.prems(1) vp obtain t where t: "in_df (set_pred v p) s = (Inr (), t)"
    "forE ps (\<lambda>(v, p). in_df (set_pred v p)) t = (Inr u, s')"
    by (auto simp: bindE_Inr_iff)
  have "\<forall>x. \<rho> v = Some x \<longrightarrow> describes W p x" using Cons.prems(2) vp by simp
  then have "param_known W \<rho> t v" by (rule in_df_set_pred [OF t(1)])
  moreover have "loosens (forE ps (\<lambda>(v, p). in_df (set_pred v p)))" by (rule loosens_forE) auto
  ultimately have "param_known W \<rho> s' v" 
    by (rule param_known_later [where m = "forE ps (\<lambda>(v, p). in_df (set_pred v p))", OF _ _ t(2)])
  moreover have "\<forall>(v, p) \<in> set ps. param_known W \<rho> s' v"
    by (rule Cons.IH [OF t(2)]) (use Cons.prems(2) in simp)
  ultimately show ?case using vp by simp
qed simp


definition dim_predicate :: "int option \<times> int \<Rightarrow> data_predicate" where
  "dim_predicate = (\<lambda>(static_value, d). \<lparr>alias_set = ALIAS_UNIVERSE,
     div_by = (case static_value of None \<Rightarrow> d | Some c \<Rightarrow> c), may_alias_internally = True, const_value = static_value\<rparr>)"

lemma dim_predicates_Inr: "dim_predicates st ds = Inr ps \<Longrightarrow> ps = List.map dim_predicate (zip st ds)"
  by (auto simp: dim_predicates_def dim_predicate_def split: if_splits)

lemma get_array_predicates_Inr:
  assumes "get_array_predicates a m = (Inr ps, m')"
  shows "\<exists>al. ps = \<lparr>alias_set = al, div_by = arr_base_addr_divisible_by a,
     may_alias_internally = arr_may_alias_internally a, const_value = None\<rparr> # List.map dim_predicate (dims_of a)"
  using assms
  by (auto simp: get_array_predicates_def bindE_Inr_iff lift_result_def retE_def dims_of_def dest!: dim_predicates_Inr)

lemma dim_describes: "dim_ok W cd x \<Longrightarrow> describes W (dim_predicate cd) x"
  by (cases cd) (auto simp: dim_ok_def dim_predicate_def describes_def intro: ok_div_of_dvd split: option.splits)

lemma register_array_known:
  assumes r: "register_array a vs s = (Inr u, s')" and ok: "array_ok W \<rho> a vs"
  shows "\<forall>v \<in> set vs. param_known W \<rho> s' v"
proof -
  from r obtain ps t where t: "in_mapper (get_array_predicates a) s = (Inr ps, t)"
    and z: "zip_strict vs ps (\<lambda>(v, p). in_df (set_pred v p)) t = (Inr u, s')"
    unfolding register_array_def by (rule bindE_Inr_E)
  from t obtain al where ps: "ps = \<lparr>alias_set = al, div_by = arr_base_addr_divisible_by a,
     may_alias_internally = arr_may_alias_internally a, const_value = None\<rparr> # List.map dim_predicate (dims_of a)"
    unfolding in_mapper_def zoom_Inr_iff using get_array_predicates_Inr by blast
  from z obtain w where f: "forE (zip vs ps) (\<lambda>(v, p). in_df (set_pred v p)) t = (Inr w, s')" and len: "length vs = length ps"
    unfolding zip_strict_def by (auto simp: bindE_Inr_iff skipE_def retE_def raiseE_def split: if_splits)
  from len ps obtain b ds where vs: "vs = b # ds" by (cases vs) auto
  have "\<forall>x. \<rho> v = Some x \<longrightarrow> describes W p x" if vp: "(v, p) \<in> set (zip vs ps)" for v p
  proof (cases "(v, p) = (b, hd ps)")
    case True
    then show ?thesis using ok ps vs by (auto simp: array_ok_def base_ok_def describes_def intro: ok_div_of_dvd)
  next
    case False
    then have "(v, p) \<in> set (zip ds (List.map dim_predicate (dims_of a)))" using vp vs ps by auto
    then obtain cd where cd: "(v, cd) \<in> set (zip ds (dims_of a))" "p = dim_predicate cd"
      by (auto simp: zip_map2)
    have "\<forall>(v, cd) \<in> set (zip ds (dims_of a)). \<forall>x. \<rho> v = Some x \<longrightarrow> dim_ok W cd x"
      using ok vs by (simp add: array_ok_def)
    then have "\<forall>x. \<rho> v = Some x \<longrightarrow> dim_ok W cd x" using cd(1) by blast
    then show ?thesis by (auto simp: cd(2) intro: dim_describes)
  qed
  then have all: "\<forall>(v, p) \<in> set (zip vs ps). param_known W \<rho> s' v" by (intro forE_known [OF f]) blast
  show ?thesis
  proof
    fix v assume "v \<in> set vs"
    then obtain p where "(v, p) \<in> set (zip vs ps)" by (rule in_set_impl_in_set_zip1 [OF len])
    then show "param_known W \<rho> s' v" using all by blast
  qed
qed

lemma always_true_known: "in_df (set_always_true v) s = (Inr u, s') \<Longrightarrow> param_known W \<rho> s' v"
  unfolding set_always_true_def by (erule in_df_set_pred) (simp add: describes_true [where W = W])

lemma register_plain_known: "register_plain vs s = (Inr u, s') \<Longrightarrow> v \<in> set vs \<Longrightarrow> param_known W \<rho> s' v"
  by (auto simp: register_plain_def raiseE_def intro: always_true_known split: list.splits)

lemma register_list_known:
  assumes "register_list elt groups em b n s = (Inr u, s')"
  shows "param_known W \<rho> s' b \<and> param_known W \<rho> s' n"
proof -
  let ?rest = "bindE (in_mapper (get_array_predicates elt)) (\<lambda>ps.
     bindE (in_df (update_list_pred b (List.enumerate 0 ps))) (\<lambda>_. in_df (set_always_true n)))"
  from assms obtain al t where "bindE (in_df (update_pred b \<lparr>alias_set = al, div_by = 1,
       may_alias_internally = em, const_value = None\<rparr>)) (\<lambda>_. ?rest) t = (Inr u, s')"
    unfolding register_list_def by (rule bindE_Inr_E)
  then obtain x t' where b: "in_df (update_pred b \<lparr>alias_set = al, div_by = 1,
       may_alias_internally = em, const_value = None\<rparr>) t = (Inr x, t')" and r: "?rest t' = (Inr u, s')"
    by (rule bindE_Inr_E)
  from b have "param_known W \<rho> t' b" by (rule in_df_update_pred) (simp add: describes_def)
  moreover have "loosens ?rest" by (intro loosens_bind) auto
  ultimately have "param_known W \<rho> s' b" 
    by (rule param_known_later [where m = ?rest, OF _ _ r])
  moreover from r obtain w1 w2 where "in_df (set_always_true n) w1 = (Inr w2, s')"
    by (auto elim!: bindE_Inr_E)
  then have "param_known W \<rho> s' n" by (rule always_true_known)
  ultimately show ?thesis by blast
qed

text \<open>One item of a tuple, and then the rest.\<close>

lemma tuple_step:
  assumes first: "\<forall>v \<in> set (take n (drop off vs)). param_known W \<rho> t v"
    and rest: "register_tuple cs vs (off + n) t = (Inr off', s')"
    and IH: "off' = off + n + m \<and> (\<forall>v \<in> set (take m (drop (off + n) vs)). param_known W \<rho> s' v)"
  shows "off' = off + (n + m) \<and> (\<forall>v \<in> set (take (n + m) (drop off vs)). param_known W \<rho> s' v)"
proof -
  have "\<forall>v \<in> set (take n (drop off vs)). param_known W \<rho> s' v"
    using first param_known_later [OF _ loosens_register_tuple rest] by blast
  moreover have "set (take (n + m) (drop off vs)) = set (take n (drop off vs)) \<union> set (take m (drop (off + n) vs))"
    by (simp add: take_add add.commute [of off n])
  ultimately show ?thesis using IH by auto
qed

lemma register_tuple_known:
  assumes "register_tuple cs vs off s = (Inr off', s')"
    and "\<forall>(a, ws) \<in> set (arrays_in_all cs (drop off vs)). array_ok W \<rho> a ws"
  shows "off' = off + flat_sizes cs \<and> (\<forall>v \<in> set (take (flat_sizes cs) (drop off vs)). param_known W \<rho> s' v)"
  using assms
proof (induction cs vs off arbitrary: s off' s' rule: register_tuple.induct)
  case (2 a cs vs off)
  let ?n = "nat (1 + 2 * arr_ndim a)"
  from "2.prems"(1) obtain t where t: "register_array a (take ?n (drop off vs)) s = (Inr (), t)"
    "register_tuple cs vs (off + ?n) t = (Inr off', s')" by (auto simp: bindE_Inr_iff Let_def)
  have a: "array_ok W \<rho> a (take ?n (drop off vs))" and
    cs: "\<forall>(a, ws) \<in> set (arrays_in_all cs (drop (off + ?n) vs)). array_ok W \<rho> a ws"
    using "2.prems"(2) by (simp_all add: ball_Un add.commute)
  show ?case
    unfolding flat_sizes.simps flat_size.simps
    by (rule tuple_step [OF register_array_known [OF t(1) a] t(2) "2.IH" [OF refl t(2) cs]])
next
  case (3 d cs vs off)
  from "3.prems"(1) obtain t where t: "register_plain (take 1 (drop off vs)) s = (Inr (), t)"
    "register_tuple cs vs (off + 1) t = (Inr off', s')" by (auto simp: bindE_Inr_iff)
  have cs: "\<forall>(a, ws) \<in> set (arrays_in_all cs (drop (off + 1) vs)). array_ok W \<rho> a ws"
    using "3.prems"(2) by (simp add: drop_Suc drop_tl)
  have f: "\<forall>v \<in> set (take 1 (drop off vs)). param_known W \<rho> t v" using register_plain_known [OF t(1)] by blast
  show ?case
    unfolding flat_sizes.simps flat_size.simps by (rule tuple_step [OF f t(2) "3.IH" [OF t(2) cs]])
next
  case (4 d cs vs off)
  from "4.prems"(1) obtain t where t: "register_plain (take 1 (drop off vs)) s = (Inr (), t)"
    "register_tuple cs vs (off + 1) t = (Inr off', s')" by (auto simp: bindE_Inr_iff)
  have cs: "\<forall>(a, ws) \<in> set (arrays_in_all cs (drop (off + 1) vs)). array_ok W \<rho> a ws"
    using "4.prems"(2) by (simp add: drop_Suc drop_tl)
  have f: "\<forall>v \<in> set (take 1 (drop off vs)). param_known W \<rho> t v" using register_plain_known [OF t(1)] by blast
  show ?case
    unfolding flat_sizes.simps flat_size.simps by (rule tuple_step [OF f t(2) "4.IH" [OF t(2) cs]])
next
  case (5 items cs vs off)
  from "5.prems"(1) obtain o1 t where t: "register_tuple items vs off s = (Inr o1, t)"
    "register_tuple cs vs o1 t = (Inr off', s')" by (auto simp: bindE_Inr_iff)
  let ?n = "flat_sizes items"
  have items: "\<forall>(a, ws) \<in> set (arrays_in_all items (take ?n (drop off vs))). array_ok W \<rho> a ws" and
    cs: "\<forall>(a, ws) \<in> set (arrays_in_all cs (drop (off + ?n) vs)). array_ok W \<rho> a ws"
    using "5.prems"(2) by (simp_all add: ball_Un add.commute)
  have i: "o1 = off + ?n \<and> (\<forall>v \<in> set (take ?n (drop off vs)). param_known W \<rho> t v)"
    by (rule "5.IH"(1) [OF t(1)]) (use items in \<open>simp add: arrays_in_all_take\<close>)
  show ?case
    unfolding flat_sizes.simps flat_size.simps
    by (rule tuple_step [OF _ t(2) [unfolded i [THEN conjunct1]]])
      (use i "5.IH"(2) [OF t(2) [unfolded i [THEN conjunct1]] cs] in blast)+
next
  case (6 elt groups em cs vs off)
  from "6.prems"(1) obtain b n ws where d: "drop off vs = b # n # ws"
    by (auto simp: raiseE_def split: list.splits)
  from "6.prems"(1) d obtain t where t: "register_list elt groups em b n s = (Inr (), t)"
    "register_tuple cs vs (off + 2) t = (Inr off', s')" by (auto simp: bindE_Inr_iff)
  have cs: "\<forall>(a, ws) \<in> set (arrays_in_all cs (drop (off + 2) vs)). array_ok W \<rho> a ws"
    using "6.prems"(2) by (simp add: add.commute)
  have f: "\<forall>v \<in> set (take 2 (drop off vs)). param_known W \<rho> t v"
    using register_list_known [OF t(1)] d by (simp add: numeral_2_eq_2)
  show ?case
    unfolding flat_sizes.simps flat_size.simps
    by (rule tuple_step [OF f t(2) "6.IH" [OF d refl t(2) cs]])
qed (auto simp: retE_def)


lemma register_parameter_known:
  assumes r: "register_parameter (vs, c) s = (Inr u, s')" and ok: "\<forall>(a, ws) \<in> set (arrays_in c vs). array_ok W \<rho> a ws"
    and v: "v \<in> set (take (flat_size c) vs)"
  shows "param_known W \<rho> s' v"
proof (cases c)
  case (ArrayConstraint a)
  then have r': "register_array a vs s = (Inr u, s')" and a: "array_ok W \<rho> a vs"
    using r ok by (simp_all add: register_parameter_def)
  show ?thesis using register_array_known [OF r' a] in_set_takeD [OF v] by blast
next
  case (ListConstraint elt groups em)
  then obtain b n where bn: "vs = [b, n]" and r': "register_list elt groups em b n s = (Inr u, s')"
    using r by (auto simp: register_parameter_def raiseE_def split: list.splits)
  show ?thesis using register_list_known [OF r'] in_set_takeD [OF v] bn by auto
next
  case (TupleConstraint items)
  then obtain off' where t: "register_tuple items vs 0 s = (Inr off', s')"
    using r by (auto simp: register_parameter_def bindE_Inr_iff skipE_def retE_def)
  have "\<forall>(a, ws) \<in> set (arrays_in_all items (drop 0 vs)). array_ok W \<rho> a ws" using ok TupleConstraint by simp
  from register_tuple_known [OF t this] show ?thesis using v TupleConstraint by simp
qed (use r v in \<open>auto simp: register_parameter_def raiseE_def intro: register_plain_known dest: in_set_takeD\<close>)

lemma params_known:
  assumes "forE params register_parameter s = (Inr u, s')"
    and "\<forall>(vs, c) \<in> set params. \<forall>(a, ws) \<in> set (arrays_in c vs). array_ok W \<rho> a ws"
    and "(vs, c) \<in> set params" and "v \<in> set (take (flat_size c) vs)"
  shows "param_known W \<rho> s' v"
  using assms
proof (induction params arbitrary: s)
  case (Cons p params)
  from Cons.prems(1) obtain t where t: "register_parameter p s = (Inr (), t)" "forE params register_parameter t = (Inr u, s')"
    by (auto simp: bindE_Inr_iff)
  show ?case
  proof (cases "p = (vs, c)")
    case True
    have "param_known W \<rho> t v"
      by (rule register_parameter_known [OF t(1) [unfolded True] _ Cons.prems(4)]) (use Cons.prems(2) True in simp)
    moreover have "loosens (forE params register_parameter)" by (rule loosens_forE) auto
    ultimately show ?thesis by (rule param_known_later [where m = "forE params register_parameter", OF _ _ t(2)])
  next
    case False
    then show ?thesis using Cons.IH [OF t(2) _ _ Cons.prems(4)] Cons.prems(2,3) by simp
  qed
qed simp

end
