(* ===== verification/DataflowPass.thy ===== *)
theory DataflowPass
  imports DataflowBlock DataflowParams
begin

text \<open>
  The soundness of the whole analysis: the loop of \<^verbatim>\<open>dataflow_analysis\<close> ends in a state that a pass over the
  program leaves as it is, so that \<open>block_sound\<close> applies.
\<close>

section \<open>The loop\<close>

lemma analyze_block_moves:
  "analyze_block ctx root l t s = (Inr x, s') \<Longrightarrow> (s' = s \<or> df_dirty s') \<and> weakened s s'"
  using moves_analyze_block unfolding moves_def by blast

lemma weakened_reset: "weakened s (reset_dirty s)"
  by (simp add: weakened_def pred_at_def reset_dirty_def)

lemma reset_clean: "\<not> df_dirty (reset_dirty s)"
  by (simp add: df_dirty_def reset_dirty_def)

lemma analyze_until_clean_end:
  "analyze_until_clean ctx root s = Some (Inr u, s') \<Longrightarrow>
     \<not> df_dirty s' \<and> weakened s s' \<and> (if df_dirty s then noop (analyze_block ctx root None None) () s' else s' = s)"
proof -
  have "(case y of (Inr _, s') \<Rightarrow>
      \<not> df_dirty s' \<and> weakened s s' \<and> (if df_dirty s then noop (analyze_block ctx root None None) () s' else s' = s)
     | _ \<Rightarrow> True)" if "analyze_until_clean ctx root s = Some y" for y
    using that
  proof (induction rule: analyze_until_clean.raw_induct [rotated, consumes 1])
    case (1 rec ctx root s y)
    show ?case
    proof (cases "df_dirty s")
      case True
      obtain r t where t: "analyze_block ctx root None None (reset_dirty s) = (r, t)" by fastforce
      show ?thesis
      proof (cases r)
        case (Inr w)
        then have y: "rec ctx root t = Some y" using 1(2) True t by simp
        have m: "t = reset_dirty s \<or> df_dirty t" "weakened s t"
          using analyze_block_moves [OF t [unfolded Inr]] weakened_trans [OF weakened_reset] by blast+
        have n: "noop (analyze_block ctx root None None) () t" if "\<not> df_dirty t"
          using that m(1) t Inr by (simp add: noop_def)
        from 1(1) [OF y] show ?thesis using True m n weakened_trans [of s t]
          by (auto split: sum.splits prod.splits if_splits)
      qed (use 1(2) True t in auto)
    qed (use 1(2) in auto)
  qed
  then show "analyze_until_clean ctx root s = Some (Inr u, s') \<Longrightarrow> ?thesis" by fastforce
qed

lemma dataflow_end:
  assumes "dataflow_analysis ctx root params = Some (Inr preds)"
  obtains ps s where "forE params register_parameter
      \<lparr>ps_df = empty_df_state, ps_mapper = \<lparr>next_bit = 0, group_bits = []\<rparr>\<rparr> = (Inr (), ps)"
    and "weakened (ps_df ps) s" and "noop (analyze_block ctx root None None) () s" and "preds = predicates (pred_tracker s)"
proof -
  let ?init = "\<lparr>ps_df = empty_df_state, ps_mapper = \<lparr>next_bit = 0, group_bits = []\<rparr>\<rparr>"
  obtain r ps where r: "forE params register_parameter ?init = (r, ps)" by fastforce
  obtain r1 s1 where r1: "analyze_block ctx root None None (ps_df ps) = (r1, s1)" by fastforce
  have R: "r = Inr ()" using assms r by (cases r) (simp_all add: dataflow_analysis_def)
  have R1: "r1 = Inr ()" using assms r R r1 by (cases r1) (simp_all add: dataflow_analysis_def)
  have "map_option (\<lambda>(r, s'). map_sum id (\<lambda>_. predicates (pred_tracker s')) r) (analyze_until_clean ctx root s1) = Some (Inr preds)"
    using assms r R r1 R1 by (simp add: dataflow_analysis_def)
  then obtain r2 s' where s': "analyze_until_clean ctx root s1 = Some (r2, s')"
    "map_sum id (\<lambda>_. predicates (pred_tracker s')) r2 = Inr preds"
    by (auto simp: map_option_eq_Some)
  then have R2: "r2 = Inr ()" and preds: "preds = predicates (pred_tracker s')" by (cases r2; simp)+
  have e: "\<not> df_dirty s' \<and> weakened s1 s' \<and> (if df_dirty s1 then noop (analyze_block ctx root None None) () s' else s' = s1)"
    by (rule analyze_until_clean_end [OF s'(1) [unfolded R2]])
  have m: "s1 = ps_df ps \<or> df_dirty s1" "weakened (ps_df ps) s1"
    using analyze_block_moves [OF r1 [unfolded R1]] by blast+
  have "noop (analyze_block ctx root None None) () s'"
  proof (cases "df_dirty s1")
    case False
    then show ?thesis using e m(1) r1 R1 by (simp add: noop_def)
  qed (use e in simp)
  then show ?thesis using that [OF r [unfolded R]] weakened_trans [OF m(2)] e preds by blast
qed

section \<open>Soundness\<close>

definition described :: "'v view \<Rightarrow> (var \<times> data_predicate) list \<Rightarrow> var \<Rightarrow> 'v \<Rightarrow> bool" where
  "described W preds v x \<longleftrightarrow> (\<exists>p. map_of preds v = Some p \<and> describes W p x)"

lemma arguments_described:
  assumes "dataflow_analysis ctx root params = Some (Inr preds)" and args: "arguments_ok W \<rho> params"
  shows "env_ok (described W preds) \<rho>"
  unfolding env_ok_def
proof (intro allI impI)
  fix v x assume v: "\<rho> v = Some x"
  from assms(1) obtain ps s where ps: "forE params register_parameter
      \<lparr>ps_df = empty_df_state, ps_mapper = \<lparr>next_bit = 0, group_bits = []\<rparr>\<rparr> = (Inr (), ps)"
    and w: "weakened (ps_df ps) s" "preds = predicates (pred_tracker s)"
    by (rule dataflow_end)
  obtain vs c where c: "(vs, c) \<in> set params" "v \<in> set (take (flat_size c) vs)"
    using args v unfolding arguments_ok_def by blast
  have "param_known W \<rho> ps v"
    by (rule params_known [OF ps _ c]) (use args in \<open>simp add: arguments_ok_def\<close>)
  then show "described W preds v x"
    using w v describes_weaker unfolding param_known_def weakened_def described_def pred_at_def by metis
qed

lemma dataflow_describes:
  assumes a: "dataflow_analysis ctx root params = Some (Inr preds)"
    and M: "tiles_ok W M" "obeys W ctx M root" and args: "arguments_ok W \<rho> params"
    and x: "exec M n root \<rho> st = Some r"
  shows "exec_checked (described W preds) M n root \<rho> st = Some r"
proof -
  from a obtain s where s: "noop (analyze_block ctx root None None) () s" "preds = predicates (pred_tracker s)"
    by (rule dataflow_end)
  have "described W preds = known W s"
    by (auto simp: fun_eq_iff described_def known_def pred_at_def s(2))
  moreover obtain out t where r: "r = (out, t)" by (cases r)
  ultimately show ?thesis
    using passesD [OF block_sound [OF M s(1)] x [unfolded r]] arguments_described [OF a args] by simp
qed

end
