(* ===== verification/DataflowTotal.thy ===== *)
theory DataflowTotal
  imports DataflowStep "HOL-Library.Multiset"
begin

text \<open>
  The data-flow analysis ends on every program.

  \<^item> a cell is the predicate of a variable or of an element of its list; \<open>descends\<close> relates states in
    which every cell has stayed or moved down in a well-founded order, and in which the dirty flag is only
    new if a cell has moved;
  \<^item> \<open>inside V N K\<close> bounds what can be reached: variables in \<open>V\<close>, alias sets of \<open>N\<close> bits, keys below \<open>K\<close>;
  \<^item> \<open>dsc m P\<close>: the effect \<open>m\<close> stays inside, descends, and its value satisfies \<open>P\<close>.
\<close>

section \<open>The order of predicates\<close>

definition div_height :: "int \<Rightarrow> nat" where
  "div_height d = 2 * nat \<bar>d\<bar> + (if d < 0 then 1 else 0)"

definition height :: "nat \<Rightarrow> data_predicate \<Rightarrow> nat" where
  "height N p = card {i. i \<le> N \<and> \<not> bit (alias_set p) i} + div_height (div_by p) +
     (if const_value p = None then 0 else 1) + (if may_alias_internally p then 0 else 1)"

definition none_rank :: "data_predicate option \<Rightarrow> nat" where
  "none_rank c = (if c = None then 1 else 0)"

definition zero_rank :: "data_predicate option \<Rightarrow> nat" where
  "zero_rank c = (case c of None \<Rightarrow> 0 | Some p \<Rightarrow> if div_by p = 0 then 1 else 0)"

definition height_rank :: "nat \<Rightarrow> data_predicate option \<Rightarrow> nat" where
  "height_rank N c = (case c of None \<Rightarrow> 0 | Some p \<Rightarrow> height N p)"

definition descent :: "nat \<Rightarrow> (data_predicate option \<times> data_predicate option) set" where
  "descent N = measures [none_rank, zero_rank, height_rank N]"

lemmas rank_defs = none_rank_def zero_rank_def height_rank_def

lemma wf_descent: "wf (descent N)"
  by (simp add: descent_def)

lemma descent_trans: "(a, b) \<in> descent N \<Longrightarrow> (b, c) \<in> descent N \<Longrightarrow> (a, c) \<in> descent N"
  by (auto simp: descent_def)

lemma descent_irrefl: "(a, a) \<notin> descent N"
  by (simp add: descent_def)

definition pred_within :: "nat \<Rightarrow> data_predicate \<Rightarrow> bool" where
  "pred_within N p \<longleftrightarrow> signed_take_bit N (alias_set p) = alias_set p"

lemma signed_take_bit_or: "signed_take_bit N (or a b) = or (signed_take_bit N a) (signed_take_bit N (b::int))"
  by (rule bit_eqI) (simp add: bit_signed_take_bit_iff bit_or_iff)

lemma within_unify: "pred_within N p \<Longrightarrow> pred_within N q \<Longrightarrow> pred_within N (unify p q)"
  by (simp add: pred_within_def unify_def signed_take_bit_or)

lemma within_always_true [simp]: "pred_within N ALWAYS_TRUE_PREDICATE"
  by (simp add: pred_within_def ALWAYS_TRUE_PREDICATE_def ALIAS_UNIVERSE_def)

lemma div_height_gcd: "d \<noteq> 0 \<Longrightarrow> div_height (gcd d e) \<le> div_height d \<and> (gcd d e \<noteq> d \<longrightarrow> div_height (gcd d e) < div_height d)"
proof -
  assume d: "d \<noteq> 0"
  have less: "div_height g \<le> div_height d \<and> (g \<noteq> d \<longrightarrow> div_height g < div_height d)" if "0 < g" "g \<le> \<bar>d\<bar>" for g
    using that by (auto simp: div_height_def)
  show ?thesis by (rule less) (use d in \<open>auto intro: zdvd_imp_le\<close>)
qed

lemma alias_height:
  assumes "signed_take_bit N a = a" and "signed_take_bit N b = b"
  shows "card {i. i \<le> N \<and> \<not> bit (or a b) i} \<le> card {i. i \<le> N \<and> \<not> bit a i} \<and>
    (or a b \<noteq> a \<longrightarrow> card {i. i \<le> N \<and> \<not> bit (or a b) i} < card {i. i \<le> N \<and> \<not> bit (a::int) i})"
proof (intro conjI impI)
  show "card {i. i \<le> N \<and> \<not> bit (or a b) i} \<le> card {i. i \<le> N \<and> \<not> bit a i}"
    by (rule card_mono) (auto simp: bit_or_iff)
  assume "or a b \<noteq> a"
  moreover have "signed_take_bit N (or a b) = or a b" using assms by (simp add: signed_take_bit_or)
  ultimately obtain j where "bit (signed_take_bit N (or a b)) j \<noteq> bit (signed_take_bit N a) j"
    using assms(1) bit_eq_iff by metis
  then obtain i where "i \<le> N" "bit (or a b) i \<noteq> bit a i" by (auto simp: bit_signed_take_bit_iff intro: min.cobounded1)
  then show "card {i. i \<le> N \<and> \<not> bit (or a b) i} < card {i. i \<le> N \<and> \<not> bit a i}"
    by (intro psubset_card_mono) (auto simp: bit_or_iff)
qed

lemma unify_descent:
  assumes "pred_within N p" "pred_within N q"
  shows "unify p q = p \<or> (Some (unify p q), Some p) \<in> descent N"
proof (cases "div_by p = 0 \<and> div_by q \<noteq> 0")
  case True
  then show ?thesis by (simp add: descent_def rank_defs unify_def)
next
  case False
  let ?u = "unify p q"
  have z: "div_by ?u = 0 \<longleftrightarrow> div_by p = 0" using False by (auto simp: unify_def)
  have d: "div_height (div_by ?u) \<le> div_height (div_by p) \<and> (div_by ?u \<noteq> div_by p \<longrightarrow> div_height (div_by ?u) < div_height (div_by p))"
    using div_height_gcd [of "div_by p" "div_by q"] False by (cases "div_by p = 0") (simp_all add: unify_def)
  have a: "card {i. i \<le> N \<and> \<not> bit (alias_set ?u) i} \<le> card {i. i \<le> N \<and> \<not> bit (alias_set p) i} \<and>
    (alias_set ?u \<noteq> alias_set p \<longrightarrow> card {i. i \<le> N \<and> \<not> bit (alias_set ?u) i} < card {i. i \<le> N \<and> \<not> bit (alias_set p) i})"
    using alias_height [of N "alias_set p" "alias_set q"] assms by (simp add: pred_within_def unify_def)
  have c: "const_value ?u = const_value p \<or> const_value ?u = None \<and> const_value p \<noteq> None"
    and m: "may_alias_internally ?u = may_alias_internally p \<or> may_alias_internally ?u \<and> \<not> may_alias_internally p"
    by (auto simp: unify_def)
  show ?thesis
  proof (cases "?u = p")
    case False
    then have "alias_set ?u \<noteq> alias_set p \<or> div_by ?u \<noteq> div_by p \<or> may_alias_internally ?u \<noteq> may_alias_internally p \<or>
        const_value ?u \<noteq> const_value p" by (metis data_predicate.equality old.unit.exhaust)
    then have "height N ?u < height N p" using d a c m unfolding height_def by (auto split: if_splits)
    then show ?thesis using z by (simp add: descent_def rank_defs)
  qed simp
qed

section \<open>Cells\<close>

definition agg_within :: "nat \<Rightarrow> nat \<Rightarrow> aggregate_predicate \<Rightarrow> bool" where
  "agg_within N K a \<longleftrightarrow> (\<forall>(k, p) \<in> set a. k < K \<and> pred_within N p)"

definition cell :: "df_state \<Rightarrow> var + var \<times> nat \<Rightarrow> data_predicate option" where
  "cell s c = (case c of Inl v \<Rightarrow> map_of (predicates (pred_tracker s)) v
     | Inr (v, k) \<Rightarrow> map_option (\<lambda>a. agg_get a k) (map_of (predicates (list_array_tracker s)) v))"

definition inside :: "var set \<Rightarrow> nat \<Rightarrow> nat \<Rightarrow> df_state \<Rightarrow> bool" where
  "inside V N K s \<longleftrightarrow> (\<forall>v p. map_of (predicates (pred_tracker s)) v = Some p \<longrightarrow> v \<in> V \<and> pred_within N p) \<and>
     (\<forall>v a. map_of (predicates (list_array_tracker s)) v = Some a \<longrightarrow> v \<in> V \<and> agg_within N K a)"

definition cells :: "var set \<Rightarrow> nat \<Rightarrow> (var + var \<times> nat) set" where
  "cells V K = Inl ` V \<union> Inr ` (V \<times> {..<K})"

definition descends :: "var set \<Rightarrow> nat \<Rightarrow> nat \<Rightarrow> df_state \<Rightarrow> df_state \<Rightarrow> bool" where
  "descends V N K s s' \<longleftrightarrow> (\<forall>c. cell s' c = cell s c \<or> (cell s' c, cell s c) \<in> descent N) \<and>
     (df_dirty s' \<longrightarrow> df_dirty s \<or> (\<exists>c \<in> cells V K. cell s' c \<noteq> cell s c))"

lemma descends_refl [simp]: "descends V N K s s"
  by (simp add: descends_def)

lemma descends_trans: "descends V N K s t \<Longrightarrow> descends V N K t u \<Longrightarrow> descends V N K s u"
proof -
  assume st: "descends V N K s t" and tu: "descends V N K t u"
  have c: "cell u c = cell s c \<or> (cell u c, cell s c) \<in> descent N" for c
    using st tu descent_trans unfolding descends_def by metis
  have moved: "cell u c \<noteq> cell s c" if "cell t c \<noteq> cell s c \<or> cell u c \<noteq> cell t c" for c
    using st tu that descent_trans descent_irrefl unfolding descends_def by metis
  show ?thesis
    using c moved st tu unfolding descends_def by blast
qed

lemma agg_get_within: "agg_within N K a \<Longrightarrow> pred_within N (agg_get a k)"
  by (auto simp: agg_within_def agg_get_def split: option.split dest: map_of_SomeD)

lemma agg_get_beyond: "agg_within N K a \<Longrightarrow> K \<le> k \<Longrightarrow> agg_get a k = ALWAYS_TRUE_PREDICATE"
  by (fastforce simp: agg_within_def agg_get_def split: option.split dest: map_of_SomeD)

lemma agg_get_unify: "agg_get (agg_unify a b) k = unify (agg_get a k) (agg_get b k)"
proof (cases "k \<in> set (agg_keys a b)")
  case True
  have "map_of (List.map (\<lambda>k. (k, unify (agg_get a k) (agg_get b k))) ks) k = Some (unify (agg_get a k) (agg_get b k))"
    if "k \<in> set ks" for ks using that by (induction ks) auto
  then show ?thesis using True by (simp add: agg_unify_def agg_get_def [of "List.map _ _"])
next
  case False
  then have "map_of (agg_unify a b) k = None" "map_of a k = None" "map_of b k = None"
    by (auto simp: agg_unify_def agg_keys_def map_of_eq_None_iff image_image)
  then show ?thesis by (simp add: agg_get_def unify_def ALWAYS_TRUE_PREDICATE_def ALIAS_UNIVERSE_def)
qed

lemma agg_within_unify: "agg_within N K a \<Longrightarrow> agg_within N K b \<Longrightarrow> agg_within N K (agg_unify a b)"
  using agg_get_within within_unify
  by (fastforce simp: agg_within_def [of N K "agg_unify a b"] agg_unify_def agg_keys_def agg_within_def)

end
