(* ===== verification/DataflowEnds.thy ===== *)
theory DataflowEnds
  imports DataflowTotal
begin

text \<open>
  Every effect of the analysis descends, so its loop ends: a pass that leaves the tables dirty has moved a
  cell down, and the multiset of cells cannot move down for ever.
\<close>

section \<open>Descending effects\<close>

definition dsc :: "var set \<Rightarrow> nat \<Rightarrow> nat \<Rightarrow> 'a df \<Rightarrow> ('a \<Rightarrow> bool) \<Rightarrow> bool" where
  "dsc V N K m P \<longleftrightarrow> (\<forall>s x s'. inside V N K s \<longrightarrow> m s = (Inr x, s') \<longrightarrow> P x \<and> inside V N K s' \<and> descends V N K s s')"

abbreviation dsc_unit :: "var set \<Rightarrow> nat \<Rightarrow> nat \<Rightarrow> unit df \<Rightarrow> bool" where
  "dsc_unit V N K m \<equiv> dsc V N K m (\<lambda>_. True)"

lemma dsc_bind: "dsc V N K m P \<Longrightarrow> (\<And>x. P x \<Longrightarrow> dsc V N K (k x) Q) \<Longrightarrow> dsc V N K (bindE m k) Q"
  unfolding dsc_def
proof (intro allI impI)
  fix s y u assume m: "\<forall>s x s'. inside V N K s \<longrightarrow> m s = (Inr x, s') \<longrightarrow> P x \<and> inside V N K s' \<and> descends V N K s s'"
    and k: "\<And>x. P x \<Longrightarrow> \<forall>s y s'. inside V N K s \<longrightarrow> k x s = (Inr y, s') \<longrightarrow> Q y \<and> inside V N K s' \<and> descends V N K s s'"
    and s: "inside V N K s" and b: "bindE m k s = (Inr y, u)"
  from b obtain x t where t: "m s = (Inr x, t)" "k x t = (Inr y, u)" by (rule bindE_Inr_E)
  have x: "P x \<and> inside V N K t \<and> descends V N K s t" using m [rule_format, OF s t(1)] .
  have "Q y \<and> inside V N K u \<and> descends V N K t u"
    using k [rule_format, OF x [THEN conjunct1] _ t(2)] x by simp
  then show "Q y \<and> inside V N K u \<and> descends V N K s u" using x descends_trans by blast
qed

lemma dsc_ret: "P x \<Longrightarrow> dsc V N K (retE x) P"
  by (simp add: dsc_def retE_def)

lemma dsc_skip: "dsc_unit V N K skipE"
  by (simp add: dsc_def skipE_def retE_def)

lemma dsc_raise: "dsc V N K (raiseE e) P"
  by (simp add: dsc_def raiseE_def)

lemma dsc_lift: "dsc V N K (lift_result r) (\<lambda>_. True)"
  by (simp add: dsc_def lift_result_def)

lemma dsc_if: "dsc V N K a P \<Longrightarrow> dsc V N K b P \<Longrightarrow> dsc V N K (if c then a else b) P"
  by simp

lemma dsc_forE: "(\<And>x. x \<in> set xs \<Longrightarrow> dsc_unit V N K (f x)) \<Longrightarrow> dsc_unit V N K (forE xs f)"
proof (induction xs)
  case (Cons x xs)
  show ?case
    unfolding forE.simps by (rule dsc_bind [where P = "\<lambda>_. True"]) (use Cons in auto)
qed (simp add: dsc_skip)

lemma dsc_zip_strict: "(\<And>x y. y \<in> set ys \<Longrightarrow> dsc_unit V N K (f (x, y))) \<Longrightarrow> dsc_unit V N K (zip_strict xs ys f)"
  unfolding zip_strict_def
proof (rule dsc_bind [where P = "\<lambda>_. True", OF dsc_forE])
  fix p assume a: "\<And>x y. y \<in> set ys \<Longrightarrow> dsc_unit V N K (f (x, y))" and p: "p \<in> set (zip xs ys)"
  obtain x y where "p = (x, y)" by (cases p)
  then show "dsc_unit V N K (f p)" using a p set_zip_rightD by fastforce
qed (simp add: dsc_skip dsc_raise)

lemma dsc_zip3_strict:
  assumes "\<And>x y z. y \<in> set ys \<Longrightarrow> z \<in> set zs \<Longrightarrow> dsc_unit V N K (f (x, y, z))"
  shows "dsc_unit V N K (zip3_strict xs ys zs f)"
  unfolding zip3_strict_def
proof (rule dsc_bind [where P = "\<lambda>_. True", OF dsc_forE])
  fix p assume p: "p \<in> set (zip xs (zip ys zs))"
  obtain x y z where xyz: "p = (x, y, z)" by (cases p) auto
  then have "(y, z) \<in> set (zip ys zs)" using p set_zip_rightD by fastforce
  then show "dsc_unit V N K (f p)" using assms xyz by (metis set_zip_leftD set_zip_rightD)
qed (simp add: dsc_skip dsc_raise)

lemma dsc_pred_of: "dsc V N K (pred_of v) (pred_within N)"
  by (auto simp: dsc_def pred_of_def bindE_get raiseE_def retE_def inside_def split: option.splits)

lemma dsc_list_pred_of: "dsc V N K (list_pred_of v) (agg_within N K)"
  by (auto simp: dsc_def list_pred_of_def bindE_get raiseE_def retE_def inside_def split: option.splits)

lemma dsc_update_pred:
  assumes "v \<in> V" "pred_within N p"
  shows "dsc_unit V N K (update_pred v p)"
  unfolding dsc_def
proof (intro allI impI conjI TrueI)
  fix s x s' assume s: "inside V N K s" and "update_pred v p s = (Inr x, s')"
  then have s': "s' = s\<lparr>pred_tracker := tracker_update unify (=) v p (pred_tracker s)\<rparr>"
    by (simp add: update_pred_def modifyE_def)
  show "inside V N K s'"
    using s assms within_unify by (auto simp: inside_def s' tracker_update_def update_conv' Let_def split: option.splits)
  let ?t = "map_of (predicates (pred_tracker s)) v"
  show "descends V N K s s'"
  proof (cases "?t = None \<or> (\<exists>q. ?t = Some q \<and> unify q p \<noteq> q)")
    case False
    then show ?thesis by (auto simp: s' tracker_update_def)
  next
    case True
    let ?n = "case ?t of None \<Rightarrow> p | Some q \<Rightarrow> unify q p"
    have n: "cell s' (Inl v) = Some ?n" "\<And>c. c \<noteq> Inl v \<Longrightarrow> cell s' c = cell s c"
      using True by (auto simp: s' tracker_update_def cell_def update_conv' Let_def split: option.splits sum.splits)
    have o: "cell s (Inl v) = ?t" by (simp add: cell_def)
    have "(cell s' (Inl v), cell s (Inl v)) \<in> descent N"
    proof (cases ?t)
      case (Some q)
      then have "pred_within N q" using s by (auto simp: inside_def)
      then show ?thesis using unify_descent [OF _ assms(2), of q] True Some n(1) o by auto
    qed (simp add: n(1) o descent_def rank_defs)
    moreover from this have "cell s' (Inl v) \<noteq> cell s (Inl v)" using descent_irrefl by metis
    moreover have "Inl v \<in> cells V K" using assms(1) by (simp add: cells_def)
    ultimately show ?thesis using n(2) unfolding descends_def by metis
  qed
qed

lemma dsc_update_list_pred:
  assumes "v \<in> V" "agg_within N K p" "0 < K"
  shows "dsc_unit V N K (update_list_pred v p)"
  unfolding dsc_def
proof (intro allI impI conjI TrueI)
  fix s x s' assume s: "inside V N K s" and "update_list_pred v p s = (Inr x, s')"
  then have s': "s' = s\<lparr>list_array_tracker := tracker_update agg_unify agg_eq v p (list_array_tracker s)\<rparr>"
    by (simp add: update_list_pred_def modifyE_def)
  let ?t = "map_of (predicates (list_array_tracker s)) v"
  let ?n = "case ?t of None \<Rightarrow> p | Some q \<Rightarrow> agg_unify q p"
  show "inside V N K s'"
    using s assms agg_within_unify by (auto simp: inside_def s' tracker_update_def update_conv' Let_def split: option.splits)
  show "descends V N K s s'"
  proof (cases "?t = None \<or> (\<exists>q. ?t = Some q \<and> \<not> agg_eq (agg_unify q p) q)")
    case False
    then show ?thesis by (auto simp: s' tracker_update_def)
  next
    case True
    have n: "cell s' (Inr (v, k)) = Some (agg_get ?n k)" "\<And>c. \<forall>k. c \<noteq> Inr (v, k) \<Longrightarrow> cell s' c = cell s c" for k
      using True by (auto simp: s' tracker_update_def cell_def update_conv' Let_def split: option.splits sum.splits)
    have o: "cell s (Inr (v, k)) = map_option (\<lambda>a. agg_get a k) ?t" for k by (simp add: cell_def)
    have each: "cell s' (Inr (v, k)) = cell s (Inr (v, k)) \<or> (cell s' (Inr (v, k)), cell s (Inr (v, k))) \<in> descent N" for k
    proof (cases ?t)
      case (Some q)
      then have "agg_within N K q" using s by (auto simp: inside_def)
      then show ?thesis
        using unify_descent [of N "agg_get q k" "agg_get p k"] agg_get_within assms(2) Some n(1) o agg_get_unify by auto
    qed (simp add: n(1) o descent_def rank_defs)
    have "\<exists>k < K. cell s' (Inr (v, k)) \<noteq> cell s (Inr (v, k))"
    proof (cases ?t)
      case None
      then show ?thesis using assms(3) n(1) o by auto
    next
      case (Some q)
      then have q: "agg_within N K q" using s by (auto simp: inside_def)
      from True Some obtain k where k: "agg_get (agg_unify q p) k \<noteq> agg_get q k" by (auto simp: agg_eq_def)
      moreover have "k < K" using k agg_get_beyond [OF q] agg_get_beyond [OF agg_within_unify [OF q assms(2)]]
        by (metis not_le)
      ultimately show ?thesis using Some n(1) o by auto
    qed
    then have "\<exists>c \<in> cells V K. cell s' c \<noteq> cell s c" using assms(1) by (auto simp: cells_def)
    then show ?thesis using n(2) each unfolding descends_def by metis
  qed
qed


lemma within_div: "pred_within N p \<Longrightarrow> pred_within N (p\<lparr>div_by := d\<rparr>)"
  by (simp add: pred_within_def)

lemma agg_within_true [simp]: "agg_within N K ALWAYS_TRUE_AGG_PREDICATE"
  by (simp add: agg_within_def ALWAYS_TRUE_AGG_PREDICATE_def)

lemma dsc_propagate_list: "v \<in> V \<Longrightarrow> 0 < K \<Longrightarrow> dsc_unit V N K (propagate_list x v)"
  unfolding propagate_list_def by (rule dsc_bind [OF dsc_list_pred_of]) (rule dsc_update_list_pred)

lemma dsc_propagate: "v \<in> V \<Longrightarrow> 0 < K \<Longrightarrow> dsc_unit V N K (propagate x v)"
  unfolding propagate_def
  by (rule dsc_bind [OF dsc_bind [OF dsc_pred_of dsc_update_pred]]) (simp_all add: dsc_propagate_list)

lemma dsc_set_pred: "v \<in> V \<Longrightarrow> pred_within N p \<Longrightarrow> 0 < K \<Longrightarrow> dsc_unit V N K (set_pred v p)"
  unfolding set_pred_def by (rule dsc_bind [OF dsc_update_pred]) (simp_all add: dsc_update_list_pred)

lemma dsc_set_always_true: "v \<in> V \<Longrightarrow> 0 < K \<Longrightarrow> dsc_unit V N K (set_always_true v)"
  unfolding set_always_true_def by (rule dsc_set_pred) simp_all

lemma dsc_with_result: "(\<And>r. r \<in> set rs \<Longrightarrow> dsc V N K (k r) Q) \<Longrightarrow> dsc V N K (with_result rs k) Q"
  by (auto simp: with_result_def dsc_raise split: list.split)

lemma dsc_with_operand: "(\<And>x. dsc V N K (k x) Q) \<Longrightarrow> dsc V N K (with_operand xs k) Q"
  by (auto simp: with_operand_def dsc_raise split: list.split)

lemma dsc_with_operands: "(\<And>x y. dsc V N K (k x y) Q) \<Longrightarrow> dsc V N K (with_operands xs k) Q"
  by (auto simp: with_operands_def dsc_raise split: list.split)

lemma dsc_weaken: "dsc V N K m P \<Longrightarrow> dsc V N K m (\<lambda>_. True)"
  by (simp add: dsc_def)

lemmas dsc_pred_of_any = dsc_weaken [OF dsc_pred_of]

lemma dsc_binary: "dsc V N K (binary_divisibility ctx fn l q r) (\<lambda>_. True)"
  unfolding binary_divisibility_def
  by (rule dsc_bind [OF dsc_lift], rule dsc_if, rule dsc_bind [OF dsc_pred_of], rule dsc_bind [OF dsc_pred_of])
    (simp_all add: dsc_ret)

lemma dsc_unary: "dsc V N K (unary_divisibility ctx fn x r) (\<lambda>_. True)"
  unfolding unary_divisibility_def
  by (rule dsc_bind [OF dsc_lift], rule dsc_if, rule dsc_bind [OF dsc_pred_of]) (simp_all add: dsc_ret)

lemma within_astype: "pred_within N p \<Longrightarrow> pred_within N (astype_predicate a b p)"
  by (simp add: astype_predicate_def pred_within_def)

lemma within_const: "pred_within N (const_predicate c i)"
  by (simp add: const_predicate_def pred_within_def ALIAS_UNIVERSE_def)

lemma dsc_assume:
  "v \<in> V \<Longrightarrow> 0 < K \<Longrightarrow> dsc_unit V N K (bindE (pred_of x) (\<lambda>p. bindE (update_pred v (p\<lparr>div_by := d\<rparr>)) (\<lambda>_. propagate_list x v)))"
  by (rule dsc_bind [OF dsc_pred_of], rule dsc_bind [OF dsc_update_pred]) (simp_all add: within_div dsc_propagate_list)

lemma dsc_offset:
  assumes "v \<in> V" "0 < K"
  shows "dsc_unit V N K (case ty of TileTy dt shape \<Rightarrow>
     bindE (lift_result (PointerInfo dt)) (\<lambda>info.
     bindE (if \<forall>x \<in> set shape. x = 1 then lift_result (pointer_pointee_dtype info) else retE DT_bool) (\<lambda>pointee.
     bindE (if \<forall>x \<in> set shape. x = 1 then pred_of i else pred_of x) (\<lambda>off.
     bindE (pred_of x) (\<lambda>ptr. set_pred v (ptr\<lparr>div_by := pointer_offset_divisibility pointee shape ptr off\<rparr>)))))
   | _ \<Rightarrow> raiseE AssertionError)"
proof (cases ty)
  case (TileTy dt shape)
  have "dsc_unit V N K (bindE (pred_of x) (\<lambda>ptr. set_pred v (ptr\<lparr>div_by := pointer_offset_divisibility pointee shape ptr off\<rparr>)))"
    for pointee off by (rule dsc_bind [OF dsc_pred_of]) (simp add: assms dsc_set_pred within_div)
  note last = this
  show ?thesis
    unfolding TileTy ir_type.case
    by (rule dsc_bind [OF dsc_lift], rule dsc_bind [where P = "\<lambda>_. True"], rule dsc_if [OF dsc_lift dsc_ret], rule TrueI,
      rule dsc_bind [where P = "\<lambda>_. True"], rule dsc_if [OF dsc_pred_of_any dsc_pred_of_any], rule last)
qed (simp_all add: dsc_raise)

lemma dsc_analyze_op:
  assumes "set rs \<subseteq> V" "0 < K"
  shows "dsc_unit V N K (analyze_op ctx c rs xs)"
proof -
  have V: "r \<in> V" if "r \<in> set rs" for r using that assms(1) by blast
  have copy: "dsc_unit V N K (with_operand xs (\<lambda>x. with_result rs (propagate x)))"
    by (intro dsc_with_operand dsc_with_result dsc_propagate V assms(2))
  have other: "dsc_unit V N K (forE rs set_always_true)"
    by (intro dsc_forE dsc_set_always_true V assms(2))
  show ?thesis
  proof (cases c)
    case (AssumeDivBy d)
    then show ?thesis unfolding analyze_op.simps AssumeDivBy
      by (intro dsc_with_operand dsc_with_result dsc_assume V assms(2))
  next
    case GetArrayListItem
    have "dsc_unit V N K (bindE (list_pred_of b) (\<lambda>a. forE (List.enumerate 0 rs) (\<lambda>(i, v). set_pred v (agg_get a i))))" for b
    proof (rule dsc_bind [OF dsc_list_pred_of], rule dsc_forE)
      fix a p assume a: "agg_within N K a" and p: "p \<in> set (List.enumerate 0 rs)"
      obtain i v where iv: "p = (i, v)" by (cases p)
      then have "v \<in> set rs" using p by (metis enumerate_eq_zip set_zip_rightD)
      then show "dsc_unit V N K (case p of (i, v) \<Rightarrow> set_pred v (agg_get a i))"
        using iv a V assms(2) by (simp add: dsc_set_pred agg_get_within)
    qed
    then show ?thesis unfolding GetArrayListItem analyze_op.simps
      by (intro dsc_with_operands) (simp add: dsc_raise split: option.split)
  next
    case PointerOffset
    then show ?thesis unfolding analyze_op.simps PointerOffset
      by (intro dsc_with_operands dsc_with_result dsc_bind [OF dsc_lift] dsc_offset V assms(2))
  next
    case TileAsType
    then show ?thesis unfolding analyze_op.simps TileAsType
      by (intro dsc_with_operand dsc_with_result dsc_bind [OF dsc_lift] dsc_bind [OF dsc_pred_of] dsc_set_pred within_astype V assms(2))
  next
    case (TypedConst k)
    have "dsc_unit V N K (bindE (lift_result (type_of ctx r)) (\<lambda>ty. set_pred r (const_predicate (is_scalar_type ty) i)))"
      if "r \<in> set rs" for r i
      by (rule dsc_bind [OF dsc_lift]) (simp add: dsc_set_pred within_const V that assms(2))
    then show ?thesis unfolding analyze_op.simps TypedConst
      by (cases "int_of_const k") (auto intro!: dsc_with_result dsc_set_always_true V assms(2))
  next
    case (RawBinaryArithmeticOperation fn rm ftz)
    then show ?thesis unfolding analyze_op.simps RawBinaryArithmeticOperation
      by (intro dsc_with_operands dsc_with_result dsc_bind [OF dsc_binary] dsc_set_pred within_div within_always_true V assms(2))
  next
    case (Unary fn rm ftz)
    then show ?thesis unfolding analyze_op.simps Unary
      by (intro dsc_with_operand dsc_with_result dsc_bind [OF dsc_unary] dsc_set_pred within_div within_always_true V assms(2))
  qed (use copy other in simp_all)
qed

definition loop_within :: "var set \<Rightarrow> loop_info option \<Rightarrow> bool" where
  "loop_within V l \<longleftrightarrow> (\<forall>li. l = Some li \<longrightarrow> set (loop_body_vars li) \<union> set (loop_result_vars li) \<subseteq> V)"

lemma dsc_triple: "b \<in> V \<Longrightarrow> y \<in> V \<Longrightarrow> 0 < K \<Longrightarrow>
    dsc_unit V N K ((\<lambda>(x, b, y). seqE [propagate x b] (if c then propagate x y else skipE)) (x, b, y))"
  unfolding seqE.simps prod.case
  by (rule dsc_bind [OF dsc_propagate]) (simp_all add: dsc_propagate dsc_skip)

lemma dsc_analyze_block:
  assumes K: "0 < K"
  shows "set (defined_vars ops) \<subseteq> V \<Longrightarrow> loop_within V l \<Longrightarrow> (\<forall>rs. t = Some rs \<longrightarrow> set rs \<subseteq> V) \<Longrightarrow>
    dsc_unit V N K (analyze_block ctx ops l t)"
proof (induction ops arbitrary: l t rule: traverse_induct)
  case Nil
  then show ?case by (simp add: dsc_skip)
next
  case (Operation c rs xs ops)
  then show ?case unfolding analyze_block.simps
    by (intro dsc_bind [OF dsc_analyze_op [OF _ K]]) simp_all
next
  case (Loop i r init ps body rs ops)
  let ?bvs = "body_vars r ps"
  have b: "set ?bvs \<subseteq> V" "set rs \<subseteq> V" "set ps \<subseteq> V"
    using Loop.prems(1) by (cases ps; auto simp: body_vars_def)+
  have first: "dsc_unit V N K (if r \<noteq> None then (case ps of [] \<Rightarrow> raiseE IndexError | p # _ \<Rightarrow> set_always_true p) else skipE)"
    using b(3) by (auto simp: dsc_skip dsc_raise intro: dsc_set_always_true [OF _ K] split: list.split)
  have zip: "dsc_unit V N K (zip3_strict init ?bvs rs (\<lambda>(x, b, y). seqE [propagate x b] (if r \<noteq> None then propagate x y else skipE)))"
    by (rule dsc_zip3_strict, rule dsc_triple) (use b K in auto)
  have body: "dsc_unit V N K (analyze_block ctx body (Some \<lparr>loop_is_for = (r \<noteq> None), loop_body_vars = ?bvs, loop_result_vars = rs\<rparr>) None)"
    by (rule Loop.IH(1)) (use Loop.prems(1) b in \<open>auto simp: loop_within_def\<close>)
  have rest: "dsc_unit V N K (analyze_block ctx ops l t)"
    by (rule Loop.IH(2)) (use Loop.prems in auto)
  show ?case unfolding analyze_block.simps Let_def seqE.simps
    by (rule dsc_bind [OF first], rule dsc_bind [OF zip [unfolded seqE.simps]], rule dsc_bind [OF body], rule rest)
next
  case (IfElse i c T E rs ops)
  have "dsc_unit V N K (analyze_block ctx T l (Some rs))" "dsc_unit V N K (analyze_block ctx E l (Some rs))"
    "dsc_unit V N K (analyze_block ctx ops l t)"
    using IfElse.prems by (simp_all add: IfElse.IH)
  then show ?case unfolding analyze_block.simps seqE.simps
    by (intro dsc_bind [where P = "\<lambda>_. True"])
next
  case (TileFold i k ids xs ps body rs ops)
  have "dsc_unit V N K (forE ps set_always_true)"
    by (rule dsc_forE) (use TileFold.prems(1) in \<open>auto intro: dsc_set_always_true [OF _ K]\<close>)
  moreover have "dsc_unit V N K (analyze_block ctx body None (Some rs))" "dsc_unit V N K (analyze_block ctx ops l t)"
    using TileFold.prems by (simp_all add: TileFold.IH loop_within_def)
  ultimately show ?case unfolding analyze_block.simps seqE.simps
    by (intro dsc_bind [where P = "\<lambda>_. True"])
next
  case (Continue vs ops)
  have "dsc_unit V N K (zip3_strict vs (loop_body_vars li) (loop_result_vars li)
      (\<lambda>(x, b, y). seqE [propagate x b] (if loop_is_for li then propagate x y else skipE)))" if "l = Some li" for li
    by (rule dsc_zip3_strict, rule dsc_triple) (use Continue.prems(2) that K in \<open>auto simp: loop_within_def\<close>)
  then have "dsc_unit V N K (case l of None \<Rightarrow> raiseE AttributeError | Some li \<Rightarrow> zip3_strict vs (loop_body_vars li) (loop_result_vars li)
      (\<lambda>(x, b, y). seqE [propagate x b] (if loop_is_for li then propagate x y else skipE)))"
    by (simp add: dsc_raise split: option.split)
  then show ?case unfolding analyze_block.simps
    by (rule dsc_bind) (use Continue in simp)
next
  case (Break vs ops)
  have "dsc_unit V N K (zip_strict vs (loop_result_vars li) (\<lambda>(a, b). propagate a b))" if "l = Some li" for li
    by (rule dsc_zip_strict) (use Break.prems(2) that K in \<open>auto simp: loop_within_def intro: dsc_propagate\<close>)
  then have "dsc_unit V N K (case l of None \<Rightarrow> raiseE AttributeError | Some li \<Rightarrow> zip_strict vs (loop_result_vars li) (\<lambda>(a, b). propagate a b))"
    by (simp add: dsc_raise split: option.split)
  then show ?case unfolding analyze_block.simps
    by (rule dsc_bind) (use Break in simp)
next
  case (EndBranch vs ops)
  have "dsc_unit V N K (zip_strict vs rs (\<lambda>(a, b). propagate a b))" if "t = Some rs" for rs
    by (rule dsc_zip_strict) (use EndBranch.prems(3) that K in \<open>auto intro: dsc_propagate\<close>)
  then have "dsc_unit V N K (case t of None \<Rightarrow> raiseE AttributeError | Some rs \<Rightarrow> zip_strict vs rs (\<lambda>(a, b). propagate a b))"
    by (simp add: dsc_raise split: option.split)
  then show ?case unfolding analyze_block.simps
    by (rule dsc_bind) (use EndBranch in simp)
qed


section \<open>The loop ends\<close>

definition cell_mset :: "var set \<Rightarrow> nat \<Rightarrow> df_state \<Rightarrow> data_predicate option multiset" where
  "cell_mset V K s = image_mset (cell s) (mset_set (cells V K))"

lemma descends_mult:
  assumes V: "finite V" and d: "descends V N K s s'" and dirty: "df_dirty s'" "\<not> df_dirty s"
  shows "(cell_mset V K s', cell_mset V K s) \<in> mult (descent N)"
proof -
  let ?C = "cells V K" let ?M = "{c \<in> ?C. cell s' c \<noteq> cell s c}"
  have fin: "finite ?C" using V by (simp add: cells_def)
  have ne: "?M \<noteq> {}" using d dirty unfolding descends_def by blast
  have split: "cell_mset V K t = image_mset (cell t) (mset_set (?C - ?M)) + image_mset (cell t) (mset_set ?M)" for t
  proof -
    have "mset_set ?C = mset_set (?C - ?M) + mset_set ?M"
      using fin by (subst mset_set_Union [symmetric]) (auto intro: arg_cong [where f = mset_set])
    then show ?thesis by (simp add: cell_mset_def)
  qed
  have same: "image_mset (cell s') (mset_set (?C - ?M)) = image_mset (cell s) (mset_set (?C - ?M))"
    by (rule image_mset_cong) (use fin in auto)
  have fM: "finite ?M" using fin by simp
  have "(image_mset (cell s) (mset_set (?C - ?M)) + image_mset (cell s') (mset_set ?M),
     image_mset (cell s) (mset_set (?C - ?M)) + image_mset (cell s) (mset_set ?M)) \<in> mult (descent N)"
  proof (rule one_step_implies_mult)
    show "image_mset (cell s) (mset_set ?M) \<noteq> {#}" using ne fM by (simp add: mset_set_empty_iff)
    show "\<forall>k \<in> set_mset (image_mset (cell s') (mset_set ?M)). \<exists>j \<in> set_mset (image_mset (cell s) (mset_set ?M)). (k, j) \<in> descent N"
      using d fM unfolding descends_def by auto
  qed
  then show ?thesis unfolding split [of s] split [of s'] same .
qed

lemma cell_reset: "cell (reset_dirty s) = cell s"
  by (rule ext) (simp add: cell_def reset_dirty_def split: sum.split)

lemma analyze_until_clean_ends:
  assumes V: "finite V" "set (defined_vars root) \<subseteq> V" and K: "0 < K"
  shows "inside V N K s \<Longrightarrow> \<exists>r. analyze_until_clean ctx root s = Some r"
proof (induction s rule: wf_induct_rule [OF wf_inv_image [OF wf_mult [OF wf_descent], where f = "cell_mset V K"], of N])
  case (1 s)
  show ?case
  proof (cases "df_dirty s")
    case True
    obtain r t where t: "analyze_block ctx root None None (reset_dirty s) = (r, t)" by fastforce
    show ?thesis
    proof (cases r)
      case (Inl e)
      then show ?thesis using True t by (subst analyze_until_clean.simps) simp
    next
      case (Inr u)
      have "inside V N K (reset_dirty s)" using 1(2) by (simp add: inside_def reset_dirty_def)
      then have i: "inside V N K t" "descends V N K (reset_dirty s) t"
        using dsc_analyze_block [OF K V(2), of None None] t Inr unfolding dsc_def loop_within_def by blast+
      have "\<exists>r. analyze_until_clean ctx root t = Some r"
      proof (cases "df_dirty t")
        case True
        have "(cell_mset V K t, cell_mset V K (reset_dirty s)) \<in> mult (descent N)"
          by (rule descends_mult [OF V(1) i(2) True]) (simp add: df_dirty_def reset_dirty_def)
        then show ?thesis using 1(1) [of t] i(1) by (simp add: cell_mset_def cell_reset)
      qed (subst analyze_until_clean.simps, simp)
      then show ?thesis using True t Inr by (subst analyze_until_clean.simps) simp
    qed
  qed (subst analyze_until_clean.simps, simp)
qed

text \<open>Every pair of tables is inside some bounds.\<close>

lemma bits_bound: "finite A \<Longrightarrow> \<exists>N. \<forall>a \<in> A. \<forall>n \<ge> N. signed_take_bit n a = (a::int)"
proof (induction rule: finite_induct)
  case (insert a A)
  then obtain N where N: "\<forall>a \<in> A. \<forall>n \<ge> N. signed_take_bit n a = a" by blast
  have "signed_take_bit n a = a" if "nat \<bar>a\<bar> \<le> n" for n
  proof -
    have "int (nat \<bar>a\<bar>) < 2 ^ n" using le_less_trans [OF that less_exp] by (metis of_nat_less_iff of_nat_numeral of_nat_power)
    then show ?thesis by (subst signed_take_bit_int_eq_self_iff) auto
  qed
  then have "\<forall>b \<in> insert a A. \<forall>n \<ge> max N (nat \<bar>a\<bar>). signed_take_bit n b = b" using N by auto
  then show ?case by blast
qed simp

lemma ex_inside:
  assumes "finite V0"
  shows "\<exists>V N K. finite V \<and> V0 \<subseteq> V \<and> 0 < K \<and> inside V N K s"
proof -
  let ?P = "predicates (pred_tracker s)" and ?L = "predicates (list_array_tracker s)"
  let ?V = "V0 \<union> fst ` set ?P \<union> fst ` set ?L"
  let ?A = "alias_set ` (snd ` set ?P \<union> (\<Union>a \<in> snd ` set ?L. snd ` set a))"
  have "finite ?A" by simp
  from bits_bound [OF this] obtain N where "\<forall>a \<in> ?A. \<forall>n \<ge> N. signed_take_bit n a = a" ..
  then have N: "\<forall>a \<in> ?A. signed_take_bit N a = a" by blast
  let ?ks = "\<Union>a \<in> snd ` set ?L. fst ` set a"
  have "finite ?ks" by simp
  then obtain k where k: "\<forall>i \<in> ?ks. i \<le> k" using finite_nat_set_iff_bounded_le by metis
  have "inside ?V N (Suc k) s"
    unfolding inside_def
  proof (intro conjI allI impI)
    fix v p assume "map_of ?P v = Some p"
    then have "(v, p) \<in> set ?P" by (rule map_of_SomeD)
    then show "v \<in> ?V" "pred_within N p" using N by (force simp: pred_within_def)+
  next
    fix v a assume "map_of ?L v = Some a"
    then have m: "(v, a) \<in> set ?L" by (rule map_of_SomeD)
    then show "v \<in> ?V" by force
    show "agg_within N (Suc k) a"
      unfolding agg_within_def
    proof safe
      fix i p assume ip: "(i, p) \<in> set a"
      have "i \<in> ?ks" using m ip by force
      with k have "i \<le> k" by blast
      then show "i < Suc k" by simp
      have "alias_set p \<in> ?A" using m ip by force
      with N have "signed_take_bit N (alias_set p) = alias_set p" by (rule bspec)
      then show "pred_within N p" unfolding pred_within_def .
    qed
  qed
  then show ?thesis using assms by (intro exI [of _ ?V] exI [of _ N] exI [of _ "Suc k"]) auto
qed

lemma dataflow_ends: "dataflow_analysis ctx root params \<noteq> None"
proof -
  let ?init = "\<lparr>ps_df = empty_df_state, ps_mapper = \<lparr>next_bit = 0, group_bits = []\<rparr>\<rparr>"
  obtain r ps where r: "forE params register_parameter ?init = (r, ps)" by fastforce
  obtain r1 s1 where r1: "analyze_block ctx root None None (ps_df ps) = (r1, s1)" by fastforce
  obtain V N K where V: "finite V" "set (defined_vars root) \<subseteq> V" "0 < K" "inside V N K s1"
    using ex_inside [of "set (defined_vars root)" s1] by auto
  then obtain q where "analyze_until_clean ctx root s1 = Some q" using analyze_until_clean_ends by blast
  then show ?thesis using r r1 by (cases r; cases r1) (simp_all add: dataflow_analysis_def)
qed

end
