(* ===== verification/DataflowProps.thy ===== *)
theory DataflowProps
  imports DataflowPass DataflowEnds
begin

text \<open>
  The properties of the data-flow analysis, and a machine with numbers and addresses to apply them on.
\<close>

section \<open>A machine with numbers and addresses\<close>

text \<open>Numbers are 32-bit, pointers are to 4-byte elements; a tile is its only element.\<close>

datatype scalar = Num int | Addr int | Junk

fun scalar_ints :: "scalar \<Rightarrow> int set" where
  "scalar_ints (Num i) = {i}"
| "scalar_ints _ = {}"

fun scalar_addrs :: "scalar \<Rightarrow> int set" where
  "scalar_addrs (Addr a) = {a}"
| "scalar_addrs _ = {}"

definition scalar_view :: "scalar view" where
  "scalar_view = \<lparr>v_ints = scalar_ints, v_addrs = scalar_addrs\<rparr>"

definition scalar_step :: "op_class \<Rightarrow> scalar list \<Rightarrow> unit \<Rightarrow> (scalar list \<times> unit) option" where
  "scalar_step c vs s = map_option (\<lambda>y. ([y], s)) (case c of
     TypedConst (PyInt i) \<Rightarrow> Some (Num i)
   | RawBinaryArithmeticOperation fn _ _ \<Rightarrow>
       (case vs of [Num a, Num b] \<Rightarrow> if fn = ''add'' then Some (Num (truncate_int DT_int32 (a + b))) else None | _ \<Rightarrow> None)
   | PointerOffset \<Rightarrow> (case vs of [Addr a, Num i] \<Rightarrow> Some (Addr ((a + i * 4) mod 2 ^ 64)) | _ \<Rightarrow> None)
   | Assign \<Rightarrow> (case vs of [x] \<Rightarrow> Some x | _ \<Rightarrow> None)
   | AssumeDivBy d \<Rightarrow>
       (case vs of [x] \<Rightarrow> if \<forall>e \<in> scalar_ints x \<union> scalar_addrs x. d dvd e then Some x else None | _ \<Rightarrow> None)
   | LoadPointer \<Rightarrow> (case vs of [Addr a] \<Rightarrow> Some Junk | _ \<Rightarrow> None)
   | _ \<Rightarrow> None)"

definition scalar_machine :: "(scalar, unit) machine" where
  "scalar_machine = \<lparr>m_step = scalar_step, m_true = (\<lambda>v. v \<noteq> Num 0),
     m_range = (\<lambda>a b c. case (a, b, c) of (Num x, Num y, Num z) \<Rightarrow> if z = 1 then Some (List.map Num [x..y - 1]) else None | _ \<Rightarrow> None),
     m_const = (\<lambda>c. case c of PyInt i \<Rightarrow> Num i | _ \<Rightarrow> Junk), m_dims = (\<lambda>_ _. (1, 1)),
     m_elem = (\<lambda>_ v _ _. v), m_tile = (\<lambda>_ rows. case concat rows of [] \<Rightarrow> Junk | e # es \<Rightarrow> e)\<rparr>"

lemma scalar_tiles: "tiles_ok scalar_view scalar_machine"
proof -
  have "keeps scalar_view es (case es of [] \<Rightarrow> Junk | e # es \<Rightarrow> e)" for es
    by (cases es) (auto simp: keeps_def scalar_view_def)
  then show ?thesis by (simp add: tiles_ok_def scalar_machine_def del: set_concat)
qed

fun scalar_typed :: "ir_context \<Rightarrow> ir_op \<Rightarrow> bool" where
  "scalar_typed ctx (Operation c rs xs) \<longleftrightarrow> c \<noteq> GetArrayListItem \<and>
     (\<forall>r \<in> set rs. integral_of ctx r \<in> {None, Some DT_int32}) \<and>
     (c = PointerOffset \<longrightarrow> xs \<noteq> [] \<and> (offset_bytes ctx (hd xs) = None \<or> offset_bytes ctx (hd xs) = Some 4))"
| "scalar_typed ctx _ \<longleftrightarrow> True"

lemma scalar_step_spec:
  assumes "scalar_step c vs s = Some (ys, t)" and "scalar_typed ctx (Operation c rs xs)"
  shows "op_spec scalar_view ctx c rs xs vs ys"
proof (cases c)
  case (RawBinaryArithmeticOperation fn rm ftz)
  then obtain a b where ab: "vs = [Num a, Num b]" "fn = ''add''" "ys = [Num (truncate_int DT_int32 (a + b))]"
    using assms(1) by (auto simp: scalar_step_def split: list.splits scalar.splits if_splits)
  show ?thesis
  proof (cases rs)
    case (Cons r rs')
    then have "integral_of ctx r = None \<or> integral_of ctx r = Some DT_int32" using assms(2) by simp
    then show ?thesis
      unfolding op_spec_def RawBinaryArithmeticOperation ab Cons by (auto simp: scalar_view_def arith_def)
  qed (simp add: op_spec_def)
next
  case PointerOffset
  then show ?thesis using assms
    by (cases rs) (auto simp: scalar_step_def op_spec_def scalar_view_def hd_conv_nth dest: set_zip_rightD split: list.splits scalar.splits)
next
  case Assign
  then show ?thesis using assms(1)
    by (cases rs) (auto simp: scalar_step_def op_spec_def scalar_view_def keeps_def split: list.splits)
next
  case (AssumeDivBy d)
  then show ?thesis using assms(1)
    by (cases rs) (auto simp: scalar_step_def op_spec_def scalar_view_def keeps_def split: list.splits if_splits)
next
  case (TypedConst k)
  then show ?thesis using assms(1)
    by (cases k; cases rs) (auto simp: scalar_step_def op_spec_def scalar_view_def int_of_const_def)
qed (use assms(1) in \<open>auto simp: scalar_step_def op_spec_def\<close>)

section \<open>An example\<close>

text \<open>\<^verbatim>\<open>off = 0; for i in range(n): off += 8; p[off]\<close>, for an array of \<^verbatim>\<open>float32\<close> whose base is divisible by 16.\<close>

definition df_array :: array_constraint where
  "df_array = \<lparr>arr_dtype = DT_float32, arr_ndim = 1, arr_index_dtype = DT_int32,
     arr_stride_lower_bound_incl = [None], arr_alias_groups = [], arr_may_alias_internally = False,
     arr_stride_constant = [Some 1], arr_shape_constant = [None], arr_stride_divisible_by = [1],
     arr_shape_divisible_by = [8], arr_base_addr_divisible_by = 16\<rparr>"

definition df_params :: "(var list \<times> constraint) list" where
  "df_params = [([''p'', ''n'', ''one''], ArrayConstraint df_array)]"

definition df_program :: "ir_op list" where
  "df_program =
     [Operation (TypedConst (PyInt 8)) [''eight''] [], Operation (TypedConst (PyInt 0)) [''zero''] [],
      Loop 0 (Some (''zero'', ''n'', ''one'')) [''zero''] [''i'', ''acc'']
        [Operation (RawBinaryArithmeticOperation ''add'' None False) [''acc2''] [''acc'', ''eight''],
         Continue [''acc2'']] [''off''],
      Operation PointerOffset [''q''] [''p'', ''off''],
      Operation LoadPointer [''x''] [''q''],
      Operation Return [] []]"

definition df_context :: ir_context where
  "df_context = (let int = TileTy DT_int32 []; ptr = TileTy (DT_pointer (Some DT_float32) MS_GLOBAL) [] in
     \<lparr>all_vars = [], counter_by_name = [], temp_counter = 0,
      typemap = [(''p'', ptr), (''n'', int), (''one'', int), (''eight'', int), (''zero'', int), (''i'', int), (''acc'', int),
        (''acc2'', int), (''off'', int), (''q'', ptr), (''x'', TileTy DT_float32 [])],
      constants = [], list_base_ptr = []\<rparr>)"


definition df_result :: "(var \<times> data_predicate) list" where
  "df_result =
     [(''p'', \<lparr>alias_set = 1, div_by = 16, may_alias_internally = False, const_value = None\<rparr>),
      (''n'', ALWAYS_TRUE_PREDICATE\<lparr>div_by := 8\<rparr>), (''one'', const_predicate True 1),
      (''eight'', const_predicate True 8), (''zero'', const_predicate True 0), (''i'', ALWAYS_TRUE_PREDICATE),
      (''acc'', ALWAYS_TRUE_PREDICATE\<lparr>div_by := 8\<rparr>), (''off'', ALWAYS_TRUE_PREDICATE\<lparr>div_by := 8\<rparr>),
      (''acc2'', ALWAYS_TRUE_PREDICATE\<lparr>div_by := 8\<rparr>),
      (''q'', \<lparr>alias_set = 1, div_by = 16, may_alias_internally = False, const_value = None\<rparr>),
      (''x'', ALWAYS_TRUE_PREDICATE)]"

lemma df_program_analysed: "dataflow_analysis df_context df_program df_params = Some (Inr df_result)"
  by code_simp

definition df_env :: "scalar env" where
  "df_env = [''p'' \<mapsto> Addr 4096, ''n'' \<mapsto> Num 16, ''one'' \<mapsto> Num 1]"

lemma df_program_runs: "exec scalar_machine 10 df_program df_env () = Some (Returned, ())"
  by code_simp

lemma df_arguments: "arguments_ok scalar_view df_env df_params"
  by (auto simp: arguments_ok_def df_params_def df_env_def df_array_def array_ok_def base_ok_def dim_ok_def dims_of_def
      scalar_view_def numeral_3_eq_3 split: if_splits)

lemma scalar_obeys: "\<forall>op \<in> set (traverse root). scalar_typed ctx op \<Longrightarrow> obeys scalar_view ctx scalar_machine root"
  unfolding obeys_def
proof
  fix op assume "\<forall>op \<in> set (traverse root). scalar_typed ctx op" "op \<in> set (traverse root)"
  then have "scalar_typed ctx op" by blast
  then show "op_obeys scalar_view ctx scalar_machine op"
    by (cases op) (auto simp: scalar_machine_def intro: scalar_step_spec)
qed

lemma df_program_obeys: "obeys scalar_view df_context scalar_machine df_program"
  by (rule scalar_obeys) code_simp

section \<open>Properties\<close>



text \<open>C7. The analysis ends: for every program and all constraints it returns predicates or raises.\<close>

theorem dataflow_terminates: "\<exists>r. dataflow_analysis ctx root params = Some r"
  using dataflow_ends by blast

end
