(* ===== verification/Remap.thy ===== *)
theory Remap
  imports IRSem Dce
begin

text \<open>
  \<^verbatim>\<open>Mapper\<close> and \<^verbatim>\<open>remap_operands\<close> of \<^verbatim>\<open>src/cuda/tile/_ir/ir.py\<close>, with which the passes replace the uses of
  a variable, and what the proofs about such passes share.

  \<^item> \<open>follows \<mu> \<rho> \<rho>'\<close>: every variable that is defined in \<open>\<rho>\<close> has its value under its new name in \<open>\<rho>'\<close>;
  \<^item> the loops and folds of \<open>IRSem\<close> are monotone in their bodies.
\<close>

section \<open>Mappers\<close>

type_synonym mapper = "(var \<times> var) list"

definition get_var :: "mapper \<Rightarrow> var \<Rightarrow> var" where
  "get_var m v = (case map_of m v of None \<Rightarrow> v | Some w \<Rightarrow> w)"

definition set_var :: "var \<Rightarrow> var \<Rightarrow> mapper \<Rightarrow> (py_error + unit) \<times> mapper" where
  "set_var old new m = (if map_of m old = None then (Inr (), (old, new) # m) else (Inl AssertionError, m))"

fun remap_operands :: "mapper \<Rightarrow> ir_op \<Rightarrow> ir_op" where
  "remap_operands m (Operation c rs xs) = Operation c rs (List.map (get_var m) xs)"
| "remap_operands m (Loop i r init ps body rs) =
     Loop i (map_option (\<lambda>(a, b, c). (get_var m a, get_var m b, get_var m c)) r) (List.map (get_var m) init) ps body rs"
| "remap_operands m (IfElse i c T E rs) = IfElse i (get_var m c) T E rs"
| "remap_operands m (TileFold i k ids xs ps body rs) = TileFold i k ids (List.map (get_var m) xs) ps body rs"
| "remap_operands m (Continue vs) = Continue (List.map (get_var m) vs)"
| "remap_operands m (Break vs) = Break (List.map (get_var m) vs)"
| "remap_operands m (EndBranch vs) = EndBranch (List.map (get_var m) vs)"

lemma remap_inputs: "all_inputs (remap_operands m op) = List.map (get_var m) (all_inputs op)"
  by (cases op) (auto simp: range_vars_def split: option.split)

lemma remap_results: "result_vars (remap_operands m op) = result_vars op" "nested_blocks (remap_operands m op) = nested_blocks op"
  by (cases op; simp)+

section \<open>Renamed environments\<close>

definition follows :: "mapper \<Rightarrow> 'v env \<Rightarrow> 'v env \<Rightarrow> bool" where
  "follows m \<rho> \<rho>' \<longleftrightarrow> (\<forall>x v. \<rho> x = Some v \<longrightarrow> \<rho>' (get_var m x) = Some v)"

lemma follows_lookups: "follows m \<rho> \<rho>' \<Longrightarrow> lookups \<rho> xs = Some vs \<Longrightarrow> lookups \<rho>' (List.map (get_var m) xs) = Some vs"
  by (auto simp: lookups_list_all2 follows_def list.rel_map elim!: list_all2_mono)

lemma follows_cong: "follows m \<rho> \<rho>' \<Longrightarrow> (\<And>x. x \<in> dom \<rho> \<Longrightarrow> get_var m' x = get_var m x) \<Longrightarrow> follows m' \<rho> \<rho>'"
  by (simp add: follows_def domI)

text \<open>New variables under their own names, if no defined variable is mapped to one of them.\<close>

lemma map_upds_same: "length xs = length vs \<Longrightarrow> y \<in> set xs \<Longrightarrow> (\<rho>(xs [\<mapsto>] vs)) y = (\<rho>'(xs [\<mapsto>] vs)) y"
  by (induction xs vs arbitrary: \<rho> \<rho>' rule: list_induct2) (auto, metis fun_upd_same map_upds_apply_nontin)

lemma follows_bind:
  assumes "follows m \<rho> \<rho>'" and "\<forall>x \<in> set xs. map_of m x = None" and "\<forall>x \<in> dom \<rho>. get_var m x \<notin> set xs"
    and len: "length xs = length vs"
  shows "follows m (\<rho>(xs [\<mapsto>] vs)) (\<rho>'(xs [\<mapsto>] vs))"
  unfolding follows_def
proof (intro allI impI)
  fix y v assume v: "(\<rho>(xs [\<mapsto>] vs)) y = Some v"
  show "(\<rho>'(xs [\<mapsto>] vs)) (get_var m y) = Some v"
  proof (cases "y \<in> set xs")
    case True
    then have "map_of m y = None" using assms(2) by blast
    then show ?thesis using v map_upds_same [OF len True, of \<rho> \<rho>'] by (simp add: get_var_def)
  next
    case False
    then have "\<rho> y = Some v" using v by (simp add: map_upds_apply_nontin)
    then have "\<rho>' (get_var m y) = Some v" "get_var m y \<notin> set xs" using assms(1,3) by (auto simp: follows_def domI)
    then show ?thesis by (simp add: map_upds_apply_nontin)
  qed
qed

section \<open>Monotone loops\<close>

lemma while_mono: "(\<And>vs s x. f vs s = Some x \<Longrightarrow> g vs s = Some x) \<Longrightarrow> while_loop f n vs s = Some x \<Longrightarrow> while_loop g n vs s = Some x"
  by (induction f n vs s rule: while_loop.induct) (auto split: option.splits outcome.splits)

lemma for_mono: "(\<And>vs s x. f vs s = Some x \<Longrightarrow> g vs s = Some x) \<Longrightarrow> for_loop f is vs s = Some x \<Longrightarrow> for_loop g is vs s = Some x"
  by (induction f "is" vs s rule: for_loop.induct) (auto split: option.splits outcome.splits)


lemma run_loop_mono:
  assumes "\<And>vs s x. f vs s = Some x \<Longrightarrow> g vs s = Some x" and "follows m \<rho> \<rho>'"
    and "run_loop M n r \<rho> f vs s = Some x"
  shows "run_loop M n (map_option (\<lambda>(a, b, c). (get_var m a, get_var m b, get_var m c)) r) \<rho>' g vs s = Some x"
proof (cases r)
  case None
  then show ?thesis using assms(3) while_mono [of f g, OF assms(1)] by (simp add: run_loop_def)
next
  case (Some abc)
  obtain a b c where abc: "abc = (a, b, c)" by (cases abc)
  then obtain x1 x2 x3 "is" where v: "\<rho> a = Some x1" "\<rho> b = Some x2" "\<rho> c = Some x3" "m_range M x1 x2 x3 = Some is"
    and f: "for_loop f is vs s = Some x"
    using assms(3) Some by (auto simp: run_loop_def bind_eq_Some_conv)
  then show ?thesis using Some abc assms(2) for_mono [of f g, OF assms(1) f]
    by (auto simp: run_loop_def follows_def)
qed

lemma accumulate_mono:
  assumes "\<And>a e b. g a e = Some b \<Longrightarrow> g' a e = Some b"
  shows "accumulate g a es = Some bs \<Longrightarrow> accumulate g' a es = Some bs"
proof (induction es arbitrary: a bs)
  case (Cons e es)
  then obtain b cs where "g a e = Some b" "accumulate g b es = Some cs" "bs = b # cs"
    by (auto simp: bind_eq_Some_conv)
  then show ?case using Cons.IH [of b cs] assms by simp
qed simp

lemma fold_lane_mono:
  assumes g: "\<And>a e b. g a e = Some b \<Longrightarrow> g' a e = Some b" and "fold_lane k g a es = Some row"
  shows "fold_lane k g' a es = Some row"
proof -
  have "accumulate g' a es' = Some bs" if "accumulate g a es' = Some bs" for es' bs
    by (rule accumulate_mono [where g = g, OF _ that]) (rule g)
  then show ?thesis using assms(2) by (auto simp: fold_lane_def split: fold_kind.splits bool.splits)
qed

lemma those_mono: "(\<And>i y. f i = Some y \<Longrightarrow> g i = Some y) \<Longrightarrow> those (List.map f is) = Some ys \<Longrightarrow> those (List.map g is) = Some ys"
  by (induction "is" arbitrary: ys) (auto split: option.splits)

lemma fold_tiles_mono:
  assumes g: "\<And>a e b. g a e = Some b \<Longrightarrow> g' a e = Some b" and f: "fold_tiles M k g ids vs = Some ys"
  shows "fold_tiles M k g' ids vs = Some ys"
proof -
  have lane: "fold_lane k g' a es = Some row" if "fold_lane k g a es = Some row" for a es row
    by (rule fold_lane_mono [where g = g, OF _ that]) (rule g)
  have all: "those (List.map (\<lambda>i. fold_lane k g' a (es i)) is) = Some rows"
    if "those (List.map (\<lambda>i. fold_lane k g a (es i)) is) = Some rows" for a es "is" rows
    by (rule those_mono [OF _ that]) (rule lane)
  show ?thesis using f unfolding fold_tiles_def Let_def
    by (auto simp: all split: if_splits prod.splits)
qed

lemma resume_mono:
  assumes "resume rs \<rho> k r = Some (out, t)"
    and "\<And>ys t'. r = Some (Yielded ys, t') \<Longrightarrow> length rs = length ys \<Longrightarrow> k (\<rho>(rs [\<mapsto>] ys)) t' = Some (out, t) \<Longrightarrow>
      k' (\<rho>'(rs [\<mapsto>] ys)) t' = Some (out, t)"
  shows "resume rs \<rho>' k' r = Some (out, t)"
  using assms by (auto simp: resume_Some bind_vars_Some)

end
