(* ===== verification/EliminateAssign.thy ===== *)
theory EliminateAssign
  imports Remap DcePass
begin

text \<open>
  \<^verbatim>\<open>src/cuda/tile/_passes/eliminate_assign_ops.py\<close>: the uses of a copy are replaced by the original.

  \<^item> \<open>eliminate_walk\<close> is \<^verbatim>\<open>walk\<close> with the mapper as its state; blocks are rebuilt instead of changed in place;
  \<^item> \<open>aligned m \<rho> \<rho>' D\<close> relates the environments of the two programs in front of a block that defines \<open>D\<close>.
\<close>

section \<open>The pass\<close>

definition set_assigned :: "var list \<Rightarrow> var list \<Rightarrow> mapper \<Rightarrow> (py_error + unit) \<times> mapper" where
  "set_assigned rs xs = (case (rs, xs) of ([result_var], [value']) \<Rightarrow> set_var result_var value' | _ \<Rightarrow> raiseE ValueError)"

fun eliminate_walk :: "ir_op list \<Rightarrow> (mapper, ir_op list) eff" where
  "eliminate_walk [] = retE []"
| "eliminate_walk (Operation c rs xs # ops) = bindE (getE (\<lambda>m. List.map (get_var m) xs)) (\<lambda>ys.
     if c = Assign then bindE (set_assigned rs ys) (\<lambda>_. eliminate_walk ops)
     else bindE (eliminate_walk ops) (\<lambda>ops'. retE (Operation c rs ys # ops')))"
| "eliminate_walk (Loop i r init ps body rs # ops) = bindE (getE remap_operands) (\<lambda>remap.
     bindE (eliminate_walk body) (\<lambda>body'. bindE (eliminate_walk ops) (\<lambda>ops'.
     retE (remap (Loop i r init ps body' rs) # ops'))))"
| "eliminate_walk (IfElse i c T E rs # ops) = bindE (getE remap_operands) (\<lambda>remap.
     bindE (eliminate_walk T) (\<lambda>T'. bindE (eliminate_walk E) (\<lambda>E'. bindE (eliminate_walk ops) (\<lambda>ops'.
     retE (remap (IfElse i c T' E' rs) # ops')))))"
| "eliminate_walk (TileFold i k ids xs ps body rs # ops) = bindE (getE remap_operands) (\<lambda>remap.
     bindE (eliminate_walk body) (\<lambda>body'. bindE (eliminate_walk ops) (\<lambda>ops'.
     retE (remap (TileFold i k ids xs ps body' rs) # ops'))))"
| "eliminate_walk (op # ops) = bindE (getE (\<lambda>m. remap_operands m op)) (\<lambda>op'.
     bindE (eliminate_walk ops) (\<lambda>ops'. retE (op' # ops')))"

definition eliminate_assign_ops :: "ir_op list \<Rightarrow> py_error + ir_op list" where
  "eliminate_assign_ops root = fst (eliminate_walk root [])"

section \<open>The mapper\<close>

fun assigns_formed :: "ir_op \<Rightarrow> bool" where
  "assigns_formed (Operation c rs xs) \<longleftrightarrow> (c = Assign \<longrightarrow> length rs = 1 \<and> length xs = 1)"
| "assigns_formed _ \<longleftrightarrow> True"

fun is_assign :: "ir_op \<Rightarrow> bool" where
  "is_assign (Operation c rs xs) \<longleftrightarrow> c = Assign"
| "is_assign _ \<longleftrightarrow> False"

lemma set_assigned_Inr: "set_assigned rs xs m = (Inr u, m') \<longleftrightarrow> (\<exists>r x. rs = [r] \<and> xs = [x] \<and> map_of m r = None \<and> m' = (r, x) # m)"
  by (auto simp: set_assigned_def set_var_def raiseE_def split: list.splits if_splits)

lemma bindE_ret_iff: "bindE m (\<lambda>x. retE (f x)) s = (Inr y, t) \<longleftrightarrow> (\<exists>x. m s = (Inr x, t) \<and> y = f x)"
  by (auto simp: bindE_Inr_iff retE_def)

text \<open>A walk gives new names to variables of the block only, and leaves no \<^verbatim>\<open>Assign\<close>.\<close>

lemma walk_mapper:
  "eliminate_walk ops m = (Inr ops', m') \<Longrightarrow> x \<notin> set (defined_vars ops) \<Longrightarrow> map_of m' x = map_of m x"
proof (induction ops arbitrary: m m' ops' rule: traverse_induct)
  case (Operation c rs xs ops)
  then show ?case by (auto simp: bindE_get bindE_Inr_iff retE_def set_assigned_Inr split: if_splits)
next
  case (Loop i r init ps body rs ops)
  then obtain m1 body' ops'' where "eliminate_walk body m = (Inr body', m1)" "eliminate_walk ops m1 = (Inr ops'', m')"
    by (auto simp: bindE_get bindE_Inr_iff retE_def)
  then show ?case using Loop.IH Loop.prems(2) by auto
next
  case (IfElse i c T E rs ops)
  then obtain m1 m2 T' E' ops'' where "eliminate_walk T m = (Inr T', m1)" "eliminate_walk E m1 = (Inr E', m2)"
    "eliminate_walk ops m2 = (Inr ops'', m')"
    by (auto simp: bindE_get bindE_Inr_iff retE_def)
  then show ?case using IfElse.IH IfElse.prems(2) by auto
next
  case (TileFold i k ids xs ps body rs ops)
  then obtain m1 body' ops'' where "eliminate_walk body m = (Inr body', m1)" "eliminate_walk ops m1 = (Inr ops'', m')"
    by (auto simp: bindE_get bindE_Inr_iff retE_def)
  then show ?case using TileFold.IH TileFold.prems(2) by auto
qed (auto simp: bindE_get bindE_Inr_iff retE_def)

lemma walk_free:
  assumes "eliminate_walk ops m = (Inr ops', m')" and "set (defined_vars ops) \<inter> D = {}" and "\<forall>x \<in> D. map_of m x = None"
  shows "\<forall>x \<in> D. map_of m' x = None"
proof
  fix x assume "x \<in> D"
  then have "x \<notin> set (defined_vars ops)" "map_of m x = None" using assms(2,3) by blast+
  then show "map_of m' x = None" using walk_mapper [OF assms(1)] by simp
qed

lemma walk_no_assign: "eliminate_walk ops m = (Inr ops', m') \<Longrightarrow> op \<in> set (traverse ops') \<Longrightarrow> \<not> is_assign op"
proof (induction ops arbitrary: m m' ops' rule: traverse_induct)
  case (Operation c rs xs ops)
  then show ?case by (auto simp: bindE_get bindE_Inr_iff retE_def split: if_splits)
next
  case (Loop i r init ps body rs ops)
  then obtain m1 body' ops'' where "eliminate_walk body m = (Inr body', m1)" "eliminate_walk ops m1 = (Inr ops'', m')"
    "ops' = remap_operands m (Loop i r init ps body' rs) # ops''"
    by (auto simp: bindE_get bindE_Inr_iff retE_def)
  then show ?case using Loop.IH Loop.prems(2) by auto
next
  case (IfElse i c T E rs ops)
  then obtain m1 m2 T' E' ops'' where "eliminate_walk T m = (Inr T', m1)" "eliminate_walk E m1 = (Inr E', m2)"
    "eliminate_walk ops m2 = (Inr ops'', m')" "ops' = remap_operands m (IfElse i c T' E' rs) # ops''"
    by (auto simp: bindE_get bindE_Inr_iff retE_def)
  then show ?case using IfElse.IH IfElse.prems(2) by auto
next
  case (TileFold i k ids xs ps body rs ops)
  then obtain m1 body' ops'' where "eliminate_walk body m = (Inr body', m1)" "eliminate_walk ops m1 = (Inr ops'', m')"
    "ops' = remap_operands m (TileFold i k ids xs ps body' rs) # ops''"
    by (auto simp: bindE_get bindE_Inr_iff retE_def)
  then show ?case using TileFold.IH TileFold.prems(2) by auto
qed (fastforce simp: bindE_get bindE_Inr_iff retE_def)+

lemma walk_succeeds:
  "distinct (defined_vars ops) \<Longrightarrow> \<forall>x \<in> set (defined_vars ops). map_of m x = None \<Longrightarrow>
     \<forall>op \<in> set (traverse ops). assigns_formed op \<Longrightarrow> \<exists>ops' m'. eliminate_walk ops m = (Inr ops', m')"
proof (induction ops arbitrary: m rule: traverse_induct)
  case (Operation c rs xs ops)
  show ?case
  proof (cases "c = Assign")
    case True
    then obtain r x where rx: "rs = [r]" "xs = [x]" using Operation.prems(3) by (auto simp: length_Suc_conv)
    let ?m = "(r, get_var m x) # m"
    have "\<exists>ops' m'. eliminate_walk ops ?m = (Inr ops', m')"
      using Operation.prems rx by (intro Operation.IH) auto
    moreover have "set_assigned rs (List.map (get_var m) xs) m = (Inr (), ?m)"
      using Operation.prems(2) rx by (simp add: set_assigned_Inr)
    ultimately show ?thesis using True by (auto simp: bindE_get)
  next
    case False
    have "\<exists>ops' m'. eliminate_walk ops m = (Inr ops', m')"
      using Operation.prems by (intro Operation.IH) auto
    then show ?thesis using False by (auto simp: bindE_get bindE_Inr_iff retE_def)
  qed
next
  case (Loop i r init ps body rs ops)
  have "\<exists>body' m1. eliminate_walk body m = (Inr body', m1)" using Loop.prems by (intro Loop.IH(1)) auto
  then obtain body' m1 where b: "eliminate_walk body m = (Inr body', m1)" by blast
  have "\<exists>ops' m'. eliminate_walk ops m1 = (Inr ops', m')"
    using Loop.prems walk_free [OF b, of "set (defined_vars ops)"] by (intro Loop.IH(2)) auto
  then show ?case using b by (auto simp: bindE_get bindE_Inr_iff retE_def)
next
  case (IfElse i c T E rs ops)
  have "\<exists>T' m1. eliminate_walk T m = (Inr T', m1)" using IfElse.prems by (intro IfElse.IH(1)) auto
  then obtain T' m1 where T: "eliminate_walk T m = (Inr T', m1)" by blast
  have "\<exists>E' m2. eliminate_walk E m1 = (Inr E', m2)"
    using IfElse.prems walk_free [OF T, of "set (defined_vars E)"] by (intro IfElse.IH(2)) auto
  then obtain E' m2 where E: "eliminate_walk E m1 = (Inr E', m2)" by blast
  have "\<exists>ops' m'. eliminate_walk ops m2 = (Inr ops', m')"
    using IfElse.prems walk_free [OF T, of "set (defined_vars ops)"] walk_free [OF E, of "set (defined_vars ops)"]
    by (intro IfElse.IH(3)) auto
  then show ?case using T E by (auto simp: bindE_get bindE_Inr_iff retE_def)
next
  case (TileFold i k ids xs ps body rs ops)
  have "\<exists>body' m1. eliminate_walk body m = (Inr body', m1)" using TileFold.prems by (intro TileFold.IH(1)) auto
  then obtain body' m1 where b: "eliminate_walk body m = (Inr body', m1)" by blast
  have "\<exists>ops' m'. eliminate_walk ops m1 = (Inr ops', m')"
    using TileFold.prems walk_free [OF b, of "set (defined_vars ops)"] by (intro TileFold.IH(2)) auto
  then show ?case using b by (auto simp: bindE_get bindE_Inr_iff retE_def)
qed ((auto simp: retE_def bindE_get bindE_Inr_iff; blast)+)

section \<open>The runs\<close>

definition aligned :: "mapper \<Rightarrow> 'v env \<Rightarrow> 'v env \<Rightarrow> var set \<Rightarrow> bool" where
  "aligned m \<rho> \<rho>' D \<longleftrightarrow> follows m \<rho> \<rho>' \<and> (\<forall>x \<in> dom \<rho>. get_var m x \<in> dom \<rho>) \<and>
     (\<forall>x \<in> D. map_of m x = None \<and> \<rho> x = None)"

lemma aligned_mono: "aligned m \<rho> \<rho>' D \<Longrightarrow> D' \<subseteq> D \<Longrightarrow> aligned m \<rho> \<rho>' D'"
  unfolding aligned_def by blast

lemma aligned_lookups: "aligned m \<rho> \<rho>' D \<Longrightarrow> lookups \<rho> xs = Some vs \<Longrightarrow> lookups \<rho>' (List.map (get_var m) xs) = Some vs"
  unfolding aligned_def by (blast intro: follows_lookups)

lemma aligned_bind:
  assumes r: "aligned m \<rho> \<rho>' (set xs \<union> D)" and d: "set xs \<inter> D = {}" and len: "length xs = length vs"
  shows "aligned m (\<rho>(xs [\<mapsto>] vs)) (\<rho>'(xs [\<mapsto>] vs)) D"
  unfolding aligned_def
proof (intro conjI)
  have m: "\<forall>x \<in> set xs. map_of m x = None" using r unfolding aligned_def by blast
  have out: "\<forall>x \<in> dom \<rho>. get_var m x \<notin> set xs"
  proof
    fix x assume "x \<in> dom \<rho>"
    then have "get_var m x \<in> dom \<rho>" using r unfolding aligned_def by blast
    then show "get_var m x \<notin> set xs" using r unfolding aligned_def by (metis UnI1 domIff)
  qed
  show "follows m (\<rho>(xs [\<mapsto>] vs)) (\<rho>'(xs [\<mapsto>] vs))"
    by (rule follows_bind [OF _ m out len]) (use r in \<open>simp add: aligned_def\<close>)
  have dom: "dom (\<rho>(xs [\<mapsto>] vs)) = set xs \<union> dom \<rho>" using len by simp
  show "\<forall>x \<in> dom (\<rho>(xs [\<mapsto>] vs)). get_var m x \<in> dom (\<rho>(xs [\<mapsto>] vs))"
    unfolding dom
  proof
    fix x assume "x \<in> set xs \<union> dom \<rho>"
    then show "get_var m x \<in> set xs \<union> dom \<rho>"
    proof
      assume "x \<in> set xs"
      then show ?thesis using m by (simp add: get_var_def)
    qed (use r in \<open>simp add: aligned_def\<close>)
  qed
  show "\<forall>x \<in> D. map_of m x = None \<and> (\<rho>(xs [\<mapsto>] vs)) x = None"
    using r d unfolding aligned_def by (metis IntI UnI2 empty_iff map_upds_apply_nontin)
qed

lemma aligned_mapper:
  assumes r: "aligned m \<rho> \<rho>' (A \<union> D)" and d: "A \<inter> D = {}" and m': "\<And>x. x \<notin> A \<Longrightarrow> map_of m' x = map_of m x"
  shows "aligned m' \<rho> \<rho>' D"
proof -
  have g: "get_var m' x = get_var m x" if "x \<in> dom \<rho>" for x
  proof -
    have "x \<notin> A" using r that by (auto simp: aligned_def)
    then show ?thesis using m' by (simp add: get_var_def)
  qed
  have "follows m' \<rho> \<rho>'" by (rule follows_cong [where m = m, OF _ g]) (use r in \<open>simp_all add: aligned_def\<close>)
  moreover have "\<forall>x \<in> D. map_of m' x = None \<and> \<rho> x = None"
  proof
    fix x assume x: "x \<in> D"
    then have "x \<notin> A" using d by blast
    then show "map_of m' x = None \<and> \<rho> x = None" using m' [of x] r x by (simp add: aligned_def)
  qed
  moreover have "\<forall>x \<in> dom \<rho>. get_var m' x \<in> dom \<rho>" using r g by (simp add: aligned_def)
  ultimately show ?thesis by (simp add: aligned_def)
qed

definition keeps_runs :: "('v, 's) machine \<Rightarrow> nat \<Rightarrow> ir_op list \<Rightarrow> ir_op list \<Rightarrow> 'v env \<Rightarrow> 'v env \<Rightarrow> bool" where
  "keeps_runs M n ops ops' \<rho> \<rho>' \<longleftrightarrow> (\<forall>s r. exec M n ops \<rho> s = Some r \<longrightarrow> exec M n ops' \<rho>' s = Some r)"

lemma keeps_runsD: "keeps_runs M n ops ops' \<rho> \<rho>' \<Longrightarrow> exec M n ops \<rho> s = Some r \<Longrightarrow> exec M n ops' \<rho>' s = Some r"
  unfolding keeps_runs_def by blast

theorem walk_keeps_runs:
  assumes copy: "\<And>v s. m_step M Assign [v] s = Some ([v], s)"
  shows "eliminate_walk ops m = (Inr ops', m') \<Longrightarrow> distinct (defined_vars ops) \<Longrightarrow>
    aligned m \<rho> \<rho>' (set (defined_vars ops)) \<Longrightarrow> keeps_runs M n ops ops' \<rho> \<rho>'"
proof (induction ops arbitrary: m m' ops' \<rho> \<rho>' rule: traverse_induct)
  case Nil
  then show ?case by (simp add: keeps_runs_def retE_def)
next
  case (Operation c rs xs ops)
  show ?case
    unfolding keeps_runs_def
  proof (intro allI impI)
    fix s r assume x: "exec M n (Operation c rs xs # ops) \<rho> s = Some r"
    obtain out t where r: "r = (out, t)" by (cases r)
    show "exec M n ops' \<rho>' s = Some r"
    proof (cases "c = Assign")
      case True
      then obtain q y where qy: "rs = [q]" "xs = [y]" "map_of m q = None"
        and w: "eliminate_walk ops ((q, get_var m y) # m) = (Inr ops', m')"
        using Operation.prems(1) by (auto simp: bindE_get bindE_Inr_iff set_assigned_Inr)
      let ?m = "(q, get_var m y) # m"
      from x True qy copy obtain v where v: "\<rho> y = Some v" "exec M n ops (\<rho>(q \<mapsto> v)) s = Some r"
        by (auto simp: bind_eq_Some_conv resume_def bind_vars_def)
      have d: "q \<notin> set (defined_vars ops)" using Operation.prems(2) qy(1) by simp
      have "aligned ?m (\<rho>(q \<mapsto> v)) \<rho>' (set (defined_vars ops))"
        unfolding aligned_def
      proof (intro conjI)
        have f: "\<rho>' (get_var m z) = Some u" if "\<rho> z = Some u" for z u
          using Operation.prems(3) that unfolding aligned_def follows_def by blast
        show "follows ?m (\<rho>(q \<mapsto> v)) \<rho>'"
          unfolding follows_def using f v(1) f [OF v(1)] by (simp add: get_var_def)
        have "get_var m y \<in> dom \<rho>" using Operation.prems(3) v(1) unfolding aligned_def by blast
        then show "\<forall>x \<in> dom (\<rho>(q \<mapsto> v)). get_var ?m x \<in> dom (\<rho>(q \<mapsto> v))"
          using Operation.prems(3) unfolding aligned_def by (simp add: get_var_def)
        show "\<forall>x \<in> set (defined_vars ops). map_of ?m x = None \<and> (\<rho>(q \<mapsto> v)) x = None"
          using Operation.prems(3) d qy(1) unfolding aligned_def by auto
      qed
      then have "keeps_runs M n ops ops' (\<rho>(q \<mapsto> v)) \<rho>'" using Operation.IH [OF w] Operation.prems(2) by simp
      then show ?thesis using v(2) by (rule keeps_runsD)
    next
      case False
      then obtain ops'' where w: "eliminate_walk ops m = (Inr ops'', m')"
        and ops': "ops' = Operation c rs (List.map (get_var m) xs) # ops''"
        using Operation.prems(1) by (auto simp: bindE_get bindE_ret_iff)
      show ?thesis
      proof (cases "c = Return")
        case False
        then obtain vs ys t' where v: "lookups \<rho> xs = Some vs" "m_step M c vs s = Some (ys, t')"
          and k: "resume rs \<rho> (exec M n ops) (Some (Yielded ys, t')) = Some (out, t)"
          using x r by (auto simp: bind_eq_Some_conv)
        have "resume rs \<rho>' (exec M n ops'') (Some (Yielded ys, t')) = Some (out, t)"
        proof (rule resume_mono [OF k])
          fix zs u assume "Some (Yielded ys, t') = Some (Yielded zs, u)" and len: "length rs = length zs"
            and e: "exec M n ops (\<rho>(rs [\<mapsto>] zs)) u = Some (out, t)"
          have "aligned m (\<rho>(rs [\<mapsto>] zs)) (\<rho>'(rs [\<mapsto>] zs)) (set (defined_vars ops))"
            by (rule aligned_bind [OF _ _ len]) (use Operation.prems(2,3) in auto)
          then have "keeps_runs M n ops ops'' (\<rho>(rs [\<mapsto>] zs)) (\<rho>'(rs [\<mapsto>] zs))"
            using Operation.IH [OF w] Operation.prems(2) by simp
          then show "exec M n ops'' (\<rho>'(rs [\<mapsto>] zs)) u = Some (out, t)" using e by (rule keeps_runsD)
        qed
        then show ?thesis using aligned_lookups [OF Operation.prems(3) v(1)] v(2) ops' False r by simp
      qed (use x ops' in auto)
    qed
  qed
next
  case (Loop i r init ps body rs ops)
  then obtain m1 body' ops'' where w: "eliminate_walk body m = (Inr body', m1)" "eliminate_walk ops m1 = (Inr ops'', m')"
    "ops' = remap_operands m (Loop i r init ps body' rs) # ops''"
    by (auto simp: bindE_get bindE_Inr_iff retE_def)
  let ?B = "set (defined_vars body)" let ?D = "set (defined_vars ops)"
  have R: "aligned m \<rho> \<rho>' (set rs \<union> set ps \<union> ?B \<union> ?D)" using Loop.prems(3) by (simp add: Un_assoc)
  have fol: "follows m \<rho> \<rho>'" using R by (simp add: aligned_def)
  have body: "keeps_runs M n body body' (\<rho>(ps [\<mapsto>] ws)) (\<rho>'(ps [\<mapsto>] ws))" if "length ps = length ws" for ws
  proof (rule Loop.IH(1) [OF w(1)])
    show "aligned m (\<rho>(ps [\<mapsto>] ws)) (\<rho>'(ps [\<mapsto>] ws)) ?B"
      by (rule aligned_bind [OF aligned_mono [OF R] _ that]) (use Loop.prems(2) in auto)
  qed (use Loop.prems(2) in simp)
  have rest: "keeps_runs M n ops ops'' (\<rho>(rs [\<mapsto>] zs)) (\<rho>'(rs [\<mapsto>] zs))" if "length rs = length zs" for zs
  proof (rule Loop.IH(2) [OF w(2)])
    have "aligned m (\<rho>(rs [\<mapsto>] zs)) (\<rho>'(rs [\<mapsto>] zs)) (?B \<union> ?D)"
      by (rule aligned_bind [OF aligned_mono [OF R] _ that]) (use Loop.prems(2) in auto)
    then show "aligned m1 (\<rho>(rs [\<mapsto>] zs)) (\<rho>'(rs [\<mapsto>] zs)) ?D"
      by (rule aligned_mapper) (use Loop.prems(2) walk_mapper [OF w(1)] in auto)
  qed (use Loop.prems(2) in simp)
  show ?case
    unfolding keeps_runs_def
  proof (intro allI impI)
    fix s x assume x: "exec M n (Loop i r init ps body rs # ops) \<rho> s = Some x"
    obtain out t where ot: "x = (out, t)" by (cases x)
    let ?f = "\<lambda>ws t. Option.bind (bind_vars ps ws \<rho>) (\<lambda>\<rho>. exec M n body \<rho> t)"
    let ?g = "\<lambda>ws t. Option.bind (bind_vars ps ws \<rho>') (\<lambda>\<rho>'. exec M n body' \<rho>' t)"
    let ?r = "map_option (\<lambda>(a, b, c). (get_var m a, get_var m b, get_var m c)) r"
    from x ot obtain vs where v: "lookups \<rho> init = Some vs" and k: "resume rs \<rho> (exec M n ops) (run_loop M n r \<rho> ?f vs s) = Some (out, t)"
      by (auto simp: bind_eq_Some_conv)
    have fg: "?g ws t = Some q" if "?f ws t = Some q" for ws t q
    proof -
      from that have len: "length ps = length ws" and e: "exec M n body (\<rho>(ps [\<mapsto>] ws)) t = Some q"
        by (auto simp: bind_eq_Some_conv bind_vars_Some)
      from keeps_runsD [OF body [OF len] e] show ?thesis using len by (simp add: bind_vars_def)
    qed
    from k obtain q where q: "run_loop M n r \<rho> ?f vs s = Some q" by (auto simp: resume_Some)
    have g: "run_loop M n ?r \<rho>' ?g vs s = Some q" by (rule run_loop_mono [where f = ?f, OF _ fol q]) (rule fg)
    have "resume rs \<rho>' (exec M n ops'') (run_loop M n r \<rho> ?f vs s) = Some (out, t)"
      by (rule resume_mono [OF k], rule keeps_runsD [OF rest])
    then show "exec M n ops' \<rho>' s = Some x"
      using w(3) follows_lookups [OF fol v] g q ot by simp
  qed
next
  case (IfElse i c T E rs ops)
  then obtain m1 m2 T' E' ops'' where w: "eliminate_walk T m = (Inr T', m1)" "eliminate_walk E m1 = (Inr E', m2)"
    "eliminate_walk ops m2 = (Inr ops'', m')" "ops' = remap_operands m (IfElse i c T' E' rs) # ops''"
    by (auto simp: bindE_get bindE_Inr_iff retE_def)
  let ?T = "set (defined_vars T)" let ?E = "set (defined_vars E)" let ?D = "set (defined_vars ops)"
  have R: "aligned m \<rho> \<rho>' (set rs \<union> ?T \<union> ?E \<union> ?D)" using IfElse.prems(3) by (simp add: Un_assoc)
  have fol: "follows m \<rho> \<rho>'" using R by (simp add: aligned_def)
  have T: "keeps_runs M n T T' \<rho> \<rho>'"
    by (rule IfElse.IH(1) [OF w(1) _ aligned_mono [OF R]]) (use IfElse.prems(2) in auto)
  have R1: "aligned m1 \<rho> \<rho>' (set rs \<union> ?E \<union> ?D)"
    by (rule aligned_mapper [where A = ?T and m = m, OF aligned_mono [OF R]]) (use IfElse.prems(2) walk_mapper [OF w(1)] in auto)
  have E: "keeps_runs M n E E' \<rho> \<rho>'"
    by (rule IfElse.IH(2) [OF w(2) _ aligned_mono [OF R1]]) (use IfElse.prems(2) in auto)
  have R2: "aligned m2 \<rho> \<rho>' (set rs \<union> ?D)"
    by (rule aligned_mapper [where A = ?E and m = m1, OF aligned_mono [OF R1]]) (use IfElse.prems(2) walk_mapper [OF w(2)] in auto)
  have rest: "keeps_runs M n ops ops'' (\<rho>(rs [\<mapsto>] zs)) (\<rho>'(rs [\<mapsto>] zs))" if "length rs = length zs" for zs
    by (rule IfElse.IH(3) [OF w(3)], use IfElse.prems(2) in simp, rule aligned_bind [OF R2 _ that]) (use IfElse.prems(2) in auto)
  show ?case
    unfolding keeps_runs_def
  proof (intro allI impI)
    fix s x assume x: "exec M n (IfElse i c T E rs # ops) \<rho> s = Some x"
    obtain out t where ot: "x = (out, t)" by (cases x)
    let ?b = "\<lambda>v T E \<rho>. if m_true M v then exec M n T \<rho> s else exec M n E \<rho> s"
    from x ot obtain v where v: "\<rho> c = Some v" and k: "resume rs \<rho> (exec M n ops) (?b v T E \<rho>) = Some (out, t)"
      by (auto simp: bind_eq_Some_conv)
    from k obtain q where q: "?b v T E \<rho> = Some q" by (auto simp: resume_Some)
    then have q': "?b v T' E' \<rho>' = Some q" using keeps_runsD [OF T] keeps_runsD [OF E] by (auto split: if_splits)
    have "resume rs \<rho>' (exec M n ops'') (?b v T E \<rho>) = Some (out, t)"
      by (rule resume_mono [OF k], rule keeps_runsD [OF rest])
    moreover have "\<rho>' (get_var m c) = Some v" using fol v by (simp add: follows_def)
    ultimately show "exec M n ops' \<rho>' s = Some x" using w(4) q q' ot by simp
  qed
next
  case (TileFold i k ids xs ps body rs ops)
  then obtain m1 body' ops'' where w: "eliminate_walk body m = (Inr body', m1)" "eliminate_walk ops m1 = (Inr ops'', m')"
    "ops' = remap_operands m (TileFold i k ids xs ps body' rs) # ops''"
    by (auto simp: bindE_get bindE_Inr_iff retE_def)
  let ?B = "set (defined_vars body)" let ?D = "set (defined_vars ops)"
  have R: "aligned m \<rho> \<rho>' (set rs \<union> set ps \<union> ?B \<union> ?D)" using TileFold.prems(3) by (simp add: Un_assoc)
  have fol: "follows m \<rho> \<rho>'" using R by (simp add: aligned_def)
  have body: "keeps_runs M n body body' (\<rho>(ps [\<mapsto>] ws)) (\<rho>'(ps [\<mapsto>] ws))" if "length ps = length ws" for ws
  proof (rule TileFold.IH(1) [OF w(1)])
    show "aligned m (\<rho>(ps [\<mapsto>] ws)) (\<rho>'(ps [\<mapsto>] ws)) ?B"
      by (rule aligned_bind [OF aligned_mono [OF R] _ that]) (use TileFold.prems(2) in auto)
  qed (use TileFold.prems(2) in simp)
  have rest: "keeps_runs M n ops ops'' (\<rho>(rs [\<mapsto>] zs)) (\<rho>'(rs [\<mapsto>] zs))" if "length rs = length zs" for zs
  proof (rule TileFold.IH(2) [OF w(2)])
    have "aligned m (\<rho>(rs [\<mapsto>] zs)) (\<rho>'(rs [\<mapsto>] zs)) (?B \<union> ?D)"
      by (rule aligned_bind [OF aligned_mono [OF R] _ that]) (use TileFold.prems(2) in auto)
    then show "aligned m1 (\<rho>(rs [\<mapsto>] zs)) (\<rho>'(rs [\<mapsto>] zs)) ?D"
      by (rule aligned_mapper) (use TileFold.prems(2) walk_mapper [OF w(1)] in auto)
  qed (use TileFold.prems(2) in simp)
  show ?case
    unfolding keeps_runs_def
  proof (intro allI impI)
    fix s x assume x: "exec M n (TileFold i k ids xs ps body rs # ops) \<rho> s = Some x"
    obtain out t where ot: "x = (out, t)" by (cases x)
    let ?f = "\<lambda>l a e. Option.bind (bind_vars ps (a @ e) \<rho>) (\<lambda>\<rho>. yielded l (exec M n body \<rho> s))"
    let ?g = "\<lambda>l a e. Option.bind (bind_vars ps (a @ e) \<rho>') (\<lambda>\<rho>'. yielded l (exec M n body' \<rho>' s))"
    from x ot obtain vs ys where v: "lookups \<rho> xs = Some vs" "fold_tiles M k (?f (length vs)) ids vs = Some ys"
      and k: "resume rs \<rho> (exec M n ops) (Some (Yielded ys, s)) = Some (out, t)"
      by (auto simp: bind_eq_Some_conv)
    have fg: "?g l a e = Some b" if "?f l a e = Some b" for l a e b
    proof -
      from that obtain \<rho>1 where b: "bind_vars ps (a @ e) \<rho> = Some \<rho>1" "yielded l (exec M n body \<rho>1 s) = Some b"
        unfolding bind_eq_Some_conv by blast
      then obtain q where q: "exec M n body \<rho>1 s = Some q" by (auto simp: yielded_def split: option.splits)
      have "length ps = length (a @ e)" "\<rho>1 = \<rho>(ps [\<mapsto>] (a @ e))" using b(1) by (auto simp: bind_vars_Some)
      then have "exec M n body' (\<rho>'(ps [\<mapsto>] (a @ e))) s = Some q" using keeps_runsD [OF body] q by blast
      then show ?thesis using b q by (simp add: bind_vars_def split: if_splits)
    qed
    have g: "fold_tiles M k (?g (length vs)) ids vs = Some ys"
      by (rule fold_tiles_mono [where g = "?f (length vs)", OF _ v(2)]) (rule fg)
    have "resume rs \<rho>' (exec M n ops'') (Some (Yielded ys, s)) = Some (out, t)"
      by (rule resume_mono [OF k], rule keeps_runsD [OF rest])
    then show "exec M n ops' \<rho>' s = Some x"
      using w(3) follows_lookups [OF fol v(1)] g ot by simp
  qed
qed (fastforce simp: keeps_runs_def bindE_get bindE_ret_iff bind_eq_Some_conv dest: aligned_lookups)+

section \<open>The result of the pass\<close>

text \<open>C10. Elimination of copies: on a program in SSA form whose \<^verbatim>\<open>Assign\<close> operations have one operand and one
  result, \<^verbatim>\<open>eliminate_assign_ops\<close> returns a program (no \<^verbatim>\<open>AssertionError\<close> of the mapper) with no \<^verbatim>\<open>Assign\<close> in it or in
  its nested blocks, and each run of the original, for every machine on which \<^verbatim>\<open>Assign\<close> copies its operand, is a run
  of the new one with the same outcome, values and state: the uses of a copy are replaced in nested blocks,
  loop bounds, initial values and jumps, also through chains of copies.\<close>

theorem eliminate_assign_preserves_runs:
  assumes "distinct (defined_vars root)" and "\<forall>op \<in> set (traverse root). assigns_formed op"
    and "\<forall>x \<in> set (defined_vars root). \<rho> x = None"
    and copy: "\<And>v s. m_step M Assign [v] s = Some ([v], s)"
    and "exec M n root \<rho> s = Some r"
  shows "\<exists>root'. eliminate_assign_ops root = Inr root' \<and> (\<forall>op \<in> set (traverse root'). \<not> is_assign op) \<and>
    exec M n root' \<rho> s = Some r"
proof -
  obtain root' m where w: "eliminate_walk root [] = (Inr root', m)"
    using walk_succeeds [of root "[]"] assms(1,2) by auto
  have "aligned [] \<rho> \<rho> (set (defined_vars root))"
    using assms(3) by (simp add: aligned_def follows_def get_var_def)
  then have "keeps_runs M n root root' \<rho> \<rho>" by (rule walk_keeps_runs [OF copy w assms(1)])
  then have "exec M n root' \<rho> s = Some r" using assms(5) by (rule keeps_runsD)
  then show ?thesis using w walk_no_assign [OF w] by (simp add: eliminate_assign_ops_def)
qed

text \<open>A loop that carries a copy of a copy, and prints a copy of its parameter.\<close>

definition copy_program :: "ir_op list" where
  "copy_program = [
     Operation (TypedConst (PyInt 0)) [''zero''] [], Operation (TypedConst (PyInt 1)) [''one''] [],
     Operation (TypedConst (PyInt 3)) [''three''] [],
     Operation Assign [''a''] [''one''], Operation Assign [''b''] [''a''], Operation Assign [''stop''] [''three''],
     Loop 0 (Some (''zero'', ''stop'', ''one'')) [''b''] [''i'', ''x'']
       [Operation Assign [''y''] [''x''], Operation print_op [] [''y''],
        Operation (RawBinaryArithmeticOperation ''add'' None False) [''z''] [''y'', ''b''],
        Operation Assign [''w''] [''z''], Continue [''w'']] [''res''],
     Operation Assign [''last''] [''res''], Operation print_op [] [''last''],
     Operation Return [] []]"

lemma eliminate_assign_preserves_runs_witness:
  "\<exists>root'. eliminate_assign_ops copy_program = Inr root' \<and> (\<forall>op \<in> set (traverse root'). \<not> is_assign op) \<and>
    exec int_machine 9 root' (\<lambda>_. None) [] = Some (Returned, [1, 2, 3, 4])"
proof (rule eliminate_assign_preserves_runs)
  show "distinct (defined_vars copy_program)" by code_simp
  show "\<forall>op \<in> set (traverse copy_program). assigns_formed op" by code_simp
  show "exec int_machine 9 copy_program (\<lambda>_. None) [] = Some (Returned, [1, 2, 3, 4])" by code_simp
qed (simp_all add: int_machine_def)

end
