(* ===== verification/AssumeDiv.thy ===== *)
theory AssumeDiv
  imports Remap DcePass DataflowProps
begin

text \<open>
  \<^verbatim>\<open>src/cuda/tile/_passes/propagate_divby.py\<close>: the divisors that the data-flow analysis has found are
  written into the program as assumptions, for the assembler.

  \<^item> \<open>add_assume_divby\<close>, \<open>rewrite_ops\<close>, \<open>add_divby_pass\<close> are the functions of the file; a rewritten block is
    returned, and the appended operations are the value of \<open>add_assume_divby\<close>;
  \<^item> \<open>tracks\<close> relates the environments of the two programs.
\<close>

section \<open>The pass\<close>

record assume_state =
  assume_ctx :: ir_context
  assume_mapper :: mapper
  assume_preds :: "(var \<times> data_predicate) list"

type_synonym 'a assuming = "(assume_state, 'a) eff"

definition ops_need_assume :: "op_class set" where
  "ops_need_assume = {MakeTensorView, LoadPointer, StorePointer}"

fun needed_inputs :: "ir_op \<Rightarrow> var list" where
  "needed_inputs (Operation c rs xs) = (if c \<in> ops_need_assume then xs else [])"
| "needed_inputs _ = []"

definition assume_candidates :: "ir_op list \<Rightarrow> var list" where
  "assume_candidates root = concat (List.map needed_inputs (traverse root))"

definition power_of_2_divisor :: "int \<Rightarrow> int" where
  "power_of_2_divisor divisor = min (and divisor (- divisor)) 1024"

definition in_ctx :: "'a ir \<Rightarrow> 'a assuming" where
  "in_ctx m = zoom assume_ctx (\<lambda>c s. s\<lparr>assume_ctx := c\<rparr>) m"

definition add_assume_divby :: "var \<Rightarrow> ir_op list assuming" where
  "add_assume_divby x = bindE (getE (\<lambda>s. get_var (assume_mapper s) x)) (\<lambda>y.
     if y \<noteq> x then retE []
     else bindE (getE (\<lambda>s. map_of (assume_preds s) x)) (\<lambda>found. case found of
       None \<Rightarrow> raiseE KeyError
     | Some p \<Rightarrow>
         if const_value p \<noteq> None then retE []
         else let d = power_of_2_divisor (div_by p) in
           if 1 < d then
             bindE (in_ctx (make_var_like x)) (\<lambda>result_var.
             bindE (in_ctx (get_type x)) (\<lambda>ty.
             bindE (in_ctx (set_type result_var ty)) (\<lambda>_.
             bindE (zoom assume_mapper (\<lambda>m s. s\<lparr>assume_mapper := m\<rparr>) (set_var x result_var)) (\<lambda>_.
             bindE (modifyE (\<lambda>s. s\<lparr>assume_preds := AList.update result_var (p\<lparr>div_by := d\<rparr>) (assume_preds s)\<rparr>)) (\<lambda>_.
             retE [Operation (AssumeDivBy d) [result_var] [x]])))))
           else retE []))"

fun add_assumes :: "var list \<Rightarrow> ir_op list assuming" where
  "add_assumes [] = retE []"
| "add_assumes (x # xs) = bindE (add_assume_divby x) (\<lambda>new. bindE (add_assumes xs) (\<lambda>news. retE (new @ news)))"

definition remapped :: "ir_op \<Rightarrow> ir_op assuming" where
  "remapped op = getE (\<lambda>s. remap_operands (assume_mapper s) op)"

definition with_body :: "ir_op \<Rightarrow> ir_op list \<Rightarrow> ir_op" where
  "with_body op body' = (case op of Loop i r init ps body rs \<Rightarrow> Loop i r init ps body' rs
     | TileFold i k ids xs ps body rs \<Rightarrow> TileFold i k ids xs ps body' rs | _ \<Rightarrow> op)"

definition with_branches :: "ir_op \<Rightarrow> ir_op list \<Rightarrow> ir_op list \<Rightarrow> ir_op" where
  "with_branches op T' E' = (case op of IfElse i c T E rs \<Rightarrow> IfElse i c T' E' rs | _ \<Rightarrow> op)"

text \<open>The loop of \<^verbatim>\<open>_rewrite_block\<close>; a nested block is rewritten after the assumptions on the results.\<close>

fun rewrite_ops :: "var list \<Rightarrow> ir_op list \<Rightarrow> ir_op list assuming" where
  "rewrite_ops cand [] = retE []"
| "rewrite_ops cand (Loop i r init ps body rs # ops) = bindE (remapped (Loop i r init ps body rs)) (\<lambda>op.
     bindE (add_assumes (List.filter (\<lambda>v. v \<in> set cand) rs)) (\<lambda>new.
     bindE (bindE (add_assumes ps) (\<lambda>start. bindE (rewrite_ops cand body) (\<lambda>body'. retE (start @ body')))) (\<lambda>body'.
     bindE (rewrite_ops cand ops) (\<lambda>ops'. retE (with_body op body' # new @ ops')))))"
| "rewrite_ops cand (IfElse i c T E rs # ops) = bindE (remapped (IfElse i c T E rs)) (\<lambda>op.
     bindE (add_assumes (List.filter (\<lambda>v. v \<in> set cand) rs)) (\<lambda>new.
     bindE (rewrite_ops cand T) (\<lambda>T'. bindE (rewrite_ops cand E) (\<lambda>E'.
     bindE (rewrite_ops cand ops) (\<lambda>ops'. retE (with_branches op T' E' # new @ ops'))))))"
| "rewrite_ops cand (TileFold i k ids xs ps body rs # ops) = bindE (remapped (TileFold i k ids xs ps body rs)) (\<lambda>op.
     bindE (add_assumes (List.filter (\<lambda>v. v \<in> set cand) rs)) (\<lambda>new.
     bindE (bindE (add_assumes ps) (\<lambda>start. bindE (rewrite_ops cand body) (\<lambda>body'. retE (start @ body')))) (\<lambda>body'.
     bindE (rewrite_ops cand ops) (\<lambda>ops'. retE (with_body op body' # new @ ops')))))"
| "rewrite_ops cand (op # ops) = bindE (remapped op) (\<lambda>op'.
     bindE (add_assumes (List.filter (\<lambda>v. v \<in> set cand) (result_vars op))) (\<lambda>new.
     bindE (rewrite_ops cand ops) (\<lambda>ops'. retE (op' # new @ ops'))))"

definition add_divby_pass :: "var list \<Rightarrow> ir_op list \<Rightarrow> (var \<times> data_predicate) list \<Rightarrow> ir_context \<Rightarrow>
    (py_error + ir_op list) \<times> assume_state" where
  "add_divby_pass params root preds ctx =
     bindE (add_assumes params) (\<lambda>start. bindE (rewrite_ops (assume_candidates root) root) (\<lambda>ops. retE (start @ ops)))
       \<lparr>assume_ctx = ctx, assume_mapper = [], assume_preds = preds\<rparr>"

section \<open>The lowest bit\<close>

lemma odd_part: "d \<noteq> 0 \<Longrightarrow> \<exists>k q. odd q \<and> (d::int) = 2 ^ k * q"
proof (induction "nat \<bar>d\<bar>" arbitrary: d rule: less_induct)
  case less
  show ?case
  proof (cases "odd d")
    case True
    then show ?thesis by (intro exI [of _ 0] exI [of _ d]) simp
  next
    case False
    then obtain e where e: "d = 2 * e" by auto
    then have "nat \<bar>e\<bar> < nat \<bar>d\<bar>" "e \<noteq> 0" using less.prems by auto
    then obtain k q where "odd q" "e = 2 ^ k * q" using less.hyps by blast
    then show ?thesis using e by (intro exI [of _ "Suc k"] exI [of _ q]) simp
  qed
qed

lemma and_uminus_odd: "odd q \<Longrightarrow> and q (- q) = (1::int)"
proof -
  assume "odd q"
  then obtain h where h: "q = 1 + 2 * h" by (metis add.commute oddE)
  have "and h (not h) = 0" by (rule bit_eqI) (simp add: bit_simps)
  moreover have m: "- q = 1 + 2 * not h" using h by (simp add: not_int_def)
  moreover have "(- q) div 2 = not h" "odd (- q)" "q div 2 = h" "odd q" using m h by simp_all
  ultimately show ?thesis by (subst and_int_rec) (simp only: simp_thms of_bool_eq mult_zero_right add_0_right)
qed

lemma lowest_bit: "d \<noteq> 0 \<Longrightarrow> \<exists>k. and d (- d) = 2 ^ k \<and> 2 ^ k dvd (d::int)"
proof -
  assume "d \<noteq> 0"
  then obtain k q where q: "odd q" "d = 2 ^ k * q" using odd_part by blast
  then have "d = push_bit k q" "- d = push_bit k (- q)" by (simp_all add: push_bit_eq_mult)
  then have "and d (- d) = push_bit k (and q (- q))" by (simp add: push_bit_and)
  then show ?thesis using and_uminus_odd [OF q(1)] q(2) by (intro exI [of _ k]) (simp add: push_bit_eq_mult)
qed

lemma divisor_dvd:
  assumes "1 < power_of_2_divisor d" and "ok_div d e"
  shows "power_of_2_divisor d dvd e"
proof -
  have "d \<noteq> 0" using assms(1) by (auto simp: power_of_2_divisor_def)
  then obtain k where k: "and d (- d) = 2 ^ k" "2 ^ k dvd d" using lowest_bit by blast
  then have e: "2 ^ k dvd e" using assms(2) unfolding ok_div_def by blast
  show ?thesis
  proof (cases "k \<le> 10")
    case True
    then have "(2::int) ^ k \<le> 2 ^ 10" by (intro power_increasing) simp_all
    then show ?thesis using k e by (simp add: power_of_2_divisor_def min_absorb1)
  next
    case False
    then have "(2::int) ^ 10 \<le> 2 ^ k" "(2::int) ^ 10 dvd 2 ^ k" by (intro power_increasing le_imp_power_dvd; simp)+
    then show ?thesis using k e dvd_trans by (fastforce simp: power_of_2_divisor_def min_absorb2)
  qed
qed

section \<open>The states of the pass\<close>

text \<open>
  \<open>state_ok V N P st\<close>: the new names in the mapper are not in \<open>N\<close>, the names at the start, and the
  predicates of those are as in \<open>P\<close>; the variables \<open>V\<close> have types.
\<close>

definition state_ok :: "var set \<Rightarrow> var set \<Rightarrow> (var \<times> data_predicate) list \<Rightarrow> assume_state \<Rightarrow> bool" where
  "state_ok V N P st \<longleftrightarrow> V \<subseteq> N \<and> N \<subseteq> ctx_names (assume_ctx st) \<and> typed_ctx V (assume_ctx st) \<and>
     (\<forall>x w. map_of (assume_mapper st) x = Some w \<longrightarrow> w \<notin> N \<and> w \<in> ctx_names (assume_ctx st)) \<and>
     (\<forall>x \<in> N. map_of (assume_preds st) x = map_of P x)"

definition unchanged_off :: "var set \<Rightarrow> assume_state \<Rightarrow> assume_state \<Rightarrow> bool" where
  "unchanged_off A st st' \<longleftrightarrow> (\<forall>y. y \<notin> A \<longrightarrow> map_of (assume_mapper st') y = map_of (assume_mapper st) y)"

lemma unchanged_off_refl [simp]: "unchanged_off A st st"
  by (simp add: unchanged_off_def)

lemma unchanged_off_trans: "unchanged_off A st st1 \<Longrightarrow> unchanged_off B st1 st2 \<Longrightarrow> unchanged_off (A \<union> B) st st2"
  by (simp add: unchanged_off_def)

lemma unchanged_off_mono: "unchanged_off A st st' \<Longrightarrow> A \<subseteq> B \<Longrightarrow> unchanged_off B st st'"
  unfolding unchanged_off_def by blast

text \<open>The environments of the two programs, in front of operations that define \<open>D\<close>.\<close>

definition tracks :: "var set \<Rightarrow> assume_state \<Rightarrow> 'v env \<Rightarrow> 'v env \<Rightarrow> var set \<Rightarrow> bool" where
  "tracks N st \<rho> \<rho>' D \<longleftrightarrow> follows (assume_mapper st) \<rho> \<rho>' \<and> dom \<rho> \<subseteq> N \<and> D \<subseteq> N \<and>
     (\<forall>x \<in> D. map_of (assume_mapper st) x = None \<and> \<rho> x = None)"

lemma tracks_mono: "tracks N st \<rho> \<rho>' D \<Longrightarrow> E \<subseteq> D \<Longrightarrow> tracks N st \<rho> \<rho>' E"
  unfolding tracks_def by blast

lemma tracks_unchanged:
  assumes t: "tracks N st \<rho> \<rho>' (A \<union> D)" and "unchanged_off B st st'" and B: "B \<inter> D = {}" "B \<inter> dom \<rho> = {}"
  shows "tracks N st' \<rho> \<rho>' D"
proof -
  have m: "map_of (assume_mapper st') y = map_of (assume_mapper st) y" if "y \<in> dom \<rho> \<union> D" for y
    using assms(2) B that unfolding unchanged_off_def by blast
  have "follows (assume_mapper st') \<rho> \<rho>'"
    by (rule follows_cong [where m = "assume_mapper st"]) (use t m in \<open>simp_all add: tracks_def get_var_def\<close>)
  then show ?thesis using t m unfolding tracks_def by auto
qed

lemma tracks_bind:
  assumes t: "tracks N st \<rho> \<rho>' (set xs \<union> D)" and st: "state_ok V N P st" and d: "set xs \<inter> D = {}" and len: "length xs = length vs"
  shows "tracks N st (\<rho>(xs [\<mapsto>] vs)) (\<rho>'(xs [\<mapsto>] vs)) D"
proof -
  let ?m = "assume_mapper st"
  have "\<forall>x \<in> dom \<rho>. get_var ?m x \<notin> set xs"
  proof
    fix x assume x: "x \<in> dom \<rho>"
    then have "x \<notin> set xs" using t unfolding tracks_def by auto
    then show "get_var ?m x \<notin> set xs"
      using st t unfolding state_ok_def tracks_def get_var_def by (auto split: option.split)
  qed
  then have "follows ?m (\<rho>(xs [\<mapsto>] vs)) (\<rho>'(xs [\<mapsto>] vs))"
    using t by (intro follows_bind [OF _ _ _ len]) (simp_all add: tracks_def)
  moreover have "dom (\<rho>(xs [\<mapsto>] vs)) \<subseteq> N" using t len by (auto simp: tracks_def)
  moreover have "\<forall>x \<in> D. (\<rho>(xs [\<mapsto>] vs)) x = None"
    using t d by (metis IntI UnI2 empty_iff map_upds_apply_nontin tracks_def)
  ultimately show ?thesis using t by (simp add: tracks_def)
qed

lemma bound_described: "list_all2 Q xs vs \<Longrightarrow> x \<in> set xs \<Longrightarrow> \<exists>v. (\<rho>(xs [\<mapsto>] vs)) x = Some v \<and> Q x v"
proof (induction xs vs arbitrary: \<rho> rule: list_all2_induct)
  case (Cons y ys v vs)
  then show ?case by (cases "x \<in> set ys") (auto simp: map_upds_apply_nontin)
qed simp

section \<open>Assumptions\<close>

definition assume_steps :: "'v view \<Rightarrow> ('v, 's) machine \<Rightarrow> bool" where
  "assume_steps W M \<longleftrightarrow> (\<forall>d v s. (\<forall>e \<in> v_ints W v \<union> v_addrs W v. d dvd e) \<longrightarrow> m_step M (AssumeDivBy d) [v] s = Some ([v], s))"

text \<open>The operations \<open>new\<close> for variables that have values run through and bind new names only.\<close>

definition places :: "'v view \<Rightarrow> ('v, 's) machine \<Rightarrow> nat \<Rightarrow> var set \<Rightarrow> (var \<times> data_predicate) list \<Rightarrow> var list \<Rightarrow>
    assume_state \<Rightarrow> ir_op list \<Rightarrow> assume_state \<Rightarrow> bool" where
  "places W M n N P xs st new st' \<longleftrightarrow> (\<forall>\<rho> \<rho>' D. tracks N st \<rho> \<rho>' D \<longrightarrow>
     (\<forall>x \<in> set xs. \<exists>v. \<rho> x = Some v \<and> described W P x v) \<longrightarrow>
     (\<exists>\<rho>''. (\<forall>rest s. exec M n (new @ rest) \<rho>' s = exec M n rest \<rho>'' s) \<and> tracks N st' \<rho> \<rho>'' D))"

lemma places_append:
  assumes "places W M n N P xs st new st1" and "places W M n N P ys st1 news st2"
  shows "places W M n N P (xs @ ys) st (new @ news) st2"
  unfolding places_def
proof (intro allI impI)
  fix \<rho> \<rho>' :: "'a env" and D
  assume t: "tracks N st \<rho> \<rho>' D" and v: "\<forall>x \<in> set (xs @ ys). \<exists>v. \<rho> x = Some v \<and> described W P x v"
  from assms(1) t v obtain \<rho>1 where 1: "\<forall>rest s. exec M n (new @ rest) \<rho>' s = exec M n rest \<rho>1 s" "tracks N st1 \<rho> \<rho>1 D"
    unfolding places_def by (metis UnCI set_append)
  from assms(2) 1(2) v obtain \<rho>2 where "\<forall>rest s. exec M n (news @ rest) \<rho>1 s = exec M n rest \<rho>2 s" "tracks N st2 \<rho> \<rho>2 D"
    unfolding places_def by (metis UnCI set_append)
  then show "\<exists>\<rho>''. (\<forall>rest s. exec M n ((new @ news) @ rest) \<rho>' s = exec M n rest \<rho>'' s) \<and> tracks N st2 \<rho> \<rho>'' D"
    using 1(1) by auto
qed

lemma places_nothing: "places W M n N P xs st [] st"
  unfolding places_def by auto

text \<open>One assumption: its divisor divides all values the predicate allows, and its result is new.\<close>

lemma assume_places:
  assumes M: "assume_steps W M" and st: "state_ok V N P st" and x: "x \<in> N" "map_of (assume_mapper st) x = None"
    and p: "map_of P x = Some p" "1 < power_of_2_divisor (div_by p)"
    and w: "w \<notin> ctx_names (assume_ctx st)" and m: "assume_mapper st' = (x, w) # assume_mapper st"
  shows "places W M n N P [x] st [Operation (AssumeDivBy (power_of_2_divisor (div_by p))) [w] [x]] st'"
  unfolding places_def
proof (intro allI impI)
  let ?d = "power_of_2_divisor (div_by p)" and ?m = "assume_mapper st"
  fix \<rho> \<rho>' :: "'a env" and D
  assume t: "tracks N st \<rho> \<rho>' D" and "\<forall>x \<in> set [x]. \<exists>v. \<rho> x = Some v \<and> described W P x v"
  then obtain v where v: "\<rho> x = Some v" "describes W p v" using p(1) by (auto simp: described_def)
  have "?d dvd e" if "e \<in> v_ints W v \<union> v_addrs W v" for e
    using divisor_dvd [OF p(2)] v(2) that unfolding describes_def by blast
  then have step: "m_step M (AssumeDivBy ?d) [v] s = Some ([v], s)" for s
    using M unfolding assume_steps_def by blast
  have v': "\<rho>' x = Some v" using t v(1) x(2) by (fastforce simp: tracks_def follows_def get_var_def)
  have old: "get_var ?m y \<noteq> w" if "y \<in> dom \<rho>" for y
    using that st t w unfolding state_ok_def tracks_def get_var_def by (cases "map_of ?m y") auto
  have "x \<notin> D" using t v(1) unfolding tracks_def by auto
  moreover have "follows ((x, w) # ?m) \<rho> (\<rho>'(w \<mapsto> v))"
    unfolding follows_def
  proof (intro allI impI)
    fix y u assume u: "\<rho> y = Some u"
    have "\<rho>' (get_var ?m y) = Some u" using t u unfolding tracks_def follows_def by blast
    then show "(\<rho>'(w \<mapsto> v)) (get_var ((x, w) # ?m) y) = Some u"
      using old [of y] u v(1) by (cases "y = x") (auto simp: get_var_def)
  qed
  ultimately have "tracks N st' \<rho> (\<rho>'(w \<mapsto> v)) D" using t m unfolding tracks_def by auto
  moreover have "exec M n ([Operation (AssumeDivBy ?d) [w] [x]] @ rest) \<rho>' s = exec M n rest (\<rho>'(w \<mapsto> v)) s" for rest s
    using v' step by (simp add: resume_def bind_vars_def)
  ultimately show "\<exists>\<rho>''. (\<forall>rest s. exec M n ([Operation (AssumeDivBy ?d) [w] [x]] @ rest) \<rho>' s = exec M n rest \<rho>'' s) \<and>
      tracks N st' \<rho> \<rho>'' D" by blast
qed

definition adds_places :: "'v view \<Rightarrow> ('v, 's) machine \<Rightarrow> nat \<Rightarrow> var set \<Rightarrow> var set \<Rightarrow> (var \<times> data_predicate) list \<Rightarrow>
    var list \<Rightarrow> ir_op list assuming \<Rightarrow> bool" where
  "adds_places W M n V N P xs m \<longleftrightarrow> (\<forall>st. state_ok V N P st \<longrightarrow> (\<exists>new st'. m st = (Inr new, st') \<and>
     state_ok V N P st' \<and> unchanged_off (set xs) st st' \<and> places W M n N P xs st new st'))"

lemma new_like:
  assumes st: "state_ok V N P st" and x: "x \<in> V"
  obtains w ty ctx' where "make_var_like x (assume_ctx st) = (Inr w, ctx')"
    and "map_of (typemap ctx') x = Some ty" and "map_of (typemap ctx') w = None" and "w \<notin> ctx_names (assume_ctx st)"
    and "ctx_names ctx' = insert w (ctx_names (assume_ctx st))" and "typemap ctx' = typemap (assume_ctx st)"
proof -
  let ?ctx = "assume_ctx st"
  have "x \<in> fst ` set (all_vars ?ctx)" "x \<in> fst ` set (typemap ?ctx)"
    using assms by (auto simp: state_ok_def typed_ctx_def ctx_names_def)
  then obtain name ty where nt: "map_of (all_vars ?ctx) x = Some name" "map_of (typemap ?ctx) x = Some ty"
    by (metis map_of_eq_None_iff not_None_eq)
  obtain q ctx' where mk: "make_var name ?ctx = (q, ctx')" by fastforce
  from make_var_fresh [OF mk] obtain w where w: "q = Inr w" "w \<notin> fst ` set (all_vars ?ctx)"
    "all_vars ctx' = (w, name) # all_vars ?ctx" "typemap ctx' = typemap ?ctx" by metis
  have "map_of (typemap ctx') w = None"
    using st w by (auto simp: map_of_eq_None_iff state_ok_def typed_ctx_def ctx_names_def)
  moreover have "make_var_like x (assume_ctx st) = (Inr w, ctx')"
    using nt(1) mk w(1) by (simp add: make_var_like_def get_original_name_def bindE_def)
  ultimately show thesis using that nt(2) w by (simp add: ctx_names_def)
qed

lemma add_assume_adds:
  assumes M: "assume_steps W M" and x: "x \<in> V" and p: "map_of P x = Some p"
  shows "adds_places W M n V N P [x] (add_assume_divby x)"
  unfolding adds_places_def
proof (intro allI impI)
  fix st assume st: "state_ok V N P st"
  let ?m = "assume_mapper st" let ?d = "power_of_2_divisor (div_by p)"
  have N: "x \<in> N" and px: "map_of (assume_preds st) x = Some p" using st x p unfolding state_ok_def by auto
  note run = add_assume_divby_def bindE_get
  show "\<exists>new st'. add_assume_divby x st = (Inr new, st') \<and> state_ok V N P st' \<and> unchanged_off (set [x]) st st' \<and> places W M n N P [x] st new st'"
  proof (cases "get_var ?m x = x \<and> const_value p = None \<and> 1 < ?d")
    case False
    then have "add_assume_divby x st = (Inr [], st)" using px by (auto simp: run retE_def Let_def)
    then show ?thesis using st places_nothing by auto
  next
    case True
    have free: "map_of ?m x = None"
    proof (rule ccontr)
      assume "map_of ?m x \<noteq> None"
      then obtain w where "map_of ?m x = Some w" by blast
      then have "w \<notin> N" "w = x" using st True by (auto simp: state_ok_def get_var_def)
      then show False using N by simp
    qed
    from st x obtain w ty ctx' where w: "make_var_like x (assume_ctx st) = (Inr w, ctx')"
      "map_of (typemap ctx') x = Some ty" "map_of (typemap ctx') w = None" "w \<notin> ctx_names (assume_ctx st)"
      "ctx_names ctx' = insert w (ctx_names (assume_ctx st))" "typemap ctx' = typemap (assume_ctx st)"
      by (rule new_like)
    let ?st' = "\<lparr>assume_ctx = ctx'\<lparr>typemap := (w, ty) # typemap ctx'\<rparr>, assume_mapper = (x, w) # ?m,
      assume_preds = AList.update w (p\<lparr>div_by := ?d\<rparr>) (assume_preds st)\<rparr>"
    let ?new = "[Operation (AssumeDivBy ?d) [w] [x]]"
    have "add_assume_divby x st = (Inr ?new, ?st')"
      using True px w(1,2,3) free
      by (simp add: run Let_def in_ctx_def zoom_def get_type_def set_type_def set_var_def
          bindE_def getE_def assertE_def modifyE_def retE_def)
    moreover have "w \<notin> N" using w(4) st by (auto simp: state_ok_def)
    then have "state_ok V N P ?st'"
      using st w by (auto simp: state_ok_def typed_ctx_def ctx_names_def update_conv')
    moreover have "unchanged_off (set [x]) st ?st'" by (simp add: unchanged_off_def)
    moreover have "places W M n N P [x] st ?new ?st'"
      by (rule assume_places [OF M st N free p]) (use True w(4) in simp_all)
    ultimately show ?thesis by blast
  qed
qed

lemma add_assumes_adds:
  assumes M: "assume_steps W M"
  shows "set xs \<subseteq> V \<Longrightarrow> \<forall>x \<in> V. map_of P x \<noteq> None \<Longrightarrow> adds_places W M n V N P xs (add_assumes xs)"
proof (induction xs)
  case Nil
  then show ?case using places_nothing by (fastforce simp: adds_places_def retE_def)
next
  case (Cons x xs)
  then obtain p where p: "map_of P x = Some p" by auto
  have x: "x \<in> V" using Cons.prems(1) by simp
  show ?case
    unfolding adds_places_def
  proof (intro allI impI)
    fix st assume "state_ok V N P st"
    with add_assume_adds [OF M x p, of n N] obtain new st1 where 1: "add_assume_divby x st = (Inr new, st1)"
      "state_ok V N P st1" "unchanged_off (set [x]) st st1" "places W M n N P [x] st new st1"
      unfolding adds_places_def by blast
    with Cons obtain news st2 where 2: "add_assumes xs st1 = (Inr news, st2)"
      "state_ok V N P st2" "unchanged_off (set xs) st1 st2" "places W M n N P xs st1 news st2"
      unfolding adds_places_def by fastforce
    have "add_assumes (x # xs) st = (Inr (new @ news), st2)" using 1(1) 2(1) by (simp add: retE_def)
    then show "\<exists>new st'. add_assumes (x # xs) st = (Inr new, st') \<and> state_ok V N P st' \<and> unchanged_off (set (x # xs)) st st' \<and>
        places W M n N P (x # xs) st new st'"
      using 2(2) unchanged_off_trans [OF 1(3) 2(3)] places_append [OF 1(4) 2(4)] by auto
  qed
qed

end
