(* ===== verification/AssumeRun.thy ===== *)
theory AssumeRun
  imports AssumeDiv
begin

text \<open>
  A run in which every value is described by its predicate is a run of the program with the assumptions.

  \<^item> \<open>rewritable\<close>: at every state of the pass the block is rewritten, without an exception, to one that has all
    the checked runs of the original.
\<close>

section \<open>Runs of a rewritten block\<close>

definition carries :: "(var \<Rightarrow> 'v \<Rightarrow> bool) \<Rightarrow> ('v, 's) machine \<Rightarrow> nat \<Rightarrow> ir_op list \<Rightarrow> ir_op list \<Rightarrow> 'v env \<Rightarrow> 'v env \<Rightarrow> bool" where
  "carries Q M n ops ops' \<rho> \<rho>' \<longleftrightarrow> (\<forall>s r. exec_checked Q M n ops \<rho> s = Some r \<longrightarrow> exec M n ops' \<rho>' s = Some r)"

lemma carriesD: "carries Q M n ops ops' \<rho> \<rho>' \<Longrightarrow> exec_checked Q M n ops \<rho> s = Some r \<Longrightarrow> exec M n ops' \<rho>' s = Some r"
  unfolding carries_def by blast

definition rewritable :: "'v view \<Rightarrow> ('v, 's) machine \<Rightarrow> nat \<Rightarrow> var set \<Rightarrow> var set \<Rightarrow> (var \<times> data_predicate) list \<Rightarrow>
    var list \<Rightarrow> ir_op list \<Rightarrow> bool" where
  "rewritable W M n V N P cand ops \<longleftrightarrow> (\<forall>st. state_ok V N P st \<longrightarrow> (\<exists>ops' st'. rewrite_ops cand ops st = (Inr ops', st') \<and>
     state_ok V N P st' \<and> unchanged_off (set (defined_vars ops)) st st' \<and>
     (\<forall>\<rho> \<rho>'. tracks N st \<rho> \<rho>' (set (defined_vars ops)) \<longrightarrow> carries (described W P) M n ops ops' \<rho> \<rho>')))"

lemma rewritableI:
  assumes "\<And>st. state_ok V N P st \<Longrightarrow> \<exists>ops' st'. rewrite_ops cand ops st = (Inr ops', st') \<and>
     state_ok V N P st' \<and> unchanged_off (set (defined_vars ops)) st st' \<and>
     (\<forall>\<rho> \<rho>'. tracks N st \<rho> \<rho>' (set (defined_vars ops)) \<longrightarrow> carries (described W P) M n ops ops' \<rho> \<rho>')"
  shows "rewritable W M n V N P cand ops"
  using assms unfolding rewritable_def by blast

lemma rewritableE:
  assumes "rewritable W M n V N P cand ops" and "state_ok V N P st"
  obtains ops' st' where "rewrite_ops cand ops st = (Inr ops', st')" and "state_ok V N P st'"
    and "unchanged_off (set (defined_vars ops)) st st'"
    and "\<And>\<rho> \<rho>'. tracks N st \<rho> \<rho>' (set (defined_vars ops)) \<Longrightarrow> carries (described W P) M n ops ops' \<rho> \<rho>'"
  using assms unfolding rewritable_def by blast

lemma adds_placesE:
  assumes "adds_places W M n V N P xs m" and "state_ok V N P st"
  obtains new st' where "m st = (Inr new, st')" and "state_ok V N P st'" and "unchanged_off (set xs) st st'" and "places W M n N P xs st new st'"
  using assms unfolding adds_places_def by blast

lemma resume_checked_mono:
  assumes "resume_checked Q rs \<rho> k r = Some x"
    and "\<And>ys t. r = Some (Yielded ys, t) \<Longrightarrow> list_all2 Q rs ys \<Longrightarrow> k (\<rho>(rs [\<mapsto>] ys)) t = Some x \<Longrightarrow> k' (\<rho>'(rs [\<mapsto>] ys)) t = Some x"
  shows "resume rs \<rho>' k' r = Some x"
proof -
  from assms(1) obtain out t where r: "r = Some (out, t)" by (auto simp: resume_checked_def bind_eq_Some_conv)
  then show ?thesis
  proof (cases out)
    case (Yielded ys)
    then have l: "list_all2 Q rs ys" "k (\<rho>(rs [\<mapsto>] ys)) t = Some x"
      using assms(1) r by (auto simp: resume_checked_def bind_eq_Some_conv bind_checked_Some)
    then show ?thesis using assms(2) r Yielded list_all2_lengthD [OF l(1)] by (simp add: resume_def bind_vars_def)
  qed (use assms(1) in \<open>auto simp: resume_checked_def resume_def\<close>)
qed

text \<open>After an operation: the assumptions on its results, then the rest of the block; \<open>A\<close> are the
  variables of its nested blocks.\<close>

lemma resume_new:
  assumes t: "tracks N st \<rho> \<rho>' (set rs \<union> (A \<union> D))" and st: "state_ok V N P st"
    and d: "set rs \<inter> (A \<union> D) = {}" "A \<inter> D = {}"
    and new: "places W M n N P xs st new st1" "set xs \<subseteq> set rs" and frame: "unchanged_off A st1 st2"
    and rest: "\<And>\<rho> \<rho>'. tracks N st2 \<rho> \<rho>' D \<Longrightarrow> carries (described W P) M n ops ops' \<rho> \<rho>'"
    and k: "resume_checked (described W P) rs \<rho> (exec_checked (described W P) M n ops) r = Some x"
  shows "resume rs \<rho>' (exec M n (new @ ops')) r = Some x"
proof (rule resume_checked_mono [OF k])
  fix ys t' assume ys: "list_all2 (described W P) rs ys"
    and e: "exec_checked (described W P) M n ops (\<rho>(rs [\<mapsto>] ys)) t' = Some x"
  let ?\<rho> = "\<rho>(rs [\<mapsto>] ys)" and ?\<rho>' = "\<rho>'(rs [\<mapsto>] ys)"
  have tb: "tracks N st ?\<rho> ?\<rho>' (A \<union> D)" by (rule tracks_bind [OF t st d(1) list_all2_lengthD [OF ys]])
  have v: "\<forall>y \<in> set xs. \<exists>v. ?\<rho> y = Some v \<and> described W P y v"
    using bound_described [OF ys] new(2) by blast
  obtain \<rho>'' where r: "\<forall>rest s. exec M n (new @ rest) ?\<rho>' s = exec M n rest \<rho>'' s" "tracks N st1 ?\<rho> \<rho>'' (A \<union> D)"
    using new(1) tb v unfolding places_def by blast
  have "\<forall>y \<in> A. ?\<rho> y = None" using r(2) unfolding tracks_def by blast
  then have "A \<inter> dom ?\<rho> = {}" by (metis disjoint_iff domIff)
  then have "tracks N st2 ?\<rho> \<rho>'' D" by (rule tracks_unchanged [OF r(2) frame d(2)])
  then have "exec M n ops' \<rho>'' t' = Some x" using rest e by (blast intro: carriesD)
  then show "exec M n (new @ ops') ?\<rho>' t' = Some x" using r(1) by simp
qed

text \<open>A body with the assumptions on its parameters.\<close>

lemma body_new:
  assumes t: "tracks N st \<rho> \<rho>' (set ps \<union> B)" and st: "state_ok V N P st" and d: "set ps \<inter> B = {}"
    and start: "places W M n N P ps st start st1"
    and body: "\<And>\<rho> \<rho>'. tracks N st1 \<rho> \<rho>' B \<Longrightarrow> carries (described W P) M n body body' \<rho> \<rho>'"
    and b: "bind_checked (described W P) ps ws \<rho> = Some \<rho>1" and x: "exec_checked (described W P) M n body \<rho>1 s = Some r"
  shows "\<exists>\<rho>1'. bind_vars ps ws \<rho>' = Some \<rho>1' \<and> exec M n (start @ body') \<rho>1' s = Some r"
proof -
  from b have ws: "list_all2 (described W P) ps ws" and r1: "\<rho>1 = \<rho>(ps [\<mapsto>] ws)" by (simp_all add: bind_checked_Some)
  have t1: "tracks N st \<rho>1 (\<rho>'(ps [\<mapsto>] ws)) B"
    unfolding r1 by (rule tracks_bind [OF t st d list_all2_lengthD [OF ws]])
  have "\<forall>y \<in> set ps. \<exists>v. \<rho>1 y = Some v \<and> described W P y v"
    unfolding r1 using bound_described [OF ws] by blast
  with start t1 obtain \<rho>'' where r: "\<forall>rest s. exec M n (start @ rest) (\<rho>'(ps [\<mapsto>] ws)) s = exec M n rest \<rho>'' s"
    "tracks N st1 \<rho>1 \<rho>'' B" unfolding places_def by blast
  have "exec M n body' \<rho>'' s = Some r" by (rule carriesD [OF body [OF r(2)] x])
  then show ?thesis using r(1) list_all2_lengthD [OF ws] by (simp add: bind_vars_def)
qed

section \<open>The operations\<close>

text \<open>The part of a rewrite that loops and folds share: new operations for the results and parameters, a body.\<close>

lemma with_new_body:
  assumes M: "assume_steps W M" "\<forall>x \<in> V. map_of P x \<noteq> None" and V: "set rs \<union> set ps \<subseteq> V"
    and body: "rewritable W M n V N P cand body" and ops: "rewritable W M n V N P cand ops" and st: "state_ok V N P st"
  obtains new st1 start st2 body' st3 ops' st4 where "add_assumes (List.filter (\<lambda>v. v \<in> set cand) rs) st = (Inr new, st1)"
    and "state_ok V N P st1" and "unchanged_off (set rs) st st1" and "places W M n N P (List.filter (\<lambda>v. v \<in> set cand) rs) st new st1"
    and "add_assumes ps st1 = (Inr start, st2)" and "places W M n N P ps st1 start st2"
    and "rewrite_ops cand body st2 = (Inr body', st3)" and "unchanged_off (set ps \<union> set (defined_vars body)) st1 st3"
    and "\<And>\<rho> \<rho>'. tracks N st2 \<rho> \<rho>' (set (defined_vars body)) \<Longrightarrow> carries (described W P) M n body body' \<rho> \<rho>'"
    and "rewrite_ops cand ops st3 = (Inr ops', st4)" and "state_ok V N P st4" and "unchanged_off (set (defined_vars ops)) st3 st4"
    and "\<And>\<rho> \<rho>'. tracks N st3 \<rho> \<rho>' (set (defined_vars ops)) \<Longrightarrow> carries (described W P) M n ops ops' \<rho> \<rho>'"
proof -
  let ?xs = "List.filter (\<lambda>v. v \<in> set cand) rs"
  have xs: "set ?xs \<subseteq> set rs" by auto
  have "adds_places W M n V N P ?xs (add_assumes ?xs)" by (rule add_assumes_adds [OF M(1) _ M(2)]) (use V in auto)
  from this st obtain new st1 where 1: "add_assumes ?xs st = (Inr new, st1)" "state_ok V N P st1" "unchanged_off (set ?xs) st st1"
    "places W M n N P ?xs st new st1" by (rule adds_placesE)
  have "adds_places W M n V N P ps (add_assumes ps)" by (rule add_assumes_adds [OF M(1) _ M(2)]) (use V in auto)
  from this 1(2) obtain start st2 where 2: "add_assumes ps st1 = (Inr start, st2)" "state_ok V N P st2" "unchanged_off (set ps) st1 st2"
    "places W M n N P ps st1 start st2" by (rule adds_placesE)
  from body 2(2) obtain body' st3 where 3: "rewrite_ops cand body st2 = (Inr body', st3)" "state_ok V N P st3"
    "unchanged_off (set (defined_vars body)) st2 st3"
    "\<And>\<rho> \<rho>'. tracks N st2 \<rho> \<rho>' (set (defined_vars body)) \<Longrightarrow> carries (described W P) M n body body' \<rho> \<rho>'"
    by (rule rewritableE) blast
  from ops 3(2) obtain ops' st4 where 4: "rewrite_ops cand ops st3 = (Inr ops', st4)" "state_ok V N P st4"
    "unchanged_off (set (defined_vars ops)) st3 st4"
    "\<And>\<rho> \<rho>'. tracks N st3 \<rho> \<rho>' (set (defined_vars ops)) \<Longrightarrow> carries (described W P) M n ops ops' \<rho> \<rho>'"
    by (rule rewritableE) blast
  show thesis
    by (rule that [OF 1(1,2) unchanged_off_mono [OF 1(3) xs] 1(4) 2(1,4) 3(1) unchanged_off_trans [OF 2(3) 3(3)] 3(4) 4]) 
qed

lemma rewritable_Loop:
  assumes M: "assume_steps W M" "\<forall>x \<in> V. map_of P x \<noteq> None" and V: "set (defined_vars (Loop i r init ps body rs # ops)) \<subseteq> V"
    and d: "distinct (defined_vars (Loop i r init ps body rs # ops))"
    and body: "rewritable W M n V N P cand body" and ops: "rewritable W M n V N P cand ops"
  shows "rewritable W M n V N P cand (Loop i r init ps body rs # ops)"
proof (rule rewritableI)
  fix st assume st: "state_ok V N P st"
  let ?Q = "described W P" and ?B = "set (defined_vars body)" and ?D = "set (defined_vars ops)"
  have V': "set rs \<union> set ps \<subseteq> V" using V by auto
  from M V' body ops st obtain new st1 start st2 body' st3 ops' st4 where
    1: "add_assumes (List.filter (\<lambda>v. v \<in> set cand) rs) st = (Inr new, st1)"
      "state_ok V N P st1" "unchanged_off (set rs) st st1" "places W M n N P (List.filter (\<lambda>v. v \<in> set cand) rs) st new st1"
    and 2: "add_assumes ps st1 = (Inr start, st2)" "places W M n N P ps st1 start st2"
      "rewrite_ops cand body st2 = (Inr body', st3)" "unchanged_off (set ps \<union> ?B) st1 st3"
      "\<And>\<rho> \<rho>'. tracks N st2 \<rho> \<rho>' ?B \<Longrightarrow> carries ?Q M n body body' \<rho> \<rho>'"
    and 3: "rewrite_ops cand ops st3 = (Inr ops', st4)" "state_ok V N P st4" "unchanged_off ?D st3 st4"
      "\<And>\<rho> \<rho>'. tracks N st3 \<rho> \<rho>' ?D \<Longrightarrow> carries ?Q M n ops ops' \<rho> \<rho>'"
    by (rule with_new_body) blast
  let ?m = "assume_mapper st"
  let ?r = "map_option (\<lambda>(a, b, c). (get_var ?m a, get_var ?m b, get_var ?m c)) r"
  let ?op = "Loop i ?r (List.map (get_var ?m) init) ps (start @ body') rs"
  have run: "rewrite_ops cand (Loop i r init ps body rs # ops) st = (Inr (?op # new @ ops'), st4)"
    using 1(1) 2(1,3) 3(1) by (simp add: remapped_def getE_def bindE_def retE_def with_body_def)
  have "carries ?Q M n (Loop i r init ps body rs # ops) (?op # new @ ops') \<rho> \<rho>'"
    if t0: "tracks N st \<rho> \<rho>' (set (defined_vars (Loop i r init ps body rs # ops)))" for \<rho> \<rho>'
    unfolding carries_def
  proof (intro allI impI)
    fix s x assume x: "exec_checked ?Q M n (Loop i r init ps body rs # ops) \<rho> s = Some x"
    let ?f = "\<lambda>ws t. Option.bind (bind_checked ?Q ps ws \<rho>) (\<lambda>\<rho>. exec_checked ?Q M n body \<rho> t)"
    let ?g = "\<lambda>ws t. Option.bind (bind_vars ps ws \<rho>') (\<lambda>\<rho>'. exec M n (start @ body') \<rho>' t)"
    have t: "tracks N st \<rho> \<rho>' (set rs \<union> (set ps \<union> ?B \<union> ?D))" using t0 by (simp add: Un_assoc)
    have fol: "follows ?m \<rho> \<rho>'" using t by (simp add: tracks_def)
    have "tracks N st1 \<rho> \<rho>' (set ps \<union> ?B)"
      by (rule tracks_unchanged [OF tracks_mono [OF t] 1(3)]) (use d t in \<open>auto simp: tracks_def\<close>)
    note bn = body_new [OF this 1(2) _ 2(2) 2(5)]
    have fg: "?g ws t = Some q" if "?f ws t = Some q" for ws t q
      using that bn [of ws _ t q] d by (fastforce simp: bind_eq_Some_conv)
    from x obtain vs where v: "lookups \<rho> init = Some vs"
      and k: "resume_checked ?Q rs \<rho> (exec_checked ?Q M n ops) (run_loop M n r \<rho> ?f vs s) = Some x"
      by (auto simp: bind_eq_Some_conv)
    from k obtain q where q: "run_loop M n r \<rho> ?f vs s = Some q" by (auto simp: resume_checked_def bind_eq_Some_conv)
    have g: "run_loop M n ?r \<rho>' ?g vs s = Some q" by (rule run_loop_mono [where f = ?f, OF _ fol q]) (rule fg)
    have "resume rs \<rho>' (exec M n (new @ ops')) (run_loop M n r \<rho> ?f vs s) = Some x"
      by (rule resume_new [where A = "set ps \<union> ?B" and D = ?D, OF _ st _ _ 1(4) _ 2(4) 3(4) k]) (use t d in auto)
    then show "exec M n (?op # new @ ops') \<rho>' s = Some x"
      using follows_lookups [OF fol v] g q by simp
  qed
  moreover have "unchanged_off (set (defined_vars (Loop i r init ps body rs # ops))) st st4"
    by (rule unchanged_off_mono [OF unchanged_off_trans [OF unchanged_off_trans [OF 1(3) 2(4)] 3(3)]]) auto
  ultimately show "\<exists>ops' st'. rewrite_ops cand (Loop i r init ps body rs # ops) st = (Inr ops', st') \<and> state_ok V N P st' \<and>
      unchanged_off (set (defined_vars (Loop i r init ps body rs # ops))) st st' \<and>
      (\<forall>\<rho> \<rho>'. tracks N st \<rho> \<rho>' (set (defined_vars (Loop i r init ps body rs # ops))) \<longrightarrow>
        carries ?Q M n (Loop i r init ps body rs # ops) ops' \<rho> \<rho>')"
    using run 3(2) by blast
qed

lemma rewritable_TileFold:
  assumes M: "assume_steps W M" "\<forall>x \<in> V. map_of P x \<noteq> None" and V: "set (defined_vars (TileFold i k ids xs ps body rs # ops)) \<subseteq> V"
    and d: "distinct (defined_vars (TileFold i k ids xs ps body rs # ops))"
    and body: "rewritable W M n V N P cand body" and ops: "rewritable W M n V N P cand ops"
  shows "rewritable W M n V N P cand (TileFold i k ids xs ps body rs # ops)"
proof (rule rewritableI)
  fix st assume st: "state_ok V N P st"
  let ?Q = "described W P" and ?B = "set (defined_vars body)" and ?D = "set (defined_vars ops)"
  have V': "set rs \<union> set ps \<subseteq> V" using V by auto
  from M V' body ops st obtain new st1 start st2 body' st3 ops' st4 where
    1: "add_assumes (List.filter (\<lambda>v. v \<in> set cand) rs) st = (Inr new, st1)"
      "state_ok V N P st1" "unchanged_off (set rs) st st1" "places W M n N P (List.filter (\<lambda>v. v \<in> set cand) rs) st new st1"
    and 2: "add_assumes ps st1 = (Inr start, st2)" "places W M n N P ps st1 start st2"
      "rewrite_ops cand body st2 = (Inr body', st3)" "unchanged_off (set ps \<union> ?B) st1 st3"
      "\<And>\<rho> \<rho>'. tracks N st2 \<rho> \<rho>' ?B \<Longrightarrow> carries ?Q M n body body' \<rho> \<rho>'"
    and 3: "rewrite_ops cand ops st3 = (Inr ops', st4)" "state_ok V N P st4" "unchanged_off ?D st3 st4"
      "\<And>\<rho> \<rho>'. tracks N st3 \<rho> \<rho>' ?D \<Longrightarrow> carries ?Q M n ops ops' \<rho> \<rho>'"
    by (rule with_new_body) blast
  let ?m = "assume_mapper st"
  let ?op = "TileFold i k ids (List.map (get_var ?m) xs) ps (start @ body') rs"
  have run: "rewrite_ops cand (TileFold i k ids xs ps body rs # ops) st = (Inr (?op # new @ ops'), st4)"
    using 1(1) 2(1,3) 3(1) by (simp add: remapped_def getE_def bindE_def retE_def with_body_def)
  have "carries ?Q M n (TileFold i k ids xs ps body rs # ops) (?op # new @ ops') \<rho> \<rho>'"
    if t0: "tracks N st \<rho> \<rho>' (set (defined_vars (TileFold i k ids xs ps body rs # ops)))" for \<rho> \<rho>'
    unfolding carries_def
  proof (intro allI impI)
    fix s x assume x: "exec_checked ?Q M n (TileFold i k ids xs ps body rs # ops) \<rho> s = Some x"
    let ?f = "\<lambda>l a e. Option.bind (bind_checked ?Q ps (a @ e) \<rho>) (\<lambda>\<rho>. yielded l (exec_checked ?Q M n body \<rho> s))"
    let ?g = "\<lambda>l a e. Option.bind (bind_vars ps (a @ e) \<rho>') (\<lambda>\<rho>'. yielded l (exec M n (start @ body') \<rho>' s))"
    have t: "tracks N st \<rho> \<rho>' (set rs \<union> (set ps \<union> ?B \<union> ?D))" using t0 by (simp add: Un_assoc)
    have fol: "follows ?m \<rho> \<rho>'" using t by (simp add: tracks_def)
    have "tracks N st1 \<rho> \<rho>' (set ps \<union> ?B)"
      by (rule tracks_unchanged [OF tracks_mono [OF t] 1(3)]) (use d t in \<open>auto simp: tracks_def\<close>)
    note bn = body_new [OF this 1(2) _ 2(2) 2(5)]
    have fg: "?g l a e = Some b" if "?f l a e = Some b" for l a e b
    proof -
      from that obtain \<rho>1 where b: "bind_checked ?Q ps (a @ e) \<rho> = Some \<rho>1" "yielded l (exec_checked ?Q M n body \<rho>1 s) = Some b"
        unfolding bind_eq_Some_conv by blast
      then obtain q where q: "exec_checked ?Q M n body \<rho>1 s = Some q" by (auto simp: yielded_def split: option.splits)
      obtain \<rho>1' where "bind_vars ps (a @ e) \<rho>' = Some \<rho>1'" "exec M n (start @ body') \<rho>1' s = Some q"
        using bn [OF _ _ b(1) q] d by auto
      then show ?thesis using b(2) q by simp
    qed
    from x obtain vs ys where v: "lookups \<rho> xs = Some vs" "fold_tiles M k (?f (length vs)) ids vs = Some ys"
      and k: "resume_checked ?Q rs \<rho> (exec_checked ?Q M n ops) (Some (Yielded ys, s)) = Some x"
      by (auto simp: bind_eq_Some_conv)
    have g: "fold_tiles M k (?g (length vs)) ids vs = Some ys"
      by (rule fold_tiles_mono [where g = "?f (length vs)", OF _ v(2)]) (rule fg)
    have "resume rs \<rho>' (exec M n (new @ ops')) (Some (Yielded ys, s)) = Some x"
      by (rule resume_new [where A = "set ps \<union> ?B" and D = ?D, OF _ st _ _ 1(4) _ 2(4) 3(4) k]) (use t d in auto)
    then show "exec M n (?op # new @ ops') \<rho>' s = Some x"
      using follows_lookups [OF fol v(1)] g by simp
  qed
  moreover have "unchanged_off (set (defined_vars (TileFold i k ids xs ps body rs # ops))) st st4"
    by (rule unchanged_off_mono [OF unchanged_off_trans [OF unchanged_off_trans [OF 1(3) 2(4)] 3(3)]]) auto
  ultimately show "\<exists>ops' st'. rewrite_ops cand (TileFold i k ids xs ps body rs # ops) st = (Inr ops', st') \<and> state_ok V N P st' \<and>
      unchanged_off (set (defined_vars (TileFold i k ids xs ps body rs # ops))) st st' \<and>
      (\<forall>\<rho> \<rho>'. tracks N st \<rho> \<rho>' (set (defined_vars (TileFold i k ids xs ps body rs # ops))) \<longrightarrow>
        carries ?Q M n (TileFold i k ids xs ps body rs # ops) ops' \<rho> \<rho>')"
    using run 3(2) by blast
qed

lemma rewritable_IfElse:
  assumes M: "assume_steps W M" "\<forall>x \<in> V. map_of P x \<noteq> None" and V: "set (defined_vars (IfElse i c T E rs # ops)) \<subseteq> V"
    and d: "distinct (defined_vars (IfElse i c T E rs # ops))"
    and T: "rewritable W M n V N P cand T" and E: "rewritable W M n V N P cand E" and ops: "rewritable W M n V N P cand ops"
  shows "rewritable W M n V N P cand (IfElse i c T E rs # ops)"
proof (rule rewritableI)
  fix st assume st: "state_ok V N P st"
  let ?Q = "described W P" and ?T = "set (defined_vars T)" and ?E = "set (defined_vars E)" and ?D = "set (defined_vars ops)"
  let ?xs = "List.filter (\<lambda>v. v \<in> set cand) rs"
  have xs: "set ?xs \<subseteq> set rs" by auto
  have "adds_places W M n V N P ?xs (add_assumes ?xs)" by (rule add_assumes_adds [OF M(1) _ M(2)]) (use V in auto)
  from this st obtain new st1 where 1: "add_assumes ?xs st = (Inr new, st1)" "state_ok V N P st1" "unchanged_off (set ?xs) st st1"
    "places W M n N P ?xs st new st1" by (rule adds_placesE)
  from T 1(2) obtain T' st2 where 2: "rewrite_ops cand T st1 = (Inr T', st2)" "state_ok V N P st2" "unchanged_off ?T st1 st2"
    "\<And>\<rho> \<rho>'. tracks N st1 \<rho> \<rho>' ?T \<Longrightarrow> carries ?Q M n T T' \<rho> \<rho>'" by (rule rewritableE) blast
  from E 2(2) obtain E' st3 where 3: "rewrite_ops cand E st2 = (Inr E', st3)" "state_ok V N P st3" "unchanged_off ?E st2 st3"
    "\<And>\<rho> \<rho>'. tracks N st2 \<rho> \<rho>' ?E \<Longrightarrow> carries ?Q M n E E' \<rho> \<rho>'" by (rule rewritableE) blast
  from ops 3(2) obtain ops' st4 where 4: "rewrite_ops cand ops st3 = (Inr ops', st4)" "state_ok V N P st4" "unchanged_off ?D st3 st4"
    "\<And>\<rho> \<rho>'. tracks N st3 \<rho> \<rho>' ?D \<Longrightarrow> carries ?Q M n ops ops' \<rho> \<rho>'" by (rule rewritableE) blast
  let ?m = "assume_mapper st" let ?op = "IfElse i (get_var ?m c) T' E' rs"
  have run: "rewrite_ops cand (IfElse i c T E rs # ops) st = (Inr (?op # new @ ops'), st4)"
    using 1(1) 2(1) 3(1) 4(1) by (simp add: remapped_def getE_def bindE_def retE_def with_branches_def)
  have o1: "unchanged_off (set rs) st st1" by (rule unchanged_off_mono [OF 1(3) xs])
  have o3: "unchanged_off (?T \<union> ?E) st1 st3" by (rule unchanged_off_trans [OF 2(3) 3(3)])
  have "carries ?Q M n (IfElse i c T E rs # ops) (?op # new @ ops') \<rho> \<rho>'"
    if t0: "tracks N st \<rho> \<rho>' (set (defined_vars (IfElse i c T E rs # ops)))" for \<rho> \<rho>'
    unfolding carries_def
  proof (intro allI impI)
    fix s x assume x: "exec_checked ?Q M n (IfElse i c T E rs # ops) \<rho> s = Some x"
    have t: "tracks N st \<rho> \<rho>' (set rs \<union> (?T \<union> ?E \<union> ?D))" using t0 by (simp add: Un_assoc)
    have "tracks N st1 \<rho> \<rho>' (?T \<union> ?E)"
      by (rule tracks_unchanged [OF tracks_mono [OF t] o1]) (use d t in \<open>auto simp: tracks_def\<close>)
    moreover from this have "tracks N st2 \<rho> \<rho>' ?E"
      by (rule tracks_unchanged [OF _ 2(3)]) (use d t in \<open>auto simp: tracks_def\<close>)
    ultimately have TE: "carries ?Q M n T T' \<rho> \<rho>'" "carries ?Q M n E E' \<rho> \<rho>'"
      using 2(4) 3(4) tracks_mono by blast+
    let ?b = "\<lambda>v. if m_true M v then exec_checked ?Q M n T \<rho> s else exec_checked ?Q M n E \<rho> s"
    from x obtain v where v: "\<rho> c = Some v" and k: "resume_checked ?Q rs \<rho> (exec_checked ?Q M n ops) (?b v) = Some x"
      by (auto simp: bind_eq_Some_conv)
    from k obtain q where q: "?b v = Some q" by (auto simp: resume_checked_def bind_eq_Some_conv)
    then have q': "(if m_true M v then exec M n T' \<rho>' s else exec M n E' \<rho>' s) = Some q"
      using carriesD [OF TE(1)] carriesD [OF TE(2)] by (auto split: if_splits)
    have "resume rs \<rho>' (exec M n (new @ ops')) (?b v) = Some x"
      by (rule resume_new [where A = "?T \<union> ?E" and D = ?D, OF _ st _ _ 1(4) xs o3 4(4) k]) (use t d in auto)
    moreover have "\<rho>' (get_var ?m c) = Some v" using t v by (simp add: tracks_def follows_def)
    ultimately show "exec M n (?op # new @ ops') \<rho>' s = Some x" using q q' by simp
  qed
  moreover have "unchanged_off (set (defined_vars (IfElse i c T E rs # ops))) st st4"
    by (rule unchanged_off_mono [OF unchanged_off_trans [OF unchanged_off_trans [OF o1 o3] 4(3)]]) auto
  ultimately show "\<exists>ops' st'. rewrite_ops cand (IfElse i c T E rs # ops) st = (Inr ops', st') \<and> state_ok V N P st' \<and>
      unchanged_off (set (defined_vars (IfElse i c T E rs # ops))) st st' \<and>
      (\<forall>\<rho> \<rho>'. tracks N st \<rho> \<rho>' (set (defined_vars (IfElse i c T E rs # ops))) \<longrightarrow>
        carries ?Q M n (IfElse i c T E rs # ops) ops' \<rho> \<rho>')"
    using run 4(2) by blast
qed

lemma rewritable_Operation:
  assumes M: "assume_steps W M" "\<forall>x \<in> V. map_of P x \<noteq> None" and V: "set (defined_vars (Operation c rs xs # ops)) \<subseteq> V"
    and d: "distinct (defined_vars (Operation c rs xs # ops))" and ops: "rewritable W M n V N P cand ops"
  shows "rewritable W M n V N P cand (Operation c rs xs # ops)"
proof (rule rewritableI)
  fix st assume st: "state_ok V N P st"
  let ?Q = "described W P" and ?D = "set (defined_vars ops)" and ?xs = "List.filter (\<lambda>v. v \<in> set cand) rs"
  have xs: "set ?xs \<subseteq> set rs" by auto
  have "adds_places W M n V N P ?xs (add_assumes ?xs)" by (rule add_assumes_adds [OF M(1) _ M(2)]) (use V in auto)
  from this st obtain new st1 where 1: "add_assumes ?xs st = (Inr new, st1)" "state_ok V N P st1" "unchanged_off (set ?xs) st st1"
    "places W M n N P ?xs st new st1" by (rule adds_placesE)
  from ops 1(2) obtain ops' st2 where 2: "rewrite_ops cand ops st1 = (Inr ops', st2)" "state_ok V N P st2" "unchanged_off ?D st1 st2"
    "\<And>\<rho> \<rho>'. tracks N st1 \<rho> \<rho>' ?D \<Longrightarrow> carries ?Q M n ops ops' \<rho> \<rho>'" by (rule rewritableE) blast
  let ?m = "assume_mapper st" let ?op = "Operation c rs (List.map (get_var ?m) xs)"
  have run: "rewrite_ops cand (Operation c rs xs # ops) st = (Inr (?op # new @ ops'), st2)"
    using 1(1) 2(1) by (simp add: remapped_def getE_def bindE_def retE_def)
  have "carries ?Q M n (Operation c rs xs # ops) (?op # new @ ops') \<rho> \<rho>'"
    if t0: "tracks N st \<rho> \<rho>' (set (defined_vars (Operation c rs xs # ops)))" for \<rho> \<rho>'
    unfolding carries_def
  proof (intro allI impI)
    fix s x assume x: "exec_checked ?Q M n (Operation c rs xs # ops) \<rho> s = Some x"
    have t: "tracks N st \<rho> \<rho>' (set rs \<union> ({} \<union> ?D))" using t0 by simp
    have fol: "follows ?m \<rho> \<rho>'" using t by (simp add: tracks_def)
    show "exec M n (?op # new @ ops') \<rho>' s = Some x"
    proof (cases "c = Return")
      case False
      with x obtain vs ys t' where v: "lookups \<rho> xs = Some vs" "m_step M c vs s = Some (ys, t')"
        and k: "resume_checked ?Q rs \<rho> (exec_checked ?Q M n ops) (Some (Yielded ys, t')) = Some x"
        by (auto simp: bind_eq_Some_conv)
      have "resume rs \<rho>' (exec M n (new @ ops')) (Some (Yielded ys, t')) = Some x"
        by (rule resume_new [where A = "{}" and D = ?D, OF t st _ _ 1(4) xs _ 2(4) k]) (use d in auto)
      then show ?thesis using follows_lookups [OF fol v(1)] v(2) False by simp
    qed (use x in simp)
  qed
  moreover have "unchanged_off (set (defined_vars (Operation c rs xs # ops))) st st2"
    by (rule unchanged_off_mono [OF unchanged_off_trans [OF 1(3) 2(3)]]) auto
  ultimately show "\<exists>ops' st'. rewrite_ops cand (Operation c rs xs # ops) st = (Inr ops', st') \<and> state_ok V N P st' \<and>
      unchanged_off (set (defined_vars (Operation c rs xs # ops))) st st' \<and>
      (\<forall>\<rho> \<rho>'. tracks N st \<rho> \<rho>' (set (defined_vars (Operation c rs xs # ops))) \<longrightarrow>
        carries ?Q M n (Operation c rs xs # ops) ops' \<rho> \<rho>')"
    using run 2(2) by blast
qed

text \<open>Jumps and yields have no results: their operands are renamed.\<close>

lemma rewritable_jump:
  assumes ops: "rewritable W M n V N P cand ops"
    and op: "op = Continue xs \<or> op = Break xs \<or> op = EndBranch xs"
  shows "rewritable W M n V N P cand (op # ops)"
proof (rule rewritableI)
  fix st assume st: "state_ok V N P st"
  from ops st obtain ops' st2 where 2: "rewrite_ops cand ops st = (Inr ops', st2)" "state_ok V N P st2"
    "unchanged_off (set (defined_vars ops)) st st2" by (rule rewritableE)
  let ?op = "remap_operands (assume_mapper st) op"
  have run: "rewrite_ops cand (op # ops) st = (Inr (?op # ops'), st2)"
    using op 2(1) by (auto simp: remapped_def getE_def bindE_def retE_def)
  have "carries (described W P) M n (op # ops) (?op # ops') \<rho> \<rho>'"
    if "tracks N st \<rho> \<rho>' (set (defined_vars (op # ops)))" for \<rho> \<rho>'
    using that op follows_lookups [of "assume_mapper st" \<rho> \<rho>']
    by (auto simp: carries_def tracks_def bind_eq_Some_conv simp del: lookups_simps)
  moreover have "unchanged_off (set (defined_vars (op # ops))) st st2" using 2(3) op by auto
  ultimately show "\<exists>ops' st'. rewrite_ops cand (op # ops) st = (Inr ops', st') \<and> state_ok V N P st' \<and>
      unchanged_off (set (defined_vars (op # ops))) st st' \<and>
      (\<forall>\<rho> \<rho>'. tracks N st \<rho> \<rho>' (set (defined_vars (op # ops))) \<longrightarrow> carries (described W P) M n (op # ops) ops' \<rho> \<rho>')"
    using run 2(2) by blast
qed

theorem all_rewritable:
  assumes M: "assume_steps W M" "\<forall>x \<in> V. map_of P x \<noteq> None"
  shows "distinct (defined_vars ops) \<Longrightarrow> set (defined_vars ops) \<subseteq> V \<Longrightarrow> rewritable W M n V N P cand ops"
proof (induction ops rule: traverse_induct)
  case Nil
  show ?case
  proof (rule rewritableI)
    fix st assume "state_ok V N P st"
    moreover have "carries (described W P) M n [] [] \<rho> \<rho>'" for \<rho> \<rho>' by (simp add: carries_def)
    ultimately show "\<exists>ops' st'. rewrite_ops cand [] st = (Inr ops', st') \<and> state_ok V N P st' \<and> unchanged_off (set (defined_vars [])) st st' \<and>
        (\<forall>\<rho> \<rho>'. tracks N st \<rho> \<rho>' (set (defined_vars [])) \<longrightarrow> carries (described W P) M n [] ops' \<rho> \<rho>')"
      by (simp add: retE_def)
  qed
next
  case (Operation c rs xs ops)
  then show ?case by (intro rewritable_Operation M) auto
next
  case (Loop i r init ps body rs ops)
  then show ?case by (intro rewritable_Loop M) auto
next
  case (IfElse i c T E rs ops)
  then show ?case by (intro rewritable_IfElse M) auto
next
  case (TileFold i k ids xs ps body rs ops)
  then show ?case by (intro rewritable_TileFold M) auto
qed (auto intro: rewritable_jump)

section \<open>The result of the pass\<close>

lemma add_divby_runs:
  assumes M: "assume_steps W M"
    and wf: "distinct (defined_vars root)" "set params \<inter> set (defined_vars root) = {}"
    and V: "V = set params \<union> set (defined_vars root)" "V \<subseteq> ctx_names ctx" "typed_ctx V ctx" "\<forall>x \<in> V. map_of P x \<noteq> None"
    and \<rho>: "dom \<rho> = set params" "env_ok (described W P) \<rho>"
    and x: "exec_checked (described W P) M n root \<rho> s = Some r"
  shows "\<exists>root' st. add_divby_pass params root P ctx = (Inr root', st) \<and> exec M n root' \<rho> s = Some r"
proof -
  let ?st = "\<lparr>assume_ctx = ctx, assume_mapper = [], assume_preds = P\<rparr>" and ?N = "ctx_names ctx"
  have st: "state_ok V ?N P ?st" using V by (simp add: state_ok_def)
  have "adds_places W M n V ?N P params (add_assumes params)" by (rule add_assumes_adds [OF M _ V(4)]) (use V(1) in auto)
  from this st obtain start st1 where 1: "add_assumes params ?st = (Inr start, st1)" "state_ok V ?N P st1"
    "unchanged_off (set params) ?st st1" "places W M n ?N P params ?st start st1" by (rule adds_placesE)
  have "rewritable W M n V ?N P (assume_candidates root) root"
    by (rule all_rewritable [OF M V(4) wf(1)]) (use V(1) in auto)
  from this 1(2) obtain root' st2 where 2: "rewrite_ops (assume_candidates root) root st1 = (Inr root', st2)"
    "\<And>\<rho> \<rho>'. tracks ?N st1 \<rho> \<rho>' (set (defined_vars root)) \<Longrightarrow> carries (described W P) M n root root' \<rho> \<rho>'"
    by (rule rewritableE) blast
  have "tracks ?N ?st \<rho> \<rho> (set (defined_vars root))"
    using V(1,2) \<rho>(1) wf(2) by (auto simp: tracks_def follows_def get_var_def domIff)
  moreover have "\<forall>x \<in> set params. \<exists>v. \<rho> x = Some v \<and> described W P x v"
    using \<rho> unfolding env_ok_def by blast
  ultimately obtain \<rho>'' where "\<forall>rest s. exec M n (start @ rest) \<rho> s = exec M n rest \<rho>'' s"
    "tracks ?N st1 \<rho> \<rho>'' (set (defined_vars root))"
    using 1(4) unfolding places_def by blast
  then have "exec M n (start @ root') \<rho> s = Some r" using carriesD [OF 2(2) x] by simp
  then show ?thesis using 1(1) 2(1) by (simp add: add_divby_pass_def bindE_def retE_def)
qed

end
