(* ===== verification/AssumeProps.thy ===== *)
theory AssumeProps
  imports AssumeRun
begin

text \<open>
  The property of the pass that adds divisibility assumptions, with the program of \<open>DataflowProps\<close>.
\<close>

definition param_names :: "(var list \<times> constraint) list \<Rightarrow> var list" where
  "param_names params = concat (List.map fst params)"

text \<open>What the pass needs of a program: names are assigned once and known, and have types and predicates.\<close>

definition prepared :: "ir_context \<Rightarrow> var list \<Rightarrow> ir_op list \<Rightarrow> (var \<times> data_predicate) list \<Rightarrow> bool" where
  "prepared ctx names root preds \<longleftrightarrow> distinct (defined_vars root) \<and> set names \<inter> set (defined_vars root) = {} \<and>
     set names \<union> set (defined_vars root) \<subseteq> ctx_names ctx \<and> typed_ctx (set names \<union> set (defined_vars root)) ctx \<and>
     (\<forall>x \<in> set names \<union> set (defined_vars root). map_of preds x \<noteq> None)"


definition df_names :: ir_context where
  "df_names = df_context\<lparr>all_vars := List.map (\<lambda>(v, _). (v, v)) (typemap df_context)\<rparr>"

lemma df_names_analysed: "dataflow_analysis df_names df_program df_params = Some (Inr df_result)"
  by code_simp

lemma df_names_obeys: "obeys scalar_view df_names scalar_machine df_program"
  by (rule scalar_obeys) code_simp

lemma df_prepared: "prepared df_names (param_names df_params) df_program df_result"
  by code_simp

lemma scalar_assume_steps: "assume_steps scalar_view scalar_machine"
  by (auto simp: assume_steps_def scalar_machine_def scalar_step_def scalar_view_def)

text \<open>In the example \<^verbatim>\<open>p\<close>, \<^verbatim>\<open>n\<close>, the parameter \<^verbatim>\<open>acc\<close> of the loop and the pointer \<^verbatim>\<open>q\<close> that is loaded from are assumed.\<close>

lemma df_assumed: "fst (add_divby_pass (param_names df_params) df_program df_result df_names) = Inr [
     Operation (AssumeDivBy 16) [''p.0''] [''p''], Operation (AssumeDivBy 8) [''n.0''] [''n''],
     Operation (TypedConst (PyInt 8)) [''eight''] [], Operation (TypedConst (PyInt 0)) [''zero''] [],
     Loop 0 (Some (''zero'', ''n.0'', ''one'')) [''zero''] [''i'', ''acc'']
       [Operation (AssumeDivBy 8) [''acc.0''] [''acc''],
        Operation (RawBinaryArithmeticOperation ''add'' None False) [''acc2''] [''acc.0'', ''eight''],
        Continue [''acc2'']] [''off''],
     Operation PointerOffset [''q''] [''p.0'', ''off''],
     Operation (AssumeDivBy 16) [''q.0''] [''q''], Operation LoadPointer [''x''] [''q.0''],
     Operation Return [] []]"
  by code_simp


end
