(* ===== verification/LowerFlags.thy ===== *)
theory LowerFlags
  imports Remap DcePass
begin

text \<open>
  What the passes \<^verbatim>\<open>for_loop_return.py\<close> and \<^verbatim>\<open>for_loop_break.py\<close> share: both carry a flag through a loop, in a
  new parameter and a new result.

  \<^item> \<open>lower_state\<close>: the context, and the number of operation objects made so far;
  \<^item> \<open>bool_temp\<close>: a temporary variable of the type of a Python bool;
  \<^item> \<open>exec_larger\<close>: variables that are added to an environment do not change a run;
  \<^item> \<open>exec_lengths\<close>: jumps and yields of a well-nested block pass on as many values as there are variables for.
\<close>

section \<open>The state\<close>

record lower_state =
  lower_ctx :: ir_context
  next_op :: nat

type_synonym 'a lowering = "(lower_state, 'a) eff"

definition bool_type :: ir_type where
  "bool_type = TileTy DT_bool []"

definition in_lower :: "'a ir \<Rightarrow> 'a lowering" where
  "in_lower m = zoom lower_ctx (\<lambda>c s. s\<lparr>lower_ctx := c\<rparr>) m"

definition bool_temp :: "var lowering" where
  "bool_temp = bindE (in_lower make_temp) (\<lambda>v. bindE (in_lower (set_type v bool_type)) (\<lambda>_. retE v))"

definition new_op_id :: "nat lowering" where
  "new_op_id = bindE (getE next_op) (\<lambda>i. bindE (modifyE (\<lambda>s. s\<lparr>next_op := Suc i\<rparr>)) (\<lambda>_. retE i))"

definition low_names :: "lower_state \<Rightarrow> var set" where
  "low_names st = fst ` set (all_vars (lower_ctx st))"

definition low_ok :: "lower_state \<Rightarrow> bool" where
  "low_ok st \<longleftrightarrow> fst ` set (typemap (lower_ctx st)) \<subseteq> low_names st"

lemma bool_temp_fresh:
  assumes "low_ok st"
  obtains v st' where "bool_temp st = (Inr v, st')" and "v \<notin> low_names st" and "low_names st' = insert v (low_names st)"
    and "low_ok st'"
proof -
  let ?c = "lower_ctx st" let ?c' = "?c\<lparr>temp_counter := Suc (temp_counter ?c)\<rparr>"
  obtain r c1 where mk: "make_var (''$'' @ dec_str (temp_counter ?c)) ?c' = (r, c1)" by fastforce
  from make_var_fresh [OF mk] obtain v where v: "r = Inr v" "v \<notin> fst ` set (all_vars ?c')"
    "all_vars c1 = (v, ''$'' @ dec_str (temp_counter ?c)) # all_vars ?c'" "typemap c1 = typemap ?c'" by metis
  have new: "v \<notin> fst ` set (typemap ?c)" using v(2) assms by (auto simp: low_ok_def low_names_def)
  let ?st = "st\<lparr>lower_ctx := c1\<lparr>typemap := (v, bool_type) # typemap c1\<rparr>\<rparr>"
  have "bool_temp st = (Inr v, ?st)"
    using mk v new by (simp add: bool_temp_def in_lower_def zoom_def make_temp_def set_type_def bindE_def getE_def assertE_def
        modifyE_def retE_def map_of_eq_None_iff)
  moreover have "low_names ?st = insert v (low_names st)" using v(3) by (simp add: low_names_def)
  moreover have "low_ok ?st" using assms v(3,4) by (auto simp: low_ok_def low_names_def)
  ultimately show thesis using that v(2) by (simp add: low_names_def)
qed

lemma new_op_id_run: "new_op_id st = (Inr (next_op st), st\<lparr>next_op := Suc (next_op st)\<rparr>)"
  by (simp add: new_op_id_def bindE_def getE_def modifyE_def retE_def)

lemma next_op_ignored [simp]: "low_names (st\<lparr>next_op := i\<rparr>) = low_names st" "low_ok (st\<lparr>next_op := i\<rparr>) = low_ok st"
  by (simp_all add: low_names_def low_ok_def)

section \<open>Larger environments\<close>

lemma get_var_Nil [simp]: "get_var [] x = x"
  by (simp add: get_var_def)

lemma map_get_var_Nil [simp]: "List.map (get_var []) xs = xs"
  by (simp add: map_idI)

lemma follows_Nil: "follows [] \<rho> \<rho>' \<longleftrightarrow> \<rho> \<subseteq>\<^sub>m \<rho>'"
  by (auto simp: follows_def map_le_def dom_def)

lemma map_le_lookups: "\<rho> \<subseteq>\<^sub>m \<rho>' \<Longrightarrow> lookups \<rho> xs = Some vs \<Longrightarrow> lookups \<rho>' xs = Some vs"
  using follows_lookups [of "[]" \<rho> \<rho>' xs vs] by (simp add: follows_Nil)

lemma lookups_append: "lookups \<rho> (xs @ [x]) = Option.bind (lookups \<rho> xs) (\<lambda>vs. Option.bind (\<rho> x) (\<lambda>v. Some (vs @ [v])))"
  by (induction xs) (auto split: Option.bind_split)

lemma map_upds_apply_nth: "distinct xs \<Longrightarrow> length xs = length vs \<Longrightarrow> j < length xs \<Longrightarrow> (\<rho>(xs [\<mapsto>] vs)) (xs ! j) = Some (vs ! j)"
proof (induction xs vs arbitrary: \<rho> j rule: list_induct2')
  case (4 x xs v vs)
  then show ?case by (cases j) (auto simp: map_upds_apply_nontin)
qed simp_all

lemma lookups_upds: "distinct xs \<Longrightarrow> length xs = length vs \<Longrightarrow> lookups (\<rho>(xs [\<mapsto>] vs)) xs = Some vs"
  by (auto simp: lookups_list_all2 list_all2_conv_all_nth map_upds_apply_nth)

lemma lookups_other: "x \<notin> set xs \<Longrightarrow> lookups (\<rho>(x \<mapsto> v)) xs = lookups \<rho> xs"
  by (rule lookups_cong) auto

lemma map_le_at: "\<rho> \<subseteq>\<^sub>m \<rho>' \<Longrightarrow> \<rho> x = Some v \<Longrightarrow> \<rho>' x = Some v"
  by (auto simp: map_le_def dom_def)

lemma map_le_upds: "\<rho> \<subseteq>\<^sub>m \<rho>' \<Longrightarrow> length xs = length vs \<Longrightarrow> \<rho>(xs [\<mapsto>] vs) \<subseteq>\<^sub>m \<rho>'(xs [\<mapsto>] vs)"
  unfolding map_le_def
proof
  fix y assume le: "\<forall>a \<in> dom \<rho>. \<rho> a = \<rho>' a" and len: "length xs = length vs" and y: "y \<in> dom (\<rho>(xs [\<mapsto>] vs))"
  show "(\<rho>(xs [\<mapsto>] vs)) y = (\<rho>'(xs [\<mapsto>] vs)) y"
  proof (cases "y \<in> set xs")
    case False
    then have "y \<in> dom \<rho>" using y len by auto
    then show ?thesis using le False by (simp add: map_upds_apply_nontin)
  qed (rule map_upds_same [OF len])
qed

text \<open>A single operation, with what it hands on; jumps and yields leave the block instead.\<close>

definition step_op :: "('v, 's) machine \<Rightarrow> nat \<Rightarrow> ir_op \<Rightarrow> 'v env \<Rightarrow> 's \<Rightarrow> ('v outcome \<times> 's) option" where
  "step_op M n op \<rho> s = (case op of
     Operation c rs xs \<Rightarrow> if c = Return then Some (Returned, s)
       else Option.bind (lookups \<rho> xs) (\<lambda>vs. Option.bind (m_step M c vs s) (\<lambda>(ys, t). Some (Yielded ys, t)))
   | Loop i r init ps body rs \<Rightarrow> Option.bind (lookups \<rho> init) (\<lambda>vs. run_loop M n r \<rho>
       (\<lambda>ws t. Option.bind (bind_vars ps ws \<rho>) (\<lambda>\<rho>'. exec M n body \<rho>' t)) vs s)
   | IfElse i c T E rs \<Rightarrow> Option.bind (\<rho> c) (\<lambda>v. if m_true M v then exec M n T \<rho> s else exec M n E \<rho> s)
   | TileFold i k ids xs ps body rs \<Rightarrow> Option.bind (lookups \<rho> xs) (\<lambda>vs. Option.bind (fold_tiles M k
         (\<lambda>a e. Option.bind (bind_vars ps (a @ e) \<rho>) (\<lambda>\<rho>'. yielded (length vs) (exec M n body \<rho>' s))) ids vs)
       (\<lambda>ys. Some (Yielded ys, s)))
   | _ \<Rightarrow> None)"

fun leaves_block :: "ir_op \<Rightarrow> bool" where
  "leaves_block (Continue vs) \<longleftrightarrow> True"
| "leaves_block (Break vs) \<longleftrightarrow> True"
| "leaves_block (EndBranch vs) \<longleftrightarrow> True"
| "leaves_block _ \<longleftrightarrow> False"

lemma bind_resume: "Option.bind x (\<lambda>v. resume rs \<rho> k (f v)) = resume rs \<rho> k (Option.bind x f)"
  by (cases x) (simp_all add: resume_def)

lemma exec_step: "\<not> leaves_block op \<Longrightarrow> exec M n (op # ops) \<rho> s = resume (result_vars op) \<rho> (exec M n ops) (step_op M n op \<rho> s)"
  by (cases op) (simp_all add: step_op_def bind_resume resume_def [of _ _ _ "Some (Returned, s)"] split_def)

definition larger :: "('v, 's) machine \<Rightarrow> nat \<Rightarrow> ir_op list \<Rightarrow> bool" where
  "larger M n ops \<longleftrightarrow> (\<forall>\<rho> \<rho>' s r. exec M n ops \<rho> s = Some r \<longrightarrow> \<rho> \<subseteq>\<^sub>m \<rho>' \<longrightarrow> exec M n ops \<rho>' s = Some r)"

lemma largerD: "larger M n ops \<Longrightarrow> exec M n ops \<rho> s = Some r \<Longrightarrow> \<rho> \<subseteq>\<^sub>m \<rho>' \<Longrightarrow> exec M n ops \<rho>' s = Some r"
  unfolding larger_def by blast

lemma body_larger:
  assumes "larger M n body" and "\<rho> \<subseteq>\<^sub>m \<rho>'" and "Option.bind (bind_vars ps ws \<rho>) (\<lambda>\<rho>. exec M n body \<rho> t) = Some p"
  shows "Option.bind (bind_vars ps ws \<rho>') (\<lambda>\<rho>. exec M n body \<rho> t) = Some p"
proof -
  from assms(3) have len: "length ps = length ws" and e: "exec M n body (\<rho>(ps [\<mapsto>] ws)) t = Some p"
    by (auto simp: bind_eq_Some_conv bind_vars_Some)
  from largerD [OF assms(1) e map_le_upds [OF assms(2) len]] show ?thesis using len by (simp add: bind_vars_def)
qed

lemma step_larger_if:
  assumes nested: "\<forall>(ps, b) \<in> set (nested_blocks op). larger M n b" and step: "step_op M n op \<rho> s = Some x" and le: "\<rho> \<subseteq>\<^sub>m \<rho>'"
  shows "step_op M n op \<rho>' s = Some x"
proof (cases op)
  case (Operation c rs xs)
  then show ?thesis using step map_le_lookups [OF le] by (auto simp: step_op_def bind_eq_Some_conv split: if_splits)
next
  case (Loop i r init ps body rs)
  let ?f = "\<lambda>ws t. Option.bind (bind_vars ps ws \<rho>) (\<lambda>\<rho>. exec M n body \<rho> t)"
  let ?g = "\<lambda>ws t. Option.bind (bind_vars ps ws \<rho>') (\<lambda>\<rho>. exec M n body \<rho> t)"
  from step Loop obtain vs where v: "lookups \<rho> init = Some vs" and f: "run_loop M n r \<rho> ?f vs s = Some x"
    by (auto simp: step_op_def bind_eq_Some_conv)
  have fol: "follows [] \<rho> \<rho>'" using le by (simp add: follows_Nil)
  have "run_loop M n (map_option (\<lambda>(a, b, c). (get_var [] a, get_var [] b, get_var [] c)) r) \<rho>' ?g vs s = Some x"
    by (rule run_loop_mono [where f = ?f, OF _ fol f]) (rule body_larger [OF _ le], use nested Loop in simp_all)
  moreover have "map_option (\<lambda>(a, b, c). (get_var [] a, get_var [] b, get_var [] c)) r = r" by (cases r) auto
  ultimately show ?thesis using Loop map_le_lookups [OF le v] by (simp add: step_op_def)
next
  case (IfElse i c T E rs)
  with step obtain v where v: "\<rho> c = Some v" and b: "(if m_true M v then exec M n T \<rho> s else exec M n E \<rho> s) = Some x"
    by (auto simp: step_op_def bind_eq_Some_conv)
  have "exec M n T \<rho>' s = Some x" if "exec M n T \<rho> s = Some x" by (rule largerD [OF _ that le]) (use nested IfElse in simp)
  moreover have "exec M n E \<rho>' s = Some x" if "exec M n E \<rho> s = Some x" by (rule largerD [OF _ that le]) (use nested IfElse in simp)
  ultimately show ?thesis using IfElse b map_le_at [OF le v] by (simp add: step_op_def split: if_splits)
next
  case (TileFold i k ids xs ps body rs)
  let ?f = "\<lambda>l a e. Option.bind (bind_vars ps (a @ e) \<rho>) (\<lambda>\<rho>. yielded l (exec M n body \<rho> s))"
  let ?g = "\<lambda>l a e. Option.bind (bind_vars ps (a @ e) \<rho>') (\<lambda>\<rho>. yielded l (exec M n body \<rho> s))"
  from step TileFold obtain vs ys where v: "lookups \<rho> xs = Some vs" "fold_tiles M k (?f (length vs)) ids vs = Some ys"
    and x: "x = (Yielded ys, s)" by (auto simp: step_op_def bind_eq_Some_conv)
  have fg: "?g l a e = Some b" if "?f l a e = Some b" for l a e b
  proof -
    from that obtain \<rho>1 where b: "bind_vars ps (a @ e) \<rho> = Some \<rho>1" "yielded l (exec M n body \<rho>1 s) = Some b"
      unfolding bind_eq_Some_conv by blast
    then obtain q where q: "exec M n body \<rho>1 s = Some q" by (auto simp: yielded_def split: option.splits)
    have len: "length ps = length (a @ e)" and r1: "\<rho>1 = \<rho>(ps [\<mapsto>] (a @ e))" using b(1) by (auto simp: bind_vars_Some)
    have "exec M n body (\<rho>'(ps [\<mapsto>] (a @ e))) s = Some q"
      by (rule largerD [OF _ q [unfolded r1] map_le_upds [OF le len]]) (use nested TileFold in simp)
    then show ?thesis using b q len by (simp add: bind_vars_def)
  qed
  have "fold_tiles M k (?g (length vs)) ids vs = Some ys"
    by (rule fold_tiles_mono [where g = "?f (length vs)", OF _ v(2)]) (rule fg)
  then show ?thesis using TileFold map_le_lookups [OF le v(1)] x by (simp add: step_op_def)
qed (use step in \<open>simp_all add: step_op_def\<close>)

lemma op_larger:
  assumes "\<forall>(ps, b) \<in> set (nested_blocks op). larger M n b" and ops: "larger M n ops" and "\<not> leaves_block op"
  shows "larger M n (op # ops)"
  unfolding larger_def
proof (intro allI impI)
  fix \<rho> \<rho>' s r assume x: "exec M n (op # ops) \<rho> s = Some r" and le: "\<rho> \<subseteq>\<^sub>m \<rho>'"
  obtain out u where r: "r = (out, u)" by (cases r)
  from x have k: "resume (result_vars op) \<rho> (exec M n ops) (step_op M n op \<rho> s) = Some (out, u)"
    unfolding r exec_step [OF assms(3)] .
  then obtain q where q: "step_op M n op \<rho> s = Some q" by (auto simp: resume_Some)
  have "resume (result_vars op) \<rho>' (exec M n ops) (step_op M n op \<rho> s) = Some (out, u)"
    by (rule resume_mono [OF k], rule largerD [OF ops]) (auto intro: map_le_upds [OF le])
  then show "exec M n (op # ops) \<rho>' s = Some r"
    using step_larger_if [OF assms(1) q le] q r by (simp add: exec_step [OF assms(3)])
qed

theorem all_larger: "larger M n ops"
proof (induction ops rule: traverse_induct)
  case (Operation c rs xs ops)
  then show ?case by (intro op_larger) auto
next
  case (Loop i r init ps body rs ops)
  then show ?case by (intro op_larger) auto
next
  case (IfElse i c T E rs ops)
  then show ?case by (intro op_larger) auto
next
  case (TileFold i k ids xs ps body rs ops)
  then show ?case by (intro op_larger) auto
qed (auto simp: larger_def bind_eq_Some_conv simp del: lookups_simps dest: map_le_lookups)

lemmas exec_larger = largerD [OF all_larger]

lemma step_larger: "step_op M n op \<rho> s = Some x \<Longrightarrow> \<rho> \<subseteq>\<^sub>m \<rho>' \<Longrightarrow> step_op M n op \<rho>' s = Some x"
  by (rule step_larger_if) (auto simp: all_larger)

text \<open>An operation in front of a block whose outcomes are changed by \<open>h\<close>.\<close>

definition passes_yields :: "('v outcome \<Rightarrow> 'v outcome) \<Rightarrow> bool" where
  "passes_yields h \<longleftrightarrow> (\<forall>ys. h (Yielded ys) = Yielded ys) \<and>
     (\<forall>out ys. out \<noteq> Fell \<and> (\<forall>ys. out \<noteq> Yielded ys) \<longrightarrow> h out \<noteq> Fell \<and> h out \<noteq> Yielded ys)"

lemma resume_changed:
  assumes h: "passes_yields h" and k: "resume rs \<rho> k r = Some (out, u)"
    and r: "\<And>o' t. r = Some (o', t) \<Longrightarrow> r' = Some (h o', t)"
    and k': "\<And>ys t. length rs = length ys \<Longrightarrow> k (\<rho>(rs [\<mapsto>] ys)) t = Some (out, u) \<Longrightarrow> k' (\<rho>'(rs [\<mapsto>] ys)) t = Some (h out, u)"
  shows "resume rs \<rho>' k' r' = Some (h out, u)"
proof -
  from k obtain o' t where o': "r = Some (o', t)" and c: "(\<exists>ys \<rho>1. o' = Yielded ys \<and> bind_vars rs ys \<rho> = Some \<rho>1 \<and> k \<rho>1 t = Some (out, u)) \<or>
      (o' = Returned \<or> (\<exists>ys. o' = Continued ys) \<or> (\<exists>ys. o' = Broke ys)) \<and> (out, u) = (o', t)"
    unfolding resume_Some by blast
  note r' = r [OF o']
  from c show ?thesis
  proof (elim disjE exE conjE)
    fix ys \<rho>1 assume ys: "o' = Yielded ys" "bind_vars rs ys \<rho> = Some \<rho>1" "k \<rho>1 t = Some (out, u)"
    then have "length rs = length ys" "k' (\<rho>'(rs [\<mapsto>] ys)) t = Some (h out, u)" using k' by (auto simp: bind_vars_Some)
    then show ?thesis using r' ys(1) h by (simp add: resume_def bind_vars_def passes_yields_def)
  qed (use r' h in \<open>auto simp: resume_def passes_yields_def split: outcome.split\<close>)
qed

lemma step_changed:
  assumes h: "passes_yields h" and op: "\<not> leaves_block op" "\<not> leaves_block op'" "result_vars op' = result_vars op"
    and x: "exec M n (op # ops) \<rho> s = Some (out, u)"
    and step: "\<And>o' t. step_op M n op \<rho> s = Some (o', t) \<Longrightarrow> step_op M n op' \<rho>' s = Some (h o', t)"
    and rest: "\<And>ys t. length (result_vars op) = length ys \<Longrightarrow> exec M n ops (\<rho>(result_vars op [\<mapsto>] ys)) t = Some (out, u) \<Longrightarrow>
      exec M n ops' (\<rho>'(result_vars op [\<mapsto>] ys)) t = Some (h out, u)"
  shows "exec M n (op' # ops') \<rho>' s = Some (h out, u)"
  unfolding exec_step [OF op(2)] op(3)
proof (rule resume_changed [OF h x [unfolded exec_step [OF op(1)]]])
  fix o' t assume "step_op M n op \<rho> s = Some (o', t)"
  then show "step_op M n op' \<rho>' s = Some (h o', t)" by (rule step)
next
  fix ys t assume "length (result_vars op) = length ys" "exec M n ops (\<rho>(result_vars op [\<mapsto>] ys)) t = Some (out, u)"
  then show "exec M n ops' (\<rho>'(result_vars op [\<mapsto>] ys)) t = Some (h out, u)" by (rule rest)
qed

lemma step_outcome:
  assumes "step_op M n op \<rho> s = Some (out, t)" and "\<forall>i c T E rs. op \<noteq> IfElse i c T E rs"
  shows "(\<exists>ys. out = Yielded ys) \<or> out = Returned"
  using assms by (cases op) (auto simp: step_op_def bind_eq_Some_conv dest: run_loop_outcome split: if_splits)

lemma map_upds_snoc: "length xs = length vs \<Longrightarrow> \<rho>(xs @ [x] [\<mapsto>] vs @ [v]) = (\<rho>(xs [\<mapsto>] vs))(x \<mapsto> v)"
  by (simp add: map_upds_append1)

lemma map_le_fresh: "\<rho> \<subseteq>\<^sub>m \<rho>' \<Longrightarrow> x \<notin> dom \<rho> \<Longrightarrow> \<rho> \<subseteq>\<^sub>m \<rho>'(x \<mapsto> v)"
  by (auto simp: map_le_def)

text \<open>The values that the constants \<^verbatim>\<open>False\<close> and \<^verbatim>\<open>True\<close> have on a machine.\<close>

definition bool_consts :: "('v, 's) machine \<Rightarrow> 'v \<Rightarrow> 'v \<Rightarrow> bool" where
  "bool_consts M f t \<longleftrightarrow> (\<forall>s. m_step M (TypedConst (PyBool False)) [] s = Some ([f], s)) \<and>
     (\<forall>s. m_step M (TypedConst (PyBool True)) [] s = Some ([t], s)) \<and> \<not> m_true M f \<and> m_true M t"

lemma exec_flags: "bool_consts M f t \<Longrightarrow>
    exec M n (Operation (TypedConst (PyBool False)) [x] [] # Operation (TypedConst (PyBool True)) [y] [] # ops) \<rho> s =
    exec M n ops (\<rho>(x \<mapsto> f, y \<mapsto> t)) s"
  by (simp add: bool_consts_def resume_def bind_vars_def)

section \<open>Numbers of values\<close>

fun outcome_lengths :: "loop_info option \<Rightarrow> var list option \<Rightarrow> 'v outcome \<Rightarrow> bool" where
  "outcome_lengths l t (Continued ws) \<longleftrightarrow> l \<noteq> None \<and> length ws = length (loop_body_vars (the l))"
| "outcome_lengths l t (Broke ws) \<longleftrightarrow> l \<noteq> None \<and> length ws = length (loop_body_vars (the l))"
| "outcome_lengths l t (Yielded ws) \<longleftrightarrow> t \<noteq> None \<and> length ws = length (the t)"
| "outcome_lengths l t _ \<longleftrightarrow> True"

lemma resume_lengths:
  assumes "resume rs \<rho> k r = Some (out, t)" and "\<And>o' t'. r = Some (o', t') \<Longrightarrow> (\<forall>ys. o' \<noteq> Yielded ys) \<Longrightarrow> outcome_lengths l tg o'"
    and "\<And>\<rho>' t'. k \<rho>' t' = Some (out, t) \<Longrightarrow> outcome_lengths l tg out"
  shows "outcome_lengths l tg out"
  using assms(1) unfolding resume_Some by (fastforce dest: assms(2) intro: assms(3))

lemma exec_lengths: "exec M n ops \<rho> s = Some (out, u) \<Longrightarrow> well_nested ops l t \<Longrightarrow> outcome_lengths l t out"
proof (induction ops arbitrary: \<rho> s out u l t rule: traverse_induct)
  case (Operation c rs xs ops)
  show ?case
  proof (cases "c = Return")
    case False
    with Operation.prems obtain ys t' where k: "resume rs \<rho> (exec M n ops) (Some (Yielded ys, t')) = Some (out, u)"
      by (auto simp: bind_eq_Some_conv)
    show ?thesis by (rule resume_lengths [OF k]) (use Operation in auto)
  qed (use Operation.prems in auto)
next
  case (Loop i q init ps body rs ops)
  let ?f = "\<lambda>ws t. Option.bind (bind_vars ps ws \<rho>) (\<lambda>\<rho>. exec M n body \<rho> t)"
  from Loop.prems(1) obtain vs where k: "resume rs \<rho> (exec M n ops) (run_loop M n q \<rho> ?f vs s) = Some (out, u)"
    by (auto simp: bind_eq_Some_conv)
  show ?case
    by (rule resume_lengths [OF k]) (use Loop run_loop_outcome [of M n q \<rho> ?f vs s] in \<open>fastforce+\<close>)
next
  case (IfElse i c T E rs ops)
  from IfElse.prems(1) obtain v where
    k: "resume rs \<rho> (exec M n ops) (if m_true M v then exec M n T \<rho> s else exec M n E \<rho> s) = Some (out, u)"
    by (auto simp: bind_eq_Some_conv)
  show ?case
  proof (rule resume_lengths [OF k])
    fix o' t' assume o': "(if m_true M v then exec M n T \<rho> s else exec M n E \<rho> s) = Some (o', t')" "\<forall>ys. o' \<noteq> Yielded ys"
    then have "outcome_lengths l (Some rs) o'" using IfElse.IH(1,2) IfElse.prems(2) by (auto split: if_splits)
    then show "outcome_lengths l t o'" using o'(2) by (cases o') auto
  qed (use IfElse in auto)
next
  case (TileFold i k ids xs ps body rs ops)
  from TileFold.prems(1) obtain ys where c: "resume rs \<rho> (exec M n ops) (Some (Yielded ys, s)) = Some (out, u)"
    by (auto simp: bind_eq_Some_conv)
  show ?case by (rule resume_lengths [OF c]) (use TileFold in auto)
qed (auto simp: bind_eq_Some_conv simp del: lookups_simps dest: lookups_length)

section \<open>Refined blocks\<close>

lemma defined_append: "defined_vars (xs @ ys) = defined_vars xs @ defined_vars ys"
  by (induction xs rule: traverse_induct) simp_all


definition refines :: "('v, 's) machine \<Rightarrow> nat \<Rightarrow> var set \<Rightarrow> ir_op list \<Rightarrow> ir_op list \<Rightarrow> bool" where
  "refines M n N ops ops' \<longleftrightarrow> (\<forall>\<rho> s r. dom \<rho> \<subseteq> N \<longrightarrow> exec M n ops \<rho> s = Some r \<longrightarrow> exec M n ops' \<rho> s = Some r)"

lemma refinesD: "refines M n N ops ops' \<Longrightarrow> exec M n ops \<rho> s = Some r \<Longrightarrow> dom \<rho> \<subseteq> N \<Longrightarrow> exec M n ops' \<rho> s = Some r"
  unfolding refines_def by blast

lemma dom_upds: "dom \<rho> \<subseteq> N \<Longrightarrow> set xs \<subseteq> N \<Longrightarrow> dom (\<rho>(xs [\<mapsto>] vs)) \<subseteq> N"
  using set_take_subset [of "length vs" xs] by auto

lemma refines_cons:
  assumes op: "\<not> leaves_block op" "\<not> leaves_block op'" "result_vars op' = result_vars op" and N: "set (result_vars op) \<subseteq> N"
    and step: "\<And>\<rho> s x. dom \<rho> \<subseteq> N \<Longrightarrow> step_op M n op \<rho> s = Some x \<Longrightarrow> step_op M n op' \<rho> s = Some x" and ops: "refines M n N ops ops'"
  shows "refines M n N (op # ops) (op' # ops')"
  unfolding refines_def
proof (intro allI impI)
  fix \<rho> s r assume d: "dom \<rho> \<subseteq> N" and x: "exec M n (op # ops) \<rho> s = Some r"
  obtain out u where r: "r = (out, u)" by (cases r)
  have h: "passes_yields (\<lambda>out. out)" by (auto simp: passes_yields_def)
  show "exec M n (op' # ops') \<rho> s = Some r"
    unfolding r
  proof (rule step_changed [OF h op x [unfolded r]])
    fix ys t assume "exec M n ops (\<rho>(result_vars op [\<mapsto>] ys)) t = Some (out, u)"
    then show "exec M n ops' (\<rho>(result_vars op [\<mapsto>] ys)) t = Some (out, u)"
      by (rule refinesD [OF ops _ dom_upds [OF d N]])
  qed (use step [OF d] in blast)
qed

lemma loop_refines:
  assumes "refines M n N body body'" and "set ps \<subseteq> N" and d: "dom \<rho> \<subseteq> N" and x: "step_op M n (Loop i r init ps body rs) \<rho> s = Some x"
  shows "step_op M n (Loop i r init ps body' rs) \<rho> s = Some x"
proof -
  let ?f = "\<lambda>ws t. Option.bind (bind_vars ps ws \<rho>) (\<lambda>\<rho>. exec M n body \<rho> t)"
  let ?g = "\<lambda>ws t. Option.bind (bind_vars ps ws \<rho>) (\<lambda>\<rho>. exec M n body' \<rho> t)"
  from x obtain vs where v: "lookups \<rho> init = Some vs" and f: "run_loop M n r \<rho> ?f vs s = Some x"
    by (auto simp: step_op_def bind_eq_Some_conv)
  have fg: "?g ws t = Some q" if "?f ws t = Some q" for ws t q
    using that refinesD [OF assms(1) _ dom_upds [OF d assms(2)]] by (auto simp: bind_eq_Some_conv bind_vars_Some)
  have fol: "follows [] \<rho> \<rho>" by (simp add: follows_Nil)
  have "run_loop M n (map_option (\<lambda>(a, b, c). (get_var [] a, get_var [] b, get_var [] c)) r) \<rho> ?g vs s = Some x"
    by (rule run_loop_mono [where f = ?f, OF _ fol f]) (rule fg)
  moreover have "map_option (\<lambda>(a, b, c). (get_var [] a, get_var [] b, get_var [] c)) r = r" by (cases r) auto
  ultimately show ?thesis using v by (simp add: step_op_def)
qed

lemma if_refines:
  assumes "refines M n N T T'" "refines M n N E E'" and "dom \<rho> \<subseteq> N" and "step_op M n (IfElse i c T E rs) \<rho> s = Some x"
  shows "step_op M n (IfElse i c T' E' rs) \<rho> s = Some x"
  using assms(4) refinesD [OF assms(1) _ assms(3)] refinesD [OF assms(2) _ assms(3)]
  by (cases "\<rho> c") (simp_all add: step_op_def split: if_splits)

lemma fold_refines:
  assumes "refines M n N body body'" and "set ps \<subseteq> N" and d: "dom \<rho> \<subseteq> N" and x: "step_op M n (TileFold i k ids xs ps body rs) \<rho> s = Some x"
  shows "step_op M n (TileFold i k ids xs ps body' rs) \<rho> s = Some x"
proof -
  let ?f = "\<lambda>l a e. Option.bind (bind_vars ps (a @ e) \<rho>) (\<lambda>\<rho>. yielded l (exec M n body \<rho> s))"
  let ?g = "\<lambda>l a e. Option.bind (bind_vars ps (a @ e) \<rho>) (\<lambda>\<rho>. yielded l (exec M n body' \<rho> s))"
  from x obtain vs ys where v: "lookups \<rho> xs = Some vs" "fold_tiles M k (?f (length vs)) ids vs = Some ys"
    and x': "x = (Yielded ys, s)" by (auto simp: step_op_def bind_eq_Some_conv)
  have fg: "?g l a e = Some b" if "?f l a e = Some b" for l a e b
  proof -
    from that obtain \<rho>1 where b: "bind_vars ps (a @ e) \<rho> = Some \<rho>1" "yielded l (exec M n body \<rho>1 s) = Some b"
      unfolding bind_eq_Some_conv by blast
    then obtain q where q: "exec M n body \<rho>1 s = Some q" by (auto simp: yielded_def split: option.splits)
    have "\<rho>1 = \<rho>(ps [\<mapsto>] (a @ e))" using b(1) by (simp add: bind_vars_Some)
    then have "dom \<rho>1 \<subseteq> N" using dom_upds [OF d assms(2)] by blast
    then have "exec M n body' \<rho>1 s = Some q" by (rule refinesD [OF assms(1) q])
    then show ?thesis using b q by simp
  qed
  have "fold_tiles M k (?g (length vs)) ids vs = Some ys"
    by (rule fold_tiles_mono [where g = "?f (length vs)", OF _ v(2)]) (rule fg)
  then show ?thesis using v(1) x' by (simp add: step_op_def)
qed

text \<open>What a lowering of a block promises; \<open>N\<close> are the names of the program at the start.\<close>

definition lowers :: "('v, 's) machine \<Rightarrow> nat \<Rightarrow> var set \<Rightarrow> ir_op list lowering \<Rightarrow> ir_op list \<Rightarrow> bool" where
  "lowers M n N low ops \<longleftrightarrow> (\<forall>st. low_ok st \<longrightarrow> N \<subseteq> low_names st \<longrightarrow> (\<exists>ops' st'. low st = (Inr ops', st') \<and> low_ok st' \<and>
     low_names st \<subseteq> low_names st' \<and> set (defined_vars ops') \<subseteq> set (defined_vars ops) \<union> (low_names st' - low_names st) \<and>
     refines M n N ops ops'))"

lemma lowersI:
  assumes "\<And>st. low_ok st \<Longrightarrow> N \<subseteq> low_names st \<Longrightarrow> \<exists>ops' st'. low st = (Inr ops', st') \<and> low_ok st' \<and>
     low_names st \<subseteq> low_names st' \<and> set (defined_vars ops') \<subseteq> set (defined_vars ops) \<union> (low_names st' - low_names st) \<and>
     refines M n N ops ops'"
  shows "lowers M n N low ops"
  using assms unfolding lowers_def by blast

lemma lowersE:
  assumes "lowers M n N low ops" and "low_ok st" and "N \<subseteq> low_names st"
  obtains ops' st' where "low st = (Inr ops', st')" and "low_ok st'" and "low_names st \<subseteq> low_names st'"
    and "set (defined_vars ops') \<subseteq> set (defined_vars ops) \<union> (low_names st' - low_names st)" and "refines M n N ops ops'"
  using assms unfolding lowers_def by blast

lemma lowers_jump:
  assumes "lowers M n N low ops" and op: "op = Continue vs \<or> op = Break vs \<or> op = EndBranch vs"
    and low': "\<And>st. low' st = bindE low (\<lambda>ops'. retE (op # ops')) st"
  shows "lowers M n N low' (op # ops)"
proof (rule lowersI)
  fix st assume st: "low_ok st" "N \<subseteq> low_names st"
  from assms(1) st obtain ops' st' where 1: "low st = (Inr ops', st')" "low_ok st'" "low_names st \<subseteq> low_names st'"
    "set (defined_vars ops') \<subseteq> set (defined_vars ops) \<union> (low_names st' - low_names st)" by (rule lowersE)
  have "refines M n N (op # ops) (op # ops')" using op by (auto simp: refines_def)
  then show "\<exists>ops' st'. low' st = (Inr ops', st') \<and> low_ok st' \<and> low_names st \<subseteq> low_names st' \<and>
      set (defined_vars ops') \<subseteq> set (defined_vars (op # ops)) \<union> (low_names st' - low_names st) \<and> refines M n N (op # ops) ops'"
    using 1 op by (intro exI [of _ "op # ops'"] exI [of _ st']) (auto simp: low' bindE_def retE_def)
qed

lemma lowers_Operation:
  assumes "lowers M n N low ops" and N: "set rs \<subseteq> N" and low': "\<And>st. low' st = bindE low (\<lambda>ops'. retE (Operation c rs xs # ops')) st"
  shows "lowers M n N low' (Operation c rs xs # ops)"
proof (rule lowersI)
  fix st assume st: "low_ok st" "N \<subseteq> low_names st"
  from assms(1) st obtain ops' st' where 1: "low st = (Inr ops', st')" "low_ok st'" "low_names st \<subseteq> low_names st'"
    "set (defined_vars ops') \<subseteq> set (defined_vars ops) \<union> (low_names st' - low_names st)" "refines M n N ops ops'" by (rule lowersE)
  have "refines M n N (Operation c rs xs # ops) (Operation c rs xs # ops')"
    by (rule refines_cons) (use 1(5) N in auto)
  then show "\<exists>ops' st'. low' st = (Inr ops', st') \<and> low_ok st' \<and> low_names st \<subseteq> low_names st' \<and>
      set (defined_vars ops') \<subseteq> set (defined_vars (Operation c rs xs # ops)) \<union> (low_names st' - low_names st) \<and>
      refines M n N (Operation c rs xs # ops) ops'"
    using 1 by (intro exI [of _ "Operation c rs xs # ops'"] exI [of _ st']) (auto simp: low' bindE_def retE_def)
qed

lemma lowers_IfElse:
  assumes T: "lowers M n N lowT T" and E: "lowers M n N lowE E" and ops: "lowers M n N low ops" and N: "set rs \<subseteq> N"
    and low': "\<And>st. low' st = bindE lowT (\<lambda>T'. bindE lowE (\<lambda>E'. bindE low (\<lambda>ops'. retE (IfElse i c T' E' rs # ops')))) st"
  shows "lowers M n N low' (IfElse i c T E rs # ops)"
proof (rule lowersI)
  fix st assume st: "low_ok st" "N \<subseteq> low_names st"
  from T st obtain T' s1 where 1: "lowT st = (Inr T', s1)" "low_ok s1" "low_names st \<subseteq> low_names s1"
    "set (defined_vars T') \<subseteq> set (defined_vars T) \<union> (low_names s1 - low_names st)" "refines M n N T T'" by (rule lowersE)
  have N1: "N \<subseteq> low_names s1" using st(2) 1(3) by blast
  from E 1(2) N1 obtain E' s2 where 2: "lowE s1 = (Inr E', s2)" "low_ok s2" "low_names s1 \<subseteq> low_names s2"
    "set (defined_vars E') \<subseteq> set (defined_vars E) \<union> (low_names s2 - low_names s1)" "refines M n N E E'" by (rule lowersE)
  have N2: "N \<subseteq> low_names s2" using N1 2(3) by blast
  from ops 2(2) N2 obtain ops' s3 where 3: "low s2 = (Inr ops', s3)" "low_ok s3" "low_names s2 \<subseteq> low_names s3"
    "set (defined_vars ops') \<subseteq> set (defined_vars ops) \<union> (low_names s3 - low_names s2)" "refines M n N ops ops'" by (rule lowersE)
  have "refines M n N (IfElse i c T E rs # ops) (IfElse i c T' E' rs # ops')"
    by (rule refines_cons [OF _ _ _ _ if_refines [OF 1(5) 2(5)] 3(5)]) (use N in auto)
  then show "\<exists>ops' st'. low' st = (Inr ops', st') \<and> low_ok st' \<and> low_names st \<subseteq> low_names st' \<and>
      set (defined_vars ops') \<subseteq> set (defined_vars (IfElse i c T E rs # ops)) \<union> (low_names st' - low_names st) \<and>
      refines M n N (IfElse i c T E rs # ops) ops'"
    using 1(1,3,4) 2(1,3,4) 3(1-4) by (intro exI [of _ "IfElse i c T' E' rs # ops'"] exI [of _ s3]) (auto simp: low' bindE_def retE_def)
qed

lemma lowers_TileFold:
  assumes body: "lowers M n N lowB body" and ops: "lowers M n N low ops" and N: "set rs \<union> set ps \<subseteq> N"
    and low': "\<And>st. low' st = bindE lowB (\<lambda>body'. bindE low (\<lambda>ops'. retE (TileFold i k ids xs ps body' rs # ops'))) st"
  shows "lowers M n N low' (TileFold i k ids xs ps body rs # ops)"
proof (rule lowersI)
  fix st assume st: "low_ok st" "N \<subseteq> low_names st"
  from body st obtain body' s1 where 1: "lowB st = (Inr body', s1)" "low_ok s1" "low_names st \<subseteq> low_names s1"
    "set (defined_vars body') \<subseteq> set (defined_vars body) \<union> (low_names s1 - low_names st)" "refines M n N body body'" by (rule lowersE)
  have N1: "N \<subseteq> low_names s1" using st(2) 1(3) by blast
  from ops 1(2) N1 obtain ops' s2 where 2: "low s1 = (Inr ops', s2)" "low_ok s2" "low_names s1 \<subseteq> low_names s2"
    "set (defined_vars ops') \<subseteq> set (defined_vars ops) \<union> (low_names s2 - low_names s1)" "refines M n N ops ops'" by (rule lowersE)
  have "refines M n N (TileFold i k ids xs ps body rs # ops) (TileFold i k ids xs ps body' rs # ops')"
    by (rule refines_cons [OF _ _ _ _ fold_refines [OF 1(5)] 2(5)]) (use N in auto)
  then show "\<exists>ops' st'. low' st = (Inr ops', st') \<and> low_ok st' \<and> low_names st \<subseteq> low_names st' \<and>
      set (defined_vars ops') \<subseteq> set (defined_vars (TileFold i k ids xs ps body rs # ops)) \<union> (low_names st' - low_names st) \<and>
      refines M n N (TileFold i k ids xs ps body rs # ops) ops'"
    using 1(1,3,4) 2(1-4) by (intro exI [of _ "TileFold i k ids xs ps body' rs # ops'"] exI [of _ s2]) (auto simp: low' bindE_def retE_def)
qed

text \<open>A loop: \<open>F\<close> makes the new loop if the body needs one.\<close>

lemma lowers_Loop:
  assumes body: "lowers M n N lowB body" and ops: "lowers M n N low ops" and N: "set rs \<union> set ps \<union> set (defined_vars body) \<subseteq> N"
    and low': "\<And>st. low' st = bindE lowB (\<lambda>body'. bindE (if P body' then F body' else retE [Loop i r init ps body' rs])
      (\<lambda>new. bindE low (\<lambda>ops'. retE (new @ ops')))) st"
    and F: "\<And>body' st0 st. lowB st0 = (Inr body', st) \<Longrightarrow> P body' \<Longrightarrow> low_ok st \<Longrightarrow> N \<subseteq> low_names st \<Longrightarrow> refines M n N body body' \<Longrightarrow>
      set (defined_vars body') \<subseteq> set (defined_vars body) \<union> (low_names st - N) \<Longrightarrow> \<exists>new st'. F body' st = (Inr new, st') \<and> low_ok st' \<and> low_names st \<subseteq> low_names st' \<and>
      set (defined_vars new) \<subseteq> set rs \<union> set ps \<union> set (defined_vars body') \<union> (low_names st' - low_names st) \<and>
      (\<forall>ops'. refines M n N ops ops' \<longrightarrow> refines M n N (Loop i r init ps body rs # ops) (new @ ops'))"
  shows "lowers M n N low' (Loop i r init ps body rs # ops)"
proof (rule lowersI)
  fix st assume st: "low_ok st" "N \<subseteq> low_names st"
  from body st obtain body' s1 where 1: "lowB st = (Inr body', s1)" "low_ok s1" "low_names st \<subseteq> low_names s1"
    "set (defined_vars body') \<subseteq> set (defined_vars body) \<union> (low_names s1 - low_names st)" "refines M n N body body'" by (rule lowersE)
  have N1: "N \<subseteq> low_names s1" and B: "set (defined_vars body') \<subseteq> set (defined_vars body) \<union> (low_names s1 - N)"
    using st(2) 1(3,4) by blast+
  let ?new = "if P body' then F body' else retE [Loop i r init ps body' rs]"
  obtain new s2 where 2: "?new s1 = (Inr new, s2)" "low_ok s2" "low_names s1 \<subseteq> low_names s2"
    "set (defined_vars new) \<subseteq> set rs \<union> set ps \<union> set (defined_vars body') \<union> (low_names s2 - low_names s1)"
    "\<And>ops'. refines M n N ops ops' \<Longrightarrow> refines M n N (Loop i r init ps body rs # ops) (new @ ops')"
  proof (cases "P body'")
    case True
    with F [OF 1(1) True 1(2) N1 1(5) B] show ?thesis using that by (auto simp: if_P)
  next
    case False
    have "refines M n N (Loop i r init ps body rs # ops) ([Loop i r init ps body' rs] @ ops')" if "refines M n N ops ops'" for ops'
      unfolding append_Cons append_Nil by (rule refines_cons [OF _ _ _ _ loop_refines [OF 1(5)] that]) (use N in auto)
    then show ?thesis using that [of "[Loop i r init ps body' rs]" s1] False 1(2) by (auto simp: retE_def)
  qed
  have N2: "N \<subseteq> low_names s2" using N1 2(3) by blast
  from ops 2(2) N2 obtain ops' s3 where 3: "low s2 = (Inr ops', s3)" "low_ok s3" "low_names s2 \<subseteq> low_names s3"
    "set (defined_vars ops') \<subseteq> set (defined_vars ops) \<union> (low_names s3 - low_names s2)" "refines M n N ops ops'" by (rule lowersE)
  have "low' st = (Inr (new @ ops'), s3)"
    unfolding low' bindE_Inr [where m = lowB, OF 1(1)] bindE_Inr [where m = ?new, OF 2(1)] bindE_Inr [where m = low, OF 3(1)]
    by (simp add: retE_def)
  moreover have "set (defined_vars (new @ ops')) \<subseteq> set (defined_vars (Loop i r init ps body rs # ops)) \<union> (low_names s3 - low_names st)"
    unfolding defined_append defined_vars.simps set_append using 1(3,4) 2(3,4) 3(3,4) by blast
  ultimately show "\<exists>ops' st'. low' st = (Inr ops', st') \<and> low_ok st' \<and> low_names st \<subseteq> low_names st' \<and>
      set (defined_vars ops') \<subseteq> set (defined_vars (Loop i r init ps body rs # ops)) \<union> (low_names st' - low_names st) \<and>
      refines M n N (Loop i r init ps body rs # ops) ops'"
    using 1(3) 2(3) 3(2,3) 2(5) [OF 3(5)] by blast
qed

section \<open>Programs to lower\<close>

lemma traverse_append: "traverse (xs @ ys) = traverse xs @ traverse ys"
  by (induction xs rule: traverse_induct) simp_all

definition lowerable :: "ir_context \<Rightarrow> ir_op list \<Rightarrow> bool" where
  "lowerable ctx root \<longleftrightarrow> well_nested root None None \<and> distinct (defined_vars root) \<and>
     set (defined_vars root) \<subseteq> ctx_names ctx \<and> fst ` set (typemap ctx) \<subseteq> ctx_names ctx"

lemma lowered_runs:
  assumes "lowers M n (ctx_names ctx) low root" and "lowerable ctx root" and "dom \<rho> \<subseteq> ctx_names ctx"
    and "exec M n root \<rho> s = Some r"
  shows "\<exists>root' st. low \<lparr>lower_ctx = ctx, next_op = k\<rparr> = (Inr root', st) \<and> exec M n root' \<rho> s = Some r"
proof -
  let ?st = "\<lparr>lower_ctx = ctx, next_op = k\<rparr>"
  have "low_ok ?st" "ctx_names ctx \<subseteq> low_names ?st"
    using assms(2) by (simp_all add: low_ok_def low_names_def lowerable_def ctx_names_def)
  from lowersE [OF assms(1) this] obtain root' st where "low ?st = (Inr root', st)" "refines M n (ctx_names ctx) root root'" by metis
  then show ?thesis using refinesD [OF _ assms(4,3)] by blast
qed

text \<open>The machine over integers, with the constants \<^verbatim>\<open>False\<close> and \<^verbatim>\<open>True\<close>.\<close>

fun flag_step :: "op_class \<Rightarrow> int list \<Rightarrow> int list \<Rightarrow> (int list \<times> int list) option" where
  "flag_step (TypedConst (PyBool b)) [] s = Some ([of_bool b], s)"
| "flag_step c vs s = int_step c vs s"

definition flag_machine :: "(int, int list) machine" where
  "flag_machine = int_machine\<lparr>m_step := flag_step\<rparr>"

lemma flag_machine_consts: "bool_consts flag_machine 0 1"
  by (simp add: bool_consts_def flag_machine_def int_machine_def)

definition names_context :: "var list \<Rightarrow> ir_context" where
  "names_context xs = \<lparr>all_vars = List.map (\<lambda>x. (x, x)) xs, counter_by_name = [], temp_counter = 0, typemap = [],
     constants = [], list_base_ptr = []\<rparr>"

end
