(* ===== verification/ForBreak.thy ===== *)
theory ForBreak
  imports LowerFlags
begin

text \<open>
  \<^verbatim>\<open>src/cuda/tile/_passes/for_loop_break.py\<close>: a \<^verbatim>\<open>break\<close> in a \<^verbatim>\<open>for\<close> loop becomes a \<^verbatim>\<open>continue\<close> that sets a flag, and the
  iterations that are left skip the body.
\<close>

section \<open>The pass\<close>

fun has_break :: "ir_op list \<Rightarrow> bool" where
  "has_break [] \<longleftrightarrow> False"
| "has_break (Break vs # ops) \<longleftrightarrow> True"
| "has_break (IfElse i c T E rs # ops) \<longleftrightarrow> has_break T \<or> has_break E \<or> has_break ops"
| "has_break (op # ops) \<longleftrightarrow> has_break ops"

fun rewrite_breaks :: "var \<Rightarrow> var \<Rightarrow> ir_op list \<Rightarrow> ir_op list" where
  "rewrite_breaks done_body done_flag [] = []"
| "rewrite_breaks done_body done_flag (Break vs # ops) = Continue (vs @ [done_flag]) # rewrite_breaks done_body done_flag ops"
| "rewrite_breaks done_body done_flag (Continue vs # ops) = Continue (vs @ [done_body]) # rewrite_breaks done_body done_flag ops"
| "rewrite_breaks done_body done_flag (IfElse i c T E rs # ops) =
     IfElse i c (rewrite_breaks done_body done_flag T) (rewrite_breaks done_body done_flag E) rs
       # rewrite_breaks done_body done_flag ops"
| "rewrite_breaks done_body done_flag (op # ops) = op # rewrite_breaks done_body done_flag ops"

definition append_continue :: "nat \<Rightarrow> var \<Rightarrow> var list \<Rightarrow> ir_op list \<Rightarrow> ir_op list" where
  "append_continue i done_body params body = IfElse i done_body [Continue (tl params)] [EndBranch []] [] # body"

definition with_done_flag :: "nat \<Rightarrow> (var \<times> var \<times> var) option \<Rightarrow> var list \<Rightarrow> var list \<Rightarrow> ir_op list \<Rightarrow> var list \<Rightarrow> ir_op list lowering" where
  "with_done_flag i r init ps body rs =
     bindE bool_temp (\<lambda>done_init. bindE bool_temp (\<lambda>done_true. bindE bool_temp (\<lambda>done_body. bindE bool_temp (\<lambda>done_result.
     bindE new_op_id (\<lambda>k. retE [
       Operation (TypedConst (PyBool False)) [done_init] [], Operation (TypedConst (PyBool True)) [done_true] [],
       Loop i r (init @ [done_init]) (ps @ [done_body])
         (append_continue k done_body (ps @ [done_body]) (rewrite_breaks done_body done_true body)) (rs @ [done_result])])))))"

fun lower_for_with_break :: "ir_op list \<Rightarrow> ir_op list lowering" where
  "lower_for_with_break [] = retE []"
| "lower_for_with_break (Loop i r init ps body rs # ops) = bindE (lower_for_with_break body) (\<lambda>body'.
     bindE (if r \<noteq> None \<and> has_break body' then with_done_flag i r init ps body' rs else retE [Loop i r init ps body' rs])
     (\<lambda>new. bindE (lower_for_with_break ops) (\<lambda>ops'. retE (new @ ops'))))"
| "lower_for_with_break (IfElse i c T E rs # ops) = bindE (lower_for_with_break T) (\<lambda>T'. bindE (lower_for_with_break E) (\<lambda>E'.
     bindE (lower_for_with_break ops) (\<lambda>ops'. retE (IfElse i c T' E' rs # ops'))))"
| "lower_for_with_break (TileFold i k ids xs ps body rs # ops) = bindE (lower_for_with_break body) (\<lambda>body'.
     bindE (lower_for_with_break ops) (\<lambda>ops'. retE (TileFold i k ids xs ps body' rs # ops')))"
| "lower_for_with_break (op # ops) = bindE (lower_for_with_break ops) (\<lambda>ops'. retE (op # ops'))"

section \<open>The rewritten body\<close>

lemma rewrite_defines: "defined_vars (rewrite_breaks db dt ops) = defined_vars ops"
  by (induction ops rule: traverse_induct) simp_all


fun done_outcome :: "'v \<Rightarrow> 'v \<Rightarrow> 'v outcome \<Rightarrow> 'v outcome" where
  "done_outcome f t (Continued ws) = Continued (ws @ [f])"
| "done_outcome f t (Broke ws) = Continued (ws @ [t])"
| "done_outcome f t out = out"

lemma done_passes_yields:
  fixes f t :: 'v
  shows "passes_yields (done_outcome f t)"
  unfolding passes_yields_def
proof (intro conjI allI impI)
  fix out :: "'v outcome" and ys assume "out \<noteq> Fell \<and> (\<forall>ys. out \<noteq> Yielded ys)"
  then show "done_outcome f t out \<noteq> Fell" "done_outcome f t out \<noteq> Yielded ys" by (cases out; simp)+
qed simp

lemma rewrite_breaks_run:
  "exec M n ops \<rho> s = Some (out, u) \<Longrightarrow> \<rho> \<subseteq>\<^sub>m \<rho>' \<Longrightarrow> \<rho>' db = Some f \<Longrightarrow> \<rho>' dt = Some t \<Longrightarrow>
    db \<notin> set (defined_vars ops) \<Longrightarrow> dt \<notin> set (defined_vars ops) \<Longrightarrow>
    exec M n (rewrite_breaks db dt ops) \<rho>' s = Some (done_outcome f t out, u)"
proof (induction ops arbitrary: \<rho> \<rho>' s out u rule: traverse_induct)
  case (Operation c rs xs ops)
  show ?case
    unfolding rewrite_breaks.simps
  proof (rule step_changed [OF done_passes_yields _ _ refl Operation.prems(1)])
    fix o' t' assume s: "step_op M n (Operation c rs xs) \<rho> s = Some (o', t')"
    then have "done_outcome f t o' = o'" by (auto dest: step_outcome)
    then show "step_op M n (Operation c rs xs) \<rho>' s = Some (done_outcome f t o', t')" using step_larger [OF s Operation.prems(2)] by simp
  qed (use Operation in \<open>auto intro!: Operation.IH map_le_upds simp: map_upds_apply_nontin\<close>)
next
  case (Loop i r init ps body rs ops)
  show ?case
    unfolding rewrite_breaks.simps
  proof (rule step_changed [OF done_passes_yields _ _ refl Loop.prems(1)])
    fix o' t' assume s: "step_op M n (Loop i r init ps body rs) \<rho> s = Some (o', t')"
    then have "done_outcome f t o' = o'" by (auto dest: step_outcome)
    then show "step_op M n (Loop i r init ps body rs) \<rho>' s = Some (done_outcome f t o', t')" using step_larger [OF s Loop.prems(2)] by simp
  qed (use Loop in \<open>auto intro!: Loop.IH(2) map_le_upds simp: map_upds_apply_nontin\<close>)
next
  case (TileFold i k ids xs ps body rs ops)
  show ?case
    unfolding rewrite_breaks.simps
  proof (rule step_changed [OF done_passes_yields _ _ refl TileFold.prems(1)])
    fix o' t' assume s: "step_op M n (TileFold i k ids xs ps body rs) \<rho> s = Some (o', t')"
    then have "done_outcome f t o' = o'" by (auto dest: step_outcome)
    then show "step_op M n (TileFold i k ids xs ps body rs) \<rho>' s = Some (done_outcome f t o', t')" using step_larger [OF s TileFold.prems(2)] by simp
  qed (use TileFold in \<open>auto intro!: TileFold.IH(2) map_le_upds simp: map_upds_apply_nontin\<close>)
next
  case (IfElse i c T E rs ops)
  show ?case
    unfolding rewrite_breaks.simps
  proof (rule step_changed [OF done_passes_yields _ _ _ IfElse.prems(1)])
    fix o' t' assume "step_op M n (IfElse i c T E rs) \<rho> s = Some (o', t')"
    then obtain v where v: "\<rho> c = Some v" "(if m_true M v then exec M n T \<rho> s else exec M n E \<rho> s) = Some (o', t')"
      by (auto simp: step_op_def bind_eq_Some_conv)
    then show "step_op M n (IfElse i c (rewrite_breaks db dt T) (rewrite_breaks db dt E) rs) \<rho>' s = Some (done_outcome f t o', t')"
      using IfElse.IH(1) [OF _ IfElse.prems(2-4)] IfElse.IH(2) [OF _ IfElse.prems(2-4)] IfElse.prems(5,6) map_le_at [OF IfElse.prems(2) v(1)]
      by (simp add: step_op_def split: if_splits)
  qed (use IfElse in \<open>auto intro!: IfElse.IH(3) map_le_upds simp: map_upds_apply_nontin\<close>)
qed (auto simp: bind_eq_Some_conv lookups_append simp del: lookups_simps dest: map_le_lookups)

section \<open>The loop\<close>

lemma append_continue_run:
  assumes "\<rho> db = Some v"
  shows "\<not> m_true M v \<Longrightarrow> exec M n (append_continue i db ps body) \<rho> s = exec M n body \<rho> s"
    and "m_true M v \<Longrightarrow> lookups \<rho> (tl ps) = Some ws \<Longrightarrow> exec M n (append_continue i db ps body) \<rho> s = Some (Continued ws, s)"
  using assms by (simp_all add: append_continue_def resume_def bind_vars_def)

lemma for_skipped:
  assumes "\<And>i vs s. length vs = k \<Longrightarrow> g (i # vs @ [t]) s = Some (Continued (vs @ [t]), s)"
  shows "length vs = k \<Longrightarrow> for_loop g is (vs @ [t]) s = Some (Yielded (vs @ [t]), s)"
  by (induction "is") (simp_all add: assms)

lemma for_done:
  assumes step: "\<And>i vs s out u. length vs = k \<Longrightarrow> h (i # vs) s = Some (out, u) \<Longrightarrow>
      g (i # vs @ [f]) s = Some (done_outcome f t out, u) \<and> (\<forall>ws. out = Continued ws \<or> out = Broke ws \<longrightarrow> length ws = k)"
    and skip: "\<And>i vs s. length vs = k \<Longrightarrow> g (i # vs @ [t]) s = Some (Continued (vs @ [t]), s)"
  shows "for_loop h is vs s = Some (out, u) \<Longrightarrow> length vs = k \<Longrightarrow>
    (out = Returned \<and> for_loop g is (vs @ [f]) s = Some (Returned, u)) \<or>
    (\<exists>ys d. out = Yielded ys \<and> length ys = k \<and> for_loop g is (vs @ [f]) s = Some (Yielded (ys @ [d]), u))"
proof (induction "is" arbitrary: vs s)
  case (Cons i "is")
  then obtain o' s' where o': "h (i # vs) s = Some (o', s')" by (auto split: option.splits)
  note g = step [OF Cons.prems(2) o']
  show ?case
  proof (cases o')
    case (Continued ws)
    then show ?thesis using Cons.IH [of ws s'] Cons.prems(1) o' g by simp
  next
    case (Broke ws)
    have "for_loop g is (ws @ [t]) s' = Some (Yielded (ws @ [t]), s')"
      by (rule for_skipped [OF skip]) (use g Broke in simp_all)
    then show ?thesis using Cons.prems(1) o' g Broke by auto
  qed (use Cons.prems(1) o' g in auto)
qed auto

lemma body_done:
  fixes i :: nat
  assumes b: "bool_consts M f t" and ps: "distinct (ps @ [db])" "dt \<notin> set (ps @ [db])" "ps \<noteq> []"
    and new: "db \<notin> set (defined_vars body')" "dt \<notin> set (defined_vars body')" "db \<notin> dom \<rho>" "\<rho> \<subseteq>\<^sub>m \<rho>1" "\<rho>1 dt = Some t"
    and len: "length ps = Suc (length vs)"
    and nest: "well_nested body (Some \<lparr>loop_is_for = True, loop_body_vars = tl ps, loop_result_vars = rs\<rparr>) None"
    and body: "\<And>ws s q. length ps = length ws \<Longrightarrow> exec M n body (\<rho>(ps [\<mapsto>] ws)) s = Some q \<Longrightarrow> exec M n body' (\<rho>(ps [\<mapsto>] ws)) s = Some q"
  defines "g \<equiv> \<lambda>ws s. Option.bind (bind_vars (ps @ [db]) ws \<rho>1)
      (\<lambda>\<rho>. exec M n (append_continue i db (ps @ [db]) (rewrite_breaks db dt body')) \<rho> s)"
  shows "Option.bind (bind_vars ps (j # vs) \<rho>) (\<lambda>\<rho>. exec M n body \<rho> s) = Some (out, u) \<Longrightarrow>
      g (j # vs @ [f]) s = Some (done_outcome f t out, u) \<and> (\<forall>ws. out = Continued ws \<or> out = Broke ws \<longrightarrow> length ws = length (tl ps))"
    and "g (j # vs @ [t]) s = Some (Continued (vs @ [t]), s)"
proof -
  have snoc: "\<rho>1(ps @ [db] [\<mapsto>] j # vs @ [d]) = (\<rho>1(ps [\<mapsto>] j # vs))(db \<mapsto> d)" for d
    using map_upds_snoc [of ps "j # vs" \<rho>1 db d] len by simp
  have bnd: "bind_vars (ps @ [db]) (j # vs @ [d]) \<rho>1 = Some ((\<rho>1(ps [\<mapsto>] j # vs))(db \<mapsto> d))" for d
    unfolding bind_vars_def using len by (simp only: snoc) simp
  {
    assume x: "Option.bind (bind_vars ps (j # vs) \<rho>) (\<lambda>\<rho>. exec M n body \<rho> s) = Some (out, u)"
    then have e: "exec M n body (\<rho>(ps [\<mapsto>] j # vs)) s = Some (out, u)" by (auto simp: bind_eq_Some_conv bind_vars_Some)
    have le: "\<rho>(ps [\<mapsto>] j # vs) \<subseteq>\<^sub>m (\<rho>1(ps [\<mapsto>] j # vs))(db \<mapsto> f)"
      by (rule map_le_fresh [OF map_le_upds [OF new(4)]]) (use len ps new(3) in auto)
    have "exec M n (rewrite_breaks db dt body') ((\<rho>1(ps [\<mapsto>] j # vs))(db \<mapsto> f)) s = Some (done_outcome f t out, u)"
      by (rule rewrite_breaks_run [OF body [OF _ e] le]) (use len ps new in \<open>auto simp: map_upds_apply_nontin\<close>)
    then have "g (j # vs @ [f]) s = Some (done_outcome f t out, u)"
      unfolding g_def bnd using b by (simp add: append_continue_run(1) bool_consts_def)
    moreover have "length ws = length (tl ps)" if "out = Continued ws \<or> out = Broke ws" for ws
      using exec_lengths [OF e nest] that by auto
    ultimately show "g (j # vs @ [f]) s = Some (done_outcome f t out, u) \<and> (\<forall>ws. out = Continued ws \<or> out = Broke ws \<longrightarrow> length ws = length (tl ps))"
      by blast
  }
  let ?\<rho> = "(\<rho>1(ps [\<mapsto>] j # vs))(db \<mapsto> t)"
  obtain p qs where q: "ps = p # qs" using ps(3) by (cases ps) auto
  have "lookups ?\<rho> (qs @ [db]) = Some (vs @ [t])"
    unfolding lookups_append using lookups_upds [of qs vs "(\<rho>1(p \<mapsto> j))"] ps(1) len q
    by (simp add: lookups_other)
  then show "g (j # vs @ [t]) s = Some (Continued (vs @ [t]), s)"
    unfolding g_def bnd using b q by (simp add: append_continue_run(2) bool_consts_def)
qed

lemma with_done_flag_run:
  assumes "low_ok st"
  obtains di dt db dr k st' where "with_done_flag i r init ps body rs st = (Inr [
       Operation (TypedConst (PyBool False)) [di] [], Operation (TypedConst (PyBool True)) [dt] [],
       Loop i r (init @ [di]) (ps @ [db]) (append_continue k db (ps @ [db]) (rewrite_breaks db dt body)) (rs @ [dr])], st')"
    and "low_ok st'" and "low_names st' = {di, dt, db, dr} \<union> low_names st" and "{di, dt, db, dr} \<inter> low_names st = {}"
    and "distinct [di, dt, db, dr]"
proof -
  from bool_temp_fresh [OF assms] obtain di s1 where 1: "bool_temp st = (Inr di, s1)" "di \<notin> low_names st"
    "low_names s1 = insert di (low_names st)" "low_ok s1" .
  from bool_temp_fresh [OF 1(4)] obtain dt s2 where 2: "bool_temp s1 = (Inr dt, s2)" "dt \<notin> low_names s1"
    "low_names s2 = insert dt (low_names s1)" "low_ok s2" .
  from bool_temp_fresh [OF 2(4)] obtain db s3 where 3: "bool_temp s2 = (Inr db, s3)" "db \<notin> low_names s2"
    "low_names s3 = insert db (low_names s2)" "low_ok s3" .
  from bool_temp_fresh [OF 3(4)] obtain dr s4 where 4: "bool_temp s3 = (Inr dr, s4)" "dr \<notin> low_names s3"
    "low_names s4 = insert dr (low_names s3)" "low_ok s4" .
  show thesis
    by (rule that [of di dt db _ dr "s4\<lparr>next_op := Suc (next_op s4)\<rparr>"])
      (use 1 2 3 4 in \<open>auto simp: with_done_flag_def bindE_def new_op_id_run retE_def\<close>)
qed

lemma done_loop_refines:
  assumes b: "bool_consts M f t" and r: "r = Some (a1, a2, a3)"
    and N: "set ps \<union> set rs \<union> set (defined_vars body) \<subseteq> N" "{di, dt, db, dr} \<inter> N = {}" "distinct [di, dt, db, dr]"
      "db \<notin> set (defined_vars body')" "dt \<notin> set (defined_vars body')"
    and ps: "distinct ps" "ps \<noteq> []" "length init = length (tl ps)" "length (tl ps) = length rs"
    and nest: "well_nested body (Some \<lparr>loop_is_for = True, loop_body_vars = tl ps, loop_result_vars = rs\<rparr>) None"
    and body: "refines M n N body body'" and ops: "refines M n N ops ops'"
  shows "refines M n N (Loop i r init ps body rs # ops)
    (Operation (TypedConst (PyBool False)) [di] [] # Operation (TypedConst (PyBool True)) [dt] [] #
     Loop i r (init @ [di]) (ps @ [db]) (append_continue k db (ps @ [db]) (rewrite_breaks db dt body')) (rs @ [dr]) # ops')"
  unfolding refines_def exec_flags [OF b]
proof (intro allI impI)
  fix \<rho> s q assume d: "dom \<rho> \<subseteq> N" and x: "exec M n (Loop i r init ps body rs # ops) \<rho> s = Some q"
  let ?\<rho> = "\<rho>(di \<mapsto> f, dt \<mapsto> t)"
  let ?h = "\<lambda>ws t. Option.bind (bind_vars ps ws \<rho>) (\<lambda>\<rho>. exec M n body \<rho> t)"
  let ?g = "\<lambda>ws s. Option.bind (bind_vars (ps @ [db]) ws ?\<rho>)
      (\<lambda>\<rho>. exec M n (append_continue k db (ps @ [db]) (rewrite_breaks db dt body')) \<rho> s)"
  have le: "\<rho> \<subseteq>\<^sub>m ?\<rho>" by (rule map_le_fresh [OF map_le_fresh]) (use d N(2) in auto)
  from x obtain vs where v: "lookups \<rho> init = Some vs" and c: "resume rs \<rho> (exec M n ops) (run_loop M n r \<rho> ?h vs s) = Some q"
    by (auto simp: bind_eq_Some_conv)
  have vs: "length vs = length (tl ps)" using lookups_length [OF v] ps(3) by simp
  from c r obtain w1 w2 w3 "is" o' u where w: "\<rho> a1 = Some w1" "\<rho> a2 = Some w2" "\<rho> a3 = Some w3" "m_range M w1 w2 w3 = Some is"
    and h: "for_loop ?h is vs s = Some (o', u)" by (auto simp: resume_Some run_loop_def bind_eq_Some_conv)
  have fresh: "distinct (ps @ [db])" "dt \<notin> set (ps @ [db])" "db \<notin> dom \<rho>" "?\<rho> dt = Some t"
    using ps(1) N(1,2,3) d by auto
  have len: "length ps = Suc (length us)" if "length us = length (tl ps)" for us :: "'a list"
    using that ps(2) by (cases ps) auto
  have bd: "\<And>ws s q. exec M n body (\<rho>(ps [\<mapsto>] ws)) s = Some q \<Longrightarrow> exec M n body' (\<rho>(ps [\<mapsto>] ws)) s = Some q"
    by (rule refinesD [OF body _ dom_upds [OF d]]) (use N(1) in auto)
  note bdone = body_done [OF b fresh(1,2) ps(2) N(4,5) fresh(3) le fresh(4) len nest bd]
  have run: "(o' = Returned \<and> for_loop ?g is (vs @ [f]) s = Some (Returned, u)) \<or>
      (\<exists>ys e. o' = Yielded ys \<and> length ys = length (tl ps) \<and> for_loop ?g is (vs @ [f]) s = Some (Yielded (ys @ [e]), u))"
    by (rule for_done [OF _ _ h vs]) (use bdone in blast)+
  have inits: "lookups ?\<rho> (init @ [di]) = Some (vs @ [f])"
    using map_le_lookups [OF le v] N(3) by (simp add: lookups_append)
  have range: "run_loop M n r ?\<rho> ?g (vs @ [f]) s = for_loop ?g is (vs @ [f]) s"
    using w map_le_at [OF le] r by (simp add: run_loop_def)
  have c': "resume rs \<rho> (exec M n ops) (Some (o', u)) = Some q"
    using c h w r by (simp add: run_loop_def)
  have new: "exec M n (Loop i r (init @ [di]) (ps @ [db]) (append_continue k db (ps @ [db]) (rewrite_breaks db dt body')) (rs @ [dr]) # ops')
      ?\<rho> s = resume (rs @ [dr]) ?\<rho> (exec M n ops') (for_loop ?g is (vs @ [f]) s)"
    by (simp only: exec.simps inits bind.bind_lunit range)
  from run show "exec M n (Loop i r (init @ [di]) (ps @ [db]) (append_continue k db (ps @ [db]) (rewrite_breaks db dt body')) (rs @ [dr]) # ops')
      ?\<rho> s = Some q"
    unfolding new
  proof (elim disjE exE conjE)
    assume o': "o' = Returned" "for_loop ?g is (vs @ [f]) s = Some (Returned, u)"
    show "resume (rs @ [dr]) ?\<rho> (exec M n ops') (for_loop ?g is (vs @ [f]) s) = Some q"
      unfolding o'(2) using c' o'(1) by (auto simp: resume_def)
  next
    fix ys e assume y: "o' = Yielded ys" "length ys = length (tl ps)" "for_loop ?g is (vs @ [f]) s = Some (Yielded (ys @ [e]), u)"
    have rest: "exec M n ops (\<rho>(rs [\<mapsto>] ys)) u = Some q"
      using c' y(1,2) ps(4) by (simp add: resume_def bind_vars_def)
    have "exec M n ops' (\<rho>(rs [\<mapsto>] ys)) u = Some q"
      by (rule refinesD [OF ops rest dom_upds [OF d]]) (use N(1) in auto)
    moreover have "\<rho>(rs [\<mapsto>] ys) \<subseteq>\<^sub>m (?\<rho>(rs [\<mapsto>] ys))(dr \<mapsto> e)"
      by (rule map_le_fresh [OF map_le_upds [OF le]]) (use y(2) ps(4) d N(1,2) in auto)
    ultimately have "exec M n ops' ((?\<rho>(rs [\<mapsto>] ys))(dr \<mapsto> e)) u = Some q" by (rule exec_larger)
    then show "resume (rs @ [dr]) ?\<rho> (exec M n ops') (for_loop ?g is (vs @ [f]) s) = Some q"
      unfolding y(3) using y(2) ps(4) map_upds_snoc [of rs ys ?\<rho> dr e] by (simp add: resume_def bind_vars_def del: map_upds_append1)
  qed
qed

section \<open>The result of the pass\<close>

theorem break_lowers:
  assumes b: "bool_consts M f t"
  shows "well_nested ops l tg \<Longrightarrow> distinct (defined_vars ops) \<Longrightarrow> set (defined_vars ops) \<subseteq> N \<Longrightarrow>
    lowers M n N (lower_for_with_break ops) ops"
proof (induction ops arbitrary: l tg rule: traverse_induct)
  case Nil
  show ?case by (rule lowersI) (auto simp: retE_def refines_def)
next
  case (Operation c rs xs ops)
  then show ?case by (intro lowers_Operation [where low = "lower_for_with_break ops"]) auto
next
  case (Loop i r init ps body rs ops)
  let ?li = "\<lparr>loop_is_for = (r \<noteq> None), loop_body_vars = body_vars r ps, loop_result_vars = rs\<rparr>"
  let ?P = "\<lambda>body'. r \<noteq> None \<and> has_break body'" and ?F = "\<lambda>body'. with_done_flag i r init ps body' rs"
  show ?case
  proof (rule lowers_Loop [where P = ?P and F = ?F])
    show "lowers M n N (lower_for_with_break body) body" by (rule Loop.IH(1) [of "Some ?li" None]) (use Loop.prems in auto)
    show "lowers M n N (lower_for_with_break ops) ops" by (rule Loop.IH(2)) (use Loop.prems in auto)
    show "set rs \<union> set ps \<union> set (defined_vars body) \<subseteq> N" using Loop.prems by auto
  next
    fix body' st assume p: "r \<noteq> None \<and> has_break body'" and st: "low_ok st" "N \<subseteq> low_names st"
      and body: "refines M n N body body'" "set (defined_vars body') \<subseteq> set (defined_vars body) \<union> (low_names st - N)"
    from st(1) obtain di dt db dr k st' where w: "with_done_flag i r init ps body' rs st = (Inr [
        Operation (TypedConst (PyBool False)) [di] [], Operation (TypedConst (PyBool True)) [dt] [],
        Loop i r (init @ [di]) (ps @ [db]) (append_continue k db (ps @ [db]) (rewrite_breaks db dt body')) (rs @ [dr])], st')"
      "low_ok st'" "low_names st' = {di, dt, db, dr} \<union> low_names st" "{di, dt, db, dr} \<inter> low_names st = {}" "distinct [di, dt, db, dr]"
      by (rule with_done_flag_run)
    let ?new = "[Operation (TypedConst (PyBool False)) [di] [], Operation (TypedConst (PyBool True)) [dt] [],
      Loop i r (init @ [di]) (ps @ [db]) (append_continue k db (ps @ [db]) (rewrite_breaks db dt body')) (rs @ [dr])]"
    obtain a1 a2 a3 where r: "r = Some (a1, a2, a3)" using p by auto
    have B: "set (defined_vars body') \<subseteq> low_names st" using body(2) Loop.prems(3) st(2) by auto
    have "refines M n N (Loop i r init ps body rs # ops) (?new @ ops')" if ops: "refines M n N ops ops'" for ops'
      unfolding append_Cons append_Nil
    proof (rule done_loop_refines [OF b r])
      show "{di, dt, db, dr} \<inter> N = {}" using w(4) st(2) by blast
      show "db \<notin> set (defined_vars body')" "dt \<notin> set (defined_vars body')" using B w(4) by blast+
    qed (use Loop.prems r w(5) body(1) ops in \<open>auto simp: body_vars_def\<close>)
    moreover have "set (defined_vars ?new) \<subseteq> set rs \<union> set ps \<union> set (defined_vars body') \<union> (low_names st' - low_names st)"
      using w(3,4) by (auto simp: append_continue_def rewrite_defines)
    ultimately show "\<exists>new st'. with_done_flag i r init ps body' rs st = (Inr new, st') \<and> low_ok st' \<and> low_names st \<subseteq> low_names st' \<and>
        set (defined_vars new) \<subseteq> set rs \<union> set ps \<union> set (defined_vars body') \<union> (low_names st' - low_names st) \<and>
        (\<forall>ops'. refines M n N ops ops' \<longrightarrow> refines M n N (Loop i r init ps body rs # ops) (new @ ops'))"
      using w(1,2,3) by blast
  qed simp
next
  case (IfElse i c T E rs ops)
  show ?case
  proof (rule lowers_IfElse)
    show "lowers M n N (lower_for_with_break T) T" by (rule IfElse.IH(1) [of l "Some rs"]) (use IfElse.prems in auto)
    show "lowers M n N (lower_for_with_break E) E" by (rule IfElse.IH(2) [of l "Some rs"]) (use IfElse.prems in auto)
    show "lowers M n N (lower_for_with_break ops) ops" by (rule IfElse.IH(3)) (use IfElse.prems in auto)
  qed (use IfElse.prems in auto)
next
  case (TileFold i k ids xs ps body rs ops)
  show ?case
  proof (rule lowers_TileFold)
    show "lowers M n N (lower_for_with_break body) body" by (rule TileFold.IH(1) [of None "Some rs"]) (use TileFold.prems in auto)
    show "lowers M n N (lower_for_with_break ops) ops" by (rule TileFold.IH(2)) (use TileFold.prems in auto)
  qed (use TileFold.prems in auto)
next
  case (Continue vs ops)
  then show ?case by (intro lowers_jump [where low = "lower_for_with_break ops"]) auto
next
  case (Break vs ops)
  then show ?case by (intro lowers_jump [where low = "lower_for_with_break ops"]) auto
next
  case (EndBranch vs ops)
  then show ?case by (intro lowers_jump [where low = "lower_for_with_break ops"]) auto
qed

fun for_with_break :: "ir_op \<Rightarrow> bool" where
  "for_with_break (Loop i r init ps body rs) \<longleftrightarrow> r \<noteq> None \<and> has_break body"
| "for_with_break _ \<longleftrightarrow> False"

lemma rewritten_no_break: "\<not> has_break (rewrite_breaks db dt ops)"
  by (induction ops rule: traverse_induct) simp_all

lemma rewritten_loops: "op \<in> set (traverse (rewrite_breaks db dt ops)) \<Longrightarrow> for_with_break op \<Longrightarrow> op \<in> set (traverse ops)"
  by (induction ops rule: traverse_induct) auto

lemma lowered_no_break:
  "lower_for_with_break ops st = (Inr ops', st') \<Longrightarrow> op \<in> set (traverse ops') \<Longrightarrow> \<not> for_with_break op"
proof (induction ops arbitrary: st st' ops' op rule: traverse_induct)
  case (Loop i r init ps body rs ops)
  from Loop.prems(1) obtain body' s1 new s2 ops'' where 1: "lower_for_with_break body st = (Inr body', s1)"
    and 2: "(if r \<noteq> None \<and> has_break body' then with_done_flag i r init ps body' rs else retE [Loop i r init ps body' rs]) s1 = (Inr new, s2)"
    and 3: "lower_for_with_break ops s2 = (Inr ops'', st')" "ops' = new @ ops''"
    by (auto simp: bindE_Inr_iff retE_def)
  have body: "\<not> for_with_break x" if "x \<in> set (traverse body')" for x using Loop.IH(1) [OF 1 that] .
  have "\<not> for_with_break x" if "x \<in> set (traverse new)" for x
  proof (cases "r \<noteq> None \<and> has_break body'")
    case True
    from 2 True obtain di dt db dr k where "new = [Operation (TypedConst (PyBool False)) [di] [], Operation (TypedConst (PyBool True)) [dt] [],
        Loop i r (init @ [di]) (ps @ [db]) (append_continue k db (ps @ [db]) (rewrite_breaks db dt body')) (rs @ [dr])]"
      by (auto simp: with_done_flag_def bindE_Inr_iff retE_def)
    then show ?thesis using that body rewritten_loops [of x db dt body'] rewritten_no_break [of db dt body']
      by (auto simp: append_continue_def)
  next
    case False
    then show ?thesis using 2 that body by (auto simp: retE_def split: if_splits)
  qed
  then show ?case using Loop.IH(2) [OF 3(1)] Loop.prems(2) 3(2) by (auto simp: traverse_append)
next
  case (IfElse i c T E rs ops)
  then obtain T' s1 E' s2 ops'' where "lower_for_with_break T st = (Inr T', s1)" "lower_for_with_break E s1 = (Inr E', s2)"
    "lower_for_with_break ops s2 = (Inr ops'', st')" "ops' = IfElse i c T' E' rs # ops''"
    by (auto simp: bindE_Inr_iff retE_def)
  then show ?case using IfElse.IH IfElse.prems(2) by auto
next
  case (TileFold i k ids xs ps body rs ops)
  then obtain body' s1 ops'' where "lower_for_with_break body st = (Inr body', s1)"
    "lower_for_with_break ops s1 = (Inr ops'', st')" "ops' = TileFold i k ids xs ps body' rs # ops''"
    by (auto simp: bindE_Inr_iff retE_def)
  then show ?case using TileFold.IH TileFold.prems(2) by auto
qed (fastforce simp: bindE_Inr_iff retE_def)+

text \<open>C12. Lowering of \<^verbatim>\<open>break\<close>: on a well-nested program in SSA form \<^verbatim>\<open>lower_for_with_break\<close> does not raise, no \<^verbatim>\<open>for\<close> loop
  of the new program has a \<^verbatim>\<open>break\<close> in its body or in branches of it, and each run of the original is a run of the new
  program with the same outcome, values and state: the iterations after a \<^verbatim>\<open>break\<close> have no effect, and the loop hands on the
  values of the \<^verbatim>\<open>break\<close>, for nested loops, branches and code after a jump.\<close>

theorem lower_break_preserves_runs:
  assumes "lowerable ctx root" and "bool_consts M f t" and "dom \<rho> \<subseteq> ctx_names ctx" and "exec M n root \<rho> s = Some r"
  shows "\<exists>root' st. lower_for_with_break root \<lparr>lower_ctx = ctx, next_op = k\<rparr> = (Inr root', st) \<and>
    (\<forall>op \<in> set (traverse root'). \<not> for_with_break op) \<and> exec M n root' \<rho> s = Some r"
proof -
  have "lowers M n (ctx_names ctx) (lower_for_with_break root) root"
    by (rule break_lowers [OF assms(2)]) (use assms(1) in \<open>auto simp: lowerable_def\<close>)
  from lowered_runs [OF this assms(1,3,4)] lowered_no_break show ?thesis by metis
qed

text \<open>\<^verbatim>\<open>for i in range(5): acc += i; if acc >= 3: break; print(acc)\<close>, then \<^verbatim>\<open>print(acc)\<close>.\<close>

definition break_program :: "ir_op list" where
  "break_program = [
     Operation (TypedConst (PyInt 0)) [''zero''] [], Operation (TypedConst (PyInt 1)) [''one''] [],
     Operation (TypedConst (PyInt 3)) [''three''] [], Operation (TypedConst (PyInt 5)) [''five''] [],
     Loop 0 (Some (''zero'', ''five'', ''one'')) [''zero''] [''i'', ''acc'']
       [Operation (RawBinaryArithmeticOperation ''add'' None False) [''s''] [''acc'', ''i''],
        Operation (RawComparisonOperation ''ge'') [''c''] [''s'', ''three''],
        IfElse 1 ''c'' [Break [''s'']] [EndBranch []] [],
        Operation print_op [] [''s''], Continue [''s'']] [''res''],
     Operation print_op [] [''res''], Operation Return [] []]"

lemma lower_break_preserves_runs_witness:
  "\<exists>root' st. lower_for_with_break break_program \<lparr>lower_ctx = names_context (defined_vars break_program), next_op = 2\<rparr> = (Inr root', st) \<and>
    (\<forall>op \<in> set (traverse root'). \<not> for_with_break op) \<and> exec flag_machine 9 root' (\<lambda>_. None) [] = Some (Returned, [0, 1, 3])"
proof (rule lower_break_preserves_runs [OF _ flag_machine_consts])
  show "lowerable (names_context (defined_vars break_program)) break_program" by code_simp
  show "exec flag_machine 9 break_program (\<lambda>_. None) [] = Some (Returned, [0, 1, 3])" by code_simp
qed simp

end
