(* ===== verification/ForReturn.thy ===== *)
theory ForReturn
  imports LowerFlags
begin

text \<open>
  \<^verbatim>\<open>src/cuda/tile/_passes/for_loop_return.py\<close>: a \<^verbatim>\<open>return\<close> in a \<^verbatim>\<open>for\<close> loop, or in a loop that stands in one, becomes a
  \<^verbatim>\<open>break\<close> that sets a flag, and a branch behind the loop returns if the flag is set.
\<close>

section \<open>The pass\<close>

fun has_return :: "ir_op list \<Rightarrow> bool" where
  "has_return [] \<longleftrightarrow> False"
| "has_return (Operation c rs xs # ops) \<longleftrightarrow> c = Return \<or> has_return ops"
| "has_return (IfElse i c T E rs # ops) \<longleftrightarrow> has_return T \<or> has_return E \<or> has_return ops"
| "has_return (op # ops) \<longleftrightarrow> has_return ops"

fun rewrite_returns :: "var list \<Rightarrow> var \<Rightarrow> var \<Rightarrow> ir_op list \<Rightarrow> ir_op list" where
  "rewrite_returns returned_values returned_body returned_flag [] = []"
| "rewrite_returns returned_values returned_body returned_flag (Operation c rs xs # ops) =
     (if c = Return then Break (returned_values @ [returned_flag]) else Operation c rs xs)
       # rewrite_returns returned_values returned_body returned_flag ops"
| "rewrite_returns returned_values returned_body returned_flag (Break vs # ops) =
     Break (vs @ [returned_body]) # rewrite_returns returned_values returned_body returned_flag ops"
| "rewrite_returns returned_values returned_body returned_flag (Continue vs # ops) =
     Continue (vs @ [returned_body]) # rewrite_returns returned_values returned_body returned_flag ops"
| "rewrite_returns returned_values returned_body returned_flag (IfElse i c T E rs # ops) =
     IfElse i c (rewrite_returns returned_values returned_body returned_flag T)
       (rewrite_returns returned_values returned_body returned_flag E) rs
       # rewrite_returns returned_values returned_body returned_flag ops"
| "rewrite_returns returned_values returned_body returned_flag (op # ops) =
     op # rewrite_returns returned_values returned_body returned_flag ops"

definition with_returned_flag :: "nat \<Rightarrow> (var \<times> var \<times> var) option \<Rightarrow> var list \<Rightarrow> var list \<Rightarrow> ir_op list \<Rightarrow> var list \<Rightarrow> ir_op list lowering" where
  "with_returned_flag i r init ps body rs =
     bindE bool_temp (\<lambda>returned_init. bindE bool_temp (\<lambda>returned_true. bindE bool_temp (\<lambda>returned_body.
     bindE bool_temp (\<lambda>returned_result. bindE new_op_id (\<lambda>k. retE [
       Operation (TypedConst (PyBool False)) [returned_init] [], Operation (TypedConst (PyBool True)) [returned_true] [],
       Loop i r (init @ [returned_init]) (ps @ [returned_body])
         (rewrite_returns (body_vars r ps) returned_body returned_true body) (rs @ [returned_result]),
       IfElse k returned_result [Operation Return [] []] [EndBranch []] []])))))"

fun lower_for_with_return :: "bool \<Rightarrow> ir_op list \<Rightarrow> ir_op list lowering" where
  "lower_for_with_return in_for [] = retE []"
| "lower_for_with_return in_for (Loop i r init ps body rs # ops) = bindE (lower_for_with_return (in_for \<or> r \<noteq> None) body) (\<lambda>body'.
     bindE (if (r \<noteq> None \<or> in_for) \<and> has_return body' then with_returned_flag i r init ps body' rs else retE [Loop i r init ps body' rs])
     (\<lambda>new. bindE (lower_for_with_return in_for ops) (\<lambda>ops'. retE (new @ ops'))))"
| "lower_for_with_return in_for (IfElse i c T E rs # ops) = bindE (lower_for_with_return in_for T) (\<lambda>T'.
     bindE (lower_for_with_return in_for E) (\<lambda>E'. bindE (lower_for_with_return in_for ops) (\<lambda>ops'. retE (IfElse i c T' E' rs # ops'))))"
| "lower_for_with_return in_for (TileFold i k ids xs ps body rs # ops) = bindE (lower_for_with_return in_for body) (\<lambda>body'.
     bindE (lower_for_with_return in_for ops) (\<lambda>ops'. retE (TileFold i k ids xs ps body' rs # ops')))"
| "lower_for_with_return in_for (op # ops) = bindE (lower_for_with_return in_for ops) (\<lambda>ops'. retE (op # ops'))"

section \<open>Blocks that do not return\<close>

fun loop_with_return :: "ir_op \<Rightarrow> bool" where
  "loop_with_return (Loop i r init ps body rs) \<longleftrightarrow> has_return body"
| "loop_with_return _ \<longleftrightarrow> False"

definition quiet_loops :: "ir_op list \<Rightarrow> bool" where
  "quiet_loops ops \<longleftrightarrow> (\<forall>op \<in> set (traverse ops). \<not> loop_with_return op)"

lemma quiet_simps [simp]:
  "quiet_loops []"
  "quiet_loops (Operation c rs xs # ops) \<longleftrightarrow> quiet_loops ops"
  "quiet_loops (Loop i r init ps body rs # ops) \<longleftrightarrow> quiet_loops body \<and> \<not> has_return body \<and> quiet_loops ops"
  "quiet_loops (IfElse i v T E rs # ops) \<longleftrightarrow> quiet_loops T \<and> quiet_loops E \<and> quiet_loops ops"
  "quiet_loops (TileFold i k ids ys ps body rs # ops) \<longleftrightarrow> quiet_loops body \<and> quiet_loops ops"
  "quiet_loops (Continue vs # ops) \<longleftrightarrow> quiet_loops ops"
  "quiet_loops (Break vs # ops) \<longleftrightarrow> quiet_loops ops"
  "quiet_loops (EndBranch vs # ops) \<longleftrightarrow> quiet_loops ops"
  by (auto simp: quiet_loops_def)

lemma run_loop_returned:
  assumes "run_loop M n r \<rho> f vs s = Some (Returned, u)"
  shows "\<exists>ws s' u'. f ws s' = Some (Returned, u')"
proof -
  have "while_loop f n vs s = Some (Returned, u) \<Longrightarrow> \<exists>ws s' u'. f ws s' = Some (Returned, u')"
    by (induction f n vs s rule: while_loop.induct) (auto split: option.splits outcome.splits prod.splits)
  moreover have "for_loop f is vs s = Some (Returned, u) \<Longrightarrow> \<exists>ws s' u'. f ws s' = Some (Returned, u')" for "is"
    by (induction f "is" vs s rule: for_loop.induct) (auto split: option.splits outcome.splits prod.splits)
  ultimately show ?thesis using assms by (auto simp: run_loop_def bind_eq_Some_conv split: option.splits prod.splits)
qed

lemma resume_not_returned:
  assumes "resume rs \<rho> k r = Some (out, u)" and "\<And>t. r \<noteq> Some (Returned, t)" and "\<And>\<rho>' t u. k \<rho>' t \<noteq> Some (Returned, u)"
  shows "out \<noteq> Returned"
  using assms by (auto simp: resume_Some)

lemma never_returns: "\<not> has_return ops \<Longrightarrow> quiet_loops ops \<Longrightarrow> exec M n ops \<rho> s \<noteq> Some (Returned, u)"
proof (induction ops arbitrary: \<rho> s u rule: traverse_induct)
  case (Operation c rs xs ops)
  have "out \<noteq> Returned" if "resume rs \<rho> (exec M n ops) (step_op M n (Operation c rs xs) \<rho> s) = Some (out, u)" for out
    by (rule resume_not_returned [OF that]) (use Operation in \<open>auto simp: step_op_def bind_eq_Some_conv\<close>)
  then show ?case using exec_step [of "Operation c rs xs" M n ops \<rho> s] by auto
next
  case (Loop i r init ps body rs ops)
  have "step_op M n (Loop i r init ps body rs) \<rho> s \<noteq> Some (Returned, t)" for t
    using Loop.IH(1) Loop.prems run_loop_returned by (fastforce simp: step_op_def bind_eq_Some_conv)
  then have "out \<noteq> Returned" if "resume rs \<rho> (exec M n ops) (step_op M n (Loop i r init ps body rs) \<rho> s) = Some (out, u)" for out
    using resume_not_returned [OF that] Loop.IH(2) Loop.prems by auto
  then show ?case using exec_step [of "Loop i r init ps body rs" M n ops \<rho> s] by auto
next
  case (IfElse i c T E rs ops)
  have "step_op M n (IfElse i c T E rs) \<rho> s \<noteq> Some (Returned, t)" for t
    using IfElse.IH(1,2) IfElse.prems by (auto simp: step_op_def bind_eq_Some_conv)
  then have "out \<noteq> Returned" if "resume rs \<rho> (exec M n ops) (step_op M n (IfElse i c T E rs) \<rho> s) = Some (out, u)" for out
    using resume_not_returned [OF that] IfElse.IH(3) IfElse.prems by auto
  then show ?case using exec_step [of "IfElse i c T E rs" M n ops \<rho> s] by auto
next
  case (TileFold i k ids xs ps body rs ops)
  have "out \<noteq> Returned" if "resume rs \<rho> (exec M n ops) (step_op M n (TileFold i k ids xs ps body rs) \<rho> s) = Some (out, u)" for out
    by (rule resume_not_returned [OF that]) (use TileFold in \<open>auto simp: step_op_def bind_eq_Some_conv\<close>)
  then show ?case using exec_step [of "TileFold i k ids xs ps body rs" M n ops \<rho> s] by auto
qed (auto simp: bind_eq_Some_conv)

section \<open>The rewritten body\<close>

lemma rewrite_returns_defines: "set (defined_vars (rewrite_returns rv rb rf ops)) \<subseteq> set (defined_vars ops)"
  by (induction ops rule: traverse_induct) auto

fun returned_outcome :: "'v list \<Rightarrow> 'v \<Rightarrow> 'v \<Rightarrow> 'v outcome \<Rightarrow> 'v outcome" where
  "returned_outcome vals f t (Continued ws) = Continued (ws @ [f])"
| "returned_outcome vals f t (Broke ws) = Broke (ws @ [f])"
| "returned_outcome vals f t Returned = Broke (vals @ [t])"
| "returned_outcome vals f t out = out"

lemma returned_passes_yields:
  fixes f t :: 'v
  shows "passes_yields (returned_outcome vals f t)"
  unfolding passes_yields_def
proof (intro conjI allI impI)
  fix out :: "'v outcome" and ys assume "out \<noteq> Fell \<and> (\<forall>ys. out \<noteq> Yielded ys)"
  then show "returned_outcome vals f t out \<noteq> Fell" "returned_outcome vals f t out \<noteq> Yielded ys" by (cases out; simp)+
qed simp

lemma lookups_upds_other: "set xs \<inter> set ys = {} \<Longrightarrow> lookups (\<rho>(ys [\<mapsto>] vs)) xs = lookups \<rho> xs"
  by (rule lookups_cong, rule map_upds_apply_nontin) blast

lemma rewrite_returns_run:
  "exec M n ops \<rho> s = Some (out, u) \<Longrightarrow> \<rho> \<subseteq>\<^sub>m \<rho>' \<Longrightarrow> \<rho>' rb = Some f \<Longrightarrow> \<rho>' rf = Some t \<Longrightarrow> lookups \<rho>' rv = Some vals \<Longrightarrow>
    ({rb, rf} \<union> set rv) \<inter> set (defined_vars ops) = {} \<Longrightarrow> quiet_loops ops \<Longrightarrow>
    exec M n (rewrite_returns rv rb rf ops) \<rho>' s = Some (returned_outcome vals f t out, u)"
proof (induction ops arbitrary: \<rho> \<rho>' s out u rule: traverse_induct)
  case (Operation c rs xs ops)
  show ?case
  proof (cases "c = Return")
    case True
    then show ?thesis using Operation.prems by (auto simp: lookups_append)
  next
    case False
    have "exec M n (Operation c rs xs # rewrite_returns rv rb rf ops) \<rho>' s = Some (returned_outcome vals f t out, u)"
    proof (rule step_changed [OF returned_passes_yields _ _ refl Operation.prems(1)])
      fix o' t' assume s: "step_op M n (Operation c rs xs) \<rho> s = Some (o', t')"
      then have "returned_outcome vals f t o' = o'" using False by (auto simp: step_op_def bind_eq_Some_conv)
      then show "step_op M n (Operation c rs xs) \<rho>' s = Some (returned_outcome vals f t o', t')"
        using step_larger [OF s Operation.prems(2)] by simp
    next
      fix ys t' assume "length (result_vars (Operation c rs xs)) = length ys"
        and e: "exec M n ops (\<rho>(result_vars (Operation c rs xs) [\<mapsto>] ys)) t' = Some (out, u)"
      then show "exec M n (rewrite_returns rv rb rf ops) (\<rho>'(result_vars (Operation c rs xs) [\<mapsto>] ys)) t' =
          Some (returned_outcome vals f t out, u)"
        using Operation.prems lookups_upds_other [of rv rs \<rho>' ys]
        by (intro Operation.IH [OF e]) (auto intro!: map_le_upds simp: map_upds_apply_nontin)
    qed simp_all
    then show ?thesis using False by simp
  qed
next
  case (Loop i r init ps body rs ops)
  show ?case
    unfolding rewrite_returns.simps
  proof (rule step_changed [OF returned_passes_yields _ _ refl Loop.prems(1)])
    fix o' t' assume s: "step_op M n (Loop i r init ps body rs) \<rho> s = Some (o', t')"
    have quiet: "\<not> has_return body" "quiet_loops body" using Loop.prems(7) by simp_all
    have "o' \<noteq> Returned"
    proof
      let ?b = "\<lambda>ws t. Option.bind (bind_vars ps ws \<rho>) (\<lambda>\<rho>. exec M n body \<rho> t)"
      assume "o' = Returned"
      then obtain vs where "run_loop M n r \<rho> ?b vs s = Some (Returned, t')"
        using s by (auto simp: step_op_def bind_eq_Some_conv)
      from run_loop_returned [OF this] obtain ws s' u' where "?b ws s' = Some (Returned, u')" by blast
      then obtain \<rho>1 where "exec M n body \<rho>1 s' = Some (Returned, u')" by (auto simp: bind_eq_Some_conv)
      then show False using never_returns [OF quiet, of M n \<rho>1 s' u'] by simp
    qed
    then have "returned_outcome vals f t o' = o'" using step_outcome [OF s] by auto
    then show "step_op M n (Loop i r init ps body rs) \<rho>' s = Some (returned_outcome vals f t o', t')" using step_larger [OF s Loop.prems(2)] by simp
  next
    fix ys t' assume "length (result_vars (Loop i r init ps body rs)) = length ys"
      and e: "exec M n ops (\<rho>(result_vars (Loop i r init ps body rs) [\<mapsto>] ys)) t' = Some (out, u)"
    then show "exec M n (rewrite_returns rv rb rf ops) (\<rho>'(result_vars (Loop i r init ps body rs) [\<mapsto>] ys)) t' =
        Some (returned_outcome vals f t out, u)"
      using Loop.prems lookups_upds_other [of rv rs \<rho>' ys]
      by (intro Loop.IH(2) [OF e]) (auto intro!: map_le_upds simp: map_upds_apply_nontin)
  qed simp_all
next
  case (TileFold i k ids xs ps body rs ops)
  show ?case
    unfolding rewrite_returns.simps
  proof (rule step_changed [OF returned_passes_yields _ _ refl TileFold.prems(1)])
    fix o' t' assume s: "step_op M n (TileFold i k ids xs ps body rs) \<rho> s = Some (o', t')"
    then have "returned_outcome vals f t o' = o'" by (auto simp: step_op_def bind_eq_Some_conv)
    then show "step_op M n (TileFold i k ids xs ps body rs) \<rho>' s = Some (returned_outcome vals f t o', t')"
      using step_larger [OF s TileFold.prems(2)] by simp
  next
    fix ys t' assume "length (result_vars (TileFold i k ids xs ps body rs)) = length ys"
      and e: "exec M n ops (\<rho>(result_vars (TileFold i k ids xs ps body rs) [\<mapsto>] ys)) t' = Some (out, u)"
    then show "exec M n (rewrite_returns rv rb rf ops) (\<rho>'(result_vars (TileFold i k ids xs ps body rs) [\<mapsto>] ys)) t' =
        Some (returned_outcome vals f t out, u)"
      using TileFold.prems lookups_upds_other [of rv rs \<rho>' ys]
      by (intro TileFold.IH(2) [OF e]) (auto intro!: map_le_upds simp: map_upds_apply_nontin)
  qed simp_all
next
  case (IfElse i c T E rs ops)
  show ?case
    unfolding rewrite_returns.simps
  proof (rule step_changed [OF returned_passes_yields _ _ _ IfElse.prems(1)])
    fix o' t' assume "step_op M n (IfElse i c T E rs) \<rho> s = Some (o', t')"
    then obtain v where v: "\<rho> c = Some v" "(if m_true M v then exec M n T \<rho> s else exec M n E \<rho> s) = Some (o', t')"
      by (auto simp: step_op_def bind_eq_Some_conv)
    have "({rb, rf} \<union> set rv) \<inter> set (defined_vars T) = {}" "({rb, rf} \<union> set rv) \<inter> set (defined_vars E) = {}"
      "quiet_loops T" "quiet_loops E" using IfElse.prems(6,7) by auto
    then show "step_op M n (IfElse i c (rewrite_returns rv rb rf T) (rewrite_returns rv rb rf E) rs) \<rho>' s = Some (returned_outcome vals f t o', t')"
      using IfElse.IH(1) [OF _ IfElse.prems(2-5)] IfElse.IH(2) [OF _ IfElse.prems(2-5)] map_le_at [OF IfElse.prems(2) v(1)] v(2)
      by (simp add: step_op_def split: if_splits)
  next
    fix ys t' assume "length (result_vars (IfElse i c T E rs)) = length ys"
      and e: "exec M n ops (\<rho>(result_vars (IfElse i c T E rs) [\<mapsto>] ys)) t' = Some (out, u)"
    then show "exec M n (rewrite_returns rv rb rf ops) (\<rho>'(result_vars (IfElse i c T E rs) [\<mapsto>] ys)) t' =
        Some (returned_outcome vals f t out, u)"
      using IfElse.prems lookups_upds_other [of rv rs \<rho>' ys]
      by (intro IfElse.IH(3) [OF e]) (auto intro!: map_le_upds simp: map_upds_apply_nontin)
  qed simp_all
qed (auto simp: bind_eq_Some_conv lookups_append simp del: lookups_simps dest: map_le_lookups)

section \<open>The loop\<close>

lemma while_returned:
  assumes step: "\<And>vs s out u. length vs = k \<Longrightarrow> h vs s = Some (out, u) \<Longrightarrow> \<exists>vals. length vals = k \<and>
      g (vs @ [f]) s = Some (returned_outcome vals f t out, u) \<and> (\<forall>ws. out = Continued ws \<or> out = Broke ws \<longrightarrow> length ws = k)"
  shows "while_loop h n vs s = Some (out, u) \<Longrightarrow> length vs = k \<Longrightarrow>
    \<exists>ys. length ys = k \<and> ((out = Returned \<and> while_loop g n (vs @ [f]) s = Some (Yielded (ys @ [t]), u)) \<or>
      (out = Yielded ys \<and> while_loop g n (vs @ [f]) s = Some (Yielded (ys @ [f]), u)))"
proof (induction n arbitrary: vs s)
  case (Suc n)
  then obtain o' s' where o': "h vs s = Some (o', s')" by (auto split: option.splits)
  from step [OF Suc.prems(2) o'] obtain vals where g: "length vals = k" "g (vs @ [f]) s = Some (returned_outcome vals f t o', s')"
    "\<forall>ws. o' = Continued ws \<or> o' = Broke ws \<longrightarrow> length ws = k" by blast
  show ?case
  proof (cases o')
    case (Continued ws)
    then show ?thesis using Suc.IH [of ws s'] Suc.prems(1) o' g by simp
  qed (use Suc.prems(1) o' g in auto)
qed simp

lemma for_returned:
  assumes step: "\<And>i vs s out u. length vs = k \<Longrightarrow> h (i # vs) s = Some (out, u) \<Longrightarrow> \<exists>vals. length vals = k \<and>
      g (i # vs @ [f]) s = Some (returned_outcome vals f t out, u) \<and> (\<forall>ws. out = Continued ws \<or> out = Broke ws \<longrightarrow> length ws = k)"
  shows "for_loop h is vs s = Some (out, u) \<Longrightarrow> length vs = k \<Longrightarrow>
    \<exists>ys. length ys = k \<and> ((out = Returned \<and> for_loop g is (vs @ [f]) s = Some (Yielded (ys @ [t]), u)) \<or>
      (out = Yielded ys \<and> for_loop g is (vs @ [f]) s = Some (Yielded (ys @ [f]), u)))"
proof (induction "is" arbitrary: vs s)
  case (Cons i "is")
  then obtain o' s' where o': "h (i # vs) s = Some (o', s')" by (auto split: option.splits)
  from step [OF Cons.prems(2) o'] obtain vals where g: "length vals = k" "g (i # vs @ [f]) s = Some (returned_outcome vals f t o', s')"
    "\<forall>ws. o' = Continued ws \<or> o' = Broke ws \<longrightarrow> length ws = k" by blast
  show ?case
  proof (cases o')
    case (Continued ws)
    then show ?thesis using Cons.IH [of ws s'] Cons.prems(1) o' g by simp
  qed (use Cons.prems(1) o' g in auto)
qed auto

lemma body_returned:
  assumes ps: "distinct (ps @ [rb])" "rt \<notin> set (ps @ [rb])" "set ps \<inter> set (defined_vars body') = {}"
    and new: "rb \<notin> set (defined_vars body')" "rt \<notin> set (defined_vars body')" "rb \<notin> dom \<rho>" "\<rho> \<subseteq>\<^sub>m \<rho>1" "\<rho>1 rt = Some t"
    and nest: "well_nested body (Some li) None" and quiet: "quiet_loops body'"
    and body: "refines M n N body body'" and N: "dom \<rho> \<subseteq> N" "set ps \<subseteq> N"
    and x: "Option.bind (bind_vars ps ws \<rho>) (\<lambda>\<rho>. exec M n body \<rho> s) = Some (out, u)"
  shows "Option.bind (bind_vars (ps @ [rb]) (ws @ [f]) \<rho>1) (\<lambda>\<rho>. exec M n (rewrite_returns (body_vars r ps) rb rt body') \<rho> s) =
      Some (returned_outcome (if r = None then ws else tl ws) f t out, u)"
    and "\<forall>vs. out = Continued vs \<or> out = Broke vs \<longrightarrow> length vs = length (loop_body_vars li)"
proof -
  from x have e: "exec M n body (\<rho>(ps [\<mapsto>] ws)) s = Some (out, u)" and len: "length ps = length ws"
    by (auto simp: bind_eq_Some_conv bind_vars_Some)
  let ?\<rho> = "(\<rho>1(ps [\<mapsto>] ws))(rb \<mapsto> f)"
  have le: "\<rho>(ps [\<mapsto>] ws) \<subseteq>\<^sub>m ?\<rho>"
    by (rule map_le_fresh [OF map_le_upds [OF new(4) len]]) (use len ps new(3) in auto)
  have all: "lookups ?\<rho> ps = Some ws"
    using lookups_upds [of ps ws \<rho>1] ps(1) len by (simp add: lookups_other)
  then have rv: "lookups ?\<rho> (body_vars r ps) = Some (if r = None then ws else tl ws)"
    by (cases ps) (auto simp: body_vars_def bind_eq_Some_conv)
  have bv: "set (body_vars r ps) \<subseteq> set ps" by (cases ps) (auto simp: body_vars_def)
  have "exec M n (rewrite_returns (body_vars r ps) rb rt body') ?\<rho> s = Some (returned_outcome (if r = None then ws else tl ws) f t out, u)"
    by (rule rewrite_returns_run [OF refinesD [OF body e dom_upds [OF N]] le _ _ rv _ quiet]) (use len ps new bv in \<open>auto simp: map_upds_apply_nontin\<close>)
  moreover have "bind_vars (ps @ [rb]) (ws @ [f]) \<rho>1 = Some ?\<rho>"
    unfolding bind_vars_def using map_upds_snoc [OF len, of \<rho>1 rb f] len by simp
  ultimately show "Option.bind (bind_vars (ps @ [rb]) (ws @ [f]) \<rho>1) (\<lambda>\<rho>. exec M n (rewrite_returns (body_vars r ps) rb rt body') \<rho> s) =
      Some (returned_outcome (if r = None then ws else tl ws) f t out, u)" by simp
  show "\<forall>vs. out = Continued vs \<or> out = Broke vs \<longrightarrow> length vs = length (loop_body_vars li)"
    using exec_lengths [OF e nest] by auto
qed

lemma returned_loop_refines:
  assumes b: "bool_consts M f t"
    and N: "set ps \<union> set rs \<union> set (defined_vars body) \<subseteq> N" "{ri, rt, rb, rr} \<inter> N = {}" "distinct [ri, rt, rb, rr]"
      "rb \<notin> set (defined_vars body')" "rt \<notin> set (defined_vars body')"
    and ps: "distinct ps" "set ps \<inter> set (defined_vars body') = {}" "r \<noteq> None \<longrightarrow> ps \<noteq> []"
      "length init = length (body_vars r ps)" "length (body_vars r ps) = length rs"
    and nest: "well_nested body (Some \<lparr>loop_is_for = (r \<noteq> None), loop_body_vars = body_vars r ps, loop_result_vars = rs\<rparr>) None"
    and body: "refines M n N body body'" "quiet_loops body'" and ops: "refines M n N ops ops'"
  shows "refines M n N (Loop i r init ps body rs # ops)
    (Operation (TypedConst (PyBool False)) [ri] [] # Operation (TypedConst (PyBool True)) [rt] [] #
     Loop i r (init @ [ri]) (ps @ [rb]) (rewrite_returns (body_vars r ps) rb rt body') (rs @ [rr]) #
     IfElse k rr [Operation Return [] []] [EndBranch []] [] # ops')"
  unfolding refines_def exec_flags [OF b]
proof (intro allI impI)
  fix \<rho> s q assume d: "dom \<rho> \<subseteq> N" and x: "exec M n (Loop i r init ps body rs # ops) \<rho> s = Some q"
  let ?\<rho> = "\<rho>(ri \<mapsto> f, rt \<mapsto> t)" and ?k = "length (body_vars r ps)"
  let ?h = "\<lambda>ws t. Option.bind (bind_vars ps ws \<rho>) (\<lambda>\<rho>. exec M n body \<rho> t)"
  let ?g = "\<lambda>ws s. Option.bind (bind_vars (ps @ [rb]) ws ?\<rho>) (\<lambda>\<rho>. exec M n (rewrite_returns (body_vars r ps) rb rt body') \<rho> s)"
  let ?if = "IfElse k rr [Operation Return [] []] [EndBranch []] []"
  have le: "\<rho> \<subseteq>\<^sub>m ?\<rho>" by (rule map_le_fresh [OF map_le_fresh]) (use d N(2) in auto)
  from x obtain vs where v: "lookups \<rho> init = Some vs" and c: "resume rs \<rho> (exec M n ops) (run_loop M n r \<rho> ?h vs s) = Some q"
    by (auto simp: bind_eq_Some_conv)
  have vs: "length vs = ?k" using lookups_length [OF v] ps(4) by simp
  have fresh: "distinct (ps @ [rb])" "rt \<notin> set (ps @ [rb])" "rb \<notin> dom \<rho>" "?\<rho> rt = Some t"
    using ps(1) N(1,2,3) d by auto
  have psN: "set ps \<subseteq> N" using N(1) by simp
  note br1 = body_returned(1) [where r = r and f = f, OF fresh(1,2) ps(2) N(4,5) fresh(3) le fresh(4) nest body(2,1) d psN]
    and br2 = body_returned(2) [OF fresh(1,2) ps(2) N(4,5) fresh(3) le fresh(4) nest body(2,1) d psN]
  from c obtain o' u where h: "run_loop M n r \<rho> ?h vs s = Some (o', u)" by (auto simp: resume_Some)
  have run: "\<exists>ys. length ys = ?k \<and> ((o' = Returned \<and> run_loop M n r ?\<rho> ?g (vs @ [f]) s = Some (Yielded (ys @ [t]), u)) \<or>
      (o' = Yielded ys \<and> run_loop M n r ?\<rho> ?g (vs @ [f]) s = Some (Yielded (ys @ [f]), u)))"
  proof (cases r)
    case None
    have wl: "while_loop ?h n vs s = Some (o', u)" using h None by (simp add: run_loop_def)
    have "\<exists>ys. length ys = ?k \<and> ((o' = Returned \<and> while_loop ?g n (vs @ [f]) s = Some (Yielded (ys @ [t]), u)) \<or>
      (o' = Yielded ys \<and> while_loop ?g n (vs @ [f]) s = Some (Yielded (ys @ [f]), u)))"
    proof (rule while_returned [OF _ wl vs])
      fix ws s1 out1 u1 assume len: "length ws = ?k" and e: "?h ws s1 = Some (out1, u1)"
      show "\<exists>vals. length vals = ?k \<and> ?g (ws @ [f]) s1 = Some (returned_outcome vals f t out1, u1) \<and>
          (\<forall>ws. out1 = Continued ws \<or> out1 = Broke ws \<longrightarrow> length ws = ?k)"
        using br1 [OF e] br2 [OF e] len None by (intro exI [of _ ws]) (simp del: fun_upd_apply)
    qed
    then show ?thesis using None by (simp add: run_loop_def)
  next
    case (Some abc)
    then obtain a1 a2 a3 where r: "r = Some (a1, a2, a3)" by (cases abc) auto
    from h r obtain w1 w2 w3 "is" where w: "\<rho> a1 = Some w1" "\<rho> a2 = Some w2" "\<rho> a3 = Some w3" "m_range M w1 w2 w3 = Some is"
      and fl: "for_loop ?h is vs s = Some (o', u)" by (auto simp: run_loop_def bind_eq_Some_conv)
    have "\<exists>ys. length ys = ?k \<and> ((o' = Returned \<and> for_loop ?g is (vs @ [f]) s = Some (Yielded (ys @ [t]), u)) \<or>
      (o' = Yielded ys \<and> for_loop ?g is (vs @ [f]) s = Some (Yielded (ys @ [f]), u)))"
    proof (rule for_returned [OF _ fl vs])
      fix j ws s1 out1 u1 assume len: "length ws = ?k" and e: "?h (j # ws) s1 = Some (out1, u1)"
      show "\<exists>vals. length vals = ?k \<and> ?g (j # ws @ [f]) s1 = Some (returned_outcome vals f t out1, u1) \<and>
          (\<forall>ws. out1 = Continued ws \<or> out1 = Broke ws \<longrightarrow> length ws = ?k)"
        using br1 [OF e] br2 [OF e] len Some by (intro exI [of _ ws]) (simp del: fun_upd_apply)
    qed
    moreover have "run_loop M n r ?\<rho> ?g (vs @ [f]) s = for_loop ?g is (vs @ [f]) s"
      using w map_le_at [OF le] r by (simp add: run_loop_def)
    ultimately show ?thesis by simp
  qed
  then obtain ys e where y: "length ys = length rs" "run_loop M n r ?\<rho> ?g (vs @ [f]) s = Some (Yielded (ys @ [e]), u)"
    and o': "o' = Returned \<and> e = t \<or> o' = Yielded ys \<and> e = f" using ps(5) by auto
  let ?\<rho>2 = "(?\<rho>(rs [\<mapsto>] ys))(rr \<mapsto> e)"
  have inits: "lookups ?\<rho> (init @ [ri]) = Some (vs @ [f])"
    using map_le_lookups [OF le v] N(3) by (simp add: lookups_append)
  have new: "exec M n (Loop i r (init @ [ri]) (ps @ [rb]) (rewrite_returns (body_vars r ps) rb rt body') (rs @ [rr]) # ?if # ops') ?\<rho> s =
      resume (rs @ [rr]) ?\<rho> (exec M n (?if # ops')) (Some (Yielded (ys @ [e]), u))"
    by (simp only: exec.simps(3) inits bind.bind_lunit y(2))
  also have "\<dots> = exec M n (?if # ops') ?\<rho>2 u"
    unfolding resume_def using map_upds_snoc [of rs ys ?\<rho> rr e] y(1) by (simp add: bind_vars_def del: map_upds_append1 exec.simps)
  also have "\<dots> = Some q"
    using o'
  proof (elim disjE conjE)
    assume "o' = Returned" "e = t"
    then show ?thesis using c h b by (auto simp: resume_def bool_consts_def)
  next
    assume y': "o' = Yielded ys" "e = f"
    then have "exec M n ops (\<rho>(rs [\<mapsto>] ys)) u = Some q"
      using c h y(1) by (simp add: resume_def bind_vars_def)
    then have "exec M n ops' (\<rho>(rs [\<mapsto>] ys)) u = Some q"
      by (rule refinesD [OF ops _ dom_upds [OF d]]) (use N(1) in auto)
    moreover have "\<rho>(rs [\<mapsto>] ys) \<subseteq>\<^sub>m ?\<rho>2"
      by (rule map_le_fresh [OF map_le_upds [OF le]]) (use y(1) d N(1,2) in auto)
    ultimately have "exec M n ops' ?\<rho>2 u = Some q" by (rule exec_larger)
    then show ?thesis using y'(2) b by (simp add: resume_def bind_vars_def bool_consts_def)
  qed
  finally show "exec M n (Loop i r (init @ [ri]) (ps @ [rb]) (rewrite_returns (body_vars r ps) rb rt body') (rs @ [rr]) # ?if # ops') ?\<rho> s = Some q" .
qed

lemma with_returned_flag_run:
  assumes "low_ok st"
  obtains ri rt rb rr k st' where "with_returned_flag i r init ps body rs st = (Inr [
       Operation (TypedConst (PyBool False)) [ri] [], Operation (TypedConst (PyBool True)) [rt] [],
       Loop i r (init @ [ri]) (ps @ [rb]) (rewrite_returns (body_vars r ps) rb rt body) (rs @ [rr]),
       IfElse k rr [Operation Return [] []] [EndBranch []] []], st')"
    and "low_ok st'" and "low_names st' = {ri, rt, rb, rr} \<union> low_names st" and "{ri, rt, rb, rr} \<inter> low_names st = {}"
    and "distinct [ri, rt, rb, rr]"
proof -
  from bool_temp_fresh [OF assms] obtain ri s1 where 1: "bool_temp st = (Inr ri, s1)" "ri \<notin> low_names st"
    "low_names s1 = insert ri (low_names st)" "low_ok s1" .
  from bool_temp_fresh [OF 1(4)] obtain rt s2 where 2: "bool_temp s1 = (Inr rt, s2)" "rt \<notin> low_names s1"
    "low_names s2 = insert rt (low_names s1)" "low_ok s2" .
  from bool_temp_fresh [OF 2(4)] obtain rb s3 where 3: "bool_temp s2 = (Inr rb, s3)" "rb \<notin> low_names s2"
    "low_names s3 = insert rb (low_names s2)" "low_ok s3" .
  from bool_temp_fresh [OF 3(4)] obtain rr s4 where 4: "bool_temp s3 = (Inr rr, s4)" "rr \<notin> low_names s3"
    "low_names s4 = insert rr (low_names s3)" "low_ok s4" .
  show thesis
    by (rule that [of ri rt rb rr _ "s4\<lparr>next_op := Suc (next_op s4)\<rparr>"])
      (use 1 2 3 4 in \<open>auto simp: with_returned_flag_def bindE_def new_op_id_run retE_def\<close>)
qed

section \<open>The result of the pass\<close>

lemma rewritten_no_return: "\<not> has_return (rewrite_returns rv rb rf ops)"
  by (induction ops rule: traverse_induct) simp_all

lemma rewritten_quiet: "quiet_loops ops \<Longrightarrow> quiet_loops (rewrite_returns rv rb rf ops)"
  by (induction ops rule: traverse_induct) simp_all

lemma quiet_append: "quiet_loops (xs @ ys) \<longleftrightarrow> quiet_loops xs \<and> quiet_loops ys"
  by (auto simp: quiet_loops_def traverse_append)

lemma loop_blocks:
  assumes "lower_for_with_return in_for (Loop i r init ps body rs # ops) st = (Inr ops', st')"
  obtains body' s1 new s2 ops'' where "lower_for_with_return (in_for \<or> r \<noteq> None) body st = (Inr body', s1)"
    and "(if (r \<noteq> None \<or> in_for) \<and> has_return body' then with_returned_flag i r init ps body' rs else retE [Loop i r init ps body' rs]) s1 = (Inr new, s2)"
    and "lower_for_with_return in_for ops s2 = (Inr ops'', st')" and "ops' = new @ ops''"
  using assms by (auto simp: bindE_Inr_iff retE_def)

lemma flag_quiet:
  assumes "(if P \<and> has_return body' then with_returned_flag i r init ps body' rs else retE [Loop i r init ps body' rs]) s = (Inr new, s')"
    and "quiet_loops body'" and P
  shows "quiet_loops new"
proof (cases "has_return body'")
  case True
  with assms(1) \<open>P\<close> show ?thesis using rewritten_no_return rewritten_quiet [OF assms(2)]
    by (auto simp: with_returned_flag_def bindE_Inr_iff retE_def)
next
  case False
  then show ?thesis using assms(1,2) by (auto simp: retE_def)
qed

lemma lowered_quiet: "lower_for_with_return True ops st = (Inr ops', st') \<Longrightarrow> quiet_loops ops'"
proof (induction ops arbitrary: st st' ops' rule: traverse_induct)
  case (Loop i r init ps body rs ops)
  from Loop.prems obtain body' s1 new s2 ops'' where b: "lower_for_with_return (True \<or> r \<noteq> None) body st = (Inr body', s1)"
    and 2: "(if (r \<noteq> None \<or> True) \<and> has_return body' then with_returned_flag i r init ps body' rs else retE [Loop i r init ps body' rs]) s1 = (Inr new, s2)"
    and 3: "lower_for_with_return True ops s2 = (Inr ops'', st')" "ops' = new @ ops''"
    by (rule loop_blocks)
  have "lower_for_with_return True body st = (Inr body', s1)" using b by simp
  then have "quiet_loops new" by (intro flag_quiet [OF 2 Loop.IH(1)]) simp_all
  then show ?case using Loop.IH(2) [OF 3(1)] 3(2) by (simp add: quiet_append)
next
  case (IfElse i c T E rs ops)
  then obtain T' s1 E' s2 ops'' where "lower_for_with_return True T st = (Inr T', s1)" "lower_for_with_return True E s1 = (Inr E', s2)"
    "lower_for_with_return True ops s2 = (Inr ops'', st')" "ops' = IfElse i c T' E' rs # ops''"
    by (auto simp: bindE_Inr_iff retE_def)
  then show ?case using IfElse.IH by simp
next
  case (TileFold i k ids xs ps body rs ops)
  then obtain body' s1 ops'' where "lower_for_with_return True body st = (Inr body', s1)"
    "lower_for_with_return True ops s1 = (Inr ops'', st')" "ops' = TileFold i k ids xs ps body' rs # ops''"
    by (auto simp: bindE_Inr_iff retE_def)
  then show ?case using TileFold.IH by simp
qed (auto simp: bindE_Inr_iff retE_def)

theorem return_lowers:
  assumes b: "bool_consts M f t"
  shows "well_nested ops l tg \<Longrightarrow> distinct (defined_vars ops) \<Longrightarrow> set (defined_vars ops) \<subseteq> N \<Longrightarrow>
    lowers M n N (lower_for_with_return in_for ops) ops"
proof (induction ops arbitrary: in_for l tg rule: traverse_induct)
  case Nil
  show ?case by (rule lowersI) (auto simp: retE_def refines_def)
next
  case (Operation c rs xs ops)
  then show ?case by (intro lowers_Operation [where low = "lower_for_with_return in_for ops"]) auto
next
  case (Loop i r init ps body rs ops)
  let ?li = "\<lparr>loop_is_for = (r \<noteq> None), loop_body_vars = body_vars r ps, loop_result_vars = rs\<rparr>"
  let ?P = "\<lambda>body'. (r \<noteq> None \<or> in_for) \<and> has_return body'" and ?F = "\<lambda>body'. with_returned_flag i r init ps body' rs"
  show ?case
  proof (rule lowers_Loop [where P = ?P and F = ?F])
    show "lowers M n N (lower_for_with_return (in_for \<or> r \<noteq> None) body) body"
      by (rule Loop.IH(1) [of "Some ?li" None]) (use Loop.prems in auto)
    show "lowers M n N (lower_for_with_return in_for ops) ops" by (rule Loop.IH(2)) (use Loop.prems in auto)
    show "set rs \<union> set ps \<union> set (defined_vars body) \<subseteq> N" using Loop.prems by auto
  next
    fix body' st0 st assume low: "lower_for_with_return (in_for \<or> r \<noteq> None) body st0 = (Inr body', st)"
      and p: "(r \<noteq> None \<or> in_for) \<and> has_return body'" and st: "low_ok st" "N \<subseteq> low_names st"
      and body: "refines M n N body body'" "set (defined_vars body') \<subseteq> set (defined_vars body) \<union> (low_names st - N)"
    have "lower_for_with_return True body st0 = (Inr body', st)" using low p by (auto simp: disj_commute)
    then have quiet: "quiet_loops body'" by (rule lowered_quiet)
    from st(1) obtain ri rt rb rr k st' where w: "with_returned_flag i r init ps body' rs st = (Inr [
        Operation (TypedConst (PyBool False)) [ri] [], Operation (TypedConst (PyBool True)) [rt] [],
        Loop i r (init @ [ri]) (ps @ [rb]) (rewrite_returns (body_vars r ps) rb rt body') (rs @ [rr]),
        IfElse k rr [Operation Return [] []] [EndBranch []] []], st')"
      "low_ok st'" "low_names st' = {ri, rt, rb, rr} \<union> low_names st" "{ri, rt, rb, rr} \<inter> low_names st = {}" "distinct [ri, rt, rb, rr]"
      by (rule with_returned_flag_run)
    let ?new = "[Operation (TypedConst (PyBool False)) [ri] [], Operation (TypedConst (PyBool True)) [rt] [],
      Loop i r (init @ [ri]) (ps @ [rb]) (rewrite_returns (body_vars r ps) rb rt body') (rs @ [rr]),
      IfElse k rr [Operation Return [] []] [EndBranch []] []]"
    have B: "set (defined_vars body') \<subseteq> low_names st" using body(2) Loop.prems(3) st(2) by auto
    have "refines M n N (Loop i r init ps body rs # ops) (?new @ ops')" if ops: "refines M n N ops ops'" for ops'
      unfolding append_Cons append_Nil
    proof (rule returned_loop_refines [OF b])
      show "{ri, rt, rb, rr} \<inter> N = {}" using w(4) st(2) by blast
      show "rb \<notin> set (defined_vars body')" "rt \<notin> set (defined_vars body')" using B w(4) by blast+
      show "set ps \<inter> set (defined_vars body') = {}" using body(2) Loop.prems(2,3) by auto
    qed (use Loop.prems w(5) body(1) quiet ops in auto)
    moreover have "set (defined_vars ?new) \<subseteq> set rs \<union> set ps \<union> set (defined_vars body') \<union> (low_names st' - low_names st)"
      using w(3,4) rewrite_returns_defines [of "body_vars r ps" rb rt body'] by auto
    ultimately show "\<exists>new st'. with_returned_flag i r init ps body' rs st = (Inr new, st') \<and> low_ok st' \<and> low_names st \<subseteq> low_names st' \<and>
        set (defined_vars new) \<subseteq> set rs \<union> set ps \<union> set (defined_vars body') \<union> (low_names st' - low_names st) \<and>
        (\<forall>ops'. refines M n N ops ops' \<longrightarrow> refines M n N (Loop i r init ps body rs # ops) (new @ ops'))"
      using w(1,2,3) by blast
  qed simp
next
  case (IfElse i c T E rs ops)
  show ?case
  proof (rule lowers_IfElse)
    show "lowers M n N (lower_for_with_return in_for T) T" by (rule IfElse.IH(1) [of l "Some rs"]) (use IfElse.prems in auto)
    show "lowers M n N (lower_for_with_return in_for E) E" by (rule IfElse.IH(2) [of l "Some rs"]) (use IfElse.prems in auto)
    show "lowers M n N (lower_for_with_return in_for ops) ops" by (rule IfElse.IH(3)) (use IfElse.prems in auto)
  qed (use IfElse.prems in auto)
next
  case (TileFold i k ids xs ps body rs ops)
  show ?case
  proof (rule lowers_TileFold)
    show "lowers M n N (lower_for_with_return in_for body) body" by (rule TileFold.IH(1) [of None "Some rs"]) (use TileFold.prems in auto)
    show "lowers M n N (lower_for_with_return in_for ops) ops" by (rule TileFold.IH(2)) (use TileFold.prems in auto)
  qed (use TileFold.prems in auto)
next
  case (Continue vs ops)
  then show ?case by (intro lowers_jump [where low = "lower_for_with_return in_for ops"]) auto
next
  case (Break vs ops)
  then show ?case by (intro lowers_jump [where low = "lower_for_with_return in_for ops"]) auto
next
  case (EndBranch vs ops)
  then show ?case by (intro lowers_jump [where low = "lower_for_with_return in_for ops"]) auto
qed

text \<open>In the body of a \<^verbatim>\<open>for\<close> loop and in the loops inside it no \<^verbatim>\<open>return\<close> is left.\<close>

fun returns_in_for :: "ir_op \<Rightarrow> bool" where
  "returns_in_for (Loop i r init ps body rs) \<longleftrightarrow> r \<noteq> None \<and> (has_return body \<or> \<not> quiet_loops body)"
| "returns_in_for _ \<longleftrightarrow> False"

lemma rewritten_return_loops: "op \<in> set (traverse (rewrite_returns rv rb rf ops)) \<Longrightarrow> returns_in_for op \<Longrightarrow> op \<in> set (traverse ops)"
  by (induction ops rule: traverse_induct) (auto split: if_splits)

lemma flag_no_return:
  assumes new: "(if (r \<noteq> None \<or> in_for) \<and> has_return body' then with_returned_flag i r init ps body' rs
      else retE [Loop i r init ps body' rs]) s = (Inr new, s')"
    and body: "\<And>op. op \<in> set (traverse body') \<Longrightarrow> \<not> returns_in_for op" and quiet: "r \<noteq> None \<Longrightarrow> quiet_loops body'"
    and op: "op \<in> set (traverse new)"
  shows "\<not> returns_in_for op"
proof (cases "(r \<noteq> None \<or> in_for) \<and> has_return body'")
  case True
  with new obtain ri rt rb rr k where "new = [Operation (TypedConst (PyBool False)) [ri] [], Operation (TypedConst (PyBool True)) [rt] [],
      Loop i r (init @ [ri]) (ps @ [rb]) (rewrite_returns (body_vars r ps) rb rt body') (rs @ [rr]),
      IfElse k rr [Operation Return [] []] [EndBranch []] []]"
    by (auto simp: with_returned_flag_def bindE_Inr_iff retE_def)
  then show ?thesis using op body quiet rewritten_return_loops [of op] rewritten_no_return rewritten_quiet by auto
next
  case False
  then have "new = [Loop i r init ps body' rs]" "r \<noteq> None \<Longrightarrow> \<not> has_return body'" using new by (auto simp: retE_def)
  then show ?thesis using op body quiet by auto
qed

lemma lowered_no_return:
  "lower_for_with_return in_for ops st = (Inr ops', st') \<Longrightarrow> op \<in> set (traverse ops') \<Longrightarrow> \<not> returns_in_for op"
proof (induction ops arbitrary: in_for st st' ops' op rule: traverse_induct)
  case (Loop i r init ps body rs ops)
  from Loop.prems(1) obtain body' s1 new s2 ops'' where 1: "lower_for_with_return (in_for \<or> r \<noteq> None) body st = (Inr body', s1)"
    and 2: "(if (r \<noteq> None \<or> in_for) \<and> has_return body' then with_returned_flag i r init ps body' rs else retE [Loop i r init ps body' rs]) s1 = (Inr new, s2)"
    and 3: "lower_for_with_return in_for ops s2 = (Inr ops'', st')" "ops' = new @ ops''" by (rule loop_blocks)
  have "quiet_loops body'" if "r \<noteq> None" using lowered_quiet 1 that by simp
  then have "\<not> returns_in_for x" if "x \<in> set (traverse new)" for x
    using flag_no_return [OF 2 Loop.IH(1) [OF 1] _ that] by blast
  then show ?case using Loop.IH(2) [OF 3(1)] Loop.prems(2) 3(2) by (auto simp: traverse_append)
next
  case (IfElse i c T E rs ops)
  then obtain T' s1 E' s2 ops'' where "lower_for_with_return in_for T st = (Inr T', s1)" "lower_for_with_return in_for E s1 = (Inr E', s2)"
    "lower_for_with_return in_for ops s2 = (Inr ops'', st')" "ops' = IfElse i c T' E' rs # ops''"
    by (auto simp: bindE_Inr_iff retE_def)
  then show ?case using IfElse.IH IfElse.prems(2) by auto
next
  case (TileFold i k ids xs ps body rs ops)
  then obtain body' s1 ops'' where "lower_for_with_return in_for body st = (Inr body', s1)"
    "lower_for_with_return in_for ops s1 = (Inr ops'', st')" "ops' = TileFold i k ids xs ps body' rs # ops''"
    by (auto simp: bindE_Inr_iff retE_def)
  then show ?case using TileFold.IH TileFold.prems(2) by auto
qed (fastforce simp: bindE_Inr_iff retE_def)+

text \<open>C11. Lowering of \<^verbatim>\<open>return\<close>: on a well-nested program in SSA form \<^verbatim>\<open>lower_for_with_return\<close> does not raise, no
  \<^verbatim>\<open>return\<close> is left in a \<^verbatim>\<open>for\<close> loop, in its branches, or in a loop of any kind that stands in it, and each run of the original is
  a run of the new program with the same outcome and state: a \<^verbatim>\<open>return\<close> leaves all the loops around it, with
  nothing of their bodies or of the code behind them executed.\<close>

theorem lower_return_preserves_runs:
  assumes "lowerable ctx root" and "bool_consts M f t" and "dom \<rho> \<subseteq> ctx_names ctx" and "exec M n root \<rho> s = Some r"
  shows "\<exists>root' st. lower_for_with_return False root \<lparr>lower_ctx = ctx, next_op = k\<rparr> = (Inr root', st) \<and>
    (\<forall>op \<in> set (traverse root'). \<not> returns_in_for op) \<and> exec M n root' \<rho> s = Some r"
proof -
  have "lowers M n (ctx_names ctx) (lower_for_with_return False root) root"
    by (rule return_lowers [OF assms(2)]) (use assms(1) in \<open>auto simp: lowerable_def\<close>)
  from lowered_runs [OF this assms(1,3,4)] lowered_no_return show ?thesis by metis
qed

text \<open>\<^verbatim>\<open>for i in range(3): for j in range(3): s = i + j; print(s); if s >= 3: return\<close>, then \<^verbatim>\<open>print(3)\<close>.\<close>

definition return_program :: "ir_op list" where
  "return_program = [
     Operation (TypedConst (PyInt 0)) [''zero''] [], Operation (TypedConst (PyInt 1)) [''one''] [],
     Operation (TypedConst (PyInt 3)) [''three''] [],
     Loop 0 (Some (''zero'', ''three'', ''one'')) [] [''i'']
       [Loop 1 (Some (''zero'', ''three'', ''one'')) [] [''j'']
         [Operation (RawBinaryArithmeticOperation ''add'' None False) [''s''] [''i'', ''j''],
          Operation print_op [] [''s''], Operation (RawComparisonOperation ''ge'') [''c''] [''s'', ''three''],
          IfElse 2 ''c'' [Operation Return [] []] [EndBranch []] [], Continue []] [],
        Continue []] [],
     Operation print_op [] [''three''], Operation Return [] []]"

lemma lower_return_preserves_runs_witness:
  "\<exists>root' st. lower_for_with_return False return_program \<lparr>lower_ctx = names_context (defined_vars return_program), next_op = 3\<rparr> = (Inr root', st) \<and>
    (\<forall>op \<in> set (traverse root'). \<not> returns_in_for op) \<and> exec flag_machine 9 root' (\<lambda>_. None) [] = Some (Returned, [0, 1, 2, 1, 2, 3])"
proof (rule lower_return_preserves_runs [OF _ flag_machine_consts])
  show "lowerable (names_context (defined_vars return_program)) return_program" by code_simp
  show "exec flag_machine 9 return_program (\<lambda>_. None) [] = Some (Returned, [0, 1, 2, 1, 2, 3])" by code_simp
qed simp

end
