(* ===== verification/Spec2Isabelle.thy ===== *)
theory Spec2Isabelle
  imports BcExample KernelNames DcePass CodeMotionPass DataflowProps EliminateAssign AssumeProps ForBreak ForReturn
begin

text \<open>
  Verification of cuTile Python: the bytecode writer, kernel signatures and their mangled names, the
  data types, and the passes over the intermediate representation.

  The program is a compiler.  A decorated Python function is turned into an intermediate
  representation (\<^verbatim>\<open>src/cuda/tile/_ir\<close>), rewritten by passes (\<^verbatim>\<open>src/cuda/tile/_passes\<close>), written as a
  bytecode file (\<^verbatim>\<open>src/cuda/tile/_bytecode\<close>) that an external assembler reads, and given a symbol name
  that determines its calling convention and the constraints of its parameters
  (\<^verbatim>\<open>src/cuda/tile/compilation\<close>).  The model follows the code from the bottom up; names are those of the
  source, in snake case, wherever HOL allows it.

  \<^bold>\<open>Foundations.\<close>  \<open>Prelude\<close>: Python exceptions as a datatype, the state and exception monad \<open>eff\<close> and its
  laws, helper lemmas.  \<open>Bytes\<close>: byte strings as lists of \<open>8 word\<close>, readers, the locale of prefix codes.

  \<^bold>\<open>Bytecode\<close> (\<^verbatim>\<open>_bytecode\<close>).
  \<open>BcBasic\<close> (\<^verbatim>\<open>basic.py\<close>: varints, integer lists, interning tables), \<open>BcTypes\<close> (\<^verbatim>\<open>version.py\<close>, \<^verbatim>\<open>type_base.py\<close>,
  \<^verbatim>\<open>type.py\<close>, \<^verbatim>\<open>constant.py\<close>), \<open>BcAttribute\<close> (\<^verbatim>\<open>attribute.py\<close>), \<open>BcDebugInfo\<close> (\<^verbatim>\<open>debug_info.py\<close>), \<open>BcCodeBuilder\<close>
  (\<^verbatim>\<open>code_builder.py\<close>), \<open>BcEncodings\<close> (\<^verbatim>\<open>encodings.py\<close>: the 110 encoders of operations), \<open>BcWriter\<close> and \<open>BcFile\<close>
  (\<^verbatim>\<open>writer.py\<close>, \<^verbatim>\<open>__init__.py\<close>).  \<open>BcOpWire\<close>, \<open>BcSchema\<close>, \<open>BcOpRoundtrip\<close>, \<open>BcBody\<close> and \<open>BcProgram\<close> are the reader's
  side: a decoder of operations, bodies and files that sees the bytes only, and the proofs that it
  inverts the encoders.  The table of operand and attribute layouts in \<open>BcSchema\<close> is proved to agree
  with every encoder, so a field written in the wrong order is a failing proof.  \<open>BcExample\<close> is a file
  written and read back.

  \<^bold>\<open>Data types, signatures, names.\<close>  \<open>DTypes\<close> (\<^verbatim>\<open>_datatype.py\<close> with the predicates and tables it imports
  from \<^verbatim>\<open>cext/dtype.h\<close> and \<^verbatim>\<open>cext/dtype.cpp\<close>), \<open>Signature\<close> (\<^verbatim>\<open>compilation/_signature.py\<close>), \<open>MangleText\<close>,
  \<open>MangleArray\<close> and \<open>Mangling\<close> (\<^verbatim>\<open>compilation/_name_mangling.py\<close>); \<open>ArrayRoundtrip\<close>, \<open>NameRoundtrip\<close> and
  \<open>KernelNames\<close> prove that demangling inverts mangling, and show four accepted signatures without a name.

  \<^bold>\<open>Passes.\<close>  \<open>IR\<close> (\<^verbatim>\<open>_ir/ir.py\<close>, \<^verbatim>\<open>_ir/control_flow_ops.py\<close>): contexts, variables, the tree of operations.
  \<open>IRSem\<close>: a structured operational semantics, parametric in a \<open>machine\<close> that says what a leaf operation
  does; it is the specification the passes are measured against.  \<open>Dce\<close> (\<^verbatim>\<open>_passes/dce.py\<close>) with \<open>DceFlow\<close>
  (the graph has the edges that the rules of the source ask for), \<open>DceProof\<close> (pruning simulates),
  \<open>DceTotal\<close> (the pass does not raise) and \<open>DcePass\<close> (both together, on an example).
  \<open>CodeMotion\<close> (\<^verbatim>\<open>_passes/code_motion.py\<close>) with \<open>CodeMotionScope\<close> (the bookkeeping of \<^verbatim>\<open>def_depth\<close> and \<^verbatim>\<open>min_depth\<close> is
  an invariant of the stack, so definitions stay in front of uses), \<open>CodeMotionKeep\<close> (operations are
  conserved, observable ones do not move) and \<open>CodeMotionPass\<close> (the properties, and two programs on which
  the dependencies that the code forgets break the scopes).
  \<open>Dataflow\<close> (\<^verbatim>\<open>_passes/dataflow_analysis.py\<close>) is an abstract interpretation; \<open>DataflowStep\<close> to \<open>DataflowProps\<close>
  prove that it describes every run of \<open>IRSem\<close> (\<open>DataflowSound\<close>, \<open>DataflowRun\<close>: what the operations do to
  integers and addresses; \<open>DataflowExec\<close>, \<open>DataflowBlock\<close>: runs in which every binding is checked;
  \<open>DataflowParams\<close>: arguments that meet the constraints of the signature; \<open>DataflowPass\<close>: the whole pass) and
  that its loop ends (\<open>DataflowTotal\<close>: the order in which predicates move down; \<open>DataflowEnds\<close>).  Elements of
  lists of arrays are modelled, but \<open>dataflow_sound\<close> is about programs that take none out of a list.
  \<open>Remap\<close> (\<^verbatim>\<open>Mapper\<close> and \<^verbatim>\<open>remap_operands\<close> of \<^verbatim>\<open>_ir/ir.py\<close>) holds what the passes that rename operands share;
  \<open>EliminateAssign\<close> (\<^verbatim>\<open>_passes/eliminate_assign_ops.py\<close>) is proved to keep every run and to leave no copy;
  \<open>AssumeDiv\<close>, \<open>AssumeRun\<close> and \<open>AssumeProps\<close> (\<^verbatim>\<open>_passes/propagate_divby.py\<close>) rest on \<open>dataflow_describes\<close>: the
  assumptions that the pass writes into the program hold in every run.
  \<open>LowerFlags\<close> holds what the two lowerings of jumps share (flags, and that runs do not depend on variables
  that a program does not read); \<open>ForReturn\<close> (\<^verbatim>\<open>_passes/for_loop_return.py\<close>) and \<open>ForBreak\<close>
  (\<^verbatim>\<open>_passes/for_loop_break.py\<close>) are proved to keep every run and to leave no such jump.

  \<^bold>\<open>Interfaces.\<close>  Locales state the contracts that components rely on (prefix codes of the reader, tables
  that intern, text formats that are read back in front of any rest, \<dots>); each is interpreted on the
  model's own definitions in the theory that provides them.

  \<^bold>\<open>Limits and fuel.\<close>  The decoders of bodies recurse over bytes and take fuel: \<open>body_fuel\<close> computes from a
  body how much is enough, and the round trips hold for every larger number.  Demanglers take \<open>limit\<close>, the
  recursion limit of the interpreter; names are read back for every limit above the depth of the
  parameters.  \<open>exec\<close> takes a bound on the iterations of a \<^verbatim>\<open>while\<close> loop; equalities of runs hold for every
  bound, the same on both sides.  All other loops are total functions with termination proofs.

  \<^bold>\<open>Not modelled.\<close>  Source locations and the texts of error messages; Python objects that a type of the model
  rules out (\<^verbatim>\<open>isinstance\<close> checks); \<^verbatim>\<open>ast2hir\<close> and \<^verbatim>\<open>hir2ir\<close>, which work on Python syntax trees and run coroutines;
  the type rules of single operations; the compiler driver, caches, tuner, backends and driver loading,
  which are I/O; C++ apart from the tables named above; the experimental packages.  Byte strings and
  texts are kept whole: encodings of Python strings to UTF-8 happen outside the model.
\<close>

section \<open>Programs\<close>

text \<open>C1. A bytecode file written through \<^verbatim>\<open>write_bytecode\<close> determines its program: a reader that sees
  only the bytes of the file recovers the version and, for every function, its name, signature,
  flags, hints and the tree of its instructions with all operands, attributes and nested blocks.\<close>

theorem program_roundtrip:
  assumes "write_bytecode n v client [] = (Inr (), out)"
    and "client (new_writer (varint n) v) = (Inr (), w)"
    and "builds v Q (new_writer (varint n) v) fs w" and "Q (table_keys (w_types w))"
    and "\<forall>f \<in> set fs. body_fuel (fe_body f) \<le> k"
  shows "dec_program k out = Some (v, fs)"
  using program_dec [OF assms(1) _ assms(5), of Q] assms(2-4) by simp

theorem program_roundtrip_witness: "dec_program 4 demo_file = Some (V_13_3, [demo_function])"
  by (rule program_roundtrip [OF demo_file_run, where Q = "\<lambda>_. True" and w = demo_final])
     (simp_all add: one_varint demo_client_run demo_builds demo_fuel)

text \<open>C14. The sections of a file: header with the version, function section, the global section when
  a global was defined, constants, debug information, types and strings, with the tables of the
  writer readable from them; the declared number of functions is the number written.\<close>

theorem file_layout:
  assumes "write_bytecode n v client [] = (Inr (), out)"
    and "client (new_writer (varint n) v) = (Inr (), w)" and "writer_ok w"
  shows "num_functions w = n \<and> (\<exists>ct db ty st. tail_decoded w ct db ty st \<and>
    dec_file out = Some (((version_major v, version_minor v, version_tag v),
      (2, w_buf w) # global_sections (w_globals w) @ [(4, ct), (3, db), (5, ty), (1, st)]), []))"
  using write_bytecode_dec [OF assms(1)] assms(2,3) by auto

theorem file_layout_witness:
  "num_functions demo_final = 1 \<and> (\<exists>ct db ty st. tail_decoded demo_final ct db ty st \<and>
    dec_file demo_file = Some ((((version_major V_13_3), version_minor V_13_3, version_tag V_13_3),
      (2, w_buf demo_final) # global_sections (w_globals demo_final) @ [(4, ct), (3, db), (5, ty), (1, st)]), []))"
  by (rule file_layout [OF demo_file_run]) (simp_all add: one_varint demo_client_run demo_final_ok)

text \<open>C22. A client that announces a number of functions other than the number it writes gets an
  \<^verbatim>\<open>AssertionError\<close>, and nothing after the header reaches the buffer.\<close>

theorem function_count_checked:
  assumes "0 \<le> n" and "client (new_writer (varint n) v) = (Inr (), w)" and "num_functions w \<noteq> n"
  shows "write_bytecode n v client b = (Inl AssertionError, b @ header_bytes v)"
  using assms by (simp add: write_bytecode_def write_header_eq bindE_def getE_def assertE_def)

theorem function_count_checked_witness:
  "write_bytecode 1 V_13_1 skipE [] = (Inl AssertionError, [] @ header_bytes V_13_1)"
  by (rule function_count_checked [where w = "new_writer (varint 1) V_13_1"])
     (simp_all add: new_writer_def)

section \<open>Instruction streams\<close>

text \<open>C5. The code of a function body is self-delimiting and decodable: whatever a client emits through
  the builder, in blocks and debug scopes nested to any depth, is read back as the same tree.\<close>

theorem instruction_stream_roundtrip:
  assumes "emits v Q s is u" and "cb_version s = v" and "cb_ok s"
  shows "\<exists>e. buf u = buf s @ e \<and> (\<forall>T rest n. later T u \<longrightarrow> Q (tab_types T) \<longrightarrow> instrs_depth is \<le> n \<longrightarrow>
    dec_n (dec_instr n v T) (length is) (e @ rest) = Some (is, rest))"
  using emits_stream(1) [OF assms] unfolding stream_ok_def by blast

theorem instruction_stream_roundtrip_witness:
  "\<exists>e. buf demo_end = buf demo_start @ e \<and> (\<forall>T rest n. later T demo_end \<longrightarrow> instrs_depth demo_instrs \<le> n \<longrightarrow>
    dec_n (dec_instr n V_13_3 T) (length demo_instrs) (e @ rest) = Some (demo_instrs, rest))"
  using instruction_stream_roundtrip [OF demo_run [of "\<lambda>_. True"] demo_start_ok] by simp

text \<open>C15. The counters of the builder follow the tree: \<^verbatim>\<open>num_ops\<close> counts the instructions of the
  region, \<^verbatim>\<open>next_value_id\<close> their results (values of nested blocks go out of scope), and one debug
  attribute is recorded per instruction, nested ones included.\<close>

theorem instruction_stream_counters:
  assumes "emits v Q s is u" and "cb_version s = v" and "cb_ok s"
  shows "num_ops u = num_ops s + int (length is)
    \<and> next_value_id u = next_value_id s + int (instrs_results is)
    \<and> (\<exists>as. debug_attr_per_op u = debug_attr_per_op s @ as \<and> length as = length (concat (List.map instr_ops is)))
    \<and> cur_debug_attr u = cur_debug_attr s"
  using emits_stream(1) [OF assms] unfolding stream_ok_def by blast

theorem instruction_stream_counters_witness:
  "num_ops demo_end = num_ops demo_start + int (length demo_instrs)
    \<and> next_value_id demo_end = next_value_id demo_start + int (instrs_results demo_instrs)
    \<and> (\<exists>as. debug_attr_per_op demo_end = debug_attr_per_op demo_start @ as
        \<and> length as = length (concat (List.map instr_ops demo_instrs)))
    \<and> cur_debug_attr demo_end = cur_debug_attr demo_start"
  by (rule instruction_stream_counters [OF demo_run demo_start_ok])

text \<open>C6. Every one of the 109 operation encoders writes what a reader of the instruction table takes
  back: the opcode and every field, under each bytecode version.\<close>

theorem encoder_roundtrip:
  assumes "op_call v Q m raw" and "m s = (Inr r, s')" and "cb_version s = v" and "cb_ok s"
  shows "\<exists>e. buf s' = buf s @ e \<and>
    (\<forall>T rest. later T s' \<longrightarrow> Q (tab_types T) \<longrightarrow> dec_op v T (e @ rest) = Some (raw, rest))"
  using op_call_writes [OF assms(1)] assms(2-4) unfolding op_writes_def by blast

theorem encoder_roundtrip_witness:
  "\<exists>e. buf (demo_state [16, 1, 0] 2 1 1) = buf demo_start @ e \<and>
    (\<forall>T rest. later T (demo_state [16, 1, 0] 2 1 1) \<longrightarrow>
      dec_op V_13_3 T (e @ rest) = Some (RawOp 16 [FTypeId (TypeId 1), FConst [42, 0, 0, 0]], rest))"
  using encoder_roundtrip [OF demo_constant_call [of _ "\<lambda>_. True"] demo_constant_run demo_start_ok] by simp

text \<open>C13. What an encoder returns agrees with what it wrote: the values it hands out are numbered from
  \<^verbatim>\<open>next_value_id\<close> and there is one per result type of the encoding, an operation with regions
  returns a block builder with the right counts, and exactly one operation is recorded.\<close>

theorem encoder_results:
  assumes "op_call v Q m raw" and "m s = (Inr r, s')" and "cb_version s = v" and "cb_ok s"
  shows "returns raw (next_value_id s) r (next_value_id s') \<and> num_ops s' = num_ops s + 1
    \<and> debug_attr_per_op s' = debug_attr_per_op s @ [cur_debug_attr s]"
  using op_call_writes [OF assms(1)] assms(2-4) unfolding op_writes_def by blast

theorem encoder_results_witness:
  "returns (RawOp 16 [FTypeId (TypeId 1), FConst [42, 0, 0, 0]]) (next_value_id demo_start)
     (OneResult (Value 0)) (next_value_id (demo_state [16, 1, 0] 2 1 1))
   \<and> num_ops (demo_state [16, 1, 0] 2 1 1) = num_ops demo_start + 1
   \<and> debug_attr_per_op (demo_state [16, 1, 0] 2 1 1) = debug_attr_per_op demo_start @ [cur_debug_attr demo_start]"
  by (rule encoder_results [OF demo_constant_call demo_constant_run demo_start_ok])

text \<open>No two operations share an opcode, and the instruction table has one entry per encoder.\<close>

theorem opcodes_unique:
  "distinct (List.map fst (instruction_table v)) \<and> length (instruction_table v) = 109"
  by (simp add: instruction_table_def)

text \<open>C16. However the body of a \<^verbatim>\<open>new_block\<close> ends, normally or by an exception, the value counter and
  the operation counter of the enclosing region are restored and its bytes are kept as a prefix.\<close>

theorem new_block_restores:
  assumes "new_block nb tys body s = (r, t)"
  shows "next_value_id t = next_value_id s \<and> num_ops t = num_ops s \<and> (\<exists>e. buf t = buf s @ e)"
  by (rule new_block_state [OF assms])

theorem new_block_restores_witness:
  "next_value_id (demo_state [5, 1, 0] 1 7 3) = next_value_id (demo_state [5] 1 7 3) \<and>
   num_ops (demo_state [5, 1, 0] 1 7 3) = num_ops (demo_state [5] 1 7 3) \<and>
   (\<exists>e. buf (demo_state [5, 1, 0] 1 7 3) = buf (demo_state [5] 1 7 3) @ e)"
proof -
  have "new_block \<lparr>nb_num_results = 1, nb_num_blocks = 1\<rparr> [] (\<lambda>_. raiseE ValueError) (demo_state [5] 1 7 3) =
      (Inl ValueError, demo_state [5, 1, 0] 1 7 3)" by code_simp
  from new_block_restores [OF this] show ?thesis .
qed

text \<open>C26. An exception in the body of a \<^verbatim>\<open>new_block\<close> leaves the header of the block (one block, its
  parameter types) in the outer buffer and nothing of the body, and restores both counters.\<close>

theorem block_exception:
  assumes "new_block_enter nb tys s = (Inr (vals, saved), u)" and "body vals u = (Inl x, w)"
  shows "new_block nb tys body s =
    (Inl x, w\<lparr>next_value_id := next_value_id s, num_ops := num_ops s,
       buf := buf s @ 1 # sized (\<lambda>t. varint (type_id t)) tys\<rparr>)"
  by (rule new_block_raise [OF assms(1), where body = body, OF assms(2)])

theorem block_exception_witness:
  "new_block \<lparr>nb_num_results = 1, nb_num_blocks = 1\<rparr> [] (\<lambda>_. raiseE ValueError) (demo_state [5] 1 7 3) =
    (Inl ValueError, (demo_state [] 1 7 0)\<lparr>next_value_id := next_value_id (demo_state [5] 1 7 3),
       num_ops := num_ops (demo_state [5] 1 7 3),
       buf := buf (demo_state [5] 1 7 3) @ 1 # sized (\<lambda>t. varint (type_id t)) []\<rparr>)"
proof -
  have "new_block_enter \<lparr>nb_num_results = 1, nb_num_blocks = 1\<rparr> [] (demo_state [5] 1 7 3) =
      (Inr ([], \<lparr>orig_buf = [5, 1, 0], orig_next_value_id = 7, orig_num_ops = 3\<rparr>), demo_state [] 1 7 0)"
    by code_simp
  from block_exception [where body = "\<lambda>_. raiseE ValueError", OF this] show ?thesis
    by (simp add: raiseE_def)
qed



section \<open>Tables and attributes\<close>

text \<open>C17. Interning a type keeps the type table dense and only extends it, and gives an id whose entry
  reads back as the type.\<close>

theorem type_entry_roundtrip:
  assumes "table_ok TypeId 0 t" and "intern_type v d t = (Inr i, t')"
  shows "table_ok TypeId 0 t' \<and> (\<exists>ys. table_keys t' = table_keys t @ ys)
    \<and> (\<exists>e. resolves (table_keys t') (type_id i) e \<and> dec_type v e = Some (d, []))"
  by (rule intern_type_entry [OF assms])

theorem type_entry_roundtrip_witness:
  "\<exists>e. resolves (table_keys (snd (intern_type V_13_4 demo_pointer new_type_table))) 2 e
     \<and> dec_type V_13_4 e = Some (demo_pointer, [])"
  using type_entry_roundtrip [OF new_type_table_ok demo_pointer_run] by (simp add: demo_pointer_run)

text \<open>C18. Two types get the same id exactly if they are the same type.\<close>

theorem type_ids_injective:
  assumes "table_ok TypeId 0 t" and "intern_type v d t = (Inr i, t1)"
    and "intern_type v d' t1 = (Inr j, t2)"
  shows "type_id i = type_id j \<longleftrightarrow> d = d'"
  by (rule intern_type_ids [OF assms])

theorem type_ids_injective_witness:
  "type_id (TypeId 0) = type_id (TypeId 1) \<longleftrightarrow> DSimple I1 = DSimple I32"
  by (rule type_ids_injective [OF new_type_table_ok, where v = V_13_1]) code_simp+

text \<open>C19. Tagged attributes (arrays, dictionaries and hints nested to any depth) are read back from
  their encoding, under any tables that extend the ones left by the encoder.\<close>

theorem tagged_attribute_roundtrip:
  assumes "table_ok StringId 0 ss" and "encode_tagged a (ss, b) = (Inr (), (ss', b'))"
  shows "table_ok StringId 0 ss' \<and> grows ss ss' \<and> (\<exists>e. b' = b @ e \<and>
    (\<forall>T rest. covers (tab_strings T) ss' \<longrightarrow> attr_typed (tab_types T) a \<longrightarrow>
       dec_attr (attr_depth a) T (e @ rest) = Some (wire_attr a, rest)))"
  using encode_tagged_wires(1) [of a "attr_depth a"] assms unfolding wires_def by fastforce

theorem tagged_attribute_roundtrip_witness:
  "\<exists>e. [11, 1, 0, 6, 2, 3, 1, 3, 0] = [] @ e \<and>
    (\<forall>T rest. covers (tab_strings T) [([115], StringId 0)] \<longrightarrow>
       dec_attr (attr_depth (OptimizationHints [([115], AttributeArray [BoolAttr True, BoolAttr False])])) T (e @ rest)
         = Some (wire_attr (OptimizationHints [([115], AttributeArray [BoolAttr True, BoolAttr False])]), rest))"
proof -
  have "encode_tagged (OptimizationHints [([115], AttributeArray [BoolAttr True, BoolAttr False])]) ([], []) =
      (Inr (), ([([115], StringId 0)], [11, 1, 0, 6, 2, 3, 1, 3, 0]))"
    by code_simp
  from tagged_attribute_roundtrip [OF table_ok_Nil this] show ?thesis by simp
qed

text \<open>C20. A debug attribute gets an id of at least 1 (0 is the missing attribute), and its table entry
  reads back as the attribute.\<close>

theorem debug_attribute_roundtrip:
  assumes "table_ok StringId 0 strings" and "table_ok DebugAttrId 1 attrs"
    and "intern_debug v d (strings, attrs) = (Inr i, (strings', attrs'))"
  shows "1 \<le> debug_attr_id i \<and> (\<exists>key. resolves (table_keys attrs') (debug_attr_id i - 1) key
    \<and> (\<forall>T. covers (tab_strings T) strings' \<longrightarrow> dec_debug v T key = Some (wire_debug d, [])))"
  using intern_debug_entry [OF assms] by blast

theorem debug_attribute_roundtrip_witness:
  "1 \<le> debug_attr_id (DebugAttrId 1) \<and> (\<exists>key. resolves (table_keys [([2, 0, 1], DebugAttrId 1)]) (debug_attr_id (DebugAttrId 1) - 1) key
    \<and> (\<forall>T. covers (tab_strings T) [([97], StringId 0), ([98], StringId 1)] \<longrightarrow>
         dec_debug V_13_2 T key = Some (wire_debug (DFile [97] [98]), [])))"
  by (rule debug_attribute_roundtrip [OF table_ok_Nil table_ok_Nil]) code_simp

section \<open>Numbers and sections\<close>

text \<open>C24. \<^verbatim>\<open>encode_varint\<close> rejects exactly the negative numbers, \<^verbatim>\<open>encode_signed_varint\<close> accepts
  every number, and what they append is decoded to the number.\<close>

theorem varint_outcome:
  "encode_varint x b = (if x < 0 then (Inl AssertionError, b) else (Inr (), b @ varint x))
   \<and> (x < 0 \<or> dec_varint (varint x @ rest) = Some (x, rest))
   \<and> encode_signed_varint y b = (Inr (), b @ varint (zigzag y))
   \<and> dec_signed_varint (varint (zigzag y) @ rest) = Some (y, rest)"
  using dec_varint_varint [of x rest] signed_varint.dec_enc [of y rest] by auto

text \<open>C25. \<^verbatim>\<open>encode_int_list\<close> succeeds exactly if every element fits the signed width, and then the list
  is read back; otherwise it raises \<^verbatim>\<open>OverflowError\<close>.\<close>

theorem int_list_outcome:
  "if list_all (fixed_signed_ok w) lst
   then encode_int_list lst w b = (Inr (), b @ sized (le_bytes w) lst)
     \<and> dec_sized (dec_signed w) (sized (le_bytes w) lst @ rest) = Some (lst, rest)
   else fst (encode_int_list lst w b) = Inl OverflowError"
  using encode_int_list_ok [of w lst b] encode_int_list_overflow [of w lst b] signed_le.dec_sized_enc [of w lst rest]
  by simp

text \<open>C23. A section is framed by its id, length and alignment: a reader skips the padding and takes
  exactly the content, which starts at a multiple of the alignment.\<close>

theorem section_frame:
  assumes "section_close i al content b = (Inr (), b')"
  shows "\<exists>e. b' = b @ e \<and>
    (\<forall>rest. dec_section (length (b' @ rest)) (e @ rest) = Some ((section_value i, content), rest)) \<and>
    (1 < al \<longrightarrow> int (length b' - length content) mod al = 0)"
  using section_close_dec [OF assms] by (elim exE conjE) (intro exI conjI, assumption+)

theorem section_frame_witness:
  "\<exists>e. [7, 133, 2, 4, 5, 6] = [7 :: byte] @ e \<and>
    (\<forall>rest. dec_section (length ([7, 133, 2, 4, 5, 6] @ rest)) (e @ rest) = Some ((section_value TypeSection, [5, 6]), rest)) \<and>
    ((1::int) < 4 \<longrightarrow> int (length [7 :: byte, 133, 2, 4, 5, 6] - length [5 :: byte, 6]) mod 4 = 0)"
proof -
  have "section_close TypeSection 4 [5, 6] [7] = (Inr (), [7, 133, 2, 4, 5, 6])"
    by (simp add: section_close_def varint_small)
  from section_frame [OF this] show ?thesis .
qed

lemma seqE_last: "seqE ms k s = (Inr x, t) \<Longrightarrow> \<exists>s'. k s' = (Inr x, t)"
  by (induction ms arbitrary: s) (auto simp: bindE_Inr_iff)

text \<open>C27. After a global is defined its name is taken: a second definition raises \<^verbatim>\<open>ValueError\<close> and
  leaves the writer as it was.\<close>

theorem duplicate_global_rejected:
  assumes "define_global name ty data al c vis w = (Inr (), w1)"
  shows "is_defined (w_globals w1) name
    \<and> define_global name ty' data' al' c' vis' w1 = (Inl ValueError, w1)"
proof -
  have "\<exists>w'. modifyE (\<lambda>w. w\<lparr>w_globals := (w_globals w)
      \<lparr>gs_defined_names := gs_defined_names (w_globals w) @ [name]\<rparr>\<rparr>) w' = (Inr (), w1)"
    using assms unfolding define_global_def
    by (elim bindE_Inr_E) (auto split: if_splits elim!: bindE_Inr_E dest: seqE_last)
  then have "is_defined (w_globals w1) name" by (auto simp: modifyE_def is_defined_def)
  then show ?thesis by (simp add: define_global_def bindE_get raiseE_def)
qed

theorem duplicate_global_rejected_witness:
  "\<exists>w1. is_defined (w_globals w1) [103] \<and> define_global [103] (TypeId 0) [] 1 True SV_Private w1 = (Inl ValueError, w1)"
proof -
  have "define_global [103] (TypeId 1) [1, 2] 16 False SV_Private (new_writer [] V_13_3) =
      (Inr (), snd (define_global [103] (TypeId 1) [1, 2] 16 False SV_Private (new_writer [] V_13_3)))"
    by code_simp
  from duplicate_global_rejected [OF this] show ?thesis by blast
qed

text \<open>\<^verbatim>\<open>patch_header_preview_flag\<close> changes only the tag of the header: its low bit is set and the
  bytes before and after it stay.\<close>

theorem preview_flag_patch:
  "\<exists>p. seqE [write_header v, buf_extend rest] (patch_header_preview_flag v) [] = (Inr (), p)
    \<and> take 10 p = take 10 (header_bytes v) \<and> dec_unsigned 2 (drop 10 p) = Some (or (version_tag v) 1, rest)"
proof -
  have "to_bytes_unsigned 2 (or (version_tag v) 1) = Inr (le_bytes 2 (or (version_tag v) 1))"
    by (cases v) (simp_all add: version_tag_def to_bytes_unsigned_def)
  moreover have "dec_unsigned 2 (le_bytes 2 (or (version_tag v) 1) @ rest) = Some (or (version_tag v) 1, rest)"
    by (rule unsigned_le.dec_enc) (cases v; simp add: version_tag_def)
  moreover have "length (header_bytes v) = 12"
    by (simp add: header_bytes_def magic_def)
  ultimately show ?thesis
    by (simp add: write_header_eq patch_header_preview_flag_def)
qed

end
